(* ===== verification/Prelude.thy ===== *)
theory Prelude
  imports Main "HOL-Library.Word" "HOL-Library.Char_ord" "HOL-Library.List_Lexorder"
    "HOL-Library.Monad_Syntax" "HOL-Library.Sublist"
begin

text \<open>
  What every component shares: the collections of rewrite rules, the model's type names
  (strings of bytes, results, effectful computations), the propagation of an error through
  a computation, and lemmas on lists and prefixes.

  A \<open>std::string\<close> is a list of 8-bit characters; \<open>Char_ord\<close> and \<open>List_Lexorder\<close> order
  strings as \<open>std::string::compare\<close> does (lexicographically, characters as unsigned bytes).
  A \<open>std::expected<T, Error>\<close> is a sum with the error on the left. A computation that reads or
  changes the outside (backends, files) threads a world of type \<open>'w\<close>; \<open>None\<close> means that the
  code returns no value at all (it loops, or leaves the range the language defines).
\<close>

named_theorems result_simps \<open>unfolding of the result combinators and of the io computations\<close>
named_theorems step_simps \<open>characteristic equations of one pull, poll or step\<close>

datatype error = Error (err_code: string) (err_message: string)

type_synonym 'a result = "error + 'a"
type_synonym ('w, 'a) io = "'w \<Rightarrow> ('a result \<times> 'w) option"

abbreviation Ok :: "'a \<Rightarrow> 'a result" where "Ok x \<equiv> Inr x"
abbreviation Err :: "string \<Rightarrow> string \<Rightarrow> 'a result" where "Err c m \<equiv> Inl (Error c m)"

text \<open>
  \<open>io_bind\<close> is the code's pattern \<open>auto r = m(); if (!r) return std::unexpected(r.error());\<close>
  followed by the rest of the function.
\<close>

definition io_bind :: "('w, 'a) io \<Rightarrow> ('a \<Rightarrow> ('w, 'b) io) \<Rightarrow> ('w, 'b) io" where
  "io_bind m f w = (case m w of
      None \<Rightarrow> None
    | Some (r, w') \<Rightarrow> (case r of Inl e \<Rightarrow> Some (Inl e, w') | Inr x \<Rightarrow> f x w'))"

definition io_return :: "'a \<Rightarrow> ('w, 'a) io" where
  "io_return x w = Some (Inr x, w)"

definition io_throw :: "error \<Rightarrow> ('w, 'a) io" where
  "io_throw e w = Some (Inl e, w)"

definition io_lift :: "'a result \<Rightarrow> ('w, 'a) io" where
  "io_lift r w = Some (r, w)"

lemma io_bind_simps [result_simps]:
  "m w = None \<Longrightarrow> io_bind m f w = None"
  "m w = Some (Inl e, w') \<Longrightarrow> io_bind m f w = Some (Inl e, w')"
  "m w = Some (Inr x, w') \<Longrightarrow> io_bind m f w = f x w'"
  by (simp_all add: io_bind_def)

lemma io_return_apply [result_simps]: "io_return x w = Some (Inr x, w)"
  by (simp add: io_return_def)

lemma io_throw_apply [result_simps]: "io_throw e w = Some (Inl e, w)"
  by (simp add: io_throw_def)

lemma io_lift_apply [result_simps]: "io_lift r w = Some (r, w)"
  by (simp add: io_lift_def)

lemma io_bind_return [simp]: "io_bind (io_return x) f = f x"
  by (rule ext) (simp add: io_bind_def io_return_def)

lemma io_bind_throw [simp]: "io_bind (io_throw e) f = io_throw e"
  by (rule ext) (simp add: io_bind_def io_throw_def)

lemma io_bind_return_right [simp]: "io_bind m io_return = m"
  by (rule ext) (auto simp: io_bind_def io_return_def split: option.splits sum.splits)

lemma io_bind_assoc: "io_bind (io_bind m f) g = io_bind m (\<lambda>x. io_bind (f x) g)"
  by (rule ext) (simp add: io_bind_def split: option.splits sum.splits)

lemma io_bind_OkD:
  assumes "io_bind m f w = Some (Inr y, w'')"
  obtains x w' where "m w = Some (Inr x, w')" "f x w' = Some (Inr y, w'')"
  using assms by (auto simp: io_bind_def split: option.splits sum.splits prod.splits)


subsection \<open>Prefixes of strings\<close>

text \<open>\<open>std::string::starts_with\<close>.\<close>

definition starts_with :: "string \<Rightarrow> string \<Rightarrow> bool" where
  "starts_with s p \<longleftrightarrow> take (length p) s = p"

lemma starts_with_prefix: "starts_with s p \<longleftrightarrow> prefix p s"
  unfolding starts_with_def
  by (metis append_eq_conv_conj append_take_drop_id prefix_def)

lemma starts_with_Nil [simp]: "starts_with s []"
  by (simp add: starts_with_def)

text \<open>A message's quoted name: \<open>'name'\<close>.\<close>

definition quoted :: "string \<Rightarrow> string" where
  "quoted s = CHR 0x27 # s @ [CHR 0x27]"

lemma less_append_same: "(q @ x < q @ y) \<longleftrightarrow> x < (y :: string)" "(q @ x \<le> q @ y) \<longleftrightarrow> x \<le> y"
  by (induction q) auto

end
