(* ===== verification/Core_Types.thy ===== *)
theory Core_Types
  imports Prelude
begin

text \<open>
  The data shared by the dispatch and backend layers (\<open>include/celer/core/types.hpp\<close>) and the
  combinators on results (\<open>include/celer/core/result.hpp\<close>). The combinators of the code whose
  names clash with HOL constants carry the suffix \<open>_result\<close>.
\<close>

subsection \<open>Data types\<close>

record KVPair =
  kv_key :: string
  kv_value :: string

datatype BatchKind = put_kind | del_kind

record BatchOp =
  op_kind :: BatchKind
  op_cf_name :: string
  op_key :: string
  op_value :: "string option"

record TableDescriptor =
  td_scope :: string
  td_table :: string

abbreviation KV :: "string \<Rightarrow> string \<Rightarrow> KVPair" where
  "KV k v \<equiv> \<lparr>kv_key = k, kv_value = v\<rparr>"

subsection \<open>Results\<close>

definition is_ok :: "'a result \<Rightarrow> bool" where
  "is_ok r = (case r of Inl e \<Rightarrow> False | Inr x \<Rightarrow> True)"

definition and_then_result :: "'a result \<Rightarrow> ('a \<Rightarrow> 'b result) \<Rightarrow> 'b result" where
  "and_then_result r fn = (case r of Inr x \<Rightarrow> fn x | Inl e \<Rightarrow> Inl e)"

definition map_result :: "'a result \<Rightarrow> ('a \<Rightarrow> 'b) \<Rightarrow> 'b result" where
  "map_result r fn = (case r of Inr x \<Rightarrow> Inr (fn x) | Inl e \<Rightarrow> Inl e)"

definition or_else_result :: "'a result \<Rightarrow> (error \<Rightarrow> 'a result) \<Rightarrow> 'a result" where
  "or_else_result r fn = (case r of Inr x \<Rightarrow> Inr x | Inl e \<Rightarrow> fn e)"

definition value_or_result :: "'a result \<Rightarrow> 'a \<Rightarrow> 'a" where
  "value_or_result r fallback = (case r of Inr x \<Rightarrow> x | Inl e \<Rightarrow> fallback)"

lemma result_combinator_simps [simp]:
  "is_ok (Inr x)" "\<not> is_ok (Inl e)"
  "and_then_result (Inr x) f = f x" "and_then_result (Inl e) f = Inl e"
  "map_result (Inr x) g = Inr (g x)" "map_result (Inl e) g = Inl e"
  "or_else_result (Inr x) h = Inr x" "or_else_result (Inl e) h = h e"
  "value_or_result (Inr x) d = x" "value_or_result (Inl e) d = d"
  by (simp_all add: is_ok_def and_then_result_def map_result_def or_else_result_def
      value_or_result_def)

text \<open>
  \<open>and_then\<close> is the bind of a monad whose unit is success, \<open>map\<close> is its functor, and
  \<open>or_else\<close> is its dual on errors.
\<close>

lemma and_then_assoc:
  "and_then_result (and_then_result r f) g = and_then_result r (\<lambda>x. and_then_result (f x) g)"
  by (cases r) simp_all

lemma map_via_and_then: "map_result r f = and_then_result r (\<lambda>x. Inr (f x))"
  by (cases r) simp_all

subsection \<open>Decimal numbers\<close>

text \<open>\<open>std::to_string\<close> of an unsigned integer.\<close>

fun decimal :: "nat \<Rightarrow> string" where
  "decimal n = (if n < 10 then [char_of (48 + n)] else decimal (n div 10) @ [char_of (48 + n mod 10)])"

declare decimal.simps [simp del]

end
