(* ===== verification/Symbol_Table.thy ===== *)
theory Symbol_Table
  imports Core_Types
begin

unbundle bit_operations_syntax

text \<open>
  \<open>FlatSymbolTable\<close> (\<open>include/celer/core/symbol_table.hpp\<close>): an open-addressing table of a
  power-of-two capacity with cached hashes, filled once and read by a bounded linear probe.

  \<open>std::hash<std::string_view>\<close> is not fixed by the language, so the hash function is a
  parameter \<open>hash\<close> of the definitions, and the theorems hold for every hash function, also
  for one that maps all keys to the same slot. Slot indices are natural numbers (they stay
  below the capacity, far below \<open>2^64\<close>); hashes and the stored key length keep their widths.
\<close>

subsection \<open>Slots\<close>

record Slot =
  slot_hash :: "64 word"
  slot_value :: nat
  key_len :: "8 word"
  occupied :: bool
  key_buf :: string
  key_heap :: string

definition max_probe :: nat where "max_probe = 8"
definition sso_capacity :: nat where "sso_capacity = 48"

definition empty_slot :: Slot where
  "empty_slot = \<lparr>slot_hash = 0, slot_value = 0, key_len = 0, occupied = False,
     key_buf = replicate sso_capacity (CHR 0x00), key_heap = []\<rparr>"

definition key_view :: "Slot \<Rightarrow> string" where
  "key_view s = (if unat (key_len s) \<le> sso_capacity
     then take (unat (key_len s)) (key_buf s) else key_heap s)"

text \<open>\<open>memcpy\<close> overwrites the first bytes of the inline buffer and leaves the rest.\<close>

definition set_key :: "Slot \<Rightarrow> string \<Rightarrow> Slot" where
  "set_key s k =
     (let s1 = s\<lparr>key_len := word_of_nat (if length k \<le> 255 then length k else 255)\<rparr>
      in if length k \<le> sso_capacity
         then s1\<lparr>key_buf := k @ drop (length k) (key_buf s1)\<rparr>
         else s1\<lparr>key_heap := k, key_len := 255\<rparr>)"

definition slot_matches :: "Slot \<Rightarrow> 64 word \<Rightarrow> string \<Rightarrow> bool" where
  "slot_matches s h k = (if slot_hash s \<noteq> h then False else key_view s = k)"

subsection \<open>The table\<close>

record FlatSymbolTable =
  st_slots :: "Slot list"
  st_mask :: nat
  st_count :: nat

definition empty_table :: FlatSymbolTable where
  "empty_table = \<lparr>st_slots = [], st_mask = 0, st_count = 0\<rparr>"

text \<open>\<open>while (cap < n * 2) cap <<= 1\<close>.\<close>

function pow2_loop :: "nat \<Rightarrow> nat \<Rightarrow> nat" where
  "pow2_loop n cap = (if 0 < cap \<and> cap < n * 2 then pow2_loop n (2 * cap) else cap)"
  by pat_completeness auto
termination
  by (relation "measure (\<lambda>(n, cap). 2 * n - cap)") auto

declare pow2_loop.simps [simp del]

definition next_pow2 :: "nat \<Rightarrow> nat" where
  "next_pow2 n = (let n = (if n < 4 then 4 else n) in pow2_loop n 16)"

text \<open>One insertion: the first free slot on the probe sequence takes the key.\<close>

fun insert_probe :: "Slot list \<Rightarrow> nat \<Rightarrow> nat \<Rightarrow> 64 word \<Rightarrow> nat \<Rightarrow> string \<Rightarrow> nat list \<Rightarrow> Slot list" where
  "insert_probe slots msk pos h v k [] = slots"
| "insert_probe slots msk pos h v k (probe # probes) =
     (let i = (pos + probe) AND msk; slot = slots ! i in
      if \<not> occupied slot
      then slots[i := (set_key (slot\<lparr>slot_hash := h, slot_value := v\<rparr>) k)\<lparr>occupied := True\<rparr>]
      else insert_probe slots msk pos h v k probes)"

fun build_loop :: "(string \<Rightarrow> 64 word) \<Rightarrow> nat \<Rightarrow> nat \<Rightarrow> Slot list \<Rightarrow> (string \<times> nat) list \<Rightarrow> Slot list" where
  "build_loop hash cap msk slots [] = slots"
| "build_loop hash cap msk slots ((k, v) # kvs) =
     (let h = hash k; pos = unat h AND msk
      in build_loop hash cap msk (insert_probe slots msk pos h v k [0..<cap]) kvs)"

text \<open>The code asserts that there are as many keys as values; extra values are not read.\<close>

definition build :: "(string \<Rightarrow> 64 word) \<Rightarrow> string list \<Rightarrow> nat list \<Rightarrow> FlatSymbolTable" where
  "build hash keys values =
     (let n = length keys; cap = next_pow2 n in
      \<lparr>st_slots = build_loop hash cap (cap - 1) (replicate cap empty_slot) (zip keys values),
       st_mask = cap - 1, st_count = n\<rparr>)"

definition build_indexed :: "(string \<Rightarrow> 64 word) \<Rightarrow> 'c list \<Rightarrow> ('c \<Rightarrow> string) \<Rightarrow> FlatSymbolTable" where
  "build_indexed hash children name_fn =
     build hash (map name_fn children) [0..<length children]"

fun find_probe :: "Slot list \<Rightarrow> nat \<Rightarrow> nat \<Rightarrow> 64 word \<Rightarrow> string \<Rightarrow> nat list \<Rightarrow> nat option" where
  "find_probe slots msk pos h k [] = None"
| "find_probe slots msk pos h k (probe # probes) =
     (let slot = slots ! ((pos + probe) AND msk) in
      if \<not> occupied slot then None
      else if slot_matches slot h k then Some (slot_value slot)
      else find_probe slots msk pos h k probes)"

definition table_find :: "(string \<Rightarrow> 64 word) \<Rightarrow> FlatSymbolTable \<Rightarrow> string \<Rightarrow> nat option" where
  "table_find hash t k =
     (if st_count t = 0 then None
      else let h = hash k; pos = unat h AND st_mask t;
               bound = (if st_count t < max_probe then max_probe else st_count t)
           in find_probe (st_slots t) (st_mask t) pos h k [0..<bound])"

definition table_contains :: "(string \<Rightarrow> 64 word) \<Rightarrow> FlatSymbolTable \<Rightarrow> string \<Rightarrow> bool" where
  "table_contains hash t k = (table_find hash t k \<noteq> None)"

subsection \<open>Keys survive the inline buffer\<close>

lemma unat_word8_small: "n \<le> 255 \<Longrightarrow> unat (word_of_nat n :: 8 word) = n"
  by (simp add: unat_of_nat)

lemma key_view_set_key: "key_view (set_key s k) = k"
proof (cases "length k \<le> sso_capacity")
  case True
  then have "unat (word_of_nat (length k) :: 8 word) = length k"
    by (intro unat_word8_small) (simp add: sso_capacity_def)
  with True show ?thesis
    by (simp add: set_key_def key_view_def Let_def sso_capacity_def)
next
  case False
  then show ?thesis
    by (simp add: set_key_def key_view_def Let_def sso_capacity_def)
qed

lemma set_key_frame [simp]:
  "slot_hash (set_key s k) = slot_hash s" "slot_value (set_key s k) = slot_value s"
  "occupied (set_key s k) = occupied s"
  by (simp_all add: set_key_def Let_def)

lemma key_view_occupied_update [simp]: "key_view (s\<lparr>occupied := b\<rparr>) = key_view s"
  by (simp add: key_view_def)

subsection \<open>The capacity\<close>

lemma pow2_loop_pow2: "cap = 2 ^ m \<Longrightarrow> \<exists>m'. pow2_loop n cap = 2 ^ m'"
proof (induction n cap arbitrary: m rule: pow2_loop.induct)
  case (1 n cap)
  show ?case
  proof (cases "0 < cap \<and> cap < n * 2")
    case True
    from 1(2) have "2 * cap = 2 ^ Suc m" by simp
    with 1(1)[OF True] True show ?thesis by (metis pow2_loop.simps)
  next
    case False
    with 1(2) show ?thesis by (metis pow2_loop.simps)
  qed
qed

lemma pow2_loop_ge: "0 < cap \<Longrightarrow> cap \<le> pow2_loop n cap \<and> n * 2 \<le> pow2_loop n cap"
proof (induction n cap rule: pow2_loop.induct)
  case (1 n cap)
  show ?case
  proof (cases "cap < n * 2")
    case True
    with 1 have "2 * cap \<le> pow2_loop n (2 * cap) \<and> n * 2 \<le> pow2_loop n (2 * cap)" by simp
    with True 1(2) show ?thesis by (simp add: pow2_loop.simps [of n cap])
  next
    case False
    then show ?thesis by (simp add: pow2_loop.simps [of n cap])
  qed
qed

lemma next_pow2_pow2: "\<exists>m. next_pow2 n = 2 ^ m"
  using pow2_loop_pow2 [of 16 4] by (simp add: next_pow2_def Let_def)

lemma next_pow2_bounds: "2 * n \<le> next_pow2 n" "16 \<le> next_pow2 n"
  using pow2_loop_ge [of 16 "if n < 4 then 4 else n"]
  by (auto simp: next_pow2_def Let_def split: if_splits)

lemma and_mask_mod: "(x::nat) AND (2 ^ m - 1) = x mod 2 ^ m"
  by (metis mask_eq_exp_minus_1 take_bit_eq_mask take_bit_eq_mod)


subsection \<open>The probe invariant\<close>

text \<open>
  \<open>probe_at hash cap k d\<close> is the slot at distance \<open>d\<close> from the home slot of \<open>k\<close>.
  The invariant \<open>holds_pairs\<close> relates the slots to the pairs inserted so far, oldest first:
  a key that was inserted sits behind occupied slots only, its first value is the first one on
  its probe sequence, and its distance is below the number of insertions; a key that was not
  inserted is in no slot.
\<close>

definition probe_at :: "(string \<Rightarrow> 64 word) \<Rightarrow> nat \<Rightarrow> string \<Rightarrow> nat \<Rightarrow> nat" where
  "probe_at hash cap k d = ((unat (hash k) AND (cap - 1)) + d) AND (cap - 1)"

definition holds_key :: "Slot \<Rightarrow> string \<Rightarrow> bool" where
  "holds_key s k \<longleftrightarrow> occupied s \<and> key_view s = k"

definition stored_at :: "(string \<Rightarrow> 64 word) \<Rightarrow> nat \<Rightarrow> Slot list \<Rightarrow> string \<Rightarrow> nat \<Rightarrow> nat \<Rightarrow> bool" where
  "stored_at hash cap slots k v d \<longleftrightarrow>
     (let s = slots ! probe_at hash cap k d in
        holds_key s k \<and> slot_hash s = hash k \<and> slot_value s = v) \<and>
     (\<forall>d'<d. let s = slots ! probe_at hash cap k d' in occupied s \<and> key_view s \<noteq> k)"

definition holds_pairs :: "(string \<Rightarrow> 64 word) \<Rightarrow> nat \<Rightarrow> Slot list \<Rightarrow> (string \<times> nat) list \<Rightarrow> bool" where
  "holds_pairs hash cap slots kvs \<longleftrightarrow>
     length slots = cap \<and> card {i. i < cap \<and> occupied (slots ! i)} = length kvs \<and>
     (\<forall>k. case map_of kvs k of
        None \<Rightarrow> \<forall>i<cap. \<not> holds_key (slots ! i) k
      | Some v \<Rightarrow> \<exists>d<length kvs. d < cap \<and> stored_at hash cap slots k v d)"

lemma probe_at_mod: "cap = 2 ^ m \<Longrightarrow> probe_at hash cap k d = (unat (hash k) + d) mod cap"
  by (simp add: probe_at_def and_mask_mod mod_add_left_eq del: One_nat_def)

lemma probe_at_less: "cap = 2 ^ m \<Longrightarrow> probe_at hash cap k d < cap"
  by (simp add: probe_at_mod)

lemma add_mod_cancel:
  fixes n :: nat
  assumes "(a + d) mod n = (a + d') mod n" "d < n" "d' < n"
  shows "d = d'"
proof -
  have "x = y" if "(a + x) mod n = (a + y) mod n" "x \<le> y" "y < n" for x y
  proof -
    from that(1) [symmetric] that(2) have "n dvd (a + y) - (a + x)"
      by (subst mod_eq_dvd_iff_nat [symmetric]) simp_all
    then have "n dvd y - x" by simp
    with that show ?thesis by (auto dest: dvd_imp_le)
  qed
  from this [of d d'] this [of d' d] assms show ?thesis by (cases "d \<le> d'") auto
qed

lemma probe_at_inj: "cap = 2 ^ m \<Longrightarrow> inj_on (probe_at hash cap k) {..<cap}"
  by (rule inj_onI) (auto simp: probe_at_mod dest: add_mod_cancel)

text \<open>With a free slot left, the insertion probe finds the first free slot of its sequence.\<close>

lemma insert_probe_first_free:
  assumes "d < cap" "\<not> occupied (slots ! ((pos + d) AND msk))"
    and "\<And>d'. d0 \<le> d' \<Longrightarrow> d' < d \<Longrightarrow> occupied (slots ! ((pos + d') AND msk))" and "d0 \<le> d"
  shows "insert_probe slots msk pos h v k [d0..<cap] =
    (let i = (pos + d) AND msk in
     slots[i := (set_key ((slots ! i)\<lparr>slot_hash := h, slot_value := v\<rparr>) k)\<lparr>occupied := True\<rparr>])"
  using assms
proof (induction "d - d0" arbitrary: d0)
  case 0
  then have "d0 = d" by simp
  with 0 show ?case by (simp add: upt_conv_Cons)
next
  case (Suc x)
  then have "d0 < d" "d0 < cap" by simp_all
  with Suc.prems have occ: "occupied (slots ! ((pos + d0) AND msk))" by simp
  have "insert_probe slots msk pos h v k [d0..<cap] = insert_probe slots msk pos h v k [Suc d0..<cap]"
    using occ \<open>d0 < cap\<close> by (simp add: upt_conv_Cons)
  also have "\<dots> = (let i = (pos + d) AND msk in
     slots[i := (set_key ((slots ! i)\<lparr>slot_hash := h, slot_value := v\<rparr>) k)\<lparr>occupied := True\<rparr>])"
    using Suc.prems Suc.hyps(2) \<open>d0 < d\<close> by (intro Suc.hyps(1)) simp_all
  finally show ?case .
qed

lemma first_free_exists:
  assumes cap: "cap = 2 ^ m" and "length slots = cap"
    and room: "card {i. i < cap \<and> occupied (slots ! i)} < cap"
  obtains d where "d < cap" "d \<le> card {i. i < cap \<and> occupied (slots ! i)}"
    "\<not> occupied (slots ! probe_at hash cap k d)"
    "\<And>d'. d' < d \<Longrightarrow> occupied (slots ! probe_at hash cap k d')"
proof -
  let ?O = "{i. i < cap \<and> occupied (slots ! i)}" and ?f = "probe_at hash cap k"
  have "\<exists>d\<le>card ?O. \<not> occupied (slots ! ?f d)"
  proof (rule ccontr)
    assume "\<not> ?thesis"
    then have "?f ` {..card ?O} \<subseteq> ?O"
      using probe_at_less [OF cap] by auto
    then have "card (?f ` {..card ?O}) \<le> card ?O" by (intro card_mono) auto
    moreover have "inj_on ?f {..card ?O}"
      by (rule inj_on_subset [OF probe_at_inj [OF cap]]) (use room in auto)
    ultimately show False by (simp add: card_image)
  qed
  then obtain d0 where "d0 \<le> card ?O" "\<not> occupied (slots ! ?f d0)" by blast
  define d where "d = (LEAST d. \<not> occupied (slots ! ?f d))"
  have "\<not> occupied (slots ! ?f d)"
    unfolding d_def by (rule LeastI) (rule \<open>\<not> occupied (slots ! ?f d0)\<close>)
  moreover have "d \<le> d0"
    unfolding d_def by (rule Least_le) (rule \<open>\<not> occupied (slots ! ?f d0)\<close>)
  moreover have "occupied (slots ! ?f d')" if "d' < d" for d'
    using not_less_Least [of d' "\<lambda>d. \<not> occupied (slots ! ?f d)"] that by (auto simp: d_def)
  moreover from \<open>d \<le> d0\<close> \<open>d0 \<le> card ?O\<close> room have "d < cap" "d \<le> card ?O" by linarith+
  ultimately show thesis by (intro that)
qed


lemma card_occupied_insert:
  assumes "i < length slots" "\<not> occupied (slots ! i)" "occupied s"
  shows "card {j. j < length slots \<and> occupied (slots[i := s] ! j)} =
    Suc (card {j. j < length slots \<and> occupied (slots ! j)})"
proof -
  have "{j. j < length slots \<and> occupied (slots[i := s] ! j)} =
      insert i {j. j < length slots \<and> occupied (slots ! j)}" (is "?L = insert i ?R")
  proof (rule set_eqI)
    fix j
    show "j \<in> ?L \<longleftrightarrow> j \<in> insert i ?R"
      using assms by (cases "j = i") simp_all
  qed
  moreover have "i \<notin> ?R" "finite ?R" using assms(2) by simp_all
  ultimately show ?thesis by (metis card_insert_disjoint)
qed

lemma stored_at_other:
  assumes "stored_at hash cap slots k v d" "length slots = cap" "cap = 2 ^ m"
    and "\<not> occupied (slots ! i)"
  shows "stored_at hash cap (slots[i := s]) k v d"
proof -
  have "slots[i := s] ! probe_at hash cap k d' = slots ! probe_at hash cap k d'" if "d' \<le> d" for d'
  proof -
    from assms(1) that have "occupied (slots ! probe_at hash cap k d')"
      by (cases "d' = d") (auto simp: stored_at_def holds_key_def Let_def)
    with assms(4) have "probe_at hash cap k d' \<noteq> i" by auto
    then show ?thesis by simp
  qed
  with assms(1) show ?thesis by (simp add: stored_at_def)
qed

lemma map_of_snoc: "map_of (kvs @ [(k, v)]) k' =
    (case map_of kvs k' of None \<Rightarrow> (if k' = k then Some v else None) | Some v' \<Rightarrow> Some v')"
  by (auto simp: map_add_def split: option.splits)

lemma holds_pairs_NoneD:
  "holds_pairs hash cap slots kvs \<Longrightarrow> map_of kvs k = None \<Longrightarrow> i < cap \<Longrightarrow> \<not> holds_key (slots ! i) k"
  unfolding holds_pairs_def by (metis (mono_tags, lifting) option.case(1))

lemma holds_pairs_SomeD:
  assumes "holds_pairs hash cap slots kvs" "map_of kvs k = Some v"
  obtains d where "d < length kvs" "d < cap" "stored_at hash cap slots k v d"
proof -
  from assms(1) [unfolded holds_pairs_def, THEN conjunct2, THEN conjunct2, rule_format, of k]
  have "case map_of kvs k of
        None \<Rightarrow> \<forall>i<cap. \<not> holds_key (slots ! i) k
      | Some v \<Rightarrow> \<exists>d<length kvs. d < cap \<and> stored_at hash cap slots k v d" .
  with assms(2) that show thesis by auto
qed

lemma holds_pairs_insert:
  assumes inv: "holds_pairs hash cap slots kvs" and cap: "cap = 2 ^ m" and room: "length kvs < cap"
  shows "holds_pairs hash cap
    (insert_probe slots (cap - 1) (unat (hash k) AND (cap - 1)) (hash k) v k [0..<cap]) (kvs @ [(k, v)])"
proof -
  from inv have len: "length slots = cap"
    and crd: "card {i. i < cap \<and> occupied (slots ! i)} = length kvs"
    by (simp_all add: holds_pairs_def)
  obtain d where d: "d < cap" "d \<le> length kvs" "\<not> occupied (slots ! probe_at hash cap k d)"
    "\<And>d'. d' < d \<Longrightarrow> occupied (slots ! probe_at hash cap k d')"
    using first_free_exists [OF cap len] room crd by metis
  define i where "i = probe_at hash cap k d"
  define s where "s = (set_key ((slots ! i)\<lparr>slot_hash := hash k, slot_value := v\<rparr>) k)\<lparr>occupied := True\<rparr>"
  have ins: "insert_probe slots (cap - 1) (unat (hash k) AND (cap - 1)) (hash k) v k [0..<cap] = slots[i := s]"
    using d by (subst insert_probe_first_free [where d = d])
      (simp_all add: probe_at_def i_def s_def Let_def)
  have i: "i < cap" "\<not> occupied (slots ! i)"
    using d probe_at_less [OF cap] by (simp_all add: i_def)
  have s: "holds_key s k' \<longleftrightarrow> k' = k" "occupied s" "slot_hash s = hash k" "slot_value s = v" for k'
    by (auto simp: s_def holds_key_def key_view_set_key)
  have "case map_of (kvs @ [(k, v)]) k' of
      None \<Rightarrow> \<forall>j<cap. \<not> holds_key (slots[i := s] ! j) k'
    | Some v' \<Rightarrow> \<exists>d<length (kvs @ [(k, v)]). d < cap \<and> stored_at hash cap (slots[i := s]) k' v' d" for k'
  proof (cases "map_of kvs k'")
    case None
    have no: "\<forall>j<cap. \<not> holds_key (slots ! j) k'"
      using holds_pairs_NoneD [OF inv None] by blast
    show ?thesis
    proof (cases "k' = k")
      case False
      with None no i show ?thesis by (auto simp: map_of_snoc nth_list_update len s simp del: map_of_append)
    next
      case True
      have "slots[i := s] ! probe_at hash cap k d' = slots ! probe_at hash cap k d'" if "d' < d" for d'
        using d(4) [OF that] i by (metis nth_list_update_neq)
      moreover have "key_view (slots ! probe_at hash cap k d') \<noteq> k" if "d' < d" for d'
        using no d(4) [OF that] probe_at_less [OF cap] True by (auto simp: holds_key_def)
      ultimately have "stored_at hash cap (slots[i := s]) k v d"
        using s i len d(4) by (simp add: stored_at_def i_def [symmetric] Let_def)
      with True None d show ?thesis by (auto simp: map_of_snoc simp del: map_of_append intro!: exI [of _ d])
    qed
  next
    case (Some v')
    obtain d' where "d' < length kvs" "d' < cap" "stored_at hash cap slots k' v' d'"
      using holds_pairs_SomeD [OF inv Some] .
    with stored_at_other [OF _ len cap i(2)] Some show ?thesis
      by (auto simp: map_of_snoc simp del: map_of_append intro!: exI [of _ d'])
  qed
  moreover have "card {j. j < cap \<and> occupied (slots[i := s] ! j)} = Suc (length kvs)"
    using card_occupied_insert [of i slots s] i s len crd by simp
  ultimately show ?thesis
    unfolding ins holds_pairs_def using len by (simp del: map_of_append)
qed


lemma holds_pairs_empty:
  "holds_pairs hash cap (replicate cap empty_slot) []"
  by (simp add: holds_pairs_def holds_key_def empty_slot_def)

lemma holds_pairs_build_loop:
  assumes "cap = 2 ^ m" "length kvs + length done \<le> cap" "holds_pairs hash cap slots done"
  shows "holds_pairs hash cap (build_loop hash cap (cap - 1) slots kvs) (done @ kvs)"
  using assms(2,3)
proof (induction kvs arbitrary: slots "done")
  case Nil
  then show ?case by simp
next
  case (Cons kv kvs)
  obtain k v where kv: "kv = (k, v)" by fastforce
  let ?slots = "insert_probe slots (cap - 1) (unat (hash k) AND (cap - 1)) (hash k) v k [0..<cap]"
  have "holds_pairs hash cap ?slots (done @ [(k, v)])"
    using Cons.prems assms(1) by (intro holds_pairs_insert) simp_all
  from Cons.IH [OF _ this] Cons.prems(1) show ?case
    by (simp add: kv Let_def)
qed

text \<open>The table a build returns holds its pairs, whatever the hash function.\<close>

lemma build_holds_pairs:
  assumes "length keys = length values"
  shows "holds_pairs hash (next_pow2 (length keys)) (st_slots (build hash keys values)) (zip keys values)"
proof -
  obtain m where m: "next_pow2 (length keys) = 2 ^ m" using next_pow2_pow2 by blast
  have "length (zip keys values) + length [] \<le> next_pow2 (length keys)"
    using next_pow2_bounds [of "length keys"] assms by simp
  from holds_pairs_build_loop [OF m this holds_pairs_empty, of hash] show ?thesis
    by (simp add: build_def Let_def)
qed

lemma find_probe_absent:
  assumes "\<And>d. d \<in> set ds \<Longrightarrow> \<not> holds_key (slots ! ((pos + d) AND msk)) k"
  shows "find_probe slots msk pos h k ds = None"
  using assms by (induction ds) (auto simp: holds_key_def slot_matches_def Let_def)

lemma find_probe_found:
  assumes "d < bound" "d0 \<le> d"
    and "let s = slots ! ((pos + d) AND msk) in holds_key s k \<and> slot_hash s = h \<and> slot_value s = v"
    and "\<And>d'. d0 \<le> d' \<Longrightarrow> d' < d \<Longrightarrow>
      (let s = slots ! ((pos + d') AND msk) in occupied s \<and> key_view s \<noteq> k)"
  shows "find_probe slots msk pos h k [d0..<bound] = Some v"
  using assms
proof (induction "d - d0" arbitrary: d0)
  case 0
  then have "d0 = d" by simp
  with 0 show ?case by (simp add: upt_conv_Cons holds_key_def slot_matches_def Let_def)
next
  case (Suc x)
  then have "d0 < d" by simp
  with Suc.prems(4) [of d0] have "find_probe slots msk pos h k [d0..<bound] =
      find_probe slots msk pos h k [Suc d0..<bound]"
    using Suc.prems(1) by (simp add: upt_conv_Cons slot_matches_def Let_def)
  also have "\<dots> = Some v"
    using Suc.prems Suc.hyps(2) \<open>d0 < d\<close> by (intro Suc.hyps(1)) simp_all
  finally show ?case .
qed

lemma find_build:
  assumes "length keys = length values"
  shows "table_find hash (build hash keys values) k = map_of (zip keys values) k"
proof (cases "keys = []")
  case True
  then show ?thesis by (simp add: table_find_def build_def Let_def)
next
  case False
  let ?t = "build hash keys values" and ?cap = "next_pow2 (length keys)"
  define bound where "bound = (if length keys < max_probe then max_probe else length keys)"
  obtain m where m: "?cap = 2 ^ m" using next_pow2_pow2 by blast
  have inv: "holds_pairs hash ?cap (st_slots ?t) (zip keys values)"
    using assms by (rule build_holds_pairs)
  have t: "st_count ?t = length keys" "st_mask ?t = ?cap - 1"
    by (simp_all add: build_def Let_def)
  have "find_probe (st_slots ?t) (?cap - 1) (unat (hash k) AND (?cap - 1)) (hash k) k [0..<bound]
      = map_of (zip keys values) k"
  proof (cases "map_of (zip keys values) k")
    case None
    then show ?thesis
      using holds_pairs_NoneD [OF inv None] probe_at_less [OF m, of hash k]
      by (simp add: find_probe_absent probe_at_def)
  next
    case (Some v)
    obtain d where "d < length (zip keys values)" "stored_at hash ?cap (st_slots ?t) k v d"
      using holds_pairs_SomeD [OF inv Some] .
    then show ?thesis
      using assms by (subst find_probe_found [where d = d and v = v])
        (auto simp: Some stored_at_def probe_at_def bound_def)
  qed
  with False show ?thesis
    by (auto simp: table_find_def t Let_def bound_def split: if_splits)
qed


subsection \<open>The interface of a name index\<close>

text \<open>
  What the users of the table (the composite tree, the actor system, the cluster service)
  rely on: an index over a list of names finds the first position of a name. Everything else
  about positions follows inside the locale.
\<close>

locale name_index =
  fixes mk :: "string list \<Rightarrow> 't"
    and look :: "'t \<Rightarrow> string \<Rightarrow> nat option"
  assumes look_mk: "look (mk names) k = map_of (zip names [0..<length names]) k"
begin

lemma look_None_iff: "look (mk names) k = None \<longleftrightarrow> k \<notin> set names"
  by (simp add: look_mk map_of_eq_None_iff flip: set_map)

lemma look_in_range: "look (mk names) k = Some i \<Longrightarrow> i < length names \<and> names ! i = k"
  unfolding look_mk by (drule map_of_SomeD) (auto simp: set_zip)

lemma look_first: "look (mk names) k = Some i \<Longrightarrow> j < i \<Longrightarrow> names ! j \<noteq> k"
  unfolding look_mk
proof (induction names arbitrary: i rule: rev_induct)
  case Nil
  then show ?case by simp
next
  case (snoc n names)
  from snoc.prems(1) have "map_of (zip names [0..<length names] @ [(n, length names)]) k = Some i"
    by simp
  then consider "map_of (zip names [0..<length names]) k = Some i"
    | "map_of (zip names [0..<length names]) k = None" "i = length names"
    by (auto simp: map_of_snoc simp del: map_of_append split: option.splits if_splits)
  then show ?case
  proof cases
    case 1
    then have "i < length names"
      by (auto dest!: map_of_SomeD simp: set_zip)
    with 1 snoc.IH snoc.prems(2) show ?thesis by (simp add: nth_append)
  next
    case 2
    then have "k \<notin> set names" by (simp add: map_of_eq_None_iff flip: set_map)
    with 2 snoc.prems(2) show ?thesis by (auto simp: nth_append)
  qed
qed

lemma look_nth:
  assumes "distinct names" "i < length names"
  shows "look (mk names) (names ! i) = Some i"
proof -
  from assms(2) have "names ! i \<in> set names" by simp
  then obtain j where j: "look (mk names) (names ! i) = Some j"
    using look_None_iff by (cases "look (mk names) (names ! i)") auto
  with look_in_range have "j < length names" "names ! j = names ! i" by blast+
  with j assms show ?thesis by (simp add: nth_eq_iff_index_eq)
qed

lemma look_cases:
  obtains (absent) "k \<notin> set names" "look (mk names) k = None"
  | (first) i where "look (mk names) k = Some i" "i < length names" "names ! i = k"
      "\<And>j. j < i \<Longrightarrow> names ! j \<noteq> k"
  by (cases "look (mk names) k") (use look_None_iff look_in_range look_first in blast)+

end

interpretation flat: name_index "\<lambda>names. build hash names [0..<length names]" "table_find hash"
  for hash
  by unfold_locales (simp add: find_build)

lemma build_indexed_build:
  "build_indexed hash children name_fn =
     build hash (map name_fn children) [0..<length (map name_fn children)]"
  by (simp add: build_indexed_def)

end
