(* ===== verification/Pull_Stream.thy ===== *)
theory Pull_Stream
  imports Core_Types
begin

text \<open>
  The pull-based streams of \<open>include/celer/core/stream.hpp\<close>.

  A stream implementation of the code is an object with a method \<open>pull()\<close>; a
  \<open>StreamHandle\<close> erases its type behind a vtable. Here an implementation is a state of type
  \<open>'s\<close> with a function of type \<open>('w, 's, 'a) pull\<close> that takes the state and the world and
  returns the pull's result, the new state and the new world. The wrapped source of a
  combinator is its state and its pull function, as the vtable's \<open>pull_fn\<close> is in the code, so
  a combinator is a record over the source's state and a function from the source's pull to
  its own. A chunk is the list of its elements (\<open>Arc_Chunk\<close> relates it to the shared
  buffers). \<open>None\<close> as a pull's value means that the pull does not return.
\<close>

type_synonym ('w, 's, 'a) pull = "'s \<Rightarrow> 'w \<Rightarrow> ('a list option result \<times> 's \<times> 'w) option"

subsection \<open>Chunks as lists\<close>

text \<open>
  \<open>Chunk::from\<close> casts the vector's size to 32 bits and copies that many elements;
  \<open>Chunk::build\<close> runs its builder over a given capacity and keeps what it wrote.
\<close>

definition chunk_from :: "'a list \<Rightarrow> 'a list" where
  "chunk_from data = take (unat (word_of_nat (length data) :: 32 word)) data"

definition chunk_slice :: "'a list \<Rightarrow> nat \<Rightarrow> nat \<Rightarrow> 'a list" where
  "chunk_slice c off len =
     (if off \<ge> length c then []
      else let avail = length c - off; real_len = min len avail in take real_len (drop off c))"

lemma chunk_from_small: "length data < 2 ^ 32 \<Longrightarrow> chunk_from data = data"
  by (simp add: chunk_from_def unat_of_nat)

lemma chunk_from_Nil [simp]: "chunk_from [] = []"
  by (simp add: chunk_from_def)

lemma chunk_slice_take_drop: "chunk_slice c off len = take len (drop off c)"
  by (simp add: chunk_slice_def Let_def min_def)

subsection \<open>Handles\<close>

text \<open>A moved-from or default-constructed handle has no context: pulling it is an error.\<close>

definition handle_pull :: "('w, 's, 'a) pull \<Rightarrow> ('w, 's option, 'a) pull" where
  "handle_pull pull_fn h w = (case h of
      None \<Rightarrow> Some (Err ''StreamPull'' ''use-after-move or default-constructed'', None, w)
    | Some ctx \<Rightarrow> do { (r, ctx', w') \<leftarrow> pull_fn ctx w; Some (r, Some ctx', w') })"

definition handle_clone :: "('s \<Rightarrow> 's) \<Rightarrow> 's option \<Rightarrow> 's option" where
  "handle_clone clone_fn h = (case h of None \<Rightarrow> None | Some ctx \<Rightarrow> Some (clone_fn ctx))"

subsection \<open>Sources\<close>

datatype EmptyImpl = EmptyImpl

definition empty_pull :: "('w, EmptyImpl, 'a) pull" where
  "empty_pull s w = Some (Inr None, s, w)"

record 'a SingletonImpl =
  sg_value :: "'a option"

definition singleton_pull :: "('w, 'a SingletonImpl, 'a) pull" where
  "singleton_pull s w = (case sg_value s of
      None \<Rightarrow> Some (Inr None, s, w)
    | Some v \<Rightarrow> Some (Inr (Some [v]), s\<lparr>sg_value := None\<rparr>, w))"

record 'a FromVectorImpl =
  fv_data :: "'a list option"

definition from_vector_pull :: "('w, 'a FromVectorImpl, 'a) pull" where
  "from_vector_pull s w = (case fv_data s of
      None \<Rightarrow> Some (Inr None, s, w)
    | Some data \<Rightarrow>
        (if data = [] then Some (Inr None, s, w)
         else Some (Inr (Some (chunk_from data)), s\<lparr>fv_data := None\<rparr>, w)))"

definition from_vector :: "'a list \<Rightarrow> 'a FromVectorImpl" where
  "from_vector data = \<lparr>fv_data = Some data\<rparr>"

record FromStringImpl =
  fs_data :: "string option"

definition from_string_pull :: "('w, FromStringImpl, char) pull" where
  "from_string_pull s w = (case fs_data s of
      None \<Rightarrow> Some (Inr None, s, w)
    | Some data \<Rightarrow>
        (if data = [] then Some (Inr None, s, w)
         else let chars = data in
              Some (Inr (Some (chunk_from chars)), s\<lparr>fs_data := None\<rparr>, w)))"

definition from_string :: "string \<Rightarrow> FromStringImpl" where
  "from_string s = \<lparr>fs_data = Some s\<rparr>"

subsection \<open>Combinators\<close>

record 's MapImpl =
  map_source :: 's

definition map_pull :: "('a \<Rightarrow> 'b) \<Rightarrow> ('w, 's, 'a) pull \<Rightarrow> ('w, 's MapImpl, 'b) pull" where
  "map_pull fn src s w = do {
     (r, src', w') \<leftarrow> src (map_source s) w;
     let s' = s\<lparr>map_source := src'\<rparr>;
     (case r of
        Inl e \<Rightarrow> Some (Inl e, s', w')
      | Inr None \<Rightarrow> Some (Inr None, s', w')
      | Inr (Some chunk) \<Rightarrow> Some (Inr (Some (map fn chunk)), s', w')) }"

text \<open>The loop of \<open>FilterImpl::pull\<close> runs until a chunk keeps an element.\<close>

record 's FilterImpl =
  filter_source :: 's

partial_function (option) filter_pull ::
  "('a \<Rightarrow> bool) \<Rightarrow> ('w, 's, 'a) pull \<Rightarrow> 's FilterImpl \<Rightarrow> 'w \<Rightarrow>
     ('a list option result \<times> 's FilterImpl \<times> 'w) option" where
  "filter_pull pred src s w = do {
     (r, src', w') \<leftarrow> src (filter_source s) w;
     let s' = s\<lparr>filter_source := src'\<rparr>;
     (case r of
        Inl e \<Rightarrow> Some (Inl e, s', w')
      | Inr None \<Rightarrow> Some (Inr None, s', w')
      | Inr (Some chunk) \<Rightarrow>
          let filtered = filter pred chunk in
          if filtered \<noteq> [] then Some (Inr (Some filtered), s', w')
          else filter_pull pred src s' w') }"

record 's TakeImpl =
  take_source :: 's
  take_remaining :: nat

definition take_pull :: "('w, 's, 'a) pull \<Rightarrow> ('w, 's TakeImpl, 'a) pull" where
  "take_pull src s w =
     (if take_remaining s = 0 then Some (Inr None, s, w)
      else do {
        (r, src', w') \<leftarrow> src (take_source s) w;
        let s' = s\<lparr>take_source := src'\<rparr>;
        (case r of
           Inl e \<Rightarrow> Some (Inl e, s', w')
         | Inr None \<Rightarrow> Some (Inr None, s', w')
         | Inr (Some chunk) \<Rightarrow>
             if length chunk \<le> take_remaining s
             then Some (r, s'\<lparr>take_remaining := take_remaining s - length chunk\<rparr>, w')
             else Some (Inr (Some (chunk_slice chunk 0 (take_remaining s))),
                        s'\<lparr>take_remaining := 0\<rparr>, w')) })"

text \<open>
  \<open>FlatMapImpl\<close>: the current sub-stream, the elements of a chunk still to be expanded, then the
  source. The sub-streams' pull function is one function over their erased states.
\<close>

record ('a, 's, 't) FlatMapImpl =
  fm_source :: 's
  fm_current_sub :: "'t option"
  fm_pending :: "'a list"

partial_function (option) flat_map_pull ::
  "('a \<Rightarrow> 't) \<Rightarrow> ('w, 's, 'a) pull \<Rightarrow> ('w, 't, 'b) pull \<Rightarrow> ('a, 's, 't) FlatMapImpl \<Rightarrow> 'w \<Rightarrow>
     ('b list option result \<times> ('a, 's, 't) FlatMapImpl \<times> 'w) option" where
  "flat_map_pull fn src sub s w =
     (case fm_current_sub s of
        Some t \<Rightarrow> do {
          (r, t', w') \<leftarrow> sub t w;
          (case r of
             Inl e \<Rightarrow> Some (Inl e, s\<lparr>fm_current_sub := Some t'\<rparr>, w')
           | Inr (Some chunk) \<Rightarrow> Some (r, s\<lparr>fm_current_sub := Some t'\<rparr>, w')
           | Inr None \<Rightarrow> flat_map_pull fn src sub (s\<lparr>fm_current_sub := None\<rparr>) w') }
      | None \<Rightarrow>
          (case fm_pending s of
             elem # rest \<Rightarrow>
               flat_map_pull fn src sub
                 (s\<lparr>fm_pending := rest, fm_current_sub := Some (fn elem)\<rparr>) w
           | [] \<Rightarrow> do {
               (r, src', w') \<leftarrow> src (fm_source s) w;
               let s' = s\<lparr>fm_source := src'\<rparr>;
               (case r of
                  Inl e \<Rightarrow> Some (Inl e, s', w')
                | Inr None \<Rightarrow> Some (Inr None, s', w')
                | Inr (Some chunk) \<Rightarrow>
                    (case chunk of
                       [] \<Rightarrow> flat_map_pull fn src sub s' w'
                     | c # cs \<Rightarrow>
                         flat_map_pull fn src sub
                           (s'\<lparr>fm_current_sub := Some (fn c), fm_pending := cs\<rparr>) w')) }))"

subsection \<open>Terminal operations\<close>

partial_function (option) collect_loop ::
  "('w, 's, 'a) pull \<Rightarrow> 'a list \<Rightarrow> 's \<Rightarrow> 'w \<Rightarrow> ('a list result \<times> 's \<times> 'w) option" where
  "collect_loop src out s w = do {
     (r, s', w') \<leftarrow> src s w;
     (case r of
        Inl e \<Rightarrow> Some (Inl e, s', w')
      | Inr None \<Rightarrow> Some (Inr out, s', w')
      | Inr (Some chunk) \<Rightarrow> collect_loop src (out @ chunk) s' w') }"

definition collect :: "('w, 's, 'a) pull \<Rightarrow> 's \<Rightarrow> 'w \<Rightarrow> ('a list result \<times> 's \<times> 'w) option" where
  "collect src s w = collect_loop src [] s w"

definition collect_string :: "('w, 's, char) pull \<Rightarrow> 's \<Rightarrow> 'w \<Rightarrow> (string result \<times> 's \<times> 'w) option" where
  "collect_string src s w = collect_loop src [] s w"

partial_function (option) stream_fold ::
  "('b \<Rightarrow> 'a \<Rightarrow> 'b) \<Rightarrow> ('w, 's, 'a) pull \<Rightarrow> 'b \<Rightarrow> 's \<Rightarrow> 'w \<Rightarrow> ('b result \<times> 's \<times> 'w) option" where
  "stream_fold fn src init s w = do {
     (r, s', w') \<leftarrow> src s w;
     (case r of
        Inl e \<Rightarrow> Some (Inl e, s', w')
      | Inr None \<Rightarrow> Some (Inr init, s', w')
      | Inr (Some chunk) \<Rightarrow> stream_fold fn src (foldl fn init chunk) s' w') }"

definition stream_count :: "('w, 's, 'a) pull \<Rightarrow> 's \<Rightarrow> 'w \<Rightarrow> (nat result \<times> 's \<times> 'w) option" where
  "stream_count src s w = stream_fold (\<lambda>acc _. acc + 1) src 0 s w"

text \<open>
  \<open>drain\<close> calls a visitor for its effect: the visitor changes the world.
\<close>

partial_function (option) stream_drain ::
  "('a \<Rightarrow> 'w \<Rightarrow> 'w) \<Rightarrow> ('w, 's, 'a) pull \<Rightarrow> 's \<Rightarrow> 'w \<Rightarrow> (unit result \<times> 's \<times> 'w) option" where
  "stream_drain fn src s w = do {
     (r, s', w') \<leftarrow> src s w;
     (case r of
        Inl e \<Rightarrow> Some (Inl e, s', w')
      | Inr None \<Rightarrow> Some (Inr (), s', w')
      | Inr (Some chunk) \<Rightarrow> stream_drain fn src s' (fold fn chunk w')) }"

subsection \<open>Characteristic equations\<close>

lemma pull_cases:
  obtains (diverges) "src s w = None"
  | (fails) e s1 w1 where "src s w = Some (Inl e, s1, w1)"
  | (ends) s1 w1 where "src s w = Some (Inr None, s1, w1)"
  | (gives) c s1 w1 where "src s w = Some (Inr (Some c), s1, w1)"
  by (metis obj_sumE option.exhaust surj_pair)

lemma map_pull_steps [step_simps]:
  "src (map_source s) w = None \<Longrightarrow> map_pull f src s w = None"
  "src (map_source s) w = Some (Inl e, s1, w1) \<Longrightarrow>
    map_pull f src s w = Some (Inl e, s\<lparr>map_source := s1\<rparr>, w1)"
  "src (map_source s) w = Some (Inr None, s1, w1) \<Longrightarrow>
    map_pull f src s w = Some (Inr None, s\<lparr>map_source := s1\<rparr>, w1)"
  "src (map_source s) w = Some (Inr (Some c), s1, w1) \<Longrightarrow>
    map_pull f src s w = Some (Inr (Some (map f c)), s\<lparr>map_source := s1\<rparr>, w1)"
  by (simp_all add: map_pull_def Let_def)

lemma filter_pull_steps [step_simps]:
  "src (filter_source s) w = None \<Longrightarrow> filter_pull p src s w = None"
  "src (filter_source s) w = Some (Inl e, s1, w1) \<Longrightarrow>
    filter_pull p src s w = Some (Inl e, s\<lparr>filter_source := s1\<rparr>, w1)"
  "src (filter_source s) w = Some (Inr None, s1, w1) \<Longrightarrow>
    filter_pull p src s w = Some (Inr None, s\<lparr>filter_source := s1\<rparr>, w1)"
  "src (filter_source s) w = Some (Inr (Some c), s1, w1) \<Longrightarrow> filter p c \<noteq> [] \<Longrightarrow>
    filter_pull p src s w = Some (Inr (Some (filter p c)), s\<lparr>filter_source := s1\<rparr>, w1)"
  "src (filter_source s) w = Some (Inr (Some c), s1, w1) \<Longrightarrow> filter p c = [] \<Longrightarrow>
    filter_pull p src s w = filter_pull p src (s\<lparr>filter_source := s1\<rparr>) w1"
  by (simp_all add: filter_pull.simps [of p src s w] Let_def)

lemma take_pull_steps [step_simps]:
  "take_remaining s = 0 \<Longrightarrow> take_pull src s w = Some (Inr None, s, w)"
  "0 < take_remaining s \<Longrightarrow> src (take_source s) w = None \<Longrightarrow> take_pull src s w = None"
  "0 < take_remaining s \<Longrightarrow> src (take_source s) w = Some (Inl e, s1, w1) \<Longrightarrow>
    take_pull src s w = Some (Inl e, s\<lparr>take_source := s1\<rparr>, w1)"
  "0 < take_remaining s \<Longrightarrow> src (take_source s) w = Some (Inr None, s1, w1) \<Longrightarrow>
    take_pull src s w = Some (Inr None, s\<lparr>take_source := s1\<rparr>, w1)"
  "0 < take_remaining s \<Longrightarrow> src (take_source s) w = Some (Inr (Some c), s1, w1) \<Longrightarrow>
    take_pull src s w = Some (Inr (Some (take (take_remaining s) c)),
      s\<lparr>take_source := s1, take_remaining := take_remaining s - length c\<rparr>, w1)"
  by (simp_all add: take_pull_def Let_def chunk_slice_take_drop)

lemma flat_map_pull_steps [step_simps]:
  "fm_current_sub s = Some t \<Longrightarrow> sub t w = None \<Longrightarrow> flat_map_pull fn src sub s w = None"
  "fm_current_sub s = Some t \<Longrightarrow> sub t w = Some (Inl e, t1, w1) \<Longrightarrow>
    flat_map_pull fn src sub s w = Some (Inl e, s\<lparr>fm_current_sub := Some t1\<rparr>, w1)"
  "fm_current_sub s = Some t \<Longrightarrow> sub t w = Some (Inr (Some b), t1, w1) \<Longrightarrow>
    flat_map_pull fn src sub s w = Some (Inr (Some b), s\<lparr>fm_current_sub := Some t1\<rparr>, w1)"
  "fm_current_sub s = Some t \<Longrightarrow> sub t w = Some (Inr None, t1, w1) \<Longrightarrow>
    flat_map_pull fn src sub s w = flat_map_pull fn src sub (s\<lparr>fm_current_sub := None\<rparr>) w1"
  "fm_current_sub s = None \<Longrightarrow> fm_pending s = x # xs \<Longrightarrow>
    flat_map_pull fn src sub s w =
      flat_map_pull fn src sub (s\<lparr>fm_pending := xs, fm_current_sub := Some (fn x)\<rparr>) w"
  "fm_current_sub s = None \<Longrightarrow> fm_pending s = [] \<Longrightarrow> src (fm_source s) w = Some (Inl e, s1, w1) \<Longrightarrow>
    flat_map_pull fn src sub s w = Some (Inl e, s\<lparr>fm_source := s1\<rparr>, w1)"
  "fm_current_sub s = None \<Longrightarrow> fm_pending s = [] \<Longrightarrow> src (fm_source s) w = Some (Inr None, s1, w1) \<Longrightarrow>
    flat_map_pull fn src sub s w = Some (Inr None, s\<lparr>fm_source := s1\<rparr>, w1)"
  "fm_current_sub s = None \<Longrightarrow> fm_pending s = [] \<Longrightarrow> src (fm_source s) w = Some (Inr (Some []), s1, w1) \<Longrightarrow>
    flat_map_pull fn src sub s w = flat_map_pull fn src sub (s\<lparr>fm_source := s1\<rparr>) w1"
  "fm_current_sub s = None \<Longrightarrow> fm_pending s = [] \<Longrightarrow>
    src (fm_source s) w = Some (Inr (Some (x # xs)), s1, w1) \<Longrightarrow>
    flat_map_pull fn src sub s w =
      flat_map_pull fn src sub (s\<lparr>fm_source := s1, fm_current_sub := Some (fn x), fm_pending := xs\<rparr>) w1"
  by (simp_all add: flat_map_pull.simps [of fn src sub s w] Let_def)

end
