(* ===== verification/Backend_Handle.thy ===== *)
theory Backend_Handle
  imports Pull_Stream
begin

text \<open>
  Type-erased streams and storage backends (\<open>include/celer/core/stream.hpp\<close>,
  \<open>include/celer/backend/concept.hpp\<close>).

  A \<open>StreamHandle\<close> is a pointer to a stream object with a table of functions that hides its
  type. Here the erased object is an element of a codatatype: what a pull of it does, and the
  object after the pull. A \<open>BackendHandle\<close> is a pointer (a natural number, \<open>None\<close> for null) with a
  table of functions on the outside world of type \<open>'w\<close>.
\<close>

subsection \<open>Erased streams\<close>

codatatype ('w, 'a) erased =
  Erased (erased_pull: "'w \<Rightarrow> ('a list option result \<times> ('w, 'a) erased \<times> 'w) option")

type_synonym ('w, 'a) StreamHandle = "('w, 'a) erased option"

primcorec erase :: "('w, 's, 'a) pull \<Rightarrow> 's \<Rightarrow> ('w, 'a) erased" where
  "erased_pull (erase src s) =
     (\<lambda>w. map_option (map_prod id (map_prod (erase src) id)) (src s w))"

definition make_stream_handle :: "('w, 's, 'a) pull \<Rightarrow> 's \<Rightarrow> ('w, 'a) StreamHandle" where
  "make_stream_handle src s = Some (erase src s)"

definition stream_pull :: "('w, ('w, 'a) StreamHandle, 'a) pull" where
  "stream_pull = handle_pull erased_pull"

definition stream_from_string :: "string \<Rightarrow> ('w, char) StreamHandle" where
  "stream_from_string s = make_stream_handle from_string_pull (from_string s)"

definition stream_from_vector :: "'a list \<Rightarrow> ('w, 'a) StreamHandle" where
  "stream_from_vector xs = make_stream_handle from_vector_pull (from_vector xs)"

definition stream_empty :: "('w, 'a) StreamHandle" where
  "stream_empty = make_stream_handle empty_pull EmptyImpl"

text \<open>Pulling an erased stream is pulling the stream it was made from.\<close>

lemma stream_pull_erased [step_simps]:
  "src s w = None \<Longrightarrow> stream_pull (make_stream_handle src s) w = None"
  "src s w = Some (r, s', w') \<Longrightarrow>
    stream_pull (make_stream_handle src s) w = Some (r, make_stream_handle src s', w')"
  by (simp_all add: stream_pull_def make_stream_handle_def handle_pull_def)

lemma stream_pull_null [step_simps]:
  "stream_pull None w = Some (Err ''StreamPull'' ''use-after-move or default-constructed'', None, w)"
  by (simp add: stream_pull_def handle_pull_def)

subsection \<open>Backends\<close>

record BatchGetItem =
  bg_key :: string
  bg_value :: "string option"

type_synonym 'w ScanVisitor = "string \<Rightarrow> string \<Rightarrow> 'w \<Rightarrow> 'w"

record 'w BackendVTable =
  get_fn :: "nat \<Rightarrow> string \<Rightarrow> ('w, string option) io"
  put_fn :: "nat \<Rightarrow> string \<Rightarrow> string \<Rightarrow> ('w, unit) io"
  del_fn :: "nat \<Rightarrow> string \<Rightarrow> ('w, unit) io"
  prefix_scan_fn :: "nat \<Rightarrow> string \<Rightarrow> ('w, KVPair list) io"
  batch_fn :: "nat \<Rightarrow> BatchOp list \<Rightarrow> ('w, unit) io"
  compact_fn :: "nat \<Rightarrow> ('w, unit) io"
  foreach_scan_fn :: "nat \<Rightarrow> string \<Rightarrow> 'w ScanVisitor \<Rightarrow> ('w, unit) io"
  stream_get_fn :: "nat \<Rightarrow> string \<Rightarrow> ('w, ('w, char) StreamHandle) io"
  stream_put_fn :: "nat \<Rightarrow> string \<Rightarrow> ('w, char) StreamHandle \<Rightarrow> ('w, unit) io"
  stream_scan_fn :: "nat \<Rightarrow> string \<Rightarrow> ('w, ('w, KVPair) StreamHandle) io"
  get_many_fn :: "nat \<Rightarrow> string list \<Rightarrow> ('w, BatchGetItem list) io"
  native_batch_get :: bool
  destroy_fn :: "nat \<Rightarrow> 'w \<Rightarrow> 'w"

record 'w BackendHandle =
  bh_ctx :: "nat option"
  bh_vtable :: "'w BackendVTable option"

definition null_handle :: "'w BackendHandle" where
  "null_handle = \<lparr>bh_ctx = None, bh_vtable = None\<rparr>"

definition handle_valid :: "'w BackendHandle \<Rightarrow> bool" where
  "handle_valid h \<longleftrightarrow> bh_ctx h \<noteq> None \<and> bh_vtable h \<noteq> None"

definition moved_error :: error where
  "moved_error = Error ''BackendHandle'' ''use-after-move or default-constructed''"

text \<open>The guard every operation of a handle starts with.\<close>

definition with_handle :: "'w BackendHandle \<Rightarrow> ('w BackendVTable \<Rightarrow> nat \<Rightarrow> ('w, 'a) io) \<Rightarrow> ('w, 'a) io" where
  "with_handle h f = (case (bh_ctx h, bh_vtable h) of
      (Some c, Some v) \<Rightarrow> f v c
    | _ \<Rightarrow> io_throw moved_error)"

definition handle_get :: "'w BackendHandle \<Rightarrow> string \<Rightarrow> ('w, string option) io" where
  "handle_get h key = with_handle h (\<lambda>v c. get_fn v c key)"

definition handle_put :: "'w BackendHandle \<Rightarrow> string \<Rightarrow> string \<Rightarrow> ('w, unit) io" where
  "handle_put h key val = with_handle h (\<lambda>v c. put_fn v c key val)"

definition handle_del :: "'w BackendHandle \<Rightarrow> string \<Rightarrow> ('w, unit) io" where
  "handle_del h key = with_handle h (\<lambda>v c. del_fn v c key)"

definition handle_prefix_scan :: "'w BackendHandle \<Rightarrow> string \<Rightarrow> ('w, KVPair list) io" where
  "handle_prefix_scan h pre = with_handle h (\<lambda>v c. prefix_scan_fn v c pre)"

definition handle_batch :: "'w BackendHandle \<Rightarrow> BatchOp list \<Rightarrow> ('w, unit) io" where
  "handle_batch h ops = with_handle h (\<lambda>v c. batch_fn v c ops)"

definition handle_compact :: "'w BackendHandle \<Rightarrow> ('w, unit) io" where
  "handle_compact h = with_handle h (\<lambda>v c. compact_fn v c)"

definition handle_foreach_scan :: "'w BackendHandle \<Rightarrow> string \<Rightarrow> 'w ScanVisitor \<Rightarrow> ('w, unit) io" where
  "handle_foreach_scan h pre visitor = with_handle h (\<lambda>v c. foreach_scan_fn v c pre visitor)"

definition handle_stream_get :: "'w BackendHandle \<Rightarrow> string \<Rightarrow> ('w, ('w, char) StreamHandle) io" where
  "handle_stream_get h key = with_handle h (\<lambda>v c. stream_get_fn v c key)"

definition handle_stream_put :: "'w BackendHandle \<Rightarrow> string \<Rightarrow> ('w, char) StreamHandle \<Rightarrow> ('w, unit) io" where
  "handle_stream_put h key stream = with_handle h (\<lambda>v c. stream_put_fn v c key stream)"

definition handle_stream_scan :: "'w BackendHandle \<Rightarrow> string \<Rightarrow> ('w, ('w, KVPair) StreamHandle) io" where
  "handle_stream_scan h pre = with_handle h (\<lambda>v c. stream_scan_fn v c pre)"

definition handle_get_many :: "'w BackendHandle \<Rightarrow> string list \<Rightarrow> ('w, BatchGetItem list) io" where
  "handle_get_many h keys = with_handle h (\<lambda>v c. get_many_fn v c keys)"

definition handle_native_batch_get :: "'w BackendHandle \<Rightarrow> bool" where
  "handle_native_batch_get h = (handle_valid h \<and> (case bh_vtable h of None \<Rightarrow> False | Some v \<Rightarrow> native_batch_get v))"

text \<open>The destructor, and the move that leaves the source without context.\<close>

definition handle_destroy :: "'w BackendHandle \<Rightarrow> 'w \<Rightarrow> 'w" where
  "handle_destroy h w = (case (bh_ctx h, bh_vtable h) of
      (Some c, Some v) \<Rightarrow> destroy_fn v c w
    | _ \<Rightarrow> w)"

definition handle_move :: "'w BackendHandle \<Rightarrow> 'w BackendHandle \<times> 'w BackendHandle" where
  "handle_move h = (h, h\<lparr>bh_ctx := None, bh_vtable := None\<rparr>)"

definition handle_move_assign ::
  "'w BackendHandle \<Rightarrow> 'w BackendHandle \<Rightarrow> 'w \<Rightarrow> 'w BackendHandle \<times> 'w BackendHandle \<times> 'w" where
  "handle_move_assign this other w =
     (let w1 = handle_destroy this w; (t, s) = handle_move other in (t, s, w1))"

subsection \<open>Building a handle\<close>

text \<open>
  The methods of a backend class, as functions of the object's address; \<open>b_get_many\<close> is there
  for the classes that satisfy \<open>HasNativeBatchGet\<close>.
\<close>

record 'w StorageBackend =
  b_get :: "nat \<Rightarrow> string \<Rightarrow> ('w, string option) io"
  b_put :: "nat \<Rightarrow> string \<Rightarrow> string \<Rightarrow> ('w, unit) io"
  b_del :: "nat \<Rightarrow> string \<Rightarrow> ('w, unit) io"
  b_prefix_scan :: "nat \<Rightarrow> string \<Rightarrow> ('w, KVPair list) io"
  b_batch :: "nat \<Rightarrow> BatchOp list \<Rightarrow> ('w, unit) io"
  b_compact :: "nat \<Rightarrow> ('w, unit) io"
  b_foreach_scan :: "nat \<Rightarrow> string \<Rightarrow> 'w ScanVisitor \<Rightarrow> ('w, unit) io"
  b_stream_get :: "nat \<Rightarrow> string \<Rightarrow> ('w, ('w, char) StreamHandle) io"
  b_stream_put :: "nat \<Rightarrow> string \<Rightarrow> ('w, char) StreamHandle \<Rightarrow> ('w, unit) io"
  b_stream_scan :: "nat \<Rightarrow> string \<Rightarrow> ('w, ('w, KVPair) StreamHandle) io"
  b_get_many :: "(nat \<Rightarrow> string list \<Rightarrow> ('w, BatchGetItem list) io) option"
  b_delete :: "nat \<Rightarrow> 'w \<Rightarrow> 'w"

fun get_many_loop :: "(string \<Rightarrow> ('w, string option) io) \<Rightarrow> BatchGetItem list \<Rightarrow> string list \<Rightarrow>
    ('w, BatchGetItem list) io" where
  "get_many_loop get out [] = io_return out"
| "get_many_loop get out (k # ks) =
     io_bind (get k) (\<lambda>r. get_many_loop get (out @ [\<lparr>bg_key = k, bg_value = r\<rparr>]) ks)"

definition get_many_native :: "'w StorageBackend \<Rightarrow> nat \<Rightarrow> string list \<Rightarrow> ('w, BatchGetItem list) io" where
  "get_many_native B c keys = (case b_get_many B of
      Some f \<Rightarrow> f c keys
    | None \<Rightarrow> get_many_loop (b_get B c) [] keys)"

definition backend_vtable :: "'w StorageBackend \<Rightarrow> 'w BackendVTable" where
  "backend_vtable B =
    \<lparr>get_fn = b_get B, put_fn = b_put B, del_fn = b_del B, prefix_scan_fn = b_prefix_scan B,
     batch_fn = b_batch B, compact_fn = b_compact B, foreach_scan_fn = b_foreach_scan B,
     stream_get_fn = b_stream_get B, stream_put_fn = b_stream_put B,
     stream_scan_fn = b_stream_scan B, get_many_fn = get_many_native B,
     native_batch_get = (b_get_many B \<noteq> None), destroy_fn = b_delete B\<rparr>"

definition make_backend_handle :: "'w StorageBackend \<Rightarrow> nat \<Rightarrow> 'w BackendHandle" where
  "make_backend_handle B backend = \<lparr>bh_ctx = Some backend, bh_vtable = Some (backend_vtable B)\<rparr>"

type_synonym 'w BackendFactory = "string \<Rightarrow> string \<Rightarrow> ('w, 'w BackendHandle) io"

lemmas handle_op_defs = handle_get_def handle_put_def handle_del_def handle_prefix_scan_def
  handle_batch_def handle_compact_def handle_foreach_scan_def handle_stream_get_def
  handle_stream_put_def handle_stream_scan_def handle_get_many_def

lemma with_handle_simps [simp]:
  "with_handle null_handle f = io_throw moved_error"
  "with_handle (make_backend_handle B c) f = f (backend_vtable B) c"
  by (simp_all add: with_handle_def null_handle_def make_backend_handle_def)

lemma with_handle_invalid: "\<not> handle_valid h \<Longrightarrow> with_handle h f = io_throw moved_error"
  by (auto simp: with_handle_def handle_valid_def split: option.splits)

lemma made_handle_ops [simp]:
  "handle_get (make_backend_handle B c) = b_get B c"
  "handle_put (make_backend_handle B c) = b_put B c"
  "handle_del (make_backend_handle B c) = b_del B c"
  "handle_prefix_scan (make_backend_handle B c) = b_prefix_scan B c"
  "handle_batch (make_backend_handle B c) = b_batch B c"
  "handle_compact (make_backend_handle B c) = b_compact B c"
  "handle_foreach_scan (make_backend_handle B c) = b_foreach_scan B c"
  "handle_stream_get (make_backend_handle B c) = b_stream_get B c"
  "handle_stream_put (make_backend_handle B c) = b_stream_put B c"
  "handle_stream_scan (make_backend_handle B c) = b_stream_scan B c"
  "handle_get_many (make_backend_handle B c) = get_many_native B c"
  by (simp_all add: fun_eq_iff handle_op_defs backend_vtable_def)

text \<open>After a move the source refuses every operation, and only the target destroys the backend.\<close>

lemma moved_from_invalid: "handle_move h = (t, o') \<Longrightarrow> \<not> handle_valid o' \<and> t = h"
  by (auto simp: handle_move_def handle_valid_def)

lemma moved_from_destroy: "handle_move h = (t, o') \<Longrightarrow> handle_destroy o' w = w"
  by (auto simp: handle_move_def handle_destroy_def)

subsection \<open>The looped batch lookup\<close>

lemma get_many_loop_reads:
  assumes "\<And>k. k \<in> set keys \<Longrightarrow> get k w = Some (Inr (m k), w)"
  shows "get_many_loop get out keys w =
    Some (Inr (out @ map (\<lambda>k. \<lparr>bg_key = k, bg_value = m k\<rparr>) keys), w)"
  using assms by (induction keys arbitrary: out) (simp_all add: result_simps)

end
