(* ===== verification/Composite_Tree.thy ===== *)
theory Composite_Tree
  imports Symbol_Table Backend_Handle
begin

text \<open>
  The composite tree of stores and its dispatch (\<open>include/celer/core/composite.hpp\<close>,
  \<open>include/celer/core/dispatch.hpp\<close>, \<open>src/core/dispatch.cpp\<close>, \<open>src/core/tree_builder.cpp\<close>).

  A node is a leaf with a backend handle or a composite with children and the symbol table of
  their names. The order in which \<open>std::unordered_map\<close> is traversed is not fixed: it is the
  parameter \<open>ord\<close>, a function that arranges the list of the map's keys; the theorems hold for
  every \<open>ord\<close> that returns a permutation. An index outside the children is outside the
  language's defined behaviour (\<open>None\<close>); \<open>build_composite\<close> never makes one.
\<close>

subsection \<open>Nodes\<close>

record 'w ColumnLeaf =
  leaf_name :: string
  leaf_handle :: "'w BackendHandle"

datatype 'w StoreNode =
    LeafNode "'w ColumnLeaf"
  | CompositeNode (comp_name: string) (children: "'w StoreNode list") (index: FlatSymbolTable)

definition node_name :: "'w StoreNode \<Rightarrow> string" where
  "node_name node = (case node of LeafNode l \<Rightarrow> leaf_name l | CompositeNode nm _ _ \<Rightarrow> nm)"

lemma node_name_simps [simp]:
  "node_name (LeafNode l) = leaf_name l" "node_name (CompositeNode nm cs ix) = nm"
  by (simp_all add: node_name_def)

subsection \<open>Key routing\<close>

definition colon :: char where "colon = CHR 0x3A"

definition route_key :: "string \<Rightarrow> string \<times> string" where
  "route_key key =
     (if colon \<in> set key
      then (takeWhile (\<lambda>c. c \<noteq> colon) key, tl (dropWhile (\<lambda>c. c \<noteq> colon) key))
      else (key, []))"

lemma route_key_join [simp]:
  assumes "colon \<notin> set s"
  shows "route_key (s @ colon # rest) = (s, rest)"
proof -
  have "takeWhile (\<lambda>c. c \<noteq> colon) (s @ colon # rest) = s"
    "dropWhile (\<lambda>c. c \<noteq> colon) (s @ colon # rest) = colon # rest"
    using assms by (induction s) auto
  then show ?thesis by (simp add: route_key_def)
qed

lemma route_key_plain [simp]: "colon \<notin> set s \<Longrightarrow> route_key s = (s, [])"
  by (simp add: route_key_def)

lemma route_key_split:
  assumes "colon \<in> set key"
  obtains a b where "key = a @ colon # b" "colon \<notin> set a" "route_key key = (a, b)"
  using split_list_first [OF assms] route_key_join by metis

subsection \<open>Finding a child\<close>

definition child_not_found :: "string \<Rightarrow> string \<Rightarrow> error" where
  "child_not_found child_name composite =
     Error ''ChildNotFound'' (''no child '' @ quoted child_name @ '' in composite '' @ quoted composite)"

definition find_child :: "(string \<Rightarrow> 64 word) \<Rightarrow> string \<Rightarrow> 'w StoreNode list \<Rightarrow> FlatSymbolTable \<Rightarrow> string \<Rightarrow>
    'w StoreNode result option" where
  "find_child hash nm cs ix child_name = (case table_find hash ix child_name of
      None \<Rightarrow> Some (Inl (child_not_found child_name nm))
    | Some i \<Rightarrow> if i < length cs then Some (Inr (cs ! i)) else None)"

lemma find_child_in: "find_child hash nm cs ix x = Some (Inr c) \<Longrightarrow> c \<in> set cs"
  by (auto simp: find_child_def split: option.splits if_splits)

lemma find_child_size [termination_simp]:
  "find_child hash nm cs ix x = Some (Inr c) \<Longrightarrow> size c < Suc (size_list size cs)"
  by (auto dest!: find_child_in size_list_estimation' [OF _ order.refl, of _ _ size] simp: less_Suc_eq_le)

subsection \<open>Dispatch\<close>

fun node_get :: "(string \<Rightarrow> 64 word) \<Rightarrow> 'w StoreNode \<Rightarrow> string \<Rightarrow> ('w, string option) io" where
  "node_get hash (LeafNode l) key = handle_get (leaf_handle l) key"
| "node_get hash (CompositeNode nm cs ix) key =
     (case find_child hash nm cs ix (fst (route_key key)) of
        None \<Rightarrow> (\<lambda>_. None)
      | Some (Inl e) \<Rightarrow> io_throw e
      | Some (Inr child) \<Rightarrow> node_get hash child (snd (route_key key)))"

fun node_put :: "(string \<Rightarrow> 64 word) \<Rightarrow> 'w StoreNode \<Rightarrow> string \<Rightarrow> string \<Rightarrow> ('w, unit) io" where
  "node_put hash (LeafNode l) key val = handle_put (leaf_handle l) key val"
| "node_put hash (CompositeNode nm cs ix) key val =
     (case find_child hash nm cs ix (fst (route_key key)) of
        None \<Rightarrow> (\<lambda>_. None)
      | Some (Inl e) \<Rightarrow> io_throw e
      | Some (Inr child) \<Rightarrow> node_put hash child (snd (route_key key)) val)"

fun node_del :: "(string \<Rightarrow> 64 word) \<Rightarrow> 'w StoreNode \<Rightarrow> string \<Rightarrow> ('w, unit) io" where
  "node_del hash (LeafNode l) key = handle_del (leaf_handle l) key"
| "node_del hash (CompositeNode nm cs ix) key =
     (case find_child hash nm cs ix (fst (route_key key)) of
        None \<Rightarrow> (\<lambda>_. None)
      | Some (Inl e) \<Rightarrow> io_throw e
      | Some (Inr child) \<Rightarrow> node_del hash child (snd (route_key key)))"

text \<open>
  A scan and a visit go to the named child when the prefix has a non-empty first part, and to
  all children otherwise, with the prefix unchanged.
\<close>

fun node_prefix_scan :: "(string \<Rightarrow> 64 word) \<Rightarrow> 'w StoreNode \<Rightarrow> string \<Rightarrow> ('w, KVPair list) io"
and scan_children :: "(string \<Rightarrow> 64 word) \<Rightarrow> 'w StoreNode list \<Rightarrow> string \<Rightarrow> KVPair list \<Rightarrow> ('w, KVPair list) io"
where
  "node_prefix_scan hash (LeafNode l) pre = handle_prefix_scan (leaf_handle l) pre"
| "node_prefix_scan hash (CompositeNode nm cs ix) pre =
     (if fst (route_key pre) \<noteq> [] then
        (case find_child hash nm cs ix (fst (route_key pre)) of
           None \<Rightarrow> (\<lambda>_. None)
         | Some (Inl e) \<Rightarrow> io_throw e
         | Some (Inr child) \<Rightarrow> node_prefix_scan hash child (snd (route_key pre)))
      else scan_children hash cs pre [])"
| "scan_children hash [] pre acc = io_return acc"
| "scan_children hash (ch # chs) pre acc =
     io_bind (node_prefix_scan hash ch pre) (\<lambda>r. scan_children hash chs pre (acc @ r))"

fun node_foreach :: "(string \<Rightarrow> 64 word) \<Rightarrow> 'w StoreNode \<Rightarrow> string \<Rightarrow> 'w ScanVisitor \<Rightarrow> ('w, unit) io"
and foreach_children :: "(string \<Rightarrow> 64 word) \<Rightarrow> 'w StoreNode list \<Rightarrow> string \<Rightarrow> 'w ScanVisitor \<Rightarrow> ('w, unit) io"
where
  "node_foreach hash (LeafNode l) pre visitor = handle_foreach_scan (leaf_handle l) pre visitor"
| "node_foreach hash (CompositeNode nm cs ix) pre visitor =
     (if fst (route_key pre) \<noteq> [] then
        (case find_child hash nm cs ix (fst (route_key pre)) of
           None \<Rightarrow> (\<lambda>_. None)
         | Some (Inl e) \<Rightarrow> io_throw e
         | Some (Inr child) \<Rightarrow> node_foreach hash child (snd (route_key pre)) visitor)
      else foreach_children hash cs pre visitor)"
| "foreach_children hash [] pre visitor = io_return ()"
| "foreach_children hash (ch # chs) pre visitor =
     io_bind (node_foreach hash ch pre visitor) (\<lambda>_. foreach_children hash chs pre visitor)"

fun node_compact :: "'w StoreNode \<Rightarrow> ('w, unit) io"
and compact_children :: "'w StoreNode list \<Rightarrow> ('w, unit) io" where
  "node_compact (LeafNode l) = handle_compact (leaf_handle l)"
| "node_compact (CompositeNode nm cs ix) = compact_children cs"
| "compact_children [] = io_return ()"
| "compact_children (ch # chs) = io_bind (node_compact ch) (\<lambda>_. compact_children chs)"

subsection \<open>Grouping\<close>

text \<open>
  \<open>grouped[key].push_back(value)\<close> over a list: the keys with the list of their values, and the
  traversal of the map in the order \<open>ord\<close> gives to its keys.
\<close>

fun group_push :: "string \<Rightarrow> 'v \<Rightarrow> (string \<times> 'v list) list \<Rightarrow> (string \<times> 'v list) list" where
  "group_push k v [] = [(k, [v])]"
| "group_push k v ((k', vs) # gs) = (if k = k' then (k', vs @ [v]) # gs else (k', vs) # group_push k v gs)"

definition group_by :: "('x \<Rightarrow> string) \<Rightarrow> ('x \<Rightarrow> 'v) \<Rightarrow> 'x list \<Rightarrow> (string \<times> 'v list) list" where
  "group_by key val xs = foldl (\<lambda>gs x. group_push (key x) (val x) gs) [] xs"

definition group_values :: "(string \<times> 'v list) list \<Rightarrow> string \<Rightarrow> 'v list" where
  "group_values gs k = (case map_of gs k of None \<Rightarrow> [] | Some vs \<Rightarrow> vs)"

definition traverse :: "(string list \<Rightarrow> string list) \<Rightarrow> (string \<times> 'v list) list \<Rightarrow> (string \<times> 'v list) list" where
  "traverse ord gs = map (\<lambda>k. (k, group_values gs k)) (ord (map fst gs))"

text \<open>The batch of a composite: one batch per group, to the child of the group's name.\<close>

function (sequential) node_batch :: "(string \<Rightarrow> 64 word) \<Rightarrow> (string list \<Rightarrow> string list) \<Rightarrow> 'w StoreNode \<Rightarrow>
    BatchOp list \<Rightarrow> ('w, unit) io"
and batch_groups :: "(string \<Rightarrow> 64 word) \<Rightarrow> (string list \<Rightarrow> string list) \<Rightarrow> string \<Rightarrow> 'w StoreNode list \<Rightarrow>
    FlatSymbolTable \<Rightarrow> (string \<times> BatchOp list) list \<Rightarrow> ('w, unit) io" where
  "node_batch hash ord (LeafNode l) ops = handle_batch (leaf_handle l) ops"
| "node_batch hash ord (CompositeNode nm cs ix) ops =
     batch_groups hash ord nm cs ix (traverse ord (group_by op_cf_name id ops))"
| "batch_groups hash ord nm cs ix [] = io_return ()"
| "batch_groups hash ord nm cs ix ((cf, group_ops) # gs) =
     (case find_child hash nm cs ix cf of
        None \<Rightarrow> (\<lambda>_. None)
      | Some (Inl e) \<Rightarrow> io_throw e
      | Some (Inr child) \<Rightarrow>
          io_bind (node_batch hash ord child group_ops) (\<lambda>_. batch_groups hash ord nm cs ix gs))"
  by pat_completeness auto
termination
  by (relation "measures [\<lambda>x. case x of Inl (_, _, n, _) \<Rightarrow> 2 * size n
        | Inr (_, _, _, cs, _, _) \<Rightarrow> Suc (2 * size_list size cs),
      \<lambda>x. case x of Inl _ \<Rightarrow> 0 | Inr (_, _, _, _, _, gs) \<Rightarrow> length gs]")
    (auto dest: find_child_size)

end
