(* ===== verification/Tree_Builder.thy ===== *)
theory Tree_Builder
  imports Composite_Tree "HOL-Library.Multiset"
begin

text \<open>
  Construction of the tree of stores (\<open>src/core/tree_builder.cpp\<close>), with the destruction of the
  handles that were already opened when the factory fails, and what dispatch does on the trees
  it builds: a key \<open>scope:table:rest\<close> reaches the backend that the factory made for that scope
  and table.
\<close>

subsection \<open>Definitions\<close>

definition build_leaf :: "string \<Rightarrow> 'w BackendHandle \<Rightarrow> 'w StoreNode result" where
  "build_leaf nm handle = Inr (LeafNode \<lparr>leaf_name = nm, leaf_handle = handle\<rparr>)"

definition build_composite :: "(string \<Rightarrow> 64 word) \<Rightarrow> string \<Rightarrow> 'w StoreNode list \<Rightarrow> 'w StoreNode result" where
  "build_composite hash nm cs =
     (let ix = build_indexed hash cs (\<lambda>n. node_name n) in Inr (CompositeNode nm cs ix))"

text \<open>The destructors: a leaf's handle, a composite's children, a vector from front to back.\<close>

fun destroy_node :: "'w StoreNode \<Rightarrow> 'w \<Rightarrow> 'w"
and destroy_nodes :: "'w StoreNode list \<Rightarrow> 'w \<Rightarrow> 'w" where
  "destroy_node (LeafNode l) w = handle_destroy (leaf_handle l) w"
| "destroy_node (CompositeNode nm cs ix) w = destroy_nodes cs w"
| "destroy_nodes [] w = w"
| "destroy_nodes (n # ns) w = destroy_nodes ns (destroy_node n w)"

fun build_leaves :: "'w BackendFactory \<Rightarrow> string \<Rightarrow> string list \<Rightarrow> 'w StoreNode list \<Rightarrow>
    ('w, 'w StoreNode list) io" where
  "build_leaves factory scope [] leaf_nodes w = Some (Inr leaf_nodes, w)"
| "build_leaves factory scope (tbl # tbls) leaf_nodes w = (case factory scope tbl w of
      None \<Rightarrow> None
    | Some (Inl e, w1) \<Rightarrow> Some (Inl e, destroy_nodes leaf_nodes w1)
    | Some (Inr handle, w1) \<Rightarrow> (case build_leaf tbl handle of
          Inl e \<Rightarrow> Some (Inl e, destroy_nodes leaf_nodes w1)
        | Inr leaf \<Rightarrow> build_leaves factory scope tbls (leaf_nodes @ [leaf]) w1))"

fun build_scopes :: "(string \<Rightarrow> 64 word) \<Rightarrow> 'w BackendFactory \<Rightarrow> (string \<times> string list) list \<Rightarrow>
    'w StoreNode list \<Rightarrow> ('w, 'w StoreNode list) io" where
  "build_scopes hash factory [] scope_nodes w = Some (Inr scope_nodes, w)"
| "build_scopes hash factory ((scope_name, table_names) # gs) scope_nodes w =
     (case build_leaves factory scope_name table_names [] w of
        None \<Rightarrow> None
      | Some (Inl e, w1) \<Rightarrow> Some (Inl e, destroy_nodes scope_nodes w1)
      | Some (Inr leaf_nodes, w1) \<Rightarrow> (case build_composite hash scope_name leaf_nodes of
            Inl e \<Rightarrow> Some (Inl e, destroy_nodes scope_nodes w1)
          | Inr scope_node \<Rightarrow> build_scopes hash factory gs (scope_nodes @ [scope_node]) w1))"

definition build_tree :: "(string \<Rightarrow> 64 word) \<Rightarrow> (string list \<Rightarrow> string list) \<Rightarrow> 'w BackendFactory \<Rightarrow>
    TableDescriptor list \<Rightarrow> ('w, 'w StoreNode) io" where
  "build_tree hash ord factory tables =
     (let scope_map = group_by td_scope td_table tables in
      io_bind (build_scopes hash factory (traverse ord scope_map) [])
        (\<lambda>scope_nodes. io_lift (build_composite hash ''root'' scope_nodes)))"

subsection \<open>Grouping\<close>

lemma group_push_fst: "fst ` set (group_push k v gs) = insert k (fst ` set gs)"
  by (induction k v gs rule: group_push.induct) auto

lemma group_push_distinct: "distinct (map fst gs) \<Longrightarrow> distinct (map fst (group_push k v gs))"
proof (induction k v gs rule: group_push.induct)
  case (2 k v k' vs gs)
  then show ?case by (simp add: group_push_fst)
qed simp

lemma group_values_push:
  "group_values (group_push k v gs) k' = group_values gs k' @ (if k' = k then [v] else [])"
  by (induction k v gs rule: group_push.induct) (auto simp: group_values_def)

lemma group_by_snoc: "group_by key val (xs @ [x]) = group_push (key x) (val x) (group_by key val xs)"
  by (simp add: group_by_def)

lemma group_by_fst: "fst ` set (group_by key val xs) = key ` set xs"
  by (induction xs rule: rev_induct) (simp_all add: group_by_snoc group_push_fst, simp add: group_by_def)

lemma group_by_distinct: "distinct (map fst (group_by key val xs))"
  by (induction xs rule: rev_induct) (simp_all add: group_by_snoc group_push_distinct, simp add: group_by_def)

text \<open>Each group holds its values in the order of the list.\<close>

lemma group_by_values: "group_values (group_by key val xs) k = map val (filter (\<lambda>x. key x = k) xs)"
  by (induction xs rule: rev_induct)
    (simp_all add: group_by_snoc group_values_push, simp add: group_by_def group_values_def)

definition permutes :: "(string list \<Rightarrow> string list) \<Rightarrow> bool" where
  "permutes ord \<longleftrightarrow> (\<forall>xs. mset (ord xs) = mset xs)"

lemma permutes_set: "permutes ord \<Longrightarrow> set (ord xs) = set xs"
  unfolding permutes_def by (metis set_mset_mset)

lemma permutes_distinct: "permutes ord \<Longrightarrow> distinct (ord xs) = distinct xs"
  unfolding permutes_def by (metis mset_eq_imp_distinct_iff)

lemma permutes_id: "permutes (\<lambda>xs. xs)" "permutes rev"
  by (simp_all add: permutes_def)

lemma traverse_group_by:
  assumes "permutes ord"
  shows "(k, vs) \<in> set (traverse ord (group_by key val xs)) \<longleftrightarrow>
    k \<in> key ` set xs \<and> vs = map val (filter (\<lambda>x. key x = k) xs)"
  using group_by_fst [of key val xs]
  by (auto simp: traverse_def permutes_set [OF assms] group_by_values)

lemma traverse_keys:
  assumes "permutes ord"
  shows "distinct (map fst (traverse ord (group_by key val xs)))"
    "fst ` set (traverse ord (group_by key val xs)) = key ` set xs"
  using group_by_distinct [of key val xs] group_by_fst [of key val xs]
  by (simp_all add: traverse_def comp_def permutes_distinct [OF assms] permutes_set [OF assms] image_image)

subsection \<open>Children of a built composite\<close>

lemma build_composite_eq [simp]:
  "build_composite hash nm cs = Inr (CompositeNode nm cs (build_indexed hash cs node_name))"
  by (simp add: build_composite_def)

lemma find_child_built:
  obtains (absent) "x \<notin> node_name ` set cs"
      "find_child hash nm cs (build_indexed hash cs node_name) x = Some (Inl (child_not_found x nm))"
  | (present) i where "i < length cs" "node_name (cs ! i) = x" "\<And>j. j < i \<Longrightarrow> node_name (cs ! j) \<noteq> x"
      "find_child hash nm cs (build_indexed hash cs node_name) x = Some (Inr (cs ! i))"
proof (cases rule: flat.look_cases [of x "map node_name cs" hash])
  case absent
  with that(1) show thesis by (simp add: find_child_def build_indexed_build)
next
  case (first i)
  have "\<And>j. j < i \<Longrightarrow> node_name (cs ! j) \<noteq> x"
    using first(2,4) by (metis length_map less_trans nth_map)
  with first that(2) [of i] show thesis by (simp add: find_child_def build_indexed_build)
qed

subsection \<open>The shape of a built tree\<close>

definition made_by :: "'w BackendFactory \<Rightarrow> string \<Rightarrow> string \<Rightarrow> 'w BackendHandle \<Rightarrow> bool" where
  "made_by factory s t h \<longleftrightarrow> (\<exists>w1 w2. factory s t w1 = Some (Inr h, w2))"

definition leaf_for :: "'w BackendFactory \<Rightarrow> string \<Rightarrow> string \<Rightarrow> 'w StoreNode \<Rightarrow> bool" where
  "leaf_for factory s t n \<longleftrightarrow>
     (\<exists>h. n = LeafNode \<lparr>leaf_name = t, leaf_handle = h\<rparr> \<and> made_by factory s t h)"

definition scope_for :: "(string \<Rightarrow> 64 word) \<Rightarrow> 'w BackendFactory \<Rightarrow> string \<times> string list \<Rightarrow> 'w StoreNode \<Rightarrow> bool" where
  "scope_for hash factory g n \<longleftrightarrow> (\<exists>ls. n = CompositeNode (fst g) ls (build_indexed hash ls node_name) \<and>
     list_all2 (leaf_for factory (fst g)) (snd g) ls)"

lemma build_leaves_shape:
  "build_leaves factory s ts acc w = Some (Inr ls, w') \<Longrightarrow>
    \<exists>new. ls = acc @ new \<and> list_all2 (leaf_for factory s) ts new"
proof (induction factory s ts acc w rule: build_leaves.induct)
  case (2 factory s t ts acc w)
  from "2.prems" obtain h w1 where h: "factory s t w = Some (Inr h, w1)"
    and rest: "build_leaves factory s ts (acc @ [LeafNode \<lparr>leaf_name = t, leaf_handle = h\<rparr>]) w1 = Some (Inr ls, w')"
    by (auto simp: build_leaf_def split: option.splits sum.splits)
  from "2.IH" [OF h refl refl build_leaf_def rest] h show ?case
    by (auto simp: leaf_for_def made_by_def)
qed simp

lemma build_scopes_shape:
  "build_scopes hash factory gs acc w = Some (Inr ns, w') \<Longrightarrow>
    \<exists>new. ns = acc @ new \<and> list_all2 (scope_for hash factory) gs new"
proof (induction gs arbitrary: acc w)
  case (Cons g gs)
  obtain s ts where g: "g = (s, ts)" by fastforce
  from Cons.prems g obtain ls w1 where ls: "build_leaves factory s ts [] w = Some (Inr ls, w1)"
    and rest: "build_scopes hash factory gs
      (acc @ [CompositeNode s ls (build_indexed hash ls node_name)]) w1 = Some (Inr ns, w')"
    by (auto split: option.splits sum.splits)
  have "scope_for hash factory g (CompositeNode s ls (build_indexed hash ls node_name))"
    using build_leaves_shape [OF ls] by (simp add: scope_for_def g)
  with Cons.IH [OF rest] show ?case by auto
qed simp

lemma build_tree_shape:
  assumes "build_tree hash ord factory tables w = Some (Inr root, w')"
  obtains cs where "root = CompositeNode ''root'' cs (build_indexed hash cs node_name)"
    "list_all2 (scope_for hash factory) (traverse ord (group_by td_scope td_table tables)) cs"
  using assms by (auto simp: build_tree_def Let_def io_lift_def elim!: io_bind_OkD dest!: build_scopes_shape)

lemma leaves_names: "list_all2 (leaf_for factory s) ts ls \<Longrightarrow> map node_name ls = ts"
  by (induction rule: list_all2_induct) (auto simp: leaf_for_def)

lemma scopes_names: "list_all2 (scope_for hash factory) gs cs \<Longrightarrow> map node_name cs = map fst gs"
  by (induction rule: list_all2_induct) (auto simp: scope_for_def)

text \<open>The child of a built scope is the leaf for the first table of that name.\<close>

lemma scope_child:
  assumes "list_all2 (leaf_for factory s) ts ls" "t \<in> set ts"
  obtains h where "made_by factory s t h"
    "find_child hash s ls (build_indexed hash ls node_name) t =
       Some (Inr (LeafNode \<lparr>leaf_name = t, leaf_handle = h\<rparr>))"
proof (cases rule: find_child_built [of t ls hash s])
  case absent
  with leaves_names [OF assms(1)] assms(2) show thesis by (metis list.set_map)
next
  case (present i)
  with assms(1) have "leaf_for factory s (ts ! i) (ls ! i)"
    by (simp add: list_all2_conv_all_nth)
  with present that show thesis by (auto simp: leaf_for_def)
qed

lemma root_child:
  assumes "list_all2 (scope_for hash factory) gs cs" "distinct (map fst gs)" "(s, ts) \<in> set gs"
  obtains ls where "list_all2 (leaf_for factory s) ts ls"
    "find_child hash nm cs (build_indexed hash cs node_name) s =
       Some (Inr (CompositeNode s ls (build_indexed hash ls node_name)))"
proof (cases rule: find_child_built [of s cs hash nm])
  case absent
  with scopes_names [OF assms(1)] assms(3) show thesis by (metis fst_conv list.set_map image_eqI)
next
  case (present i)
  with assms(1) have i: "i < length gs" "scope_for hash factory (gs ! i) (cs ! i)"
    by (auto simp: list_all2_conv_all_nth)
  then have "fst (gs ! i) = s" using present(2) by (auto simp: scope_for_def)
  with assms(2,3) i(1) have "gs ! i = (s, ts)"
    by (metis eq_key_imp_eq_value nth_mem prod.collapse)
  with i(2) present that show thesis by (auto simp: scope_for_def)
qed

end
