(* ===== verification/Stream_Laws.thy ===== *)
theory Stream_Laws
  imports Pull_Stream
begin

text \<open>
  What the streams of \<open>Pull_Stream\<close> promise. \<open>yields src s w cs out s' w'\<close> says that pulling from
  state \<open>s\<close> in world \<open>w\<close> until the stream ends gives the chunks \<open>cs\<close> and then the end of the
  stream (\<open>out = None\<close>) or an error (\<open>out = Some e\<close>), leaving state \<open>s'\<close> and world \<open>w'\<close>. The
  combinators are characterised by what they yield for a source that yields given chunks, and
  the terminal operations by their result; the contract that a finished stream stays finished
  is kept by every combinator.
\<close>

inductive yields :: "('w, 's, 'a) pull \<Rightarrow> 's \<Rightarrow> 'w \<Rightarrow> 'a list list \<Rightarrow> error option \<Rightarrow> 's \<Rightarrow> 'w \<Rightarrow> bool"
  for src where
  yields_done: "src s w = Some (Inr None, s', w') \<Longrightarrow> yields src s w [] None s' w'"
| yields_err: "src s w = Some (Inl e, s', w') \<Longrightarrow> yields src s w [] (Some e) s' w'"
| yields_chunk: "src s w = Some (Inr (Some c), s1, w1) \<Longrightarrow> yields src s1 w1 cs out s' w' \<Longrightarrow>
    yields src s w (c # cs) out s' w'"

inductive_cases yields_ConsE: "yields src s w (c # cs) out s' w'"
inductive_cases yields_NilE: "yields src s w [] out s' w'"

lemma yields_deterministic:
  "yields src s w cs out s' w' \<Longrightarrow> yields src s w cs2 out2 s2 w2 \<Longrightarrow>
    cs2 = cs \<and> out2 = out \<and> s2 = s' \<and> w2 = w'"
  by (induction arbitrary: cs2 rule: yields.induct) (auto elim: yields.cases)

definition outcome :: "error option \<Rightarrow> 'a \<Rightarrow> 'a result" where
  "outcome out x = (case out of None \<Rightarrow> Inr x | Some e \<Rightarrow> Inl e)"

lemma outcome_simps [simp]: "outcome None x = Inr x" "outcome (Some e) x = Inl e"
  by (simp_all add: outcome_def)

subsection \<open>Terminal operations\<close>

lemma collect_loop_yields:
  "yields src s w cs out s' w' \<Longrightarrow>
    collect_loop src acc s w = Some (outcome out (acc @ concat cs), s', w')"
  by (induction arbitrary: acc rule: yields.induct) (simp_all add: collect_loop.simps)

definition ran_to :: "('w, 's, 'a) pull \<Rightarrow> 'a list \<Rightarrow> 's \<Rightarrow> 'w \<Rightarrow> 'a list result \<times> 's \<times> 'w \<Rightarrow> bool" where
  "ran_to src acc s w y \<longleftrightarrow> (\<exists>cs out. yields src s w cs out (fst (snd y)) (snd (snd y)) \<and>
     fst y = outcome out (acc @ concat cs))"

lemma ran_toI: "yields src s w cs out s' w' \<Longrightarrow> r = outcome out (acc @ concat cs) \<Longrightarrow>
    ran_to src acc s w (r, s', w')"
  by (auto simp: ran_to_def)

lemma ran_to_chunk:
  assumes "src s w = Some (Inr (Some c), s1, w1)" "ran_to src (acc @ c) s1 w1 y"
  shows "ran_to src acc s w y"
proof -
  from assms(2) obtain cs out where "yields src s1 w1 cs out (fst (snd y)) (snd (snd y))"
    "fst y = outcome out ((acc @ c) @ concat cs)" unfolding ran_to_def by blast
  with yields_chunk [of src, OF assms(1)] show ?thesis
    unfolding ran_to_def by (intro exI [of _ "c # cs"] exI [of _ out]) simp
qed

lemma collect_loop_ran:
  assumes "collect_loop src acc s w = Some y"
  shows "ran_to src acc s w y"
proof (rule collect_loop.raw_induct [OF _ assms])
  fix f src acc s w y
  assume IH: "\<And>src acc s w y. f src acc s w = Some y \<Longrightarrow> ran_to src acc s w y"
    and eq: "Option.bind (src s w) (\<lambda>(r, s', w'). case r of Inl e \<Rightarrow> Some (Inl e, s', w')
       | Inr None \<Rightarrow> Some (Inr acc, s', w')
       | Inr (Some chunk) \<Rightarrow> f src (acc @ chunk) s' w') = Some y"
  from eq obtain r1 s1 w1 where pull: "src s w = Some (r1, s1, w1)" and
    rest: "(case r1 of Inl e \<Rightarrow> Some (Inl e, s1, w1) | Inr None \<Rightarrow> Some (Inr acc, s1, w1)
       | Inr (Some chunk) \<Rightarrow> f src (acc @ chunk) s1 w1) = Some y"
    by (auto simp: bind_eq_Some_conv)
  consider e where "r1 = Inl e" | "r1 = Inr None" | c where "r1 = Inr (Some c)"
    by (metis obj_sumE option.exhaust)
  then show "ran_to src acc s w y"
  proof cases
    case 1
    with pull rest show ?thesis using ran_toI [OF yields_err] by fastforce
  next
    case 2
    with pull rest show ?thesis using ran_toI [OF yields_done] by fastforce
  next
    case 3
    with rest IH have "ran_to src (acc @ c) s1 w1 y" by auto
    with pull 3 show ?thesis using ran_to_chunk by metis
  qed
qed

lemma collect_loop_returns:
  assumes "collect_loop src acc s w = Some (r, s', w')"
  shows "\<exists>cs out. yields src s w cs out s' w' \<and> r = outcome out (acc @ concat cs)"
  using collect_loop_ran [OF assms] by (simp add: ran_to_def)

lemma collect_yields:
  "yields src s w cs out s' w' \<Longrightarrow> collect src s w = Some (outcome out (concat cs), s', w')"
  by (simp add: collect_def collect_loop_yields)

lemma collect_string_yields:
  "yields src s w cs out s' w' \<Longrightarrow> collect_string src s w = Some (outcome out (concat cs), s', w')"
  by (simp add: collect_string_def collect_loop_yields)

lemma stream_fold_yields:
  "yields src s w cs out s' w' \<Longrightarrow>
    stream_fold fn src init s w = Some (outcome out (foldl fn init (concat cs)), s', w')"
  by (induction arbitrary: init rule: yields.induct) (simp_all add: stream_fold.simps)

lemma foldl_count: "foldl (\<lambda>acc _. acc + 1) n xs = n + length xs"
  by (induction xs arbitrary: n) simp_all

lemma stream_count_yields:
  "yields src s w cs out s' w' \<Longrightarrow>
    stream_count src s w = Some (outcome out (length (concat cs)), s', w')"
  unfolding stream_count_def by (subst stream_fold_yields, assumption, subst foldl_count) simp

text \<open>The visitor of \<open>drain\<close> sees the elements in order; a source that leaves the world alone.\<close>

inductive pure_yields :: "('w, 's, 'a) pull \<Rightarrow> 's \<Rightarrow> 'a list list \<Rightarrow> error option \<Rightarrow> 's \<Rightarrow> bool"
  for src where
  pure_done: "(\<And>w. src s w = Some (Inr None, s', w)) \<Longrightarrow> pure_yields src s [] None s'"
| pure_err: "(\<And>w. src s w = Some (Inl e, s', w)) \<Longrightarrow> pure_yields src s [] (Some e) s'"
| pure_chunk: "(\<And>w. src s w = Some (Inr (Some c), s1, w)) \<Longrightarrow> pure_yields src s1 cs out s' \<Longrightarrow>
    pure_yields src s (c # cs) out s'"

lemma pure_yields_yields: "pure_yields src s cs out s' \<Longrightarrow> yields src s w cs out s' w"
  by (induction rule: pure_yields.induct) (auto intro: yields.intros)

lemma stream_drain_pure:
  "pure_yields src s cs out s' \<Longrightarrow>
    stream_drain fn src s w = Some (outcome out (), s', fold fn (concat cs) w)"
  by (induction arbitrary: w rule: pure_yields.induct) (simp_all add: stream_drain.simps)

subsection \<open>Sources\<close>

text \<open>A pull that gives its last chunk and is then exhausted.\<close>

lemma pure_yields_one:
  assumes "\<And>w. src s w = Some (Inr (Some c), s1, w)" "\<And>w. src s1 w = Some (Inr None, s1, w)"
  shows "pure_yields src s [c] None s1"
  using assms by (intro pure_chunk [of src s c s1] pure_done)

lemma empty_yields: "pure_yields empty_pull s [] None s"
  by (intro pure_done) (simp add: empty_pull_def)

lemma singleton_yields: "pure_yields singleton_pull \<lparr>sg_value = Some v\<rparr> [[v]] None \<lparr>sg_value = None\<rparr>"
  by (rule pure_yields_one) (simp_all add: singleton_pull_def)

lemma from_vector_yields:
  "pure_yields from_vector_pull (from_vector data) (if data = [] then [] else [chunk_from data]) None
     (if data = [] then from_vector [] else \<lparr>fv_data = None\<rparr>)"
  by (cases "data = []")
    (auto intro!: pure_done pure_yields_one simp: from_vector_pull_def from_vector_def)

lemma from_string_yields:
  "pure_yields from_string_pull (from_string data) (if data = [] then [] else [chunk_from data]) None
     (if data = [] then from_string [] else \<lparr>fs_data = None\<rparr>)"
  by (cases "data = []")
    (auto intro!: pure_done pure_yields_one simp: from_string_pull_def from_string_def)

subsection \<open>Combinators\<close>

lemma map_yields:
  "yields src s w cs out s' w' \<Longrightarrow>
    yields (map_pull f src) \<lparr>map_source = s\<rparr> w (map (map f) cs) out \<lparr>map_source = s'\<rparr> w'"
proof (induction rule: yields.induct)
  case (yields_chunk s w c s1 w1 cs out s' w')
  have "map_pull f src \<lparr>map_source = s\<rparr> w = Some (Inr (Some (map f c)), \<lparr>map_source = s1\<rparr>, w1)"
    by (simp add: map_pull_def yields_chunk.hyps(1))
  from yields.yields_chunk [OF this yields_chunk.IH] show ?case by simp
qed (auto intro!: yields.intros simp: map_pull_def)

lemma yields_same_pull:
  assumes "src s w = src s1 w1" "yields src s1 w1 cs out s' w'"
  shows "yields src s w cs out s' w'"
  using assms(2,1) by (cases rule: yields.cases) (auto intro: yields.intros)

definition nonempty_chunks :: "'a list list \<Rightarrow> 'a list list" where
  "nonempty_chunks cs = filter (\<lambda>c. c \<noteq> []) cs"

lemma concat_nonempty_chunks [simp]: "concat (nonempty_chunks cs) = concat cs"
  by (induction cs) (simp_all add: nonempty_chunks_def)

lemma filter_yields:
  "yields src s w cs out s' w' \<Longrightarrow>
    yields (filter_pull p src) \<lparr>filter_source = s\<rparr> w (nonempty_chunks (map (filter p) cs)) out
      \<lparr>filter_source = s'\<rparr> w'"
proof (induction rule: yields.induct)
  case (yields_chunk s w c s1 w1 cs out s' w')
  have step: "filter_pull p src \<lparr>filter_source = s\<rparr> w =
      (if filter p c \<noteq> [] then Some (Inr (Some (filter p c)), \<lparr>filter_source = s1\<rparr>, w1)
       else filter_pull p src \<lparr>filter_source = s1\<rparr> w1)"
    by (subst filter_pull.simps) (simp add: yields_chunk.hyps(1) Let_def)
  show ?case
  proof (cases "filter p c = []")
    case True
    with step have "filter_pull p src \<lparr>filter_source = s\<rparr> w = filter_pull p src \<lparr>filter_source = s1\<rparr> w1"
      by simp
    from yields_same_pull [of "filter_pull p src", OF this yields_chunk.IH] True show ?thesis
      by (simp add: nonempty_chunks_def)
  next
    case False
    with step have "filter_pull p src \<lparr>filter_source = s\<rparr> w =
        Some (Inr (Some (filter p c)), \<lparr>filter_source = s1\<rparr>, w1)" by simp
    from yields.yields_chunk [of "filter_pull p src", OF this yields_chunk.IH] False show ?thesis
      by (simp add: nonempty_chunks_def)
  qed
qed (auto intro!: yields.intros simp: nonempty_chunks_def filter_pull.simps)

fun take_chunks :: "nat \<Rightarrow> 'a list list \<Rightarrow> 'a list list" where
  "take_chunks n [] = []"
| "take_chunks n (c # cs) =
     (if n = 0 then [] else if length c \<le> n then c # take_chunks (n - length c) cs else [take n c])"

lemma concat_take_chunks: "concat (take_chunks n cs) = take n (concat cs)"
  by (induction n cs rule: take_chunks.induct) simp_all

text \<open>
  \<open>take\<close> stops without looking at the source any further: an error behind the last element
  taken is not seen.
\<close>

lemma take_yields:
  "yields src s w cs out s' w' \<Longrightarrow>
    \<exists>s2 w2. yields (take_pull src) \<lparr>take_source = s, take_remaining = n\<rparr> w (take_chunks n cs)
      (if n \<le> length (concat cs) then None else out) s2 w2"
proof (induction arbitrary: n rule: yields.induct)
  case (yields_done s w s' w')
  then show ?case
    by (cases "n = 0") (auto intro!: exI yields.yields_done simp: take_pull_def)
next
  case (yields_err s w e s' w')
  then show ?case
    by (cases "n = 0") (auto intro!: exI yields.yields_done yields.yields_err simp: take_pull_def)
next
  case (yields_chunk s w c s1 w1 cs out s' w')
  let ?t = "take_pull src"
  let ?s = "\<lparr>take_source = s, take_remaining = n\<rparr>"
  consider "n = 0" | "0 < n" "length c \<le> n" | "n < length c" "0 < n" by linarith
  then show ?case
  proof cases
    case 1
    then show ?thesis by (auto intro!: exI yields.yields_done simp: take_pull_def)
  next
    case 2
    then have step: "?t ?s w = Some (Inr (Some c), \<lparr>take_source = s1, take_remaining = n - length c\<rparr>, w1)"
      by (simp add: take_pull_def yields_chunk.hyps(1) Let_def)
    have len: "n - length c \<le> length (concat cs) \<longleftrightarrow> n \<le> length (concat (c # cs))"
      by auto
    obtain s2 w2 where "yields ?t \<lparr>take_source = s1, take_remaining = n - length c\<rparr> w1
        (take_chunks (n - length c) cs)
        (if n - length c \<le> length (concat cs) then None else out) s2 w2"
      using yields_chunk.IH [of "n - length c"] by blast
    from yields.yields_chunk [of ?t, OF step this, unfolded len]
    have "yields ?t ?s w (c # take_chunks (n - length c) cs)
        (if n \<le> length (concat (c # cs)) then None else out) s2 w2" .
    moreover have "take_chunks n (c # cs) = c # take_chunks (n - length c) cs"
      using 2 by simp
    ultimately show ?thesis by (intro exI) simp
  next
    case 3
    then have "?t ?s w = Some (Inr (Some (take n c)), \<lparr>take_source = s1, take_remaining = 0\<rparr>, w1)"
      by (simp add: take_pull_def yields_chunk.hyps(1) Let_def chunk_slice_take_drop)
    moreover have "yields ?t \<lparr>take_source = s1, take_remaining = 0\<rparr> w1 [] None
        \<lparr>take_source = s1, take_remaining = 0\<rparr> w1"
      by (intro yields.yields_done) (simp add: take_pull_def)
    ultimately have "yields ?t ?s w [take n c] None \<lparr>take_source = s1, take_remaining = 0\<rparr> w1"
      by (rule yields.yields_chunk)
    with 3 show ?thesis by auto
  qed
qed

end
