(* ===== verification/Stream_Contract.thy ===== *)
theory Stream_Contract
  imports Stream_Laws
begin

text \<open>
  The two contracts between a stream and its consumer, as locales. \<open>sealing\<close>: a stream that has
  said that it is done says so for ever, so a consumer may pull again after the end.
  \<open>delivering\<close>: a source delivers given contents, from which the terminal operations and the
  combinators over the source follow. Both are interpreted on the code's sources, and carried
  through the combinators by sublocales.
\<close>

subsection \<open>A finished stream stays finished\<close>

text \<open>The stream after \<open>n\<close> pulls, whatever they returned.\<close>

fun after_pulls :: "('w, 's, 'a) pull \<Rightarrow> nat \<Rightarrow> 's \<Rightarrow> 'w \<Rightarrow> ('s \<times> 'w) option" where
  "after_pulls src 0 s w = Some (s, w)"
| "after_pulls src (Suc n) s w = (case src s w of None \<Rightarrow> None | Some (r, s', w') \<Rightarrow> after_pulls src n s' w')"

locale sealing =
  fixes src :: "('w, 's, 'a) pull" and live dead :: "'s \<Rightarrow> bool"
  assumes dead_stays: "dead s \<Longrightarrow> \<exists>s' w'. src s w = Some (Inr None, s', w') \<and> dead s'"
    and done_dies: "live s \<Longrightarrow> src s w = Some (Inr None, s', w') \<Longrightarrow> dead s'"
    and chunk_lives: "live s \<Longrightarrow> src s w = Some (Inr (Some c), s', w') \<Longrightarrow> live s'"
    and error_lives: "live s \<Longrightarrow> src s w = Some (Inl e, s', w') \<Longrightarrow> live s'"
begin

lemma dead_after:
  "dead s \<Longrightarrow> \<exists>s' w'. after_pulls src n s w = Some (s', w') \<and> dead s'"
proof (induction n arbitrary: s w)
  case (Suc n)
  from dead_stays [OF Suc.prems] obtain s' w' where "src s w = Some (Inr None, s', w')" "dead s'"
    by blast
  with Suc.IH [of s' w'] show ?case by simp
qed simp

lemma done_for_ever:
  assumes "live s" "src s w = Some (Inr None, s', w')"
  shows "\<exists>s2 w2 s3 w3. after_pulls src n s' w' = Some (s2, w2) \<and> src s2 w2 = Some (Inr None, s3, w3)"
proof -
  from done_dies [OF assms] dead_after obtain s2 w2 where
    "after_pulls src n s' w' = Some (s2, w2)" "dead s2" by blast
  with dead_stays [of s2 w2] show ?thesis by auto
qed

end

locale sealing_combinators = sealing src live dead
  for src :: "('w, 's, 'a) pull" and live dead :: "'s \<Rightarrow> bool" +
  fixes f :: "'a \<Rightarrow> 'b" and p :: "'a \<Rightarrow> bool"

sublocale sealing_combinators \<subseteq> mapped: sealing "map_pull f src"
  "\<lambda>s. live (map_source s)" "\<lambda>s. dead (map_source s)"
proof
  fix s s' :: "'s MapImpl" and w w' c e
  show "\<exists>s' w'. map_pull f src s w = Some (Inr None, s', w') \<and> dead (map_source s')"
    if "dead (map_source s)"
    using dead_stays [OF that, of w] by (auto simp: step_simps)
  show "dead (map_source s')" if "live (map_source s)" "map_pull f src s w = Some (Inr None, s', w')"
    using that by (cases rule: pull_cases [of src "map_source s" w]) (auto simp: step_simps dest: done_dies)
  show "live (map_source s')" if "live (map_source s)" "map_pull f src s w = Some (Inr (Some c), s', w')"
    using that by (cases rule: pull_cases [of src "map_source s" w]) (auto simp: step_simps dest: chunk_lives)
  show "live (map_source s')" if "live (map_source s)" "map_pull f src s w = Some (Inl e, s', w')"
    using that by (cases rule: pull_cases [of src "map_source s" w]) (auto simp: step_simps dest: error_lives)
qed

sublocale sealing_combinators \<subseteq> taken: sealing "take_pull src"
  "\<lambda>s. take_remaining s = 0 \<or> live (take_source s)" "\<lambda>s. take_remaining s = 0 \<or> dead (take_source s)"
proof
  fix s s' :: "'s TakeImpl" and w w' c e
  show "\<exists>s' w'. take_pull src s w = Some (Inr None, s', w') \<and> (take_remaining s' = 0 \<or> dead (take_source s'))"
    if "take_remaining s = 0 \<or> dead (take_source s)"
    using that dead_stays [of "take_source s" w] by (cases "take_remaining s = 0") (auto simp: step_simps)
  note split = pull_cases [of src "take_source s" w]
  show "take_remaining s' = 0 \<or> dead (take_source s')"
    if "take_remaining s = 0 \<or> live (take_source s)" "take_pull src s w = Some (Inr None, s', w')"
    using that by (cases "take_remaining s = 0"; cases rule: split) (auto simp: step_simps dest: done_dies)
  show "take_remaining s' = 0 \<or> live (take_source s')"
    if "take_remaining s = 0 \<or> live (take_source s)" "take_pull src s w = Some (Inr (Some c), s', w')"
    using that by (cases "take_remaining s = 0"; cases rule: split) (auto simp: step_simps dest: chunk_lives)
  show "take_remaining s' = 0 \<or> live (take_source s')"
    if "take_remaining s = 0 \<or> live (take_source s)" "take_pull src s w = Some (Inl e, s', w')"
    using that by (cases "take_remaining s = 0"; cases rule: split) (auto simp: step_simps dest: error_lives)
qed

text \<open>The loop of \<open>filter\<close> only pulls its source, so its state is live until the source is done.\<close>

definition keeps_seal :: "('s \<Rightarrow> bool) \<Rightarrow> ('s \<Rightarrow> bool) \<Rightarrow> 's \<Rightarrow> 'a list option result \<times> 's \<times> 'w \<Rightarrow> bool" where
  "keeps_seal live dead s y \<longleftrightarrow> (live s \<longrightarrow>
     (if fst y = Inr None then dead (fst (snd y)) else live (fst (snd y))))"

definition pull_keeps_seal :: "('w, 's, 'a) pull \<Rightarrow> ('s \<Rightarrow> bool) \<Rightarrow> ('s \<Rightarrow> bool) \<Rightarrow> bool" where
  "pull_keeps_seal src live dead \<longleftrightarrow> (\<forall>s w y. src s w = Some y \<longrightarrow> keeps_seal live dead s y)"

lemma keeps_seal_chunk:
  "pull_keeps_seal src live dead \<Longrightarrow> src s w = Some (Inr (Some c), s1, w1) \<Longrightarrow> live s \<Longrightarrow> live s1"
  "pull_keeps_seal src live dead \<Longrightarrow> src s w = Some (Inr None, s1, w1) \<Longrightarrow> live s \<Longrightarrow> dead s1"
  "pull_keeps_seal src live dead \<Longrightarrow> src s w = Some (Inl e, s1, w1) \<Longrightarrow> live s \<Longrightarrow> live s1"
  by (fastforce simp: pull_keeps_seal_def keeps_seal_def)+

lemma filter_keeps_seal:
  assumes "filter_pull p src s w = Some y"
  shows "pull_keeps_seal src live dead \<longrightarrow>
    keeps_seal (\<lambda>s. live (filter_source s)) (\<lambda>s. dead (filter_source s)) s y"
proof (rule filter_pull.raw_induct [OF _ assms])
  fix f p src s w y
  assume IH: "\<And>p src s w y. f p src s w = Some y \<Longrightarrow> pull_keeps_seal src live dead \<longrightarrow>
      keeps_seal (\<lambda>s. live (filter_source s)) (\<lambda>s. dead (filter_source s)) s y"
    and eq: "Option.bind (src (filter_source s) w) (\<lambda>(r, src', w').
       let s' = s\<lparr>filter_source := src'\<rparr> in case r of Inl e \<Rightarrow> Some (Inl e, s', w')
       | Inr None \<Rightarrow> Some (Inr None, s', w')
       | Inr (Some chunk) \<Rightarrow> let filtered = filter p chunk in
           if filtered \<noteq> [] then Some (Inr (Some filtered), s', w') else f p src s' w') = Some y"
  show "pull_keeps_seal src live dead \<longrightarrow>
    keeps_seal (\<lambda>s. live (filter_source s)) (\<lambda>s. dead (filter_source s)) s y"
  proof
    assume k: "pull_keeps_seal src live dead"
    show "keeps_seal (\<lambda>s. live (filter_source s)) (\<lambda>s. dead (filter_source s)) s y"
    proof (cases rule: pull_cases [of src "filter_source s" w])
      case (gives c s1 w1)
      show ?thesis
      proof (cases "filter p c = []")
        case True
        with gives eq have "f p src (s\<lparr>filter_source := s1\<rparr>) w1 = Some y" by (simp add: Let_def)
        from IH [OF this] k keeps_seal_chunk(1) [OF k gives] show ?thesis
          by (simp add: keeps_seal_def)
      next
        case False
        with gives eq keeps_seal_chunk(1) [OF k gives] show ?thesis
          by (auto simp: keeps_seal_def Let_def)
      qed
    qed (use eq keeps_seal_chunk(2,3) [OF k] in \<open>auto simp: keeps_seal_def Let_def\<close>)
  qed
qed

sublocale sealing_combinators \<subseteq> filtered: sealing "filter_pull p src"
  "\<lambda>s. live (filter_source s)" "\<lambda>s. dead (filter_source s)"
proof -
  have k: "pull_keeps_seal src live dead"
    unfolding pull_keeps_seal_def keeps_seal_def
  proof (intro allI impI)
    fix s w y assume "src s w = Some y" "live s"
    then show "if fst y = Inr None then dead (fst (snd y)) else live (fst (snd y))"
      by (cases rule: pull_cases [of src s w]) (auto dest: done_dies chunk_lives error_lives)
  qed
  note keep = filter_keeps_seal [THEN mp, OF _ k, unfolded keeps_seal_def]
  show "sealing (filter_pull p src) (\<lambda>s. live (filter_source s)) (\<lambda>s. dead (filter_source s))"
  proof
    fix s :: "'s FilterImpl" and w
    show "\<exists>s' w'. filter_pull p src s w = Some (Inr None, s', w') \<and> dead (filter_source s')"
      if "dead (filter_source s)"
      using dead_stays [OF that, of w] by (auto simp: step_simps)
  qed (use keep in fastforce)+
qed

interpretation empty: sealing_combinators empty_pull "\<lambda>_. True" "\<lambda>_. True" f p for f p
  by unfold_locales (auto simp: empty_pull_def)

interpretation singleton: sealing_combinators singleton_pull "\<lambda>_. True" "\<lambda>s. sg_value s = None" f p for f p
  by unfold_locales (auto simp: singleton_pull_def split: option.splits)

interpretation vector: sealing_combinators from_vector_pull "\<lambda>_. True"
    "\<lambda>s. fv_data s = None \<or> fv_data s = Some []" f p for f p
  by unfold_locales (auto simp: from_vector_pull_def split: option.splits if_splits)

interpretation string: sealing_combinators from_string_pull "\<lambda>_. True"
    "\<lambda>s. fs_data s = None \<or> fs_data s = Some []" f p for f p
  by unfold_locales (auto simp: from_string_pull_def Let_def split: option.splits if_splits)

subsection \<open>Flattening\<close>

text \<open>
  \<open>flat_map\<close> over sub-streams that leave the world alone: the chunks of the sub-streams, in the
  order of the source's elements; then the source's own end or error.
\<close>

lemma flat_map_sub:
  assumes "pure_yields sub t bs None t'"
    and "yields (flat_map_pull fn src sub) (s\<lparr>fm_current_sub := None\<rparr>) w cs out s' w'"
  shows "yields (flat_map_pull fn src sub) (s\<lparr>fm_current_sub := Some t\<rparr>) w (bs @ cs) out s' w'"
  using assms(1)
proof (induction t bs "None :: error option" t' rule: pure_yields.induct)
  case (pure_done t t')
  then have "flat_map_pull fn src sub (s\<lparr>fm_current_sub := Some t\<rparr>) w =
      flat_map_pull fn src sub (s\<lparr>fm_current_sub := None\<rparr>) w"
    by (simp add: step_simps)
  from yields_same_pull [of "flat_map_pull fn src sub", OF this assms(2)] show ?case by simp
next
  case (pure_chunk t c t1 cs' t')
  then have "flat_map_pull fn src sub (s\<lparr>fm_current_sub := Some t\<rparr>) w =
      Some (Inr (Some c), s\<lparr>fm_current_sub := Some t1\<rparr>, w)"
    by (simp add: step_simps)
  from yields.yields_chunk [of "flat_map_pull fn src sub", OF this pure_chunk.hyps(3)] show ?case
    by simp
qed

lemma flat_map_pending:
  assumes "\<And>x. x \<in> set xs \<Longrightarrow> \<exists>t'. pure_yields sub (fn x) (subs x) None t'"
    and "yields (flat_map_pull fn src sub) (s\<lparr>fm_current_sub := None, fm_pending := []\<rparr>) w cs out s' w'"
  shows "yields (flat_map_pull fn src sub) (s\<lparr>fm_current_sub := None, fm_pending := xs\<rparr>) w
     (concat (map subs xs) @ cs) out s' w'"
  using assms
proof (induction xs)
  case (Cons x xs)
  have rest: "yields (flat_map_pull fn src sub) (s\<lparr>fm_current_sub := None, fm_pending := xs\<rparr>) w
     (concat (map subs xs) @ cs) out s' w'"
    using Cons by simp
  obtain t' where "pure_yields sub (fn x) (subs x) None t'" using Cons.prems(1) by auto
  from flat_map_sub [OF this, of fn src "s\<lparr>fm_pending := xs\<rparr>" w] rest
  have sub: "yields (flat_map_pull fn src sub) (s\<lparr>fm_current_sub := Some (fn x), fm_pending := xs\<rparr>) w
     (subs x @ concat (map subs xs) @ cs) out s' w'"
    by (cases s) simp
  have "flat_map_pull fn src sub (s\<lparr>fm_current_sub := None, fm_pending := x # xs\<rparr>) w =
      flat_map_pull fn src sub (s\<lparr>fm_current_sub := Some (fn x), fm_pending := xs\<rparr>) w"
    by (cases s) (simp add: step_simps)
  from yields_same_pull [of "flat_map_pull fn src sub", OF this sub] show ?case by simp
qed simp

lemma flat_map_yields:
  assumes "yields src s w cs out s' w'"
    and "\<And>x. x \<in> set (concat cs) \<Longrightarrow> \<exists>t'. pure_yields sub (fn x) (subs x) None t'"
  shows "yields (flat_map_pull fn src sub) \<lparr>fm_source = s, fm_current_sub = None, fm_pending = []\<rparr> w
     (concat (map subs (concat cs))) out \<lparr>fm_source = s', fm_current_sub = None, fm_pending = []\<rparr> w'"
  using assms
proof (induction rule: yields.induct)
  case (yields_chunk s w c s1 w1 cs out s' w')
  let ?f = "flat_map_pull fn src sub"
  let ?s1 = "\<lparr>fm_source = s1, fm_current_sub = None, fm_pending = []\<rparr>"
  have rest: "yields ?f ?s1 w1 (concat (map subs (concat cs))) out
      \<lparr>fm_source = s', fm_current_sub = None, fm_pending = []\<rparr> w'"
    using yields_chunk by simp
  have "?f \<lparr>fm_source = s, fm_current_sub = None, fm_pending = []\<rparr> w = ?f (?s1\<lparr>fm_pending := c\<rparr>) w1"
    using yields_chunk.hyps(1) by (cases c) (simp_all add: step_simps)
  moreover have "yields ?f (?s1\<lparr>fm_current_sub := None, fm_pending := c\<rparr>) w1
      (concat (map subs c) @ concat (map subs (concat cs))) out
      \<lparr>fm_source = s', fm_current_sub = None, fm_pending = []\<rparr> w'"
    using yields_chunk.prems rest by (intro flat_map_pending) simp_all
  ultimately show ?case
    using yields_same_pull [of ?f] by simp
qed (auto intro!: yields.intros simp: step_simps)

subsection \<open>Sources with known contents\<close>

locale delivering =
  fixes src :: "('w, 's, 'a) pull" and init :: "'x \<Rightarrow> 's" and contents :: "'x \<Rightarrow> 'a list"
  assumes delivers: "\<exists>cs s' w'. yields src (init x) w cs None s' w' \<and> concat cs = contents x"
begin

lemma collect_contents: "\<exists>s' w'. collect src (init x) w = Some (Inr (contents x), s', w')"
  using delivers [of x w] collect_yields by fastforce

lemma fold_contents:
  "\<exists>s' w'. stream_fold g src z (init x) w = Some (Inr (foldl g z (contents x)), s', w')"
  using delivers [of x w] stream_fold_yields by fastforce

lemma count_contents: "\<exists>s' w'. stream_count src (init x) w = Some (Inr (length (contents x)), s', w')"
  using delivers [of x w] stream_count_yields by fastforce

lemma taken_contents:
  "\<exists>cs s' w'. yields (take_pull src) \<lparr>take_source = init x, take_remaining = n\<rparr> w cs None s' w' \<and>
     concat cs = take n (contents x)"
proof -
  from delivers [of x w] obtain cs s' w' where
    run: "yields src (init x) w cs None s' w'" "concat cs = contents x" by blast
  obtain s2 w2 where "yields (take_pull src) \<lparr>take_source = init x, take_remaining = n\<rparr> w
      (take_chunks n cs) None s2 w2"
    using take_yields [OF run(1), of n] by (auto split: if_splits)
  then show ?thesis
    using run(2) by (intro exI [of _ "take_chunks n cs"] exI conjI) (auto simp: concat_take_chunks)
qed

lemma filtered_contents:
  "\<exists>cs s' w'. yields (filter_pull p src) \<lparr>filter_source = init x\<rparr> w cs None s' w' \<and>
     concat cs = filter p (contents x)"
proof -
  from delivers [of x w] obtain cs s' w' where
    run: "yields src (init x) w cs None s' w'" "concat cs = contents x" by blast
  from filter_yields [OF run(1), of p] show ?thesis
    by (intro exI conjI) (assumption, simp add: filter_concat run(2) flip: run(2))
qed

lemma mapped_contents:
  "\<exists>cs s' w'. yields (map_pull f src) \<lparr>map_source = init x\<rparr> w cs None s' w' \<and>
     concat cs = map f (contents x)"
proof -
  from delivers [of x w] obtain cs s' w' where
    run: "yields src (init x) w cs None s' w'" "concat cs = contents x" by blast
  from map_yields [OF run(1), of f] show ?thesis
    by (intro exI conjI) (assumption, simp add: map_concat flip: run(2))
qed

end

text \<open>A source under a mapping, a filter and a limit, each again a source with known contents.\<close>

locale delivering_map = delivering src init contents
  for src :: "('w, 's, 'a) pull" and init :: "'x \<Rightarrow> 's" and contents :: "'x \<Rightarrow> 'a list" +
  fixes f :: "'a \<Rightarrow> 'b"

sublocale delivering_map \<subseteq> mapped: delivering "map_pull f src" "\<lambda>x. \<lparr>map_source = init x\<rparr>"
    "\<lambda>x. map f (contents x)"
  by unfold_locales (rule mapped_contents)

locale delivering_filter = delivering_map src init contents f
  for src :: "('w, 's, 'a) pull" and init :: "'x \<Rightarrow> 's" and contents :: "'x \<Rightarrow> 'a list"
    and f :: "'a \<Rightarrow> 'b" +
  fixes p :: "'b \<Rightarrow> bool"

sublocale delivering_filter \<subseteq> filtered: delivering "filter_pull p (map_pull f src)"
    "\<lambda>x. \<lparr>filter_source = \<lparr>map_source = init x\<rparr>\<rparr>" "\<lambda>x. filter p (map f (contents x))"
  by unfold_locales (rule mapped.filtered_contents)

locale delivering_take = delivering_filter src init contents f p
  for src :: "('w, 's, 'a) pull" and init :: "'x \<Rightarrow> 's" and contents :: "'x \<Rightarrow> 'a list"
    and f :: "'a \<Rightarrow> 'b" and p :: "'b \<Rightarrow> bool" +
  fixes n :: nat

sublocale delivering_take \<subseteq> taken: delivering "take_pull (filter_pull p (map_pull f src))"
    "\<lambda>x. \<lparr>take_source = \<lparr>filter_source = \<lparr>map_source = init x\<rparr>\<rparr>, take_remaining = n\<rparr>"
    "\<lambda>x. take n (filter p (map f (contents x)))"
  by unfold_locales (rule filtered.taken_contents)

lemma pure_contents:
  assumes "pure_yields src s cs None s'" "concat cs = xs"
  shows "\<exists>cs s' w'. yields src s w cs None s' w' \<and> concat cs = xs"
  using pure_yields_yields [OF assms(1)] assms(2) by blast

interpretation from_vec: delivering_take from_vector_pull from_vector chunk_from f p n for f p n
  by unfold_locales (rule pure_contents [OF from_vector_yields], simp)

interpretation from_str: delivering_take from_string_pull from_string chunk_from f p n for f p n
  by unfold_locales (rule pure_contents [OF from_string_yields], simp)

end
