(* ===== verification/Kv_Contract.thy ===== *)
theory Kv_Contract
  imports Backend_Handle Stream_Contract
begin

text \<open>
  The contract of a storage backend: what its operations do to the map from keys to values that
  it stores (the locale \<open>kv_store\<close>, and \<open>kv_backend\<close> with the batch lookup). A backend that meets the contract is used through its
  handle; what a client may rely on is derived once in the locale. The first part is about the
  byte order of keys: the keys with a given prefix are an interval, so a scan that starts at the
  prefix and stops at the first key without it finds them all.
\<close>

subsection \<open>Runs of erased streams\<close>

lemma erased_yields:
  "yields src s w cs out s' w' \<Longrightarrow>
    yields stream_pull (make_stream_handle src s) w cs out (make_stream_handle src s') w'"
proof (induction rule: yields.induct)
  case (yields_chunk s w c s1 w1 cs out s' w')
  from yields.yields_chunk [of stream_pull, OF stream_pull_erased(2) [of src, OF yields_chunk.hyps(1)] yields_chunk.IH]
  show ?case .
qed (auto intro!: yields.intros simp: step_simps)

lemma erased_pure_yields:
  "pure_yields src s cs out s' \<Longrightarrow>
    pure_yields stream_pull (make_stream_handle src s) cs out (make_stream_handle src s')"
  by (induction rule: pure_yields.induct) (auto intro!: pure_yields.intros simp: step_simps)

lemma stream_from_vector_yields:
  "\<exists>s'. pure_yields stream_pull (stream_from_vector xs) (if xs = [] then [] else [chunk_from xs]) None s'"
  unfolding stream_from_vector_def using erased_pure_yields [OF from_vector_yields] by blast

lemma stream_from_string_yields:
  "\<exists>s'. pure_yields stream_pull (stream_from_string xs) (if xs = [] then [] else [chunk_from xs]) None s'"
  unfolding stream_from_string_def using erased_pure_yields [OF from_string_yields] by blast

lemma stream_empty_yields: "\<exists>s'. pure_yields stream_pull stream_empty [] None s'"
  unfolding stream_empty_def using erased_pure_yields [OF empty_yields] by blast

subsection \<open>Keys with a prefix form an interval\<close>

lemma prefix_le: "prefix p k \<Longrightarrow> p \<le> (k :: string)"
proof (induction p arbitrary: k)
  case (Cons c p)
  then show ?case by (cases k) auto
qed simp

lemma prefix_interval:
  assumes "p \<le> k" "k \<le> k'" "prefix p k'"
  shows "prefix p (k :: string)"
  using assms
proof (induction p arbitrary: k k')
  case (Cons c p)
  from Cons.prems(3) obtain t' where t': "k' = c # t'" "prefix p t'" by (cases k') auto
  with Cons.prems obtain d t where k: "k = d # t"
    by (cases k) (auto simp: prefix_le)
  from Cons.prems(1,2) k t' have "d = c" "p \<le> t" "t \<le> t'" by auto
  with Cons.IH t' k show ?case by simp
qed simp

text \<open>In a list sorted by key, the scan from the lower bound is the selection by prefix.\<close>

definition scan_sorted :: "(string \<times> 'v) list \<Rightarrow> string \<Rightarrow> (string \<times> 'v) list" where
  "scan_sorted kvs p =
     takeWhile (\<lambda>kv. starts_with (fst kv) p) (dropWhile (\<lambda>kv. fst kv < p) kvs)"

lemma takeWhile_prefix_sorted:
  assumes "sorted_wrt (<) (map fst kvs)" "\<And>kv. kv \<in> set kvs \<Longrightarrow> p \<le> fst kv"
  shows "takeWhile (\<lambda>kv. starts_with (fst kv) p) kvs = filter (\<lambda>kv. starts_with (fst kv) p) kvs"
  using assms
proof (induction kvs)
  case (Cons kv kvs)
  show ?case
  proof (cases "starts_with (fst kv) p")
    case True
    with Cons show ?thesis by simp
  next
    case False
    have "\<not> starts_with (fst x) p" if "x \<in> set kvs" for x
    proof -
      have "fst kv < fst x" using Cons.prems(1) that by auto
      then have "fst kv \<le> fst x" by simp
      with prefix_interval [of p "fst kv" "fst x"] Cons.prems(2) [of kv] False show ?thesis
        by (auto simp: starts_with_prefix)
    qed
    with False show ?thesis by (simp add: filter_empty_conv)
  qed
qed simp

lemma scan_sorted_filter:
  assumes "sorted_wrt (<) (map fst kvs)"
  shows "scan_sorted kvs p = filter (\<lambda>kv. starts_with (fst kv) p) kvs"
  using assms
proof (induction kvs)
  case (Cons kv kvs)
  show ?case
  proof (cases "fst kv < p")
    case True
    then have "\<not> starts_with (fst kv) p"
      using prefix_le [of p "fst kv"] by (auto simp: starts_with_prefix)
    with True Cons show ?thesis by (simp add: scan_sorted_def)
  next
    case False
    have "takeWhile (\<lambda>kv. starts_with (fst kv) p) (kv # kvs) =
        filter (\<lambda>kv. starts_with (fst kv) p) (kv # kvs)"
    proof (rule takeWhile_prefix_sorted [OF Cons.prems])
      fix x assume "x \<in> set (kv # kvs)"
      with Cons.prems have "fst kv \<le> fst x" by (auto intro: less_imp_le)
      with False show "p \<le> fst x" by simp
    qed
    with False show ?thesis by (simp add: scan_sorted_def)
  qed
qed (simp add: scan_sorted_def)

subsection \<open>The contract\<close>

type_synonym contents = "string \<Rightarrow> string option"

definition scan_of :: "contents \<Rightarrow> string \<Rightarrow> KVPair list \<Rightarrow> bool" where
  "scan_of m p kvs \<longleftrightarrow> sorted_wrt (<) (map kv_key kvs) \<and>
     set kvs = {KV k v | k v. m k = Some v \<and> prefix p k}"

definition op_wf :: "BatchOp \<Rightarrow> bool" where
  "op_wf op \<longleftrightarrow> (op_kind op = put_kind \<longrightarrow> op_value op \<noteq> None)"

definition apply_op :: "BatchOp \<Rightarrow> contents \<Rightarrow> contents" where
  "apply_op op m = (case op_kind op of
      put_kind \<Rightarrow> m(op_key op := op_value op)
    | del_kind \<Rightarrow> m(op_key op := None))"

text \<open>A scan is determined by the contents: two scans of the same map are the same list.\<close>

lemma kv_key_value_eq: "kv_key a = kv_key b \<Longrightarrow> kv_value a = kv_value b \<Longrightarrow> a = (b :: KVPair)"
  by (cases a; cases b) simp

lemma scan_of_unique:
  assumes "scan_of m p xs" "scan_of m p ys"
  shows "xs = ys"
proof -
  let ?S = "{KV k v | k v. m k = Some v \<and> prefix p k}"
  have inj: "inj_on kv_key ?S" by (auto simp: inj_on_def)
  have sets: "set xs = ?S" "set ys = ?S" using assms by (auto simp: scan_of_def)
  have "sorted (map kv_key xs) \<and> distinct (map kv_key xs)"
    "sorted (map kv_key ys) \<and> distinct (map kv_key ys)"
    using assms by (auto simp: scan_of_def strict_sorted_iff)
  moreover have "set (map kv_key xs) = set (map kv_key ys)" using sets by simp
  ultimately have "map kv_key xs = map kv_key ys" by (blast intro: sorted_distinct_set_unique)
  moreover have "inj_on kv_key (set xs \<union> set ys)" using inj sets by simp
  ultimately show ?thesis by (simp only: inj_on_map_eq_map)
qed

lemma scan_of_lookup: "scan_of m p kvs \<Longrightarrow> prefix p k \<Longrightarrow> m k = Some v \<longleftrightarrow> KV k v \<in> set kvs"
  by (auto simp: scan_of_def)

lemma scan_of_keys: "scan_of m p kvs \<Longrightarrow> kv \<in> set kvs \<Longrightarrow> prefix p (kv_key kv) \<and> m (kv_key kv) = Some (kv_value kv)"
  by (auto simp: scan_of_def)

text \<open>The operations of a batch, one by one.\<close>

fun run_ops :: "'w BackendHandle \<Rightarrow> BatchOp list \<Rightarrow> ('w, unit) io" where
  "run_ops h [] = io_return ()"
| "run_ops h (op # ops) = io_bind
     (case (op_kind op, op_value op) of
        (put_kind, Some v) \<Rightarrow> handle_put h (op_key op) v
      | _ \<Rightarrow> handle_del h (op_key op)) (\<lambda>_. run_ops h ops)"

locale kv_store =
  fixes B :: "'w StorageBackend" and c :: nat
    and contents :: "'w \<Rightarrow> contents" and inv :: "'w \<Rightarrow> bool"
  assumes get_law: "inv w \<Longrightarrow> b_get B c k w = Some (Inr (contents w k), w)"
    and put_law: "inv w \<Longrightarrow> \<exists>w'. b_put B c k v w = Some (Inr (), w') \<and> inv w' \<and>
      contents w' = (contents w)(k \<mapsto> v)"
    and del_law: "inv w \<Longrightarrow> \<exists>w'. b_del B c k w = Some (Inr (), w') \<and> inv w' \<and>
      contents w' = (contents w)(k := None)"
    and scan_law: "inv w \<Longrightarrow> \<exists>kvs. b_prefix_scan B c p w = Some (Inr kvs, w) \<and>
      scan_of (contents w) p kvs"
    and batch_law: "inv w \<Longrightarrow> list_all op_wf ops \<Longrightarrow>
      \<exists>w'. b_batch B c ops w = Some (Inr (), w') \<and> inv w' \<and>
        contents w' = fold apply_op ops (contents w)"
begin

abbreviation h :: "'w BackendHandle" where "h \<equiv> make_backend_handle B c"

lemma get_after_put:
  assumes "inv w"
  obtains w' where "handle_put h k v w = Some (Inr (), w')" "inv w'"
    "handle_get h k w' = Some (Inr (Some v), w')"
    "\<And>k'. k' \<noteq> k \<Longrightarrow> handle_get h k' w' = Some (Inr (contents w k'), w')"
  using put_law [OF assms, of k v] get_law by fastforce

lemma get_after_del:
  assumes "inv w"
  obtains w' where "handle_del h k w = Some (Inr (), w')" "inv w'"
    "handle_get h k w' = Some (Inr None, w')"
    "\<And>k'. k' \<noteq> k \<Longrightarrow> handle_get h k' w' = Some (Inr (contents w k'), w')"
  using del_law [OF assms, of k] get_law by fastforce

lemma scan_agrees_with_get:
  assumes "inv w" "prefix p k"
  obtains kvs where "handle_prefix_scan h p w = Some (Inr kvs, w)"
    "handle_get h k w = Some (Inr (map_of (map (\<lambda>kv. (kv_key kv, kv_value kv)) kvs) k), w)"
proof -
  obtain kvs where kvs: "b_prefix_scan B c p w = Some (Inr kvs, w)" "scan_of (contents w) p kvs"
    using scan_law [OF assms(1)] by blast
  let ?ps = "map (\<lambda>kv. (kv_key kv, kv_value kv)) kvs"
  have d: "distinct (map fst ?ps)"
    using kvs(2) by (simp add: scan_of_def strict_sorted_iff comp_def)
  have "map_of ?ps k = contents w k"
  proof (cases "contents w k")
    case None
    then have "k \<notin> fst ` set ?ps" using kvs(2) by (auto simp: scan_of_def)
    with None show ?thesis by (metis map_of_eq_None_iff)
  next
    case (Some v)
    with kvs(2) assms(2) have "(k, v) \<in> set ?ps"
      by (force simp: scan_of_def)
    with d Some show ?thesis by (metis map_of_is_SomeI)
  qed
  with kvs(1) get_law [OF assms(1)] that show thesis by simp
qed

lemma run_ops_contents:
  "inv w \<Longrightarrow> list_all op_wf ops \<Longrightarrow> \<exists>w'. run_ops h ops w = Some (Inr (), w') \<and> inv w' \<and>
    contents w' = fold apply_op ops (contents w)"
proof (induction ops arbitrary: w)
  case Nil
  then show ?case by (simp add: io_return_def)
next
  case (Cons op ops)
  have "\<exists>w'. (case (op_kind op, op_value op) of
        (put_kind, Some v) \<Rightarrow> handle_put h (op_key op) v
      | _ \<Rightarrow> handle_del h (op_key op)) w = Some (Inr (), w') \<and> inv w' \<and>
      contents w' = apply_op op (contents w)"
    using Cons.prems put_law [OF Cons.prems(1)] del_law [OF Cons.prems(1)]
    by (cases "op_kind op") (auto simp: apply_op_def op_wf_def)
  then obtain w' where "(case (op_kind op, op_value op) of
        (put_kind, Some v) \<Rightarrow> handle_put h (op_key op) v
      | _ \<Rightarrow> handle_del h (op_key op)) w = Some (Inr (), w')" "inv w'"
      "contents w' = apply_op op (contents w)" by blast
  with Cons.IH [of w'] Cons.prems(2) show ?case by (simp add: result_simps)
qed

lemma batch_is_sequence:
  assumes "inv w" "list_all op_wf ops"
  obtains w1 w2 where "handle_batch h ops w = Some (Inr (), w1)" "run_ops h ops w = Some (Inr (), w2)"
    "\<And>k. handle_get h k w1 = Some (Inr (contents w2 k), w1)"
  using batch_law [OF assms] run_ops_contents [OF assms] get_law by fastforce

end

text \<open>A backend whose batch lookup, native or looped, answers every key in its place.\<close>

locale kv_backend = kv_store B c contents inv
  for B :: "'w StorageBackend" and c :: nat and contents :: "'w \<Rightarrow> contents" and inv :: "'w \<Rightarrow> bool" +
  assumes get_many_law: "inv w \<Longrightarrow> b_get_many B = Some f \<Longrightarrow>
      f c ks w = Some (Inr (map (\<lambda>k. \<lparr>bg_key = k, bg_value = contents w k\<rparr>) ks), w)"
begin

lemma get_many_reads:
  assumes "inv w"
  shows "handle_get_many h ks w =
    Some (Inr (map (\<lambda>k. \<lparr>bg_key = k, bg_value = contents w k\<rparr>) ks), w)"
proof (cases "b_get_many B")
  case None
  then show ?thesis
    using get_many_loop_reads [of ks "b_get B c" w "contents w" "[]"] get_law [OF assms]
    by (simp add: get_many_native_def)
next
  case (Some f)
  then show ?thesis using get_many_law [OF assms Some] by (simp add: get_many_native_def)
qed

text \<open>A native batch lookup and the loop over \<open>get\<close> cannot be told apart.\<close>

lemma native_get_many_is_loop:
  "inv w \<Longrightarrow> handle_get_many h ks w = get_many_loop (handle_get h) [] ks w"
  using get_many_reads [of w ks] get_many_loop_reads [of ks "b_get B c" w "contents w" "[]"] get_law
  by simp

end

end
