(* ===== verification/Memory_Backend.thy ===== *)
theory Memory_Backend
  imports Kv_Contract
begin

text \<open>
  The in-memory backend of \<open>examples/04_custom_backend.cpp\<close>: a \<open>std::map\<close> behind the backend
  concept. The map is the list of its pairs in key order; the world is the objects' maps by
  address. The mutex of the code makes each operation atomic, so it does not appear.
\<close>

type_synonym std_map = "(string \<times> string) list"
type_synonym mem_world = "nat \<Rightarrow> std_map"

subsection \<open>The ordered map\<close>

text \<open>\<open>store[key] = value\<close>, \<open>erase\<close> and \<open>lower_bound\<close>.\<close>

fun map_assign :: "string \<Rightarrow> string \<Rightarrow> std_map \<Rightarrow> std_map" where
  "map_assign k v [] = [(k, v)]"
| "map_assign k v ((k', v') # kvs) =
     (if k < k' then (k, v) # (k', v') # kvs
      else if k = k' then (k, v) # kvs
      else (k', v') # map_assign k v kvs)"

definition map_erase :: "string \<Rightarrow> std_map \<Rightarrow> std_map" where
  "map_erase k kvs = filter (\<lambda>kv. fst kv \<noteq> k) kvs"

definition lower_bound :: "std_map \<Rightarrow> string \<Rightarrow> std_map" where
  "lower_bound kvs k = dropWhile (\<lambda>kv. fst kv < k) kvs"

definition map_ok :: "std_map \<Rightarrow> bool" where
  "map_ok kvs \<longleftrightarrow> sorted_wrt (<) (map fst kvs)"

lemma set_map_assign: "fst ` set (map_assign k v kvs) = insert k (fst ` set kvs)"
  by (induction k v kvs rule: map_assign.induct) auto

lemma map_ok_assign: "map_ok kvs \<Longrightarrow> map_ok (map_assign k v kvs)"
proof (induction k v kvs rule: map_assign.induct)
  case (2 k v k' v' kvs)
  have "fst ` set (map_assign k v kvs) = insert k (fst ` set kvs)" by (rule set_map_assign)
  with 2 show ?case by (auto simp: map_ok_def)
qed (simp add: map_ok_def)

lemma map_of_assign: "map_ok kvs \<Longrightarrow> map_of (map_assign k v kvs) = (map_of kvs)(k \<mapsto> v)"
  by (induction k v kvs rule: map_assign.induct) (auto simp: map_ok_def fun_eq_iff)

lemma map_ok_erase: "map_ok kvs \<Longrightarrow> map_ok (map_erase k kvs)"
  by (simp add: map_ok_def map_erase_def sorted_wrt_map sorted_wrt_filter)

lemma map_of_erase: "map_of (map_erase k kvs) = (map_of kvs)(k := None)"
  by (induction kvs) (auto simp: map_erase_def fun_eq_iff)

subsection \<open>The operations\<close>

definition mem_get :: "nat \<Rightarrow> string \<Rightarrow> (mem_world, string option) io" where
  "mem_get self key w = Some (Inr (map_of (w self) key), w)"

definition mem_put :: "nat \<Rightarrow> string \<Rightarrow> string \<Rightarrow> (mem_world, unit) io" where
  "mem_put self key val w = Some (Inr (), w(self := map_assign key val (w self)))"

definition mem_del :: "nat \<Rightarrow> string \<Rightarrow> (mem_world, unit) io" where
  "mem_del self key w = Some (Inr (),
     (if map_of (w self) key \<noteq> None then w(self := map_erase key (w self)) else w))"

fun mem_scan_loop :: "string \<Rightarrow> KVPair list \<Rightarrow> std_map \<Rightarrow> KVPair list" where
  "mem_scan_loop pre results [] = results"
| "mem_scan_loop pre results ((k, v) # it) =
     (if starts_with k pre then mem_scan_loop pre (results @ [KV k v]) it else results)"

definition mem_prefix_scan :: "nat \<Rightarrow> string \<Rightarrow> (mem_world, KVPair list) io" where
  "mem_prefix_scan self pre w =
     Some (Inr (mem_scan_loop pre [] (lower_bound (w self) pre)), w)"

fun mem_batch_loop :: "BatchOp list \<Rightarrow> std_map \<Rightarrow> std_map" where
  "mem_batch_loop [] st = st"
| "mem_batch_loop (op # ops) st = mem_batch_loop ops
     (case (op_kind op, op_value op) of
        (put_kind, Some v) \<Rightarrow> map_assign (op_key op) v st
      | _ \<Rightarrow> map_erase (op_key op) st)"

definition mem_batch :: "nat \<Rightarrow> BatchOp list \<Rightarrow> (mem_world, unit) io" where
  "mem_batch self ops w = Some (Inr (), w(self := mem_batch_loop ops (w self)))"

definition mem_compact :: "nat \<Rightarrow> (mem_world, unit) io" where
  "mem_compact self = io_return ()"

text \<open>
  The visitor runs under the backend's lock, so it cannot call the backend: the pairs visited
  are those of the map when the scan begins.
\<close>

fun mem_visit_loop :: "string \<Rightarrow> mem_world ScanVisitor \<Rightarrow> std_map \<Rightarrow> mem_world \<Rightarrow> mem_world" where
  "mem_visit_loop pre visitor [] w = w"
| "mem_visit_loop pre visitor ((k, v) # it) w =
     (if starts_with k pre then mem_visit_loop pre visitor it (visitor k v w) else w)"

definition mem_foreach_scan :: "nat \<Rightarrow> string \<Rightarrow> mem_world ScanVisitor \<Rightarrow> (mem_world, unit) io" where
  "mem_foreach_scan self pre visitor w =
     Some (Inr (), mem_visit_loop pre visitor (lower_bound (w self) pre) w)"

definition mem_stream_get :: "nat \<Rightarrow> string \<Rightarrow> (mem_world, (mem_world, char) StreamHandle) io" where
  "mem_stream_get self key = io_bind (mem_get self key) (\<lambda>r. case r of
      None \<Rightarrow> io_return stream_empty
    | Some v \<Rightarrow> io_return (stream_from_string v))"

definition mem_stream_put :: "nat \<Rightarrow> string \<Rightarrow> (mem_world, char) StreamHandle \<Rightarrow> (mem_world, unit) io" where
  "mem_stream_put self key input w = (case collect_string stream_pull input w of
      None \<Rightarrow> None
    | Some (Inl e, _, w') \<Rightarrow> Some (Inl e, w')
    | Some (Inr collected, _, w') \<Rightarrow> mem_put self key collected w')"

definition mem_stream_scan :: "nat \<Rightarrow> string \<Rightarrow> (mem_world, (mem_world, KVPair) StreamHandle) io" where
  "mem_stream_scan self pre = io_bind (mem_prefix_scan self pre) (\<lambda>r. io_return (stream_from_vector r))"

definition in_memory_backend :: "mem_world StorageBackend" where
  "in_memory_backend =
    \<lparr>b_get = mem_get, b_put = mem_put, b_del = mem_del, b_prefix_scan = mem_prefix_scan,
     b_batch = mem_batch, b_compact = mem_compact, b_foreach_scan = mem_foreach_scan,
     b_stream_get = mem_stream_get, b_stream_put = mem_stream_put, b_stream_scan = mem_stream_scan,
     b_get_many = None, b_delete = (\<lambda>self w. w(self := []))\<rparr>"

subsection \<open>The contract is met\<close>

lemma mem_scan_loop_takeWhile:
  "mem_scan_loop p out it = out @ map (\<lambda>(k, v). KV k v) (takeWhile (\<lambda>kv. starts_with (fst kv) p) it)"
  by (induction p out it rule: mem_scan_loop.induct) auto

lemma mem_scan_filter:
  "map_ok kvs \<Longrightarrow> mem_scan_loop p [] (lower_bound kvs p) =
    map (\<lambda>(k, v). KV k v) (filter (\<lambda>kv. starts_with (fst kv) p) kvs)"
  by (simp add: mem_scan_loop_takeWhile lower_bound_def map_ok_def
      flip: scan_sorted_filter scan_sorted_def)

lemma map_ok_distinct: "map_ok kvs \<Longrightarrow> distinct (map fst kvs)"
  by (simp add: map_ok_def strict_sorted_iff)

lemma scan_of_filter:
  assumes "map_ok kvs"
  shows "scan_of (map_of kvs) p (map (\<lambda>(k, v). KV k v) (filter (\<lambda>kv. starts_with (fst kv) p) kvs))"
proof -
  have keys: "map kv_key (map (\<lambda>(k, v). KV k v) xs) = map fst xs" for xs by auto
  have "sorted_wrt (<) (map fst (filter (\<lambda>kv. starts_with (fst kv) p) kvs))"
    using assms by (simp add: map_ok_def sorted_wrt_map sorted_wrt_filter)
  moreover have "map_of kvs k = Some v \<longleftrightarrow> (k, v) \<in> set kvs" for k v
    using map_ok_distinct [OF assms] by simp
  ultimately show ?thesis
    unfolding scan_of_def keys by (auto simp: starts_with_prefix image_iff)
qed

lemma mem_batch_loop_ok:
  "map_ok st \<Longrightarrow> list_all op_wf ops \<Longrightarrow> map_ok (mem_batch_loop ops st) \<and>
    map_of (mem_batch_loop ops st) = fold apply_op ops (map_of st)"
proof (induction ops arbitrary: st)
  case (Cons op ops)
  have "map_ok (mem_batch_loop [op] st) \<and> map_of (mem_batch_loop [op] st) = apply_op op (map_of st)"
    using Cons.prems by (cases "op_kind op"; cases "op_value op")
      (auto simp: apply_op_def op_wf_def map_ok_assign map_of_assign map_ok_erase map_of_erase)
  with Cons.IH [of "mem_batch_loop [op] st"] Cons.prems(2) show ?case by simp
qed simp

interpretation memory: kv_backend in_memory_backend c "\<lambda>w. map_of (w c)" "\<lambda>w. map_ok (w c)" for c
proof
  fix w :: mem_world and k v p ops ks f
  assume inv: "map_ok (w c)"
  show "b_get in_memory_backend c k w = Some (Inr (map_of (w c) k), w)"
    by (simp add: in_memory_backend_def mem_get_def)
  show "\<exists>w'. b_put in_memory_backend c k v w = Some (Inr (), w') \<and> map_ok (w' c) \<and>
      map_of (w' c) = (map_of (w c))(k \<mapsto> v)"
    using inv by (simp add: in_memory_backend_def mem_put_def map_ok_assign map_of_assign)
  show "\<exists>w'. b_del in_memory_backend c k w = Some (Inr (), w') \<and> map_ok (w' c) \<and>
      map_of (w' c) = (map_of (w c))(k := None)"
    using inv by (auto simp: in_memory_backend_def mem_del_def map_ok_erase map_of_erase fun_upd_idem)
  show "\<exists>kvs. b_prefix_scan in_memory_backend c p w = Some (Inr kvs, w) \<and>
      scan_of (map_of (w c)) p kvs"
    using inv by (simp add: in_memory_backend_def mem_prefix_scan_def mem_scan_filter scan_of_filter)
  show "\<exists>w'. b_batch in_memory_backend c ops w = Some (Inr (), w') \<and> map_ok (w' c) \<and>
      map_of (w' c) = fold apply_op ops (map_of (w c))" if "list_all op_wf ops"
    using mem_batch_loop_ok [OF inv that] by (simp add: in_memory_backend_def mem_batch_def)
  show "f c ks w = Some (Inr (map (\<lambda>k. \<lparr>bg_key = k, bg_value = map_of (w c) k\<rparr>) ks), w)"
    if "b_get_many in_memory_backend = Some f"
    using that by (simp add: in_memory_backend_def)
qed

end
