(* ===== verification/Dispatch_Laws.thy ===== *)
theory Dispatch_Laws
  imports Tree_Builder Memory_Backend
begin

text \<open>
  What dispatch does on the trees that \<open>build_tree\<close> returns: keys are routed to the handle the
  factory made for their scope and table, unknown names are errors that reach no backend, scans
  without a first part visit every table, and batches are split by table.
\<close>

subsection \<open>Routing\<close>

definition path_key :: "string \<Rightarrow> string \<Rightarrow> string \<Rightarrow> string" where
  "path_key s t k = s @ colon # t @ colon # k"

definition routes_to :: "(string \<Rightarrow> 64 word) \<Rightarrow> 'w StoreNode \<Rightarrow> string \<Rightarrow> string \<Rightarrow> 'w BackendHandle \<Rightarrow> bool" where
  "routes_to hash root s t h \<longleftrightarrow> (\<forall>k v.
     node_get hash root (path_key s t k) = handle_get h k \<and>
     node_put hash root (path_key s t k) v = handle_put h k v \<and>
     node_del hash root (path_key s t k) = handle_del h k)"

lemma built_routes_to:
  assumes tree: "build_tree hash ord factory tables w = Some (Inr root, w')" and "permutes ord"
    and td: "td \<in> set tables" "td_scope td = s" "td_table td = t"
    and plain: "colon \<notin> set s" "colon \<notin> set t"
  obtains h where "made_by factory s t h" "routes_to hash root s t h"
    "s \<noteq> [] \<Longrightarrow> t \<noteq> [] \<Longrightarrow> node_prefix_scan hash root (path_key s t p) = handle_prefix_scan h p"
    "s \<noteq> [] \<Longrightarrow> t \<noteq> [] \<Longrightarrow> node_foreach hash root (path_key s t p) visitor = handle_foreach_scan h p visitor"
proof -
  let ?gs = "traverse ord (group_by td_scope td_table tables)"
  obtain cs where root: "root = CompositeNode ''root'' cs (build_indexed hash cs node_name)"
    and shape: "list_all2 (scope_for hash factory) ?gs cs"
    using build_tree_shape [OF tree] .
  let ?ts = "map td_table (filter (\<lambda>x. td_scope x = s) tables)"
  have "(s, ?ts) \<in> set ?gs" using td by (auto simp: traverse_group_by [OF assms(2)])
  then obtain ls where ls: "list_all2 (leaf_for factory s) ?ts ls"
    and fs: "find_child hash ''root'' cs (build_indexed hash cs node_name) s =
       Some (Inr (CompositeNode s ls (build_indexed hash ls node_name)))"
    using root_child [OF shape traverse_keys(1) [OF assms(2)], where nm = "''root''"] by blast
  have "t \<in> set ?ts" using td by auto
  then obtain h where h: "made_by factory s t h"
    and ft: "find_child hash s ls (build_indexed hash ls node_name) t =
       Some (Inr (LeafNode \<lparr>leaf_name = t, leaf_handle = h\<rparr>))"
    using scope_child [OF ls] by blast
  show thesis
    by (rule that [OF h]) (simp_all add: routes_to_def path_key_def root fs ft plain)
qed

subsection \<open>Unknown names\<close>

lemma unknown_scope:
  assumes tree: "build_tree hash ord factory tables w = Some (Inr root, w')" and "permutes ord"
    and "s \<notin> td_scope ` set tables" "fst (route_key key) = s"
  shows "node_get hash root key = io_throw (child_not_found s ''root'')"
    "node_put hash root key v = io_throw (child_not_found s ''root'')"
    "node_del hash root key = io_throw (child_not_found s ''root'')"
    "s \<noteq> [] \<Longrightarrow> node_prefix_scan hash root key = io_throw (child_not_found s ''root'')"
proof -
  obtain cs where root: "root = CompositeNode ''root'' cs (build_indexed hash cs node_name)"
    and shape: "list_all2 (scope_for hash factory) (traverse ord (group_by td_scope td_table tables)) cs"
    using build_tree_shape [OF tree] .
  have "s \<notin> node_name ` set cs"
    using scopes_names [OF shape] traverse_keys(2) [OF assms(2), of td_scope td_table tables] assms(3)
    by (metis list.set_map)
  then have "find_child hash ''root'' cs (build_indexed hash cs node_name) s = Some (Inl (child_not_found s ''root''))"
    by (cases rule: find_child_built [of s cs hash "''root''"]) auto
  then show "node_get hash root key = io_throw (child_not_found s ''root'')"
    "node_put hash root key v = io_throw (child_not_found s ''root'')"
    "node_del hash root key = io_throw (child_not_found s ''root'')"
    "s \<noteq> [] \<Longrightarrow> node_prefix_scan hash root key = io_throw (child_not_found s ''root'')"
    using assms(4) by (simp_all add: root)
qed

subsection \<open>Fan-out\<close>

text \<open>
  A scan of all children concatenates what the children's scans return, in the order of the
  children; the first error ends it.
\<close>

lemma scan_children_all:
  assumes "\<And>ch. ch \<in> set chs \<Longrightarrow> node_prefix_scan hash ch pre w = Some (Inr (f ch), w)"
  shows "scan_children hash chs pre acc w = Some (Inr (acc @ concat (map f chs)), w)"
  using assms by (induction chs arbitrary: acc) (simp_all add: result_simps)

lemma scan_children_error:
  assumes "\<And>ch. ch \<in> set before \<Longrightarrow> node_prefix_scan hash ch pre w = Some (Inr (f ch), w)"
    and "node_prefix_scan hash ch pre w = Some (Inl e, w')"
  shows "scan_children hash (before @ ch # after) pre acc w = Some (Inl e, w')"
  using assms by (induction before arbitrary: acc) (simp_all add: result_simps)

text \<open>The leaves of a node, from left to right.\<close>

fun leaves_of :: "'w StoreNode \<Rightarrow> 'w ColumnLeaf list" and leaves_of_list :: "'w StoreNode list \<Rightarrow> 'w ColumnLeaf list" where
  "leaves_of (LeafNode l) = [l]"
| "leaves_of (CompositeNode nm cs ix) = leaves_of_list cs"
| "leaves_of_list [] = []"
| "leaves_of_list (n # ns) = leaves_of n @ leaves_of_list ns"

lemma fan_out_scan:
  assumes "fst (route_key pre) = []"
  shows "(\<And>l. l \<in> set (leaves_of n) \<Longrightarrow>
      handle_prefix_scan (leaf_handle l) pre w = Some (Inr (f l), w)) \<Longrightarrow>
    node_prefix_scan hash n pre w = Some (Inr (concat (map f (leaves_of n))), w)"
  and "(\<And>l. l \<in> set (leaves_of_list ns) \<Longrightarrow>
      handle_prefix_scan (leaf_handle l) pre w = Some (Inr (f l), w)) \<Longrightarrow>
    scan_children hash ns pre acc w = Some (Inr (acc @ concat (map f (leaves_of_list ns))), w)"
  using assms by (induction n and ns arbitrary: and acc rule: leaves_of_leaves_of_list.induct)
    (simp_all add: result_simps)

fun run_compacts :: "'w ColumnLeaf list \<Rightarrow> ('w, unit) io" where
  "run_compacts [] = io_return ()"
| "run_compacts (l # ls) = io_bind (handle_compact (leaf_handle l)) (\<lambda>_. run_compacts ls)"

lemma run_compacts_append:
  "run_compacts (xs @ ys) = io_bind (run_compacts xs) (\<lambda>_. run_compacts ys)"
  by (induction xs) (simp_all add: io_bind_assoc)

text \<open>Compaction visits every leaf once, from left to right, up to the first error.\<close>

lemma compact_leaves:
  fixes n :: "'w StoreNode" and ns :: "'w StoreNode list"
  shows "node_compact n = run_compacts (leaves_of n)"
    "compact_children ns = run_compacts (leaves_of_list ns)"
  by (induction n and ns rule: leaves_of_leaves_of_list.induct) (simp_all add: run_compacts_append)

subsection \<open>Batches\<close>

fun run_batches :: "(string \<Rightarrow> 'w BackendHandle) \<Rightarrow> (string \<times> BatchOp list) list \<Rightarrow> ('w, unit) io" where
  "run_batches hs [] = io_return ()"
| "run_batches hs ((cf, group_ops) # gs) = io_bind (handle_batch (hs cf) group_ops) (\<lambda>_. run_batches hs gs)"

lemma batch_groups_leaves:
  assumes "\<And>cf. cf \<in> fst ` set gs \<Longrightarrow> \<exists>nm'. find_child hash nm cs ix cf =
      Some (Inr (LeafNode \<lparr>leaf_name = nm', leaf_handle = hs cf\<rparr>))"
  shows "batch_groups hash ord nm cs ix gs = run_batches hs gs"
  using assms
proof (induction gs)
  case (Cons g gs)
  obtain cf os where g: "g = (cf, os)" by fastforce
  from Cons.prems [of cf] g obtain nm' where
    "find_child hash nm cs ix cf = Some (Inr (LeafNode \<lparr>leaf_name = nm', leaf_handle = hs cf\<rparr>))" by auto
  with Cons g show ?case by simp
qed simp

text \<open>
  A batch on a scope is one batch per table named in it, with the table's operations in their
  order.
\<close>

lemma scope_batch:
  assumes "list_all2 (leaf_for factory s) ts ls" "permutes ord" "op_cf_name ` set ops \<subseteq> set ts"
  obtains hs where "\<And>t. t \<in> set ts \<Longrightarrow> made_by factory s t (hs t)"
    "node_batch hash ord (CompositeNode s ls (build_indexed hash ls node_name)) ops =
       run_batches hs (traverse ord (group_by op_cf_name id ops))"
proof -
  have "\<forall>t\<in>set ts. \<exists>h. made_by factory s t h \<and>
    find_child hash s ls (build_indexed hash ls node_name) t =
       Some (Inr (LeafNode \<lparr>leaf_name = t, leaf_handle = h\<rparr>))"
    using scope_child [OF assms(1)] by metis
  then obtain hs where hs: "\<And>t. t \<in> set ts \<Longrightarrow> made_by factory s t (hs t) \<and>
    find_child hash s ls (build_indexed hash ls node_name) t =
       Some (Inr (LeafNode \<lparr>leaf_name = t, leaf_handle = hs t\<rparr>))" by metis
  have "fst ` set (traverse ord (group_by op_cf_name id ops)) \<subseteq> set ts"
    using assms(3) by (simp add: traverse_keys(2) [OF assms(2)])
  then have "node_batch hash ord (CompositeNode s ls (build_indexed hash ls node_name)) ops =
       run_batches hs (traverse ord (group_by op_cf_name id ops))"
    using hs by (subst node_batch.simps, intro batch_groups_leaves) blast
  with hs that show thesis by blast
qed

text \<open>
  Every level of the tree groups by \<open>cf_name\<close>. A scope receives from the root only operations
  whose \<open>cf_name\<close> is the scope's own name, so a batch at the root never reaches a backend unless
  a table is named like its scope.
\<close>

lemma find_child_absent:
  "x \<notin> node_name ` set cs \<Longrightarrow>
    find_child hash nm cs (build_indexed hash cs node_name) x = Some (Inl (child_not_found x nm))"
  by (cases rule: find_child_built [of x cs hash nm]) auto

lemma root_batch_fails:
  assumes tree: "build_tree hash ord factory tables w0 = Some (Inr root, w1)" and "permutes ord"
    and "ops \<noteq> []" and no_table: "\<And>td. td \<in> set tables \<Longrightarrow> td_table td \<noteq> td_scope td"
  shows "\<exists>e. node_batch hash ord root ops w = Some (Inl e, w) \<and> err_code e = ''ChildNotFound''"
proof -
  let ?gs = "traverse ord (group_by td_scope td_table tables)"
  let ?os = "traverse ord (group_by op_cf_name id ops)"
  obtain cs where root: "root = CompositeNode ''root'' cs (build_indexed hash cs node_name)"
    and shape: "list_all2 (scope_for hash factory) ?gs cs"
    using build_tree_shape [OF tree] .
  have "fst ` set ?os \<noteq> {}" using assms(3) by (simp add: traverse_keys(2) [OF assms(2)])
  then obtain cf os rest where os: "?os = (cf, os) # rest" by (cases ?os) auto
  then have "(cf, os) \<in> set ?os" by simp
  then have grp: "os \<noteq> []" "\<And>x. x \<in> set os \<Longrightarrow> op_cf_name x = cf"
    by (auto simp: traverse_group_by [OF assms(2)] filter_empty_conv)
  show ?thesis
  proof (cases "cf \<in> node_name ` set cs")
    case False
    from find_child_absent [OF this] show ?thesis
      by (simp add: root os io_throw_def child_not_found_def)
  next
    case True
    then have "cf \<in> fst ` set ?gs" using scopes_names [OF shape] by (metis list.set_map)
    then obtain ts where ts: "(cf, ts) \<in> set ?gs" by auto
    then have no: "cf \<notin> set ts" by (auto simp: traverse_group_by [OF assms(2)] dest: no_table)
    from root_child [OF shape traverse_keys(1) [OF assms(2)] ts, where nm = "''root''"]
    obtain ls where ls: "list_all2 (leaf_for factory cf) ts ls"
      and fc: "find_child hash ''root'' cs (build_indexed hash cs node_name) cf =
        Some (Inr (CompositeNode cf ls (build_indexed hash ls node_name)))" by blast
    have "fst ` set (traverse ord (group_by op_cf_name id os)) = {cf}"
      using grp by (auto simp: traverse_keys(2) [OF assms(2)] neq_Nil_conv)
    then obtain os2 rest2 where os2: "traverse ord (group_by op_cf_name id os) = (cf, os2) # rest2"
      by (cases "traverse ord (group_by op_cf_name id os)") auto
    have "cf \<notin> node_name ` set ls" using no leaves_names [OF ls] by (metis list.set_map)
    from find_child_absent [OF this, of hash cf] fc show ?thesis
      by (simp add: root os os2 io_throw_def io_bind_def child_not_found_def)
  qed
qed

end
