(* ===== verification/Resource_Stack.thy ===== *)
theory Resource_Stack
  imports Prelude
begin

text \<open>
  \<open>ResourceStack\<close> (\<open>include/celer/core/resource_stack.hpp\<close>): resources with their destructors,
  torn down in the reverse order of their registration, each once.
\<close>

record 'w ResourceEntry =
  re_resource :: "nat option"
  re_destroy :: "(nat \<Rightarrow> 'w \<Rightarrow> 'w) option"
  re_label :: string

type_synonym 'w ResourceStack = "'w ResourceEntry list"

definition stack_push :: "string \<Rightarrow> nat option \<Rightarrow> (nat \<Rightarrow> 'w \<Rightarrow> 'w) option \<Rightarrow> 'w ResourceStack \<Rightarrow> 'w ResourceStack" where
  "stack_push label res destroy st = st @ [\<lparr>re_resource = res, re_destroy = destroy, re_label = label\<rparr>]"

text \<open>A null resource and a null destructor are skipped.\<close>

definition destroy_entry :: "'w ResourceEntry \<Rightarrow> 'w \<Rightarrow> 'w" where
  "destroy_entry e w = (case (re_destroy e, re_resource e) of
      (Some f, Some r) \<Rightarrow> f r w
    | _ \<Rightarrow> w)"

fun teardown_loop :: "'w ResourceEntry list \<Rightarrow> 'w \<Rightarrow> 'w" where
  "teardown_loop [] w = w"
| "teardown_loop (e # es) w = teardown_loop es (destroy_entry e w)"

definition teardown :: "'w ResourceStack \<Rightarrow> 'w \<Rightarrow> unit result \<times> 'w ResourceStack \<times> 'w" where
  "teardown st w = (Inr (), [], teardown_loop (rev st) w)"

text \<open>Move construction empties the source; move assignment tears the target down first.\<close>

definition stack_move :: "'w ResourceStack \<Rightarrow> 'w ResourceStack \<times> 'w ResourceStack" where
  "stack_move st = (st, [])"

definition stack_move_assign :: "'w ResourceStack \<Rightarrow> 'w ResourceStack \<Rightarrow> 'w \<Rightarrow>
    'w ResourceStack \<times> 'w ResourceStack \<times> 'w" where
  "stack_move_assign this other w =
     (let (_, _, w1) = teardown this w; (t, s) = stack_move other in (t, s, w1))"

lemma teardown_loop_fold: "teardown_loop es w = fold destroy_entry es w"
  by (induction es arbitrary: w) simp_all

lemma teardown_push:
  "teardown (stack_push label (Some r) (Some f) st) w = (Inr (), [], snd (snd (teardown st (f r w))))"
  by (simp add: teardown_def stack_push_def destroy_entry_def)

lemma teardown_twice: "teardown st w = (r, st1, w1) \<Longrightarrow> teardown st1 w2 = (Inr (), [], w2)"
  by (auto simp: teardown_def)

text \<open>
  With destructors that record what they destroy, the record is the stack from the top to the
  bottom, without the null entries.
\<close>

definition entry_resources :: "'w ResourceEntry \<Rightarrow> nat list" where
  "entry_resources e = (case (re_destroy e, re_resource e) of (Some f, Some r) \<Rightarrow> [r] | _ \<Rightarrow> [])"

definition live_resources :: "'w ResourceStack \<Rightarrow> nat list" where
  "live_resources st = concat (map entry_resources st)"

definition records_destruction :: "nat list ResourceEntry \<Rightarrow> bool" where
  "records_destruction e \<longleftrightarrow> (\<forall>log. destroy_entry e log = log @ entry_resources e)"

lemma records_destructionI:
  "(\<And>f. re_destroy (e :: nat list ResourceEntry) = Some f \<Longrightarrow> f = (\<lambda>r log. log @ [r])) \<Longrightarrow> records_destruction e"
  by (auto simp: records_destruction_def destroy_entry_def entry_resources_def split: option.splits)

lemma teardown_loop_records:
  "list_all records_destruction es \<Longrightarrow> teardown_loop es log = log @ live_resources es"
  by (induction es arbitrary: log) (simp_all add: live_resources_def records_destruction_def)

lemma rev_entry_resources [simp]: "rev (entry_resources e) = entry_resources e"
  by (simp add: entry_resources_def split: option.splits)

lemma live_resources_rev: "live_resources (rev st) = rev (live_resources st)"
  by (induction st) (simp_all add: live_resources_def)

lemma teardown_order:
  "list_all records_destruction st \<Longrightarrow> snd (snd (teardown st log)) = log @ rev (live_resources st)"
  by (simp add: teardown_def teardown_loop_records list_all_iff flip: live_resources_rev)

end
