(* ===== verification/Api.thy ===== *)
theory Api
  imports Dispatch_Laws Resource_Stack
begin

text \<open>
  The user's interface: \<open>Store\<close>, \<open>DbRef\<close>, \<open>TableRef\<close>, \<open>ResultSet\<close>
  (\<open>include/celer/api/store.hpp\<close>, \<open>db_ref.hpp\<close>, \<open>table_ref.hpp\<close>, \<open>result_set.hpp\<close>) and the
  process-wide store (\<open>src/api/global.cpp\<close>).

  Values are encoded and decoded by \<open>Codec<T>\<close>, which users specialise and whose default is a
  third-party msgpack library: the encoder and decoder are parameters. \<open>std::sort\<close> promises a
  sorted permutation and nothing on the order of equal elements, so it is a parameter as well.
  References to nodes and handles of the immutable tree are the nodes and handles themselves.
\<close>

subsection \<open>Result sets\<close>

record 'a ResultSet =
  rs_data :: "'a list"

abbreviation result_set :: "'a list \<Rightarrow> 'a ResultSet" where
  "result_set xs \<equiv> \<lparr>rs_data = xs\<rparr>"

definition rs_filter :: "('a \<Rightarrow> bool) \<Rightarrow> 'a ResultSet \<Rightarrow> 'a ResultSet" where
  "rs_filter pred rs = result_set (filter pred (rs_data rs))"

definition rs_sort_by :: "(('a \<Rightarrow> 'a \<Rightarrow> bool) \<Rightarrow> 'a list \<Rightarrow> 'a list) \<Rightarrow> ('a \<Rightarrow> 'a \<Rightarrow> bool) \<Rightarrow> 'a ResultSet \<Rightarrow> 'a ResultSet" where
  "rs_sort_by std_sort cmp rs = result_set (std_sort cmp (rs_data rs))"

definition rs_take :: "nat \<Rightarrow> 'a ResultSet \<Rightarrow> 'a ResultSet" where
  "rs_take n rs = (let count = min n (length (rs_data rs)) in result_set (take count (rs_data rs)))"

fun rs_map_loop :: "('a \<Rightarrow> 'b) \<Rightarrow> 'b list \<Rightarrow> 'a list \<Rightarrow> 'b list" where
  "rs_map_loop fn out [] = out"
| "rs_map_loop fn out (elem # es) = rs_map_loop fn (out @ [fn elem]) es"

definition rs_map :: "('a \<Rightarrow> 'b) \<Rightarrow> 'a ResultSet \<Rightarrow> 'b ResultSet" where
  "rs_map fn rs = result_set (rs_map_loop fn [] (rs_data rs))"

definition rs_first :: "'a ResultSet \<Rightarrow> 'a option" where
  "rs_first rs = (if rs_data rs = [] then None else Some (hd (rs_data rs)))"

definition rs_count :: "'a ResultSet \<Rightarrow> nat" where
  "rs_count rs = length (rs_data rs)"

definition rs_foreach :: "('a \<Rightarrow> 'w \<Rightarrow> 'w) \<Rightarrow> 'a ResultSet \<Rightarrow> 'w \<Rightarrow> 'w" where
  "rs_foreach fn rs w = fold fn (rs_data rs) w"

text \<open>Pairs whose value does not decode are left out.\<close>

fun decode_loop :: "(string \<Rightarrow> 'a result) \<Rightarrow> 'a list \<Rightarrow> KVPair list \<Rightarrow> 'a list" where
  "decode_loop dec decoded [] = decoded"
| "decode_loop dec decoded (kv # pairs) = (case dec (kv_value kv) of
      Inr r \<Rightarrow> decode_loop dec (decoded @ [r]) pairs
    | Inl e \<Rightarrow> decode_loop dec decoded pairs)"

definition from_raw_pairs :: "(string \<Rightarrow> 'a result) \<Rightarrow> KVPair list \<Rightarrow> 'a ResultSet" where
  "from_raw_pairs dec pairs = result_set (decode_loop dec [] pairs)"

lemma rs_map_loop: "rs_map_loop fn out xs = out @ map fn xs"
  by (induction xs arbitrary: out) simp_all

lemma decode_loop: "decode_loop dec out pairs =
    out @ List.map_filter (\<lambda>kv. case dec (kv_value kv) of Inr r \<Rightarrow> Some r | Inl e \<Rightarrow> None) pairs"
  by (induction pairs arbitrary: out) (simp_all add: map_filter_simps split: sum.splits)

subsection \<open>Tables\<close>

record 'w TableRef =
  tr_table_name :: string
  tr_handle :: "'w BackendHandle"

definition table_get :: "(string \<Rightarrow> 'a result) \<Rightarrow> 'w TableRef \<Rightarrow> string \<Rightarrow> ('w, 'a option) io" where
  "table_get dec t key = io_bind (handle_get (tr_handle t) key) (\<lambda>raw. case raw of
      None \<Rightarrow> io_return None
    | Some v \<Rightarrow> io_bind (io_lift (dec v)) (\<lambda>decoded. io_return (Some decoded)))"

definition table_put :: "('a \<Rightarrow> string result) \<Rightarrow> 'w TableRef \<Rightarrow> string \<Rightarrow> 'a \<Rightarrow> ('w, unit) io" where
  "table_put enc t key val = io_bind (io_lift (enc val)) (\<lambda>encoded. handle_put (tr_handle t) key encoded)"

definition table_del :: "'w TableRef \<Rightarrow> string \<Rightarrow> ('w, unit) io" where
  "table_del t key = handle_del (tr_handle t) key"

definition table_prefix :: "(string \<Rightarrow> 'a result) \<Rightarrow> 'w TableRef \<Rightarrow> string \<Rightarrow> ('w, 'a ResultSet) io" where
  "table_prefix dec t pfx =
     io_bind (handle_prefix_scan (tr_handle t) pfx) (\<lambda>raw. io_return (from_raw_pairs dec raw))"

definition table_all :: "(string \<Rightarrow> 'a result) \<Rightarrow> 'w TableRef \<Rightarrow> ('w, 'a ResultSet) io" where
  "table_all dec t =
     io_bind (handle_prefix_scan (tr_handle t) []) (\<lambda>raw. io_return (from_raw_pairs dec raw))"

definition table_foreach :: "(string \<Rightarrow> 'a result) \<Rightarrow> 'w TableRef \<Rightarrow> ('a \<Rightarrow> 'w \<Rightarrow> 'w) \<Rightarrow> ('w, unit) io" where
  "table_foreach dec t callback =
     (let visitor = (\<lambda>key val w. case dec val of Inr decoded \<Rightarrow> callback decoded w | Inl e \<Rightarrow> w)
      in handle_foreach_scan (tr_handle t) [] visitor)"

definition table_compact :: "'w TableRef \<Rightarrow> ('w, unit) io" where
  "table_compact t = handle_compact (tr_handle t)"

definition table_put_raw :: "'w TableRef \<Rightarrow> string \<Rightarrow> string \<Rightarrow> ('w, unit) io" where
  "table_put_raw t key val = handle_put (tr_handle t) key val"

definition table_get_raw :: "'w TableRef \<Rightarrow> string \<Rightarrow> ('w, string option) io" where
  "table_get_raw t key = handle_get (tr_handle t) key"

subsection \<open>Scopes\<close>

record 'w DbRef =
  dr_scope_name :: string
  dr_node :: "'w StoreNode option"

definition null_node :: error where "null_node = Error ''DbRef'' ''null node''"

text \<open>The outer \<open>None\<close>: the index of a malformed composite leads outside its children.\<close>

definition db_table :: "(string \<Rightarrow> 64 word) \<Rightarrow> 'w DbRef \<Rightarrow> string \<Rightarrow> 'w TableRef result option" where
  "db_table hash d table_name = (case dr_node d of
      None \<Rightarrow> Some (Inl null_node)
    | Some (LeafNode l) \<Rightarrow> Some (Inr \<lparr>tr_table_name = table_name, tr_handle = leaf_handle l\<rparr>)
    | Some (CompositeNode nm cs ix) \<Rightarrow> (case table_find hash ix table_name of
          None \<Rightarrow> Some (Err ''TableNotFound''
            (''table '' @ quoted table_name @ '' not found in scope '' @ quoted (dr_scope_name d)))
        | Some i \<Rightarrow> if i < length cs then (case cs ! i of
              LeafNode c \<Rightarrow> Some (Inr \<lparr>tr_table_name = table_name, tr_handle = leaf_handle c\<rparr>)
            | CompositeNode _ _ _ \<Rightarrow> Some (Err ''TableIsComposite'' ''expected leaf, got composite''))
          else None))"

definition db_scan_all :: "(string \<Rightarrow> 64 word) \<Rightarrow> 'w DbRef \<Rightarrow> string \<Rightarrow> ('w, KVPair list) io" where
  "db_scan_all hash d pre = (case dr_node d of
      None \<Rightarrow> io_throw null_node
    | Some n \<Rightarrow> node_prefix_scan hash n pre)"

definition db_batch :: "(string \<Rightarrow> 64 word) \<Rightarrow> (string list \<Rightarrow> string list) \<Rightarrow> 'w DbRef \<Rightarrow> BatchOp list \<Rightarrow> ('w, unit) io" where
  "db_batch hash ord d ops = (case dr_node d of
      None \<Rightarrow> io_throw null_node
    | Some n \<Rightarrow> node_batch hash ord n ops)"

subsection \<open>Stores\<close>

record 'w Store =
  sr_root :: "'w StoreNode"
  sr_resources :: "'w ResourceStack"

definition default_store :: "'w Store" where
  "default_store = \<lparr>sr_root = CompositeNode ''root'' [] empty_table, sr_resources = []\<rparr>"

definition store_db :: "(string \<Rightarrow> 64 word) \<Rightarrow> 'w Store \<Rightarrow> string \<Rightarrow> 'w DbRef result option" where
  "store_db hash s scope_name = (case sr_root s of
      LeafNode l \<Rightarrow> Some (Err ''InvalidRoot'' ''root is a leaf, expected composite'')
    | CompositeNode nm cs ix \<Rightarrow> (case table_find hash ix scope_name of
          None \<Rightarrow> Some (Err ''ScopeNotFound'' (''scope '' @ quoted scope_name @ '' not found''))
        | Some i \<Rightarrow> if i < length cs
            then Some (Inr \<lparr>dr_scope_name = scope_name, dr_node = Some (cs ! i)\<rparr>) else None))"

definition store_destroy :: "'w Store \<Rightarrow> 'w \<Rightarrow> unit result \<times> 'w Store \<times> 'w" where
  "store_destroy s w = (let (r, st, w1) = teardown (sr_resources s) w in (r, s\<lparr>sr_resources := st\<rparr>, w1))"

text \<open>The destructor: members in reverse order of declaration, the resources and then the tree.\<close>

definition store_destructor :: "'w Store \<Rightarrow> 'w \<Rightarrow> 'w" where
  "store_destructor s w =
     (let (_, _, w1) = teardown (sr_resources s) w in destroy_node (sr_root s) w1)"

subsection \<open>The process-wide store\<close>

type_synonym 'w g_store = "'w Store option"

definition celer_open :: "(string \<Rightarrow> 64 word) \<Rightarrow> (string list \<Rightarrow> string list) \<Rightarrow> 'w BackendFactory \<Rightarrow>
    TableDescriptor list \<Rightarrow> 'w g_store \<Rightarrow> 'w \<Rightarrow> (unit result \<times> 'w g_store \<times> 'w) option" where
  "celer_open hash ord factory tables g w = (case g of
      Some _ \<Rightarrow> Some (Err ''AlreadyOpen'' ''celer::close() before re-opening'', g, w)
    | None \<Rightarrow> (case build_tree hash ord factory tables w of
          None \<Rightarrow> None
        | Some (Inl e, w1) \<Rightarrow> Some (Inl e, g, w1)
        | Some (Inr root, w1) \<Rightarrow>
            Some (Inr (), Some \<lparr>sr_root = root, sr_resources = []\<rparr>, w1)))"

definition celer_db :: "(string \<Rightarrow> 64 word) \<Rightarrow> string \<Rightarrow> 'w g_store \<Rightarrow> 'w DbRef result option" where
  "celer_db hash scope_name g = (case g of
      None \<Rightarrow> Some (Err ''NotInitialized'' ''celer::open() has not been called'')
    | Some s \<Rightarrow> store_db hash s scope_name)"

definition celer_close :: "'w g_store \<Rightarrow> 'w \<Rightarrow> unit result \<times> 'w g_store \<times> 'w" where
  "celer_close g w = (case g of
      None \<Rightarrow> (Inr (), None, w)
    | Some s \<Rightarrow> (let (r, s1, w1) = store_destroy s w; w2 = store_destructor s1 w1 in (r, None, w2)))"

end
