(* ===== verification/Api_Laws.thy ===== *)
theory Api_Laws
  imports Api
begin

text \<open>
  From \<open>celer::open\<close> to the backend: the table that \<open>db(s).table(t)\<close> returns holds the handle the
  factory made for \<open>(s, t)\<close>, which is also the one the key \<open>s:t:...\<close> is routed to; on the
  in-memory backend, tables do not see each other's writes; and the life cycle of the
  process-wide store.
\<close>

subsection \<open>Navigation and routing agree\<close>

lemma find_child_table_find:
  "find_child hash nm cs ix x = Some (Inr n) \<Longrightarrow> \<exists>i. table_find hash ix x = Some i \<and> i < length cs \<and> cs ! i = n"
  by (auto simp: find_child_def split: option.splits if_splits)

lemma find_child_table_find_None:
  "find_child hash nm cs ix x = Some (Inl e) \<Longrightarrow> table_find hash ix x = None"
  by (auto simp: find_child_def split: option.splits if_splits)

lemma open_ok:
  "celer_open hash ord factory tables g w = Some (Inr (), g', w') \<Longrightarrow>
    \<exists>root. g = None \<and> g' = Some \<lparr>sr_root = root, sr_resources = []\<rparr> \<and>
      build_tree hash ord factory tables w = Some (Inr root, w')"
  by (auto simp: celer_open_def split: option.splits sum.splits)

lemma open_reaches:
  assumes "celer_open hash ord factory tables g w = Some (Inr (), Some st, w')" and "permutes ord"
    and "td \<in> set tables" "td_scope td = s" "td_table td = t"
  obtains d h where "made_by factory s t h"
    "celer_db hash s (Some st) = Some (Inr d)" "dr_scope_name d = s"
    "db_table hash d t = Some (Inr \<lparr>tr_table_name = t, tr_handle = h\<rparr>)"
    "colon \<notin> set s \<Longrightarrow> colon \<notin> set t \<Longrightarrow> routes_to hash (sr_root st) s t h"
proof -
  let ?gs = "traverse ord (group_by td_scope td_table tables)"
  from open_ok [OF assms(1)] have st: "sr_resources st = []"
    and tree: "build_tree hash ord factory tables w = Some (Inr (sr_root st), w')" by auto
  obtain cs where root: "sr_root st = CompositeNode ''root'' cs (build_indexed hash cs node_name)"
    and shape: "list_all2 (scope_for hash factory) ?gs cs"
    using build_tree_shape [OF tree] .
  let ?ts = "map td_table (filter (\<lambda>x. td_scope x = s) tables)"
  have "(s, ?ts) \<in> set ?gs" using assms(3,4) by (auto simp: traverse_group_by [OF assms(2)])
  then obtain ls where ls: "list_all2 (leaf_for factory s) ?ts ls"
    and fs: "find_child hash ''root'' cs (build_indexed hash cs node_name) s =
       Some (Inr (CompositeNode s ls (build_indexed hash ls node_name)))"
    using root_child [OF shape traverse_keys(1) [OF assms(2)], where nm = "''root''"] by blast
  have "t \<in> set ?ts" using assms(3-5) by auto
  then obtain h where h: "made_by factory s t h"
    and ft: "find_child hash s ls (build_indexed hash ls node_name) t =
       Some (Inr (LeafNode \<lparr>leaf_name = t, leaf_handle = h\<rparr>))"
    using scope_child [OF ls] by blast
  let ?d = "\<lparr>dr_scope_name = s, dr_node = Some (CompositeNode s ls (build_indexed hash ls node_name))\<rparr>"
  show thesis
  proof (rule that [OF h, of ?d])
    show "celer_db hash s (Some st) = Some (Inr ?d)"
      using find_child_table_find [OF fs] by (auto simp: celer_db_def store_db_def root)
    show "db_table hash ?d t = Some (Inr \<lparr>tr_table_name = t, tr_handle = h\<rparr>)"
      using find_child_table_find [OF ft] by (auto simp: db_table_def)
    show "routes_to hash (sr_root st) s t h" if "colon \<notin> set s" "colon \<notin> set t"
      using that by (simp add: routes_to_def path_key_def root fs ft)
  qed simp
qed

lemma open_scope_children:
  assumes "celer_open hash ord factory tables g w = Some (Inr (), Some st, w')" and "permutes ord"
    and "s \<in> td_scope ` set tables"
  obtains ls where "list_all2 (leaf_for factory s) (map td_table (filter (\<lambda>x. td_scope x = s) tables)) ls"
    "celer_db hash s (Some st) = Some (Inr \<lparr>dr_scope_name = s,
       dr_node = Some (CompositeNode s ls (build_indexed hash ls node_name))\<rparr>)"
proof -
  let ?gs = "traverse ord (group_by td_scope td_table tables)"
  from open_ok [OF assms(1)] have tree: "build_tree hash ord factory tables w = Some (Inr (sr_root st), w')" by auto
  obtain cs where root: "sr_root st = CompositeNode ''root'' cs (build_indexed hash cs node_name)"
    and shape: "list_all2 (scope_for hash factory) ?gs cs"
    using build_tree_shape [OF tree] .
  let ?ts = "map td_table (filter (\<lambda>x. td_scope x = s) tables)"
  have "(s, ?ts) \<in> set ?gs" using assms(3) by (auto simp: traverse_group_by [OF assms(2)])
  then obtain ls where ls: "list_all2 (leaf_for factory s) ?ts ls"
    and fs: "find_child hash ''root'' cs (build_indexed hash cs node_name) s =
       Some (Inr (CompositeNode s ls (build_indexed hash ls node_name)))"
    using root_child [OF shape traverse_keys(1) [OF assms(2)], where nm = "''root''"] by blast
  show thesis
    by (rule that [OF ls]) (use find_child_table_find [OF fs] in \<open>auto simp: celer_db_def store_db_def root\<close>)
qed

lemma open_scope_missing:
  assumes "celer_open hash ord factory tables g w = Some (Inr (), Some st, w')" and "permutes ord"
    and "s \<notin> td_scope ` set tables"
  shows "celer_db hash s (Some st) = Some (Err ''ScopeNotFound'' (''scope '' @ quoted s @ '' not found''))"
proof -
  from open_ok [OF assms(1)] have
    tree: "build_tree hash ord factory tables w = Some (Inr (sr_root st), w')" by auto
  obtain cs where root: "sr_root st = CompositeNode ''root'' cs (build_indexed hash cs node_name)"
    and shape: "list_all2 (scope_for hash factory) (traverse ord (group_by td_scope td_table tables)) cs"
    using build_tree_shape [OF tree] .
  have "s \<notin> node_name ` set cs"
    using scopes_names [OF shape] traverse_keys(2) [OF assms(2), of td_scope td_table tables] assms(3)
    by (metis list.set_map)
  from find_child_table_find_None [OF find_child_absent [OF this, where nm = "''root''"]]
  show ?thesis by (simp add: celer_db_def store_db_def root)
qed

subsection \<open>Tables on the in-memory backend\<close>

text \<open>
  A factory that allocates an empty in-memory backend for each table, at an address of its own.
\<close>

definition memory_factory :: "(string \<Rightarrow> string \<Rightarrow> nat) \<Rightarrow> mem_world BackendFactory" where
  "memory_factory addr s t w =
     Some (Inr (make_backend_handle in_memory_backend (addr s t)), w(addr s t := []))"

definition separate :: "(string \<Rightarrow> string \<Rightarrow> nat) \<Rightarrow> bool" where
  "separate addr \<longleftrightarrow> (\<forall>s t s' t'. addr s t = addr s' t' \<longrightarrow> s = s' \<and> t = t')"

lemma memory_factory_made:
  "made_by (memory_factory addr) s t h \<longleftrightarrow> h = make_backend_handle in_memory_backend (addr s t)"
  by (auto simp: made_by_def memory_factory_def)

definition mem_ok :: "mem_world \<Rightarrow> bool" where
  "mem_ok w \<longleftrightarrow> (\<forall>a. map_ok (w a))"

lemma mem_ok_reset: "mem_ok w \<Longrightarrow> mem_ok (w(a := []))"
  by (simp add: mem_ok_def map_ok_def)

text \<open>Opening empties the objects it allocates and touches no other.\<close>

lemma build_leaves_memory:
  "\<exists>ns. build_leaves (memory_factory addr) s ts acc w =
    Some (Inr ns, \<lambda>a. if a \<in> addr s ` set ts then [] else w a)"
proof (induction ts arbitrary: acc w)
  case (Cons t ts)
  let ?leaf = "LeafNode \<lparr>leaf_name = t, leaf_handle = make_backend_handle in_memory_backend (addr s t)\<rparr>"
  have made: "memory_factory addr s t w =
      Some (Inr (make_backend_handle in_memory_backend (addr s t)), w(addr s t := []))"
    by (simp add: memory_factory_def)
  have "(\<lambda>a. if a \<in> addr s ` set ts then [] else (w(addr s t := [])) a) =
      (\<lambda>a. if a \<in> addr s ` set (t # ts) then [] else w a)" by auto
  moreover obtain ns where "build_leaves (memory_factory addr) s ts (acc @ [?leaf]) (w(addr s t := [])) =
      Some (Inr ns, \<lambda>a. if a \<in> addr s ` set ts then [] else (w(addr s t := [])) a)"
    using Cons [of "acc @ [?leaf]" "w(addr s t := [])"] by blast
  ultimately have "build_leaves (memory_factory addr) s (t # ts) acc w =
      Some (Inr ns, \<lambda>a. if a \<in> addr s ` set (t # ts) then [] else w a)"
    by (simp only: build_leaves.simps made build_leaf_def option.case prod.case sum.case)
  then show ?case by blast
qed simp

definition group_addresses :: "(string \<Rightarrow> string \<Rightarrow> nat) \<Rightarrow> (string \<times> string list) list \<Rightarrow> nat set" where
  "group_addresses addr gs = {addr s t | s t. \<exists>ts. (s, ts) \<in> set gs \<and> t \<in> set ts}"

lemma group_addresses_Cons: "group_addresses addr ((s, ts) # gs) = addr s ` set ts \<union> group_addresses addr gs"
  by (auto simp: group_addresses_def)

lemma build_scopes_memory:
  "\<exists>ns. build_scopes hash (memory_factory addr) gs acc w =
    Some (Inr ns, \<lambda>a. if a \<in> group_addresses addr gs then [] else w a)"
proof (induction gs arbitrary: acc w)
  case (Cons g gs)
  obtain s ts where g: "g = (s, ts)" by fastforce
  let ?w1 = "\<lambda>a. if a \<in> addr s ` set ts then [] else w a"
  obtain ns where ns: "build_leaves (memory_factory addr) s ts [] w = Some (Inr ns, ?w1)"
    using build_leaves_memory [of addr s ts "[]" w] by blast
  have "(\<lambda>a. if a \<in> group_addresses addr gs then [] else ?w1 a) =
      (\<lambda>a. if a \<in> group_addresses addr (g # gs) then [] else w a)"
    by (auto simp: g group_addresses_Cons)
  with Cons [of "acc @ [CompositeNode s ns (build_indexed hash ns node_name)]" ?w1] ns g show ?case
    by auto
qed (simp add: group_addresses_def)

text \<open>A table that is declared, with names that a key can spell.\<close>

definition declared :: "TableDescriptor list \<Rightarrow> string \<Rightarrow> string \<Rightarrow> bool" where
  "declared tables s t \<longleftrightarrow> (\<exists>td\<in>set tables. td_scope td = s \<and> td_table td = t) \<and> colon \<notin> set s \<and> colon \<notin> set t"

lemma memory_open_empty:
  assumes "permutes ord"
  obtains st w' where "celer_open hash ord (memory_factory addr) tables None w = Some (Inr (), Some st, w')"
    "\<And>s t. declared tables s t \<Longrightarrow> w' (addr s t) = []"
proof -
  let ?gs = "traverse ord (group_by td_scope td_table tables)"
  obtain ns where ns: "build_scopes hash (memory_factory addr) ?gs [] w =
      Some (Inr ns, \<lambda>a. if a \<in> group_addresses addr ?gs then [] else w a)"
    using build_scopes_memory [of hash addr ?gs "[]" w] by blast
  have "addr s t \<in> group_addresses addr ?gs" if "declared tables s t" for s t
  proof -
    from that obtain td where td: "td \<in> set tables" "td_scope td = s" "td_table td = t" by (auto simp: declared_def)
    then have "(s, map td_table (filter (\<lambda>x. td_scope x = s) tables)) \<in> set ?gs"
      by (auto simp: traverse_group_by [OF assms])
    moreover have "t \<in> set (map td_table (filter (\<lambda>x. td_scope x = s) tables))" using td by auto
    ultimately show ?thesis unfolding group_addresses_def by blast
  qed
  with ns that show thesis
    by (simp add: celer_open_def build_tree_def Let_def io_bind_def io_lift_def)
qed

lemma memory_open:
  obtains st w' where "celer_open hash ord (memory_factory addr) tables None w = Some (Inr (), Some st, w')"
proof -
  let ?gs = "traverse ord (group_by td_scope td_table tables)"
  obtain ns w' where "build_scopes hash (memory_factory addr) ?gs [] w = Some (Inr ns, w')"
    using build_scopes_memory [of hash addr ?gs "[]" w] by blast
  with that show thesis
    by (simp add: celer_open_def build_tree_def Let_def io_bind_def io_lift_def)
qed

text \<open>Reaching a declared table of such a store, by navigation and by key.\<close>

lemma memory_open_reaches:
  assumes "celer_open hash ord (memory_factory addr) tables g w = Some (Inr (), Some st, w')" "permutes ord"
    and "declared tables s t"
  shows "routes_to hash (sr_root st) s t (make_backend_handle in_memory_backend (addr s t))"
    "\<exists>d. celer_db hash s (Some st) = Some (Inr d) \<and> db_table hash d t =
      Some (Inr \<lparr>tr_table_name = t, tr_handle = make_backend_handle in_memory_backend (addr s t)\<rparr>)"
proof -
  from assms(3) obtain td where "td \<in> set tables" "td_scope td = s" "td_table td = t"
    and plain: "colon \<notin> set s" "colon \<notin> set t" by (auto simp: declared_def)
  from open_reaches [OF assms(1,2) this(1-3)] obtain d h where "made_by (memory_factory addr) s t h"
    "celer_db hash s (Some st) = Some (Inr d)" "db_table hash d t = Some (Inr \<lparr>tr_table_name = t, tr_handle = h\<rparr>)"
    "routes_to hash (sr_root st) s t h" using plain by metis
  then show "routes_to hash (sr_root st) s t (make_backend_handle in_memory_backend (addr s t))"
    "\<exists>d. celer_db hash s (Some st) = Some (Inr d) \<and> db_table hash d t =
      Some (Inr \<lparr>tr_table_name = t, tr_handle = make_backend_handle in_memory_backend (addr s t)\<rparr>)"
    by (auto simp: memory_factory_made)
qed

subsection \<open>A store is one map\<close>

text \<open>
  Puts (\<open>Some\<close> value) and deletes (\<open>None\<close>) given to the root under the keys \<open>scope:table:key\<close>, and what they
  mean: updates of one map from scope, table and key to the value.
\<close>

type_synonym table_write = "string \<times> string \<times> string \<times> string option"

fun root_writes :: "(string \<Rightarrow> 64 word) \<Rightarrow> 'w StoreNode \<Rightarrow> table_write list \<Rightarrow> ('w, unit) io" where
  "root_writes hash root [] = io_return ()"
| "root_writes hash root ((s, t, k, vo) # ops) = io_bind
     (case vo of Some v \<Rightarrow> node_put hash root (path_key s t k) v | None \<Rightarrow> node_del hash root (path_key s t k))
     (\<lambda>_. root_writes hash root ops)"

fun write_cell :: "table_write \<Rightarrow> (string \<times> string \<times> string \<Rightarrow> string option) \<Rightarrow> string \<times> string \<times> string \<Rightarrow> string option" where
  "write_cell (s, t, k, vo) m = m((s, t, k) := vo)"

text \<open>The objects of the declared tables hold what the map says.\<close>

definition holds_map :: "(string \<Rightarrow> string \<Rightarrow> nat) \<Rightarrow> TableDescriptor list \<Rightarrow>
    (string \<times> string \<times> string \<Rightarrow> string option) \<Rightarrow> mem_world \<Rightarrow> bool" where
  "holds_map addr tables m w \<longleftrightarrow> (\<forall>s t. declared tables s t \<longrightarrow>
     map_ok (w (addr s t)) \<and> (\<forall>k. map_of (w (addr s t)) k = m (s, t, k)))"

lemma holds_map_update:
  assumes "separate addr" "holds_map addr tables m w" "declared tables s t"
    and "map_ok kvs" "map_of kvs = (map_of (w (addr s t)))(k := vo)"
  shows "holds_map addr tables (m((s, t, k) := vo)) (w(addr s t := kvs))"
  using assms by (auto simp: holds_map_def separate_def)

lemma root_writes_memory:
  assumes "separate addr" and routes: "\<And>s t. declared tables s t \<Longrightarrow>
      routes_to hash root s t (make_backend_handle in_memory_backend (addr s t))"
  shows "holds_map addr tables m w \<Longrightarrow> \<forall>(s, t, k, vo)\<in>set ops. declared tables s t \<Longrightarrow>
    \<exists>w'. root_writes hash root ops w = Some (Inr (), w') \<and> holds_map addr tables (fold write_cell ops m) w'"
proof (induction ops arbitrary: m w)
  case (Cons op ops)
  obtain s t k vo where op: "op = (s, t, k, vo)" by (metis prod_cases4)
  with Cons.prems(2) have d: "declared tables s t" by simp
  with Cons.prems(1) have ok: "map_ok (w (addr s t))" by (simp add: holds_map_def)
  note go = routes [OF d, unfolded routes_to_def]
  note upd = holds_map_update [OF assms(1) Cons.prems(1) d, of _ k vo]
  have "\<exists>w1. (case vo of Some v \<Rightarrow> node_put hash root (path_key s t k) v | None \<Rightarrow> node_del hash root (path_key s t k)) w =
      Some (Inr (), w1) \<and> holds_map addr tables (m((s, t, k) := vo)) w1"
  proof (cases vo)
    case None
    have "holds_map addr tables (m((s, t, k) := vo)) (w(addr s t := map_erase k (w (addr s t))))"
      using upd ok None by (simp add: map_ok_erase map_of_erase)
    moreover have "holds_map addr tables (m((s, t, k) := vo)) w" if "map_of (w (addr s t)) k = None"
      using upd [of "w (addr s t)"] ok None that by (simp add: fun_upd_idem)
    ultimately show ?thesis using None go by (auto simp: in_memory_backend_def mem_del_def)
  next
    case (Some v)
    with upd ok go show ?thesis
      by (simp add: in_memory_backend_def mem_put_def map_ok_assign map_of_assign)
  qed
  with Cons.IH [of "m((s, t, k) := vo)"] Cons.prems(2) show ?case
    by (fastforce simp: op io_bind_def)
qed (simp add: io_return_def)

subsection \<open>Typed access\<close>

definition codec_inverse :: "('a \<Rightarrow> string result) \<Rightarrow> (string \<Rightarrow> 'a result) \<Rightarrow> bool" where
  "codec_inverse enc dec \<longleftrightarrow> (\<forall>x s. enc x = Inr s \<longrightarrow> dec s = Inr x)"

subsection \<open>The life cycle of the process-wide store\<close>

lemma open_twice:
  "celer_open hash ord factory tables (Some st) w =
    Some (Err ''AlreadyOpen'' ''celer::close() before re-opening'', Some st, w)"
  by (simp add: celer_open_def)

lemma close_destroys:
  "celer_close (Some \<lparr>sr_root = root, sr_resources = []\<rparr>) w = (Inr (), None, destroy_node root w)"
  by (simp add: celer_close_def store_destroy_def store_destructor_def teardown_def Let_def)

lemma close_twice: "celer_close (fst (snd (celer_close g w))) w' = (Inr (), None, w')"
  by (simp add: celer_close_def Let_def split: option.splits prod.splits)

text \<open>Closing destroys the leaves' backends from left to right.\<close>

lemma destroy_node_leaves:
  fixes n :: "'w StoreNode" and ns :: "'w StoreNode list"
  shows "destroy_node n w = fold (\<lambda>l. handle_destroy (leaf_handle l)) (leaves_of n) w"
    "destroy_nodes ns w = fold (\<lambda>l. handle_destroy (leaf_handle l)) (leaves_of_list ns) w"
  by (induction n and ns arbitrary: w and w rule: leaves_of_leaves_of_list.induct) simp_all

end
