(* ===== verification/Rocksdb_Backend.thy ===== *)
theory Rocksdb_Backend
  imports Memory_Backend
begin

text \<open>
  The RocksDB backend (\<open>src/backend/rocksdb.cpp\<close>, \<open>include/celer/backend/rocksdb.hpp\<close>). RocksDB is a
  third-party library: its calls are the fields of \<open>rocks_lib\<close>, functions of the library's world.
  An iterator is what \<open>Seek\<close> positions it on: the entries it passes until it becomes invalid, and
  its status then (while an iterator is valid its status is ok). The backend objects themselves, each with
  its pointer \<open>db_\<close>, live in the record \<open>rocks_world\<close>.
\<close>

subsection \<open>The library\<close>

datatype Status = status_ok | status_not_found | status_error string

definition status_text :: "Status \<Rightarrow> string" where
  "status_text s = (case s of status_ok \<Rightarrow> ''OK'' | status_not_found \<Rightarrow> ''NotFound: '' | status_error m \<Rightarrow> m)"

datatype WriteOp = wb_put string string | wb_delete string

record RocksOptions =
  ro_create_if_missing :: bool
  ro_lz4_compression :: bool
  ro_max_open_files :: int
  ro_write_buffer_size :: "64 word"

record 'l rocks_lib =
  rdb_get :: "nat \<Rightarrow> string \<Rightarrow> 'l \<Rightarrow> Status \<times> string"
  rdb_put :: "nat \<Rightarrow> string \<Rightarrow> string \<Rightarrow> 'l \<Rightarrow> Status \<times> 'l"
  rdb_delete :: "nat \<Rightarrow> string \<Rightarrow> 'l \<Rightarrow> Status \<times> 'l"
  rdb_seek :: "nat \<Rightarrow> string \<Rightarrow> 'l \<Rightarrow> KVPair list \<times> Status"
  rdb_write :: "nat \<Rightarrow> WriteOp list \<Rightarrow> 'l \<Rightarrow> Status \<times> 'l"
  rdb_multi_get :: "nat \<Rightarrow> string list \<Rightarrow> 'l \<Rightarrow> (Status \<times> string) list"
  rdb_compact_range :: "nat \<Rightarrow> 'l \<Rightarrow> Status \<times> 'l"
  rdb_open :: "RocksOptions \<Rightarrow> string \<Rightarrow> 'l \<Rightarrow> Status \<times> nat \<times> 'l"
  rdb_close :: "nat \<Rightarrow> 'l \<Rightarrow> 'l"
  fs_create_directories :: "string \<Rightarrow> 'l \<Rightarrow> string option \<times> 'l"

record 'l rocks_world =
  rw_objects :: "nat \<Rightarrow> nat option"
  rw_next :: nat
  rw_lib :: 'l

subsection \<open>The operations\<close>

definition rocks_db :: "string \<Rightarrow> nat \<Rightarrow> (nat \<Rightarrow> ('l rocks_world, 'a) io) \<Rightarrow> ('l rocks_world, 'a) io" where
  "rocks_db code self f w = (case rw_objects w self of
      None \<Rightarrow> Some (Err code ''db is closed'', w)
    | Some db \<Rightarrow> f db w)"

definition rocks_get :: "'l rocks_lib \<Rightarrow> nat \<Rightarrow> string \<Rightarrow> ('l rocks_world, string option) io" where
  "rocks_get lib self key = rocks_db ''RocksDBGet'' self (\<lambda>db w.
     let (s, val) = rdb_get lib db key (rw_lib w) in
     if s = status_not_found then Some (Inr None, w)
     else if s \<noteq> status_ok then Some (Err ''StoreGet'' (status_text s), w)
     else Some (Inr (Some val), w))"

definition rocks_put :: "'l rocks_lib \<Rightarrow> nat \<Rightarrow> string \<Rightarrow> string \<Rightarrow> ('l rocks_world, unit) io" where
  "rocks_put lib self key value = rocks_db ''RocksDBPut'' self (\<lambda>db w.
     let (s, l) = rdb_put lib db key value (rw_lib w); w' = w\<lparr>rw_lib := l\<rparr> in
     if s \<noteq> status_ok then Some (Err ''StorePut'' (status_text s), w') else Some (Inr (), w'))"

definition rocks_del :: "'l rocks_lib \<Rightarrow> nat \<Rightarrow> string \<Rightarrow> ('l rocks_world, unit) io" where
  "rocks_del lib self key = rocks_db ''RocksDBDel'' self (\<lambda>db w.
     let (s, l) = rdb_delete lib db key (rw_lib w); w' = w\<lparr>rw_lib := l\<rparr> in
     if s \<noteq> status_ok then Some (Err ''StoreDel'' (status_text s), w') else Some (Inr (), w'))"

text \<open>
  The loop over a valid iterator: the results, and whether it stopped at a key without the prefix
  (the iterator is then still valid, so its status is ok).
\<close>

fun rocks_scan_loop :: "string \<Rightarrow> KVPair list \<Rightarrow> KVPair list \<Rightarrow> KVPair list \<times> bool" where
  "rocks_scan_loop pre results [] = (results, False)"
| "rocks_scan_loop pre results (kv # it) =
     (if \<not> starts_with (kv_key kv) pre then (results, True)
      else rocks_scan_loop pre (results @ [kv]) it)"

definition rocks_prefix_scan :: "'l rocks_lib \<Rightarrow> nat \<Rightarrow> string \<Rightarrow> ('l rocks_world, KVPair list) io" where
  "rocks_prefix_scan lib self pre = rocks_db ''RocksDBScan'' self (\<lambda>db w.
     let (it, end_status) = rdb_seek lib db pre (rw_lib w);
         (results, broke) = rocks_scan_loop pre [] it;
         s = (if broke then status_ok else end_status) in
     if s \<noteq> status_ok then Some (Err ''StorePrefixScan'' (status_text s), w) else Some (Inr results, w))"

fun fill_write_batch :: "WriteOp list \<Rightarrow> BatchOp list \<Rightarrow> WriteOp list result" where
  "fill_write_batch wb [] = Inr wb"
| "fill_write_batch wb (op # ops) = (if op_kind op = put_kind
     then (case op_value op of
         None \<Rightarrow> Err ''StoreBatch'' ''put op missing value''
       | Some v \<Rightarrow> fill_write_batch (wb @ [wb_put (op_key op) v]) ops)
     else fill_write_batch (wb @ [wb_delete (op_key op)]) ops)"

definition rocks_batch :: "'l rocks_lib \<Rightarrow> nat \<Rightarrow> BatchOp list \<Rightarrow> ('l rocks_world, unit) io" where
  "rocks_batch lib self ops = rocks_db ''RocksDBBatch'' self (\<lambda>db w.
     case fill_write_batch [] ops of
       Inl e \<Rightarrow> Some (Inl e, w)
     | Inr wb \<Rightarrow> (let (s, l) = rdb_write lib db wb (rw_lib w); w' = w\<lparr>rw_lib := l\<rparr> in
         if s \<noteq> status_ok then Some (Err ''StoreBatch'' (status_text s), w') else Some (Inr (), w')))"

definition rocks_compact :: "'l rocks_lib \<Rightarrow> nat \<Rightarrow> ('l rocks_world, unit) io" where
  "rocks_compact lib self = rocks_db ''RocksDBCompact'' self (\<lambda>db w.
     let (s, l) = rdb_compact_range lib db (rw_lib w); w' = w\<lparr>rw_lib := l\<rparr> in
     if s \<noteq> status_ok then Some (Err ''StoreCompact'' (status_text s), w') else Some (Inr (), w'))"

fun rocks_visit_loop :: "string \<Rightarrow> 'w ScanVisitor \<Rightarrow> KVPair list \<Rightarrow> 'w \<Rightarrow> 'w \<times> bool" where
  "rocks_visit_loop pre visitor [] w = (w, False)"
| "rocks_visit_loop pre visitor (kv # it) w =
     (if \<not> starts_with (kv_key kv) pre then (w, True)
      else rocks_visit_loop pre visitor it (visitor (kv_key kv) (kv_value kv) w))"

definition rocks_foreach_scan :: "'l rocks_lib \<Rightarrow> nat \<Rightarrow> string \<Rightarrow> 'l rocks_world ScanVisitor \<Rightarrow>
    ('l rocks_world, unit) io" where
  "rocks_foreach_scan lib self pre visitor = rocks_db ''RocksDBForeach'' self (\<lambda>db w.
     let (it, end_status) = rdb_seek lib db pre (rw_lib w);
         (w', broke) = rocks_visit_loop pre visitor it w;
         s = (if broke then status_ok else end_status) in
     if s \<noteq> status_ok then Some (Err ''StoreForeachScan'' (status_text s), w') else Some (Inr (), w'))"

definition rocks_close :: "'l rocks_lib \<Rightarrow> nat \<Rightarrow> ('l rocks_world, unit) io" where
  "rocks_close lib self w = (case rw_objects w self of
      None \<Rightarrow> Some (Inr (), w)
    | Some db \<Rightarrow> Some (Inr (), w\<lparr>rw_objects := (rw_objects w)(self := None),
        rw_lib := rdb_close lib db (rw_lib w)\<rparr>))"

definition rocks_stream_get :: "'l rocks_lib \<Rightarrow> nat \<Rightarrow> string \<Rightarrow>
    ('l rocks_world, ('l rocks_world, char) StreamHandle) io" where
  "rocks_stream_get lib self key = io_bind (rocks_get lib self key) (\<lambda>r. case r of
      None \<Rightarrow> io_return stream_empty
    | Some v \<Rightarrow> io_return (stream_from_string v))"

definition rocks_stream_put :: "'l rocks_lib \<Rightarrow> nat \<Rightarrow> string \<Rightarrow> ('l rocks_world, char) StreamHandle \<Rightarrow>
    ('l rocks_world, unit) io" where
  "rocks_stream_put lib self key input w = (case collect_string stream_pull input w of
      None \<Rightarrow> None
    | Some (Inl e, _, w') \<Rightarrow> Some (Inl e, w')
    | Some (Inr collected, _, w') \<Rightarrow> rocks_put lib self key collected w')"

definition rocks_stream_scan :: "'l rocks_lib \<Rightarrow> nat \<Rightarrow> string \<Rightarrow>
    ('l rocks_world, ('l rocks_world, KVPair) StreamHandle) io" where
  "rocks_stream_scan lib self pre = io_bind (rocks_prefix_scan lib self pre) (\<lambda>r. io_return (stream_from_vector r))"

fun multi_get_loop :: "string list \<Rightarrow> (Status \<times> string) list \<Rightarrow> BatchGetItem list \<Rightarrow> BatchGetItem list result option" where
  "multi_get_loop [] statuses out = Some (Inr out)"
| "multi_get_loop (k # ks) [] out = None"
| "multi_get_loop (k # ks) ((s, val) # statuses) out =
     (if s = status_ok then multi_get_loop ks statuses (out @ [\<lparr>bg_key = k, bg_value = Some val\<rparr>])
      else if s = status_not_found then multi_get_loop ks statuses (out @ [\<lparr>bg_key = k, bg_value = None\<rparr>])
      else Some (Err ''RocksDBGetMany'' (status_text s)))"

definition rocks_get_many :: "'l rocks_lib \<Rightarrow> nat \<Rightarrow> string list \<Rightarrow> ('l rocks_world, BatchGetItem list) io" where
  "rocks_get_many lib self ks w = (case rw_objects w self of
      None \<Rightarrow> Some (Err ''RocksDBGetMany'' ''backend not open'', w)
    | Some db \<Rightarrow>
        if ks = [] then Some (Inr [], w)
        else (case multi_get_loop ks (rdb_multi_get lib db ks (rw_lib w)) [] of
            None \<Rightarrow> None
          | Some r \<Rightarrow> Some (r, w)))"

text \<open>The destructor closes the database; the vtable's \<open>destroy_fn\<close> deletes the object.\<close>

definition rocks_delete :: "'l rocks_lib \<Rightarrow> nat \<Rightarrow> 'l rocks_world \<Rightarrow> 'l rocks_world" where
  "rocks_delete lib self w = (case rocks_close lib self w of None \<Rightarrow> w | Some (_, w') \<Rightarrow> w')"

definition rocksdb_backend :: "'l rocks_lib \<Rightarrow> 'l rocks_world StorageBackend" where
  "rocksdb_backend lib =
    \<lparr>b_get = rocks_get lib, b_put = rocks_put lib, b_del = rocks_del lib,
     b_prefix_scan = rocks_prefix_scan lib, b_batch = rocks_batch lib, b_compact = rocks_compact lib,
     b_foreach_scan = rocks_foreach_scan lib, b_stream_get = rocks_stream_get lib,
     b_stream_put = rocks_stream_put lib, b_stream_scan = rocks_stream_scan lib,
     b_get_many = Some (rocks_get_many lib), b_delete = rocks_delete lib\<rparr>"

subsection \<open>Opening\<close>

record RocksConfig =
  rc_path :: string
  rc_create_if_missing :: bool
  rc_enable_compression :: bool
  rc_max_open_files :: int
  rc_write_buffer_size_bytes :: int

definition default_rocks_config :: RocksConfig where
  "default_rocks_config = \<lparr>rc_path = [], rc_create_if_missing = True, rc_enable_compression = True,
     rc_max_open_files = 256, rc_write_buffer_size_bytes = 4 * 1024 * 1024\<rparr>"

definition rocks_open_single :: "'l rocks_lib \<Rightarrow> RocksConfig \<Rightarrow> string \<Rightarrow>
    ('l rocks_world, 'l rocks_world BackendHandle) io" where
  "rocks_open_single lib config resolved_path w =
    (let (ec, l1) = fs_create_directories lib resolved_path (rw_lib w); w1 = w\<lparr>rw_lib := l1\<rparr> in
     case ec of
       Some m \<Rightarrow> Some (Err ''RocksDBOpen''
         (''failed to create directory '' @ quoted resolved_path @ '': '' @ m), w1)
     | None \<Rightarrow>
         let opts = \<lparr>ro_create_if_missing = rc_create_if_missing config,
               ro_lz4_compression = rc_enable_compression config,
               ro_max_open_files = rc_max_open_files config,
               ro_write_buffer_size = word_of_int (rc_write_buffer_size_bytes config)\<rparr>;
             (s, raw_db, l2) = rdb_open lib opts resolved_path l1; w2 = w1\<lparr>rw_lib := l2\<rparr> in
         if s \<noteq> status_ok then Some (Err ''RocksDBOpen''
           (''failed to open RocksDB at '' @ quoted resolved_path @ '': '' @ status_text s), w2)
         else let backend = rw_next w2 in
           Some (Inr (make_backend_handle (rocksdb_backend lib) backend),
             w2\<lparr>rw_objects := (rw_objects w2)(backend \<mapsto> raw_db), rw_next := backend + 1\<rparr>))"

definition rocks_factory :: "'l rocks_lib \<Rightarrow> RocksConfig \<Rightarrow> 'l rocks_world BackendFactory" where
  "rocks_factory lib c scope table =
     (let resolved = rc_path c @ ''/'' @ scope @ ''/'' @ table in rocks_open_single lib c resolved)"

text \<open>The factory of a build without RocksDB.\<close>

definition rocks_factory_unavailable :: "RocksConfig \<Rightarrow> 'l rocks_world BackendFactory" where
  "rocks_factory_unavailable c scope table = io_throw (Error ''NotAvailable'' ''compiled without RocksDB support'')"

subsection \<open>A closed database\<close>

lemma rocks_closed:
  assumes "rw_objects w self = None"
  shows "rocks_get lib self k w = Some (Err ''RocksDBGet'' ''db is closed'', w)"
    "rocks_put lib self k v w = Some (Err ''RocksDBPut'' ''db is closed'', w)"
    "rocks_del lib self k w = Some (Err ''RocksDBDel'' ''db is closed'', w)"
    "rocks_prefix_scan lib self p w = Some (Err ''RocksDBScan'' ''db is closed'', w)"
    "rocks_batch lib self ops w = Some (Err ''RocksDBBatch'' ''db is closed'', w)"
  using assms by (simp_all add: rocks_get_def rocks_put_def rocks_del_def rocks_prefix_scan_def
      rocks_batch_def rocks_db_def)

lemma rocks_close_closes: "rocks_close lib self w = Some (Inr (), w') \<Longrightarrow> rw_objects w' self = None"
  by (auto simp: rocks_close_def split: option.splits)

text \<open>A batch with an incomplete operation is refused before the library is called.\<close>

lemma fill_write_batch_missing:
  "op \<in> set ops \<Longrightarrow> \<not> op_wf op \<Longrightarrow> fill_write_batch wb ops = Err ''StoreBatch'' ''put op missing value''"
  by (induction ops arbitrary: wb) (auto simp: op_wf_def split: option.splits)

lemma rocks_batch_missing:
  assumes "rw_objects w self = Some db" "op \<in> set ops" "\<not> op_wf op"
  shows "rocks_batch lib self ops w = Some (Err ''StoreBatch'' ''put op missing value'', w)"
  using assms(1) fill_write_batch_missing [OF assms(2,3)] by (simp add: rocks_batch_def rocks_db_def)

end
