(* ===== verification/Rocksdb_Laws.thy ===== *)
theory Rocksdb_Laws
  imports Rocksdb_Backend
begin

text \<open>
  The RocksDB backend keeps the contract of a backend, provided the library does what it
  documents while no call of it fails (\<open>rocks_laws\<close>). The laws are met by a database that is the
  ordered map of \<open>Memory_Backend\<close>, which also runs the backend.
\<close>

definition apply_write :: "WriteOp \<Rightarrow> contents \<Rightarrow> contents" where
  "apply_write op m = (case op of wb_put k v \<Rightarrow> m(k \<mapsto> v) | wb_delete k \<Rightarrow> m(k := None))"

text \<open>The entries from the first key at or after a target, in key order.\<close>

definition entries_from :: "contents \<Rightarrow> string \<Rightarrow> KVPair list \<Rightarrow> bool" where
  "entries_from m target kvs \<longleftrightarrow> sorted_wrt (<) (map kv_key kvs) \<and>
     set kvs = {KV k v | k v. m k = Some v \<and> target \<le> k}"

text \<open>The backend object at \<open>self\<close> holds the database \<open>db\<close>, which works.\<close>

definition open_at :: "nat \<Rightarrow> ('l \<Rightarrow> bool) \<Rightarrow> nat \<Rightarrow> 'l rocks_world \<Rightarrow> bool" where
  "open_at db healthy self w \<longleftrightarrow> rw_objects w self = Some db \<and> healthy (rw_lib w)"

locale rocks_laws =
  fixes lib :: "'l rocks_lib" and db :: nat and view :: "'l \<Rightarrow> contents" and healthy :: "'l \<Rightarrow> bool"
  assumes get_found: "healthy l \<Longrightarrow> view l k = Some v \<Longrightarrow> rdb_get lib db k l = (status_ok, v)"
    and get_absent: "healthy l \<Longrightarrow> view l k = None \<Longrightarrow> fst (rdb_get lib db k l) = status_not_found"
    and put_ok: "healthy l \<Longrightarrow> \<exists>l'. rdb_put lib db k v l = (status_ok, l') \<and> healthy l' \<and> view l' = (view l)(k \<mapsto> v)"
    and delete_ok: "healthy l \<Longrightarrow> \<exists>l'. rdb_delete lib db k l = (status_ok, l') \<and> healthy l' \<and> view l' = (view l)(k := None)"
    and seek_ok: "healthy l \<Longrightarrow> \<exists>kvs. rdb_seek lib db target l = (kvs, status_ok) \<and> entries_from (view l) target kvs"
    and write_ok: "healthy l \<Longrightarrow> \<exists>l'. rdb_write lib db wb l = (status_ok, l') \<and> healthy l' \<and>
      view l' = fold apply_write wb (view l)"
    and multi_get_ok: "healthy l \<Longrightarrow> rdb_multi_get lib db ks l = map (\<lambda>k. rdb_get lib db k l) ks"
begin

lemma get_cases:
  assumes "healthy l"
  obtains v where "view l k = Some v" "rdb_get lib db k l = (status_ok, v)"
  | v where "view l k = None" "rdb_get lib db k l = (status_not_found, v)"
  using get_found [OF assms] get_absent [OF assms] by (metis not_Some_eq prod.collapse)

lemma rocks_get_ok: "open_at db healthy self w \<Longrightarrow> rocks_get lib self k w = Some (Inr (view (rw_lib w) k), w)"
  by (cases rule: get_cases [of "rw_lib w" k]) (auto simp: open_at_def rocks_get_def rocks_db_def)

lemma rocks_put_ok:
  assumes "open_at db healthy self w"
  shows "\<exists>w'. rocks_put lib self k v w = Some (Inr (), w') \<and> open_at db healthy self w' \<and>
    view (rw_lib w') = (view (rw_lib w))(k \<mapsto> v)"
  using assms put_ok [of "rw_lib w" k v] by (auto simp: open_at_def rocks_put_def rocks_db_def)

lemma rocks_del_ok:
  assumes "open_at db healthy self w"
  shows "\<exists>w'. rocks_del lib self k w = Some (Inr (), w') \<and> open_at db healthy self w' \<and>
    view (rw_lib w') = (view (rw_lib w))(k := None)"
  using assms delete_ok [of "rw_lib w" k] by (auto simp: open_at_def rocks_del_def rocks_db_def)

lemma scan_loop_takeWhile:
  "rocks_scan_loop p out it = (out @ takeWhile (\<lambda>kv. starts_with (kv_key kv) p) it,
     \<not> (\<forall>kv\<in>set it. starts_with (kv_key kv) p))"
  by (induction p out it rule: rocks_scan_loop.induct) auto

text \<open>Cutting the entries from the prefix on at the first key without it leaves the prefix's keys.\<close>

lemma entries_scan:
  assumes "entries_from m p kvs"
  shows "scan_of m p (takeWhile (\<lambda>kv. starts_with (kv_key kv) p) kvs)"
proof -
  let ?ps = "map (\<lambda>kv. (kv_key kv, kv)) kvs"
  have s: "sorted_wrt (<) (map kv_key kvs)" and e: "set kvs = {KV k v | k v. m k = Some v \<and> p \<le> k}"
    using assms by (auto simp: entries_from_def)
  have "sorted_wrt (<) (map fst ?ps)" using s by (simp add: comp_def)
  then have "takeWhile (\<lambda>kv. starts_with (fst kv) p) ?ps = filter (\<lambda>kv. starts_with (fst kv) p) ?ps"
    by (rule takeWhile_prefix_sorted) (auto simp: e)
  then have "map snd (takeWhile (\<lambda>kv. starts_with (fst kv) p) ?ps) = map snd (filter (\<lambda>kv. starts_with (fst kv) p) ?ps)"
    by simp
  then have tw: "takeWhile (\<lambda>kv. starts_with (kv_key kv) p) kvs = filter (\<lambda>kv. starts_with (kv_key kv) p) kvs"
    by (simp add: takeWhile_map filter_map comp_def)
  have "sorted_wrt (<) (map kv_key (filter (\<lambda>kv. starts_with (kv_key kv) p) kvs))"
    using s by (simp add: sorted_wrt_map sorted_wrt_filter)
  moreover have "set (filter (\<lambda>kv. starts_with (kv_key kv) p) kvs) = {KV k v | k v. m k = Some v \<and> prefix p k}"
    by (auto simp: e starts_with_prefix prefix_le)
  ultimately show ?thesis by (simp only: scan_of_def tw simp_thms)
qed

lemma rocks_scan_ok:
  assumes "open_at db healthy self w"
  shows "\<exists>kvs. rocks_prefix_scan lib self p w = Some (Inr kvs, w) \<and> scan_of (view (rw_lib w)) p kvs"
proof -
  obtain kvs where "rdb_seek lib db p (rw_lib w) = (kvs, status_ok)" "entries_from (view (rw_lib w)) p kvs"
    using assms seek_ok [of "rw_lib w" p] by (auto simp: open_at_def)
  with entries_scan assms show ?thesis
    by (auto simp: rocks_prefix_scan_def rocks_db_def open_at_def scan_loop_takeWhile)
qed

lemma fill_write_batch_ok:
  "list_all op_wf ops \<Longrightarrow> \<exists>wb'. fill_write_batch wb ops = Inr (wb @ wb') \<and>
    (\<forall>m. fold apply_write wb' m = fold apply_op ops m)"
proof (induction ops arbitrary: wb)
  case (Cons op ops)
  obtain o1 where o1: "\<And>wb. fill_write_batch wb (op # ops) = fill_write_batch (wb @ [o1]) ops"
    "\<And>m. apply_write o1 m = apply_op op m"
  proof (cases "op_kind op")
    case put_kind
    with Cons.prems obtain v where "op_value op = Some v" by (auto simp: op_wf_def)
    with put_kind that [of "wb_put (op_key op) v"] show thesis by (simp add: apply_write_def apply_op_def)
  next
    case del_kind
    with that [of "wb_delete (op_key op)"] show thesis by (simp add: apply_write_def apply_op_def)
  qed
  obtain wb' where "fill_write_batch (wb @ [o1]) ops = Inr ((wb @ [o1]) @ wb')"
    "\<forall>m. fold apply_write wb' m = fold apply_op ops m"
    using Cons.IH [of "wb @ [o1]"] Cons.prems by auto
  with o1 show ?case by (intro exI [of _ "o1 # wb'"]) simp
qed simp

lemma rocks_batch_ok:
  assumes "open_at db healthy self w" "list_all op_wf ops"
  shows "\<exists>w'. rocks_batch lib self ops w = Some (Inr (), w') \<and> open_at db healthy self w' \<and>
    view (rw_lib w') = fold apply_op ops (view (rw_lib w))"
proof -
  obtain wb where wb: "fill_write_batch [] ops = Inr wb" "\<forall>m. fold apply_write wb m = fold apply_op ops m"
    using fill_write_batch_ok [OF assms(2), of "[]"] by auto
  with assms(1) write_ok [of "rw_lib w" wb] show ?thesis
    by (auto simp: rocks_batch_def rocks_db_def open_at_def)
qed

lemma multi_get_loop_ok:
  "healthy l \<Longrightarrow> multi_get_loop ks (map (\<lambda>k. rdb_get lib db k l) ks) out =
    Some (Inr (out @ map (\<lambda>k. \<lparr>bg_key = k, bg_value = view l k\<rparr>) ks))"
proof (induction ks arbitrary: out)
  case (Cons k ks)
  from Cons.prems show ?case by (rule get_cases [of l k]) (simp_all add: Cons)
qed simp

lemma rocks_get_many_ok:
  "open_at db healthy self w \<Longrightarrow> rocks_get_many lib self ks w =
    Some (Inr (map (\<lambda>k. \<lparr>bg_key = k, bg_value = view (rw_lib w) k\<rparr>) ks), w)"
  using multi_get_loop_ok [of "rw_lib w" ks "[]"]
  by (simp add: rocks_get_many_def open_at_def multi_get_ok)

end

sublocale rocks_laws \<subseteq> backend: kv_backend "rocksdb_backend lib" self "\<lambda>w. view (rw_lib w)" "open_at db healthy self" for self
  by unfold_locales (auto simp: rocksdb_backend_def rocks_get_ok rocks_put_ok rocks_del_ok rocks_scan_ok
      rocks_batch_ok rocks_get_many_ok)

context rocks_laws
begin

lemma rocks_contract: "kv_backend (rocksdb_backend lib) self (\<lambda>w. view (rw_lib w)) (open_at db healthy self)"
  by (rule backend.kv_backend_axioms)

lemma batch_as_sequence:
  assumes "open_at db healthy self w" "list_all op_wf ops"
  shows "\<exists>w1 w2. handle_batch (make_backend_handle (rocksdb_backend lib) self) ops w = Some (Inr (), w1) \<and>
    run_ops (make_backend_handle (rocksdb_backend lib) self) ops w = Some (Inr (), w2) \<and>
    view (rw_lib w1) = view (rw_lib w2) \<and>
    (\<forall>k. handle_get (make_backend_handle (rocksdb_backend lib) self) k w1 = Some (Inr (view (rw_lib w2) k), w1))"
proof -
  obtain w1 where w1: "b_batch (rocksdb_backend lib) self ops w = Some (Inr (), w1)" "open_at db healthy self w1"
    "view (rw_lib w1) = fold apply_op ops (view (rw_lib w))" using backend.batch_law [OF assms] by blast
  obtain w2 where "run_ops (make_backend_handle (rocksdb_backend lib) self) ops w = Some (Inr (), w2)"
    "view (rw_lib w2) = fold apply_op ops (view (rw_lib w))" using backend.run_ops_contents [OF assms] by blast
  with w1 backend.get_law [OF w1(2)] show ?thesis by simp
qed

end

subsection \<open>A database that is an ordered map\<close>

fun write_map :: "WriteOp list \<Rightarrow> std_map \<Rightarrow> std_map" where
  "write_map [] m = m"
| "write_map (wb_put k v # ops) m = write_map ops (map_assign k v m)"
| "write_map (wb_delete k # ops) m = write_map ops (map_erase k m)"

definition map_get :: "string \<Rightarrow> std_map \<Rightarrow> Status \<times> string" where
  "map_get k m = (case map_of m k of None \<Rightarrow> (status_not_found, []) | Some v \<Rightarrow> (status_ok, v))"

definition map_db :: "std_map rocks_lib" where
  "map_db = \<lparr>rdb_get = (\<lambda>d k m. map_get k m), rdb_put = (\<lambda>d k v m. (status_ok, map_assign k v m)),
     rdb_delete = (\<lambda>d k m. (status_ok, map_erase k m)),
     rdb_seek = (\<lambda>d k m. (map (\<lambda>(k, v). KV k v) (lower_bound m k), status_ok)),
     rdb_write = (\<lambda>d wb m. (status_ok, write_map wb m)),
     rdb_multi_get = (\<lambda>d ks m. map (\<lambda>k. map_get k m) ks),
     rdb_compact_range = (\<lambda>d m. (status_ok, m)), rdb_open = (\<lambda>opts path m. (status_ok, 0, m)),
     rdb_close = (\<lambda>d m. m), fs_create_directories = (\<lambda>path m. (None, m))\<rparr>"

lemma write_map_ok: "map_ok m \<Longrightarrow> map_ok (write_map wb m) \<and> map_of (write_map wb m) = fold apply_write wb (map_of m)"
  by (induction wb m rule: write_map.induct)
    (simp_all add: apply_write_def map_ok_assign map_of_assign map_ok_erase map_of_erase)

lemma lower_bound_entries:
  assumes "map_ok m"
  shows "entries_from (map_of m) k (map (\<lambda>(k, v). KV k v) (lower_bound m k))"
proof -
  have keys: "map kv_key (map (\<lambda>(k, v). KV k v) xs) = map fst xs" for xs :: std_map by auto
  have drop: "lower_bound m k = filter (\<lambda>kv. k \<le> fst kv) m"
    using assms
  proof (induction m)
    case (Cons kv m)
    show ?case
    proof (cases "fst kv < k")
      case True
      with Cons show ?thesis by (simp add: lower_bound_def map_ok_def)
    next
      case False
      then have "\<forall>x\<in>set (kv # m). k \<le> fst x" using Cons.prems by (auto simp: map_ok_def)
      then have "filter (\<lambda>x. k \<le> fst x) (kv # m) = kv # m" by (intro filter_True) simp
      with False show ?thesis by (simp add: lower_bound_def)
    qed
  qed (simp add: lower_bound_def)
  have "sorted_wrt (<) (map fst (lower_bound m k))"
    using assms by (simp add: drop map_ok_def sorted_wrt_map sorted_wrt_filter)
  moreover have "map_of m k' = Some v \<longleftrightarrow> (k', v) \<in> set m" for k' v
    using map_ok_distinct [OF assms] by simp
  ultimately show ?thesis unfolding entries_from_def keys by (auto simp: drop image_iff)
qed

interpretation map_database: rocks_laws map_db d map_of map_ok for d
proof
  fix l :: std_map and k v target wb ks
  assume ok: "map_ok l"
  show "map_of l k = Some v \<Longrightarrow> rdb_get map_db d k l = (status_ok, v)"
    "map_of l k = None \<Longrightarrow> fst (rdb_get map_db d k l) = status_not_found"
    "rdb_multi_get map_db d ks l = map (\<lambda>k. rdb_get map_db d k l) ks"
    by (simp_all add: map_db_def map_get_def)
  show "\<exists>l'. rdb_put map_db d k v l = (status_ok, l') \<and> map_ok l' \<and> map_of l' = (map_of l)(k \<mapsto> v)"
    "\<exists>l'. rdb_delete map_db d k l = (status_ok, l') \<and> map_ok l' \<and> map_of l' = (map_of l)(k := None)"
    "\<exists>l'. rdb_write map_db d wb l = (status_ok, l') \<and> map_ok l' \<and> map_of l' = fold apply_write wb (map_of l)"
    "\<exists>kvs. rdb_seek map_db d target l = (kvs, status_ok) \<and> entries_from (map_of l) target kvs"
    using ok write_map_ok lower_bound_entries
    by (simp_all add: map_db_def map_ok_assign map_of_assign map_ok_erase map_of_erase)
qed

end
