(* ===== verification/Tree_Lifecycle.thy ===== *)
theory Tree_Lifecycle
  imports Api_Laws Rocksdb_Laws
begin

text \<open>
  Who owns an open backend: the nodes of the tree do, through the handles of their leaves. A
  factory whose backends can be counted (\<open>tracked_factory\<close>) shows that a tree whose construction fails
  leaves nothing open, that a built tree owns exactly what was opened for it, and that destroying
  it closes that. The interface is interpreted on the factory of the RocksDB backend.
\<close>

definition owned_by :: "'w ColumnLeaf list \<Rightarrow> nat set" where
  "owned_by ls = {c. \<exists>l\<in>set ls. bh_ctx (leaf_handle l) = Some c}"

lemma owned_by_simps [simp]:
  "owned_by [] = {}"
  "owned_by (xs @ ys) = owned_by xs \<union> owned_by ys"
  by (auto simp: owned_by_def)

lemma leaves_of_list_append [simp]: "leaves_of_list (xs @ ys) = leaves_of_list xs @ leaves_of_list ys"
  by (induction xs) simp_all

locale tracked_factory =
  fixes factory :: "'w BackendFactory" and live :: "'w \<Rightarrow> nat set" and inv :: "'w \<Rightarrow> bool"
  assumes opens: "inv w \<Longrightarrow> factory s t w = Some (Inr h, w') \<Longrightarrow>
      \<exists>c. bh_ctx h = Some c \<and> c \<notin> live w \<and> live w' = insert c (live w) \<and> inv w'"
    and fails: "inv w \<Longrightarrow> factory s t w = Some (Inl e, w') \<Longrightarrow> live w' = live w \<and> inv w'"
    and destroys: "inv w \<Longrightarrow> made_by factory s t h \<Longrightarrow> bh_ctx h = Some c \<Longrightarrow>
      live (handle_destroy h w) = live w - {c} \<and> inv (handle_destroy h w)"
begin

definition made_leaves :: "'w ColumnLeaf list \<Rightarrow> bool" where
  "made_leaves ls \<longleftrightarrow> (\<forall>l\<in>set ls. \<exists>s t c. made_by factory s t (leaf_handle l) \<and> bh_ctx (leaf_handle l) = Some c)"

lemma made_leaves_append [simp]: "made_leaves (xs @ ys) \<longleftrightarrow> made_leaves xs \<and> made_leaves ys" "made_leaves []"
  by (auto simp: made_leaves_def)

lemma destroy_leaves:
  "made_leaves ls \<Longrightarrow> inv w \<Longrightarrow> live (fold (\<lambda>l. handle_destroy (leaf_handle l)) ls w) = live w - owned_by ls \<and>
    inv (fold (\<lambda>l. handle_destroy (leaf_handle l)) ls w)"
proof (induction ls arbitrary: w)
  case (Cons l ls)
  from Cons.prems(1) obtain s t c where l: "made_by factory s t (leaf_handle l)" "bh_ctx (leaf_handle l) = Some c"
    by (auto simp: made_leaves_def)
  have "made_leaves ls" using Cons.prems(1) by (simp add: made_leaves_def)
  with Cons.IH [of "handle_destroy (leaf_handle l) w"] destroys [OF Cons.prems(2) l] l(2) show ?case
    by (auto simp: owned_by_def)
qed simp

text \<open>Opening the tables of a scope, with the leaves opened before.\<close>

lemma build_leaves_tracked:
  "build_leaves factory s ts acc w = Some (r, w') \<Longrightarrow> inv w \<Longrightarrow> made_leaves (leaves_of_list acc) \<Longrightarrow> inv w' \<and>
    (case r of
       Inl e \<Rightarrow> live w' = live w - owned_by (leaves_of_list acc)
     | Inr ls \<Rightarrow> \<exists>new. ls = acc @ new \<and> made_leaves (leaves_of_list new) \<and>
         live w' = live w \<union> owned_by (leaves_of_list new) \<and> live w \<inter> owned_by (leaves_of_list new) = {})"
proof (induction ts arbitrary: acc w)
  case (Cons t ts)
  show ?case
  proof (cases "factory s t w")
    case (Some y)
    then obtain f w1 where f: "factory s t w = Some (f, w1)" by (metis prod.collapse)
    show ?thesis
    proof (cases f)
      case (Inl e)
      with f have "factory s t w = Some (Inl e, w1)" by simp
      from fails [OF Cons.prems(2) this] destroy_leaves [of "leaves_of_list acc" w1] Cons.prems f Inl show ?thesis
        by (auto simp: destroy_node_leaves(2))
    next
      case (Inr h)
      with f have made: "factory s t w = Some (Inr h, w1)" by simp
      obtain c where c: "bh_ctx h = Some c" "c \<notin> live w" "live w1 = insert c (live w)" "inv w1"
        using opens [OF Cons.prems(2) made] by blast
      let ?leaf = "LeafNode \<lparr>leaf_name = t, leaf_handle = h\<rparr>"
      have leaf: "owned_by (leaves_of_list [?leaf]) = {c}" "made_leaves (leaves_of_list [?leaf])"
        using c(1) made by (auto simp: owned_by_def made_leaves_def made_by_def)
      have rest: "build_leaves factory s ts (acc @ [?leaf]) w1 = Some (r, w')"
        using Cons.prems(1) made by (simp add: build_leaf_def)
      have "made_leaves (leaves_of_list (acc @ [?leaf]))"
        using Cons.prems(3) leaf(2) unfolding leaves_of_list_append made_leaves_append by blast
      from Cons.IH [OF rest c(4) this] have IH: "inv w'" "case r of
         Inl e \<Rightarrow> live w' = live w1 - owned_by (leaves_of_list (acc @ [?leaf]))
       | Inr ls \<Rightarrow> \<exists>new. ls = (acc @ [?leaf]) @ new \<and> made_leaves (leaves_of_list new) \<and>
           live w' = live w1 \<union> owned_by (leaves_of_list new) \<and> live w1 \<inter> owned_by (leaves_of_list new) = {}"
        by simp_all
      show ?thesis
      proof (cases r)
        case (Inl e)
        with IH leaf(1) c(2,3) show ?thesis by (simp only: leaves_of_list_append owned_by_simps) auto
      next
        case (Inr ls)
        with IH(2) obtain new where "ls = acc @ (?leaf # new)" "made_leaves (leaves_of_list new)"
          "live w' = live w1 \<union> owned_by (leaves_of_list new)" "live w1 \<inter> owned_by (leaves_of_list new) = {}" by auto
        moreover have "owned_by (leaves_of_list (?leaf # new)) = insert c (owned_by (leaves_of_list new))"
          using c(1) by (auto simp: owned_by_def)
        moreover have "made_leaves (leaves_of_list (?leaf # new)) \<longleftrightarrow> made_leaves (leaves_of_list new)"
          using leaf(2) by (auto simp: made_leaves_def)
        ultimately show ?thesis
          unfolding Inr sum.case using IH(1) c(2,3)
          by (intro conjI exI [of _ "?leaf # new"]) (simp_all del: leaves_of_list.simps)
      qed
    qed
  qed (use Cons.prems(1) in simp)
qed auto

lemma build_scopes_tracked:
  "build_scopes hash factory gs acc w = Some (r, w') \<Longrightarrow> inv w \<Longrightarrow> made_leaves (leaves_of_list acc) \<Longrightarrow> inv w' \<and>
    (case r of
       Inl e \<Rightarrow> live w' = live w - owned_by (leaves_of_list acc)
     | Inr ns \<Rightarrow> \<exists>new. ns = acc @ new \<and> made_leaves (leaves_of_list new) \<and>
         live w' = live w \<union> owned_by (leaves_of_list new) \<and> live w \<inter> owned_by (leaves_of_list new) = {})"
proof (induction gs arbitrary: acc w)
  case (Cons g gs)
  obtain s ts where g: "g = (s, ts)" by fastforce
  show ?case
  proof (cases "build_leaves factory s ts [] w")
    case (Some y)
    then obtain f w1 where f: "build_leaves factory s ts [] w = Some (f, w1)" by (metis prod.collapse)
    note leaves = build_leaves_tracked [OF f Cons.prems(2)]
    show ?thesis
    proof (cases f)
      case (Inl e)
      with leaves destroy_leaves [of "leaves_of_list acc" w1] Cons.prems f g show ?thesis
        by (auto simp: destroy_node_leaves(2))
    next
      case (Inr ls)
      let ?n = "CompositeNode s ls (build_indexed hash ls node_name)"
      have n: "leaves_of_list [?n] = leaves_of_list ls" by simp
      from leaves Inr have l1: "inv w1" "made_leaves (leaves_of_list ls)" "live w1 = live w \<union> owned_by (leaves_of_list ls)"
        "live w \<inter> owned_by (leaves_of_list ls) = {}" by auto
      have rest: "build_scopes hash factory gs (acc @ [?n]) w1 = Some (r, w')"
        using Cons.prems(1) f Inr g by simp
      have "made_leaves (leaves_of_list (acc @ [?n]))"
        using Cons.prems(3) l1(2) by simp
      from Cons.IH [OF rest l1(1) this] have IH: "inv w'" "case r of
         Inl e \<Rightarrow> live w' = live w1 - owned_by (leaves_of_list (acc @ [?n]))
       | Inr ns \<Rightarrow> \<exists>new. ns = (acc @ [?n]) @ new \<and> made_leaves (leaves_of_list new) \<and>
           live w' = live w1 \<union> owned_by (leaves_of_list new) \<and> live w1 \<inter> owned_by (leaves_of_list new) = {}"
        by simp_all
      show ?thesis
      proof (cases r)
        case (Inl e)
        with IH l1 show ?thesis by auto
      next
        case (Inr ns)
        with IH(2) obtain new where "ns = acc @ (?n # new)" "made_leaves (leaves_of_list new)"
          "live w' = live w1 \<union> owned_by (leaves_of_list new)" "live w1 \<inter> owned_by (leaves_of_list new) = {}" by auto
        with IH(1) Inr l1 show ?thesis by (intro conjI) (auto simp del: append_Cons)
      qed
    qed
  qed (use Cons.prems(1) g in simp)
qed auto

lemma failed_build_leaves_nothing_open:
  assumes "build_tree hash ord factory tables w = Some (Inl e, w')" "inv w"
  shows "live w' = live w"
proof -
  let ?gs = "traverse ord (group_by td_scope td_table tables)"
  have "build_scopes hash factory ?gs [] w = Some (Inl e, w')"
    using assms(1) by (auto simp: build_tree_def Let_def io_bind_def io_lift_def split: option.splits sum.splits)
  from build_scopes_tracked [OF this assms(2)] show ?thesis by simp
qed

lemma built_tree_owns:
  assumes "build_tree hash ord factory tables w = Some (Inr root, w')" "inv w"
  shows "live w' = live w \<union> owned_by (leaves_of root)" "live w \<inter> owned_by (leaves_of root) = {}"
    "inv w'" "made_leaves (leaves_of root)"
proof -
  let ?gs = "traverse ord (group_by td_scope td_table tables)"
  obtain ns where ns: "build_scopes hash factory ?gs [] w = Some (Inr ns, w')" "leaves_of root = leaves_of_list ns"
    using assms(1) by (auto simp: build_tree_def Let_def io_bind_def io_lift_def split: option.splits sum.splits)
  from build_scopes_tracked [OF ns(1) assms(2)] ns(2)
  show "live w' = live w \<union> owned_by (leaves_of root)" "live w \<inter> owned_by (leaves_of root) = {}"
    "inv w'" "made_leaves (leaves_of root)" by auto
qed

lemma closed_store_closes:
  assumes "build_tree hash ord factory tables w = Some (Inr root, w')" "inv w" "inv w2"
  shows "live (destroy_node root w2) = live w2 - owned_by (leaves_of root)"
  using destroy_leaves [OF built_tree_owns(4) [OF assms(1,2)] assms(3)] by (simp add: destroy_node_leaves(1))

end

subsection \<open>RocksDB databases\<close>

definition rocks_live :: "'l rocks_world \<Rightarrow> nat set" where
  "rocks_live w = {c. rw_objects w c \<noteq> None}"

definition rocks_fresh :: "'l rocks_world \<Rightarrow> bool" where
  "rocks_fresh w \<longleftrightarrow> (\<forall>c \<ge> rw_next w. rw_objects w c = None)"

lemma rocks_open_single_made:
  "rocks_open_single lib cfg path w = Some (Inr h, w') \<Longrightarrow>
    h = make_backend_handle (rocksdb_backend lib) (rw_next w) \<and>
    (\<exists>db. rw_objects w' = (rw_objects w)(rw_next w \<mapsto> db)) \<and> rw_next w' = rw_next w + 1"
  by (auto simp: rocks_open_single_def Let_def split: prod.splits option.splits if_splits)

lemma rocks_open_single_failed:
  "rocks_open_single lib cfg path w = Some (Inl e, w') \<Longrightarrow>
    rw_objects w' = rw_objects w \<and> rw_next w' = rw_next w"
  by (auto simp: rocks_open_single_def Let_def split: prod.splits option.splits if_splits)

lemma rocks_delete_objects:
  "rw_objects (rocks_delete lib c w) = (rw_objects w)(c := None) \<and> rw_next (rocks_delete lib c w) = rw_next w"
  by (auto simp: rocks_delete_def rocks_close_def split: option.splits)

lemma handle_destroy_made [simp]: "handle_destroy (make_backend_handle B c) w = b_delete B c w"
  by (simp add: handle_destroy_def make_backend_handle_def backend_vtable_def)

interpretation rocks_tracked: tracked_factory "rocks_factory lib cfg" rocks_live rocks_fresh for lib cfg
proof
  fix w w' :: "'a rocks_world" and s t h e c
  assume fresh: "rocks_fresh w"
  show "\<exists>c. bh_ctx h = Some c \<and> c \<notin> rocks_live w \<and> rocks_live w' = insert c (rocks_live w) \<and> rocks_fresh w'"
    if "rocks_factory lib cfg s t w = Some (Inr h, w')"
    using rocks_open_single_made [OF that [unfolded rocks_factory_def Let_def]] fresh
    by (auto simp: make_backend_handle_def rocks_live_def rocks_fresh_def)
  show "rocks_live w' = rocks_live w \<and> rocks_fresh w'" if "rocks_factory lib cfg s t w = Some (Inl e, w')"
    using rocks_open_single_failed [OF that [unfolded rocks_factory_def Let_def]] fresh
    by (simp add: rocks_live_def rocks_fresh_def)
  show "rocks_live (handle_destroy h w) = rocks_live w - {c} \<and> rocks_fresh (handle_destroy h w)"
    if "made_by (rocks_factory lib cfg) s t h" "bh_ctx h = Some c"
  proof -
    from that(1) obtain w1 w2 where "rocks_factory lib cfg s t w1 = Some (Inr h, w2)" by (auto simp: made_by_def)
    from rocks_open_single_made [OF this [unfolded rocks_factory_def Let_def]]
    have "h = make_backend_handle (rocksdb_backend lib) (rw_next w1)" by simp
    with that(2) have "handle_destroy h w = rocks_delete lib c w"
      by (auto simp: make_backend_handle_def rocksdb_backend_def handle_destroy_def backend_vtable_def)
    with rocks_delete_objects [of lib c w] fresh show ?thesis
      by (auto simp: rocks_live_def rocks_fresh_def)
  qed
qed

end
