(* ===== verification/Store_Properties.thy ===== *)
theory Store_Properties
  imports Tree_Lifecycle "HOL-Library.Countable"
begin

text \<open>
  The properties of the store: opening it, reaching its tables by name and by key, the fan-out of
  scans and batches over the tree, errors that reach no backend, and the ownership of backends.
\<close>

text \<open>
  C1: After \<open>celer::open\<close> succeeds, a declared table is reached in two ways that agree: the
  table that \<open>db(scope).table(name)\<close> returns holds the very handle that the factory made for
  that scope and table, and a key \<open>scope:table:rest\<close> given to the root of the tree is routed to
  the operations of that handle with the rest of the key. This holds for every hash function of
  the symbol tables and every traversal order of the grouping map.
\<close>

theorem opened_table_reached:
  assumes "celer_open hash ord factory tables g w = Some (Inr (), Some st, w')" and "permutes ord"
    and "td \<in> set tables" "colon \<notin> set (td_scope td)" "colon \<notin> set (td_table td)"
  shows "\<exists>d h. made_by factory (td_scope td) (td_table td) h \<and>
    celer_db hash (td_scope td) (Some st) = Some (Inr d) \<and>
    db_table hash d (td_table td) = Some (Inr \<lparr>tr_table_name = td_table td, tr_handle = h\<rparr>) \<and>
    routes_to hash (sr_root st) (td_scope td) (td_table td) h"
  using open_reaches [OF assms(1-3) refl refl] assms(4,5) by metis

text \<open>Two tables of one scope, all names in one slot of the symbol tables.\<close>

definition two_tables :: "TableDescriptor list" where
  "two_tables = [\<lparr>td_scope = ''app'', td_table = ''users''\<rparr>, \<lparr>td_scope = ''app'', td_table = ''logs''\<rparr>]"

lemma opened_table_reached_witness:
  "\<exists>st w' d h. celer_open (\<lambda>_. 0) rev (memory_factory (\<lambda>s t. length t)) two_tables None (\<lambda>_. []) =
      Some (Inr (), Some st, w') \<and>
    celer_db (\<lambda>_. 0) ''app'' (Some st) = Some (Inr d) \<and>
    db_table (\<lambda>_. 0) d ''logs'' = Some (Inr \<lparr>tr_table_name = ''logs'', tr_handle = h\<rparr>) \<and>
    h = make_backend_handle in_memory_backend 4"
proof -
  let ?td = "\<lparr>td_scope = ''app'', td_table = ''logs''\<rparr>"
  obtain st w' where op: "celer_open (\<lambda>_. 0) rev (memory_factory (\<lambda>s t. length t)) two_tables None (\<lambda>_. []) =
      Some (Inr (), Some st, w')" using memory_open .
  have "?td \<in> set two_tables" "colon \<notin> set (td_scope ?td)" "colon \<notin> set (td_table ?td)"
    by (simp_all add: two_tables_def colon_def)
  from opened_table_reached [OF op permutes_id(2) this] op show ?thesis
    by (auto simp: memory_factory_made eval_nat_numeral)
qed

text \<open>
  An operation on a key whose first part is not a declared scope is the error
  \<open>ChildNotFound\<close> of the root, with the world unchanged: no backend is called.
\<close>

theorem unknown_scope_is_error:
  assumes "build_tree hash ord factory tables w = Some (Inr root, w')" and "permutes ord"
    and "fst (route_key key) \<notin> td_scope ` set tables"
  shows "node_get hash root key w1 = Some (Inl (child_not_found (fst (route_key key)) ''root''), w1) \<and>
    node_put hash root key v w1 = Some (Inl (child_not_found (fst (route_key key)) ''root''), w1) \<and>
    node_del hash root key w1 = Some (Inl (child_not_found (fst (route_key key)) ''root''), w1)"
  using unknown_scope(1-3) [OF assms refl] by (simp add: io_throw_def)

lemma unknown_scope_is_error_witness:
  "\<exists>root w'. build_tree (\<lambda>_. 0) rev (memory_factory (\<lambda>s t. length t)) two_tables (\<lambda>_. []) = Some (Inr root, w') \<and>
    node_get (\<lambda>_. 0) root ''web:users:1'' w' = Some (Inl (child_not_found ''web'' ''root''), w')"
proof -
  obtain st w' where "celer_open (\<lambda>_. 0) rev (memory_factory (\<lambda>s t. length t)) two_tables None (\<lambda>_. []) =
      Some (Inr (), Some st, w')" using memory_open .
  from open_ok [OF this] obtain root where tree:
    "build_tree (\<lambda>_. 0) rev (memory_factory (\<lambda>s t. length t)) two_tables (\<lambda>_. []) = Some (Inr root, w')" by auto
  have "fst (route_key ''web:users:1'') = ''web''" by code_simp
  moreover have "''web'' \<notin> td_scope ` set two_tables" by (simp add: two_tables_def)
  ultimately show ?thesis
    using unknown_scope_is_error [OF tree permutes_id(2), of "''web:users:1''"] tree by auto
qed

text \<open>
  C2: A store opened with the in-memory backend (example 04; every table has an object of its own, as
  \<open>new\<close> makes it) is one map from scope, table and key to the value. After it is opened, any sequence of puts and
  deletes given to its root under keys \<open>scope:table:key\<close> of declared tables (names without colons) succeeds;
  then every key of every declared table reads what the sequence left in that cell, nothing if it was
  never put, both by its key through the root and through \<open>db(scope).table(name)\<close>. So no write reaches a
  key of another table. This holds for every hash function and every traversal order.
\<close>

theorem opened_store_is_map:
  assumes "permutes ord" "separate addr" "\<forall>(s, t, k, vo)\<in>set ops. declared tables s t"
  shows "\<exists>st w1 w2. celer_open hash ord (memory_factory addr) tables None w = Some (Inr (), Some st, w1) \<and>
    root_writes hash (sr_root st) ops w1 = Some (Inr (), w2) \<and>
    (\<forall>s t k. declared tables s t \<longrightarrow>
      node_get hash (sr_root st) (path_key s t k) w2 = Some (Inr (fold write_cell ops Map.empty (s, t, k)), w2) \<and>
      (\<exists>d tr. celer_db hash s (Some st) = Some (Inr d) \<and> db_table hash d t = Some (Inr tr) \<and>
        table_get_raw tr k w2 = Some (Inr (fold write_cell ops Map.empty (s, t, k)), w2)))"
proof -
  obtain st w1 where op: "celer_open hash ord (memory_factory addr) tables None w = Some (Inr (), Some st, w1)"
    and empty: "\<And>s t. declared tables s t \<Longrightarrow> w1 (addr s t) = []"
    using memory_open_empty [OF assms(1)] by blast
  note reach = memory_open_reaches [OF op assms(1)]
  have "holds_map addr tables Map.empty w1" using empty by (simp add: holds_map_def map_ok_def)
  from root_writes_memory [OF assms(2) reach(1) this assms(3)] obtain w2 where
    w2: "root_writes hash (sr_root st) ops w1 = Some (Inr (), w2)" "holds_map addr tables (fold write_cell ops Map.empty) w2"
    by blast
  have "handle_get (make_backend_handle in_memory_backend (addr s t)) k w2 =
      Some (Inr (fold write_cell ops Map.empty (s, t, k)), w2)" if "declared tables s t" for s t k
    using that w2(2) by (simp add: holds_map_def in_memory_backend_def mem_get_def)
  then have "node_get hash (sr_root st) (path_key s t k) w2 = Some (Inr (fold write_cell ops Map.empty (s, t, k)), w2) \<and>
      (\<exists>d tr. celer_db hash s (Some st) = Some (Inr d) \<and> db_table hash d t = Some (Inr tr) \<and>
        table_get_raw tr k w2 = Some (Inr (fold write_cell ops Map.empty (s, t, k)), w2))"
    if "declared tables s t" for s t k
    using that reach(2) [OF that] reach(1) [OF that] by (fastforce simp: routes_to_def table_get_raw_def)
  with op w2(1) show ?thesis by blast
qed

text \<open>The same key in two tables, one of them deleted again.\<close>

lemma opened_store_is_map_witness:
  "\<exists>st w1 w2. celer_open (\<lambda>_. 0) rev (memory_factory (\<lambda>s t. to_nat (s, t))) two_tables None (\<lambda>_. []) =
      Some (Inr (), Some st, w1) \<and>
    node_get (\<lambda>_. 0) (sr_root st) ''app:users:k'' w2 = Some (Inr None, w2) \<and>
    node_get (\<lambda>_. 0) (sr_root st) ''app:logs:k'' w2 = Some (Inr (Some ''2''), w2)"
proof -
  let ?ops = "[(''app'', ''users'', ''k'', Some ''1''), (''app'', ''logs'', ''k'', Some ''2''), (''app'', ''users'', ''k'', None)]"
  have sep: "separate (\<lambda>s t. to_nat (s, t))" by (auto simp: separate_def)
  have decl: "declared two_tables ''app'' ''users''" "declared two_tables ''app'' ''logs''"
    by (simp_all add: declared_def two_tables_def colon_def)
  then have "\<forall>(s, t, k, vo)\<in>set ?ops. declared two_tables s t" by simp
  from opened_store_is_map [OF permutes_id(2) sep this, where hash = "\<lambda>_. 0" and w = "\<lambda>_. []"]
  obtain st w1 w2 where "celer_open (\<lambda>_. 0) rev (memory_factory (\<lambda>s t. to_nat (s, t))) two_tables None (\<lambda>_. []) =
      Some (Inr (), Some st, w1)"
    and get: "\<forall>s t k. declared two_tables s t \<longrightarrow> node_get (\<lambda>_. 0) (sr_root st) (path_key s t k) w2 =
      Some (Inr (fold write_cell ?ops Map.empty (s, t, k)), w2)" by blast
  moreover have "path_key ''app'' ''users'' ''k'' = ''app:users:k''" "path_key ''app'' ''logs'' ''k'' = ''app:logs:k''"
    by (simp_all add: path_key_def colon_def)
  moreover have "fold write_cell ?ops Map.empty (''app'', ''users'', ''k'') = None"
    "fold write_cell ?ops Map.empty (''app'', ''logs'', ''k'') = Some ''2''" by simp_all
  ultimately show ?thesis using get [rule_format, OF decl(1), of "''k''"] get [rule_format, OF decl(2), of "''k''"]
    by metis
qed

text \<open>
  A scan whose prefix names no child reaches every leaf below the node: it returns the
  concatenation of what the leaves' scans return, from left to right.
\<close>

theorem scan_fans_out:
  assumes "fst (route_key pre) = []"
    and "\<forall>l\<in>set (leaves_of n). handle_prefix_scan (leaf_handle l) pre w = Some (Inr (f l), w)"
  shows "node_prefix_scan hash n pre w = Some (Inr (concat (map f (leaves_of n))), w)"
  using fan_out_scan(1) [OF assms(1), of n w f hash] assms(2) by blast

definition leaf_at :: "string \<Rightarrow> nat \<Rightarrow> mem_world StoreNode" where
  "leaf_at nm c = LeafNode \<lparr>leaf_name = nm, leaf_handle = make_backend_handle in_memory_backend c\<rparr>"

lemma scan_fans_out_witness:
  "node_prefix_scan (\<lambda>_. 0) (CompositeNode ''root'' [leaf_at ''a'' 0, leaf_at ''b'' 1]
      (build_indexed (\<lambda>_. 0) [leaf_at ''a'' 0, leaf_at ''b'' 1] node_name)) [] (\<lambda>c. [(''k'', if c = 0 then ''x'' else ''y'')]) =
    Some (Inr [KV ''k'' ''x'', KV ''k'' ''y''], \<lambda>c. [(''k'', if c = 0 then ''x'' else ''y'')])"
  by (subst scan_fans_out [where f = "\<lambda>l. [KV ''k'' (if bh_ctx (leaf_handle l) = Some 0 then ''x'' else ''y'')]"])
    (auto simp: leaf_at_def in_memory_backend_def mem_prefix_scan_def lower_bound_def make_backend_handle_def
      route_key_def handle_prefix_scan_def with_handle_def backend_vtable_def)

text \<open>
  C3: When opening a store on RocksDB fails, because some database of some table cannot be opened,
  nothing stays open: the databases that were opened before the failure are closed again. This
  holds for every behaviour of the library's calls.
\<close>

theorem failed_open_leaves_nothing_open:
  assumes "celer_open hash ord (rocks_factory lib cfg) tables None w = Some (Inl e, g, w')" "rocks_fresh w"
  shows "g = None \<and> rocks_live w' = rocks_live w"
proof -
  from assms(1) have "build_tree hash ord (rocks_factory lib cfg) tables w = Some (Inl e, w') \<and> g = None"
    by (auto simp: celer_open_def split: option.splits sum.splits)
  with rocks_tracked.failed_build_leaves_nothing_open [OF _ assms(2)] show ?thesis by blast
qed

text \<open>The database of the second table cannot be opened.\<close>

definition fragile_db :: "std_map rocks_lib" where
  "fragile_db = map_db\<lparr>rdb_open := (\<lambda>opts path m. if path = ''/data/app/logs''
     then (status_error ''IO error'', 0, m) else (status_ok, 7, m))\<rparr>"

definition data_config :: RocksConfig where
  "data_config = default_rocks_config\<lparr>rc_path := ''/data''\<rparr>"

definition fresh_rocks :: "std_map rocks_world" where
  "fresh_rocks = \<lparr>rw_objects = Map.empty, rw_next = 0, rw_lib = []\<rparr>"

lemma failed_open_leaves_nothing_open_witness:
  "\<exists>e w'. celer_open (\<lambda>_. 0) (\<lambda>xs. xs) (rocks_factory fragile_db data_config) two_tables None fresh_rocks =
    Some (Inl e, None, w') \<and> rocks_live w' = {}"
proof -
  have "\<exists>e w'. celer_open (\<lambda>_. 0) (\<lambda>xs. xs) (rocks_factory fragile_db data_config) two_tables None fresh_rocks =
      Some (Inl e, None, w')"
    by (simp add: celer_open_def build_tree_def two_tables_def group_by_def traverse_def group_values_def Let_def
        rocks_factory_def rocks_open_single_def fragile_db_def map_db_def data_config_def default_rocks_config_def
        fresh_rocks_def build_leaf_def io_bind_def)
  then obtain e w' where f: "celer_open (\<lambda>_. 0) (\<lambda>xs. xs) (rocks_factory fragile_db data_config) two_tables None fresh_rocks =
      Some (Inl e, None, w')" by blast
  have "rocks_fresh fresh_rocks" by (simp add: rocks_fresh_def fresh_rocks_def)
  from failed_open_leaves_nothing_open [OF f this] f show ?thesis
    by (auto simp: rocks_live_def fresh_rocks_def)
qed

text \<open>
  Closing the process-wide store closes the databases that were opened for it, and only them:
  after \<open>open\<close> and \<open>close\<close> the open databases are those from before, and there is no store.
\<close>

theorem open_close_restores:
  assumes "celer_open hash ord (rocks_factory lib cfg) tables None w = Some (Inr (), Some st, w1)" "rocks_fresh w"
  shows "\<exists>w2. celer_close (Some st) w1 = (Inr (), None, w2) \<and> rocks_live w2 = rocks_live w"
proof -
  from open_ok [OF assms(1)] obtain root where st: "st = \<lparr>sr_root = root, sr_resources = []\<rparr>"
    and tree: "build_tree hash ord (rocks_factory lib cfg) tables w = Some (Inr root, w1)" by auto
  note owns = rocks_tracked.built_tree_owns [OF tree assms(2)]
  from rocks_tracked.closed_store_closes [OF tree assms(2) owns(3)] owns(1,2)
  have "rocks_live (destroy_node root w1) = rocks_live w" by auto
  then show ?thesis by (simp add: st close_destroys)
qed

lemma open_close_restores_witness:
  "\<exists>st w1 w2. celer_open (\<lambda>_. 0) (\<lambda>xs. xs) (rocks_factory map_db data_config) two_tables None fresh_rocks =
    Some (Inr (), Some st, w1) \<and> celer_close (Some st) w1 = (Inr (), None, w2) \<and> rocks_live w2 = {}"
proof -
  have "\<exists>st w1. celer_open (\<lambda>_. 0) (\<lambda>xs. xs) (rocks_factory map_db data_config) two_tables None fresh_rocks =
      Some (Inr (), Some st, w1)"
    by (simp add: celer_open_def build_tree_def two_tables_def group_by_def traverse_def group_values_def Let_def
        rocks_factory_def rocks_open_single_def map_db_def fresh_rocks_def build_leaf_def io_bind_def io_lift_def)
  then obtain st w1 where f: "celer_open (\<lambda>_. 0) (\<lambda>xs. xs) (rocks_factory map_db data_config) two_tables None fresh_rocks =
      Some (Inr (), Some st, w1)" by blast
  have "rocks_fresh fresh_rocks" by (simp add: rocks_fresh_def fresh_rocks_def)
  from open_close_restores [OF f this] f show ?thesis
    by (auto simp: rocks_live_def fresh_rocks_def)
qed

text \<open>
  A batch given to the root of an opened store always fails with \<open>ChildNotFound\<close>, with no
  backend called, unless some table has the name of its scope: the root and the scopes group by the
  same field \<open>cf_name\<close>.
\<close>

theorem root_batch_never_reaches_tables:
  assumes "build_tree hash ord factory tables w0 = Some (Inr root, w1)" "permutes ord" "ops \<noteq> []"
    and "\<forall>td\<in>set tables. td_table td \<noteq> td_scope td"
  shows "\<exists>e. node_batch hash ord root ops w = Some (Inl e, w) \<and> err_code e = ''ChildNotFound''"
  using root_batch_fails [OF assms(1-3)] assms(4) by blast

lemma root_batch_never_reaches_tables_witness:
  "\<exists>root w1 e. build_tree (\<lambda>_. 0) rev (memory_factory (\<lambda>s t. length t)) two_tables (\<lambda>_. []) = Some (Inr root, w1) \<and>
    node_batch (\<lambda>_. 0) rev root [\<lparr>op_kind = put_kind, op_cf_name = ''users'', op_key = ''k'', op_value = Some ''v''\<rparr>] w1 =
      Some (Inl e, w1)"
proof -
  obtain st w' where "celer_open (\<lambda>_. 0) rev (memory_factory (\<lambda>s t. length t)) two_tables None (\<lambda>_. []) =
      Some (Inr (), Some st, w')" using memory_open .
  from open_ok [OF this] obtain root where tree:
    "build_tree (\<lambda>_. 0) rev (memory_factory (\<lambda>s t. length t)) two_tables (\<lambda>_. []) = Some (Inr root, w')" by auto
  have "\<forall>td\<in>set two_tables. td_table td \<noteq> td_scope td" by (simp add: two_tables_def)
  from root_batch_never_reaches_tables [OF tree permutes_id(2) _ this,
      of "[\<lparr>op_kind = put_kind, op_cf_name = ''users'', op_key = ''k'', op_value = Some ''v''\<rparr>]" w'] tree
  show ?thesis by auto
qed

text \<open>
  A batch given to a scope of an opened store runs one batch per table that it names, with that
  table's operations in the order given, on the handle that the factory made for the table; the
  tables come in the traversal order of the grouping map, and the first error ends it. So the
  batch is atomic per table at most.
\<close>

theorem scope_batch_is_batch_per_table:
  assumes "celer_open hash ord factory tables g w = Some (Inr (), Some st, w')" "permutes ord"
    and "s \<in> td_scope ` set tables" "op_cf_name ` set ops \<subseteq> td_table ` set (filter (\<lambda>td. td_scope td = s) tables)"
  shows "\<exists>d hs. celer_db hash s (Some st) = Some (Inr d) \<and>
    (\<forall>td\<in>set tables. td_scope td = s \<longrightarrow> made_by factory s (td_table td) (hs (td_table td))) \<and>
    db_batch hash ord d ops = run_batches hs (traverse ord (group_by op_cf_name id ops))"
proof -
  obtain ls where ls: "list_all2 (leaf_for factory s) (map td_table (filter (\<lambda>x. td_scope x = s) tables)) ls"
    and d: "celer_db hash s (Some st) = Some (Inr \<lparr>dr_scope_name = s,
       dr_node = Some (CompositeNode s ls (build_indexed hash ls node_name))\<rparr>)"
    using open_scope_children [OF assms(1-3)] .
  have "op_cf_name ` set ops \<subseteq> set (map td_table (filter (\<lambda>x. td_scope x = s) tables))"
    using assms(4) by auto
  from scope_batch [OF ls assms(2) this] obtain hs where
    "\<And>t. t \<in> set (map td_table (filter (\<lambda>x. td_scope x = s) tables)) \<Longrightarrow> made_by factory s t (hs t)"
    "node_batch hash ord (CompositeNode s ls (build_indexed hash ls node_name)) ops =
       run_batches hs (traverse ord (group_by op_cf_name id ops))" by metis
  with d show ?thesis by (intro exI conjI) (assumption, auto simp: db_batch_def)
qed

definition put_to :: "string \<Rightarrow> string \<Rightarrow> string \<Rightarrow> BatchOp" where
  "put_to t k v = \<lparr>op_kind = put_kind, op_cf_name = t, op_key = k, op_value = Some v\<rparr>"

lemma scope_batch_is_batch_per_table_witness:
  "\<exists>st w' d. celer_open (\<lambda>_. 0) (\<lambda>xs. xs) (memory_factory (\<lambda>s t. length t)) two_tables None (\<lambda>_. []) = Some (Inr (), Some st, w') \<and>
    celer_db (\<lambda>_. 0) ''app'' (Some st) = Some (Inr d) \<and>
    db_batch (\<lambda>_. 0) (\<lambda>xs. xs) d [put_to ''users'' ''a'' ''1'', put_to ''logs'' ''b'' ''2'', put_to ''users'' ''c'' ''3''] =
      io_bind (mem_batch 5 [put_to ''users'' ''a'' ''1'', put_to ''users'' ''c'' ''3''])
        (\<lambda>_. mem_batch 4 [put_to ''logs'' ''b'' ''2''])"
proof -
  let ?ops = "[put_to ''users'' ''a'' ''1'', put_to ''logs'' ''b'' ''2'', put_to ''users'' ''c'' ''3'']"
  obtain st w' where op: "celer_open (\<lambda>_. 0) (\<lambda>xs. xs) (memory_factory (\<lambda>s t. length t)) two_tables None (\<lambda>_. []) =
      Some (Inr (), Some st, w')" using memory_open .
  have "''app'' \<in> td_scope ` set two_tables" "op_cf_name ` set ?ops \<subseteq> td_table ` set (filter (\<lambda>td. td_scope td = ''app'') two_tables)"
    by (auto simp: two_tables_def put_to_def)
  from scope_batch_is_batch_per_table [OF op permutes_id(1) this] obtain d hs where
    d: "celer_db (\<lambda>_. 0) ''app'' (Some st) = Some (Inr d)"
    and made: "\<forall>td\<in>set two_tables. td_scope td = ''app'' \<longrightarrow>
      made_by (memory_factory (\<lambda>s t. length t)) ''app'' (td_table td) (hs (td_table td))"
    and b: "db_batch (\<lambda>_. 0) (\<lambda>xs. xs) d ?ops = run_batches hs (traverse (\<lambda>xs. xs) (group_by op_cf_name id ?ops))" by blast
  have "hs ''users'' = make_backend_handle in_memory_backend 5" "hs ''logs'' = make_backend_handle in_memory_backend 4"
    using made by (simp_all add: two_tables_def memory_factory_made eval_nat_numeral)
  then have "db_batch (\<lambda>_. 0) (\<lambda>xs. xs) d ?ops = io_bind (mem_batch 5 [put_to ''users'' ''a'' ''1'', put_to ''users'' ''c'' ''3''])
      (\<lambda>_. mem_batch 4 [put_to ''logs'' ''b'' ''2''])"
    unfolding b by (simp add: put_to_def group_by_def traverse_def group_values_def in_memory_backend_def)
  with op d show ?thesis by blast
qed

text \<open>
  C4: A symbol table built over any list of names with their values answers a lookup with the
  value of the first occurrence of the name, and with nothing for a name that was not given,
  for every hash function (also one that sends all names to one slot).
\<close>

theorem symbol_table_lookup:
  assumes "length keys = length values"
  shows "table_find hash (build hash keys values) k = map_of (zip keys values) k"
  using assms by (rule find_build)

text \<open>Three names in one slot, one of them twice.\<close>

lemma symbol_table_lookup_witness:
  "table_find (\<lambda>_. 0) (build (\<lambda>_. 0) [''a'', ''b'', ''a''] [7, 8, 9]) ''a'' = Some 7"
  by (subst symbol_table_lookup) simp_all

end
