(* ===== verification/Sqlite_Backend.thy ===== *)
theory Sqlite_Backend
  imports Kv_Contract "HOL-Library.AList"
begin

text \<open>
  The SQLite backend (\<open>src/backend/sqlite.cpp\<close>, \<open>include/celer/backend/sqlite.hpp\<close>). SQLite is a
  third-party library: its calls are the fields of \<open>sqlite_lib\<close>. A prepared statement is its text and its
  bound values; stepping it to the end gives rows and whether the last step was
  \<open>SQLITE_DONE\<close>. The rows of a query are those at its start: a scan's visitor that writes to the
  table it scans is outside the model. \<open>sqlite3_errmsg\<close> reads the library's state when it is called.

  The world holds the backend objects, the map of the factory's shared state from scopes to
  connections, and the process-wide counter of savepoints. A connection is closed when neither an
  object nor the factory refers to it.
\<close>

subsection \<open>Identifiers and bounds\<close>

abbreviation dquote :: char where "dquote \<equiv> CHR 0x22"
abbreviation nul :: char where "nul \<equiv> CHR 0x00"

text \<open>\<open>prefix_upper_bound\<close> works on the end of the string: here on the reversed string.\<close>

fun carry_bound :: "string \<Rightarrow> string" where
  "carry_bound [] = []"
| "carry_bound (c # cs) = (if of_char c < (0xFF :: nat) then char_of (of_char c + 1 :: nat) # cs else carry_bound cs)"

definition prefix_upper_bound :: "string \<Rightarrow> string" where
  "prefix_upper_bound pre = rev (carry_bound (rev pre))"

definition ident_char :: "char \<Rightarrow> bool" where
  "ident_char c \<longleftrightarrow> (CHR ''a'' \<le> c \<and> c \<le> CHR ''z'') \<or> (CHR ''A'' \<le> c \<and> c \<le> CHR ''Z'') \<or>
     (CHR ''0'' \<le> c \<and> c \<le> CHR ''9'') \<or> c = CHR ''_''"

fun check_ident :: "string \<Rightarrow> unit result" where
  "check_ident [] = Inr ()"
| "check_ident (c # cs) = (if \<not> ident_char c
     then Err ''SQLiteValidation'' ''identifier contains invalid character: only [a-zA-Z0-9_] allowed''
     else check_ident cs)"

definition validate_ident :: "string \<Rightarrow> unit result" where
  "validate_ident nm = (if nm = [] then Err ''SQLiteValidation'' ''identifier must not be empty''
     else check_ident nm)"

fun quote_chars :: "string \<Rightarrow> string" where
  "quote_chars [] = []"
| "quote_chars (c # cs) = (if c = nul then quote_chars cs
     else if c = dquote then dquote # dquote # quote_chars cs
     else c # quote_chars cs)"

definition quote_ident :: "string \<Rightarrow> string" where
  "quote_ident nm = dquote # quote_chars nm @ [dquote]"

subsection \<open>The library and the world\<close>

record 'l sqlite_lib =
  sq_prepare :: "nat \<Rightarrow> string \<Rightarrow> 'l \<Rightarrow> bool \<times> 'l"
  sq_step_all :: "nat \<Rightarrow> string \<Rightarrow> string list \<Rightarrow> 'l \<Rightarrow> string list list \<times> bool \<times> 'l"
  sq_exec :: "nat \<Rightarrow> string \<Rightarrow> 'l \<Rightarrow> bool \<times> string option \<times> 'l"
  sq_errmsg :: "nat \<Rightarrow> 'l \<Rightarrow> string"
  sq_open :: "string \<Rightarrow> bool \<Rightarrow> 'l \<Rightarrow> bool \<times> nat option \<times> 'l"
  sq_busy_timeout :: "nat \<Rightarrow> int \<Rightarrow> 'l \<Rightarrow> 'l"
  sq_close :: "nat \<Rightarrow> 'l \<Rightarrow> 'l"
  sq_parent_path :: "string \<Rightarrow> string"
  sq_create_directories :: "string \<Rightarrow> 'l \<Rightarrow> string option \<times> 'l"

record SQLiteBackend =
  sb_db :: "nat option"
  sb_table_name :: string

record 'l sqlite_world =
  qw_objects :: "(nat \<times> SQLiteBackend) list"
  qw_next :: nat
  qw_scope_dbs :: "(string \<times> nat) list"
  qw_savepoint :: "64 word"
  qw_lib :: 'l

definition sq_db :: "string \<Rightarrow> nat \<Rightarrow> (nat \<Rightarrow> string \<Rightarrow> ('l sqlite_world, 'a) io) \<Rightarrow> ('l sqlite_world, 'a) io" where
  "sq_db code self f w = (case map_of (qw_objects w) self of
      None \<Rightarrow> None
    | Some b \<Rightarrow> (case sb_db b of
        None \<Rightarrow> Some (Err code ''db is closed'', w)
      | Some db \<Rightarrow> f db (sb_table_name b) w))"

definition sq_error :: "'l sqlite_lib \<Rightarrow> string \<Rightarrow> nat \<Rightarrow> ('l sqlite_world, 'a) io" where
  "sq_error lib code db w = Some (Err code (sq_errmsg lib db (qw_lib w)), w)"

text \<open>
  A value is bound with its size cast to \<open>int\<close>: a size that turns negative would make SQLite read
  up to a terminator that need not be there.
\<close>

definition bind_bytes :: "string \<Rightarrow> string option" where
  "bind_bytes s = (let n = word_of_nat (length s) :: 32 word in
     if sint n < 0 then None else Some (take (unat n) s))"

fun bind_all :: "string list \<Rightarrow> string list option" where
  "bind_all [] = Some []"
| "bind_all (s # ss) = (case bind_bytes s of
      None \<Rightarrow> None
    | Some b \<Rightarrow> (case bind_all ss of None \<Rightarrow> None | Some bs \<Rightarrow> Some (b # bs)))"

text \<open>\<open>sqlite3_prepare_v2\<close> with its check, the bindings, and the steps.\<close>

definition sq_run :: "'l sqlite_lib \<Rightarrow> nat \<Rightarrow> string \<Rightarrow> string list \<Rightarrow> ('l sqlite_world, string list list \<times> bool) io" where
  "sq_run lib db sql params w = (case bind_all params of
      None \<Rightarrow> None
    | Some bound \<Rightarrow> (let (rows, finished, l) = sq_step_all lib db sql bound (qw_lib w) in
        Some (Inr (rows, finished), w\<lparr>qw_lib := l\<rparr>)))"

definition sq_query :: "'l sqlite_lib \<Rightarrow> string \<Rightarrow> nat \<Rightarrow> string \<Rightarrow> string list \<Rightarrow>
    ('l sqlite_world, string list list \<times> bool) io" where
  "sq_query lib code db sql params w =
    (let (ok, l) = sq_prepare lib db sql (qw_lib w); w1 = w\<lparr>qw_lib := l\<rparr> in
     if \<not> ok then sq_error lib code db w1 else sq_run lib db sql params w1)"

subsection \<open>Point operations\<close>

definition sql_get :: "string \<Rightarrow> string" where
  "sql_get tbl = ''SELECT value FROM '' @ quote_ident tbl @ '' WHERE key = ?''"

definition sql_put :: "string \<Rightarrow> string" where
  "sql_put tbl = ''INSERT OR REPLACE INTO '' @ quote_ident tbl @ '' (key, value) VALUES (?, ?)''"

definition sql_del :: "string \<Rightarrow> string" where
  "sql_del tbl = ''DELETE FROM '' @ quote_ident tbl @ '' WHERE key = ?''"

definition sqlite_get :: "'l sqlite_lib \<Rightarrow> nat \<Rightarrow> string \<Rightarrow> ('l sqlite_world, string option) io" where
  "sqlite_get lib self key = sq_db ''SQLiteGet'' self (\<lambda>db tbl.
     io_bind (sq_query lib ''StoreGet'' db (sql_get tbl) [key]) (\<lambda>(rows, finished). case rows of
         [] \<Rightarrow> if finished then io_return None else sq_error lib ''StoreGet'' db
       | row # _ \<Rightarrow> io_return (Some (row ! 0))))"

definition sqlite_put :: "'l sqlite_lib \<Rightarrow> nat \<Rightarrow> string \<Rightarrow> string \<Rightarrow> ('l sqlite_world, unit) io" where
  "sqlite_put lib self key value = sq_db ''SQLitePut'' self (\<lambda>db tbl.
     io_bind (sq_query lib ''StorePut'' db (sql_put tbl) [key, value]) (\<lambda>(rows, finished).
       if rows \<noteq> [] \<or> \<not> finished then sq_error lib ''StorePut'' db else io_return ()))"

definition sqlite_del :: "'l sqlite_lib \<Rightarrow> nat \<Rightarrow> string \<Rightarrow> ('l sqlite_world, unit) io" where
  "sqlite_del lib self key = sq_db ''SQLiteDel'' self (\<lambda>db tbl.
     io_bind (sq_query lib ''StoreDel'' db (sql_del tbl) [key]) (\<lambda>(rows, finished).
       if rows \<noteq> [] \<or> \<not> finished then sq_error lib ''StoreDel'' db else io_return ()))"

subsection \<open>Scans\<close>

definition sql_all :: "string \<Rightarrow> string" where
  "sql_all tbl = ''SELECT key, value FROM '' @ quote_ident tbl @ '' ORDER BY key''"

definition sql_from :: "string \<Rightarrow> string" where
  "sql_from tbl = ''SELECT key, value FROM '' @ quote_ident tbl @ '' WHERE key >= ? ORDER BY key''"

definition sql_range :: "string \<Rightarrow> string" where
  "sql_range tbl = ''SELECT key, value FROM '' @ quote_ident tbl @ '' WHERE key >= ? AND key < ? ORDER BY key''"

definition row_pair :: "string list \<Rightarrow> KVPair" where
  "row_pair row = KV (row ! 0) (row ! 1)"

text \<open>
  The three queries of a scan: their rows, and whether the loop's end is checked. After the query
  for a prefix of \<open>0xFF\<close> bytes it is not: the loop ends at the first key without the prefix, at the
  end of the rows, or at an error.
\<close>

definition scan_rows :: "'l sqlite_lib \<Rightarrow> string \<Rightarrow> nat \<Rightarrow> string \<Rightarrow> string \<Rightarrow>
    ('l sqlite_world, KVPair list \<times> bool) io" where
  "scan_rows lib code db tbl pre =
    (if pre = [] then
       io_bind (sq_query lib code db (sql_all tbl) []) (\<lambda>(rows, finished). io_return (map row_pair rows, finished))
     else let upper = prefix_upper_bound pre in
       if upper = [] then
         io_bind (sq_query lib code db (sql_from tbl) [pre]) (\<lambda>(rows, finished).
           io_return (takeWhile (\<lambda>kv. starts_with (kv_key kv) pre) (map row_pair rows), True))
       else
         io_bind (sq_query lib code db (sql_range tbl) [pre, upper]) (\<lambda>(rows, finished).
           io_return (map row_pair rows, finished)))"

definition sqlite_prefix_scan :: "'l sqlite_lib \<Rightarrow> nat \<Rightarrow> string \<Rightarrow> ('l sqlite_world, KVPair list) io" where
  "sqlite_prefix_scan lib self pre = sq_db ''SQLiteScan'' self (\<lambda>db tbl.
     io_bind (scan_rows lib ''StorePrefixScan'' db tbl pre) (\<lambda>(results, finished).
       if \<not> finished then sq_error lib ''StorePrefixScan'' db else io_return results))"

definition sqlite_foreach_scan :: "'l sqlite_lib \<Rightarrow> nat \<Rightarrow> string \<Rightarrow> 'l sqlite_world ScanVisitor \<Rightarrow>
    ('l sqlite_world, unit) io" where
  "sqlite_foreach_scan lib self pre visitor = sq_db ''SQLiteForeach'' self (\<lambda>db tbl.
     io_bind (scan_rows lib ''StoreForeachScan'' db tbl pre) (\<lambda>(results, finished) w.
       let w' = fold (\<lambda>kv. visitor (kv_key kv) (kv_value kv)) results w in
       if \<not> finished then sq_error lib ''StoreForeachScan'' db w' else Some (Inr (), w')))"

subsection \<open>Batches\<close>

definition sq_exec_ignored :: "'l sqlite_lib \<Rightarrow> nat \<Rightarrow> string \<Rightarrow> 'l sqlite_world \<Rightarrow> 'l sqlite_world" where
  "sq_exec_ignored lib db sql w = w\<lparr>qw_lib := snd (snd (sq_exec lib db sql (qw_lib w)))\<rparr>"

definition sq_exec_checked :: "'l sqlite_lib \<Rightarrow> string \<Rightarrow> nat \<Rightarrow> string \<Rightarrow> string \<Rightarrow> ('l sqlite_world, unit) io" where
  "sq_exec_checked lib code db sql what w =
    (let (ok, errmsg, l) = sq_exec lib db sql (qw_lib w); w1 = w\<lparr>qw_lib := l\<rparr> in
     if ok then Some (Inr (), w1)
     else Some (Err code (what @ (case errmsg of None \<Rightarrow> ''unknown error'' | Some m \<Rightarrow> m)), w1))"

text \<open>The rollback and release before an error; \<open>sqlite3_errmsg\<close> is read after them.\<close>

definition sq_abort :: "'l sqlite_lib \<Rightarrow> nat \<Rightarrow> string \<Rightarrow> 'l sqlite_world \<Rightarrow> 'l sqlite_world" where
  "sq_abort lib db sp w =
     sq_exec_ignored lib db (''RELEASE '' @ quote_ident sp)
       (sq_exec_ignored lib db (''ROLLBACK TO '' @ quote_ident sp) w)"

definition sq_batch_step :: "'l sqlite_lib \<Rightarrow> nat \<Rightarrow> string \<Rightarrow> string \<Rightarrow> string list \<Rightarrow> ('l sqlite_world, unit) io" where
  "sq_batch_step lib db sp sql params w =
    (let (ok, l) = sq_prepare lib db sql (qw_lib w); w1 = w\<lparr>qw_lib := l\<rparr> in
     if \<not> ok then sq_error lib ''StoreBatch'' db (sq_abort lib db sp w1)
     else case sq_run lib db sql params w1 of
         None \<Rightarrow> None
       | Some (Inl e, w2) \<Rightarrow> Some (Inl e, w2)
       | Some (Inr (rows, finished), w2) \<Rightarrow>
           if rows \<noteq> [] \<or> \<not> finished then sq_error lib ''StoreBatch'' db (sq_abort lib db sp w2)
           else Some (Inr (), w2))"

fun sq_batch_loop :: "'l sqlite_lib \<Rightarrow> nat \<Rightarrow> string \<Rightarrow> string \<Rightarrow> BatchOp list \<Rightarrow> ('l sqlite_world, unit) io" where
  "sq_batch_loop lib db tbl sp [] = io_return ()"
| "sq_batch_loop lib db tbl sp (op # ops) =
     (if op_kind op = put_kind then
        (case op_value op of
           None \<Rightarrow> (\<lambda>w. Some (Err ''StoreBatch'' ''put op missing value'', sq_abort lib db sp w))
         | Some v \<Rightarrow> io_bind (sq_batch_step lib db sp (sql_put tbl) [op_key op, v])
             (\<lambda>_. sq_batch_loop lib db tbl sp ops))
      else io_bind (sq_batch_step lib db sp (sql_del tbl) [op_key op])
             (\<lambda>_. sq_batch_loop lib db tbl sp ops))"

definition next_savepoint :: "('l sqlite_world, string) io" where
  "next_savepoint w = Some (Inr (''sp_'' @ decimal (unat (qw_savepoint w))), w\<lparr>qw_savepoint := qw_savepoint w + 1\<rparr>)"

definition sqlite_batch :: "'l sqlite_lib \<Rightarrow> nat \<Rightarrow> BatchOp list \<Rightarrow> ('l sqlite_world, unit) io" where
  "sqlite_batch lib self ops = sq_db ''SQLiteBatch'' self (\<lambda>db tbl.
     io_bind next_savepoint (\<lambda>sp.
     io_bind (sq_exec_checked lib ''StoreBatch'' db (''SAVEPOINT '' @ quote_ident sp) []) (\<lambda>_.
     io_bind (sq_batch_loop lib db tbl sp ops) (\<lambda>_.
       sq_exec_checked lib ''StoreBatch'' db (''RELEASE '' @ quote_ident sp) []))))"

definition sqlite_compact :: "'l sqlite_lib \<Rightarrow> nat \<Rightarrow> ('l sqlite_world, unit) io" where
  "sqlite_compact lib self = sq_db ''SQLiteCompact'' self (\<lambda>db tbl.
     sq_exec_checked lib ''StoreCompact'' db ''VACUUM'' [])"

subsection \<open>Batch lookup\<close>

fun in_marks :: "nat \<Rightarrow> string" where
  "in_marks 0 = []"
| "in_marks (Suc 0) = ''?''"
| "in_marks (Suc (Suc n)) = ''?,'' @ in_marks (Suc n)"

definition sql_in :: "string \<Rightarrow> nat \<Rightarrow> string" where
  "sql_in tbl cnt = ''SELECT key, value FROM '' @ quote_ident tbl @ '' WHERE key IN ('' @ in_marks cnt @ '')''"

text \<open>\<open>emplace\<close> keeps the first value of a key; a row whose key was not asked for is skipped.\<close>

fun collect_found :: "string list \<Rightarrow> string list list \<Rightarrow> (string \<times> string) list \<Rightarrow> (string \<times> string) list" where
  "collect_found ks [] found = found"
| "collect_found ks (row # rows) found =
     (if row ! 0 \<in> set ks \<and> map_of found (row ! 0) = None
      then collect_found ks rows (found @ [(row ! 0, row ! 1)]) else collect_found ks rows found)"

function get_many_chunks :: "'l sqlite_lib \<Rightarrow> nat \<Rightarrow> string \<Rightarrow> string list \<Rightarrow> (string \<times> string) list \<Rightarrow>
    ('l sqlite_world, (string \<times> string) list) io" where
  "get_many_chunks lib db tbl ks found =
     (if ks = [] then io_return found
      else let chunk = take 256 ks in
        io_bind (sq_query lib ''SQLiteGetMany'' db (sql_in tbl (length chunk)) chunk) (\<lambda>(rows, finished).
          if \<not> finished then sq_error lib ''SQLiteGetMany'' db
          else get_many_chunks lib db tbl (drop 256 ks) (collect_found chunk rows found)))"
  by pat_completeness auto
termination by (relation "measure (\<lambda>(lib, db, tbl, ks, found). length ks)") auto

declare get_many_chunks.simps [simp del]

text \<open>
  The answer moves a value out of the map of found values: a key that is asked for a second time
  gets what the move left, which the standard leaves open (\<open>moved_from\<close>; commonly the empty string).
\<close>

fun answer_keys :: "(string \<Rightarrow> string) \<Rightarrow> string list \<Rightarrow> (string \<times> string) list \<Rightarrow> BatchGetItem list \<Rightarrow> BatchGetItem list" where
  "answer_keys moved_from [] found out = out"
| "answer_keys moved_from (k # ks) found out = (case map_of found k of
      None \<Rightarrow> answer_keys moved_from ks found (out @ [\<lparr>bg_key = k, bg_value = None\<rparr>])
    | Some v \<Rightarrow> answer_keys moved_from ks (AList.update k (moved_from v) found)
        (out @ [\<lparr>bg_key = k, bg_value = Some v\<rparr>]))"

definition sqlite_get_many :: "'l sqlite_lib \<Rightarrow> (string \<Rightarrow> string) \<Rightarrow> nat \<Rightarrow> string list \<Rightarrow>
    ('l sqlite_world, BatchGetItem list) io" where
  "sqlite_get_many lib moved_from self ks = sq_db ''SQLiteGetMany'' self (\<lambda>db tbl.
     if ks = [] then io_return []
     else io_bind (get_many_chunks lib db tbl ks []) (\<lambda>found. io_return (answer_keys moved_from ks found [])))"

subsection \<open>Streams, closing, and the backend\<close>

definition sqlite_stream_get :: "'l sqlite_lib \<Rightarrow> nat \<Rightarrow> string \<Rightarrow>
    ('l sqlite_world, ('l sqlite_world, char) StreamHandle) io" where
  "sqlite_stream_get lib self key = io_bind (sqlite_get lib self key) (\<lambda>r. case r of
      None \<Rightarrow> io_return stream_empty
    | Some v \<Rightarrow> io_return (stream_from_string v))"

definition sqlite_stream_put :: "'l sqlite_lib \<Rightarrow> nat \<Rightarrow> string \<Rightarrow> ('l sqlite_world, char) StreamHandle \<Rightarrow>
    ('l sqlite_world, unit) io" where
  "sqlite_stream_put lib self key input w = (case collect_string stream_pull input w of
      None \<Rightarrow> None
    | Some (Inl e, _, w') \<Rightarrow> Some (Inl e, w')
    | Some (Inr collected, _, w') \<Rightarrow> sqlite_put lib self key collected w')"

definition sqlite_stream_scan :: "'l sqlite_lib \<Rightarrow> nat \<Rightarrow> string \<Rightarrow>
    ('l sqlite_world, ('l sqlite_world, KVPair) StreamHandle) io" where
  "sqlite_stream_scan lib self pre = io_bind (sqlite_prefix_scan lib self pre) (\<lambda>r. io_return (stream_from_vector r))"

text \<open>Letting go of a connection closes it if no object and no entry of the factory's map holds it.\<close>

definition connection_held :: "nat \<Rightarrow> 'l sqlite_world \<Rightarrow> bool" where
  "connection_held db w \<longleftrightarrow> Some db \<in> set (map (\<lambda>(_, b). sb_db b) (qw_objects w)) \<or> db \<in> set (map snd (qw_scope_dbs w))"

definition let_go :: "'l sqlite_lib \<Rightarrow> nat \<Rightarrow> 'l sqlite_world \<Rightarrow> 'l sqlite_world" where
  "let_go lib db w = (if connection_held db w then w else w\<lparr>qw_lib := sq_close lib db (qw_lib w)\<rparr>)"

definition sqlite_close :: "'l sqlite_lib \<Rightarrow> nat \<Rightarrow> ('l sqlite_world, unit) io" where
  "sqlite_close lib self w = (case map_of (qw_objects w) self of
      None \<Rightarrow> None
    | Some b \<Rightarrow> (case sb_db b of
        None \<Rightarrow> Some (Inr (), w)
      | Some db \<Rightarrow> Some (Inr (), let_go lib db
          (w\<lparr>qw_objects := AList.update self (b\<lparr>sb_db := None\<rparr>) (qw_objects w)\<rparr>))))"

definition sqlite_delete :: "'l sqlite_lib \<Rightarrow> nat \<Rightarrow> 'l sqlite_world \<Rightarrow> 'l sqlite_world" where
  "sqlite_delete lib self w = (case sqlite_close lib self w of
      None \<Rightarrow> w
    | Some (_, w') \<Rightarrow> w'\<lparr>qw_objects := AList.delete self (qw_objects w')\<rparr>)"

definition sqlite_backend :: "'l sqlite_lib \<Rightarrow> (string \<Rightarrow> string) \<Rightarrow> 'l sqlite_world StorageBackend" where
  "sqlite_backend lib moved_from =
    \<lparr>b_get = sqlite_get lib, b_put = sqlite_put lib, b_del = sqlite_del lib,
     b_prefix_scan = sqlite_prefix_scan lib, b_batch = sqlite_batch lib, b_compact = sqlite_compact lib,
     b_foreach_scan = sqlite_foreach_scan lib, b_stream_get = sqlite_stream_get lib,
     b_stream_put = sqlite_stream_put lib, b_stream_scan = sqlite_stream_scan lib,
     b_get_many = Some (sqlite_get_many lib moved_from), b_delete = sqlite_delete lib\<rparr>"

subsection \<open>Opening\<close>

record SqliteConfig =
  qc_path :: string
  qc_create_if_missing :: bool
  qc_enable_wal :: bool
  qc_busy_timeout_ms :: int

definition default_sqlite_config :: SqliteConfig where
  "default_sqlite_config = \<lparr>qc_path = [], qc_create_if_missing = True, qc_enable_wal = True, qc_busy_timeout_ms = 5000\<rparr>"

definition open_connection :: "'l sqlite_lib \<Rightarrow> SqliteConfig \<Rightarrow> string \<Rightarrow> ('l sqlite_world, nat) io" where
  "open_connection lib config db_path w =
    (let (ok, raw_db, l) = sq_open lib db_path (qc_create_if_missing config) (qw_lib w) in
     if \<not> ok then
       (let msg = (case raw_db of None \<Rightarrow> ''unknown error'' | Some db \<Rightarrow> sq_errmsg lib db l);
            l1 = (case raw_db of None \<Rightarrow> l | Some db \<Rightarrow> sq_close lib db l) in
        Some (Err ''SQLiteOpen'' (''failed to open SQLite at '' @ quoted db_path @ '': '' @ msg), w\<lparr>qw_lib := l1\<rparr>))
     else case raw_db of None \<Rightarrow> None | Some db \<Rightarrow>
       let w1 = w\<lparr>qw_lib := sq_busy_timeout lib db (qc_busy_timeout_ms config) l\<rparr> in
       if \<not> qc_enable_wal config then Some (Inr db, w1)
       else (case sq_exec_checked lib ''SQLiteOpen'' db ''PRAGMA journal_mode=WAL'' ''failed to set WAL mode: '' w1 of
           None \<Rightarrow> None
         | Some (Inl e, w2) \<Rightarrow> Some (Inl e, w2\<lparr>qw_lib := sq_close lib db (qw_lib w2)\<rparr>)
         | Some (Inr _, w2) \<Rightarrow> Some (Inr db, w2)))"

definition open_scope_db :: "'l sqlite_lib \<Rightarrow> SqliteConfig \<Rightarrow> string \<Rightarrow> ('l sqlite_world, nat) io" where
  "open_scope_db lib config db_path w =
    (let parent = sq_parent_path lib db_path in
     if parent = [] then open_connection lib config db_path w
     else let (ec, l) = sq_create_directories lib parent (qw_lib w); w1 = w\<lparr>qw_lib := l\<rparr> in
       case ec of
         Some m \<Rightarrow> Some (Err ''SQLiteOpen'' (''failed to create directory '' @ quoted parent @ '': '' @ m), w1)
       | None \<Rightarrow> open_connection lib config db_path w1)"

definition sql_create :: "string \<Rightarrow> string" where
  "sql_create tbl = ''CREATE TABLE IF NOT EXISTS '' @ quote_ident tbl @ '' (key TEXT PRIMARY KEY, value BLOB NOT NULL)''"

definition open_table :: "'l sqlite_lib \<Rightarrow> (string \<Rightarrow> string) \<Rightarrow> nat \<Rightarrow> string \<Rightarrow>
    ('l sqlite_world, 'l sqlite_world BackendHandle) io" where
  "open_table lib moved_from db tbl =
     io_bind (io_lift (validate_ident tbl)) (\<lambda>_.
     io_bind (sq_exec_checked lib ''SQLiteOpen'' db (sql_create tbl) (''failed to create table '' @ quoted tbl @ '': '')) (\<lambda>_ w.
       let backend = qw_next w in
       Some (Inr (make_backend_handle (sqlite_backend lib moved_from) backend),
         w\<lparr>qw_objects := AList.update backend \<lparr>sb_db = Some db, sb_table_name = tbl\<rparr> (qw_objects w),
           qw_next := backend + 1\<rparr>)))"

definition scope_connection :: "'l sqlite_lib \<Rightarrow> SqliteConfig \<Rightarrow> string \<Rightarrow> ('l sqlite_world, nat) io" where
  "scope_connection lib c scope w = (case map_of (qw_scope_dbs w) scope of
      Some db \<Rightarrow> Some (Inr db, w)
    | None \<Rightarrow> io_bind (open_scope_db lib c (qc_path c @ ''/'' @ scope @ ''.db'')) (\<lambda>db w1.
        Some (Inr db, w1\<lparr>qw_scope_dbs := AList.update scope db (qw_scope_dbs w1)\<rparr>)) w)"

definition sqlite_factory :: "'l sqlite_lib \<Rightarrow> (string \<Rightarrow> string) \<Rightarrow> SqliteConfig \<Rightarrow> 'l sqlite_world BackendFactory" where
  "sqlite_factory lib moved_from c scope table =
     io_bind (io_lift (validate_ident scope)) (\<lambda>_.
     io_bind (scope_connection lib c scope) (\<lambda>db. open_table lib moved_from db table))"

text \<open>The end of the factory's shared state, and the factory of a build without SQLite.\<close>

definition drop_factory :: "'l sqlite_lib \<Rightarrow> 'l sqlite_world \<Rightarrow> 'l sqlite_world" where
  "drop_factory lib w = fold (let_go lib) (map snd (qw_scope_dbs w)) (w\<lparr>qw_scope_dbs := []\<rparr>)"

definition sqlite_factory_unavailable :: "SqliteConfig \<Rightarrow> 'l sqlite_world BackendFactory" where
  "sqlite_factory_unavailable c scope table = io_throw (Error ''NotAvailable'' ''compiled without SQLite support'')"

end
