(* ===== verification/Sqlite_Laws.thy ===== *)
theory Sqlite_Laws
  imports Sqlite_Backend Memory_Backend
begin

text \<open>
  The SQLite backend: the range that a prefix scan asks for is the keys with the prefix; a quoted
  identifier is read back by SQL's rule as the name, so no name can end the identifier early; a
  batch applies all of its operations or none, also when a statement fails in the middle; the
  batch lookup answers distinct keys, and answers a repeated key with a value that was moved away.
\<close>

subsection \<open>The upper bound of a prefix\<close>

lemma char_le_ff: "of_char c \<le> (255 :: nat)"
  using nat_of_char_less_256 [of c] by linarith

lemma char_less_iff: "c < d \<longleftrightarrow> of_char c < (of_char d :: nat)"
  by (simp add: less_char_def)

lemma replicate_ff_prefix: "replicate n (CHR 0xFF) \<le> k \<Longrightarrow> prefix (replicate n (CHR 0xFF)) (k :: string)"
proof (induction n arbitrary: k)
  case (Suc n)
  then obtain d k' where k: "k = d # k'" by (cases k) auto
  have "\<not> CHR 0xFF < d" using char_le_ff [of d] by (simp add: char_less_iff)
  with Suc k show ?case by auto
qed simp

lemma carry_bound_cases:
  obtains (none) "set s \<subseteq> {CHR 0xFF}" "carry_bound s = []"
  | (some) n c rest where "s = replicate n (CHR 0xFF) @ c # rest" "of_char c < (255 :: nat)"
      "carry_bound s = char_of (of_char c + 1 :: nat) # rest"
proof (induction s arbitrary: thesis)
  case (Cons c s)
  show ?case
  proof (cases "of_char c < (0xFF :: nat)")
    case True
    then show ?thesis using Cons.prems(2) [of 0 c s] by simp
  next
    case False
    with char_le_ff [of c] have "of_char c = (255 :: nat)" by simp
    then have "char_of (of_char c :: nat) = CHR 0xFF" by (simp only:) (simp add: char_of_def bit_iff_odd)
    then have c: "c = CHR 0xFF" by simp
    show ?thesis
    proof (rule Cons.IH)
      assume "set s \<subseteq> {CHR 0xFF}" "carry_bound s = []"
      then show ?thesis using Cons.prems(1) c by simp
    next
      fix n d rest assume "s = replicate n (CHR 0xFF) @ d # rest" "of_char d < (255 :: nat)"
        "carry_bound s = char_of (of_char d + 1 :: nat) # rest"
      then show ?thesis using Cons.prems(2) [of "Suc n" d rest] c by simp
    qed
  qed
qed simp

lemma prefix_upper_bound_cases:
  obtains (none) n where "p = replicate n (CHR 0xFF)" "prefix_upper_bound p = []"
  | (some) q c n where "p = q @ c # replicate n (CHR 0xFF)" "of_char c < (255 :: nat)"
      "prefix_upper_bound p = q @ [char_of (of_char c + 1 :: nat)]"
proof (cases rule: carry_bound_cases [of "rev p"])
  case none
  then have "p = replicate (length p) (CHR 0xFF)"
    by (intro replicate_eqI) auto
  moreover have "prefix_upper_bound p = []" by (simp add: prefix_upper_bound_def none(2))
  ultimately show thesis by (rule that(1))
next
  case (some n c rest)
  from some(1) have "p = rev (replicate n (CHR 0xFF) @ c # rest)" by (metis rev_rev_ident)
  then have "p = rev rest @ c # replicate n (CHR 0xFF)" by simp
  with some(2,3) that(2) [of "rev rest" c n] show thesis by (simp add: prefix_upper_bound_def)
qed

lemma prefix_as_range:
  assumes "prefix_upper_bound p \<noteq> []"
  shows "prefix p k \<longleftrightarrow> p \<le> k \<and> k < prefix_upper_bound p"
proof (cases rule: prefix_upper_bound_cases [of p])
  case none
  with assms show ?thesis by simp
next
  case (some q c n)
  let ?c1 = "char_of (of_char c + 1 :: nat) :: char" and ?ff = "replicate n (CHR 0xFF)"
  have c1: "of_char ?c1 = (of_char c + 1 :: nat)" using some(2) by simp
  then have lt: "d < ?c1 \<longleftrightarrow> d \<le> c" for d by (auto simp: char_less_iff less_eq_char_def)
  show ?thesis
  proof
    assume "prefix p k"
    then obtain t where k: "k = q @ c # ?ff @ t" by (auto simp: some(1) prefix_def)
    have "c # ?ff @ t < [?c1]" using lt by simp
    then have "k < prefix_upper_bound p" by (simp add: k some(3) less_append_same)
    with \<open>prefix p k\<close> show "p \<le> k \<and> k < prefix_upper_bound p" by (simp add: prefix_le)
  next
    assume r: "p \<le> k \<and> k < prefix_upper_bound p"
    have "q \<le> k" using r prefix_le [of q p] by (auto simp: some(1) intro: order_trans)
    moreover have "prefix q (prefix_upper_bound p)" by (simp add: some(3))
    moreover have "k \<le> prefix_upper_bound p" using r by (simp add: order.strict_implies_order)
    ultimately have "prefix q k" using prefix_interval by blast
    then obtain t where k: "k = q @ t" by (rule prefixE)
    have "q @ c # ?ff \<le> q @ t" "q @ t < q @ [?c1]" using r unfolding k some(3) by (simp_all add: some(1))
    then have t: "c # ?ff \<le> t" "t < [?c1]" by (simp_all only: less_append_same)
    then obtain d t' where d: "t = d # t'" by (cases t) auto
    have "d < ?c1" using t(2) by (simp add: d)
    then have "d \<le> c" by (simp only: lt)
    moreover have "c < d \<or> c = d \<and> ?ff \<le> t'" using t(1) by (simp only: d Cons_le_Cons)
    ultimately have "d = c" "?ff \<le> t'" by (simp_all add: order.strict_iff_not)
    with replicate_ff_prefix show "prefix p k" by (simp add: some(1) k d)
  qed
qed

lemma prefix_all_ff:
  assumes "prefix_upper_bound p = []"
  shows "prefix p k \<longleftrightarrow> p \<le> k"
proof (cases rule: prefix_upper_bound_cases [of p])
  case (none n)
  with replicate_ff_prefix prefix_le show ?thesis by metis
next
  case some
  with assms show ?thesis by simp
qed

subsection \<open>Quoted identifiers\<close>

text \<open>SQL's rule: an identifier in double quotes ends at the first quote that is not doubled.\<close>

fun sql_ident_body :: "string \<Rightarrow> string \<Rightarrow> (string \<times> string) option" where
  "sql_ident_body nm [] = None"
| "sql_ident_body nm [c] = (if c = dquote then Some (nm, []) else None)"
| "sql_ident_body nm (c # d # cs) =
     (if c = dquote then (if d = dquote then sql_ident_body (nm @ [dquote]) cs else Some (nm, d # cs))
      else sql_ident_body (nm @ [c]) (d # cs))"

definition sql_ident :: "string \<Rightarrow> (string \<times> string) option" where
  "sql_ident s = (case s of [] \<Rightarrow> None | c # cs \<Rightarrow> if c = dquote then sql_ident_body [] cs else None)"

lemma sql_ident_body_plain: "c \<noteq> dquote \<Longrightarrow> cs \<noteq> [] \<Longrightarrow> sql_ident_body nm (c # cs) = sql_ident_body (nm @ [c]) cs"
  by (cases cs) simp_all

lemma sql_ident_body_quote:
  assumes "rest = [] \<or> hd rest \<noteq> dquote"
  shows "sql_ident_body nm (quote_chars s @ dquote # rest) = Some (nm @ filter (\<lambda>c. c \<noteq> nul) s, rest)"
proof (induction s arbitrary: nm)
  case Nil
  with assms show ?case by (cases rest) auto
next
  case (Cons c s)
  then show ?case by (simp add: sql_ident_body_plain)
qed

lemma quoted_ident_read_back:
  "rest = [] \<or> hd rest \<noteq> dquote \<Longrightarrow>
    sql_ident (quote_ident nm @ rest) = Some (filter (\<lambda>c. c \<noteq> nul) nm, rest)"
  by (simp add: sql_ident_def quote_ident_def sql_ident_body_quote)

lemma check_ident_iff: "check_ident nm = Inr () \<longleftrightarrow> list_all ident_char nm"
  by (induction nm) simp_all

lemma validate_ident_iff: "validate_ident nm = Inr () \<longleftrightarrow> nm \<noteq> [] \<and> list_all ident_char nm"
  by (simp add: validate_ident_def check_ident_iff)

lemma ident_char_plain: "ident_char c \<Longrightarrow> c \<noteq> dquote \<and> c \<noteq> nul \<and> c \<noteq> CHR ''/'' \<and> c \<noteq> CHR ''.''"
  by (auto simp: ident_char_def less_eq_char_def)

lemma valid_ident_unchanged: "validate_ident nm = Inr () \<Longrightarrow> quote_ident nm = dquote # nm @ [dquote]"
proof -
  assume "validate_ident nm = Inr ()"
  then have "list_all ident_char nm" by (simp add: validate_ident_iff)
  then have "quote_chars nm = nm" by (induction nm) (auto dest: ident_char_plain)
  then show ?thesis by (simp add: quote_ident_def)
qed

lemma collect_found_pairs:
  assumes "\<And>k v. (k, v) \<in> set ps \<Longrightarrow> k \<in> set ks \<and> m k = Some v" "map_of found = m |` S"
  shows "map_of (collect_found ks (map (\<lambda>(k, v). [k, v]) ps) found) = m |` (S \<union> fst ` set ps)"
  using assms
proof (induction ps arbitrary: found S)
  case (Cons p ps)
  obtain k v where p: "p = (k, v)" by fastforce
  have kv: "k \<in> set ks" "m k = Some v" using Cons.prems(1) [of k v] p by auto
  let ?f = "if map_of found k = None then found @ [(k, v)] else found"
  have "map_of ?f = m |` (insert k S)"
    using Cons.prems(2) kv(2) by (auto simp: fun_eq_iff restrict_map_def map_add_def split: option.splits if_splits)
  moreover have "\<And>k v. (k, v) \<in> set ps \<Longrightarrow> k \<in> set ks \<and> m k = Some v"
    using Cons.prems(1) by (meson list.set_intros(2))
  ultimately have "map_of (collect_found ks (map (\<lambda>(k, v). [k, v]) ps) ?f) = m |` (insert k S \<union> fst ` set ps)"
    using Cons.IH by blast
  then show ?case by (cases "map_of found k") (simp_all add: p kv(1))
qed simp

lemma answer_keys_distinct:
  "distinct ks \<Longrightarrow> answer_keys mv ks found out = out @ map (\<lambda>k. \<lparr>bg_key = k, bg_value = map_of found k\<rparr>) ks"
proof (induction ks arbitrary: found out)
  case (Cons k ks)
  have "map_of (AList.update k v found) k' = map_of found k'" if "k' \<in> set ks" for v k'
    using Cons.prems that by (auto simp: update_conv')
  with Cons show ?case by (auto split: option.splits)
qed simp

subsection \<open>The backend over a library that keeps its word\<close>

text \<open>
  What SQLite documents about the statements of one table: the rows of the queries, the effect of
  an insertion or deletion that is done, no effect of one that is not, and savepoints (\<open>marks\<close> is the
  contents a savepoint remembers). Insertions and deletions may fail.
\<close>

definition key_rows :: "contents \<Rightarrow> (string \<Rightarrow> bool) \<Rightarrow> string list list \<Rightarrow> bool" where
  "key_rows m sel rows \<longleftrightarrow> (\<exists>kvs. rows = map (\<lambda>kv. [kv_key kv, kv_value kv]) kvs \<and>
     sorted_wrt (<) (map kv_key kvs) \<and> set kvs = {KV k v | k v. m k = Some v \<and> sel k})"

definition statements :: "string \<Rightarrow> string set" where
  "statements tbl = {sql_get tbl, sql_put tbl, sql_del tbl, sql_all tbl, sql_from tbl, sql_range tbl} \<union> range (sql_in tbl)"

definition in_rows :: "contents \<Rightarrow> string list \<Rightarrow> string list list \<Rightarrow> bool" where
  "in_rows m ks rows \<longleftrightarrow> (\<exists>ps. rows = map (\<lambda>(k, v). [k, v]) ps \<and> distinct (map fst ps) \<and>
     set ps = {(k, v). k \<in> set ks \<and> m k = Some v})"

text \<open>Keys and values whose sizes fit an \<open>int\<close>.\<close>

definition op_small :: "BatchOp \<Rightarrow> bool" where
  "op_small op \<longleftrightarrow> length (op_key op) < 2 ^ 31 \<and> (\<forall>v. op_value op = Some v \<longrightarrow> length v < 2 ^ 31)"

text \<open>The backend object at \<open>self\<close> serves the table \<open>tbl\<close> of the connection \<open>db\<close>, which works.\<close>

definition table_at :: "nat \<Rightarrow> string \<Rightarrow> ('l \<Rightarrow> bool) \<Rightarrow> nat \<Rightarrow> 'l sqlite_world \<Rightarrow> bool" where
  "table_at db tbl healthy self w \<longleftrightarrow>
     map_of (qw_objects w) self = Some \<lparr>sb_db = Some db, sb_table_name = tbl\<rparr> \<and> healthy (qw_lib w)"

text \<open>
  What a failed statement leaves: the table and the savepoints as they were, or, when SQLite gives up
  the transaction as a whole (a full disk, an I/O error), what the table was before its savepoint.
\<close>

definition undone :: "('l \<Rightarrow> contents) \<Rightarrow> ('l \<Rightarrow> string \<Rightarrow> contents option) \<Rightarrow> 'l \<Rightarrow> 'l \<Rightarrow> bool" where
  "undone view marks l l' \<longleftrightarrow> (view l' = view l \<and> marks l' = marks l) \<or>
     (\<exists>sp m. marks l = [sp \<mapsto> m] \<and> view l' = m \<and> marks l' = Map.empty)"

lemma undone_none: "undone view marks l l' \<Longrightarrow> marks l = Map.empty \<Longrightarrow> view l' = view l"
  by (auto simp: undone_def dest!: fun_cong split: if_splits)

lemma undone_mark:
  assumes "undone view marks l l'" "marks l sp = Some m"
  shows "(view l' = view l \<and> marks l' sp = Some m) \<or> (view l' = m \<and> marks l' = Map.empty)"
  using assms by (auto simp: undone_def split: if_splits)

text \<open>
  The laws: an open savepoint has a mark with the contents that the table had. Insertions,
  deletions, \<open>SAVEPOINT\<close> and \<open>RELEASE\<close> may fail: \<open>RELEASE\<close> of the outermost savepoint is a commit, which
  a lock or the disk may refuse, the transaction staying open.
\<close>

locale sqlite_laws =
  fixes lib :: "'l sqlite_lib" and db :: nat and tbl :: string
    and view :: "'l \<Rightarrow> contents" and marks :: "'l \<Rightarrow> string \<Rightarrow> contents option" and healthy :: "'l \<Rightarrow> bool"
  assumes prepare_ok: "healthy l \<Longrightarrow> sql \<in> statements tbl \<Longrightarrow>
      \<exists>l'. sq_prepare lib db sql l = (True, l') \<and> healthy l' \<and> view l' = view l \<and> marks l' = marks l"
    and get_rows: "healthy l \<Longrightarrow> \<exists>l'. sq_step_all lib db (sql_get tbl) [k] l =
        ((case view l k of None \<Rightarrow> [] | Some v \<Rightarrow> [[v]]), True, l') \<and> healthy l' \<and> view l' = view l"
    and all_rows: "healthy l \<Longrightarrow> \<exists>rows l'. sq_step_all lib db (sql_all tbl) [] l = (rows, True, l') \<and>
        key_rows (view l) (\<lambda>k. True) rows \<and> healthy l' \<and> view l' = view l"
    and from_rows: "healthy l \<Longrightarrow> \<exists>rows l'. sq_step_all lib db (sql_from tbl) [p] l = (rows, True, l') \<and>
        key_rows (view l) (\<lambda>k. p \<le> k) rows \<and> healthy l' \<and> view l' = view l"
    and range_rows: "healthy l \<Longrightarrow> \<exists>rows l'. sq_step_all lib db (sql_range tbl) [p, q] l = (rows, True, l') \<and>
        key_rows (view l) (\<lambda>k. p \<le> k \<and> k < q) rows \<and> healthy l' \<and> view l' = view l"
    and found_rows: "healthy l \<Longrightarrow> \<exists>rows l'. sq_step_all lib db (sql_in tbl (length ks)) ks l = (rows, True, l') \<and>
        in_rows (view l) ks rows \<and> healthy l' \<and> view l' = view l"
    and put_step: "healthy l \<Longrightarrow> \<exists>fin l'. sq_step_all lib db (sql_put tbl) [k, v] l = ([], fin, l') \<and> healthy l' \<and>
        (if fin then marks l' = marks l \<and> view l' = (view l)(k \<mapsto> v) else undone view marks l l')"
    and del_step: "healthy l \<Longrightarrow> \<exists>fin l'. sq_step_all lib db (sql_del tbl) [k] l = ([], fin, l') \<and> healthy l' \<and>
        (if fin then marks l' = marks l \<and> view l' = (view l)(k := None) else undone view marks l l')"
    and savepoint_step: "healthy l \<Longrightarrow> \<exists>fin msg l'. sq_exec lib db (''SAVEPOINT '' @ quote_ident sp) l = (fin, msg, l') \<and>
        healthy l' \<and> view l' = view l \<and> (fin \<longrightarrow> marks l' sp = Some (view l))"
    and rollback_step: "healthy l \<Longrightarrow> \<exists>fin msg l'. sq_exec lib db (''ROLLBACK TO '' @ quote_ident sp) l = (fin, msg, l') \<and>
        healthy l' \<and> (case marks l sp of
          None \<Rightarrow> \<not> fin \<and> view l' = view l \<and> marks l' = marks l
        | Some m \<Rightarrow> fin \<and> view l' = m \<and> marks l' sp = Some m)"
    and release_step: "healthy l \<Longrightarrow> \<exists>fin msg l'. sq_exec lib db (''RELEASE '' @ quote_ident sp) l = (fin, msg, l') \<and>
        healthy l' \<and> (if fin then marks l sp \<noteq> None \<and> view l' = view l else undone view marks l l')"
begin

lemma sq_db_table [simp]: "table_at db tbl healthy self w \<Longrightarrow> sq_db code self f w = f db tbl w"
  by (simp add: table_at_def sq_db_def)

lemma bind_small: "\<forall>s\<in>set ss. length s < 2 ^ 31 \<Longrightarrow> bind_all ss = Some ss"
proof (induction ss)
  case (Cons s ss)
  then have "length s < 2 ^ 31" by simp
  then have "unat (word_of_nat (length s) :: 32 word) = length s" "sint (word_of_nat (length s) :: 32 word) = int (length s)"
    by (simp_all add: unat_of_nat signed_of_nat signed_take_bit_int_eq_self)
  then have "bind_bytes s = Some s" by (simp add: bind_bytes_def Let_def)
  with Cons show ?case by simp
qed simp

text \<open>A query is its preparation and its rows.\<close>

lemma sq_query_ok:
  assumes "table_at db tbl healthy self w" "sql \<in> statements tbl" "\<forall>s\<in>set ps. length s < 2 ^ 31"
  obtains w1 where "sq_query lib code db sql ps w = (let (rows, fin, l) = sq_step_all lib db sql ps (qw_lib w1) in
      Some (Inr (rows, fin), w1\<lparr>qw_lib := l\<rparr>))" "table_at db tbl healthy self w1" "qw_objects w1 = qw_objects w"
    "view (qw_lib w1) = view (qw_lib w)" "marks (qw_lib w1) = marks (qw_lib w)"
proof -
  have healthy: "healthy (qw_lib w)" using assms(1) by (simp add: table_at_def)
  obtain l' where l': "sq_prepare lib db sql (qw_lib w) = (True, l')" "healthy l'" "view l' = view (qw_lib w)"
    "marks l' = marks (qw_lib w)" using prepare_ok [OF healthy assms(2)] by blast
  show thesis
    by (rule that [of "w\<lparr>qw_lib := l'\<rparr>"])
      (use l' assms(1) in \<open>simp_all add: sq_query_def sq_run_def bind_small [OF assms(3)] table_at_def\<close>)
qed

lemma sqlite_get_ok:
  assumes "table_at db tbl healthy self w" "length k < 2 ^ 31"
  shows "\<exists>w'. sqlite_get lib self k w = Some (Inr (view (qw_lib w) k), w') \<and> table_at db tbl healthy self w' \<and>
    view (qw_lib w') = view (qw_lib w)"
proof -
  have st: "sql_get tbl \<in> statements tbl" by (simp add: statements_def)
  obtain w1 where w1: "sq_query lib ''StoreGet'' db (sql_get tbl) [k] w =
      (let (rows, fin, l) = sq_step_all lib db (sql_get tbl) [k] (qw_lib w1) in Some (Inr (rows, fin), w1\<lparr>qw_lib := l\<rparr>))"
    "table_at db tbl healthy self w1" "view (qw_lib w1) = view (qw_lib w)"
    using sq_query_ok [OF assms(1) st, of "[k]" "''StoreGet''"] assms(2) by auto
  obtain l' where "sq_step_all lib db (sql_get tbl) [k] (qw_lib w1) =
      ((case view (qw_lib w1) k of None \<Rightarrow> [] | Some v \<Rightarrow> [[v]]), True, l')" "healthy l'" "view l' = view (qw_lib w1)"
    using get_rows [of "qw_lib w1" k] w1(2) by (auto simp: table_at_def)
  with assms(1) w1 show ?thesis
    by (cases "view (qw_lib w) k") (auto simp: sqlite_get_def io_bind_def io_return_def table_at_def)
qed

text \<open>Outside a savepoint a put does what it says or reports an error and leaves the table alone.\<close>

lemma sqlite_put_ok:
  assumes "table_at db tbl healthy self w" "length k < 2 ^ 31" "length v < 2 ^ 31" "marks (qw_lib w) = Map.empty"
  shows "\<exists>r w'. sqlite_put lib self k v w = Some (r, w') \<and> table_at db tbl healthy self w' \<and>
    view (qw_lib w') = (if r = Inr () then (view (qw_lib w))(k \<mapsto> v) else view (qw_lib w))"
proof -
  have st: "sql_put tbl \<in> statements tbl" by (simp add: statements_def)
  obtain w1 where w1: "sq_query lib ''StorePut'' db (sql_put tbl) [k, v] w =
      (let (rows, fin, l) = sq_step_all lib db (sql_put tbl) [k, v] (qw_lib w1) in Some (Inr (rows, fin), w1\<lparr>qw_lib := l\<rparr>))"
    "table_at db tbl healthy self w1" "view (qw_lib w1) = view (qw_lib w)" "marks (qw_lib w1) = Map.empty"
    using sq_query_ok [OF assms(1) st, of "[k, v]" "''StorePut''"] assms(2-4) by auto
  obtain fin l' where l': "sq_step_all lib db (sql_put tbl) [k, v] (qw_lib w1) = ([], fin, l')" "healthy l'"
    "if fin then marks l' = marks (qw_lib w1) \<and> view l' = (view (qw_lib w1))(k \<mapsto> v) else undone view marks (qw_lib w1) l'"
    using put_step [of "qw_lib w1" k v] w1(2) by (auto simp: table_at_def)
  then have "view l' = (if fin then (view (qw_lib w1))(k \<mapsto> v) else view (qw_lib w1))"
    using w1(4) undone_none [of view marks "qw_lib w1" l'] by (cases fin) auto
  with l'(1,2) assms(1) w1 show ?thesis
    by (cases fin) (auto simp: sqlite_put_def io_bind_def io_return_def sq_error_def table_at_def)
qed

text \<open>Scans: in each of the three queries the rows are the pairs whose key has the prefix.\<close>

lemma key_rows_scan:
  assumes "key_rows m sel rows" "\<And>k. sel k \<longleftrightarrow> prefix p k"
  shows "scan_of m p (map row_pair rows)"
proof -
  from assms(1) obtain kvs where kvs: "rows = map (\<lambda>kv. [kv_key kv, kv_value kv]) kvs"
    "sorted_wrt (<) (map kv_key kvs)" "set kvs = {KV k v | k v. m k = Some v \<and> sel k}"
    by (auto simp: key_rows_def)
  have "map row_pair rows = kvs" by (simp add: kvs(1) row_pair_def map_idI)
  then show ?thesis using kvs(2,3) assms(2) by (simp add: scan_of_def)
qed

lemma length_carry_bound: "length (carry_bound s) \<le> length s"
  by (induction s) auto

lemma sqlite_scan_ok:
  assumes "table_at db tbl healthy self w" "length p < 2 ^ 31"
  shows "\<exists>kvs w'. sqlite_prefix_scan lib self p w = Some (Inr kvs, w') \<and> scan_of (view (qw_lib w)) p kvs \<and>
    table_at db tbl healthy self w' \<and> view (qw_lib w') = view (qw_lib w)"
proof -
  have len: "length (prefix_upper_bound p) < 2 ^ 31"
    using assms(2) length_carry_bound [of "rev p"] by (simp add: prefix_upper_bound_def)
  have query: "\<exists>rows w'. sq_query lib ''StorePrefixScan'' db sql ps w = Some (Inr (rows, True), w') \<and>
      key_rows (view (qw_lib w)) sel rows \<and> table_at db tbl healthy self w' \<and> view (qw_lib w') = view (qw_lib w)"
    if st: "sql \<in> statements tbl" and ps: "\<forall>s\<in>set ps. length s < 2 ^ 31"
      and rows: "\<And>l. healthy l \<Longrightarrow> \<exists>rows l'. sq_step_all lib db sql ps l = (rows, True, l') \<and>
        key_rows (view l) sel rows \<and> healthy l' \<and> view l' = view l" for sql ps sel
  proof -
    obtain w1 where w1: "sq_query lib ''StorePrefixScan'' db sql ps w = (let (rows, fin, l) = sq_step_all lib db sql ps (qw_lib w1) in
        Some (Inr (rows, fin), w1\<lparr>qw_lib := l\<rparr>))" "table_at db tbl healthy self w1" "view (qw_lib w1) = view (qw_lib w)"
      using sq_query_ok [OF assms(1) st ps, of "''StorePrefixScan''"] by metis
    obtain rows l' where "sq_step_all lib db sql ps (qw_lib w1) = (rows, True, l')"
      "key_rows (view (qw_lib w1)) sel rows" "healthy l'" "view l' = view (qw_lib w1)"
      using rows [of "qw_lib w1"] w1(2) by (auto simp: table_at_def)
    with w1 show ?thesis by (auto simp: table_at_def)
  qed
  consider (all) "p = []" | (ff) "p \<noteq> []" "prefix_upper_bound p = []" | (range) "p \<noteq> []" "prefix_upper_bound p \<noteq> []"
    by blast
  then show ?thesis
  proof cases
    case all
    obtain rows w' where "sq_query lib ''StorePrefixScan'' db (sql_all tbl) [] w = Some (Inr (rows, True), w')"
      "key_rows (view (qw_lib w)) (\<lambda>k. True) rows" "table_at db tbl healthy self w'" "view (qw_lib w') = view (qw_lib w)"
      using query [OF _ _ all_rows] by (auto simp: statements_def)
    with key_rows_scan [of _ "\<lambda>k. True" rows p] all assms(1) show ?thesis
      by (simp add: sqlite_prefix_scan_def scan_rows_def result_simps)
  next
    case ff
    obtain rows w' where q: "sq_query lib ''StorePrefixScan'' db (sql_from tbl) [p] w = Some (Inr (rows, True), w')"
      "key_rows (view (qw_lib w)) (\<lambda>k. p \<le> k) rows" "table_at db tbl healthy self w'" "view (qw_lib w') = view (qw_lib w)"
      using query [OF _ _ from_rows, of "p"] assms(2) by (auto simp: statements_def)
    have scan: "scan_of (view (qw_lib w)) p (map row_pair rows)"
      using key_rows_scan [OF q(2)] prefix_all_ff [OF ff(2)] by simp
    have "starts_with (kv_key kv) p" if "kv \<in> set (map row_pair rows)" for kv
      using scan_of_keys [OF scan that] by (simp add: starts_with_prefix)
    then have tw: "takeWhile (\<lambda>kv. starts_with (kv_key kv) p) (map row_pair rows) = map row_pair rows"
      by (simp only: takeWhile_eq_all_conv) blast
    from q scan ff assms(1) show ?thesis
      by (simp add: sqlite_prefix_scan_def scan_rows_def Let_def result_simps tw)
  next
    case range
    obtain rows w' where q: "sq_query lib ''StorePrefixScan'' db (sql_range tbl) [p, prefix_upper_bound p] w = Some (Inr (rows, True), w')"
      "key_rows (view (qw_lib w)) (\<lambda>k. p \<le> k \<and> k < prefix_upper_bound p) rows" "table_at db tbl healthy self w'"
      "view (qw_lib w') = view (qw_lib w)"
      using query [OF _ _ range_rows, of p "prefix_upper_bound p"] assms(2) len by (auto simp: statements_def)
    have "scan_of (view (qw_lib w)) p (map row_pair rows)"
      using key_rows_scan [OF q(2)] prefix_as_range [OF range(2)] by simp
    with q range assms(1) show ?thesis
      by (simp add: sqlite_prefix_scan_def scan_rows_def Let_def result_simps)
  qed
qed

text \<open>
  Batches: inside the savepoint a statement either takes effect or the savepoint's contents are
  restored, by the library or by the rollback.
\<close>

lemma sq_abort_restores:
  assumes "table_at db tbl healthy self w" "marks (qw_lib w) sp = Some m \<or> marks (qw_lib w) = Map.empty \<and> view (qw_lib w) = m"
  shows "table_at db tbl healthy self (sq_abort lib db sp w) \<and> view (qw_lib (sq_abort lib db sp w)) = m"
proof -
  have "healthy (qw_lib w)" using assms(1) by (simp add: table_at_def)
  then obtain fin msg l1 where l1: "sq_exec lib db (''ROLLBACK TO '' @ quote_ident sp) (qw_lib w) = (fin, msg, l1)" "healthy l1"
    "case marks (qw_lib w) sp of None \<Rightarrow> \<not> fin \<and> view l1 = view (qw_lib w) \<and> marks l1 = marks (qw_lib w)
      | Some m \<Rightarrow> fin \<and> view l1 = m \<and> marks l1 sp = Some m" using rollback_step [of "qw_lib w" sp] by blast
  then have m: "view l1 = m" "marks l1 sp = Some m \<or> marks l1 = Map.empty" using assms(2) by auto
  obtain fin2 msg2 l2 where l2: "sq_exec lib db (''RELEASE '' @ quote_ident sp) l1 = (fin2, msg2, l2)" "healthy l2"
    "if fin2 then marks l1 sp \<noteq> None \<and> view l2 = view l1 else undone view marks l1 l2" using release_step [OF l1(2)] by blast
  have "view l2 = m"
  proof (cases fin2)
    case False
    with l2(3) have "undone view marks l1 l2" by simp
    with m show ?thesis using undone_mark [of view marks l1 l2 sp m] undone_none [of view marks l1 l2] by auto
  qed (use l2(3) m(1) in simp)
  with l1(1) l2(1,2) assms(1) show ?thesis by (simp add: sq_abort_def sq_exec_ignored_def table_at_def)
qed

lemma sq_batch_step_ok:
  assumes "table_at db tbl healthy self w" "marks (qw_lib w) sp = Some m" "sql \<in> statements tbl" "\<forall>s\<in>set ps. length s < 2 ^ 31"
    and step: "\<And>l. healthy l \<Longrightarrow> \<exists>fin l'. sq_step_all lib db sql ps l = ([], fin, l') \<and> healthy l' \<and>
      (if fin then marks l' = marks l \<and> view l' = f (view l) else undone view marks l l')"
  shows "\<exists>r w'. sq_batch_step lib db sp sql ps w = Some (r, w') \<and> table_at db tbl healthy self w' \<and>
    (case r of Inl e \<Rightarrow> view (qw_lib w') = m
     | Inr _ \<Rightarrow> view (qw_lib w') = f (view (qw_lib w)) \<and> marks (qw_lib w') sp = Some m)"
proof -
  have healthy: "healthy (qw_lib w)" using assms(1) by (simp add: table_at_def)
  obtain l1 where l1: "sq_prepare lib db sql (qw_lib w) = (True, l1)" "healthy l1" "view l1 = view (qw_lib w)"
    "marks l1 = marks (qw_lib w)" using prepare_ok [OF healthy assms(3)] by blast
  obtain fin l2 where l2: "sq_step_all lib db sql ps l1 = ([], fin, l2)" "healthy l2"
    "if fin then marks l2 = marks l1 \<and> view l2 = f (view l1) else undone view marks l1 l2" using step [OF l1(2)] by blast
  let ?w2 = "w\<lparr>qw_lib := l2\<rparr>"
  have at2: "table_at db tbl healthy self ?w2" using assms(1) l2(2) by (simp add: table_at_def)
  have run: "sq_run lib db sql ps (w\<lparr>qw_lib := l1\<rparr>) = Some (Inr ([], fin), ?w2)"
    by (simp add: sq_run_def bind_small [OF assms(4)] l2(1))
  show ?thesis
  proof (cases fin)
    case True
    with l1 l2 run at2 assms(2) show ?thesis by (simp add: sq_batch_step_def)
  next
    case False
    then have "marks l2 sp = Some m \<or> marks l2 = Map.empty \<and> view l2 = m"
      using undone_mark [of view marks l1 l2 sp m] l1(4) l2(3) assms(2) by auto
    with sq_abort_restores [OF at2, of sp m] False l1 run show ?thesis by (simp add: sq_batch_step_def sq_error_def)
  qed
qed

lemma sq_batch_loop_ok:
  assumes "table_at db tbl healthy self w" "marks (qw_lib w) sp = Some m" "list_all op_small ops"
  shows "\<exists>r w'. sq_batch_loop lib db tbl sp ops w = Some (r, w') \<and> table_at db tbl healthy self w' \<and>
    (case r of Inl e \<Rightarrow> view (qw_lib w') = m
     | Inr _ \<Rightarrow> view (qw_lib w') = fold apply_op ops (view (qw_lib w)) \<and> marks (qw_lib w') sp = Some m)"
  using assms
proof (induction ops arbitrary: w)
  case (Cons op ops)
  note at = Cons.prems(1) and mark = Cons.prems(2)
  have small: "length (op_key op) < 2 ^ 31" "\<And>v. op_value op = Some v \<Longrightarrow> length v < 2 ^ 31"
    using Cons.prems(3) by (simp_all add: op_small_def)
  have go: ?case
    if eq: "sq_batch_loop lib db tbl sp (op # ops) =
        io_bind (sq_batch_step lib db sp sql ps) (\<lambda>_. sq_batch_loop lib db tbl sp ops)"
      and st: "\<exists>r w'. sq_batch_step lib db sp sql ps w = Some (r, w') \<and> table_at db tbl healthy self w' \<and>
        (case r of Inl e \<Rightarrow> view (qw_lib w') = m
         | Inr _ \<Rightarrow> view (qw_lib w') = apply_op op (view (qw_lib w)) \<and> marks (qw_lib w') sp = Some m)"
    for sql ps
  proof -
    from st obtain r w1 where w1: "sq_batch_step lib db sp sql ps w = Some (r, w1)" "table_at db tbl healthy self w1"
      "case r of Inl e \<Rightarrow> view (qw_lib w1) = m
       | Inr _ \<Rightarrow> view (qw_lib w1) = apply_op op (view (qw_lib w)) \<and> marks (qw_lib w1) sp = Some m" by blast
    show ?thesis
    proof (cases r)
      case (Inl e)
      with w1 eq show ?thesis by (simp add: result_simps)
    next
      case (Inr u)
      then have "view (qw_lib w1) = apply_op op (view (qw_lib w))" "marks (qw_lib w1) sp = Some m"
        using w1(3) by simp_all
      then have eff: "fold apply_op (op # ops) (view (qw_lib w)) = fold apply_op ops (view (qw_lib w1))"
        "marks (qw_lib w1) sp = Some m" by simp_all
      have run: "sq_batch_loop lib db tbl sp (op # ops) w = sq_batch_loop lib db tbl sp ops w1"
        using w1(1) Inr by (simp only: eq io_bind_simps(3))
      have "list_all op_small ops" using Cons.prems(3) by simp
      from Cons.IH [OF w1(2) eff(2) this] show ?thesis unfolding run eff(1) .
    qed
  qed
  show ?case
  proof (cases "op_kind op")
    case put_kind
    show ?thesis
    proof (cases "op_value op")
      case None
      with sq_abort_restores [OF at, of sp m] mark put_kind show ?thesis by simp
    next
      case (Some v)
      have "\<exists>fin l'. sq_step_all lib db (sql_put tbl) [op_key op, v] l = ([], fin, l') \<and> healthy l' \<and>
          (if fin then marks l' = marks l \<and> view l' = apply_op op (view l) else undone view marks l l')" if "healthy l" for l
        using put_step [OF that, of "op_key op" v] by (simp only: apply_op_def put_kind Some BatchKind.case)
      from sq_batch_step_ok [OF at mark _ _ this] put_kind Some small show ?thesis
        by (intro go [of "sql_put tbl" "[op_key op, v]"]) (simp_all add: statements_def)
    qed
  next
    case del_kind
    have "\<exists>fin l'. sq_step_all lib db (sql_del tbl) [op_key op] l = ([], fin, l') \<and> healthy l' \<and>
        (if fin then marks l' = marks l \<and> view l' = apply_op op (view l) else undone view marks l l')" if "healthy l" for l
      using del_step [OF that, of "op_key op"] by (simp only: apply_op_def del_kind BatchKind.case)
    from sq_batch_step_ok [OF at mark _ _ this] del_kind small show ?thesis
      by (intro go [of "sql_del tbl" "[op_key op]"]) (simp_all add: statements_def)
  qed
qed (simp add: io_return_def)

text \<open>
  A batch that is refused at its end: \<open>RELEASE\<close> fails and leaves the savepoint open. The code reports the
  error and neither rolls back nor tries again.
\<close>

definition refused_at_end :: "BatchOp list \<Rightarrow> 'l \<Rightarrow> 'l \<Rightarrow> bool" where
  "refused_at_end ops l l' \<longleftrightarrow> view l' = fold apply_op ops (view l) \<and>
     (\<exists>sp l2 msg. sq_exec lib db (''RELEASE '' @ quote_ident sp) l2 = (False, msg, l') \<and> marks l' sp = Some (view l))"

lemma sqlite_batch_atomic:
  assumes "table_at db tbl healthy self w" "list_all op_small ops"
  shows "\<exists>r w'. sqlite_batch lib self ops w = Some (r, w') \<and> table_at db tbl healthy self w' \<and>
    (case r of
       Inr _ \<Rightarrow> view (qw_lib w') = fold apply_op ops (view (qw_lib w))
     | Inl e \<Rightarrow> view (qw_lib w') = view (qw_lib w) \<or> refused_at_end ops (qw_lib w) (qw_lib w'))"
proof -
  define sp where "sp = ''sp_'' @ decimal (unat (qw_savepoint w))"
  let ?w0 = "w\<lparr>qw_savepoint := qw_savepoint w + 1\<rparr>"
  obtain fin msg l1 where l1: "sq_exec lib db (''SAVEPOINT '' @ quote_ident sp) (qw_lib w) = (fin, msg, l1)" "healthy l1"
    "view l1 = view (qw_lib w)" "fin \<longrightarrow> marks l1 sp = Some (view (qw_lib w))"
    using savepoint_step [of "qw_lib w" sp] assms(1) by (auto simp: table_at_def)
  let ?w1 = "?w0\<lparr>qw_lib := l1\<rparr>"
  have at1: "table_at db tbl healthy self ?w1" using assms(1) l1(2) by (simp add: table_at_def)
  have ns: "next_savepoint w = Some (Inr sp, ?w0)" by (simp add: next_savepoint_def sp_def)
  show ?thesis
  proof (cases fin)
    case False
    with assms(1) at1 l1 show ?thesis by (auto simp: sqlite_batch_def ns sq_exec_checked_def result_simps)
  next
    case True
    then have run: "sqlite_batch lib self ops w = io_bind (sq_batch_loop lib db tbl sp ops)
        (\<lambda>_. sq_exec_checked lib ''StoreBatch'' db (''RELEASE '' @ quote_ident sp) []) ?w1"
      using assms(1) l1(1) by (simp add: sqlite_batch_def ns sq_exec_checked_def result_simps)
    have "marks (qw_lib ?w1) sp = Some (view (qw_lib w))" using l1(4) True by simp
    from sq_batch_loop_ok [OF at1 this assms(2)] obtain r w2 where
      w2: "sq_batch_loop lib db tbl sp ops ?w1 = Some (r, w2)" "table_at db tbl healthy self w2"
      "case r of Inl e \<Rightarrow> view (qw_lib w2) = view (qw_lib w)
       | Inr _ \<Rightarrow> view (qw_lib w2) = fold apply_op ops (view (qw_lib ?w1)) \<and> marks (qw_lib w2) sp = Some (view (qw_lib w))"
      by blast
    show ?thesis
    proof (cases r)
      case (Inl e)
      with w2 run show ?thesis by (simp add: result_simps)
    next
      case (Inr u)
      with w2(3) l1(3) have eff: "view (qw_lib w2) = fold apply_op ops (view (qw_lib w))"
        "marks (qw_lib w2) sp = Some (view (qw_lib w))" by simp_all
      obtain fin2 msg2 l3 where l3: "sq_exec lib db (''RELEASE '' @ quote_ident sp) (qw_lib w2) = (fin2, msg2, l3)" "healthy l3"
        "if fin2 then marks (qw_lib w2) sp \<noteq> None \<and> view l3 = view (qw_lib w2) else undone view marks (qw_lib w2) l3"
        using release_step [of "qw_lib w2" sp] w2(2) by (auto simp: table_at_def)
      have "\<not> fin2 \<Longrightarrow> view l3 = view (qw_lib w) \<or> refused_at_end ops (qw_lib w) l3"
        using undone_mark [of view marks "qw_lib w2" l3 sp "view (qw_lib w)"] eff(2) l3(1,3) eff(1) by (auto simp: refused_at_end_def)
      with w2 Inr run l3 eff(1) show ?thesis
        by (cases fin2) (auto simp: result_simps sq_exec_checked_def table_at_def)
    qed
  qed
qed

text \<open>The batch lookup over chunks of 256 keys finds the keys that are there.\<close>

lemma get_many_chunks_ok:
  assumes "table_at db tbl healthy self w" "\<forall>k\<in>set ks. length k < 2 ^ 31" "map_of found = view (qw_lib w) |` S"
  shows "\<exists>found' w'. get_many_chunks lib db tbl ks found w = Some (Inr found', w') \<and> table_at db tbl healthy self w' \<and>
    view (qw_lib w') = view (qw_lib w) \<and> map_of found' = view (qw_lib w) |` (S \<union> set ks)"
  using assms
proof (induction "length ks" arbitrary: ks found S w rule: less_induct)
  case less
  show ?case
  proof (cases "ks = []")
    case True
    with less.prems show ?thesis by (auto simp: get_many_chunks.simps io_return_def)
  next
    case False
    let ?c = "take 256 ks" and ?m = "view (qw_lib w)"
    have st: "sql_in tbl (length ?c) \<in> statements tbl" by (simp add: statements_def)
    have small: "\<forall>k\<in>set ?c. length k < 2 ^ 31" using less.prems(2) by (auto dest: in_set_takeD)
    obtain w1 where w1: "sq_query lib ''SQLiteGetMany'' db (sql_in tbl (length ?c)) ?c w =
        (let (rows, fin, l) = sq_step_all lib db (sql_in tbl (length ?c)) ?c (qw_lib w1) in
          Some (Inr (rows, fin), w1\<lparr>qw_lib := l\<rparr>))" "table_at db tbl healthy self w1" "view (qw_lib w1) = ?m"
      using sq_query_ok [OF less.prems(1) st small, of "''SQLiteGetMany''"] by metis
    obtain rows l' where rows: "sq_step_all lib db (sql_in tbl (length ?c)) ?c (qw_lib w1) = (rows, True, l')"
      "in_rows ?m ?c rows" "healthy l'" "view l' = ?m"
      using found_rows [of "qw_lib w1" ?c] w1(2,3) by (auto simp: table_at_def)
    let ?w2 = "w1\<lparr>qw_lib := l'\<rparr>" and ?f = "collect_found ?c rows found"
    have at2: "table_at db tbl healthy self ?w2" "view (qw_lib ?w2) = ?m" using w1(2) rows(3,4) by (simp_all add: table_at_def)
    from rows(2) obtain ps where ps: "rows = map (\<lambda>(k, v). [k, v]) ps" "set ps = {(k, v). k \<in> set ?c \<and> ?m k = Some v}"
      by (auto simp: in_rows_def)
    have "map_of ?f = ?m |` (S \<union> fst ` set ps)"
      unfolding ps(1) by (rule collect_found_pairs) (use ps(2) less.prems(3) in auto)
    moreover have "?m |` (S \<union> fst ` set ps) = ?m |` (S \<union> set ?c)"
      by (rule ext) (auto simp: restrict_map_def ps(2) image_iff)
    ultimately have f: "map_of ?f = view (qw_lib ?w2) |` (S \<union> set ?c)" using at2(2) by simp
    have "length (drop 256 ks) < length ks" using False by simp
    from less.hyps [OF this at2(1) _ f] less.prems(2) obtain found' w' where
      IH: "get_many_chunks lib db tbl (drop 256 ks) ?f ?w2 = Some (Inr found', w')" "table_at db tbl healthy self w'"
      "view (qw_lib w') = ?m" "map_of found' = ?m |` ((S \<union> set ?c) \<union> set (drop 256 ks))"
      using at2(2) by (auto dest: in_set_dropD)
    have "get_many_chunks lib db tbl ks found w = get_many_chunks lib db tbl (drop 256 ks) ?f ?w2"
      by (subst get_many_chunks.simps) (simp add: False Let_def w1(1) rows(1) io_bind_def del: length_take)
    moreover have "(S \<union> set ?c) \<union> set (drop 256 ks) = S \<union> set ks"
      by (metis append_take_drop_id set_append sup_assoc)
    ultimately show ?thesis using IH by metis
  qed
qed

lemma sqlite_get_many_ok:
  assumes "table_at db tbl healthy self w" "\<forall>k\<in>set ks. length k < 2 ^ 31"
  shows "\<exists>found w'. map_of found = view (qw_lib w) |` set ks \<and> table_at db tbl healthy self w' \<and> view (qw_lib w') = view (qw_lib w) \<and>
    sqlite_get_many lib moved_from self ks w = Some (Inr (answer_keys moved_from ks found []), w')"
proof (cases "ks = []")
  case True
  with assms(1) show ?thesis by (auto simp: sqlite_get_many_def io_return_def intro!: exI [of _ "[]"])
next
  case False
  have "map_of [] = view (qw_lib w) |` {}" by simp
  from get_many_chunks_ok [OF assms this] obtain found w' where
    "get_many_chunks lib db tbl ks [] w = Some (Inr found, w')" "table_at db tbl healthy self w'"
    "view (qw_lib w') = view (qw_lib w)" "map_of found = view (qw_lib w) |` set ks" by auto
  with False assms(1) show ?thesis
    by (intro exI [of _ found] exI [of _ w']) (simp add: sqlite_get_many_def result_simps)
qed

lemma sqlite_get_many_distinct:
  assumes "table_at db tbl healthy self w" "\<forall>k\<in>set ks. length k < 2 ^ 31" "distinct ks"
  shows "\<exists>w'. sqlite_get_many lib moved_from self ks w =
    Some (Inr (map (\<lambda>k. \<lparr>bg_key = k, bg_value = view (qw_lib w) k\<rparr>) ks), w') \<and> table_at db tbl healthy self w' \<and>
    view (qw_lib w') = view (qw_lib w)"
proof -
  obtain found w' where f: "map_of found = view (qw_lib w) |` set ks" "table_at db tbl healthy self w'" "view (qw_lib w') = view (qw_lib w)"
    "sqlite_get_many lib moved_from self ks w = Some (Inr (answer_keys moved_from ks found []), w')"
    using sqlite_get_many_ok [OF assms(1,2)] by blast
  have "answer_keys moved_from ks found [] = map (\<lambda>k. \<lparr>bg_key = k, bg_value = view (qw_lib w) k\<rparr>) ks"
    using answer_keys_distinct [OF assms(3), of moved_from found "[]"] f(1) by simp
  with f(2-4) show ?thesis by simp
qed

text \<open>Asked for a key twice, it answers the second time with the value that was moved away.\<close>

lemma sqlite_get_many_twice:
  assumes "table_at db tbl healthy self w" "length k < 2 ^ 31" "view (qw_lib w) k = Some v"
  shows "\<exists>w'. sqlite_get_many lib moved_from self [k, k] w =
    Some (Inr [\<lparr>bg_key = k, bg_value = Some v\<rparr>, \<lparr>bg_key = k, bg_value = Some (moved_from v)\<rparr>], w')"
proof -
  have small: "\<forall>x\<in>set [k, k]. length x < 2 ^ 31" using assms(2) by simp
  obtain found w' where f: "map_of found = view (qw_lib w) |` set [k, k]"
    "sqlite_get_many lib moved_from self [k, k] w = Some (Inr (answer_keys moved_from [k, k] found []), w')"
    using sqlite_get_many_ok [OF assms(1) small, of moved_from] by blast
  have "map_of found k = Some v" using f(1) assms(3) by simp
  then have "answer_keys moved_from [k, k] found [] =
      [\<lparr>bg_key = k, bg_value = Some v\<rparr>, \<lparr>bg_key = k, bg_value = Some (moved_from v)\<rparr>]"
    by (simp add: update_conv')
  with f(2) show ?thesis by simp
qed

end

subsection \<open>A database with one table\<close>

text \<open>
  The laws are met by a database whose table is the ordered map of \<open>Memory_Backend\<close>, with the contents
  of the savepoints by their quoted names. The insertion of one value fails, and so does the release of a
  savepoint while another value is stored, so that a batch can be seen to fail in the middle and at its end.
\<close>

type_synonym one_table = "std_map \<times> (string \<times> std_map) list"

definition rows_of :: "std_map \<Rightarrow> string list list" where
  "rows_of m = map (\<lambda>(k, v). [k, v]) m"

definition one_table_step :: "string \<Rightarrow> string \<Rightarrow> string list \<Rightarrow> one_table \<Rightarrow> string list list \<times> bool \<times> one_table" where
  "one_table_step tbl sql ps l = (case l of (m, ms) \<Rightarrow>
     if sql = sql_get tbl then ((case map_of m (ps ! 0) of None \<Rightarrow> [] | Some v \<Rightarrow> [[v]]), True, l)
     else if sql = sql_put tbl then
       (if ps ! 1 = ''bad'' then ([], False, l) else ([], True, (map_assign (ps ! 0) (ps ! 1) m, ms)))
     else if sql = sql_del tbl then ([], True, (map_erase (ps ! 0) m, ms))
     else if sql = sql_all tbl then (rows_of m, True, l)
     else if sql = sql_from tbl then (rows_of (filter (\<lambda>kv. ps ! 0 \<le> fst kv) m), True, l)
     else if sql = sql_range tbl then (rows_of (filter (\<lambda>kv. ps ! 0 \<le> fst kv \<and> fst kv < ps ! 1) m), True, l)
     else (rows_of (filter (\<lambda>kv. fst kv \<in> set ps) m), True, l))"

definition one_table_exec :: "string \<Rightarrow> one_table \<Rightarrow> bool \<times> string option \<times> one_table" where
  "one_table_exec sql l = (case l of (m, ms) \<Rightarrow>
     if starts_with sql ''SAVEPOINT '' then (True, None, (m, (drop 10 sql, m) # ms))
     else if starts_with sql ''ROLLBACK TO '' then
       (case map_of ms (drop 12 sql) of None \<Rightarrow> (False, Some ''no such savepoint'', l) | Some saved \<Rightarrow> (True, None, (saved, ms)))
     else if starts_with sql ''RELEASE '' then
       (if map_of ms (drop 8 sql) = None then (False, Some ''no such savepoint'', l)
        else if ''busy'' \<in> snd ` set m then (False, Some ''database is locked'', l)
        else (True, None, (m, AList.delete (drop 8 sql) ms)))
     else (True, None, l))"

definition one_table_lib :: "string \<Rightarrow> one_table sqlite_lib" where
  "one_table_lib tbl = \<lparr>sq_prepare = (\<lambda>db sql l. (True, l)), sq_step_all = (\<lambda>db. one_table_step tbl),
     sq_exec = (\<lambda>db. one_table_exec), sq_errmsg = (\<lambda>db l. ''not an error''),
     sq_open = (\<lambda>path create l. (True, Some 0, l)), sq_busy_timeout = (\<lambda>db ms l. l),
     sq_close = (\<lambda>db l. l), sq_parent_path = (\<lambda>p. []), sq_create_directories = (\<lambda>p l. (None, l))\<rparr>"

definition one_table_marks :: "one_table \<Rightarrow> string \<Rightarrow> contents option" where
  "one_table_marks l sp = map_option map_of (map_of (snd l) (quote_ident sp))"

definition one_table_ok :: "one_table \<Rightarrow> bool" where
  "one_table_ok l \<longleftrightarrow> map_ok (fst l) \<and> (\<forall>m\<in>snd ` set (snd l). map_ok m)"

lemma sql_texts_differ:
  "sql_put tbl \<noteq> sql_get tbl" "sql_del tbl \<noteq> sql_get tbl" "sql_del tbl \<noteq> sql_put tbl"
  "sql_all tbl \<noteq> sql_get tbl" "sql_all tbl \<noteq> sql_put tbl" "sql_all tbl \<noteq> sql_del tbl"
  "sql_from tbl \<noteq> sql_get tbl" "sql_from tbl \<noteq> sql_put tbl" "sql_from tbl \<noteq> sql_del tbl" "sql_from tbl \<noteq> sql_all tbl"
  "sql_range tbl \<noteq> sql_get tbl" "sql_range tbl \<noteq> sql_put tbl" "sql_range tbl \<noteq> sql_del tbl"
  "sql_range tbl \<noteq> sql_all tbl" "sql_range tbl \<noteq> sql_from tbl"
  "sql_in tbl n \<noteq> sql_get tbl" "sql_in tbl n \<noteq> sql_put tbl" "sql_in tbl n \<noteq> sql_del tbl"
  "sql_in tbl n \<noteq> sql_all tbl" "sql_in tbl n \<noteq> sql_from tbl" "sql_in tbl n \<noteq> sql_range tbl"
  by (simp_all add: sql_get_def sql_put_def sql_del_def sql_all_def sql_from_def sql_range_def sql_in_def)

lemma rows_of_key_rows:
  assumes "map_ok m"
  shows "key_rows (map_of m) sel (rows_of (filter (\<lambda>kv. sel (fst kv)) m))"
  unfolding key_rows_def
proof (intro exI conjI)
  let ?kvs = "map (\<lambda>(k, v). KV k v) (filter (\<lambda>kv. sel (fst kv)) m)"
  show "rows_of (filter (\<lambda>kv. sel (fst kv)) m) = map (\<lambda>kv. [kv_key kv, kv_value kv]) ?kvs"
    by (simp add: rows_of_def case_prod_unfold)
  have "map kv_key ?kvs = map fst (filter (\<lambda>kv. sel (fst kv)) m)" by (simp add: case_prod_unfold)
  then show "sorted_wrt (<) (map kv_key ?kvs)"
    using assms by (simp only: map_ok_def sorted_wrt_map sorted_wrt_filter)
  show "set ?kvs = {KV k v | k v. map_of m k = Some v \<and> sel k}"
    using map_ok_distinct [OF assms] by (auto simp: image_iff)
qed

lemma rows_of_in_rows:
  assumes "map_ok m"
  shows "in_rows (map_of m) ks (rows_of (filter (\<lambda>kv. fst kv \<in> set ks) m))"
  unfolding in_rows_def
proof (intro exI conjI)
  let ?ps = "filter (\<lambda>kv. fst kv \<in> set ks) m"
  show "rows_of ?ps = map (\<lambda>(k, v). [k, v]) ?ps" by (simp add: rows_of_def)
  show "distinct (map fst ?ps)" using map_ok_distinct [OF assms] by (simp add: distinct_map_filter)
  show "set ?ps = {(k, v). k \<in> set ks \<and> map_of m k = Some v}"
    using map_ok_distinct [OF assms] by auto
qed

interpretation one_table: sqlite_laws "one_table_lib tbl" db tbl "\<lambda>l. map_of (fst l)" one_table_marks one_table_ok
  for db tbl
proof
  fix l :: one_table and sql k v p q ks sp m
  assume ok: "one_table_ok l"
  obtain t ms where l: "l = (t, ms)" by fastforce
  have t: "map_ok t" "\<forall>m\<in>snd ` set ms. map_ok m" using ok by (auto simp: one_table_ok_def l)
  note defs = one_table_lib_def one_table_step_def sql_texts_differ l one_table_ok_def
  show "\<exists>l'. sq_prepare (one_table_lib tbl) db sql l = (True, l') \<and> one_table_ok l' \<and> map_of (fst l') = map_of (fst l) \<and>
      one_table_marks l' = one_table_marks l" using ok by (simp add: one_table_lib_def)
  show "\<exists>l'. sq_step_all (one_table_lib tbl) db (sql_get tbl) [k] l =
      ((case map_of (fst l) k of None \<Rightarrow> [] | Some v \<Rightarrow> [[v]]), True, l') \<and> one_table_ok l' \<and> map_of (fst l') = map_of (fst l)"
    using t by (simp add: defs)
  show "\<exists>rows l'. sq_step_all (one_table_lib tbl) db (sql_all tbl) [] l = (rows, True, l') \<and>
      key_rows (map_of (fst l)) (\<lambda>k. True) rows \<and> one_table_ok l' \<and> map_of (fst l') = map_of (fst l)"
    using t rows_of_key_rows [OF t(1), of "\<lambda>k. True"] by (simp add: defs)
  show "\<exists>rows l'. sq_step_all (one_table_lib tbl) db (sql_from tbl) [p] l = (rows, True, l') \<and>
      key_rows (map_of (fst l)) (\<lambda>k. p \<le> k) rows \<and> one_table_ok l' \<and> map_of (fst l') = map_of (fst l)"
    using t rows_of_key_rows [OF t(1), of "\<lambda>k. p \<le> k"] by (simp add: defs)
  show "\<exists>rows l'. sq_step_all (one_table_lib tbl) db (sql_range tbl) [p, q] l = (rows, True, l') \<and>
      key_rows (map_of (fst l)) (\<lambda>k. p \<le> k \<and> k < q) rows \<and> one_table_ok l' \<and> map_of (fst l') = map_of (fst l)"
    using t rows_of_key_rows [OF t(1), of "\<lambda>k. p \<le> k \<and> k < q"] by (simp add: defs)
  show "\<exists>rows l'. sq_step_all (one_table_lib tbl) db (sql_in tbl (length ks)) ks l = (rows, True, l') \<and>
      in_rows (map_of (fst l)) ks rows \<and> one_table_ok l' \<and> map_of (fst l') = map_of (fst l)"
    using t rows_of_in_rows [OF t(1), of ks] by (simp add: defs)
  show "\<exists>fin l'. sq_step_all (one_table_lib tbl) db (sql_put tbl) [k, v] l = ([], fin, l') \<and> one_table_ok l' \<and>
      (if fin then one_table_marks l' = one_table_marks l \<and> map_of (fst l') = (map_of (fst l))(k \<mapsto> v)
       else undone (\<lambda>l. map_of (fst l)) one_table_marks l l')"
    using t by (cases "v = ''bad''") (auto simp: defs undone_def one_table_marks_def map_ok_assign map_of_assign fun_eq_iff)
  show "\<exists>fin l'. sq_step_all (one_table_lib tbl) db (sql_del tbl) [k] l = ([], fin, l') \<and> one_table_ok l' \<and>
      (if fin then one_table_marks l' = one_table_marks l \<and> map_of (fst l') = (map_of (fst l))(k := None)
       else undone (\<lambda>l. map_of (fst l)) one_table_marks l l')"
    using t by (intro exI [of _ True]) (auto simp: defs one_table_marks_def map_ok_erase map_of_erase fun_eq_iff)
  show "\<exists>fin msg l'. sq_exec (one_table_lib tbl) db (''SAVEPOINT '' @ quote_ident sp) l = (fin, msg, l') \<and> one_table_ok l' \<and>
      map_of (fst l') = map_of (fst l) \<and> (fin \<longrightarrow> one_table_marks l' sp = Some (map_of (fst l)))"
    using t by (intro exI [of _ True]) (simp add: one_table_lib_def one_table_exec_def l starts_with_def one_table_ok_def one_table_marks_def)
  show "\<exists>fin msg l'. sq_exec (one_table_lib tbl) db (''ROLLBACK TO '' @ quote_ident sp) l = (fin, msg, l') \<and> one_table_ok l' \<and>
      (case one_table_marks l sp of
         None \<Rightarrow> \<not> fin \<and> map_of (fst l') = map_of (fst l) \<and> one_table_marks l' = one_table_marks l
       | Some m \<Rightarrow> fin \<and> map_of (fst l') = m \<and> one_table_marks l' sp = Some m)"
  proof (cases "map_of ms (quote_ident sp)")
    case None
    with ok show ?thesis
      by (intro exI [of _ False]) (simp add: one_table_lib_def one_table_exec_def l starts_with_def one_table_marks_def)
  next
    case (Some saved)
    have "map_ok saved" using t(2) map_of_SomeD [OF Some] by force
    with Some t(2) show ?thesis
      by (intro exI [of _ True]) (simp add: one_table_lib_def one_table_exec_def l starts_with_def one_table_ok_def one_table_marks_def)
  qed
  have "\<forall>m\<in>snd ` set (AList.delete n ms). map_ok m" for n
    using t(2) by (auto simp: AList.delete_eq)
  then show "\<exists>fin msg l'. sq_exec (one_table_lib tbl) db (''RELEASE '' @ quote_ident sp) l = (fin, msg, l') \<and> one_table_ok l' \<and>
      (if fin then one_table_marks l sp \<noteq> None \<and> map_of (fst l') = map_of (fst l)
       else undone (\<lambda>l. map_of (fst l)) one_table_marks l l')"
    using t by (cases "map_of ms (quote_ident sp) = None \<or> ''busy'' \<in> snd ` set (fst l)")
      (auto simp: one_table_lib_def one_table_exec_def l starts_with_def one_table_ok_def one_table_marks_def undone_def)
qed

end
