(* ===== verification/Compression.thy ===== *)
theory Compression
  imports Stream_Contract
begin

unbundle bit_operations_syntax

text \<open>
  Per-chunk compression (\<open>include/celer/core/compression.hpp\<close>): a frame is the original size in
  four bytes, least significant first, and the body. Snappy and LZ4 are third-party libraries:
  their functions are parameters, gathered in a record whose options are \<open>None\<close> when the library
  was compiled out. \<open>lz4_compress\<close> returns the compressed bytes or the failure code's sign.
\<close>

datatype Codec = no_codec | snappy | lz4

record codec_libs =
  snappy_compress :: "(string \<Rightarrow> string) option"
  snappy_uncompress :: "string \<Rightarrow> string option"
  lz4_compress :: "(string \<Rightarrow> string option) option"
  lz4_decompress :: "string \<Rightarrow> nat \<Rightarrow> string option"

definition is_available :: "codec_libs \<Rightarrow> Codec \<Rightarrow> bool" where
  "is_available libs c = (case c of
      no_codec \<Rightarrow> True
    | snappy \<Rightarrow> snappy_compress libs \<noteq> None
    | lz4 \<Rightarrow> lz4_compress libs \<noteq> None)"

subsection \<open>The frame header\<close>

definition byte_of :: "32 word \<Rightarrow> char" where
  "byte_of v = char_of (unat v)"

definition write_le32 :: "32 word \<Rightarrow> string" where
  "write_le32 v =
     [byte_of (v AND 0xFF), byte_of (drop_bit 8 v AND 0xFF), byte_of (drop_bit 16 v AND 0xFF),
      byte_of (drop_bit 24 v AND 0xFF)]"

definition unsigned_char :: "char \<Rightarrow> 32 word" where
  "unsigned_char c = word_of_nat (of_char c)"

definition read_le32 :: "string \<Rightarrow> 32 word" where
  "read_le32 src =
     unsigned_char (src ! 0) OR push_bit 8 (unsigned_char (src ! 1))
       OR push_bit 16 (unsigned_char (src ! 2)) OR push_bit 24 (unsigned_char (src ! 3))"

lemma length_write_le32 [simp]: "length (write_le32 v) = 4"
  by (simp add: write_le32_def)

lemma and_ff: "v AND 0xFF = take_bit 8 (v :: 32 word)"
proof -
  have "(0xFF :: 32 word) = mask 8" by (simp add: mask_eq_exp_minus_1)
  then show ?thesis by (simp only: take_bit_eq_mask)
qed

lemma unsigned_char_byte_of: "unsigned_char (byte_of (take_bit 8 v)) = take_bit 8 v"
proof -
  have u: "unat (take_bit 8 v) = take_bit 8 (unat v)" by (rule unsigned_take_bit_eq)
  then have "of_char (char_of (unat (take_bit 8 v))) = unat (take_bit 8 v)"
    by (simp add: take_bit_eq_mod)
  then show ?thesis
    unfolding unsigned_char_def byte_of_def by simp
qed

lemma split_bytes:
  "take_bit 8 v OR push_bit 8 (take_bit 8 (drop_bit 8 v)) OR push_bit 16 (take_bit 8 (drop_bit 16 v))
     OR push_bit 24 (take_bit 8 (drop_bit 24 v)) = (v :: 32 word)"
proof (rule bit_word_eqI)
  fix n assume "n < LENGTH(32)"
  then have "n < 32" by simp
  then consider "n < 8" | "8 \<le> n" "n < 16" | "16 \<le> n" "n < 24" | "24 \<le> n" by linarith
  then show "bit (take_bit 8 v OR push_bit 8 (take_bit 8 (drop_bit 8 v)) OR
      push_bit 16 (take_bit 8 (drop_bit 16 v)) OR push_bit 24 (take_bit 8 (drop_bit 24 v))) n = bit v n"
    using \<open>n < 32\<close> by cases (auto simp: bit_simps)
qed

lemma read_write_le32: "read_le32 (write_le32 v @ rest) = v"
  by (simp add: read_le32_def write_le32_def and_ff unsigned_char_byte_of split_bytes)

subsection \<open>Blocks\<close>

definition compress_error :: "string \<Rightarrow> error" where "compress_error m = Error ''Compress'' m"
definition decompress_error :: "string \<Rightarrow> error" where "decompress_error m = Error ''Decompress'' m"

definition frame :: "nat \<Rightarrow> string \<Rightarrow> string" where
  "frame sz body = write_le32 (word_of_nat sz) @ body"

definition compress_block :: "codec_libs \<Rightarrow> string \<Rightarrow> Codec \<Rightarrow> string result" where
  "compress_block libs data codec =
    (let sz = length data in
     if sz > 2 ^ 32 - 1 then Inl (compress_error ''input exceeds 4 GiB frame limit'')
     else case codec of
       no_codec \<Rightarrow> Inr (frame sz data)
     | snappy \<Rightarrow> (case snappy_compress libs of
           Some f \<Rightarrow> Inr (frame sz (f data))
         | None \<Rightarrow> Inl (compress_error ''requested codec not available (compiled without support)''))
     | lz4 \<Rightarrow> (case lz4_compress libs of
           Some f \<Rightarrow>
             if sz > 2 ^ 31 - 1 then Inl (compress_error ''input exceeds LZ4 int limit'')
             else (case f data of
                 None \<Rightarrow> Inl (compress_error ''LZ4 compression failed'')
               | Some compressed \<Rightarrow> Inr (frame sz compressed))
         | None \<Rightarrow> Inl (compress_error ''requested codec not available (compiled without support)'')))"

definition max_decompress_size :: "32 word" where
  "max_decompress_size = 256 * 1024 * 1024"

definition decompress_block :: "codec_libs \<Rightarrow> string \<Rightarrow> Codec \<Rightarrow> string result" where
  "decompress_block libs data codec =
    (if length data < 4 then Inl (decompress_error ''frame too short (< 4 bytes)'')
     else let original_size = read_le32 data in
       if original_size > max_decompress_size
       then Inl (decompress_error ''claimed original size exceeds 256 MiB safety limit'')
       else let body = drop 4 data in
         case codec of
           no_codec \<Rightarrow> Inr body
         | snappy \<Rightarrow> (case snappy_compress libs of
               Some _ \<Rightarrow> (case snappy_uncompress libs body of
                   None \<Rightarrow> Inl (decompress_error ''snappy decompression failed'')
                 | Some output \<Rightarrow> Inr output)
             | None \<Rightarrow> Inl (decompress_error ''requested codec not available (compiled without support)''))
         | lz4 \<Rightarrow> (case lz4_compress libs of
               Some _ \<Rightarrow> (case lz4_decompress libs body (unat original_size) of
                   None \<Rightarrow> Inl (decompress_error ''LZ4 decompression failed'')
                 | Some output \<Rightarrow> Inr output)
             | None \<Rightarrow> Inl (decompress_error ''requested codec not available (compiled without support)'')))"

subsection \<open>Streams\<close>

record 's CompressImpl =
  cz_source :: 's
  cz_codec :: Codec

definition compress_pull :: "codec_libs \<Rightarrow> ('w, 's, char) pull \<Rightarrow> ('w, 's CompressImpl, char) pull" where
  "compress_pull libs src s w = do {
     (r, src', w') \<leftarrow> src (cz_source s) w;
     let s' = s\<lparr>cz_source := src'\<rparr>;
     (case r of
        Inl e \<Rightarrow> Some (Inl e, s', w')
      | Inr None \<Rightarrow> Some (Inr None, s', w')
      | Inr (Some chunk) \<Rightarrow> (case compress_block libs chunk (cz_codec s) of
            Inl e \<Rightarrow> Some (Inl e, s', w')
          | Inr compressed \<Rightarrow> Some (Inr (Some (chunk_from compressed)), s', w'))) }"

record 's DecompressImpl =
  dz_source :: 's
  dz_codec :: Codec

definition decompress_pull :: "codec_libs \<Rightarrow> ('w, 's, char) pull \<Rightarrow> ('w, 's DecompressImpl, char) pull" where
  "decompress_pull libs src s w = do {
     (r, src', w') \<leftarrow> src (dz_source s) w;
     let s' = s\<lparr>dz_source := src'\<rparr>;
     (case r of
        Inl e \<Rightarrow> Some (Inl e, s', w')
      | Inr None \<Rightarrow> Some (Inr None, s', w')
      | Inr (Some chunk) \<Rightarrow> (case decompress_block libs chunk (dz_codec s) of
            Inl e \<Rightarrow> Some (Inl e, s', w')
          | Inr decompressed \<Rightarrow> Some (Inr (Some (chunk_from decompressed)), s', w'))) }"

definition compress_stream :: "'s \<Rightarrow> Codec \<Rightarrow> 's CompressImpl" where
  "compress_stream source codec = \<lparr>cz_source = source, cz_codec = codec\<rparr>"

definition decompress_stream :: "'s \<Rightarrow> Codec \<Rightarrow> 's DecompressImpl" where
  "decompress_stream source codec = \<lparr>dz_source = source, dz_codec = codec\<rparr>"

subsection \<open>Round trips\<close>

text \<open>
  What the libraries document: decompression inverts compression; a compressed block is at most
  a constant and a sixth longer than its input, and LZ4 does not fail with a destination of
  \<open>LZ4_compressBound\<close> bytes. The last two are stated for the blocks the frame format admits.
\<close>

definition libs_ok :: "codec_libs \<Rightarrow> bool" where
  "libs_ok libs \<longleftrightarrow>
     (\<forall>f x. snappy_compress libs = Some f \<longrightarrow> snappy_uncompress libs (f x) = Some x \<and>
        (length x \<le> 268435456 \<longrightarrow> length (f x) < 2 ^ 31)) \<and>
     (\<forall>f x. lz4_compress libs = Some f \<longrightarrow>
        (length x \<le> 268435456 \<longrightarrow> f x \<noteq> None) \<and>
        (\<forall>y. f x = Some y \<longrightarrow> lz4_decompress libs y (length x) = Some x \<and>
          (length x \<le> 268435456 \<longrightarrow> length y < 2 ^ 31)))"

lemma read_frame: "length data < 2 ^ 32 \<Longrightarrow> unat (read_le32 (frame (length data) body)) = length data"
  by (simp add: frame_def read_write_le32 unat_of_nat)

lemma drop_frame [simp]: "drop 4 (frame n body) = body"
  by (simp add: frame_def)

lemma max_size_unat: "unat max_decompress_size = 268435456"
  by (simp add: max_decompress_size_def)

lemma decompress_compress:
  assumes "libs_ok libs" "length data \<le> 268435456" "compress_block libs data codec = Inr framed"
  shows "decompress_block libs framed codec = Inr data"
proof -
  obtain body where framed: "framed = frame (length data) body"
    using assms(3) by (auto simp: compress_block_def Let_def split: Codec.splits option.splits if_splits)
  have size: "unat (read_le32 framed) = length data"
    using assms(2) framed by (simp add: read_frame)
  then have "\<not> max_decompress_size < read_le32 framed"
    using assms(2) by (simp add: word_less_nat_alt max_size_unat)
  moreover have "\<not> length framed < 4" by (simp add: framed frame_def)
  ultimately show ?thesis
    using assms(1,3) size
    by (cases codec) (auto simp: decompress_block_def compress_block_def Let_def framed frame_def libs_ok_def
        split: option.splits if_splits)
qed

lemma compress_available:
  assumes "libs_ok libs" "is_available libs codec" "length data \<le> 268435456"
  obtains framed where "compress_block libs data codec = Inr framed" "length framed < 2 ^ 32"
proof (cases codec)
  case no_codec
  with assms(3) that show thesis by (simp add: compress_block_def Let_def frame_def)
next
  case snappy
  with assms(2) obtain f where f: "snappy_compress libs = Some f" by (auto simp: is_available_def)
  with assms(1,3) have "length (f data) < 2 ^ 31" by (auto simp: libs_ok_def)
  with that snappy f assms(3) show thesis by (simp add: compress_block_def Let_def frame_def)
next
  case lz4
  with assms(2) obtain f where f: "lz4_compress libs = Some f" by (auto simp: is_available_def)
  with assms(1,3) obtain y where "f data = Some y" "length y < 2 ^ 31"
    unfolding libs_ok_def by blast
  with that lz4 f assms(3) show thesis by (simp add: compress_block_def Let_def frame_def)
qed

text \<open>\<open>decompress(compress(s, c), c)\<close> yields the chunks of \<open>s\<close>.\<close>

lemma compressed_stream_roundtrip:
  assumes "yields src s w cs out s' w'" "libs_ok libs" "is_available libs codec"
    and "list_all (\<lambda>c. length c \<le> 268435456) cs"
  shows "yields (decompress_pull libs (compress_pull libs src))
    (decompress_stream (compress_stream s codec) codec) w cs out
    (decompress_stream (compress_stream s' codec) codec) w'"
  using assms(1,4)
proof (induction rule: yields.induct)
  case (yields_chunk s w c s1 w1 cs out s' w')
  have c: "length c \<le> 268435456" using yields_chunk.prems by simp
  obtain framed where framed: "compress_block libs c codec = Inr framed" "length framed < 2 ^ 32"
    using compress_available [OF assms(2,3) c] .
  have "decompress_block libs framed codec = Inr c"
    using decompress_compress [OF assms(2) c framed(1)] .
  with framed c yields_chunk.hyps(1)
  have "decompress_pull libs (compress_pull libs src) (decompress_stream (compress_stream s codec) codec) w =
      Some (Inr (Some c), decompress_stream (compress_stream s1 codec) codec, w1)"
    by (simp add: decompress_pull_def compress_pull_def decompress_stream_def compress_stream_def
        Let_def chunk_from_small)
  from yields.yields_chunk [of "decompress_pull libs (compress_pull libs src)", OF this] yields_chunk
  show ?case by simp
qed (auto intro!: yields.intros simp: decompress_pull_def compress_pull_def decompress_stream_def
    compress_stream_def Let_def)

text \<open>An error of the decompressor is an error value, never an answer.\<close>

lemma decompress_short: "length data < 4 \<Longrightarrow>
    decompress_block libs data codec = Inl (decompress_error ''frame too short (< 4 bytes)'')"
  by (simp add: decompress_block_def)

lemma decompress_limit:
  "4 \<le> length data \<Longrightarrow> 268435456 < unat (read_le32 data) \<Longrightarrow>
    decompress_block libs data codec =
      Inl (decompress_error ''claimed original size exceeds 256 MiB safety limit'')"
  by (simp add: decompress_block_def Let_def word_less_nat_alt max_size_unat)

text \<open>
  Without a codec the claimed size is not compared with the body, so a frame with a truncated
  body is accepted.
\<close>

lemma uncompressed_size_unchecked:
  "unat (read_le32 (write_le32 n)) \<le> 268435456 \<Longrightarrow>
    decompress_block libs (write_le32 n @ body) no_codec = Inr body"
  using read_write_le32 [of n "[]"] read_write_le32 [of n body]
  by (simp add: decompress_block_def Let_def word_less_nat_alt max_size_unat)

end
