(* ===== verification/Mat_Codec.thy ===== *)
theory Mat_Codec
  imports Compression
begin

unbundle bit_operations_syntax

text \<open>
  Codecs, key hashes and composite keys of the materialization layer
  (\<open>include/celer/materialization/codec.hpp\<close>), on top of \<open>Codec<T>\<close>
  (\<open>include/celer/serde/codec.hpp\<close>). The value codecs of user types are parameters; the machine
  is little-endian, so the bytes of a length are those of \<open>write_le32\<close>.
\<close>

subsection \<open>Codecs\<close>

record 'a codec =
  cd_encode :: "'a \<Rightarrow> string result"
  cd_decode :: "string \<Rightarrow> 'a result"

definition string_codec :: "string codec" where
  "string_codec = \<lparr>cd_encode = (\<lambda>v. Inr v), cd_decode = (\<lambda>b. Inr b)\<rparr>"

text \<open>The hooks \<open>mat_to_bytes\<close> and \<open>mat_from_bytes\<close> of a type go before its \<open>Codec<T>\<close>.\<close>

definition mat_codec :: "('a \<Rightarrow> string) option \<Rightarrow> (string \<Rightarrow> 'a option) option \<Rightarrow> 'a codec \<Rightarrow> 'a codec" where
  "mat_codec adl_to adl_from base =
    \<lparr>cd_encode = (\<lambda>v. case adl_to of
        Some mat_to_bytes \<Rightarrow> Inr (mat_to_bytes v)
      | None \<Rightarrow> cd_encode base v),
     cd_decode = (\<lambda>bytes. case adl_from of
        Some mat_from_bytes \<Rightarrow> (case mat_from_bytes bytes of
            None \<Rightarrow> Err ''MatCodecDecode'' ''ADL decode rejected bytes''
          | Some v \<Rightarrow> Inr v)
      | None \<Rightarrow> cd_decode base bytes)\<rparr>"

definition codec_ok :: "'a codec \<Rightarrow> bool" where
  "codec_ok cd \<longleftrightarrow> (\<forall>v s. cd_encode cd v = Inr s \<longrightarrow> cd_decode cd s = Inr v)"

lemma string_codec_ok: "codec_ok string_codec"
  by (simp add: codec_ok_def string_codec_def)

lemma mat_codec_ok:
  assumes "adl_to = None \<longleftrightarrow> adl_from = None" "codec_ok base"
    and "\<And>f g v. adl_to = Some f \<Longrightarrow> adl_from = Some g \<Longrightarrow> g (f v) = Some v"
  shows "codec_ok (mat_codec adl_to adl_from base)"
  using assms(1,2) assms(3) [of "the adl_to" "the adl_from"]
  by (cases adl_to; cases adl_from) (simp_all add: codec_ok_def mat_codec_def)

subsection \<open>FNV-1a\<close>

definition fnv_offset :: "64 word" where "fnv_offset = 0xcbf29ce484222325"
definition fnv_prime :: "64 word" where "fnv_prime = 0x100000001b3"

fun fnv_loop :: "64 word \<Rightarrow> string \<Rightarrow> 64 word" where
  "fnv_loop h [] = h"
| "fnv_loop h (c # cs) = fnv_loop ((h XOR word_of_nat (of_char c)) * fnv_prime) cs"

definition fnv1a64 :: "string \<Rightarrow> 64 word" where
  "fnv1a64 bytes = fnv_loop fnv_offset bytes"

subsection \<open>Keys\<close>

record Key =
  key_bytes :: string
  key_hash :: "64 word"

definition make_key :: "string \<Rightarrow> Key" where
  "make_key b = \<lparr>key_bytes = b, key_hash = fnv1a64 b\<rparr>"

definition key_eq :: "Key \<Rightarrow> Key \<Rightarrow> bool" where
  "key_eq a b \<longleftrightarrow> key_hash a = key_hash b \<and> key_bytes a = key_bytes b"

lemma key_eq_iff: "key_eq a b \<longleftrightarrow> a = b"
  by (cases a; cases b) (auto simp: key_eq_def)

lemma make_key_inject [simp]: "make_key a = make_key b \<longleftrightarrow> a = b"
  by (auto simp: make_key_def)

subsection \<open>Composite keys\<close>

record CompositeKey =
  ckey_bytes :: string
  ckey_hash :: "64 word"

text \<open>\<open>make\<close> on parts that were encoded or failed to be.\<close>

fun append_parts :: "string \<Rightarrow> string result list \<Rightarrow> string result" where
  "append_parts out [] = Inr out"
| "append_parts out (enc # parts) = (case enc of
      Inl e \<Rightarrow> Inl e
    | Inr b \<Rightarrow> (let n = word_of_nat (length b) :: 32 word in append_parts (out @ write_le32 n @ b) parts))"

definition make_composite_key :: "string result list \<Rightarrow> CompositeKey result" where
  "make_composite_key parts = (case append_parts [] parts of
      Inl e \<Rightarrow> Inl e
    | Inr bytes \<Rightarrow> Inr \<lparr>ckey_bytes = bytes, ckey_hash = fnv1a64 bytes\<rparr>)"

definition to_key :: "CompositeKey \<Rightarrow> Key" where
  "to_key ck = \<lparr>key_bytes = ckey_bytes ck, key_hash = ckey_hash ck\<rparr>"

lemma append_parts_ok:
  "append_parts out (map Inr bs) = Inr (out @ concat (map (\<lambda>b. frame (length b) b) bs))"
  by (induction bs arbitrary: out) (simp_all add: frame_def)

lemma append_parts_error:
  "append_parts out (map Inr bs @ Inl e # parts) = Inl e"
  by (induction bs arbitrary: out) simp_all

lemma frame_append_inject:
  assumes "length a < 2 ^ 32" "length b < 2 ^ 32" "frame (length a) a @ xs = frame (length b) b @ ys"
  shows "a = b \<and> xs = ys"
proof -
  from assms(3) have "write_le32 (word_of_nat (length a)) @ a @ xs = write_le32 (word_of_nat (length b)) @ b @ ys"
    by (simp add: frame_def)
  then have w: "write_le32 (word_of_nat (length a)) = write_le32 (word_of_nat (length b))" and r: "a @ xs = b @ ys"
    by (simp_all add: append_eq_append_conv)
  from w have "word_of_nat (length a) = (word_of_nat (length b) :: 32 word)"
    by (metis append_Nil2 read_write_le32)
  then have "unat (word_of_nat (length a) :: 32 word) = unat (word_of_nat (length b) :: 32 word)" by simp
  with assms(1,2) have "length a = length b" by (simp add: unat_of_nat)
  with r show ?thesis by simp
qed

lemma frames_inject:
  assumes "concat (map (\<lambda>b. frame (length b) b) as) = concat (map (\<lambda>b. frame (length b) b) bs)"
    and "\<And>a. a \<in> set as \<Longrightarrow> length a < 2 ^ 32" "\<And>b. b \<in> set bs \<Longrightarrow> length b < 2 ^ 32"
  shows "as = bs"
  using assms
proof (induction as arbitrary: bs)
  case Nil
  then show ?case by (cases bs) (simp_all add: frame_def write_le32_def)
next
  case (Cons a as)
  then obtain b bs' where bs: "bs = b # bs'"
    by (cases bs) (simp_all add: frame_def write_le32_def)
  with Cons.prems have "a = b \<and> concat (map (\<lambda>b. frame (length b) b) as) = concat (map (\<lambda>b. frame (length b) b) bs')"
    by (intro frame_append_inject) simp_all
  with Cons bs show ?case by simp
qed

text \<open>
  Different columns give different keys: the length prefixes keep \<open>(ab, c)\<close> and \<open>(a, bc)\<close> apart.
\<close>

lemma composite_key_inject:
  assumes "make_composite_key (map Inr as) = Inr ka" "make_composite_key (map Inr bs) = Inr kb"
    and "\<And>a. a \<in> set as \<Longrightarrow> length a < 2 ^ 32" "\<And>b. b \<in> set bs \<Longrightarrow> length b < 2 ^ 32"
    and "key_eq (to_key ka) (to_key kb)"
  shows "as = bs"
  using assms frames_inject [of as bs]
  by (auto simp: make_composite_key_def append_parts_ok to_key_def key_eq_iff)

end
