(* ===== verification/Store_Ref.thy ===== *)
theory Store_Ref
  imports Mat_Codec Api
begin

text \<open>
  Typed views of a table (\<open>include/celer/materialization/store_ref.hpp\<close>) and the stream that
  decodes its records. The capability and cost descriptors are those the planner reads; the
  floating-point costs of \<open>CostHint\<close> are never read and are left out.
\<close>

subsection \<open>Descriptors\<close>

datatype CostTier = Local | Embedded | Network | Computed

record StoreCapabilities =
  caps_native_batch_get :: bool
  caps_native_streaming :: bool
  caps_ordered_scan :: bool
  caps_supports_atomic_batch :: bool
  caps_cost_tier :: CostTier

definition default_caps :: StoreCapabilities where
  "default_caps = \<lparr>caps_native_batch_get = False, caps_native_streaming = True,
     caps_ordered_scan = True, caps_supports_atomic_batch = True, caps_cost_tier = Local\<rparr>"

record ScanOptions =
  so_prefix :: string
  so_lower :: "string option"
  so_upper :: "string option"
  so_page_size :: nat
  so_limit :: nat

definition default_scan :: ScanOptions where
  "default_scan = \<lparr>so_prefix = [], so_lower = None, so_upper = None, so_page_size = 1024, so_limit = 0\<rparr>"

record 'a Record =
  rec_key :: string
  rec_value :: 'a

abbreviation Rec :: "string \<Rightarrow> 'a \<Rightarrow> 'a Record" where
  "Rec k v \<equiv> \<lparr>rec_key = k, rec_value = v\<rparr>"

subsection \<open>The decoding stream\<close>

record 's DecodeKVImpl =
  dk_source :: 's
  dk_limit_remaining :: nat
  dk_has_limit :: bool

text \<open>The builder: the first \<open>cap\<close> pairs, up to the first that does not decode.\<close>

fun decode_build :: "'a codec \<Rightarrow> KVPair list \<Rightarrow> 'a Record list \<Rightarrow> 'a Record list result" where
  "decode_build cd [] out = Inr out"
| "decode_build cd (kv # kvs) out = (case cd_decode cd (kv_value kv) of
      Inl e \<Rightarrow> Inl e
    | Inr v \<Rightarrow> decode_build cd kvs (out @ [Rec (kv_key kv) v]))"

definition decode_pull :: "'a codec \<Rightarrow> ('w, 's, KVPair) pull \<Rightarrow> ('w, 's DecodeKVImpl, 'a Record) pull" where
  "decode_pull cd src s w =
     (if dk_has_limit s \<and> dk_limit_remaining s = 0 then Some (Inr None, s, w)
      else do {
        (r, src', w') \<leftarrow> src (dk_source s) w;
        let s' = s\<lparr>dk_source := src'\<rparr>;
        (case r of
           Inl e \<Rightarrow> Some (Inl e, s', w')
         | Inr None \<Rightarrow> Some (Inr None, s', w')
         | Inr (Some kvs) \<Rightarrow>
             let cap = (if dk_has_limit s \<and> length kvs > dk_limit_remaining s
                        then dk_limit_remaining s else length kvs) in
             (case decode_build cd (take cap kvs) [] of
                Inl e \<Rightarrow> Some (Inl e, s', w')
              | Inr chunk \<Rightarrow>
                  let s2 = (if dk_has_limit s
                            then s'\<lparr>dk_limit_remaining := dk_limit_remaining s - length chunk\<rparr> else s') in
                  if chunk = [] then Some (Inr None, s2, w') else Some (Inr (Some chunk), s2, w'))) })"

subsection \<open>Store references\<close>

text \<open>\<open>sref_handle\<close> is \<open>None\<close> for a default-constructed reference; calling it is undefined.\<close>

record 'w StoreRef =
  sref_handle :: "'w BackendHandle option"
  sref_name :: string

definition sref_of_table :: "'w TableRef \<Rightarrow> 'w StoreRef" where
  "sref_of_table t = \<lparr>sref_handle = Some (tr_handle t), sref_name = tr_table_name t\<rparr>"

definition sref_capabilities :: "'w StoreRef \<Rightarrow> StoreCapabilities" where
  "sref_capabilities r = (case sref_handle r of
      None \<Rightarrow> default_caps
    | Some h \<Rightarrow> default_caps\<lparr>caps_native_batch_get := handle_native_batch_get h\<rparr>)"

definition deref :: "'w StoreRef \<Rightarrow> ('w BackendHandle \<Rightarrow> ('w, 'a) io) \<Rightarrow> ('w, 'a) io" where
  "deref r f = (case sref_handle r of None \<Rightarrow> (\<lambda>_. None) | Some h \<Rightarrow> f h)"

definition sref_get :: "'a codec \<Rightarrow> 'w StoreRef \<Rightarrow> string \<Rightarrow> ('w, 'a option) io" where
  "sref_get cd r key = deref r (\<lambda>h. io_bind (handle_get h key) (\<lambda>raw. case raw of
      None \<Rightarrow> io_return None
    | Some b \<Rightarrow> io_bind (io_lift (cd_decode cd b)) (\<lambda>v. io_return (Some v))))"

definition sref_put :: "'a codec \<Rightarrow> 'w StoreRef \<Rightarrow> string \<Rightarrow> 'a \<Rightarrow> ('w, unit) io" where
  "sref_put cd r key val =
     io_bind (io_lift (cd_encode cd val)) (\<lambda>enc. deref r (\<lambda>h. handle_put h key enc))"

definition sref_del :: "'w StoreRef \<Rightarrow> string \<Rightarrow> ('w, unit) io" where
  "sref_del r key = deref r (\<lambda>h. handle_del h key)"

fun decode_items :: "'a codec \<Rightarrow> BatchGetItem list \<Rightarrow> (string \<times> 'a option) list \<Rightarrow>
    (string \<times> 'a option) list result" where
  "decode_items cd [] out = Inr out"
| "decode_items cd (item # items) out = (case bg_value item of
      None \<Rightarrow> decode_items cd items (out @ [(bg_key item, None)])
    | Some b \<Rightarrow> (case cd_decode cd b of
        Inl e \<Rightarrow> Inl e
      | Inr v \<Rightarrow> decode_items cd items (out @ [(bg_key item, Some v)])))"

definition sref_get_many :: "'a codec \<Rightarrow> 'w StoreRef \<Rightarrow> string list \<Rightarrow> ('w, (string \<times> 'a option) list) io" where
  "sref_get_many cd r keys = deref r (\<lambda>h.
     io_bind (handle_get_many h keys) (\<lambda>raw. io_lift (decode_items cd raw [])))"

fun encode_ops :: "'a codec \<Rightarrow> string \<Rightarrow> (string \<times> 'a) list \<Rightarrow> BatchOp list \<Rightarrow> BatchOp list result" where
  "encode_ops cd nm [] ops = Inr ops"
| "encode_ops cd nm ((k, v) # items) ops = (case cd_encode cd v of
      Inl e \<Rightarrow> Inl e
    | Inr enc \<Rightarrow> encode_ops cd nm items
        (ops @ [\<lparr>op_kind = put_kind, op_cf_name = nm, op_key = k, op_value = Some enc\<rparr>]))"

definition sref_put_many :: "'a codec \<Rightarrow> 'w StoreRef \<Rightarrow> (string \<times> 'a) list \<Rightarrow> ('w, unit) io" where
  "sref_put_many cd r items = io_bind (io_lift (encode_ops cd (sref_name r) items []))
     (\<lambda>ops. deref r (\<lambda>h. handle_batch h ops))"

type_synonym 'w RecordSource = "('w, KVPair) StreamHandle DecodeKVImpl"

definition sref_stream_scan :: "'w StoreRef \<Rightarrow> ScanOptions \<Rightarrow> ('w, 'w RecordSource) io" where
  "sref_stream_scan r opts = deref r (\<lambda>h. io_bind (handle_stream_scan h (so_prefix opts)) (\<lambda>src.
     io_return \<lparr>dk_source = src, dk_limit_remaining = so_limit opts, dk_has_limit = (so_limit opts > 0)\<rparr>))"

definition sref_stream_all :: "'w StoreRef \<Rightarrow> ('w, 'w RecordSource) io" where
  "sref_stream_all r = sref_stream_scan r default_scan"

abbreviation source_pull :: "'a codec \<Rightarrow> ('w, 'w RecordSource, 'a Record) pull" where
  "source_pull cd \<equiv> decode_pull cd stream_pull"

subsection \<open>Laws\<close>

lemma decode_build_ok:
  "(\<And>kv. kv \<in> set kvs \<Longrightarrow> cd_decode cd (kv_value kv) = Inr (f kv)) \<Longrightarrow>
    decode_build cd kvs out = Inr (out @ map (\<lambda>kv. Rec (kv_key kv) (f kv)) kvs)"
  by (induction kvs arbitrary: out) simp_all

lemma decode_items_ok:
  "(\<And>item b. item \<in> set items \<Longrightarrow> bg_value item = Some b \<Longrightarrow> cd_decode cd b = Inr (f b)) \<Longrightarrow>
    decode_items cd items out = Inr (out @ map (\<lambda>item. (bg_key item, map_option f (bg_value item))) items)"
proof (induction items arbitrary: out)
  case (Cons item items)
  have "decode_items cd items out = Inr (out @ map (\<lambda>item. (bg_key item, map_option f (bg_value item))) items)" for out
    using Cons.prems by (intro Cons.IH) auto
  then show ?case
    using Cons.prems [of item] by (cases "bg_value item") simp_all
qed simp

lemma encode_ops_ok:
  "(\<And>k v. (k, v) \<in> set items \<Longrightarrow> cd_encode cd v = Inr (f v)) \<Longrightarrow>
    encode_ops cd nm items ops = Inr (ops @ map (\<lambda>(k, v). \<lparr>op_kind = put_kind, op_cf_name = nm,
      op_key = k, op_value = Some (f v)\<rparr>) items)"
proof (induction items arbitrary: ops)
  case (Cons item items)
  obtain k v where item: "item = (k, v)" by fastforce
  then have enc: "cd_encode cd v = Inr (f v)" by (intro Cons.prems [of k]) simp
  have "encode_ops cd nm items ops = Inr (ops @ map (\<lambda>(k, v). \<lparr>op_kind = put_kind, op_cf_name = nm,
      op_key = k, op_value = Some (f v)\<rparr>) items)" for ops
    using Cons.prems by (intro Cons.IH) auto
  then show ?case by (simp add: item enc)
qed simp

text \<open>
  The decoding stream over a source of non-empty chunks delivers the decoded records in order,
  cut at the limit. A chunk of the source that is empty ends it: the decoder reports the end
  of the stream, so what follows the empty chunk is not read.
\<close>

lemma decode_yields:
  assumes "yields src s w cs None s' w'" "[] \<notin> set cs"
    and "\<forall>kv\<in>set (concat cs). cd_decode cd (kv_value kv) = Inr (f kv)"
  shows "yields (decode_pull cd src) \<lparr>dk_source = s, dk_limit_remaining = n, dk_has_limit = False\<rparr> w
    (map (map (\<lambda>kv. Rec (kv_key kv) (f kv))) cs) None
    \<lparr>dk_source = s', dk_limit_remaining = n, dk_has_limit = False\<rparr> w'"
  using assms
proof (induction s w cs "None :: error option" s' w' rule: yields.induct)
  case (yields_done s w s' w')
  then show ?case by (auto intro!: yields.yields_done simp: decode_pull_def)
next
  case (yields_chunk s w c s1 w1 cs s' w')
  have "decode_build cd c [] = Inr (map (\<lambda>kv. Rec (kv_key kv) (f kv)) c)"
    using yields_chunk.prems(2) by (subst decode_build_ok [of c cd f]) auto
  with yields_chunk.hyps(1) yields_chunk.prems(1)
  have "decode_pull cd src \<lparr>dk_source = s, dk_limit_remaining = n, dk_has_limit = False\<rparr> w =
      Some (Inr (Some (map (\<lambda>kv. Rec (kv_key kv) (f kv)) c)),
        \<lparr>dk_source = s1, dk_limit_remaining = n, dk_has_limit = False\<rparr>, w1)"
    by (auto simp: decode_pull_def Let_def)
  from yields.yields_chunk [of "decode_pull cd src", OF this] yields_chunk
  show ?case by simp
qed

lemma decode_empty_chunk_ends:
  "src (dk_source s) w = Some (Inr (Some []), s1, w1) \<Longrightarrow> \<not> dk_has_limit s \<Longrightarrow>
    decode_pull cd src s w = Some (Inr None, s\<lparr>dk_source := s1\<rparr>, w1)"
  by (simp add: decode_pull_def Let_def)

end
