(* ===== verification/Materialize.thy ===== *)
theory Materialize
  imports Store_Ref Memory_Backend
begin

unbundle bit_operations_syntax

text \<open>
  \<open>materialize\<close> (\<open>include/celer/materialization/materialize.hpp\<close>): the records of a stream are
  written to a target store in batches, in one of five modes. The watermark of the delta mode is
  encoded by hand in the code and read back at the start of the next run.

  The clock is a parameter that reads the world: nanoseconds as an integer. The source is taken
  by value and dropped at the end, so its final state does not appear.
\<close>

subsection \<open>Options and results\<close>

datatype MaterializeMode = Append | Upsert | Replace | Delta | DryRun

record MaterializeOptions =
  mo_mode :: MaterializeMode
  mo_flush_batch_size :: nat
  mo_replace_prefix :: string
  mo_watermark_table :: string
  mo_watermark_id :: string

definition default_materialize_options :: MaterializeOptions where
  "default_materialize_options = \<lparr>mo_mode = Upsert, mo_flush_batch_size = 1024,
     mo_replace_prefix = [], mo_watermark_table = [], mo_watermark_id = []\<rparr>"

record ExecutionMetrics =
  em_rows_in :: nat
  em_rows_out :: nat
  em_flushes :: nat
  em_bytes_written :: nat
  em_elapsed :: int

record MaterializeResult =
  mr_rows_written :: nat
  mr_last_key :: string
  mr_metrics :: ExecutionMetrics

subsection \<open>Watermarks\<close>

record WatermarkRecord =
  wm_view_id :: string
  wm_last_key :: string
  wm_timestamp_us :: "64 word"

definition watermark_key :: "string \<Rightarrow> string" where
  "watermark_key view_id = ''_celer_watermark/'' @ view_id"

definition write_le64 :: "64 word \<Rightarrow> string" where
  "write_le64 v = write_le32 (ucast v) @ write_le32 (ucast (drop_bit 32 v))"

definition read_le64 :: "string \<Rightarrow> 64 word" where
  "read_le64 src = ucast (read_le32 src) OR push_bit 32 (ucast (read_le32 (drop 4 src)))"

definition encode_watermark :: "WatermarkRecord \<Rightarrow> string" where
  "encode_watermark r =
    (let l1 = word_of_nat (length (wm_view_id r)) :: 32 word;
         l2 = word_of_nat (length (wm_last_key r)) :: 32 word in
     write_le64 (wm_timestamp_us r) @ write_le32 l1 @ wm_view_id r @ write_le32 l2 @ wm_last_key r)"

definition decode_watermark :: "string \<Rightarrow> WatermarkRecord result" where
  "decode_watermark bytes =
    (if length bytes < 8 + 4 + 4 then Err ''WatermarkDecode'' ''truncated''
     else let timestamp_us = read_le64 bytes; off = 8;
              l1 = unat (read_le32 (drop off bytes)); off = off + 4 in
       if off + l1 > length bytes then Err ''WatermarkDecode'' ''view_id overflow''
       else let view_id = take l1 (drop off bytes); off = off + l1 in
         if off + 4 > length bytes then Err ''WatermarkDecode'' ''missing last_key length''
         else let l2 = unat (read_le32 (drop off bytes)); off = off + 4 in
           if off + l2 > length bytes then Err ''WatermarkDecode'' ''last_key overflow''
           else Inr \<lparr>wm_view_id = view_id, wm_last_key = take l2 (drop off bytes),
                     wm_timestamp_us = timestamp_us\<rparr>)"

subsection \<open>The write loop\<close>

record MatState =
  ms_pending :: "BatchOp list"
  ms_rows_in :: nat
  ms_rows_out :: nat
  ms_flushes :: nat
  ms_bytes :: nat
  ms_last_key :: string

definition mat_start :: MatState where
  "mat_start = \<lparr>ms_pending = [], ms_rows_in = 0, ms_rows_out = 0, ms_flushes = 0, ms_bytes = 0, ms_last_key = []\<rparr>"

definition put_op :: "string \<Rightarrow> string \<Rightarrow> string \<Rightarrow> BatchOp" where
  "put_op nm k v = \<lparr>op_kind = put_kind, op_cf_name = nm, op_key = k, op_value = Some v\<rparr>"

definition del_op :: "string \<Rightarrow> string \<Rightarrow> BatchOp" where
  "del_op nm k = \<lparr>op_kind = del_kind, op_cf_name = nm, op_key = k, op_value = None\<rparr>"

definition mat_flush :: "'w BackendHandle \<Rightarrow> MaterializeOptions \<Rightarrow> MatState \<Rightarrow> ('w, MatState) io" where
  "mat_flush h opts st =
    (if ms_pending st = [] then io_return st
     else io_bind (if mo_mode opts \<noteq> DryRun then handle_batch h (ms_pending st) else io_return ())
       (\<lambda>_. io_return (st\<lparr>ms_flushes := ms_flushes st + 1, ms_pending := []\<rparr>)))"

definition delta_skips :: "MaterializeOptions \<Rightarrow> string \<Rightarrow> string \<Rightarrow> bool" where
  "delta_skips opts delta_floor k \<longleftrightarrow> mo_mode opts = Delta \<and> delta_floor \<noteq> [] \<and> k \<le> delta_floor"

definition mat_emit :: "string \<Rightarrow> string \<Rightarrow> string \<Rightarrow> MatState \<Rightarrow> MatState" where
  "mat_emit nm k enc st = st\<lparr>ms_pending := ms_pending st @ [put_op nm k enc],
     ms_rows_out := ms_rows_out st + 1, ms_bytes := ms_bytes st + length enc,
     ms_last_key := (if k > ms_last_key st then k else ms_last_key st)\<rparr>"

fun mat_rows :: "'w BackendHandle \<Rightarrow> string \<Rightarrow> 'a codec \<Rightarrow> ('a Record \<Rightarrow> string result) \<Rightarrow>
    MaterializeOptions \<Rightarrow> string \<Rightarrow> 'a Record list \<Rightarrow> MatState \<Rightarrow> ('w, MatState) io" where
  "mat_rows h nm cd keyfn opts delta_floor [] st = io_return st"
| "mat_rows h nm cd keyfn opts delta_floor (rec # recs) st =
    (let st1 = st\<lparr>ms_rows_in := ms_rows_in st + 1\<rparr> in
     case keyfn rec of
       Inl e \<Rightarrow> io_throw e
     | Inr k \<Rightarrow>
         if delta_skips opts delta_floor k then mat_rows h nm cd keyfn opts delta_floor recs st1
         else (case cd_encode cd (rec_value rec) of
             Inl e \<Rightarrow> io_throw e
           | Inr enc \<Rightarrow> (let st2 = mat_emit nm k enc st1 in
               if length (ms_pending st2) \<ge> mo_flush_batch_size opts
               then io_bind (mat_flush h opts st2) (mat_rows h nm cd keyfn opts delta_floor recs)
               else mat_rows h nm cd keyfn opts delta_floor recs st2)))"

partial_function (option) mat_loop :: "('w, 's, 'a Record) pull \<Rightarrow> 'w BackendHandle \<Rightarrow> string \<Rightarrow> 'a codec \<Rightarrow>
    ('a Record \<Rightarrow> string result) \<Rightarrow> MaterializeOptions \<Rightarrow> string \<Rightarrow> 's \<Rightarrow> MatState \<Rightarrow> 'w \<Rightarrow>
    (MatState result \<times> 'w) option" where
  "mat_loop src h nm cd keyfn opts delta_floor s st w = do {
     (r, s', w1) \<leftarrow> src s w;
     (case r of
        Inl e \<Rightarrow> Some (Inl e, w1)
      | Inr None \<Rightarrow> Some (Inr st, w1)
      | Inr (Some chunk) \<Rightarrow> do {
          (r2, w2) \<leftarrow> mat_rows h nm cd keyfn opts delta_floor chunk st w1;
          (case r2 of
             Inl e \<Rightarrow> Some (Inl e, w2)
           | Inr st' \<Rightarrow> mat_loop src h nm cd keyfn opts delta_floor s' st' w2) }) }"

subsection \<open>The five modes\<close>

definition replace_prelude :: "'w BackendHandle \<Rightarrow> string \<Rightarrow> MaterializeOptions \<Rightarrow> ('w, unit) io" where
  "replace_prelude h nm opts =
    (if mo_mode opts = Replace then
       io_bind (handle_prefix_scan h (mo_replace_prefix opts)) (\<lambda>existing.
         if existing = [] then io_return ()
         else handle_batch h (map (\<lambda>kv. del_op nm (kv_key kv)) existing))
     else io_return ())"

text \<open>A watermark that does not decode counts as no watermark.\<close>

definition read_floor :: "'w BackendHandle \<Rightarrow> MaterializeOptions \<Rightarrow> ('w, string) io" where
  "read_floor h opts =
    (if mo_mode opts = Delta then
       (if mo_watermark_id opts = []
        then io_throw (Error ''MaterializeDelta'' ''watermark_id required for Delta mode'')
        else io_bind (handle_get h (watermark_key (mo_watermark_id opts))) (\<lambda>raw. case raw of
            None \<Rightarrow> io_return []
          | Some bytes \<Rightarrow> (case decode_watermark bytes of
                Inl e \<Rightarrow> io_return []
              | Inr rec \<Rightarrow> io_return (wm_last_key rec))))
     else io_return [])"

text \<open>\<open>duration_cast\<close> from nanoseconds to microseconds truncates towards zero.\<close>

definition to_micros :: "int \<Rightarrow> int" where
  "to_micros ns = (if ns \<ge> 0 then ns div 1000 else - ((- ns) div 1000))"

definition advance_watermark :: "('w \<Rightarrow> int) \<Rightarrow> 'w BackendHandle \<Rightarrow> MaterializeOptions \<Rightarrow> MatState \<Rightarrow> ('w, unit) io" where
  "advance_watermark now h opts st w =
    (if mo_mode opts = Delta \<and> ms_last_key st \<noteq> [] then
       handle_put h (watermark_key (mo_watermark_id opts))
         (encode_watermark \<lparr>wm_view_id = mo_watermark_id opts, wm_last_key = ms_last_key st,
            wm_timestamp_us = word_of_int (to_micros (now w))\<rparr>) w
     else Some (Inr (), w))"

definition mat_result :: "int \<Rightarrow> int \<Rightarrow> MatState \<Rightarrow> MaterializeResult" where
  "mat_result start stop st =
    \<lparr>mr_rows_written = ms_rows_out st, mr_last_key = ms_last_key st,
     mr_metrics = \<lparr>em_rows_in = ms_rows_in st, em_rows_out = ms_rows_out st, em_flushes = ms_flushes st,
       em_bytes_written = ms_bytes st, em_elapsed = to_micros (stop - start)\<rparr>\<rparr>"

definition materialize :: "('w \<Rightarrow> int) \<Rightarrow> 'a codec \<Rightarrow> ('w, 'a Record) StreamHandle \<Rightarrow> 'w StoreRef \<Rightarrow>
    ('a Record \<Rightarrow> string result) \<Rightarrow> MaterializeOptions \<Rightarrow> ('w, MaterializeResult) io" where
  "materialize now cd source target keyfn opts w =
    (let start = now w in (case sref_handle target of
       None \<Rightarrow> Some (Err ''Materialize'' ''target StoreRef is null'', w)
     | Some h \<Rightarrow>
         io_bind (replace_prelude h (sref_name target) opts) (\<lambda>_.
         io_bind (read_floor h opts) (\<lambda>delta_floor.
         io_bind (mat_loop stream_pull h (sref_name target) cd keyfn opts delta_floor source mat_start) (\<lambda>st.
         io_bind (mat_flush h opts st) (\<lambda>st'.
         io_bind (advance_watermark now h opts st') (\<lambda>_ w'.
           Some (Inr (mat_result start (now w') st'), w')))))) w))"

end
