(* ===== verification/Backend_Properties.thy ===== *)
theory Backend_Properties
  imports Sqlite_Laws Rocksdb_Laws Materialize
begin

text \<open>
  The properties of the storage backends: the contract of a key/value store for the in-memory and
  the RocksDB backend; atomic batches, prefix ranges, quoting and batch lookups of SQLite.
\<close>

text \<open>
  The in-memory backend is a key/value store with the batch lookup: on its ordered map, each
  operation succeeds and does to the map from keys to values what the contract \<open>kv_backend\<close> says; a scan
  returns exactly the pairs whose key has the prefix, in byte order; a batch is its operations in sequence.
\<close>

theorem memory_is_kv_backend:
  "kv_backend in_memory_backend c (\<lambda>w. map_of (w c)) (\<lambda>w. map_ok (w c))"
  by (rule memory.kv_backend_axioms)

text \<open>
  C5: The RocksDB backend is a key/value store with the batch lookup, on an open database of a library that
  does what it documents while no call fails: the cursor loop of a scan, the write batch, and the
  native batch lookup implement the contract \<open>kv_backend\<close>.
\<close>

theorem rocksdb_is_kv_backend:
  assumes "rocks_laws lib db view healthy"
  shows "kv_backend (rocksdb_backend lib) self (\<lambda>w. view (rw_lib w)) (open_at db healthy self)"
  using assms by (rule rocks_laws.rocks_contract)

text \<open>A put into an empty database, read back.\<close>

definition rocks_one :: "std_map rocks_world" where
  "rocks_one = \<lparr>rw_objects = [3 \<mapsto> 0], rw_next = 4, rw_lib = []\<rparr>"

lemma rocksdb_is_kv_backend_witness:
  "\<exists>w'. b_put (rocksdb_backend map_db) 3 ''k'' ''v'' rocks_one = Some (Inr (), w') \<and>
    map_of (rw_lib w') = [''k'' \<mapsto> ''v'']"
proof -
  have "open_at 0 map_ok 3 rocks_one" by (simp add: open_at_def rocks_one_def map_ok_def)
  from kv_store.put_law [OF kv_backend.axioms(1) [OF
      rocksdb_is_kv_backend [OF map_database.rocks_laws_axioms]] this, of "''k''" "''v''"]
  show ?thesis by (auto simp: rocks_one_def)
qed

text \<open>
  C6: A batch on RocksDB (a library that does what it documents while no call fails) is the sequence of its
  operations: if every put has a value, the batch and the puts and deletes one by one in the order
  given both succeed, with the same contents, and every key reads the same afterwards; if some put has no
  value, the batch is an error and nothing has changed, not even by the operations before it.
\<close>

theorem rocksdb_batch_is_its_operations:
  assumes "rocks_laws lib db view healthy" "open_at db healthy self w"
  shows "if list_all op_wf ops
    then \<exists>w1 w2. handle_batch (make_backend_handle (rocksdb_backend lib) self) ops w = Some (Inr (), w1) \<and>
      run_ops (make_backend_handle (rocksdb_backend lib) self) ops w = Some (Inr (), w2) \<and>
      view (rw_lib w1) = view (rw_lib w2) \<and>
      (\<forall>k. handle_get (make_backend_handle (rocksdb_backend lib) self) k w1 = Some (Inr (view (rw_lib w2) k), w1))
    else handle_batch (make_backend_handle (rocksdb_backend lib) self) ops w =
      Some (Err ''StoreBatch'' ''put op missing value'', w)"
proof (cases "list_all op_wf ops")
  case True
  with rocks_laws.batch_as_sequence [OF assms True] show ?thesis by simp
next
  case False
  then obtain op where "op \<in> set ops" "\<not> op_wf op" by (auto simp: list_all_iff)
  with rocks_batch_missing [of w self db] assms(2) False show ?thesis
    by (auto simp: open_at_def rocksdb_backend_def)
qed

text \<open>A put, a delete, and a batch with a put that has no value.\<close>

lemma rocksdb_batch_is_its_operations_witness:
  "handle_batch (make_backend_handle (rocksdb_backend map_db) 3) [put_op [] ''k'' ''v'',
      \<lparr>op_kind = put_kind, op_cf_name = [], op_key = ''l'', op_value = None\<rparr>] rocks_one =
    Some (Err ''StoreBatch'' ''put op missing value'', rocks_one) \<and>
   (\<exists>w1. handle_batch (make_backend_handle (rocksdb_backend map_db) 3) [put_op [] ''k'' ''v''] rocks_one = Some (Inr (), w1) \<and>
      handle_get (make_backend_handle (rocksdb_backend map_db) 3) ''k'' w1 = Some (Inr (Some ''v''), w1))"
proof -
  have "open_at 0 map_ok 3 rocks_one" by (simp add: open_at_def rocks_one_def map_ok_def)
  note b = rocksdb_batch_is_its_operations [OF map_database.rocks_laws_axioms this]
  show ?thesis
    using b [of "[put_op [] ''k'' ''v'', \<lparr>op_kind = put_kind, op_cf_name = [], op_key = ''l'', op_value = None\<rparr>]"]
      b [of "[put_op [] ''k'' ''v'']"]
    by (auto simp: op_wf_def put_op_def rocksdb_backend_def rocks_put_def rocks_db_def rocks_one_def map_db_def)
qed

text \<open>
  C7: A SQLite batch is all or nothing: on a table of a library whose savepoints do what SQLite documents, and
  whose insertions and deletions, and the opening and the release of a savepoint, may fail, a batch that
  succeeds has applied all of its operations in order; a batch that reports an error (a put without a value, a
  statement that failed in the middle) leaves the table as it was, with one exception: if the final
  \<open>RELEASE\<close> is refused, the batch reports that error with all of its operations applied and its savepoint left
  open. In no case is a part of the batch applied.
\<close>

theorem sqlite_batch_all_or_nothing:
  assumes "sqlite_laws lib db tbl view marks healthy" "table_at db tbl healthy self w" "list_all op_small ops"
  shows "\<exists>r w'. sqlite_batch lib self ops w = Some (r, w') \<and> table_at db tbl healthy self w' \<and>
    (case r of
       Inr _ \<Rightarrow> view (qw_lib w') = fold apply_op ops (view (qw_lib w))
     | Inl e \<Rightarrow> view (qw_lib w') = view (qw_lib w) \<or>
         view (qw_lib w') = fold apply_op ops (view (qw_lib w)) \<and>
         (\<exists>sp l msg. sq_exec lib db (''RELEASE '' @ quote_ident sp) l = (False, msg, qw_lib w') \<and>
           marks (qw_lib w') sp = Some (view (qw_lib w))))"
  using sqlite_laws.sqlite_batch_atomic [OF assms] unfolding sqlite_laws.refused_at_end_def [OF assms(1)] .

text \<open>
  The second of two insertions fails: the first is undone. The release after an insertion is refused: the
  insertion is there all the same.
\<close>

definition sqlite_one :: "one_table sqlite_world" where
  "sqlite_one = \<lparr>qw_objects = [(3, \<lparr>sb_db = Some 0, sb_table_name = ''t''\<rparr>)], qw_next = 4, qw_scope_dbs = [(''s'', 0)],
     qw_savepoint = 0, qw_lib = ([(''k'', ''v'')], [])\<rparr>"

lemma sqlite_one_at: "table_at 0 ''t'' one_table_ok 3 sqlite_one"
  by (simp add: table_at_def sqlite_one_def one_table_ok_def map_ok_def)

lemma sqlite_batch_all_or_nothing_witness:
  "(\<exists>r w'. sqlite_batch (one_table_lib ''t'') 3 [put_op [] ''k'' ''w'', put_op [] ''l'' ''bad''] sqlite_one = Some (r, w') \<and>
    (map_of (fst (qw_lib w')) = [''k'' \<mapsto> ''v''] \<or> map_of (fst (qw_lib w')) = [''k'' \<mapsto> ''w'', ''l'' \<mapsto> ''bad''])) \<and>
   (\<exists>e w'. sqlite_batch (one_table_lib ''t'') 3 [put_op [] ''k'' ''busy''] sqlite_one = Some (Inl e, w') \<and>
    map_of (fst (qw_lib w')) = [''k'' \<mapsto> ''busy''])"
proof -
  note b = sqlite_batch_all_or_nothing [OF one_table.sqlite_laws_axioms sqlite_one_at]
  have "list_all op_small [put_op [] ''k'' ''w'', put_op [] ''l'' ''bad'']" by (simp add: op_small_def put_op_def)
  from b [OF this] obtain r w' where
    "sqlite_batch (one_table_lib ''t'') 3 [put_op [] ''k'' ''w'', put_op [] ''l'' ''bad''] sqlite_one = Some (r, w')"
    "map_of (fst (qw_lib w')) = map_of (fst (qw_lib sqlite_one)) \<or> map_of (fst (qw_lib w')) =
      fold apply_op [put_op [] ''k'' ''w'', put_op [] ''l'' ''bad''] (map_of (fst (qw_lib sqlite_one)))"
    by (force split: sum.splits)
  moreover obtain e w2 where "sqlite_batch (one_table_lib ''t'') 3 [put_op [] ''k'' ''busy''] sqlite_one = Some (Inl e, w2)"
    "fst (qw_lib w2) = [(''k'', ''busy'')]"
  proof -
    have "list_all (\<lambda>y. case y of (Inl e, w2) \<Rightarrow> fst (qw_lib w2) = [(''k'', ''busy'')] | _ \<Rightarrow> False)
        (case sqlite_batch (one_table_lib ''t'') 3 [put_op [] ''k'' ''busy''] sqlite_one of None \<Rightarrow> [] | Some y \<Rightarrow> [y])"
      "sqlite_batch (one_table_lib ''t'') 3 [put_op [] ''k'' ''busy''] sqlite_one \<noteq> None" by code_simp+
    then obtain r w2 where rw: "sqlite_batch (one_table_lib ''t'') 3 [put_op [] ''k'' ''busy''] sqlite_one = Some (r, w2)"
      "case r of Inl e \<Rightarrow> fst (qw_lib w2) = [(''k'', ''busy'')] | _ \<Rightarrow> False" by auto
    with that show thesis by (cases r) auto
  qed
  ultimately show ?thesis
    by (intro conjI) (auto simp: sqlite_one_def apply_op_def put_op_def)
qed

text \<open>
  C8: The key range of a SQLite prefix scan is the prefix: where an upper bound exists, the keys from
  the prefix up to it, exclusive, are those with the prefix; where none exists (an empty prefix or one of
  bytes \<open>0xFF\<close>) they are the keys from the prefix on.
\<close>

theorem prefix_range_is_prefix:
  "prefix p k \<longleftrightarrow> p \<le> k \<and> (prefix_upper_bound p = [] \<or> k < prefix_upper_bound p)"
  using prefix_as_range [of p k] prefix_all_ff [of p k] by blast

text \<open>
  No table name can escape its quotes in the SQL text: read by SQL's rule for quoted identifiers,
  the quoted name followed by any text that does not begin with a quote is the name, without its NUL
  bytes, followed by that text.
\<close>

theorem quoted_name_read_back:
  assumes "rest = [] \<or> hd rest \<noteq> dquote"
  shows "sql_ident (quote_ident nm @ rest) = Some (filter (\<lambda>c. c \<noteq> nul) nm, rest)"
  using assms by (rule quoted_ident_read_back)

lemma quoted_name_read_back_witness:
  "sql_ident (quote_ident (''t'' @ [dquote] @ ''; DROP'') @ '' WHERE'') = Some (''t'' @ [dquote] @ ''; DROP'', '' WHERE'')"
  by (subst quoted_name_read_back) simp_all

text \<open>
  The batch lookup of SQLite answers distinct keys in their order with what the table holds, for
  any number of keys (they are looked up 256 at a time).
\<close>

theorem sqlite_lookup_distinct_keys:
  assumes "sqlite_laws lib db tbl view marks healthy" "table_at db tbl healthy self w"
    and "list_all (\<lambda>k. length k < 2 ^ 31) ks" "distinct ks"
  shows "\<exists>w'. sqlite_get_many lib moved_from self ks w =
    Some (Inr (map (\<lambda>k. \<lparr>bg_key = k, bg_value = view (qw_lib w) k\<rparr>) ks), w') \<and> view (qw_lib w') = view (qw_lib w)"
  using sqlite_laws.sqlite_get_many_distinct [OF assms(1,2) _ assms(4)] assms(3) by (simp add: list_all_iff) blast

lemma sqlite_lookup_distinct_keys_witness:
  "\<exists>w'. sqlite_get_many (one_table_lib ''t'') (\<lambda>_. []) 3 [''j'', ''k''] sqlite_one =
    Some (Inr [\<lparr>bg_key = ''j'', bg_value = None\<rparr>, \<lparr>bg_key = ''k'', bg_value = Some ''v''\<rparr>], w')"
proof -
  have "list_all (\<lambda>k. length k < 2 ^ 31) [''j'', ''k'']" "distinct [''j'', ''k'']" by simp_all
  from sqlite_lookup_distinct_keys [OF one_table.sqlite_laws_axioms sqlite_one_at this]
  show ?thesis by (auto simp: sqlite_one_def)
qed

text \<open>
  The batch lookup of SQLite asked for the same stored key twice answers the second time with
  the value that the first answer left when it was moved out.
\<close>

theorem sqlite_lookup_repeated_key:
  assumes "sqlite_laws lib db tbl view marks healthy" "table_at db tbl healthy self w"
    and "length k < 2 ^ 31" "view (qw_lib w) k = Some v"
  shows "\<exists>w'. sqlite_get_many lib moved_from self [k, k] w =
    Some (Inr [\<lparr>bg_key = k, bg_value = Some v\<rparr>, \<lparr>bg_key = k, bg_value = Some (moved_from v)\<rparr>], w')"
  by (rule sqlite_laws.sqlite_get_many_twice [OF assms])

lemma sqlite_lookup_repeated_key_witness:
  "\<exists>w'. sqlite_get_many (one_table_lib ''t'') (\<lambda>_. []) 3 [''k'', ''k''] sqlite_one =
    Some (Inr [\<lparr>bg_key = ''k'', bg_value = Some ''v''\<rparr>, \<lparr>bg_key = ''k'', bg_value = Some []\<rparr>], w')"
proof -
  have "length ''k'' < 2 ^ 31" "(\<lambda>l. map_of (fst l)) (qw_lib sqlite_one) ''k'' = Some ''v''" by (simp_all add: sqlite_one_def)
  from sqlite_lookup_repeated_key [OF one_table.sqlite_laws_axioms sqlite_one_at this] show ?thesis .
qed

end
