(* ===== verification/Record_Stream.thy ===== *)
theory Record_Stream
  imports Store_Ref
begin

text \<open>
  The record streams of the materialization layer (\<open>include/celer/materialization/stream.hpp\<close>):
  \<open>where\<close>, \<open>map\<close>, \<open>take\<close>, \<open>inspect\<close>, \<open>batch\<close> and the terminal operations. \<open>Chunk::build\<close> over a
  chunk's size keeps every element it is given, so a built chunk is the list the builder wrote.
\<close>

subsection \<open>Combinators\<close>

record 's WhereImpl =
  wh_source :: 's

partial_function (option) where_pull ::
  "('a Record \<Rightarrow> bool) \<Rightarrow> ('w, 's, 'a Record) pull \<Rightarrow> 's WhereImpl \<Rightarrow> 'w \<Rightarrow>
     ('a Record list option result \<times> 's WhereImpl \<times> 'w) option" where
  "where_pull pred src s w = do {
     (r, src', w') \<leftarrow> src (wh_source s) w;
     let s' = s\<lparr>wh_source := src'\<rparr>;
     (case r of
        Inl e \<Rightarrow> Some (Inl e, s', w')
      | Inr None \<Rightarrow> Some (Inr None, s', w')
      | Inr (Some chunk) \<Rightarrow>
          let built = filter pred chunk in
          if built \<noteq> [] then Some (Inr (Some built), s', w') else where_pull pred src s' w') }"

record 's RecMapImpl =
  rm_source :: 's

definition rec_map_pull :: "('a \<Rightarrow> 'b) \<Rightarrow> ('w, 's, 'a Record) pull \<Rightarrow> ('w, 's RecMapImpl, 'b Record) pull" where
  "rec_map_pull fn src s w = do {
     (r, src', w') \<leftarrow> src (rm_source s) w;
     let s' = s\<lparr>rm_source := src'\<rparr>;
     (case r of
        Inl e \<Rightarrow> Some (Inl e, s', w')
      | Inr None \<Rightarrow> Some (Inr None, s', w')
      | Inr (Some chunk) \<Rightarrow>
          Some (Inr (Some (map (\<lambda>rec. Rec (rec_key rec) (fn (rec_value rec))) chunk)), s', w')) }"

record 's RecTakeImpl =
  rt_source :: 's
  rt_remaining :: nat

definition rec_take_pull :: "('w, 's, 'a Record) pull \<Rightarrow> ('w, 's RecTakeImpl, 'a Record) pull" where
  "rec_take_pull src s w =
     (if rt_remaining s = 0 then Some (Inr None, s, w)
      else do {
        (r, src', w') \<leftarrow> src (rt_source s) w;
        let s' = s\<lparr>rt_source := src'\<rparr>;
        (case r of
           Inl e \<Rightarrow> Some (Inl e, s', w')
         | Inr None \<Rightarrow> Some (Inr None, s', w')
         | Inr (Some chunk) \<Rightarrow>
             if length chunk \<le> rt_remaining s
             then Some (r, s'\<lparr>rt_remaining := rt_remaining s - length chunk\<rparr>, w')
             else Some (Inr (Some (chunk_slice chunk 0 (rt_remaining s))), s'\<lparr>rt_remaining := 0\<rparr>, w')) })"

record 's InspectImpl =
  in_source :: 's

definition inspect_pull :: "('a Record \<Rightarrow> 'w \<Rightarrow> 'w) \<Rightarrow> ('w, 's, 'a Record) pull \<Rightarrow> ('w, 's InspectImpl, 'a Record) pull" where
  "inspect_pull fn src s w = do {
     (r, src', w') \<leftarrow> src (in_source s) w;
     let s' = s\<lparr>in_source := src'\<rparr>;
     (case r of
        Inl e \<Rightarrow> Some (Inl e, s', w')
      | Inr None \<Rightarrow> Some (Inr None, s', w')
      | Inr (Some chunk) \<Rightarrow> Some (r, s', fold fn chunk w')) }"

record ('a, 's) BatchImpl =
  ba_source :: 's
  ba_batch_size :: nat
  ba_buffer :: "'a Record list"
  ba_upstream_done :: bool

text \<open>The loop that fills the buffer: success, or the source's error.\<close>

partial_function (option) batch_fill ::
  "('w, 's, 'a Record) pull \<Rightarrow> ('a, 's) BatchImpl \<Rightarrow> 'w \<Rightarrow> (unit result \<times> ('a, 's) BatchImpl \<times> 'w) option" where
  "batch_fill src s w =
     (if length (ba_buffer s) < ba_batch_size s \<and> \<not> ba_upstream_done s then do {
        (r, src', w') \<leftarrow> src (ba_source s) w;
        let s' = s\<lparr>ba_source := src'\<rparr>;
        (case r of
           Inl e \<Rightarrow> Some (Inl e, s', w')
         | Inr None \<Rightarrow> Some (Inr (), s'\<lparr>ba_upstream_done := True\<rparr>, w')
         | Inr (Some chunk) \<Rightarrow> batch_fill src (s'\<lparr>ba_buffer := ba_buffer s @ chunk\<rparr>) w') }
      else Some (Inr (), s, w))"

definition batch_pull :: "('w, 's, 'a Record) pull \<Rightarrow> ('w, ('a, 's) BatchImpl, 'a Record) pull" where
  "batch_pull src s w = do {
     (r, s', w') \<leftarrow> batch_fill src s w;
     (case r of
        Inl e \<Rightarrow> Some (Inl e, s', w')
      | Inr _ \<Rightarrow>
          if ba_buffer s' = [] then Some (Inr None, s', w')
          else let take_n = min (ba_batch_size s') (length (ba_buffer s')); out = take take_n (ba_buffer s') in
            Some (Inr (Some (chunk_from out)), s'\<lparr>ba_buffer := drop take_n (ba_buffer s')\<rparr>, w')) }"

definition batch_of :: "'s \<Rightarrow> nat \<Rightarrow> ('a, 's) BatchImpl" where
  "batch_of s n = \<lparr>ba_source = s, ba_batch_size = n, ba_buffer = [], ba_upstream_done = False\<rparr>"

subsection \<open>Terminal operations and factories\<close>

text \<open>\<open>collect\<close>, \<open>drain\<close> and \<open>count\<close> are loops of the same shape as those of the byte streams.\<close>

definition rec_collect :: "('w, 's, 'a Record) pull \<Rightarrow> 's \<Rightarrow> 'w \<Rightarrow> ('a Record list result \<times> 's \<times> 'w) option" where
  "rec_collect src s w = collect_loop src [] s w"

definition rec_drain :: "('a Record \<Rightarrow> 'w \<Rightarrow> 'w) \<Rightarrow> ('w, 's, 'a Record) pull \<Rightarrow> 's \<Rightarrow> 'w \<Rightarrow> (unit result \<times> 's \<times> 'w) option" where
  "rec_drain fn src s w = stream_drain fn src s w"

partial_function (option) rec_count_loop ::
  "('w, 's, 'a Record) pull \<Rightarrow> nat \<Rightarrow> 's \<Rightarrow> 'w \<Rightarrow> (nat result \<times> 's \<times> 'w) option" where
  "rec_count_loop src n s w = do {
     (r, s', w') \<leftarrow> src s w;
     (case r of
        Inl e \<Rightarrow> Some (Inl e, s', w')
      | Inr None \<Rightarrow> Some (Inr n, s', w')
      | Inr (Some chunk) \<Rightarrow> rec_count_loop src (n + length chunk) s' w') }"

definition stream_from :: "'w StoreRef \<Rightarrow> ScanOptions \<Rightarrow> ('w, 'w RecordSource) io" where
  "stream_from store opts = sref_stream_scan store opts"

definition stream_of :: "'a Record list \<Rightarrow> ('a Record) FromVectorImpl" where
  "stream_of records = from_vector records"

subsection \<open>What the combinators yield\<close>

lemma where_yields:
  "yields src s w cs out s' w' \<Longrightarrow>
    yields (where_pull p src) \<lparr>wh_source = s\<rparr> w (nonempty_chunks (map (filter p) cs)) out \<lparr>wh_source = s'\<rparr> w'"
proof (induction rule: yields.induct)
  case (yields_chunk s w c s1 w1 cs out s' w')
  have step: "where_pull p src \<lparr>wh_source = s\<rparr> w =
      (if filter p c \<noteq> [] then Some (Inr (Some (filter p c)), \<lparr>wh_source = s1\<rparr>, w1)
       else where_pull p src \<lparr>wh_source = s1\<rparr> w1)"
    by (subst where_pull.simps) (simp add: yields_chunk.hyps(1) Let_def)
  show ?case
  proof (cases "filter p c = []")
    case True
    with step have "where_pull p src \<lparr>wh_source = s\<rparr> w = where_pull p src \<lparr>wh_source = s1\<rparr> w1" by simp
    from yields_same_pull [of "where_pull p src", OF this yields_chunk.IH] True show ?thesis
      by (simp add: nonempty_chunks_def)
  next
    case False
    with step have "where_pull p src \<lparr>wh_source = s\<rparr> w = Some (Inr (Some (filter p c)), \<lparr>wh_source = s1\<rparr>, w1)"
      by simp
    from yields.yields_chunk [of "where_pull p src", OF this yields_chunk.IH] False show ?thesis
      by (simp add: nonempty_chunks_def)
  qed
qed (auto intro!: yields.intros simp: nonempty_chunks_def where_pull.simps)

lemma rec_map_yields:
  "yields src s w cs out s' w' \<Longrightarrow>
    yields (rec_map_pull f src) \<lparr>rm_source = s\<rparr> w
      (map (map (\<lambda>rec. Rec (rec_key rec) (f (rec_value rec)))) cs) out \<lparr>rm_source = s'\<rparr> w'"
proof (induction rule: yields.induct)
  case (yields_chunk s w c s1 w1 cs out s' w')
  have "rec_map_pull f src \<lparr>rm_source = s\<rparr> w =
      Some (Inr (Some (map (\<lambda>rec. Rec (rec_key rec) (f (rec_value rec))) c)), \<lparr>rm_source = s1\<rparr>, w1)"
    by (simp add: rec_map_pull_def yields_chunk.hyps(1))
  from yields.yields_chunk [OF this yields_chunk.IH] show ?case by simp
qed (auto intro!: yields.intros simp: rec_map_pull_def)

text \<open>The record version of \<open>take\<close> is the byte version.\<close>

lemma rec_take_is_take:
  "rec_take_pull src \<lparr>rt_source = s, rt_remaining = n\<rparr> w =
    map_option (\<lambda>(r, t, w'). (r, \<lparr>rt_source = take_source t, rt_remaining = take_remaining t\<rparr>, w'))
      (take_pull src \<lparr>take_source = s, take_remaining = n\<rparr> w)"
  by (cases rule: pull_cases [of src s w])
    (simp_all add: rec_take_pull_def take_pull_def Let_def)

text \<open>
  \<open>inspect\<close> leaves the elements alone and calls its visitor on each of them, in order, when its
  chunk is pulled: between the pulls of a source that leaves the world alone.
\<close>

lemma inspect_yields:
  assumes "pure_yields src s cs out s'"
  shows "yields (inspect_pull fn src) \<lparr>in_source = s\<rparr> w cs out \<lparr>in_source = s'\<rparr> (fold fn (concat cs) w)"
  using assms
proof (induction arbitrary: w rule: pure_yields.induct)
  case (pure_chunk s c s1 cs out s')
  have "inspect_pull fn src \<lparr>in_source = s\<rparr> w = Some (Inr (Some c), \<lparr>in_source = s1\<rparr>, fold fn c w)"
    by (simp add: inspect_pull_def pure_chunk.hyps(1))
  from yields.yields_chunk [OF this pure_chunk.IH] show ?case by simp
qed (auto intro!: yields.intros simp: inspect_pull_def)

lemma rec_count_yields:
  "yields src s w cs out s' w' \<Longrightarrow>
    rec_count_loop src n s w = Some (outcome out (n + length (concat cs)), s', w')"
  by (induction arbitrary: n rule: yields.induct) (simp_all add: rec_count_loop.simps add.assoc)

subsection \<open>Repacking\<close>

text \<open>The chunks of \<open>batch(n)\<close>: all of \<open>n\<close> records but the last.\<close>

function repack :: "nat \<Rightarrow> 'a list \<Rightarrow> 'a list list" where
  "repack n xs = (if n = 0 \<or> xs = [] then [] else take n xs # repack n (drop n xs))"
  by pat_completeness auto
termination by (relation "measure (\<lambda>(n, xs). length xs)") auto

declare repack.simps [simp del]

lemma repack_simps [simp]: "repack n [] = []" "repack 0 xs = []"
  by (simp_all add: repack.simps)

lemma concat_repack: "0 < n \<Longrightarrow> concat (repack n xs) = xs"
  by (induction n xs rule: repack.induct) (subst repack.simps, simp)

lemma repack_sizes:
  "0 < n \<Longrightarrow> repack n xs = cs @ [c] \<Longrightarrow> (\<forall>d\<in>set cs. length d = n) \<and> 0 < length c \<and> length c \<le> n"
proof (induction n xs arbitrary: cs rule: repack.induct)
  case (1 n xs)
  then have xs: "xs \<noteq> []" by (auto simp: repack.simps)
  with 1(2,3) have eq: "take n xs # repack n (drop n xs) = cs @ [c]"
    by (simp add: repack.simps [of n xs])
  show ?case
  proof (cases cs)
    case Nil
    with eq xs 1(2) show ?thesis by auto
  next
    case (Cons d ds)
    with eq have d: "d = take n xs" and rest: "repack n (drop n xs) = ds @ [c]" by auto
    then have "drop n xs \<noteq> []" by auto
    then have "length d = n" by (simp add: d)
    with "1.IH" [OF _ "1.prems"(1) rest] xs "1.prems"(1) Cons show ?thesis by auto
  qed
qed

abbreviation batch_state :: "'s \<Rightarrow> nat \<Rightarrow> 'a Record list \<Rightarrow> bool \<Rightarrow> ('a, 's) BatchImpl" where
  "batch_state s n buf d \<equiv> \<lparr>ba_source = s, ba_batch_size = n, ba_buffer = buf, ba_upstream_done = d\<rparr>"

lemma batch_fill_run:
  assumes "yields src s w cs None s' w'"
  shows "\<exists>cs1 cs2 s1 w1 d. cs = cs1 @ cs2 \<and>
    batch_fill src (batch_state s n buf False) w = Some (Inr (), batch_state s1 n (buf @ concat cs1) d, w1) \<and>
    (if d then cs2 = [] \<and> w1 = w' else yields src s1 w1 cs2 None s' w' \<and> n \<le> length (buf @ concat cs1))"
    (is "\<exists>cs1 cs2 s1 w1 d. ?P buf s w cs cs1 cs2 s1 w1 d")
  using assms
proof (induction s w cs "None :: error option" s' w' arbitrary: buf rule: yields.induct)
  case (yields_done s w s' w')
  show ?case
  proof (cases "length buf < n")
    case True
    with yields_done show ?thesis
      by (intro exI [of _ "[]"] exI [of _ s'] exI [of _ w'] exI [of _ True])
        (simp add: batch_fill.simps Let_def)
  next
    case False
    with yields_done show ?thesis
      by (intro exI [of _ "[]"] exI [of _ s] exI [of _ w] exI [of _ False])
        (simp add: batch_fill.simps Let_def yields.yields_done)
  qed
next
  case (yields_chunk s w c s1 w1 cs s' w')
  show ?case
  proof (cases "length buf < n")
    case True
    then have step: "batch_fill src (batch_state s n buf False) w =
        batch_fill src (batch_state s1 n (buf @ c) False) w1"
      by (subst batch_fill.simps) (simp add: yields_chunk.hyps(1) Let_def)
    from yields_chunk.hyps(3) [of "buf @ c"] obtain cs1 cs2 s2 w2 d where
      "cs = cs1 @ cs2"
      "batch_fill src (batch_state s1 n (buf @ c) False) w1 =
        Some (Inr (), batch_state s2 n (buf @ c @ concat cs1) d, w2)"
      "if d then cs2 = [] \<and> w2 = w' else yields src s2 w2 cs2 None s' w' \<and> n \<le> length (buf @ c @ concat cs1)"
      unfolding append_assoc by blast
    with step show ?thesis
      by - (rule exI [of _ "c # cs1"], rule exI [of _ cs2], rule exI [of _ s2],
        rule exI [of _ w2], rule exI [of _ d], cases d, simp_all add: add.assoc)
  next
    case False
    with yields.yields_chunk [of src, OF yields_chunk.hyps(1,2)] show ?thesis
      by (intro exI [of _ "[]"] exI [of _ "c # cs"] exI [of _ s] exI [of _ w] exI [of _ False])
        (simp add: batch_fill.simps)
  qed
qed

lemma chunk_from_take: "0 < n \<Longrightarrow> n < 2 ^ 32 \<Longrightarrow> chunk_from (take (min n (length xs)) xs) = take n xs"
  by (simp add: chunk_from_small min_def)

text \<open>What a pull does with the buffer once it is filled.\<close>

lemma batch_pull_filled:
  assumes "batch_fill src t w = Some (Inr (), batch_state s1 n buf d, w1)" "0 < n" "n < 2 ^ 32"
  shows "batch_pull src t w = (if buf = [] then Some (Inr None, batch_state s1 n [] d, w1)
    else Some (Inr (Some (take n buf)), batch_state s1 n (drop n buf) d, w1))"
  using assms chunk_from_take [OF assms(2,3), of buf]
  by (simp add: batch_pull_def Let_def drop_eq_Nil min_def)

lemma batch_drains:
  assumes "0 < n" "n < 2 ^ 32"
  shows "yields (batch_pull src) (batch_state s n buf True) w (repack n buf) None (batch_state s n [] True) w"
  using assms
proof (induction n buf rule: repack.induct)
  case (1 n buf)
  have fill: "batch_fill src (batch_state s n buf True) w = Some (Inr (), batch_state s n buf True, w)"
    by (simp add: batch_fill.simps)
  show ?case
  proof (cases "buf = []")
    case True
    with batch_pull_filled [OF fill "1.prems"] show ?thesis by (auto intro: yields.yields_done)
  next
    case False
    with batch_pull_filled [OF fill "1.prems"]
    have "batch_pull src (batch_state s n buf True) w = Some (Inr (Some (take n buf)), batch_state s n (drop n buf) True, w)"
      by simp
    from yields.yields_chunk [OF this 1(1)] False "1.prems" show ?thesis
      by (simp add: repack.simps [of n buf])
  qed
qed

lemma batch_yields_from:
  assumes "0 < n" "n < 2 ^ 32" "yields src s w cs None s' w'"
  shows "\<exists>t. yields (batch_pull src) (batch_state s n buf False) w (repack n (buf @ concat cs)) None t w'"
  using assms(3)
proof (induction "length (buf @ concat cs)" arbitrary: buf s w cs rule: less_induct)
  case less
  obtain cs1 cs2 s1 w1 d where cs: "cs = cs1 @ cs2"
    and fill: "batch_fill src (batch_state s n buf False) w = Some (Inr (), batch_state s1 n (buf @ concat cs1) d, w1)"
    and rest: "if d then cs2 = [] \<and> w1 = w' else yields src s1 w1 cs2 None s' w' \<and> n \<le> length (buf @ concat cs1)"
    using batch_fill_run [OF less.prems, of n buf] by blast
  let ?b = "buf @ concat cs1"
  show ?case
  proof (cases "?b = []")
    case True
    then have "length ?b = 0" by (simp only: list.size)
    then have "\<not> n \<le> length ?b" using assms(1) by linarith
    with rest have d: "d" "cs2 = []" "w1 = w'" by (metis (full_types))+
    from batch_pull_filled [OF fill assms(1,2)] True
    have "batch_pull src (batch_state s n buf False) w = Some (Inr None, batch_state s1 n [] d, w1)" by simp
    moreover have "buf @ concat cs = []" using True d(2) by (simp only: cs append_Nil2)
    ultimately show ?thesis
      using yields.yields_done [of "batch_pull src"] d(3) by (metis repack_simps(1))
  next
    case False
    with batch_pull_filled [OF fill assms(1,2)]
    have pull: "batch_pull src (batch_state s n buf False) w =
        Some (Inr (Some (take n ?b)), batch_state s1 n (drop n ?b) d, w1)" by simp
    have "\<exists>t. yields (batch_pull src) (batch_state s1 n (drop n ?b) d) w1 (repack n (drop n ?b @ concat cs2)) None t w'"
    proof (cases d)
      case True
      with rest batch_drains [OF assms(1,2)] show ?thesis by fastforce
    next
      case False
      with rest have y: "yields src s1 w1 cs2 None s' w'" by simp
      have "0 < length ?b" using \<open>?b \<noteq> []\<close> by blast
      moreover have "length (drop n ?b @ concat cs2) = length ?b - n + length (concat cs2)"
        by (simp only: length_append length_drop)
      moreover have "length (buf @ concat cs) = length ?b + length (concat cs2)"
        by (simp add: cs)
      ultimately have "length (drop n ?b @ concat cs2) < length (buf @ concat cs)"
        using assms(1) by linarith
      from less.hyps [OF this y] False show ?thesis by simp
    qed
    then obtain t where "yields (batch_pull src) (batch_state s1 n (drop n ?b) d) w1
        (repack n (drop n ?b @ concat cs2)) None t w'" by blast
    from yields.yields_chunk [OF pull this]
    have "yields (batch_pull src) (batch_state s n buf False) w
        (take n ?b # repack n (drop n ?b @ concat cs2)) None t w'" .
    moreover have "take n ?b # repack n (drop n ?b @ concat cs2) = repack n (buf @ concat cs)"
    proof -
      have "d \<or> n \<le> length ?b" using rest by (simp split: if_splits)
      then have "take n ?b = take n (?b @ concat cs2)" "drop n ?b @ concat cs2 = drop n (?b @ concat cs2)"
        using rest by (auto split: if_splits)
      then show ?thesis
        using False assms(1) by (subst repack.simps) (simp add: cs)
    qed
    ultimately show ?thesis by metis
  qed
qed

lemma batch_yields:
  assumes "0 < n" "n < 2 ^ 32" "yields src s w cs None s' w'"
  shows "\<exists>t. yields (batch_pull src) (batch_of s n) w (repack n (concat cs)) None t w'"
  using batch_yields_from [OF assms, of "[]"] by (simp add: batch_of_def)

text \<open>With a batch size of zero the source is never pulled and the stream is empty.\<close>

lemma batch_zero: "yields (batch_pull src) (batch_of s 0) w [] None (batch_of s 0) w"
  by (intro yields.yields_done) (simp add: batch_pull_def batch_of_def batch_fill.simps)

end
