(* ===== verification/Arc_Chunk.thy ===== *)
theory Arc_Chunk
  imports Pull_Stream "HOL-Library.Multiset"
begin

text \<open>
  \<open>ArcBuf\<close> and \<open>Chunk\<close> (\<open>include/celer/core/arc_buf.hpp\<close>, \<open>include/celer/core/stream.hpp\<close>): a
  chunk is a view of an immutable buffer that is shared by reference count.

  The heap maps addresses to buffers; a freed buffer is no longer in the heap, and touching it
  has no result (\<open>None\<close>). The program's chunk variables are numbered; the steps are the
  constructions, copies, moves, slices and destructions of chunks that C++ performs.
  Counts, offsets and lengths keep their 32 bits; an increment of the atomic count wraps around.
\<close>

subsection \<open>Buffers\<close>

record 'a ArcBuf =
  ab_refs :: "32 word"
  ab_items :: "'a list"

type_synonym 'a arc_heap = "nat \<Rightarrow> 'a ArcBuf option"

definition arc_acquire :: "nat \<Rightarrow> 'a arc_heap \<Rightarrow> 'a arc_heap option" where
  "arc_acquire a h = (case h a of
      None \<Rightarrow> None
    | Some b \<Rightarrow> Some (h(a \<mapsto> b\<lparr>ab_refs := ab_refs b + 1\<rparr>)))"

definition arc_release :: "nat \<Rightarrow> 'a arc_heap \<Rightarrow> 'a arc_heap option" where
  "arc_release a h = (case h a of
      None \<Rightarrow> None
    | Some b \<Rightarrow> Some (if ab_refs b = 1 then h(a := None) else h(a \<mapsto> b\<lparr>ab_refs := ab_refs b - 1\<rparr>)))"

definition arc_alloc :: "nat \<Rightarrow> 'a list \<Rightarrow> 'a arc_heap \<Rightarrow> 'a arc_heap" where
  "arc_alloc a items h = h(a \<mapsto> \<lparr>ab_refs = 1, ab_items = items\<rparr>)"

subsection \<open>Chunks\<close>

record Chunk =
  ck_buf :: "nat option"
  ck_offset :: "32 word"
  ck_length :: "32 word"

definition null_chunk :: Chunk where
  "null_chunk = \<lparr>ck_buf = None, ck_offset = 0, ck_length = 0\<rparr>"

definition chunk_view :: "'a arc_heap \<Rightarrow> Chunk \<Rightarrow> 'a list option" where
  "chunk_view h c = (case ck_buf c of
      None \<Rightarrow> Some []
    | Some a \<Rightarrow> (case h a of
        None \<Rightarrow> None
      | Some b \<Rightarrow> Some (take (unat (ck_length c)) (drop (unat (ck_offset c)) (ab_items b)))))"

text \<open>The destructor, and the two acquisitions a copy and a slice make.\<close>

definition chunk_drop :: "Chunk \<Rightarrow> 'a arc_heap \<Rightarrow> 'a arc_heap option" where
  "chunk_drop c h = (case ck_buf c of None \<Rightarrow> Some h | Some a \<Rightarrow> arc_release a h)"

definition chunk_acquire :: "Chunk \<Rightarrow> 'a arc_heap \<Rightarrow> 'a arc_heap option" where
  "chunk_acquire c h = (case ck_buf c of None \<Rightarrow> Some h | Some a \<Rightarrow> arc_acquire a h)"

definition chunk_make :: "nat \<Rightarrow> 'a list \<Rightarrow> 'a arc_heap \<Rightarrow> Chunk \<times> 'a arc_heap" where
  "chunk_make a data h =
     (if data = [] then (null_chunk, h)
      else let n = word_of_nat (length data) :: 32 word in
        (\<lparr>ck_buf = Some a, ck_offset = 0, ck_length = n\<rparr>, arc_alloc a (take (unat n) data) h))"

definition chunk_cut :: "Chunk \<Rightarrow> nat \<Rightarrow> nat \<Rightarrow> 'a arc_heap \<Rightarrow> (Chunk \<times> 'a arc_heap) option" where
  "chunk_cut c off len h = (case ck_buf c of
      None \<Rightarrow> Some (null_chunk, h)
    | Some a \<Rightarrow>
        if off \<ge> unat (ck_length c) then Some (null_chunk, h)
        else let avail = unat (ck_length c) - off;
                 real_off = ck_offset c + word_of_nat off;
                 real_len = (word_of_nat (min len avail) :: 32 word) in
          if real_len = 0 then Some (null_chunk, h)
          else do {
            h1 \<leftarrow> arc_acquire a h;
            Some (\<lparr>ck_buf = Some a, ck_offset = real_off, ck_length = real_len\<rparr>, h1) })"

subsection \<open>A program's chunks\<close>

text \<open>
  Variable \<open>v\<close> holds \<open>vars ! v\<close>. \<open>op_make\<close> is \<open>v = Chunk::from(data)\<close> at the address the allocator
  returns, \<open>op_copy\<close> copy assignment, \<open>op_move\<close> move assignment, \<open>op_slice\<close> \<open>v = u.slice(off, len)\<close>,
  and \<open>op_reset\<close> the end of \<open>v\<close>'s value. Assignments drop the target's old value first.
\<close>

datatype 'a chunk_op =
    op_make nat nat "'a list"
  | op_copy nat nat
  | op_move nat nat
  | op_slice nat nat nat nat
  | op_reset nat

record 'a chunk_state =
  cs_heap :: "'a arc_heap"
  cs_vars :: "Chunk list"

text \<open>Move-assigning a temporary: release the target's buffer and take the temporary's.\<close>

definition assign_temp :: "nat \<Rightarrow> Chunk \<Rightarrow> 'a arc_heap \<Rightarrow> Chunk list \<Rightarrow> 'a chunk_state option" where
  "assign_temp v c h vars = do {
     h1 \<leftarrow> chunk_drop (vars ! v) h;
     Some \<lparr>cs_heap = h1, cs_vars = vars[v := c]\<rparr> }"

fun chunk_step :: "'a chunk_op \<Rightarrow> 'a chunk_state \<Rightarrow> 'a chunk_state option" where
  "chunk_step (op_make v a data) s =
     (let (c, h1) = chunk_make a data (cs_heap s) in assign_temp v c h1 (cs_vars s))"
| "chunk_step (op_copy v u) s =
     (if v = u then Some s
      else do {
        h1 \<leftarrow> chunk_drop (cs_vars s ! v) (cs_heap s);
        let c = cs_vars s ! u;
        h2 \<leftarrow> chunk_acquire c h1;
        Some \<lparr>cs_heap = h2, cs_vars = (cs_vars s)[v := c]\<rparr> })"
| "chunk_step (op_move v u) s =
     (if v = u then Some s
      else do {
        h1 \<leftarrow> chunk_drop (cs_vars s ! v) (cs_heap s);
        Some \<lparr>cs_heap = h1, cs_vars = (cs_vars s)[v := cs_vars s ! u, u := null_chunk]\<rparr> })"
| "chunk_step (op_slice v u off len) s = do {
     (c, h1) \<leftarrow> chunk_cut (cs_vars s ! u) off len (cs_heap s);
     assign_temp v c h1 (cs_vars s) }"
| "chunk_step (op_reset v) s = assign_temp v null_chunk (cs_heap s) (cs_vars s)"

subsection \<open>The reference counts are right\<close>

definition holders :: "nat \<Rightarrow> Chunk multiset \<Rightarrow> nat" where
  "holders a M = size (filter_mset (\<lambda>c. ck_buf c = Some a) M)"

text \<open>
  A buffer is in the heap exactly when some chunk refers to it, its count is the number of
  those chunks, and every view lies inside its buffer.
\<close>

definition counts_ok :: "'a arc_heap \<Rightarrow> Chunk multiset \<Rightarrow> bool" where
  "counts_ok h M \<longleftrightarrow> (\<forall>a. case h a of
      None \<Rightarrow> holders a M = 0
    | Some b \<Rightarrow> 0 < holders a M \<and> ab_refs b = word_of_nat (holders a M))"

definition view_ok :: "'a arc_heap \<Rightarrow> Chunk \<Rightarrow> bool" where
  "view_ok h c \<longleftrightarrow> (\<forall>a b. ck_buf c = Some a \<longrightarrow> h a = Some b \<longrightarrow>
      unat (ck_offset c) + unat (ck_length c) \<le> length (ab_items b) \<and> length (ab_items b) < 2 ^ 32)"

definition chunks_ok :: "'a chunk_state \<Rightarrow> bool" where
  "chunks_ok s \<longleftrightarrow> counts_ok (cs_heap s) (mset (cs_vars s)) \<and>
     list_all (view_ok (cs_heap s)) (cs_vars s)"

definition op_ok :: "'a chunk_op \<Rightarrow> 'a chunk_state \<Rightarrow> bool" where
  "op_ok op s \<longleftrightarrow> (case op of
      op_make v a data \<Rightarrow> v < length (cs_vars s) \<and> cs_heap s a = None
    | op_copy v u \<Rightarrow> v < length (cs_vars s) \<and> u < length (cs_vars s)
    | op_move v u \<Rightarrow> v < length (cs_vars s) \<and> u < length (cs_vars s)
    | op_slice v u off len \<Rightarrow> v < length (cs_vars s) \<and> u < length (cs_vars s)
    | op_reset v \<Rightarrow> v < length (cs_vars s))"

text \<open>What the steps do to the variables' contents, without heap and counts.\<close>

fun chunk_spec :: "'a chunk_op \<Rightarrow> 'a list list \<Rightarrow> 'a list list" where
  "chunk_spec (op_make v a data) xs = xs[v := chunk_from data]"
| "chunk_spec (op_copy v u) xs = xs[v := xs ! u]"
| "chunk_spec (op_move v u) xs = (if v = u then xs else xs[v := xs ! u, u := []])"
| "chunk_spec (op_slice v u off len) xs = xs[v := chunk_slice (xs ! u) off len]"
| "chunk_spec (op_reset v) xs = xs[v := []]"

subsection \<open>Accounting\<close>

lemma holders_simps [simp]:
  "holders a {#} = 0"
  "holders a (add_mset c M) = (if ck_buf c = Some a then 1 else 0) + holders a M"
  by (simp_all add: holders_def)

lemma holders_pos: "c \<in># M \<Longrightarrow> ck_buf c = Some a \<Longrightarrow> 0 < holders a M"
  by (auto dest!: multi_member_split)

lemma holders_size: "holders a M \<le> size M"
  by (simp add: holders_def size_filter_mset_lesseq)

text \<open>With fewer than \<open>2 ^ 32\<close> holders, a count of 1 means one holder.\<close>

lemma count_is_one: "Suc n < 2 ^ 32 \<Longrightarrow> (word_of_nat (Suc n) :: 32 word) = 1 \<longleftrightarrow> n = 0"
proof -
  assume "Suc n < 2 ^ 32"
  then have "unat (word_of_nat (Suc n) :: 32 word) = Suc n" by (simp only: unat_of_nat) simp
  then show ?thesis by (auto dest: arg_cong [of _ _ unat])
qed

lemma counts_ok_present: "counts_ok h M \<Longrightarrow> c \<in># M \<Longrightarrow> ck_buf c = Some a \<Longrightarrow> \<exists>b. h a = Some b"
  using holders_pos [of c M a] by (auto simp: counts_ok_def split: option.splits dest: spec [of _ a])

lemma counts_ok_null [simp]: "ck_buf c = None \<Longrightarrow> counts_ok h (add_mset c M) = counts_ok h M"
  unfolding counts_ok_def by (simp cong: option.case_cong)

text \<open>The heap changes that leave the items of the chunks of \<open>M\<close> alone.\<close>

definition keeps :: "Chunk multiset \<Rightarrow> 'a arc_heap \<Rightarrow> 'a arc_heap \<Rightarrow> bool" where
  "keeps M h h1 \<longleftrightarrow> (\<forall>c a. c \<in># M \<longrightarrow> ck_buf c = Some a \<longrightarrow>
     map_option ab_items (h1 a) = map_option ab_items (h a))"

lemma keeps_view: "keeps M h h1 \<Longrightarrow> c \<in># M \<Longrightarrow> chunk_view h1 c = chunk_view h c"
proof (cases "ck_buf c")
  case (Some a)
  assume "keeps M h h1" "c \<in># M"
  with Some have "map_option ab_items (h1 a) = map_option ab_items (h a)"
    unfolding keeps_def by blast
  then show ?thesis
    by (cases "h a"; cases "h1 a") (simp_all add: chunk_view_def Some)
qed (simp add: chunk_view_def)

lemma keeps_view_ok: "keeps M h h1 \<Longrightarrow> c \<in># M \<Longrightarrow> view_ok h c \<Longrightarrow> view_ok h1 c"
proof -
  assume k: "keeps M h h1" "c \<in># M" and v: "view_ok h c"
  show "view_ok h1 c"
    unfolding view_ok_def
  proof (intro allI impI)
    fix a b assume ab: "ck_buf c = Some a" "h1 a = Some b"
    from k ab(1) have "map_option ab_items (h1 a) = map_option ab_items (h a)"
      unfolding keeps_def by blast
    with ab(2) have "map_option ab_items (h a) = Some (ab_items b)" by simp
    then obtain b0 where "h a = Some b0" "ab_items b0 = ab_items b" by auto
    with v ab show "unat (ck_offset c) + unat (ck_length c) \<le> length (ab_items b) \<and>
        length (ab_items b) < 2 ^ 32" unfolding view_ok_def by metis
  qed
qed

lemma keeps_mono: "keeps M h h1 \<Longrightarrow> N \<subseteq># M \<Longrightarrow> keeps N h h1"
  unfolding keeps_def by (meson mset_subset_eqD)

lemma keeps_trans: "keeps M h h1 \<Longrightarrow> keeps M h1 h2 \<Longrightarrow> keeps M h h2"
  unfolding keeps_def by simp

lemma drop_accounting:
  assumes "counts_ok h (add_mset c M)" and small: "Suc (size M) < 2 ^ 32"
  obtains h1 where "chunk_drop c h = Some h1" "counts_ok h1 M" "keeps M h h1"
proof (cases "ck_buf c")
  case None
  with assms(1) that [of h] show thesis by (simp add: chunk_drop_def keeps_def)
next
  case (Some a)
  with assms(1) obtain b where b: "h a = Some b" "ab_refs b = word_of_nat (Suc (holders a M))"
    using counts_ok_present [of h "add_mset c M" c a] by (auto simp: counts_ok_def dest: spec [of _ a])
  have last: "ab_refs b = 1 \<longleftrightarrow> holders a M = 0"
    unfolding b(2) using holders_size [of a M] small by (intro count_is_one) simp
  define h1 where "h1 = (if ab_refs b = 1 then h(a := None) else h(a \<mapsto> b\<lparr>ab_refs := ab_refs b - 1\<rparr>))"
  have "chunk_drop c h = Some h1" by (simp add: chunk_drop_def arc_release_def Some b h1_def)
  moreover have "counts_ok h1 M"
    unfolding counts_ok_def
  proof
    fix a'
    from assms(1) have "case h a' of None \<Rightarrow> holders a' (add_mset c M) = 0
      | Some b \<Rightarrow> 0 < holders a' (add_mset c M) \<and> ab_refs b = word_of_nat (holders a' (add_mset c M))"
      unfolding counts_ok_def by blast
    then show "case h1 a' of None \<Rightarrow> holders a' M = 0
      | Some b \<Rightarrow> 0 < holders a' M \<and> ab_refs b = word_of_nat (holders a' M)"
      using b last by (cases "a' = a") (auto simp: h1_def Some split: option.splits)
  qed
  moreover have "keeps M h h1"
    unfolding keeps_def
  proof (intro allI impI)
    fix d a' assume "d \<in># M" "ck_buf d = Some a'"
    with holders_pos [of d M a'] show "map_option ab_items (h1 a') = map_option ab_items (h a')"
      using b last by (auto simp: h1_def)
  qed
  ultimately show thesis by (rule that)
qed

lemma acquire_accounting:
  assumes "counts_ok h M" "ck_buf c = None \<or> (\<exists>d. d \<in># M \<and> ck_buf d = ck_buf c)"
  obtains h1 where "chunk_acquire c h = Some h1" "counts_ok h1 (add_mset c M)" "keeps M h h1"
    "\<And>a. map_option ab_items (h1 a) = map_option ab_items (h a)"
proof (cases "ck_buf c")
  case None
  with assms that [of h] show thesis by (simp add: chunk_acquire_def keeps_def)
next
  case (Some a)
  with assms obtain d where "d \<in># M" "ck_buf d = Some a" by auto
  with counts_ok_present [OF assms(1)] obtain b where b: "h a = Some b" by blast
  define h1 where "h1 = h(a \<mapsto> b\<lparr>ab_refs := ab_refs b + 1\<rparr>)"
  have "chunk_acquire c h = Some h1" by (simp add: chunk_acquire_def arc_acquire_def Some b h1_def)
  moreover have "counts_ok h1 (add_mset c M)"
    unfolding counts_ok_def
  proof
    fix a'
    from assms(1) have "case h a' of None \<Rightarrow> holders a' M = 0
      | Some b \<Rightarrow> 0 < holders a' M \<and> ab_refs b = word_of_nat (holders a' M)"
      unfolding counts_ok_def by blast
    then show "case h1 a' of None \<Rightarrow> holders a' (add_mset c M) = 0
      | Some b \<Rightarrow> 0 < holders a' (add_mset c M) \<and> ab_refs b = word_of_nat (holders a' (add_mset c M))"
      using b by (cases "a' = a") (auto simp: h1_def Some split: option.splits)
  qed
  moreover have items: "map_option ab_items (h1 a') = map_option ab_items (h a')" for a'
    using b by (simp add: h1_def)
  moreover from items have "keeps M h h1" by (simp add: keeps_def)
  ultimately show thesis using that by blast
qed

lemma alloc_accounting:
  assumes "counts_ok h M" "h a = None" "ck_buf c = Some a"
  shows "counts_ok (arc_alloc a items h) (add_mset c M)" "keeps M h (arc_alloc a items h)"
proof -
  have none: "holders a M = 0"
    using assms(1,2) by (auto simp: counts_ok_def dest: spec [of _ a])
  show "counts_ok (arc_alloc a items h) (add_mset c M)"
    unfolding counts_ok_def
  proof
    fix a'
    from assms(1) have "case h a' of None \<Rightarrow> holders a' M = 0
      | Some b \<Rightarrow> 0 < holders a' M \<and> ab_refs b = word_of_nat (holders a' M)"
      unfolding counts_ok_def by blast
    then show "case arc_alloc a items h a' of None \<Rightarrow> holders a' (add_mset c M) = 0
      | Some b \<Rightarrow> 0 < holders a' (add_mset c M) \<and> ab_refs b = word_of_nat (holders a' (add_mset c M))"
      using none assms(3) by (cases "a' = a") (auto simp: arc_alloc_def split: option.splits)
  qed
  show "keeps M h (arc_alloc a items h)"
    using none holders_pos [of _ M a] by (auto simp: keeps_def arc_alloc_def)
qed

text \<open>Temporaries: a chunk made by \<open>from\<close> or \<open>slice\<close> beside the variables \<open>M\<close>.\<close>

lemma make_accounting:
  assumes "counts_ok h M" "h a = None" "chunk_make a data h = (c, h1)"
  shows "counts_ok h1 (add_mset c M)" "keeps M h h1" "view_ok h1 c" "chunk_view h1 c = Some (chunk_from data)"
proof -
  let ?n = "word_of_nat (length data) :: 32 word"
  let ?c = "\<lparr>ck_buf = Some a, ck_offset = 0, ck_length = ?n\<rparr>"
  have "counts_ok h1 (add_mset c M) \<and> keeps M h h1 \<and> view_ok h1 c \<and>
      chunk_view h1 c = Some (chunk_from data)"
  proof (cases "data = []")
    case True
    with assms(1,3) show ?thesis
      by (auto simp: chunk_make_def null_chunk_def keeps_def view_ok_def chunk_view_def)
  next
    case False
    with assms(3) have c: "c = ?c" and h1: "h1 = arc_alloc a (take (unat ?n) data) h"
      by (simp_all add: chunk_make_def Let_def)
    have n: "unat ?n \<le> length data" by (simp add: unat_of_nat)
    have "unat ?n < 2 ^ 32" using unsigned_less [of ?n, where ?'a = nat] by simp
    with n have "view_ok h1 c" "chunk_view h1 c = Some (chunk_from data)"
      by (simp_all add: c h1 view_ok_def chunk_view_def arc_alloc_def chunk_from_def)
    with alloc_accounting [OF assms(1,2), of c] show ?thesis by (simp add: c h1)
  qed
  then show "counts_ok h1 (add_mset c M)" "keeps M h h1" "view_ok h1 c"
    "chunk_view h1 c = Some (chunk_from data)" by simp_all
qed

text \<open>Offsets do not wrap: a slice begins and ends inside its parent.\<close>

lemma cut_accounting:
  assumes "counts_ok h M" "u \<in># M" "view_ok h u"
  obtains c h1 where "chunk_cut u off len h = Some (c, h1)" "counts_ok h1 (add_mset c M)" "keeps M h h1"
    "view_ok h1 c" "chunk_view h1 c = Some (chunk_slice (the (chunk_view h u)) off len)"
proof (cases "ck_buf u")
  case None
  with assms that [of null_chunk h] show thesis
    by (simp add: chunk_cut_def null_chunk_def keeps_def view_ok_def chunk_view_def chunk_slice_take_drop)
next
  case (Some a)
  obtain b where b: "h a = Some b" using counts_ok_present [OF assms(1,2) Some] by blast
  let ?len = "unat (ck_length u)" and ?off = "unat (ck_offset u)"
  have fit: "?off + ?len \<le> length (ab_items b)" "length (ab_items b) < 2 ^ 32"
    using assms(3) Some b by (simp_all add: view_ok_def)
  have view: "chunk_view h u = Some (take ?len (drop ?off (ab_items b)))"
    by (simp add: chunk_view_def Some b)
  define n where "n = min len (?len - off)"
  have n_word: "unat (word_of_nat n :: 32 word) = n"
    using fit by (simp add: unat_of_nat n_def)
  show thesis
  proof (cases "off \<ge> ?len \<or> n = 0")
    case True
    then have "chunk_cut u off len h = Some (null_chunk, h)"
      using n_word by (auto simp: chunk_cut_def Some Let_def n_def)
    moreover from True have "chunk_slice (the (chunk_view h u)) off len = []"
      using fit by (auto simp: view chunk_slice_take_drop n_def min_def split: if_splits)
    ultimately show thesis using that [of null_chunk h] assms(1)
      by (simp add: null_chunk_def keeps_def view_ok_def chunk_view_def)
  next
    case False
    define c where "c = \<lparr>ck_buf = Some a, ck_offset = ck_offset u + word_of_nat off,
      ck_length = (word_of_nat n :: 32 word)\<rparr>"
    obtain h1 where h1: "chunk_acquire c h = Some h1" "counts_ok h1 (add_mset c M)" "keeps M h h1"
      "\<And>a. map_option ab_items (h1 a) = map_option ab_items (h a)"
      using acquire_accounting [OF assms(1), of c] assms(2) Some by (auto simp: c_def)
    have cut: "chunk_cut u off len h = Some (c, h1)"
      using h1(1) False n_word by (auto simp: chunk_cut_def chunk_acquire_def Some Let_def c_def n_def)
    have off: "unat (ck_offset c) = ?off + off"
      using False fit by (simp add: c_def unat_word_ariths unat_of_nat)
    obtain b1 where b1: "h1 a = Some b1" "ab_items b1 = ab_items b"
      using h1(4) [of a] b by auto
    have "view_ok h1 c"
      using False fit off n_word by (auto simp: view_ok_def c_def b1 n_def)
    moreover have "chunk_view h1 c = Some (take n (drop (off + ?off) (ab_items b)))"
      using off n_word by (simp add: chunk_view_def c_def b1 add.commute)
    moreover have "chunk_slice (the (chunk_view h u)) off len = take n (drop (off + ?off) (ab_items b))"
      by (simp add: view chunk_slice_take_drop drop_take n_def)
    ultimately show thesis using that [OF cut h1(2,3)] by simp
  qed
qed

subsection \<open>Steps refine assignments of values\<close>

definition contents_of :: "'a arc_heap \<Rightarrow> Chunk list \<Rightarrow> 'a list list" where
  "contents_of h vars = map (\<lambda>c. the (chunk_view h c)) vars"

lemma contents_keeps: "keeps (mset vars) h h1 \<Longrightarrow> contents_of h1 vars = contents_of h vars"
  by (simp add: contents_of_def keeps_view)

lemma views_keeps:
  "keeps (mset vars) h h1 \<Longrightarrow> list_all (view_ok h) vars \<Longrightarrow> list_all (view_ok h1) vars"
  by (simp add: list_all_iff keeps_view_ok)

lemma mset_remove_nth: "v < length vars \<Longrightarrow> mset vars = add_mset (vars ! v) (mset vars - {#vars ! v#})"
  by simp

text \<open>Assigning a temporary to a variable.\<close>

lemma assign_temp_ok:
  assumes "counts_ok h (add_mset c (mset vars))" "list_all (view_ok h) (c # vars)" "v < length vars"
    and small: "Suc (length vars) < 2 ^ 32"
  obtains s' where "assign_temp v c h vars = Some s'" "chunks_ok s'"
    "contents_of (cs_heap s') (cs_vars s') = (contents_of h vars)[v := the (chunk_view h c)]"
    "length (cs_vars s') = length vars"
proof -
  let ?M = "add_mset c (mset vars - {#vars ! v#})"
  have "add_mset c (mset vars) = add_mset (vars ! v) ?M" using assms(3) by simp
  moreover have "Suc (size ?M) < 2 ^ 32" using small assms(3) by (simp add: size_Diff_singleton)
  ultimately obtain h1 where h1: "chunk_drop (vars ! v) h = Some h1" "counts_ok h1 ?M" "keeps ?M h h1"
    using drop_accounting [of h "vars ! v" ?M] assms(1) by metis
  have m: "mset (vars[v := c]) = ?M" using assms(3) by (simp add: mset_update)
  have keep: "keeps (mset (vars[v := c])) h h1" using h1(3) by (simp only: m)
  have "list_all (view_ok h) (vars[v := c])"
    using assms(2) by (auto simp: list_all_iff dest!: set_update_subset_insert [THEN subsetD])
  from views_keeps [OF keep this] h1(2)
  have "chunks_ok \<lparr>cs_heap = h1, cs_vars = vars[v := c]\<rparr>" by (simp only: chunks_ok_def m chunk_state.simps simp_thms)
  moreover have "contents_of h1 (vars[v := c]) = (contents_of h vars)[v := the (chunk_view h c)]"
    using contents_keeps [OF keep] by (simp add: contents_of_def map_update)
  ultimately show thesis
    using that [of "\<lparr>cs_heap = h1, cs_vars = vars[v := c]\<rparr>"] h1(1) by (simp add: assign_temp_def)
qed

lemma chunk_step_ok:
  assumes ok: "chunks_ok s" and op: "op_ok op s" and small: "Suc (length (cs_vars s)) < 2 ^ 32"
  shows "\<exists>s'. chunk_step op s = Some s' \<and> chunks_ok s' \<and> length (cs_vars s') = length (cs_vars s) \<and>
    contents_of (cs_heap s') (cs_vars s') = chunk_spec op (contents_of (cs_heap s) (cs_vars s))"
proof -
  let ?h = "cs_heap s" and ?vars = "cs_vars s"
  have counts: "counts_ok ?h (mset ?vars)" and views: "list_all (view_ok ?h) ?vars"
    using ok by (simp_all add: chunks_ok_def)
  show ?thesis
  proof (cases op)
    case (op_make v a data)
    with op have v: "v < length ?vars" "?h a = None" by (simp_all add: op_ok_def)
    obtain c h1 where mk: "chunk_make a data ?h = (c, h1)" by fastforce
    note acc = make_accounting [OF counts v(2) mk]
    have "list_all (view_ok h1) (c # ?vars)"
      using acc(3) views_keeps [OF acc(2) views] by simp
    from assign_temp_ok [OF acc(1) this v(1) small] show ?thesis
      using acc(4) contents_keeps [OF acc(2)] mk by (auto simp: op_make)
  next
    case (op_slice v u off len)
    with op have v: "v < length ?vars" "u < length ?vars" by (simp_all add: op_ok_def)
    then have u: "?vars ! u \<in># mset ?vars" "view_ok ?h (?vars ! u)"
      using views by (simp_all add: list_all_length)
    obtain c h1 where cut: "chunk_cut (?vars ! u) off len ?h = Some (c, h1)"
      and acc: "counts_ok h1 (add_mset c (mset ?vars))" "keeps (mset ?vars) ?h h1" "view_ok h1 c"
      "chunk_view h1 c = Some (chunk_slice (the (chunk_view ?h (?vars ! u))) off len)"
      using cut_accounting [OF counts u] by metis
    have "list_all (view_ok h1) (c # ?vars)"
      using acc(3) views_keeps [OF acc(2) views] by simp
    then obtain s' where s': "assign_temp v c h1 ?vars = Some s'" "chunks_ok s'"
      "contents_of (cs_heap s') (cs_vars s') = (contents_of h1 ?vars)[v := the (chunk_view h1 c)]"
      "length (cs_vars s') = length ?vars"
      using assign_temp_ok [OF acc(1) _ v(1) small] by metis
    have "contents_of ?h ?vars ! u = the (chunk_view ?h (?vars ! u))"
      using v(2) by (simp add: contents_of_def)
    with s' contents_keeps [OF acc(2)] acc(4) cut show ?thesis by (simp add: op_slice)
  next
    case (op_reset v)
    with op have v: "v < length ?vars" by (simp add: op_ok_def)
    have "counts_ok ?h (add_mset null_chunk (mset ?vars))" "list_all (view_ok ?h) (null_chunk # ?vars)"
      using counts views by (simp_all add: null_chunk_def view_ok_def)
    from assign_temp_ok [OF this v small] show ?thesis
      by (auto simp: op_reset null_chunk_def chunk_view_def)
  next
    case (op_copy v u)
    with op have v: "v < length ?vars" "u < length ?vars" by (simp_all add: op_ok_def)
    show ?thesis
    proof (cases "v = u")
      case True
      have "u < length (contents_of ?h ?vars)" using v(2) by (simp add: contents_of_def)
      with True ok show ?thesis by (simp add: op_copy)
    next
      case False
      let ?c = "?vars ! u" and ?M = "mset ?vars - {#?vars ! v#}"
      have "counts_ok ?h (add_mset (?vars ! v) ?M)" using counts v(1) by simp
      moreover have "Suc (size ?M) < 2 ^ 32" using small v(1) by (simp add: size_Diff_singleton)
      ultimately obtain h1 where h1: "chunk_drop (?vars ! v) ?h = Some h1" "counts_ok h1 ?M" "keeps ?M ?h h1"
        using drop_accounting by metis
      have "mset (?vars[v := null_chunk]) = add_mset null_chunk ?M" using v by (simp add: mset_update)
      moreover have "?c \<in> set (?vars[v := null_chunk])" 
        using False v by (metis length_list_update nth_list_update_neq nth_mem)
      ultimately have "?c \<in># add_mset null_chunk ?M" by (metis set_mset_mset)
      then have "ck_buf ?c = None \<or> (\<exists>d. d \<in># ?M \<and> ck_buf d = ck_buf ?c)"
        by (auto simp: null_chunk_def)
      from acquire_accounting [OF h1(2) this] obtain h2 where h2: "chunk_acquire ?c h1 = Some h2"
        "counts_ok h2 (add_mset ?c ?M)" "keeps ?M h1 h2"
        "\<And>a. map_option ab_items (h2 a) = map_option ab_items (h1 a)" by metis
      have m: "mset (?vars[v := ?c]) = add_mset ?c ?M" using v by (simp add: mset_update)
      have keep: "keeps (mset (?vars[v := ?c])) ?h h2"
        unfolding m using keeps_trans [OF h1(3) h2(3)] \<open>?c \<in># add_mset null_chunk ?M\<close>
        by (auto simp: keeps_def null_chunk_def)
      have "list_all (view_ok ?h) (?vars[v := ?c])"
        using views v by (auto simp: list_all_iff dest!: set_update_subset_insert [THEN subsetD])
      from views_keeps [OF keep this] h2(2)
      have "chunks_ok \<lparr>cs_heap = h2, cs_vars = ?vars[v := ?c]\<rparr>"
        by (simp only: chunks_ok_def m chunk_state.simps simp_thms)
      moreover have "contents_of h2 (?vars[v := ?c]) = chunk_spec op (contents_of ?h ?vars)"
        using contents_keeps [OF keep] v by (simp add: contents_of_def map_update op_copy)
      ultimately show ?thesis using h1(1) h2(1) False by (simp add: op_copy Let_def)
    qed
  next
    case (op_move v u)
    with op have v: "v < length ?vars" "u < length ?vars" by (simp_all add: op_ok_def)
    show ?thesis
    proof (cases "v = u")
      case True
      with ok show ?thesis by (simp add: op_move)
    next
      case False
      let ?M = "mset ?vars - {#?vars ! v#}" and ?new = "?vars[v := ?vars ! u, u := null_chunk]"
      have "counts_ok ?h (add_mset (?vars ! v) ?M)" using counts v(1) by simp
      moreover have "Suc (size ?M) < 2 ^ 32" using small v(1) by (simp add: size_Diff_singleton)
      ultimately obtain h1 where h1: "chunk_drop (?vars ! v) ?h = Some h1" "counts_ok h1 ?M" "keeps ?M ?h h1"
        using drop_accounting by metis
      have "mset ?new = add_mset null_chunk (add_mset (?vars ! u) ?M - {#?vars[v := ?vars ! u] ! u#})"
        using v by (simp add: mset_update)
      also have "\<dots> = add_mset null_chunk ?M" using False by simp
      finally have m: "mset ?new = add_mset null_chunk ?M" .
      have keep: "keeps (mset ?new) ?h h1"
        unfolding m using h1(3) by (auto simp: keeps_def null_chunk_def)
      have "c \<in> insert null_chunk (set ?vars)" if "c \<in> set ?new" for c
        using that v by (auto dest!: set_update_subset_insert [THEN subsetD])
      moreover have "view_ok ?h null_chunk" by (simp add: null_chunk_def view_ok_def)
      ultimately have "list_all (view_ok ?h) ?new"
        using views unfolding list_all_iff by blast
      from views_keeps [OF keep this] h1(2)
      have "chunks_ok \<lparr>cs_heap = h1, cs_vars = ?new\<rparr>"
        by (simp only: chunks_ok_def m chunk_state.simps simp_thms) (simp add: null_chunk_def)
      moreover have "contents_of h1 ?new = chunk_spec op (contents_of ?h ?vars)"
        using contents_keeps [OF keep] v False
        by (simp add: contents_of_def map_update op_move null_chunk_def chunk_view_def)
      ultimately show ?thesis using h1(1) False by (simp add: op_move)
    qed
  qed
qed

fun chunk_run :: "'a chunk_op list \<Rightarrow> 'a chunk_state \<Rightarrow> 'a chunk_state option" where
  "chunk_run [] s = Some s"
| "chunk_run (op # ops) s = do { s' \<leftarrow> chunk_step op s; chunk_run ops s' }"

text \<open>The operations are within the variables, and the allocator returns free addresses.\<close>

fun run_ok :: "'a chunk_op list \<Rightarrow> 'a chunk_state \<Rightarrow> bool" where
  "run_ok [] s \<longleftrightarrow> True"
| "run_ok (op # ops) s \<longleftrightarrow> op_ok op s \<and> (case chunk_step op s of None \<Rightarrow> True | Some s' \<Rightarrow> run_ok ops s')"

lemma chunk_run_ok:
  "chunks_ok s \<Longrightarrow> run_ok ops s \<Longrightarrow> Suc (length (cs_vars s)) < 2 ^ 32 \<Longrightarrow> \<exists>s'. chunk_run ops s = Some s' \<and> chunks_ok s' \<and>
    contents_of (cs_heap s') (cs_vars s') = fold chunk_spec ops (contents_of (cs_heap s) (cs_vars s))"
proof (induction ops arbitrary: s)
  case (Cons op ops)
  from chunk_step_ok [OF Cons.prems(1) _ Cons.prems(3), of op] Cons.prems(2) obtain s1 where
    s1: "chunk_step op s = Some s1" "chunks_ok s1" "length (cs_vars s1) = length (cs_vars s)"
    "contents_of (cs_heap s1) (cs_vars s1) = chunk_spec op (contents_of (cs_heap s) (cs_vars s))" by auto
  with Cons.IH [OF s1(2)] Cons.prems(2,3) show ?case by simp
qed simp

definition start_state :: "nat \<Rightarrow> 'a chunk_state" where
  "start_state n = \<lparr>cs_heap = Map.empty, cs_vars = replicate n null_chunk\<rparr>"

lemma start_state_ok: "chunks_ok (start_state n)"
proof -
  have "holders a (mset (replicate n null_chunk)) = 0" for a
    by (induction n) (simp_all add: null_chunk_def)
  then show ?thesis
    by (simp add: chunks_ok_def start_state_def counts_ok_def list_all_iff view_ok_def null_chunk_def)
qed

lemma holders_zero: "(\<And>c. c \<in># M \<Longrightarrow> ck_buf c \<noteq> Some a) \<Longrightarrow> holders a M = 0"
  by (induction M) simp_all

text \<open>Nothing is leaked: with no variable referring to a buffer, the heap is empty.\<close>

lemma no_leak:
  assumes "chunks_ok s" "\<And>c. c \<in> set (cs_vars s) \<Longrightarrow> ck_buf c = None"
  shows "cs_heap s = Map.empty"
proof
  fix a
  have "holders a (mset (cs_vars s)) = 0"
    using assms(2) by (intro holders_zero) auto
  with assms(1) show "cs_heap s a = None"
    by (auto simp: chunks_ok_def counts_ok_def dest!: spec [of _ a] split: option.splits)
qed

end
