(* ===== verification/Stream_Properties.thy ===== *)
theory Stream_Properties
  imports Stream_Contract Record_Stream Arc_Chunk Compression
begin

text \<open>
  The properties of streams and chunks: what pipelines deliver, the end of a stream, the shared
  buffers behind the chunks, repacking, and compression.
\<close>

text \<open>
  C9: A pipeline over any source, mapping, then filtering, then taking, whatever chunks the source cuts its
  elements into: if the pulls of the source give the chunks \<open>cs\<close> and then its end or an error, \<open>collect\<close>
  over the pipeline returns the first \<open>n\<close> elements of the filtered and mapped elements of all the chunks, in
  order. The error of the source is the result only when fewer than \<open>n\<close> elements came before it.
\<close>

theorem pipeline_collects:
  assumes "yields src s w cs out s' w'"
  shows "\<exists>s2 w2. collect (take_pull (filter_pull p (map_pull f src)))
      \<lparr>take_source = \<lparr>filter_source = \<lparr>map_source = s\<rparr>\<rparr>, take_remaining = n\<rparr> w =
    Some (let xs = filter p (map f (concat cs)) in
      (if n \<le> length xs then Inr (take n xs) else outcome out xs), s2, w2)"
proof -
  let ?xs = "filter p (map f (concat cs))" and ?cs = "nonempty_chunks (map (filter p) (map (map f) cs))"
  have elems: "concat ?cs = ?xs" by (simp add: filter_concat map_concat comp_def)
  obtain s2 w2 where "yields (take_pull (filter_pull p (map_pull f src)))
      \<lparr>take_source = \<lparr>filter_source = \<lparr>map_source = s\<rparr>\<rparr>, take_remaining = n\<rparr> w
      (take_chunks n ?cs) (if n \<le> length (concat ?cs) then None else out) s2 w2"
    using take_yields [OF filter_yields [OF map_yields [OF assms]]] by blast
  from collect_yields [OF this, unfolded concat_take_chunks elems] show ?thesis
    by (intro exI [of _ s2] exI [of _ w2]) (simp add: Let_def)
qed

text \<open>A source of two chunks, the first with nothing that the filter keeps, and a limit inside the second.\<close>

lemma pipeline_collects_witness:
  "\<exists>s2 w2. collect (take_pull (filter_pull (\<lambda>x. x > 30) (map_pull (\<lambda>x. 10 * x)
      (flat_map_pull from_vector from_vector_pull from_vector_pull))))
      \<lparr>take_source = \<lparr>filter_source = \<lparr>map_source =
        \<lparr>fm_source = from_vector [[1::nat, 2], [3, 4, 5, 6]], fm_current_sub = None, fm_pending = []\<rparr>\<rparr>\<rparr>,
        take_remaining = 2\<rparr> () = Some (Inr [40, 50], s2, w2)"
proof -
  let ?d = "[[1::nat, 2], [3, 4, 5, 6]]"
  obtain s' where "pure_yields (from_vector_pull :: (unit, _, _) pull) (from_vector ?d) [?d] None s'"
    using from_vector_yields [of ?d] by (auto simp: chunk_from_small)
  from pure_yields_yields [OF this] have y: "yields from_vector_pull (from_vector ?d) () [?d] None s' ()" .
  have "\<forall>x\<in>set (concat [?d]). \<exists>t'. pure_yields from_vector_pull (from_vector x) ((\<lambda>x. [x]) x) None t'"
    using from_vector_yields [of "[1::nat, 2]"] from_vector_yields [of "[3::nat, 4, 5, 6]"]
    by (auto simp: chunk_from_small)
  with flat_map_yields [OF y] have "\<exists>s'. yields (flat_map_pull from_vector from_vector_pull from_vector_pull)
      \<lparr>fm_source = from_vector ?d, fm_current_sub = None, fm_pending = []\<rparr> () ?d None s' ()" by fastforce
  then show ?thesis
    using pipeline_collects [where p = "\<lambda>x. x > 30" and f = "\<lambda>x. 10 * x" and n = 2] by fastforce
qed

text \<open>
  A finished pipeline stays finished: once a pull of a mapped, filtered or limited vector has said that
  the stream is done, every later pull says so too, after any number of pulls.
\<close>

theorem finished_stays_finished:
  assumes "filter_pull p from_vector_pull s w = Some (Inr None, s', w')"
  shows "\<exists>s2 w2 s3 w3. after_pulls (filter_pull p from_vector_pull) n s' w' = Some (s2, w2) \<and>
    filter_pull p from_vector_pull s2 w2 = Some (Inr None, s3, w3)"
  using vector.filtered.done_for_ever [OF _ assms] by simp

lemma finished_stays_finished_witness:
  "\<exists>s2 w2 s3 w3. after_pulls (filter_pull (\<lambda>x. x > (5::nat)) from_vector_pull) 2
      \<lparr>filter_source = \<lparr>fv_data = None\<rparr>\<rparr> () = Some (s2, w2) \<and>
    filter_pull (\<lambda>x. x > 5) from_vector_pull s2 w2 = Some (Inr None, s3, w3)"
proof -
  have "filter_pull (\<lambda>x. x > (5::nat)) from_vector_pull \<lparr>filter_source = \<lparr>fv_data = Some [1]\<rparr>\<rparr> () =
      Some (Inr None, \<lparr>filter_source = \<lparr>fv_data = None\<rparr>\<rparr>, ())"
    by (simp add: filter_pull.simps from_vector_pull_def Let_def chunk_from_small)
  from finished_stays_finished [OF this] show ?thesis .
qed

text \<open>
  \<open>flat_map\<close> delivers the chunks of the streams that the elements of the source are mapped to, in the
  order of the elements, and then what ends the source: its end or its error.
\<close>

theorem flat_map_flattens:
  assumes "yields src s w cs out s' w'"
    and "\<forall>x\<in>set (concat cs). \<exists>t'. pure_yields sub (fn x) (subs x) None t'"
  shows "yields (flat_map_pull fn src sub) \<lparr>fm_source = s, fm_current_sub = None, fm_pending = []\<rparr> w
     (concat (map subs (concat cs))) out \<lparr>fm_source = s', fm_current_sub = None, fm_pending = []\<rparr> w'"
  by (rule flat_map_yields [OF assms(1)]) (use assms(2) in blast)

lemma flat_map_flattens_witness:
  "\<exists>s' w'. yields (flat_map_pull from_vector from_vector_pull from_vector_pull)
     \<lparr>fm_source = from_vector [[1::nat, 2], [3]], fm_current_sub = None, fm_pending = []\<rparr> ()
     [[1, 2], [3]] None s' w'"
proof -
  obtain s' where "pure_yields (from_vector_pull :: (unit, _, _) pull) (from_vector [[1::nat, 2], [3]]) [[[1, 2], [3]]] None s'"
    using from_vector_yields [of "[[1::nat, 2], [3]]"] by (auto simp: chunk_from_small)
  from pure_yields_yields [OF this] have
    y: "yields from_vector_pull (from_vector [[1::nat, 2], [3]]) () [[[1, 2], [3]]] None s' ()" .
  have "\<forall>x\<in>set (concat [[[1::nat, 2], [3]]]). \<exists>t'. pure_yields from_vector_pull (from_vector x) ((\<lambda>x. [x]) x) None t'"
    using from_vector_yields [of "[1::nat, 2]"] from_vector_yields [of "[3::nat]"] by (auto simp: chunk_from_small)
  from flat_map_flattens [OF y this] show ?thesis by auto
qed

text \<open>
  C10: The reference counts of chunks are exact: starting from fewer than \<open>2 ^ 32 - 1\<close> variables that hold
  nothing (the count is a 32-bit integer that wraps around, so more holders would let it reach 1 too early), any
  sequence of constructions, copies, moves, slices and ends of lifetime, in which the allocator returns free
  addresses, runs without touching a freed buffer; the variables then show what list values would
  show; and if no variable refers to a buffer any more, every buffer has been freed.
\<close>

theorem chunk_operations_are_values:
  fixes ops :: "'a chunk_op list"
  assumes "run_ok ops (start_state n)" and "Suc n < 2 ^ 32"
  shows "\<exists>s'. chunk_run ops (start_state n) = Some s' \<and>
    contents_of (cs_heap s') (cs_vars s') = fold chunk_spec ops (replicate n []) \<and>
    ((\<forall>c\<in>set (cs_vars s'). ck_buf c = None) \<longrightarrow> cs_heap s' = Map.empty)"
proof -
  let ?s = "start_state n :: 'a chunk_state"
  have c0: "contents_of (cs_heap ?s) (cs_vars ?s) = replicate n []"
    by (simp add: contents_of_def start_state_def null_chunk_def chunk_view_def map_replicate)
  obtain s' where s': "chunk_run ops (start_state n) = Some s'" "chunks_ok s'"
    "contents_of (cs_heap s') (cs_vars s') = fold chunk_spec ops (contents_of (cs_heap ?s) (cs_vars ?s))"
    using chunk_run_ok [OF start_state_ok assms(1)] assms(2) by (auto simp: start_state_def)
  have "(\<forall>c\<in>set (cs_vars s'). ck_buf c = None) \<longrightarrow> cs_heap s' = Map.empty"
    by (intro impI no_leak [OF s'(2)]) simp
  with s'(1) s'(3) [unfolded c0] show ?thesis by (intro exI [of _ s'] conjI)
qed

lemma chunk_operations_are_values_witness:
  "\<exists>s'. chunk_run [op_make 0 9 ''abcd'', op_slice 1 0 1 2, op_reset 0] (start_state 2) = Some s' \<and>
    contents_of (cs_heap s') (cs_vars s') = [[], ''bc'']"
proof -
  have "run_ok [op_make 0 9 ''abcd'', op_slice 1 0 1 2, op_reset 0] (start_state 2)"
    by code_simp
  moreover have "Suc 2 < 2 ^ 32" by simp
  moreover have "fold chunk_spec [op_make 0 9 ''abcd'', op_slice 1 0 1 2, op_reset 0] (replicate 2 []) = [[], ''bc'']"
    by code_simp
  ultimately show ?thesis
    using chunk_operations_are_values [of "[op_make 0 9 ''abcd'', op_slice 1 0 1 2, op_reset 0]" 2] by metis
qed

text \<open>
  \<open>batch(n)\<close> repacks a record stream: for \<open>0 < n < 2 ^ 32\<close> its chunks hold the same records in the same order,
  all of \<open>n\<close> records but the last, which holds at least one.
\<close>

theorem batch_repacks:
  assumes "0 < n" "n < 2 ^ 32" "yields src s w cs None s' w'"
  shows "\<exists>t bs. yields (batch_pull src) (batch_of s n) w bs None t w' \<and> concat bs = concat cs \<and>
    (\<forall>b\<in>set (butlast bs). length b = n) \<and> (\<forall>b\<in>set bs. 0 < length b \<and> length b \<le> n)"
proof -
  obtain t where t: "yields (batch_pull src) (batch_of s n) w (repack n (concat cs)) None t w'"
    using batch_yields [OF assms] by blast
  have "(\<forall>b\<in>set (butlast (repack n xs)). length b = n) \<and> (\<forall>b\<in>set (repack n xs). 0 < length b \<and> length b \<le> n)" for xs :: "'c Record list"
  proof (cases "repack n xs" rule: rev_cases)
    case (snoc ds d)
    from repack_sizes [OF assms(1) this] assms(1) show ?thesis by (auto simp: snoc)
  qed simp
  with t concat_repack [OF assms(1)] show ?thesis by blast
qed

lemma batch_repacks_witness:
  "\<exists>t bs. yields (batch_pull from_vector_pull) (batch_of (stream_of [Rec ''a'' (1::nat), Rec ''b'' 2, Rec ''c'' 3]) 2) ()
      bs None t () \<and> concat bs = [Rec ''a'' 1, Rec ''b'' 2, Rec ''c'' 3] \<and> (\<forall>b\<in>set (butlast bs). length b = 2)"
proof -
  let ?rs = "[Rec ''a'' (1::nat), Rec ''b'' 2, Rec ''c'' 3]"
  obtain s' where "pure_yields (from_vector_pull :: (unit, _, _) pull) (from_vector ?rs) [?rs] None s'"
    using from_vector_yields [of ?rs] by (auto simp: chunk_from_small)
  then have y: "yields from_vector_pull (stream_of ?rs) () [?rs] None s' ()"
    unfolding stream_of_def by (rule pure_yields_yields)
  have "0 < (2::nat)" "(2::nat) < 2 ^ 32" by simp_all
  from batch_repacks [OF this y] show ?thesis by auto
qed

text \<open>
  C11: Compression is undone by decompression, chunk by chunk: with codecs of the libraries that do what
  they document, decompressing the compressed stream yields the chunks of the source (of at most 256 MiB) and
  then its end or its error.
\<close>

theorem compressed_stream_restored:
  assumes "libs_ok libs" "is_available libs codec"
    and "yields src s w cs out s' w'" "list_all (\<lambda>c. length c \<le> 268435456) cs"
  shows "yields (decompress_pull libs (compress_pull libs src))
    (decompress_stream (compress_stream s codec) codec) w cs out
    (decompress_stream (compress_stream s' codec) codec) w'"
  using compressed_stream_roundtrip [OF assms(3,1,2,4)] .

text \<open>A codec that marks what it compressed.\<close>

definition marking_libs :: codec_libs where
  "marking_libs = \<lparr>snappy_compress = Some (\<lambda>x. CHR ''s'' # x), snappy_uncompress = (\<lambda>x. Some (tl x)),
     lz4_compress = None, lz4_decompress = (\<lambda>x n. None)\<rparr>"

lemma compressed_stream_restored_witness:
  "\<exists>s'. yields (decompress_pull marking_libs (compress_pull marking_libs from_string_pull))
    (decompress_stream (compress_stream (from_string ''hello'') snappy) snappy) () [''hello''] None s' ()"
proof -
  obtain s' where "pure_yields (from_string_pull :: (unit, _, _) pull) (from_string ''hello'') [''hello''] None s'"
    using from_string_yields [of "''hello''"] by (auto simp: chunk_from_small)
  from pure_yields_yields [OF this] have y: "yields from_string_pull (from_string ''hello'') () [''hello''] None s' ()" .
  have "libs_ok marking_libs" "is_available marking_libs snappy" "list_all (\<lambda>c. length c \<le> 268435456) [''hello'']"
    by (simp_all add: libs_ok_def marking_libs_def is_available_def)
  from compressed_stream_restored [OF this(1,2) y this(3)] show ?thesis by blast
qed

text \<open>
  Decompression refuses what it cannot hold: a frame shorter than its header, or one whose header claims more
  than 256 MiB, is an error, and no library is called for it; an uncompressed frame is accepted whatever its header
  claims up to that limit, so a truncated body goes unnoticed.
\<close>

theorem decompress_limits:
  "(length data < 4 \<longrightarrow> decompress_block libs data codec = Inl (decompress_error ''frame too short (< 4 bytes)'')) \<and>
   (4 \<le> length data \<and> 268435456 < unat (read_le32 data) \<longrightarrow>
      decompress_block libs data codec = Inl (decompress_error ''claimed original size exceeds 256 MiB safety limit'')) \<and>
   (4 \<le> length data \<and> unat (read_le32 data) \<le> 268435456 \<longrightarrow> decompress_block libs data no_codec = Inr (drop 4 data))"
  by (auto simp: decompress_block_def Let_def word_less_nat_alt max_size_unat)

lemma decompress_limits_witness:
  "decompress_block marking_libs ''abc'' snappy = Inl (decompress_error ''frame too short (< 4 bytes)'')"
  using decompress_limits [of "''abc''" marking_libs snappy] by simp

end
