(* ===== verification/Planner.thy ===== *)
theory Planner
  imports Store_Ref
begin

text \<open>
  The join planner (\<open>include/celer/materialization/planner.hpp\<close>): from the capabilities of both
  sides and the caller's options to a strategy, a batch size and a rationale. The consistency
  mode is carried and never read.
\<close>

datatype JoinKind = Inner | LeftOuter | RightOuter | FullOuter | SemiLeft | AntiLeft

datatype JoinStrategy = Auto | BatchIndexNestedLoop | IndexNestedLoop | HashJoin | MergeJoin | NestedLoop

datatype ConsistencyMode = ReadCommitted | SnapshotIsolation

record JoinOptions =
  jopt_kind :: JoinKind
  jopt_force_strategy :: JoinStrategy
  jopt_consistency :: ConsistencyMode
  jopt_batch_size :: nat
  jopt_hash_build_cap :: nat
  jopt_limit :: nat
  jopt_dedupe_left_keys :: bool

definition default_join_options :: JoinOptions where
  "default_join_options = \<lparr>jopt_kind = Inner, jopt_force_strategy = Auto,
     jopt_consistency = ReadCommitted, jopt_batch_size = 0, jopt_hash_build_cap = 0, jopt_limit = 0,
     jopt_dedupe_left_keys = True\<rparr>"

record JoinPlan =
  plan_strategy :: JoinStrategy
  plan_batch_size :: nat
  plan_rationale :: string

record PlannerInputs =
  pi_left_caps :: StoreCapabilities
  pi_right_caps :: StoreCapabilities
  pi_opts :: JoinOptions

definition plan :: "PlannerInputs \<Rightarrow> JoinPlan" where
  "plan inp =
    (let opts = pi_opts inp; rcaps = pi_right_caps inp; lcaps = pi_left_caps inp;
         bs = (\<lambda>d. if jopt_batch_size opts > 0 then jopt_batch_size opts else d);
         right_local = (caps_cost_tier rcaps = Local \<or> caps_cost_tier rcaps = Embedded);
         right_network = (caps_cost_tier rcaps = Network) in
     if jopt_force_strategy opts \<noteq> Auto then
       \<lparr>plan_strategy = jopt_force_strategy opts, plan_batch_size = bs 1024,
        plan_rationale = ''user-pinned strategy''\<rparr>
     else if caps_native_batch_get rcaps \<and> right_local then
       \<lparr>plan_strategy = BatchIndexNestedLoop, plan_batch_size = bs 1024,
        plan_rationale = ''right side has native batch get; local cost tier''\<rparr>
     else if caps_native_batch_get rcaps \<and> right_network then
       \<lparr>plan_strategy = BatchIndexNestedLoop, plan_batch_size = bs 256,
        plan_rationale = ''right side has native batch get; network round-trip dominates''\<rparr>
     else if right_local \<and> caps_cost_tier lcaps = Local \<and> jopt_hash_build_cap opts > 0 then
       \<lparr>plan_strategy = HashJoin, plan_batch_size = bs 1024,
        plan_rationale = ''both sides local with bounded hash build cap''\<rparr>
     else
       \<lparr>plan_strategy = IndexNestedLoop, plan_batch_size = 1,
        plan_rationale = ''no batch get available; per-row probe''\<rparr>)"

text \<open>A planned batch is never empty, and \<open>Auto\<close> is never the answer.\<close>

lemma plan_progress: "0 < plan_batch_size (plan inp)"
  by (simp add: plan_def Let_def)

lemma plan_not_auto: "plan_strategy (plan inp) \<noteq> Auto"
  by (auto simp: plan_def Let_def)

lemma plan_forced:
  "jopt_force_strategy (pi_opts inp) \<noteq> Auto \<Longrightarrow> plan_strategy (plan inp) = jopt_force_strategy (pi_opts inp)"
  by (simp add: plan_def Let_def)

lemma plan_batch_iff:
  assumes "jopt_force_strategy (pi_opts inp) = Auto"
  shows "plan_strategy (plan inp) = BatchIndexNestedLoop \<longleftrightarrow>
    caps_native_batch_get (pi_right_caps inp) \<and> caps_cost_tier (pi_right_caps inp) \<noteq> Computed"
  using assms by (cases "caps_cost_tier (pi_right_caps inp)") (simp_all add: plan_def Let_def)

lemma plan_auto_range:
  "jopt_force_strategy (pi_opts inp) = Auto \<Longrightarrow>
    plan_strategy (plan inp) \<in> {BatchIndexNestedLoop, HashJoin, IndexNestedLoop}"
  by (simp add: plan_def Let_def)

text \<open>
  A left side that is not local (a stream always counts as computed) is never joined by hashing
  unless the caller pins the strategy, whatever cap on the build side the caller gives.
\<close>

lemma plan_never_hash:
  "jopt_force_strategy (pi_opts inp) = Auto \<Longrightarrow> caps_cost_tier (pi_left_caps inp) \<noteq> Local \<Longrightarrow>
    plan_strategy (plan inp) \<noteq> HashJoin"
  by (simp add: plan_def Let_def)

end
