(* ===== verification/Join.thy ===== *)
theory Join
  imports Planner Record_Stream
begin

text \<open>
  The join executor (\<open>include/celer/materialization/join.hpp\<close>): three stream implementations
  (batched index lookup, hash, nested loop), their common output queue, and \<open>join\<close>, which plans,
  builds the right side where the strategy needs it and wraps the result as records.

  The three implementations have the same output fields and the same \<open>pull\<close>; the record
  \<open>join_out\<close> holds the fields, the implementations extend it, and \<open>join_pull\<close> is the shared body
  over each one's \<open>refill\<close>. A \<open>DenseMap<Key, V>\<close> is the list of its entries: only lookup,
  insertion of a new key and the size are used.
\<close>

record ('l, 'r) Joined =
  jn_key :: string
  jn_left :: 'l
  jn_right :: "'r option"

definition should_emit :: "JoinKind \<Rightarrow> bool \<Rightarrow> bool" where
  "should_emit k right_present = (case k of
      Inner \<Rightarrow> right_present
    | LeftOuter \<Rightarrow> True
    | SemiLeft \<Rightarrow> right_present
    | AntiLeft \<Rightarrow> \<not> right_present
    | RightOuter \<Rightarrow> right_present
    | FullOuter \<Rightarrow> True)"

subsection \<open>The output queue\<close>

record ('l, 'r) join_out =
  jo_kind :: JoinKind
  jo_limit_remaining :: nat
  jo_has_limit :: bool
  jo_pending :: "('l, 'r) Joined list"
  jo_cursor :: nat
  jo_upstream_done :: bool

text \<open>The loop of \<open>pull\<close> that refills until there is output: success with output or the end.\<close>

partial_function (option) join_fill ::
  "(('l, 'r, 'z) join_out_scheme \<Rightarrow> 'w \<Rightarrow> (unit result \<times> ('l, 'r, 'z) join_out_scheme \<times> 'w) option) \<Rightarrow>
    ('l, 'r, 'z) join_out_scheme \<Rightarrow> 'w \<Rightarrow> (bool result \<times> ('l, 'r, 'z) join_out_scheme \<times> 'w) option" where
  "join_fill refill s w =
     (if jo_cursor s \<ge> length (jo_pending s) then
        (if jo_upstream_done s \<and> jo_pending s = [] then Some (Inr False, s, w)
         else do {
           (r, s', w') \<leftarrow> refill (s\<lparr>jo_pending := [], jo_cursor := 0\<rparr>) w;
           (case r of
              Inl e \<Rightarrow> Some (Inl e, s', w')
            | Inr _ \<Rightarrow> if jo_pending s' = [] \<and> jo_upstream_done s' then Some (Inr False, s', w')
                else join_fill refill s' w') })
      else Some (Inr True, s, w))"

definition join_drain :: "('l, 'r, 'z) join_out_scheme \<Rightarrow> ('l, 'r) Joined list \<times> ('l, 'r, 'z) join_out_scheme" where
  "join_drain s =
    (let drain = drop (jo_cursor s) (jo_pending s);
         s1 = s\<lparr>jo_cursor := length (jo_pending s)\<rparr> in
     if jo_has_limit s then
       (let drain2 = (if length drain > jo_limit_remaining s then take (jo_limit_remaining s) drain else drain);
            remaining = jo_limit_remaining s - length drain2;
            s2 = s1\<lparr>jo_limit_remaining := remaining\<rparr>;
            s3 = (if remaining = 0 then s2\<lparr>jo_upstream_done := True\<rparr> else s2)
        in (chunk_from drain2, s3))
     else (chunk_from drain, s1))"

definition join_pull ::
  "(('l, 'r, 'z) join_out_scheme \<Rightarrow> 'w \<Rightarrow> (unit result \<times> ('l, 'r, 'z) join_out_scheme \<times> 'w) option) \<Rightarrow>
    ('w, ('l, 'r, 'z) join_out_scheme, ('l, 'r) Joined) pull" where
  "join_pull refill s w = do {
     (r, s', w') \<leftarrow> join_fill refill s w;
     (case r of
        Inl e \<Rightarrow> Some (Inl e, s', w')
      | Inr False \<Rightarrow> Some (Inr None, s', w')
      | Inr True \<Rightarrow> (let (c, s2) = join_drain s' in Some (Inr (Some c), s2, w'))) }"

text \<open>Queueing one result: whether the limit is reached.\<close>

definition emit :: "('l, 'r) Joined \<Rightarrow> ('l, 'r, 'z) join_out_scheme \<Rightarrow> bool \<times> ('l, 'r, 'z) join_out_scheme" where
  "emit j s =
    (let s1 = s\<lparr>jo_pending := jo_pending s @ [j]\<rparr> in
     if jo_has_limit s1 \<and> length (jo_pending s1) \<ge> jo_limit_remaining s1
     then (True, s1\<lparr>jo_upstream_done := True\<rparr>) else (False, s1))"

subsection \<open>Batched index lookup\<close>

record ('l, 'r, 's) BatchIndexNLImpl = "('l, 'r) join_out" +
  bi_left_src :: 's
  bi_batch_size :: nat
  bi_leftover :: "'l Record list"
  bi_leftover_idx :: nat

text \<open>The loop that collects a batch of left records.\<close>

partial_function (option) bi_fill_batch ::
  "('w, 's, 'l Record) pull \<Rightarrow> 'l Record list \<Rightarrow> ('l, 'r, 's) BatchIndexNLImpl \<Rightarrow> 'w \<Rightarrow>
     ('l Record list result \<times> ('l, 'r, 's) BatchIndexNLImpl \<times> 'w) option" where
  "bi_fill_batch src left_batch s w =
     (if length left_batch < bi_batch_size s then
        (if bi_leftover_idx s < length (bi_leftover s) then
           bi_fill_batch src (left_batch @ [bi_leftover s ! bi_leftover_idx s])
             (s\<lparr>bi_leftover_idx := bi_leftover_idx s + 1\<rparr>) w
         else if jo_upstream_done s then Some (Inr left_batch, s, w)
         else do {
           (r, src', w') \<leftarrow> src (bi_left_src s) w;
           let s' = s\<lparr>bi_left_src := src'\<rparr>;
           (case r of
              Inl e \<Rightarrow> Some (Inl e, s', w')
            | Inr None \<Rightarrow> Some (Inr left_batch, s'\<lparr>jo_upstream_done := True\<rparr>, w')
            | Inr (Some chunk) \<Rightarrow>
                bi_fill_batch src left_batch (s'\<lparr>bi_leftover := chunk, bi_leftover_idx := 0\<rparr>) w') })
      else Some (Inr left_batch, s, w))"

text \<open>The keys of the rows and, for each row, the slot of its key among the distinct keys.\<close>

fun dedupe_keys :: "('l Record \<Rightarrow> string result) \<Rightarrow> 'l Record list \<Rightarrow> string list \<Rightarrow> nat list \<Rightarrow>
    (Key \<times> nat) list \<Rightarrow> string list \<Rightarrow> (string list \<times> nat list \<times> string list) result" where
  "dedupe_keys extract [] row_keys unique_idx dedupe unique_storage = Inr (row_keys, unique_idx, unique_storage)"
| "dedupe_keys extract (rec # recs) row_keys unique_idx dedupe unique_storage = (case extract rec of
      Inl e \<Rightarrow> Inl e
    | Inr enc \<Rightarrow> (case map_of dedupe (make_key enc) of
        Some slot \<Rightarrow> dedupe_keys extract recs (row_keys @ [enc]) (unique_idx @ [slot]) dedupe unique_storage
      | None \<Rightarrow> (let slot = length unique_storage in
          dedupe_keys extract recs (row_keys @ [enc]) (unique_idx @ [slot])
            ((make_key enc, slot) # dedupe) (unique_storage @ [enc]))))"

text \<open>The probe loop over the rows, each with its key and slot; it stops at the limit.\<close>

fun bi_probe :: "(string \<times> 'r option) list \<Rightarrow> ('l Record \<times> string \<times> nat) list \<Rightarrow>
    ('l, 'r, 's) BatchIndexNLImpl \<Rightarrow> ('l, 'r, 's) BatchIndexNLImpl" where
  "bi_probe fetched [] s = s"
| "bi_probe fetched ((rec, key, slot) # rows) s =
     (let found = snd (fetched ! slot) in
      if \<not> should_emit (jo_kind s) (found \<noteq> None) then bi_probe fetched rows s
      else let (stop, s') = emit \<lparr>jn_key = key, jn_left = rec_value rec, jn_right = found\<rparr> s in
        if stop then s' else bi_probe fetched rows s')"

definition bi_refill :: "('l Record \<Rightarrow> string result) \<Rightarrow> 'r codec \<Rightarrow> 'w StoreRef \<Rightarrow> ('w, 's, 'l Record) pull \<Rightarrow>
    ('l, 'r, 's) BatchIndexNLImpl \<Rightarrow> 'w \<Rightarrow> (unit result \<times> ('l, 'r, 's) BatchIndexNLImpl \<times> 'w) option" where
  "bi_refill extract cd right src s w = do {
     (r, s1, w1) \<leftarrow> bi_fill_batch src [] s w;
     (case r of
        Inl e \<Rightarrow> Some (Inl e, s1, w1)
      | Inr left_batch \<Rightarrow>
          if left_batch = [] then Some (Inr (), s1, w1)
          else (case dedupe_keys extract left_batch [] [] [] [] of
              Inl e \<Rightarrow> Some (Inl e, s1, w1)
            | Inr (row_keys, unique_idx, unique_storage) \<Rightarrow> do {
                (fetched_r, w2) \<leftarrow> sref_get_many cd right unique_storage w1;
                (case fetched_r of
                   Inl e \<Rightarrow> Some (Inl e, s1, w2)
                 | Inr fetched \<Rightarrow>
                     Some (Inr (), bi_probe fetched (zip left_batch (zip row_keys unique_idx)) s1, w2)) })) }"

definition bi_pull :: "('l Record \<Rightarrow> string result) \<Rightarrow> 'r codec \<Rightarrow> 'w StoreRef \<Rightarrow> ('w, 's, 'l Record) pull \<Rightarrow>
    ('w, ('l, 'r, 's) BatchIndexNLImpl, ('l, 'r) Joined) pull" where
  "bi_pull extract cd right src = join_pull (bi_refill extract cd right src)"

subsection \<open>Hash join\<close>

record ('l, 'r, 's) HashJoinImpl = "('l, 'r) join_out" +
  hj_left_src :: 's
  hj_right_index :: "(Key \<times> 'r) list"

fun hj_probe :: "('l Record \<Rightarrow> string result) \<Rightarrow> 'l Record list \<Rightarrow> ('l, 'r, 's) HashJoinImpl \<Rightarrow>
    unit result \<times> ('l, 'r, 's) HashJoinImpl" where
  "hj_probe extract [] s = (Inr (), s)"
| "hj_probe extract (rec # recs) s = (case extract rec of
      Inl e \<Rightarrow> (Inl e, s)
    | Inr enc \<Rightarrow> (let k = make_key enc; found = map_of (hj_right_index s) k in
        if \<not> should_emit (jo_kind s) (found \<noteq> None) then hj_probe extract recs s
        else let (stop, s') = emit \<lparr>jn_key = key_bytes k, jn_left = rec_value rec, jn_right = found\<rparr> s in
          if stop then (Inr (), s') else hj_probe extract recs s'))"

definition hj_refill :: "('l Record \<Rightarrow> string result) \<Rightarrow> ('w, 's, 'l Record) pull \<Rightarrow>
    ('l, 'r, 's) HashJoinImpl \<Rightarrow> 'w \<Rightarrow> (unit result \<times> ('l, 'r, 's) HashJoinImpl \<times> 'w) option" where
  "hj_refill extract src s w = do {
     (r, src', w') \<leftarrow> src (hj_left_src s) w;
     let s' = s\<lparr>hj_left_src := src'\<rparr>;
     (case r of
        Inl e \<Rightarrow> Some (Inl e, s', w')
      | Inr None \<Rightarrow> Some (Inr (), s'\<lparr>jo_upstream_done := True\<rparr>, w')
      | Inr (Some chunk) \<Rightarrow> (let (res, s2) = hj_probe extract chunk s' in Some (res, s2, w'))) }"

definition hj_pull :: "('l Record \<Rightarrow> string result) \<Rightarrow> ('w, 's, 'l Record) pull \<Rightarrow>
    ('w, ('l, 'r, 's) HashJoinImpl, ('l, 'r) Joined) pull" where
  "hj_pull extract src = join_pull (hj_refill extract src)"

subsection \<open>Nested loop\<close>

record ('l, 'r, 's) NestedLoopImpl = "('l, 'r) join_out" +
  nl_left_src :: 's
  nl_right_all :: "'r Record list"

fun nl_find :: "'r Record list \<Rightarrow> string \<Rightarrow> 'r option" where
  "nl_find [] sought = None"
| "nl_find (rr # rrs) sought = (if rec_key rr = sought then Some (rec_value rr) else nl_find rrs sought)"

fun nl_probe :: "('l Record \<Rightarrow> string result) \<Rightarrow> 'l Record list \<Rightarrow> ('l, 'r, 's) NestedLoopImpl \<Rightarrow>
    unit result \<times> ('l, 'r, 's) NestedLoopImpl" where
  "nl_probe extract [] s = (Inr (), s)"
| "nl_probe extract (rec # recs) s = (case extract rec of
      Inl e \<Rightarrow> (Inl e, s)
    | Inr sought \<Rightarrow> (let found = nl_find (nl_right_all s) sought in
        if \<not> should_emit (jo_kind s) (found \<noteq> None) then nl_probe extract recs s
        else let (stop, s') = emit \<lparr>jn_key = sought, jn_left = rec_value rec, jn_right = found\<rparr> s in
          if stop then (Inr (), s') else nl_probe extract recs s'))"

definition nl_refill :: "('l Record \<Rightarrow> string result) \<Rightarrow> ('w, 's, 'l Record) pull \<Rightarrow>
    ('l, 'r, 's) NestedLoopImpl \<Rightarrow> 'w \<Rightarrow> (unit result \<times> ('l, 'r, 's) NestedLoopImpl \<times> 'w) option" where
  "nl_refill extract src s w = do {
     (r, src', w') \<leftarrow> src (nl_left_src s) w;
     let s' = s\<lparr>nl_left_src := src'\<rparr>;
     (case r of
        Inl e \<Rightarrow> Some (Inl e, s', w')
      | Inr None \<Rightarrow> Some (Inr (), s'\<lparr>jo_upstream_done := True\<rparr>, w')
      | Inr (Some chunk) \<Rightarrow> (let (res, s2) = nl_probe extract chunk s' in Some (res, s2, w'))) }"

definition nl_pull :: "('l Record \<Rightarrow> string result) \<Rightarrow> ('w, 's, 'l Record) pull \<Rightarrow>
    ('w, ('l, 'r, 's) NestedLoopImpl, ('l, 'r) Joined) pull" where
  "nl_pull extract src = join_pull (nl_refill extract src)"

subsection \<open>The executor\<close>

record 's WrapAsRecordImpl =
  wr_src :: 's

definition wrap_pull :: "('w, 's, ('l, 'r) Joined) pull \<Rightarrow> ('w, 's WrapAsRecordImpl, ('l, 'r) Joined Record) pull" where
  "wrap_pull src s w = do {
     (r, src', w') \<leftarrow> src (wr_src s) w;
     let s' = s\<lparr>wr_src := src'\<rparr>;
     (case r of
        Inl e \<Rightarrow> Some (Inl e, s', w')
      | Inr None \<Rightarrow> Some (Inr None, s', w')
      | Inr (Some js) \<Rightarrow>
          let out = map (\<lambda>j. Rec (jn_key j) j) js in Some (Inr (Some (chunk_from out)), s', w')) }"

definition wrap_as_record :: "('w, 's, ('l, 'r) Joined) pull \<Rightarrow> 's \<Rightarrow> ('w, ('l, 'r) Joined Record) StreamHandle" where
  "wrap_as_record src s = make_stream_handle (wrap_pull src) \<lparr>wr_src = s\<rparr>"

definition try_emplace :: "Key \<Rightarrow> 'v \<Rightarrow> (Key \<times> 'v) list \<Rightarrow> (Key \<times> 'v) list" where
  "try_emplace k v m = (if map_of m k = None then m @ [(k, v)] else m)"

text \<open>One chunk of the right side into the index; \<open>None\<close> when the cap is reached.\<close>

fun hash_insert :: "nat \<Rightarrow> 'r Record list \<Rightarrow> (Key \<times> 'r) list \<Rightarrow> (Key \<times> 'r) list option" where
  "hash_insert cap [] idx = Some idx"
| "hash_insert cap (rec # recs) idx =
     (let idx' = try_emplace (make_key (rec_key rec)) (rec_value rec) idx in
      if cap > 0 \<and> length idx' \<ge> cap then None else hash_insert cap recs idx')"

partial_function (option) hash_build ::
  "('w, 's, 'r Record) pull \<Rightarrow> nat \<Rightarrow> (Key \<times> 'r) list \<Rightarrow> 's \<Rightarrow> 'w \<Rightarrow> ((Key \<times> 'r) list result \<times> 'w) option" where
  "hash_build src cap idx s w = do {
     (r, s', w') \<leftarrow> src s w;
     (case r of
        Inl e \<Rightarrow> Some (Inl e, w')
      | Inr None \<Rightarrow> Some (Inr idx, w')
      | Inr (Some chunk) \<Rightarrow> (case hash_insert cap chunk idx of
            None \<Rightarrow> Some (Err ''HashJoinBuild'' ''hash_build_cap exceeded'', w')
          | Some idx' \<Rightarrow> hash_build src cap idx' s' w')) }"

partial_function (option) right_build ::
  "('w, 's, 'r Record) pull \<Rightarrow> 'r Record list \<Rightarrow> 's \<Rightarrow> 'w \<Rightarrow> ('r Record list result \<times> 'w) option" where
  "right_build src out s w = do {
     (r, s', w') \<leftarrow> src s w;
     (case r of
        Inl e \<Rightarrow> Some (Inl e, w')
      | Inr None \<Rightarrow> Some (Inr out, w')
      | Inr (Some chunk) \<Rightarrow> right_build src (out @ chunk) s' w') }"

definition out_init :: "JoinKind \<Rightarrow> nat \<Rightarrow> ('l, 'r) join_out" where
  "out_init kind lim = \<lparr>jo_kind = kind, jo_limit_remaining = lim, jo_has_limit = (lim > 0),
     jo_pending = [], jo_cursor = 0, jo_upstream_done = False\<rparr>"

definition bi_init :: "'s \<Rightarrow> JoinKind \<Rightarrow> nat \<Rightarrow> nat \<Rightarrow> ('l, 'r, 's) BatchIndexNLImpl" where
  "bi_init src kind bs lim = join_out.extend (out_init kind lim)
     \<lparr>bi_left_src = src, bi_batch_size = bs, bi_leftover = [], bi_leftover_idx = 0\<rparr>"

definition hj_init :: "'s \<Rightarrow> (Key \<times> 'r) list \<Rightarrow> JoinKind \<Rightarrow> nat \<Rightarrow> ('l, 'r, 's) HashJoinImpl" where
  "hj_init src idx kind lim = join_out.extend (out_init kind lim)
     \<lparr>hj_left_src = src, hj_right_index = idx\<rparr>"

definition nl_init :: "'s \<Rightarrow> 'r Record list \<Rightarrow> JoinKind \<Rightarrow> nat \<Rightarrow> ('l, 'r, 's) NestedLoopImpl" where
  "nl_init src rs kind lim = join_out.extend (out_init kind lim)
     \<lparr>nl_left_src = src, nl_right_all = rs\<rparr>"

definition join_inputs :: "'w StoreRef \<Rightarrow> JoinOptions \<Rightarrow> PlannerInputs" where
  "join_inputs right opts =
    \<lparr>pi_left_caps = default_caps\<lparr>caps_cost_tier := Computed\<rparr>,
     pi_right_caps = (sref_capabilities right)\<lparr>caps_cost_tier := Local\<rparr>,
     pi_opts = opts\<rparr>"

definition join :: "'r codec \<Rightarrow> ('w, 'l Record) StreamHandle \<Rightarrow> 'w StoreRef \<Rightarrow> ('l Record \<Rightarrow> string result) \<Rightarrow>
    JoinOptions \<Rightarrow> ('w, ('w, ('l, 'r) Joined Record) StreamHandle) io" where
  "join cd left right extract opts =
    (if sref_handle right = None then io_throw (Error ''Join'' ''right StoreRef is null'')
     else let p = plan (join_inputs right opts); strat = plan_strategy p in
       if strat = BatchIndexNestedLoop \<or> strat = IndexNestedLoop then
         (let bs = (if strat = IndexNestedLoop then 1 else plan_batch_size p) in
          io_return (wrap_as_record (bi_pull extract cd right stream_pull)
            (bi_init left (jopt_kind opts) bs (jopt_limit opts))))
       else if strat = HashJoin then
         io_bind (sref_stream_all right) (\<lambda>rs.
         io_bind (hash_build (source_pull cd) (jopt_hash_build_cap opts) [] rs) (\<lambda>idx.
         io_return (wrap_as_record (hj_pull extract stream_pull)
            (hj_init left idx (jopt_kind opts) (jopt_limit opts)))))
       else
         io_bind (sref_stream_all right) (\<lambda>rs.
         io_bind (right_build (source_pull cd) [] rs) (\<lambda>right_all.
         io_return (wrap_as_record (nl_pull extract stream_pull)
            (nl_init left right_all (jopt_kind opts) (jopt_limit opts))))))"

end
