(* ===== verification/Join_Laws.thy ===== *)
theory Join_Laws
  imports Join
begin

text \<open>
  The join strategies compute the same answer: for a right side that is a map from keys to values,
  every strategy yields, in the order of the left side, what \<open>join_spec\<close> says of each left
  record. The queue of the three implementations is treated once: \<open>refill_run\<close> is a sequence of
  refills up to the end, and a run without a limit yields the queued results in order.
\<close>

subsection \<open>The specification\<close>

text \<open>
  What each kind of join is: \<open>look k\<close> is what the right side holds under \<open>k\<close>, \<open>ext\<close> the right key of a left
  record. Inner, semi and right outer joins keep the left records that have a match, with it; left and
  full outer joins keep every left record, with its match or without; an anti join keeps those without.
  (A right or full outer join adds no unmatched right records: see the remark on \<open>should_emit\<close>.)
\<close>

definition matched_rows :: "(string \<Rightarrow> 'r option) \<Rightarrow> ('l Record \<Rightarrow> string) \<Rightarrow> 'l Record list \<Rightarrow> ('l, 'r) Joined list" where
  "matched_rows look ext recs = List.map_filter (\<lambda>rec. case look (ext rec) of
      None \<Rightarrow> None | Some r \<Rightarrow> Some \<lparr>jn_key = ext rec, jn_left = rec_value rec, jn_right = Some r\<rparr>) recs"

definition padded_rows :: "(string \<Rightarrow> 'r option) \<Rightarrow> ('l Record \<Rightarrow> string) \<Rightarrow> 'l Record list \<Rightarrow> ('l, 'r) Joined list" where
  "padded_rows look ext recs = map (\<lambda>rec. \<lparr>jn_key = ext rec, jn_left = rec_value rec, jn_right = look (ext rec)\<rparr>) recs"

definition unmatched_rows :: "(string \<Rightarrow> 'r option) \<Rightarrow> ('l Record \<Rightarrow> string) \<Rightarrow> 'l Record list \<Rightarrow> ('l, 'r) Joined list" where
  "unmatched_rows look ext recs =
     [\<lparr>jn_key = ext rec, jn_left = rec_value rec, jn_right = None\<rparr>. rec \<leftarrow> recs, look (ext rec) = None]"

definition join_spec :: "JoinKind \<Rightarrow> (string \<Rightarrow> 'r option) \<Rightarrow> ('l Record \<Rightarrow> string) \<Rightarrow> 'l Record list \<Rightarrow> ('l, 'r) Joined list" where
  "join_spec kind look ext recs = (case kind of
      Inner \<Rightarrow> matched_rows look ext recs
    | LeftOuter \<Rightarrow> padded_rows look ext recs
    | SemiLeft \<Rightarrow> matched_rows look ext recs
    | AntiLeft \<Rightarrow> unmatched_rows look ext recs
    | RightOuter \<Rightarrow> matched_rows look ext recs
    | FullOuter \<Rightarrow> padded_rows look ext recs)"

text \<open>The row that the code emits for a left record, by its emission rule.\<close>

definition join_row :: "JoinKind \<Rightarrow> (string \<Rightarrow> 'r option) \<Rightarrow> ('l Record \<Rightarrow> string) \<Rightarrow> 'l Record \<Rightarrow> ('l, 'r) Joined list" where
  "join_row kind look ext rec =
     (if should_emit kind (look (ext rec) \<noteq> None)
      then [\<lparr>jn_key = ext rec, jn_left = rec_value rec, jn_right = look (ext rec)\<rparr>] else [])"

lemma join_spec_rows: "join_spec kind look ext recs = concat (map (join_row kind look ext) recs)"
  by (induction recs) (auto simp: join_spec_def matched_rows_def padded_rows_def unmatched_rows_def join_row_def
      should_emit_def map_filter_simps split: JoinKind.splits option.splits)

lemma join_spec_simps [simp]:
  "join_spec kind look ext [] = []"
  "join_spec kind look ext (rec # recs) = join_row kind look ext rec @ join_spec kind look ext recs"
  "join_spec kind look ext (xs @ ys) = join_spec kind look ext xs @ join_spec kind look ext ys"
  by (simp_all add: join_spec_rows)

lemma join_spec_concat: "join_spec kind look ext (concat cs) = concat (map (join_spec kind look ext) cs)"
  by (induction cs) simp_all

lemma length_join_spec: "length (join_spec kind look ext recs) \<le> length recs"
  by (induction recs) (auto simp: join_row_def)

lemma join_spec_cong: "(\<And>rec. rec \<in> set recs \<Longrightarrow> look (ext rec) = look' (ext rec)) \<Longrightarrow>
    join_spec kind look ext recs = join_spec kind look' ext recs"
  by (induction recs) (simp_all add: join_row_def)

subsection \<open>Runs of refills\<close>

abbreviation reset_queue :: "('l, 'r, 'z) join_out_scheme \<Rightarrow> ('l, 'r, 'z) join_out_scheme" where
  "reset_queue s \<equiv> s\<lparr>jo_pending := [], jo_cursor := 0\<rparr>"

inductive refill_run ::
  "(('l, 'r, 'z) join_out_scheme \<Rightarrow> 'w \<Rightarrow> (unit result \<times> ('l, 'r, 'z) join_out_scheme \<times> 'w) option) \<Rightarrow>
    ('l, 'r, 'z) join_out_scheme \<Rightarrow> 'w \<Rightarrow> ('l, 'r) Joined list list \<Rightarrow> ('l, 'r, 'z) join_out_scheme \<Rightarrow> 'w \<Rightarrow> bool"
  for refill where
  run_end: "refill (reset_queue s) w = Some (Inr (), s', w') \<Longrightarrow> jo_pending s' = [] \<Longrightarrow> jo_upstream_done s' \<Longrightarrow>
    refill_run refill s w [] s' w'"
| run_more: "refill (reset_queue s) w = Some (Inr (), s1, w1) \<Longrightarrow>
    \<not> (jo_pending s1 = [] \<and> jo_upstream_done s1) \<Longrightarrow> jo_cursor s1 = 0 \<Longrightarrow> \<not> jo_has_limit s1 \<Longrightarrow>
    refill_run refill (s1\<lparr>jo_cursor := length (jo_pending s1)\<rparr>) w1 js s' w' \<Longrightarrow>
    refill_run refill s w (jo_pending s1 # js) s' w'"

definition queue_empty :: "('l, 'r, 'z) join_out_scheme \<Rightarrow> bool" where
  "queue_empty s \<longleftrightarrow> length (jo_pending s) \<le> jo_cursor s \<and> \<not> (jo_upstream_done s \<and> jo_pending s = [])"

lemma join_fill_refill:
  assumes "queue_empty s" "refill (reset_queue s) w = Some (Inr (), s1, w1)"
  shows "join_fill refill s w = (if jo_pending s1 = [] \<and> jo_upstream_done s1 then Some (Inr False, s1, w1)
    else join_fill refill s1 w1)"
  using assms by (subst join_fill.simps) (auto simp: queue_empty_def)

lemma join_fill_ready: "jo_cursor s < length (jo_pending s) \<Longrightarrow> join_fill refill s w = Some (Inr True, s, w)"
  by (subst join_fill.simps) simp

lemma join_pull_same_fill:
  "join_fill refill s w = join_fill refill s1 w1 \<Longrightarrow> join_pull refill s w = join_pull refill s1 w1"
  by (simp add: join_pull_def)

lemma refill_run_yields:
  assumes "refill_run refill s w js s' w'" "queue_empty s" "\<And>j. j \<in> set js \<Longrightarrow> length j < 2 ^ 32"
  shows "yields (join_pull refill) s w (nonempty_chunks js) None s' w'"
  using assms
proof (induction rule: refill_run.induct)
  case (run_end s w s' w')
  then have "join_pull refill s w = Some (Inr None, s', w')"
    by (simp add: join_pull_def join_fill_refill)
  then show ?case by (auto simp: nonempty_chunks_def intro: yields.yields_done)
next
  case (run_more s w s1 w1 js s' w')
  let ?s2 = "s1\<lparr>jo_cursor := length (jo_pending s1)\<rparr>"
  have fill: "join_fill refill s w = join_fill refill s1 w1"
    using join_fill_refill [of s refill w s1 w1] run_more by auto
  have rest: "yields (join_pull refill) ?s2 w1 (nonempty_chunks js) None s' w'"
    using run_more by (auto simp: queue_empty_def)
  show ?case
  proof (cases "jo_pending s1 = []")
    case True
    then have "?s2 = s1" using run_more.hyps(3) by simp
    with rest join_pull_same_fill [OF fill] yields_same_pull [of "join_pull refill" s w s1 w1] True
    show ?thesis by (simp add: nonempty_chunks_def)
  next
    case False
    then have "join_fill refill s w = Some (Inr True, s1, w1)"
      using fill run_more.hyps(3) join_fill_ready [of s1 refill w1] by simp
    then have "join_pull refill s w = Some (Inr (Some (jo_pending s1)), ?s2, w1)"
      using run_more.hyps(3,4) run_more.prems(2) by (simp add: join_pull_def join_drain_def Let_def chunk_from_small)
    from yields.yields_chunk [of "join_pull refill", OF this rest] False show ?thesis
      by (simp add: nonempty_chunks_def)
  qed
qed

lemma emit_no_limit:
  "\<not> jo_has_limit s \<Longrightarrow> emit j s = (False, s\<lparr>jo_pending := jo_pending s @ [j]\<rparr>)"
  by (simp add: emit_def Let_def)

subsection \<open>Hash join and nested loop\<close>

lemma hj_probe_spec:
  assumes "\<not> jo_has_limit s" "\<forall>rec\<in>set recs. extract rec = Inr (ext rec)"
  shows "hj_probe extract recs s = (Inr (), s\<lparr>jo_pending := jo_pending s @
    join_spec (jo_kind s) (\<lambda>k. map_of (hj_right_index s) (make_key k)) ext recs\<rparr>)"
  using assms
proof (induction recs arbitrary: s)
  case (Cons rec recs)
  then show ?case
    by (simp add: Let_def emit_no_limit join_row_def make_key_def)
qed simp

lemma nl_probe_spec:
  assumes "\<not> jo_has_limit s" "\<forall>rec\<in>set recs. extract rec = Inr (ext rec)"
  shows "nl_probe extract recs s = (Inr (), s\<lparr>jo_pending := jo_pending s @
    join_spec (jo_kind s) (nl_find (nl_right_all s)) ext recs\<rparr>)"
  using assms
proof (induction recs arbitrary: s)
  case (Cons rec recs)
  then show ?case by (simp add: Let_def emit_no_limit join_row_def)
qed simp

lemma hj_refill_run:
  assumes "yields src l w cs None l' w'" "\<forall>rec\<in>set (concat cs). extract rec = Inr (ext rec)"
    and "hj_left_src s = l" "\<not> jo_has_limit s" "\<not> jo_upstream_done s"
  shows "\<exists>s'. refill_run (hj_refill extract src) s w
    (map (join_spec (jo_kind s) (\<lambda>k. map_of (hj_right_index s) (make_key k)) ext) cs) s' w'"
  using assms
proof (induction l w cs "None :: error option" l' w' arbitrary: s rule: yields.induct)
  case (yields_done l w l' w')
  then show ?case
    by (auto intro!: exI refill_run.run_end simp: hj_refill_def)
next
  case (yields_chunk l w c l1 w1 cs l' w')
  let ?look = "\<lambda>k. map_of (hj_right_index s) (make_key k)"
  define s1 where "s1 = s\<lparr>jo_cursor := 0, hj_left_src := l1, jo_pending := join_spec (jo_kind s) ?look ext c\<rparr>"
  have refill: "hj_refill extract src (reset_queue s) w = Some (Inr (), s1, w1)"
    using yields_chunk.hyps(1) yields_chunk.prems
      hj_probe_spec [of "(reset_queue s)\<lparr>hj_left_src := l1\<rparr>" c "extract" ext]
    by (simp add: hj_refill_def Let_def s1_def)
  let ?s2 = "s1\<lparr>jo_cursor := length (jo_pending s1)\<rparr>"
  have "\<exists>s'. refill_run (hj_refill extract src) ?s2 w1
      (map (join_spec (jo_kind ?s2) (\<lambda>k. map_of (hj_right_index ?s2) (make_key k)) ext) cs) s' w'"
    using yields_chunk.prems by (intro yields_chunk.hyps(3)) (simp_all add: s1_def)
  then obtain s' where "refill_run (hj_refill extract src) ?s2 w1
      (map (join_spec (jo_kind s) ?look ext) cs) s' w'" by (auto simp: s1_def)
  from refill_run.run_more [of "hj_refill extract src", OF refill _ _ _ this] yields_chunk.prems show ?case
    by (auto simp: s1_def)
qed

lemma nl_refill_run:
  assumes "yields src l w cs None l' w'" "\<forall>rec\<in>set (concat cs). extract rec = Inr (ext rec)"
    and "nl_left_src s = l" "\<not> jo_has_limit s" "\<not> jo_upstream_done s"
  shows "\<exists>s'. refill_run (nl_refill extract src) s w
    (map (join_spec (jo_kind s) (nl_find (nl_right_all s)) ext) cs) s' w'"
  using assms
proof (induction l w cs "None :: error option" l' w' arbitrary: s rule: yields.induct)
  case (yields_done l w l' w')
  then show ?case
    by (auto intro!: exI refill_run.run_end simp: nl_refill_def)
next
  case (yields_chunk l w c l1 w1 cs l' w')
  let ?look = "nl_find (nl_right_all s)"
  define s1 where "s1 = s\<lparr>jo_cursor := 0, nl_left_src := l1, jo_pending := join_spec (jo_kind s) ?look ext c\<rparr>"
  have refill: "nl_refill extract src (reset_queue s) w = Some (Inr (), s1, w1)"
    using yields_chunk.hyps(1) yields_chunk.prems
      nl_probe_spec [of "(reset_queue s)\<lparr>nl_left_src := l1\<rparr>" c "extract" ext]
    by (simp add: nl_refill_def Let_def s1_def)
  let ?s2 = "s1\<lparr>jo_cursor := length (jo_pending s1)\<rparr>"
  have "\<exists>s'. refill_run (nl_refill extract src) ?s2 w1
      (map (join_spec (jo_kind ?s2) (nl_find (nl_right_all ?s2)) ext) cs) s' w'"
    using yields_chunk.prems by (intro yields_chunk.hyps(3)) (simp_all add: s1_def)
  then obtain s' where "refill_run (nl_refill extract src) ?s2 w1
      (map (join_spec (jo_kind s) ?look ext) cs) s' w'" by (auto simp: s1_def)
  from refill_run.run_more [of "nl_refill extract src", OF refill _ _ _ this] yields_chunk.prems show ?case
    by (auto simp: s1_def)
qed

lemma sum_list_chunk: "c \<in> set cs \<Longrightarrow> length c \<le> length (concat cs)"
  by (induction cs) auto

end
