(* ===== verification/Join_Batch_Laws.thy ===== *)
theory Join_Batch_Laws
  imports Join_Laws
begin

text \<open>
  The batched index lookup: the loop that fills a batch hands over the left rows in their order,
  the keys are deduplicated without confusing rows, and one round trip per batch answers all of
  its rows.
\<close>

subsection \<open>Filling a batch\<close>

text \<open>The left rows that are still to come, in the leftover chunk and in the source.\<close>

definition rows_left :: "('w, 's, 'l Record) pull \<Rightarrow> ('l, 'r, 's) BatchIndexNLImpl \<Rightarrow> 'l Record list \<Rightarrow> nat \<Rightarrow> bool" where
  "rows_left src s R m \<longleftrightarrow>
    (let lo = drop (bi_leftover_idx s) (bi_leftover s) in
     if jo_upstream_done s then lo = [] \<and> R = [] \<and> m = 0
     else \<exists>cs l'. pure_yields src (bi_left_src s) cs None l' \<and> R = lo @ concat cs \<and>
       m = length lo + sum_list (map (\<lambda>c. Suc (length c)) cs) + 1)"

lemma rows_left_queue [simp]:
  "rows_left src (s\<lparr>jo_pending := p\<rparr>) R m = rows_left src s R m"
  "rows_left src (s\<lparr>jo_cursor := c\<rparr>) R m = rows_left src s R m"
  by (simp_all add: rows_left_def)

definition same_queue :: "('l, 'r, 's) BatchIndexNLImpl \<Rightarrow> ('l, 'r, 's) BatchIndexNLImpl \<Rightarrow> bool" where
  "same_queue s t \<longleftrightarrow> jo_kind t = jo_kind s \<and> jo_has_limit t = jo_has_limit s \<and>
     jo_pending t = jo_pending s \<and> jo_cursor t = jo_cursor s \<and> bi_batch_size t = bi_batch_size s"

lemma bi_fill_batch_rows:
  assumes "rows_left src s R m"
  shows "\<exists>s1 m1. bi_fill_batch src b s w = Some (Inr (b @ take (bi_batch_size s - length b) R), s1, w) \<and>
    rows_left src s1 (drop (bi_batch_size s - length b) R) m1 \<and> same_queue s s1 \<and>
    (length R < bi_batch_size s - length b \<longrightarrow> jo_upstream_done s1)"
  using assms
proof (induction m arbitrary: b s R rule: less_induct)
  case (less m)
  let ?lo = "drop (bi_leftover_idx s) (bi_leftover s)" and ?n = "bi_batch_size s"
  show ?case
  proof (cases "length b < ?n")
    case False
    then have "bi_fill_batch src b s w = Some (Inr b, s, w)"
      by (subst bi_fill_batch.simps) simp
    with False less.prems show ?thesis by (auto simp: same_queue_def)
  next
    case room: True
    show ?thesis
    proof (cases "bi_leftover_idx s < length (bi_leftover s)")
      case True
      let ?r = "bi_leftover s ! bi_leftover_idx s"
      let ?s1 = "s\<lparr>bi_leftover_idx := bi_leftover_idx s + 1\<rparr>"
      have lo: "?lo = ?r # drop (bi_leftover_idx s + 1) (bi_leftover s)"
        using True by (simp add: Cons_nth_drop_Suc)
      then have len: "length ?lo = Suc (length (drop (bi_leftover_idx s + 1) (bi_leftover s)))"
        by simp
      obtain R' m' where R: "R = ?r # R'" and m': "m' < m" "rows_left src ?s1 R' m'"
        using less.prems unfolding rows_left_def Let_def lo by (auto split: if_splits)
      have step: "bi_fill_batch src b s w = bi_fill_batch src (b @ [?r]) ?s1 w"
        using room True by (subst bi_fill_batch.simps) simp
      from less.IH [OF m', of "b @ [?r]"] room show ?thesis
        by (simp add: step R same_queue_def Suc_diff_Suc take_Cons' drop_Cons')
          (auto simp: Suc_diff_Suc)
    next
      case False
      then have lo: "?lo = []" by simp
      show ?thesis
      proof (cases "jo_upstream_done s")
        case True
        with less.prems lo have R: "R = []" "m = 0" by (simp_all add: rows_left_def)
        have "bi_fill_batch src b s w = Some (Inr b, s, w)"
          using room False True by (subst bi_fill_batch.simps) simp
        with True less.prems R show ?thesis by (auto simp: same_queue_def)
      next
        case not_done: False
        with less.prems lo obtain cs l' where cs: "pure_yields src (bi_left_src s) cs None l'"
          "R = concat cs" "m = sum_list (map (\<lambda>c. Suc (length c)) cs) + 1"
          by (auto simp: rows_left_def)
        from cs(1) show ?thesis
        proof (cases rule: pure_yields.cases)
          case pure_done
          let ?s1 = "s\<lparr>bi_left_src := l', jo_upstream_done := True\<rparr>"
          have "bi_fill_batch src b s w = Some (Inr b, ?s1, w)"
            using room False not_done pure_done by (subst bi_fill_batch.simps) simp
          moreover have "rows_left src ?s1 [] 0" using lo by (simp add: rows_left_def)
          ultimately show ?thesis using pure_done cs(2) by (auto simp: same_queue_def)
        next
          case (pure_chunk c l1 cs')
          let ?s1 = "s\<lparr>bi_left_src := l1, bi_leftover := c, bi_leftover_idx := 0\<rparr>"
          let ?m1 = "length c + sum_list (map (\<lambda>c. Suc (length c)) cs') + 1"
          have step: "bi_fill_batch src b s w = bi_fill_batch src b ?s1 w"
            using room False not_done pure_chunk by (subst bi_fill_batch.simps) (simp add: Let_def)
          have "rows_left src ?s1 R ?m1"
            using not_done pure_chunk cs(2) by (auto simp: rows_left_def)
          moreover have "?m1 < m" using cs(3) pure_chunk(1) by simp
          ultimately show ?thesis
            using less.IH [of ?m1 ?s1 R b] by (simp add: step same_queue_def)
        qed
      qed
    qed
  qed
qed

subsection \<open>Deduplicated keys\<close>

definition slots_ok :: "(Key \<times> nat) list \<Rightarrow> string list \<Rightarrow> bool" where
  "slots_ok dd us \<longleftrightarrow> distinct us \<and>
     (\<forall>k i. map_of dd (make_key k) = Some i \<longleftrightarrow> i < length us \<and> us ! i = k)"

lemma slots_ok_None: "slots_ok dd us \<Longrightarrow> map_of dd (make_key k) = None \<Longrightarrow> k \<notin> set us"
  unfolding slots_ok_def by (metis in_set_conv_nth option.distinct(1))

lemma slots_ok_insert:
  assumes "slots_ok dd us" "map_of dd (make_key k) = None"
  shows "slots_ok ((make_key k, length us) # dd) (us @ [k])"
  using assms slots_ok_None [OF assms]
  by (auto simp: slots_ok_def nth_append less_Suc_eq split: if_splits)

lemma dedupe_keys_ok:
  assumes "slots_ok dd us" "\<forall>rec\<in>set recs. extract rec = Inr (ext rec)"
    and "length ui = length rk" "\<forall>i<length rk. ui ! i < length us \<and> us ! (ui ! i) = rk ! i"
  shows "\<exists>ui' us'. dedupe_keys extract recs rk ui dd us = Inr (rk @ map ext recs, ui @ ui', us') \<and>
    length ui' = length recs \<and> distinct us' \<and> set us' = set us \<union> ext ` set recs \<and>
    (\<exists>ex. us' = us @ ex) \<and> (\<forall>i<length recs. ui' ! i < length us' \<and> us' ! (ui' ! i) = ext (recs ! i))"
  using assms
proof (induction recs arbitrary: rk ui dd us)
  case Nil
  then show ?case by (simp add: slots_ok_def)
next
  case (Cons rec recs)
  let ?k = "ext rec"
  have ext: "extract rec = Inr ?k" "\<forall>rec\<in>set recs. extract rec = Inr (ext rec)"
    using Cons.prems(2) by simp_all
  obtain slot dd1 us1 where step: "dedupe_keys extract (rec # recs) rk ui dd us =
      dedupe_keys extract recs (rk @ [?k]) (ui @ [slot]) dd1 us1"
    and ok: "slots_ok dd1 us1" "slot < length us1" "us1 ! slot = ?k" "set us1 = insert ?k (set us)"
    and ex: "\<exists>ex. us1 = us @ ex"
  proof (cases "map_of dd (make_key ?k)")
    case None
    from that [OF _ slots_ok_insert [OF Cons.prems(1) None]] show thesis
      using None by (auto simp: ext Let_def)
  next
    case (Some slot)
    then have "slot < length us" "us ! slot = ?k" using Cons.prems(1) by (auto simp: slots_ok_def)
    with that [of slot dd us] Some Cons.prems(1) show thesis
      by (simp add: ext insert_absorb) (metis append_Nil2 insert_absorb nth_mem)
  qed
  have "\<forall>i<length (rk @ [?k]). (ui @ [slot]) ! i < length us1 \<and> us1 ! ((ui @ [slot]) ! i) = (rk @ [?k]) ! i"
    using Cons.prems(3,4) ok ex by (auto simp: nth_append less_Suc_eq)
  from Cons.IH [OF ok(1) ext(2) _ this] Cons.prems(3) obtain ui' us' where
    r: "dedupe_keys extract recs (rk @ [?k]) (ui @ [slot]) dd1 us1 =
      Inr ((rk @ [?k]) @ map ext recs, (ui @ [slot]) @ ui', us')"
    "length ui' = length recs" "distinct us'" "set us' = set us1 \<union> ext ` set recs" "\<exists>ex. us' = us1 @ ex"
    "\<forall>i<length recs. ui' ! i < length us' \<and> us' ! (ui' ! i) = ext (recs ! i)"
    by auto
  have "slot < length us' \<and> us' ! slot = ?k" using r(5) ok(2,3) by (auto simp: nth_append)
  with r ok(4) ex show ?case
    by (intro exI [of _ "slot # ui'"] exI [of _ us']) (auto simp: step nth_Cons simp del: dedupe_keys.simps split: nat.splits)
qed

subsection \<open>A refill\<close>

definition reads :: "'r codec \<Rightarrow> 'w StoreRef \<Rightarrow> (string \<Rightarrow> 'r option) \<Rightarrow> 'w \<Rightarrow> bool" where
  "reads cd right look w \<longleftrightarrow>
     (\<forall>ks. sref_get_many cd right ks w = Some (Inr (map (\<lambda>k. (k, look k)) ks), w))"

lemma bi_probe_spec:
  assumes "\<not> jo_has_limit s" "\<forall>(rec, key, slot)\<in>set rows. key = ext rec \<and> snd (fetched ! slot) = look key"
  shows "bi_probe fetched rows s =
    s\<lparr>jo_pending := jo_pending s @ join_spec (jo_kind s) look ext (map fst rows)\<rparr>"
  using assms
proof (induction rows arbitrary: s)
  case (Cons row rows)
  obtain rec key slot where "row = (rec, key, slot)" by (cases row) auto
  with Cons show ?case by (simp add: Let_def emit_no_limit join_row_def)
qed simp

lemma bi_refill_rows:
  assumes "rows_left src s R m" "reads cd right look w" "\<not> jo_has_limit s"
    and "\<forall>rec\<in>set R. extract rec = Inr (ext rec)" "0 < bi_batch_size s" "jo_pending s = []"
  shows "\<exists>s1 m1. bi_refill extract cd right src s w = Some (Inr (), s1, w) \<and>
    rows_left src s1 (drop (bi_batch_size s) R) m1 \<and>
    jo_pending s1 = join_spec (jo_kind s) look ext (take (bi_batch_size s) R) \<and>
    jo_kind s1 = jo_kind s \<and> jo_has_limit s1 = jo_has_limit s \<and> jo_cursor s1 = jo_cursor s \<and>
    bi_batch_size s1 = bi_batch_size s \<and> (R = [] \<longrightarrow> jo_upstream_done s1)"
proof -
  let ?n = "bi_batch_size s"
  obtain s1 m1 where fill: "bi_fill_batch src [] s w = Some (Inr (take ?n R), s1, w)"
    and rows: "rows_left src s1 (drop ?n R) m1" and same: "same_queue s s1"
    and d: "length R < ?n \<longrightarrow> jo_upstream_done s1"
    using bi_fill_batch_rows [OF assms(1), of "[]" w] by auto
  show ?thesis
  proof (cases "R = []")
    case True
    with fill rows same d assms(5,6) show ?thesis by (auto simp: bi_refill_def same_queue_def)
  next
    case False
    let ?b = "take ?n R"
    have ne: "?b \<noteq> []" using False assms(5) by simp
    have ext: "\<forall>rec\<in>set ?b. extract rec = Inr (ext rec)" using assms(4) by (auto dest: in_set_takeD)
    obtain ui us where dd: "dedupe_keys extract ?b [] [] [] [] = Inr (map ext ?b, ui, us)"
      "length ui = length ?b" "\<forall>i<length ?b. ui ! i < length us \<and> us ! (ui ! i) = ext (?b ! i)"
      using dedupe_keys_ok [of "[]" "[]" ?b "extract" ext "[]" "[]"] ext by (auto simp: slots_ok_def)
    let ?fetched = "map (\<lambda>k. (k, look k)) us" and ?rows = "zip ?b (zip (map ext ?b) ui)"
    have "\<forall>(rec, key, slot)\<in>set ?rows. key = ext rec \<and> snd (?fetched ! slot) = look key"
      using dd(2,3) by (auto simp: set_zip)
    from bi_probe_spec [OF _ this, of s1] same assms(3,6)
    have probe: "bi_probe ?fetched ?rows s1 = s1\<lparr>jo_pending := join_spec (jo_kind s) look ext ?b\<rparr>"
      using dd(2) by (simp add: same_queue_def)
    have "bi_refill extract cd right src s w = Some (Inr (), bi_probe ?fetched ?rows s1, w)"
      using fill ne dd(1) assms(2) by (simp add: bi_refill_def reads_def)
    with probe rows same False show ?thesis
      by (auto simp: same_queue_def)
  qed
qed

lemma bi_refill_run:
  assumes "rows_left src s R m" "reads cd right look w" "\<not> jo_has_limit s"
    and "\<forall>rec\<in>set R. extract rec = Inr (ext rec)" "0 < bi_batch_size s"
  shows "\<exists>js s'. refill_run (bi_refill extract cd right src) s w js s' w \<and>
    concat js = join_spec (jo_kind s) look ext R \<and> (\<forall>j\<in>set js. length j \<le> bi_batch_size s)"
  using assms
proof (induction "length R" arbitrary: s R m rule: less_induct)
  case less
  let ?n = "bi_batch_size s" and ?refill = "bi_refill extract cd right src"
  have "rows_left src (reset_queue s) R m" using less.prems(1) by simp
  from bi_refill_rows [OF this less.prems(2) _ less.prems(4)] less.prems(3,5) obtain s1 m1 where
    refill: "?refill (reset_queue s) w = Some (Inr (), s1, w)"
    and rows: "rows_left src s1 (drop ?n R) m1"
    and s1: "jo_pending s1 = join_spec (jo_kind s) look ext (take ?n R)" "jo_kind s1 = jo_kind s"
      "\<not> jo_has_limit s1" "jo_cursor s1 = 0" "bi_batch_size s1 = ?n" "R = [] \<longrightarrow> jo_upstream_done s1"
    by auto
  have split: "join_spec (jo_kind s) look ext R =
      jo_pending s1 @ join_spec (jo_kind s) look ext (drop ?n R)"
    unfolding s1(1) by (metis append_take_drop_id join_spec_simps(3))
  show ?case
  proof (cases "jo_pending s1 = [] \<and> jo_upstream_done s1")
    case True
    with rows have "drop ?n R = []" by (simp add: rows_left_def Let_def)
    with True split have "join_spec (jo_kind s) look ext R = []" by simp
    with refill_run.run_end [of ?refill, OF refill] True show ?thesis
      by (intro exI [of _ "[]"] exI [of _ s1]) simp
  next
    case False
    then have "R \<noteq> []" using s1(1,6) by auto
    with less.prems(5) have shorter: "length (drop ?n R) < length R" by simp
    let ?s2 = "s1\<lparr>jo_cursor := length (jo_pending s1)\<rparr>"
    have rows2: "rows_left src ?s2 (drop ?n R) m1" using rows by simp
    have ext2: "\<forall>rec\<in>set (drop ?n R). extract rec = Inr (ext rec)"
      using less.prems(4) by (auto dest: in_set_dropD)
    from less.hyps [OF shorter rows2 less.prems(2) _ ext2] s1(2,3,5) less.prems(5)
    obtain js s' where run: "refill_run ?refill ?s2 w js s' w"
      "concat js = join_spec (jo_kind s) look ext (drop ?n R)" "\<forall>j\<in>set js. length j \<le> ?n"
      by auto
    have "length (jo_pending s1) \<le> ?n"
      unfolding s1(1) by (rule order.trans [OF length_join_spec]) simp
    with run refill_run.run_more [of ?refill, OF refill False s1(4,3) run(1)] show ?thesis
      by (intro exI [of _ "jo_pending s1 # js"] exI [of _ s']) (simp add: split)
  qed
qed

subsection \<open>The joined streams\<close>

lemma wrap_yields:
  assumes "yields src s w cs out s' w'" "\<forall>c\<in>set cs. length c < 2 ^ 32"
  shows "yields (wrap_pull src) \<lparr>wr_src = s\<rparr> w (map (map (\<lambda>j. Rec (jn_key j) j)) cs) out \<lparr>wr_src = s'\<rparr> w'"
  using assms
proof (induction rule: yields.induct)
  case (yields_chunk s w c s1 w1 cs out s' w')
  have "wrap_pull src \<lparr>wr_src = s\<rparr> w = Some (Inr (Some (map (\<lambda>j. Rec (jn_key j) j) c)), \<lparr>wr_src = s1\<rparr>, w1)"
    using yields_chunk.hyps(1) yields_chunk.prems by (simp add: wrap_pull_def Let_def chunk_from_small)
  from yields.yields_chunk [of "wrap_pull src", OF this] yields_chunk show ?case by simp
qed (auto intro!: yields.intros simp: wrap_pull_def)

text \<open>Whatever the chunking, what a stream delivers is what \<open>collect\<close> returns.\<close>

definition delivers :: "('w, 's, 'a) pull \<Rightarrow> 's \<Rightarrow> 'w \<Rightarrow> 'a list \<Rightarrow> 'w \<Rightarrow> bool" where
  "delivers src s w xs w' \<longleftrightarrow> (\<exists>cs s'. yields src s w cs None s' w' \<and> concat cs = xs)"

lemma deliversI: "yields src s w cs None s' w' \<Longrightarrow> concat cs = xs \<Longrightarrow> delivers src s w xs w'"
  by (auto simp: delivers_def)

lemma delivers_collect: "delivers src s w xs w' \<Longrightarrow> \<exists>s'. collect src s w = Some (Inr xs, s', w')"
  by (auto simp: delivers_def dest!: collect_yields)

lemma out_init_simps [simp]:
  "jo_kind (bi_init l kind bs lim) = kind" "jo_has_limit (bi_init l kind bs lim) = (0 < lim)"
  "jo_upstream_done (bi_init l kind bs lim) = False" "bi_batch_size (bi_init l kind bs lim) = bs"
  "jo_kind (hj_init l idx kind lim) = kind" "jo_has_limit (hj_init l idx kind lim) = (0 < lim)"
  "jo_upstream_done (hj_init l idx kind lim) = False" "hj_right_index (hj_init l idx kind lim) = idx"
  "hj_left_src (hj_init l idx kind lim) = l"
  "jo_kind (nl_init l rs kind lim) = kind" "jo_has_limit (nl_init l rs kind lim) = (0 < lim)"
  "jo_upstream_done (nl_init l rs kind lim) = False" "nl_right_all (nl_init l rs kind lim) = rs"
  "nl_left_src (nl_init l rs kind lim) = l"
  "queue_empty (bi_init l kind bs lim)" "queue_empty (hj_init l idx kind lim)" "queue_empty (nl_init l rs kind lim)"
  by (simp_all add: bi_init_def hj_init_def nl_init_def out_init_def join_out.defs queue_empty_def)

lemma run_delivers:
  assumes "refill_run refill s w js s' w'" "queue_empty s" "\<forall>j\<in>set js. length j < 2 ^ 32"
  shows "\<exists>js2 s'. yields (join_pull refill) s w js2 None s' w' \<and> concat js2 = concat js \<and>
    (\<forall>j\<in>set js2. length j < 2 ^ 32)"
proof -
  have "yields (join_pull refill) s w (nonempty_chunks js) None s' w'"
    using refill_run_yields [OF assms(1,2)] assms(3) by blast
  moreover have "\<forall>j\<in>set (nonempty_chunks js). length j < 2 ^ 32"
    using assms(3) by (simp add: nonempty_chunks_def)
  ultimately show ?thesis using concat_nonempty_chunks [of js] by blast
qed

lemma bi_delivers:
  assumes "pure_yields src l cs None l'" "reads cd right look w"
    and "\<forall>rec\<in>set (concat cs). extract rec = Inr (ext rec)" "0 < bs" "bs < 2 ^ 32"
  shows "\<exists>js s'. yields (bi_pull extract cd right src) (bi_init l kind bs 0) w js None s' w \<and>
    concat js = join_spec kind look ext (concat cs) \<and> (\<forall>j\<in>set js. length j < 2 ^ 32)"
proof -
  let ?s = "bi_init l kind bs 0"
  let ?m = "sum_list (map (\<lambda>c. Suc (length c)) cs) + 1"
  have "rows_left src ?s (concat cs) ?m"
    using assms(1) by (auto simp: rows_left_def bi_init_def out_init_def join_out.defs)
  from bi_refill_run [OF this assms(2) _ assms(3)] assms(4) obtain js s' where
    run: "refill_run (bi_refill extract cd right src) ?s w js s' w"
      "concat js = join_spec kind look ext (concat cs)" "\<forall>j\<in>set js. length j \<le> bs" by auto
  have "\<forall>j\<in>set js. length j < 2 ^ 32" using run(3) assms(5) by (meson le_less_trans)
  from run_delivers [OF run(1) _ this] run(2) show ?thesis unfolding bi_pull_def by simp
qed

lemma spec_chunks_small:
  "\<forall>c\<in>set cs. length c < 2 ^ 32 \<Longrightarrow> j \<in> set (map (join_spec kind look ext) cs) \<Longrightarrow> length j < 2 ^ 32"
  by (auto intro: le_less_trans [OF length_join_spec])

lemma hj_delivers:
  assumes "yields src l w cs None l' w'" "\<forall>c\<in>set cs. length c < 2 ^ 32"
    and "\<forall>rec\<in>set (concat cs). extract rec = Inr (ext rec)"
  shows "\<exists>js s'. yields (hj_pull extract src) (hj_init l idx kind 0) w js None s' w' \<and>
    concat js = join_spec kind (\<lambda>k. map_of idx (make_key k)) ext (concat cs) \<and> (\<forall>j\<in>set js. length j < 2 ^ 32)"
proof -
  let ?js = "map (join_spec kind (\<lambda>k. map_of idx (make_key k)) ext) cs"
  obtain s' where run: "refill_run (hj_refill extract src) (hj_init l idx kind 0) w ?js s' w'"
    using hj_refill_run [OF assms(1,3), of "hj_init l idx kind 0"] by auto
  have "\<forall>j\<in>set ?js. length j < 2 ^ 32" using spec_chunks_small [OF assms(2)] by blast
  from run_delivers [OF run _ this] show ?thesis unfolding hj_pull_def by (simp add: join_spec_concat)
qed

lemma nl_delivers:
  assumes "yields src l w cs None l' w'" "\<forall>c\<in>set cs. length c < 2 ^ 32"
    and "\<forall>rec\<in>set (concat cs). extract rec = Inr (ext rec)"
  shows "\<exists>js s'. yields (nl_pull extract src) (nl_init l rs kind 0) w js None s' w' \<and>
    concat js = join_spec kind (nl_find rs) ext (concat cs) \<and> (\<forall>j\<in>set js. length j < 2 ^ 32)"
proof -
  let ?js = "map (join_spec kind (nl_find rs) ext) cs"
  obtain s' where run: "refill_run (nl_refill extract src) (nl_init l rs kind 0) w ?js s' w'"
    using nl_refill_run [OF assms(1,3), of "nl_init l rs kind 0"] by auto
  have "\<forall>j\<in>set ?js. length j < 2 ^ 32" using spec_chunks_small [OF assms(2)] by blast
  from run_delivers [OF run _ this] show ?thesis unfolding nl_pull_def by (simp add: join_spec_concat)
qed

subsection \<open>The right side, scanned\<close>

lemma nl_find_map_of: "nl_find rs k = map_of (map (\<lambda>r. (rec_key r, rec_value r)) rs) k"
  by (induction rs) simp_all

lemma try_emplace_lookup:
  "map_of (try_emplace k v m) k' = (if map_of m k' = None \<and> k' = k then Some v else map_of m k')"
  by (auto simp: try_emplace_def map_add_def split: option.splits)

lemma hash_insert_lookup:
  "hash_insert 0 recs idx = Some idx' \<Longrightarrow> map_of idx' (make_key k) =
    (case map_of idx (make_key k) of Some v \<Rightarrow> Some v | None \<Rightarrow> nl_find recs k)"
  by (induction recs arbitrary: idx)
    (auto simp: Let_def try_emplace_lookup split: option.splits if_splits)

lemma hash_insert_uncapped: "\<exists>idx'. hash_insert 0 recs idx = Some idx'"
  by (induction recs arbitrary: idx) (simp_all add: Let_def)

lemma nl_find_append: "nl_find (xs @ ys) k = (case nl_find xs k of Some v \<Rightarrow> Some v | None \<Rightarrow> nl_find ys k)"
  by (induction xs) simp_all

lemma hash_build_yields:
  "yields src s w cs None s' w' \<Longrightarrow> \<exists>idx'. hash_build src 0 idx s w = Some (Inr idx', w') \<and>
    (\<forall>k. map_of idx' (make_key k) =
      (case map_of idx (make_key k) of Some v \<Rightarrow> Some v | None \<Rightarrow> nl_find (concat cs) k))"
proof (induction s w cs "None :: error option" s' w' arbitrary: idx rule: yields.induct)
  case (yields_done s w s' w')
  then show ?case by (subst hash_build.simps) (auto split: option.splits)
next
  case (yields_chunk s w c s1 w1 cs s' w')
  obtain idx1 where ins: "hash_insert 0 c idx = Some idx1" using hash_insert_uncapped by blast
  with yields_chunk.hyps(1) have step: "hash_build src 0 idx s w = hash_build src 0 idx1 s1 w1"
    by (subst hash_build.simps) simp
  from yields_chunk.hyps(3) [of idx1] obtain idx' where
    build: "hash_build src 0 idx1 s1 w1 = Some (Inr idx', w')" and
    look: "\<And>k. map_of idx' (make_key k) =
      (case map_of idx1 (make_key k) of Some v \<Rightarrow> Some v | None \<Rightarrow> nl_find (concat cs) k)" by blast
  have "map_of idx' (make_key k) =
      (case map_of idx (make_key k) of Some v \<Rightarrow> Some v | None \<Rightarrow> nl_find (concat (c # cs)) k)" for k
    using look [of k] hash_insert_lookup [OF ins, of k]
    by (cases "map_of idx (make_key k)"; cases "nl_find c k") (simp_all add: nl_find_append)
  with build step show ?case by auto
qed

lemma right_build_yields:
  "yields src s w cs None s' w' \<Longrightarrow> right_build src out s w = Some (Inr (out @ concat cs), w')"
  by (induction s w cs "None :: error option" s' w' arbitrary: out rule: yields.induct)
    (simp_all add: right_build.simps)

text \<open>
  The join API over a right side that can be both looked up and scanned: every strategy delivers
  the specification. The right side is the interface \<open>right_side\<close>; it is interpreted on tables
  of the in-memory backend.
\<close>

locale right_side =
  fixes cd :: "'r codec" and right :: "'w StoreRef" and look :: "string \<Rightarrow> 'r option" and w :: 'w
  assumes present: "sref_handle right \<noteq> None"
    and reads: "reads cd right look w"
    and scans: "\<exists>src cs s'. sref_stream_all right w = Some (Inr src, w) \<and>
      yields (source_pull cd) src w cs None s' w \<and> (\<forall>k. nl_find (concat cs) k = look k)"
begin

lemma wrapped_delivers:
  assumes "\<exists>js s'. yields src s w js None s' w' \<and> concat js = xs \<and> (\<forall>j\<in>set js. length j < 2 ^ 32)"
  shows "delivers stream_pull (wrap_as_record src s) w (map (\<lambda>j. Rec (jn_key j) j) xs) w'"
proof -
  from assms obtain js s' where "yields src s w js None s' w'" "concat js = xs"
    "\<forall>j\<in>set js. length j < 2 ^ 32" by blast
  from erased_yields [OF wrap_yields [OF this(1,3)]] this(2) show ?thesis
    unfolding wrap_as_record_def by (auto intro!: deliversI simp: map_concat)
qed

text \<open>
  Without a limit, and without a cap on the build side if the plan is a hash join, the joined
  stream delivers the specification, whatever the strategy.
\<close>

lemma join_meets_spec:
  assumes left: "pure_yields stream_pull left cs None l'" "\<forall>c\<in>set cs. length c < 2 ^ 32"
    and ext: "\<forall>rec\<in>set (concat cs). extract rec = Inr (ext rec)"
    and opts: "jopt_limit opts = 0" "jopt_hash_build_cap opts = 0" "jopt_batch_size opts < 2 ^ 32"
  shows "\<exists>h. join cd left right extract opts w = Some (Inr h, w) \<and>
    delivers stream_pull h w (map (\<lambda>j. Rec (jn_key j) j) (join_spec (jopt_kind opts) look ext (concat cs))) w"
proof -
  let ?p = "plan (join_inputs right opts)"
  have yl: "yields stream_pull left w cs None l' w" by (rule pure_yields_yields [OF left(1)])
  from scans obtain src rcs s' where scan: "sref_stream_all right w = Some (Inr src, w)"
    and ry: "yields (source_pull cd) src w rcs None s' w" and rl: "\<And>k. nl_find (concat rcs) k = look k"
    by blast
  obtain i where present': "sref_handle right = Some i" using present by blast
  consider (batch) "plan_strategy ?p = BatchIndexNestedLoop \<or> plan_strategy ?p = IndexNestedLoop"
    | (hash) "plan_strategy ?p = HashJoin"
    | (nested) "plan_strategy ?p \<notin> {BatchIndexNestedLoop, IndexNestedLoop, HashJoin}" by blast
  then show ?thesis
  proof cases
    case batch
    let ?bs = "if plan_strategy ?p = IndexNestedLoop then 1 else plan_batch_size ?p"
    have "0 < ?bs" using plan_progress by simp
    moreover have "?bs < 2 ^ 32"
      using opts(3) by (auto simp: plan_def Let_def join_inputs_def)
    ultimately have "\<exists>js s'. yields (bi_pull extract cd right stream_pull) (bi_init left (jopt_kind opts) ?bs 0) w js None s' w \<and>
        concat js = join_spec (jopt_kind opts) look ext (concat cs) \<and> (\<forall>j\<in>set js. length j < 2 ^ 32)"
      using bi_delivers [OF left(1) reads ext] by blast
    from wrapped_delivers [OF this] batch present' opts(1) show ?thesis
      by (auto simp: join_def Let_def io_return_def)
  next
    case hash
    obtain idx where build: "hash_build (source_pull cd) 0 [] src w = Some (Inr idx, w)"
      and idx: "\<forall>k. map_of idx (make_key k) = nl_find (concat rcs) k"
      using hash_build_yields [OF ry, of "[]"] by auto
    have look: "(\<lambda>k. map_of idx (make_key k)) = look" using idx rl by (simp add: fun_eq_iff)
    from wrapped_delivers [OF hj_delivers [OF yl left(2) ext, of idx "jopt_kind opts"]]
    show ?thesis
      using hash present' opts(1,2) scan build by (auto simp: join_def Let_def io_return_def io_bind_def look)
  next
    case nested
    have build: "right_build (source_pull cd) [] src w = Some (Inr (concat rcs), w)"
      using right_build_yields [OF ry, of "[]"] by simp
    have look: "nl_find (concat rcs) = look" using rl by (simp add: fun_eq_iff)
    from wrapped_delivers [OF nl_delivers [OF yl left(2) ext, of "concat rcs" "jopt_kind opts"]]
    show ?thesis
      using nested present' opts(1) scan build by (auto simp: join_def Let_def io_return_def io_bind_def look)
  qed
qed

lemma strategies_agree:
  assumes "pure_yields stream_pull left cs None l'" "\<forall>c\<in>set cs. length c < 2 ^ 32"
    and "\<forall>rec\<in>set (concat cs). extract rec = Inr (ext rec)"
    and "jopt_limit opts = 0" "jopt_hash_build_cap opts = 0" "jopt_batch_size opts < 2 ^ 32"
  shows "\<exists>h1 h2 xs. join cd left right extract (opts\<lparr>jopt_force_strategy := s1\<rparr>) w = Some (Inr h1, w) \<and>
    join cd left right extract (opts\<lparr>jopt_force_strategy := s2\<rparr>) w = Some (Inr h2, w) \<and>
    delivers stream_pull h1 w xs w \<and> delivers stream_pull h2 w xs w"
  using join_meets_spec [OF assms(1-3), of "opts\<lparr>jopt_force_strategy := s1\<rparr>"]
    join_meets_spec [OF assms(1-3), of "opts\<lparr>jopt_force_strategy := s2\<rparr>"] assms(4-6)
  by auto

end

subsection \<open>Tables of the in-memory backend\<close>

definition memory_ref :: "nat \<Rightarrow> string \<Rightarrow> mem_world StoreRef" where
  "memory_ref c nm = \<lparr>sref_handle = Some (make_backend_handle in_memory_backend c), sref_name = nm\<rparr>"

lemma memory_reads:
  assumes "map_ok (w c)" "\<forall>b\<in>ran (map_of (w c)). cd_decode cd b = Inr (f b)"
  shows "reads cd (memory_ref c nm) (\<lambda>k. map_option f (map_of (w c) k)) w"
  unfolding reads_def
proof
  fix ks
  let ?items = "map (\<lambda>k. \<lparr>bg_key = k, bg_value = map_of (w c) k\<rparr>) ks"
  have ok: "map_of (w c) k = Some b \<Longrightarrow> cd_decode cd b = Inr (f b)" for k b
    using assms(2) ranI [of "map_of (w c)" k b] by blast
  have "decode_items cd ?items [] = Inr (map (\<lambda>item. (bg_key item, map_option f (bg_value item))) ?items)"
    using assms(2) by (subst decode_items_ok [of ?items cd f]) (auto intro: ok)
  then show "sref_get_many cd (memory_ref c nm) ks w =
      Some (Inr (map (\<lambda>k. (k, map_option f (map_of (w c) k))) ks), w)"
    using memory.get_many_reads [of w c ks, OF assms(1)]
    by (simp add: sref_get_many_def deref_def memory_ref_def io_bind_def io_lift_def comp_def)
qed

lemma map_of_recs: "nl_find (map (\<lambda>kv. Rec (fst kv) (f (snd kv))) kvs) k = map_option f (map_of kvs k)"
  by (induction kvs) auto

lemma memory_scans:
  assumes "map_ok (w c)" "\<forall>b\<in>ran (map_of (w c)). cd_decode cd b = Inr (f b)" "length (w c) < 2 ^ 32"
  shows "\<exists>src cs s'. sref_stream_all (memory_ref c nm) w = Some (Inr src, w) \<and>
    yields (source_pull cd) src w cs None s' w \<and>
    (\<forall>k. nl_find (concat cs) k = map_option f (map_of (w c) k))"
proof -
  let ?kvs = "map (\<lambda>(k, v). KV k v) (w c)"
  let ?src = "stream_from_vector ?kvs :: (mem_world, KVPair) StreamHandle"
  let ?cs = "if ?kvs = [] then [] else [?kvs]"
  have "mem_scan_loop [] [] (lower_bound (w c) []) = ?kvs"
    using mem_scan_filter [OF assms(1), of "[]"] by simp
  then have scan: "sref_stream_all (memory_ref c nm) w =
      Some (Inr \<lparr>dk_source = ?src, dk_limit_remaining = 0, dk_has_limit = False\<rparr>, w)"
    by (simp add: sref_stream_all_def sref_stream_scan_def default_scan_def deref_def memory_ref_def
        in_memory_backend_def mem_stream_scan_def mem_prefix_scan_def io_bind_def io_return_def)
  have "chunk_from ?kvs = ?kvs" using assms(3) by (intro chunk_from_small) simp
  with stream_from_vector_yields [of ?kvs]
  obtain s' where "pure_yields stream_pull ?src ?cs None s'" by metis
  then have y: "yields stream_pull ?src w ?cs None s' w" by (rule pure_yields_yields)
  have "\<forall>kv\<in>set (concat ?cs). cd_decode cd (kv_value kv) = Inr (f (kv_value kv))"
    using assms(2) map_ok_distinct [OF assms(1)] by (auto simp: ran_def)
  from decode_yields [OF y _ this] have
    "yields (source_pull cd) \<lparr>dk_source = ?src, dk_limit_remaining = 0, dk_has_limit = False\<rparr> w
      (map (map (\<lambda>kv. Rec (kv_key kv) (f (kv_value kv)))) ?cs) None
      \<lparr>dk_source = s', dk_limit_remaining = 0, dk_has_limit = False\<rparr> w" by simp
  moreover have "concat (map (map (\<lambda>kv. Rec (kv_key kv) (f (kv_value kv)))) ?cs) =
      map (\<lambda>kv. Rec (fst kv) (f (snd kv))) (w c)"
    by (auto simp: case_prod_unfold)
  then have "\<forall>k. nl_find (concat (map (map (\<lambda>kv. Rec (kv_key kv) (f (kv_value kv)))) ?cs)) k =
      map_option f (map_of (w c) k)" by (simp only: map_of_recs simp_thms)
  ultimately show ?thesis using scan by blast
qed

lemma memory_right_side:
  assumes "map_ok (w c)" "\<forall>b\<in>ran (map_of (w c)). cd_decode cd b = Inr (f b)" "length (w c) < 2 ^ 32"
  shows "right_side cd (memory_ref c nm) (\<lambda>k. map_option f (map_of (w c) k)) w"
  using memory_reads [of w c cd f, OF assms(1,2)] memory_scans [of w c cd f, OF assms]
  by unfold_locales (auto simp: memory_ref_def)

text \<open>A table that holds at most one pair: the smallest instance that the code can be run on.\<close>

definition one_pair :: "nat \<Rightarrow> string \<Rightarrow> string \<Rightarrow> mem_world" where
  "one_pair c k v = (\<lambda>_. [])(c := map_assign k v [])"

interpretation memory_pair: right_side string_codec "memory_ref c nm"
    "\<lambda>x. map_option id (map_of (one_pair c k v c) x)" "one_pair c k v" for c nm k v
  by (rule memory_right_side) (simp_all add: one_pair_def map_ok_def string_codec_def)

end
