(* ===== verification/Materialize_Laws.thy ===== *)
theory Materialize_Laws
  imports Materialize
begin

unbundle bit_operations_syntax

text \<open>
  What a materialization leaves in its target, in every mode, over any backend that keeps the
  contract \<open>kv_store\<close>; that a delta run repeated over the same source writes nothing; and that
  a watermark is read back as it was written.
\<close>

subsection \<open>The watermark's encoding\<close>

lemma split_word64:
  fixes v :: "64 word"
  shows "ucast (ucast v :: 32 word) OR push_bit 32 (ucast (ucast (drop_bit 32 v) :: 32 word)) = v" (is "?lhs = v")
proof (rule bit_word_eqI)
  fix n assume "n < LENGTH(64)"
  then show "bit ?lhs n = bit v n"
    by (cases "n < 32") (auto simp: bit_simps)
qed

lemma length_write_le64 [simp]: "length (write_le64 v) = 8"
  by (simp add: write_le64_def)

lemma drop_write_le32: "drop 4 (write_le32 v @ rest) = rest"
  by simp

lemma read_write_le64: "read_le64 (write_le64 v @ rest) = v"
  by (simp add: read_le64_def write_le64_def read_write_le32 split_word64)

lemma decode_encode_watermark:
  assumes "length (wm_view_id r) < 2 ^ 32" "length (wm_last_key r) < 2 ^ 32"
  shows "decode_watermark (encode_watermark r) = Inr r"
proof -
  let ?v = "wm_view_id r" and ?k = "wm_last_key r"
  have l: "unat (word_of_nat (length ?v) :: 32 word) = length ?v" "unat (word_of_nat (length ?k) :: 32 word) = length ?k"
    using assms by (simp_all add: unat_of_nat)
  have enc: "encode_watermark r = write_le64 (wm_timestamp_us r) @ write_le32 (word_of_nat (length ?v)) @ ?v @
      write_le32 (word_of_nat (length ?k)) @ ?k"
    by (simp add: encode_watermark_def Let_def)
  have d1: "drop 8 (encode_watermark r) = write_le32 (word_of_nat (length ?v)) @ ?v @ write_le32 (word_of_nat (length ?k)) @ ?k"
    by (simp add: enc)
  have d2: "drop 12 (encode_watermark r) = ?v @ write_le32 (word_of_nat (length ?k)) @ ?k"
    by (simp add: enc)
  have d3: "drop (length ?v + 12) (encode_watermark r) = write_le32 (word_of_nat (length ?k)) @ ?k"
    by (simp add: enc)
  have d4: "drop (length ?v + 16) (encode_watermark r) = ?k"
    by (simp add: enc)
  have len: "length (encode_watermark r) = 16 + length ?v + length ?k"
    by (simp add: enc)
  have t: "read_le64 (encode_watermark r) = wm_timestamp_us r"
    by (simp add: enc read_write_le64)
  show ?thesis
    unfolding decode_watermark_def Let_def
    by (simp add: d1 d2 d3 d4 len t read_write_le32 l ac_simps)
qed

subsection \<open>The write loop\<close>

definition dry :: "MaterializeOptions \<Rightarrow> bool" where
  "dry opts \<longleftrightarrow> mo_mode opts = DryRun"

definition mat_writes :: "MaterializeOptions \<Rightarrow> BatchOp list \<Rightarrow> contents \<Rightarrow> contents" where
  "mat_writes opts ops m = (if dry opts then m else fold apply_op ops m)"

definition rows_kept :: "MaterializeOptions \<Rightarrow> string \<Rightarrow> ('a Record \<Rightarrow> string) \<Rightarrow> 'a Record list \<Rightarrow> 'a Record list" where
  "rows_kept opts delta_floor key recs = filter (\<lambda>rec. \<not> delta_skips opts delta_floor (key rec)) recs"

definition row_ops :: "string \<Rightarrow> ('a Record \<Rightarrow> string) \<Rightarrow> ('a Record \<Rightarrow> string) \<Rightarrow> 'a Record list \<Rightarrow> BatchOp list" where
  "row_ops nm key enc recs = map (\<lambda>rec. put_op nm (key rec) (enc rec)) recs"

lemma mat_writes_append: "mat_writes opts (xs @ ys) m = mat_writes opts ys (mat_writes opts xs m)"
  by (simp add: mat_writes_def)

lemma mat_writes_Cons: "mat_writes opts (x # xs) m = mat_writes opts xs (mat_writes opts [x] m)"
  by (simp add: mat_writes_def)

lemma mat_writes_Nil [simp]: "mat_writes opts [] m = m"
  by (simp add: mat_writes_def)

lemma rows_kept_simps [simp]:
  "rows_kept opts fl key [] = []"
  "rows_kept opts fl key (rec # recs) =
     (if delta_skips opts fl (key rec) then rows_kept opts fl key recs else rec # rows_kept opts fl key recs)"
  "rows_kept opts fl key (xs @ ys) = rows_kept opts fl key xs @ rows_kept opts fl key ys"
  by (simp_all add: rows_kept_def)

lemma row_ops_simps [simp]:
  "row_ops nm key enc [] = []"
  "row_ops nm key enc (rec # recs) = put_op nm (key rec) (enc rec) # row_ops nm key enc recs"
  "row_ops nm key enc (xs @ ys) = row_ops nm key enc xs @ row_ops nm key enc ys"
  by (simp_all add: row_ops_def)

lemma put_op_wf [simp]: "op_wf (put_op nm k v)" "op_wf (del_op nm k)"
  by (simp_all add: op_wf_def put_op_def del_op_def)

lemma apply_put_op [simp]: "apply_op (put_op nm k v) m = m(k \<mapsto> v)" "apply_op (del_op nm k) m = m(k := None)"
  by (simp_all add: apply_op_def put_op_def del_op_def)

text \<open>A batch is flushed when it is full, so the pending rows and the flushes count the rows written.\<close>

definition flush_size :: "MaterializeOptions \<Rightarrow> nat" where
  "flush_size opts = max 1 (mo_flush_batch_size opts)"

definition mat_inv :: "MaterializeOptions \<Rightarrow> MatState \<Rightarrow> bool" where
  "mat_inv opts st \<longleftrightarrow> length (ms_pending st) < flush_size opts \<and> list_all op_wf (ms_pending st) \<and>
     ms_flushes st * flush_size opts + length (ms_pending st) = ms_rows_out st"

definition tallies :: "('a Record \<Rightarrow> string) \<Rightarrow> nat \<Rightarrow> 'a Record list \<Rightarrow> MatState \<Rightarrow> MatState \<Rightarrow> bool" where
  "tallies key n kept st st' \<longleftrightarrow> ms_rows_in st' = ms_rows_in st + n \<and>
     ms_rows_out st' = ms_rows_out st + length kept \<and>
     ms_last_key st' = foldl max (ms_last_key st) (map key kept)"

lemma tallies_trans:
  "tallies key m xs st st1 \<Longrightarrow> tallies key n ys st1 st2 \<Longrightarrow> tallies key (m + n) (xs @ ys) st st2"
  by (simp add: tallies_def)

lemma tallies_none: "tallies key 0 [] st st"
  by (simp add: tallies_def)

context kv_store
begin

lemma mat_flush_ok:
  assumes "inv w" "list_all op_wf (ms_pending st)"
  shows "\<exists>w'. mat_flush h opts st w = Some (Inr (if ms_pending st = [] then st
      else st\<lparr>ms_flushes := ms_flushes st + 1, ms_pending := []\<rparr>), w') \<and>
    inv w' \<and> contents w' = mat_writes opts (ms_pending st) (contents w)"
proof (cases "ms_pending st = [] \<or> dry opts")
  case True
  with assms(1) show ?thesis
    by (auto simp: mat_flush_def dry_def mat_writes_def result_simps)
next
  case False
  with batch_law [OF assms] show ?thesis
    by (auto simp: mat_flush_def dry_def mat_writes_def result_simps)
qed

lemma mat_rows_ok:
  assumes "inv w" "mat_inv opts st"
    and "\<forall>rec\<in>set recs. keyfn rec = Inr (key rec) \<and> cd_encode cd (rec_value rec) = Inr (enc rec)"
  shows "\<exists>st' w'. mat_rows h nm cd keyfn opts fl recs st w = Some (Inr st', w') \<and> inv w' \<and> mat_inv opts st' \<and>
    mat_writes opts (ms_pending st') (contents w') =
      mat_writes opts (ms_pending st @ row_ops nm key enc (rows_kept opts fl key recs)) (contents w) \<and>
    tallies key (length recs) (rows_kept opts fl key recs) st st'"
  using assms
proof (induction recs arbitrary: st w)
  case Nil
  then show ?case by (auto simp: io_return_def tallies_none)
next
  case (Cons rec recs)
  let ?st1 = "st\<lparr>ms_rows_in := ms_rows_in st + 1\<rparr>" and ?k = "key rec" and ?v = "enc rec"
  have kr: "keyfn rec = Inr ?k" and er: "cd_encode cd (rec_value rec) = Inr ?v" using Cons.prems(3) by auto
  have rows: "\<forall>rec\<in>set recs. keyfn rec = Inr (key rec) \<and> cd_encode cd (rec_value rec) = Inr (enc rec)"
    using Cons.prems(3) by simp
  show ?case
  proof (cases "delta_skips opts fl ?k")
    case True
    have inv1: "mat_inv opts ?st1" using Cons.prems(2) by (simp add: mat_inv_def)
    have t: "tallies key 1 [] st ?st1" by (simp add: tallies_def)
    from Cons.IH [OF Cons.prems(1) inv1 rows] obtain st' w' where
      "mat_rows h nm cd keyfn opts fl recs ?st1 w = Some (Inr st', w')" "inv w'" "mat_inv opts st'"
      "mat_writes opts (ms_pending st') (contents w') =
        mat_writes opts (ms_pending st @ row_ops nm key enc (rows_kept opts fl key recs)) (contents w)"
      "tallies key (length recs) (rows_kept opts fl key recs) ?st1 st'" by auto
    with tallies_trans [OF t this(5)] True kr show ?thesis by simp
  next
    case False
    define st2 where "st2 = mat_emit nm ?k ?v ?st1"
    have pend2: "ms_pending st2 = ms_pending st @ [put_op nm ?k ?v]" by (simp add: st2_def mat_emit_def)
    have t: "tallies key 1 [rec] st st2"
      by (simp add: st2_def tallies_def mat_emit_def max_def) (metis order.strict_iff_not order_le_less)
    have wf2: "list_all op_wf (ms_pending st2)"
      unfolding pend2 using Cons.prems(2) by (simp add: mat_inv_def)
    have count2: "ms_flushes st2 * flush_size opts + length (ms_pending st2) = ms_rows_out st2"
      using Cons.prems(2) by (simp add: st2_def mat_emit_def mat_inv_def)
    obtain st3 w3 where step: "(if length (ms_pending st2) \<ge> mo_flush_batch_size opts
          then mat_flush h opts st2 w else Some (Inr st2, w)) = Some (Inr st3, w3)"
      and inv3: "inv w3" "mat_inv opts st3" and t3: "tallies key 0 [] st2 st3"
      and c3: "mat_writes opts (ms_pending st3) (contents w3) = mat_writes opts (ms_pending st2) (contents w)"
    proof (cases "length (ms_pending st2) \<ge> mo_flush_batch_size opts")
      case True
      have "length (ms_pending st2) = flush_size opts"
        using True Cons.prems(2) unfolding pend2
        by (auto simp: mat_inv_def flush_size_def max_def split: if_splits)
      moreover from mat_flush_ok [OF Cons.prems(1) wf2] obtain w3 where
        "mat_flush h opts st2 w = Some (Inr (st2\<lparr>ms_flushes := ms_flushes st2 + 1, ms_pending := []\<rparr>), w3)"
        "inv w3" "contents w3 = mat_writes opts (ms_pending st2) (contents w)"
        by (auto simp: pend2)
      ultimately show thesis
        using that [of "st2\<lparr>ms_flushes := ms_flushes st2 + 1, ms_pending := []\<rparr>" w3] True count2
        by (simp add: mat_inv_def tallies_def flush_size_def)
    next
      case False
      with that [of st2 w] Cons.prems(1) wf2 count2 show thesis
        by (simp add: mat_inv_def tallies_none flush_size_def)
    qed
    from Cons.IH [OF inv3 rows] obtain st' w' where rest:
      "mat_rows h nm cd keyfn opts fl recs st3 w3 = Some (Inr st', w')" "inv w'" "mat_inv opts st'"
      "mat_writes opts (ms_pending st') (contents w') =
        mat_writes opts (ms_pending st3 @ row_ops nm key enc (rows_kept opts fl key recs)) (contents w3)"
      "tallies key (length recs) (rows_kept opts fl key recs) st3 st'" by blast
    have "mat_rows h nm cd keyfn opts fl (rec # recs) st w = Some (Inr st', w')"
      using step rest(1) False kr er unfolding st2_def
      by (simp add: Let_def io_bind_def split: if_splits)
    moreover have "mat_writes opts (ms_pending st') (contents w') =
        mat_writes opts (ms_pending st @ row_ops nm key enc (rows_kept opts fl key (rec # recs))) (contents w)"
      using rest(4) c3 False
      by (simp add: mat_writes_append pend2 mat_writes_Cons [where xs = "row_ops nm key enc (rows_kept opts fl key recs)"])
    moreover have "tallies key (length (rec # recs)) (rows_kept opts fl key (rec # recs)) st st'"
      using tallies_trans [OF tallies_trans [OF t t3] rest(5)] False by simp
    ultimately show ?thesis using rest(2,3) by blast
  qed
qed

lemma mat_loop_ok:
  assumes "pure_yields src s cs None s'" "inv w" "mat_inv opts st"
    and "\<forall>rec\<in>set (concat cs). keyfn rec = Inr (key rec) \<and> cd_encode cd (rec_value rec) = Inr (enc rec)"
  shows "\<exists>st' w'. mat_loop src h nm cd keyfn opts fl s st w = Some (Inr st', w') \<and> inv w' \<and> mat_inv opts st' \<and>
    mat_writes opts (ms_pending st') (contents w') =
      mat_writes opts (ms_pending st @ row_ops nm key enc (rows_kept opts fl key (concat cs))) (contents w) \<and>
    tallies key (length (concat cs)) (rows_kept opts fl key (concat cs)) st st'"
  using assms
proof (induction s cs "None :: error option" s' arbitrary: st w rule: pure_yields.induct)
  case (pure_done s s')
  then show ?case by (auto simp: mat_loop.simps tallies_none)
next
  case (pure_chunk s c s1 cs s')
  have rows: "\<forall>rec\<in>set c. keyfn rec = Inr (key rec) \<and> cd_encode cd (rec_value rec) = Inr (enc rec)"
    "\<forall>rec\<in>set (concat cs). keyfn rec = Inr (key rec) \<and> cd_encode cd (rec_value rec) = Inr (enc rec)"
    using pure_chunk.prems(3) by auto
  from mat_rows_ok [OF pure_chunk.prems(1,2) rows(1), of nm fl] obtain st1 w1 where one:
    "mat_rows h nm cd keyfn opts fl c st w = Some (Inr st1, w1)" "inv w1" "mat_inv opts st1"
    "mat_writes opts (ms_pending st1) (contents w1) =
      mat_writes opts (ms_pending st @ row_ops nm key enc (rows_kept opts fl key c)) (contents w)"
    "tallies key (length c) (rows_kept opts fl key c) st st1" by blast
  from pure_chunk.hyps(3) [OF one(2,3) rows(2)] obtain st' w' where rest:
    "mat_loop src h nm cd keyfn opts fl s1 st1 w1 = Some (Inr st', w')" "inv w'" "mat_inv opts st'"
    "mat_writes opts (ms_pending st') (contents w') =
      mat_writes opts (ms_pending st1 @ row_ops nm key enc (rows_kept opts fl key (concat cs))) (contents w1)"
    "tallies key (length (concat cs)) (rows_kept opts fl key (concat cs)) st1 st'" by blast
  have "mat_loop src h nm cd keyfn opts fl s st w = Some (Inr st', w')"
    by (subst mat_loop.simps) (simp add: pure_chunk.hyps(1) one(1) rest(1))
  moreover have "mat_writes opts (ms_pending st') (contents w') =
      mat_writes opts (ms_pending st @ row_ops nm key enc (rows_kept opts fl key (concat (c # cs)))) (contents w)"
    using rest(4) one(4) by (simp add: mat_writes_append)
  moreover have "tallies key (length (concat (c # cs))) (rows_kept opts fl key (concat (c # cs))) st st'"
    using tallies_trans [OF one(5) rest(5)] by simp
  ultimately show ?case using rest(2,3) by blast
qed

text \<open>The flush after the loop: what was pending is written, and every row counted is in some flush.\<close>

lemma mat_written:
  assumes "pure_yields src s cs None s'" "inv w"
    and "\<forall>rec\<in>set (concat cs). keyfn rec = Inr (key rec) \<and> cd_encode cd (rec_value rec) = Inr (enc rec)"
  shows "\<exists>st w'. io_bind (mat_loop src h nm cd keyfn opts fl s mat_start) (mat_flush h opts) w = Some (Inr st, w') \<and>
    inv w' \<and> contents w' = mat_writes opts (row_ops nm key enc (rows_kept opts fl key (concat cs))) (contents w) \<and>
    ms_rows_in st = length (concat cs) \<and> ms_rows_out st = length (rows_kept opts fl key (concat cs)) \<and>
    ms_last_key st = foldl max [] (map key (rows_kept opts fl key (concat cs))) \<and>
    ms_flushes st = (ms_rows_out st + flush_size opts - 1) div flush_size opts"
proof -
  let ?fb = "flush_size opts"
  have fb: "0 < ?fb" by (simp add: flush_size_def)
  have start: "mat_inv opts mat_start" by (simp add: mat_inv_def mat_start_def flush_size_def)
  from mat_loop_ok [OF assms(1,2) start assms(3), of nm fl] obtain st w1 where loop:
    "mat_loop src h nm cd keyfn opts fl s mat_start w = Some (Inr st, w1)" "inv w1" "mat_inv opts st"
    "mat_writes opts (ms_pending st) (contents w1) =
      mat_writes opts (ms_pending mat_start @ row_ops nm key enc (rows_kept opts fl key (concat cs))) (contents w)"
    "tallies key (length (concat cs)) (rows_kept opts fl key (concat cs)) mat_start st" by blast
  let ?st' = "if ms_pending st = [] then st else st\<lparr>ms_flushes := ms_flushes st + 1, ms_pending := []\<rparr>"
  have wf: "list_all op_wf (ms_pending st)" using loop(3) by (simp add: mat_inv_def)
  from mat_flush_ok [OF loop(2) wf, of opts] obtain w' where flush:
    "mat_flush h opts st w1 = Some (Inr ?st', w')" "inv w'"
    "contents w' = mat_writes opts (ms_pending st) (contents w1)" by blast
  have count: "ms_flushes st * ?fb + length (ms_pending st) = ms_rows_out st" "length (ms_pending st) < ?fb"
    using loop(3) by (simp_all add: mat_inv_def)
  have "ms_flushes ?st' = (ms_rows_out ?st' + ?fb - 1) div ?fb"
  proof (cases "ms_pending st = []")
    case True
    then have "ms_rows_out st + ?fb - 1 = ms_flushes st * ?fb + (?fb - 1)" using count(1) fb by simp
    also have "\<dots> div ?fb = ms_flushes st" using fb by (simp only: div_mult_self3 div_less diff_less zero_less_one add_0_right)
    finally show ?thesis using True by simp
  next
    case False
    then have pos: "0 < length (ms_pending st)" by simp
    have "(ms_rows_out st + ?fb - 1) = (ms_flushes st + 1) * ?fb + (length (ms_pending st) - 1)"
      using pos unfolding count(1) [symmetric] add_mult_distrib by linarith
    moreover have "length (ms_pending st) - 1 < ?fb" using count(2) by simp
    moreover have "(q * ?fb + r) div ?fb = q" if "r < ?fb" for q r using that by simp
    ultimately have "(ms_rows_out st + ?fb - 1) div ?fb = ms_flushes st + 1" by metis
    with False show ?thesis by simp
  qed
  moreover have "ms_rows_in ?st' = ms_rows_in st" "ms_rows_out ?st' = ms_rows_out st" "ms_last_key ?st' = ms_last_key st"
    by simp_all
  ultimately show ?thesis
    using loop(1,4,5) flush by (auto simp: io_bind_def tallies_def mat_start_def)
qed

end

subsection \<open>The whole run\<close>

definition mat_base :: "MaterializeOptions \<Rightarrow> contents \<Rightarrow> contents" where
  "mat_base opts m = (if mo_mode opts = Replace
     then (\<lambda>k. if prefix (mo_replace_prefix opts) k then None else m k) else m)"

definition stored_floor :: "MaterializeOptions \<Rightarrow> contents \<Rightarrow> string" where
  "stored_floor opts m = (if mo_mode opts \<noteq> Delta then []
     else case m (watermark_key (mo_watermark_id opts)) of
       None \<Rightarrow> []
     | Some bytes \<Rightarrow> (case decode_watermark bytes of Inl e \<Rightarrow> [] | Inr rec \<Rightarrow> wm_last_key rec))"

definition with_watermark :: "MaterializeOptions \<Rightarrow> string \<Rightarrow> 64 word \<Rightarrow> contents \<Rightarrow> contents" where
  "with_watermark opts lk t m = (if mo_mode opts = Delta \<and> lk \<noteq> []
     then m(watermark_key (mo_watermark_id opts) \<mapsto> encode_watermark
       \<lparr>wm_view_id = mo_watermark_id opts, wm_last_key = lk, wm_timestamp_us = t\<rparr>) else m)"

definition max_key :: "('a Record \<Rightarrow> string) \<Rightarrow> 'a Record list \<Rightarrow> string" where
  "max_key key recs = foldl max [] (map key recs)"

definition mat_contents :: "MaterializeOptions \<Rightarrow> string \<Rightarrow> ('a Record \<Rightarrow> string) \<Rightarrow> ('a Record \<Rightarrow> string) \<Rightarrow>
    'a Record list \<Rightarrow> 64 word \<Rightarrow> contents \<Rightarrow> contents" where
  "mat_contents opts nm key enc recs t m =
     (let kept = rows_kept opts (stored_floor opts m) key recs in
      with_watermark opts (max_key key kept) t (mat_writes opts (row_ops nm key enc kept) (mat_base opts m)))"

lemma fold_del_ops:
  "fold apply_op (map (\<lambda>kv. del_op nm (kv_key kv)) kvs) m = (\<lambda>k. if k \<in> kv_key ` set kvs then None else m k)"
  by (induction kvs arbitrary: m) auto

context kv_store
begin

lemma replace_prelude_ok:
  assumes "inv w"
  shows "\<exists>w'. replace_prelude h nm opts w = Some (Inr (), w') \<and> inv w' \<and> contents w' = mat_base opts (contents w)"
proof (cases "mo_mode opts = Replace")
  case True
  let ?p = "mo_replace_prefix opts"
  obtain kvs where kvs: "b_prefix_scan B c ?p w = Some (Inr kvs, w)" "scan_of (contents w) ?p kvs"
    using scan_law [OF assms] by blast
  let ?dels = "map (\<lambda>kv. del_op nm (kv_key kv)) kvs"
  have "list_all op_wf ?dels" by (simp add: list_all_iff)
  from batch_law [OF assms this] obtain w' where w': "b_batch B c ?dels w = Some (Inr (), w')" "inv w'"
    "contents w' = fold apply_op ?dels (contents w)" by blast
  have "(\<lambda>k. if k \<in> kv_key ` set kvs then None else contents w k) = mat_base opts (contents w)"
  proof
    fix k
    have "k \<in> kv_key ` set kvs \<longleftrightarrow> prefix ?p k \<and> contents w k \<noteq> None"
      using kvs(2) by (force simp: scan_of_def)
    then show "(if k \<in> kv_key ` set kvs then None else contents w k) = mat_base opts (contents w) k"
      by (auto simp: mat_base_def True)
  qed
  then have base: "mat_base opts (contents w) = fold apply_op ?dels (contents w)" by (simp only: fold_del_ops)
  show ?thesis
  proof (cases "kvs = []")
    case True
    with base kvs(1) assms \<open>mo_mode opts = Replace\<close> show ?thesis
      by (simp add: replace_prelude_def result_simps)
  next
    case False
    then have "replace_prelude h nm opts w = Some (Inr (), w')"
      using w'(1) kvs(1) \<open>mo_mode opts = Replace\<close> by (simp add: replace_prelude_def result_simps)
    with w'(2,3) base show ?thesis by metis
  qed
qed (use assms in \<open>auto simp: replace_prelude_def mat_base_def io_return_def\<close>)

lemma read_floor_ok:
  "inv w \<Longrightarrow> mo_mode opts = Delta \<Longrightarrow> mo_watermark_id opts = [] \<Longrightarrow>
    read_floor h opts w = Some (Err ''MaterializeDelta'' ''watermark_id required for Delta mode'', w)"
  "inv w \<Longrightarrow> mo_mode opts = Delta \<longrightarrow> mo_watermark_id opts \<noteq> [] \<Longrightarrow>
    read_floor h opts w = Some (Inr (stored_floor opts (contents w)), w)"
  using get_law [of w "watermark_key (mo_watermark_id opts)"]
  by (auto simp: read_floor_def stored_floor_def result_simps io_throw_def split: option.splits sum.splits)

lemma advance_watermark_ok:
  assumes "inv w"
  shows "\<exists>w'. advance_watermark now h opts st w = Some (Inr (), w') \<and> inv w' \<and>
    contents w' = with_watermark opts (ms_last_key st) (word_of_int (to_micros (now w))) (contents w)"
  using put_law [OF assms] assms by (simp add: advance_watermark_def with_watermark_def)

lemma materialize_ok:
  assumes "pure_yields stream_pull source cs None s'" "inv w"
    and rows: "\<forall>rec\<in>set (concat cs). keyfn rec = Inr (key rec) \<and> cd_encode cd (rec_value rec) = Inr (enc rec)"
    and id: "mo_mode opts = Delta \<longrightarrow> mo_watermark_id opts \<noteq> []"
    and target: "sref_handle target = Some h" "sref_name target = nm"
  defines "kept \<equiv> rows_kept opts (stored_floor opts (contents w)) key (concat cs)"
  shows "\<exists>res w' t. materialize now cd source target keyfn opts w = Some (Inr res, w') \<and> inv w' \<and>
    contents w' = mat_contents opts nm key enc (concat cs) t (contents w) \<and>
    mr_rows_written res = length kept \<and> mr_last_key res = max_key key kept \<and>
    em_rows_in (mr_metrics res) = length (concat cs) \<and>
    em_flushes (mr_metrics res) = (length kept + flush_size opts - 1) div flush_size opts"
proof -
  let ?fl = "stored_floor opts (contents w)"
  obtain w1 where w1: "replace_prelude h nm opts w = Some (Inr (), w1)" "inv w1"
    "contents w1 = mat_base opts (contents w)" using replace_prelude_ok [OF assms(2)] by blast
  have "stored_floor opts (contents w1) = ?fl"
    by (simp add: w1(3) stored_floor_def mat_base_def)
  with read_floor_ok(2) [OF w1(2) id] have fl: "read_floor h opts w1 = Some (Inr ?fl, w1)" by simp
  obtain st w2 where run: "io_bind (mat_loop stream_pull h nm cd keyfn opts ?fl source mat_start) (mat_flush h opts) w1 =
      Some (Inr st, w2)" "inv w2" "contents w2 = mat_writes opts (row_ops nm key enc kept) (contents w1)"
    "ms_rows_in st = length (concat cs)" "ms_rows_out st = length kept"
    "ms_last_key st = max_key key kept"
    "ms_flushes st = (ms_rows_out st + flush_size opts - 1) div flush_size opts"
    using mat_written [OF assms(1) w1(2) rows, of nm opts ?fl] unfolding kept_def max_key_def by metis
  from run(1) obtain st0 w12 where loop: "mat_loop stream_pull h nm cd keyfn opts ?fl source mat_start w1 = Some (Inr st0, w12)"
    and flush: "mat_flush h opts st0 w12 = Some (Inr st, w2)" by (elim io_bind_OkD)
  obtain w3 where w3: "advance_watermark now h opts st w2 = Some (Inr (), w3)" "inv w3"
    "contents w3 = with_watermark opts (ms_last_key st) (word_of_int (to_micros (now w2))) (contents w2)"
    using advance_watermark_ok [OF run(2)] by blast
  have "materialize now cd source target keyfn opts w = Some (Inr (mat_result (now w) (now w3) st), w3)"
    by (simp add: materialize_def Let_def target w1(1) fl loop flush w3(1) result_simps)
  moreover have "contents w3 = mat_contents opts nm key enc (concat cs) (word_of_int (to_micros (now w2))) (contents w)"
    by (simp add: mat_contents_def Let_def w3(3) run(3,6) w1(3) flip: kept_def)
  ultimately show ?thesis
    using w3(2) run(4-7) by (auto simp: mat_result_def)
qed

end

subsection \<open>The modes without a watermark\<close>

text \<open>
  What such a run is asked for, said of the target's contents and of the list of keys and encoded values:
  the later of two rows with one key wins; a replacement forgets the keys under its prefix first.
\<close>

definition asked_contents :: "MaterializeOptions \<Rightarrow> (string \<times> string) list \<Rightarrow> contents \<Rightarrow> contents" where
  "asked_contents opts rows m = (case mo_mode opts of
      DryRun \<Rightarrow> m
    | Replace \<Rightarrow> (m |` {k. \<not> prefix (mo_replace_prefix opts) k}) ++ map_of (rev rows)
    | _ \<Rightarrow> m ++ map_of (rev rows))"

lemma fold_put_ops:
  "fold apply_op (row_ops nm key enc recs) m = m ++ map_of (rev (map (\<lambda>rec. (key rec, enc rec)) recs))"
  by (induction recs arbitrary: m) (simp_all add: map_add_def fun_eq_iff split: option.splits)

lemma mat_contents_asked:
  assumes "mo_mode opts \<noteq> Delta"
  shows "mat_contents opts nm key enc recs t m = asked_contents opts (map (\<lambda>rec. (key rec, enc rec)) recs) m"
    "rows_kept opts fl key recs = recs"
proof -
  show kept: "rows_kept opts fl key recs = recs" for fl
    using assms by (simp add: rows_kept_def delta_skips_def)
  have base: "mat_base opts m = (if mo_mode opts = Replace then m |` {k. \<not> prefix (mo_replace_prefix opts) k} else m)"
    by (auto simp: mat_base_def restrict_map_def)
  show "mat_contents opts nm key enc recs t m = asked_contents opts (map (\<lambda>rec. (key rec, enc rec)) recs) m"
    using assms by (cases "mo_mode opts")
      (simp_all add: mat_contents_def Let_def kept with_watermark_def mat_writes_def dry_def base fold_put_ops asked_contents_def)
qed

subsection \<open>Delta runs\<close>

lemma foldl_max_le: "m \<le> foldl max m xs" "x \<in> set xs \<Longrightarrow> x \<le> foldl max m xs" for m :: string
proof -
  have le: "m \<le> foldl max m xs" for m :: string and xs
    by (induction xs arbitrary: m) (auto intro: order_trans [OF max.cobounded1])
  then show "m \<le> foldl max m xs" .
  show "x \<in> set xs \<Longrightarrow> x \<le> foldl max m xs"
  proof (induction xs arbitrary: m)
    case (Cons y ys)
    then show ?case
      using order_trans [OF max.cobounded2 le [of "max m y" ys]] by auto
  qed simp
qed

lemma max_key_ge: "rec \<in> set recs \<Longrightarrow> key rec \<le> max_key key recs"
  by (simp add: max_key_def foldl_max_le)

lemma max_key_nonempty: "recs \<noteq> [] \<Longrightarrow> \<forall>rec\<in>set recs. key rec \<noteq> [] \<Longrightarrow> max_key key recs \<noteq> []"
  using max_key_ge [of "hd recs" recs key] by (cases recs) auto

text \<open>After a delta run every row of its source is at or below the stored watermark.\<close>

lemma delta_settles:
  assumes delta: "mo_mode opts = Delta" and keys: "\<forall>rec\<in>set recs. key rec \<noteq> []"
    and len: "length (mo_watermark_id opts) < 2 ^ 32" "\<forall>rec\<in>set recs. length (key rec) < 2 ^ 32"
    and m'_def: "m' = mat_contents opts nm key enc recs t m"
  shows "rows_kept opts (stored_floor opts m') key recs = []"
proof -
  let ?fl = "stored_floor opts m"
  let ?kept = "rows_kept opts ?fl key recs"
  show ?thesis
  proof (cases "?kept = []")
    case True
    then have "m' = m" by (simp add: m'_def mat_contents_def with_watermark_def max_key_def mat_base_def delta)
    with True show ?thesis by simp
  next
    case False
    let ?lk = "max_key key ?kept"
    have sub: "set ?kept \<subseteq> set recs" by (auto simp: rows_kept_def)
    with keys have lk: "?lk \<noteq> []" using max_key_nonempty [OF False, of key] by blast
    have "?lk \<in> insert [] (key ` set ?kept)"
    proof -
      have "foldl max z ks \<in> insert z (set ks)" for z :: string and ks
        by (induction ks arbitrary: z) (simp, fastforce simp: max_def)
      from this [of "[]" "map key ?kept"] show ?thesis by (simp add: max_key_def)
    qed
    with lk sub len(2) have "length ?lk < 2 ^ 32" by auto
    then have floor': "stored_floor opts m' = ?lk"
      using lk len(1) by (simp add: m'_def mat_contents_def Let_def stored_floor_def with_watermark_def delta
          decode_encode_watermark)
    have "key rec \<le> ?lk" if "rec \<in> set recs" for rec
    proof (cases "delta_skips opts ?fl (key rec)")
      case True
      obtain r where r: "r \<in> set ?kept" using False by (cases ?kept) auto
      then have "\<not> key r \<le> ?fl" using True delta by (auto simp: rows_kept_def delta_skips_def)
      then have "?fl \<le> key r" by simp
      moreover have "key rec \<le> ?fl" using True by (simp add: delta_skips_def)
      ultimately show ?thesis using max_key_ge [OF r, of key] by (meson order_trans)
    next
      case False
      with that show ?thesis by (auto simp: rows_kept_def intro!: max_key_ge)
    qed
    with floor' lk delta show ?thesis by (auto simp: rows_kept_def delta_skips_def)
  qed
qed

context kv_store
begin

text \<open>A second delta run over the same source writes nothing.\<close>

lemma delta_again:
  assumes source: "pure_yields stream_pull source cs None s'" and inv: "inv w"
    and rows: "\<forall>rec\<in>set (concat cs). keyfn rec = Inr (key rec) \<and> cd_encode cd (rec_value rec) = Inr (enc rec)"
    and delta: "mo_mode opts = Delta" "mo_watermark_id opts \<noteq> []" "length (mo_watermark_id opts) < 2 ^ 32"
    and target: "sref_handle target = Some h"
    and keys: "\<forall>rec\<in>set (concat cs). key rec \<noteq> [] \<and> length (key rec) < 2 ^ 32"
  shows "\<exists>res1 w1 res2 w2. materialize now cd source target keyfn opts w = Some (Inr res1, w1) \<and>
    materialize now cd source target keyfn opts w1 = Some (Inr res2, w2) \<and>
    mr_rows_written res2 = 0 \<and> contents w2 = contents w1"
proof -
  let ?nm = "sref_name target"
  have id: "mo_mode opts = Delta \<longrightarrow> mo_watermark_id opts \<noteq> []" using delta(2) by simp
  obtain res1 w1 t1 where one: "materialize now cd source target keyfn opts w = Some (Inr res1, w1)" "inv w1"
    "contents w1 = mat_contents opts ?nm key enc (concat cs) t1 (contents w)"
    using materialize_ok [OF source inv rows id target refl] by blast
  have none: "rows_kept opts (stored_floor opts (contents w1)) key (concat cs) = []"
    by (rule delta_settles [OF delta(1) _ delta(3) _ one(3)]) (use keys in auto)
  obtain res2 w2 t2 where two: "materialize now cd source target keyfn opts w1 = Some (Inr res2, w2)"
    "contents w2 = mat_contents opts ?nm key enc (concat cs) t2 (contents w1)"
    "mr_rows_written res2 = length (rows_kept opts (stored_floor opts (contents w1)) key (concat cs))"
    using materialize_ok [OF source one(2) rows id target refl] by blast
  have "contents w2 = contents w1"
    by (simp add: two(2) mat_contents_def none with_watermark_def max_key_def mat_base_def delta(1))
  with one(1) two(1,3) none show ?thesis by auto
qed

end

end
