(* ===== verification/Materialization_Properties.thy ===== *)
theory Materialization_Properties
  imports Join_Batch_Laws Materialize_Laws Planner Record_Stream Resource_Stack
begin

text \<open>
  The properties of joins, of materializations and of their keys, and the order in which resources
  are torn down.
\<close>

lemma single_source:
  "\<exists>s'. pure_yields stream_pull (stream_from_vector [x] :: ('w, 'a) StreamHandle) [[x]] None s'"
  using stream_from_vector_yields [of "[x]"] by (simp add: chunk_from_small)

text \<open>
  C12: Without a limit and without a cap on the build side, joining a stream with a table of the in-memory backend
  delivers, in the order of the left records: for an inner, a semi or a right outer join each left record that has
  a match in the table, with the match; for a left or a full outer join every left record, with its match or with
  none; for an anti join those without a match (\<open>join_spec\<close>). The answer is the same for every strategy that is
  planned or forced. (The comments announce unmatched right records for right and full outer joins; the code
  has none.)
\<close>

theorem join_delivers_specification:
  assumes "map_ok (w c)" "\<forall>b\<in>ran (map_of (w c)). cd_decode cd b = Inr (f b)" "length (w c) < 2 ^ 32"
    and "pure_yields stream_pull left cs None l'" "\<forall>c\<in>set cs. length c < 2 ^ 32"
    and "\<forall>rec\<in>set (concat cs). extract rec = Inr (ext rec)"
    and "jopt_limit opts = 0" "jopt_hash_build_cap opts = 0" "jopt_batch_size opts < 2 ^ 32"
  shows "\<exists>h. join cd left (memory_ref c nm) extract opts w = Some (Inr h, w) \<and>
    delivers stream_pull h w (map (\<lambda>j. Rec (jn_key j) j)
      (join_spec (jopt_kind opts) (\<lambda>k. map_option f (map_of (w c) k)) ext (concat cs))) w"
  by (rule right_side.join_meets_spec [OF memory_right_side [of w c cd f nm, OF assms(1-3)] assms(4-9)])

lemma join_delivers_specification_witness:
  "\<exists>h. join string_codec (stream_from_vector [Rec ''l'' ''k''] :: (mem_world, string Record) StreamHandle)
      (memory_ref 0 ''users'') (\<lambda>rec. Inr (rec_value rec)) (default_join_options\<lparr>jopt_force_strategy := HashJoin\<rparr>)
      (one_pair 0 ''k'' ''v'') = Some (Inr h, one_pair 0 ''k'' ''v'') \<and>
    delivers stream_pull h (one_pair 0 ''k'' ''v'')
      [Rec ''k'' \<lparr>jn_key = ''k'', jn_left = ''k'', jn_right = Some ''v''\<rparr>] (one_pair 0 ''k'' ''v'')"
proof -
  let ?w = "one_pair 0 ''k'' ''v''" and ?l = "Rec ''l'' ''k''"
  let ?o = "default_join_options\<lparr>jopt_force_strategy := HashJoin\<rparr>"
  obtain l' where left: "pure_yields stream_pull (stream_from_vector [?l] :: (mem_world, string Record) StreamHandle) [[?l]] None l'"
    using single_source by (rule exE)
  have "map_ok (?w 0)" "\<forall>b\<in>ran (map_of (?w 0)). cd_decode string_codec b = Inr (id b)" "length (?w 0) < 2 ^ 32"
    by (simp_all add: one_pair_def map_ok_def string_codec_def)
  from join_delivers_specification [where w = ?w and c = 0 and f = id, OF this left, of "\<lambda>rec. Inr (rec_value rec)" rec_value ?o "''users''"]
  show ?thesis by (simp add: default_join_options_def join_row_def should_emit_def one_pair_def)
qed

text \<open>
  Right and full outer joins never deliver an unmatched right record: whatever the kind of the join, each
  record it delivers is keyed by the key of a left record, and there are at most as many as left records.
\<close>

theorem joined_rows_come_from_left:
  assumes "map_ok (w c)" "\<forall>b\<in>ran (map_of (w c)). cd_decode cd b = Inr (f b)" "length (w c) < 2 ^ 32"
    and "pure_yields stream_pull left cs None l'" "\<forall>c\<in>set cs. length c < 2 ^ 32"
    and "\<forall>rec\<in>set (concat cs). extract rec = Inr (ext rec)"
    and "jopt_limit opts = 0" "jopt_hash_build_cap opts = 0" "jopt_batch_size opts < 2 ^ 32"
  shows "\<exists>h rows. join cd left (memory_ref c nm) extract opts w = Some (Inr h, w) \<and>
    delivers stream_pull h w rows w \<and> length rows \<le> length (concat cs) \<and>
    rec_key ` set rows \<subseteq> ext ` set (concat cs)"
proof -
  let ?look = "\<lambda>k. map_option f (map_of (w c) k)"
  have keys: "jn_key ` set (join_spec kind ?look ext recs) \<subseteq> ext ` set recs" for kind recs
    by (auto simp: join_spec_rows join_row_def split: if_splits)
  from right_side.join_meets_spec [OF memory_right_side [of w c cd f nm, OF assms(1-3)] assms(4-9)]
  show ?thesis using keys [of "jopt_kind opts" "concat cs"] length_join_spec [of "jopt_kind opts" ?look ext "concat cs"]
    by (fastforce simp: image_image)
qed

lemma joined_rows_come_from_left_witness:
  "\<exists>h rows. join string_codec (stream_from_vector [Rec ''l'' ''x''] :: (mem_world, string Record) StreamHandle)
      (memory_ref 0 ''users'') (\<lambda>rec. Inr (rec_value rec)) (default_join_options\<lparr>jopt_kind := FullOuter\<rparr>)
      (one_pair 0 ''k'' ''v'') = Some (Inr h, one_pair 0 ''k'' ''v'') \<and>
    delivers stream_pull h (one_pair 0 ''k'' ''v'') rows (one_pair 0 ''k'' ''v'') \<and> ''k'' \<notin> rec_key ` set rows"
proof -
  let ?w = "one_pair 0 ''k'' ''v''" and ?l = "Rec ''l'' ''x''"
  let ?o = "default_join_options\<lparr>jopt_kind := FullOuter\<rparr>"
  obtain l' where left: "pure_yields stream_pull (stream_from_vector [?l] :: (mem_world, string Record) StreamHandle) [[?l]] None l'"
    using single_source by (rule exE)
  have "map_ok (?w 0)" "\<forall>b\<in>ran (map_of (?w 0)). cd_decode string_codec b = Inr (id b)" "length (?w 0) < 2 ^ 32"
    by (simp_all add: one_pair_def map_ok_def string_codec_def)
  from joined_rows_come_from_left [where w = ?w and c = 0 and f = id, OF this left, of "\<lambda>rec. Inr (rec_value rec)" rec_value ?o "''users''"]
  show ?thesis by (auto simp: default_join_options_def)
qed

text \<open>
  C13: A materialization that is not a delta leaves in its target what its mode says, and reports it: over any
  store that keeps the contract of a key/value store, with rows whose keys and encodings succeed, the run ends;
  an append or an upsert has put the rows on top of what was there, the later row winning; a replacement has also
  forgotten the other keys under its prefix; a dry run has changed nothing. The result counts the rows read, the
  rows written (those of a dry run too) and one flush for each full batch and for a rest.
\<close>

theorem materialize_writes_rows:
  assumes "kv_store B c contents ok" "pure_yields stream_pull source cs None s'" "ok w"
    and "\<forall>rec\<in>set (concat cs). keyfn rec = Inr (key rec) \<and> cd_encode cd (rec_value rec) = Inr (enc rec)"
    and "mo_mode opts \<noteq> Delta"
    and "sref_handle target = Some (make_backend_handle B c)"
  shows "\<exists>res w'. materialize now cd source target keyfn opts w = Some (Inr res, w') \<and> ok w' \<and>
    contents w' = asked_contents opts (map (\<lambda>rec. (key rec, enc rec)) (concat cs)) (contents w) \<and>
    em_rows_in (mr_metrics res) = length (concat cs) \<and> mr_rows_written res = length (concat cs) \<and>
    em_flushes (mr_metrics res) = (let n = max 1 (mo_flush_batch_size opts) in (length (concat cs) + n - 1) div n)"
proof -
  have "mo_mode opts = Delta \<longrightarrow> mo_watermark_id opts \<noteq> []" using assms(5) by simp
  from kv_store.materialize_ok [OF assms(1-4) this assms(6) refl, of now]
  show ?thesis by (auto simp: mat_contents_asked [OF assms(5)] flush_size_def Let_def)
qed

text \<open>A replacement of the keys under \<open>k\<close>; the key outside it stays.\<close>

lemma materialize_writes_rows_witness:
  "\<exists>res w'. materialize (\<lambda>_. 0) string_codec (stream_from_vector [Rec ''a'' ''x''] :: (mem_world, string Record) StreamHandle)
      (memory_ref 0 ''t'') (\<lambda>rec. Inr (rec_key rec))
      (default_materialize_options\<lparr>mo_mode := Replace, mo_replace_prefix := ''k''\<rparr>)
      (\<lambda>_. [(''b'', ''1''), (''k2'', ''2'')]) = Some (Inr res, w') \<and>
    map_of (w' 0) = [''a'' \<mapsto> ''x'', ''b'' \<mapsto> ''1''] \<and> mr_rows_written res = 1"
proof -
  let ?src = "stream_from_vector [Rec ''a'' ''x''] :: (mem_world, string Record) StreamHandle"
  let ?o = "default_materialize_options\<lparr>mo_mode := Replace, mo_replace_prefix := ''k''\<rparr>"
  let ?w = "\<lambda>_::nat. [(''b'', ''1''), (''k2'', ''2'')]"
  obtain l' where src: "pure_yields stream_pull ?src [[Rec ''a'' ''x'']] None l'" using single_source by (rule exE)
  have "map_ok (?w 0)" by (simp add: map_ok_def)
  moreover have "\<forall>rec\<in>set (concat [[Rec ''a'' ''x'']]). Inr (rec_key rec) = (Inr (rec_key rec) :: string result) \<and>
      cd_encode string_codec (rec_value rec) = Inr (rec_value rec)" by (simp add: string_codec_def)
  moreover have "mo_mode ?o \<noteq> Delta" by simp
  moreover have "sref_handle (memory_ref 0 ''t'') = Some (make_backend_handle in_memory_backend 0)"
    by (simp add: memory_ref_def)
  ultimately have "\<exists>res w'. materialize (\<lambda>_. 0) string_codec ?src (memory_ref 0 ''t'') (\<lambda>rec. Inr (rec_key rec)) ?o ?w =
      Some (Inr res, w') \<and> map_ok (w' 0) \<and>
      map_of (w' 0) = asked_contents ?o (map (\<lambda>rec. (rec_key rec, rec_value rec)) (concat [[Rec ''a'' ''x'']])) (map_of (?w 0)) \<and>
      em_rows_in (mr_metrics res) = length (concat [[Rec ''a'' ''x'']]) \<and> mr_rows_written res = length (concat [[Rec ''a'' ''x'']]) \<and>
      em_flushes (mr_metrics res) = (let n = max 1 (mo_flush_batch_size ?o) in (length (concat [[Rec ''a'' ''x'']]) + n - 1) div n)"
    by (rule materialize_writes_rows [OF memory.kv_store_axioms [of 0] src])
  moreover have "asked_contents ?o (map (\<lambda>rec. (rec_key rec, rec_value rec)) (concat [[Rec ''a'' ''x'']])) (map_of (?w 0)) =
      [''a'' \<mapsto> ''x'', ''b'' \<mapsto> ''1'']"
    by (rule ext) (simp add: asked_contents_def restrict_map_def)
  ultimately show ?thesis by (metis One_nat_def concat.simps length_Cons list.size(3) append_Nil2)
qed

text \<open>
  C14: A delta run is idempotent: run a second time over the same source, it writes no row and leaves every key of the
  target as it was, watermark included.
\<close>

theorem delta_run_settles:
  assumes "kv_store B c contents ok" "pure_yields stream_pull source cs None s'" "ok w"
    and "\<forall>rec\<in>set (concat cs). keyfn rec = Inr (key rec) \<and> cd_encode cd (rec_value rec) = Inr (enc rec)"
    and "mo_mode opts = Delta" "mo_watermark_id opts \<noteq> []" "length (mo_watermark_id opts) < 2 ^ 32"
    and "sref_handle target = Some (make_backend_handle B c)"
    and "\<forall>rec\<in>set (concat cs). key rec \<noteq> [] \<and> length (key rec) < 2 ^ 32"
  shows "\<exists>res1 w1 res2 w2. materialize now cd source target keyfn opts w = Some (Inr res1, w1) \<and>
    materialize now cd source target keyfn opts w1 = Some (Inr res2, w2) \<and>
    mr_rows_written res2 = 0 \<and> contents w2 = contents w1"
  by (rule kv_store.delta_again [OF assms])

lemma delta_run_settles_witness:
  "\<exists>res1 w1 res2 w2.
    materialize (\<lambda>_. 0) string_codec (stream_from_vector [Rec ''a'' ''x''] :: (mem_world, string Record) StreamHandle)
      (memory_ref 0 ''t'') (\<lambda>rec. Inr (rec_key rec)) (default_materialize_options\<lparr>mo_mode := Delta, mo_watermark_id := ''v''\<rparr>)
      (\<lambda>_. []) = Some (Inr res1, w1) \<and>
    materialize (\<lambda>_. 0) string_codec (stream_from_vector [Rec ''a'' ''x''] :: (mem_world, string Record) StreamHandle)
      (memory_ref 0 ''t'') (\<lambda>rec. Inr (rec_key rec)) (default_materialize_options\<lparr>mo_mode := Delta, mo_watermark_id := ''v''\<rparr>)
      w1 = Some (Inr res2, w2) \<and> mr_rows_written res2 = 0 \<and> map_of (w2 0) = map_of (w1 0)"
proof -
  let ?src = "stream_from_vector [Rec ''a'' ''x''] :: (mem_world, string Record) StreamHandle"
  obtain l' where src: "pure_yields stream_pull ?src [[Rec ''a'' ''x'']] None l'" using single_source by (rule exE)
  have "map_ok ((\<lambda>_. []) (0 :: nat))" by (simp add: map_ok_def)
  from delta_run_settles [where w = "\<lambda>_. []" and keyfn = "\<lambda>rec. Inr (rec_key rec)" and cd = string_codec
      and key = rec_key and enc = rec_value and target = "memory_ref 0 ''t''" and now = "\<lambda>_. 0"
      and opts = "default_materialize_options\<lparr>mo_mode := Delta, mo_watermark_id := ''v''\<rparr>",
      OF memory.kv_store_axioms [of 0] src this]
  show ?thesis by (simp add: string_codec_def memory_ref_def)
qed

text \<open>
  A watermark's record is decoded as it was encoded, for a view and a key shorter than \<open>2 ^ 32\<close> bytes and any 64-bit
  time; a record shorter than its three fixed fields is refused.
\<close>

theorem watermark_roundtrip:
  "(length (wm_view_id r) < 2 ^ 32 \<and> length (wm_last_key r) < 2 ^ 32 \<longrightarrow> decode_watermark (encode_watermark r) = Inr r) \<and>
   (length bytes < 16 \<longrightarrow> decode_watermark bytes = Err ''WatermarkDecode'' ''truncated'')"
  using decode_encode_watermark [of r] by (simp add: decode_watermark_def)

lemma watermark_roundtrip_witness:
  "decode_watermark (encode_watermark \<lparr>wm_view_id = ''v'', wm_last_key = ''k'', wm_timestamp_us = - 1\<rparr>) =
    Inr \<lparr>wm_view_id = ''v'', wm_last_key = ''k'', wm_timestamp_us = - 1\<rparr>"
  using watermark_roundtrip [of "\<lparr>wm_view_id = ''v'', wm_last_key = ''k'', wm_timestamp_us = - 1\<rparr>" "[]"] by simp

text \<open>
  C15: Composite keys are injective: two lists of columns, each shorter than \<open>2 ^ 32\<close> bytes, whose keys compare equal are
  the same list; the length prefixes keep \<open>(ab, c)\<close> and \<open>(a, bc)\<close> apart.
\<close>

theorem composite_keys_injective:
  assumes "make_composite_key (map Inr as) = Inr ka" "make_composite_key (map Inr bs) = Inr kb"
    and "\<forall>a\<in>set as \<union> set bs. length a < 2 ^ 32"
    and "key_eq (to_key ka) (to_key kb)"
  shows "as = bs"
  using assms(3) by (intro composite_key_inject [OF assms(1,2) _ _ assms(4)]) simp_all

lemma composite_keys_injective_witness:
  "\<exists>ka kb. make_composite_key (map Inr [''ab'', ''c'']) = Inr ka \<and> make_composite_key (map Inr [''a'', ''bc'']) = Inr kb \<and>
    \<not> key_eq (to_key ka) (to_key kb)"
proof -
  have e: "\<exists>k. make_composite_key (map Inr bs) = Inr k" for bs
    by (simp add: make_composite_key_def append_parts_ok)
  obtain ka kb where k: "make_composite_key (map Inr [''ab'', ''c'']) = Inr ka" "make_composite_key (map Inr [''a'', ''bc'']) = Inr kb"
    using e by metis
  have "\<forall>a\<in>set [''ab'', ''c''] \<union> set [''a'', ''bc'']. length a < 2 ^ 32" by simp
  from composite_keys_injective [OF k this] k show ?thesis by auto
qed

text \<open>
  The planner always returns a strategy that can run, with a batch of at least one row: never \<open>Auto\<close>; the
  pinned one if the caller pins one; otherwise a batch join exactly when the right side has a batch lookup and is not
  computed, and never a hash join for a left side that is not local (and \<open>join\<close> always says the left is computed).
\<close>

theorem plan_is_runnable:
  "0 < plan_batch_size (plan inp) \<and> plan_strategy (plan inp) \<noteq> Auto \<and>
   (jopt_force_strategy (pi_opts inp) \<noteq> Auto \<longrightarrow> plan_strategy (plan inp) = jopt_force_strategy (pi_opts inp)) \<and>
   (jopt_force_strategy (pi_opts inp) = Auto \<longrightarrow>
     (plan_strategy (plan inp) = BatchIndexNestedLoop \<longleftrightarrow>
       caps_native_batch_get (pi_right_caps inp) \<and> caps_cost_tier (pi_right_caps inp) \<noteq> Computed) \<and>
     (caps_cost_tier (pi_left_caps inp) \<noteq> Local \<longrightarrow> plan_strategy (plan inp) \<noteq> HashJoin))"
  using plan_progress plan_not_auto plan_forced plan_batch_iff plan_never_hash by blast

lemma plan_is_runnable_witness:
  "plan_strategy (plan (join_inputs (memory_ref 0 ''t'') (default_join_options\<lparr>jopt_hash_build_cap := 10\<rparr>))) \<noteq> HashJoin"
proof -
  let ?i = "join_inputs (memory_ref 0 ''t'') (default_join_options\<lparr>jopt_hash_build_cap := 10\<rparr>)"
  have "jopt_force_strategy (pi_opts ?i) = Auto" "caps_cost_tier (pi_left_caps ?i) \<noteq> Local"
    by (simp_all add: join_inputs_def default_join_options_def)
  then show ?thesis using plan_is_runnable [of ?i] by blast
qed

text \<open>
  A decoding stream reads a table's records: over a source of non-empty chunks whose values decode it yields the decoded
  records, chunk by chunk; an empty chunk of the source ends it, whatever the source would yield afterwards.
\<close>

theorem decoding_stream_yields_records:
  "(yields src s w cs None s' w' \<and> [] \<notin> set cs \<and> (\<forall>kv\<in>set (concat cs). cd_decode cd (kv_value kv) = Inr (f kv)) \<longrightarrow>
      yields (decode_pull cd src) \<lparr>dk_source = s, dk_limit_remaining = n, dk_has_limit = False\<rparr> w
        (map (map (\<lambda>kv. Rec (kv_key kv) (f kv))) cs) None \<lparr>dk_source = s', dk_limit_remaining = n, dk_has_limit = False\<rparr> w') \<and>
   (src s w = Some (Inr (Some []), s1, w1) \<longrightarrow>
      decode_pull cd src \<lparr>dk_source = s, dk_limit_remaining = n, dk_has_limit = False\<rparr> w =
        Some (Inr None, \<lparr>dk_source = s1, dk_limit_remaining = n, dk_has_limit = False\<rparr>, w1))"
  using decode_yields [of src s w cs s' w' cd f n]
    decode_empty_chunk_ends [of src "\<lparr>dk_source = s, dk_limit_remaining = n, dk_has_limit = False\<rparr>" w s1 w1 cd] by simp

lemma decoding_stream_yields_records_witness:
  "decode_pull string_codec (\<lambda>(s :: nat) (w :: unit). Some (Inr (Some []), s + 1, w))
      \<lparr>dk_source = 4, dk_limit_remaining = 0, dk_has_limit = False\<rparr> () =
    Some (Inr None, \<lparr>dk_source = 5, dk_limit_remaining = 0, dk_has_limit = False\<rparr>, ())"
  using decoding_stream_yields_records [of "\<lambda>(s :: nat) (w :: unit). Some (Inr (Some []), s + 1, w)" 4 "()"
      "[]" 4 "()" string_codec _ 0 5 "()"] by simp

text \<open>
  Resources are destroyed in the reverse order of their registration, each once: with destructors that
  append what they destroy to a log, tearing the stack down appends the live resources from the last to the first and leaves an
  empty stack, and a second teardown destroys nothing.
\<close>

theorem teardown_reverses_registration:
  assumes "list_all records_destruction st"
  shows "teardown st log = (Inr (), [], log @ rev (live_resources st)) \<and>
    teardown (fst (snd (teardown st log))) log' = (Inr (), [], log')"
  using teardown_order [OF assms, of log] by (simp add: teardown_def)

lemma teardown_reverses_registration_witness:
  "teardown (stack_push ''b'' (Some 2) (Some (\<lambda>r log. log @ [r])) (stack_push ''a'' (Some 1) (Some (\<lambda>r log. log @ [r])) [])) [] =
    (Inr (), [], [2, 1])"
proof -
  let ?st = "stack_push ''b'' (Some 2) (Some (\<lambda>r log. log @ [r])) (stack_push ''a'' (Some 1) (Some (\<lambda>r log. log @ [r])) [])"
  have "list_all records_destruction ?st" by (simp add: stack_push_def records_destruction_def destroy_entry_def entry_resources_def)
  from teardown_reverses_registration [OF this, of "[]"] show ?thesis
    by (simp add: stack_push_def live_resources_def entry_resources_def)
qed

end
