(* ===== verification/Channel.thy ===== *)
theory Channel
  imports Backend_Handle
begin

text \<open>
  Bounded channels (\<open>include/celer/necto/channel.hpp\<close>): a bounded queue shared by a pushing and a pulling end.
  The shared buffers live in a list, and a \<open>shared_ptr\<close> is an index into it, \<open>None\<close> for null. Each method takes
  the buffer's lock for its whole body, so a method is one step.
\<close>

subsection \<open>Buffers\<close>

record 't ChannelBuf =
  cb_queue :: "'t list"
  cb_capacity :: nat

definition buf_push :: "'t \<Rightarrow> 't ChannelBuf \<Rightarrow> bool \<times> 't ChannelBuf" where
  "buf_push item b = (if length (cb_queue b) \<ge> cb_capacity b then (False, b)
     else (True, b\<lparr>cb_queue := cb_queue b @ [item]\<rparr>))"

definition buf_drain_to :: "'t list \<Rightarrow> 't ChannelBuf \<Rightarrow> nat \<times> 't list \<times> 't ChannelBuf" where
  "buf_drain_to out b = (let n = length (cb_queue b) in
     if n = 0 then (0, out, b) else (n, out @ cb_queue b, b\<lparr>cb_queue := []\<rparr>))"

definition buf_clear :: "'t ChannelBuf \<Rightarrow> 't ChannelBuf" where
  "buf_clear b = b\<lparr>cb_queue := []\<rparr>"

definition buf_empty :: "'t ChannelBuf \<Rightarrow> bool" where
  "buf_empty b \<longleftrightarrow> cb_queue b = []"

definition buf_pending :: "'t ChannelBuf \<Rightarrow> nat" where
  "buf_pending b = length (cb_queue b)"

subsection \<open>The two ends\<close>

type_synonym 't chan_world = "'t ChannelBuf list"
type_synonym ChannelEnd = "nat option"

definition chan_push :: "ChannelEnd \<Rightarrow> 't \<Rightarrow> 't chan_world \<Rightarrow> bool \<times> 't chan_world" where
  "chan_push p item w = (case p of
      None \<Rightarrow> (False, w)
    | Some a \<Rightarrow> (let (ok, b) = buf_push item (w ! a) in (ok, w[a := b])))"

definition chan_drain :: "ChannelEnd \<Rightarrow> 't chan_world \<Rightarrow> 't chan_world" where
  "chan_drain p w = (case p of None \<Rightarrow> w | Some a \<Rightarrow> w[a := buf_clear (w ! a)])"

definition chan_pending :: "ChannelEnd \<Rightarrow> 't chan_world \<Rightarrow> nat" where
  "chan_pending p w = (case p of None \<Rightarrow> 0 | Some a \<Rightarrow> buf_pending (w ! a))"

definition chan_empty :: "ChannelEnd \<Rightarrow> 't chan_world \<Rightarrow> bool" where
  "chan_empty p w = (case p of None \<Rightarrow> True | Some a \<Rightarrow> buf_empty (w ! a))"

definition chan_valid :: "ChannelEnd \<Rightarrow> bool" where
  "chan_valid p \<longleftrightarrow> p \<noteq> None"

text \<open>A pull takes everything that is pending; that nothing is pending does not end the channel.\<close>

definition chan_pull :: "ChannelEnd \<Rightarrow> 't chan_world \<Rightarrow> 't list option result \<times> 't chan_world" where
  "chan_pull p w = (case p of
      None \<Rightarrow> (Err ''ChannelPull'' ''null buffer'', w)
    | Some a \<Rightarrow> (let (n, items, b) = buf_drain_to [] (w ! a) in
        if n = 0 then (Inr None, w[a := b]) else (Inr (Some (chunk_from items)), w[a := b])))"

definition channel_pull :: "('t chan_world, ChannelEnd, 't) pull" where
  "channel_pull p w = (let (r, w') = chan_pull p w in Some (r, p, w'))"

definition make_channel :: "nat \<Rightarrow> 't chan_world \<Rightarrow> (ChannelEnd \<times> ChannelEnd) \<times> 't chan_world" where
  "make_channel cap w = ((Some (length w), Some (length w)), w @ [\<lparr>cb_queue = [], cb_capacity = cap\<rparr>])"

text \<open>The pulling end behind a stream handle: the handle is the same after every pull.\<close>

lemma channel_stream:
  "stream_pull (make_stream_handle channel_pull p) w =
     (let (r, w') = chan_pull p w in Some (r, make_stream_handle channel_pull p, w'))"
  by (cases "chan_pull p w") (simp add: step_simps channel_pull_def)

subsection \<open>The queue that the ends share\<close>

abbreviation queue_at :: "'t chan_world \<Rightarrow> nat \<Rightarrow> 't list" where
  "queue_at w a \<equiv> cb_queue (w ! a)"

lemma chan_push_room:
  "a < length w \<Longrightarrow> length (queue_at w a) < cb_capacity (w ! a) \<Longrightarrow>
    chan_push (Some a) x w = (True, w[a := (w ! a)\<lparr>cb_queue := queue_at w a @ [x]\<rparr>])"
  by (simp add: chan_push_def buf_push_def)

lemma chan_push_full:
  "length (queue_at w a) \<ge> cb_capacity (w ! a) \<Longrightarrow> chan_push (Some a) x w = (False, w)"
  by (simp add: chan_push_def buf_push_def)

lemma chan_push_cases:
  assumes "a < length w" "chan_push (Some a) x w = (ok, w')"
  obtains (accepted) "ok" "length w' = length w" "queue_at w' a = queue_at w a @ [x]" "\<And>b. b \<noteq> a \<Longrightarrow> w' ! b = w ! b"
      "cb_capacity (w' ! a) = cb_capacity (w ! a)"
  | (refused) "\<not> ok" "w' = w"
proof (cases "length (queue_at w a) < cb_capacity (w ! a)")
  case True
  with assms have "ok" "w' = w[a := (w ! a)\<lparr>cb_queue := queue_at w a @ [x]\<rparr>]" by (simp_all add: chan_push_room)
  with assms(1) show thesis by (intro accepted) simp_all
next
  case False
  with assms(2) have "\<not> ok" "w' = w" by (simp_all add: chan_push_full)
  then show thesis by (rule refused)
qed

text \<open>With queues below \<open>2 ^ 32\<close> entries a pull hands out the whole queue and leaves it empty.\<close>

lemma chan_pull_all:
  assumes "a < length w" "length (queue_at w a) < 2 ^ 32"
  shows "chan_pull (Some a) w =
    (Inr (if queue_at w a = [] then None else Some (queue_at w a)), w[a := (w ! a)\<lparr>cb_queue := []\<rparr>])"
proof (cases "queue_at w a = []")
  case True
  then have "(w ! a)\<lparr>cb_queue := []\<rparr> = w ! a" by (cases "w ! a") simp
  then have "w[a := (w ! a)\<lparr>cb_queue := []\<rparr>] = w" by simp
  with True show ?thesis by (simp add: chan_pull_def buf_drain_to_def)
next
  case False
  with assms chunk_from_small [OF assms(2)] show ?thesis by (simp add: chan_pull_def buf_drain_to_def Let_def)
qed

end
