(* ===== verification/Actor_System.thy ===== *)
theory Actor_System
  imports Channel Symbol_Table
begin

text \<open>
  The actor system (\<open>include/celer/necto/actor.hpp\<close>). An actor's reaction to a message may send messages
  through its context before it returns: it is a tree \<open>react\<close> of the sends, each continued by the answer that the send
  returned. Actors of any class are one type \<open>'a\<close> of states with a table of functions. An \<open>ActorRef\<close> or \<open>ClusterId\<close> is
  its 32-bit index, all ones when invalid. Destroying an actor frees its memory and does nothing else, so the table's third
  function is left out. The system is driven by one thread, as its documentation demands.
\<close>

subsection \<open>Messages and their identity\<close>

type_synonym ActorRef = "32 word"
type_synonym ClusterId = "32 word"

definition invalid_ref :: "32 word" where "invalid_ref = - 1"

definition ref_valid :: "32 word \<Rightarrow> bool" where
  "ref_valid r \<longleftrightarrow> r \<noteq> invalid_ref"

datatype AgentLifecycle = Active | Dormant

record Envelope =
  env_seq :: "64 word"
  env_from :: ActorRef
  env_to :: ActorRef
  env_payload :: string

type_synonym DedupKey = "32 word \<times> 64 word"
type_synonym DedupSet = "DedupKey set"

definition dedup_key :: "Envelope \<Rightarrow> DedupKey" where
  "dedup_key env = (env_from env, env_seq env)"

definition check_and_insert :: "Envelope \<Rightarrow> DedupSet \<Rightarrow> bool \<times> DedupSet" where
  "check_and_insert env seen = (dedup_key env \<notin> seen, insert (dedup_key env) seen)"

definition dedup_trim :: "nat \<Rightarrow> DedupSet \<Rightarrow> DedupSet" where
  "dedup_trim max_entries seen = (if card seen > max_entries then {} else seen)"

subsection \<open>Actors\<close>

datatype 'a react = Return 'a | Send ActorRef string "bool \<Rightarrow> 'a react"

record 'a ActorVTable =
  av_on_receive :: "'a \<Rightarrow> Envelope \<Rightarrow> 'a react"
  av_clone :: "'a \<Rightarrow> 'a"

record 'a ActorHandle =
  ah_impl :: 'a
  ah_vt :: "'a ActorVTable"
  ah_inbox :: ChannelEnd
  ah_push :: ChannelEnd
  ah_dedup :: DedupSet
  ah_self :: ActorRef
  ah_name :: string
  ah_next_seq :: "64 word"
  ah_lifecycle :: AgentLifecycle
  ah_cluster :: ClusterId

record 'a ActorSystem =
  as_actors :: "'a ActorHandle list"
  as_name_keys :: "string list"
  as_names :: FlatSymbolTable
  as_names_dirty :: bool
  as_channel_capacity :: nat
  as_chans :: "Envelope chan_world"

definition actor_system :: "nat \<Rightarrow> 'a ActorSystem" where
  "actor_system cap = \<lparr>as_actors = [], as_name_keys = [], as_names = empty_table, as_names_dirty = True,
     as_channel_capacity = cap, as_chans = []\<rparr>"

abbreviation actor_count :: "'a ActorSystem \<Rightarrow> nat" where
  "actor_count sys \<equiv> length (as_actors sys)"

abbreviation actor_at :: "'a ActorSystem \<Rightarrow> nat \<Rightarrow> 'a ActorHandle" where
  "actor_at sys i \<equiv> as_actors sys ! i"

definition set_actor :: "nat \<Rightarrow> 'a ActorHandle \<Rightarrow> 'a ActorSystem \<Rightarrow> 'a ActorSystem" where
  "set_actor i h sys = sys\<lparr>as_actors := (as_actors sys)[i := h]\<rparr>"

subsection \<open>Spawning\<close>

definition make_handle_for :: "'a \<Rightarrow> 'a ActorVTable \<Rightarrow> string \<Rightarrow> 'a ActorSystem \<Rightarrow> ActorRef \<times> 'a ActorSystem" where
  "make_handle_for impl vt nm sys =
     (let ref = word_of_nat (actor_count sys);
          ((push, inbox), chans) = make_channel (as_channel_capacity sys) (as_chans sys);
          h = \<lparr>ah_impl = impl, ah_vt = vt, ah_inbox = inbox, ah_push = push, ah_dedup = {}, ah_self = ref,
               ah_name = nm, ah_next_seq = 0, ah_lifecycle = Active, ah_cluster = invalid_ref\<rparr>
      in (ref, sys\<lparr>as_actors := as_actors sys @ [h], as_name_keys := as_name_keys sys @ [nm],
                   as_names_dirty := True, as_chans := chans\<rparr>))"

definition spawn :: "'a ActorVTable \<Rightarrow> string \<Rightarrow> 'a \<Rightarrow> 'a ActorSystem \<Rightarrow> ActorRef \<times> 'a ActorSystem" where
  "spawn vt nm impl sys = make_handle_for impl vt nm sys"

definition clone_spawn :: "ActorRef \<Rightarrow> string \<Rightarrow> 'a ActorSystem \<Rightarrow> ActorRef \<times> 'a ActorSystem" where
  "clone_spawn proto nm sys =
     (if unat proto \<ge> actor_count sys then (invalid_ref, sys)
      else let src = actor_at sys (unat proto) in
        make_handle_for (av_clone (ah_vt src) (ah_impl src)) (ah_vt src) nm sys)"

fun spawn_loop :: "ActorRef \<Rightarrow> string \<Rightarrow> nat list \<Rightarrow> ActorRef list \<Rightarrow> 'a ActorSystem \<Rightarrow> ActorRef list \<times> 'a ActorSystem" where
  "spawn_loop proto pre [] refs sys = (refs, sys)"
| "spawn_loop proto pre (i # is) refs sys =
     (let (ref, sys') = clone_spawn proto (pre @ ''_'' @ decimal i) sys in
      spawn_loop proto pre is (refs @ [ref]) sys')"

definition spawn_n :: "ActorRef \<Rightarrow> 32 word \<Rightarrow> string \<Rightarrow> 'a ActorSystem \<Rightarrow> ActorRef list \<times> 'a ActorSystem" where
  "spawn_n proto count pre sys = spawn_loop proto pre [0..<unat count] [] sys"

subsection \<open>Delivery\<close>

definition deliver :: "Envelope \<Rightarrow> 'a ActorSystem \<Rightarrow> bool \<times> 'a ActorSystem" where
  "deliver env sys =
     (let i = unat (env_to env) in
      if i \<ge> actor_count sys then (False, sys)
      else let h = actor_at sys i in
        if ah_lifecycle h = Dormant then (False, sys)
        else let (fresh, seen) = check_and_insert env (ah_dedup h);
                 sys1 = set_actor i (h\<lparr>ah_dedup := seen\<rparr>) sys in
          if \<not> fresh then (False, sys1)
          else let (ok, chans) = chan_push (ah_push h) env (as_chans sys1) in
            (ok, sys1\<lparr>as_chans := chans\<rparr>))"

definition external_ref :: ActorRef where "external_ref = - 2"

definition inject :: "ActorRef \<Rightarrow> string \<Rightarrow> 'a ActorSystem \<Rightarrow> bool \<times> 'a ActorSystem" where
  "inject to payload sys =
     deliver \<lparr>env_seq = 0, env_from = external_ref, env_to = to, env_payload = payload\<rparr> sys"

definition channel_push :: "ActorRef \<Rightarrow> Envelope \<Rightarrow> 'a ActorSystem \<Rightarrow> bool \<times> 'a ActorSystem" where
  "channel_push ref env sys =
     (if unat ref \<ge> actor_count sys then (False, sys)
      else let (ok, chans) = chan_push (ah_push (actor_at sys (unat ref))) env (as_chans sys) in
        (ok, sys\<lparr>as_chans := chans\<rparr>))"

definition channel_drain :: "ActorRef \<Rightarrow> 'a ActorSystem \<Rightarrow> 'a ActorSystem" where
  "channel_drain ref sys =
     (if unat ref < actor_count sys
      then let h = actor_at sys (unat ref) in
        set_actor (unat ref) (h\<lparr>ah_dedup := {}\<rparr>) (sys\<lparr>as_chans := chan_drain (ah_push h) (as_chans sys)\<rparr>)
      else sys)"

definition set_lifecycle :: "ActorRef \<Rightarrow> AgentLifecycle \<Rightarrow> 'a ActorSystem \<Rightarrow> 'a ActorSystem" where
  "set_lifecycle ref lc sys = (if unat ref < actor_count sys
     then set_actor (unat ref) ((actor_at sys (unat ref))\<lparr>ah_lifecycle := lc\<rparr>) sys else sys)"

definition set_cluster :: "ActorRef \<Rightarrow> ClusterId \<Rightarrow> 'a ActorSystem \<Rightarrow> 'a ActorSystem" where
  "set_cluster ref cid sys = (if unat ref < actor_count sys
     then set_actor (unat ref) ((actor_at sys (unat ref))\<lparr>ah_cluster := cid\<rparr>) sys else sys)"

subsection \<open>Ticks\<close>

record ActorContext =
  ctx_self :: ActorRef
  ctx_cluster :: ClusterId
  ctx_next_seq :: "64 word"

definition context_send :: "ActorRef \<Rightarrow> string \<Rightarrow> ActorContext \<Rightarrow> 'a ActorSystem \<Rightarrow> bool \<times> ActorContext \<times> 'a ActorSystem" where
  "context_send to payload ctx sys =
     (let env = \<lparr>env_seq = ctx_next_seq ctx, env_from = ctx_self ctx, env_to = to, env_payload = payload\<rparr>;
          ctx' = ctx\<lparr>ctx_next_seq := ctx_next_seq ctx + 1\<rparr>;
          (ok, sys') = deliver env sys
      in (ok, ctx', sys'))"

primrec run_react :: "'a react \<Rightarrow> ActorContext \<Rightarrow> 'a ActorSystem \<Rightarrow> 'a \<times> ActorContext \<times> 'a ActorSystem" where
  "run_react (Return a) = (\<lambda>ctx sys. (a, ctx, sys))"
| "run_react (Send to payload k) = (\<lambda>ctx sys. let (ok, ctx', sys') = context_send to payload ctx sys in
     run_react (k ok) ctx' sys')"

fun process_chunk :: "nat \<Rightarrow> Envelope list \<Rightarrow> ActorContext \<Rightarrow> 'a ActorSystem \<Rightarrow> ActorContext \<times> 'a ActorSystem" where
  "process_chunk i [] ctx sys = (ctx, sys)"
| "process_chunk i (msg # msgs) ctx sys =
     (let h = actor_at sys i;
          (impl, ctx', sys') = run_react (av_on_receive (ah_vt h) (ah_impl h) msg) ctx sys
      in process_chunk i msgs ctx' (set_actor i ((actor_at sys' i)\<lparr>ah_impl := impl\<rparr>) sys'))"

definition tick :: "ActorRef \<Rightarrow> 'a ActorSystem \<Rightarrow> nat \<times> 'a ActorSystem" where
  "tick ref sys =
     (let i = unat ref in
      if i \<ge> actor_count sys then (0, sys)
      else let h = actor_at sys i in
        if ah_lifecycle h = Dormant then (0, sys)
        else let (r, chans) = chan_pull (ah_inbox h) (as_chans sys); sys1 = sys\<lparr>as_chans := chans\<rparr> in
          (case r of
             Inl e \<Rightarrow> (0, sys1)
           | Inr None \<Rightarrow> (0, sys1)
           | Inr (Some chunk) \<Rightarrow>
               if chunk = [] then (0, sys1)
               else let ctx = \<lparr>ctx_self = ah_self h, ctx_cluster = ah_cluster h, ctx_next_seq = ah_next_seq h\<rparr>;
                        (ctx', sys2) = process_chunk i chunk ctx sys1
                    in (length chunk, set_actor i ((actor_at sys2 i)\<lparr>ah_next_seq := ctx_next_seq ctx'\<rparr>) sys2)))"

text \<open>The loop counts in 32 bits; it ends because a system has fewer than \<open>2 ^ 32\<close> actors.\<close>

fun tick_loop :: "nat list \<Rightarrow> nat \<Rightarrow> 'a ActorSystem \<Rightarrow> nat \<times> 'a ActorSystem" where
  "tick_loop [] tot sys = (tot, sys)"
| "tick_loop (i # is) tot sys = (let (n, sys') = tick (word_of_nat i) sys in tick_loop is (tot + n) sys')"

definition tick_all :: "'a ActorSystem \<Rightarrow> nat \<times> 'a ActorSystem" where
  "tick_all sys = tick_loop [0..<actor_count sys] 0 sys"

fun drain_loop :: "nat \<Rightarrow> nat \<Rightarrow> 'a ActorSystem \<Rightarrow> nat \<times> 'a ActorSystem" where
  "drain_loop 0 tot sys = (tot, sys)"
| "drain_loop (Suc rounds) tot sys =
     (let (n, sys') = tick_all sys in
      if n = 0 then (tot, sys') else drain_loop rounds (tot + n) sys')"

definition drain :: "nat \<Rightarrow> 'a ActorSystem \<Rightarrow> nat \<times> 'a ActorSystem" where
  "drain max_rounds sys = drain_loop max_rounds 0 sys"

subsection \<open>Names\<close>

definition rebuild_names :: "(string \<Rightarrow> 64 word) \<Rightarrow> 'a ActorSystem \<Rightarrow> 'a ActorSystem" where
  "rebuild_names hash sys = (if \<not> as_names_dirty sys then sys
     else sys\<lparr>as_names := build hash (as_name_keys sys) [0..<length (as_name_keys sys)], as_names_dirty := False\<rparr>)"

definition resolve :: "(string \<Rightarrow> 64 word) \<Rightarrow> string \<Rightarrow> 'a ActorSystem \<Rightarrow> ActorRef option \<times> 'a ActorSystem" where
  "resolve hash nm sys = (let sys' = rebuild_names hash sys in
     (case table_find hash (as_names sys') nm of
        None \<Rightarrow> (None, sys')
      | Some idx \<Rightarrow> (Some (word_of_nat idx), sys')))"

end
