(* ===== verification/Actor_Laws.thy ===== *)
theory Actor_Laws
  imports Actor_System
begin

text \<open>
  What the actor system promises: the shape of a system and that every operation keeps it, delivery at most once,
  processing in the order of arrival, quiescence after \<open>drain\<close>, and that a key once offered to an actor is
  refused from then on.
\<close>

subsection \<open>The shape of a system\<close>

abbreviation inbox :: "'a ActorSystem \<Rightarrow> nat \<Rightarrow> Envelope list" where
  "inbox sys i \<equiv> queue_at (as_chans sys) i"

text \<open>Every actor has a channel of its own, within its capacity.\<close>

definition sys_ok :: "'a ActorSystem \<Rightarrow> bool" where
  "sys_ok sys \<longleftrightarrow> length (as_chans sys) = actor_count sys \<and> actor_count sys < 2 ^ 32 \<and> as_channel_capacity sys < 2 ^ 32 \<and>
     (\<forall>i<actor_count sys. ah_push (actor_at sys i) = Some i \<and> ah_inbox (actor_at sys i) = Some i \<and>
        ah_self (actor_at sys i) = word_of_nat i \<and>
        cb_capacity (as_chans sys ! i) = as_channel_capacity sys \<and> length (inbox sys i) \<le> as_channel_capacity sys)"

lemma set_actor_simps [simp]:
  "actor_count (set_actor i h sys) = actor_count sys"
  "as_chans (set_actor i h sys) = as_chans sys"
  "as_channel_capacity (set_actor i h sys) = as_channel_capacity sys"
  "i < actor_count sys \<Longrightarrow> actor_at (set_actor i h sys) j = (if j = i then h else actor_at sys j)"
  by (simp_all add: set_actor_def)

lemma unat_index: "i < 2 ^ 32 \<Longrightarrow> unat (word_of_nat i :: 32 word) = i"
  by (simp add: unat_of_nat)

text \<open>What a delivery did: the four ways out of \<open>deliver\<close>.\<close>

lemma deliver_cases:
  assumes "sys_ok sys"
  obtains (unknown) "unat (env_to env) \<ge> actor_count sys" "deliver env sys = (False, sys)"
  | (dormant) "unat (env_to env) < actor_count sys" "ah_lifecycle (actor_at sys (unat (env_to env))) = Dormant"
      "deliver env sys = (False, sys)"
  | (repeated) i h where "i = unat (env_to env)" "i < actor_count sys" "h = actor_at sys i" "ah_lifecycle h = Active"
      "dedup_key env \<in> ah_dedup h" "deliver env sys = (False, set_actor i (h\<lparr>ah_dedup := insert (dedup_key env) (ah_dedup h)\<rparr>) sys)"
  | (full) i h where "i = unat (env_to env)" "i < actor_count sys" "h = actor_at sys i" "ah_lifecycle h = Active"
      "dedup_key env \<notin> ah_dedup h" "length (inbox sys i) = as_channel_capacity sys"
      "deliver env sys = (False, set_actor i (h\<lparr>ah_dedup := insert (dedup_key env) (ah_dedup h)\<rparr>) sys)"
  | (accepted) i h where "i = unat (env_to env)" "i < actor_count sys" "h = actor_at sys i" "ah_lifecycle h = Active"
      "dedup_key env \<notin> ah_dedup h" "length (inbox sys i) < as_channel_capacity sys"
      "deliver env sys = (True, (set_actor i (h\<lparr>ah_dedup := insert (dedup_key env) (ah_dedup h)\<rparr>) sys)
         \<lparr>as_chans := (as_chans sys)[i := (as_chans sys ! i)\<lparr>cb_queue := inbox sys i @ [env]\<rparr>]\<rparr>)"
proof (cases "unat (env_to env) < actor_count sys")
  case False
  then show thesis by (intro unknown) (simp_all add: deliver_def)
next
  case True
  define i h where "i = unat (env_to env)" and "h = actor_at sys i"
  have i: "i < actor_count sys" using True by (simp add: i_def)
  with assms have push: "ah_push h = Some i" and cap: "cb_capacity (as_chans sys ! i) = as_channel_capacity sys"
    "length (inbox sys i) \<le> as_channel_capacity sys" "i < length (as_chans sys)" by (auto simp: sys_ok_def h_def)
  show thesis
  proof (cases "ah_lifecycle h")
    case Dormant
    with True show thesis by (intro dormant) (simp_all add: deliver_def i_def h_def)
  next
    case Active
    consider "dedup_key env \<in> ah_dedup h" | "dedup_key env \<notin> ah_dedup h" "length (inbox sys i) = as_channel_capacity sys"
      | "dedup_key env \<notin> ah_dedup h" "length (inbox sys i) < as_channel_capacity sys" using cap(2) by linarith
    then show thesis
    proof cases
      case 1
      with Active i show thesis
        by (intro repeated [OF i_def i h_def]) (simp_all add: deliver_def check_and_insert_def Let_def flip: i_def h_def)
    next
      case 2
      with Active i push cap show thesis
        by (intro full [OF i_def i h_def]) (simp_all add: deliver_def check_and_insert_def chan_push_full Let_def flip: i_def h_def)
    next
      case 3
      with Active i push cap show thesis
        by (intro accepted [OF i_def i h_def]) (simp_all add: deliver_def check_and_insert_def chan_push_room Let_def flip: i_def h_def)
    qed
  qed
qed

text \<open>A delivery changes nothing of an actor but its set of seen keys, which grows, and appends to its inbox.\<close>

lemma deliver_frame:
  assumes "sys_ok sys"
  shows "sys_ok (snd (deliver env sys))" "actor_count (snd (deliver env sys)) = actor_count sys"
    and "j < actor_count sys \<Longrightarrow> \<exists>seen. actor_at (snd (deliver env sys)) j = (actor_at sys j)\<lparr>ah_dedup := seen\<rparr> \<and>
      ah_dedup (actor_at sys j) \<subseteq> seen"
proof -
  show "sys_ok (snd (deliver env sys))"
    by (cases rule: deliver_cases [OF assms, of env]) (use assms in \<open>auto simp: sys_ok_def nth_list_update\<close>)
  show "actor_count (snd (deliver env sys)) = actor_count sys"
    by (cases rule: deliver_cases [OF assms, of env]) auto
  have same: "(actor_at sys j)\<lparr>ah_dedup := ah_dedup (actor_at sys j)\<rparr> = actor_at sys j" by simp
  show "j < actor_count sys \<Longrightarrow> \<exists>seen. actor_at (snd (deliver env sys)) j = (actor_at sys j)\<lparr>ah_dedup := seen\<rparr> \<and>
      ah_dedup (actor_at sys j) \<subseteq> seen"
    by (cases rule: deliver_cases [OF assms, of env]) (auto intro: exI [of _ "ah_dedup (actor_at sys j)"])
qed

text \<open>Whatever every delivery keeps, the reaction to a message keeps.\<close>

lemma run_react_keeps:
  assumes "\<And>env s. P s \<Longrightarrow> P (snd (deliver env s))" "P sys"
  shows "P (snd (snd (run_react r ctx sys)))"
  using assms(2)
proof (induction r arbitrary: ctx sys)
  case (Send to payload k)
  obtain ok ctx' sys' where s: "context_send to payload ctx sys = (ok, ctx', sys')" by (metis prod_cases3)
  then have "sys' = snd (deliver \<lparr>env_seq = ctx_next_seq ctx, env_from = ctx_self ctx, env_to = to, env_payload = payload\<rparr> sys)"
    by (auto simp: context_send_def split: prod.splits)
  with assms(1) Send.prems have "P sys'" by simp
  with Send.IH [of "k ok"] s show ?case by simp
qed simp

primrec all_leaves :: "('a \<Rightarrow> bool) \<Rightarrow> 'a react \<Rightarrow> bool" where
  "all_leaves P (Return a) \<longleftrightarrow> P a"
| "all_leaves P (Send to payload k) \<longleftrightarrow> (\<forall>ok. all_leaves P (k ok))"

lemma run_react_leaf: "all_leaves P r \<Longrightarrow> P (fst (run_react r ctx sys))"
  by (induction r arbitrary: ctx sys) (auto split: prod.splits)

subsection \<open>Delivery at most once\<close>

text \<open>
  To speak of what an actor has processed, an actor's state is asked to hold a log: whatever the actor sends, its
  state after a message has that message appended to its log. A clone has processed nothing yet: its log is empty,
  whatever else of the state it copies.
\<close>

definition logs :: "('a \<Rightarrow> Envelope list) \<Rightarrow> 'a ActorVTable \<Rightarrow> bool" where
  "logs log vt \<longleftrightarrow> (\<forall>a e. all_leaves (\<lambda>a'. log a' = log a @ [e]) (av_on_receive vt a e)) \<and>
     (\<forall>a. log (av_clone vt a) = [])"

text \<open>
  What actor \<open>i\<close> has processed, what it is about to process (\<open>rest\<close>) and what waits in its inbox have pairwise
  different keys, all of them seen.
\<close>

definition once_at :: "('a \<Rightarrow> Envelope list) \<Rightarrow> nat \<Rightarrow> Envelope list \<Rightarrow> 'a ActorSystem \<Rightarrow> bool" where
  "once_at log i rest sys \<longleftrightarrow> logs log (ah_vt (actor_at sys i)) \<and>
     distinct (map dedup_key (log (ah_impl (actor_at sys i)) @ rest @ inbox sys i)) \<and>
     dedup_key ` set (log (ah_impl (actor_at sys i)) @ rest @ inbox sys i) \<subseteq> ah_dedup (actor_at sys i)"

definition once :: "('a \<Rightarrow> Envelope list) \<Rightarrow> (nat \<Rightarrow> Envelope list) \<Rightarrow> 'a ActorSystem \<Rightarrow> bool" where
  "once log held sys \<longleftrightarrow> sys_ok sys \<and> (\<forall>i<actor_count sys. once_at log i (held i) sys)"

lemma onceD: "once log held sys \<Longrightarrow> sys_ok sys" "once log held sys \<Longrightarrow> i < actor_count sys \<Longrightarrow> once_at log i (held i) sys"
  by (simp_all add: once_def)

lemma deliver_once:
  assumes "once log held sys"
  shows "once log held (snd (deliver env sys))"
proof -
  note ok = onceD(1) [OF assms]
  have "once_at log j (held j) (snd (deliver env sys))" if "j < actor_count sys" for j
    using onceD(2) [OF assms that] that ok
    by (cases rule: deliver_cases [OF ok, of env]) (auto simp: once_at_def nth_list_update sys_ok_def)
  with deliver_frame(1,2) [OF ok] show ?thesis by (simp add: once_def)
qed

text \<open>A reaction keeps it, and no actor's state changes while the reaction runs.\<close>

lemma run_react_once:
  assumes "once log held sys" "run_react r ctx sys = (a, ctx', sys')"
  shows "once log held sys' \<and> actor_count sys' = actor_count sys \<and>
    (\<forall>j<actor_count sys. ah_impl (actor_at sys' j) = ah_impl (actor_at sys j))"
proof -
  let ?P = "\<lambda>s. once log held s \<and> actor_count s = actor_count sys \<and>
    (\<forall>j<actor_count sys. ah_impl (actor_at s j) = ah_impl (actor_at sys j))"
  have "?P (snd (snd (run_react r ctx sys)))"
  proof (rule run_react_keeps [where P = ?P])
    fix env s assume s: "?P s"
    then have ok: "sys_ok s" by (simp add: once_def)
    have "ah_impl (actor_at (snd (deliver env s)) j) = ah_impl (actor_at s j)" if "j < actor_count s" for j
      using deliver_frame(3) [OF ok that, of env] by auto
    with s deliver_once [of log held s env] deliver_frame(2) [OF ok, of env] show "?P (snd (deliver env s))" by simp
  qed (use assms(1) in simp)
  with assms(2) show ?thesis by simp
qed

lemma process_chunk_once:
  assumes "once log (held(i := msgs)) sys" "i < actor_count sys" "process_chunk i msgs ctx sys = (ctx', sys')"
  shows "once log (held(i := [])) sys' \<and> actor_count sys' = actor_count sys \<and>
    log (ah_impl (actor_at sys' i)) = log (ah_impl (actor_at sys i)) @ msgs"
  using assms
proof (induction msgs arbitrary: ctx sys)
  case (Cons msg msgs)
  let ?h = "actor_at sys i"
  obtain impl ctx1 sys1 where run: "run_react (av_on_receive (ah_vt ?h) (ah_impl ?h) msg) ctx sys = (impl, ctx1, sys1)"
    by (metis prod_cases3)
  let ?sys2 = "set_actor i ((actor_at sys1 i)\<lparr>ah_impl := impl\<rparr>) sys1"
  have r: "once log (held(i := msg # msgs)) sys1" "actor_count sys1 = actor_count sys"
    "ah_impl (actor_at sys1 i) = ah_impl ?h"
    using run_react_once [OF Cons.prems(1) run] Cons.prems(2) by blast+
  have "logs log (ah_vt ?h)" using onceD(2) [OF Cons.prems(1,2)] by (simp add: once_at_def)
  then have l: "log impl = log (ah_impl ?h) @ [msg]"
    using run_react_leaf [of "\<lambda>a'. log a' = log (ah_impl ?h) @ [msg]"] run unfolding logs_def by (metis fst_conv)
  have i1: "i < actor_count sys1" using r(2) Cons.prems(2) by simp
  have e: "log impl @ msgs @ inbox sys1 i = log (ah_impl (actor_at sys1 i)) @ (msg # msgs) @ inbox sys1 i"
    by (simp add: l r(3))
  have sel: "ah_vt (h\<lparr>ah_impl := impl\<rparr>) = ah_vt h" "ah_impl (h\<lparr>ah_impl := impl\<rparr>) = impl"
    "ah_dedup (h\<lparr>ah_impl := impl\<rparr>) = ah_dedup h" for h :: "'a ActorHandle" by simp_all
  have "once_at log j ((held(i := msgs)) j) ?sys2" if "j < actor_count sys1" for j
    using onceD(2) [OF r(1) that] i1 that e
    by (cases "j = i") (simp_all only: once_at_def set_actor_simps fun_upd_same fun_upd_other if_True if_False sel simp_thms)
  moreover have "sys_ok ?sys2" using onceD(1) [OF r(1)] i1 by (simp add: sys_ok_def)
  ultimately have "once log (held(i := msgs)) ?sys2" by (simp add: once_def)
  from Cons.IH [OF this, of ctx1] Cons.prems(3) run i1 show ?case
    by (simp add: r(2) l Let_def)
qed simp

text \<open>
  A tick of an active actor processes what is in its inbox, all of it, in the order of arrival, and nothing else.
\<close>

lemma tick_cases:
  assumes "sys_ok sys"
  obtains (idle) "tick ref sys = (0, sys)"
      "unat ref < actor_count sys \<Longrightarrow> ah_lifecycle (actor_at sys (unat ref)) = Active \<Longrightarrow> inbox sys (unat ref) = []"
  | (runs) i h ctx ctx' sys1 sys2 where "i = unat ref" "i < actor_count sys" "h = actor_at sys i" "ah_lifecycle h = Active"
      "inbox sys i \<noteq> []" "sys1 = sys\<lparr>as_chans := (as_chans sys)[i := (as_chans sys ! i)\<lparr>cb_queue := []\<rparr>]\<rparr>"
      "process_chunk i (inbox sys i) ctx sys1 = (ctx', sys2)"
      "tick ref sys = (length (inbox sys i), set_actor i ((actor_at sys2 i)\<lparr>ah_next_seq := ctx_next_seq ctx'\<rparr>) sys2)"
proof (cases "unat ref < actor_count sys \<and> ah_lifecycle (actor_at sys (unat ref)) = Active \<and> inbox sys (unat ref) \<noteq> []")
  case False
  define i where "i = unat ref"
  have "tick ref sys = (0, sys)"
  proof (cases "i < actor_count sys \<and> ah_lifecycle (actor_at sys i) = Active")
    case True
    with False have e: "inbox sys i = []" by (simp add: i_def)
    then have "(as_chans sys ! i)\<lparr>cb_queue := []\<rparr> = as_chans sys ! i" by (cases "as_chans sys ! i") simp
    then have "(as_chans sys)[i := (as_chans sys ! i)\<lparr>cb_queue := []\<rparr>] = as_chans sys" by simp
    with assms True e show ?thesis
      using chan_pull_all [of i "as_chans sys"] by (simp add: tick_def Let_def sys_ok_def flip: i_def)
  next
    case False
    then show ?thesis by (cases "ah_lifecycle (actor_at sys i)") (auto simp: tick_def Let_def simp flip: i_def)
  qed
  with False show thesis by (intro idle) auto
next
  case True
  define i h where "i = unat ref" and "h = actor_at sys i"
  let ?sys1 = "sys\<lparr>as_chans := (as_chans sys)[i := (as_chans sys ! i)\<lparr>cb_queue := []\<rparr>]\<rparr>"
  let ?ctx = "\<lparr>ctx_self = ah_self h, ctx_cluster = ah_cluster h, ctx_next_seq = ah_next_seq h\<rparr>"
  obtain ctx' sys2 where run: "process_chunk i (inbox sys i) ?ctx ?sys1 = (ctx', sys2)" by fastforce
  have i: "i < actor_count sys" "ah_lifecycle h = Active" "inbox sys i \<noteq> []" "ah_inbox h = Some i"
    "i < length (as_chans sys)" "length (inbox sys i) < 2 ^ 32"
    using True assms by (auto simp: i_def h_def sys_ok_def intro: le_less_trans)
  from i run have "tick ref sys = (length (inbox sys i), set_actor i ((actor_at sys2 i)\<lparr>ah_next_seq := ctx_next_seq ctx'\<rparr>) sys2)"
    using chan_pull_all [OF i(5,6)] by (simp add: tick_def Let_def flip: i_def h_def)
  from runs [OF i_def i(1) h_def i(2,3) refl run this] show thesis .
qed

lemma tick_once:
  assumes "once log (\<lambda>_. []) sys"
  shows "once log (\<lambda>_. []) (snd (tick ref sys))" "actor_count (snd (tick ref sys)) = actor_count sys"
    and "unat ref < actor_count sys \<Longrightarrow> ah_lifecycle (actor_at sys (unat ref)) = Active \<Longrightarrow>
      fst (tick ref sys) = length (inbox sys (unat ref)) \<and>
      log (ah_impl (actor_at (snd (tick ref sys)) (unat ref))) = log (ah_impl (actor_at sys (unat ref))) @ inbox sys (unat ref)"
proof -
  note ok = onceD(1) [OF assms]
  have "once log (\<lambda>_. []) (snd (tick ref sys)) \<and> actor_count (snd (tick ref sys)) = actor_count sys \<and>
    (unat ref < actor_count sys \<longrightarrow> ah_lifecycle (actor_at sys (unat ref)) = Active \<longrightarrow>
      fst (tick ref sys) = length (inbox sys (unat ref)) \<and>
      log (ah_impl (actor_at (snd (tick ref sys)) (unat ref))) = log (ah_impl (actor_at sys (unat ref))) @ inbox sys (unat ref))"
    using ok
  proof (cases rule: tick_cases [of sys ref])
    case idle
    then show ?thesis using assms by auto
  next
    case (runs i h ctx ctx' sys1 sys2)
    have len: "i < length (as_chans sys)" using ok runs(2) by (simp add: sys_ok_def)
    have held: "((\<lambda>_. [])(i := [])) = (\<lambda>_. [] :: Envelope list)" by auto
    have "once_at log j (((\<lambda>_. [])(i := inbox sys i)) j) sys1" if "j < actor_count sys" for j
      using onceD(2) [OF assms that] len by (auto simp: once_at_def runs(6) nth_list_update)
    moreover have "sys_ok sys1" using ok runs(2) by (auto simp: sys_ok_def runs(6) nth_list_update)
    ultimately have "once log ((\<lambda>_. [])(i := inbox sys i)) sys1" by (simp add: once_def runs(6))
    from process_chunk_once [OF this _ runs(7)] runs(2) have p: "once log (\<lambda>_. []) sys2" "actor_count sys2 = actor_count sys"
      "log (ah_impl (actor_at sys2 i)) = log (ah_impl (actor_at sys i)) @ inbox sys i"
      by (simp_all add: held runs(6))
    let ?s = "set_actor i ((actor_at sys2 i)\<lparr>ah_next_seq := ctx_next_seq ctx'\<rparr>) sys2"
    have i2: "i < actor_count sys2" using p(2) runs(2) by simp
    have "once_at log j [] ?s" if "j < actor_count sys2" for j
      using onceD(2) [OF p(1) that] i2 by (auto simp: once_at_def)
    moreover have "sys_ok ?s" using onceD(1) [OF p(1)] i2 by (simp add: sys_ok_def)
    ultimately have "once log (\<lambda>_. []) ?s" by (simp add: once_def)
    with p(2,3) i2 runs(1,8) show ?thesis by simp
  qed
  then show "once log (\<lambda>_. []) (snd (tick ref sys))" "actor_count (snd (tick ref sys)) = actor_count sys"
    "unat ref < actor_count sys \<Longrightarrow> ah_lifecycle (actor_at sys (unat ref)) = Active \<Longrightarrow>
      fst (tick ref sys) = length (inbox sys (unat ref)) \<and>
      log (ah_impl (actor_at (snd (tick ref sys)) (unat ref))) = log (ah_impl (actor_at sys (unat ref))) @ inbox sys (unat ref)"
    by blast+
qed

subsection \<open>What ticks keep\<close>

lemma process_chunk_keeps:
  assumes deliver: "\<And>env s. P s \<Longrightarrow> P (snd (deliver env s))"
    and impl: "\<And>s x. P s \<Longrightarrow> P (set_actor i ((actor_at s i)\<lparr>ah_impl := x\<rparr>) s)" and "P sys"
  shows "P (snd (process_chunk i msgs ctx sys))"
  using assms(3)
proof (induction msgs arbitrary: ctx sys)
  case (Cons msg msgs)
  let ?h = "actor_at sys i"
  obtain x ctx1 sys1 where run: "run_react (av_on_receive (ah_vt ?h) (ah_impl ?h) msg) ctx sys = (x, ctx1, sys1)"
    by (metis prod_cases3)
  have "P sys1" using run_react_keeps [of P, OF deliver Cons.prems] run by (metis snd_conv)
  from Cons.IH [OF impl [OF this]] run show ?case by (simp add: Let_def)
qed simp

lemma tick_keeps:
  assumes deliver: "\<And>env s. P s \<Longrightarrow> P (snd (deliver env s))"
    and change: "\<And>s i x q. P s \<Longrightarrow> i < actor_count s \<Longrightarrow> P (set_actor i ((actor_at s i)\<lparr>ah_impl := x, ah_next_seq := q\<rparr>) s)"
    and take: "\<And>s i. P s \<Longrightarrow> i < actor_count s \<Longrightarrow> P (s\<lparr>as_chans := (as_chans s)[i := (as_chans s ! i)\<lparr>cb_queue := []\<rparr>]\<rparr>)"
    and ok: "\<And>s. P s \<Longrightarrow> sys_ok s" and "P sys"
  shows "P (snd (tick ref sys))"
  using ok [OF assms(5)]
proof (cases rule: tick_cases [of sys ref])
  case idle
  with assms(5) show ?thesis by simp
next
  case (runs i h ctx ctx' sys1 sys2)
  let ?Q = "\<lambda>s. P s \<and> i < actor_count s"
  have same: "(actor_at s i)\<lparr>ah_impl := x\<rparr> = (actor_at s i)\<lparr>ah_impl := x, ah_next_seq := ah_next_seq (actor_at s i)\<rparr>"
    "(actor_at s i)\<lparr>ah_next_seq := q\<rparr> = (actor_at s i)\<lparr>ah_impl := ah_impl (actor_at s i), ah_next_seq := q\<rparr>" for s :: "'a ActorSystem" and x q
    by simp_all
  have "?Q sys1" using take [OF assms(5) runs(2)] runs(2,6) by simp
  then have "?Q (snd (process_chunk i (inbox sys i) ctx sys1))"
  proof (rule process_chunk_keeps [where P = ?Q, rotated 2])
    fix env s assume s: "?Q s"
    with deliver [of s env] deliver_frame(2) [OF ok [of s], of env] show "?Q (snd (deliver env s))" by simp
  next
    fix s x assume s: "?Q s"
    with change [of s i, where x = x and q = "ah_next_seq (actor_at s i)"] show "?Q (set_actor i ((actor_at s i)\<lparr>ah_impl := x\<rparr>) s)"
      by (simp flip: same(1))
  qed
  with change [of sys2 i, where x = "ah_impl (actor_at sys2 i)" and q = "ctx_next_seq ctx'"] runs(7,8) show ?thesis
    by (simp flip: same(2))
qed

lemma sys_ok_tick:
  assumes "sys_ok sys"
  shows "sys_ok (snd (tick ref sys)) \<and> actor_count (snd (tick ref sys)) = actor_count sys"
proof (rule tick_keeps [where P = "\<lambda>s. sys_ok s \<and> actor_count s = actor_count sys"])
  fix env s assume "sys_ok s \<and> actor_count s = actor_count sys"
  with deliver_frame(1,2) [of s env] show "sys_ok (snd (deliver env s)) \<and> actor_count (snd (deliver env s)) = actor_count sys" by simp
qed (use assms in \<open>auto simp: sys_ok_def nth_list_update\<close>)

subsection \<open>Quiescence\<close>

definition quiescent :: "'a ActorSystem \<Rightarrow> bool" where
  "quiescent sys \<longleftrightarrow> (\<forall>i<actor_count sys. ah_lifecycle (actor_at sys i) = Active \<longrightarrow> inbox sys i = [])"

lemma tick_loop_ok:
  assumes "sys_ok sys" "tick_loop is tot sys = (tot', sys')"
  shows "sys_ok sys' \<and> tot \<le> tot' \<and> (tot' = tot \<longrightarrow> sys' = sys \<and>
    (\<forall>i\<in>set is. i < actor_count sys \<longrightarrow> ah_lifecycle (actor_at sys i) = Active \<longrightarrow> inbox sys i = []))"
  using assms
proof (induction "is" arbitrary: tot sys)
  case (Cons i "is")
  obtain n sys1 where t: "tick (word_of_nat i) sys = (n, sys1)" by fastforce
  with Cons.prems have rest: "tick_loop is (tot + n) sys1 = (tot', sys')" by simp
  have ok1: "sys_ok sys1" using sys_ok_tick [OF Cons.prems(1), of "word_of_nat i"] t by simp
  note ih = Cons.IH [OF ok1 rest]
  show ?case
  proof (cases "n = 0")
    case False
    with ih show ?thesis by auto
  next
    case True
    have i: "unat (word_of_nat i :: 32 word) = i" if "i < actor_count sys"
      using that Cons.prems(1) by (intro unat_index) (simp add: sys_ok_def)
    from Cons.prems(1) have "sys1 = sys \<and> (i < actor_count sys \<longrightarrow> ah_lifecycle (actor_at sys i) = Active \<longrightarrow> inbox sys i = [])"
      by (cases rule: tick_cases [of sys "word_of_nat i"]) (use t True i in auto)
    with ih True show ?thesis by auto
  qed
qed simp

lemma drain_loop_ok:
  assumes "sys_ok sys" "drain_loop rounds tot sys = (n, sys')"
  shows "sys_ok sys' \<and> (quiescent sys' \<or> tot + rounds \<le> n)"
  using assms
proof (induction rounds arbitrary: tot sys)
  case (Suc rounds)
  obtain m sys1 where t: "tick_all sys = (m, sys1)" by fastforce
  then have t': "tick_loop [0..<actor_count sys] 0 sys = (m, sys1)" by (simp add: tick_all_def)
  from tick_loop_ok [OF Suc.prems(1) t'] have ok1: "sys_ok sys1" and q: "m = 0 \<longrightarrow> quiescent sys1"
    by (auto simp: quiescent_def)
  show ?case
  proof (cases "m = 0")
    case True
    with Suc.prems(2) t q ok1 show ?thesis by simp
  next
    case False
    with Suc.prems(2) t have "drain_loop rounds (tot + m) sys1 = (n, sys')" by simp
    from Suc.IH [OF ok1 this] False show ?thesis by auto
  qed
qed simp

subsection \<open>Runs\<close>

text \<open>
  The steps of a system from outside: deliveries, injections, ticks, changes of lifecycle and cluster, new actors with an empty
  log, clones one at a time or many, lookups by name. Two calls are not among them: \<open>channel_push\<close>, which the code
  documents to bypass the deduplication, and \<open>channel_drain\<close>, which empties the inbox and forgets the seen keys.
  The bounds on the number of actors keep their 32-bit references apart.
\<close>

inductive actor_step :: "('a \<Rightarrow> Envelope list) \<Rightarrow> (string \<Rightarrow> 64 word) \<Rightarrow> 'a ActorSystem \<Rightarrow> 'a ActorSystem \<Rightarrow> bool"
  for log hash where
  step_deliver: "actor_step log hash sys (snd (deliver env sys))"
| step_inject: "actor_step log hash sys (snd (inject to payload sys))"
| step_tick: "actor_step log hash sys (snd (tick ref sys))"
| step_lifecycle: "actor_step log hash sys (set_lifecycle ref lc sys)"
| step_cluster: "actor_step log hash sys (set_cluster ref cid sys)"
| step_spawn: "logs log vt \<Longrightarrow> log impl = [] \<Longrightarrow> actor_count sys + 1 < 2 ^ 32 \<Longrightarrow>
    actor_step log hash sys (snd (spawn vt nm impl sys))"
| step_clone: "actor_count sys + 1 < 2 ^ 32 \<Longrightarrow> actor_step log hash sys (snd (clone_spawn proto nm sys))"
| step_spawn_n: "actor_count sys + unat count < 2 ^ 32 \<Longrightarrow> actor_step log hash sys (snd (spawn_n proto count pre sys))"
| step_resolve: "actor_step log hash sys (snd (resolve hash nm sys))"

abbreviation actor_steps :: "('a \<Rightarrow> Envelope list) \<Rightarrow> (string \<Rightarrow> 64 word) \<Rightarrow> 'a ActorSystem \<Rightarrow> 'a ActorSystem \<Rightarrow> bool" where
  "actor_steps log hash \<equiv> (actor_step log hash)\<^sup>*\<^sup>*"

lemma resolve_frame [simp]:
  "as_actors (snd (resolve hash nm sys)) = as_actors sys" "as_chans (snd (resolve hash nm sys)) = as_chans sys"
  "as_channel_capacity (snd (resolve hash nm sys)) = as_channel_capacity sys"
  by (simp_all add: resolve_def rebuild_names_def Let_def split: option.splits)

lemma spawn_frame:
  assumes "sys_ok sys" "actor_count sys + 1 < 2 ^ 32"
  obtains h where "as_actors (snd (spawn vt nm impl sys)) = as_actors sys @ [h]"
    "as_chans (snd (spawn vt nm impl sys)) = as_chans sys @ [\<lparr>cb_queue = [], cb_capacity = as_channel_capacity sys\<rparr>]"
    "as_channel_capacity (snd (spawn vt nm impl sys)) = as_channel_capacity sys"
    "ah_impl h = impl" "ah_vt h = vt" "sys_ok (snd (spawn vt nm impl sys))"
proof -
  let ?h = "\<lparr>ah_impl = impl, ah_vt = vt, ah_inbox = Some (length (as_chans sys)), ah_push = Some (length (as_chans sys)),
    ah_dedup = {}, ah_self = word_of_nat (actor_count sys), ah_name = nm, ah_next_seq = 0, ah_lifecycle = Active,
    ah_cluster = invalid_ref\<rparr>"
  have e: "as_actors (snd (spawn vt nm impl sys)) = as_actors sys @ [?h]"
    "as_chans (snd (spawn vt nm impl sys)) = as_chans sys @ [\<lparr>cb_queue = [], cb_capacity = as_channel_capacity sys\<rparr>]"
    "as_channel_capacity (snd (spawn vt nm impl sys)) = as_channel_capacity sys"
    by (simp_all add: spawn_def make_handle_for_def make_channel_def Let_def)
  have "sys_ok (snd (spawn vt nm impl sys))"
    using assms by (auto simp: sys_ok_def e nth_append less_Suc_eq)
  from that [OF e _ _ this] show thesis by simp
qed

lemma clone_spawn_cases:
  obtains (unknown) "clone_spawn proto nm sys = (invalid_ref, sys)"
  | (known) "unat proto < actor_count sys" "clone_spawn proto nm sys = spawn (ah_vt (actor_at sys (unat proto))) nm
      (av_clone (ah_vt (actor_at sys (unat proto))) (ah_impl (actor_at sys (unat proto)))) sys"
  by (cases "unat proto < actor_count sys") (auto simp: clone_spawn_def spawn_def Let_def)

lemma spawn_loop_keeps:
  assumes "\<And>s nm. P s \<Longrightarrow> actor_count s + 1 < 2 ^ 32 \<Longrightarrow>
      P (snd (clone_spawn proto nm s)) \<and> actor_count (snd (clone_spawn proto nm s)) \<le> actor_count s + 1"
    and "P sys" "actor_count sys + length is < 2 ^ 32"
  shows "P (snd (spawn_loop proto pre is refs sys))"
  using assms(2,3)
proof (induction "is" arbitrary: refs sys)
  case (Cons i "is")
  obtain ref sys1 where c: "clone_spawn proto (pre @ ''_'' @ decimal i) sys = (ref, sys1)" by fastforce
  have "P sys1 \<and> actor_count sys1 \<le> actor_count sys + 1"
    using assms(1) [OF Cons.prems(1), of "pre @ ''_'' @ decimal i"] Cons.prems(2) c by simp
  with Cons.IH [of sys1 "refs @ [ref]"] Cons.prems(2) c show ?case by simp
qed simp

lemma spawn_once:
  assumes "once log (\<lambda>_. []) sys" "logs log vt" "log impl = []" "actor_count sys + 1 < 2 ^ 32"
  shows "once log (\<lambda>_. []) (snd (spawn vt nm impl sys)) \<and> actor_count (snd (spawn vt nm impl sys)) = actor_count sys + 1"
proof -
  note ok = onceD(1) [OF assms(1)]
  obtain h where h: "as_actors (snd (spawn vt nm impl sys)) = as_actors sys @ [h]"
    "as_chans (snd (spawn vt nm impl sys)) = as_chans sys @ [\<lparr>cb_queue = [], cb_capacity = as_channel_capacity sys\<rparr>]"
    "ah_impl h = impl" "ah_vt h = vt" "sys_ok (snd (spawn vt nm impl sys))"
    using spawn_frame [OF ok assms(4)] by metis
  have len: "length (as_chans sys) = actor_count sys" using ok by (simp add: sys_ok_def)
  have "once_at log i [] (snd (spawn vt nm impl sys))" if "i < actor_count sys + 1" for i
    using onceD(2) [OF assms(1), of i] assms(2,3) that
    by (cases "i < actor_count sys") (auto simp: once_at_def h nth_append len less_Suc_eq)
  with h(1,5) show ?thesis by (simp add: once_def)
qed

lemma clone_once:
  assumes "once log (\<lambda>_. []) sys" "actor_count sys + 1 < 2 ^ 32"
  shows "once log (\<lambda>_. []) (snd (clone_spawn proto nm sys)) \<and> actor_count (snd (clone_spawn proto nm sys)) \<le> actor_count sys + 1"
proof (cases rule: clone_spawn_cases [of proto nm sys])
  case unknown
  with assms(1) show ?thesis by simp
next
  case known
  have "logs log (ah_vt (actor_at sys (unat proto)))"
    using onceD(2) [OF assms(1) known(1)] by (simp add: once_at_def)
  moreover from this have "log (av_clone (ah_vt (actor_at sys (unat proto))) (ah_impl (actor_at sys (unat proto)))) = []"
    by (simp add: logs_def)
  ultimately show ?thesis using spawn_once [OF assms(1) _ _ assms(2)] known(2) by simp
qed

lemma once_start: "cap < 2 ^ 32 \<Longrightarrow> once log (\<lambda>_. []) (actor_system cap)"
  by (simp add: once_def sys_ok_def actor_system_def)

lemma once_step:
  assumes "actor_step log hash sys sys'" "once log (\<lambda>_. []) sys"
  shows "once log (\<lambda>_. []) sys'"
  using assms
proof (induction rule: actor_step.induct)
  case (step_deliver sys env)
  then show ?case by (rule deliver_once)
next
  case (step_inject sys to payload)
  then show ?case unfolding inject_def by (rule deliver_once)
next
  case (step_tick sys ref)
  then show ?case by (rule tick_once(1))
next
  case (step_spawn vt impl sys nm)
  show ?case by (rule spawn_once [THEN conjunct1, OF step_spawn(4,1-3)])
next
  case (step_clone sys proto nm)
  show ?case by (rule clone_once [THEN conjunct1, OF step_clone(2,1)])
next
  case (step_spawn_n sys count proto pre)
  show ?case unfolding spawn_n_def
    by (rule spawn_loop_keeps [where P = "once log (\<lambda>_. [])"]) (use clone_once step_spawn_n in auto)
qed (auto simp: set_lifecycle_def set_cluster_def once_def once_at_def sys_ok_def)

lemma once_steps: "actor_steps log hash sys sys' \<Longrightarrow> once log (\<lambda>_. []) sys \<Longrightarrow> once log (\<lambda>_. []) sys'"
  by (induction rule: rtranclp_induct) (auto intro: once_step)

subsection \<open>A key once offered is refused\<close>

definition seen :: "DedupKey \<Rightarrow> nat \<Rightarrow> 'a ActorSystem \<Rightarrow> bool" where
  "seen k i sys \<longleftrightarrow> sys_ok sys \<and> i < actor_count sys \<and> k \<in> ah_dedup (actor_at sys i)"

lemma seen_deliver: "seen k i sys \<Longrightarrow> seen k i (snd (deliver env sys))"
  using deliver_frame(1,2) [of sys env] deliver_frame(3) [of sys i env] by (auto simp: seen_def)

lemma seen_refused: "seen (dedup_key env) (unat (env_to env)) sys \<Longrightarrow> \<not> fst (deliver env sys)"
  by (auto simp: seen_def deliver_def check_and_insert_def Let_def)

lemma offered_seen:
  assumes "sys_ok sys" "unat (env_to env) < actor_count sys" "ah_lifecycle (actor_at sys (unat (env_to env))) = Active"
  shows "seen (dedup_key env) (unat (env_to env)) (snd (deliver env sys))"
proof -
  have "dedup_key env \<in> ah_dedup (actor_at (snd (deliver env sys)) (unat (env_to env)))"
    using assms(1) by (cases rule: deliver_cases [of sys env]) (use assms(2,3) in auto)
  with deliver_frame(1,2) [OF assms(1)] assms(2) show ?thesis by (simp add: seen_def)
qed

lemma seen_spawn:
  assumes "seen k i sys" "actor_count sys + 1 < 2 ^ 32"
  shows "seen k i (snd (spawn vt nm impl sys)) \<and> actor_count (snd (spawn vt nm impl sys)) = actor_count sys + 1"
proof -
  have ok: "sys_ok sys" using assms(1) by (simp add: seen_def)
  obtain h where "as_actors (snd (spawn vt nm impl sys)) = as_actors sys @ [h]" "sys_ok (snd (spawn vt nm impl sys))"
    using spawn_frame [OF ok assms(2)] by metis
  with assms(1) show ?thesis by (simp add: seen_def nth_append)
qed

lemma seen_clone:
  assumes "seen k i sys" "actor_count sys + 1 < 2 ^ 32"
  shows "seen k i (snd (clone_spawn proto nm sys)) \<and> actor_count (snd (clone_spawn proto nm sys)) \<le> actor_count sys + 1"
  by (cases rule: clone_spawn_cases [of proto nm sys]) (use assms(1) seen_spawn [OF assms] in auto)

lemma seen_step:
  assumes "actor_step log hash sys sys'" "seen k i sys"
  shows "seen k i sys'"
  using assms
proof (induction rule: actor_step.induct)
  case (step_deliver sys env)
  then show ?case by (rule seen_deliver)
next
  case (step_inject sys to payload)
  then show ?case unfolding inject_def by (rule seen_deliver)
next
  case (step_tick sys ref)
  show ?case
  proof (rule tick_keeps [where P = "seen k i"])
    fix env s assume "seen k i s"
    then show "seen k i (snd (deliver env s))" by (rule seen_deliver)
  qed (use step_tick in \<open>auto simp: seen_def sys_ok_def nth_list_update\<close>)
next
  case (step_spawn vt impl sys nm)
  show ?case by (rule seen_spawn [THEN conjunct1, OF step_spawn(4,3)])
next
  case (step_clone sys proto nm)
  show ?case by (rule seen_clone [THEN conjunct1, OF step_clone(2,1)])
next
  case (step_spawn_n sys count proto pre)
  show ?case unfolding spawn_n_def
    by (rule spawn_loop_keeps [where P = "seen k i"], rule seen_clone) (use step_spawn_n in simp_all)
qed (auto simp: set_lifecycle_def set_cluster_def seen_def sys_ok_def)

lemma seen_steps: "actor_steps log hash sys sys' \<Longrightarrow> seen k i sys \<Longrightarrow> seen k i sys'"
  by (induction rule: rtranclp_induct) (auto intro: seen_step)

end
