(* ===== verification/Actor_Properties.thy ===== *)
theory Actor_Properties
  imports Actor_Laws
begin

text \<open>
  The properties of the actor system.
\<close>

text \<open>
  C16: Unless \<open>channel_push\<close> or \<open>channel_drain\<close> is called, which bypass and clear the deduplication, no actor processes a
  message twice: in every run made of deliveries, injections, ticks, changes of lifecycle and cluster, new actors, clones
  (\<open>clone_spawn\<close>, \<open>spawn_n\<close>) and lookups, the messages that an actor has processed since it was made and those in its inbox have
  pairwise different pairs of sender and sequence number, whatever the actors send when they receive a message.
\<close>

theorem messages_processed_at_most_once:
  assumes "actor_steps log hash (actor_system cap) sys" "cap < 2 ^ 32" "i < actor_count sys"
  shows "distinct (map dedup_key (log (ah_impl (actor_at sys i)) @ inbox sys i))"
  using onceD(2) [OF once_steps [OF assms(1) once_start [OF assms(2)]] assms(3)] by (simp add: once_at_def)

text \<open>An actor that keeps what it receives and answers a message to actor 0.\<close>

definition echo_vt :: "Envelope list ActorVTable" where
  "echo_vt = \<lparr>av_on_receive = (\<lambda>l e. Send 0 ''ack'' (\<lambda>ok. Return (l @ [e]))), av_clone = (\<lambda>l. [])\<rparr>"

lemma echo_logs: "logs (\<lambda>l. l) echo_vt"
  by (simp add: logs_def echo_vt_def)

definition echo_system :: "Envelope list ActorSystem" where
  "echo_system = snd (spawn echo_vt ''echo'' [] (actor_system 4))"

lemma echo_system_steps: "actor_steps (\<lambda>l. l) hash (actor_system 4) echo_system"
proof -
  have "actor_step (\<lambda>l. l) hash (actor_system 4) echo_system"
    unfolding echo_system_def by (rule step_spawn [OF echo_logs]) (simp_all add: actor_system_def)
  then show ?thesis by (rule r_into_rtranclp)
qed

lemma messages_processed_at_most_once_witness:
  "distinct (map dedup_key (ah_impl (actor_at (snd (tick 0 (snd (inject 0 ''go'' echo_system)))) 0) @
     inbox (snd (tick 0 (snd (inject 0 ''go'' echo_system)))) 0))"
proof -
  let ?s = "snd (tick 0 (snd (inject 0 ''go'' echo_system)))"
  have run: "actor_steps (\<lambda>l. l) (\<lambda>_. 0) (actor_system 4) ?s"
    by (intro rtranclp.rtrancl_into_rtrancl [OF rtranclp.rtrancl_into_rtrancl [OF echo_system_steps step_inject] step_tick])
  have "once (\<lambda>l. l) (\<lambda>_. []) echo_system" by (rule once_steps [OF echo_system_steps once_start]) simp
  then have "actor_count ?s = actor_count (snd (inject 0 ''go'' echo_system))"
    unfolding inject_def by (intro tick_once(2) deliver_once)
  also have "\<dots> = actor_count echo_system"
    unfolding inject_def by (rule deliver_frame(2)) (simp add: onceD(1) [OF \<open>once (\<lambda>l. l) (\<lambda>_. []) echo_system\<close>])
  also have "\<dots> = 1" by (simp add: echo_system_def spawn_def make_handle_for_def make_channel_def actor_system_def Let_def)
  finally have "0 < actor_count ?s" by simp
  from messages_processed_at_most_once [OF run _ this] show ?thesis by simp
qed

text \<open>
  A tick of an active actor processes exactly the messages that wait in its inbox, all of them in the order of their arrival,
  and reports their number; messages that arrive meanwhile wait for the next tick.
\<close>

theorem tick_processes_inbox_in_order:
  assumes "actor_steps log hash (actor_system cap) sys" "cap < 2 ^ 32"
    and "unat ref < actor_count sys" "ah_lifecycle (actor_at sys (unat ref)) = Active"
  shows "fst (tick ref sys) = length (inbox sys (unat ref)) \<and>
    log (ah_impl (actor_at (snd (tick ref sys)) (unat ref))) = log (ah_impl (actor_at sys (unat ref))) @ inbox sys (unat ref)"
  using tick_once(3) [OF once_steps [OF assms(1) once_start [OF assms(2)]] assms(3,4)] .

lemma tick_processes_inbox_in_order_witness:
  "fst (tick 0 echo_system) = 0 \<and> ah_impl (actor_at (snd (tick 0 echo_system)) 0) = []"
proof -
  have e: "actor_count echo_system = 1" "ah_lifecycle (actor_at echo_system 0) = Active" "inbox echo_system 0 = []"
    "ah_impl (actor_at echo_system 0) = []"
    by (simp_all add: echo_system_def spawn_def make_handle_for_def make_channel_def actor_system_def Let_def)
  from tick_processes_inbox_in_order [OF echo_system_steps, of 0] e show ?thesis by simp
qed

text \<open>
  C17: If \<open>drain\<close> reports fewer messages than it was allowed rounds, so that the bound on the rounds cannot have cut it off,
  no active actor has a message left in its inbox.
\<close>

theorem drain_leaves_system_quiet:
  assumes "actor_steps log hash (actor_system cap) sys" "cap < 2 ^ 32" "drain max_rounds sys = (n, sys')" "n < max_rounds"
  shows "\<forall>i<actor_count sys'. ah_lifecycle (actor_at sys' i) = Active \<longrightarrow> inbox sys' i = []"
proof -
  have "sys_ok sys" using onceD(1) [OF once_steps [OF assms(1) once_start [OF assms(2)]]] .
  from drain_loop_ok [OF this assms(3) [unfolded drain_def]] assms(4) show ?thesis by (simp add: quiescent_def)
qed

lemma drain_leaves_system_quiet_witness:
  "fst (drain 10 echo_system) = 0 \<and> inbox (snd (drain 10 echo_system)) 0 = []"
proof -
  have n: "fst (drain 10 echo_system) = 0" by code_simp
  have "actor_count (snd (drain 10 echo_system)) = 1" by code_simp
  moreover have "ah_lifecycle (actor_at (snd (drain 10 echo_system)) 0) = Active" by code_simp
  moreover have "drain 10 echo_system = (fst (drain 10 echo_system), snd (drain 10 echo_system))" by simp
  ultimately show ?thesis
    using drain_leaves_system_quiet [OF echo_system_steps, of 10 "fst (drain 10 echo_system)" "snd (drain 10 echo_system)"] n
    by simp
qed

text \<open>
  A message that its receiver's full inbox refused is lost for good: once a message was offered to an active actor, accepted or
  not, every later offer of a message with the same sender and number is refused, however much room there is by then. The receiver
  marks the message as seen before it tries the inbox.
\<close>

theorem offered_once_refused_after:
  assumes "actor_steps log hash (actor_system cap) sys" "cap < 2 ^ 32"
    and "unat (env_to env) < actor_count sys" "ah_lifecycle (actor_at sys (unat (env_to env))) = Active"
    and "actor_steps log hash (snd (deliver env sys)) sys'"
    and "dedup_key env' = dedup_key env" "env_to env' = env_to env"
  shows "\<not> fst (deliver env' sys')"
proof -
  have "sys_ok sys" using onceD(1) [OF once_steps [OF assms(1) once_start [OF assms(2)]]] .
  from seen_steps [OF assms(5) offered_seen [OF this assms(3,4)]] assms(6,7)
  show ?thesis by (intro seen_refused) simp
qed

text \<open>A channel of capacity 0 refuses the message; so does every later state.\<close>

lemma offered_once_refused_after_witness:
  "\<not> fst (deliver \<lparr>env_seq = 7, env_from = 3, env_to = 0, env_payload = ''retry''\<rparr>
      (snd (tick 0 (snd (deliver \<lparr>env_seq = 7, env_from = 3, env_to = 0, env_payload = ''a''\<rparr> echo_system)))))"
proof -
  let ?env = "\<lparr>env_seq = 7, env_from = 3, env_to = 0, env_payload = ''a''\<rparr> :: Envelope"
  have e: "actor_count echo_system = 1" "ah_lifecycle (actor_at echo_system 0) = Active"
    by (simp_all add: echo_system_def spawn_def make_handle_for_def make_channel_def actor_system_def Let_def)
  have "actor_steps (\<lambda>l. l) (\<lambda>_. 0) (snd (deliver ?env echo_system)) (snd (tick 0 (snd (deliver ?env echo_system))))"
    by (rule r_into_rtranclp) (rule step_tick)
  from offered_once_refused_after [OF echo_system_steps _ _ _ this] e show ?thesis by (simp add: dedup_key_def)
qed

text \<open>
  An actor can be reached from outside only once: \<open>inject\<close> gives every message the same sender and the sequence number 0, so after one
  injection into an active actor every later one is refused, as a repetition.
\<close>

theorem second_injection_refused:
  assumes "actor_steps log hash (actor_system cap) sys" "cap < 2 ^ 32"
    and "unat to < actor_count sys" "ah_lifecycle (actor_at sys (unat to)) = Active"
    and "actor_steps log hash (snd (inject to payload sys)) sys'"
  shows "\<not> fst (inject to payload' sys')"
proof -
  have "sys_ok sys" using onceD(1) [OF once_steps [OF assms(1) once_start [OF assms(2)]]] .
  from seen_steps [OF assms(5) [unfolded inject_def] offered_seen [OF this]] assms(3,4)
  show ?thesis unfolding inject_def by (intro seen_refused) (simp add: dedup_key_def)
qed

lemma second_injection_refused_witness:
  "fst (inject 0 ''a'' echo_system) \<and> \<not> fst (inject 0 ''b'' (snd (tick 0 (snd (inject 0 ''a'' echo_system)))))"
proof -
  have e: "actor_count echo_system = 1" "ah_lifecycle (actor_at echo_system 0) = Active"
    by (simp_all add: echo_system_def spawn_def make_handle_for_def make_channel_def actor_system_def Let_def)
  have "actor_steps (\<lambda>l. l) (\<lambda>_. 0) (snd (inject 0 ''a'' echo_system)) (snd (tick 0 (snd (inject 0 ''a'' echo_system))))"
    by (rule r_into_rtranclp) (rule step_tick)
  moreover have "fst (inject 0 ''a'' echo_system)" by code_simp
  ultimately show ?thesis using second_injection_refused [OF echo_system_steps] e by simp
qed

end
