(* ===== verification/Aws_Credentials.thy ===== *)
theory Aws_Credentials
  imports Core_Types
begin

text \<open>
  AWS credentials (\<open>include/celer/core/aws_credentials.hpp\<close>, \<open>src/core/aws_credentials.cpp\<close>): the three ways to obtain them
  and the one that the environment selects. \<open>std::getenv\<close> is a parameter, a map from names to values.
\<close>

record AccessKey =
  ak_access_key_id :: string
  ak_secret_access_key :: string
  ak_session_token :: string

definition access_key_valid :: "AccessKey \<Rightarrow> bool" where
  "access_key_valid k \<longleftrightarrow> ak_access_key_id k \<noteq> [] \<and> ak_secret_access_key k \<noteq> []"

record RoleArn =
  ra_role_arn :: string
  ra_session_name :: string
  ra_external_id :: string
  ra_duration_seconds :: "32 word"
  ra_seed_credentials :: "AccessKey option"

definition role_valid :: "RoleArn \<Rightarrow> bool" where
  "role_valid r \<longleftrightarrow> ra_role_arn r \<noteq> []"

definition default_role :: RoleArn where
  "default_role = \<lparr>ra_role_arn = [], ra_session_name = ''celer'', ra_external_id = [],
     ra_duration_seconds = 3600, ra_seed_credentials = None\<rparr>"

datatype AwsCredentials = DefaultChain | cred_access_key AccessKey | cred_role_arn RoleArn

definition from_access_key :: "string \<Rightarrow> string \<Rightarrow> string \<Rightarrow> AwsCredentials" where
  "from_access_key key_id secret token =
     cred_access_key \<lparr>ak_access_key_id = key_id, ak_secret_access_key = secret, ak_session_token = token\<rparr>"

definition from_role_arn :: "string \<Rightarrow> string \<Rightarrow> string \<Rightarrow> 32 word \<Rightarrow> AwsCredentials" where
  "from_role_arn arn session external_id duration =
     cred_role_arn \<lparr>ra_role_arn = arn, ra_session_name = session, ra_external_id = external_id,
       ra_duration_seconds = duration, ra_seed_credentials = None\<rparr>"

definition from_role_arn_with_key :: "string \<Rightarrow> AccessKey \<Rightarrow> string \<Rightarrow> string \<Rightarrow> 32 word \<Rightarrow> AwsCredentials" where
  "from_role_arn_with_key arn seed session external_id duration =
     cred_role_arn \<lparr>ra_role_arn = arn, ra_session_name = session, ra_external_id = external_id,
       ra_duration_seconds = duration, ra_seed_credentials = Some seed\<rparr>"

text \<open>A variable that is set and not empty.\<close>

definition env_set :: "(string \<Rightarrow> string option) \<Rightarrow> string \<Rightarrow> string option" where
  "env_set getenv nm = (case getenv nm of
      None \<Rightarrow> None
    | Some v \<Rightarrow> if v \<noteq> [] then Some v else None)"

definition env_key :: "(string \<Rightarrow> string option) \<Rightarrow> AccessKey option" where
  "env_key getenv = (case (env_set getenv ''AWS_ACCESS_KEY_ID'', env_set getenv ''AWS_SECRET_ACCESS_KEY'') of
      (Some key_id, Some secret) \<Rightarrow>
        (let k = \<lparr>ak_access_key_id = key_id, ak_secret_access_key = secret, ak_session_token = []\<rparr> in
         Some (case env_set getenv ''AWS_SESSION_TOKEN'' of None \<Rightarrow> k | Some t \<Rightarrow> k\<lparr>ak_session_token := t\<rparr>))
    | _ \<Rightarrow> None)"

definition from_env :: "(string \<Rightarrow> string option) \<Rightarrow> AwsCredentials" where
  "from_env getenv = (case env_set getenv ''AWS_ROLE_ARN'' of
      Some arn \<Rightarrow>
        (let r = default_role\<lparr>ra_role_arn := arn\<rparr>;
             r = (case env_set getenv ''AWS_ROLE_SESSION_NAME'' of None \<Rightarrow> r | Some s \<Rightarrow> r\<lparr>ra_session_name := s\<rparr>);
             r = (case env_set getenv ''AWS_EXTERNAL_ID'' of None \<Rightarrow> r | Some x \<Rightarrow> r\<lparr>ra_external_id := x\<rparr>);
             r = (case env_key getenv of None \<Rightarrow> r | Some k \<Rightarrow> r\<lparr>ra_seed_credentials := Some k\<rparr>)
         in cred_role_arn r)
    | None \<Rightarrow> (case env_key getenv of
          Some k \<Rightarrow> cred_access_key k
        | None \<Rightarrow> DefaultChain))"

text \<open>Whatever the environment holds, what it selects is usable: a role has a name, a key both of its parts.\<close>

lemma env_set_nonempty: "env_set getenv nm = Some v \<Longrightarrow> v \<noteq> []"
  by (auto simp: env_set_def split: option.splits if_splits)

lemma env_key_valid: "env_key getenv = Some k \<Longrightarrow> access_key_valid k"
  by (auto simp: env_key_def access_key_valid_def Let_def dest: env_set_nonempty split: option.splits)

lemma from_env_valid:
  "from_env getenv = cred_role_arn r \<Longrightarrow> role_valid r \<and> (\<forall>k. ra_seed_credentials r = Some k \<longrightarrow> access_key_valid k)"
  "from_env getenv = cred_access_key k \<Longrightarrow> access_key_valid k"
  by (auto simp: from_env_def role_valid_def default_role_def Let_def dest: env_set_nonempty env_key_valid
      split: option.splits)

text \<open>A role takes priority over static keys, and the static keys become its seed.\<close>

lemma from_env_role_first:
  assumes "env_set getenv ''AWS_ROLE_ARN'' = Some arn"
  shows "\<exists>r. from_env getenv = cred_role_arn r \<and> ra_role_arn r = arn \<and> ra_seed_credentials r = env_key getenv"
  using assms by (auto simp: from_env_def default_role_def Let_def split: option.splits)

end
