(* ===== verification/S3_Backend.thy ===== *)
theory S3_Backend
  imports Kv_Contract Aws_Credentials
begin

text \<open>
  The S3 backend (\<open>src/backend/s3.cpp\<close>, \<open>include/celer/backend/s3.hpp\<close>). The AWS SDK and the service behind it are the fields
  of \<open>s3_lib\<close>, functions of the library's world; a client is a number. A moved-from or closed backend has no client, and
  a request through it is undefined (\<open>None\<close>). The backend objects live in the record \<open>s3_world\<close>.
\<close>

subsection \<open>The SDK\<close>

datatype HttpCode = range_not_satisfiable | not_found | other_code

record S3Error =
  se_code :: HttpCode
  se_exception :: string
  se_message :: string

type_synonym 'a outcome = "S3Error + 'a"

record GetObjectRequest =
  gr_bucket :: string
  gr_key :: string
  gr_version_id :: "string option"
  gr_range :: "string option"

record ListResult =
  lr_is_truncated :: bool
  lr_next_token :: string
  lr_keys :: "string list"

record VersionEntry =
  ve_key :: string
  ve_version_id :: string
  ve_last_modified :: string
  ve_size :: nat
  ve_is_latest :: bool

record VersionResult =
  vr_is_truncated :: bool
  vr_next_key_marker :: string
  vr_next_version_id_marker :: string
  vr_versions :: "VersionEntry list"
  vr_delete_markers :: "VersionEntry list"

datatype Provider = static_provider string string string | default_provider

record ClientConfig =
  cl_region :: string
  cl_timeout_ms :: int
  cl_max_retries :: int
  cl_endpoint_override :: "string option"
  cl_use_path_style :: bool

record 'l s3_lib =
  s3_get_object :: "nat \<Rightarrow> GetObjectRequest \<Rightarrow> 'l \<Rightarrow> string outcome \<times> 'l"
  s3_put_object :: "nat \<Rightarrow> string \<Rightarrow> string \<Rightarrow> string \<Rightarrow> 'l \<Rightarrow> string outcome \<times> 'l"
  s3_delete_object :: "nat \<Rightarrow> string \<Rightarrow> string \<Rightarrow> 'l \<Rightarrow> unit outcome \<times> 'l"
  s3_delete_objects :: "nat \<Rightarrow> string \<Rightarrow> string list \<Rightarrow> 'l \<Rightarrow> (string \<times> string) list outcome \<times> 'l"
  s3_list_objects :: "nat \<Rightarrow> string \<Rightarrow> string \<Rightarrow> string option \<Rightarrow> 'l \<Rightarrow> ListResult outcome \<times> 'l"
  s3_list_versions :: "nat \<Rightarrow> string \<Rightarrow> string \<Rightarrow> string option \<Rightarrow> string option \<Rightarrow> 'l \<Rightarrow> VersionResult outcome \<times> 'l"
  s3_create_upload :: "nat \<Rightarrow> string \<Rightarrow> string \<Rightarrow> 'l \<Rightarrow> string outcome \<times> 'l"
  s3_upload_part :: "nat \<Rightarrow> string \<Rightarrow> string \<Rightarrow> string \<Rightarrow> nat \<Rightarrow> string \<Rightarrow> 'l \<Rightarrow> string outcome \<times> 'l"
  s3_complete_upload :: "nat \<Rightarrow> string \<Rightarrow> string \<Rightarrow> string \<Rightarrow> (nat \<times> string) list \<Rightarrow> 'l \<Rightarrow> unit outcome \<times> 'l"
  s3_abort_upload :: "nat \<Rightarrow> string \<Rightarrow> string \<Rightarrow> string \<Rightarrow> 'l \<Rightarrow> 'l"
  s3_make_client :: "Provider \<Rightarrow> ClientConfig \<Rightarrow> 'l \<Rightarrow> nat \<times> 'l"
  sts_assume_role :: "Provider \<Rightarrow> string \<Rightarrow> string \<Rightarrow> string option \<Rightarrow> int \<Rightarrow> 'l \<Rightarrow> AccessKey outcome \<times> 'l"
  s3_stderr :: "string \<Rightarrow> 'l \<Rightarrow> 'l"

record S3Backend =
  s3b_client :: "nat option"
  s3b_bucket :: string
  s3b_key_prefix :: string
  s3b_chunk_size :: nat
  s3b_versioning_enabled :: bool

record 'l s3_world =
  sw_objects :: "nat \<Rightarrow> S3Backend option"
  sw_next :: nat
  sw_lib :: 'l

text \<open>One request: its outcome, with the library's world replaced.\<close>

definition s3_call :: "('l \<Rightarrow> 'a outcome \<times> 'l) \<Rightarrow> 'l s3_world \<Rightarrow> 'a outcome \<times> 'l s3_world" where
  "s3_call f w = (let (r, l) = f (sw_lib w) in (r, w\<lparr>sw_lib := l\<rparr>))"

text \<open>The object behind a pointer, and its client: using a null client is undefined.\<close>

definition s3_this :: "nat \<Rightarrow> (S3Backend \<Rightarrow> ('l s3_world, 'a) io) \<Rightarrow> ('l s3_world, 'a) io" where
  "s3_this self f w = (case sw_objects w self of None \<Rightarrow> None | Some b \<Rightarrow> f b w)"

definition s3_client :: "nat option \<Rightarrow> (nat \<Rightarrow> ('l s3_world, 'a) io) \<Rightarrow> ('l s3_world, 'a) io" where
  "s3_client c f w = (case c of None \<Rightarrow> None | Some c \<Rightarrow> f c w)"

definition resolve_key :: "S3Backend \<Rightarrow> string \<Rightarrow> string" where
  "resolve_key b key = s3b_key_prefix b @ key"

subsection \<open>Reading an object in ranges\<close>

record S3GetStream =
  gs_client :: "nat option"
  gs_bucket :: string
  gs_key :: string
  gs_chunk_size :: nat
  gs_offset :: nat
  gs_done :: bool
  gs_version_id :: string

definition byte_range :: "nat \<Rightarrow> nat \<Rightarrow> string" where
  "byte_range a b = ''bytes='' @ decimal a @ ''-'' @ decimal b"

text \<open>The last byte's position is computed in 64 bits.\<close>

definition last_byte :: "nat \<Rightarrow> nat \<Rightarrow> nat" where
  "last_byte off n = (off + n + 2 ^ 64 - 1) mod 2 ^ 64"

definition get_missing :: "S3Error \<Rightarrow> bool" where
  "get_missing err \<longleftrightarrow> se_code err = range_not_satisfiable \<or> se_exception err = ''NoSuchKey'' \<or> se_code err = not_found"

definition s3_get_pull :: "'l s3_lib \<Rightarrow> ('l s3_world, S3GetStream, char) pull" where
  "s3_get_pull lib s w =
     (if gs_done s then Some (Inr None, s, w)
      else case gs_client s of
        None \<Rightarrow> None
      | Some c \<Rightarrow>
          let req = \<lparr>gr_bucket = gs_bucket s, gr_key = gs_key s,
                gr_version_id = (if gs_version_id s \<noteq> [] then Some (gs_version_id s) else None),
                gr_range = Some (byte_range (gs_offset s) (last_byte (gs_offset s) (gs_chunk_size s)))\<rparr>;
              (outcome, w') = s3_call (s3_get_object lib c req) w in
          (case outcome of
             Inl err \<Rightarrow>
               if get_missing err then Some (Inr None, s\<lparr>gs_done := True\<rparr>, w')
               else Some (Err ''S3StreamGet'' (se_message err), s, w')
           | Inr buf \<Rightarrow>
               if buf = [] then Some (Inr None, s\<lparr>gs_done := True\<rparr>, w')
               else let s1 = s\<lparr>gs_offset := gs_offset s + length buf\<rparr>;
                        s2 = (if length buf < gs_chunk_size s then s1\<lparr>gs_done := True\<rparr> else s1) in
                 Some (Inr (Some (chunk_from buf)), s2, w')))"

definition s3_get_stream :: "'l s3_lib \<Rightarrow> nat \<Rightarrow> string \<Rightarrow> string \<Rightarrow> ('l s3_world, ('l s3_world, char) StreamHandle) io" where
  "s3_get_stream lib self key version_id = s3_this self (\<lambda>b. io_return (make_stream_handle (s3_get_pull lib)
     \<lparr>gs_client = s3b_client b, gs_bucket = s3b_bucket b, gs_key = resolve_key b key, gs_chunk_size = s3b_chunk_size b,
      gs_offset = 0, gs_done = False, gs_version_id = version_id\<rparr>))"

definition s3_stream_get :: "'l s3_lib \<Rightarrow> nat \<Rightarrow> string \<Rightarrow> ('l s3_world, ('l s3_world, char) StreamHandle) io" where
  "s3_stream_get lib self key = s3_get_stream lib self key []"

subsection \<open>Listing\<close>

record S3ListStream =
  ls_client :: "nat option"
  ls_bucket :: string
  ls_prefix :: string
  ls_continuation_token :: string
  ls_done :: bool

text \<open>The values of a page's objects, fetched one by one; the keys lose the listing's prefix. A key shorter than the prefix makes
  \<open>substr\<close> throw, which leaves the operation without a value.\<close>

fun fetch_page :: "'l s3_lib \<Rightarrow> nat \<Rightarrow> string \<Rightarrow> string \<Rightarrow> string list \<Rightarrow> KVPair list \<Rightarrow> ('l s3_world, KVPair list) io" where
  "fetch_page lib c bucket pre [] pairs = io_return pairs"
| "fetch_page lib c bucket pre (full_key # ks) pairs = (\<lambda>w.
     if length full_key < length pre then None
     else let req = \<lparr>gr_bucket = bucket, gr_key = full_key, gr_version_id = None, gr_range = None\<rparr>;
         (outcome, w') = s3_call (s3_get_object lib c req) w in
     (case outcome of
        Inl err \<Rightarrow> Some (Err ''S3StreamScan'' (''failed to get object '' @ quoted full_key @ '': '' @ se_message err), w')
      | Inr val \<Rightarrow> fetch_page lib c bucket pre ks (pairs @ [KV (drop (length pre) full_key) val]) w'))"

definition s3_list_pull :: "'l s3_lib \<Rightarrow> ('l s3_world, S3ListStream, KVPair) pull" where
  "s3_list_pull lib s w =
     (if ls_done s then Some (Inr None, s, w)
      else case ls_client s of
        None \<Rightarrow> None
      | Some c \<Rightarrow>
          let token = (if ls_continuation_token s \<noteq> [] then Some (ls_continuation_token s) else None);
              (outcome, w1) = s3_call (s3_list_objects lib c (ls_bucket s) (ls_prefix s) token) w in
          (case outcome of
             Inl err \<Rightarrow> Some (Err ''S3StreamScan'' (se_message err), s, w1)
           | Inr result \<Rightarrow>
               let s1 = (if lr_is_truncated result then s\<lparr>ls_continuation_token := lr_next_token result\<rparr>
                         else s\<lparr>ls_done := True\<rparr>) in
               (case fetch_page lib c (ls_bucket s) (ls_prefix s) (lr_keys result) [] w1 of
                  None \<Rightarrow> None
                | Some (Inl e, w2) \<Rightarrow> Some (Inl e, s1, w2)
                | Some (Inr pairs, w2) \<Rightarrow>
                    if pairs = [] then Some (Inr None, s1\<lparr>ls_done := True\<rparr>, w2)
                    else Some (Inr (Some (chunk_from pairs)), s1, w2))))"

definition s3_stream_scan :: "'l s3_lib \<Rightarrow> nat \<Rightarrow> string \<Rightarrow> ('l s3_world, ('l s3_world, KVPair) StreamHandle) io" where
  "s3_stream_scan lib self pre = s3_this self (\<lambda>b. io_return (make_stream_handle (s3_list_pull lib)
     \<lparr>ls_client = s3b_client b, ls_bucket = s3b_bucket b, ls_prefix = resolve_key b pre, ls_continuation_token = [],
      ls_done = False\<rparr>))"

subsection \<open>The materializing operations\<close>

definition s3_get :: "'l s3_lib \<Rightarrow> nat \<Rightarrow> string \<Rightarrow> ('l s3_world, string option) io" where
  "s3_get lib self key = io_bind (s3_stream_get lib self key) (\<lambda>s w. case collect_string stream_pull s w of
      None \<Rightarrow> None
    | Some (Inl e, _, w') \<Rightarrow> Some (Inl e, w')
    | Some (Inr collected, _, w') \<Rightarrow> Some (Inr (if collected = [] then None else Some collected), w'))"

definition s3_put_result :: "'l s3_lib \<Rightarrow> string \<Rightarrow> nat \<Rightarrow> string \<Rightarrow> string \<Rightarrow> ('l s3_world, string) io" where
  "s3_put_result lib code self key val = s3_this self (\<lambda>b. s3_client (s3b_client b) (\<lambda>c w.
     let (outcome, w') = s3_call (s3_put_object lib c (s3b_bucket b) (resolve_key b key) val) w in
     (case outcome of
        Inl err \<Rightarrow> Some (Err code (se_message err), w')
      | Inr version_id \<Rightarrow> Some (Inr version_id, w'))))"

definition s3_put :: "'l s3_lib \<Rightarrow> nat \<Rightarrow> string \<Rightarrow> string \<Rightarrow> ('l s3_world, unit) io" where
  "s3_put lib self key val = io_bind (s3_put_result lib ''S3Put'' self key val) (\<lambda>_. io_return ())"

definition s3_del :: "'l s3_lib \<Rightarrow> nat \<Rightarrow> string \<Rightarrow> ('l s3_world, unit) io" where
  "s3_del lib self key = s3_this self (\<lambda>b. s3_client (s3b_client b) (\<lambda>c w.
     let (outcome, w') = s3_call (s3_delete_object lib c (s3b_bucket b) (resolve_key b key)) w in
     (case outcome of
        Inl err \<Rightarrow> Some (Err ''S3Del'' (se_message err), w')
      | Inr _ \<Rightarrow> Some (Inr (), w'))))"

definition s3_prefix_scan :: "'l s3_lib \<Rightarrow> nat \<Rightarrow> string \<Rightarrow> ('l s3_world, KVPair list) io" where
  "s3_prefix_scan lib self pre = io_bind (s3_stream_scan lib self pre) (\<lambda>s w. case collect stream_pull s w of
      None \<Rightarrow> None
    | Some (r, _, w') \<Rightarrow> Some (r, w'))"

text \<open>The batch: the operations are sorted into puts and deletes first.\<close>

fun s3_partition :: "S3Backend \<Rightarrow> BatchOp list \<Rightarrow> (string \<times> string) list \<Rightarrow> string list \<Rightarrow>
    ((string \<times> string) list \<times> string list) result" where
  "s3_partition b [] puts dels = Inr (puts, dels)"
| "s3_partition b (op # ops) puts dels =
     (if op_kind op = put_kind then
        (case op_value op of
           None \<Rightarrow> Err ''S3Batch'' ''put op missing value''
         | Some v \<Rightarrow> s3_partition b ops (puts @ [(op_key op, v)]) dels)
      else s3_partition b ops puts (dels @ [resolve_key b (op_key op)]))"

fun s3_put_loop :: "'l s3_lib \<Rightarrow> nat \<Rightarrow> (string \<times> string) list \<Rightarrow> ('l s3_world, unit) io" where
  "s3_put_loop lib self [] = io_return ()"
| "s3_put_loop lib self ((k, v) # puts) = io_bind (s3_put lib self k v) (\<lambda>_. s3_put_loop lib self puts)"

definition max_keys_per_call :: nat where "max_keys_per_call = 1000"

function s3_delete_loop :: "'l s3_lib \<Rightarrow> nat \<Rightarrow> string \<Rightarrow> string list \<Rightarrow> ('l s3_world, unit) io" where
  "s3_delete_loop lib c bucket dels w =
     (if dels = [] then Some (Inr (), w)
      else let (outcome, w') = s3_call (s3_delete_objects lib c bucket (take max_keys_per_call dels)) w in
        (case outcome of
           Inl err \<Rightarrow> Some (Err ''S3BatchDel'' (se_message err), w')
         | Inr ((k, m) # _) \<Rightarrow> Some (Err ''S3BatchDel'' (k @ '': '' @ m), w')
         | Inr [] \<Rightarrow> s3_delete_loop lib c bucket (drop max_keys_per_call dels) w'))"
  by pat_completeness auto
termination
  by (relation "measure (\<lambda>(_, _, _, dels, _). length dels)") (simp_all add: max_keys_per_call_def)

declare s3_delete_loop.simps [simp del]

definition s3_batch :: "'l s3_lib \<Rightarrow> nat \<Rightarrow> BatchOp list \<Rightarrow> ('l s3_world, unit) io" where
  "s3_batch lib self ops = s3_this self (\<lambda>b w. case s3_partition b ops [] [] of
      Inl e \<Rightarrow> Some (Inl e, w)
    | Inr (puts, dels) \<Rightarrow> io_bind (s3_put_loop lib self puts) (\<lambda>_.
        if dels = [] then io_return () else s3_client (s3b_client b) (\<lambda>c. s3_delete_loop lib c (s3b_bucket b) dels)) w)"

definition s3_compact :: "nat \<Rightarrow> ('l s3_world, unit) io" where
  "s3_compact self = io_return ()"

definition s3_foreach_scan :: "'l s3_lib \<Rightarrow> nat \<Rightarrow> string \<Rightarrow> 'l s3_world ScanVisitor \<Rightarrow> ('l s3_world, unit) io" where
  "s3_foreach_scan lib self pre visitor = io_bind (s3_stream_scan lib self pre) (\<lambda>s w.
     case stream_drain (\<lambda>kv. visitor (kv_key kv) (kv_value kv)) stream_pull s w of
       None \<Rightarrow> None
     | Some (r, _, w') \<Rightarrow> Some (r, w'))"

subsection \<open>Multipart uploads\<close>

partial_function (option) upload_loop :: "'l s3_lib \<Rightarrow> nat \<Rightarrow> string \<Rightarrow> string \<Rightarrow> string \<Rightarrow> (nat \<times> string) list \<Rightarrow> nat \<Rightarrow>
    ('l s3_world, char) StreamHandle \<Rightarrow> 'l s3_world \<Rightarrow> ((nat \<times> string) list result \<times> 'l s3_world) option" where
  "upload_loop lib c bucket key upload_id parts part_number input w = do {
     (r, input', w1) \<leftarrow> stream_pull input w;
     (case r of
        Inl e \<Rightarrow> Some (Inl e, w1\<lparr>sw_lib := s3_abort_upload lib c bucket key upload_id (sw_lib w1)\<rparr>)
      | Inr None \<Rightarrow> Some (Inr parts, w1)
      | Inr (Some chunk) \<Rightarrow>
          (let (outcome, w2) = s3_call (s3_upload_part lib c bucket key upload_id part_number chunk) w1 in
           case outcome of
             Inl err \<Rightarrow> Some (Err ''S3StreamPut'' (se_message err),
               w2\<lparr>sw_lib := s3_abort_upload lib c bucket key upload_id (sw_lib w2)\<rparr>)
           | Inr etag \<Rightarrow> upload_loop lib c bucket key upload_id (parts @ [(part_number, etag)]) (part_number + 1) input' w2)) }"

definition s3_stream_put :: "'l s3_lib \<Rightarrow> nat \<Rightarrow> string \<Rightarrow> ('l s3_world, char) StreamHandle \<Rightarrow> ('l s3_world, unit) io" where
  "s3_stream_put lib self key input = s3_this self (\<lambda>b. s3_client (s3b_client b) (\<lambda>c w.
     let bucket = s3b_bucket b; full_key = resolve_key b key;
         (created, w1) = s3_call (s3_create_upload lib c bucket full_key) w in
     (case created of
        Inl err \<Rightarrow> Some (Err ''S3StreamPut'' (se_message err), w1)
      | Inr upload_id \<Rightarrow> (case upload_loop lib c bucket full_key upload_id [] 1 input w1 of
            None \<Rightarrow> None
          | Some (Inl e, w2) \<Rightarrow> Some (Inl e, w2)
          | Some (Inr parts, w2) \<Rightarrow>
              (let (completed, w3) = s3_call (s3_complete_upload lib c bucket full_key upload_id parts) w2 in
               case completed of
                 Inl err \<Rightarrow> Some (Err ''S3StreamPut'' (se_message err), w3)
               | Inr _ \<Rightarrow> Some (Inr (), w3))))))"

subsection \<open>Versioned objects\<close>

record VersionInfo =
  vi_version_id :: string
  vi_last_modified :: string
  vi_size :: nat
  vi_is_latest :: bool
  vi_is_delete_marker :: bool

record S3VersionStreamImpl =
  vs_client :: "nat option"
  vs_bucket :: string
  vs_prefix :: string
  vs_key_filter :: string
  vs_key_marker :: string
  vs_version_id_marker :: string
  vs_done :: bool

definition version_wanted :: "S3VersionStreamImpl \<Rightarrow> VersionEntry \<Rightarrow> bool" where
  "version_wanted s v \<longleftrightarrow> vs_key_filter s = [] \<or> ve_key v = vs_prefix s @ vs_key_filter s"

definition version_info :: "VersionEntry \<Rightarrow> VersionInfo" where
  "version_info v = \<lparr>vi_version_id = ve_version_id v, vi_last_modified = ve_last_modified v, vi_size = ve_size v,
     vi_is_latest = ve_is_latest v, vi_is_delete_marker = False\<rparr>"

definition marker_info :: "VersionEntry \<Rightarrow> VersionInfo" where
  "marker_info v = \<lparr>vi_version_id = ve_version_id v, vi_last_modified = ve_last_modified v, vi_size = 0,
     vi_is_latest = ve_is_latest v, vi_is_delete_marker = True\<rparr>"

definition nonempty :: "string \<Rightarrow> string option" where
  "nonempty s = (if s \<noteq> [] then Some s else None)"

definition s3_version_pull :: "'l s3_lib \<Rightarrow> ('l s3_world, S3VersionStreamImpl, VersionInfo) pull" where
  "s3_version_pull lib s w =
     (if vs_done s then Some (Inr None, s, w)
      else case vs_client s of
        None \<Rightarrow> None
      | Some c \<Rightarrow>
          let (outcome, w1) = s3_call (s3_list_versions lib c (vs_bucket s) (vs_prefix s)
                (nonempty (vs_key_marker s)) (nonempty (vs_version_id_marker s))) w in
          (case outcome of
             Inl err \<Rightarrow> Some (Err ''S3ListVersions'' (se_message err), s, w1)
           | Inr result \<Rightarrow>
               let s1 = (if vr_is_truncated result
                         then s\<lparr>vs_key_marker := vr_next_key_marker result,
                                vs_version_id_marker := vr_next_version_id_marker result\<rparr>
                         else s\<lparr>vs_done := True\<rparr>);
                   versions = map version_info (filter (version_wanted s) (vr_versions result)) @
                     map marker_info (filter (version_wanted s) (vr_delete_markers result)) in
               if versions = [] then Some (Inr None, s1\<lparr>vs_done := True\<rparr>, w1)
               else Some (Inr (Some (chunk_from versions)), s1, w1)))"

definition s3_get_versioned :: "'l s3_lib \<Rightarrow> nat \<Rightarrow> string \<Rightarrow> string \<Rightarrow> ('l s3_world, string option) io" where
  "s3_get_versioned lib self key version_id = s3_this self (\<lambda>b. s3_client (s3b_client b) (\<lambda>c w.
     let req = \<lparr>gr_bucket = s3b_bucket b, gr_key = resolve_key b key, gr_version_id = Some version_id, gr_range = None\<rparr>;
         (outcome, w') = s3_call (s3_get_object lib c req) w in
     (case outcome of
        Inl err \<Rightarrow> if se_code err = not_found then Some (Inr None, w') else Some (Err ''S3GetVersioned'' (se_message err), w')
      | Inr val \<Rightarrow> Some (Inr (Some val), w'))))"

definition s3_stream_get_versioned :: "'l s3_lib \<Rightarrow> nat \<Rightarrow> string \<Rightarrow> string \<Rightarrow>
    ('l s3_world, ('l s3_world, char) StreamHandle) io" where
  "s3_stream_get_versioned lib self key version_id = s3_get_stream lib self key version_id"

definition s3_put_versioned :: "'l s3_lib \<Rightarrow> nat \<Rightarrow> string \<Rightarrow> string \<Rightarrow> ('l s3_world, string) io" where
  "s3_put_versioned lib self key val = s3_put_result lib ''S3PutVersioned'' self key val"

definition s3_versions :: "'l s3_lib \<Rightarrow> nat \<Rightarrow> string \<Rightarrow> ('l s3_world, ('l s3_world, VersionInfo) StreamHandle) io" where
  "s3_versions lib self key = s3_this self (\<lambda>b. io_return (make_stream_handle (s3_version_pull lib)
     \<lparr>vs_client = s3b_client b, vs_bucket = s3b_bucket b, vs_prefix = s3b_key_prefix b, vs_key_filter = key,
      vs_key_marker = [], vs_version_id_marker = [], vs_done = False\<rparr>))"

subsection \<open>The backend and its factory\<close>

definition s3_close :: "nat \<Rightarrow> ('l s3_world, unit) io" where
  "s3_close self w = (case sw_objects w self of
      None \<Rightarrow> Some (Inr (), w)
    | Some b \<Rightarrow> Some (Inr (), w\<lparr>sw_objects := (sw_objects w)(self \<mapsto> b\<lparr>s3b_client := None\<rparr>)\<rparr>))"

definition s3_delete :: "nat \<Rightarrow> 'l s3_world \<Rightarrow> 'l s3_world" where
  "s3_delete self w = w\<lparr>sw_objects := (sw_objects w)(self := None)\<rparr>"

definition s3_backend :: "'l s3_lib \<Rightarrow> 'l s3_world StorageBackend" where
  "s3_backend lib =
    \<lparr>b_get = s3_get lib, b_put = s3_put lib, b_del = s3_del lib,
     b_prefix_scan = s3_prefix_scan lib, b_batch = s3_batch lib, b_compact = s3_compact,
     b_foreach_scan = s3_foreach_scan lib, b_stream_get = s3_stream_get lib,
     b_stream_put = s3_stream_put lib, b_stream_scan = s3_stream_scan lib,
     b_get_many = None, b_delete = s3_delete\<rparr>"

record S3Config =
  sc_bucket :: string
  sc_prefix :: string
  sc_region :: string
  sc_endpoint_url :: string
  sc_chunk_size :: nat
  sc_max_retries :: int
  sc_timeout_ms :: int
  sc_use_path_style :: bool
  sc_versioning_enabled :: bool
  sc_credentials :: AwsCredentials

definition default_s3_config :: S3Config where
  "default_s3_config = \<lparr>sc_bucket = [], sc_prefix = [], sc_region = ''us-east-1'', sc_endpoint_url = [],
     sc_chunk_size = 5 * 1024 * 1024, sc_max_retries = 3, sc_timeout_ms = 30000, sc_use_path_style = False,
     sc_versioning_enabled = False, sc_credentials = DefaultChain\<rparr>"

definition key_provider :: "AccessKey \<Rightarrow> Provider" where
  "key_provider k = static_provider (ak_access_key_id k) (ak_secret_access_key k) (ak_session_token k)"

text \<open>The provider of a configuration: for a role, the credentials that STS hands out, and the default ones if it refuses.\<close>

definition resolve_provider :: "'l s3_lib \<Rightarrow> AwsCredentials \<Rightarrow> 'l \<Rightarrow> Provider \<times> 'l" where
  "resolve_provider lib creds l = (case creds of
      cred_access_key k \<Rightarrow> (key_provider k, l)
    | cred_role_arn r \<Rightarrow>
        (let seed = (case ra_seed_credentials r of
               Some k \<Rightarrow> if access_key_valid k then key_provider k else default_provider
             | None \<Rightarrow> default_provider);
             (outcome, l1) = sts_assume_role lib seed (ra_role_arn r) (ra_session_name r)
               (nonempty (ra_external_id r)) (sint (ra_duration_seconds r)) l in
         (case outcome of
            Inl err \<Rightarrow> (default_provider, s3_stderr lib (''[celer] STS AssumeRole failed: '' @ se_message err) l1)
          | Inr k \<Rightarrow> (key_provider k, l1)))
    | DefaultChain \<Rightarrow> (default_provider, l))"

definition s3_connect :: "'l s3_lib \<Rightarrow> S3Config \<Rightarrow> 'l \<Rightarrow> nat \<times> 'l" where
  "s3_connect lib cfg l =
     (let aws_cfg = \<lparr>cl_region = sc_region cfg, cl_timeout_ms = sc_timeout_ms cfg, cl_max_retries = sc_max_retries cfg,
            cl_endpoint_override = nonempty (sc_endpoint_url cfg), cl_use_path_style = sc_use_path_style cfg\<rparr>;
          (provider, l1) = resolve_provider lib (sc_credentials cfg) l
      in s3_make_client lib provider aws_cfg l1)"

text \<open>The function that \<open>factory\<close> returns, once it has connected.\<close>

definition s3_factory :: "'l s3_lib \<Rightarrow> S3Config \<Rightarrow> nat \<Rightarrow> 'l s3_world BackendFactory" where
  "s3_factory lib cfg client scope table w =
     (let key_prefix = sc_prefix cfg @ scope @ ''/'' @ table @ ''/'';
          backend = sw_next w;
          b = \<lparr>s3b_client = Some client, s3b_bucket = sc_bucket cfg, s3b_key_prefix = key_prefix,
               s3b_chunk_size = sc_chunk_size cfg, s3b_versioning_enabled = sc_versioning_enabled cfg\<rparr>
      in Some (Inr (make_backend_handle (s3_backend lib) backend),
           w\<lparr>sw_objects := (sw_objects w)(backend \<mapsto> b), sw_next := backend + 1\<rparr>))"

definition s3_factory_unavailable :: "S3Config \<Rightarrow> 'w BackendFactory" where
  "s3_factory_unavailable cfg scope table = io_throw (Error ''NotAvailable'' ''compiled without S3 support (aws-sdk-cpp)'')"

end
