(* ===== verification/S3_Laws.thy ===== *)
theory S3_Laws
  imports S3_Backend Memory_Backend
begin

text \<open>
  What the S3 backend does over a service that keeps what it documents: ranged reads put an object together again, but an
  empty value reads as absent; a scan's keys lose the prefix they were searched by; a batch applies all its puts before its
  deletes; an upload in parts takes effect as a whole or not at all.
\<close>

subsection \<open>The service\<close>

definition plain_get :: "string \<Rightarrow> string \<Rightarrow> GetObjectRequest" where
  "plain_get bucket k = \<lparr>gr_bucket = bucket, gr_key = k, gr_version_id = None, gr_range = None\<rparr>"

definition ranged_get :: "string \<Rightarrow> string \<Rightarrow> nat \<Rightarrow> nat \<Rightarrow> GetObjectRequest" where
  "ranged_get bucket k a b = \<lparr>gr_bucket = bucket, gr_key = k, gr_version_id = None, gr_range = Some (byte_range a b)\<rparr>"

text \<open>The pages of a listing, from a continuation token on.\<close>

inductive pages :: "'l s3_lib \<Rightarrow> nat \<Rightarrow> string \<Rightarrow> string \<Rightarrow> 'l \<Rightarrow> string option \<Rightarrow> string list \<Rightarrow> bool"
  for lib c bucket p l where
  last_page: "s3_list_objects lib c bucket p tok l = (Inr \<lparr>lr_is_truncated = False, lr_next_token = nt, lr_keys = ks\<rparr>, l) \<Longrightarrow>
    length ks < 2 ^ 32 \<Longrightarrow> pages lib c bucket p l tok ks"
| more_pages: "s3_list_objects lib c bucket p tok l = (Inr \<lparr>lr_is_truncated = True, lr_next_token = nt, lr_keys = ks\<rparr>, l) \<Longrightarrow>
    nt \<noteq> [] \<Longrightarrow> ks \<noteq> [] \<Longrightarrow> length ks < 2 ^ 32 \<Longrightarrow> pages lib c bucket p l (Some nt) rest \<Longrightarrow>
    pages lib c bucket p l tok (ks @ rest)"

text \<open>
  The parts of an upload under way: by its number, a part's tag and bytes. A part sent again under the same
  number replaces the first. A completion names numbers and tags; the object is the bytes of the named parts.
\<close>

type_synonym upload_parts = "nat \<Rightarrow> (string \<times> string) option"

definition named_bytes :: "upload_parts \<Rightarrow> (nat \<times> string) list \<Rightarrow> string" where
  "named_bytes ps tags = concat (map (\<lambda>(n, etag). case ps n of None \<Rightarrow> [] | Some (e, body) \<Rightarrow> body) tags)"

definition tags_match :: "upload_parts \<Rightarrow> (nat \<times> string) list \<Rightarrow> bool" where
  "tags_match ps tags \<longleftrightarrow> sorted_wrt (<) (map fst tags) \<and> list_all (\<lambda>(n, etag). map_option fst (ps n) = Some etag) tags"

definition s3_at :: "nat \<Rightarrow> string \<Rightarrow> ('l \<Rightarrow> bool) \<Rightarrow> nat \<Rightarrow> S3Backend \<Rightarrow> 'l s3_world \<Rightarrow> bool" where
  "s3_at c bucket healthy self b w \<longleftrightarrow> sw_objects w self = Some b \<and> s3b_client b = Some c \<and> s3b_bucket b = bucket \<and>
     healthy (sw_lib w)"

text \<open>The operations of a batch by their kind.\<close>

definition puts_of :: "BatchOp list \<Rightarrow> BatchOp list" where
  "puts_of ops = filter (\<lambda>op. op_kind op = put_kind) ops"

definition dels_of :: "BatchOp list \<Rightarrow> BatchOp list" where
  "dels_of ops = filter (\<lambda>op. op_kind op \<noteq> put_kind) ops"

text \<open>
  The laws. \<open>view\<close> is the bucket's contents, \<open>uploads\<close> the uploads under way with their keys and parts. Creations of
  uploads, parts and completions may fail, a completion leaving the upload open; nothing is said of a completion
  whose part numbers do not increase or whose tags do not match. The other requests succeed.
\<close>

locale s3_laws =
  fixes lib :: "'l s3_lib" and c :: nat and bucket :: string and view :: "'l \<Rightarrow> contents" and healthy :: "'l \<Rightarrow> bool"
    and uploads :: "'l \<Rightarrow> string \<Rightarrow> (string \<times> upload_parts) option"
  assumes get_whole: "healthy l \<Longrightarrow> view l k = Some v \<Longrightarrow> s3_get_object lib c (plain_get bucket k) l = (Inr v, l)"
    and get_range: "healthy l \<Longrightarrow> view l k = Some v \<Longrightarrow> a < length v \<Longrightarrow> 0 < n \<Longrightarrow>
      s3_get_object lib c (ranged_get bucket k a (a + n - 1)) l = (Inr (take n (drop a v)), l)"
    and get_past_end: "healthy l \<Longrightarrow> view l k = Some v \<Longrightarrow> length v \<le> a \<Longrightarrow> 0 < n \<Longrightarrow>
      \<exists>err. s3_get_object lib c (ranged_get bucket k a (a + n - 1)) l = (Inl err, l) \<and> get_missing err"
    and get_absent: "healthy l \<Longrightarrow> view l k = None \<Longrightarrow> 0 < n \<Longrightarrow>
      \<exists>err. s3_get_object lib c (ranged_get bucket k a (a + n - 1)) l = (Inl err, l) \<and> get_missing err"
    and put_ok: "healthy l \<Longrightarrow> \<exists>vid l'. s3_put_object lib c bucket k v l = (Inr vid, l') \<and> healthy l' \<and> view l' = (view l)(k \<mapsto> v)"
    and delete_ok: "healthy l \<Longrightarrow> \<exists>l'. s3_delete_object lib c bucket k l = (Inr (), l') \<and> healthy l' \<and> view l' = (view l)(k := None)"
    and delete_many_ok: "healthy l \<Longrightarrow> ks \<noteq> [] \<Longrightarrow> length ks \<le> 1000 \<Longrightarrow> \<exists>l'. s3_delete_objects lib c bucket ks l = (Inr [], l') \<and> healthy l' \<and>
      view l' = (\<lambda>k. if k \<in> set ks then None else view l k)"
    and list_ok: "healthy l \<Longrightarrow> \<exists>ks. pages lib c bucket p l None ks \<and> sorted_wrt (<) ks \<and> set ks = {k. prefix p k \<and> view l k \<noteq> None}"
    and create_ok: "healthy l \<Longrightarrow> \<exists>r l'. s3_create_upload lib c bucket k l = (r, l') \<and> healthy l' \<and> view l' = view l \<and>
      (case r of Inl err \<Rightarrow> uploads l' = uploads l | Inr u \<Rightarrow> uploads l u = None \<and> uploads l' = (uploads l)(u \<mapsto> (k, Map.empty)))"
    and part_ok: "healthy l \<Longrightarrow> uploads l u = Some (k, ps) \<Longrightarrow> \<exists>r l'. s3_upload_part lib c bucket k u n body l = (r, l') \<and> healthy l' \<and>
      view l' = view l \<and> (case r of
         Inl err \<Rightarrow> \<exists>ps'. uploads l' = (uploads l)(u \<mapsto> (k, ps'))
       | Inr etag \<Rightarrow> uploads l' = (uploads l)(u \<mapsto> (k, ps(n \<mapsto> (etag, body)))))"
    and complete_ok: "healthy l \<Longrightarrow> uploads l u = Some (k, ps) \<Longrightarrow> tags_match ps tags \<Longrightarrow>
      \<exists>r l'. s3_complete_upload lib c bucket k u tags l = (r, l') \<and> healthy l' \<and> (case r of
         Inl err \<Rightarrow> view l' = view l \<and> uploads l' = uploads l
       | Inr _ \<Rightarrow> view l' = (view l)(k \<mapsto> named_bytes ps tags) \<and> uploads l' = (uploads l)(u := None))"
    and abort_ok: "healthy l \<Longrightarrow> healthy (s3_abort_upload lib c bucket k u l) \<and> view (s3_abort_upload lib c bucket k u l) = view l \<and>
      uploads (s3_abort_upload lib c bucket k u l) = (uploads l)(u := None)"
begin

subsection \<open>Reading\<close>

definition get_at :: "string \<Rightarrow> nat \<Rightarrow> nat \<Rightarrow> bool \<Rightarrow> S3GetStream" where
  "get_at k n off d = \<lparr>gs_client = Some c, gs_bucket = bucket, gs_key = k, gs_chunk_size = n, gs_offset = off, gs_done = d,
     gs_version_id = []\<rparr>"

lemma get_at_simps [simp]:
  "gs_client (get_at k n off d) = Some c" "gs_bucket (get_at k n off d) = bucket" "gs_key (get_at k n off d) = k"
  "gs_chunk_size (get_at k n off d) = n" "gs_offset (get_at k n off d) = off" "gs_done (get_at k n off d) = d"
  "gs_version_id (get_at k n off d) = []" "(get_at k n off d)\<lparr>gs_done := d'\<rparr> = get_at k n off d'"
  "(get_at k n off d)\<lparr>gs_offset := off'\<rparr> = get_at k n off' d"
  by (simp_all add: get_at_def)

lemma s3_call_same: "f (sw_lib w) = (r, sw_lib w) \<Longrightarrow> s3_call f w = (r, w)"
  by (simp add: s3_call_def)

lemma last_byte_small: "0 < n \<Longrightarrow> off + n \<le> 2 ^ 64 \<Longrightarrow> last_byte off n = off + n - 1"
proof -
  assume n: "0 < n" "off + n \<le> 2 ^ 64"
  then have e: "off + n + 2 ^ 64 - 1 = (off + n - 1) + 2 ^ 64" by simp
  show ?thesis by (simp only: last_byte_def e mod_add_self2) (use n in simp)
qed

lemma s3_get_pull_request:
  assumes "s3_get_object lib c (ranged_get bucket k off (off + n - 1)) (sw_lib w) = (r, sw_lib w)" "0 < n" "off + n \<le> 2 ^ 64"
  shows "s3_get_pull lib (get_at k n off False) w = (case r of
      Inl err \<Rightarrow> if get_missing err then Some (Inr None, get_at k n off True, w)
        else Some (Err ''S3StreamGet'' (se_message err), get_at k n off False, w)
    | Inr buf \<Rightarrow> if buf = [] then Some (Inr None, get_at k n off True, w)
        else Some (Inr (Some (chunk_from buf)), get_at k n (off + length buf) (length buf < n), w))"
proof -
  have "s3_call (s3_get_object lib c (ranged_get bucket k off (last_byte off n))) w = (r, w)"
    by (rule s3_call_same) (use assms(1) in \<open>simp only: last_byte_small [OF assms(2,3)]\<close>)
  then show ?thesis
    by (auto simp: s3_get_pull_def ranged_get_def Let_def split: sum.splits)
qed

lemma s3_get_yields:
  assumes "healthy (sw_lib w)" "view (sw_lib w) k = Some v" "0 < n" "n < 2 ^ 32" "length v + n \<le> 2 ^ 64" "off \<le> length v"
  shows "\<exists>cs s'. yields (s3_get_pull lib) (get_at k n off False) w cs None s' w \<and> concat cs = drop off v"
  using assms(6)
proof (induction "length v - off" arbitrary: off rule: less_induct)
  case less
  have b: "off + n \<le> 2 ^ 64" using assms(5) less.prems by simp
  show ?case
  proof (cases "off < length v")
    case False
    then have e: "length v \<le> off" by simp
    obtain err where err: "s3_get_object lib c (ranged_get bucket k off (off + n - 1)) (sw_lib w) = (Inl err, sw_lib w)"
      "get_missing err" using get_past_end [OF assms(1,2) e assms(3)] by blast
    from s3_get_pull_request [OF err(1) assms(3) b] err(2)
    have "s3_get_pull lib (get_at k n off False) w = Some (Inr None, get_at k n off True, w)" by simp
    from yields.yields_done [of "s3_get_pull lib", OF this] e show ?thesis
      by (intro exI [of _ "[]"] exI [of _ "get_at k n off True"]) simp
  next
    case True
    let ?buf = "take n (drop off v)"
    have buf: "?buf \<noteq> []" "length ?buf < 2 ^ 32" using True assms(3,4) by auto
    have pull: "s3_get_pull lib (get_at k n off False) w =
        Some (Inr (Some ?buf), get_at k n (off + length ?buf) (length ?buf < n), w)"
      using s3_get_pull_request [OF get_range [OF assms(1,2) True assms(3)] assms(3) b] buf chunk_from_small [OF buf(2)] by simp
    have step: "yields (s3_get_pull lib) (get_at k n (off + length ?buf) (length ?buf < n)) w cs None s' w \<Longrightarrow>
        yields (s3_get_pull lib) (get_at k n off False) w (?buf # cs) None s' w" for cs s'
      using yields.yields_chunk [of "s3_get_pull lib", OF pull] by blast
    show ?thesis
    proof (cases "length ?buf < n")
      case short: True
      have "s3_get_pull lib (get_at k n (off + length ?buf) True) w = Some (Inr None, get_at k n (off + length ?buf) True, w)"
        by (simp add: s3_get_pull_def)
      from yields.yields_done [of "s3_get_pull lib", OF this]
      have end_yields: "yields (s3_get_pull lib) (get_at k n (off + length ?buf) True) w [] None (get_at k n (off + length ?buf) True) w" .
      have t: "(length ?buf < n) = True" using short by blast
      have "yields (s3_get_pull lib) (get_at k n off False) w [?buf] None (get_at k n (off + length ?buf) True) w"
        by (rule step) (simp only: t end_yields)
      moreover have "?buf = drop off v" using short by (auto simp: min_def split: if_splits)
      ultimately show ?thesis by (intro exI [of _ "[?buf]"] exI) simp
    next
      case False
      then have l: "length ?buf = n" by (auto simp: min_def split: if_splits)
      then have le: "off + n \<le> length v" using True by (auto simp: min_def split: if_splits)
      with assms(3) have "length v - (off + n) < length v - off" by simp
      from less.hyps [OF this le] obtain cs s' where
        "yields (s3_get_pull lib) (get_at k n (off + n) False) w cs None s' w" "concat cs = drop (off + n) v" by blast
      with step [of cs s'] l have "yields (s3_get_pull lib) (get_at k n off False) w (?buf # cs) None s' w \<and>
          concat (?buf # cs) = ?buf @ drop n (drop off v)" by (simp add: add.commute)
      then show ?thesis by (metis append_take_drop_id)
    qed
  qed
qed

text \<open>A stored value is put together again whatever the size of the ranges; if it is empty it reads as absent.\<close>

lemma s3_get_ok:
  assumes "s3_at c bucket healthy self b w" "0 < s3b_chunk_size b" "s3b_chunk_size b < 2 ^ 32"
    and "\<And>v. view (sw_lib w) (resolve_key b key) = Some v \<Longrightarrow> length v + s3b_chunk_size b \<le> 2 ^ 64"
  shows "s3_get lib self key w = Some (Inr (case view (sw_lib w) (resolve_key b key) of
      None \<Rightarrow> None | Some v \<Rightarrow> if v = [] then None else Some v), w)"
proof -
  let ?k = "resolve_key b key" and ?n = "s3b_chunk_size b"
  have at: "sw_objects w self = Some b" "s3b_client b = Some c" "s3b_bucket b = bucket" "healthy (sw_lib w)"
    using assms(1) by (simp_all add: s3_at_def)
  have stream: "s3_stream_get lib self key w = Some (Inr (make_stream_handle (s3_get_pull lib) (get_at ?k ?n 0 False)), w)"
    by (simp add: s3_stream_get_def s3_get_stream_def s3_this_def at get_at_def io_return_def)
  have "\<exists>cs s'. yields (s3_get_pull lib) (get_at ?k ?n 0 False) w cs None s' w \<and>
      concat cs = (case view (sw_lib w) ?k of None \<Rightarrow> [] | Some v \<Rightarrow> v)"
  proof (cases "view (sw_lib w) ?k")
    case None
    obtain err where err: "s3_get_object lib c (ranged_get bucket ?k 0 (0 + ?n - 1)) (sw_lib w) = (Inl err, sw_lib w)"
      "get_missing err" using get_absent [OF at(4) None assms(2), of 0] by auto
    have "s3_get_pull lib (get_at ?k ?n 0 False) w = Some (Inr None, get_at ?k ?n 0 True, w)"
      using s3_get_pull_request [OF err(1) assms(2)] err(2) assms(3) by simp
    from yields.yields_done [of "s3_get_pull lib", OF this] None show ?thesis
      by (intro exI [of _ "[]"] exI [of _ "get_at ?k ?n 0 True"]) simp
  next
    case (Some v)
    from s3_get_yields [OF at(4) Some assms(2,3) assms(4) [OF Some], of 0] Some show ?thesis by simp
  qed
  then obtain cs s' where y: "yields (s3_get_pull lib) (get_at ?k ?n 0 False) w cs None s' w"
    and cs: "concat cs = (case view (sw_lib w) ?k of None \<Rightarrow> [] | Some v \<Rightarrow> v)" by blast
  from collect_string_yields [OF erased_yields [OF y]] cs show ?thesis
    by (simp add: s3_get_def io_bind_def stream split: option.splits)
qed

subsection \<open>Listing\<close>

definition list_at :: "string \<Rightarrow> string \<Rightarrow> bool \<Rightarrow> S3ListStream" where
  "list_at p tok d = \<lparr>ls_client = Some c, ls_bucket = bucket, ls_prefix = p, ls_continuation_token = tok, ls_done = d\<rparr>"

lemma list_at_simps [simp]:
  "ls_client (list_at p tok d) = Some c" "ls_bucket (list_at p tok d) = bucket" "ls_prefix (list_at p tok d) = p"
  "ls_continuation_token (list_at p tok d) = tok" "ls_done (list_at p tok d) = d"
  "(list_at p tok d)\<lparr>ls_done := d'\<rparr> = list_at p tok d'" "(list_at p tok d)\<lparr>ls_continuation_token := tok'\<rparr> = list_at p tok' d"
  by (simp_all add: list_at_def)

definition entry :: "string \<Rightarrow> 'l \<Rightarrow> string \<Rightarrow> KVPair" where
  "entry p l k = KV (drop (length p) k) (the (view l k))"

lemma fetch_page_ok:
  assumes "healthy (sw_lib w)" "\<forall>k\<in>set ks. view (sw_lib w) k \<noteq> None \<and> length p \<le> length k"
  shows "fetch_page lib c bucket p ks pairs w = Some (Inr (pairs @ map (entry p (sw_lib w)) ks), w)"
  using assms(2)
proof (induction ks arbitrary: pairs)
  case Nil
  then show ?case by (simp add: io_return_def)
next
  case (Cons k ks)
  then obtain v where v: "view (sw_lib w) k = Some v" by auto
  from get_whole [OF assms(1) this] have
    "s3_call (s3_get_object lib c \<lparr>gr_bucket = bucket, gr_key = k, gr_version_id = None, gr_range = None\<rparr>) w = (Inr v, w)"
    by (intro s3_call_same) (simp add: plain_get_def)
  with Cons show ?case by (simp add: entry_def v)
qed

lemma list_pull_page:
  assumes "s3_list_objects lib c bucket p (if t \<noteq> [] then Some t else None) (sw_lib w) = (Inr res, sw_lib w)"
    and "healthy (sw_lib w)" "\<forall>k\<in>set (lr_keys res). view (sw_lib w) k \<noteq> None \<and> length p \<le> length k" "length (lr_keys res) < 2 ^ 32"
  shows "s3_list_pull lib (list_at p t False) w =
    (let s1 = (if lr_is_truncated res then list_at p (lr_next_token res) False else list_at p t True) in
     if lr_keys res = [] then Some (Inr None, s1\<lparr>ls_done := True\<rparr>, w)
     else Some (Inr (Some (map (entry p (sw_lib w)) (lr_keys res))), s1, w))"
  using fetch_page_ok [OF assms(2,3), of "[]"] chunk_from_small [of "map (entry p (sw_lib w)) (lr_keys res)"] assms(4)
  by (simp add: s3_list_pull_def s3_call_same [where f = "s3_list_objects lib c bucket p (if t \<noteq> [] then Some t else None)", OF assms(1)] Let_def split del: if_split cong: if_cong)

lemma list_yields:
  assumes "pages lib c bucket p l tok ks" "sw_lib w = l" "healthy l" "\<forall>k\<in>set ks. view l k \<noteq> None \<and> length p \<le> length k"
    and "tok = (if t \<noteq> [] then Some t else None)"
  shows "\<exists>cs s'. yields (s3_list_pull lib) (list_at p t False) w cs None s' w \<and> concat cs = map (entry p l) ks"
  using assms
proof (induction arbitrary: t rule: pages.induct)
  case (last_page tok nt ks)
  have pull: "s3_list_pull lib (list_at p t False) w = (if ks = [] then Some (Inr None, list_at p t True, w)
      else Some (Inr (Some (map (entry p l) ks)), list_at p t True, w))"
    using list_pull_page [of p t w, OF last_page(1) [folded last_page(3), unfolded last_page(6)]] last_page(2-5) by simp
  have fin: "yields (s3_list_pull lib) (list_at p t True) w [] None (list_at p t True) w"
    by (rule yields.yields_done) (simp add: s3_list_pull_def)
  show ?case
  proof (cases "ks = []")
    case True
    with yields.yields_done [of "s3_list_pull lib" "list_at p t False" w "list_at p t True" w] pull show ?thesis
      by (intro exI [of _ "[]"]) auto
  next
    case False
    with yields.yields_chunk [of "s3_list_pull lib" "list_at p t False" w "map (entry p l) ks", OF _ fin] pull show ?thesis
      by (intro exI [of _ "[map (entry p l) ks]"]) auto
  qed
next
  case (more_pages tok nt ks rest)
  have pull: "s3_list_pull lib (list_at p t False) w = Some (Inr (Some (map (entry p l) ks)), list_at p nt False, w)"
    using list_pull_page [of p t w, OF more_pages(1) [folded more_pages(7), unfolded more_pages(10)]] more_pages(3,4,7-9) by simp
  from more_pages.IH [of nt] more_pages(2,7-9) obtain cs s' where
    "yields (s3_list_pull lib) (list_at p nt False) w cs None s' w" "concat cs = map (entry p l) rest" by auto
  with yields.yields_chunk [of "s3_list_pull lib", OF pull] show ?case
    by (intro exI [of _ "map (entry p l) ks # cs"] exI [of _ s']) simp
qed

lemma entries_under:
  "entry (resolve_key b p) l ` {k. prefix (resolve_key b p) k \<and> view l k \<noteq> None} =
    {KV k v | k v. view l (resolve_key b (p @ k)) = Some v}" (is "entry ?p l ` ?S = ?T")
proof (intro set_eqI iffI)
  fix kv assume "kv \<in> entry ?p l ` ?S"
  then obtain r v where "kv = entry ?p l (?p @ r)" "view l (?p @ r) = Some v" by (auto simp: prefix_def)
  then show "kv \<in> ?T" by (simp add: entry_def resolve_key_def)
next
  fix kv assume "kv \<in> ?T"
  then obtain k v where kv: "kv = KV k v" "view l (?p @ k) = Some v" by (auto simp: resolve_key_def)
  then have "kv = entry ?p l (?p @ k)" by (simp add: entry_def)
  with kv(2) show "kv \<in> entry ?p l ` ?S" by auto
qed

text \<open>A scan returns the pairs that have the prefix, in order, under keys without it.\<close>

lemma s3_scan_ok:
  assumes "s3_at c bucket healthy self b w"
  shows "\<exists>kvs. s3_prefix_scan lib self p w = Some (Inr kvs, w) \<and> sorted_wrt (<) (map kv_key kvs) \<and>
    set kvs = {KV k v | k v. view (sw_lib w) (resolve_key b (p @ k)) = Some v}"
proof -
  let ?p = "resolve_key b p" and ?l = "sw_lib w"
  have at: "sw_objects w self = Some b" "s3b_client b = Some c" "s3b_bucket b = bucket" "healthy ?l"
    using assms(1) by (simp_all add: s3_at_def)
  obtain ks where ks: "pages lib c bucket ?p ?l None ks" "sorted_wrt (<) ks" "set ks = {k. prefix ?p k \<and> view ?l k \<noteq> None}"
    using list_ok [OF at(4)] by blast
  from list_yields [OF ks(1) refl at(4), of "[]"] ks(3) obtain cs s' where
    y: "yields (s3_list_pull lib) (list_at ?p [] False) w cs None s' w" and cs: "concat cs = map (entry ?p ?l) ks"
    by (auto dest: prefix_length_le)
  have stream: "s3_stream_scan lib self p w = Some (Inr (make_stream_handle (s3_list_pull lib) (list_at ?p [] False)), w)"
    by (simp add: s3_stream_scan_def s3_this_def at list_at_def io_return_def)
  have "s3_prefix_scan lib self p w = Some (Inr (map (entry ?p ?l) ks), w)"
    using collect_yields [OF erased_yields [OF y]] cs by (simp add: s3_prefix_scan_def io_bind_def stream)
  moreover have "sorted_wrt (<) (map kv_key (map (entry ?p ?l) ks))"
  proof -
    have "kv_key (entry ?p ?l k1) < kv_key (entry ?p ?l k2)" if "k1 \<in> set ks" "k2 \<in> set ks" "k1 < k2" for k1 k2
    proof -
      from that(1,2) ks(3) obtain r1 r2 where "k1 = ?p @ r1" "k2 = ?p @ r2" by (auto simp: prefix_def)
      with that(3) show ?thesis by (simp add: entry_def less_append_same)
    qed
    with ks(2) show ?thesis by (auto simp: sorted_wrt_map intro: sorted_wrt_mono_rel [of ks "(<)"])
  qed
  moreover have "set (map (entry ?p ?l) ks) = {KV k v | k v. view ?l (resolve_key b (p @ k)) = Some v}"
    unfolding set_map ks(3) by (rule entries_under)
  ultimately show ?thesis by blast
qed

subsection \<open>Batches\<close>

lemma s3_put_ok:
  assumes "s3_at c bucket healthy self b w"
  shows "\<exists>w'. s3_put lib self k v w = Some (Inr (), w') \<and> s3_at c bucket healthy self b w' \<and>
    view (sw_lib w') = (view (sw_lib w))(resolve_key b k \<mapsto> v)"
  using assms put_ok [of "sw_lib w" "resolve_key b k" v]
  by (auto simp: s3_at_def s3_put_def s3_put_result_def s3_this_def s3_client_def s3_call_def io_bind_def io_return_def)

lemma s3_del_ok:
  assumes "s3_at c bucket healthy self b w"
  shows "\<exists>w'. s3_del lib self k w = Some (Inr (), w') \<and> s3_at c bucket healthy self b w' \<and>
    view (sw_lib w') = (view (sw_lib w))(resolve_key b k := None)"
  using assms delete_ok [of "sw_lib w" "resolve_key b k"]
  by (auto simp: s3_at_def s3_del_def s3_this_def s3_client_def s3_call_def)

lemma s3_put_loop_ok:
  assumes "s3_at c bucket healthy self b w"
  shows "\<exists>w'. s3_put_loop lib self puts w = Some (Inr (), w') \<and> s3_at c bucket healthy self b w' \<and>
    view (sw_lib w') = fold (\<lambda>(k, v) m. m(resolve_key b k \<mapsto> v)) puts (view (sw_lib w))"
  using assms
proof (induction puts arbitrary: w)
  case (Cons kv puts)
  obtain k v where kv: "kv = (k, v)" by fastforce
  from s3_put_ok [OF Cons.prems, of k v] obtain w1 where w1: "s3_put lib self k v w = Some (Inr (), w1)"
    "s3_at c bucket healthy self b w1" "view (sw_lib w1) = (view (sw_lib w))(resolve_key b k \<mapsto> v)" by blast
  from Cons.IH [OF w1(2)] w1(1,3) show ?case by (simp add: kv io_bind_def)
qed (simp add: io_return_def)

lemma s3_delete_loop_ok:
  assumes "s3_at c bucket healthy self b w"
  shows "\<exists>w'. s3_delete_loop lib c bucket dels w = Some (Inr (), w') \<and> s3_at c bucket healthy self b w' \<and>
    view (sw_lib w') = (\<lambda>k. if k \<in> set dels then None else view (sw_lib w) k)"
  using assms
proof (induction dels arbitrary: w rule: length_induct)
  case (1 dels)
  show ?case
  proof (cases "dels = []")
    case True
    with 1 show ?thesis by (simp add: s3_delete_loop.simps)
  next
    case False
    let ?now = "take 1000 dels"
    have h: "healthy (sw_lib w)" using 1(2) by (simp add: s3_at_def)
    from delete_many_ok [OF h, of ?now] False obtain l' where l': "s3_delete_objects lib c bucket ?now (sw_lib w) = (Inr [], l')"
      "healthy l'" "view l' = (\<lambda>k. if k \<in> set ?now then None else view (sw_lib w) k)" by auto
    have at: "s3_at c bucket healthy self b (w\<lparr>sw_lib := l'\<rparr>)" using 1(2) l'(2) by (simp add: s3_at_def)
    have "length (drop 1000 dels) < length dels" using False by simp
    with 1(1) at obtain w' where w': "s3_delete_loop lib c bucket (drop 1000 dels) (w\<lparr>sw_lib := l'\<rparr>) = Some (Inr (), w')"
      "s3_at c bucket healthy self b w'" "view (sw_lib w') = (\<lambda>k. if k \<in> set (drop 1000 dels) then None else view l' k)" by fastforce
    have "set dels = set ?now \<union> set (drop 1000 dels)" by (metis append_take_drop_id set_append)
    then have "view (sw_lib w') = (\<lambda>k. if k \<in> set dels then None else view (sw_lib w) k)" by (auto simp: w'(3) l'(3))
    with w'(1,2) l'(1) False show ?thesis
      by (subst s3_delete_loop.simps) (simp add: s3_call_def max_keys_per_call_def)
  qed
qed

lemma s3_partition_ok:
  "list_all op_wf ops \<Longrightarrow> s3_partition b ops puts dels =
    Inr (puts @ map (\<lambda>op. (op_key op, the (op_value op))) (puts_of ops), dels @ map (\<lambda>op. resolve_key b (op_key op)) (dels_of ops))"
  by (induction ops arbitrary: puts dels) (auto simp: puts_of_def dels_of_def op_wf_def)

lemma fold_resolved_puts:
  assumes "list_all op_wf ops" "\<forall>op\<in>set ops. op_kind op = put_kind"
  shows "(\<lambda>k. fold (\<lambda>(k, v) m. m(resolve_key b k \<mapsto> v)) (map (\<lambda>op. (op_key op, the (op_value op))) ops) m (resolve_key b k)) =
    fold apply_op ops (\<lambda>k. m (resolve_key b k))"
  using assms
proof (induction ops arbitrary: m)
  case (Cons op ops)
  then obtain v where v: "op_kind op = put_kind" "op_value op = Some v" by (auto simp: op_wf_def)
  have "(\<lambda>k. (m(resolve_key b (op_key op) \<mapsto> v)) (resolve_key b k)) = apply_op op (\<lambda>k. m (resolve_key b k))"
    by (auto simp: apply_op_def v resolve_key_def)
  with Cons show ?case by (simp add: v)
qed simp

lemma fold_dels:
  "\<forall>op\<in>set ops. op_kind op \<noteq> put_kind \<Longrightarrow> fold apply_op ops m = (\<lambda>k. if k \<in> op_key ` set ops then None else m k)"
proof (induction ops arbitrary: m)
  case (Cons op ops)
  then have "op_kind op = del_kind" by (cases "op_kind op") auto
  with Cons show ?case by (auto simp: apply_op_def)
qed simp

text \<open>A batch is all its puts, in their order, and then all its deletes, wherever they stood.\<close>

lemma s3_batch_ok:
  assumes "s3_at c bucket healthy self b w" "list_all op_wf ops"
  shows "\<exists>w'. s3_batch lib self ops w = Some (Inr (), w') \<and> s3_at c bucket healthy self b w' \<and>
    (\<lambda>k. view (sw_lib w') (resolve_key b k)) =
      fold apply_op (puts_of ops @ dels_of ops) (\<lambda>k. view (sw_lib w) (resolve_key b k))"
proof -
  let ?puts = "map (\<lambda>op. (op_key op, the (op_value op))) (puts_of ops)" and ?dels = "map (\<lambda>op. resolve_key b (op_key op)) (dels_of ops)"
  have at: "sw_objects w self = Some b" "s3b_client b = Some c" "s3b_bucket b = bucket" using assms(1) by (simp_all add: s3_at_def)
  obtain w1 where w1: "s3_put_loop lib self ?puts w = Some (Inr (), w1)" "s3_at c bucket healthy self b w1"
    "view (sw_lib w1) = fold (\<lambda>(k, v) m. m(resolve_key b k \<mapsto> v)) ?puts (view (sw_lib w))"
    using s3_put_loop_ok [OF assms(1)] by blast
  obtain w2 where w2: "s3_delete_loop lib c bucket ?dels w1 = Some (Inr (), w2)" "s3_at c bucket healthy self b w2"
    "view (sw_lib w2) = (\<lambda>k. if k \<in> set ?dels then None else view (sw_lib w1) k)"
    using s3_delete_loop_ok [OF w1(2)] by blast
  have "s3_batch lib self ops w = Some (Inr (), w2)"
    using w1(1) w2(1) by (auto simp: s3_batch_def s3_this_def at s3_partition_ok [OF assms(2)] io_bind_def s3_client_def
        s3_delete_loop.simps io_return_def)
  moreover have "(\<lambda>k. view (sw_lib w2) (resolve_key b k)) =
      fold apply_op (puts_of ops @ dels_of ops) (\<lambda>k. view (sw_lib w) (resolve_key b k))"
  proof -
    have p: "list_all op_wf (puts_of ops)" "\<forall>op\<in>set (puts_of ops). op_kind op = put_kind"
      "\<forall>op\<in>set (dels_of ops). op_kind op \<noteq> put_kind"
      using assms(2) by (auto simp: puts_of_def dels_of_def list_all_iff)
    have inj: "resolve_key b k \<in> set ?dels \<longleftrightarrow> k \<in> op_key ` set (dels_of ops)" for k by (auto simp: resolve_key_def)
    have "view (sw_lib w1) (resolve_key b k) = fold apply_op (puts_of ops) (\<lambda>k. view (sw_lib w) (resolve_key b k)) k" for k
      using fun_cong [OF fold_resolved_puts [OF p(1,2), of b "view (sw_lib w)"], of k] by (simp only: w1(3))
    note v1 = this
    show ?thesis by (rule ext) (simp add: fold_dels [OF p(3)] w2(3) inj v1 del: set_map)
  qed
  ultimately show ?thesis using w2(2) by blast
qed

subsection \<open>Uploads in parts\<close>

text \<open>Parts numbered below \<open>n\<close>: what a further part with number \<open>n\<close> adds.\<close>

definition parts_below :: "nat \<Rightarrow> upload_parts \<Rightarrow> (nat \<times> string) list \<Rightarrow> bool" where
  "parts_below n ps tags \<longleftrightarrow> tags_match ps tags \<and> (\<forall>(i, etag)\<in>set tags. i < n)"

lemma parts_below_next:
  assumes "parts_below n ps tags"
  shows "parts_below (n + 1) (ps(n \<mapsto> (etag, body))) (tags @ [(n, etag)])"
    and "named_bytes (ps(n \<mapsto> (etag, body))) (tags @ [(n, etag)]) = named_bytes ps tags @ body"
proof -
  have old: "i < n" if "(i, e) \<in> set tags" for i e using assms that by (auto simp: parts_below_def)
  then show "parts_below (n + 1) (ps(n \<mapsto> (etag, body))) (tags @ [(n, etag)])"
    using assms by (fastforce simp: parts_below_def tags_match_def sorted_wrt_append list_all_iff)
  have "map (\<lambda>(i, e). case (ps(n \<mapsto> (etag, body))) i of None \<Rightarrow> [] | Some (e', b) \<Rightarrow> b) tags =
      map (\<lambda>(i, e). case ps i of None \<Rightarrow> [] | Some (e', b) \<Rightarrow> b) tags"
    using old by (intro map_cong [OF refl]) fastforce
  then show "named_bytes (ps(n \<mapsto> (etag, body))) (tags @ [(n, etag)]) = named_bytes ps tags @ body"
    by (simp add: named_bytes_def del: map_eq_conv)
qed

text \<open>
  The loop: with an error, of the stream or of a part, the upload has been aborted; without, the parts so far
  are the bytes of the chunks.
\<close>

lemma upload_loop_ok:
  assumes "pure_yields stream_pull input cs out input'" "healthy (sw_lib w)" "uploads (sw_lib w) = up(u \<mapsto> (k, ps))"
    and "parts_below n ps tags"
  shows "\<exists>r l'. upload_loop lib c bucket k u tags n input w = Some (r, w\<lparr>sw_lib := l'\<rparr>) \<and> healthy l' \<and>
    view l' = view (sw_lib w) \<and> (case r of
       Inl e \<Rightarrow> uploads l' = up(u := None)
     | Inr tags' \<Rightarrow> out = None \<and> (\<exists>ps'. uploads l' = up(u \<mapsto> (k, ps')) \<and> tags_match ps' tags' \<and>
         named_bytes ps' tags' = named_bytes ps tags @ concat cs))"
  using assms
proof (induction arbitrary: w ps n tags rule: pure_yields.induct)
  case (pure_done s s')
  have "uploads (sw_lib w) = up(u \<mapsto> (k, ps)) \<and> tags_match ps tags"
    using pure_done.prems(3) by (intro conjI pure_done.prems(2)) (simp add: parts_below_def)
  moreover have "upload_loop lib c bucket k u tags n s w = Some (Inr tags, w\<lparr>sw_lib := sw_lib w\<rparr>)"
    using pure_done.hyps by (simp add: upload_loop.simps)
  ultimately show ?case using pure_done.prems(1)
    by (intro exI [of _ "Inr tags"] exI [of _ "sw_lib w"]) (simp only: sum.case concat.simps append_Nil2 simp_thms, blast)
next
  case (pure_err s e s')
  with abort_ok [of "sw_lib w" k u] show ?case
    by (intro exI [of _ "Inl e"] exI [of _ "s3_abort_upload lib c bucket k u (sw_lib w)"]) (auto simp: upload_loop.simps)
next
  case (pure_chunk s c' s1 cs out s')
  have "uploads (sw_lib w) u = Some (k, ps)" using pure_chunk.prems(2) by simp
  from part_ok [OF pure_chunk.prems(1) this, of n c'] obtain r l1 where
    part: "s3_upload_part lib c bucket k u n c' (sw_lib w) = (r, l1)" "healthy l1" "view l1 = view (sw_lib w)"
    "case r of Inl err \<Rightarrow> \<exists>ps'. uploads l1 = (uploads (sw_lib w))(u \<mapsto> (k, ps'))
      | Inr etag \<Rightarrow> uploads l1 = (uploads (sw_lib w))(u \<mapsto> (k, ps(n \<mapsto> (etag, c'))))" by blast
  let ?w1 = "w\<lparr>sw_lib := l1\<rparr>"
  show ?case
  proof (cases r)
    case (Inl err)
    with part(4) pure_chunk.prems(2) have "(uploads l1)(u := None) = up(u := None)" by auto
    with Inl part(1-3) pure_chunk.hyps(1) abort_ok [OF part(2), of k u] show ?thesis
      by (intro exI [of _ "Err ''S3StreamPut'' (se_message err)"] exI [of _ "s3_abort_upload lib c bucket k u l1"])
        (auto simp: upload_loop.simps s3_call_def)
  next
    case (Inr etag)
    with part(4) have up: "uploads (sw_lib ?w1) = up(u \<mapsto> (k, ps(n \<mapsto> (etag, c'))))"
      unfolding pure_chunk.prems(2) fun_upd_upd by (simp add: Inr)
    have "healthy (sw_lib ?w1)" using part(2) by simp
    from pure_chunk.IH [OF this up parts_below_next(1) [OF pure_chunk.prems(3)]] obtain r' l' where rest:
      "upload_loop lib c bucket k u (tags @ [(n, etag)]) (n + 1) s1 ?w1 = Some (r', ?w1\<lparr>sw_lib := l'\<rparr>)"
      "healthy l'" "view l' = view (sw_lib ?w1)" "case r' of Inl e \<Rightarrow> uploads l' = up(u := None)
       | Inr tags' \<Rightarrow> out = None \<and> (\<exists>ps'. uploads l' = up(u \<mapsto> (k, ps')) \<and> tags_match ps' tags' \<and>
         named_bytes ps' tags' = named_bytes ps tags @ concat (c' # cs))"
      unfolding parts_below_next(2) [OF pure_chunk.prems(3)] append_assoc concat.simps by blast
    have "upload_loop lib c bucket k u tags n s w = Some (r', w\<lparr>sw_lib := l'\<rparr>)"
      using Inr part(1) pure_chunk.hyps(1) rest(1)
      by (simp add: upload_loop.simps [of lib c bucket k u tags n s w] s3_call_def)
    with rest(2-4) part(3) show ?thesis by (intro exI [of _ r'] exI [of _ l']) simp
  qed
qed

lemma s3_stream_put_ok:
  assumes "s3_at c bucket healthy self b w" "pure_yields stream_pull input cs out input'"
  shows "\<exists>r w'. s3_stream_put lib self key input w = Some (r, w') \<and> s3_at c bucket healthy self b w' \<and>
    (case r of
       Inr _ \<Rightarrow> out = None \<and> view (sw_lib w') = (view (sw_lib w))(resolve_key b key \<mapsto> concat cs) \<and>
         uploads (sw_lib w') = uploads (sw_lib w)
     | Inl e \<Rightarrow> view (sw_lib w') = view (sw_lib w) \<and> (uploads (sw_lib w') = uploads (sw_lib w) \<or>
         out = None \<and> (\<exists>u ps tags l err. uploads (sw_lib w) u = None \<and>
           uploads (sw_lib w') = (uploads (sw_lib w))(u \<mapsto> (resolve_key b key, ps)) \<and>
           s3_complete_upload lib c bucket (resolve_key b key) u tags l = (Inl err, sw_lib w'))))"
proof -
  let ?k = "resolve_key b key" and ?up = "uploads (sw_lib w)"
  have at: "sw_objects w self = Some b" "s3b_client b = Some c" "s3b_bucket b = bucket" "healthy (sw_lib w)"
    using assms(1) by (simp_all add: s3_at_def)
  have stay: "healthy l \<Longrightarrow> s3_at c bucket healthy self b (w\<lparr>sw_lib := l\<rparr>)" for l using at by (simp add: s3_at_def)
  obtain r0 l0 where create: "s3_create_upload lib c bucket ?k (sw_lib w) = (r0, l0)" "healthy l0" "view l0 = view (sw_lib w)"
    "case r0 of Inl err \<Rightarrow> uploads l0 = ?up | Inr u \<Rightarrow> ?up u = None \<and> uploads l0 = ?up(u \<mapsto> (?k, Map.empty))"
    using create_ok [OF at(4), of ?k] by blast
  show ?thesis
  proof (cases r0)
    case (Inl err)
    with create at stay [OF create(2)] show ?thesis
      by (intro exI [of _ "Err ''S3StreamPut'' (se_message err)"] exI [of _ "w\<lparr>sw_lib := l0\<rparr>"])
        (simp add: s3_stream_put_def s3_this_def s3_client_def s3_call_def)
  next
    case (Inr u)
    with create(4) have u: "?up u = None" and up: "uploads (sw_lib (w\<lparr>sw_lib := l0\<rparr>)) = ?up(u \<mapsto> (?k, Map.empty))"
      by simp_all
    have gone: "?up(u := None) = ?up" using u by auto
    have none: "parts_below 1 Map.empty []" "named_bytes Map.empty [] = []"
      by (simp_all add: parts_below_def tags_match_def named_bytes_def)
    have "healthy (sw_lib (w\<lparr>sw_lib := l0\<rparr>))" using create(2) by simp
    from upload_loop_ok [OF assms(2) this up none(1)] obtain r1 l1 where
      loop: "upload_loop lib c bucket ?k u [] 1 input (w\<lparr>sw_lib := l0\<rparr>) = Some (r1, w\<lparr>sw_lib := l1\<rparr>)"
      "healthy l1" "view l1 = view (sw_lib (w\<lparr>sw_lib := l0\<rparr>))" "case r1 of Inl e \<Rightarrow> uploads l1 = ?up(u := None)
       | Inr tags \<Rightarrow> out = None \<and> (\<exists>ps. uploads l1 = ?up(u \<mapsto> (?k, ps)) \<and> tags_match ps tags \<and> named_bytes ps tags = concat cs)"
      unfolding none(2) append_Nil s3_world.update_convs s3_world.select_convs by auto
    show ?thesis
    proof (cases r1)
      case (Inl e)
      with create(1,3) loop Inr at stay [OF loop(2)] gone show ?thesis
        by (intro exI [of _ "Inl e"] exI [of _ "w\<lparr>sw_lib := l1\<rparr>"])
          (simp add: s3_stream_put_def s3_this_def s3_client_def s3_call_def)
    next
      case tags: (Inr tags)
      with loop(4) obtain ps where ps: "uploads l1 = ?up(u \<mapsto> (?k, ps))" "tags_match ps tags" "named_bytes ps tags = concat cs"
        and out: "out = None" by auto
      from ps(1) have "uploads l1 u = Some (?k, ps)" by simp
      from complete_ok [OF loop(2) this ps(2)] obtain r2 l2 where
        fin: "s3_complete_upload lib c bucket ?k u tags l1 = (r2, l2)" "healthy l2" "case r2 of
           Inl err \<Rightarrow> view l2 = view l1 \<and> uploads l2 = uploads l1
         | Inr _ \<Rightarrow> view l2 = (view l1)(?k \<mapsto> concat cs) \<and> uploads l2 = (uploads l1)(u := None)" unfolding ps(3) by blast
      have "s3_stream_put lib self key input w = Some (case r2 of Inl err \<Rightarrow> Err ''S3StreamPut'' (se_message err) | Inr _ \<Rightarrow> Inr (),
          w\<lparr>sw_lib := l2\<rparr>)"
        using create(1) loop(1) Inr tags at fin(1)
        by (simp add: s3_stream_put_def s3_this_def s3_client_def s3_call_def split: sum.split)
      with fin create(3) loop(3) out stay [OF fin(2)] u gone ps(1) show ?thesis
        by (cases r2) auto
    qed
  qed
qed

end

subsection \<open>A service that is an ordered map\<close>

definition parse_decimal :: "string \<Rightarrow> nat" where
  "parse_decimal s = foldl (\<lambda>a ch. 10 * a + (of_char ch - 48)) 0 s"

definition parse_range :: "string \<Rightarrow> nat \<times> nat" where
  "parse_range s = (let r = drop 6 s in
     (parse_decimal (takeWhile (\<lambda>ch. ch \<noteq> CHR ''-'') r), parse_decimal (tl (dropWhile (\<lambda>ch. ch \<noteq> CHR ''-'') r))))"

lemma parse_decimal_decimal: "parse_decimal (decimal n) = n"
proof (induction n rule: decimal.induct)
  case (1 n)
  have d: "of_char (char_of (48 + m :: nat)) - (48 :: nat) = m" if "m < 10" for m
    using that by (simp add: of_char_of)
  show ?case
  proof (cases "n < 10")
    case True
    then show ?thesis using d [of n] by (subst decimal.simps) (simp add: parse_decimal_def)
  next
    case False
    then have "parse_decimal (decimal n) = 10 * parse_decimal (decimal (n div 10)) + (of_char (char_of (48 + n mod 10 :: nat)) - 48)"
      by (subst decimal.simps) (simp add: parse_decimal_def)
    also have "\<dots> = n" using 1 [OF False] d [of "n mod 10"] by simp
    finally show ?thesis .
  qed
qed

lemma decimal_no_dash: "CHR ''-'' \<notin> set (decimal n)"
proof (induction n rule: decimal.induct)
  case (1 n)
  have d: "char_of (48 + m :: nat) \<noteq> CHR ''-''" if "m < 10" for m
  proof
    assume "char_of (48 + m :: nat) = CHR ''-''"
    then have "of_char (char_of (48 + m :: nat)) = (of_char (CHR ''-'') :: nat)" by simp
    with that show False by (simp add: of_char_of)
  qed
  show ?case using 1 d [of n] d [of "n mod 10"] by (subst decimal.simps) (auto split: if_splits)
qed

lemma parse_byte_range: "parse_range (byte_range a b) = (a, b)"
proof -
  have "takeWhile (\<lambda>ch. ch \<noteq> CHR ''-'') (decimal a @ CHR ''-'' # decimal b) = decimal a"
    "dropWhile (\<lambda>ch. ch \<noteq> CHR ''-'') (decimal a @ CHR ''-'' # decimal b) = CHR ''-'' # decimal b"
    using decimal_no_dash [of a] by (auto simp: takeWhile_append dropWhile_append)
  then show ?thesis by (simp add: parse_range_def byte_range_def parse_decimal_decimal)
qed

record mini_s3 =
  mini_objects :: std_map
  mini_uploads :: "string \<Rightarrow> (string \<times> upload_parts) option"

definition mini_ok :: "mini_s3 \<Rightarrow> bool" where
  "mini_ok l \<longleftrightarrow> map_ok (mini_objects l)"

definition no_such_key :: S3Error where
  "no_such_key = \<lparr>se_code = not_found, se_exception = ''NoSuchKey'', se_message = ''no such key''\<rparr>"

definition bad_range :: S3Error where
  "bad_range = \<lparr>se_code = range_not_satisfiable, se_exception = ''InvalidRange'', se_message = ''not satisfiable''\<rparr>"

definition mini_get :: "GetObjectRequest \<Rightarrow> mini_s3 \<Rightarrow> string outcome \<times> mini_s3" where
  "mini_get req l = ((case map_of (mini_objects l) (gr_key req) of
      None \<Rightarrow> Inl no_such_key
    | Some v \<Rightarrow> (case gr_range req of
        None \<Rightarrow> Inr v
      | Some r \<Rightarrow> (let (a, b) = parse_range r in if a < length v then Inr (take (b + 1 - a) (drop a v)) else Inl bad_range))), l)"

definition mini_after :: "string \<Rightarrow> string option \<Rightarrow> mini_s3 \<Rightarrow> string list" where
  "mini_after p tok l = filter (\<lambda>k. prefix p k \<and> (case tok of None \<Rightarrow> True | Some t \<Rightarrow> t < k)) (map fst (mini_objects l))"

definition mini_list :: "string \<Rightarrow> string option \<Rightarrow> mini_s3 \<Rightarrow> ListResult outcome \<times> mini_s3" where
  "mini_list p tok l = (let ks = mini_after p tok l in
     (Inr (if length ks \<le> 1000 then \<lparr>lr_is_truncated = False, lr_next_token = [], lr_keys = ks\<rparr>
           else \<lparr>lr_is_truncated = True, lr_next_token = last (take 1000 ks), lr_keys = take 1000 ks\<rparr>), l))"

definition mini_put :: "string \<Rightarrow> string \<Rightarrow> mini_s3 \<Rightarrow> mini_s3" where
  "mini_put k v l = l\<lparr>mini_objects := map_assign k v (mini_objects l)\<rparr>"

definition mini_complete :: "string \<Rightarrow> (nat \<times> string) list \<Rightarrow> mini_s3 \<Rightarrow> unit outcome \<times> mini_s3" where
  "mini_complete u tags l = (case mini_uploads l u of
      None \<Rightarrow> (Inl no_such_key, l)
    | Some (k, ps) \<Rightarrow> if tags \<noteq> [] \<and> tags_match ps tags
        then (Inr (), mini_put k (named_bytes ps tags) (l\<lparr>mini_uploads := (mini_uploads l)(u := None)\<rparr>))
        else (Inl no_such_key, l))"

definition mini_lib :: "mini_s3 s3_lib" where
  "mini_lib = \<lparr>s3_get_object = (\<lambda>c. mini_get),
     s3_put_object = (\<lambda>c b k v l. (Inr [], mini_put k v l)),
     s3_delete_object = (\<lambda>c b k l. (Inr (), l\<lparr>mini_objects := map_erase k (mini_objects l)\<rparr>)),
     s3_delete_objects = (\<lambda>c b ks l. (Inr [], l\<lparr>mini_objects := fold map_erase ks (mini_objects l)\<rparr>)),
     s3_list_objects = (\<lambda>c b. mini_list),
     s3_list_versions = (\<lambda>c b p km vm l. (Inl no_such_key, l)),
     s3_create_upload = (\<lambda>c b k l. if mini_uploads l ''u'' \<noteq> None then (Inl no_such_key, l)
       else (Inr ''u'', l\<lparr>mini_uploads := (mini_uploads l)(''u'' \<mapsto> (k, Map.empty))\<rparr>)),
     s3_upload_part = (\<lambda>c b k u n body l. case mini_uploads l u of
        None \<Rightarrow> (Inl no_such_key, l)
      | Some (k, ps) \<Rightarrow> (Inr ''etag'', l\<lparr>mini_uploads := (mini_uploads l)(u \<mapsto> (k, ps(n \<mapsto> (''etag'', body))))\<rparr>)),
     s3_complete_upload = (\<lambda>c b k. mini_complete),
     s3_abort_upload = (\<lambda>c b k u l. l\<lparr>mini_uploads := (mini_uploads l)(u := None)\<rparr>),
     s3_make_client = (\<lambda>p cfg l. (0, l)),
     sts_assume_role = (\<lambda>p arn session ext dur l. (Inl no_such_key, l)),
     s3_stderr = (\<lambda>m l. l)\<rparr>"

lemma fold_map_erase:
  "map_ok m \<Longrightarrow> map_ok (fold map_erase ks m) \<and> map_of (fold map_erase ks m) = (\<lambda>k. if k \<in> set ks then None else map_of m k)"
  by (induction ks arbitrary: m) (auto simp: map_ok_erase map_of_erase)

lemma filter_after_last:
  assumes "sorted_wrt (<) ks" "0 < n" "n \<le> length ks"
  shows "filter (\<lambda>k. last (take n ks) < k) ks = drop n (ks :: string list)"
proof -
  let ?t = "last (take n ks)"
  have ne: "take n ks \<noteq> []" using assms(2,3) by auto
  have split: "take n ks = butlast (take n ks) @ [?t]" by (rule append_butlast_last_id [OF ne, symmetric])
  have s: "sorted_wrt (<) (take n ks @ drop n ks)" using assms(1) by simp
  then have "\<forall>x\<in>set (take n ks). \<forall>y\<in>set (drop n ks). x < y" unfolding sorted_wrt_append by blast
  then have after: "filter (\<lambda>k. ?t < k) (drop n ks) = drop n ks"
    using last_in_set [OF ne] by simp
  have "sorted_wrt (<) (butlast (take n ks) @ [?t])" using s split by (metis sorted_wrt_append)
  then have "\<forall>x\<in>set (butlast (take n ks)). x < ?t" unfolding sorted_wrt_append by simp
  moreover have "set (take n ks) = set (butlast (take n ks)) \<union> {?t}"
    using arg_cong [OF split, of set] by (simp only: set_append list.set)
  ultimately have "\<forall>x\<in>set (take n ks). \<not> ?t < x" by auto
  then have "filter (\<lambda>k. ?t < k) (take n ks) = []" by (simp add: filter_empty_conv)
  with after show ?thesis by (metis append_Nil append_take_drop_id filter_append)
qed

lemma mini_after_more:
  "(\<And>k. t < k \<Longrightarrow> (case tok of None \<Rightarrow> True | Some t' \<Rightarrow> t' < k)) \<Longrightarrow>
    mini_after p (Some t) l = filter (\<lambda>k. t < k) (mini_after p tok l)"
  unfolding mini_after_def filter_filter by (rule filter_cong [OF refl]) auto

lemma mini_pages:
  assumes "mini_ok l"
  shows "pages mini_lib c b p l tok (mini_after p tok l)"
proof (induction "length (mini_after p tok l)" arbitrary: tok rule: less_induct)
  case less
  let ?ks = "mini_after p tok l"
  have sorted: "sorted_wrt (<) ?ks" using assms by (simp add: mini_after_def mini_ok_def map_ok_def sorted_wrt_filter sorted_wrt_map)
  show ?case
  proof (cases "length ?ks \<le> 1000")
    case True
    then show ?thesis
      by (intro pages.last_page [where nt = "[]"]) (simp_all add: mini_lib_def mini_list_def Let_def)
  next
    case False
    let ?t = "last (take 1000 ?ks)"
    have rest: "mini_after p (Some ?t) l = drop 1000 ?ks"
    proof -
      have "filter (\<lambda>k. ?t < k) ?ks = drop 1000 ?ks" using False by (intro filter_after_last [OF sorted]) auto
      moreover have after: "(case tok of None \<Rightarrow> True | Some t \<Rightarrow> t < k)" if "?t < k" for k
      proof -
        have "take 1000 ?ks \<noteq> []" using False by auto
        then have "?t \<in> set ?ks" using last_in_set in_set_takeD by metis
        moreover have "x \<in> set ?ks \<Longrightarrow> (case tok of None \<Rightarrow> True | Some t \<Rightarrow> t < x)" for x by (simp add: mini_after_def)
        ultimately have "(case tok of None \<Rightarrow> True | Some t \<Rightarrow> t < ?t)" by blast
        with that show ?thesis by (auto split: option.splits)
      qed
      moreover have "mini_after p (Some ?t) l = filter (\<lambda>k. ?t < k) ?ks"
        by (rule mini_after_more) (rule after)
      ultimately show ?thesis by simp
    qed
    have "?t \<noteq> []"
    proof -
      have len: "length (take 1000 ?ks) = 1000" using False by simp
      then have "take 1000 ?ks \<noteq> []" by (metis list.size(3) zero_neq_numeral)
      from last_conv_nth [OF this] have "?t = ?ks ! 999" unfolding len by simp
      moreover have "?ks ! 0 < ?ks ! 999" using sorted_wrt_nth_less [OF sorted, of 0 999] False by simp
      ultimately show ?thesis by auto
    qed
    moreover have "pages mini_lib c b p l (Some ?t) (drop 1000 ?ks)"
      using less [of "Some ?t"] False by (simp add: rest)
    ultimately have "pages mini_lib c b p l tok (take 1000 ?ks @ drop 1000 ?ks)"
      using False by (intro pages.more_pages [where nt = ?t]) (auto simp: mini_lib_def mini_list_def Let_def)
    then show ?thesis by simp
  qed
qed

interpretation mini: s3_laws mini_lib c bucket "\<lambda>l. map_of (mini_objects l)" mini_ok mini_uploads for c bucket
proof
  fix l :: mini_s3 and k v a n p u ps body ks tags
  assume ok: "mini_ok l"
  then have m: "map_ok (mini_objects l)" by (simp add: mini_ok_def)
  show "map_of (mini_objects l) k = Some v \<Longrightarrow> s3_get_object mini_lib c (plain_get bucket k) l = (Inr v, l)"
    by (simp add: mini_lib_def mini_get_def plain_get_def)
  show "map_of (mini_objects l) k = Some v \<Longrightarrow> a < length v \<Longrightarrow> 0 < n \<Longrightarrow>
      s3_get_object mini_lib c (ranged_get bucket k a (a + n - 1)) l = (Inr (take n (drop a v)), l)"
    by (simp add: mini_lib_def mini_get_def ranged_get_def parse_byte_range)
  show "map_of (mini_objects l) k = Some v \<Longrightarrow> length v \<le> a \<Longrightarrow> 0 < n \<Longrightarrow>
      \<exists>err. s3_get_object mini_lib c (ranged_get bucket k a (a + n - 1)) l = (Inl err, l) \<and> get_missing err"
    by (simp add: mini_lib_def mini_get_def ranged_get_def parse_byte_range bad_range_def get_missing_def)
  show "map_of (mini_objects l) k = None \<Longrightarrow> 0 < n \<Longrightarrow>
      \<exists>err. s3_get_object mini_lib c (ranged_get bucket k a (a + n - 1)) l = (Inl err, l) \<and> get_missing err"
    by (simp add: mini_lib_def mini_get_def ranged_get_def no_such_key_def get_missing_def)
  show "\<exists>vid l'. s3_put_object mini_lib c bucket k v l = (Inr vid, l') \<and> mini_ok l' \<and>
      map_of (mini_objects l') = (map_of (mini_objects l))(k \<mapsto> v)"
    using m by (simp add: mini_lib_def mini_put_def mini_ok_def map_ok_assign map_of_assign)
  show "\<exists>l'. s3_delete_object mini_lib c bucket k l = (Inr (), l') \<and> mini_ok l' \<and>
      map_of (mini_objects l') = (map_of (mini_objects l))(k := None)"
    using m by (simp add: mini_lib_def mini_ok_def map_ok_erase map_of_erase)
  show "\<exists>l'. s3_delete_objects mini_lib c bucket ks l = (Inr [], l') \<and> mini_ok l' \<and>
      map_of (mini_objects l') = (\<lambda>k. if k \<in> set ks then None else map_of (mini_objects l) k)"
    using fold_map_erase [OF m, of ks] by (simp add: mini_lib_def mini_ok_def)
  show "\<exists>ks. pages mini_lib c bucket p l None ks \<and> sorted_wrt (<) ks \<and> set ks = {k. prefix p k \<and> map_of (mini_objects l) k \<noteq> None}"
    using mini_pages [OF ok, of c bucket p None] m
    by (intro exI [of _ "mini_after p None l"])
      (auto simp: mini_after_def map_ok_def sorted_wrt_filter sorted_wrt_map map_of_eq_None_iff image_iff)
  show "\<exists>r l'. s3_create_upload mini_lib c bucket k l = (r, l') \<and> mini_ok l' \<and> map_of (mini_objects l') = map_of (mini_objects l) \<and>
      (case r of Inl err \<Rightarrow> mini_uploads l' = mini_uploads l
       | Inr u \<Rightarrow> mini_uploads l u = None \<and> mini_uploads l' = (mini_uploads l)(u \<mapsto> (k, Map.empty)))"
    using ok by (cases "mini_uploads l ''u''") (simp_all add: mini_lib_def mini_ok_def)
  show "mini_ok (s3_abort_upload mini_lib c bucket k u l) \<and>
      map_of (mini_objects (s3_abort_upload mini_lib c bucket k u l)) = map_of (mini_objects l) \<and>
      mini_uploads (s3_abort_upload mini_lib c bucket k u l) = (mini_uploads l)(u := None)"
    using ok by (simp add: mini_lib_def mini_ok_def)
  assume up: "mini_uploads l u = Some (k, ps)"
  show "\<exists>r l'. s3_upload_part mini_lib c bucket k u n body l = (r, l') \<and> mini_ok l' \<and>
      map_of (mini_objects l') = map_of (mini_objects l) \<and> (case r of
         Inl err \<Rightarrow> \<exists>ps'. mini_uploads l' = (mini_uploads l)(u \<mapsto> (k, ps'))
       | Inr etag \<Rightarrow> mini_uploads l' = (mini_uploads l)(u \<mapsto> (k, ps(n \<mapsto> (etag, body)))))"
    using ok up by (simp add: mini_lib_def mini_ok_def)
  assume "tags_match ps tags"
  with m up show "\<exists>r l'. s3_complete_upload mini_lib c bucket k u tags l = (r, l') \<and> mini_ok l' \<and> (case r of
         Inl err \<Rightarrow> map_of (mini_objects l') = map_of (mini_objects l) \<and> mini_uploads l' = mini_uploads l
       | Inr _ \<Rightarrow> map_of (mini_objects l') = (map_of (mini_objects l))(k \<mapsto> named_bytes ps tags) \<and>
           mini_uploads l' = (mini_uploads l)(u := None))"
    by (simp add: mini_lib_def mini_complete_def mini_put_def mini_ok_def map_ok_assign map_of_assign)
qed

end
