(* ===== verification/Remote_Properties.thy ===== *)
theory Remote_Properties
  imports S3_Laws
begin

text \<open>
  The properties of the S3 backend.
\<close>

text \<open>A backend object over the small service: table \<open>app/t/\<close>, ranges of two bytes.\<close>

definition s3_table :: S3Backend where
  "s3_table = \<lparr>s3b_client = Some 0, s3b_bucket = ''b'', s3b_key_prefix = ''app/t/'', s3b_chunk_size = 2, s3b_versioning_enabled = False\<rparr>"

definition s3_one :: "std_map \<Rightarrow> mini_s3 s3_world" where
  "s3_one m = \<lparr>sw_objects = [1 \<mapsto> s3_table], sw_next = 2, sw_lib = \<lparr>mini_objects = m, mini_uploads = Map.empty\<rparr>\<rparr>"

lemma s3_one_at: "map_ok m \<Longrightarrow> s3_at 0 ''b'' mini_ok 1 s3_table (s3_one m)"
  by (simp add: s3_at_def s3_one_def s3_table_def mini_ok_def)

text \<open>
  C18: Reading from S3 by ranges puts the stored value together again, whatever the size of the ranges and of the value (below the
  64-bit limit), and a key that is not there reads as absent; but a value that is empty reads as absent, too.
\<close>

theorem s3_ranged_read:
  assumes "s3_laws lib c bucket view healthy uploads" "s3_at c bucket healthy self b w"
    and "0 < s3b_chunk_size b" "s3b_chunk_size b < 2 ^ 32"
    and "\<forall>v\<in>ran (view (sw_lib w)). length v + s3b_chunk_size b \<le> 2 ^ 64"
  shows "s3_get lib self key w = Some (Inr (case view (sw_lib w) (resolve_key b key) of
      None \<Rightarrow> None | Some v \<Rightarrow> if v = [] then None else Some v), w)"
  using assms(5) by (intro s3_laws.s3_get_ok [OF assms(1-4)]) (auto simp: ran_def)

lemma s3_ranged_read_witness:
  "s3_get mini_lib 1 ''k'' (s3_one [(''app/t/k'', ''hello'')]) = Some (Inr (Some ''hello''), s3_one [(''app/t/k'', ''hello'')]) \<and>
   s3_get mini_lib 1 ''e'' (s3_one [(''app/t/e'', [])]) = Some (Inr None, s3_one [(''app/t/e'', [])])"
proof -
  have ok: "map_ok [(''app/t/k'', ''hello'')]" "map_ok [(''app/t/e'', [])]" by (simp_all add: map_ok_def)
  note r = s3_ranged_read [OF mini.s3_laws_axioms s3_one_at]
  have "s3_get mini_lib 1 ''k'' (s3_one [(''app/t/k'', ''hello'')]) = Some (Inr (Some ''hello''), s3_one [(''app/t/k'', ''hello'')])"
    using r [OF ok(1), of "''k''"] by (simp add: s3_one_def s3_table_def resolve_key_def)
  moreover have "s3_get mini_lib 1 ''e'' (s3_one [(''app/t/e'', [])]) = Some (Inr None, s3_one [(''app/t/e'', [])])"
    using r [OF ok(2), of "''e''"] by (simp add: s3_one_def s3_table_def resolve_key_def)
  ultimately show ?thesis ..
qed

text \<open>
  A prefix scan on S3 returns exactly the pairs whose key has the prefix, in byte order, over however many pages the service lists
  them; but under keys that have lost the prefix that was asked for, unlike the scans of every other backend.
\<close>

theorem s3_scan_strips_prefix:
  assumes "s3_laws lib c bucket view healthy uploads" "s3_at c bucket healthy self b w"
  shows "\<exists>kvs. s3_prefix_scan lib self p w = Some (Inr kvs, w) \<and> sorted_wrt (<) (map kv_key kvs) \<and>
    set kvs = {KV k v | k v. view (sw_lib w) (resolve_key b (p @ k)) = Some v}"
  by (rule s3_laws.s3_scan_ok [OF assms])

lemma s3_scan_strips_prefix_witness:
  "\<exists>kvs. s3_prefix_scan mini_lib 1 ''us'' (s3_one [(''app/t/user'', ''x'')]) = Some (Inr kvs, s3_one [(''app/t/user'', ''x'')]) \<and>
    set kvs = {KV ''er'' ''x''}"
proof -
  have "map_ok [(''app/t/user'', ''x'')]" by (simp add: map_ok_def)
  from s3_scan_strips_prefix [OF mini.s3_laws_axioms s3_one_at [OF this], of "''us''"] show ?thesis
    by (auto simp: s3_one_def s3_table_def resolve_key_def)
qed

text \<open>
  A batch on S3 is not its operations in order: it applies all its puts and then all its deletes, so a put after a delete of the
  same key is lost.
\<close>

theorem s3_batch_puts_before_deletes:
  assumes "s3_laws lib c bucket view healthy uploads" "s3_at c bucket healthy self b w" "list_all op_wf ops"
  shows "\<exists>w'. s3_batch lib self ops w = Some (Inr (), w') \<and> s3_at c bucket healthy self b w' \<and>
    (\<lambda>k. view (sw_lib w') (resolve_key b k)) =
      fold apply_op (puts_of ops @ dels_of ops) (\<lambda>k. view (sw_lib w) (resolve_key b k))"
  by (rule s3_laws.s3_batch_ok [OF assms])

lemma s3_batch_puts_before_deletes_witness:
  "\<exists>w'. s3_batch mini_lib 1 [\<lparr>op_kind = del_kind, op_cf_name = [], op_key = ''k'', op_value = None\<rparr>,
      \<lparr>op_kind = put_kind, op_cf_name = [], op_key = ''k'', op_value = Some ''v''\<rparr>] (s3_one []) = Some (Inr (), w') \<and>
    map_of (mini_objects (sw_lib w')) ''app/t/k'' = None"
proof -
  let ?ops = "[\<lparr>op_kind = del_kind, op_cf_name = [], op_key = ''k'', op_value = None\<rparr>,
      \<lparr>op_kind = put_kind, op_cf_name = [], op_key = ''k'', op_value = Some ''v''\<rparr>]"
  have "map_ok []" "list_all op_wf ?ops" by (simp_all add: map_ok_def op_wf_def)
  from s3_batch_puts_before_deletes [OF mini.s3_laws_axioms s3_one_at [OF this(1)] this(2)] obtain w' where
    w': "s3_batch mini_lib 1 ?ops (s3_one []) = Some (Inr (), w')"
    "(\<lambda>k. map_of (mini_objects (sw_lib w')) (resolve_key s3_table k)) = fold apply_op (puts_of ?ops @ dels_of ?ops)
      (\<lambda>k. map_of (mini_objects (sw_lib (s3_one []))) (resolve_key s3_table k))" by blast
  from fun_cong [OF w'(2), of "''k''"] have "map_of (mini_objects (sw_lib w')) ''app/t/k'' = None"
    by (simp add: puts_of_def dels_of_def apply_op_def resolve_key_def s3_table_def)
  with w'(1) show ?thesis by blast
qed

text \<open>
  C19: An upload from a stream takes effect as a whole or not at all. If it reports success, the stream ended, the key holds
  the concatenation of its chunks (numbered parts, in order) and no upload is left open; if it reports an error, every key
  holds what it held. After an error of the stream or of a part the upload has been aborted, so none is left open either;
  only a completion that is refused leaves the upload open with its parts, and the code does not abort it.
\<close>

theorem s3_upload_all_or_nothing:
  assumes "s3_laws lib c bucket view healthy uploads" "s3_at c bucket healthy self b w"
    and "pure_yields stream_pull input cs out input'"
  shows "\<exists>r w'. s3_stream_put lib self key input w = Some (r, w') \<and> s3_at c bucket healthy self b w' \<and>
    (case r of
       Inr _ \<Rightarrow> out = None \<and> view (sw_lib w') = (view (sw_lib w))(resolve_key b key \<mapsto> concat cs) \<and>
         uploads (sw_lib w') = uploads (sw_lib w)
     | Inl e \<Rightarrow> view (sw_lib w') = view (sw_lib w) \<and> (uploads (sw_lib w') = uploads (sw_lib w) \<or>
         out = None \<and> (\<exists>u ps tags l err. uploads (sw_lib w) u = None \<and>
           uploads (sw_lib w') = (uploads (sw_lib w))(u \<mapsto> (resolve_key b key, ps)) \<and>
           s3_complete_upload lib c bucket (resolve_key b key) u tags l = (Inl err, sw_lib w'))))"
  by (rule s3_laws.s3_stream_put_ok [OF assms])

text \<open>A stream that gives two chunks and ends, and one that gives a chunk and then fails.\<close>

definition two_chunks_pull :: "error option \<Rightarrow> ('w, nat, char) pull" where
  "two_chunks_pull out n w = (if n = 0 then Some (Inr (Some ''da''), 1, w)
     else if n = 1 \<and> out = None then Some (Inr (Some ''ta''), 2, w)
     else Some (case out of None \<Rightarrow> Inr None | Some e \<Rightarrow> Inl e, 2, w))"

lemma two_chunks_yields:
  "\<exists>s'. pure_yields stream_pull (make_stream_handle (two_chunks_pull None) 0) [''da'', ''ta''] None s'"
  "\<exists>s'. pure_yields stream_pull (make_stream_handle (two_chunks_pull (Some e)) 0) [''da''] (Some e) s'"
proof -
  have "pure_yields (two_chunks_pull None) 0 [''da'', ''ta''] None 2"
    by (intro pure_chunk [where ?s1.0 = 1] pure_chunk [where ?s1.0 = 2] pure_done) (simp_all add: two_chunks_pull_def)
  from erased_pure_yields [OF this]
  show "\<exists>s'. pure_yields stream_pull (make_stream_handle (two_chunks_pull None) 0) [''da'', ''ta''] None s'" by (rule exI)
  have "pure_yields (two_chunks_pull (Some e)) 0 [''da''] (Some e) 2"
    by (intro pure_chunk [where ?s1.0 = 1] pure_err) (simp_all add: two_chunks_pull_def)
  from erased_pure_yields [OF this]
  show "\<exists>s'. pure_yields stream_pull (make_stream_handle (two_chunks_pull (Some e)) 0) [''da''] (Some e) s'" by (rule exI)
qed

lemma s3_upload_all_or_nothing_witness:
  "(\<exists>r w'. s3_stream_put mini_lib 1 ''k'' (make_stream_handle (two_chunks_pull None) 0) (s3_one []) = Some (r, w') \<and>
    map_of (mini_objects (sw_lib w')) = (case r of Inl e \<Rightarrow> Map.empty | Inr _ \<Rightarrow> [''app/t/k'' \<mapsto> ''data''])) \<and>
   (\<exists>e' w'. s3_stream_put mini_lib 1 ''k'' (make_stream_handle (two_chunks_pull (Some (Error ''Read'' ''lost''))) 0) (s3_one []) = Some (Inl e', w') \<and>
    map_of (mini_objects (sw_lib w')) = Map.empty \<and> mini_uploads (sw_lib w') = Map.empty)"
proof (intro conjI)
  let ?e = "Error ''Read'' ''lost''"
  have "map_ok []" by (simp add: map_ok_def)
  note put = s3_upload_all_or_nothing [OF mini.s3_laws_axioms s3_one_at [OF this]]
  obtain s1 s2 where
    s: "pure_yields stream_pull (make_stream_handle (two_chunks_pull None) 0 :: (mini_s3 s3_world, char) StreamHandle)
      [''da'', ''ta''] None s1"
    "pure_yields stream_pull (make_stream_handle (two_chunks_pull (Some ?e)) 0 :: (mini_s3 s3_world, char) StreamHandle)
      [''da''] (Some ?e) s2"
    using two_chunks_yields by blast
  have start: "map_of (mini_objects (sw_lib (s3_one []))) = Map.empty" "mini_uploads (sw_lib (s3_one [])) = Map.empty"
    by (simp_all add: s3_one_def)
  have key: "resolve_key s3_table ''k'' = ''app/t/k''" by (simp add: resolve_key_def s3_table_def)
  from put [OF s(1), of "''k''", unfolded start key] obtain r w' where
    r: "s3_stream_put mini_lib 1 ''k'' (make_stream_handle (two_chunks_pull None) 0) (s3_one []) = Some (r, w')"
    and c: "case r of Inr _ \<Rightarrow> (None :: error option) = None \<and>
        map_of (mini_objects (sw_lib w')) = Map.empty(''app/t/k'' \<mapsto> concat [''da'', ''ta'']) \<and> mini_uploads (sw_lib w') = Map.empty
      | Inl e \<Rightarrow> map_of (mini_objects (sw_lib w')) = Map.empty \<and> (mini_uploads (sw_lib w') = Map.empty \<or>
        (None :: error option) = None \<and> (\<exists>u ps tags l err. Map.empty u = (None :: (string \<times> upload_parts) option) \<and>
          mini_uploads (sw_lib w') = Map.empty(u \<mapsto> (''app/t/k'', ps)) \<and>
          s3_complete_upload mini_lib 0 ''b'' ''app/t/k'' u tags l = (Inl err, sw_lib w')))" by blast
  from c have "map_of (mini_objects (sw_lib w')) = (case r of Inl e \<Rightarrow> Map.empty | Inr _ \<Rightarrow> [''app/t/k'' \<mapsto> ''data''])"
    by (cases r) simp_all
  with r show "\<exists>r w'. s3_stream_put mini_lib 1 ''k'' (make_stream_handle (two_chunks_pull None) 0) (s3_one []) =
      Some (r, w') \<and> map_of (mini_objects (sw_lib w')) = (case r of Inl e \<Rightarrow> Map.empty | Inr _ \<Rightarrow> [''app/t/k'' \<mapsto> ''data''])"
    by blast
  from put [OF s(2), of "''k''", unfolded start key] obtain r w' where
    r: "s3_stream_put mini_lib 1 ''k'' (make_stream_handle (two_chunks_pull (Some ?e)) 0) (s3_one []) = Some (r, w')"
    and c: "case r of Inr _ \<Rightarrow> Some ?e = None \<and>
        map_of (mini_objects (sw_lib w')) = Map.empty(''app/t/k'' \<mapsto> concat [''da'']) \<and> mini_uploads (sw_lib w') = Map.empty
      | Inl e' \<Rightarrow> map_of (mini_objects (sw_lib w')) = Map.empty \<and> (mini_uploads (sw_lib w') = Map.empty \<or>
        Some ?e = None \<and> (\<exists>u ps tags l err. Map.empty u = (None :: (string \<times> upload_parts) option) \<and>
          mini_uploads (sw_lib w') = Map.empty(u \<mapsto> (''app/t/k'', ps)) \<and>
          s3_complete_upload mini_lib 0 ''b'' ''app/t/k'' u tags l = (Inl err, sw_lib w')))" by blast
  then show "\<exists>e' w'. s3_stream_put mini_lib 1 ''k'' (make_stream_handle (two_chunks_pull (Some ?e)) 0) (s3_one []) = Some (Inl e', w') \<and>
      map_of (mini_objects (sw_lib w')) = Map.empty \<and> mini_uploads (sw_lib w') = Map.empty" by (cases r) auto
qed

end
