(* ===== verification/Qpdf_Backend.thy ===== *)
theory Qpdf_Backend
  imports Kv_Contract "HOL-Library.AList"
begin

text \<open>
  The QPDF backend (\<open>src/backend/qpdf.cpp\<close>, \<open>include/celer/backend/qpdf.hpp\<close>): the tables of a scope are dictionaries of a PDF
  file, under the entry \<open>/CelerKV\<close> of its catalog. libqpdf is a third-party library, and it and the file system are the fields
  of \<open>qpdf_lib\<close>: documents and object handles are numbers, and an operation that throws gives the text of the exception. The
  states of the scopes, which the code shares by counted pointers, are addressed by numbers; the end of a state has no effect but
  to free it, as it does not write the document. Each method runs under the state's mutex as one step.
\<close>

unbundle bit_operations_syntax

subsection \<open>Names\<close>

abbreviation hash_sign :: char where "hash_sign \<equiv> CHR 0x23"

definition is_safe_name_char :: "char \<Rightarrow> bool" where
  "is_safe_name_char c \<longleftrightarrow> (CHR ''a'' \<le> c \<and> c \<le> CHR ''z'') \<or> (CHR ''A'' \<le> c \<and> c \<le> CHR ''Z'') \<or>
     (CHR ''0'' \<le> c \<and> c \<le> CHR ''9'') \<or> c = CHR ''_'' \<or> c = CHR ''-'' \<or> c = CHR ''.''"

definition hex_digits :: string where "hex_digits = ''0123456789ABCDEF''"

definition encode_char :: "char \<Rightarrow> string" where
  "encode_char c = (if is_safe_name_char c then [c]
     else [hash_sign, hex_digits ! (of_char c div 16), hex_digits ! (of_char c mod 16)])"

definition encode_pdf_name :: "string \<Rightarrow> string" where
  "encode_pdf_name key = CHR ''/'' # concat (map encode_char key)"

definition hex_nibble :: "char \<Rightarrow> int" where
  "hex_nibble c =
    (if CHR ''0'' \<le> c \<and> c \<le> CHR ''9'' then of_char c - of_char (CHR ''0'')
     else if CHR ''A'' \<le> c \<and> c \<le> CHR ''F'' then of_char c - of_char (CHR ''A'') + 10
     else if CHR ''a'' \<le> c \<and> c \<le> CHR ''f'' then of_char c - of_char (CHR ''a'') + 10
     else - 1)"

fun decode_chars :: "string \<Rightarrow> string" where
  "decode_chars [] = []"
| "decode_chars (c # cs) =
    (if c = hash_sign \<and> 2 \<le> length cs \<and> 0 \<le> hex_nibble (cs ! 0) \<and> 0 \<le> hex_nibble (cs ! 1)
     then char_of (push_bit 4 (hex_nibble (cs ! 0)) OR hex_nibble (cs ! 1)) # decode_chars (drop 2 cs)
     else c # decode_chars cs)"

definition decode_pdf_name :: "string \<Rightarrow> string" where
  "decode_pdf_name nm = decode_chars (if nm \<noteq> [] \<and> hd nm = CHR ''/'' then tl nm else nm)"

definition qpdf_ident_char :: "char \<Rightarrow> bool" where
  "qpdf_ident_char c \<longleftrightarrow> (CHR ''a'' \<le> c \<and> c \<le> CHR ''z'') \<or> (CHR ''A'' \<le> c \<and> c \<le> CHR ''Z'') \<or>
     (CHR ''0'' \<le> c \<and> c \<le> CHR ''9'') \<or> c = CHR ''_''"

definition qpdf_validate_ident :: "string \<Rightarrow> unit result" where
  "qpdf_validate_ident nm =
    (if nm = [] then Err ''QPDFValidation'' ''identifier must not be empty''
     else if list_all qpdf_ident_char nm then Inr ()
     else Err ''QPDFValidation'' ''identifier contains invalid character: only [a-zA-Z0-9_] allowed'')"

subsection \<open>The library and the world\<close>

record 'l qpdf_lib =
  pd_new :: "'l \<Rightarrow> nat \<times> 'l"
  pd_empty :: "nat \<Rightarrow> 'l \<Rightarrow> 'l"
  pd_process_file :: "nat \<Rightarrow> string \<Rightarrow> 'l \<Rightarrow> string option \<times> 'l"
  pd_write :: "nat \<Rightarrow> string \<Rightarrow> bool \<Rightarrow> 'l \<Rightarrow> string option \<times> 'l"
  pd_root :: "nat \<Rightarrow> 'l \<Rightarrow> nat"
  pd_has_key :: "nat \<Rightarrow> string \<Rightarrow> 'l \<Rightarrow> bool"
  pd_get_key :: "nat \<Rightarrow> string \<Rightarrow> 'l \<Rightarrow> nat"
  pd_get_keys :: "nat \<Rightarrow> 'l \<Rightarrow> string list"
  pd_replace_key :: "nat \<Rightarrow> string \<Rightarrow> nat \<Rightarrow> 'l \<Rightarrow> 'l"
  pd_remove_key :: "nat \<Rightarrow> string \<Rightarrow> 'l \<Rightarrow> 'l"
  pd_new_dictionary :: "'l \<Rightarrow> nat \<times> 'l"
  pd_make_indirect :: "nat \<Rightarrow> nat \<Rightarrow> 'l \<Rightarrow> nat \<times> 'l"
  pd_new_string :: "string \<Rightarrow> 'l \<Rightarrow> nat \<times> 'l"
  pd_is_string :: "nat \<Rightarrow> 'l \<Rightarrow> bool"
  pd_string_value :: "nat \<Rightarrow> 'l \<Rightarrow> string"
  fs_remove :: "string \<Rightarrow> 'l \<Rightarrow> string \<times> 'l"
  fs_rename :: "string \<Rightarrow> string \<Rightarrow> 'l \<Rightarrow> string option \<times> 'l"
  fs_exists :: "string \<Rightarrow> 'l \<Rightarrow> bool"
  fs_create_directories :: "string \<Rightarrow> 'l \<Rightarrow> string option \<times> 'l"
  fs_parent_path :: "string \<Rightarrow> string"

record QPDFScopeState =
  ps_pdf :: "nat option"
  ps_file_path :: string
  ps_dirty :: bool
  ps_linearize :: bool

record QPDFBackend =
  pb_state :: "nat option"
  pb_table_name :: string

record 'l qpdf_world =
  pw_states :: "nat \<Rightarrow> QPDFScopeState option"
  pw_next_state :: nat
  pw_objects :: "nat \<Rightarrow> QPDFBackend option"
  pw_next :: nat
  pw_scope_pdfs :: "(string \<times> nat) list"
  pw_lib :: 'l

definition set_dirty :: "nat \<Rightarrow> bool \<Rightarrow> 'l qpdf_world \<Rightarrow> 'l qpdf_world" where
  "set_dirty s d w = w\<lparr>pw_states := (pw_states w)(s := map_option (\<lambda>st. st\<lparr>ps_dirty := d\<rparr>) (pw_states w s))\<rparr>"

subsection \<open>Writing the file\<close>

text \<open>
  Removing a file leaves in the error code what became of the removal, so the error of a failed rename carries the text of the
  code that the removal of the temporary file left, not of the rename's own.
\<close>

definition atomic_write_pdf :: "'l qpdf_lib \<Rightarrow> nat \<Rightarrow> string \<Rightarrow> bool \<Rightarrow> 'l \<Rightarrow> unit result \<times> 'l" where
  "atomic_write_pdf lib doc path linearize l =
    (let tmp_path = path @ ''.tmp''; (thrown, l1) = pd_write lib doc tmp_path linearize l in
     case thrown of
       Some e \<Rightarrow> (Err ''QPDFWrite'' (''failed to write PDF to '' @ quoted path @ '': '' @ e), snd (fs_remove lib tmp_path l1))
     | None \<Rightarrow> (let (ec, l2) = fs_rename lib tmp_path path l1 in
         case ec of
           Some _ \<Rightarrow> (let (left_over, l3) = fs_remove lib tmp_path l2 in
             (Err ''QPDFWrite'' (''failed to rename temp PDF to '' @ quoted path @ '': '' @ left_over), l3))
         | None \<Rightarrow> (Inr (), l2)))"

definition flush_locked :: "'l qpdf_lib \<Rightarrow> nat \<Rightarrow> ('l qpdf_world, unit) io" where
  "flush_locked lib s w = (case pw_states w s of
      None \<Rightarrow> None
    | Some st \<Rightarrow> (case ps_pdf st of
        None \<Rightarrow> Some (Inr (), w)
      | Some doc \<Rightarrow> if \<not> ps_dirty st then Some (Inr (), w)
          else (let (r, l) = atomic_write_pdf lib doc (ps_file_path st) (ps_linearize st) (pw_lib w);
                    w1 = w\<lparr>pw_lib := l\<rparr> in
            Some (r, if r = Inr () then set_dirty s False w1 else w1))))"

subsection \<open>Streams\<close>

record QPDFGetStream =
  pg_state :: "nat option"
  pg_table_name :: string
  pg_key :: string
  pg_done :: bool
  pg_found :: bool
  pg_cached_value :: "string option"

text \<open>The document that a stream or a backend reads: none if its state is gone.\<close>

definition open_pdf :: "nat option \<Rightarrow> 'l qpdf_world \<Rightarrow> nat option" where
  "open_pdf state w = (case state of None \<Rightarrow> None
    | Some s \<Rightarrow> (case pw_states w s of None \<Rightarrow> None | Some st \<Rightarrow> ps_pdf st))"

text \<open>The string object under a key of a table, if each step of the way is there.\<close>

definition lookup_string :: "'l qpdf_lib \<Rightarrow> nat \<Rightarrow> string \<Rightarrow> string \<Rightarrow> 'l \<Rightarrow> string option" where
  "lookup_string lib doc table_name key l =
    (let root = pd_root lib doc l in
     if \<not> pd_has_key lib root ''/CelerKV'' l then None
     else let celer_kv = pd_get_key lib root ''/CelerKV'' l; table_key = encode_pdf_name table_name in
       if \<not> pd_has_key lib celer_kv table_key l then None
       else let table_dict = pd_get_key lib celer_kv table_key l; pdf_key = encode_pdf_name key in
         if \<not> pd_has_key lib table_dict pdf_key l then None
         else let obj = pd_get_key lib table_dict pdf_key l in
           if pd_is_string lib obj l then Some (pd_string_value lib obj l) else None)"

definition qpdf_get_pull :: "'l qpdf_lib \<Rightarrow> ('l qpdf_world, QPDFGetStream, char) pull" where
  "qpdf_get_pull lib s w =
     (if pg_done s then Some (Inr None, s, w)
      else case pg_cached_value s of
        Some v \<Rightarrow> Some (Inr (Some (chunk_from v)), s\<lparr>pg_done := True\<rparr>, w)
      | None \<Rightarrow> (case open_pdf (pg_state s) w of
          None \<Rightarrow> Some (Err ''QPDFStreamGet'' ''backend is closed'', s, w)
        | Some doc \<Rightarrow> (case lookup_string lib doc (pg_table_name s) (pg_key s) (pw_lib w) of
            None \<Rightarrow> Some (Inr None, s\<lparr>pg_done := True\<rparr>, w)
          | Some v \<Rightarrow> Some (Inr (Some (chunk_from v)), s\<lparr>pg_cached_value := Some v, pg_found := True, pg_done := True\<rparr>, w))))"

record QPDFScanStream =
  pq_state :: "nat option"
  pq_table_name :: string
  pq_prefix :: string
  pq_done :: bool
  pq_snapshot :: "KVPair list option"
  pq_cursor :: nat

definition kChunkSize :: nat where "kChunkSize = 64"

text \<open>The loop over the keys of a table's dictionary.\<close>

fun snapshot_loop :: "'l qpdf_lib \<Rightarrow> nat \<Rightarrow> string \<Rightarrow> string list \<Rightarrow> 'l \<Rightarrow> KVPair list \<Rightarrow> KVPair list" where
  "snapshot_loop lib table_dict pre [] l pairs = pairs"
| "snapshot_loop lib table_dict pre (pdf_key # ks) l pairs =
    (let decoded = decode_pdf_name pdf_key in
     if pre = [] \<or> starts_with decoded pre
     then let obj = pd_get_key lib table_dict pdf_key l in
       if pd_is_string lib obj l
       then snapshot_loop lib table_dict pre ks l (pairs @ [KV decoded (pd_string_value lib obj l)])
       else snapshot_loop lib table_dict pre ks l pairs
     else snapshot_loop lib table_dict pre ks l pairs)"

text \<open>The order of pairs that \<open>std::sort\<close> leaves under equal keys is not determined; \<open>sort_key\<close> keeps the order found.\<close>

definition take_snapshot :: "'l qpdf_lib \<Rightarrow> nat \<Rightarrow> string \<Rightarrow> string \<Rightarrow> 'l \<Rightarrow> KVPair list" where
  "take_snapshot lib doc table_name pre l =
    (let root = pd_root lib doc l in
     if \<not> pd_has_key lib root ''/CelerKV'' l then []
     else let celer_kv = pd_get_key lib root ''/CelerKV'' l; table_key = encode_pdf_name table_name in
       if \<not> pd_has_key lib celer_kv table_key l then []
       else let table_dict = pd_get_key lib celer_kv table_key l in
         sort_key kv_key (snapshot_loop lib table_dict pre (pd_get_keys lib table_dict l) l []))"

definition emit_snapshot :: "KVPair list \<Rightarrow> QPDFScanStream \<Rightarrow> KVPair list option \<times> QPDFScanStream" where
  "emit_snapshot snap s =
    (if length snap \<le> pq_cursor s then (None, s\<lparr>pq_done := True\<rparr>)
     else let end = min (pq_cursor s + kChunkSize) (length snap);
              chunk_data = take (end - pq_cursor s) (drop (pq_cursor s) snap);
              s1 = s\<lparr>pq_cursor := end\<rparr> in
       (Some (chunk_from chunk_data), if length snap \<le> end then s1\<lparr>pq_done := True\<rparr> else s1))"

definition qpdf_scan_pull :: "'l qpdf_lib \<Rightarrow> ('l qpdf_world, QPDFScanStream, KVPair) pull" where
  "qpdf_scan_pull lib s w =
     (if pq_done s then Some (Inr None, s, w)
      else case pq_snapshot s of
        Some snap \<Rightarrow> (let (c, s') = emit_snapshot snap s in Some (Inr c, s', w))
      | None \<Rightarrow> (case open_pdf (pq_state s) w of
          None \<Rightarrow> Some (Err ''QPDFStreamScan'' ''backend is closed'', s, w)
        | Some doc \<Rightarrow>
            (let snap = take_snapshot lib doc (pq_table_name s) (pq_prefix s) (pw_lib w);
                 (c, s') = emit_snapshot snap (s\<lparr>pq_snapshot := Some snap\<rparr>) in Some (Inr c, s', w))))"

subsection \<open>The operations\<close>

definition qpdf_this :: "nat \<Rightarrow> (QPDFBackend \<Rightarrow> ('l qpdf_world, 'a) io) \<Rightarrow> ('l qpdf_world, 'a) io" where
  "qpdf_this self f w = (case pw_objects w self of None \<Rightarrow> None | Some b \<Rightarrow> f b w)"

text \<open>The guard of every method: the state of the scope, its document and the table's name, or the error that it is closed.\<close>

definition if_open :: "string \<Rightarrow> nat \<Rightarrow> (nat \<Rightarrow> nat \<Rightarrow> string \<Rightarrow> ('l qpdf_world, 'a) io) \<Rightarrow> ('l qpdf_world, 'a) io" where
  "if_open code self f = qpdf_this self (\<lambda>b w.
     case (pb_state b, open_pdf (pb_state b) w) of
       (Some s, Some doc) \<Rightarrow> f s doc (pb_table_name b) w
     | _ \<Rightarrow> Some (Err code ''backend is closed'', w))"

text \<open>\<open>get_table_dict_locked\<close>: the table's dictionary, made on first use.\<close>

definition make_dictionary :: "'l qpdf_lib \<Rightarrow> nat \<Rightarrow> nat \<Rightarrow> string \<Rightarrow> 'l \<Rightarrow> nat \<times> 'l" where
  "make_dictionary lib doc parent key l =
    (let (d, l1) = pd_new_dictionary lib l; (d', l2) = pd_make_indirect lib doc d l1
     in (d', pd_replace_key lib parent key d' l2))"

definition get_celer_kv :: "'l qpdf_lib \<Rightarrow> nat \<Rightarrow> 'l \<Rightarrow> nat \<times> 'l" where
  "get_celer_kv lib doc l =
    (let root = pd_root lib doc l in
     if pd_has_key lib root ''/CelerKV'' l then (pd_get_key lib root ''/CelerKV'' l, l)
     else make_dictionary lib doc root ''/CelerKV'' l)"

definition get_table_dict :: "'l qpdf_lib \<Rightarrow> nat \<Rightarrow> nat \<Rightarrow> string \<Rightarrow> 'l qpdf_world \<Rightarrow> nat \<times> 'l qpdf_world" where
  "get_table_dict lib s doc table_name w =
    (let (celer_kv, l1) = get_celer_kv lib doc (pw_lib w); table_key = encode_pdf_name table_name in
     if pd_has_key lib celer_kv table_key l1 then (pd_get_key lib celer_kv table_key l1, w\<lparr>pw_lib := l1\<rparr>)
     else let (table_dict, l2) = make_dictionary lib doc celer_kv table_key l1
       in (table_dict, set_dirty s True (w\<lparr>pw_lib := l2\<rparr>)))"

definition put_string :: "'l qpdf_lib \<Rightarrow> nat \<Rightarrow> nat \<Rightarrow> string \<Rightarrow> string \<Rightarrow> 'l qpdf_world \<Rightarrow> 'l qpdf_world" where
  "put_string lib s table_dict key val w =
    (let (obj, l1) = pd_new_string lib val (pw_lib w);
         l2 = pd_replace_key lib table_dict (encode_pdf_name key) obj l1
     in set_dirty s True (w\<lparr>pw_lib := l2\<rparr>))"

definition remove_string :: "'l qpdf_lib \<Rightarrow> nat \<Rightarrow> nat \<Rightarrow> string \<Rightarrow> 'l qpdf_world \<Rightarrow> 'l qpdf_world" where
  "remove_string lib s table_dict key w =
    set_dirty s True (w\<lparr>pw_lib := pd_remove_key lib table_dict (encode_pdf_name key) (pw_lib w)\<rparr>)"

definition qpdf_stream_get :: "'l qpdf_lib \<Rightarrow> nat \<Rightarrow> string \<Rightarrow> ('l qpdf_world, ('l qpdf_world, char) StreamHandle) io" where
  "qpdf_stream_get lib self key = if_open ''QPDFStreamGet'' self (\<lambda>s doc tbl. io_return (make_stream_handle (qpdf_get_pull lib)
     \<lparr>pg_state = Some s, pg_table_name = tbl, pg_key = key, pg_done = False, pg_found = False, pg_cached_value = None\<rparr>))"

definition qpdf_stream_scan :: "'l qpdf_lib \<Rightarrow> nat \<Rightarrow> string \<Rightarrow> ('l qpdf_world, ('l qpdf_world, KVPair) StreamHandle) io" where
  "qpdf_stream_scan lib self pre = if_open ''QPDFStreamScan'' self (\<lambda>s doc tbl. io_return (make_stream_handle (qpdf_scan_pull lib)
     \<lparr>pq_state = Some s, pq_table_name = tbl, pq_prefix = pre, pq_done = False, pq_snapshot = None, pq_cursor = 0\<rparr>))"

definition qpdf_get :: "'l qpdf_lib \<Rightarrow> nat \<Rightarrow> string \<Rightarrow> ('l qpdf_world, string option) io" where
  "qpdf_get lib self key = io_bind (qpdf_stream_get lib self key) (\<lambda>s w. case collect_string stream_pull s w of
      None \<Rightarrow> None
    | Some (Inl e, _, w') \<Rightarrow> Some (Inl e, w')
    | Some (Inr collected, _, w') \<Rightarrow> Some (Inr (if collected = [] then None else Some collected), w'))"

definition qpdf_put :: "'l qpdf_lib \<Rightarrow> nat \<Rightarrow> string \<Rightarrow> string \<Rightarrow> ('l qpdf_world, unit) io" where
  "qpdf_put lib self key val = if_open ''QPDFPut'' self (\<lambda>s doc tbl w.
     let (table_dict, w1) = get_table_dict lib s doc tbl w
     in flush_locked lib s (put_string lib s table_dict key val w1))"

definition qpdf_del :: "'l qpdf_lib \<Rightarrow> nat \<Rightarrow> string \<Rightarrow> ('l qpdf_world, unit) io" where
  "qpdf_del lib self key = if_open ''QPDFDel'' self (\<lambda>s doc tbl w.
     let (table_dict, w1) = get_table_dict lib s doc tbl w in
     if pd_has_key lib table_dict (encode_pdf_name key) (pw_lib w1)
     then flush_locked lib s (remove_string lib s table_dict key w1)
     else Some (Inr (), w1))"

definition qpdf_prefix_scan :: "'l qpdf_lib \<Rightarrow> nat \<Rightarrow> string \<Rightarrow> ('l qpdf_world, KVPair list) io" where
  "qpdf_prefix_scan lib self pre = io_bind (qpdf_stream_scan lib self pre) (\<lambda>s w. case collect stream_pull s w of
      None \<Rightarrow> None
    | Some (r, _, w') \<Rightarrow> Some (r, w'))"

fun qpdf_batch_loop :: "'l qpdf_lib \<Rightarrow> nat \<Rightarrow> nat \<Rightarrow> BatchOp list \<Rightarrow> ('l qpdf_world, unit) io" where
  "qpdf_batch_loop lib s table_dict [] w = Some (Inr (), w)"
| "qpdf_batch_loop lib s table_dict (op # ops) w =
    (if op_kind op = put_kind then
       (case op_value op of
          None \<Rightarrow> Some (Err ''StoreBatch'' ''put op missing value'', w)
        | Some v \<Rightarrow> qpdf_batch_loop lib s table_dict ops (put_string lib s table_dict (op_key op) v w))
     else if pd_has_key lib table_dict (encode_pdf_name (op_key op)) (pw_lib w)
       then qpdf_batch_loop lib s table_dict ops (remove_string lib s table_dict (op_key op) w)
       else qpdf_batch_loop lib s table_dict ops w)"

definition qpdf_batch :: "'l qpdf_lib \<Rightarrow> nat \<Rightarrow> BatchOp list \<Rightarrow> ('l qpdf_world, unit) io" where
  "qpdf_batch lib self ops = if_open ''QPDFBatch'' self (\<lambda>s doc tbl w.
     let (table_dict, w1) = get_table_dict lib s doc tbl w
     in io_bind (qpdf_batch_loop lib s table_dict ops) (\<lambda>_. flush_locked lib s) w1)"

definition qpdf_compact :: "'l qpdf_lib \<Rightarrow> nat \<Rightarrow> ('l qpdf_world, unit) io" where
  "qpdf_compact lib self = if_open ''QPDFCompact'' self (\<lambda>s doc tbl w. flush_locked lib s (set_dirty s True w))"

definition qpdf_foreach_scan :: "'l qpdf_lib \<Rightarrow> nat \<Rightarrow> string \<Rightarrow> 'l qpdf_world ScanVisitor \<Rightarrow> ('l qpdf_world, unit) io" where
  "qpdf_foreach_scan lib self pre visitor = io_bind (qpdf_stream_scan lib self pre) (\<lambda>s w.
     case stream_drain (\<lambda>kv. visitor (kv_key kv) (kv_value kv)) stream_pull s w of
       None \<Rightarrow> None
     | Some (r, _, w') \<Rightarrow> Some (r, w'))"

definition qpdf_stream_put :: "'l qpdf_lib \<Rightarrow> nat \<Rightarrow> string \<Rightarrow> ('l qpdf_world, char) StreamHandle \<Rightarrow> ('l qpdf_world, unit) io" where
  "qpdf_stream_put lib self key input w = (case collect_string stream_pull input w of
      None \<Rightarrow> None
    | Some (Inl e, _, w') \<Rightarrow> Some (Inl e, w')
    | Some (Inr collected, _, w') \<Rightarrow> qpdf_put lib self key collected w')"

definition qpdf_close :: "'l qpdf_lib \<Rightarrow> nat \<Rightarrow> ('l qpdf_world, unit) io" where
  "qpdf_close lib self = qpdf_this self (\<lambda>b w. case pb_state b of
      None \<Rightarrow> Some (Inr (), w)
    | Some s \<Rightarrow> (case flush_locked lib s w of
        None \<Rightarrow> None
      | Some (r, w1) \<Rightarrow> Some (r, w1\<lparr>pw_objects := (pw_objects w1)(self \<mapsto> b\<lparr>pb_state := None\<rparr>)\<rparr>)))"

definition qpdf_delete :: "'l qpdf_lib \<Rightarrow> nat \<Rightarrow> 'l qpdf_world \<Rightarrow> 'l qpdf_world" where
  "qpdf_delete lib self w = (case qpdf_close lib self w of
      None \<Rightarrow> w
    | Some (_, w1) \<Rightarrow> w1\<lparr>pw_objects := (pw_objects w1)(self := None)\<rparr>)"

definition qpdf_backend :: "'l qpdf_lib \<Rightarrow> 'l qpdf_world StorageBackend" where
  "qpdf_backend lib =
    \<lparr>b_get = qpdf_get lib, b_put = qpdf_put lib, b_del = qpdf_del lib,
     b_prefix_scan = qpdf_prefix_scan lib, b_batch = qpdf_batch lib, b_compact = qpdf_compact lib,
     b_foreach_scan = qpdf_foreach_scan lib, b_stream_get = qpdf_stream_get lib,
     b_stream_put = qpdf_stream_put lib, b_stream_scan = qpdf_stream_scan lib,
     b_get_many = None, b_delete = qpdf_delete lib\<rparr>"

subsection \<open>Opening\<close>

record QpdfConfig =
  pc_path :: string
  pc_create_if_missing :: bool
  pc_linearize :: bool

definition default_qpdf_config :: QpdfConfig where
  "default_qpdf_config = \<lparr>pc_path = [], pc_create_if_missing = True, pc_linearize = False\<rparr>"

text \<open>The new state is entered before the document is opened or made; when that fails it is unreachable, as nothing refers to it.\<close>

definition open_document :: "'l qpdf_lib \<Rightarrow> QpdfConfig \<Rightarrow> string \<Rightarrow> ('l qpdf_world, nat) io" where
  "open_document lib config pdf_path w =
    (let s = pw_next_state w; (doc, l) = pd_new lib (pw_lib w);
         st = \<lparr>ps_pdf = Some doc, ps_file_path = pdf_path, ps_dirty = False, ps_linearize = pc_linearize config\<rparr>;
         w1 = w\<lparr>pw_states := (pw_states w)(s \<mapsto> st), pw_next_state := s + 1, pw_lib := l\<rparr> in
     if fs_exists lib pdf_path l then
       (let (thrown, l1) = pd_process_file lib doc pdf_path l; w2 = w1\<lparr>pw_lib := l1\<rparr> in
        case thrown of
          Some e \<Rightarrow> Some (Err ''QPDFOpen'' (''failed to open PDF '' @ quoted pdf_path @ '': '' @ e), w2)
        | None \<Rightarrow> Some (Inr s, w2))
     else if pc_create_if_missing config then
       io_bind (flush_locked lib s) (\<lambda>_. io_return s) (set_dirty s True (w1\<lparr>pw_lib := pd_empty lib doc l\<rparr>))
     else Some (Err ''QPDFOpen'' (''PDF file '' @ quoted pdf_path @ '' does not exist and create_if_missing is false''), w1))"

definition open_scope_pdf :: "'l qpdf_lib \<Rightarrow> QpdfConfig \<Rightarrow> string \<Rightarrow> ('l qpdf_world, nat) io" where
  "open_scope_pdf lib config pdf_path w =
    (let parent = fs_parent_path lib pdf_path in
     if parent = [] then open_document lib config pdf_path w
     else let (ec, l) = fs_create_directories lib parent (pw_lib w); w1 = w\<lparr>pw_lib := l\<rparr> in
       case ec of
         Some m \<Rightarrow> Some (Err ''QPDFOpen'' (''failed to create directory '' @ quoted parent @ '': '' @ m), w1)
       | None \<Rightarrow> open_document lib config pdf_path w1)"

definition qpdf_open_table :: "'l qpdf_lib \<Rightarrow> nat \<Rightarrow> string \<Rightarrow> ('l qpdf_world, 'l qpdf_world BackendHandle) io" where
  "qpdf_open_table lib s tbl = io_bind (io_lift (qpdf_validate_ident tbl)) (\<lambda>_ w.
     let backend = pw_next w in
     Some (Inr (make_backend_handle (qpdf_backend lib) backend),
       w\<lparr>pw_objects := (pw_objects w)(backend \<mapsto> \<lparr>pb_state = Some s, pb_table_name = tbl\<rparr>), pw_next := backend + 1\<rparr>))"

definition scope_state :: "'l qpdf_lib \<Rightarrow> QpdfConfig \<Rightarrow> string \<Rightarrow> ('l qpdf_world, nat) io" where
  "scope_state lib c scope w = (case map_of (pw_scope_pdfs w) scope of
      Some s \<Rightarrow> Some (Inr s, w)
    | None \<Rightarrow> io_bind (open_scope_pdf lib c (pc_path c @ ''/'' @ scope @ ''.pdf'')) (\<lambda>s w1.
        Some (Inr s, w1\<lparr>pw_scope_pdfs := AList.update scope s (pw_scope_pdfs w1)\<rparr>)) w)"

definition qpdf_factory :: "'l qpdf_lib \<Rightarrow> QpdfConfig \<Rightarrow> 'l qpdf_world BackendFactory" where
  "qpdf_factory lib c scope table =
     io_bind (io_lift (qpdf_validate_ident scope)) (\<lambda>_.
     io_bind (scope_state lib c scope) (\<lambda>s. qpdf_open_table lib s table))"

definition qpdf_factory_unavailable :: "QpdfConfig \<Rightarrow> 'w BackendFactory" where
  "qpdf_factory_unavailable cfg scope table = io_throw (Error ''NotAvailable'' ''compiled without QPDF support'')"

end
