(* ===== verification/Qpdf_Laws.thy ===== *)
theory Qpdf_Laws
  imports Qpdf_Backend Memory_Backend
begin

text \<open>
  What the QPDF backend does over a library that keeps what it documents: names decode as they were encoded; a table is a map
  from keys to strings, separate from the other tables of its file; a write changes the document in memory and then
  replaces the file as a whole or leaves it.
\<close>

subsection \<open>Names\<close>

lemma hex_digit_nibble: "n < 16 \<Longrightarrow> hex_nibble (hex_digits ! n) = int n"
proof -
  assume "n < 16"
  then have "n \<in> set [0..<16]" by simp
  moreover have "\<forall>n\<in>set [0..<16]. hex_nibble (hex_digits ! n) = int n" by code_simp
  ultimately show ?thesis by blast
qed

lemma join_nibbles: "a < 16 \<Longrightarrow> b < 16 \<Longrightarrow> (push_bit 4 (int a) OR int b) = int (16 * a + b)"
proof -
  assume b: "b < 16" "a < 16"
  have "(push_bit 4 (int a) OR int b) = push_bit 4 (int a) + int b"
  proof (rule disjunctive_add [symmetric])
    fix n
    have "bit (int b) n \<Longrightarrow> n < 4"
      using b bit_take_bit_iff [of 4 "int b" n] by (simp add: take_bit_eq_mod)
    then show "\<not> bit (push_bit 4 (int a)) n \<or> \<not> bit (int b) n" by (auto simp: bit_push_bit_iff)
  qed
  then show ?thesis by (simp add: push_bit_eq_mult)
qed

lemma safe_not_hash: "is_safe_name_char c \<Longrightarrow> c \<noteq> hash_sign"
  by (auto simp: is_safe_name_char_def)

lemma decode_encode_char: "decode_chars (encode_char c @ cs) = c # decode_chars cs"
proof (cases "is_safe_name_char c")
  case True
  then show ?thesis by (simp add: encode_char_def safe_not_hash)
next
  case False
  let ?n = "of_char c :: nat"
  have n: "?n div 16 < 16" "?n mod 16 < 16" by (simp_all add: less_mult_imp_div_less)
  then have "char_of (push_bit 4 (int (?n div 16)) OR int (?n mod 16)) = c"
    by (simp add: join_nibbles del: of_nat_add of_nat_mult)
  with False n show ?thesis by (simp add: encode_char_def hex_digit_nibble)
qed

lemma decode_encode_chars: "decode_chars (concat (map encode_char key)) = key"
  by (induction key) (simp_all add: decode_encode_char)

lemma decode_encode_name [simp]: "decode_pdf_name (encode_pdf_name key) = key"
  by (simp add: decode_pdf_name_def encode_pdf_name_def decode_encode_chars)

lemma encode_name_eq [simp]: "encode_pdf_name a = encode_pdf_name b \<longleftrightarrow> a = b"
  by (metis decode_encode_name)

lemma encoded_chars: "list_all (\<lambda>c. is_safe_name_char c \<or> c = hash_sign) (tl (encode_pdf_name key))"
proof -
  have "\<forall>n\<in>set [0..<16]. is_safe_name_char (hex_digits ! n)" by code_simp
  then have "is_safe_name_char (hex_digits ! n)" if "n < 16" for n using that by simp
  moreover have "(of_char c :: nat) div 16 < 16" for c by (simp add: less_mult_imp_div_less)
  ultimately have "list_all (\<lambda>c. is_safe_name_char c \<or> c = hash_sign) (encode_char c)" for c
    by (simp add: encode_char_def)
  then show ?thesis by (simp add: encode_pdf_name_def list_all_iff)
qed

subsection \<open>The library\<close>

text \<open>
  \<open>dict\<close> and \<open>str\<close> say which handles are dictionaries and which are strings; \<open>saved\<close> what the file under a path holds: the strings
  of each table. A document is sound for the backend if its tables are distinct dictionaries of strings under encoded names.
\<close>

definition table_ok :: "(nat \<Rightarrow> 'l \<Rightarrow> (string \<Rightarrow> nat option) option) \<Rightarrow> (nat \<Rightarrow> 'l \<Rightarrow> string option) \<Rightarrow> nat \<Rightarrow> 'l \<Rightarrow> bool" where
  "table_ok dict str d l \<longleftrightarrow> (\<exists>m. dict d l = Some m \<and> (\<forall>k h. m k = Some h \<longrightarrow> str h l \<noteq> None \<and> k \<in> range encode_pdf_name))"

definition tables_ok :: "(nat \<Rightarrow> 'l \<Rightarrow> (string \<Rightarrow> nat option) option) \<Rightarrow> (nat \<Rightarrow> 'l \<Rightarrow> string option) \<Rightarrow> nat \<Rightarrow> nat \<Rightarrow> 'l \<Rightarrow> bool" where
  "tables_ok dict str root kv l \<longleftrightarrow> kv \<noteq> root \<and> (\<exists>km. dict kv l = Some km \<and> inj_on km (dom km) \<and>
     (\<forall>t d. km t = Some d \<longrightarrow> d \<noteq> root \<and> d \<noteq> kv \<and> table_ok dict str d l))"

definition doc_ok :: "(nat \<Rightarrow> 'l \<Rightarrow> (string \<Rightarrow> nat option) option) \<Rightarrow> (nat \<Rightarrow> 'l \<Rightarrow> string option) \<Rightarrow> nat \<Rightarrow> 'l \<Rightarrow> bool" where
  "doc_ok dict str root l \<longleftrightarrow> (\<exists>rm. dict root l = Some rm \<and> (\<forall>kv. rm ''/CelerKV'' = Some kv \<longrightarrow> tables_ok dict str root kv l))"

definition unchanged :: "'l qpdf_lib \<Rightarrow> (nat \<Rightarrow> 'l \<Rightarrow> (string \<Rightarrow> nat option) option) \<Rightarrow> (nat \<Rightarrow> 'l \<Rightarrow> string option) \<Rightarrow>
    (string \<Rightarrow> 'l \<Rightarrow> (string \<Rightarrow> contents) option) \<Rightarrow> nat set \<Rightarrow> string set \<Rightarrow> 'l \<Rightarrow> 'l \<Rightarrow> bool" where
  "unchanged lib dict str saved hs ps l l' \<longleftrightarrow> (\<forall>x. x \<notin> hs \<longrightarrow> dict x l' = dict x l \<and> str x l' = str x l) \<and>
     (\<forall>doc. pd_root lib doc l' = pd_root lib doc l) \<and> (\<forall>p. p \<notin> ps \<longrightarrow> saved p l' = saved p l)"

text \<open>
  A backend object open on a table of a document. The state is in step with its file: unless it is marked, the file holds what
  the document holds.
\<close>

definition qpdf_at :: "'l qpdf_lib \<Rightarrow> (nat \<Rightarrow> 'l \<Rightarrow> (string \<Rightarrow> nat option) option) \<Rightarrow> (nat \<Rightarrow> 'l \<Rightarrow> string option) \<Rightarrow>
    (string \<Rightarrow> 'l \<Rightarrow> (string \<Rightarrow> contents) option) \<Rightarrow> nat \<Rightarrow> string \<Rightarrow> nat \<Rightarrow> string \<Rightarrow> 'l qpdf_world \<Rightarrow> bool" where
  "qpdf_at lib dict str saved self t doc path w \<longleftrightarrow> (\<exists>s st. pw_objects w self = Some \<lparr>pb_state = Some s, pb_table_name = t\<rparr> \<and>
     pw_states w s = Some st \<and> ps_pdf st = Some doc \<and> ps_file_path st = path \<and> doc_ok dict str (pd_root lib doc (pw_lib w)) (pw_lib w) \<and>
     (\<not> ps_dirty st \<longrightarrow> saved path (pw_lib w) = Some (\<lambda>t k. lookup_string lib doc t k (pw_lib w))))"

locale qpdf_laws =
  fixes lib :: "'l qpdf_lib" and dict :: "nat \<Rightarrow> 'l \<Rightarrow> (string \<Rightarrow> nat option) option" and str :: "nat \<Rightarrow> 'l \<Rightarrow> string option"
    and saved :: "string \<Rightarrow> 'l \<Rightarrow> (string \<Rightarrow> contents) option"
  assumes has_key: "dict d l = Some m \<Longrightarrow> pd_has_key lib d k l \<longleftrightarrow> m k \<noteq> None"
    and get_key: "dict d l = Some m \<Longrightarrow> m k = Some h \<Longrightarrow> pd_get_key lib d k l = h"
    and get_keys: "dict d l = Some m \<Longrightarrow> distinct (pd_get_keys lib d l) \<and> set (pd_get_keys lib d l) = dom m"
    and is_string: "pd_is_string lib h l \<longleftrightarrow> str h l \<noteq> None"
    and string_value: "str h l = Some v \<Longrightarrow> pd_string_value lib h l = v"
    and kinds: "dict h l \<noteq> None \<Longrightarrow> str h l = None"
    and replace_ok: "dict d l = Some m \<Longrightarrow> dict d (pd_replace_key lib d k h l) = Some (m(k \<mapsto> h)) \<and>
      unchanged lib dict str saved {d} {} l (pd_replace_key lib d k h l)"
    and remove_ok: "dict d l = Some m \<Longrightarrow> dict d (pd_remove_key lib d k l) = Some (m(k := None)) \<and>
      unchanged lib dict str saved {d} {} l (pd_remove_key lib d k l)"
    and new_dictionary_ok: "pd_new_dictionary lib l = (d, l') \<Longrightarrow> dict d l = None \<and> str d l = None \<and> dict d l' = Some Map.empty \<and>
      unchanged lib dict str saved {d} {} l l'"
    and make_indirect_ok: "pd_make_indirect lib doc d l = (d', l') \<Longrightarrow> dict d l = Some m \<Longrightarrow>
      (d' = d \<or> dict d' l = None \<and> str d' l = None) \<and> dict d' l' = Some m \<and> unchanged lib dict str saved {d'} {} l l'"
    and new_string_ok: "pd_new_string lib v l = (h, l') \<Longrightarrow> dict h l = None \<and> str h l = None \<and> str h l' = Some v \<and>
      unchanged lib dict str saved {h} {} l l'"
    and write_ok: "pd_write lib doc p lin l = (thrown, l') \<Longrightarrow> doc_ok dict str (pd_root lib doc l) l \<Longrightarrow>
      unchanged lib dict str saved {} {p} l l' \<and> (thrown = None \<longrightarrow> saved p l' = Some (\<lambda>t k. lookup_string lib doc t k l))"
    and rename_ok: "fs_rename lib a b l = (ec, l') \<Longrightarrow>
      (ec = None \<longrightarrow> saved b l' = saved a l \<and> unchanged lib dict str saved {} {a, b} l l') \<and>
      (ec \<noteq> None \<longrightarrow> unchanged lib dict str saved {} {} l l')"
    and remove_file_ok: "unchanged lib dict str saved {} {p} l (snd (fs_remove lib p l))"
begin

definition kv_of :: "nat \<Rightarrow> 'l \<Rightarrow> nat option" where
  "kv_of doc l = Option.bind (dict (pd_root lib doc l) l) (\<lambda>rm. rm ''/CelerKV'')"

definition table_of :: "nat \<Rightarrow> string \<Rightarrow> 'l \<Rightarrow> nat option" where
  "table_of doc t l = Option.bind (kv_of doc l) (\<lambda>kv. Option.bind (dict kv l) (\<lambda>km. km (encode_pdf_name t)))"

definition strings_of :: "nat \<Rightarrow> 'l \<Rightarrow> contents" where
  "strings_of d l k = Option.bind (dict d l) (\<lambda>m. Option.bind (m (encode_pdf_name k)) (\<lambda>h. str h l))"

abbreviation sound :: "nat \<Rightarrow> 'l \<Rightarrow> bool" where "sound doc l \<equiv> doc_ok dict str (pd_root lib doc l) l"

lemma soundE:
  assumes "sound doc l"
  obtains rm where "dict (pd_root lib doc l) l = Some rm" "kv_of doc l = rm ''/CelerKV''"
    "\<forall>kv. rm ''/CelerKV'' = Some kv \<longrightarrow> tables_ok dict str (pd_root lib doc l) kv l"
  using assms by (fastforce simp: doc_ok_def kv_of_def)

lemma tables_okE:
  assumes "tables_ok dict str root kv l"
  obtains km where "kv \<noteq> root" "dict kv l = Some km" "inj_on km (dom km)"
    "\<forall>t d. km t = Some d \<longrightarrow> d \<noteq> root \<and> d \<noteq> kv \<and> table_ok dict str d l"
  using assms by (auto simp: tables_ok_def)

lemma lookup_eq:
  assumes "sound doc l"
  shows "lookup_string lib doc t k l = Option.bind (table_of doc t l) (\<lambda>d. strings_of d l k)"
proof -
  obtain rm where rm: "dict (pd_root lib doc l) l = Some rm" "kv_of doc l = rm ''/CelerKV''"
    "\<forall>kv. rm ''/CelerKV'' = Some kv \<longrightarrow> tables_ok dict str (pd_root lib doc l) kv l"
    by (rule soundE [OF assms])
  show ?thesis
  proof (cases "rm ''/CelerKV''")
    case None
    with rm show ?thesis by (simp add: lookup_string_def has_key table_of_def)
  next
    case (Some kv)
    with rm(3) obtain km where km: "dict kv l = Some km" "\<forall>t d. km t = Some d \<longrightarrow> table_ok dict str d l"
      by (auto elim: tables_okE)
    show ?thesis
    proof (cases "km (encode_pdf_name t)")
      case None
      with Some rm km show ?thesis by (simp add: lookup_string_def has_key get_key [OF rm(1) Some] table_of_def)
    next
      case d: (Some d)
      with km(2) have "table_ok dict str d l" by blast
      then obtain m where m: "dict d l = Some m" by (auto simp: table_ok_def)
      have "lookup_string lib doc t k l = (if m (encode_pdf_name k) = None then None
          else if str (pd_get_key lib d (encode_pdf_name k) l) l \<noteq> None
            then Some (pd_string_value lib (pd_get_key lib d (encode_pdf_name k) l) l) else None)"
        using Some d by (simp add: lookup_string_def has_key [OF rm(1)] get_key [OF rm(1) Some] has_key [OF km(1)]
            get_key [OF km(1) d] has_key [OF m] is_string Let_def)
      also have "\<dots> = strings_of d l k"
        by (cases "m (encode_pdf_name k)") (auto simp: strings_of_def m get_key [OF m] string_value)
      finally show ?thesis using Some d rm(2) km(1) by (simp add: table_of_def)
    qed
  qed
qed

lemma unchangedD:
  assumes "unchanged lib dict str saved hs ps l l'"
  shows "x \<notin> hs \<Longrightarrow> dict x l' = dict x l" "x \<notin> hs \<Longrightarrow> str x l' = str x l" "pd_root lib doc l' = pd_root lib doc l"
    "p \<notin> ps \<Longrightarrow> saved p l' = saved p l"
  using assms by (simp_all add: unchanged_def)

text \<open>What making a dictionary under a key of another does.\<close>

lemma make_dictionary_ok:
  assumes "make_dictionary lib doc parent key l = (d, l')" "dict parent l = Some pm"
  shows "dict d l = None \<and> str d l = None \<and> dict d l' = Some Map.empty \<and> dict parent l' = Some (pm(key \<mapsto> d)) \<and>
    (\<forall>x. x \<noteq> parent \<longrightarrow> dict x l \<noteq> None \<longrightarrow> dict x l' = dict x l) \<and> (\<forall>x. str x l \<noteq> None \<longrightarrow> str x l' = str x l) \<and>
    (\<forall>doc. pd_root lib doc l' = pd_root lib doc l) \<and> (\<forall>p. saved p l' = saved p l)"
proof -
  obtain d0 l1 l2 where steps: "pd_new_dictionary lib l = (d0, l1)" "pd_make_indirect lib doc d0 l1 = (d, l2)"
    "l' = pd_replace_key lib parent key d l2"
    using assms(1) by (auto simp: make_dictionary_def Let_def split: prod.splits)
  have new: "dict d0 l = None" "str d0 l = None" "dict d0 l1 = Some Map.empty" "unchanged lib dict str saved {d0} {} l l1"
    using new_dictionary_ok [OF steps(1)] by simp_all
  have ind: "d = d0 \<or> dict d l1 = None \<and> str d l1 = None" "dict d l2 = Some Map.empty" "unchanged lib dict str saved {d} {} l1 l2"
    using make_indirect_ok [OF steps(2) new(3)] by simp_all
  note n = unchangedD [OF new(4)] and i = unchangedD [OF ind(3)]
  have d: "dict d l = None" "str d l = None"
    using new(1,2) ind(1) n(1,2) [of d] by (cases "d = d0"; simp)+
  have ne: "d \<noteq> parent" "d0 \<noteq> parent" using d new(1) assms(2) by auto
  with assms(2) n(1) [of parent] i(1) [of parent] have parent: "dict parent l2 = Some pm" by simp
  from replace_ok [OF this, of key d] steps(3) have rep: "dict parent l' = Some (pm(key \<mapsto> d))"
    "unchanged lib dict str saved {parent} {} l2 l'" by simp_all
  note r = unchangedD [OF rep(2)]
  have "str parent l = None" using kinds [of parent l] assms(2) by simp
  have "dict x l' = dict x l" if "x \<noteq> parent" "dict x l \<noteq> None" for x
  proof -
    have "x \<noteq> d" "x \<noteq> d0" using that(2) d new(1) by auto
    with that(1) n(1) [of x] i(1) [of x] r(1) [of x] show ?thesis by simp
  qed
  moreover have "str x l' = str x l" if "str x l \<noteq> None" for x
  proof -
    have "x \<noteq> d" "x \<noteq> d0" "x \<noteq> parent" using that d new(2) \<open>str parent l = None\<close> by auto
    with n(2) [of x] i(2) [of x] r(2) [of x] show ?thesis by simp
  qed
  moreover have "dict d l' = Some Map.empty" using r(1) [of d] ne(1) ind(2) by simp
  moreover have "pd_root lib doc l' = pd_root lib doc l" "saved p l' = saved p l" for doc p
    using n(3,4) i(3,4) r(3,4) by simp_all
  ultimately show ?thesis using d rep(1) by blast
qed

lemma table_ok_mono:
  assumes "table_ok dict str d l" "dict d l' = dict d l" "\<forall>x. str x l \<noteq> None \<longrightarrow> str x l' = str x l"
  shows "table_ok dict str d l'" "strings_of d l' = strings_of d l"
proof -
  obtain m where m: "dict d l = Some m" "\<forall>k h. m k = Some h \<longrightarrow> str h l \<noteq> None \<and> k \<in> range encode_pdf_name"
    using assms(1) by (auto simp: table_ok_def)
  then have m': "dict d l' = Some m" "\<forall>k h. m k = Some h \<longrightarrow> str h l' = str h l" using assms(2,3) by auto
  then show "table_ok dict str d l'" using m(2) by (auto simp: table_ok_def)
  show "strings_of d l' = strings_of d l"
  proof
    fix k
    show "strings_of d l' k = strings_of d l k"
      using m(1) m' by (cases "m (encode_pdf_name k)") (simp_all add: strings_of_def)
  qed
qed

text \<open>The entry of the catalog, made if it is missing: no table of any document changes.\<close>

lemma get_celer_kv_ok:
  assumes "sound doc l" "get_celer_kv lib doc l = (kv, l')"
  shows "sound doc l' \<and> kv_of doc l' = Some kv \<and> (\<forall>t k. lookup_string lib doc t k l' = lookup_string lib doc t k l) \<and>
    pd_root lib doc l' = pd_root lib doc l \<and> (\<forall>p. saved p l' = saved p l)"
proof -
  let ?root = "pd_root lib doc l"
  obtain rm where rm: "dict ?root l = Some rm" "kv_of doc l = rm ''/CelerKV''"
    "\<forall>kv. rm ''/CelerKV'' = Some kv \<longrightarrow> tables_ok dict str ?root kv l" by (rule soundE [OF assms(1)])
  show ?thesis
  proof (cases "rm ''/CelerKV''")
    case (Some k)
    with rm assms get_key [OF rm(1) Some] show ?thesis by (auto simp: get_celer_kv_def Let_def has_key)
  next
    case None
    with rm assms(2) have "make_dictionary lib doc ?root ''/CelerKV'' l = (kv, l')"
      by (simp add: get_celer_kv_def Let_def has_key)
    from make_dictionary_ok [OF this rm(1)] have new: "dict kv l' = Some Map.empty" "dict ?root l' = Some (rm(''/CelerKV'' \<mapsto> kv))"
      "dict kv l = None" "\<forall>doc. pd_root lib doc l' = pd_root lib doc l" "\<forall>p. saved p l' = saved p l" by simp_all
    have ne: "kv \<noteq> ?root" using new(3) rm(1) by auto
    have kv': "kv_of doc l' = Some kv" using new(2,4) by (simp add: kv_of_def)
    have "sound doc l'" using ne new(1,2,4) by (auto simp: doc_ok_def tables_ok_def)
    moreover have "table_of doc t l' = None" "table_of doc t l = None" for t
      using kv' new(1) rm(2) None by (simp_all add: table_of_def)
    ultimately show ?thesis using lookup_eq [OF assms(1)] lookup_eq [of doc l'] kv' new(4,5) by simp
  qed
qed

text \<open>The table's dictionary, made if it is missing.\<close>

lemma get_table_dict_ok:
  assumes "sound doc (pw_lib w)" "get_table_dict lib s doc t w = (d, w')"
  shows "sound doc (pw_lib w') \<and> table_of doc t (pw_lib w') = Some d \<and>
    (\<forall>t k. lookup_string lib doc t k (pw_lib w') = lookup_string lib doc t k (pw_lib w)) \<and>
    (\<forall>p. saved p (pw_lib w') = saved p (pw_lib w)) \<and>
    (w' = w\<lparr>pw_lib := pw_lib w'\<rparr> \<or> w' = set_dirty s True (w\<lparr>pw_lib := pw_lib w'\<rparr>))"
proof -
  obtain kv l1 where step: "get_celer_kv lib doc (pw_lib w) = (kv, l1)" by fastforce
  note kv = get_celer_kv_ok [OF assms(1) step]
  from kv obtain rm where rm: "dict (pd_root lib doc l1) l1 = Some rm" "rm ''/CelerKV'' = Some kv"
    "tables_ok dict str (pd_root lib doc l1) kv l1" by (auto elim!: soundE [of doc l1])
  from rm(3) obtain km where km: "kv \<noteq> pd_root lib doc l1" "dict kv l1 = Some km" "inj_on km (dom km)"
    "\<forall>t d. km t = Some d \<longrightarrow> d \<noteq> pd_root lib doc l1 \<and> d \<noteq> kv \<and> table_ok dict str d l1" by (rule tables_okE)
  show ?thesis
  proof (cases "km (encode_pdf_name t)")
    case (Some d')
    with assms(2) step km(2) have "d = d'" "w' = w\<lparr>pw_lib := l1\<rparr>"
      by (simp_all add: get_table_dict_def has_key get_key [OF km(2) Some])
    with kv Some km(2) show ?thesis by (auto simp: table_of_def)
  next
    case None
    with assms(2) step km(2) obtain l2 where mk: "make_dictionary lib doc kv (encode_pdf_name t) l1 = (d, l2)"
      and w': "w' = set_dirty s True (w\<lparr>pw_lib := l2\<rparr>)"
      by (auto simp: get_table_dict_def has_key Let_def split: prod.splits)
    from make_dictionary_ok [OF mk km(2)] have new: "dict d l1 = None" "dict d l2 = Some Map.empty"
      "dict kv l2 = Some (km(encode_pdf_name t \<mapsto> d))" "\<forall>x. x \<noteq> kv \<longrightarrow> dict x l1 \<noteq> None \<longrightarrow> dict x l2 = dict x l1"
      "\<forall>x. str x l1 \<noteq> None \<longrightarrow> str x l2 = str x l1" "\<forall>doc. pd_root lib doc l2 = pd_root lib doc l1" "\<forall>p. saved p l2 = saved p l1"
      by simp_all
    have root: "dict (pd_root lib doc l2) l2 = Some rm" using new(4,6) km(1) rm(1) by simp
    have old: "d' \<noteq> d \<and> dict d' l2 = dict d' l1 \<and> table_ok dict str d' l1" if "km t' = Some d'" for t' d'
    proof -
      from km(4) that have "d' \<noteq> kv" "table_ok dict str d' l1" by blast+
      moreover from this(2) have "dict d' l1 \<noteq> None" by (auto simp: table_ok_def)
      ultimately show ?thesis using new(1,4) by auto
    qed
    have nd: "\<forall>t'. km t' \<noteq> Some d" using old by blast
    have "tables_ok dict str (pd_root lib doc l2) kv l2"
      unfolding tables_ok_def
    proof (intro conjI exI allI impI)
      show "kv \<noteq> pd_root lib doc l2" using km(1) new(6) by simp
      show "dict kv l2 = Some (km(encode_pdf_name t \<mapsto> d))" by (rule new(3))
      show "inj_on (km(encode_pdf_name t \<mapsto> d)) (dom (km(encode_pdf_name t \<mapsto> d)))"
        using km(3) nd by (auto simp: inj_on_def)
      fix t' d' assume "(km(encode_pdf_name t \<mapsto> d)) t' = Some d'"
      then have "d' = d \<or> km t' = Some d'" by (auto split: if_splits)
      then have "d' \<noteq> pd_root lib doc l2 \<and> d' \<noteq> kv \<and> table_ok dict str d' l2"
      proof
        assume "d' = d"
        then show ?thesis using new(1,2,6) rm(1) km(2) by (auto simp: table_ok_def)
      next
        assume k: "km t' = Some d'"
        with km(4) new(6) have "d' \<noteq> pd_root lib doc l2 \<and> d' \<noteq> kv" by metis
        moreover have "table_ok dict str d' l2" using old [OF k] table_ok_mono(1) [of d' l1 l2] new(5) by blast
        ultimately show ?thesis by blast
      qed
      then show "d' \<noteq> pd_root lib doc l2" "d' \<noteq> kv" "table_ok dict str d' l2" by blast+
    qed
    then have sound: "sound doc l2" using root rm(2) by (auto simp: doc_ok_def)
    have table: "table_of doc t' l2 = (if t' = t then Some d else table_of doc t' l1)" for t'
      using root rm(1,2) new(3) km(2) by (simp add: table_of_def kv_of_def)
    have "table_of doc t l1 = None" using rm(1,2) km(2) None by (simp add: table_of_def kv_of_def)
    moreover have "strings_of d l2 = Map.empty" using new(2) by (auto simp: strings_of_def)
    moreover have "strings_of d' l2 = strings_of d' l1" if "table_of doc t' l1 = Some d'" for t' d'
    proof -
      from that rm(1,2) km(2) have "km (encode_pdf_name t') = Some d'" by (simp add: table_of_def kv_of_def)
      then show ?thesis using old table_ok_mono(2) [of d' l1 l2] new(5) by blast
    qed
    ultimately have "lookup_string lib doc t' k l2 = lookup_string lib doc t' k l1" for t' k
      using lookup_eq [OF sound, of t' k] lookup_eq [of doc l1 t' k] kv table [of t']
      by (cases "table_of doc t' l1") (auto split: if_splits)
    with kv sound table [of t] new(7) w' show ?thesis by (simp add: set_dirty_def)
  qed
qed

text \<open>A change of one table's strings changes no other table.\<close>

lemma change_table_ok:
  assumes "sound doc l" "table_of doc t l = Some d" "table_ok dict str d l'" "\<forall>x. x \<noteq> d \<longrightarrow> dict x l \<noteq> None \<longrightarrow> dict x l' = dict x l"
    and "\<forall>x. str x l \<noteq> None \<longrightarrow> str x l' = str x l" "pd_root lib doc l' = pd_root lib doc l"
  shows "sound doc l' \<and> table_of doc t l' = Some d \<and>
    (\<forall>t' k. lookup_string lib doc t' k l' = (if t' = t then strings_of d l' k else lookup_string lib doc t' k l))"
proof -
  let ?root = "pd_root lib doc l"
  obtain rm where rm: "dict ?root l = Some rm" "kv_of doc l = rm ''/CelerKV''"
    "\<forall>kv. rm ''/CelerKV'' = Some kv \<longrightarrow> tables_ok dict str ?root kv l" by (rule soundE [OF assms(1)])
  from assms(2) rm(2) obtain kv where kv: "rm ''/CelerKV'' = Some kv" by (auto simp: table_of_def bind_eq_Some_conv)
  with rm(3) obtain km where km: "kv \<noteq> ?root" "dict kv l = Some km" "inj_on km (dom km)"
    "\<forall>t d. km t = Some d \<longrightarrow> d \<noteq> ?root \<and> d \<noteq> kv \<and> table_ok dict str d l" by (auto elim!: tables_okE)
  have d: "km (encode_pdf_name t) = Some d" using assms(2) rm(2) kv km(2) by (simp add: table_of_def)
  with km(4) have ne: "d \<noteq> ?root" "d \<noteq> kv" by blast+
  have root: "dict (pd_root lib doc l') l' = Some rm" and kv': "dict kv l' = Some km"
    using assms(4,6) ne rm(1) km(2) by auto
  have old: "table_ok dict str d' l'" "d' \<noteq> d \<Longrightarrow> strings_of d' l' = strings_of d' l" if "km t' = Some d'" for t' d'
  proof -
    from km(4) that have ok: "table_ok dict str d' l" by blast
    then have "d' \<noteq> d \<Longrightarrow> dict d' l' = dict d' l" using assms(4) by (auto simp: table_ok_def)
    with table_ok_mono [OF ok _ assms(5)] assms(3) show "table_ok dict str d' l'" "d' \<noteq> d \<Longrightarrow> strings_of d' l' = strings_of d' l"
      by blast+
  qed
  have "tables_ok dict str (pd_root lib doc l') kv l'"
    using km(1,3,4) kv' old(1) assms(6) by (auto simp: tables_ok_def)
  then have sound: "sound doc l'" using root kv by (auto simp: doc_ok_def)
  have table: "table_of doc t' l' = km (encode_pdf_name t')" "table_of doc t' l = km (encode_pdf_name t')" for t'
    using root rm(1,2) kv km(2) kv' by (simp_all add: table_of_def kv_of_def)
  have "lookup_string lib doc t' k l' = (if t' = t then strings_of d l' k else lookup_string lib doc t' k l)" for t' k
  proof (cases "t' = t")
    case True
    then show ?thesis using lookup_eq [OF sound] table d by simp
  next
    case False
    then have "d' \<noteq> d" if "km (encode_pdf_name t') = Some d'" for d'
      using inj_onD [OF km(3), of "encode_pdf_name t'" "encode_pdf_name t"] d that by (auto simp: dom_def)
    then show ?thesis using False lookup_eq [OF sound] lookup_eq [OF assms(1)] table old(2)
      by (cases "km (encode_pdf_name t')") auto
  qed
  with sound table d show ?thesis by simp
qed

subsection \<open>Changes of a table\<close>

abbreviation stored :: "nat \<Rightarrow> 'l \<Rightarrow> string \<Rightarrow> contents" where
  "stored doc l t \<equiv> (\<lambda>k. lookup_string lib doc t k l)"

text \<open>A step that maps one table's contents by a function, touches no file, and marks the state unless nothing changed.\<close>

definition changes :: "nat \<Rightarrow> nat \<Rightarrow> string \<Rightarrow> (contents \<Rightarrow> contents) \<Rightarrow> 'l qpdf_world \<Rightarrow> 'l qpdf_world \<Rightarrow> bool" where
  "changes s doc t f w w' \<longleftrightarrow> sound doc (pw_lib w') \<and>
     (\<forall>t'. stored doc (pw_lib w') t' = (if t' = t then f (stored doc (pw_lib w) t) else stored doc (pw_lib w) t')) \<and>
     (\<forall>p. saved p (pw_lib w') = saved p (pw_lib w)) \<and>
     (w' = w\<lparr>pw_lib := pw_lib w'\<rparr> \<and> f (stored doc (pw_lib w) t) = stored doc (pw_lib w) t \<or>
      w' = set_dirty s True (w\<lparr>pw_lib := pw_lib w'\<rparr>))"

lemma set_dirty_lib [simp]: "pw_lib (set_dirty s b w) = pw_lib w"
  by (simp add: set_dirty_def)

lemma set_dirty_twice: "set_dirty s b (set_dirty s b' w) = set_dirty s b w"
  by (cases "pw_states w s") (simp_all add: set_dirty_def)

lemma set_dirty_update: "(set_dirty s b w)\<lparr>pw_lib := l\<rparr> = set_dirty s b (w\<lparr>pw_lib := l\<rparr>)"
  by (simp add: set_dirty_def)

lemma changes_trans:
  assumes "changes s doc t f w w'" "changes s doc t g w' w''"
  shows "changes s doc t (\<lambda>m. g (f m)) w w''"
proof -
  have "w'' = w\<lparr>pw_lib := pw_lib w''\<rparr> \<and> g (f (stored doc (pw_lib w) t)) = stored doc (pw_lib w) t \<or>
      w'' = set_dirty s True (w\<lparr>pw_lib := pw_lib w''\<rparr>)"
  proof -
    have st: "stored doc (pw_lib w') t = f (stored doc (pw_lib w) t)" using assms(1) by (simp add: changes_def)
    consider "w' = w\<lparr>pw_lib := pw_lib w'\<rparr>" "f (stored doc (pw_lib w) t) = stored doc (pw_lib w) t"
      | "w' = set_dirty s True (w\<lparr>pw_lib := pw_lib w'\<rparr>)" using assms(1) unfolding changes_def by blast
    note one = this
    consider "w'' = w'\<lparr>pw_lib := pw_lib w''\<rparr>" "g (stored doc (pw_lib w') t) = stored doc (pw_lib w') t"
      | "w'' = set_dirty s True (w'\<lparr>pw_lib := pw_lib w''\<rparr>)" using assms(2) unfolding changes_def by blast
    note two = this
    show ?thesis
    proof (cases rule: one)
      case 1
      then have w': "w'\<lparr>pw_lib := pw_lib w''\<rparr> = w\<lparr>pw_lib := pw_lib w''\<rparr>" by (metis qpdf_world.update_convs(6) qpdf_world.surjective)
      show ?thesis by (cases rule: two) (use 1 w' st in simp_all)
    next
      case 2
      then have w': "w'\<lparr>pw_lib := pw_lib w''\<rparr> = set_dirty s True (w\<lparr>pw_lib := pw_lib w''\<rparr>)"
        by (metis set_dirty_update qpdf_world.surjective qpdf_world.update_convs(6))
      show ?thesis by (cases rule: two) (metis w', metis w' set_dirty_twice)
    qed
  qed
  then show ?thesis using assms by (auto simp: changes_def)
qed

lemma table_dictE:
  assumes "sound doc l" "table_of doc t l = Some d"
  obtains m where "dict d l = Some m" "table_ok dict str d l" "stored doc l t = strings_of d l"
    "\<forall>k h. m k = Some h \<longrightarrow> str h l \<noteq> None \<and> k \<in> range encode_pdf_name"
proof -
  obtain rm where rm: "kv_of doc l = rm ''/CelerKV''" "\<forall>kv. rm ''/CelerKV'' = Some kv \<longrightarrow> tables_ok dict str (pd_root lib doc l) kv l"
    by (rule soundE [OF assms(1)])
  from assms(2) obtain kv km where kv: "kv_of doc l = Some kv" "dict kv l = Some km" "km (encode_pdf_name t) = Some d"
    by (auto simp: table_of_def bind_eq_Some_conv)
  with rm have "tables_ok dict str (pd_root lib doc l) kv l" by simp
  then have "table_ok dict str d l" by (rule tables_okE) (use kv in simp)
  moreover from this obtain m where "dict d l = Some m" "\<forall>k h. m k = Some h \<longrightarrow> str h l \<noteq> None \<and> k \<in> range encode_pdf_name"
    by (auto simp: table_ok_def)
  moreover have "stored doc l t = strings_of d l" by (rule ext) (simp add: lookup_eq [OF assms(1)] assms(2))
  ultimately show thesis using that by blast
qed

lemma put_string_changes:
  assumes "sound doc (pw_lib w)" "table_of doc t (pw_lib w) = Some d"
  shows "changes s doc t (\<lambda>m. m(k \<mapsto> v)) w (put_string lib s d k v w)" "table_of doc t (pw_lib (put_string lib s d k v w)) = Some d"
proof -
  let ?l = "pw_lib w" and ?w' = "put_string lib s d k v w" and ?pk = "encode_pdf_name k"
  obtain m where m: "dict d ?l = Some m" "table_ok dict str d ?l" "stored doc ?l t = strings_of d ?l"
    "\<forall>k h. m k = Some h \<longrightarrow> str h ?l \<noteq> None \<and> k \<in> range encode_pdf_name"
    by (rule table_dictE [OF assms])
  obtain h l1 where h: "pd_new_string lib v ?l = (h, l1)" by fastforce
  let ?l2 = "pd_replace_key lib d ?pk h l1"
  have w': "?w' = set_dirty s True (w\<lparr>pw_lib := ?l2\<rparr>)" by (simp add: put_string_def h)
  from new_string_ok [OF h] have new: "dict h ?l = None" "str h ?l = None" "str h l1 = Some v" "unchanged lib dict str saved {h} {} ?l l1"
    by simp_all
  note n = unchangedD [OF new(4)]
  have hd: "h \<noteq> d" using new(1) m(1) by auto
  with n(1) [of d] m(1) have "dict d l1 = Some m" by simp
  from replace_ok [OF this, of ?pk h] have rep: "dict d ?l2 = Some (m(?pk \<mapsto> h))" "unchanged lib dict str saved {d} {} l1 ?l2" by simp_all
  note r = unchangedD [OF rep(2)]
  have sd: "str d ?l = None" using kinds m(1) by simp
  have dicts: "\<forall>x. x \<noteq> d \<longrightarrow> dict x ?l \<noteq> None \<longrightarrow> dict x ?l2 = dict x ?l"
    using n(1) r(1) new(1) by (metis singletonD)
  have strs: "\<forall>x. str x ?l \<noteq> None \<longrightarrow> str x ?l2 = str x ?l"
    using n(2) r(2) new(2) sd by (metis singletonD)
  have strh: "str h ?l2 = Some v" using r(2) [of h] hd new(3) by simp
  have tbl: "table_ok dict str d ?l2" using rep(1) strs strh m(4) by (fastforce simp: table_ok_def)
  have upd: "strings_of d ?l2 = (strings_of d ?l)(k \<mapsto> v)"
  proof
    fix k'
    show "strings_of d ?l2 k' = ((strings_of d ?l)(k \<mapsto> v)) k'"
      using rep(1) m(1,4) strs strh by (cases "m (encode_pdf_name k')") (auto simp: strings_of_def)
  qed
  from change_table_ok [OF assms tbl dicts strs] n(3) r(3)
  have ch: "sound doc ?l2" "table_of doc t ?l2 = Some d"
    "\<forall>t' k. lookup_string lib doc t' k ?l2 = (if t' = t then strings_of d ?l2 k else lookup_string lib doc t' k ?l)" by simp_all
  show "table_of doc t (pw_lib ?w') = Some d" using ch(2) w' by simp
  have "stored doc ?l2 t' = (if t' = t then (stored doc ?l t)(k \<mapsto> v) else stored doc ?l t')" for t'
    by (rule ext) (use ch(3) upd m(3) in simp)
  with ch(1) n(4) r(4) show "changes s doc t (\<lambda>m. m(k \<mapsto> v)) w ?w'" by (simp add: changes_def w')
qed

lemma remove_string_changes:
  assumes "sound doc (pw_lib w)" "table_of doc t (pw_lib w) = Some d"
  shows "changes s doc t (\<lambda>m. m(k := None)) w (remove_string lib s d k w)" "table_of doc t (pw_lib (remove_string lib s d k w)) = Some d"
proof -
  let ?l = "pw_lib w" and ?w' = "remove_string lib s d k w" and ?pk = "encode_pdf_name k"
  let ?l2 = "pd_remove_key lib d ?pk ?l"
  obtain m where m: "dict d ?l = Some m" "table_ok dict str d ?l" "stored doc ?l t = strings_of d ?l"
    "\<forall>k h. m k = Some h \<longrightarrow> str h ?l \<noteq> None \<and> k \<in> range encode_pdf_name"
    by (rule table_dictE [OF assms])
  have w': "?w' = set_dirty s True (w\<lparr>pw_lib := ?l2\<rparr>)" by (simp add: remove_string_def)
  from remove_ok [OF m(1), of ?pk] have rep: "dict d ?l2 = Some (m(?pk := None))" "unchanged lib dict str saved {d} {} ?l ?l2" by simp_all
  note r = unchangedD [OF rep(2)]
  have sd: "str d ?l = None" using kinds m(1) by simp
  have dicts: "\<forall>x. x \<noteq> d \<longrightarrow> dict x ?l \<noteq> None \<longrightarrow> dict x ?l2 = dict x ?l" using r(1) by simp
  have strs: "\<forall>x. str x ?l \<noteq> None \<longrightarrow> str x ?l2 = str x ?l" using r(2) sd by (metis singletonD)
  have tbl: "table_ok dict str d ?l2" using rep(1) strs m(4) by (fastforce simp: table_ok_def)
  have upd: "strings_of d ?l2 = (strings_of d ?l)(k := None)"
  proof
    fix k'
    show "strings_of d ?l2 k' = ((strings_of d ?l)(k := None)) k'"
      using rep(1) m(1,4) strs by (cases "m (encode_pdf_name k')") (auto simp: strings_of_def)
  qed
  from change_table_ok [OF assms tbl dicts strs] r(3)
  have ch: "sound doc ?l2" "table_of doc t ?l2 = Some d"
    "\<forall>t' k. lookup_string lib doc t' k ?l2 = (if t' = t then strings_of d ?l2 k else lookup_string lib doc t' k ?l)" by simp_all
  show "table_of doc t (pw_lib ?w') = Some d" using ch(2) w' by simp
  have "stored doc ?l2 t' = (if t' = t then (stored doc ?l t)(k := None) else stored doc ?l t')" for t'
    by (rule ext) (use ch(3) upd m(3) in simp)
  with ch(1) r(4) show "changes s doc t (\<lambda>m. m(k := None)) w ?w'" by (simp add: changes_def w')
qed

lemma has_string:
  assumes "sound doc l" "table_of doc t l = Some d"
  shows "pd_has_key lib d (encode_pdf_name k) l \<longleftrightarrow> lookup_string lib doc t k l \<noteq> None"
proof -
  obtain m where m: "dict d l = Some m" "stored doc l t = strings_of d l" "\<forall>k h. m k = Some h \<longrightarrow> str h l \<noteq> None \<and> k \<in> range encode_pdf_name"
    by (rule table_dictE [OF assms])
  have "lookup_string lib doc t k l = strings_of d l k" using fun_cong [OF m(2), of k] .
  then show ?thesis using m(1,3) by (auto simp: has_key strings_of_def bind_eq_Some_conv)
qed

subsection \<open>Writing the file\<close>

lemma unchanged_stored:
  assumes "unchanged lib dict str saved {} ps l l'" "sound doc l"
  shows "sound doc l'" "lookup_string lib doc t k l' = lookup_string lib doc t k l"
proof -
  note u = unchangedD [OF assms(1)]
  have eq: "dict x l' = dict x l" "str x l' = str x l" "pd_root lib doc l' = pd_root lib doc l" for x doc
    using u(1-3) by simp_all
  show s': "sound doc l'" using assms(2) by (simp add: doc_ok_def tables_ok_def table_ok_def eq)
  show "lookup_string lib doc t k l' = lookup_string lib doc t k l"
    by (simp add: lookup_eq [OF s'] lookup_eq [OF assms(2)] table_of_def kv_of_def strings_of_def eq)
qed

lemma unchanged_trans:
  "unchanged lib dict str saved hs ps l l' \<Longrightarrow> unchanged lib dict str saved hs ps' l' l'' \<Longrightarrow>
    unchanged lib dict str saved hs (ps \<union> ps') l l''"
  by (simp add: unchanged_def)

lemma unchanged_more: "unchanged lib dict str saved hs ps l l' \<Longrightarrow> ps \<subseteq> ps' \<Longrightarrow> unchanged lib dict str saved hs ps' l l'"
  by (auto simp: unchanged_def)

lemma atomic_write_ok:
  assumes "atomic_write_pdf lib doc path lin l = (r, l')" "sound doc l"
  shows "unchanged lib dict str saved {} {path, path @ ''.tmp''} l l' \<and>
    saved path l' = (if r = Inr () then Some (stored doc l) else saved path l)"
proof -
  let ?tmp = "path @ ''.tmp''"
  obtain thrown l1 where wr: "pd_write lib doc ?tmp lin l = (thrown, l1)" by fastforce
  from write_ok [OF wr assms(2)] have one: "unchanged lib dict str saved {} {?tmp} l l1"
    "thrown = None \<Longrightarrow> saved ?tmp l1 = Some (stored doc l)" by simp_all
  have clean: "unchanged lib dict str saved {} {?tmp} x (snd (fs_remove lib ?tmp x))" for x by (rule remove_file_ok)
  show ?thesis
  proof (cases thrown)
    case (Some e)
    with assms(1) wr have r: "r \<noteq> Inr ()" "l' = snd (fs_remove lib ?tmp l1)" by (auto simp: atomic_write_pdf_def)
    from unchanged_trans [OF one(1) clean] have u: "unchanged lib dict str saved {} {?tmp} l l'" by (simp add: r)
    then show ?thesis using r(1) unchangedD(4) [OF u, of path] by (auto intro: unchanged_more)
  next
    case None
    obtain ec l2 where rn: "fs_rename lib ?tmp path l1 = (ec, l2)" by fastforce
    note ren = rename_ok [OF rn]
    show ?thesis
    proof (cases ec)
      case e: (Some m)
      with assms(1) wr None rn have r: "r \<noteq> Inr ()" "l' = snd (fs_remove lib ?tmp l2)"
        by (auto simp: atomic_write_pdf_def split: prod.splits)
      from e ren have "unchanged lib dict str saved {} {} l1 l2" by simp
      from unchanged_trans [OF unchanged_trans [OF one(1) this] clean] have u: "unchanged lib dict str saved {} {?tmp} l l'"
        by (simp add: r)
      then show ?thesis using r(1) unchangedD(4) [OF u, of path] by (auto intro: unchanged_more)
    next
      case ok: None
      with assms(1) wr None rn have r: "r = Inr ()" "l' = l2" by (auto simp: atomic_write_pdf_def)
      from ok ren have two: "saved path l2 = saved ?tmp l1" "unchanged lib dict str saved {} {?tmp, path} l1 l2" by simp_all
      from unchanged_trans [OF one(1) two(2)] have "unchanged lib dict str saved {} {path, ?tmp} l l2"
        by (rule unchanged_more) auto
      with r two(1) one(2) None show ?thesis by simp
    qed
  qed
qed

lemma changes_stateE:
  assumes "changes s doc t f w w1" "pw_states w s = Some st"
  obtains dd where "pw_objects w1 = pw_objects w" "pw_states w1 s = Some (st\<lparr>ps_dirty := dd\<rparr>)"
    "dd \<or> \<not> ps_dirty st \<and> f (stored doc (pw_lib w) t) = stored doc (pw_lib w) t"
proof -
  let ?l1 = "pw_lib w1"
  from assms(1) have "w1 = w\<lparr>pw_lib := ?l1\<rparr> \<and> f (stored doc (pw_lib w) t) = stored doc (pw_lib w) t \<or>
    w1 = set_dirty s True (w\<lparr>pw_lib := ?l1\<rparr>)" unfolding changes_def by blast
  then show thesis
  proof
    assume a: "w1 = w\<lparr>pw_lib := ?l1\<rparr> \<and> f (stored doc (pw_lib w) t) = stored doc (pw_lib w) t"
    then have "pw_objects w1 = pw_objects w" "pw_states w1 = pw_states w"
      by (metis qpdf_world.select_convs qpdf_world.update_convs(6) qpdf_world.surjective)+
    with a assms(2) that [of "ps_dirty st"] show thesis by simp
  next
    assume a: "w1 = set_dirty s True (w\<lparr>pw_lib := ?l1\<rparr>)"
    have "pw_objects (set_dirty s True (w\<lparr>pw_lib := x\<rparr>)) = pw_objects w"
      "pw_states (set_dirty s True (w\<lparr>pw_lib := x\<rparr>)) s = Some (st\<lparr>ps_dirty := True\<rparr>)" for x
      using assms(2) by (simp_all add: set_dirty_def)
    with a that [of True] show thesis by metis
  qed
qed

text \<open>After a change, the file is brought in step with the document, or it is left and the state stays marked.\<close>

lemma flush_ok:
  assumes "qpdf_at lib dict str saved self t doc path w" "pw_objects w self = Some \<lparr>pb_state = Some s, pb_table_name = t\<rparr>"
    and "changes s doc t f w w1"
  shows "\<exists>r w2. flush_locked lib s w1 = Some (r, w2) \<and> qpdf_at lib dict str saved self t doc path w2 \<and>
    (\<forall>t'. stored doc (pw_lib w2) t' = (if t' = t then f (stored doc (pw_lib w) t) else stored doc (pw_lib w) t')) \<and>
    saved path (pw_lib w2) = (if r = Inr () then Some (stored doc (pw_lib w2)) else saved path (pw_lib w))"
proof -
  obtain st where st: "pw_states w s = Some st" "ps_pdf st = Some doc" "ps_file_path st = path" "sound doc (pw_lib w)"
    "\<not> ps_dirty st \<longrightarrow> saved path (pw_lib w) = Some (stored doc (pw_lib w))"
    using assms(1,2) by (auto simp: qpdf_at_def)
  let ?l1 = "pw_lib w1"
  have ch: "sound doc ?l1" "saved path ?l1 = saved path (pw_lib w)"
    "stored doc ?l1 t' = (if t' = t then f (stored doc (pw_lib w) t) else stored doc (pw_lib w) t')"
    "w1 = w\<lparr>pw_lib := ?l1\<rparr> \<and> f (stored doc (pw_lib w) t) = stored doc (pw_lib w) t \<or> w1 = set_dirty s True (w\<lparr>pw_lib := ?l1\<rparr>)" for t'
    using assms(3) unfolding changes_def by blast+
  obtain dd where w0: "pw_objects w1 = pw_objects w" "pw_states w1 s = Some (st\<lparr>ps_dirty := dd\<rparr>)"
    "dd \<or> \<not> ps_dirty st \<and> f (stored doc (pw_lib w) t) = stored doc (pw_lib w) t"
    by (rule changes_stateE [OF assms(3) st(1)])
  let ?st = "st\<lparr>ps_dirty := dd\<rparr>"
  show ?thesis
  proof (cases dd)
    case False
    with w0(2) st(2) have "flush_locked lib s w1 = Some (Inr (), w1)" by (simp add: flush_locked_def)
    moreover have clean: "\<not> ps_dirty st" "f (stored doc (pw_lib w) t) = stored doc (pw_lib w) t" using w0(3) False by simp_all
    moreover have same: "stored doc ?l1 t' = stored doc (pw_lib w) t'" for t' using ch(3) [of t'] clean(2) by simp
    moreover have sv: "saved path ?l1 = Some (stored doc ?l1)" using ch(2) st(5) clean(1) same by simp
    moreover have "qpdf_at lib dict str saved self t doc path w1"
      using w0(1,2) st(2,3) ch(1) assms(2) sv by (auto simp: qpdf_at_def)
    ultimately show ?thesis by (intro exI [of _ "Inr ()"] exI [of _ w1]) simp
  next
    case True
    obtain r l2 where wr: "atomic_write_pdf lib doc path (ps_linearize st) ?l1 = (r, l2)" by fastforce
    from atomic_write_ok [OF wr ch(1)] have aw: "unchanged lib dict str saved {} {path, path @ ''.tmp''} ?l1 l2"
      "saved path l2 = (if r = Inr () then Some (stored doc ?l1) else saved path ?l1)" by simp_all
    let ?w2 = "if r = Inr () then set_dirty s False (w1\<lparr>pw_lib := l2\<rparr>) else w1\<lparr>pw_lib := l2\<rparr>"
    have "flush_locked lib s w1 = Some (r, ?w2)"
      using w0(2) st(2,3) True wr by (simp add: flush_locked_def)
    moreover have l2: "pw_lib ?w2 = l2" by simp
    moreover have same: "lookup_string lib doc t' k l2 = lookup_string lib doc t' k ?l1" "sound doc l2" for t' k
      using unchanged_stored [OF aw(1) ch(1)] by simp_all
    moreover have sv: "saved path l2 = (if r = Inr () then Some (stored doc l2) else saved path (pw_lib w))"
      using aw(2) ch(2) same(1) by simp
    moreover have "pw_states ?w2 s = Some (st\<lparr>ps_dirty := (r \<noteq> Inr ())\<rparr>)" "pw_objects ?w2 self = pw_objects w self"
      using w0(1,2) True by (simp_all add: set_dirty_def)
    then have "qpdf_at lib dict str saved self t doc path ?w2"
      using st(2,3) same(2) assms(2) sv l2 by (auto simp: qpdf_at_def)
    moreover have "stored doc l2 t' = (if t' = t then f (stored doc (pw_lib w) t) else stored doc (pw_lib w) t')" for t'
      using ch(3) [of t'] same(1) by simp
    ultimately show ?thesis by (intro exI [of _ r] exI [of _ ?w2]) simp
  qed
qed

lemma changes_at:
  assumes "qpdf_at lib dict str saved self t doc path w" "pw_objects w self = Some \<lparr>pb_state = Some s, pb_table_name = t\<rparr>"
    and "changes s doc t f w w1"
  shows "qpdf_at lib dict str saved self t doc path w1"
proof -
  obtain st where st: "pw_states w s = Some st" "ps_pdf st = Some doc" "ps_file_path st = path"
    "\<not> ps_dirty st \<longrightarrow> saved path (pw_lib w) = Some (stored doc (pw_lib w))"
    using assms(1,2) by (auto simp: qpdf_at_def)
  obtain dd where w0: "pw_objects w1 = pw_objects w" "pw_states w1 s = Some (st\<lparr>ps_dirty := dd\<rparr>)"
    "dd \<or> \<not> ps_dirty st \<and> f (stored doc (pw_lib w) t) = stored doc (pw_lib w) t"
    by (rule changes_stateE [OF assms(3) st(1)])
  have ch: "sound doc (pw_lib w1)" "saved path (pw_lib w1) = saved path (pw_lib w)"
    "stored doc (pw_lib w1) t' = (if t' = t then f (stored doc (pw_lib w) t) else stored doc (pw_lib w) t')" for t'
    using assms(3) unfolding changes_def by blast+
  have "saved path (pw_lib w1) = Some (stored doc (pw_lib w1))" if "\<not> dd"
  proof -
    from that w0(3) have c: "\<not> ps_dirty st" "f (stored doc (pw_lib w) t) = stored doc (pw_lib w) t" by simp_all
    then have "stored doc (pw_lib w1) t' = stored doc (pw_lib w) t'" for t' using ch(3) [of t'] by simp
    then show ?thesis using ch(2) st(4) c(1) by simp
  qed
  then show ?thesis using w0(1,2) st(2,3) ch(1) assms(2) by (auto simp: qpdf_at_def)
qed

subsection \<open>The operations\<close>

lemma atE:
  assumes "qpdf_at lib dict str saved self t doc path w"
  obtains s where "pw_objects w self = Some \<lparr>pb_state = Some s, pb_table_name = t\<rparr>" "open_pdf (Some s) w = Some doc"
    "sound doc (pw_lib w)"
  using assms by (auto simp: qpdf_at_def open_pdf_def)

lemma if_open_at:
  "pw_objects w self = Some \<lparr>pb_state = Some s, pb_table_name = t\<rparr> \<Longrightarrow> open_pdf (Some s) w = Some doc \<Longrightarrow>
    if_open code self f w = f s doc t w"
  by (simp add: if_open_def qpdf_this_def)

lemma changes_same:
  "sound doc (pw_lib w) \<Longrightarrow> f (stored doc (pw_lib w) t) = stored doc (pw_lib w) t \<Longrightarrow> changes s doc t f w w"
  by (simp add: changes_def)

lemma dict_changes:
  assumes "sound doc (pw_lib w)" "get_table_dict lib s doc t w = (d, w')"
  shows "changes s doc t (\<lambda>m. m) w w'" "table_of doc t (pw_lib w') = Some d"
  using get_table_dict_ok [OF assms] by (auto simp: changes_def)

lemma changes_sound: "changes s doc t f w w' \<Longrightarrow> sound doc (pw_lib w')"
  by (simp add: changes_def)

lemma apply_op_cases:
  "op_kind op = put_kind \<Longrightarrow> op_value op = Some v \<Longrightarrow> apply_op op = (\<lambda>m. m(op_key op \<mapsto> v))"
  "op_kind op \<noteq> put_kind \<Longrightarrow> apply_op op = (\<lambda>m. m(op_key op := None))"
  by (rule ext, cases "op_kind op", simp_all add: apply_op_def)+

lemma batch_loop_ok:
  assumes "sound doc (pw_lib w)" "table_of doc t (pw_lib w) = Some d"
  shows "\<exists>r w'. qpdf_batch_loop lib s d ops w = Some (r, w') \<and> changes s doc t (fold apply_op (takeWhile op_wf ops)) w w' \<and>
    (r = Inr () \<longleftrightarrow> list_all op_wf ops)"
  using assms
proof (induction ops arbitrary: w)
  case Nil
  then show ?case using changes_same [of doc w "\<lambda>m. m" t s] by (simp add: id_def)
next
  case (Cons op ops)
  have step: ?case if w1: "qpdf_batch_loop lib s d (op # ops) w = qpdf_batch_loop lib s d ops w1"
    "changes s doc t (apply_op op) w w1" "table_of doc t (pw_lib w1) = Some d" and "op_wf op" for w1
  proof -
    from Cons.IH [OF changes_sound [OF w1(2)] w1(3)] obtain r w' where
      "qpdf_batch_loop lib s d ops w1 = Some (r, w')" "changes s doc t (fold apply_op (takeWhile op_wf ops)) w1 w'"
      "r = Inr () \<longleftrightarrow> list_all op_wf ops" by blast
    with w1(1) changes_trans [OF w1(2)] \<open>op_wf op\<close> show ?thesis by (auto simp: comp_def)
  qed
  show ?case
  proof (cases "op_kind op = put_kind")
    case True
    show ?thesis
    proof (cases "op_value op")
      case None
      with True have "\<not> op_wf op" by (simp add: op_wf_def)
      with True None changes_same [OF Cons.prems(1), of "\<lambda>m. m" t s] show ?thesis by (auto simp: id_def)
    next
      case (Some v)
      with True step [OF _ put_string_changes [OF Cons.prems, of s "op_key op" v, folded apply_op_cases(1) [OF True Some]]]
      show ?thesis by (simp add: op_wf_def)
    qed
  next
    case False
    show ?thesis
    proof (cases "pd_has_key lib d (encode_pdf_name (op_key op)) (pw_lib w)")
      case True
      with False step [OF _ remove_string_changes [OF Cons.prems, of s "op_key op", folded apply_op_cases(2) [OF False]]]
      show ?thesis by (simp add: op_wf_def)
    next
      case absent: False
      with has_string [OF Cons.prems] have "lookup_string lib doc t (op_key op) (pw_lib w) = None" by simp
      then have "changes s doc t (apply_op op) w w"
        by (intro changes_same [OF Cons.prems(1)]) (auto simp: apply_op_cases(2) [OF False])
      with False absent step [of w] Cons.prems(2) show ?thesis by (simp add: op_wf_def)
    qed
  qed
qed

lemma qpdf_batch_ok:
  assumes "qpdf_at lib dict str saved self t doc path w"
  shows "\<exists>r w'. qpdf_batch lib self ops w = Some (r, w') \<and> qpdf_at lib dict str saved self t doc path w' \<and>
    (\<forall>t'. stored doc (pw_lib w') t' =
      (if t' = t then fold apply_op (takeWhile op_wf ops) (stored doc (pw_lib w) t) else stored doc (pw_lib w) t')) \<and>
    saved path (pw_lib w') = (if r = Inr () then Some (stored doc (pw_lib w')) else saved path (pw_lib w)) \<and>
    (r = Inr () \<longrightarrow> list_all op_wf ops)"
proof -
  obtain s where s: "pw_objects w self = Some \<lparr>pb_state = Some s, pb_table_name = t\<rparr>" "open_pdf (Some s) w = Some doc"
    "sound doc (pw_lib w)" by (rule atE [OF assms])
  obtain d w1 where d: "get_table_dict lib s doc t w = (d, w1)" by fastforce
  note one = dict_changes [OF s(3) d]
  obtain r w2 where loop: "qpdf_batch_loop lib s d ops w1 = Some (r, w2)"
    "changes s doc t (fold apply_op (takeWhile op_wf ops)) w1 w2" "r = Inr () \<longleftrightarrow> list_all op_wf ops"
    using batch_loop_ok [OF changes_sound [OF one(1)] one(2)] by blast
  note two = changes_trans [OF one(1) loop(2)]
  have run: "qpdf_batch lib self ops w = (case r of Inl e \<Rightarrow> Some (Inl e, w2) | Inr _ \<Rightarrow> flush_locked lib s w2)"
    by (simp add: qpdf_batch_def if_open_at [OF s(1,2)] d io_bind_def loop(1))
  show ?thesis
  proof (cases r)
    case (Inl e)
    with run changes_at [OF assms s(1) two] two show ?thesis
      by (intro exI [of _ "Inl e"] exI [of _ w2]) (simp add: changes_def)
  next
    case (Inr u)
    with flush_ok [OF assms s(1) two] run loop(3) show ?thesis by simp
  qed
qed

lemma qpdf_put_ok:
  assumes "qpdf_at lib dict str saved self t doc path w"
  shows "\<exists>r w'. qpdf_put lib self k v w = Some (r, w') \<and> qpdf_at lib dict str saved self t doc path w' \<and>
    (\<forall>t'. stored doc (pw_lib w') t' = (if t' = t then (stored doc (pw_lib w) t)(k \<mapsto> v) else stored doc (pw_lib w) t')) \<and>
    saved path (pw_lib w') = (if r = Inr () then Some (stored doc (pw_lib w')) else saved path (pw_lib w))"
proof -
  obtain s where s: "pw_objects w self = Some \<lparr>pb_state = Some s, pb_table_name = t\<rparr>" "open_pdf (Some s) w = Some doc"
    "sound doc (pw_lib w)" by (rule atE [OF assms])
  obtain d w1 where d: "get_table_dict lib s doc t w = (d, w1)" by fastforce
  note one = dict_changes [OF s(3) d]
  from flush_ok [OF assms s(1) changes_trans [OF one(1) put_string_changes(1) [OF changes_sound [OF one(1)] one(2), of s k v]]]
  show ?thesis by (simp add: qpdf_put_def if_open_at [OF s(1,2)] d)
qed

lemma qpdf_get_ok:
  assumes "qpdf_at lib dict str saved self t doc path w"
    and "\<And>v. lookup_string lib doc t k (pw_lib w) = Some v \<Longrightarrow> length v < 2 ^ 32"
  shows "qpdf_get lib self k w = Some (Inr (case lookup_string lib doc t k (pw_lib w) of
      None \<Rightarrow> None | Some v \<Rightarrow> if v = [] then None else Some v), w)"
proof -
  obtain s where s: "pw_objects w self = Some \<lparr>pb_state = Some s, pb_table_name = t\<rparr>" "open_pdf (Some s) w = Some doc"
    "sound doc (pw_lib w)" by (rule atE [OF assms(1)])
  let ?st = "\<lparr>pg_state = Some s, pg_table_name = t, pg_key = k, pg_done = False, pg_found = False, pg_cached_value = None\<rparr>"
  have stream: "qpdf_stream_get lib self k w = Some (Inr (make_stream_handle (qpdf_get_pull lib) ?st), w)"
    by (simp add: qpdf_stream_get_def if_open_at [OF s(1,2)] io_return_def)
  have "\<exists>cs s'. yields (qpdf_get_pull lib) ?st w cs None s' w \<and>
      concat cs = (case lookup_string lib doc t k (pw_lib w) of None \<Rightarrow> [] | Some v \<Rightarrow> v)"
  proof (cases "lookup_string lib doc t k (pw_lib w)")
    case None
    then have "yields (qpdf_get_pull lib) ?st w [] None (?st\<lparr>pg_done := True\<rparr>) w"
      by (intro yields.yields_done) (simp add: qpdf_get_pull_def s(2))
    with None show ?thesis by (intro exI [of _ "[]"] exI [of _ "?st\<lparr>pg_done := True\<rparr>"]) simp
  next
    case (Some v)
    let ?s1 = "?st\<lparr>pg_cached_value := Some v, pg_found := True, pg_done := True\<rparr>"
    have "yields (qpdf_get_pull lib) ?s1 w [] None ?s1 w" by (intro yields.yields_done) (simp add: qpdf_get_pull_def)
    moreover have "qpdf_get_pull lib ?st w = Some (Inr (Some v), ?s1, w)"
      using chunk_from_small [OF assms(2) [OF Some]] by (simp add: qpdf_get_pull_def s(2) Some)
    ultimately have "yields (qpdf_get_pull lib) ?st w [v] None ?s1 w" by (intro yields.yields_chunk)
    with Some show ?thesis by (intro exI [of _ "[v]"] exI [of _ ?s1]) simp
  qed
  then obtain cs s' where y: "yields (qpdf_get_pull lib) ?st w cs None s' w"
    and cs: "concat cs = (case lookup_string lib doc t k (pw_lib w) of None \<Rightarrow> [] | Some v \<Rightarrow> v)" by blast
  from collect_string_yields [OF erased_yields [OF y]] cs show ?thesis
    by (simp add: qpdf_get_def io_bind_def stream split: option.splits)
qed

text \<open>A scan reads the table once and hands it out in chunks of 64 pairs.\<close>

lemma scan_chunks:
  "pq_snapshot s = Some snap \<Longrightarrow> \<not> pq_done s \<Longrightarrow>
    \<exists>cs s'. yields (qpdf_scan_pull lib) s w cs None s' w \<and> concat cs = drop (pq_cursor s) snap"
proof (induction "length snap - pq_cursor s" arbitrary: s rule: less_induct)
  case less
  show ?case
  proof (cases "length snap \<le> pq_cursor s")
    case True
    with less.prems have "yields (qpdf_scan_pull lib) s w [] None (s\<lparr>pq_done := True\<rparr>) w"
      by (intro yields.yields_done) (simp add: qpdf_scan_pull_def emit_snapshot_def)
    with True show ?thesis by (intro exI [of _ "[]"] exI [of _ "s\<lparr>pq_done := True\<rparr>"]) simp
  next
    case False
    let ?n = "pq_cursor s" and ?stop = "min (pq_cursor s + 64) (length snap)"
    let ?c = "take (?stop - ?n) (drop ?n snap)"
    let ?s1 = "if length snap \<le> ?stop then s\<lparr>pq_cursor := ?stop, pq_done := True\<rparr> else s\<lparr>pq_cursor := ?stop\<rparr>"
    have "length ?c < 2 ^ 32" by simp
    from chunk_from_small [OF this] have pull: "qpdf_scan_pull lib s w = Some (Inr (Some ?c), ?s1, w)"
      using less.prems False by (auto simp: qpdf_scan_pull_def emit_snapshot_def kChunkSize_def Let_def)
    have "\<exists>cs s'. yields (qpdf_scan_pull lib) ?s1 w cs None s' w \<and> concat cs = drop ?stop snap"
    proof (cases "length snap \<le> ?stop")
      case True
      then have "yields (qpdf_scan_pull lib) ?s1 w [] None ?s1 w" by (intro yields.yields_done) (simp add: qpdf_scan_pull_def)
      with True show ?thesis by (intro exI [of _ "[]"] exI [of _ ?s1]) simp
    next
      case more: False
      with False less.hyps [of "s\<lparr>pq_cursor := ?stop\<rparr>"] less.prems show ?thesis by simp
    qed
    then obtain cs s' where y: "yields (qpdf_scan_pull lib) ?s1 w cs None s' w" "concat cs = drop ?stop snap" by blast
    have "?c @ drop ?stop snap = drop ?n snap" using append_take_drop_id [of "?stop - ?n" "drop ?n snap"] False by simp
    with y yields.yields_chunk [of "qpdf_scan_pull lib", OF pull y(1)] show ?thesis
      by (intro exI [of _ "?c # cs"] exI [of _ s']) simp
  qed
qed

lemma snapshot_loop_eq:
  "snapshot_loop lib d pre ks l pairs = pairs @ map (\<lambda>pk. KV (decode_pdf_name pk) (pd_string_value lib (pd_get_key lib d pk l) l))
     (filter (\<lambda>pk. starts_with (decode_pdf_name pk) pre \<and> pd_is_string lib (pd_get_key lib d pk l) l) ks)"
  by (induction ks arbitrary: pairs) (auto simp: Let_def starts_with_Nil)

lemma take_snapshot_eq:
  assumes "sound doc l"
  shows "take_snapshot lib doc t pre l = (case table_of doc t l of None \<Rightarrow> []
    | Some d \<Rightarrow> sort_key kv_key (snapshot_loop lib d pre (pd_get_keys lib d l) l []))"
proof -
  obtain rm where rm: "dict (pd_root lib doc l) l = Some rm" "kv_of doc l = rm ''/CelerKV''"
    "\<forall>kv. rm ''/CelerKV'' = Some kv \<longrightarrow> tables_ok dict str (pd_root lib doc l) kv l"
    by (rule soundE [OF assms])
  show ?thesis
  proof (cases "rm ''/CelerKV''")
    case None
    with rm show ?thesis by (simp add: take_snapshot_def has_key table_of_def)
  next
    case (Some kv)
    with rm(3) obtain km where km: "dict kv l = Some km" by (auto elim: tables_okE)
    show ?thesis
      using Some rm km get_key [OF km, of "encode_pdf_name t"]
      by (cases "km (encode_pdf_name t)")
        (simp_all add: take_snapshot_def has_key [OF rm(1)] get_key [OF rm(1) Some] has_key [OF km] table_of_def Let_def)
  qed
qed

lemma distinct_map_sort: "distinct (map f xs) \<Longrightarrow> distinct (map f (sort_key g xs))"
  by (simp add: distinct_map)

lemma take_snapshot_scan:
  assumes "sound doc l"
  shows "scan_of (stored doc l t) pre (take_snapshot lib doc t pre l)"
proof (cases "table_of doc t l")
  case None
  with lookup_eq [OF assms] show ?thesis by (simp add: take_snapshot_eq [OF assms] scan_of_def)
next
  case (Some d)
  obtain m where m: "dict d l = Some m" "stored doc l t = strings_of d l" "\<forall>k h. m k = Some h \<longrightarrow> str h l \<noteq> None \<and> k \<in> range encode_pdf_name"
    by (rule table_dictE [OF assms Some])
  let ?ks = "filter (\<lambda>pk. starts_with (decode_pdf_name pk) pre \<and> pd_is_string lib (pd_get_key lib d pk l) l) (pd_get_keys lib d l)"
  let ?f = "\<lambda>pk. KV (decode_pdf_name pk) (pd_string_value lib (pd_get_key lib d pk l) l)"
  have keys: "distinct (pd_get_keys lib d l)" "set (pd_get_keys lib d l) = dom m" using get_keys [OF m(1)] by simp_all
  have val: "pd_get_key lib d pk l = h \<and> str h l = Some (pd_string_value lib h l)" if "m pk = Some h" for pk h
    using get_key [OF m(1) that] m(3) that string_value [of h l] by auto
  have snap: "take_snapshot lib doc t pre l = sort_key kv_key (map ?f ?ks)"
    by (simp add: take_snapshot_eq [OF assms] Some snapshot_loop_eq)
  have dec: "inj_on decode_pdf_name (set ?ks)"
  proof (rule inj_onI)
    fix x y assume "x \<in> set ?ks" "y \<in> set ?ks" and eq: "decode_pdf_name x = decode_pdf_name y"
    then have "x \<in> dom m" "y \<in> dom m" using keys(2) by auto
    with m(3) have "x \<in> range encode_pdf_name" "y \<in> range encode_pdf_name" by blast+
    with eq show "x = y" by auto
  qed
  then have "distinct (map decode_pdf_name ?ks)" using keys(1) by (simp add: distinct_map)
  then have dist: "distinct (map kv_key (map ?f ?ks))" by (simp add: comp_def)
  have "distinct (map kv_key (sort_key kv_key (map ?f ?ks)))"
    using dist by (rule distinct_map_sort)
  then have sorted: "sorted_wrt (<) (map kv_key (take_snapshot lib doc t pre l))"
    by (simp add: snap strict_sorted_iff)
  have "set (map ?f ?ks) = {KV k v | k v. strings_of d l k = Some v \<and> prefix pre k}"
  proof (intro set_eqI iffI)
    fix kv assume "kv \<in> set (map ?f ?ks)"
    then obtain pk h where pk: "m pk = Some h" "starts_with (decode_pdf_name pk) pre" "kv = ?f pk" using keys(2) by auto
    with m(3) obtain k where k: "pk = encode_pdf_name k" by blast
    with pk val [OF pk(1)] m(1) have "strings_of d l k = Some (pd_string_value lib h l)" "kv = KV k (pd_string_value lib h l)"
      by (simp_all add: strings_of_def)
    with pk(2) k show "kv \<in> {KV k v | k v. strings_of d l k = Some v \<and> prefix pre k}" by (auto simp: starts_with_prefix)
  next
    fix kv assume "kv \<in> {KV k v | k v. strings_of d l k = Some v \<and> prefix pre k}"
    then obtain k v where kv: "kv = KV k v" "strings_of d l k = Some v" "prefix pre k" by blast
    with m(1) obtain h where h: "m (encode_pdf_name k) = Some h" "str h l = Some v"
      by (auto simp: strings_of_def bind_eq_Some_conv)
    with val [OF h(1)] have "pd_string_value lib (pd_get_key lib d (encode_pdf_name k) l) l = v" by simp
    moreover have "encode_pdf_name k \<in> set ?ks"
      using h val [OF h(1)] kv(3) keys(2) by (auto simp: starts_with_prefix is_string)
    ultimately show "kv \<in> set (map ?f ?ks)" using kv(1) by (auto intro!: rev_image_eqI)
  qed
  then show ?thesis using sorted by (simp add: scan_of_def snap m(2))
qed

lemma qpdf_scan_ok:
  assumes "qpdf_at lib dict str saved self t doc path w"
  shows "\<exists>kvs. qpdf_prefix_scan lib self pre w = Some (Inr kvs, w) \<and> scan_of (stored doc (pw_lib w) t) pre kvs"
proof -
  obtain s where s: "pw_objects w self = Some \<lparr>pb_state = Some s, pb_table_name = t\<rparr>" "open_pdf (Some s) w = Some doc"
    "sound doc (pw_lib w)" by (rule atE [OF assms])
  let ?snap = "take_snapshot lib doc t pre (pw_lib w)"
  let ?st = "\<lparr>pq_state = Some s, pq_table_name = t, pq_prefix = pre, pq_done = False, pq_snapshot = None, pq_cursor = 0\<rparr>"
  let ?st1 = "?st\<lparr>pq_snapshot := Some ?snap\<rparr>"
  have same: "qpdf_scan_pull lib ?st w = qpdf_scan_pull lib ?st1 w"
    by (simp add: qpdf_scan_pull_def s(2) Let_def)
  have stream: "qpdf_stream_scan lib self pre w = Some (Inr (make_stream_handle (qpdf_scan_pull lib) ?st), w)"
    by (simp add: qpdf_stream_scan_def if_open_at [OF s(1,2)] io_return_def)
  obtain cs s' where y: "yields (qpdf_scan_pull lib) ?st1 w cs None s' w" "concat cs = ?snap"
    using scan_chunks [of ?st1 ?snap w] by auto
  have "yields (qpdf_scan_pull lib) ?st w cs None s' w" by (rule yields_same_pull [of "qpdf_scan_pull lib", OF same y(1)])
  from collect_yields [OF erased_yields [OF this]] y(2) have "qpdf_prefix_scan lib self pre w = Some (Inr ?snap, w)"
    by (simp add: qpdf_prefix_scan_def io_bind_def stream)
  with take_snapshot_scan [OF s(3)] show ?thesis by blast
qed

end

text \<open>
  A library of PDF objects and files that keeps the laws of \<open>qpdf_laws\<close>: they can hold, and the QPDF backend runs over it.
\<close>

subsection \<open>A library over a list of objects\<close>

text \<open>A handle is an index; a document's catalog is object 0. Writing fails while \<open>mq_full\<close>.\<close>

datatype mini_obj = mini_null | mini_dict "(string \<times> nat) list" | mini_string string

record mini_qpdf =
  mq_objs :: "mini_obj list"
  mq_files :: "string \<Rightarrow> (string \<Rightarrow> contents) option"
  mq_full :: bool

definition mini_obj_at :: "nat \<Rightarrow> mini_qpdf \<Rightarrow> mini_obj" where
  "mini_obj_at h l = (if h < length (mq_objs l) then mq_objs l ! h else mini_null)"

definition mini_pairs :: "nat \<Rightarrow> mini_qpdf \<Rightarrow> (string \<times> nat) list option" where
  "mini_pairs h l = (case mini_obj_at h l of mini_dict kvs \<Rightarrow> Some kvs | _ \<Rightarrow> None)"

definition mini_entries :: "nat \<Rightarrow> mini_qpdf \<Rightarrow> (string \<Rightarrow> nat option) option" where
  "mini_entries h l = map_option map_of (mini_pairs h l)"

definition mini_text :: "nat \<Rightarrow> mini_qpdf \<Rightarrow> string option" where
  "mini_text h l = (case mini_obj_at h l of mini_string v \<Rightarrow> Some v | _ \<Rightarrow> None)"

definition mini_set :: "nat \<Rightarrow> ((string \<times> nat) list \<Rightarrow> (string \<times> nat) list) \<Rightarrow> mini_qpdf \<Rightarrow> mini_qpdf" where
  "mini_set h f l = (case mini_pairs h l of None \<Rightarrow> l | Some kvs \<Rightarrow> l\<lparr>mq_objs := (mq_objs l)[h := mini_dict (f kvs)]\<rparr>)"

definition mini_new :: "mini_obj \<Rightarrow> mini_qpdf \<Rightarrow> nat \<times> mini_qpdf" where
  "mini_new x l = (length (mq_objs l), l\<lparr>mq_objs := mq_objs l @ [x]\<rparr>)"

definition mini_memory :: "mini_qpdf qpdf_lib" where
  "mini_memory =
    \<lparr>pd_new = (\<lambda>l. (0, l)), pd_empty = (\<lambda>_ l. l\<lparr>mq_objs := [mini_dict []]\<rparr>), pd_process_file = (\<lambda>_ _ l. (None, l)),
     pd_write = (\<lambda>_ _ _ l. (None, l)), pd_root = (\<lambda>_ _. 0),
     pd_has_key = (\<lambda>h k l. case mini_pairs h l of None \<Rightarrow> False | Some kvs \<Rightarrow> map_of kvs k \<noteq> None),
     pd_get_key = (\<lambda>h k l. case mini_pairs h l of None \<Rightarrow> 0 | Some kvs \<Rightarrow> (case map_of kvs k of None \<Rightarrow> 0 | Some v \<Rightarrow> v)),
     pd_get_keys = (\<lambda>h l. case mini_pairs h l of None \<Rightarrow> [] | Some kvs \<Rightarrow> sort (remdups (map fst kvs))),
     pd_replace_key = (\<lambda>h k v. mini_set h (AList.update k v)), pd_remove_key = (\<lambda>h k. mini_set h (AList.delete k)),
     pd_new_dictionary = mini_new (mini_dict []), pd_make_indirect = (\<lambda>_ d l. (d, l)),
     pd_new_string = (\<lambda>v. mini_new (mini_string v)), pd_is_string = (\<lambda>h l. mini_text h l \<noteq> None),
     pd_string_value = (\<lambda>h l. case mini_text h l of None \<Rightarrow> [] | Some v \<Rightarrow> v),
     fs_remove = (\<lambda>p l. (''Success'', l\<lparr>mq_files := (mq_files l)(p := None)\<rparr>)),
     fs_rename = (\<lambda>a b l. if mq_files l a = None then (Some ''no such file'', l)
       else (None, l\<lparr>mq_files := (mq_files l)(a := None, b := mq_files l a)\<rparr>)),
     fs_exists = (\<lambda>p l. mq_files l p \<noteq> None), fs_create_directories = (\<lambda>_ l. (None, l)), fs_parent_path = (\<lambda>p. [])\<rparr>"

definition mini_pdf :: "mini_qpdf qpdf_lib" where
  "mini_pdf = mini_memory\<lparr>pd_write := (\<lambda>doc p lin l.
     if mq_full l then (Some ''disk full'', l)
     else (None, l\<lparr>mq_files := (mq_files l)(p \<mapsto> (\<lambda>t k. lookup_string mini_memory doc t k l))\<rparr>))\<rparr>"

lemma mini_pdf_fields [simp]:
  "pd_root mini_pdf doc l = 0"
  "pd_has_key mini_pdf h k l = (case mini_pairs h l of None \<Rightarrow> False | Some kvs \<Rightarrow> map_of kvs k \<noteq> None)"
  "pd_get_key mini_pdf h k l = (case mini_pairs h l of None \<Rightarrow> 0 | Some kvs \<Rightarrow> (case map_of kvs k of None \<Rightarrow> 0 | Some v \<Rightarrow> v))"
  "pd_get_keys mini_pdf h l = (case mini_pairs h l of None \<Rightarrow> [] | Some kvs \<Rightarrow> sort (remdups (map fst kvs)))"
  "pd_replace_key mini_pdf h k x = mini_set h (AList.update k x)" "pd_remove_key mini_pdf h k = mini_set h (AList.delete k)"
  "pd_new_dictionary mini_pdf = mini_new (mini_dict [])" "pd_make_indirect mini_pdf doc d l = (d, l)"
  "pd_new_string mini_pdf v = mini_new (mini_string v)" "pd_is_string mini_pdf h l = (mini_text h l \<noteq> None)"
  "pd_string_value mini_pdf h l = (case mini_text h l of None \<Rightarrow> [] | Some v \<Rightarrow> v)"
  "fs_remove mini_pdf p l = (''Success'', l\<lparr>mq_files := (mq_files l)(p := None)\<rparr>)"
  "fs_rename mini_pdf a b l = (if mq_files l a = None then (Some ''no such file'', l)
    else (None, l\<lparr>mq_files := (mq_files l)(a := None, b := mq_files l a)\<rparr>))"
  "pd_write mini_pdf doc p lin l = (if mq_full l then (Some ''disk full'', l)
     else (None, l\<lparr>mq_files := (mq_files l)(p \<mapsto> (\<lambda>t k. lookup_string mini_memory doc t k l))\<rparr>))"
  by (simp_all add: mini_pdf_def mini_memory_def)

lemma mini_lookup: "lookup_string mini_memory doc t k l = lookup_string mini_pdf doc t k l"
  by (simp add: lookup_string_def mini_pdf_def Let_def)

lemma mini_files_same [simp]:
  "mini_entries h (l\<lparr>mq_files := fs\<rparr>) = mini_entries h l" "mini_text h (l\<lparr>mq_files := fs\<rparr>) = mini_text h l"
  by (simp_all add: mini_entries_def mini_pairs_def mini_text_def mini_obj_at_def)

lemma mini_set_ok:
  assumes "mini_entries d l = Some m" "\<And>kvs. map_of (f kvs) = g (map_of kvs)"
  shows "mini_entries d (mini_set d f l) = Some (g m)" "x \<noteq> d \<Longrightarrow> mini_entries x (mini_set d f l) = mini_entries x l"
    "x \<noteq> d \<Longrightarrow> mini_text x (mini_set d f l) = mini_text x l" "mq_files (mini_set d f l) = mq_files l"
proof -
  from assms(1) obtain kvs where kvs: "mini_pairs d l = Some kvs" "m = map_of kvs" by (auto simp: mini_entries_def)
  then have d: "d < length (mq_objs l)" by (auto simp: mini_pairs_def mini_obj_at_def split: if_splits)
  from kvs(1) have e: "mini_set d f l = l\<lparr>mq_objs := (mq_objs l)[d := mini_dict (f kvs)]\<rparr>" by (simp add: mini_set_def)
  show "mini_entries d (mini_set d f l) = Some (g m)"
    using d kvs(2) assms(2) by (simp add: e mini_entries_def mini_pairs_def mini_obj_at_def)
  show "x \<noteq> d \<Longrightarrow> mini_entries x (mini_set d f l) = mini_entries x l" "x \<noteq> d \<Longrightarrow> mini_text x (mini_set d f l) = mini_text x l"
    "mq_files (mini_set d f l) = mq_files l"
    by (simp_all add: e mini_entries_def mini_pairs_def mini_text_def mini_obj_at_def)
qed

lemma mini_new_ok:
  assumes "mini_new x l = (h, l')"
  shows "mini_entries h l = None" "mini_text h l = None" "mini_obj_at h l' = x" "mq_files l' = mq_files l"
    "y \<noteq> h \<Longrightarrow> mini_entries y l' = mini_entries y l" "y \<noteq> h \<Longrightarrow> mini_text y l' = mini_text y l"
  using assms by (auto simp: mini_new_def mini_entries_def mini_pairs_def mini_text_def mini_obj_at_def nth_append)

interpretation mini_pdf: qpdf_laws mini_pdf mini_entries mini_text "\<lambda>p l. mq_files l p"
proof
  show "mini_entries d l = Some m \<Longrightarrow> pd_has_key mini_pdf d k l = (m k \<noteq> None)" for d l m k
    by (auto simp: mini_entries_def)
  show "mini_entries d l = Some m \<Longrightarrow> m k = Some h \<Longrightarrow> pd_get_key mini_pdf d k l = h" for d l m k h
    by (auto simp: mini_entries_def)
  show "mini_entries d l = Some m \<Longrightarrow> distinct (pd_get_keys mini_pdf d l) \<and> set (pd_get_keys mini_pdf d l) = dom m" for d l m
  proof -
    assume "mini_entries d l = Some m"
    then obtain kvs where "mini_pairs d l = Some kvs" "m = map_of kvs" by (auto simp: mini_entries_def)
    then show ?thesis by (simp add: dom_map_of_conv_image_fst)
  qed
  show "pd_is_string mini_pdf h l = (mini_text h l \<noteq> None)" for h l by simp
  show "mini_text h l = Some v \<Longrightarrow> pd_string_value mini_pdf h l = v" for h l v by simp
  show "mini_entries h l \<noteq> None \<Longrightarrow> mini_text h l = None" for h l
    by (auto simp: mini_entries_def mini_pairs_def mini_text_def split: mini_obj.splits)
  show "mini_entries d l = Some m \<Longrightarrow> mini_entries d (pd_replace_key mini_pdf d k h l) = Some (m(k \<mapsto> h)) \<and>
      unchanged mini_pdf mini_entries mini_text (\<lambda>p l. mq_files l p) {d} {} l (pd_replace_key mini_pdf d k h l)" for d l m k h
    using mini_set_ok [of d l m "AList.update k h" "\<lambda>m. m(k \<mapsto> h)"] by (simp add: unchanged_def update_conv')
  show "mini_entries d l = Some m \<Longrightarrow> mini_entries d (pd_remove_key mini_pdf d k l) = Some (m(k := None)) \<and>
      unchanged mini_pdf mini_entries mini_text (\<lambda>p l. mq_files l p) {d} {} l (pd_remove_key mini_pdf d k l)" for d l m k
    using mini_set_ok [of d l m "AList.delete k" "\<lambda>m. m(k := None)"] by (simp add: unchanged_def delete_conv')
  show "pd_new_dictionary mini_pdf l = (d, l') \<Longrightarrow> mini_entries d l = None \<and> mini_text d l = None \<and>
      mini_entries d l' = Some Map.empty \<and> unchanged mini_pdf mini_entries mini_text (\<lambda>p l. mq_files l p) {d} {} l l'" for l d l'
    using mini_new_ok [of "mini_dict []" l d l'] by (simp add: unchanged_def mini_entries_def mini_pairs_def)
  show "pd_make_indirect mini_pdf doc d l = (d', l') \<Longrightarrow> mini_entries d l = Some m \<Longrightarrow>
      (d' = d \<or> mini_entries d' l = None \<and> mini_text d' l = None) \<and> mini_entries d' l' = Some m \<and>
      unchanged mini_pdf mini_entries mini_text (\<lambda>p l. mq_files l p) {d'} {} l l'" for doc d l d' l' m
    by (auto simp: unchanged_def)
  show "pd_new_string mini_pdf v l = (h, l') \<Longrightarrow> mini_entries h l = None \<and> mini_text h l = None \<and> mini_text h l' = Some v \<and>
      unchanged mini_pdf mini_entries mini_text (\<lambda>p l. mq_files l p) {h} {} l l'" for v l h l'
    using mini_new_ok [of "mini_string v" l h l'] by (simp add: unchanged_def mini_text_def)
  show "pd_write mini_pdf doc p lin l = (thrown, l') \<Longrightarrow> doc_ok mini_entries mini_text (pd_root mini_pdf doc l) l \<Longrightarrow>
      unchanged mini_pdf mini_entries mini_text (\<lambda>p l. mq_files l p) {} {p} l l' \<and>
      (thrown = None \<longrightarrow> mq_files l' p = Some (\<lambda>t k. lookup_string mini_pdf doc t k l))" for doc p lin l thrown l'
    by (auto simp: unchanged_def mini_lookup split: if_splits)
  show "fs_rename mini_pdf a b l = (ec, l') \<Longrightarrow>
      (ec = None \<longrightarrow> mq_files l' b = mq_files l a \<and> unchanged mini_pdf mini_entries mini_text (\<lambda>p l. mq_files l p) {} {a, b} l l') \<and>
      (ec \<noteq> None \<longrightarrow> unchanged mini_pdf mini_entries mini_text (\<lambda>p l. mq_files l p) {} {} l l')" for a b l ec l'
    by (auto simp: unchanged_def split: if_splits)
  show "unchanged mini_pdf mini_entries mini_text (\<lambda>p l. mq_files l p) {} {p} l (snd (fs_remove mini_pdf p l))" for p l
    by (simp add: unchanged_def)
qed

end
