(* ===== verification/Pdf_Properties.thy ===== *)
theory Pdf_Properties
  imports Qpdf_Laws
begin

text \<open>
  The properties of the QPDF backend: keys as PDF names, tables in a document and the document in its file.
\<close>

text \<open>
  Every key is a PDF name of safe characters, and is read back from it: an encoded name decodes to its key, and contains only
  letters, digits, \<open>_\<close>, \<open>-\<close>, \<open>.\<close> and \<open>#\<close> after its slash.
\<close>

theorem pdf_names_read_back:
  "decode_pdf_name (encode_pdf_name key) = key \<and>
   list_all (\<lambda>c. is_safe_name_char c \<or> c = hash_sign) (tl (encode_pdf_name key))"
  by (simp add: encoded_chars)

text \<open>An object on table \<open>t\<close> of an empty document.\<close>

definition one_pdf :: "bool \<Rightarrow> mini_qpdf qpdf_world" where
  "one_pdf full = \<lparr>pw_states = [0 \<mapsto> \<lparr>ps_pdf = Some 0, ps_file_path = ''s.pdf'', ps_dirty = False, ps_linearize = False\<rparr>],
     pw_next_state = 1, pw_objects = [1 \<mapsto> \<lparr>pb_state = Some 0, pb_table_name = ''t''\<rparr>], pw_next = 2, pw_scope_pdfs = [(''s'', 0)],
     pw_lib = \<lparr>mq_objs = [mini_dict []], mq_files = [''s.pdf'' \<mapsto> (\<lambda>t k. None)], mq_full = full\<rparr>\<rparr>"

lemma one_pdf_at: "qpdf_at mini_pdf mini_entries mini_text (\<lambda>p l. mq_files l p) 1 ''t'' 0 ''s.pdf'' (one_pdf full)"
proof -
  have "mini_pairs 0 (pw_lib (one_pdf full)) = Some []" by (simp add: mini_pairs_def mini_obj_at_def one_pdf_def)
  then have "lookup_string mini_pdf 0 t k (pw_lib (one_pdf full)) = None"
    "doc_ok mini_entries mini_text 0 (pw_lib (one_pdf full))" for t k
    by (simp_all add: lookup_string_def doc_ok_def mini_entries_def)
  then show ?thesis by (simp add: qpdf_at_def) (simp add: one_pdf_def)
qed

text \<open>
  C20: A batch on QPDF changes the document and then the file: the operations up to the first put without a value take effect on
  their table in memory, no other table changes, and the file, which the call itself writes through a temporary file and a
  rename, then holds the whole document, if the batch reports success, or exactly what it held. A batch that reports success had
  a value for every put. The library keeps its dictionaries and strings apart, and the file system's rename replaces a file as a
  whole or fails.
\<close>

theorem qpdf_batch_writes_through:
  assumes "qpdf_laws lib dict str saved" "qpdf_at lib dict str saved self t doc path w"
  shows "\<exists>r w'. qpdf_batch lib self ops w = Some (r, w') \<and> qpdf_at lib dict str saved self t doc path w' \<and>
    (\<forall>t'. (\<lambda>k. lookup_string lib doc t' k (pw_lib w')) =
      (if t' = t then fold apply_op (takeWhile op_wf ops) (\<lambda>k. lookup_string lib doc t k (pw_lib w))
       else (\<lambda>k. lookup_string lib doc t' k (pw_lib w)))) \<and>
    saved path (pw_lib w') =
      (if r = Inr () then Some (\<lambda>t k. lookup_string lib doc t k (pw_lib w')) else saved path (pw_lib w)) \<and>
    (r = Inr () \<longrightarrow> list_all op_wf ops)"
  by (rule qpdf_laws.qpdf_batch_ok [OF assms])

lemma qpdf_batch_writes_through_witness:
  "\<exists>r w'. qpdf_batch mini_pdf 1 [\<lparr>op_kind = put_kind, op_cf_name = [], op_key = ''a b'', op_value = Some ''v''\<rparr>,
      \<lparr>op_kind = put_kind, op_cf_name = [], op_key = ''c'', op_value = None\<rparr>] (one_pdf False) = Some (r, w') \<and>
    lookup_string mini_pdf 0 ''t'' ''a b'' (pw_lib w') = Some ''v'' \<and> r \<noteq> Inr () \<and>
    mq_files (pw_lib w') ''s.pdf'' = Some (\<lambda>t k. None)"
proof -
  let ?ops = "[\<lparr>op_kind = put_kind, op_cf_name = [], op_key = ''a b'', op_value = Some ''v''\<rparr>,
      \<lparr>op_kind = put_kind, op_cf_name = [], op_key = ''c'', op_value = None\<rparr>]"
  obtain r w' where w': "qpdf_batch mini_pdf 1 ?ops (one_pdf False) = Some (r, w')"
    "\<forall>t'. (\<lambda>k. lookup_string mini_pdf 0 t' k (pw_lib w')) =
      (if t' = ''t'' then fold apply_op (takeWhile op_wf ?ops) (\<lambda>k. lookup_string mini_pdf 0 ''t'' k (pw_lib (one_pdf False)))
       else (\<lambda>k. lookup_string mini_pdf 0 t' k (pw_lib (one_pdf False))))"
    "mq_files (pw_lib w') ''s.pdf'' = (if r = Inr () then Some (\<lambda>t k. lookup_string mini_pdf 0 t k (pw_lib w'))
       else mq_files (pw_lib (one_pdf False)) ''s.pdf'')"
    "r = Inr () \<longrightarrow> list_all op_wf ?ops"
    using qpdf_batch_writes_through [OF mini_pdf.qpdf_laws_axioms one_pdf_at, of ?ops] by blast
  have "lookup_string mini_pdf 0 ''t'' ''a b'' (pw_lib w') = Some ''v''"
    using fun_cong [OF w'(2) [rule_format, of "''t''"], of "''a b''"] by (simp add: op_wf_def apply_op_def)
  moreover have "r \<noteq> Inr ()" using w'(4) by (auto simp: op_wf_def)
  ultimately show ?thesis using w'(1,3) by (intro exI [of _ r] exI [of _ w']) (simp add: one_pdf_def)
qed

text \<open>
  A scan of QPDF returns the pairs whose key has the prefix, under their whole keys and in their order, however the names of the
  document are ordered; a get returns the value, but an empty value reads as absent.
\<close>

theorem qpdf_table_read:
  assumes "qpdf_laws lib dict str saved" "qpdf_at lib dict str saved self t doc path w"
    and "\<And>v. lookup_string lib doc t k (pw_lib w) = Some v \<Longrightarrow> length v < 2 ^ 32"
  shows "(\<exists>kvs. qpdf_prefix_scan lib self pre w = Some (Inr kvs, w) \<and> scan_of (\<lambda>k. lookup_string lib doc t k (pw_lib w)) pre kvs) \<and>
    qpdf_get lib self k w = Some (Inr (case lookup_string lib doc t k (pw_lib w) of
      None \<Rightarrow> None | Some v \<Rightarrow> if v = [] then None else Some v), w)"
  using qpdf_laws.qpdf_scan_ok [OF assms(1,2)] qpdf_laws.qpdf_get_ok [OF assms] by blast

text \<open>Two keys whose names are ordered the other way round: \<open>aB\<close> and \<open>a~\<close>, the latter named \<open>a#7E\<close>.\<close>

definition two_keys :: "mini_qpdf qpdf_world" where
  "two_keys = (one_pdf False)\<lparr>pw_states := [0 \<mapsto> \<lparr>ps_pdf = Some 0, ps_file_path = ''s.pdf'', ps_dirty = True, ps_linearize = False\<rparr>],
     pw_lib := \<lparr>mq_objs = [mini_dict [(''/CelerKV'', 1)], mini_dict [(''/t'', 2)], mini_dict [(''/a#7E'', 3), (''/aB'', 4)],
       mini_string ''x'', mini_string []], mq_files = Map.empty, mq_full = False\<rparr>\<rparr>"

lemma two_keys_objects:
  "mini_pairs 0 (pw_lib two_keys) = Some [(''/CelerKV'', 1)]" "mini_pairs 1 (pw_lib two_keys) = Some [(''/t'', 2)]"
  "mini_pairs (Suc 0) (pw_lib two_keys) = Some [(''/t'', 2)]"
  "mini_pairs 2 (pw_lib two_keys) = Some [(''/a#7E'', 3), (''/aB'', 4)]"
  "mini_text 3 (pw_lib two_keys) = Some ''x''" "mini_text 4 (pw_lib two_keys) = Some []"
  by (simp_all add: mini_pairs_def mini_text_def mini_obj_at_def two_keys_def nth_Cons')

lemma two_keys_at: "qpdf_at mini_pdf mini_entries mini_text (\<lambda>p l. mq_files l p) 1 ''t'' 0 ''s.pdf'' two_keys"
proof -
  have names: "''/a#7E'' = encode_pdf_name ''a~''" "''/aB'' = encode_pdf_name ''aB''" by code_simp+
  then have range: "''/a#7E'' \<in> range encode_pdf_name" "''/aB'' \<in> range encode_pdf_name" by (blast intro: rangeI)+
  have "table_ok mini_entries mini_text 2 (pw_lib two_keys)"
    using range by (auto simp: table_ok_def mini_entries_def two_keys_objects split: if_splits)
  then have "tables_ok mini_entries mini_text 0 1 (pw_lib two_keys)"
    by (auto simp: tables_ok_def mini_entries_def two_keys_objects inj_on_def split: if_splits)
  then have "doc_ok mini_entries mini_text 0 (pw_lib two_keys)"
    by (auto simp: doc_ok_def mini_entries_def two_keys_objects split: if_splits)
  then show ?thesis by (simp add: qpdf_at_def) (simp add: two_keys_def one_pdf_def)
qed

lemma qpdf_table_read_witness:
  "qpdf_get mini_pdf 1 ''aB'' two_keys = Some (Inr None, two_keys) \<and>
   qpdf_prefix_scan mini_pdf 1 ''a'' two_keys = Some (Inr [KV ''aB'' [], KV ''a~'' ''x''], two_keys)"
proof -
  let ?m = "\<lambda>k. lookup_string mini_pdf 0 ''t'' k (pw_lib two_keys)"
  have names: "encode_pdf_name ''t'' = ''/t''" "encode_pdf_name ''aB'' = ''/aB''" "encode_pdf_name ''a~'' = ''/a#7E''" by code_simp+
  have m: "?m k = (if k = ''a~'' then Some ''x'' else if k = ''aB'' then Some [] else None)" for k
    using encode_name_eq [of k "''aB''"] encode_name_eq [of k "''a~''"]
    by (simp add: lookup_string_def two_keys_objects names Let_def del: encode_name_eq)
  have len: "length v < 2 ^ 32" if "?m ''aB'' = Some v" for v using that by (simp add: m)
  obtain kvs where kvs: "qpdf_prefix_scan mini_pdf 1 ''a'' two_keys = Some (Inr kvs, two_keys)" "scan_of ?m ''a'' kvs"
    and get: "qpdf_get mini_pdf 1 ''aB'' two_keys = Some (Inr None, two_keys)"
    using qpdf_table_read [where k = "''aB''" and pre = "''a''", OF mini_pdf.qpdf_laws_axioms two_keys_at] len by (auto simp: m)
  have "scan_of ?m ''a'' [KV ''aB'' [], KV ''a~'' ''x'']"
    by (auto simp: scan_of_def m split: if_splits)
  from scan_of_unique [OF kvs(2) this] kvs(1) get show ?thesis by simp
qed

end
