(* ===== verification/Async_Stream.thy ===== *)
theory Async_Stream
  imports Stream_Contract
begin

text \<open>
  Pollable streams (\<open>include/celer/core/poll_result.hpp\<close>, \<open>include/celer/core/async_stream.hpp\<close>). A poll gives one of five
  results. An implementation is a state with the functions of its vtable; a combinator takes the vtable of its source and gives its
  own. The shared atomics of \<open>StreamControl\<close> are 32-bit words, each operation on one of them a step.
\<close>

subsection \<open>Poll results, budgets, demand\<close>

datatype PollKind = kind_Emit | kind_Pending | kind_Yield | kind_Done | kind_Error

datatype 'a PollResult = Emit "'a list" | Pending | Yield | Done | PollErr error

fun poll_kind :: "'a PollResult \<Rightarrow> PollKind" where
  "poll_kind (Emit c) = kind_Emit"
| "poll_kind Pending = kind_Pending"
| "poll_kind Yield = kind_Yield"
| "poll_kind Done = kind_Done"
| "poll_kind (PollErr e) = kind_Error"

record StreamBudget =
  bg_max_chunks :: "32 word"
  bg_max_bytes :: "32 word"
  bg_max_ns :: "64 word"

definition default_budget :: StreamBudget where
  "default_budget = \<lparr>bg_max_chunks = 1, bg_max_bytes = 64 * 1024, bg_max_ns = 50000\<rparr>"

definition network_budget :: StreamBudget where
  "network_budget = \<lparr>bg_max_chunks = 16, bg_max_bytes = 8 * 1024 * 1024, bg_max_ns = 100000000\<rparr>"

definition local_budget :: StreamBudget where
  "local_budget = \<lparr>bg_max_chunks = 1, bg_max_bytes = 64 * 1024, bg_max_ns = 50000\<rparr>"

definition unbounded_budget :: StreamBudget where
  "unbounded_budget = \<lparr>bg_max_chunks = - 1, bg_max_bytes = - 1, bg_max_ns = - 1\<rparr>"

record StreamControl =
  ct_requested :: "32 word"
  ct_in_flight :: "32 word"
  ct_buffered :: "32 word"
  ct_cancelled :: bool

definition default_high_watermark :: "32 word" where "default_high_watermark = 16"

definition should_advance :: "StreamControl \<Rightarrow> bool" where
  "should_advance c \<longleftrightarrow> ct_requested c > 0 \<and> ct_buffered c < default_high_watermark \<and> \<not> ct_cancelled c"

definition control_request :: "32 word \<Rightarrow> StreamControl \<Rightarrow> StreamControl" where
  "control_request n c = c\<lparr>ct_requested := ct_requested c + n\<rparr>"

definition on_emit :: "StreamControl \<Rightarrow> StreamControl" where
  "on_emit c = c\<lparr>ct_requested := ct_requested c - 1, ct_buffered := ct_buffered c + 1\<rparr>"

definition on_consume :: "StreamControl \<Rightarrow> StreamControl" where
  "on_consume c = c\<lparr>ct_buffered := ct_buffered c - 1\<rparr>"

definition control_cancel :: "StreamControl \<Rightarrow> StreamControl" where
  "control_cancel c = c\<lparr>ct_cancelled := True\<rparr>"

text \<open>\<open>TaskContext\<close>: the worker that polls; its scheduler is in \<open>Scheduler\<close>.\<close>

record TaskContext =
  tc_worker_id :: "32 word"

subsection \<open>Handles\<close>

type_synonym ('w, 's, 'a) poll = "StreamBudget \<Rightarrow> TaskContext \<Rightarrow> 's \<Rightarrow> 'w \<Rightarrow> ('a PollResult \<times> 's \<times> 'w) option"

record ('w, 's, 'a) AsyncStreamVTable =
  av_poll :: "('w, 's, 'a) poll"
  av_request :: "nat \<Rightarrow> 's \<Rightarrow> 's"
  av_cancel :: "'s \<Rightarrow> 's"
  av_clone :: "'s \<Rightarrow> 's"

text \<open>A handle that was moved from has no context: polling or cloning it breaks an assertion, the rest does nothing.\<close>

definition async_poll :: "('w, 's, 'a) AsyncStreamVTable \<Rightarrow> ('w, 's option, 'a) poll" where
  "async_poll vt budget cx h w = (case h of
      None \<Rightarrow> None
    | Some ctx \<Rightarrow> (case av_poll vt budget cx ctx w of None \<Rightarrow> None | Some (r, ctx', w') \<Rightarrow> Some (r, Some ctx', w')))"

definition async_request :: "('w, 's, 'a) AsyncStreamVTable \<Rightarrow> nat \<Rightarrow> 's option \<Rightarrow> 's option" where
  "async_request vt n h = map_option (av_request vt n) h"

definition async_cancel :: "('w, 's, 'a) AsyncStreamVTable \<Rightarrow> 's option \<Rightarrow> 's option" where
  "async_cancel vt h = map_option (av_cancel vt) h"

definition async_clone :: "('w, 's, 'a) AsyncStreamVTable \<Rightarrow> 's option \<Rightarrow> 's option option" where
  "async_clone vt h = (case h of None \<Rightarrow> None | Some ctx \<Rightarrow> Some (Some (av_clone vt ctx)))"

subsection \<open>From a pull stream\<close>

record 's SyncBridgeImpl =
  br_source :: 's
  br_done :: bool

definition bridge_poll :: "('w, 's, 'a) pull \<Rightarrow> ('w, 's SyncBridgeImpl, 'a) poll" where
  "bridge_poll src budget cx s w =
     (if br_done s then Some (Done, s, w)
      else case src (br_source s) w of
        None \<Rightarrow> None
      | Some (r, src', w') \<Rightarrow> (let s' = s\<lparr>br_source := src'\<rparr> in
          case r of
            Inl e \<Rightarrow> Some (PollErr e, s', w')
          | Inr None \<Rightarrow> Some (Done, s'\<lparr>br_done := True\<rparr>, w')
          | Inr (Some c) \<Rightarrow> Some (Emit c, s', w')))"

definition to_async_vt :: "('w, 's, 'a) pull \<Rightarrow> ('s \<Rightarrow> 's) \<Rightarrow> ('w, 's SyncBridgeImpl, 'a) AsyncStreamVTable" where
  "to_async_vt src clone = \<lparr>av_poll = bridge_poll src, av_request = (\<lambda>n s. s), av_cancel = (\<lambda>s. s\<lparr>br_done := True\<rparr>),
     av_clone = (\<lambda>s. s\<lparr>br_source := clone (br_source s)\<rparr>)\<rparr>"

definition to_async :: "'s \<Rightarrow> 's SyncBridgeImpl" where
  "to_async s = \<lparr>br_source = s, br_done = False\<rparr>"

subsection \<open>Mapping\<close>

record 's ParMapImpl =
  pm_source :: 's
  pm_source_done :: bool

definition par_map_poll :: "('a \<Rightarrow> 'b) \<Rightarrow> ('w, 's, 'a) AsyncStreamVTable \<Rightarrow> ('w, 's ParMapImpl, 'b) poll" where
  "par_map_poll fn vt budget cx s w =
     (if pm_source_done s then Some (Done, s, w)
      else case av_poll vt budget cx (pm_source s) w of
        None \<Rightarrow> None
      | Some (r, src', w') \<Rightarrow> (let s' = s\<lparr>pm_source := src'\<rparr> in
          case r of
            Emit c \<Rightarrow> Some (Emit (map fn c), s', w')
          | Pending \<Rightarrow> Some (Pending, s', w')
          | Yield \<Rightarrow> Some (Yield, s', w')
          | Done \<Rightarrow> Some (Done, s'\<lparr>pm_source_done := True\<rparr>, w')
          | PollErr e \<Rightarrow> Some (PollErr e, s', w')))"

definition par_map_vt :: "('a \<Rightarrow> 'b) \<Rightarrow> ('w, 's, 'a) AsyncStreamVTable \<Rightarrow> ('w, 's ParMapImpl, 'b) AsyncStreamVTable" where
  "par_map_vt fn vt = \<lparr>av_poll = par_map_poll fn vt, av_request = (\<lambda>n s. s\<lparr>pm_source := av_request vt n (pm_source s)\<rparr>),
     av_cancel = (\<lambda>s. s\<lparr>pm_source := av_cancel vt (pm_source s)\<rparr>), av_clone = (\<lambda>s. s\<lparr>pm_source := av_clone vt (pm_source s)\<rparr>)\<rparr>"

definition par_map :: "'s \<Rightarrow> 's ParMapImpl" where
  "par_map s = \<lparr>pm_source = s, pm_source_done = False\<rparr>"

subsection \<open>Merging several streams\<close>

record 's ParEvalImpl =
  pe_sources :: "'s list"
  pe_done_flags :: "bool list"
  pe_next_idx :: nat

text \<open>The loop of a poll; its first argument is the number of sources not yet tried. The index counts polls in 64 bits and is not taken
  to wrap around.\<close>

fun par_eval_loop :: "('w, 's, 'a) AsyncStreamVTable \<Rightarrow> StreamBudget \<Rightarrow> TaskContext \<Rightarrow> nat \<Rightarrow> 's ParEvalImpl \<Rightarrow> 'w \<Rightarrow>
    ('a PollResult \<times> 's ParEvalImpl \<times> 'w) option" where
  "par_eval_loop vt budget cx 0 s w =
     Some (if list_ex (\<lambda>d. \<not> d) (pe_done_flags s) then Pending else Done, s, w)"
| "par_eval_loop vt budget cx (Suc n) s w =
     (let idx = pe_next_idx s mod length (pe_sources s);
          s1 = s\<lparr>pe_next_idx := pe_next_idx s + 1\<rparr> in
      if pe_done_flags s ! idx then par_eval_loop vt budget cx n s1 w
      else case av_poll vt budget cx (pe_sources s ! idx) w of
        None \<Rightarrow> None
      | Some (r, src', w') \<Rightarrow> (let s2 = s1\<lparr>pe_sources := (pe_sources s)[idx := src']\<rparr> in
          case r of
            Emit c \<Rightarrow> Some (r, s2, w')
          | Pending \<Rightarrow> par_eval_loop vt budget cx n s2 w'
          | Yield \<Rightarrow> par_eval_loop vt budget cx n s2 w'
          | Done \<Rightarrow> par_eval_loop vt budget cx n (s2\<lparr>pe_done_flags := (pe_done_flags s)[idx := True]\<rparr>) w'
          | PollErr e \<Rightarrow> Some (r, s2, w')))"

definition par_eval_poll :: "('w, 's, 'a) AsyncStreamVTable \<Rightarrow> ('w, 's ParEvalImpl, 'a) poll" where
  "par_eval_poll vt budget cx s w =
     (if pe_sources s = [] then Some (Done, s, w) else par_eval_loop vt budget cx (length (pe_sources s)) s w)"

definition par_eval_vt :: "('w, 's, 'a) AsyncStreamVTable \<Rightarrow> ('w, 's ParEvalImpl, 'a) AsyncStreamVTable" where
  "par_eval_vt vt = \<lparr>av_poll = par_eval_poll vt,
     av_request = (\<lambda>n s. s\<lparr>pe_sources := map (av_request vt n) (pe_sources s)\<rparr>),
     av_cancel = (\<lambda>s. s\<lparr>pe_sources := map (av_cancel vt) (pe_sources s)\<rparr>),
     av_clone = (\<lambda>s. \<lparr>pe_sources = map (av_clone vt) (pe_sources s), pe_done_flags = pe_done_flags s, pe_next_idx = 0\<rparr>)\<rparr>"

definition par_eval :: "'s list \<Rightarrow> 's ParEvalImpl" where
  "par_eval srcs = \<lparr>pe_sources = srcs, pe_done_flags = replicate (length srcs) False, pe_next_idx = 0\<rparr>"

subsection \<open>One child at a time\<close>

record ('s, 'c) ConcatMapImpl =
  cm_source :: 's
  cm_active_child :: "'c option"
  cm_source_done :: bool

text \<open>The child that an emitted chunk starts: the loop over the chunk breaks after its first element.\<close>

definition first_child :: "('a \<Rightarrow> 'c) \<Rightarrow> 'a list \<Rightarrow> 'c option \<Rightarrow> 'c option" where
  "first_child fn chunk active = (case chunk of [] \<Rightarrow> active | elem # _ \<Rightarrow> Some (fn elem))"

partial_function (option) concat_map_poll :: "('a \<Rightarrow> 'c) \<Rightarrow> ('w, 's, 'a) AsyncStreamVTable \<Rightarrow> ('w, 'c, 'b) AsyncStreamVTable \<Rightarrow>
    StreamBudget \<Rightarrow> TaskContext \<Rightarrow> ('s, 'c) ConcatMapImpl \<Rightarrow> 'w \<Rightarrow> ('b PollResult \<times> ('s, 'c) ConcatMapImpl \<times> 'w) option" where
  "concat_map_poll fn vt vtc budget cx s w =
     (case cm_active_child s of
        Some child \<Rightarrow> do {
          (r, child', w') \<leftarrow> av_poll vtc budget cx child w;
          (if r \<noteq> Done then Some (r, s\<lparr>cm_active_child := Some child'\<rparr>, w')
           else concat_map_poll fn vt vtc budget cx (s\<lparr>cm_active_child := None\<rparr>) w') }
      | None \<Rightarrow>
          if cm_source_done s then Some (Done, s, w)
          else do {
            (sr, src', w') \<leftarrow> av_poll vt budget cx (cm_source s) w;
            let s' = s\<lparr>cm_source := src'\<rparr>;
            (case sr of
               Emit chunk \<Rightarrow> concat_map_poll fn vt vtc budget cx (s'\<lparr>cm_active_child := first_child fn chunk None\<rparr>) w'
             | Pending \<Rightarrow> Some (Pending, s', w')
             | Yield \<Rightarrow> Some (Yield, s', w')
             | Done \<Rightarrow> Some (Done, s'\<lparr>cm_source_done := True\<rparr>, w')
             | PollErr e \<Rightarrow> Some (PollErr e, s', w')) })"

text \<open>A clone keeps the position of the source and drops the active child.\<close>

definition concat_map_vt :: "('a \<Rightarrow> 'c) \<Rightarrow> ('w, 's, 'a) AsyncStreamVTable \<Rightarrow> ('w, 'c, 'b) AsyncStreamVTable \<Rightarrow>
    ('w, ('s, 'c) ConcatMapImpl, 'b) AsyncStreamVTable" where
  "concat_map_vt fn vt vtc = \<lparr>av_poll = concat_map_poll fn vt vtc,
     av_request = (\<lambda>n s. case cm_active_child s of
         Some c \<Rightarrow> s\<lparr>cm_active_child := Some (av_request vtc n c)\<rparr>
       | None \<Rightarrow> s\<lparr>cm_source := av_request vt n (cm_source s)\<rparr>),
     av_cancel = (\<lambda>s. s\<lparr>cm_active_child := map_option (av_cancel vtc) (cm_active_child s), cm_source := av_cancel vt (cm_source s)\<rparr>),
     av_clone = (\<lambda>s. \<lparr>cm_source = av_clone vt (cm_source s), cm_active_child = None, cm_source_done = cm_source_done s\<rparr>)\<rparr>"

definition concat_map :: "'s \<Rightarrow> ('s, 'c) ConcatMapImpl" where
  "concat_map s = \<lparr>cm_source = s, cm_active_child = None, cm_source_done = False\<rparr>"

subsection \<open>Several children at a time\<close>

record ('s, 'c) MergeMapImpl =
  mm_source :: 's
  mm_active_children :: "'c list"
  mm_max_concurrent :: nat
  mm_source_done :: bool

text \<open>The children that an emitted chunk starts: the loop breaks when the bound is reached, and forgets the rest of the chunk.\<close>

fun start_children :: "('a \<Rightarrow> 'c) \<Rightarrow> nat \<Rightarrow> 'a list \<Rightarrow> 'c list \<Rightarrow> 'c list" where
  "start_children fn max_concurrent [] active = active"
| "start_children fn max_concurrent (elem # chunk) active =
    (let active = active @ [fn elem] in
     if length active \<ge> max_concurrent then active else start_children fn max_concurrent chunk active)"

partial_function (option) merge_activate :: "('a \<Rightarrow> 'c) \<Rightarrow> ('w, 's, 'a) AsyncStreamVTable \<Rightarrow> StreamBudget \<Rightarrow> TaskContext \<Rightarrow>
    ('s, 'c) MergeMapImpl \<Rightarrow> 'w \<Rightarrow> (error option \<times> ('s, 'c) MergeMapImpl \<times> 'w) option" where
  "merge_activate fn vt budget cx s w =
     (if mm_source_done s \<or> length (mm_active_children s) \<ge> mm_max_concurrent s then Some (None, s, w)
      else do {
        (sr, src', w') \<leftarrow> av_poll vt budget cx (mm_source s) w;
        let s' = s\<lparr>mm_source := src'\<rparr>;
        (case sr of
           Emit chunk \<Rightarrow> merge_activate fn vt budget cx
             (s'\<lparr>mm_active_children := start_children fn (mm_max_concurrent s) chunk (mm_active_children s)\<rparr>) w'
         | Pending \<Rightarrow> Some (None, s', w')
         | Yield \<Rightarrow> Some (None, s', w')
         | Done \<Rightarrow> Some (None, s'\<lparr>mm_source_done := True\<rparr>, w')
         | PollErr e \<Rightarrow> Some (Some e, s', w')) })"

text \<open>The loop over the children: the first that emits or fails ends it; those that are done are erased.\<close>

fun merge_children :: "('w, 'c, 'b) AsyncStreamVTable \<Rightarrow> StreamBudget \<Rightarrow> TaskContext \<Rightarrow> 'c list \<Rightarrow> 'c list \<Rightarrow> 'w \<Rightarrow>
    ('b PollResult option \<times> 'c list \<times> 'w) option" where
  "merge_children vtc budget cx before [] w = Some (None, before, w)"
| "merge_children vtc budget cx before (child # rest) w = (case av_poll vtc budget cx child w of
      None \<Rightarrow> None
    | Some (r, child', w') \<Rightarrow> (case r of
          Emit c \<Rightarrow> Some (Some r, before @ child' # rest, w')
        | Pending \<Rightarrow> merge_children vtc budget cx (before @ [child']) rest w'
        | Yield \<Rightarrow> merge_children vtc budget cx (before @ [child']) rest w'
        | Done \<Rightarrow> merge_children vtc budget cx before rest w'
        | PollErr e \<Rightarrow> Some (Some r, before @ child' # rest, w')))"

definition merge_map_poll :: "('a \<Rightarrow> 'c) \<Rightarrow> ('w, 's, 'a) AsyncStreamVTable \<Rightarrow> ('w, 'c, 'b) AsyncStreamVTable \<Rightarrow>
    ('w, ('s, 'c) MergeMapImpl, 'b) poll" where
  "merge_map_poll fn vt vtc budget cx s w = (case merge_activate fn vt budget cx s w of
      None \<Rightarrow> None
    | Some (Some e, s1, w1) \<Rightarrow> Some (PollErr e, s1, w1)
    | Some (None, s1, w1) \<Rightarrow> (case merge_children vtc budget cx [] (mm_active_children s1) w1 of
        None \<Rightarrow> None
      | Some (r, children, w2) \<Rightarrow> (let s2 = s1\<lparr>mm_active_children := children\<rparr> in
          case r of
            Some r \<Rightarrow> Some (r, s2, w2)
          | None \<Rightarrow> Some (if children = [] \<and> mm_source_done s2 then Done else Pending, s2, w2))))"

definition merge_map_vt :: "('a \<Rightarrow> 'c) \<Rightarrow> ('w, 's, 'a) AsyncStreamVTable \<Rightarrow> ('w, 'c, 'b) AsyncStreamVTable \<Rightarrow>
    ('w, ('s, 'c) MergeMapImpl, 'b) AsyncStreamVTable" where
  "merge_map_vt fn vt vtc = \<lparr>av_poll = merge_map_poll fn vt vtc,
     av_request = (\<lambda>n s. s\<lparr>mm_active_children := map (av_request vtc n) (mm_active_children s)\<rparr>),
     av_cancel = (\<lambda>s. s\<lparr>mm_active_children := map (av_cancel vtc) (mm_active_children s), mm_source := av_cancel vt (mm_source s)\<rparr>),
     av_clone = (\<lambda>s. s\<lparr>mm_source := av_clone vt (mm_source s), mm_active_children := map (av_clone vtc) (mm_active_children s)\<rparr>)\<rparr>"

definition merge_map :: "'s \<Rightarrow> nat \<Rightarrow> ('s, 'c) MergeMapImpl" where
  "merge_map s max_c = \<lparr>mm_source = s, mm_active_children = [], mm_max_concurrent = max_c, mm_source_done = False\<rparr>"

subsection \<open>Collecting\<close>

partial_function (option) collect_polls :: "('w, 's, 'a) AsyncStreamVTable \<Rightarrow> 'a list \<Rightarrow> 's \<Rightarrow> 'w \<Rightarrow> ('a list result \<times> 's \<times> 'w) option" where
  "collect_polls vt out s w = do {
     (r, s', w') \<leftarrow> av_poll vt unbounded_budget \<lparr>tc_worker_id = 0\<rparr> s w;
     (case r of
        Emit c \<Rightarrow> collect_polls vt (out @ c) s' w'
      | Pending \<Rightarrow> collect_polls vt out s' w'
      | Yield \<Rightarrow> collect_polls vt out s' w'
      | Done \<Rightarrow> Some (Inr out, s', w')
      | PollErr e \<Rightarrow> Some (Inl e, s', w')) }"

definition collect_blocking :: "('w, 's, 'a) AsyncStreamVTable \<Rightarrow> 's \<Rightarrow> 'w \<Rightarrow> ('a list result \<times> 's \<times> 'w) option" where
  "collect_blocking vt s w = collect_polls vt [] s w"

end
