(* ===== verification/Async_Laws.thy ===== *)
theory Async_Laws
  imports Async_Stream "HOL-Library.Multiset"
begin

text \<open>
  What polling a stream to its end delivers (\<open>delivers\<close>), and what each combinator makes of it. Children and merged streams are
  taken to leave the world alone (\<open>quiet\<close>); the count of their polls is the measure by which a merge ends.
\<close>

subsection \<open>Deliveries\<close>

type_synonym ('w, 's, 'a) polling = "'s \<Rightarrow> 'w \<Rightarrow> ('a PollResult \<times> 's \<times> 'w) option"

inductive delivers :: "('w, 's, 'a) polling \<Rightarrow> 's \<Rightarrow> 'w \<Rightarrow> 'a list list \<Rightarrow> error option \<Rightarrow> 's \<Rightarrow> 'w \<Rightarrow> bool"
  for p where
  delivers_done: "p s w = Some (Done, s', w') \<Longrightarrow> delivers p s w [] None s' w'"
| delivers_err: "p s w = Some (PollErr e, s', w') \<Longrightarrow> delivers p s w [] (Some e) s' w'"
| delivers_emit: "p s w = Some (Emit c, s1, w1) \<Longrightarrow> delivers p s1 w1 cs out s' w' \<Longrightarrow> delivers p s w (c # cs) out s' w'"
| delivers_wait: "p s w = Some (r, s1, w1) \<Longrightarrow> r = Pending \<or> r = Yield \<Longrightarrow> delivers p s1 w1 cs out s' w' \<Longrightarrow>
    delivers p s w cs out s' w'"

text \<open>Two states with the same next poll deliver the same.\<close>

lemma delivers_same_poll:
  assumes "p s w = p s1 w1" "delivers p s1 w1 cs out s' w'"
  shows "delivers p s w cs out s' w'"
  using assms(2,1) by (cases rule: delivers.cases) (auto intro: delivers.intros)

abbreviation collecting :: "('w, 's, 'a) AsyncStreamVTable \<Rightarrow> ('w, 's, 'a) polling" where
  "collecting vt \<equiv> av_poll vt unbounded_budget \<lparr>tc_worker_id = 0\<rparr>"

lemma collect_polls_delivers:
  "delivers (collecting vt) s w cs out s' w' \<Longrightarrow> collect_polls vt acc s w = Some (outcome out (acc @ concat cs), s', w')"
proof (induction arbitrary: acc rule: delivers.induct)
  case (delivers_wait s w r s1 w1 cs out s' w')
  then show ?case by (auto simp: collect_polls.simps [of vt acc s w])
qed (simp_all add: collect_polls.simps)

lemma collect_blocking_delivers:
  "delivers (collecting vt) s w cs out s' w' \<Longrightarrow> collect_blocking vt s w = Some (outcome out (concat cs), s', w')"
  by (simp add: collect_blocking_def collect_polls_delivers)

subsection \<open>Bridges and maps\<close>

lemma bridge_delivers:
  "yields src s w cs out s' w' \<Longrightarrow> \<exists>t. delivers (bridge_poll src b cx) (to_async s) w cs out t w'"
proof (induction rule: yields.induct)
  case (yields_done s w s' w')
  then show ?case by (intro exI) (rule delivers_done, simp add: bridge_poll_def to_async_def)
next
  case (yields_err s w e s' w')
  then show ?case by (intro exI) (rule delivers_err, simp add: bridge_poll_def to_async_def)
next
  case (yields_chunk s w c s1 w1 cs out s' w')
  then obtain t where t: "delivers (bridge_poll src b cx) (to_async s1) w1 cs out t w'" by blast
  have "bridge_poll src b cx (to_async s) w = Some (Emit c, to_async s1, w1)"
    using yields_chunk.hyps by (simp add: bridge_poll_def to_async_def)
  from delivers_emit [of "bridge_poll src b cx", OF this t] show ?case by blast
qed

lemma par_map_delivers:
  "delivers (av_poll vt b cx) s w cs out s' w' \<Longrightarrow>
    \<exists>t. delivers (par_map_poll fn vt b cx) (par_map s) w (map (map fn) cs) out t w'"
proof (induction rule: delivers.induct)
  case (delivers_done s w s' w')
  then show ?case by (intro exI) (simp, rule delivers.delivers_done, simp add: par_map_poll_def par_map_def)
next
  case (delivers_err s w e s' w')
  then show ?case by (intro exI) (simp, rule delivers.delivers_err, simp add: par_map_poll_def par_map_def)
next
  case (delivers_emit s w c s1 w1 cs out s' w')
  then obtain t where t: "delivers (par_map_poll fn vt b cx) (par_map s1) w1 (map (map fn) cs) out t w'" by blast
  have "par_map_poll fn vt b cx (par_map s) w = Some (Emit (map fn c), par_map s1, w1)"
    using delivers_emit.hyps by (simp add: par_map_poll_def par_map_def)
  from delivers.delivers_emit [of "par_map_poll fn vt b cx", OF this t] show ?case by auto
next
  case (delivers_wait s w r s1 w1 cs out s' w')
  then obtain t where t: "delivers (par_map_poll fn vt b cx) (par_map s1) w1 (map (map fn) cs) out t w'" by blast
  obtain q where "par_map_poll fn vt b cx (par_map s) w = Some (q, par_map s1, w1)" "q = Pending \<or> q = Yield"
    using delivers_wait.hyps that [of Pending] that [of Yield] by (auto simp: par_map_poll_def par_map_def)
  from delivers.delivers_wait [of "par_map_poll fn vt b cx", OF this t] show ?case by blast
qed

lemma vt_polls [simp]:
  "av_poll (to_async_vt src clone) = bridge_poll src" "av_poll (par_map_vt fn vt) = par_map_poll fn vt"
  "av_poll (par_eval_vt vt) = par_eval_poll vt" "av_poll (concat_map_vt f vt vtc) = concat_map_poll f vt vtc"
  "av_poll (merge_map_vt f vt vtc) = merge_map_poll f vt vtc"
  by (simp_all add: to_async_vt_def par_map_vt_def par_eval_vt_def concat_map_vt_def merge_map_vt_def)

lemma par_map_collects:
  assumes "yields src s w cs out s' w'"
  shows "\<exists>t. collect_blocking (par_map_vt fn (to_async_vt src clone)) (par_map (to_async s)) w =
    Some (outcome out (map fn (concat cs)), t, w')"
proof -
  obtain t1 where "delivers (collecting (to_async_vt src clone)) (to_async s) w cs out t1 w'"
    using bridge_delivers [OF assms] by auto
  from par_map_delivers [OF this, of fn] obtain t where
    "delivers (collecting (par_map_vt fn (to_async_vt src clone))) (par_map (to_async s)) w (map (map fn) cs) out t w'" by auto
  from collect_blocking_delivers [OF this] show ?thesis by (auto simp: map_concat)
qed

subsection \<open>One child at a time\<close>

lemma concat_child:
  assumes "delivers (av_poll vtc b cx) child w gs None t w1"
    and "delivers (concat_map_poll fn vt vtc b cx) \<lparr>cm_source = s, cm_active_child = None, cm_source_done = False\<rparr> w1 cs out s' w'"
  shows "delivers (concat_map_poll fn vt vtc b cx) \<lparr>cm_source = s, cm_active_child = Some child, cm_source_done = False\<rparr> w (gs @ cs) out s' w'"
  using assms
proof (induction child w gs "None :: error option" t w1 rule: delivers.induct)
  case (delivers_done c w c' w1)
  then have "concat_map_poll fn vt vtc b cx \<lparr>cm_source = s, cm_active_child = Some c, cm_source_done = False\<rparr> w =
      concat_map_poll fn vt vtc b cx \<lparr>cm_source = s, cm_active_child = None, cm_source_done = False\<rparr> w1"
    by (simp add: concat_map_poll.simps [of fn vt vtc b cx "\<lparr>cm_source = s, cm_active_child = Some c, cm_source_done = False\<rparr>"])
  from delivers_same_poll [of "concat_map_poll fn vt vtc b cx", OF this delivers_done.prems] show ?case by simp
next
  case (delivers_emit c w chunk c1 w1 gs c' w2)
  have "concat_map_poll fn vt vtc b cx \<lparr>cm_source = s, cm_active_child = Some c, cm_source_done = False\<rparr> w =
      Some (Emit chunk, \<lparr>cm_source = s, cm_active_child = Some c1, cm_source_done = False\<rparr>, w1)"
    using delivers_emit.hyps(1) by (simp add: concat_map_poll.simps)
  from delivers.delivers_emit [of "concat_map_poll fn vt vtc b cx", OF this delivers_emit.hyps(3) [OF delivers_emit.prems]]
  show ?case by simp
next
  case (delivers_wait c w r c1 w1 gs c' w2)
  then have "concat_map_poll fn vt vtc b cx \<lparr>cm_source = s, cm_active_child = Some c, cm_source_done = False\<rparr> w =
      Some (r, \<lparr>cm_source = s, cm_active_child = Some c1, cm_source_done = False\<rparr>, w1)"
    by (auto simp: concat_map_poll.simps [of fn vt vtc b cx "\<lparr>cm_source = s, cm_active_child = Some c, cm_source_done = False\<rparr>"])
  from delivers.delivers_wait [of "concat_map_poll fn vt vtc b cx", OF this delivers_wait.hyps(2) delivers_wait.hyps(4) [OF delivers_wait.prems]]
  show ?case .
qed

text \<open>Of each chunk of the source, only the first element has a child.\<close>

definition heads :: "'a list list \<Rightarrow> 'a list" where
  "heads cs = concat (map (take 1) cs)"

lemma concat_map_delivers:
  assumes "delivers (av_poll vt b cx) s w cs out s' w'"
    and "\<And>x w. x \<in> set (heads cs) \<Longrightarrow> \<exists>t. delivers (av_poll vtc b cx) (fn x) w (g x) None t w"
  shows "\<exists>t. delivers (concat_map_poll fn vt vtc b cx) (concat_map s) w (concat (map g (heads cs))) out t w'"
  using assms
proof (induction rule: delivers.induct)
  case (delivers_done s w s' w')
  then show ?case
    by (intro exI) (simp add: heads_def, rule delivers.delivers_done, simp add: concat_map_poll.simps concat_map_def)
next
  case (delivers_err s w e s' w')
  then show ?case
    by (intro exI) (simp add: heads_def, rule delivers.delivers_err, simp add: concat_map_poll.simps concat_map_def)
next
  case (delivers_emit s w c s1 w1 cs out s' w')
  have kids: "\<exists>t. delivers (av_poll vtc b cx) (fn x) w (g x) None t w" if "x \<in> set (heads (c # cs))" for x w
    using delivers_emit.prems that by blast
  then obtain t where t: "delivers (concat_map_poll fn vt vtc b cx) (concat_map s1) w1 (concat (map g (heads cs))) out t w'"
    using delivers_emit.IH by (fastforce simp: heads_def)
  have step: "concat_map_poll fn vt vtc b cx (concat_map s) w =
      concat_map_poll fn vt vtc b cx \<lparr>cm_source = s1, cm_active_child = first_child fn c None, cm_source_done = False\<rparr> w1"
    using delivers_emit.hyps(1) by (simp add: concat_map_def concat_map_poll.simps [of fn vt vtc b cx "\<lparr>cm_source = s, cm_active_child = None, cm_source_done = False\<rparr>"])
  show ?case
  proof (cases c)
    case Nil
    with t have "delivers (concat_map_poll fn vt vtc b cx)
      \<lparr>cm_source = s1, cm_active_child = first_child fn c None, cm_source_done = False\<rparr> w1 (concat (map g (heads (c # cs)))) out t w'"
      by (simp add: first_child_def heads_def concat_map_def)
    from delivers_same_poll [of "concat_map_poll fn vt vtc b cx", OF step this] show ?thesis by blast
  next
    case (Cons x xs)
    with kids [of x] obtain u where "delivers (av_poll vtc b cx) (fn x) w1 (g x) None u w1" by (auto simp: heads_def)
    from concat_child [OF this t [unfolded concat_map_def]]
    have "delivers (concat_map_poll fn vt vtc b cx) \<lparr>cm_source = s1, cm_active_child = first_child fn c None, cm_source_done = False\<rparr> w1
      (g x @ concat (map g (heads cs))) out t w'" by (simp add: first_child_def Cons)
    from delivers_same_poll [of "concat_map_poll fn vt vtc b cx", OF step this] show ?thesis by (auto simp: heads_def Cons)
  qed
next
  case (delivers_wait s w r s1 w1 cs out s' w')
  then obtain t where t: "delivers (concat_map_poll fn vt vtc b cx) (concat_map s1) w1 (concat (map g (heads cs))) out t w'" by blast
  obtain q where "concat_map_poll fn vt vtc b cx (concat_map s) w = Some (q, concat_map s1, w1)" "q = Pending \<or> q = Yield"
    using delivers_wait.hyps that [of Pending] that [of Yield]
    by (auto simp: concat_map_def concat_map_poll.simps [of fn vt vtc b cx "\<lparr>cm_source = s, cm_active_child = None, cm_source_done = False\<rparr>"])
  from delivers.delivers_wait [of "concat_map_poll fn vt vtc b cx", OF this t] show ?case by blast
qed

subsection \<open>Merging\<close>

text \<open>A stream that delivers chunks in a number of polls, whatever the world, and then is done.\<close>

inductive quiet :: "('w, 's, 'a) polling \<Rightarrow> nat \<Rightarrow> 's \<Rightarrow> 'a list list \<Rightarrow> bool" for p where
  quiet_done: "\<forall>w. p s w = Some (Done, s', w) \<Longrightarrow> quiet p 0 s []"
| quiet_emit: "\<forall>w. p s w = Some (Emit c, s1, w) \<Longrightarrow> quiet p n s1 cs \<Longrightarrow> quiet p (Suc n) s (c # cs)"
| quiet_wait: "\<forall>w. p s w = Some (r, s1, w) \<Longrightarrow> r = Pending \<or> r = Yield \<Longrightarrow> quiet p n s1 cs \<Longrightarrow> quiet p (Suc n) s cs"

lemma quiet_bridge:
  "pure_yields src s cs None s' \<Longrightarrow> quiet (bridge_poll src b cx) (length cs) (to_async s) cs"
proof (induction s cs "None :: error option" s' rule: pure_yields.induct)
  case (pure_done s s')
  then show ?case by (auto simp: bridge_poll_def to_async_def intro: quiet.intros)
next
  case (pure_chunk s c s1 cs s')
  have "\<forall>w. bridge_poll src b cx (to_async s) w = Some (Emit c, to_async s1, w)"
    using pure_chunk.hyps(1) by (simp add: bridge_poll_def to_async_def)
  from quiet_emit [of "bridge_poll src b cx", OF this pure_chunk.hyps(3)] show ?case by simp
qed

lemma sum_change:
  fixes f g :: "nat \<Rightarrow> 'm :: comm_monoid_add"
  assumes "i < L" "\<forall>j<L. j \<noteq> i \<longrightarrow> f j = g j"
  shows "(\<Sum>j<L. f j) + g i = (\<Sum>j<L. g j) + f i"
proof -
  have "(\<Sum>j\<in>{..<L} - {i}. f j) = (\<Sum>j\<in>{..<L} - {i}. g j)" using assms(2) by (intro sum.cong) auto
  with sum.remove [of "{..<L}" i f] sum.remove [of "{..<L}" i g] assms(1) show ?thesis by (simp add: ac_simps)
qed

text \<open>The state of a merge: \<open>m\<close> bounds the polls that are left, \<open>M\<close> holds the elements still to come.\<close>

definition merging :: "('w, 's, 'a) polling \<Rightarrow> 's ParEvalImpl \<Rightarrow> nat \<Rightarrow> 'a multiset \<Rightarrow> bool" where
  "merging p s m M \<longleftrightarrow> (let L = length (pe_sources s) in length (pe_done_flags s) = L \<and>
     (\<exists>ns css. (\<forall>i<L. \<not> pe_done_flags s ! i \<longrightarrow> quiet p (ns i) (pe_sources s ! i) (css i)) \<and>
        m = (\<Sum>i<L. if pe_done_flags s ! i then 0 else Suc (ns i)) \<and>
        M = (\<Sum>i<L. if pe_done_flags s ! i then {#} else mset (concat (css i)))))"

lemma merging_next [simp]: "merging p (s\<lparr>pe_next_idx := i\<rparr>) m M = merging p s m M"
  by (simp add: merging_def)

lemma merging_poll:
  assumes "merging p s m M" "i < length (pe_sources s)" "\<not> pe_done_flags s ! i"
  obtains r s1 where "\<forall>w. p (pe_sources s ! i) w = Some (r, s1, w)"
    "case r of
       Emit c \<Rightarrow> \<exists>m' M'. merging p (s\<lparr>pe_sources := (pe_sources s)[i := s1]\<rparr>) m' M' \<and> m' < m \<and> M = mset c + M'
     | Pending \<Rightarrow> \<exists>m'. merging p (s\<lparr>pe_sources := (pe_sources s)[i := s1]\<rparr>) m' M \<and> m' < m
     | Yield \<Rightarrow> \<exists>m'. merging p (s\<lparr>pe_sources := (pe_sources s)[i := s1]\<rparr>) m' M \<and> m' < m
     | Done \<Rightarrow> \<exists>m'. merging p (s\<lparr>pe_sources := (pe_sources s)[i := s1], pe_done_flags := (pe_done_flags s)[i := True]\<rparr>) m' M \<and> m' < m
     | PollErr e \<Rightarrow> False"
proof -
  let ?L = "length (pe_sources s)" and ?fl = "pe_done_flags s"
  obtain ns css where inv: "length ?fl = ?L" "\<forall>i<?L. \<not> ?fl ! i \<longrightarrow> quiet p (ns i) (pe_sources s ! i) (css i)"
    "m = (\<Sum>i<?L. if ?fl ! i then 0 else Suc (ns i))" "M = (\<Sum>i<?L. if ?fl ! i then {#} else mset (concat (css i)))"
    using assms(1) by (auto simp: merging_def Let_def)
  from inv(2) assms(2,3) have "quiet p (ns i) (pe_sources s ! i) (css i)" by blast
  then show thesis
  proof (cases rule: quiet.cases)
    case (quiet_done s')
    let ?fl' = "?fl[i := True]"
    have "(\<Sum>j<?L. if ?fl' ! j then 0 else Suc (ns j)) + Suc (ns i) = m + 0"
      unfolding inv(3) using sum_change [OF assms(2), of "\<lambda>j. if ?fl' ! j then 0 else Suc (ns j)" "\<lambda>j. if ?fl ! j then 0 else Suc (ns j)"]
        assms(2,3) inv(1) by simp
    moreover have "(\<Sum>j<?L. if ?fl' ! j then {#} else mset (concat (css j))) = M"
      unfolding inv(4) using sum_change [OF assms(2), of "\<lambda>j. if ?fl' ! j then {#} else mset (concat (css j))"
          "\<lambda>j. if ?fl ! j then {#} else mset (concat (css j))"] assms(2,3) inv(1) quiet_done(2) by simp
    moreover have "\<forall>j<?L. \<not> ?fl' ! j \<longrightarrow> quiet p (ns j) ((pe_sources s)[i := s'] ! j) (css j)"
      using inv(1,2) assms(2) by (auto simp: nth_list_update)
    ultimately have "\<exists>m'. merging p (s\<lparr>pe_sources := (pe_sources s)[i := s'], pe_done_flags := ?fl'\<rparr>) m' M \<and> m' < m"
      using inv(1) by (intro exI [of _ "m - Suc (ns i)"]) (auto simp: merging_def Let_def intro!: exI [of _ ns] exI [of _ css])
    with quiet_done that [of Done s'] show thesis by simp
  next
    case (quiet_emit c s1 n cs)
    let ?ns = "ns(i := n)" and ?css = "css(i := cs)"
    have "(\<Sum>j<?L. if ?fl ! j then 0 else Suc (?ns j)) + Suc (ns i) = m + Suc n"
      unfolding inv(3) using sum_change [OF assms(2), of "\<lambda>j. if ?fl ! j then 0 else Suc (?ns j)" "\<lambda>j. if ?fl ! j then 0 else Suc (ns j)"]
        assms(3) by simp
    then have m: "(\<Sum>j<?L. if ?fl ! j then 0 else Suc (?ns j)) < m" using quiet_emit(1) by simp
    have "(\<Sum>j<?L. if ?fl ! j then {#} else mset (concat (?css j))) + mset (concat (css i)) = M + mset (concat cs)"
      unfolding inv(4) using sum_change [OF assms(2), of "\<lambda>j. if ?fl ! j then {#} else mset (concat (?css j))"
          "\<lambda>j. if ?fl ! j then {#} else mset (concat (css j))"] assms(3) by simp
    then have M: "M = mset c + (\<Sum>j<?L. if ?fl ! j then {#} else mset (concat (?css j)))"
      using quiet_emit(2) by (simp add: union_commute union_lcomm)
    have "\<forall>j<?L. \<not> ?fl ! j \<longrightarrow> quiet p (?ns j) ((pe_sources s)[i := s1] ! j) (?css j)"
      using inv(2) assms(2) quiet_emit(4) by (auto simp: nth_list_update)
    then have "merging p (s\<lparr>pe_sources := (pe_sources s)[i := s1]\<rparr>) (\<Sum>j<?L. if ?fl ! j then 0 else Suc (?ns j))
      (\<Sum>j<?L. if ?fl ! j then {#} else mset (concat (?css j)))"
      using inv(1) by (simp add: merging_def Let_def) (intro exI [of _ ?ns] exI [of _ ?css], simp)
    with m M have "\<exists>m' M'. merging p (s\<lparr>pe_sources := (pe_sources s)[i := s1]\<rparr>) m' M' \<and> m' < m \<and> M = mset c + M'" by blast
    with quiet_emit(3) that [of "Emit c" s1] show thesis by simp
  next
    case (quiet_wait r s1 n)
    let ?ns = "ns(i := n)"
    have "(\<Sum>j<?L. if ?fl ! j then 0 else Suc (?ns j)) + Suc (ns i) = m + Suc n"
      unfolding inv(3) using sum_change [OF assms(2), of "\<lambda>j. if ?fl ! j then 0 else Suc (?ns j)" "\<lambda>j. if ?fl ! j then 0 else Suc (ns j)"]
        assms(3) by simp
    then have m: "(\<Sum>j<?L. if ?fl ! j then 0 else Suc (?ns j)) < m" using quiet_wait(1) by simp
    have "\<forall>j<?L. \<not> ?fl ! j \<longrightarrow> quiet p (?ns j) ((pe_sources s)[i := s1] ! j) (css j)"
      using inv(2) assms(2) quiet_wait(4) by (auto simp: nth_list_update)
    then have "merging p (s\<lparr>pe_sources := (pe_sources s)[i := s1]\<rparr>) (\<Sum>j<?L. if ?fl ! j then 0 else Suc (?ns j)) M"
      using inv(1,4) by (simp add: merging_def Let_def) (intro exI [of _ ?ns] exI [of _ css], simp)
    with m have e: "\<exists>m'. merging p (s\<lparr>pe_sources := (pe_sources s)[i := s1]\<rparr>) m' M \<and> m' < m" by blast
    show thesis by (rule that [of r s1]) (use quiet_wait(2,3) e in auto)
  qed
qed

text \<open>One poll of a merge: it emits, or it makes progress, or every source is done.\<close>

definition merge_result :: "('w, 's, 'a) polling \<Rightarrow> nat \<Rightarrow> 'a multiset \<Rightarrow> 'a PollResult \<Rightarrow> 's ParEvalImpl \<Rightarrow> bool" where
  "merge_result p m M r s' \<longleftrightarrow> (case r of
      Emit c \<Rightarrow> \<exists>m' M'. merging p s' m' M' \<and> m' < m \<and> M = mset c + M'
    | Pending \<Rightarrow> \<exists>m'. merging p s' m' M \<and> m' < m
    | Done \<Rightarrow> M = {#}
    | _ \<Rightarrow> False)"

lemma merge_result_mono: "merge_result p m' M r s' \<Longrightarrow> m' \<le> m \<Longrightarrow> merge_result p m M r s'"
  by (auto simp: merge_result_def split: PollResult.splits intro: less_le_trans)

lemma merging_empty:
  assumes "merging p s m M" "\<forall>i<length (pe_sources s). pe_done_flags s ! i"
  shows "M = {#}"
  using assms by (auto simp: merging_def Let_def)

text \<open>
  The loop, over the last \<open>k\<close> of the sources in the order of the index: unless all of these are done already, something happens.
\<close>

lemma par_eval_loop_ok:
  assumes "merging (av_poll vt b cx) s m M" "pe_sources s \<noteq> []"
  shows "\<exists>r s'. par_eval_loop vt b cx k s w = Some (r, s', w) \<and>
    (merge_result (av_poll vt b cx) m M r s' \<or>
     r = Pending \<and> merging (av_poll vt b cx) s' m M \<and>
       (\<forall>j<k. pe_done_flags s ! ((pe_next_idx s + j) mod length (pe_sources s))) \<and> list_ex (\<lambda>d. \<not> d) (pe_done_flags s))"
  using assms
proof (induction k arbitrary: s m)
  case 0
  let ?p = "av_poll vt b cx"
  show ?case
  proof (cases "list_ex (\<lambda>d. \<not> d) (pe_done_flags s)")
    case True
    with 0 show ?thesis by simp
  next
    case False
    then have "\<forall>i<length (pe_sources s). pe_done_flags s ! i"
      using 0(1) by (auto simp: merging_def Let_def list_ex_length)
    from merging_empty [OF 0(1) this] False show ?thesis by (simp add: merge_result_def)
  qed
next
  case (Suc k)
  let ?p = "av_poll vt b cx" and ?L = "length (pe_sources s)"
  let ?i = "pe_next_idx s mod ?L" and ?s1 = "s\<lparr>pe_next_idx := pe_next_idx s + 1\<rparr>"
  have i: "?i < ?L" using Suc.prems(2) by simp
  show ?case
  proof (cases "pe_done_flags s ! ?i")
    case True
    then have step: "par_eval_loop vt b cx (Suc k) s w = par_eval_loop vt b cx k ?s1 w" by (simp add: Let_def)
    obtain r s' where run: "par_eval_loop vt b cx k ?s1 w = Some (r, s', w)"
      "merge_result ?p m M r s' \<or> r = Pending \<and> merging ?p s' m M \<and>
       (\<forall>j<k. pe_done_flags ?s1 ! ((pe_next_idx ?s1 + j) mod length (pe_sources ?s1))) \<and> list_ex (\<lambda>d. \<not> d) (pe_done_flags ?s1)"
      using Suc.IH [of ?s1 m] Suc.prems by auto
    have "\<forall>j<Suc k. pe_done_flags s ! ((pe_next_idx s + j) mod ?L)"
      if "\<forall>j<k. pe_done_flags s ! ((pe_next_idx s + 1 + j) mod ?L)"
    proof (intro allI impI)
      fix j assume "j < Suc k"
      with that True show "pe_done_flags s ! ((pe_next_idx s + j) mod ?L)" by (cases j) simp_all
    qed
    with run show ?thesis unfolding step by (intro exI [of _ r] exI [of _ s']) auto
  next
    case False
    obtain r s1 where poll: "\<forall>w. ?p (pe_sources s ! ?i) w = Some (r, s1, w)"
      "case r of
         Emit c \<Rightarrow> \<exists>m' M'. merging ?p (s\<lparr>pe_sources := (pe_sources s)[?i := s1]\<rparr>) m' M' \<and> m' < m \<and> M = mset c + M'
       | Pending \<Rightarrow> \<exists>m'. merging ?p (s\<lparr>pe_sources := (pe_sources s)[?i := s1]\<rparr>) m' M \<and> m' < m
       | Yield \<Rightarrow> \<exists>m'. merging ?p (s\<lparr>pe_sources := (pe_sources s)[?i := s1]\<rparr>) m' M \<and> m' < m
       | Done \<Rightarrow> \<exists>m'. merging ?p (s\<lparr>pe_sources := (pe_sources s)[?i := s1], pe_done_flags := (pe_done_flags s)[?i := True]\<rparr>) m' M \<and> m' < m
       | PollErr e \<Rightarrow> False"
      by (rule merging_poll [OF Suc.prems(1) i False])
    let ?s2 = "?s1\<lparr>pe_sources := (pe_sources s)[?i := s1]\<rparr>"
    let ?s3 = "?s2\<lparr>pe_done_flags := (pe_done_flags s)[?i := True]\<rparr>"
    have mg: "merging ?p ?s2 m' M' = merging ?p (s\<lparr>pe_sources := (pe_sources s)[?i := s1]\<rparr>) m' M'"
      "merging ?p ?s3 m' M' = merging ?p (s\<lparr>pe_sources := (pe_sources s)[?i := s1], pe_done_flags := (pe_done_flags s)[?i := True]\<rparr>) m' M'"
      for m' M' by (simp_all add: merging_def)
    have go: ?thesis if "par_eval_loop vt b cx (Suc k) s w = par_eval_loop vt b cx k s4 w" "merging ?p s4 m' M" "m' < m"
      "pe_sources s4 \<noteq> []" for s4 m'
    proof -
      from Suc.IH [OF that(2,4)] obtain r s' where "par_eval_loop vt b cx k s4 w = Some (r, s', w)"
        "merge_result ?p m' M r s' \<or> r = Pending \<and> merging ?p s' m' M" by blast
      moreover have "merge_result ?p m' M r s' \<Longrightarrow> merge_result ?p m M r s'" using merge_result_mono that(3) by fastforce
      moreover have "r = Pending \<Longrightarrow> merging ?p s' m' M \<Longrightarrow> merge_result ?p m M r s'" using that(3) by (auto simp: merge_result_def)
      ultimately show ?thesis unfolding that(1) by blast
    qed
    have ne: "pe_sources ?s2 \<noteq> []" "pe_sources ?s3 \<noteq> []" using Suc.prems(2) by auto
    show ?thesis
    proof (cases r)
      case (Emit c)
      with poll False have "par_eval_loop vt b cx (Suc k) s w = Some (Emit c, ?s2, w)" by (simp add: Let_def)
      moreover have "merge_result ?p m M (Emit c) ?s2" using poll(2) [unfolded Emit PollResult.case] by (simp only: merge_result_def PollResult.case mg)
      ultimately show ?thesis by blast
    next
      case Pending
      with poll False have "par_eval_loop vt b cx (Suc k) s w = par_eval_loop vt b cx k ?s2 w" by (simp add: Let_def)
      with poll(2) Pending go [of ?s2] ne(1) show ?thesis by (auto simp only: mg PollResult.case)
    next
      case Yield
      with poll False have "par_eval_loop vt b cx (Suc k) s w = par_eval_loop vt b cx k ?s2 w" by (simp add: Let_def)
      with poll(2) Yield go [of ?s2] ne(1) show ?thesis by (auto simp only: mg PollResult.case)
    next
      case Done
      with poll False have "par_eval_loop vt b cx (Suc k) s w = par_eval_loop vt b cx k ?s3 w" by (simp add: Let_def)
      with poll(2) Done go [of ?s3] ne(2) show ?thesis by (auto simp only: mg PollResult.case)
    next
      case (PollErr e)
      with poll(2) show ?thesis by simp
    qed
  qed
qed

lemma all_visited: "0 < L \<Longrightarrow> i < L \<Longrightarrow> \<exists>j<L. (n + j) mod L = (i :: nat)"
proof -
  assume L: "0 < L" "i < L"
  let ?j = "(i + (L - n mod L)) mod L"
  have "(n + ?j) mod L = (n mod L + (i + (L - n mod L))) mod L" by (simp add: mod_simps)
  also have "n mod L + (i + (L - n mod L)) = i + L" using L(1) mod_less_divisor [of L n] by linarith
  finally show ?thesis using L by (intro exI [of _ ?j]) simp
qed

lemma par_eval_poll_ok:
  assumes "merging (av_poll vt b cx) s m M"
  shows "\<exists>r s'. par_eval_poll vt b cx s w = Some (r, s', w) \<and> merge_result (av_poll vt b cx) m M r s'"
proof (cases "pe_sources s = []")
  case True
  with assms show ?thesis by (simp add: par_eval_poll_def merge_result_def merging_def)
next
  case False
  let ?L = "length (pe_sources s)"
  obtain r s' where run: "par_eval_loop vt b cx ?L s w = Some (r, s', w)"
    "merge_result (av_poll vt b cx) m M r s' \<or> (\<forall>j<?L. pe_done_flags s ! ((pe_next_idx s + j) mod ?L)) \<and> list_ex (\<lambda>d. \<not> d) (pe_done_flags s)"
    using par_eval_loop_ok [OF assms False, of ?L w] by blast
  have "length (pe_done_flags s) = ?L" using assms by (simp add: merging_def Let_def)
  then have "\<not> ((\<forall>j<?L. pe_done_flags s ! ((pe_next_idx s + j) mod ?L)) \<and> list_ex (\<lambda>d. \<not> d) (pe_done_flags s))"
    using all_visited [of ?L _ "pe_next_idx s"] False by (fastforce simp: list_ex_length)
  with run False show ?thesis by (auto simp: par_eval_poll_def)
qed

lemma par_eval_delivers:
  assumes "merging (av_poll vt b cx) s m M"
  shows "\<exists>cs t. delivers (par_eval_poll vt b cx) s w cs None t w \<and> mset (concat cs) = M"
  using assms
proof (induction m arbitrary: s M rule: less_induct)
  case (less m)
  obtain r s' where run: "par_eval_poll vt b cx s w = Some (r, s', w)" "merge_result (av_poll vt b cx) m M r s'"
    using par_eval_poll_ok [OF less.prems] by blast
  show ?case
  proof (cases r)
    case (Emit c)
    with run(2) obtain m' M' where m': "merging (av_poll vt b cx) s' m' M'" "m' < m" "M = mset c + M'" by (auto simp: merge_result_def)
    from less.IH [OF m'(2,1)] obtain cs t where "delivers (par_eval_poll vt b cx) s' w cs None t w" "mset (concat cs) = M'" by blast
    with delivers_emit [of "par_eval_poll vt b cx", OF run(1) [unfolded Emit]] m'(3) show ?thesis
      by (intro exI [of _ "c # cs"] exI [of _ t]) simp
  next
    case Pending
    with run(2) obtain m' where m': "merging (av_poll vt b cx) s' m' M" "m' < m" by (auto simp: merge_result_def)
    from less.IH [OF m'(2,1)] obtain cs t where "delivers (par_eval_poll vt b cx) s' w cs None t w" "mset (concat cs) = M" by blast
    with delivers_wait [of "par_eval_poll vt b cx", OF run(1)] Pending show ?thesis by blast
  next
    case Done
    with run delivers_done [of "par_eval_poll vt b cx", OF run(1) [unfolded Done]] show ?thesis
      by (intro exI [of _ "[]"] exI [of _ s']) (simp add: merge_result_def)
  qed (use run(2) in \<open>simp_all add: merge_result_def\<close>)
qed

lemma par_eval_starts:
  assumes "\<forall>i<length srcs. quiet (av_poll vt b cx) (ns i) (srcs ! i) (css i)"
  shows "\<exists>m. merging (av_poll vt b cx) (par_eval srcs) m (\<Sum>i<length srcs. mset (concat (css i)))"
  using assms by (auto simp: merging_def par_eval_def Let_def intro!: exI [of _ ns] exI [of _ css] sum.cong)

subsection \<open>Several children at a time\<close>

text \<open>The children of a merge with the polls and the chunks that each has left.\<close>

definition kids_ok :: "('w, 'c, 'b) polling \<Rightarrow> 'c list \<Rightarrow> (nat \<times> 'b list list) list \<Rightarrow> bool" where
  "kids_ok p children kids \<longleftrightarrow> list_all2 (\<lambda>c (n, cs). quiet p n c cs) children kids"

definition kids_polls :: "(nat \<times> 'b list list) list \<Rightarrow> nat" where
  "kids_polls kids = sum_list (map (\<lambda>(n, cs). Suc n) kids)"

definition kids_rest :: "(nat \<times> 'b list list) list \<Rightarrow> 'b multiset" where
  "kids_rest kids = sum_list (map (\<lambda>(n, cs). mset (concat cs)) kids)"

lemma kids_simps [simp]:
  "kids_ok p [] kids = (kids = [])" "kids_ok p (c # cs) ((n, d) # kids) = (quiet p n c d \<and> kids_ok p cs kids)"
  "kids_polls [] = 0" "kids_polls ((n, d) # kids) = Suc n + kids_polls kids"
  "kids_rest [] = {#}" "kids_rest ((n, d) # kids) = mset (concat d) + kids_rest kids"
  by (simp_all add: kids_ok_def kids_polls_def kids_rest_def)

lemma kids_ConsE:
  assumes "kids_ok p (c # cs) kids"
  obtains n d kids' where "kids = (n, d) # kids'" "quiet p n c d" "kids_ok p cs kids'"
  using assms by (auto simp: kids_ok_def list_all2_Cons1)

lemma merge_children_ok:
  assumes "kids_ok (av_poll vtc b cx) children kids"
  shows "\<exists>r children' kids'. merge_children vtc b cx before children w = Some (r, before @ children', w) \<and>
    kids_ok (av_poll vtc b cx) children' kids' \<and>
    (case r of
       None \<Rightarrow> kids_rest kids = kids_rest kids' \<and> (children \<noteq> [] \<longrightarrow> kids_polls kids' < kids_polls kids)
     | Some r \<Rightarrow> \<exists>c. r = Emit c \<and> kids_rest kids = mset c + kids_rest kids' \<and> kids_polls kids' < kids_polls kids)"
  using assms
proof (induction children arbitrary: before kids)
  case Nil
  then show ?case by (intro exI [of _ None] exI [of _ "[]"]) simp
next
  case (Cons child rest)
  let ?p = "av_poll vtc b cx"
  obtain n d kids1 where kids: "kids = (n, d) # kids1" "quiet ?p n child d" "kids_ok ?p rest kids1"
    by (rule kids_ConsE [OF Cons.prems])
  from kids(2) show ?case
  proof (cases rule: quiet.cases)
    case (quiet_done s')
    obtain r ch kids' where "merge_children vtc b cx before rest w = Some (r, before @ ch, w)" "kids_ok ?p ch kids'"
      "case r of None \<Rightarrow> kids_rest kids1 = kids_rest kids' \<and> (rest \<noteq> [] \<longrightarrow> kids_polls kids' < kids_polls kids1)
       | Some r \<Rightarrow> \<exists>c. r = Emit c \<and> kids_rest kids1 = mset c + kids_rest kids' \<and> kids_polls kids' < kids_polls kids1"
      using Cons.IH [OF kids(3), of before] by blast
    moreover from this have "kids_polls kids' \<le> kids_polls kids1" using kids(3)
      by (cases "rest = []") (auto split: option.splits)
    ultimately show ?thesis using quiet_done kids(1)
      by (intro exI [of _ r] exI [of _ ch] exI [of _ kids']) (auto split: option.splits)
  next
    case (quiet_emit c s1 n' cs)
    then have "merge_children vtc b cx before (child # rest) w = Some (Some (Emit c), before @ s1 # rest, w)" by simp
    with quiet_emit kids show ?thesis
      by (intro exI [of _ "Some (Emit c)"] exI [of _ "s1 # rest"] exI [of _ "(n', cs) # kids1"]) simp
  next
    case (quiet_wait r1 s1 n')
    then have step: "merge_children vtc b cx before (child # rest) w = merge_children vtc b cx (before @ [s1]) rest w" by auto
    obtain r ch kids' where sub: "merge_children vtc b cx (before @ [s1]) rest w = Some (r, (before @ [s1]) @ ch, w)" "kids_ok ?p ch kids'"
      "case r of None \<Rightarrow> kids_rest kids1 = kids_rest kids' \<and> (rest \<noteq> [] \<longrightarrow> kids_polls kids' < kids_polls kids1)
       | Some r \<Rightarrow> \<exists>c. r = Emit c \<and> kids_rest kids1 = mset c + kids_rest kids' \<and> kids_polls kids' < kids_polls kids1"
      using Cons.IH [OF kids(3), of "before @ [s1]"] by blast
    moreover have "rest = [] \<Longrightarrow> ch = [] \<and> kids' = []" using sub(1,2) by auto
    ultimately show ?thesis unfolding step using quiet_wait kids
      by (intro exI [of _ r] exI [of _ "s1 # ch"] exI [of _ "(n', d) # kids'"]) (auto split: option.splits)
  qed
qed

text \<open>The state once the source has nothing more to give.\<close>

abbreviation merge_state :: "'s \<Rightarrow> 'c list \<Rightarrow> nat \<Rightarrow> bool \<Rightarrow> ('s, 'c) MergeMapImpl" where
  "merge_state s children m d \<equiv>
     \<lparr>mm_source = s, mm_active_children = children, mm_max_concurrent = m, mm_source_done = d\<rparr>"

lemma activate_exhausted:
  assumes "d \<or> quiet (av_poll vt b cx) k s []"
  shows "\<exists>s1 d1 k1. merge_activate fn vt b cx (merge_state s children m d) w = Some (None, merge_state s1 children m d1, w) \<and>
    (d1 \<or> quiet (av_poll vt b cx) k1 s1 []) \<and> (d \<longrightarrow> d1) \<and> (if d1 then 0 else Suc k1) \<le> (if d then 0 else Suc k) \<and>
    (\<not> d \<and> length children < m \<longrightarrow> (if d1 then 0 else Suc k1) < (if d then 0 else Suc k))"
proof (cases "d \<or> length children \<ge> m")
  case True
  then have "merge_activate fn vt b cx (merge_state s children m d) w = Some (None, merge_state s children m d, w)"
    by (simp add: merge_activate.simps)
  with True assms show ?thesis by (intro exI [of _ s] exI [of _ d] exI [of _ k]) auto
next
  case False
  with assms have "quiet (av_poll vt b cx) k s []" by blast
  then show ?thesis
  proof (cases rule: quiet.cases)
    case (quiet_done s')
    with False show ?thesis by (intro exI [of _ s'] exI [of _ True] exI [of _ 0]) (simp add: merge_activate.simps)
  next
    case (quiet_wait r s1 n)
    with False show ?thesis by (intro exI [of _ s1] exI [of _ False] exI [of _ n]) (auto simp: merge_activate.simps)
  qed
qed

lemma merge_exhausted_delivers:
  assumes "d \<or> quiet (av_poll vt b cx) k s []" "kids_ok (av_poll vtc b cx) children kids" "0 < m"
  shows "\<exists>cs t. delivers (merge_map_poll fn vt vtc b cx) (merge_state s children m d) w cs None t w \<and> mset (concat cs) = kids_rest kids"
  using assms(1,2)
proof (induction "kids_polls kids + (if d then 0 else Suc k)" arbitrary: d k s children kids rule: less_induct)
  case less
  let ?p = "merge_map_poll fn vt vtc b cx" and ?s = "merge_state s children m d"
  obtain s1 d1 k1 where act: "merge_activate fn vt b cx ?s w = Some (None, merge_state s1 children m d1, w)"
    "d1 \<or> quiet (av_poll vt b cx) k1 s1 []" "d \<longrightarrow> d1" "(if d1 then 0 else Suc k1) \<le> (if d then 0 else Suc k)"
    "\<not> d \<and> length children < m \<longrightarrow> (if d1 then 0 else Suc k1) < (if d then 0 else Suc k)"
    using activate_exhausted [OF less.prems(1)] by blast
  obtain r ch kids' where sub: "merge_children vtc b cx [] children w = Some (r, ch, w)" "kids_ok (av_poll vtc b cx) ch kids'"
    "case r of None \<Rightarrow> kids_rest kids = kids_rest kids' \<and> (children \<noteq> [] \<longrightarrow> kids_polls kids' < kids_polls kids)
       | Some r \<Rightarrow> \<exists>c. r = Emit c \<and> kids_rest kids = mset c + kids_rest kids' \<and> kids_polls kids' < kids_polls kids"
    using merge_children_ok [OF less.prems(2), where before = "[]" and w = w] unfolding append_Nil by blast
  show ?case
  proof (cases r)
    case (Some q)
    with sub(3) obtain c where c: "q = Emit c" "kids_rest kids = mset c + kids_rest kids'" "kids_polls kids' < kids_polls kids" by auto
    have "?p ?s w = Some (Emit c, merge_state s1 ch m d1, w)" using act(1) sub(1) Some c(1) by (simp add: merge_map_poll_def)
    moreover obtain cs t where "delivers ?p (merge_state s1 ch m d1) w cs None t w" "mset (concat cs) = kids_rest kids'"
      using less.hyps [OF _ act(2) sub(2)] c(3) act(4) by (auto split: if_splits)
    ultimately have "delivers ?p ?s w (c # cs) None t w" "mset (concat (c # cs)) = kids_rest kids"
      using delivers_emit [of ?p ?s w c] c(2) by simp_all
    then show ?thesis by blast
  next
    case None
    with sub(3) have rest: "kids_rest kids = kids_rest kids'" "children \<noteq> [] \<longrightarrow> kids_polls kids' < kids_polls kids" by simp_all
    show ?thesis
    proof (cases "ch = [] \<and> d1")
      case True
      then have "?p ?s w = Some (Done, merge_state s1 ch m d1, w)" using act(1) sub(1) None by (simp add: merge_map_poll_def)
      from delivers_done [of ?p, OF this] True sub(2) rest(1) show ?thesis
        by (intro exI [of _ "[]"] exI [of _ "merge_state s1 ch m d1"]) simp
    next
      case False
      then have step: "?p ?s w = Some (Pending, merge_state s1 ch m d1, w)" using act(1) sub(1) None by (auto simp: merge_map_poll_def)
      have "kids_polls kids' + (if d1 then 0 else Suc k1) < kids_polls kids + (if d then 0 else Suc k)"
      proof (cases "children = []")
        case True
        with sub(1,2) less.prems(2) have "ch = []" "kids' = []" "kids = []" by auto
        with False act(3,5) True assms(3) show ?thesis by auto
      next
        case more: False
        with rest(2) act(4) show ?thesis by simp
      qed
      from less.hyps [OF this act(2) sub(2)] obtain cs t where
        "delivers ?p (merge_state s1 ch m d1) w cs None t w" "mset (concat cs) = kids_rest kids'" by blast
      with delivers_wait [of ?p, OF step] rest(1) show ?thesis by metis
    qed
  qed
qed

lemma start_children_eq:
  "length active < m \<Longrightarrow> start_children fn m chunk active = active @ map fn (take (m - length active) chunk)"
proof (induction chunk arbitrary: active)
  case (Cons x chunk)
  show ?case
  proof (cases "m - length active")
    case 0
    with Cons.prems show ?thesis by simp
  next
    case (Suc k)
    show ?thesis
    proof (cases "k = 0")
      case True
      with Suc have "m \<le> Suc (length active)" by simp
      with Suc True show ?thesis by (simp add: Let_def)
    next
      case False
      with Suc have "length (active @ [fn x]) < m" "m - length (active @ [fn x]) = k" by simp_all
      with Cons.IH [of "active @ [fn x]"] Suc show ?thesis by (simp add: Let_def)
    qed
  qed
qed simp

text \<open>Of a single chunk, only as many elements have children as may run at a time: the rest is forgotten.\<close>

lemma merge_map_delivers:
  assumes "quiet (av_poll vt b cx) k s [chunk]" "0 < m" "\<forall>x\<in>set (take m chunk). quiet (av_poll vtc b cx) (n x) (fn x) (g x)"
  shows "\<exists>cs t. delivers (merge_map_poll fn vt vtc b cx) (merge_map s m) w cs None t w \<and>
    mset (concat cs) = (\<Sum>x\<in>#mset (take m chunk). mset (concat (g x)))"
  using assms(1)
proof (induction k s "[chunk]" rule: quiet.induct)
  case (quiet_emit s s1 k)
  let ?p = "merge_map_poll fn vt vtc b cx" and ?ch = "map fn (take m chunk)"
  have "merge_activate fn vt b cx (merge_state s [] m False) w = merge_activate fn vt b cx (merge_state s1 ?ch m False) w"
    using quiet_emit.hyps(1) assms(2) start_children_eq [of "[]" m fn chunk]
    by (simp add: merge_activate.simps [of fn vt b cx "merge_state s [] m False"])
  then have step: "?p (merge_map s m) w = ?p (merge_state s1 ?ch m False) w" by (simp add: merge_map_poll_def merge_map_def)
  let ?kids = "map (\<lambda>x. (n x, g x)) (take m chunk)"
  have "kids_ok (av_poll vtc b cx) ?ch ?kids" using assms(3) by (simp add: kids_ok_def list_all2_map1 list_all2_map2 list_all2_same)
  from merge_exhausted_delivers [OF _ this assms(2), of False vt k s1] quiet_emit.hyps(2)
  obtain cs t where y: "delivers ?p (merge_state s1 ?ch m False) w cs None t w" "mset (concat cs) = kids_rest ?kids" by blast
  have "kids_rest ?kids = (\<Sum>x\<in>#mset (take m chunk). mset (concat (g x)))"
    by (simp add: kids_rest_def comp_def flip: sum_mset_sum_list)
  with y delivers_same_poll [of ?p, OF step y(1)] show ?case by auto
next
  case (quiet_wait s r s1 k)
  then obtain cs t where y: "delivers (merge_map_poll fn vt vtc b cx) (merge_map s1 m) w cs None t w"
    "mset (concat cs) = (\<Sum>x\<in>#mset (take m chunk). mset (concat (g x)))" by blast
  have "merge_map_poll fn vt vtc b cx (merge_map s m) w = Some (Pending, merge_map s1 m, w)"
    using quiet_wait.hyps(1,2) assms(2) by (auto simp: merge_map_poll_def merge_map_def merge_activate.simps)
  from delivers_wait [of "merge_map_poll fn vt vtc b cx", OF this _ y(1)] y(2) show ?case by auto
qed

end
