(* ===== verification/Async_Properties.thy ===== *)
theory Async_Properties
  imports Async_Laws
begin

text \<open>
  The properties of the pollable streams: mapping is mapping, merging loses and invents nothing, and the two maps to streams
  forget elements of a chunk.
\<close>

text \<open>
  C21: A parallel map collects what the sequential map collects: for every pull stream that can be collected, collecting the
  asynchronous map of its bridge gives the mapped elements in their order, or the stream's error.
\<close>

theorem par_map_equals_map:
  assumes "collect src s w = Some (r, s', w')"
  shows "\<exists>t. collect_blocking (par_map_vt fn (to_async_vt src clone)) (par_map (to_async s)) w = Some (map_result r (map fn), t, w')"
proof -
  from assms have "collect_loop src [] s w = Some (r, s', w')" by (simp add: collect_def)
  from collect_loop_returns [OF this] obtain cs out where y: "yields src s w cs out s' w'" "r = outcome out (concat cs)" by auto
  from par_map_collects [OF y(1)] y(2) show ?thesis by (cases out) (simp_all add: map_result_def)
qed

lemma par_map_equals_map_witness:
  "\<exists>t. collect_blocking (par_map_vt Suc (to_async_vt from_vector_pull id)) (par_map (to_async (from_vector [1, 2]))) () =
    Some (Inr [2, 3], t, ())"
proof -
  have "collect from_vector_pull (from_vector [1, 2 :: nat]) () = Some (Inr [1, 2], \<lparr>fv_data = None\<rparr>, ())"
    by (simp add: collect_def collect_loop.simps from_vector_pull_def from_vector_def chunk_from_def)
  from par_map_equals_map [OF this, of Suc id] show ?thesis by (simp add: map_result_def numeral_2_eq_2 numeral_3_eq_3)
qed

text \<open>
  C22: Merging streams with \<open>par_eval\<close> ends, and collects exactly the elements of all of them, each as often as they deliver it, in
  whatever order; a poll always makes progress, also when sources ask to be polled again.
\<close>

theorem par_eval_collects_all:
  assumes "\<forall>i<length srcs. quiet (collecting vt) (ns i) (srcs ! i) (css i)"
  shows "\<exists>out t. collect_blocking (par_eval_vt vt) (par_eval srcs) w = Some (Inr out, t, w) \<and>
    mset out = (\<Sum>i<length srcs. mset (concat (css i)))"
proof -
  obtain m where "merging (collecting vt) (par_eval srcs) m (\<Sum>i<length srcs. mset (concat (css i)))"
    using par_eval_starts [OF assms] by blast
  from par_eval_delivers [OF this] obtain cs t where "delivers (collecting (par_eval_vt vt)) (par_eval srcs) w cs None t w"
    "mset (concat cs) = (\<Sum>i<length srcs. mset (concat (css i)))" unfolding vt_polls by blast
  with collect_blocking_delivers [OF this(1)] show ?thesis by auto
qed

text \<open>A vector behind a bridge is a quiet stream of one chunk.\<close>

lemma vector_quiet:
  assumes "xs \<noteq> []" "length xs < 2 ^ 32"
  shows "quiet (collecting (to_async_vt from_vector_pull id)) 1 (to_async (from_vector xs)) [xs]"
proof -
  have "pure_yields from_vector_pull (from_vector xs) [xs] None \<lparr>fv_data = None\<rparr>"
    using from_vector_yields [of xs] assms by (simp add: chunk_from_small)
  from quiet_bridge [OF this] show ?thesis by simp
qed

lemma vector_delivers:
  assumes "xs \<noteq> []" "length xs < 2 ^ 32"
  shows "\<exists>t. delivers (collecting (to_async_vt from_vector_pull id)) (to_async (from_vector xs)) w [xs] None t w"
proof -
  have "pure_yields from_vector_pull (from_vector xs) [xs] None \<lparr>fv_data = None\<rparr>"
    using from_vector_yields [of xs] assms by (simp add: chunk_from_small)
  from bridge_delivers [OF pure_yields_yields [OF this]] show ?thesis by simp
qed

lemma par_eval_collects_all_witness:
  "\<exists>out t. collect_blocking (par_eval_vt (to_async_vt from_vector_pull id)) (par_eval [to_async (from_vector [1 :: nat, 2]),
      to_async (from_vector [2])]) () = Some (Inr out, t, ()) \<and> mset out = {#1, 2, 2#}"
proof -
  let ?srcs = "[to_async (from_vector [1 :: nat, 2]), to_async (from_vector [2])]"
  let ?css = "\<lambda>i. if i = 0 then [[1 :: nat, 2]] else [[2]]"
  have "\<forall>i<length ?srcs. quiet (collecting (to_async_vt from_vector_pull id :: (unit, _, _) AsyncStreamVTable)) 1 (?srcs ! i) (?css i)"
    using vector_quiet [of "[1 :: nat, 2]"] vector_quiet [of "[2 :: nat]"] by (auto simp: less_Suc_eq)
  from par_eval_collects_all [OF this] show ?thesis by (simp add: numeral_2_eq_2 lessThan_Suc)
qed

text \<open>
  \<open>concat_map\<close> expands only the first element of each chunk of its source, in order, and drops the others: the sync \<open>flat_map\<close>
  expands them all.
\<close>

theorem concat_map_expands_heads:
  assumes "delivers (collecting vt) s w cs out s' w'"
    and "\<And>x w. x \<in> set (heads cs) \<Longrightarrow> \<exists>t. delivers (collecting vtc) (fn x) w (g x) None t w"
  shows "\<exists>t. collect_blocking (concat_map_vt fn vt vtc) (concat_map s) w =
    Some (outcome out (concat (concat (map g (heads cs)))), t, w')"
proof -
  obtain t where "delivers (collecting (concat_map_vt fn vt vtc)) (concat_map s) w (concat (map g (heads cs))) out t w'"
    using concat_map_delivers [where fn = fn and g = g, OF assms] unfolding vt_polls by blast
  from collect_blocking_delivers [OF this] show ?thesis by blast
qed

lemma concat_map_expands_heads_witness:
  "\<exists>t. collect_blocking (concat_map_vt (\<lambda>x. to_async (from_vector [x, x])) (to_async_vt from_vector_pull id) (to_async_vt from_vector_pull id))
      (concat_map (to_async (from_vector [1 :: nat, 2, 3]))) () = Some (Inr [1, 1], t, ())"
proof -
  obtain t where src: "delivers (collecting (to_async_vt from_vector_pull id)) (to_async (from_vector [1 :: nat, 2, 3])) () [[1, 2, 3]] None t ()"
    using vector_delivers [of "[1 :: nat, 2, 3]" "()"] by auto
  have "\<exists>t. delivers (collecting (to_async_vt from_vector_pull id)) (to_async (from_vector [x, x])) w [[x, x]] None t w" for x :: nat and w :: unit
    using vector_delivers [of "[x, x]" w] by simp
  from concat_map_expands_heads [OF src, where fn = "\<lambda>x. to_async (from_vector [x, x])" and g = "\<lambda>x. [[x, x]]", OF this]
  show ?thesis by (simp add: heads_def)
qed

text \<open>
  \<open>merge_map\<close> over a source of one chunk expands as many of its elements as may run at a time, and forgets the rest: the bound on
  the concurrency decides what is delivered, not only how.
\<close>

theorem merge_map_expands_bound:
  assumes "quiet (collecting vt) k s [chunk]" "0 < m" "\<forall>x\<in>set (take m chunk). quiet (collecting vtc) (n x) (fn x) (g x)"
  shows "\<exists>out t. collect_blocking (merge_map_vt fn vt vtc) (merge_map s m) w = Some (Inr out, t, w) \<and>
    mset out = (\<Sum>x\<in>#mset (take m chunk). mset (concat (g x)))"
proof -
  obtain cs t where "delivers (collecting (merge_map_vt fn vt vtc)) (merge_map s m) w cs None t w"
    "mset (concat cs) = (\<Sum>x\<in>#mset (take m chunk). mset (concat (g x)))"
    using merge_map_delivers [OF assms] unfolding vt_polls by blast
  with collect_blocking_delivers [OF this(1)] show ?thesis by auto
qed

lemma merge_map_expands_bound_witness:
  "\<exists>out t. collect_blocking (merge_map_vt (\<lambda>x. to_async (from_vector [x])) (to_async_vt from_vector_pull id) (to_async_vt from_vector_pull id))
      (merge_map (to_async (from_vector [1 :: nat, 2, 3])) 2) () = Some (Inr out, t, ()) \<and> mset out = {#1, 2#}"
proof -
  let ?vt = "to_async_vt from_vector_pull id :: (unit, nat FromVectorImpl SyncBridgeImpl, nat) AsyncStreamVTable"
  have q: "xs \<noteq> [] \<Longrightarrow> length xs < 2 ^ 32 \<Longrightarrow> quiet (collecting ?vt) 1 (to_async (from_vector xs)) [xs]" for xs
    by (rule vector_quiet)
  have "quiet (collecting ?vt) 1 (to_async (from_vector [1 :: nat, 2, 3])) [[1, 2, 3]]"
    "\<forall>x\<in>set (take 2 [1 :: nat, 2, 3]). quiet (collecting ?vt) 1 (to_async (from_vector [x])) [[x]]"
    using q [of "[1, 2, 3]"] q [of "[1]"] q [of "[2]"] by simp_all
  from merge_map_expands_bound [OF this(1) _ this(2), of "()"] show ?thesis by (simp add: numeral_2_eq_2 add_mset_commute)
qed

end
