(* ===== verification/Deque.thy ===== *)
theory Deque
  imports Async_Stream
begin

text \<open>
  The work-stealing deque of \<open>include/celer/core/scheduler.hpp\<close> (\<open>StreamLease\<close>, \<open>ChaseLevDeque\<close>). The owner's \<open>push\<close> and
  \<open>pop\<close> and a thief's \<open>steal\<close> are cut at every access to \<open>top_\<close>, \<open>bottom_\<close> and \<open>buffer_\<close>: a program counter says which access is
  next and holds the locals, \<open>owner_step\<close> and \<open>thief_step\<close> perform one access, and \<open>deque_step\<close> interleaves one owner with any
  number of thieves in every order. Accesses take effect in the order of the code (sequential consistency; the reorderings a weak
  memory model adds are not covered). The indices are unbounded: \<open>std::int64_t\<close> overflows after \<open>2 ^ 63\<close> operations. A pointer is
  an address or null; \<open>buffer_\<close> is an index into the list of the buffers allocated so far, which are kept until destruction.
\<close>

unbundle bit_operations_syntax

subsection \<open>Leases\<close>

record StreamLease =
  sl_stream_ctx :: "nat option"
  sl_vtable :: "nat option"
  sl_budget :: StreamBudget
  sl_control :: "nat option"
  sl_worker_affinity :: "32 word"
  sl_steal_cost :: "32 word"

definition default_lease :: StreamLease where
  "default_lease = \<lparr>sl_stream_ctx = None, sl_vtable = None, sl_budget = default_budget, sl_control = None,
                    sl_worker_affinity = 0, sl_steal_cost = 1\<rparr>"

definition lease_valid :: "StreamLease \<Rightarrow> bool" where
  "lease_valid l \<longleftrightarrow> sl_stream_ctx l \<noteq> None \<and> sl_vtable l \<noteq> None \<and> sl_control l \<noteq> None"

subsection \<open>The circular buffer\<close>

record Buffer =
  bf_mask :: int
  bf_storage :: "StreamLease list"

definition new_buffer :: "int \<Rightarrow> Buffer" where
  "new_buffer cap = \<lparr>bf_mask = cap - 1, bf_storage = replicate (nat cap) default_lease\<rparr>"

definition buffer_slot :: "Buffer \<Rightarrow> int \<Rightarrow> nat" where
  "buffer_slot buf idx = nat (idx AND bf_mask buf)"

definition buffer_get :: "Buffer \<Rightarrow> int \<Rightarrow> StreamLease" where
  "buffer_get buf idx = bf_storage buf ! buffer_slot buf idx"

definition buffer_set :: "Buffer \<Rightarrow> int \<Rightarrow> StreamLease \<Rightarrow> Buffer" where
  "buffer_set buf idx l = buf\<lparr>bf_storage := (bf_storage buf)[buffer_slot buf idx := l]\<rparr>"

function grow_loop :: "Buffer \<Rightarrow> Buffer \<Rightarrow> int \<Rightarrow> int \<Rightarrow> Buffer" where
  "grow_loop buf nb i bottom =
     (if i < bottom then grow_loop buf (buffer_set nb i (buffer_get buf i)) (i + 1) bottom else nb)"
  by pat_completeness auto
termination by (relation "measure (\<lambda>(buf, nb, i, bottom). nat (bottom - i))") auto

declare grow_loop.simps [simp del]

definition buffer_grow :: "Buffer \<Rightarrow> int \<Rightarrow> int \<Rightarrow> Buffer" where
  "buffer_grow buf t b = grow_loop buf (new_buffer ((bf_mask buf + 1) * 2)) t b"

subsection \<open>The deque\<close>

record Deque =
  dq_top :: int
  dq_bottom :: int
  dq_buffer :: nat
  dq_old_buffers :: "nat list"
  dq_heap :: "Buffer list"

definition initial_capacity :: int where "initial_capacity = 64"

definition new_deque :: Deque where
  "new_deque = \<lparr>dq_top = 0, dq_bottom = 0, dq_buffer = 0, dq_old_buffers = [], dq_heap = [new_buffer initial_capacity]\<rparr>"

definition current_buffer :: "Deque \<Rightarrow> Buffer" where
  "current_buffer d = dq_heap d ! dq_buffer d"

text \<open>What a step tells the outside: a lease went in, a lease was handed out, the owner lost the race for the last lease.\<close>

datatype Event = Silent | Pushed StreamLease | Taken StreamLease | LostRace

text \<open>The owner, by the access that comes next.\<close>

datatype OwnerPc =
    Owner_Idle
  | Push_Load_Bottom StreamLease
  | Push_Load_Top StreamLease int
  | Push_Load_Buffer StreamLease int int
  | Push_Store_Slot StreamLease int nat
  | Push_Store_Bottom StreamLease int
  | Pop_Load_Bottom
  | Pop_Load_Buffer int
  | Pop_Store_Bottom int nat
  | Pop_Load_Top int nat
  | Pop_Empty int
  | Pop_Cas int StreamLease
  | Pop_Won int StreamLease
  | Pop_Lost int
  | Pop_Returned "StreamLease option"

definition push_grow :: "Deque \<Rightarrow> int \<Rightarrow> int \<Rightarrow> Deque" where
  "push_grow d t b = d\<lparr>dq_old_buffers := dq_old_buffers d @ [dq_buffer d], dq_buffer := length (dq_heap d),
                       dq_heap := dq_heap d @ [buffer_grow (current_buffer d) t b]\<rparr>"

fun push_step :: "Deque \<Rightarrow> OwnerPc \<Rightarrow> Deque \<times> OwnerPc \<times> Event" where
  "push_step d (Push_Load_Bottom l) = (d, Push_Load_Top l (dq_bottom d), Silent)"
| "push_step d (Push_Load_Top l b) = (d, Push_Load_Buffer l b (dq_top d), Silent)"
| "push_step d (Push_Load_Buffer l b t) =
     (if b - t > bf_mask (current_buffer d) then (push_grow d t b, Push_Store_Slot l b (length (dq_heap d)), Silent)
      else (d, Push_Store_Slot l b (dq_buffer d), Silent))"
| "push_step d (Push_Store_Slot l b p) =
     (d\<lparr>dq_heap := (dq_heap d)[p := buffer_set (dq_heap d ! p) b l]\<rparr>, Push_Store_Bottom l b, Silent)"
| "push_step d (Push_Store_Bottom l b) = (d\<lparr>dq_bottom := b + 1\<rparr>, Owner_Idle, Pushed l)"
| "push_step d pc = (d, pc, Silent)"

text \<open>A failed \<open>compare_exchange_strong(t, t + 1)\<close> writes the current top into \<open>t\<close>; the store of \<open>t + 1\<close> that follows uses that value.\<close>

fun pop_step :: "Deque \<Rightarrow> OwnerPc \<Rightarrow> Deque \<times> OwnerPc \<times> Event" where
  "pop_step d Pop_Load_Bottom = (d, Pop_Load_Buffer (dq_bottom d - 1), Silent)"
| "pop_step d (Pop_Load_Buffer b) = (d, Pop_Store_Bottom b (dq_buffer d), Silent)"
| "pop_step d (Pop_Store_Bottom b p) = (d\<lparr>dq_bottom := b\<rparr>, Pop_Load_Top b p, Silent)"
| "pop_step d (Pop_Load_Top b p) =
     (let t = dq_top d; size = b - t in
      if size < 0 then (d, Pop_Empty t, Silent)
      else let lease = buffer_get (dq_heap d ! p) b in
        if size > 0 then (d, Pop_Returned (Some lease), Taken lease) else (d, Pop_Cas t lease, Silent))"
| "pop_step d (Pop_Empty t) = (d\<lparr>dq_bottom := t\<rparr>, Pop_Returned None, Silent)"
| "pop_step d (Pop_Cas t lease) =
     (if dq_top d = t then (d\<lparr>dq_top := t + 1\<rparr>, Pop_Won t lease, Taken lease)
      else (d, Pop_Lost (dq_top d), LostRace))"
| "pop_step d (Pop_Won t lease) = (d\<lparr>dq_bottom := t + 1\<rparr>, Pop_Returned (Some lease), Silent)"
| "pop_step d (Pop_Lost t) = (d\<lparr>dq_bottom := t + 1\<rparr>, Pop_Returned None, Silent)"
| "pop_step d pc = (d, pc, Silent)"

definition owner_step :: "Deque \<Rightarrow> OwnerPc \<Rightarrow> Deque \<times> OwnerPc \<times> Event" where
  "owner_step d pc = (case pc of
      Push_Load_Bottom _ \<Rightarrow> push_step d pc | Push_Load_Top _ _ \<Rightarrow> push_step d pc | Push_Load_Buffer _ _ _ \<Rightarrow> push_step d pc
    | Push_Store_Slot _ _ _ \<Rightarrow> push_step d pc | Push_Store_Bottom _ _ \<Rightarrow> push_step d pc | _ \<Rightarrow> pop_step d pc)"

datatype ThiefPc =
    Thief_Idle
  | Steal_Load_Top
  | Steal_Load_Bottom int
  | Steal_Load_Buffer int
  | Steal_Load_Slot int nat
  | Steal_Cas int StreamLease
  | Steal_Returned "StreamLease option"

fun thief_step :: "Deque \<Rightarrow> ThiefPc \<Rightarrow> Deque \<times> ThiefPc \<times> Event" where
  "thief_step d Steal_Load_Top = (d, Steal_Load_Bottom (dq_top d), Silent)"
| "thief_step d (Steal_Load_Bottom t) = (d, if t \<ge> dq_bottom d then Steal_Returned None else Steal_Load_Buffer t, Silent)"
| "thief_step d (Steal_Load_Buffer t) = (d, Steal_Load_Slot t (dq_buffer d), Silent)"
| "thief_step d (Steal_Load_Slot t p) = (d, Steal_Cas t (buffer_get (dq_heap d ! p) t), Silent)"
| "thief_step d (Steal_Cas t lease) =
     (if dq_top d = t then (d\<lparr>dq_top := t + 1\<rparr>, Steal_Returned (Some lease), Taken lease)
      else (d, Steal_Returned None, Silent))"
| "thief_step d Thief_Idle = (d, Thief_Idle, Silent)"
| "thief_step d (Steal_Returned r) = (d, Steal_Returned r, Silent)"

text \<open>\<open>size_approx\<close> masks the difference with its sign bit.\<close>

definition size_approx :: "64 word \<Rightarrow> 64 word \<Rightarrow> 64 word" where
  "size_approx b t = (let diff = b - t in diff AND NOT (signed_drop_bit 63 diff))"

subsection \<open>Interleavings of one owner with thieves\<close>

record Machine =
  mc_deque :: Deque
  mc_owner :: OwnerPc
  mc_thieves :: "nat \<Rightarrow> ThiefPc"
  mc_pushed :: "StreamLease list"
  mc_taken :: "StreamLease list"
  mc_lost :: bool

definition new_machine :: Machine where
  "new_machine = \<lparr>mc_deque = new_deque, mc_owner = Owner_Idle, mc_thieves = \<lambda>i. Thief_Idle, mc_pushed = [], mc_taken = [], mc_lost = False\<rparr>"

fun log_event :: "Event \<Rightarrow> Machine \<Rightarrow> Machine" where
  "log_event Silent m = m"
| "log_event (Pushed l) m = m\<lparr>mc_pushed := mc_pushed m @ [l]\<rparr>"
| "log_event (Taken l) m = m\<lparr>mc_taken := mc_taken m @ [l]\<rparr>"
| "log_event LostRace m = m\<lparr>mc_lost := True\<rparr>"

fun owner_free :: "OwnerPc \<Rightarrow> bool" where
  "owner_free Owner_Idle = True"
| "owner_free (Pop_Returned r) = True"
| "owner_free pc = False"

fun thief_free :: "ThiefPc \<Rightarrow> bool" where
  "thief_free Thief_Idle = True"
| "thief_free (Steal_Returned r) = True"
| "thief_free pc = False"

definition owner_move :: "Machine \<Rightarrow> Machine" where
  "owner_move m = (case owner_step (mc_deque m) (mc_owner m) of
     (d, pc, ev) \<Rightarrow> log_event ev (m\<lparr>mc_deque := d, mc_owner := pc\<rparr>))"

definition thief_move :: "nat \<Rightarrow> Machine \<Rightarrow> Machine" where
  "thief_move i m = (case thief_step (mc_deque m) (mc_thieves m i) of
     (d, pc, ev) \<Rightarrow> log_event ev (m\<lparr>mc_deque := d, mc_thieves := (mc_thieves m)(i := pc)\<rparr>))"

inductive deque_step :: "Machine \<Rightarrow> Machine \<Rightarrow> bool" where
  call_push: "owner_free (mc_owner m) \<Longrightarrow> deque_step m (m\<lparr>mc_owner := Push_Load_Bottom l\<rparr>)"
| call_pop: "owner_free (mc_owner m) \<Longrightarrow> deque_step m (m\<lparr>mc_owner := Pop_Load_Bottom\<rparr>)"
| owner_runs: "deque_step m (owner_move m)"
| call_steal: "thief_free (mc_thieves m i) \<Longrightarrow> deque_step m (m\<lparr>mc_thieves := (mc_thieves m)(i := Steal_Load_Top)\<rparr>)"
| thief_runs: "deque_step m (thief_move i m)"

inductive deque_reach :: "Machine \<Rightarrow> bool" where
  reach_start: "deque_reach new_machine"
| reach_step: "\<lbrakk>deque_reach m; deque_step m m'\<rbrakk> \<Longrightarrow> deque_reach m'"

text \<open>A schedule, executed.\<close>

datatype Action = Call_Push StreamLease | Call_Pop | Owner_Runs | Call_Steal nat | Thief_Runs nat

fun act :: "Action \<Rightarrow> Machine \<Rightarrow> Machine" where
  "act (Call_Push l) m = (if owner_free (mc_owner m) then m\<lparr>mc_owner := Push_Load_Bottom l\<rparr> else m)"
| "act Call_Pop m = (if owner_free (mc_owner m) then m\<lparr>mc_owner := Pop_Load_Bottom\<rparr> else m)"
| "act Owner_Runs m = owner_move m"
| "act (Call_Steal i) m = (if thief_free (mc_thieves m i) then m\<lparr>mc_thieves := (mc_thieves m)(i := Steal_Load_Top)\<rparr> else m)"
| "act (Thief_Runs i) m = thief_move i m"

lemma act_reach: "deque_reach m \<Longrightarrow> deque_reach (act a m)"
  by (cases a) (auto intro: reach_step deque_step.intros)

lemma schedule_reach: "deque_reach m \<Longrightarrow> deque_reach (fold act as m)"
  by (induction as arbitrary: m) (simp_all add: act_reach)

subsection \<open>Whole calls without interference\<close>

definition deque_push :: "Deque \<Rightarrow> StreamLease \<Rightarrow> Deque" where
  "deque_push d l = (let b = dq_bottom d; t = dq_top d;
       d1 = (if b - t > bf_mask (current_buffer d) then push_grow d t b else d) in
     d1\<lparr>dq_heap := (dq_heap d1)[dq_buffer d1 := buffer_set (current_buffer d1) b l], dq_bottom := b + 1\<rparr>)"

definition deque_pop :: "Deque \<Rightarrow> Deque \<times> StreamLease option" where
  "deque_pop d = (let b = dq_bottom d - 1; t = dq_top d; size = b - t; lease = buffer_get (current_buffer d) b in
     if size < 0 then (d\<lparr>dq_bottom := t\<rparr>, None)
     else if size > 0 then (d\<lparr>dq_bottom := b\<rparr>, Some lease)
     else (d\<lparr>dq_bottom := t + 1, dq_top := t + 1\<rparr>, Some lease))"

definition deque_steal :: "Deque \<Rightarrow> Deque \<times> StreamLease option" where
  "deque_steal d = (let t = dq_top d in
     if t \<ge> dq_bottom d then (d, None)
     else (d\<lparr>dq_top := t + 1\<rparr>, Some (buffer_get (current_buffer d) t)))"

end
