(* ===== verification/Scheduler.thy ===== *)
theory Scheduler
  imports Deque
begin

text \<open>
  The stream scheduler (\<open>include/celer/core/scheduler.hpp\<close>: \<open>GlobalQueue\<close>, \<open>ParkingLot\<close>, \<open>StreamScheduler\<close>). The threads are the
  workers, by the point of \<open>worker_loop\<close> where each stands, and the outside, which schedules, wakes, changes demand and shuts down;
  \<open>sched_step\<close> interleaves them. One call on a deque, on the global queue or on the parking lot is one step (what happens inside a
  call on a deque is in \<open>Deque\<close>); between the call that finds a lease and the one that parks or requeues it every other thread can
  run. The random victim is chosen from outside. Waiting on the condition variable ends after 50 microseconds, notified or not, so an
  idle worker simply looks again. A push from outside into the deque of a worker (\<open>schedule_affine\<close>, \<open>wake\<close>) is one step too, although
  \<open>push\<close> is written for the owner alone and nothing keeps two pushes apart: what two pushes at once do to a deque is shown with the
  properties of the deque, and what is proved here of leases in deques holds for runs in which no two calls on a deque overlap.
\<close>

subsection \<open>Global queue and parking lot\<close>

definition global_push :: "StreamLease \<Rightarrow> StreamLease list \<Rightarrow> StreamLease list" where
  "global_push l q = q @ [l]"

definition global_pop :: "StreamLease list \<Rightarrow> StreamLease list \<times> StreamLease option" where
  "global_pop q = (if q = [] then (q, None) else (butlast q, Some (last q)))"

definition parking_park :: "StreamLease \<Rightarrow> StreamLease list \<Rightarrow> StreamLease list" where
  "parking_park l ps = ps @ [l]"

fun parking_wake :: "nat option \<Rightarrow> StreamLease list \<Rightarrow> StreamLease list \<times> StreamLease option" where
  "parking_wake ctx [] = ([], None)"
| "parking_wake ctx (l # ps) =
     (if sl_stream_ctx l = ctx then (ps, Some l)
      else (case parking_wake ctx ps of (ps', r) \<Rightarrow> (l # ps', r)))"

subsection \<open>State\<close>

text \<open>Where a worker stands in \<open>worker_loop\<close>.\<close>

datatype WorkerPc =
    Pop_Local
  | Steal_Peer
  | Pop_Global
  | Found StreamLease
  | Parking StreamLease
  | Polling StreamLease
  | Dispatch PollKind StreamLease
  | No_Work
  | Draining
  | Drain_Poll StreamLease
  | Exited

type_synonym 'w ErasedPollFn = "nat option \<Rightarrow> nat option \<Rightarrow> StreamBudget \<Rightarrow> TaskContext \<Rightarrow> 'w \<Rightarrow> PollKind \<times> 'w"

text \<open>The history variables \<open>sc_submitted\<close> and \<open>sc_dropped\<close> record the leases that came in and the leases let go.\<close>

record 'w StreamScheduler =
  sc_num_workers :: nat
  sc_deques :: "Deque list"
  sc_global_queue :: "StreamLease list"
  sc_parking_lot :: "StreamLease list"
  sc_shutdown :: bool
  sc_workers :: "WorkerPc list"
  sc_poll_fn :: "'w ErasedPollFn option"
  sc_controls :: "nat \<Rightarrow> StreamControl"
  sc_world :: 'w
  sc_submitted :: "StreamLease list"
  sc_dropped :: "StreamLease list"

definition worker_total :: "nat \<Rightarrow> nat \<Rightarrow> nat" where
  "worker_total num_workers hardware_concurrency = (if num_workers = 0 then max 2 hardware_concurrency else num_workers)"

definition new_scheduler :: "nat \<Rightarrow> nat \<Rightarrow> (nat \<Rightarrow> StreamControl) \<Rightarrow> 'w \<Rightarrow> 'w StreamScheduler" where
  "new_scheduler num_workers hw controls w = (let n = worker_total num_workers hw in
     \<lparr>sc_num_workers = n, sc_deques = replicate n new_deque, sc_global_queue = [], sc_parking_lot = [], sc_shutdown = False,
      sc_workers = replicate n Pop_Local, sc_poll_fn = None, sc_controls = controls, sc_world = w, sc_submitted = [], sc_dropped = []\<rparr>)"

subsection \<open>Calls from outside\<close>

definition set_poll_fn :: "'w ErasedPollFn option \<Rightarrow> 'w StreamScheduler \<Rightarrow> 'w StreamScheduler" where
  "set_poll_fn fn s = s\<lparr>sc_poll_fn := fn\<rparr>"

definition push_to :: "nat \<Rightarrow> StreamLease \<Rightarrow> 'w StreamScheduler \<Rightarrow> 'w StreamScheduler" where
  "push_to i l s = s\<lparr>sc_deques := (sc_deques s)[i := deque_push (sc_deques s ! i) l]\<rparr>"

definition schedule :: "StreamLease \<Rightarrow> 'w StreamScheduler \<Rightarrow> 'w StreamScheduler" where
  "schedule l s = s\<lparr>sc_global_queue := global_push l (sc_global_queue s)\<rparr>"

definition schedule_affine :: "StreamLease \<Rightarrow> 32 word \<Rightarrow> 'w StreamScheduler \<Rightarrow> 'w StreamScheduler" where
  "schedule_affine l worker_id s = (if unat worker_id < sc_num_workers s then push_to (unat worker_id) l s else schedule l s)"

definition wake :: "nat option \<Rightarrow> 'w StreamScheduler \<Rightarrow> 'w StreamScheduler" where
  "wake ctx s = (case parking_wake ctx (sc_parking_lot s) of
      (ps, None) \<Rightarrow> s
    | (ps, Some l) \<Rightarrow> schedule_affine l (sl_worker_affinity l) (s\<lparr>sc_parking_lot := ps\<rparr>))"

text \<open>\<open>TaskContext::wake\<close>, for a context that has a scheduler.\<close>

definition task_wake :: "StreamLease \<Rightarrow> 'w StreamScheduler \<Rightarrow> 'w StreamScheduler" where
  "task_wake l s = wake (sl_stream_ctx l) s"

definition worker_count :: "'w StreamScheduler \<Rightarrow> nat" where
  "worker_count s = sc_num_workers s"

definition parked_count :: "'w StreamScheduler \<Rightarrow> nat" where
  "parked_count s = length (sc_parking_lot s)"

text \<open>\<open>shutdown\<close> raises the flag; joining the workers is the wait until all have exited.\<close>

definition shutdown :: "'w StreamScheduler \<Rightarrow> 'w StreamScheduler" where
  "shutdown s = s\<lparr>sc_shutdown := True\<rparr>"

definition joined :: "'w StreamScheduler \<Rightarrow> bool" where
  "joined s \<longleftrightarrow> (\<forall>pc \<in> set (sc_workers s). pc = Exited)"

subsection \<open>The worker loop\<close>

definition at :: "nat \<Rightarrow> WorkerPc \<Rightarrow> 'w StreamScheduler \<Rightarrow> 'w StreamScheduler" where
  "at i pc s = s\<lparr>sc_workers := (sc_workers s)[i := pc]\<rparr>"

definition drop_lease :: "StreamLease \<Rightarrow> 'w StreamScheduler \<Rightarrow> 'w StreamScheduler" where
  "drop_lease l s = s\<lparr>sc_dropped := sc_dropped s @ [l]\<rparr>"

definition park :: "StreamLease \<Rightarrow> 'w StreamScheduler \<Rightarrow> 'w StreamScheduler" where
  "park l s = s\<lparr>sc_parking_lot := parking_park l (sc_parking_lot s)\<rparr>"

definition pick_victim :: "nat \<Rightarrow> nat \<Rightarrow> nat" where
  "pick_victim i draw = (if draw \<ge> i then draw + 1 else draw)"

definition pop_local :: "nat \<Rightarrow> 'w StreamScheduler \<Rightarrow> 'w StreamScheduler" where
  "pop_local i s = (case deque_pop (sc_deques s ! i) of (d, r) \<Rightarrow>
     let s' = s\<lparr>sc_deques := (sc_deques s)[i := d]\<rparr> in
     case r of Some l \<Rightarrow> at i (Found l) s' | None \<Rightarrow> at i (if sc_num_workers s > 1 then Steal_Peer else Pop_Global) s')"

definition steal_peer :: "nat \<Rightarrow> nat \<Rightarrow> 'w StreamScheduler \<Rightarrow> 'w StreamScheduler" where
  "steal_peer i draw s = (let v = pick_victim i draw in case deque_steal (sc_deques s ! v) of (d, r) \<Rightarrow>
     let s' = s\<lparr>sc_deques := (sc_deques s)[v := d]\<rparr> in
     case r of Some l \<Rightarrow> at i (Found l) s' | None \<Rightarrow> at i Pop_Global s')"

definition pop_global :: "nat \<Rightarrow> 'w StreamScheduler \<Rightarrow> 'w StreamScheduler" where
  "pop_global i s = (case global_pop (sc_global_queue s) of (q, r) \<Rightarrow>
     let s' = s\<lparr>sc_global_queue := q\<rparr> in
     case r of Some l \<Rightarrow> at i (Found l) s' | None \<Rightarrow> at i No_Work s')"

definition is_cancelled :: "'w StreamScheduler \<Rightarrow> StreamLease \<Rightarrow> bool" where
  "is_cancelled s l = (case sl_control l of None \<Rightarrow> False | Some c \<Rightarrow> ct_cancelled (sc_controls s c))"

definition no_demand :: "'w StreamScheduler \<Rightarrow> StreamLease \<Rightarrow> bool" where
  "no_demand s l = (case sl_control l of None \<Rightarrow> False | Some c \<Rightarrow> \<not> should_advance (sc_controls s c))"

definition judge :: "nat \<Rightarrow> StreamLease \<Rightarrow> 'w StreamScheduler \<Rightarrow> 'w StreamScheduler" where
  "judge i lease s = (let l = lease\<lparr>sl_worker_affinity := word_of_nat i\<rparr> in
     if is_cancelled s l then at i Pop_Local (drop_lease l s)
     else if no_demand s l then at i (Parking l) s
     else if sc_poll_fn s \<noteq> None then at i (Polling l) s
     else at i Pop_Local (drop_lease l s))"

definition poll_lease :: "nat \<Rightarrow> StreamLease \<Rightarrow> 'w StreamScheduler \<Rightarrow> PollKind \<times> 'w StreamScheduler" where
  "poll_lease i l s = (case the (sc_poll_fn s) (sl_stream_ctx l) (sl_vtable l) (sl_budget l) \<lparr>tc_worker_id = word_of_nat i\<rparr> (sc_world s) of
     (kind, w) \<Rightarrow> (kind, s\<lparr>sc_world := w\<rparr>))"

definition emit_control :: "StreamLease \<Rightarrow> 'w StreamScheduler \<Rightarrow> 'w StreamScheduler" where
  "emit_control l s = (case sl_control l of None \<Rightarrow> s | Some c \<Rightarrow> s\<lparr>sc_controls := (sc_controls s)(c := on_emit (sc_controls s c))\<rparr>)"

fun dispatch_result :: "PollKind \<Rightarrow> StreamLease \<Rightarrow> nat \<Rightarrow> 'w StreamScheduler \<Rightarrow> 'w StreamScheduler" where
  "dispatch_result kind_Emit l i s = push_to i l (emit_control l s)"
| "dispatch_result kind_Pending l i s = park l s"
| "dispatch_result kind_Yield l i s = push_to i l s"
| "dispatch_result kind_Done l i s = drop_lease l s"
| "dispatch_result kind_Error l i s = drop_lease l s"

definition drain_remaining :: "nat \<Rightarrow> 'w StreamScheduler \<Rightarrow> 'w StreamScheduler" where
  "drain_remaining i s = (case deque_pop (sc_deques s ! i) of (d, r) \<Rightarrow>
     let s' = s\<lparr>sc_deques := (sc_deques s)[i := d]\<rparr> in
     case r of None \<Rightarrow> at i Exited s'
     | Some l \<Rightarrow> (if sc_poll_fn s \<noteq> None \<and> lease_valid l then at i (Drain_Poll l) s' else drop_lease l s'))"

text \<open>One step of worker \<open>i\<close>; \<open>draw\<close> is the number its generator gives if it steals.\<close>

definition worker_loop :: "nat \<Rightarrow> nat \<Rightarrow> 'w StreamScheduler \<Rightarrow> 'w StreamScheduler" where
  "worker_loop i draw s = (case sc_workers s ! i of
      Pop_Local \<Rightarrow> pop_local i s
    | Steal_Peer \<Rightarrow> steal_peer i draw s
    | Pop_Global \<Rightarrow> pop_global i s
    | Found l \<Rightarrow> judge i l s
    | Parking l \<Rightarrow> at i Pop_Local (park l s)
    | Polling l \<Rightarrow> (case poll_lease i l s of (kind, s') \<Rightarrow> at i (Dispatch kind l) s')
    | Dispatch kind l \<Rightarrow> at i Pop_Local (dispatch_result kind l i s)
    | No_Work \<Rightarrow> at i (if sc_shutdown s then Draining else Pop_Local) s
    | Draining \<Rightarrow> drain_remaining i s
    | Drain_Poll l \<Rightarrow> at i Draining (drop_lease l (snd (poll_lease i l s)))
    | Exited \<Rightarrow> s)"

subsection \<open>All interleavings\<close>

definition submitted :: "StreamLease \<Rightarrow> 'w StreamScheduler \<Rightarrow> 'w StreamScheduler" where
  "submitted l s = s\<lparr>sc_submitted := sc_submitted s @ [l]\<rparr>"

definition change_control :: "nat \<Rightarrow> (StreamControl \<Rightarrow> StreamControl) \<Rightarrow> 'w StreamScheduler \<Rightarrow> 'w StreamScheduler" where
  "change_control c f s = s\<lparr>sc_controls := (sc_controls s)(c := f (sc_controls s c))\<rparr>"

datatype SchedAction =
    Do_Schedule StreamLease
  | Do_Schedule_Affine StreamLease "32 word"
  | Do_Wake "nat option"
  | Do_Request nat "32 word"
  | Do_Consume nat
  | Do_Cancel nat
  | Do_Shutdown
  | Do_Worker nat nat

fun sched_act :: "SchedAction \<Rightarrow> 'w StreamScheduler \<Rightarrow> 'w StreamScheduler" where
  "sched_act (Do_Schedule l) s = schedule l (submitted l s)"
| "sched_act (Do_Schedule_Affine l i) s = schedule_affine l i (submitted l s)"
| "sched_act (Do_Wake ctx) s = wake ctx s"
| "sched_act (Do_Request c n) s = change_control c (control_request n) s"
| "sched_act (Do_Consume c) s = change_control c on_consume s"
| "sched_act (Do_Cancel c) s = change_control c control_cancel s"
| "sched_act Do_Shutdown s = shutdown s"
| "sched_act (Do_Worker i draw) s = worker_loop i draw s"

fun sched_enabled :: "SchedAction \<Rightarrow> 'w StreamScheduler \<Rightarrow> bool" where
  "sched_enabled (Do_Worker i draw) s \<longleftrightarrow>
     i < sc_num_workers s \<and> (sc_workers s ! i = Steal_Peer \<longrightarrow> draw \<le> sc_num_workers s - 2)"
| "sched_enabled a s \<longleftrightarrow> True"

inductive sched_step :: "'w StreamScheduler \<Rightarrow> 'w StreamScheduler \<Rightarrow> bool" where
  "sched_enabled a s \<Longrightarrow> sched_step s (sched_act a s)"

inductive_cases sched_stepE: "sched_step s s'"

text \<open>A scheduler starts, its poll function is set, and then anything happens.\<close>

inductive sched_reach :: "'w StreamScheduler \<Rightarrow> bool" where
  sched_start: "sched_reach (set_poll_fn fn (new_scheduler n hw controls w))"
| sched_next: "\<lbrakk>sched_reach s; sched_step s s'\<rbrakk> \<Longrightarrow> sched_reach s'"

fun sched_run :: "SchedAction list \<Rightarrow> 'w StreamScheduler \<Rightarrow> 'w StreamScheduler option" where
  "sched_run [] s = Some s"
| "sched_run (a # as) s = (if sched_enabled a s then sched_run as (sched_act a s) else None)"

lemma sched_run_reach: "\<lbrakk>sched_run as s = Some s'; sched_reach s\<rbrakk> \<Longrightarrow> sched_reach s'"
  by (induction as arbitrary: s) (auto split: if_splits intro: sched_next sched_step.intros)

end
