(* ===== verification/Deque_Laws.thy ===== *)
theory Deque_Laws
  imports Deque
begin

text \<open>
  The invariant of the work-stealing deque and its preservation by every access of the owner and of a thief. The leases a deque holds
  are \<open>deque_list\<close>: the slots from \<open>top_\<close> up to the bottom, where an owner that has lowered \<open>bottom_\<close> and not yet looked at \<open>top_\<close>
  still counts its slot. Each step changes that list as a queue open at both ends does, until the owner loses a race.
\<close>

unbundle bit_operations_syntax

subsection \<open>Circular buffers\<close>

definition buffer_wf :: "Buffer \<Rightarrow> bool" where
  "buffer_wf buf \<longleftrightarrow> (\<exists>k. bf_mask buf = 2 ^ k - 1 \<and> length (bf_storage buf) = 2 ^ k)"

lemma slot_mod: "buffer_wf buf \<Longrightarrow> buffer_slot buf i = nat (i mod (bf_mask buf + 1))"
  by (auto simp: buffer_wf_def buffer_slot_def take_bit_eq_mod [symmetric] take_bit_eq_mask mask_eq_exp_minus_1)

lemma wf_mask: "buffer_wf buf \<Longrightarrow> 0 \<le> bf_mask buf \<and> int (length (bf_storage buf)) = bf_mask buf + 1"
  by (auto simp: buffer_wf_def)

lemma slot_less: "buffer_wf buf \<Longrightarrow> buffer_slot buf i < length (bf_storage buf)"
  using wf_mask [of buf] by (simp add: slot_mod) (smt (verit) pos_mod_bound pos_mod_sign nat_less_iff)

lemma wf_set [simp]: "buffer_wf (buffer_set buf i l) = buffer_wf buf" "bf_mask (buffer_set buf i l) = bf_mask buf"
  by (simp_all add: buffer_set_def buffer_wf_def)

lemma get_set_same: "buffer_wf buf \<Longrightarrow> buffer_get (buffer_set buf i l) i = l"
  using slot_less [of buf i] by (simp add: buffer_get_def buffer_set_def buffer_slot_def)

lemma mod_distinct: "\<lbrakk>(0::int) < n; i mod n = j mod n; \<bar>i - j\<bar> < n\<rbrakk> \<Longrightarrow> i = j"
  using dvd_imp_le_int [of "i - j" n] by (auto simp: mod_eq_dvd_iff)

lemma get_set_other:
  assumes "buffer_wf buf" "i \<noteq> j" "\<bar>i - j\<bar> \<le> bf_mask buf"
  shows "buffer_get (buffer_set buf i l) j = buffer_get buf j"
proof -
  have "buffer_slot buf i \<noteq> buffer_slot buf j"
  proof
    assume "buffer_slot buf i = buffer_slot buf j"
    then have "i mod (bf_mask buf + 1) = j mod (bf_mask buf + 1)"
      using assms(1) wf_mask [OF assms(1)] by (simp add: slot_mod eq_nat_nat_iff)
    then show False using mod_distinct [of "bf_mask buf + 1" i j] assms wf_mask [OF assms(1)] by simp
  qed
  then show ?thesis by (simp add: buffer_get_def buffer_set_def buffer_slot_def)
qed

lemma wf_new: "buffer_wf (new_buffer (2 ^ k))"
  by (auto simp: buffer_wf_def new_buffer_def nat_power_eq)

lemma grow_loop_keeps: "bf_mask (grow_loop buf nb i b) = bf_mask nb \<and> (buffer_wf nb \<longrightarrow> buffer_wf (grow_loop buf nb i b))"
  by (induction buf nb i b rule: grow_loop.induct) (subst grow_loop.simps, simp)+

lemma grow_loop_get:
  "\<lbrakk>buffer_wf nb; b - j \<le> bf_mask nb + 1; j < b; j < i \<longrightarrow> buffer_get nb j = buffer_get buf j; b - i \<le> bf_mask nb + 1; i - j \<le> bf_mask nb + 1\<rbrakk>
     \<Longrightarrow> buffer_get (grow_loop buf nb i b) j = buffer_get buf j"
proof (induction buf nb i b rule: grow_loop.induct)
  case (1 buf nb i b)
  show ?case
  proof (cases "i < b")
    case True
    have "j < i + 1 \<longrightarrow> buffer_get (buffer_set nb i (buffer_get buf i)) j = buffer_get buf j"
      using 1(2-7) True by (cases "i = j") (auto simp: get_set_same get_set_other)
    then show ?thesis using 1 True by (subst grow_loop.simps) simp
  next
    case False
    then show ?thesis using 1 by (subst grow_loop.simps) simp
  qed
qed

lemma grow_wf:
  assumes "buffer_wf buf"
  shows "buffer_wf (buffer_grow buf t b) \<and> bf_mask (buffer_grow buf t b) = 2 * bf_mask buf + 1"
proof -
  obtain k where k: "bf_mask buf = 2 ^ k - 1" using assms by (auto simp: buffer_wf_def)
  have n: "(bf_mask buf + 1) * 2 = 2 ^ Suc k" by (simp add: k)
  show ?thesis
    using grow_loop_keeps [of buf "new_buffer (2 ^ Suc k)" t b] wf_new [of "Suc k"] k
    unfolding buffer_grow_def n by (simp add: new_buffer_def)
qed

lemma grow_get:
  assumes "buffer_wf buf" "t \<le> j" "j < b" "b - t \<le> 2 * (bf_mask buf + 1)"
  shows "buffer_get (buffer_grow buf t b) j = buffer_get buf j"
proof -
  obtain k where k: "bf_mask buf = 2 ^ k - 1" using assms by (auto simp: buffer_wf_def)
  have n: "(bf_mask buf + 1) * 2 = 2 ^ Suc k" by (simp add: k)
  show ?thesis
    unfolding buffer_grow_def n by (rule grow_loop_get) (use assms k in \<open>simp_all add: wf_new del: power_Suc, simp_all add: new_buffer_def\<close>)
qed

subsection \<open>The invariant\<close>

definition slot_at :: "Deque \<Rightarrow> int \<Rightarrow> StreamLease" where
  "slot_at d i = buffer_get (current_buffer d) i"

fun logical_bottom :: "Deque \<Rightarrow> OwnerPc \<Rightarrow> int" where
  "logical_bottom d (Pop_Load_Top b p) = dq_bottom d + 1"
| "logical_bottom d (Pop_Empty t) = dq_bottom d + 1"
| "logical_bottom d (Pop_Cas t l) = dq_bottom d + 1"
| "logical_bottom d (Pop_Won t l) = dq_bottom d + 1"
| "logical_bottom d pc = dq_bottom d"

definition deque_list :: "Deque \<Rightarrow> OwnerPc \<Rightarrow> StreamLease list" where
  "deque_list d pc = map (slot_at d) [dq_top d..logical_bottom d pc - 1]"

definition deque_ok :: "Deque \<Rightarrow> OwnerPc \<Rightarrow> bool" where
  "deque_ok d pc \<longleftrightarrow> (\<forall>buf \<in> set (dq_heap d). buffer_wf buf) \<and> dq_buffer d < length (dq_heap d) \<and>
     dq_top d \<le> logical_bottom d pc \<and> logical_bottom d pc - dq_top d \<le> bf_mask (current_buffer d) + 1"

fun owner_ok :: "Deque \<Rightarrow> OwnerPc \<Rightarrow> bool" where
  "owner_ok d (Push_Load_Top l b) \<longleftrightarrow> b = dq_bottom d"
| "owner_ok d (Push_Load_Buffer l b t) \<longleftrightarrow> b = dq_bottom d \<and> t \<le> dq_top d \<and> b - t \<le> 2 * (bf_mask (current_buffer d) + 1)"
| "owner_ok d (Push_Store_Slot l b p) \<longleftrightarrow> b = dq_bottom d \<and> p = dq_buffer d \<and> b - dq_top d \<le> bf_mask (current_buffer d)"
| "owner_ok d (Push_Store_Bottom l b) \<longleftrightarrow> b = dq_bottom d \<and> b - dq_top d \<le> bf_mask (current_buffer d) \<and> slot_at d b = l"
| "owner_ok d (Pop_Load_Buffer b) \<longleftrightarrow> b = dq_bottom d - 1"
| "owner_ok d (Pop_Store_Bottom b p) \<longleftrightarrow> b = dq_bottom d - 1 \<and> p = dq_buffer d"
| "owner_ok d (Pop_Load_Top b p) \<longleftrightarrow> b = dq_bottom d \<and> p = dq_buffer d"
| "owner_ok d (Pop_Empty t) \<longleftrightarrow> t = dq_top d \<and> t = dq_bottom d + 1"
| "owner_ok d (Pop_Cas t l) \<longleftrightarrow> t = dq_bottom d \<and> t \<le> dq_top d \<and> l = slot_at d t"
| "owner_ok d (Pop_Won t l) \<longleftrightarrow> t = dq_bottom d \<and> dq_top d = t + 1"
| "owner_ok d (Pop_Lost t) \<longleftrightarrow> False"
| "owner_ok d pc \<longleftrightarrow> True"

text \<open>What a thief has loaded stays true as long as the top is where it saw it.\<close>

fun thief_ok :: "Deque \<Rightarrow> int \<Rightarrow> ThiefPc \<Rightarrow> bool" where
  "thief_ok d lb (Steal_Load_Bottom t) \<longleftrightarrow> t \<le> dq_top d"
| "thief_ok d lb (Steal_Load_Buffer t) \<longleftrightarrow> t \<le> dq_top d \<and> (t = dq_top d \<longrightarrow> t < lb)"
| "thief_ok d lb (Steal_Load_Slot t p) \<longleftrightarrow> t \<le> dq_top d \<and> p < length (dq_heap d) \<and>
     (t = dq_top d \<longrightarrow> t < lb \<and> buffer_get (dq_heap d ! p) t = slot_at d t)"
| "thief_ok d lb (Steal_Cas t l) \<longleftrightarrow> t \<le> dq_top d \<and> (t = dq_top d \<longrightarrow> t < lb \<and> l = slot_at d t)"
| "thief_ok d lb pc \<longleftrightarrow> True"

definition thief_frame :: "Deque \<Rightarrow> int \<Rightarrow> Deque \<Rightarrow> int \<Rightarrow> bool" where
  "thief_frame d lb d' lb' \<longleftrightarrow> dq_top d \<le> dq_top d' \<and> length (dq_heap d) \<le> length (dq_heap d') \<and>
     (dq_top d' = dq_top d \<and> dq_top d < lb \<longrightarrow> dq_top d < lb' \<and> slot_at d' (dq_top d) = slot_at d (dq_top d) \<and>
        (\<forall>p < length (dq_heap d). buffer_get (dq_heap d' ! p) (dq_top d) = buffer_get (dq_heap d ! p) (dq_top d)))"

lemma thief_frame_ok: "\<lbrakk>thief_ok d lb pc; thief_frame d lb d' lb'\<rbrakk> \<Longrightarrow> thief_ok d' lb' pc"
  by (cases pc) (auto simp: thief_frame_def)

lemma thief_frame_refl [intro]: "lb \<le> lb' \<Longrightarrow> thief_frame d lb d lb'"
  by (auto simp: thief_frame_def)

text \<open>The promise: a queue open at both ends.\<close>

fun list_event :: "Event \<Rightarrow> StreamLease list \<Rightarrow> StreamLease list \<Rightarrow> bool" where
  "list_event Silent xs ys \<longleftrightarrow> ys = xs"
| "list_event (Pushed l) xs ys \<longleftrightarrow> ys = xs @ [l]"
| "list_event (Taken l) xs ys \<longleftrightarrow> xs = ys @ [l] \<or> xs = l # ys"
| "list_event LostRace xs ys \<longleftrightarrow> False"

lemma slot_at_simps [simp]:
  "slot_at (d\<lparr>dq_top := t\<rparr>) = slot_at d" "slot_at (d\<lparr>dq_bottom := t\<rparr>) = slot_at d"
  "current_buffer (d\<lparr>dq_top := t\<rparr>) = current_buffer d" "current_buffer (d\<lparr>dq_bottom := t\<rparr>) = current_buffer d"
  by (simp_all add: slot_at_def current_buffer_def fun_eq_iff)

lemma upto_last: "i \<le> j \<Longrightarrow> [i..j] = [i..j - 1] @ [j]"
  by (rule upto_rec2)

subsection \<open>The owner's steps\<close>

definition step_refines :: "Deque \<Rightarrow> OwnerPc \<Rightarrow> Deque \<Rightarrow> OwnerPc \<Rightarrow> Event \<Rightarrow> bool" where
  "step_refines d pc d' pc' ev \<longleftrightarrow> deque_ok d' pc' \<and> owner_ok d' pc' \<and>
     thief_frame d (logical_bottom d pc) d' (logical_bottom d' pc') \<and> list_event ev (deque_list d pc) (deque_list d' pc')"

lemma deque_okD:
  assumes "deque_ok d pc"
  shows "buffer_wf (current_buffer d)" "0 \<le> bf_mask (current_buffer d)" "dq_buffer d < length (dq_heap d)"
    "dq_top d \<le> logical_bottom d pc" "logical_bottom d pc - dq_top d \<le> bf_mask (current_buffer d) + 1"
proof -
  show "buffer_wf (current_buffer d)" "dq_buffer d < length (dq_heap d)" "dq_top d \<le> logical_bottom d pc"
    "logical_bottom d pc - dq_top d \<le> bf_mask (current_buffer d) + 1"
    using assms by (auto simp: deque_ok_def current_buffer_def)
  then show "0 \<le> bf_mask (current_buffer d)" using wf_mask by blast
qed

lemma refines_still:
  assumes "deque_ok d pc" "owner_ok d pc'" "logical_bottom d pc' = logical_bottom d pc"
  shows "step_refines d pc d pc' Silent"
  using assms by (auto simp: step_refines_def deque_ok_def deque_list_def)

text \<open>Growing copies every lease that is still there.\<close>

lemma push_grow_slots:
  assumes ok: "deque_ok d pc" and t: "t \<le> dq_top d" "b - t \<le> 2 * (bf_mask (current_buffer d) + 1)"
  shows "\<And>i. \<lbrakk>dq_top d \<le> i; i < b\<rbrakk> \<Longrightarrow> slot_at (push_grow d t b) i = slot_at d i"
    "bf_mask (current_buffer (push_grow d t b)) = 2 * bf_mask (current_buffer d) + 1"
    "\<forall>buf \<in> set (dq_heap (push_grow d t b)). buffer_wf buf"
proof -
  note wf = deque_okD [OF ok]
  have cur: "current_buffer (push_grow d t b) = buffer_grow (current_buffer d) t b"
    by (simp add: push_grow_def current_buffer_def)
  show "slot_at (push_grow d t b) i = slot_at d i" if "dq_top d \<le> i" "i < b" for i
    unfolding slot_at_def cur by (rule grow_get) (use wf t that in auto)
  show "bf_mask (current_buffer (push_grow d t b)) = 2 * bf_mask (current_buffer d) + 1"
    unfolding cur using grow_wf [OF wf(1)] by blast
  show "\<forall>buf \<in> set (dq_heap (push_grow d t b)). buffer_wf buf"
    using grow_wf [OF wf(1)] ok by (auto simp: push_grow_def deque_ok_def)
qed

lemma push_grow_fields [simp]:
  "dq_top (push_grow d t b) = dq_top d" "dq_bottom (push_grow d t b) = dq_bottom d"
  "dq_buffer (push_grow d t b) = length (dq_heap d)" "length (dq_heap (push_grow d t b)) = Suc (length (dq_heap d))"
  "p < length (dq_heap d) \<Longrightarrow> dq_heap (push_grow d t b) ! p = dq_heap d ! p"
  by (simp_all add: push_grow_def nth_append)

lemma grow_refines:
  assumes ok: "deque_ok d (Push_Load_Buffer l b t)" and pc: "owner_ok d (Push_Load_Buffer l b t)"
  shows "step_refines d (Push_Load_Buffer l b t) (push_grow d t b) (Push_Store_Slot l b (length (dq_heap d))) Silent"
proof -
  note wf = deque_okD [OF ok]
  have t: "t \<le> dq_top d" "b - t \<le> 2 * (bf_mask (current_buffer d) + 1)" "b = dq_bottom d" using pc by simp_all
  note grown = push_grow_slots [OF ok t(1,2)]
  have "deque_list (push_grow d t b) (Push_Store_Slot l b (length (dq_heap d))) = deque_list d (Push_Load_Buffer l b t)"
    by (auto simp: deque_list_def t(3) intro!: grown(1) [unfolded t(3)])
  then show ?thesis
    using ok t grown wf by (auto simp: step_refines_def deque_ok_def thief_frame_def)
qed

lemma store_slot_refines:
  assumes ok: "deque_ok d (Push_Store_Slot l b p)" and pc: "owner_ok d (Push_Store_Slot l b p)"
  shows "step_refines d (Push_Store_Slot l b p) (d\<lparr>dq_heap := (dq_heap d)[p := buffer_set (dq_heap d ! p) b l]\<rparr>)
           (Push_Store_Bottom l b) Silent"
proof -
  let ?d = "d\<lparr>dq_heap := (dq_heap d)[p := buffer_set (dq_heap d ! p) b l]\<rparr>"
  note wf = deque_okD [OF ok]
  have p: "p = dq_buffer d" "b = dq_bottom d" "b - dq_top d \<le> bf_mask (current_buffer d)" using pc by simp_all
  have cur: "current_buffer ?d = buffer_set (current_buffer d) b l"
    using wf(3) by (simp add: current_buffer_def p(1))
  have get: "buffer_get (buffer_set (current_buffer d) b l) i = buffer_get (current_buffer d) i" if "dq_top d \<le> i" "i < b" for i
    by (rule get_set_other [OF wf(1)]) (use that p(3) in auto)
  have slots: "slot_at ?d i = slot_at d i" if "dq_top d \<le> i" "i < b" for i
    unfolding slot_at_def cur by (rule get [OF that])
  have heap: "buffer_get (dq_heap ?d ! q) (dq_top d) = buffer_get (dq_heap d ! q) (dq_top d)" if "q < length (dq_heap d)" "dq_top d < b" for q
    using that get [of "dq_top d"] by (cases "q = p") (auto simp: p(1) current_buffer_def)
  have lst: "deque_list ?d (Push_Store_Bottom l b) = deque_list d (Push_Store_Slot l b p)"
    by (auto simp: deque_list_def p(2) intro!: slots [unfolded p(2)])
  have bufs: "\<forall>buf \<in> set (dq_heap ?d). buffer_wf buf"
  proof
    fix buf assume "buf \<in> set (dq_heap ?d)"
    then have "buf \<in> insert (buffer_set (dq_heap d ! p) b l) (set (dq_heap d))" using set_update_subset_insert by force
    then show "buffer_wf buf" using ok wf(1) by (auto simp: deque_ok_def p(1) current_buffer_def)
  qed
  have "slot_at ?d b = l" unfolding slot_at_def cur by (rule get_set_same [OF wf(1)])
  then show ?thesis
    using ok p bufs heap slots lst cur unfolding step_refines_def deque_ok_def thief_frame_def by simp
qed

lemma store_bottom_refines:
  assumes ok: "deque_ok d (Push_Store_Bottom l b)" and pc: "owner_ok d (Push_Store_Bottom l b)"
  shows "step_refines d (Push_Store_Bottom l b) (d\<lparr>dq_bottom := b + 1\<rparr>) Owner_Idle (Pushed l)"
  using assms upto_last [of "dq_top d" b]
  by (auto simp: step_refines_def deque_ok_def thief_frame_def deque_list_def)

lemma push_step_refines:
  assumes "deque_ok d pc" "owner_ok d pc" "push_step d pc = (d', pc', ev)"
  shows "step_refines d pc d' pc' ev"
proof (cases pc)
  case (Push_Load_Top l b)
  then show ?thesis using assms deque_okD [OF assms(1)] by (auto intro!: refines_still)
next
  case (Push_Load_Buffer l b t)
  then show ?thesis
    using assms grow_refines [of d l b t] by (auto intro!: refines_still split: if_splits)
next
  case (Push_Store_Slot l b p)
  then show ?thesis using assms store_slot_refines [of d l b p] by auto
next
  case (Push_Store_Bottom l b)
  then show ?thesis using assms store_bottom_refines [of d l b] by auto
qed (use assms in \<open>auto intro!: refines_still\<close>)

lemma pop_look_refines:
  assumes ok: "deque_ok d (Pop_Load_Top b p)" and pc: "owner_ok d (Pop_Load_Top b p)"
    and st: "pop_step d (Pop_Load_Top b p) = (d', pc', ev)"
  shows "step_refines d (Pop_Load_Top b p) d' pc' ev"
proof -
  have b: "b = dq_bottom d" "p = dq_buffer d" using pc by simp_all
  note wf = deque_okD [OF ok]
  have top: "dq_top d \<le> dq_bottom d + 1" using wf(4) by simp
  have lease: "buffer_get (dq_heap d ! dq_buffer d) (dq_bottom d) = slot_at d (dq_bottom d)"
    by (simp add: slot_at_def current_buffer_def)
  consider (none) "b < dq_top d" | (more) "dq_top d < b" | (one) "b = dq_top d" by linarith
  then show ?thesis
  proof cases
    case none
    then show ?thesis using st ok top b by (auto intro!: refines_still)
  next
    case more
    then show ?thesis
      using st ok b lease upto_last [of "dq_top d" b]
      by (auto simp: step_refines_def deque_ok_def thief_frame_def deque_list_def Let_def)
  next
    case one
    then show ?thesis using st ok b lease by (auto intro!: refines_still simp: Let_def)
  qed
qed

lemma pop_step_refines:
  assumes "deque_ok d pc" "owner_ok d pc" "pop_step d pc = (d', pc', ev)" "ev \<noteq> LostRace"
  shows "step_refines d pc d' pc' ev"
proof (cases pc)
  case (Pop_Store_Bottom b p)
  then show ?thesis using assms by (auto simp: step_refines_def deque_ok_def thief_frame_def deque_list_def)
next
  case (Pop_Load_Top b p)
  then show ?thesis using assms pop_look_refines by blast
next
  case (Pop_Empty t)
  then show ?thesis using assms by (auto simp: step_refines_def deque_ok_def thief_frame_def deque_list_def)
next
  case (Pop_Cas t l)
  then show ?thesis
    using assms by (auto simp: step_refines_def deque_ok_def thief_frame_def deque_list_def split: if_splits)
next
  case (Pop_Won t l)
  then show ?thesis using assms by (auto simp: step_refines_def deque_ok_def thief_frame_def deque_list_def)
qed (use assms in \<open>auto intro!: refines_still\<close>)

lemma owner_step_refines:
  assumes "deque_ok d pc" "owner_ok d pc" "owner_step d pc = (d', pc', ev)" "ev \<noteq> LostRace"
  shows "step_refines d pc d' pc' ev"
  using assms push_step_refines [of d pc] pop_step_refines [of d pc]
  by (cases pc) (simp_all add: owner_step_def del: push_step.simps pop_step.simps)

subsection \<open>The thieves' steps\<close>

lemma steal_refines:
  assumes ok: "deque_ok d pc" and own: "owner_ok d pc" and top: "dq_top d < logical_bottom d pc"
  shows "step_refines d pc (d\<lparr>dq_top := dq_top d + 1\<rparr>) pc (Taken (slot_at d (dq_top d)))"
proof -
  let ?d = "d\<lparr>dq_top := dq_top d + 1\<rparr>"
  have lb: "logical_bottom ?d pc = logical_bottom d pc" by (cases pc) simp_all
  have o: "owner_ok ?d pc" using own top by (cases pc) auto
  have "deque_list d pc = slot_at d (dq_top d) # deque_list ?d pc"
    using top by (simp add: deque_list_def lb upto_rec1)
  then show ?thesis using ok o top by (auto simp: step_refines_def lb deque_ok_def thief_frame_def)
qed

lemma thief_step_refines:
  assumes ok: "deque_ok d pc" and own: "owner_ok d pc" and th: "thief_ok d (logical_bottom d pc) tpc"
    and st: "thief_step d tpc = (d', tpc', ev)"
  shows "step_refines d pc d' pc ev \<and> thief_ok d' (logical_bottom d' pc) tpc' \<and> ev \<noteq> LostRace"
proof -
  have still: "step_refines d pc d pc Silent" by (rule refines_still [OF ok own]) simp
  have lb: "dq_bottom d \<le> logical_bottom d pc" by (cases pc) simp_all
  show ?thesis
  proof (cases tpc)
    case (Steal_Load_Bottom t)
    then show ?thesis using st th still lb by auto
  next
    case (Steal_Load_Buffer t)
    then show ?thesis using st th still deque_okD [OF ok] by (auto simp: slot_at_def current_buffer_def)
  next
    case (Steal_Cas t l)
    then show ?thesis using st th still steal_refines [OF ok own] by (auto split: if_splits)
  qed (use st th still in auto)
qed

subsection \<open>All interleavings\<close>

definition held :: "Machine \<Rightarrow> StreamLease list" where
  "held m = deque_list (mc_deque m) (mc_owner m)"

definition machine_ok :: "Machine \<Rightarrow> bool" where
  "machine_ok m \<longleftrightarrow> deque_ok (mc_deque m) (mc_owner m) \<and> owner_ok (mc_deque m) (mc_owner m) \<and>
     (\<forall>i. thief_ok (mc_deque m) (logical_bottom (mc_deque m) (mc_owner m)) (mc_thieves m i))"

text \<open>The promise: what is held, what went in so far, what came out so far.\<close>

type_synonym view = "StreamLease list \<times> StreamLease list \<times> StreamLease list"

definition view :: "Machine \<Rightarrow> view" where
  "view m = (held m, mc_pushed m, mc_taken m)"

inductive queue_step :: "view \<Rightarrow> view \<Rightarrow> bool" where
  queue_still: "queue_step v v"
| queue_in: "queue_step (xs, ps, ts) (xs @ [l], ps @ [l], ts)"
| queue_out_back: "queue_step (xs @ [l], ps, ts) (xs, ps, ts @ [l])"
| queue_out_front: "queue_step (l # xs, ps, ts) (xs, ps, ts @ [l])"

inductive_cases queue_stepE: "queue_step (xs, ps, ts) (ys, ps', ts')"

lemma log_event_fields [simp]:
  "mc_deque (log_event ev m) = mc_deque m" "mc_owner (log_event ev m) = mc_owner m" "mc_thieves (log_event ev m) = mc_thieves m"
  "mc_lost (log_event ev m) \<longleftrightarrow> mc_lost m \<or> ev = LostRace"
  by (cases ev; simp)+

lemma list_event_view:
  assumes "list_event ev (held m) (held m')" "mc_pushed m' = mc_pushed m" "mc_taken m' = mc_taken m"
  shows "queue_step (view m) (view (log_event ev m'))"
  using assms by (cases ev) (auto simp: view_def held_def intro: queue_step.intros)

lemma owner_move_ok:
  assumes ok: "machine_ok m" and lost: "\<not> mc_lost (owner_move m)"
  shows "machine_ok (owner_move m) \<and> queue_step (view m) (view (owner_move m))"
proof -
  obtain d pc ev where st: "owner_step (mc_deque m) (mc_owner m) = (d, pc, ev)" by (cases "owner_step (mc_deque m) (mc_owner m)")
  let ?m = "m\<lparr>mc_deque := d, mc_owner := pc\<rparr>"
  have mv: "owner_move m = log_event ev ?m" by (simp add: owner_move_def st)
  have r: "step_refines (mc_deque m) (mc_owner m) d pc ev"
    by (rule owner_step_refines [OF _ _ st]) (use ok lost mv in \<open>auto simp: machine_ok_def\<close>)
  have th: "thief_ok d (logical_bottom d pc) (mc_thieves m i)" for i
    by (rule thief_frame_ok [where d = "mc_deque m" and lb = "logical_bottom (mc_deque m) (mc_owner m)"])
      (use ok r in \<open>simp_all add: machine_ok_def step_refines_def\<close>)
  have "machine_ok (log_event ev ?m)"
    using ok r th by (simp add: machine_ok_def step_refines_def)
  moreover have "queue_step (view m) (view (log_event ev ?m))"
    by (rule list_event_view) (use r in \<open>auto simp: step_refines_def held_def\<close>)
  ultimately show ?thesis by (simp only: mv)
qed

lemma thief_move_ok:
  assumes ok: "machine_ok m"
  shows "machine_ok (thief_move i m) \<and> queue_step (view m) (view (thief_move i m)) \<and> mc_lost (thief_move i m) = mc_lost m"
proof -
  obtain d pc ev where st: "thief_step (mc_deque m) (mc_thieves m i) = (d, pc, ev)" by (cases "thief_step (mc_deque m) (mc_thieves m i)")
  let ?m = "m\<lparr>mc_deque := d, mc_thieves := (mc_thieves m)(i := pc)\<rparr>"
  have mv: "thief_move i m = log_event ev ?m" by (simp add: thief_move_def st)
  have r: "step_refines (mc_deque m) (mc_owner m) d (mc_owner m) ev" "thief_ok d (logical_bottom d (mc_owner m)) pc" "ev \<noteq> LostRace"
    using thief_step_refines [OF _ _ _ st] ok by (auto simp: machine_ok_def)
  have th: "thief_ok d (logical_bottom d (mc_owner m)) (mc_thieves m j)" for j
    by (rule thief_frame_ok [where d = "mc_deque m" and lb = "logical_bottom (mc_deque m) (mc_owner m)"])
      (use ok r in \<open>simp_all add: machine_ok_def step_refines_def\<close>)
  have "machine_ok (log_event ev ?m)"
    using ok r th by (simp add: machine_ok_def step_refines_def)
  moreover have "queue_step (view m) (view (log_event ev ?m))"
    by (rule list_event_view) (use r in \<open>auto simp: step_refines_def held_def\<close>)
  ultimately show ?thesis using r(3) by (simp add: mv)
qed

lemma call_ok:
  assumes ok: "machine_ok m" and free: "owner_free (mc_owner m)" and pc: "pc = Push_Load_Bottom l \<or> pc = Pop_Load_Bottom"
  shows "machine_ok (m\<lparr>mc_owner := pc\<rparr>) \<and> view (m\<lparr>mc_owner := pc\<rparr>) = view m"
proof -
  have "logical_bottom (mc_deque m) pc = logical_bottom (mc_deque m) (mc_owner m)"
    using free pc by (cases "mc_owner m") auto
  moreover have "owner_ok (mc_deque m) pc" using pc by auto
  ultimately show ?thesis using ok by (simp add: machine_ok_def view_def held_def deque_list_def deque_ok_def)
qed

lemma call_steal_ok:
  "machine_ok m \<Longrightarrow> machine_ok (m\<lparr>mc_thieves := (mc_thieves m)(i := Steal_Load_Top)\<rparr>) \<and>
     view (m\<lparr>mc_thieves := (mc_thieves m)(i := Steal_Load_Top)\<rparr>) = view m"
  by (simp add: machine_ok_def view_def held_def)

lemma step_ok:
  assumes "deque_step m m'" "machine_ok m" "\<not> mc_lost m'"
  shows "machine_ok m' \<and> queue_step (view m) (view m')"
  using assms
proof (cases rule: deque_step.cases)
  case owner_runs
  then show ?thesis using owner_move_ok assms by blast
next
  case (thief_runs i)
  then show ?thesis using thief_move_ok assms by blast
qed (use assms call_ok call_steal_ok in \<open>simp_all add: queue_still\<close>)

lemma lost_stays: "deque_step m m' \<Longrightarrow> mc_lost m \<Longrightarrow> mc_lost m'"
  by (induction rule: deque_step.induct) (auto simp: owner_move_def thief_move_def split: prod.splits)

lemma start_ok: "machine_ok new_machine" "view new_machine = ([], [], [])"
  using wf_new [of 6]
  by (simp_all add: machine_ok_def new_machine_def deque_ok_def new_deque_def initial_capacity_def current_buffer_def
      view_def held_def deque_list_def) (simp add: new_buffer_def)

lemma reach_ok: "deque_reach m \<Longrightarrow> \<not> mc_lost m \<Longrightarrow> machine_ok m"
  by (induction rule: deque_reach.induct) (use start_ok(1) step_ok lost_stays in blast)+

subsection \<open>A call that nobody disturbs\<close>

lemma push_is_steps:
  "((\<lambda>(d, pc, ev). owner_step d pc) ^^ 5) (d, Push_Load_Bottom l, Silent) = (deque_push d l, Owner_Idle, Pushed l)"
  by (simp add: eval_nat_numeral owner_step_def deque_push_def Let_def current_buffer_def push_grow_def)

lemma steal_is_steps:
  "\<exists>n \<le> 5. \<exists>ev. ((\<lambda>(d, pc, ev). thief_step d pc) ^^ n) (d, Steal_Load_Top, Silent) = (fst (deque_steal d), Steal_Returned (snd (deque_steal d)), ev)"
proof (cases "dq_top d \<ge> dq_bottom d")
  case True
  then show ?thesis by (intro exI [of _ 2]) (simp add: eval_nat_numeral deque_steal_def)
next
  case False
  then show ?thesis by (intro exI [of _ 5]) (simp add: eval_nat_numeral deque_steal_def Let_def current_buffer_def)
qed

lemma pop_is_steps:
  "\<exists>n \<le> 6. \<exists>ev. ((\<lambda>(d, pc, ev). owner_step d pc) ^^ n) (d, Pop_Load_Bottom, Silent) = (fst (deque_pop d), Pop_Returned (snd (deque_pop d)), ev)"
proof -
  consider "dq_bottom d - 1 < dq_top d" | "dq_bottom d - 1 > dq_top d" | "dq_bottom d - 1 = dq_top d" by linarith
  then show ?thesis
  proof cases
    case 1
    then show ?thesis by (intro exI [of _ 5]) (simp add: eval_nat_numeral owner_step_def deque_pop_def Let_def)
  next
    case 2
    then show ?thesis by (intro exI [of _ 4]) (simp add: eval_nat_numeral owner_step_def deque_pop_def Let_def current_buffer_def)
  next
    case 3
    then show ?thesis by (intro exI [of _ 6]) (simp add: eval_nat_numeral owner_step_def deque_pop_def Let_def current_buffer_def)
  qed
qed

text \<open>The leases of a deque at rest, and the three calls on them.\<close>

abbreviation idle_ok :: "Deque \<Rightarrow> bool" where "idle_ok d \<equiv> deque_ok d Owner_Idle"

definition leases :: "Deque \<Rightarrow> StreamLease list" where
  "leases d = map (slot_at d) [dq_top d..dq_bottom d - 1]"

lemma leases_idle: "leases d = deque_list d Owner_Idle"
  by (simp add: leases_def deque_list_def)

lemma new_deque_leases: "idle_ok new_deque \<and> leases new_deque = []"
  using start_ok(1) by (simp add: machine_ok_def new_machine_def leases_def new_deque_def)

lemma push_leases:
  assumes ok: "idle_ok d"
  shows "idle_ok (deque_push d l) \<and> leases (deque_push d l) = leases d @ [l]"
proof -
  obtain d3 p where 3: "step_refines d (Push_Load_Buffer l (dq_bottom d) (dq_top d)) d3 (Push_Store_Slot l (dq_bottom d) p) Silent"
    and st: "push_step d (Push_Load_Buffer l (dq_bottom d) (dq_top d)) = (d3, Push_Store_Slot l (dq_bottom d) p, Silent)"
    using push_step_refines [of d "Push_Load_Buffer l (dq_bottom d) (dq_top d)"] ok deque_okD [OF ok]
    by (cases "bf_mask (current_buffer d) < dq_bottom d - dq_top d") (auto simp: deque_ok_def)
  let ?d4 = "d3\<lparr>dq_heap := (dq_heap d3)[p := buffer_set (dq_heap d3 ! p) (dq_bottom d) l]\<rparr>"
  have 4: "step_refines d3 (Push_Store_Slot l (dq_bottom d) p) ?d4 (Push_Store_Bottom l (dq_bottom d)) Silent"
    by (rule store_slot_refines) (use 3 in \<open>unfold step_refines_def, blast+\<close>)
  have 5: "step_refines ?d4 (Push_Store_Bottom l (dq_bottom d)) (?d4\<lparr>dq_bottom := dq_bottom d + 1\<rparr>) Owner_Idle (Pushed l)"
    by (rule store_bottom_refines) (use 4 in \<open>unfold step_refines_def, blast+\<close>)
  have "deque_push d l = ?d4\<lparr>dq_bottom := dq_bottom d + 1\<rparr>"
    using st by (auto simp: deque_push_def Let_def current_buffer_def split: if_splits)
  then show ?thesis
    using 3 4 5 by (simp add: step_refines_def leases_idle) (simp add: deque_list_def)
qed

lemma pop_leases:
  assumes ok: "idle_ok d"
  shows "idle_ok (fst (deque_pop d)) \<and>
    (if leases d = [] then snd (deque_pop d) = None \<and> leases (fst (deque_pop d)) = []
     else snd (deque_pop d) = Some (last (leases d)) \<and> leases (fst (deque_pop d)) = butlast (leases d))"
proof -
  note wf = deque_okD [OF ok]
  consider (none) "dq_bottom d = dq_top d" | (one) "dq_bottom d = dq_top d + 1" | (more) "dq_bottom d > dq_top d + 1"
    using wf(4) by simp linarith
  then show ?thesis
  proof cases
    case more
    then show ?thesis
      using ok wf upto_last [of "dq_top d" "dq_bottom d - 1"]
      by (simp add: deque_pop_def Let_def deque_ok_def leases_def slot_at_def current_buffer_def)
  qed (use ok in \<open>simp_all add: deque_pop_def Let_def deque_ok_def leases_def slot_at_def current_buffer_def\<close>)
qed

lemma steal_leases:
  assumes ok: "idle_ok d"
  shows "idle_ok (fst (deque_steal d)) \<and>
    (if leases d = [] then deque_steal d = (d, None)
     else snd (deque_steal d) = Some (hd (leases d)) \<and> leases (fst (deque_steal d)) = tl (leases d))"
  using ok by (cases "dq_bottom d \<le> dq_top d")
    (simp_all add: deque_steal_def Let_def deque_ok_def leases_def upto_rec1 slot_at_def current_buffer_def)

text \<open>\<open>size_approx\<close> is the size, never negative.\<close>

lemma size_approx_max:
  assumes "- (2 ^ 63) \<le> sint b - sint t" "sint b - sint t < 2 ^ 63"
  shows "sint (size_approx b t) = max 0 (sint b - sint t)"
proof -
  let ?d = "b - t"
  have d: "sint ?d = sint b - sint t"
    using assms by (simp add: sint_word_ariths(2) signed_take_bit_int_eq_self)
  have "sint ?d < 0 \<longleftrightarrow> bit ?d 63" using bit_last_iff [of ?d] by simp
  then have "signed_drop_bit 63 ?d = (if sint ?d < 0 then - 1 else 0)"
    by (intro bit_word_eqI) (auto simp: bit_signed_drop_bit_iff not_less_eq_eq)
  then show ?thesis by (simp add: size_approx_def Let_def d)
qed

end
