(* ===== verification/Bags.thy ===== *)
theory Bags
  imports Prelude "HOL-Library.Multiset"
begin

text \<open>What the members of a list hold, as one multiset; changing one member changes its share only.\<close>

definition bag :: "('x \<Rightarrow> 'y list) \<Rightarrow> 'x list \<Rightarrow> 'y multiset" where
  "bag f xs = mset (concat (map f xs))"

lemma bag_simps [simp]: "bag f [] = {#}" "bag f (x # xs) = mset (f x) + bag f xs"
  by (simp_all add: bag_def)

lemma bag_update: "i < length xs \<Longrightarrow> bag f (xs[i := y]) + mset (f (xs ! i)) = bag f xs + mset (f y)"
proof (induction xs arbitrary: i)
  case (Cons x xs)
  then show ?case by (cases i) (simp_all add: ac_simps)
qed simp

lemma bag_replicate: "f x = [] \<Longrightarrow> bag f (replicate n x) = {#}"
  by (induction n) simp_all

end
