(* ===== verification/Scheduler_Laws.thy ===== *)
theory Scheduler_Laws
  imports Scheduler Deque_Laws Bags
begin

text \<open>
  Conservation of leases: whatever the threads do, every lease that was submitted is in one deque, in the global queue, in the parking
  lot, in the hands of one worker, or was let go. Leases are compared without their affinity, which a worker overwrites with its own
  number. The laws of one operation on one place come first; a step of a worker is a sequence of them.
\<close>

subsection \<open>Bags\<close>

definition strip :: "StreamLease \<Rightarrow> StreamLease" where
  "strip l = l\<lparr>sl_worker_affinity := 0\<rparr>"

definition stripped :: "StreamLease list \<Rightarrow> StreamLease multiset" where
  "stripped xs = mset (map strip xs)"

lemma stripped_simps [simp]:
  "stripped [] = {#}" "stripped (l # xs) = add_mset (strip l) (stripped xs)" "stripped (xs @ ys) = stripped xs + stripped ys"
  by (simp_all add: stripped_def)

lemma strip_affinity [simp]: "strip (l\<lparr>sl_worker_affinity := a\<rparr>) = strip l"
  by (simp add: strip_def)

lemma stripped_last: "xs \<noteq> [] \<Longrightarrow> stripped xs = add_mset (strip (last xs)) (stripped (butlast xs))"
  by (subst append_butlast_last_id [symmetric], assumption) (simp del: append_butlast_last_id)

lemma stripped_hd: "xs \<noteq> [] \<Longrightarrow> stripped xs = add_mset (strip (hd xs)) (stripped (tl xs))"
  by (cases xs) simp_all

abbreviation bag_of :: "('x \<Rightarrow> StreamLease list) \<Rightarrow> 'x list \<Rightarrow> StreamLease multiset" where
  "bag_of f \<equiv> bag (\<lambda>x. map strip (f x))"

lemma bag_of_update: "i < length xs \<Longrightarrow> bag_of f (xs[i := y]) + stripped (f (xs ! i)) = bag_of f xs + stripped (f y)"
  unfolding stripped_def by (rule bag_update)

subsection \<open>Where leases are\<close>

fun in_hand :: "WorkerPc \<Rightarrow> StreamLease list" where
  "in_hand (Found l) = [l]"
| "in_hand (Parking l) = [l]"
| "in_hand (Polling l) = [l]"
| "in_hand (Dispatch k l) = [l]"
| "in_hand (Drain_Poll l) = [l]"
| "in_hand pc = []"

definition everywhere :: "'w StreamScheduler \<Rightarrow> StreamLease multiset" where
  "everywhere s = bag_of leases (sc_deques s) + stripped (sc_global_queue s) + stripped (sc_parking_lot s) + bag_of in_hand (sc_workers s)
     + stripped (sc_dropped s)"

definition shape :: "'w StreamScheduler \<Rightarrow> bool" where
  "shape s \<longleftrightarrow> length (sc_deques s) = sc_num_workers s \<and> length (sc_workers s) = sc_num_workers s \<and>
     (\<forall>d \<in> set (sc_deques s). idle_ok d) \<and> (Steal_Peer \<in> set (sc_workers s) \<longrightarrow> 1 < sc_num_workers s)"

definition sched_ok :: "'w StreamScheduler \<Rightarrow> bool" where
  "sched_ok s \<longleftrightarrow> shape s \<and> stripped (sc_submitted s) = everywhere s"

lemma shape_deque: "\<lbrakk>shape s; i < sc_num_workers s\<rbrakk> \<Longrightarrow> idle_ok (sc_deques s ! i)"
  by (auto simp: shape_def)

lemma shape_deques:
  assumes "shape s" "idle_ok d" shows "shape (s\<lparr>sc_deques := (sc_deques s)[i := d]\<rparr>)"
proof -
  have "idle_ok e" if "e \<in> set ((sc_deques s)[i := d])" for e
    using set_mp [OF set_update_subset_insert that] assms by (auto simp: shape_def)
  then show ?thesis using assms(1) by (simp add: shape_def)
qed

lemma push_to_law:
  assumes "shape s" "i < sc_num_workers s"
  shows "shape (push_to i l s)" "everywhere (push_to i l s) = add_mset (strip l) (everywhere s)"
    "sc_workers (push_to i l s) = sc_workers s" "sc_submitted (push_to i l s) = sc_submitted s" "sc_num_workers (push_to i l s) = sc_num_workers s"
proof -
  note p = push_leases [OF shape_deque [OF assms], of l]
  show "shape (push_to i l s)" unfolding push_to_def by (rule shape_deques [OF assms(1)]) (use p in blast)
  have "bag_of leases ((sc_deques s)[i := deque_push (sc_deques s ! i) l]) = add_mset (strip l) (bag_of leases (sc_deques s))"
    using bag_of_update [of i "sc_deques s" leases "deque_push (sc_deques s ! i) l"] assms p by (simp add: shape_def ac_simps)
  then show "everywhere (push_to i l s) = add_mset (strip l) (everywhere s)" by (simp add: everywhere_def push_to_def)
qed (simp_all add: push_to_def)

lemma place_laws [simp]:
  "shape (schedule l s) = shape s" "everywhere (schedule l s) = add_mset (strip l) (everywhere s)"
  "shape (park l s) = shape s" "everywhere (park l s) = add_mset (strip l) (everywhere s)"
  "shape (drop_lease l s) = shape s" "everywhere (drop_lease l s) = add_mset (strip l) (everywhere s)"
  "shape (shutdown s) = shape s" "everywhere (shutdown s) = everywhere s"
  "shape (change_control c f s) = shape s" "everywhere (change_control c f s) = everywhere s"
  "shape (emit_control l s) = shape s" "everywhere (emit_control l s) = everywhere s"
  "shape (snd (poll_lease i l s)) = shape s" "everywhere (snd (poll_lease i l s)) = everywhere s"
  "shape (submitted l s) = shape s" "everywhere (submitted l s) = everywhere s"
  by (simp_all add: shape_def everywhere_def schedule_def global_push_def park_def parking_park_def drop_lease_def shutdown_def
      change_control_def emit_control_def poll_lease_def submitted_def split: option.splits prod.splits)

lemma worker_laws [simp]:
  "sc_workers (schedule l s) = sc_workers s" "sc_workers (park l s) = sc_workers s" "sc_workers (drop_lease l s) = sc_workers s"
  "sc_workers (emit_control l s) = sc_workers s" "sc_workers (snd (poll_lease i l s)) = sc_workers s"
  "sc_num_workers (schedule l s) = sc_num_workers s" "sc_num_workers (park l s) = sc_num_workers s"
  "sc_num_workers (drop_lease l s) = sc_num_workers s" "sc_num_workers (emit_control l s) = sc_num_workers s"
  "sc_num_workers (snd (poll_lease i l s)) = sc_num_workers s" "sc_num_workers (at i pc s) = sc_num_workers s"
  "sc_submitted (schedule l s) = sc_submitted s" "sc_submitted (park l s) = sc_submitted s" "sc_submitted (drop_lease l s) = sc_submitted s"
  "sc_submitted (emit_control l s) = sc_submitted s" "sc_submitted (snd (poll_lease i l s)) = sc_submitted s"
  "sc_submitted (at i pc s) = sc_submitted s" "sc_submitted (submitted l s) = sc_submitted s @ [l]"
  "sc_submitted (shutdown s) = sc_submitted s" "sc_submitted (change_control c f s) = sc_submitted s"
  "sc_num_workers (submitted l s) = sc_num_workers s"
  by (simp_all add: schedule_def park_def drop_lease_def emit_control_def poll_lease_def at_def submitted_def shutdown_def
      change_control_def split: option.splits prod.splits)

text \<open>A worker that moves from one point to another.\<close>

lemma at_law:
  assumes "shape s" "i < sc_num_workers s" "pc = Steal_Peer \<longrightarrow> 1 < sc_num_workers s"
  shows "shape (at i pc s)" "everywhere (at i pc s) + stripped (in_hand (sc_workers s ! i)) = everywhere s + stripped (in_hand pc)"
proof -
  show "shape (at i pc s)" using assms set_update_subset_insert [of "sc_workers s" i pc] by (auto simp: shape_def at_def)
  show "everywhere (at i pc s) + stripped (in_hand (sc_workers s ! i)) = everywhere s + stripped (in_hand pc)"
    using bag_of_update [of i "sc_workers s" in_hand pc] assms by (simp add: shape_def everywhere_def at_def ac_simps)
qed

lemma at_keeps:
  assumes "shape s'" "i < sc_num_workers s'" "pc = Steal_Peer \<longrightarrow> 1 < sc_num_workers s'" "sc_workers s' ! i = pc0"
    and "everywhere s' + stripped (in_hand pc) = bg + stripped (in_hand pc0)" "stripped (sc_submitted s') = bg"
  shows "sched_ok (at i pc s')"
  using at_law [OF assms(1-3)] assms(4-6) by (simp add: sched_ok_def)

text \<open>A deque from which one lease may have been taken.\<close>

lemma take_law:
  assumes s: "shape s" "i < sc_num_workers s" and d: "idle_ok d"
    and r: "stripped (leases d) + stripped (case r of None \<Rightarrow> [] | Some l \<Rightarrow> [l]) = stripped (leases (sc_deques s ! i))"
  shows "shape (s\<lparr>sc_deques := (sc_deques s)[i := d]\<rparr>)"
    "everywhere (s\<lparr>sc_deques := (sc_deques s)[i := d]\<rparr>) + stripped (case r of None \<Rightarrow> [] | Some l \<Rightarrow> [l]) = everywhere s"
proof -
  show "shape (s\<lparr>sc_deques := (sc_deques s)[i := d]\<rparr>)" by (rule shape_deques [OF s(1) d])
  have "bag_of leases ((sc_deques s)[i := d]) + stripped (case r of None \<Rightarrow> [] | Some l \<Rightarrow> [l]) = bag_of leases (sc_deques s)"
    using bag_of_update [of i "sc_deques s" leases d] s
    by (cases r) (simp_all add: shape_def flip: r)
  then show "everywhere (s\<lparr>sc_deques := (sc_deques s)[i := d]\<rparr>) + stripped (case r of None \<Rightarrow> [] | Some l \<Rightarrow> [l]) = everywhere s"
    by (cases r) (simp_all add: everywhere_def flip: add_mset_add_single)
qed

lemma pop_stripped:
  assumes "idle_ok d" "deque_pop d = (d', r)"
  shows "idle_ok d' \<and> stripped (leases d') + stripped (case r of None \<Rightarrow> [] | Some l \<Rightarrow> [l]) = stripped (leases d)"
  using pop_leases [OF assms(1)] assms(2) stripped_last [of "leases d"] by (auto split: if_splits)

lemma steal_stripped:
  assumes "idle_ok d" "deque_steal d = (d', r)"
  shows "idle_ok d' \<and> stripped (leases d') + stripped (case r of None \<Rightarrow> [] | Some l \<Rightarrow> [l]) = stripped (leases d)"
  using steal_leases [OF assms(1)] assms stripped_hd [of "leases d"] by (auto split: if_splits)

subsection \<open>The steps\<close>

lemma pop_local_ok:
  assumes ok: "sched_ok s" and i: "i < sc_num_workers s" and pc: "in_hand (sc_workers s ! i) = []"
  shows "sched_ok (pop_local i s)"
proof -
  have sh: "shape s" using ok by (simp add: sched_ok_def)
  obtain d r where dr: "deque_pop (sc_deques s ! i) = (d, r)" by (cases "deque_pop (sc_deques s ! i)")
  note p = pop_stripped [OF shape_deque [OF sh i] dr]
  note t = take_law [OF sh i, of d r]
  have "sched_ok (at i (case r of Some l \<Rightarrow> Found l | None \<Rightarrow> if sc_num_workers s > 1 then Steal_Peer else Pop_Global)
          (s\<lparr>sc_deques := (sc_deques s)[i := d]\<rparr>))"
    by (rule at_keeps [OF _ _ _ refl, where bg = "everywhere s"])
      (use t p ok i pc in \<open>auto simp: sched_ok_def split: option.splits\<close>)
  then show ?thesis by (cases r) (simp_all add: pop_local_def dr Let_def)
qed

lemma steal_peer_ok:
  assumes ok: "sched_ok s" and i: "i < sc_num_workers s" and pc: "in_hand (sc_workers s ! i) = []"
    and v: "pick_victim i draw < sc_num_workers s"
  shows "sched_ok (steal_peer i draw s)"
proof -
  let ?v = "pick_victim i draw"
  have sh: "shape s" using ok by (simp add: sched_ok_def)
  obtain d r where dr: "deque_steal (sc_deques s ! ?v) = (d, r)" by (cases "deque_steal (sc_deques s ! ?v)")
  note p = steal_stripped [OF shape_deque [OF sh v] dr]
  note t = take_law [OF sh v, of d r]
  have "sched_ok (at i (case r of Some l \<Rightarrow> Found l | None \<Rightarrow> Pop_Global) (s\<lparr>sc_deques := (sc_deques s)[?v := d]\<rparr>))"
    by (rule at_keeps [OF _ _ _ refl, where bg = "everywhere s"])
      (use t p ok i pc in \<open>auto simp: sched_ok_def split: option.splits\<close>)
  then show ?thesis by (cases r) (simp_all add: steal_peer_def dr Let_def)
qed

lemma pop_global_ok:
  assumes ok: "sched_ok s" and i: "i < sc_num_workers s" and pc: "in_hand (sc_workers s ! i) = []"
  shows "sched_ok (pop_global i s)"
proof -
  obtain q r where qr: "global_pop (sc_global_queue s) = (q, r)" by (cases "global_pop (sc_global_queue s)")
  have q: "stripped q + stripped (case r of None \<Rightarrow> [] | Some l \<Rightarrow> [l]) = stripped (sc_global_queue s)"
    using qr stripped_last [of "sc_global_queue s"] by (auto simp: global_pop_def split: if_splits)
  have "sched_ok (at i (case r of Some l \<Rightarrow> Found l | None \<Rightarrow> No_Work) (s\<lparr>sc_global_queue := q\<rparr>))"
    by (rule at_keeps [OF _ _ _ refl, where bg = "everywhere s"])
      (use q ok i pc in \<open>auto simp: sched_ok_def shape_def everywhere_def ac_simps split: option.splits\<close>)
  then show ?thesis by (cases r) (simp_all add: pop_global_def qr Let_def)
qed

lemma at_ok:
  assumes "sched_ok s" "i < sc_num_workers s" "pc \<noteq> Steal_Peer" "in_hand (sc_workers s ! i) = [l]" "in_hand pc = [l']" "strip l' = strip l"
  shows "sched_ok (at i pc s)"
  by (rule at_keeps [OF _ _ _ refl, where bg = "everywhere s"]) (use assms in \<open>auto simp: sched_ok_def\<close>)

text \<open>A worker that puts its lease down.\<close>

lemma put_ok:
  assumes ok: "sched_ok s" and i: "i < sc_num_workers s" and pc: "in_hand (sc_workers s ! i) = [l]" "in_hand pc' = []" "pc' \<noteq> Steal_Peer"
    and s': "shape s'" "everywhere s' = add_mset (strip l) (everywhere s)" "sc_workers s' = sc_workers s"
      "sc_submitted s' = sc_submitted s" "sc_num_workers s' = sc_num_workers s"
  shows "sched_ok (at i pc' s')"
  by (rule at_keeps [OF s'(1) _ _ refl, where bg = "everywhere s"]) (use ok i pc s' in \<open>auto simp: sched_ok_def\<close>)

lemma judge_ok:
  assumes ok: "sched_ok s" and i: "i < sc_num_workers s" and pc: "sc_workers s ! i = Found l"
  shows "sched_ok (judge i l s)"
proof -
  let ?l = "l\<lparr>sl_worker_affinity := word_of_nat i\<rparr>"
  have "sched_ok (at i Pop_Local (drop_lease ?l s))"
    by (rule put_ok [OF ok i]) (use ok pc in \<open>auto simp: sched_ok_def\<close>)
  moreover have "sched_ok (at i pc s)" if "pc = Parking ?l \<or> pc = Polling ?l" for pc
    by (rule at_ok [OF ok i, where l = l and l' = ?l]) (use pc that in auto)
  ultimately show ?thesis by (simp add: judge_def Let_def)
qed

lemma dispatch_law:
  assumes "shape s" "i < sc_num_workers s"
  shows "shape (dispatch_result k l i s)" "everywhere (dispatch_result k l i s) = add_mset (strip l) (everywhere s)"
    "sc_workers (dispatch_result k l i s) = sc_workers s" "sc_submitted (dispatch_result k l i s) = sc_submitted s"
    "sc_num_workers (dispatch_result k l i s) = sc_num_workers s"
  using assms push_to_law [of "emit_control l s" i l] push_to_law [of s i l] by (cases k; simp)+

lemma poll_ok:
  "sched_ok s \<Longrightarrow> sched_ok (snd (poll_lease i l s))"
  by (simp add: sched_ok_def)

lemma drain_ok:
  assumes ok: "sched_ok s" and i: "i < sc_num_workers s" and pc: "sc_workers s ! i = Draining"
  shows "sched_ok (drain_remaining i s)"
proof -
  have sh: "shape s" using ok by (simp add: sched_ok_def)
  obtain d r where dr: "deque_pop (sc_deques s ! i) = (d, r)" by (cases "deque_pop (sc_deques s ! i)")
  note p = pop_stripped [OF shape_deque [OF sh i] dr]
  let ?s = "s\<lparr>sc_deques := (sc_deques s)[i := d]\<rparr>"
  note t = take_law [OF sh i conjunct1 [OF p] conjunct2 [OF p]]
  have "sched_ok (at i (case r of Some l \<Rightarrow> Drain_Poll l | None \<Rightarrow> Exited) ?s)"
    by (rule at_keeps [OF _ _ _ refl, where bg = "everywhere s"]) (use t ok i pc in \<open>auto simp: sched_ok_def split: option.splits\<close>)
  moreover have "sched_ok (drop_lease l ?s)" if "r = Some l" for l
    using t ok that by (simp add: sched_ok_def)
  ultimately show ?thesis by (cases r) (simp_all add: drain_remaining_def dr Let_def)
qed

lemma victim_in_range: "\<lbrakk>draw \<le> n - 2; 1 < n\<rbrakk> \<Longrightarrow> pick_victim i draw < n"
  by (auto simp: pick_victim_def)

lemma worker_loop_ok:
  assumes ok: "sched_ok s" and en: "sched_enabled (Do_Worker i draw) s"
  shows "sched_ok (worker_loop i draw s)"
proof -
  have i: "i < sc_num_workers s" using en by simp
  have sh: "shape s" and sub: "stripped (sc_submitted s) = everywhere s" using ok by (simp_all add: sched_ok_def)
  show ?thesis
  proof (cases "sc_workers s ! i")
    case Steal_Peer
    then have "1 < sc_num_workers s" using sh i nth_mem [of i "sc_workers s"] by (auto simp: shape_def)
    then show ?thesis
      using steal_peer_ok [OF ok i _ victim_in_range] en Steal_Peer by (simp add: worker_loop_def)
  next
    case (Parking l)
    have "sched_ok (at i Pop_Local (park l s))" by (rule put_ok [OF ok i]) (use Parking sh in simp_all)
    then show ?thesis by (simp add: worker_loop_def Parking)
  next
    case (Polling l)
    have "sched_ok (at i (Dispatch k l) (snd (poll_lease i l s)))" for k
      by (rule at_ok [OF poll_ok [OF ok]]) (use i Polling in simp_all)
    then show ?thesis by (simp add: worker_loop_def Polling split: prod.splits) (metis snd_conv)
  next
    case (Dispatch k l)
    have "sched_ok (at i Pop_Local (dispatch_result k l i s))"
      by (rule put_ok [OF ok i]) (use Dispatch dispatch_law [OF sh i] in simp_all)
    then show ?thesis by (simp add: worker_loop_def Dispatch)
  next
    case No_Work
    have "sched_ok (at i (if sc_shutdown s then Draining else Pop_Local) s)"
      by (rule at_keeps [OF sh i _ refl _ sub]) (use No_Work in simp_all)
    then show ?thesis by (simp add: worker_loop_def No_Work)
  next
    case (Drain_Poll l)
    have "sched_ok (at i Draining (drop_lease l (snd (poll_lease i l s))))"
      by (rule put_ok [OF ok i]) (use Drain_Poll sh in simp_all)
    then show ?thesis by (simp add: worker_loop_def Drain_Poll)
  qed (use ok i pop_local_ok [OF ok i] pop_global_ok [OF ok i] judge_ok [OF ok i] drain_ok [OF ok i] in \<open>simp_all add: worker_loop_def\<close>)
qed

lemma parking_wake_stripped:
  "parking_wake ctx ps = (ps', r) \<Longrightarrow> stripped ps = stripped ps' + stripped (case r of None \<Rightarrow> [] | Some l \<Rightarrow> [l])"
  by (induction ps arbitrary: ps' r) (auto split: if_splits prod.splits option.splits)

lemma schedule_affine_law:
  assumes "shape s"
  shows "shape (schedule_affine l i s)" "everywhere (schedule_affine l i s) = add_mset (strip l) (everywhere s)"
    "sc_submitted (schedule_affine l i s) = sc_submitted s"
  using assms push_to_law [of s "unat i" l] by (auto simp: schedule_affine_def)

lemma wake_ok:
  assumes ok: "sched_ok s" shows "sched_ok (wake ctx s)"
proof -
  obtain ps r where w: "parking_wake ctx (sc_parking_lot s) = (ps, r)" by (cases "parking_wake ctx (sc_parking_lot s)")
  show ?thesis
  proof (cases r)
    case None
    then show ?thesis using ok w by (simp add: wake_def)
  next
    case (Some l)
    let ?s = "s\<lparr>sc_parking_lot := ps\<rparr>"
    have "shape ?s" "add_mset (strip l) (everywhere ?s) = everywhere s"
      using ok parking_wake_stripped [OF w] Some by (simp_all add: sched_ok_def shape_def everywhere_def)
    then show ?thesis using ok schedule_affine_law [of ?s l] w Some by (simp add: wake_def sched_ok_def)
  qed
qed

lemma submit_ok:
  assumes "sched_ok s" shows "sched_ok (schedule l (submitted l s))" "sched_ok (schedule_affine l i (submitted l s))"
  using assms schedule_affine_law [of "submitted l s" l i] by (simp_all add: sched_ok_def)

lemma sched_step_ok:
  assumes "sched_step s s'" "sched_ok s" shows "sched_ok s'"
proof -
  obtain a where a: "s' = sched_act a s" "sched_enabled a s" using assms(1) by (rule sched_stepE)
  show ?thesis
  proof (cases a)
    case (Do_Worker i draw)
    then show ?thesis using worker_loop_ok [OF assms(2), of i draw] a by simp
  qed (use a assms(2) submit_ok wake_ok in \<open>simp_all add: sched_ok_def\<close>)
qed

lemma sched_start_ok: "sched_ok (set_poll_fn fn (new_scheduler n hw controls w))"
proof -
  have "bag_of leases (replicate k new_deque) = {#}" "bag_of in_hand (replicate k Pop_Local) = {#}" for k
    by (rule bag_replicate, use new_deque_leases in simp)+
  moreover have "idle_ok new_deque" using new_deque_leases by blast
  ultimately show ?thesis
    unfolding sched_ok_def shape_def everywhere_def set_poll_fn_def new_scheduler_def Let_def by simp
qed

lemma sched_reach_ok: "sched_reach s \<Longrightarrow> sched_ok s"
proof (induction rule: sched_reach.induct)
  case (sched_start fn n hw controls w)
  show ?case by (rule sched_start_ok)
next
  case (sched_next s s')
  then show ?case using sched_step_ok by blast
qed

end
