(* ===== verification/Task_Pool.thy ===== *)
theory Task_Pool
  imports Prelude
begin

text \<open>
  The thread pool of \<open>include/celer/core/task_pool.hpp\<close> (\<open>celer::async::TaskPool\<close>). A task is the packaged callable: running it
  computes a result, a value or the exception it throws, and stores it in its future. Each access to a queue happens under the mutex
  of that queue and is one step of the worker that makes it; \<open>worker_loop\<close> gives the next step of a worker from the point where it
  stands. The victim of a steal is drawn from outside. The wait on the condition variable ends after 100 microseconds at the latest.
\<close>

record ('w, 'r) Task =
  tk_future :: nat
  tk_body :: "'w \<Rightarrow> 'r \<times> 'w"

datatype ('w, 'r) PoolPc =
    Take_Local
  | Take_Submitted
  | Take_Stolen
  | Running "('w, 'r) Task"
  | No_Task
  | Drain_Local
  | Drain_Local_Run "('w, 'r) Task"
  | Drain_Submitted
  | Drain_Submitted_Run "('w, 'r) Task"
  | Finished

text \<open>
  A future is empty until its task has run. \<open>tp_finished\<close> records the futures in the order they were filled, \<open>tp_closed\<close> how many
  tasks had been submitted when \<open>shutdown\<close> was called.
\<close>

record ('w, 'r) TaskPool =
  tp_num_workers :: nat
  tp_worker_queues :: "('w, 'r) Task list list"
  tp_submission_queue :: "('w, 'r) Task list"
  tp_shutdown :: bool
  tp_workers :: "('w, 'r) PoolPc list"
  tp_futures :: "'r option list"
  tp_world :: 'w
  tp_finished :: "nat list"
  tp_closed :: "nat option"

definition pool_workers :: "nat \<Rightarrow> nat \<Rightarrow> nat" where
  "pool_workers num_workers hardware_concurrency = (if num_workers = 0 then max 2 hardware_concurrency else num_workers)"

definition new_pool :: "nat \<Rightarrow> nat \<Rightarrow> 'w \<Rightarrow> ('w, 'r) TaskPool" where
  "new_pool num_workers hw w = (let n = pool_workers num_workers hw in
     \<lparr>tp_num_workers = n, tp_worker_queues = replicate n [], tp_submission_queue = [], tp_shutdown = False,
      tp_workers = replicate n Take_Local, tp_futures = [], tp_world = w, tp_finished = [], tp_closed = None\<rparr>)"

text \<open>\<open>submit\<close> returns the future, here its number.\<close>

definition submit :: "('w \<Rightarrow> 'r \<times> 'w) \<Rightarrow> ('w, 'r) TaskPool \<Rightarrow> nat \<times> ('w, 'r) TaskPool" where
  "submit fn p = (let f = length (tp_futures p) in
     (f, p\<lparr>tp_futures := tp_futures p @ [None], tp_submission_queue := tp_submission_queue p @ [\<lparr>tk_future = f, tk_body = fn\<rparr>]\<rparr>))"

definition pool_worker_count :: "('w, 'r) TaskPool \<Rightarrow> nat" where
  "pool_worker_count p = tp_num_workers p"

definition pool_shutdown :: "('w, 'r) TaskPool \<Rightarrow> ('w, 'r) TaskPool" where
  "pool_shutdown p = (if tp_shutdown p then p else p\<lparr>tp_shutdown := True, tp_closed := Some (length (tp_futures p))\<rparr>)"

definition pool_joined :: "('w, 'r) TaskPool \<Rightarrow> bool" where
  "pool_joined p \<longleftrightarrow> (\<forall>pc \<in> set (tp_workers p). case pc of Finished \<Rightarrow> True | _ \<Rightarrow> False)"

subsection \<open>The worker loop\<close>

definition pool_at :: "nat \<Rightarrow> ('w, 'r) PoolPc \<Rightarrow> ('w, 'r) TaskPool \<Rightarrow> ('w, 'r) TaskPool" where
  "pool_at i pc p = p\<lparr>tp_workers := (tp_workers p)[i := pc]\<rparr>"

text \<open>The back of a queue, the front of a queue.\<close>

definition pop_back :: "'x list \<Rightarrow> 'x list \<times> 'x option" where
  "pop_back q = (if q = [] then (q, None) else (butlast q, Some (last q)))"

definition pop_front :: "'x list \<Rightarrow> 'x list \<times> 'x option" where
  "pop_front q = (case q of [] \<Rightarrow> ([], None) | x # q' \<Rightarrow> (q', Some x))"

definition take_local :: "nat \<Rightarrow> ('w, 'r) TaskPool \<Rightarrow> ('w, 'r) TaskPool \<times> ('w, 'r) Task option" where
  "take_local i p = (case pop_back (tp_worker_queues p ! i) of (q, t) \<Rightarrow> (p\<lparr>tp_worker_queues := (tp_worker_queues p)[i := q]\<rparr>, t))"

definition take_submitted :: "('w, 'r) TaskPool \<Rightarrow> ('w, 'r) TaskPool \<times> ('w, 'r) Task option" where
  "take_submitted p = (case pop_front (tp_submission_queue p) of (q, t) \<Rightarrow> (p\<lparr>tp_submission_queue := q\<rparr>, t))"

definition take_stolen :: "nat \<Rightarrow> ('w, 'r) TaskPool \<Rightarrow> ('w, 'r) TaskPool \<times> ('w, 'r) Task option" where
  "take_stolen v p = (case pop_front (tp_worker_queues p ! v) of (q, t) \<Rightarrow> (p\<lparr>tp_worker_queues := (tp_worker_queues p)[v := q]\<rparr>, t))"

definition pool_victim :: "nat \<Rightarrow> nat \<Rightarrow> nat" where
  "pool_victim i draw = (if draw \<ge> i then draw + 1 else draw)"

definition run_task :: "('w, 'r) Task \<Rightarrow> ('w, 'r) TaskPool \<Rightarrow> ('w, 'r) TaskPool" where
  "run_task t p = (case tk_body t (tp_world p) of (r, w) \<Rightarrow>
     p\<lparr>tp_world := w, tp_futures := (tp_futures p)[tk_future t := Some r], tp_finished := tp_finished p @ [tk_future t]\<rparr>)"

definition go :: "nat \<Rightarrow> (('w, 'r) Task \<Rightarrow> ('w, 'r) PoolPc) \<Rightarrow> ('w, 'r) PoolPc \<Rightarrow> ('w, 'r) TaskPool \<times> ('w, 'r) Task option \<Rightarrow> ('w, 'r) TaskPool" where
  "go i found missing r = (case r of (p, Some t) \<Rightarrow> pool_at i (found t) p | (p, None) \<Rightarrow> pool_at i missing p)"

definition pool_loop :: "nat \<Rightarrow> nat \<Rightarrow> ('w, 'r) TaskPool \<Rightarrow> ('w, 'r) TaskPool" where
  "pool_loop i draw p = (case tp_workers p ! i of
      Take_Local \<Rightarrow> go i Running Take_Submitted (take_local i p)
    | Take_Submitted \<Rightarrow> go i Running (if tp_num_workers p > 1 then Take_Stolen else No_Task) (take_submitted p)
    | Take_Stolen \<Rightarrow> go i Running No_Task (take_stolen (pool_victim i draw) p)
    | Running t \<Rightarrow> pool_at i Take_Local (run_task t p)
    | No_Task \<Rightarrow> pool_at i (if tp_shutdown p then Drain_Local else Take_Local) p
    | Drain_Local \<Rightarrow> go i Drain_Local_Run Drain_Submitted (take_local i p)
    | Drain_Local_Run t \<Rightarrow> pool_at i Drain_Local (run_task t p)
    | Drain_Submitted \<Rightarrow> go i Drain_Submitted_Run Finished (take_submitted p)
    | Drain_Submitted_Run t \<Rightarrow> pool_at i Drain_Submitted (run_task t p)
    | Finished \<Rightarrow> p)"

subsection \<open>All interleavings\<close>

inductive pool_step :: "('w, 'r) TaskPool \<Rightarrow> ('w, 'r) TaskPool \<Rightarrow> bool" where
  pool_submits: "pool_step p (snd (submit fn p))"
| pool_shuts: "pool_step p (pool_shutdown p)"
| pool_works: "\<lbrakk>i < tp_num_workers p; draw + 2 \<le> tp_num_workers p \<or> tp_num_workers p \<le> 1\<rbrakk> \<Longrightarrow> pool_step p (pool_loop i draw p)"

inductive pool_reach :: "('w, 'r) TaskPool \<Rightarrow> bool" where
  pool_start: "pool_reach (new_pool n hw w)"
| pool_next: "\<lbrakk>pool_reach p; pool_step p p'\<rbrakk> \<Longrightarrow> pool_reach p'"

datatype ('w, 'r) PoolAction = Submit "'w \<Rightarrow> 'r \<times> 'w" | Shut_Down | Work nat nat

fun pool_act :: "('w, 'r) PoolAction \<Rightarrow> ('w, 'r) TaskPool \<Rightarrow> ('w, 'r) TaskPool option" where
  "pool_act (Submit fn) p = Some (snd (submit fn p))"
| "pool_act Shut_Down p = Some (pool_shutdown p)"
| "pool_act (Work i draw) p =
     (if i < tp_num_workers p \<and> (draw + 2 \<le> tp_num_workers p \<or> tp_num_workers p \<le> 1) then Some (pool_loop i draw p) else None)"

fun pool_run :: "('w, 'r) PoolAction list \<Rightarrow> ('w, 'r) TaskPool \<Rightarrow> ('w, 'r) TaskPool option" where
  "pool_run [] p = Some p"
| "pool_run (a # as) p = (case pool_act a p of None \<Rightarrow> None | Some p' \<Rightarrow> pool_run as p')"

lemma pool_act_step: "pool_act a p = Some p' \<Longrightarrow> pool_step p p'"
  by (cases a) (auto split: if_splits intro: pool_step.intros)

lemma pool_run_reach: "\<lbrakk>pool_run as p = Some p'; pool_reach p\<rbrakk> \<Longrightarrow> pool_reach p'"
  proof (induction as arbitrary: p)
  case (Cons a as)
  then obtain p1 where "pool_act a p = Some p1" "pool_run as p1 = Some p'" by (auto split: option.splits)
  then show ?case using Cons pool_next pool_act_step by blast
qed simp

end
