(* ===== verification/Task_Pool_Laws.thy ===== *)
theory Task_Pool_Laws
  imports Task_Pool Bags
begin

text \<open>
  What holds of the pool in every interleaving: a task waits, is being run by one worker, or has filled its future, and is in one of
  these places only; the queues of the workers stay empty, since nothing pushes to them; a worker that has finished leaves no task
  behind that was submitted before the shutdown.
\<close>

definition pool_shape :: "('w, 'r) TaskPool \<Rightarrow> bool" where
  "pool_shape p \<longleftrightarrow> 0 < tp_num_workers p \<and> length (tp_workers p) = tp_num_workers p \<and> tp_worker_queues p = replicate (tp_num_workers p) [] \<and>
     (Take_Stolen \<in> set (tp_workers p) \<longrightarrow> 1 < tp_num_workers p)"

fun task_of :: "('w, 'r) PoolPc \<Rightarrow> nat list" where
  "task_of (Running t) = [tk_future t]"
| "task_of (Drain_Local_Run t) = [tk_future t]"
| "task_of (Drain_Submitted_Run t) = [tk_future t]"
| "task_of pc = []"

definition in_progress :: "('w, 'r) TaskPool \<Rightarrow> nat multiset" where
  "in_progress p = bag task_of (tp_workers p)"

definition waiting :: "('w, 'r) TaskPool \<Rightarrow> nat list" where
  "waiting p = map tk_future (tp_submission_queue p)"

definition filled :: "('w, 'r) TaskPool \<Rightarrow> nat \<Rightarrow> bool" where
  "filled p f \<longleftrightarrow> f < length (tp_futures p) \<and> tp_futures p ! f \<noteq> None"

fun may_exit :: "('w, 'r) PoolPc \<Rightarrow> bool" where
  "may_exit Drain_Local = True"
| "may_exit (Drain_Local_Run t) = True"
| "may_exit Drain_Submitted = True"
| "may_exit (Drain_Submitted_Run t) = True"
| "may_exit Finished = True"
| "may_exit pc = False"

definition pool_ok :: "('w, 'r) TaskPool \<Rightarrow> bool" where
  "pool_ok p \<longleftrightarrow> pool_shape p \<and> mset (waiting p) + in_progress p + mset (tp_finished p) = mset [0..<length (tp_futures p)] \<and>
     sorted_wrt (<) (waiting p) \<and> (\<forall>f < length (tp_futures p). filled p f \<longleftrightarrow> f \<in> set (tp_finished p)) \<and>
     (\<forall>c. tp_closed p = Some c \<longrightarrow> c \<le> length (tp_futures p)) \<and>
     ((\<exists>pc \<in> set (tp_workers p). may_exit pc) \<longrightarrow> tp_closed p \<noteq> None) \<and>
     (Finished \<in> set (tp_workers p) \<longrightarrow> (\<forall>f \<in> set (waiting p). the (tp_closed p) \<le> f)) \<and> (tp_shutdown p \<longleftrightarrow> tp_closed p \<noteq> None)"

lemma pool_okD:
  assumes "pool_ok p"
  shows "pool_shape p" "mset (waiting p) + in_progress p + mset (tp_finished p) = mset [0..<length (tp_futures p)]"
    "sorted_wrt (<) (waiting p)" "\<And>f. f < length (tp_futures p) \<Longrightarrow> filled p f \<longleftrightarrow> f \<in> set (tp_finished p)"
    "\<And>c. tp_closed p = Some c \<Longrightarrow> c \<le> length (tp_futures p)" "tp_shutdown p \<longleftrightarrow> tp_closed p \<noteq> None"
    "\<And>pc. \<lbrakk>pc \<in> set (tp_workers p); may_exit pc\<rbrakk> \<Longrightarrow> tp_closed p \<noteq> None"
    "\<And>f. \<lbrakk>Finished \<in> set (tp_workers p); f \<in> set (waiting p)\<rbrakk> \<Longrightarrow> the (tp_closed p) \<le> f"
  using assms unfolding pool_ok_def by blast+

lemma in_progress_at:
  assumes "pool_shape p" "i < tp_num_workers p"
  shows "in_progress (pool_at i pc p) + mset (task_of (tp_workers p ! i)) = in_progress p + mset (task_of pc)"
  using bag_update [of i "tp_workers p" task_of pc] assms by (simp add: in_progress_def pool_at_def pool_shape_def)

lemma shape_at:
  assumes "pool_shape p" "pc = Take_Stolen \<longrightarrow> 1 < tp_num_workers p" shows "pool_shape (pool_at i pc p)"
proof -
  have "1 < tp_num_workers p" if "Take_Stolen \<in> set ((tp_workers p)[i := pc])"
    using set_mp [OF set_update_subset_insert that] assms by (auto simp: pool_shape_def)
  then show ?thesis using assms by (simp add: pool_shape_def pool_at_def)
qed

lemma pool_at_fields [simp]:
  "waiting (pool_at i pc p) = waiting p" "tp_finished (pool_at i pc p) = tp_finished p" "tp_futures (pool_at i pc p) = tp_futures p"
  "tp_closed (pool_at i pc p) = tp_closed p" "tp_shutdown (pool_at i pc p) = tp_shutdown p" "filled (pool_at i pc p) f = filled p f"
  "tp_workers (pool_at i pc p) = (tp_workers p)[i := pc]" "tp_num_workers (pool_at i pc p) = tp_num_workers p"
  by (simp_all add: pool_at_def waiting_def filled_def)

text \<open>A worker reaches another point; \<open>p\<close> is the pool in which the queues and futures have changed already.\<close>

lemma arrive_ok:
  assumes p: "pool_shape p" "i < tp_num_workers p"
    and bags: "mset (waiting p) + in_progress p + mset (task_of pc) + mset (tp_finished p)
                 = mset [0..<length (tp_futures p)] + mset (task_of (tp_workers p ! i))"
    and rest: "sorted_wrt (<) (waiting p)" "\<forall>f < length (tp_futures p). filled p f \<longleftrightarrow> f \<in> set (tp_finished p)"
      "\<forall>c. tp_closed p = Some c \<longrightarrow> c \<le> length (tp_futures p)" "tp_shutdown p \<longleftrightarrow> tp_closed p \<noteq> None"
      "\<forall>pc' \<in> insert pc (set (tp_workers p)). may_exit pc' \<longrightarrow> tp_closed p \<noteq> None"
      "Finished \<in> insert pc (set (tp_workers p)) \<longrightarrow> (\<forall>f \<in> set (waiting p). the (tp_closed p) \<le> f)"
      "pc = Take_Stolen \<longrightarrow> 1 < tp_num_workers p"
  shows "pool_ok (pool_at i pc p)"
proof -
  have sub: "set ((tp_workers p)[i := pc]) \<subseteq> insert pc (set (tp_workers p))" by (rule set_update_subset_insert)
  have "mset (waiting p) + in_progress (pool_at i pc p) + mset (tp_finished p) + mset (task_of (tp_workers p ! i))
      = mset (waiting p) + (in_progress (pool_at i pc p) + mset (task_of (tp_workers p ! i))) + mset (tp_finished p)" by (simp only: ac_simps)
  also have "\<dots> = mset [0..<length (tp_futures p)] + mset (task_of (tp_workers p ! i))"
    unfolding in_progress_at [OF p] bags [symmetric] by (simp only: ac_simps)
  finally have bag: "mset (waiting p) + in_progress (pool_at i pc p) + mset (tp_finished p) = mset [0..<length (tp_futures p)]" by simp
  have exits: "\<exists>pc' \<in> set ((tp_workers p)[i := pc]). may_exit pc' \<Longrightarrow> tp_closed p \<noteq> None" using sub rest(5) by blast
  have fin: "Finished \<in> set ((tp_workers p)[i := pc]) \<Longrightarrow> \<forall>f \<in> set (waiting p). the (tp_closed p) \<le> f" using sub rest(6) by blast
  show ?thesis
    unfolding pool_ok_def pool_at_fields using shape_at [OF p(1) rest(7)] bag rest(1-4) exits fin by blast
qed

lemma move_ok:
  assumes ok: "pool_ok p" and i: "i < tp_num_workers p" and pc: "task_of pc = task_of (tp_workers p ! i)"
    and c: "may_exit pc \<longrightarrow> tp_closed p \<noteq> None" "pc = Finished \<longrightarrow> waiting p = []" "pc = Take_Stolen \<longrightarrow> 1 < tp_num_workers p"
  shows "pool_ok (pool_at i pc p)"
proof (rule arrive_ok [OF pool_okD(1) [OF ok] i])
  show "mset (waiting p) + in_progress p + mset (task_of pc) + mset (tp_finished p)
          = mset [0..<length (tp_futures p)] + mset (task_of (tp_workers p ! i))"
    unfolding pool_okD(2) [OF ok, symmetric] pc by (simp only: ac_simps)
  show "Finished \<in> insert pc (set (tp_workers p)) \<longrightarrow> (\<forall>f \<in> set (waiting p). the (tp_closed p) \<le> f)"
    using pool_okD(8) [OF ok] c(2) by auto
qed (use pool_okD(3-7) [OF ok] c in blast)+

lemma begin_ok:
  assumes ok: "pool_ok p" and i: "i < tp_num_workers p" and q: "tp_submission_queue p = t # q"
    and pc: "task_of pc = [tk_future t]" "task_of (tp_workers p ! i) = []" and c: "may_exit pc \<longrightarrow> tp_closed p \<noteq> None"
  shows "pool_ok (pool_at i pc (p\<lparr>tp_submission_queue := q\<rparr>))"
proof (rule arrive_ok)
  let ?p = "p\<lparr>tp_submission_queue := q\<rparr>"
  have w: "waiting p = tk_future t # waiting ?p" by (simp add: waiting_def q)
  have same: "in_progress ?p = in_progress p" "filled ?p f = filled p f" for f by (simp_all add: in_progress_def filled_def)
  show "pool_shape ?p" using pool_okD(1) [OF ok] by (simp add: pool_shape_def)
  show "mset (waiting ?p) + in_progress ?p + mset (task_of pc) + mset (tp_finished ?p)
          = mset [0..<length (tp_futures ?p)] + mset (task_of (tp_workers ?p ! i))"
    using pool_okD(2) [OF ok] by (simp add: w pc same)
  show "sorted_wrt (<) (waiting ?p)" using pool_okD(3) [OF ok] by (simp add: w)
  show "\<forall>f < length (tp_futures ?p). filled ?p f \<longleftrightarrow> f \<in> set (tp_finished ?p)" using pool_okD(4) [OF ok] by (simp add: same)
  show "Finished \<in> insert pc (set (tp_workers ?p)) \<longrightarrow> (\<forall>f \<in> set (waiting ?p). the (tp_closed ?p) \<le> f)"
    using pool_okD(8) [OF ok] pc by (auto simp: w)
  show "pc = Take_Stolen \<longrightarrow> 1 < tp_num_workers ?p" using pc by auto
qed (use i pool_okD(5-7) [OF ok] c in auto)

lemma end_ok:
  assumes ok: "pool_ok p" and i: "i < tp_num_workers p"
    and pc: "task_of pc = []" "task_of (tp_workers p ! i) = [tk_future t]" "pc \<noteq> Finished" "pc \<noteq> Take_Stolen"
    and c: "may_exit pc \<longrightarrow> tp_closed p \<noteq> None"
  shows "pool_ok (pool_at i pc (run_task t p))"
proof (rule arrive_ok)
  let ?p = "run_task t p" and ?f = "tk_future t"
  have same: "waiting ?p = waiting p" "in_progress ?p = in_progress p" "tp_finished ?p = tp_finished p @ [?f]" "tp_workers ?p = tp_workers p"
    "length (tp_futures ?p) = length (tp_futures p)" "tp_closed ?p = tp_closed p" "tp_shutdown ?p = tp_shutdown p" "tp_num_workers ?p = tp_num_workers p"
    by (simp_all add: run_task_def waiting_def in_progress_def split: prod.splits)
  have shape: "pool_shape p" using pool_okD(1) [OF ok] .
  have "?f \<in># in_progress p"
    using in_progress_at [OF shape i, of Take_Local] pc by simp (metis union_single_eq_member)
  then have "?f \<in># mset [0..<length (tp_futures p)]" unfolding pool_okD(2) [OF ok, symmetric] by simp
  then have f: "?f < length (tp_futures p)" by simp
  have fl: "filled ?p g \<longleftrightarrow> filled p g \<or> g = ?f" if "g < length (tp_futures p)" for g
    using that f by (auto simp: filled_def run_task_def nth_list_update split: prod.splits)
  show "pool_shape ?p" using shape by (simp add: run_task_def pool_shape_def split: prod.splits)
  show "mset (waiting ?p) + in_progress ?p + mset (task_of pc) + mset (tp_finished ?p)
          = mset [0..<length (tp_futures ?p)] + mset (task_of (tp_workers ?p ! i))"
    using pool_okD(2) [OF ok] by (simp add: same pc)
  show "\<forall>g < length (tp_futures ?p). filled ?p g \<longleftrightarrow> g \<in> set (tp_finished ?p)" using fl pool_okD(4) [OF ok] by (auto simp: same)
  show "Finished \<in> insert pc (set (tp_workers ?p)) \<longrightarrow> (\<forall>f \<in> set (waiting ?p). the (tp_closed ?p) \<le> f)"
    using pool_okD(8) [OF ok] pc by (auto simp: same)
qed (use i pool_okD(3,5-7) [OF ok] c pc in \<open>auto simp: run_task_def waiting_def split: prod.splits\<close>)

text \<open>The queues of the workers have nothing to give.\<close>

lemma queues_same: "\<lbrakk>pool_shape p; i < tp_num_workers p\<rbrakk> \<Longrightarrow> tp_worker_queues p ! i = [] \<and> p\<lparr>tp_worker_queues := (tp_worker_queues p)[i := []]\<rparr> = p"
  by (cases p) (auto simp: pool_shape_def list_update_same_conv)

lemma take_local_none: "\<lbrakk>pool_shape p; i < tp_num_workers p\<rbrakk> \<Longrightarrow> take_local i p = (p, None)"
  using queues_same [of p i] by (simp add: take_local_def pop_back_def)

lemma take_stolen_none: "\<lbrakk>pool_shape p; v < tp_num_workers p\<rbrakk> \<Longrightarrow> take_stolen v p = (p, None)"
  using queues_same [of p v] by (simp add: take_stolen_def pop_front_def)

lemma take_submitted_cases:
  "take_submitted p = (case tp_submission_queue p of [] \<Rightarrow> (p, None) | t # q \<Rightarrow> (p\<lparr>tp_submission_queue := q\<rparr>, Some t))"
  by (cases "tp_submission_queue p") (simp_all add: take_submitted_def pop_front_def)

lemma go_simps [simp]: "go i f m (p, None) = pool_at i m p" "go i f m (p, Some t) = pool_at i (f t) p"
  by (simp_all add: go_def)

lemma pool_loop_ok:
  assumes ok: "pool_ok p" and i: "i < tp_num_workers p" and v: "draw + 2 \<le> tp_num_workers p \<or> tp_num_workers p \<le> 1"
  shows "pool_ok (pool_loop i draw p)"
proof -
  have shape: "pool_shape p" using pool_okD(1) [OF ok] .
  have mem: "tp_workers p ! i \<in> set (tp_workers p)" using shape i by (simp add: pool_shape_def)
  note exits = pool_okD(7) [OF ok mem]
  note m = move_ok [OF ok i] and b = begin_ok [OF ok i] and e = end_ok [OF ok i]
  show ?thesis
  proof (cases "tp_workers p ! i")
    case Take_Local
    then show ?thesis using m [of Take_Submitted] by (simp add: pool_loop_def take_local_none [OF shape i])
  next
    case Take_Submitted
    then show ?thesis
      using m [of Take_Stolen] m [of No_Task] b [of _ _ "Running t" for t]
      by (auto simp: pool_loop_def take_submitted_cases split: list.splits)
  next
    case Take_Stolen
    then have n: "1 < tp_num_workers p" using shape mem by (simp add: pool_shape_def)
    then have "pool_victim i draw < tp_num_workers p" using v by (auto simp: pool_victim_def)
    then show ?thesis using m [of No_Task] by (simp add: pool_loop_def Take_Stolen take_stolen_none [OF shape])
  next
    case (Running t)
    then show ?thesis using e [of Take_Local] by (simp add: pool_loop_def)
  next
    case No_Task
    then show ?thesis using m [of Take_Local] m [of Drain_Local] pool_okD(6) [OF ok] by (simp add: pool_loop_def)
  next
    case Drain_Local
    then show ?thesis using m [of Drain_Submitted] exits by (simp add: pool_loop_def take_local_none [OF shape i])
  next
    case (Drain_Local_Run t)
    then show ?thesis using e [of Drain_Local] exits by (simp add: pool_loop_def)
  next
    case Drain_Submitted
    then show ?thesis
      using m [of Finished] b [of _ _ "Drain_Submitted_Run t" for t] exits
      by (auto simp: pool_loop_def take_submitted_cases waiting_def split: list.splits)
  next
    case (Drain_Submitted_Run t)
    then show ?thesis using e [of Drain_Submitted] exits by (simp add: pool_loop_def)
  qed (use ok in \<open>simp add: pool_loop_def\<close>)
qed

lemma submit_pool_ok:
  assumes ok: "pool_ok p" shows "pool_ok (snd (submit fn p))"
proof -
  let ?p = "snd (submit fn p)"
  have same: "waiting ?p = waiting p @ [length (tp_futures p)]" "in_progress ?p = in_progress p" "tp_finished ?p = tp_finished p"
    "tp_futures ?p = tp_futures p @ [None]" "tp_closed ?p = tp_closed p" "tp_shutdown ?p = tp_shutdown p" "tp_workers ?p = tp_workers p"
    by (simp_all add: submit_def Let_def waiting_def in_progress_def)
  have range: "set (waiting p) \<union> set (tp_finished p) \<subseteq> {..<length (tp_futures p)}"
  proof -
    have "set_mset (mset (waiting p) + in_progress p + mset (tp_finished p)) = {0..<length (tp_futures p)}"
      unfolding pool_okD(2) [OF ok] by simp
    then show ?thesis by auto
  qed
  have "sorted_wrt (<) (waiting ?p)" using pool_okD(3) [OF ok] range by (auto simp: same sorted_wrt_append)
  moreover have "filled ?p f \<longleftrightarrow> f \<in> set (tp_finished ?p)" if "f < length (tp_futures ?p)" for f
    using that pool_okD(4) [OF ok, of f] range by (cases "f = length (tp_futures p)") (auto simp: filled_def same nth_append)
  moreover have "mset (waiting ?p) + in_progress ?p + mset (tp_finished ?p) = mset [0..<length (tp_futures ?p)]"
    using pool_okD(2) [OF ok] by (simp add: same)
  moreover have "pool_shape ?p" using pool_okD(1) [OF ok] by (simp add: pool_shape_def submit_def Let_def)
  moreover have "c \<le> length (tp_futures ?p)" if "tp_closed ?p = Some c" for c using pool_okD(5) [OF ok] that by (fastforce simp: same)
  moreover have "the (tp_closed ?p) \<le> f" if fin: "Finished \<in> set (tp_workers ?p)" and f: "f \<in> set (waiting ?p)" for f
  proof -
    have "tp_closed p \<noteq> None" using pool_okD(7) [OF ok, of Finished] fin by (simp add: same)
    then show ?thesis using pool_okD(5,8) [OF ok] fin f by (auto simp: same)
  qed
  ultimately show ?thesis
    unfolding pool_ok_def using pool_okD(6,7) [OF ok] by (auto simp: same)
qed

lemma shutdown_pool_ok:
  assumes ok: "pool_ok p" shows "pool_ok (pool_shutdown p)"
proof (cases "tp_shutdown p")
  case True
  then show ?thesis using ok by (simp add: pool_shutdown_def)
next
  case False
  then have "tp_closed p = None" using pool_okD(6) [OF ok] by simp
  then have no: "pc \<notin> set (tp_workers p)" if "may_exit pc" for pc using pool_okD(7) [OF ok, of pc] that by auto
  then have "Finished \<notin> set (tp_workers p)" by simp
  then show ?thesis
    using ok False by (simp add: pool_shutdown_def pool_ok_def pool_shape_def waiting_def in_progress_def filled_def)
qed

lemma pool_start_ok: "pool_ok (new_pool n hw w)"
  using bag_replicate [of task_of Take_Local]
  by (auto simp: pool_ok_def new_pool_def Let_def pool_shape_def pool_workers_def waiting_def in_progress_def)

lemma pool_reach_ok: "pool_reach p \<Longrightarrow> pool_ok p"
proof (induction rule: pool_reach.induct)
  case (pool_start n hw w)
  show ?case by (rule pool_start_ok)
next
  case (pool_next p p')
  show ?case using pool_next(2) pool_next(3) by (cases rule: pool_step.cases) (auto intro: submit_pool_ok shutdown_pool_ok pool_loop_ok)
qed

end
