(* ===== verification/Concurrency_Properties.thy ===== *)
theory Concurrency_Properties
  imports Scheduler_Laws Task_Pool_Laws
begin

text \<open>
  The properties of the work-stealing deque, the stream scheduler and the task pool, over every interleaving of their threads.
\<close>

subsection \<open>The deque\<close>

definition some_lease :: "nat \<Rightarrow> StreamLease" where
  "some_lease n = default_lease\<lparr>sl_stream_ctx := Some n, sl_vtable := Some 1, sl_control := Some n\<rparr>"

text \<open>
  C23: as long as the owner has not lost a race for the last lease, every access of the owner or of a thief, in any interleaving and
  through any number of growths of the buffer, changes the leases held, put in and handed out as a queue open at both ends does: a
  push appends, a pop takes the last, a steal takes the first.
\<close>

theorem deque_refines_queue:
  assumes "deque_reach m" "deque_step m m'" "\<not> mc_lost m'"
  shows "queue_step (view m) (view m')"
  using assms step_ok reach_ok lost_stays by blast

lemma new_machine_fields [simp]:
  "mc_deque new_machine = new_deque" "mc_owner new_machine = Owner_Idle" "mc_pushed new_machine = []" "mc_taken new_machine = []" "\<not> mc_lost new_machine"
  by (simp_all add: new_machine_def)

theorem deque_refines_queue_witness:
  "queue_step (view new_machine) (view (new_machine\<lparr>mc_owner := Push_Load_Bottom (some_lease 1)\<rparr>))"
  by (rule deque_refines_queue [OF reach_start call_push]) simp_all

lemma conservation:
  assumes "deque_reach m" "\<not> mc_lost m"
  shows "mset (mc_pushed m) = mset (mc_taken m) + mset (held m)"
  using assms
proof (induction rule: deque_reach.induct)
  case reach_start
  then show ?case using start_ok(2) by (simp add: view_def)
next
  case (reach_step m m')
  have "queue_step (view m) (view m')"
    using reach_step.hyps reach_step.prems step_ok reach_ok lost_stays by blast
  moreover have "mset (mc_pushed m) = mset (mc_taken m) + mset (held m)"
    using reach_step lost_stays by blast
  ultimately show ?case by (auto simp: view_def elim!: queue_stepE)
qed

lemma first_loss:
  assumes "\<not> mc_lost m" "deque_step m m'" "mc_lost m'"
  shows "\<exists>t l. mc_owner m = Pop_Cas t l \<and> dq_top (mc_deque m) \<noteq> t \<and>
    m' = m\<lparr>mc_owner := Pop_Lost (dq_top (mc_deque m)), mc_lost := True\<rparr>"
  using assms(2,1,3)
proof (cases rule: deque_step.cases)
  case owner_runs
  then show ?thesis using assms(1,3)
    by (cases "mc_owner m") (auto simp: owner_move_def owner_step_def Let_def split: if_splits)
next
  case (thief_runs i)
  then show ?thesis using assms(1,3) by (cases "mc_thieves m i") (auto simp: thief_move_def split: if_splits)
qed simp_all

text \<open>
  C24: no lease is lost or handed out twice: the leases pushed so far are those handed out and those still held, each as often, in
  every interleaving in which the owner has not lost a race for the last lease.
\<close>

theorem deque_conserves_leases:
  assumes "deque_reach m" "\<not> mc_lost m"
  shows "mset (mc_pushed m) = mset (mc_taken m) + mset (held m)"
  using assms by (rule conservation)

theorem deque_conserves_leases_witness:
  "let m = fold act [Call_Push (some_lease 1), Owner_Runs, Owner_Runs, Owner_Runs, Owner_Runs, Owner_Runs] new_machine in
     mset (mc_pushed m) = mset (mc_taken m) + mset (held m)"
  unfolding Let_def
  by (rule deque_conserves_leases [OF schedule_reach [OF reach_start]])
    (simp add: owner_move_def owner_step_def new_deque_def current_buffer_def new_buffer_def)

text \<open>
  C25: an owner that loses the race for the last lease leaves the deque claiming a lease that it does not hold. Whenever that first
  happens, in any interleaving, every lease that was pushed has already been handed out; yet once the owner has stored one more than
  the top that the failed exchange read back, an undisturbed pop hands out what the slot at the top holds: one lease more than were
  ever pushed.
\<close>

theorem lost_race_adds_a_lease:
  assumes "deque_reach m" "\<not> mc_lost m" "deque_step m m'" "mc_lost m'"
  shows "mset (mc_taken m') = mset (mc_pushed m') \<and> mc_owner (owner_move m') = Pop_Returned None \<and>
    mc_taken (owner_move m') = mc_taken m' \<and>
    (let m'' = fold act (Owner_Runs # Call_Pop # replicate 6 Owner_Runs) m'; l = slot_at (mc_deque m') (dq_top (mc_deque m')) in
       mc_owner m'' = Pop_Returned (Some l) \<and> mc_taken m'' = mc_taken m' @ [l] \<and> mc_pushed m'' = mc_pushed m')"
proof -
  obtain t l where lost: "mc_owner m = Pop_Cas t l" "dq_top (mc_deque m) \<noteq> t"
    "m' = m\<lparr>mc_owner := Pop_Lost (dq_top (mc_deque m)), mc_lost := True\<rparr>"
    using first_loss [OF assms(2-4)] by blast
  note ok = reach_ok [OF assms(1,2)]
  then have "held m = []" using lost(2) by (auto simp: machine_ok_def deque_ok_def held_def deque_list_def lost(1))
  then have "mset (mc_taken m) = mset (mc_pushed m)" using conservation [OF assms(1,2)] by simp
  then show ?thesis unfolding lost(3) by (simp add: owner_move_def owner_step_def eval_nat_numeral Let_def slot_at_def current_buffer_def)
qed

definition lost_race :: "Action list" where
  "lost_race = Call_Push (some_lease 1) # replicate 5 Owner_Runs @ Call_Push (some_lease 2) # replicate 5 Owner_Runs @
     Call_Pop # replicate 4 Owner_Runs @ Call_Steal 0 # replicate 4 (Thief_Runs 0) @
     Call_Pop # replicate 4 Owner_Runs @ [Thief_Runs 0]"

theorem lost_race_adds_a_lease_witness:
  "mc_taken (fold act (Owner_Runs # Call_Pop # replicate 6 Owner_Runs) (owner_move (fold act lost_race new_machine)))
     = [some_lease 2, some_lease 1, some_lease 2]"
proof -
  let ?m = "fold act lost_race new_machine"
  have c: "\<not> mc_lost ?m" "mc_lost (owner_move ?m)" by code_simp+
  have t: "mc_taken (owner_move ?m) = [some_lease 2, some_lease 1] \<and>
      slot_at (mc_deque (owner_move ?m)) (dq_top (mc_deque (owner_move ?m))) = some_lease 2" by code_simp
  have "mc_taken (fold act (Owner_Runs # Call_Pop # replicate 6 Owner_Runs) (owner_move ?m)) =
      mc_taken (owner_move ?m) @ [slot_at (mc_deque (owner_move ?m)) (dq_top (mc_deque (owner_move ?m)))]"
    using lost_race_adds_a_lease [OF schedule_reach [OF reach_start] c(1) owner_runs c(2)] unfolding Let_def by blast
  also have "\<dots> = [some_lease 2, some_lease 1, some_lease 2]" using t by simp
  finally show ?thesis .
qed

text \<open>Two threads that push into one deque at once, which \<open>schedule_affine\<close> allows: both report success, one lease is gone.\<close>

definition racing_pushes :: "Deque \<Rightarrow> StreamLease \<Rightarrow> StreamLease \<Rightarrow> Deque" where
  "racing_pushes d l1 l2 = (case push_step d (Push_Load_Bottom l1) of (d, pc1, _) \<Rightarrow> case push_step d (Push_Load_Bottom l2) of (d, pc2, _) \<Rightarrow>
     fst (((\<lambda>(d, pc, ev). push_step d pc) ^^ 4) (fst (((\<lambda>(d, pc, ev). push_step d pc) ^^ 4) (d, pc1, Silent)), pc2, Silent)))"

lemma racing_pushes_lose_a_lease: "leases (racing_pushes new_deque (some_lease 1) (some_lease 2)) = [some_lease 2]"
  by code_simp

subsection \<open>The scheduler\<close>

text \<open>Where leases can be.\<close>

definition all_leases :: "'w StreamScheduler \<Rightarrow> StreamLease list" where
  "all_leases s = concat (map leases (sc_deques s)) @ sc_global_queue s @ sc_parking_lot s @ concat (map in_hand (sc_workers s)) @ sc_dropped s"

lemma everywhere_all: "everywhere s = mset (map strip (all_leases s))"
  by (simp add: everywhere_def all_leases_def bag_def stripped_def map_concat comp_def)

lemma scheduler_leases_law: "sched_reach s \<Longrightarrow> mset (map strip (sc_submitted s)) = mset (map strip (all_leases s))"
  using sched_reach_ok [of s] by (simp add: sched_ok_def everywhere_all stripped_def)

text \<open>
  when no two calls on a deque overlap, and whatever the workers and the outside do otherwise, every lease that was submitted is exactly once in a
  deque, in the global queue, in the parking lot, in the hands of a worker, or was let go; only the affinity may have changed.
\<close>

theorem scheduler_conserves_leases:
  assumes "sched_reach s"
  shows "mset (map strip (sc_submitted s)) = mset (map strip (all_leases s))"
  using assms by (rule scheduler_leases_law)

definition no_control :: "nat \<Rightarrow> StreamControl" where
  "no_control c = \<lparr>ct_requested = 0, ct_in_flight = 0, ct_buffered = 0, ct_cancelled = False\<rparr>"

definition counting :: "nat ErasedPollFn" where
  "counting ctx vt b cx w = (if w < 2 then kind_Emit else kind_Done, w + 1)"

definition fresh :: "nat StreamScheduler" where
  "fresh = set_poll_fn (Some counting) (new_scheduler 2 8 no_control 0)"

lemma fresh_reach: "sched_reach fresh"
  unfolding fresh_def by (rule sched_start)

theorem scheduler_conserves_leases_witness:
  "mset (map strip (sc_submitted (schedule (some_lease 1) (submitted (some_lease 1) fresh))))
     = mset (map strip (all_leases (schedule (some_lease 1) (submitted (some_lease 1) fresh))))"
proof (rule scheduler_conserves_leases)
  have "sched_step fresh (sched_act (Do_Schedule (some_lease 1)) fresh)" by (rule sched_step.intros) simp
  then show "sched_reach (schedule (some_lease 1) (submitted (some_lease 1) fresh))" using fresh_reach sched_next by fastforce
qed

text \<open>
  a stream is advanced by one worker at a time: when every stream was submitted once, two workers never hold a lease of the same
  stream at the same moment.
\<close>

lemma in_two_hands:
  assumes "i < length ws" "j < length ws" "i \<noteq> j" "x \<in> set (f (ws ! i))" "y \<in> set (f (ws ! j))"
  shows "{#x, y#} \<subseteq># mset (concat (map f ws))"
  using assms
proof (induction ws arbitrary: i j)
  case (Cons w ws)
  have one: "{#z#} \<subseteq># mset (concat (map f ws))" if "k < length ws" "z \<in> set (f (ws ! k))" for k z
    using that nth_mem [OF that(1)] by (auto simp: mset_subset_eq_single)
  consider (zi) "i = 0" "j \<noteq> 0" | (zj) "j = 0" "i \<noteq> 0" | (nz) "i \<noteq> 0" "j \<noteq> 0" using Cons.prems by auto
  then show ?case
  proof cases
    case zi
    then have "{#x#} \<subseteq># mset (f w)" "{#y#} \<subseteq># mset (concat (map f ws))"
      using Cons.prems one [of "j - 1" y] by (auto simp: mset_subset_eq_single nth_Cons')
    then have "{#x#} + {#y#} \<subseteq># mset (f w) + mset (concat (map f ws))" by (rule subset_mset.add_mono)
    then show ?thesis by (simp add: add_mset_commute)
  next
    case zj
    then have "{#y#} \<subseteq># mset (f w)" "{#x#} \<subseteq># mset (concat (map f ws))"
      using Cons.prems one [of "i - 1" x] by (auto simp: mset_subset_eq_single nth_Cons')
    then have "{#y#} + {#x#} \<subseteq># mset (f w) + mset (concat (map f ws))" by (rule subset_mset.add_mono)
    moreover have "{#x, y#} = {#y#} + {#x#}" "mset (concat (map f (w # ws))) = mset (f w) + mset (concat (map f ws))" by simp_all
    ultimately show ?thesis by metis
  next
    case nz
    then have "{#x, y#} \<subseteq># mset (concat (map f ws))"
      using Cons.IH [of "i - 1" "j - 1"] Cons.prems by (auto simp: nth_Cons')
    then show ?thesis by (simp add: subset_mset.add_increasing)
  qed
qed simp

theorem one_worker_per_stream:
  assumes "sched_reach s" "distinct (map sl_stream_ctx (sc_submitted s))"
    and "i < sc_num_workers s" "j < sc_num_workers s" "i \<noteq> j"
    and "l \<in> set (in_hand (sc_workers s ! i))" "l' \<in> set (in_hand (sc_workers s ! j))"
  shows "sl_stream_ctx l \<noteq> sl_stream_ctx l'"
proof
  assume same: "sl_stream_ctx l = sl_stream_ctx l'"
  have ctx: "map sl_stream_ctx (map strip xs) = map sl_stream_ctx xs" for xs by (simp add: strip_def)
  have "mset (map sl_stream_ctx (map strip (sc_submitted s))) = mset (map sl_stream_ctx (map strip (all_leases s)))"
    using arg_cong [OF scheduler_leases_law [OF assms(1)], of "image_mset sl_stream_ctx"] by (simp only: mset_map)
  then have d: "distinct (map sl_stream_ctx (all_leases s))"
    using assms(2) unfolding ctx by (metis mset_eq_imp_distinct_iff)
  have n: "length (sc_workers s) = sc_num_workers s" using sched_reach_ok [OF assms(1)] by (simp add: sched_ok_def shape_def)
  have "distinct (map sl_stream_ctx (concat (map in_hand (sc_workers s))))" using d by (simp add: all_leases_def)
  moreover have "2 \<le> count (mset (map sl_stream_ctx (concat (map in_hand (sc_workers s))))) (sl_stream_ctx l)"
  proof -
    have "{#l, l'#} \<subseteq># mset (concat (map in_hand (sc_workers s)))" by (rule in_two_hands) (use assms n in auto)
    then have "image_mset sl_stream_ctx {#l, l'#} \<subseteq># image_mset sl_stream_ctx (mset (concat (map in_hand (sc_workers s))))"
      by (rule image_mset_subseteq_mono)
    from mset_subset_eq_count [OF this, of "sl_stream_ctx l"] show ?thesis by (simp add: same)
  qed
  ultimately show False by (simp add: distinct_count_atmost_1 split: if_splits)
qed

theorem one_worker_per_stream_witness:
  "\<exists>s :: nat StreamScheduler. sl_stream_ctx (some_lease 1) \<noteq> sl_stream_ctx (some_lease 2) \<and>
     sched_run [Do_Schedule (some_lease 1), Do_Schedule (some_lease 2), Do_Worker 0 0, Do_Worker 0 0, Do_Worker 0 0,
                Do_Worker 1 0, Do_Worker 1 0, Do_Worker 1 0] fresh = Some s"
proof -
  let ?as = "[Do_Schedule (some_lease 1), Do_Schedule (some_lease 2), Do_Worker 0 0, Do_Worker 0 0, Do_Worker 0 0,
              Do_Worker 1 0, Do_Worker 1 0, Do_Worker 1 0]"
  have c: "case sched_run ?as fresh of None \<Rightarrow> False | Some s \<Rightarrow>
      sc_num_workers s = 2 \<and> sc_workers s = [Found (some_lease 2), Found (some_lease 1)] \<and> sc_submitted s = [some_lease 1, some_lease 2]"
    by code_simp
  then obtain s where s: "sched_run ?as fresh = Some s" by (cases "sched_run ?as fresh") simp_all
  then have f: "sc_num_workers s = 2" "sc_workers s = [Found (some_lease 2), Found (some_lease 1)]" "sc_submitted s = [some_lease 1, some_lease 2]"
    using c by simp_all
  have "sl_stream_ctx (some_lease 1) \<noteq> sl_stream_ctx (some_lease 2)"
    by (rule one_worker_per_stream [OF sched_run_reach [OF s fresh_reach], of 1 0]) (simp_all add: f, simp add: some_lease_def)
  then show ?thesis using s by blast
qed

subsection \<open>A wake that comes too early\<close>

lemma parking_wake_other: "\<lbrakk>parking_wake ctx ps = (ps', r); l \<in> set ps; sl_stream_ctx l \<noteq> ctx\<rbrakk> \<Longrightarrow> l \<in> set ps'"
  by (induction ps arbitrary: ps' r) (auto split: if_splits prod.splits)

lemma parking_wake_none: "ctx \<notin> sl_stream_ctx ` set ps \<Longrightarrow> parking_wake ctx ps = (ps, None)"
  by (induction ps) auto

lemma push_to_fields [simp]:
  "sc_parking_lot (push_to i l s) = sc_parking_lot s" "sc_workers (push_to i l s) = sc_workers s"
  by (simp_all add: push_to_def)

lemma parking_lot_grows:
  assumes "l \<in> set (sc_parking_lot s)" "a \<noteq> Do_Wake (sl_stream_ctx l)"
  shows "l \<in> set (sc_parking_lot (sched_act a s))"
proof (cases a)
  case (Do_Wake ctx)
  obtain ps r where w: "parking_wake ctx (sc_parking_lot s) = (ps, r)" by (cases "parking_wake ctx (sc_parking_lot s)")
  have "l \<in> set ps" using parking_wake_other [OF w assms(1)] assms(2) Do_Wake by auto
  then show ?thesis
    using assms Do_Wake w by (cases r) (simp_all add: wake_def schedule_affine_def schedule_def push_to_def)
next
  case (Do_Worker i draw)
  have "sc_parking_lot (dispatch_result k l' i s) = (if k = kind_Pending then sc_parking_lot s @ [l'] else sc_parking_lot s)" for k l'
    by (cases k) (simp_all add: emit_control_def park_def parking_park_def drop_lease_def split: option.splits)
  then show ?thesis
    using assms Do_Worker
    by (simp add: worker_loop_def pop_local_def steal_peer_def pop_global_def judge_def poll_lease_def drain_remaining_def at_def
        drop_lease_def park_def parking_park_def Let_def split: WorkerPc.splits prod.splits option.splits)
qed (use assms in \<open>simp_all add: schedule_def schedule_affine_def push_to_def submitted_def change_control_def shutdown_def\<close>)

text \<open>Only the worker itself moves on from where it stands.\<close>

lemma at_other [simp]: "j \<noteq> i \<Longrightarrow> sc_workers (at j pc s) ! i = sc_workers s ! i"
  by (simp add: at_def)

lemma control_and_lot_workers [simp]:
  "sc_workers (emit_control l s) = sc_workers s" "sc_workers (park l s) = sc_workers s" "sc_workers (drop_lease l s) = sc_workers s"
  by (simp_all add: emit_control_def park_def drop_lease_def split: option.splits)

lemma dispatch_workers [simp]: "sc_workers (dispatch_result k l j s) = sc_workers s"
  by (cases k) simp_all

lemma worker_phase_other:
  assumes "j \<noteq> i"
  shows "sc_workers (pop_local j s) ! i = sc_workers s ! i" "sc_workers (steal_peer j draw s) ! i = sc_workers s ! i"
    "sc_workers (pop_global j s) ! i = sc_workers s ! i" "sc_workers (judge j l s) ! i = sc_workers s ! i"
    "sc_workers (drain_remaining j s) ! i = sc_workers s ! i" "sc_workers (snd (poll_lease j l s)) = sc_workers s"
  using assms
  by (simp_all add: pop_local_def steal_peer_def pop_global_def judge_def drain_remaining_def poll_lease_def Let_def
      split: prod.split option.split)

lemma worker_loop_other:
  assumes "j \<noteq> i"
  shows "sc_workers (worker_loop j draw s) ! i = sc_workers s ! i"
proof (cases "sc_workers s ! j")
  case (Polling l)
  then show ?thesis using assms worker_phase_other(6) [OF assms, of l s] by (cases "poll_lease j l s") (simp add: worker_loop_def)
qed (use assms in \<open>simp_all add: worker_loop_def worker_phase_other [OF assms]\<close>)

lemma others_leave_worker:
  assumes "\<And>d. a \<noteq> Do_Worker i d"
  shows "sc_workers (sched_act a s) ! i = sc_workers s ! i"
proof (cases a)
  case (Do_Worker j draw)
  then show ?thesis using assms worker_loop_other [of j i draw s] by auto
qed (simp_all add: schedule_def schedule_affine_def submitted_def change_control_def shutdown_def wake_def
      split: prod.splits option.splits)

lemma parking_lot_keeps:
  "\<lbrakk>l \<in> set (sc_parking_lot s); sched_run as s = Some s'; Do_Wake (sl_stream_ctx l) \<notin> set as\<rbrakk> \<Longrightarrow> l \<in> set (sc_parking_lot s')"
proof (induction as arbitrary: s)
  case (Cons a as)
  then have "sched_run as (sched_act a s) = Some s'" by (simp split: if_splits)
  then show ?case using Cons.IH [of "sched_act a s"] parking_lot_grows [OF Cons.prems(1), of a] Cons.prems(3) by auto
qed simp

lemma parking_worker_parks:
  "\<lbrakk>sc_workers s ! i = Parking l; sched_run as s = Some s'; Do_Wake (sl_stream_ctx l) \<notin> set as\<rbrakk> \<Longrightarrow>
     (if \<exists>d. Do_Worker i d \<in> set as then l \<in> set (sc_parking_lot s') else sc_workers s' ! i = Parking l)"
proof (induction as arbitrary: s)
  case (Cons a as)
  then have run: "sched_run as (sched_act a s) = Some s'" "Do_Wake (sl_stream_ctx l) \<notin> set as" by (simp_all split: if_splits)
  show ?case
  proof (cases "\<exists>d. a = Do_Worker i d")
    case True
    then have "l \<in> set (sc_parking_lot (sched_act a s))"
      using Cons.prems(1) by (auto simp: worker_loop_def at_def park_def parking_park_def)
    then show ?thesis using parking_lot_keeps [OF _ run] True by auto
  next
    case False
    then have "sc_workers (sched_act a s) ! i = Parking l" using others_leave_worker [of a i s] Cons.prems(1) by simp
    moreover have "(\<exists>d. Do_Worker i d \<in> set (a # as)) \<longleftrightarrow> (\<exists>d. Do_Worker i d \<in> set as)" using False by auto
    ultimately show ?thesis using Cons.IH [OF _ run] by presburger
  qed
qed simp

text \<open>
  C27: a wake that reaches the parking lot before the lease does is lost. Whenever a worker has judged that a lease has no demand and
  is about to park it, and the lot holds no lease of that stream, waking the stream changes nothing; and from there, whatever else
  happens, demand for the stream included, the worker parks the lease as soon as it runs, and the lease is in the lot for as long as
  nobody wakes the stream again.
\<close>

theorem wake_before_parking_is_lost:
  assumes "sc_workers s ! i = Parking l" "sl_stream_ctx l \<notin> sl_stream_ctx ` set (sc_parking_lot s)"
    and "sched_run (Do_Wake (sl_stream_ctx l) # as) s = Some s'" "Do_Wake (sl_stream_ctx l) \<notin> set as"
  shows "sched_act (Do_Wake (sl_stream_ctx l)) s = s \<and>
    (if \<exists>d. Do_Worker i d \<in> set as then l \<in> set (sc_parking_lot s') else sc_workers s' ! i = Parking l)"
proof -
  have "wake (sl_stream_ctx l) s = s" by (simp add: wake_def parking_wake_none [OF assms(2)])
  then show ?thesis using parking_worker_parks [OF assms(1) _ assms(4), of s'] assms(3) by simp
qed

definition before_parking :: "SchedAction list" where
  "before_parking = [Do_Schedule (some_lease 7), Do_Worker 0 0, Do_Worker 0 0, Do_Worker 0 0, Do_Worker 0 0]"

theorem wake_before_parking_is_lost_witness:
  "case sched_run (before_parking @ [Do_Wake (Some 7), Do_Request 7 1, Do_Worker 0 0, Do_Worker 1 0]) fresh of None \<Rightarrow> False
   | Some s \<Rightarrow> some_lease 7 \<in> set (sc_parking_lot s) \<and> should_advance (sc_controls s 7)"
proof -
  let ?as = "[Do_Request 7 1, Do_Worker 0 0, Do_Worker 1 0]"
  have c: "case sched_run before_parking fresh of None \<Rightarrow> False | Some s \<Rightarrow>
      sc_workers s ! 0 = Parking (some_lease 7) \<and> sc_parking_lot s = []" by code_simp
  then obtain s where s: "sched_run before_parking fresh = Some s" "sc_workers s ! 0 = Parking (some_lease 7)" "sc_parking_lot s = []"
    by (cases "sched_run before_parking fresh") simp_all
  have d: "case sched_run (before_parking @ Do_Wake (Some 7) # ?as) fresh of None \<Rightarrow> False | Some s \<Rightarrow> should_advance (sc_controls s 7)"
    by code_simp
  then obtain s' where s': "sched_run (before_parking @ Do_Wake (Some 7) # ?as) fresh = Some s'" "should_advance (sc_controls s' 7)"
    by (cases "sched_run (before_parking @ Do_Wake (Some 7) # ?as) fresh") simp_all
  have run_append: "sched_run (xs @ ys) u = (case sched_run xs u of None \<Rightarrow> None | Some v \<Rightarrow> sched_run ys v)"
    for xs ys and u :: "nat StreamScheduler"
    by (induction xs arbitrary: u) simp_all
  have ctx: "sl_stream_ctx (some_lease 7) = Some 7" by (simp add: some_lease_def)
  have "sched_run (Do_Wake (Some 7) # ?as) s = Some s'" using s' s(1) unfolding run_append by simp
  from wake_before_parking_is_lost [of s 0 "some_lease 7" ?as s', unfolded ctx, OF s(2) _ this] s(3)
  have "some_lease 7 \<in> set (sc_parking_lot s')" by auto
  then show ?thesis using s' by simp
qed

subsection \<open>The task pool\<close>

text \<open>
  C26: the pool runs every task once: in every interleaving of submissions, workers and shutdown, a future is filled exactly when its
  task has run, no task runs twice, and the tasks not yet run are waiting in the order of their submission or are being run.
\<close>

theorem pool_runs_each_task_once:
  assumes "pool_reach p"
  shows "distinct (tp_finished p) \<and> sorted_wrt (<) (waiting p) \<and>
    (\<forall>f < length (tp_futures p). tp_futures p ! f \<noteq> None \<longleftrightarrow> f \<in> set (tp_finished p)) \<and>
    mset (waiting p) + in_progress p + mset (tp_finished p) = mset [0..<length (tp_futures p)]"
proof -
  note ok = pool_reach_ok [OF assms]
  have "count (mset (tp_finished p)) f \<le> 1" for f
  proof -
    have "count (mset (tp_finished p)) f \<le> count (mset (waiting p) + in_progress p + mset (tp_finished p)) f" by simp
    also have "\<dots> \<le> 1" unfolding pool_okD(2) [OF ok] using distinct_upt [of 0 "length (tp_futures p)"] unfolding distinct_count_atmost_1 by simp
    finally show ?thesis .
  qed
  then have "distinct (tp_finished p)" unfolding distinct_count_atmost_1
    by (metis count_mset_0_iff le_neq_implies_less less_one)
  then show ?thesis using pool_okD(2-4) [OF ok] by (auto simp: filled_def)
qed

text \<open>
  C28: \<open>shutdown\<close> finishes the pending work: once every worker has been joined, every task submitted before the shutdown has its result.
\<close>

theorem shutdown_finishes_pending:
  assumes "pool_reach p" "pool_joined p" "tp_closed p = Some c" "f < c"
  shows "tp_futures p ! f \<noteq> None"
proof -
  note ok = pool_reach_ok [OF assms(1)]
  have fin: "pc = Finished" if "pc \<in> set (tp_workers p)" for pc
    using assms(2) that by (cases pc) (auto simp: pool_joined_def)
  have none: "in_progress p = {#}" unfolding in_progress_def bag_def using fin by force
  have "tp_workers p \<noteq> []" using pool_okD(1) [OF ok] by (auto simp: pool_shape_def)
  then have "Finished \<in> set (tp_workers p)" using fin by (cases "tp_workers p") auto
  then have "f \<notin> set (waiting p)" using pool_okD(8) [OF ok] assms(3,4) by fastforce
  moreover have f: "f < length (tp_futures p)" using pool_okD(5) [OF ok assms(3)] assms(4) by simp
  then have "f \<in># mset (waiting p) + in_progress p + mset (tp_finished p)" unfolding pool_okD(2) [OF ok] by simp
  ultimately have "f \<in> set (tp_finished p)" by (simp add: none)
  then show ?thesis using pool_okD(4) [OF ok f] by (simp add: filled_def)
qed

text \<open>The pool used below: two workers, a world that counts the tasks, and two tasks, of which one comes after the shutdown.\<close>

definition number_task :: "nat \<Rightarrow> nat \<Rightarrow> nat \<times> nat" where
  "number_task k w = (k + w, w + 1)"

definition pool_trace :: "(nat, nat) PoolAction list" where
  "pool_trace = [Submit (number_task 10), Shut_Down] @ concat (replicate 10 [Work 0 0, Work 1 0]) @ [Submit (number_task 20), Work 0 0, Work 1 0]"

lemma pool_trace_runs: "case pool_run pool_trace (new_pool 2 8 0) of None \<Rightarrow> False | Some p \<Rightarrow>
    pool_joined p \<and> tp_closed p = Some 1 \<and> tp_futures p = [Some 10, None]"
  by code_simp

lemma pool_trace_state: obtains p :: "(nat, nat) TaskPool" where "pool_reach p" "pool_joined p" "tp_closed p = Some 1" "tp_futures p = [Some 10, None]"
proof -
  obtain p where p: "pool_run pool_trace (new_pool 2 8 0) = Some p" using pool_trace_runs by (cases "pool_run pool_trace (new_pool 2 8 0)") simp_all
  show thesis using pool_trace_runs by (intro that [of p] pool_run_reach [OF p pool_start]) (simp_all add: p)
qed

theorem pool_runs_each_task_once_witness:
  "\<exists>p :: (nat, nat) TaskPool. pool_reach p \<and> tp_futures p = [Some 10, None] \<and> distinct (tp_finished p)"
proof -
  obtain p :: "(nat, nat) TaskPool" where "pool_reach p" "tp_futures p = [Some 10, None]" by (rule pool_trace_state)
  then show ?thesis using pool_runs_each_task_once by blast
qed

theorem shutdown_finishes_pending_witness:
  "\<exists>p :: (nat, nat) TaskPool. pool_joined p \<and> tp_futures p ! 0 \<noteq> None"
proof -
  obtain p :: "(nat, nat) TaskPool" where p: "pool_reach p" "pool_joined p" "tp_closed p = Some 1" by (rule pool_trace_state)
  have "tp_futures p ! 0 \<noteq> None" by (rule shutdown_finishes_pending [OF p]) simp
  then show ?thesis using p(2) by blast
qed

end
