(* ===== verification/Swarm_Types.thy ===== *)
theory Swarm_Types
  imports Complex_Main Actor_System
begin

text \<open>
  The data of the swarm (\<open>include/celer/necto/swarm/types.hpp\<close>). The type \<open>'f\<close> of \<open>float\<close> values and its arithmetic are a parameter, a
  record of the operations that the code uses; a literal of the code is the float that \<open>fl_lit\<close> gives for it. A \<open>std::mt19937\<close> with the
  distributions drawn from it is a second parameter. What a property needs of them it assumes, and names.
\<close>

subsection \<open>Floating point and random numbers\<close>

record 'f Float =
  fl_lit :: "rat \<Rightarrow> 'f"
  fl_of_nat :: "nat \<Rightarrow> 'f"
  fl_add :: "'f \<Rightarrow> 'f \<Rightarrow> 'f"
  fl_sub :: "'f \<Rightarrow> 'f \<Rightarrow> 'f"
  fl_mul :: "'f \<Rightarrow> 'f \<Rightarrow> 'f"
  fl_div :: "'f \<Rightarrow> 'f \<Rightarrow> 'f"
  fl_less :: "'f \<Rightarrow> 'f \<Rightarrow> bool"
  fl_le :: "'f \<Rightarrow> 'f \<Rightarrow> bool"
  fl_sqrt :: "'f \<Rightarrow> 'f"
  fl_pow :: "'f \<Rightarrow> 'f \<Rightarrow> 'f"

abbreviation fl_zero :: "'f Float \<Rightarrow> 'f" where "fl_zero F \<equiv> fl_lit F 0"
abbreviation fl_one :: "'f Float \<Rightarrow> 'f" where "fl_one F \<equiv> fl_lit F 1"

text \<open>\<open>std::max(a, b)\<close> and \<open>std::min(a, b)\<close>.\<close>

definition fl_max :: "'f Float \<Rightarrow> 'f \<Rightarrow> 'f \<Rightarrow> 'f" where
  "fl_max F a b = (if fl_less F a b then b else a)"

definition fl_min :: "'f Float \<Rightarrow> 'f \<Rightarrow> 'f \<Rightarrow> 'f" where
  "fl_min F a b = (if fl_less F b a then b else a)"

text \<open>
  \<open>rg_normal\<close> draws so many numbers from one \<open>std::normal_distribution(0, scale)\<close>, \<open>rg_uniform\<close> one from a
  \<open>std::uniform_real_distribution(0, b)\<close>.
\<close>

record ('f, 'g) Random =
  rg_seed :: "64 word \<Rightarrow> 'g"
  rg_normal :: "'f \<Rightarrow> nat \<Rightarrow> 'g \<Rightarrow> 'f list \<times> 'g"
  rg_uniform :: "'f \<Rightarrow> 'g \<Rightarrow> 'f \<times> 'g"

subsection \<open>Agents\<close>

datatype Morph = Explorer | Worker | Evaluator | SwarmCoordinator

definition morph_count :: nat where "morph_count = 4"

definition morph_number :: "Morph \<Rightarrow> nat" where
  "morph_number m = (case m of Explorer \<Rightarrow> 0 | Worker \<Rightarrow> 1 | Evaluator \<Rightarrow> 2 | SwarmCoordinator \<Rightarrow> 3)"

definition morph_of_number :: "nat \<Rightarrow> Morph" where
  "morph_of_number c = [Explorer, Worker, Evaluator, SwarmCoordinator] ! c"

datatype TaskStatus = Unexplored | InProgress | Completed | Failed

record 'f AgentState =
  ag_heading :: "'f list"
  ag_quality :: 'f
  ag_morph :: Morph
  ag_lifecycle :: AgentLifecycle
  ag_cluster :: ClusterId
  ag_agent_id :: "32 word"
  ag_name :: string

definition default_agent :: "'f Float \<Rightarrow> 'f AgentState" where
  "default_agent F = \<lparr>ag_heading = [], ag_quality = fl_zero F, ag_morph = Explorer, ag_lifecycle = Active,
                      ag_cluster = invalid_ref, ag_agent_id = 0, ag_name = []\<rparr>"

subsection \<open>Tasks and pheromone\<close>

type_synonym TaskNodeId = "32 word"

record TaskNode =
  tn_id :: TaskNodeId
  tn_description :: string
  tn_parent :: TaskNodeId
  tn_children :: "TaskNodeId list"
  tn_depth :: "32 word"
  tn_status :: TaskStatus

definition default_task :: TaskNode where
  "default_task = \<lparr>tn_id = 0, tn_description = [], tn_parent = 0, tn_children = [], tn_depth = 0, tn_status = Unexplored\<rparr>"

record 'f PheromoneEdge =
  pe_from :: TaskNodeId
  pe_to :: TaskNodeId
  pe_tau :: 'f
  pe_heuristic_eta :: 'f
  pe_age :: "32 word"

record 'f MorphConfig =
  mo_name :: string
  mo_base_threshold :: 'f
  mo_stimulus_decay :: 'f

subsection \<open>Clusters\<close>

record 'f ClusterState =
  cl_id :: ClusterId
  cl_name :: string
  cl_members :: "ActorRef list"
  cl_root_task :: TaskNodeId
  cl_scope_prefix :: string
  cl_phi :: 'f
  cl_sustain_count :: "32 word"
  cl_active :: bool

record 'f SwarmConfig =
  cf_population :: "32 word"
  cf_strategy_dim :: "32 word"
  cf_alignment_radius :: 'f
  cf_noise_eta :: 'f
  cf_evaporation_rate :: 'f
  cf_convergence_phi :: 'f
  cf_sustain_window :: "32 word"
  cf_max_rounds :: "32 word"
  cf_premature_quality :: 'f
  cf_noise_burst :: 'f
  cf_morphs :: "'f MorphConfig list"
  cf_channel_capacity :: "32 word"

definition default_swarm_config :: "'f Float \<Rightarrow> 'f SwarmConfig" where
  "default_swarm_config F = \<lparr>cf_population = 64, cf_strategy_dim = 16, cf_alignment_radius = fl_lit F (3 / 10),
     cf_noise_eta = fl_lit F (15 / 100), cf_evaporation_rate = fl_lit F (5 / 100), cf_convergence_phi = fl_lit F (9 / 10),
     cf_sustain_window = 50, cf_max_rounds = 10000, cf_premature_quality = fl_lit F (3 / 10), cf_noise_burst = fl_lit F (1 / 2),
     cf_morphs = [], cf_channel_capacity = 1024\<rparr>"

subsection \<open>Results and snapshots\<close>

record 'f SolutionPath =
  sp_nodes :: "TaskNodeId list"
  sp_total_pheromone :: 'f
  sp_quality :: 'f

record 'f TaskTree =
  tt_root :: TaskNode
  tt_nodes :: "TaskNode list"
  tt_edges :: "'f PheromoneEdge list"

record 'f SwarmResult =
  sr_solution :: "'f TaskTree"
  sr_ranked_trails :: "'f SolutionPath list"
  sr_rounds :: "32 word"
  sr_phase_transitions :: "32 word"
  sr_final_morph_dist :: "nat list"
  sr_final_phi :: 'f
  sr_best_quality :: 'f
  sr_cluster_id :: ClusterId

record 'f ClusterSnapshot =
  cp_cluster_id :: ClusterId
  cp_name :: string
  cp_member_count :: nat
  cp_phi :: 'f
  cp_sustain_count :: "32 word"
  cp_morph_distribution :: "nat list"
  cp_active_edges :: nat
  cp_best_quality :: 'f

record 'f SwarmSnapshot =
  ss_tick :: "32 word"
  ss_phi :: 'f
  ss_morph_distribution :: "nat list"
  ss_active_edges :: nat
  ss_best_quality :: 'f
  ss_agent_states :: "'f AgentState list"
  ss_cluster_count :: nat
  ss_dormant_count :: nat
  ss_cluster_snapshots :: "'f ClusterSnapshot list"

text \<open>The thresholds of an agent, one for each morph.\<close>

type_synonym 'f AgentThresholds = "'f list"

definition default_thresholds :: "'f Float \<Rightarrow> 'f AgentThresholds" where
  "default_thresholds F = replicate morph_count (fl_lit F (1 / 2))"

end
