(* ===== verification/Pheromone.thy ===== *)
theory Pheromone
  imports Swarm_Types
begin

text \<open>
  The pheromone graph of a cluster (\<open>include/celer/necto/swarm/pheromone.hpp\<close>): nodes and edges in vectors, searched from the front.
  A pointer to a found node or edge that is written through changes the first element that matches.
\<close>

record ('f, 'g) PheromoneGraph =
  pg_nodes :: "TaskNode list"
  pg_edges :: "'f PheromoneEdge list"
  pg_rho :: 'f
  pg_Q :: 'f
  pg_alpha :: 'f
  pg_beta :: 'f
  pg_rng :: 'g

definition new_graph :: "('f, 'g) Random \<Rightarrow> 'f \<Rightarrow> 'f \<Rightarrow> 'f \<Rightarrow> 'f \<Rightarrow> 64 word \<Rightarrow> ('f, 'g) PheromoneGraph" where
  "new_graph R rho q alpha beta seed =
     \<lparr>pg_nodes = [], pg_edges = [], pg_rho = rho, pg_Q = q, pg_alpha = alpha, pg_beta = beta, pg_rng = rg_seed R seed\<rparr>"

definition add_node :: "TaskNode \<Rightarrow> ('f, 'g) PheromoneGraph \<Rightarrow> ('f, 'g) PheromoneGraph" where
  "add_node n g = g\<lparr>pg_nodes := pg_nodes g @ [n]\<rparr>"

definition find_node :: "TaskNodeId \<Rightarrow> ('f, 'g) PheromoneGraph \<Rightarrow> TaskNode option" where
  "find_node i g = List.find (\<lambda>n. tn_id n = i) (pg_nodes g)"

fun update_first :: "('x \<Rightarrow> bool) \<Rightarrow> ('x \<Rightarrow> 'x) \<Rightarrow> 'x list \<Rightarrow> 'x list" where
  "update_first p f [] = []"
| "update_first p f (x # xs) = (if p x then f x # xs else x # update_first p f xs)"

abbreviation edge_is :: "TaskNodeId \<Rightarrow> TaskNodeId \<Rightarrow> 'f PheromoneEdge \<Rightarrow> bool" where
  "edge_is a b e \<equiv> pe_from e = a \<and> pe_to e = b"

definition find_edge :: "TaskNodeId \<Rightarrow> TaskNodeId \<Rightarrow> ('f, 'g) PheromoneGraph \<Rightarrow> 'f PheromoneEdge option" where
  "find_edge a b g = List.find (edge_is a b) (pg_edges g)"

definition edges_from :: "TaskNodeId \<Rightarrow> ('f, 'g) PheromoneGraph \<Rightarrow> 'f PheromoneEdge list" where
  "edges_from a g = filter (\<lambda>e. pe_from e = a) (pg_edges g)"

definition ensure_edge :: "'f Float \<Rightarrow> TaskNodeId \<Rightarrow> TaskNodeId \<Rightarrow> ('f, 'g) PheromoneGraph \<Rightarrow> ('f, 'g) PheromoneGraph" where
  "ensure_edge F a b g = (if find_edge a b g = None
     then g\<lparr>pg_edges := pg_edges g @ [\<lparr>pe_from = a, pe_to = b, pe_tau = fl_one F, pe_heuristic_eta = fl_one F, pe_age = 0\<rparr>]\<rparr> else g)"

fun deposit_loop :: "'f Float \<Rightarrow> 'f \<Rightarrow> TaskNodeId list \<Rightarrow> ('f, 'g) PheromoneGraph \<Rightarrow> ('f, 'g) PheromoneGraph" where
  "deposit_loop F delta (a # b # path) g =
     (let g1 = ensure_edge F a b g in
      deposit_loop F delta (b # path)
        (g1\<lparr>pg_edges := update_first (edge_is a b) (\<lambda>e. e\<lparr>pe_tau := fl_add F (pe_tau e) delta, pe_age := 0\<rparr>) (pg_edges g1)\<rparr>))"
| "deposit_loop F delta path g = g"

definition deposit :: "'f Float \<Rightarrow> TaskNodeId list \<Rightarrow> 'f \<Rightarrow> ('f, 'g) PheromoneGraph \<Rightarrow> ('f, 'g) PheromoneGraph" where
  "deposit F path quality g = (if length path < 2 \<or> fl_le F quality (fl_zero F) then g
     else deposit_loop F (fl_div F (pg_Q g) (fl_div F (fl_one F) quality)) path g)"

definition evaporate :: "'f Float \<Rightarrow> ('f, 'g) PheromoneGraph \<Rightarrow> ('f, 'g) PheromoneGraph" where
  "evaporate F g = g\<lparr>pg_edges := map (\<lambda>e. e\<lparr>pe_tau := fl_mul F (pe_tau e) (fl_sub F (fl_one F) (pg_rho g)), pe_age := pe_age e + 1\<rparr>) (pg_edges g)\<rparr>"

subsection \<open>Roulette\<close>

definition edge_weight :: "'f Float \<Rightarrow> ('f, 'g) PheromoneGraph \<Rightarrow> TaskNodeId \<Rightarrow> TaskNodeId \<Rightarrow> 'f" where
  "edge_weight F g a b = (let e = find_edge a b g;
       tau = (case e of Some e \<Rightarrow> pe_tau e | None \<Rightarrow> fl_one F);
       eta = (case e of Some e \<Rightarrow> pe_heuristic_eta e | None \<Rightarrow> fl_one F) in
     fl_mul F (fl_pow F tau (pg_alpha g)) (fl_pow F eta (pg_beta g)))"

fun roulette :: "'f Float \<Rightarrow> 'f \<Rightarrow> 'f \<Rightarrow> 'f list \<Rightarrow> TaskNodeId list \<Rightarrow> TaskNodeId option" where
  "roulette F r cumulative (w # ws) (x # xs) =
     (let c = fl_add F cumulative w in if fl_le F r c then Some x else roulette F r c ws xs)"
| "roulette F r cumulative ws xs = None"

definition select_next :: "'f Float \<Rightarrow> ('f, 'g) Random \<Rightarrow> TaskNodeId \<Rightarrow> TaskNodeId list \<Rightarrow> ('f, 'g) PheromoneGraph \<Rightarrow>
    TaskNodeId option \<times> ('f, 'g) PheromoneGraph" where
  "select_next F R a feasible g =
     (if feasible = [] then (None, g)
      else let weights = map (edge_weight F g a) feasible; sum = foldl (fl_add F) (fl_zero F) weights in
        if fl_le F sum (fl_zero F) then (Some (feasible ! 0), g)
        else case rg_uniform R sum (pg_rng g) of (r, rng) \<Rightarrow>
          (case roulette F r (fl_zero F) weights feasible of
             Some x \<Rightarrow> Some x
           | None \<Rightarrow> Some (last feasible), g\<lparr>pg_rng := rng\<rparr>))"

definition prune :: "'f Float \<Rightarrow> 'f \<Rightarrow> ('f, 'g) PheromoneGraph \<Rightarrow> 32 word \<times> ('f, 'g) PheromoneGraph" where
  "prune F min_tau g = (let kept = filter (\<lambda>e. \<not> fl_less F (pe_tau e) min_tau) (pg_edges g) in
     (word_of_nat (length (pg_edges g) - length kept), g\<lparr>pg_edges := kept\<rparr>))"

definition task_tree :: "('f, 'g) PheromoneGraph \<Rightarrow> 'f TaskTree" where
  "task_tree g = \<lparr>tt_root = (case List.find (\<lambda>n. tn_depth n = 0) (pg_nodes g) of Some n \<Rightarrow> n | None \<Rightarrow> default_task),
                  tt_nodes = pg_nodes g, tt_edges = pg_edges g\<rparr>"

definition count_by_status :: "TaskStatus \<Rightarrow> ('f, 'g) PheromoneGraph \<Rightarrow> nat" where
  "count_by_status st g = length (filter (\<lambda>n. tn_status n = st) (pg_nodes g))"

definition mark_status :: "TaskNodeId \<Rightarrow> TaskStatus \<Rightarrow> ('f, 'g) PheromoneGraph \<Rightarrow> ('f, 'g) PheromoneGraph" where
  "mark_status i st g = g\<lparr>pg_nodes := update_first (\<lambda>n. tn_id n = i) (\<lambda>n. n\<lparr>tn_status := st\<rparr>) (pg_nodes g)\<rparr>"

definition edge_count :: "('f, 'g) PheromoneGraph \<Rightarrow> nat" where
  "edge_count g = length (pg_edges g)"

definition node_count :: "('f, 'g) PheromoneGraph \<Rightarrow> nat" where
  "node_count g = length (pg_nodes g)"

end
