(* ===== verification/Swarm_Field.thy ===== *)
theory Swarm_Field
  imports Swarm_Types
begin

text \<open>
  The alignment field (\<open>include/celer/necto/swarm/field.hpp\<close>). A heading is a vector of the dimension of the field; loops over a vector
  add up in the order of the code. Agents are aligned one after the other, each with the headings as they stand then.
\<close>

record ('f, 'g) SwarmField =
  sf_agents :: "'f AgentState list"
  sf_dim :: "32 word"
  sf_radius :: 'f
  sf_eta :: 'f
  sf_rng :: 'g

subsection \<open>Vectors\<close>

definition dot :: "'f Float \<Rightarrow> 'f list \<Rightarrow> 'f list \<Rightarrow> 'f" where
  "dot F a b = foldl (\<lambda>s i. fl_add F s (fl_mul F (a ! i) (b ! i))) (fl_zero F) [0..<length a]"

definition vnorm :: "'f Float \<Rightarrow> 'f list \<Rightarrow> 'f" where
  "vnorm F v = fl_sqrt F (dot F v v)"

definition tiny :: "'f Float \<Rightarrow> 'f" where "tiny F = fl_lit F (1 / 10 ^ 12)"

definition normalize :: "'f Float \<Rightarrow> 'f list \<Rightarrow> 'f list" where
  "normalize F v = (let n = vnorm F v in if fl_less F (tiny F) n then map (\<lambda>x. fl_div F x n) v else v)"

definition cosine_distance :: "'f Float \<Rightarrow> 'f list \<Rightarrow> 'f list \<Rightarrow> 'f" where
  "cosine_distance F a b = (let d = dot F a b; na = vnorm F a; nb = vnorm F b in
     if fl_less F na (tiny F) \<or> fl_less F nb (tiny F) then fl_one F else fl_sub F (fl_one F) (fl_div F d (fl_mul F na nb)))"

definition sample_gaussian_vector :: "('f, 'g) Random \<Rightarrow> 'f \<Rightarrow> ('f, 'g) SwarmField \<Rightarrow> 'f list \<times> ('f, 'g) SwarmField" where
  "sample_gaussian_vector R scale f = (case rg_normal R scale (unat (sf_dim f)) (sf_rng f) of (v, rng) \<Rightarrow> (v, f\<lparr>sf_rng := rng\<rparr>))"

definition random_unit_vector :: "'f Float \<Rightarrow> ('f, 'g) Random \<Rightarrow> ('f, 'g) SwarmField \<Rightarrow> 'f list \<times> ('f, 'g) SwarmField" where
  "random_unit_vector F R f = (case sample_gaussian_vector R (fl_one F) f of (v, f') \<Rightarrow> (normalize F v, f'))"

definition add_vectors :: "'f Float \<Rightarrow> 'f list \<Rightarrow> 'f list \<Rightarrow> 'f list" where
  "add_vectors F a b = map (\<lambda>i. fl_add F (a ! i) (b ! i)) [0..<length a]"

definition zero_vector :: "'f Float \<Rightarrow> 32 word \<Rightarrow> 'f list" where
  "zero_vector F d = replicate (unat d) (fl_zero F)"

text \<open>\<open>for (d < dim_) sum[d] += heading[d]\<close>.\<close>

definition add_heading :: "'f Float \<Rightarrow> ('f, 'g) SwarmField \<Rightarrow> 'f list \<Rightarrow> 'f list \<Rightarrow> 'f list" where
  "add_heading F f acc heading = map (\<lambda>d. fl_add F (acc ! d) (heading ! d)) [0..<unat (sf_dim f)]"

subsection \<open>Agents of a field\<close>

definition field_population :: "('f, 'g) SwarmField \<Rightarrow> nat" where
  "field_population f = length (sf_agents f)"

definition agent_at :: "('f, 'g) SwarmField \<Rightarrow> nat \<Rightarrow> 'f AgentState" where
  "agent_at f i = sf_agents f ! i"

definition set_agent :: "nat \<Rightarrow> 'f AgentState \<Rightarrow> ('f, 'g) SwarmField \<Rightarrow> ('f, 'g) SwarmField" where
  "set_agent i a f = f\<lparr>sf_agents := (sf_agents f)[i := a]\<rparr>"

fun init_agents :: "'f Float \<Rightarrow> ('f, 'g) Random \<Rightarrow> nat list \<Rightarrow> ('f, 'g) SwarmField \<Rightarrow> ('f, 'g) SwarmField" where
  "init_agents F R [] f = f"
| "init_agents F R (i # is) f = (case random_unit_vector F R f of (v, f') \<Rightarrow>
     init_agents F R is (set_agent i ((agent_at f' i)\<lparr>ag_heading := v, ag_agent_id := word_of_nat i, ag_lifecycle := Dormant\<rparr>) f'))"

definition new_field :: "'f Float \<Rightarrow> ('f, 'g) Random \<Rightarrow> 32 word \<Rightarrow> 32 word \<Rightarrow> 'f \<Rightarrow> 'f \<Rightarrow> 64 word \<Rightarrow> ('f, 'g) SwarmField" where
  "new_field F R pop d radius eta seed = init_agents F R [0..<unat pop]
     \<lparr>sf_agents = replicate (unat pop) (default_agent F), sf_dim = d, sf_radius = radius, sf_eta = eta, sf_rng = rg_seed R seed\<rparr>"

text \<open>The check with which every loop over the members of a cluster begins.\<close>

definition skipped :: "('f, 'g) SwarmField \<Rightarrow> ActorRef \<Rightarrow> bool" where
  "skipped f ref \<longleftrightarrow> unat ref \<ge> field_population f \<or> ag_lifecycle (agent_at f (unat ref)) = Dormant"

subsection \<open>Alignment and order\<close>

definition gather :: "'f Float \<Rightarrow> ('f, 'g) SwarmField \<Rightarrow> 'f list \<Rightarrow> 'f list \<times> nat \<Rightarrow> ActorRef \<Rightarrow> 'f list \<times> nat" where
  "gather F f heading acc nref = (if skipped f nref then acc
     else let h = ag_heading (agent_at f (unat nref)) in
       if fl_less F (cosine_distance F heading h) (sf_radius f) then (add_heading F f (fst acc) h, snd acc + 1) else acc)"

definition set_heading :: "nat \<Rightarrow> 'f list \<Rightarrow> ('f, 'g) SwarmField \<Rightarrow> ('f, 'g) SwarmField" where
  "set_heading i v f = set_agent i ((agent_at f i)\<lparr>ag_heading := v\<rparr>) f"

definition align_agent :: "'f Float \<Rightarrow> ('f, 'g) Random \<Rightarrow> ActorRef list \<Rightarrow> ('f, 'g) SwarmField \<Rightarrow> ActorRef \<Rightarrow> ('f, 'g) SwarmField" where
  "align_agent F R members f ref = (if skipped f ref then f
     else case foldl (gather F f (ag_heading (agent_at f (unat ref)))) (zero_vector F (sf_dim f), 0) members of (weighted_sum, count) \<Rightarrow>
       if count > 0 then (case sample_gaussian_vector R (sf_eta f) f of (noise, f') \<Rightarrow>
         set_heading (unat ref) (normalize F (add_vectors F weighted_sum noise)) f')
       else f)"

definition align_cluster :: "'f Float \<Rightarrow> ('f, 'g) Random \<Rightarrow> 'f ClusterState \<Rightarrow> ('f, 'g) SwarmField \<Rightarrow> ('f, 'g) SwarmField" where
  "align_cluster F R c f = foldl (align_agent F R (cl_members c)) f (cl_members c)"

definition mean_heading :: "'f Float \<Rightarrow> ('f, 'g) SwarmField \<Rightarrow> 'f AgentState list \<Rightarrow> 'f" where
  "mean_heading F f active = (if active = [] then fl_zero F
     else fl_div F (vnorm F (foldl (\<lambda>sum a. add_heading F f sum (ag_heading a)) (zero_vector F (sf_dim f)) active)) (fl_of_nat F (length active)))"

definition order_parameter_cluster :: "'f Float \<Rightarrow> ('f, 'g) SwarmField \<Rightarrow> 'f ClusterState \<Rightarrow> 'f" where
  "order_parameter_cluster F f c = mean_heading F f (map (\<lambda>ref. agent_at f (unat ref)) (filter (\<lambda>ref. \<not> skipped f ref) (cl_members c)))"

definition order_parameter_global :: "'f Float \<Rightarrow> ('f, 'g) SwarmField \<Rightarrow> 'f" where
  "order_parameter_global F f = mean_heading F f (filter (\<lambda>a. ag_lifecycle a \<noteq> Dormant) (sf_agents f))"

definition disturb_agent :: "'f Float \<Rightarrow> ('f, 'g) Random \<Rightarrow> 'f \<Rightarrow> ('f, 'g) SwarmField \<Rightarrow> ActorRef \<Rightarrow> ('f, 'g) SwarmField" where
  "disturb_agent F R burst f ref = (if skipped f ref then f
     else case sample_gaussian_vector R burst f of (noise, f') \<Rightarrow>
       set_heading (unat ref) (normalize F (add_vectors F (ag_heading (agent_at f' (unat ref))) noise)) f')"

definition inject_noise_cluster :: "'f Float \<Rightarrow> ('f, 'g) Random \<Rightarrow> 'f ClusterState \<Rightarrow> 'f \<Rightarrow> ('f, 'g) SwarmField \<Rightarrow> ('f, 'g) SwarmField" where
  "inject_noise_cluster F R c burst f = foldl (disturb_agent F R burst) f (cl_members c)"

definition randomize_heading :: "'f Float \<Rightarrow> ('f, 'g) Random \<Rightarrow> ('f, 'g) SwarmField \<Rightarrow> ActorRef \<Rightarrow> ('f, 'g) SwarmField" where
  "randomize_heading F R f ref = (if unat ref < field_population f
     then case random_unit_vector F R f of (v, f') \<Rightarrow> set_heading (unat ref) v f' else f)"

definition randomize_headings :: "'f Float \<Rightarrow> ('f, 'g) Random \<Rightarrow> ActorRef list \<Rightarrow> ('f, 'g) SwarmField \<Rightarrow> ('f, 'g) SwarmField" where
  "randomize_headings F R refs f = foldl (randomize_heading F R) f refs"

definition set_eta :: "'f \<Rightarrow> ('f, 'g) SwarmField \<Rightarrow> ('f, 'g) SwarmField" where
  "set_eta e f = f\<lparr>sf_eta := e\<rparr>"

end
