(* ===== verification/Morph_Scheduler.thy ===== *)
theory Morph_Scheduler
  imports Pheromone Swarm_Field
begin

text \<open>The assignment of morphs to agents by response thresholds (\<open>include/celer/necto/swarm/morph.hpp\<close>).\<close>

record 'f MorphScheduler =
  ms_assignments :: "Morph list"
  ms_thresholds :: "'f AgentThresholds list"
  ms_steepness :: 'f

fun base_thresholds :: "'f MorphConfig list \<Rightarrow> nat list \<Rightarrow> 'f AgentThresholds \<Rightarrow> 'f AgentThresholds" where
  "base_thresholds configs [] t = t"
| "base_thresholds configs (c # cs) t =
     (if c < length configs then base_thresholds configs cs (t[c := mo_base_threshold (configs ! c)]) else t)"

definition new_morph_scheduler :: "'f Float \<Rightarrow> 32 word \<Rightarrow> 'f MorphConfig list \<Rightarrow> 'f \<Rightarrow> 'f MorphScheduler" where
  "new_morph_scheduler F pop configs steepness =
     \<lparr>ms_assignments = replicate (unat pop) Explorer,
      ms_thresholds = map (base_thresholds configs [0..<morph_count]) (replicate (unat pop) (default_thresholds F)),
      ms_steepness = steepness\<rparr>"

definition compute_stimulus :: "'f Float \<Rightarrow> Morph \<Rightarrow> ('f, 'g) PheromoneGraph \<Rightarrow> 'f \<Rightarrow> 'f" where
  "compute_stimulus F m g cluster_phi =
     (let tot = node_count g in
      if tot = 0 then fl_lit F (1 / 2)
      else case m of
        Explorer \<Rightarrow> fl_div F (fl_of_nat F (count_by_status Unexplored g)) (fl_of_nat F tot)
      | Worker \<Rightarrow> fl_div F (fl_of_nat F (count_by_status InProgress g)) (fl_of_nat F tot)
      | Evaluator \<Rightarrow> (let completed = count_by_status Completed g in
          if completed = 0 then fl_lit F (2 / 10) else fl_div F (fl_of_nat F completed) (fl_of_nat F tot))
      | SwarmCoordinator \<Rightarrow> fl_sub F (fl_one F) cluster_phi)"

definition response_prob :: "'f Float \<Rightarrow> 'f \<Rightarrow> 'f \<Rightarrow> 'f \<Rightarrow> 'f" where
  "response_prob F stimulus threshold steepness =
     (if fl_le F threshold (fl_zero F) then fl_one F
      else let sn = fl_pow F stimulus steepness; tn = fl_pow F threshold steepness in fl_div F sn (fl_add F sn tn))"

text \<open>The morph with the highest response, the first of several; \<open>probs\<close> are the responses from morph \<open>c\<close> on.\<close>

fun best_response :: "'f Float \<Rightarrow> 'f list \<Rightarrow> nat \<Rightarrow> 'f \<Rightarrow> Morph \<Rightarrow> Morph" where
  "best_response F [] c best_prob best_morph = best_morph"
| "best_response F (p # probs) c best_prob best_morph =
     (if fl_less F best_prob p then best_response F probs (c + 1) p (morph_of_number c)
      else best_response F probs (c + 1) best_prob best_morph)"

definition choose_morph :: "'f Float \<Rightarrow> 'f list \<Rightarrow> 'f AgentThresholds \<Rightarrow> 'f \<Rightarrow> Morph" where
  "choose_morph F stimuli thresholds steepness =
     best_response F (map (\<lambda>c. response_prob F (stimuli ! c) (thresholds ! c) steepness) [0..<morph_count]) 0 (fl_lit F (- 1)) Explorer"

definition assign_morph :: "'f Float \<Rightarrow> ('f, 'g) SwarmField \<Rightarrow> 'f list \<Rightarrow> 'f MorphScheduler \<Rightarrow> ActorRef \<Rightarrow> 'f MorphScheduler" where
  "assign_morph F f stimuli s ref = (let i = unat ref in
     if i \<ge> length (ms_assignments s) then s
     else if ag_lifecycle (agent_at f i) = Dormant then s
     else s\<lparr>ms_assignments := (ms_assignments s)[i := choose_morph F stimuli (ms_thresholds s ! i) (ms_steepness s)]\<rparr>)"

definition evaluate_cluster :: "'f Float \<Rightarrow> ('f, 'g) SwarmField \<Rightarrow> ('f, 'g) PheromoneGraph \<Rightarrow> 'f ClusterState \<Rightarrow> 'f MorphScheduler \<Rightarrow> 'f MorphScheduler" where
  "evaluate_cluster F f g cluster s = (let phi = order_parameter_cluster F f cluster;
       stimuli = map (\<lambda>c. compute_stimulus F (morph_of_number c) g phi) [0..<morph_count] in
     foldl (assign_morph F f stimuli) s (cl_members cluster))"

text \<open>How many agents have each morph.\<close>

definition tally :: "nat list \<Rightarrow> Morph \<Rightarrow> nat list" where
  "tally counts m = counts[morph_number m := counts ! morph_number m + 1]"

definition distribution :: "'f MorphScheduler \<Rightarrow> nat list" where
  "distribution s = foldl tally (replicate morph_count 0) (ms_assignments s)"

definition distribution_cluster :: "'f MorphScheduler \<Rightarrow> 'f ClusterState \<Rightarrow> nat list" where
  "distribution_cluster s c = foldl (\<lambda>counts ref. if unat ref < length (ms_assignments s) then tally counts (ms_assignments s ! unat ref) else counts)
     (replicate morph_count 0) (cl_members c)"

definition morph_of :: "'f MorphScheduler \<Rightarrow> 32 word \<Rightarrow> Morph" where
  "morph_of s i = (if unat i \<ge> length (ms_assignments s) then Explorer else ms_assignments s ! unat i)"

definition morph_population :: "'f MorphScheduler \<Rightarrow> nat" where
  "morph_population s = length (ms_assignments s)"

end
