(* ===== verification/Cluster_Service.thy ===== *)
theory Cluster_Service
  imports Pheromone Swarm_Field
begin

text \<open>
  Clusters of agents (\<open>include/celer/necto/swarm/cluster.hpp\<close>). An operation that takes a cluster by reference takes its value and returns
  the new one, with the actor system and the field that it changes too. An agent whose number is outside the field when it is
  recruited is undefined behaviour, \<open>None\<close>. \<open>merge\<close> and \<open>transfer\<close> are for two different clusters; a cluster merged into itself changes
  a vector that is being iterated.
\<close>

record ('f, 'g) ClusterService =
  cs_clusters :: "'f ClusterState list"
  cs_graphs :: "('f, 'g) PheromoneGraph list"
  cs_cluster_names :: "string list"
  cs_names :: FlatSymbolTable
  cs_names_dirty :: bool
  cs_next_id :: "32 word"

definition new_service :: "('f, 'g) ClusterService" where
  "new_service = \<lparr>cs_clusters = [], cs_graphs = [], cs_cluster_names = [], cs_names = empty_table, cs_names_dirty = True, cs_next_id = 0\<rparr>"

definition rebuild_cluster_names :: "(string \<Rightarrow> 64 word) \<Rightarrow> ('f, 'g) ClusterService \<Rightarrow> ('f, 'g) ClusterService" where
  "rebuild_cluster_names hash s = (if \<not> cs_names_dirty s then s
     else s\<lparr>cs_names := build hash (cs_cluster_names s) [0..<length (cs_cluster_names s)], cs_names_dirty := False\<rparr>)"

text \<open>\<open>create_cluster\<close> returns a reference to the last cluster.\<close>

definition create_cluster :: "'f Float \<Rightarrow> ('f, 'g) Random \<Rightarrow> string \<Rightarrow> TaskNode \<Rightarrow> 'f \<Rightarrow> 'f \<Rightarrow> 'f \<Rightarrow> 'f \<Rightarrow> 64 word \<Rightarrow> ('f, 'g) ClusterService \<Rightarrow>
    ('f, 'g) ClusterService" where
  "create_cluster F R nm root_task rho q alpha beta seed s =
     (let cs = \<lparr>cl_id = cs_next_id s, cl_name = nm, cl_members = [], cl_root_task = tn_id root_task, cl_scope_prefix = ''clusters/'' @ nm,
                cl_phi = fl_zero F, cl_sustain_count = 0, cl_active = True\<rparr>;
          graph = add_node root_task (new_graph R rho q alpha beta seed) in
      s\<lparr>cs_next_id := cs_next_id s + 1, cs_clusters := cs_clusters s @ [cs], cs_graphs := cs_graphs s @ [graph],
        cs_cluster_names := cs_cluster_names s @ [nm], cs_names_dirty := True\<rparr>)"

subsection \<open>Members\<close>

type_synonym ('a, 'f, 'g) roster = "'a ActorSystem \<times> ('f, 'g) SwarmField \<times> 'f ClusterState"

definition place_agent :: "nat \<Rightarrow> AgentLifecycle \<Rightarrow> ClusterId \<Rightarrow> ('f, 'g) SwarmField \<Rightarrow> ('f, 'g) SwarmField" where
  "place_agent i lc cid f = set_agent i ((agent_at f i)\<lparr>ag_lifecycle := lc, ag_cluster := cid\<rparr>) f"

definition recruit_one :: "'f Float \<Rightarrow> ('f, 'g) Random \<Rightarrow> ActorRef \<Rightarrow> ('a, 'f, 'g) roster \<Rightarrow> ('a, 'f, 'g) roster" where
  "recruit_one F R ref r = (case r of (sys, f, cluster) \<Rightarrow>
     (set_cluster ref (cl_id cluster) (set_lifecycle ref Active sys),
      randomize_headings F R [ref] (place_agent (unat ref) Active (cl_id cluster) f),
      cluster\<lparr>cl_members := cl_members cluster @ [ref]\<rparr>))"

fun recruit_loop :: "'f Float \<Rightarrow> ('f, 'g) Random \<Rightarrow> nat \<Rightarrow> 'f AgentState list \<Rightarrow> ActorRef list \<Rightarrow> ('a, 'f, 'g) roster \<Rightarrow>
    (ActorRef list \<times> ('a, 'f, 'g) roster) option" where
  "recruit_loop F R count [] recruited r = Some (recruited, r)"
| "recruit_loop F R count (a # as) recruited r =
     (if length recruited \<ge> count then Some (recruited, r)
      else if ag_lifecycle a \<noteq> Dormant then recruit_loop F R count as recruited r
      else let ref = ag_agent_id a in
        if unat ref \<ge> field_population (fst (snd r)) then None
        else recruit_loop F R count as (recruited @ [ref]) (recruit_one F R ref r))"

definition recruit :: "'f Float \<Rightarrow> ('f, 'g) Random \<Rightarrow> 'f AgentState list \<Rightarrow> 32 word \<Rightarrow> ('a, 'f, 'g) roster \<Rightarrow>
    (ActorRef list \<times> ('a, 'f, 'g) roster) option" where
  "recruit F R agents count r = recruit_loop F R (unat count) agents [] r"

text \<open>\<open>std::sort\<close> with the comparison as its argument: some permutation, sorted by it.\<close>

type_synonym 'f agent_sort = "('f AgentState \<Rightarrow> 'f AgentState \<Rightarrow> bool) \<Rightarrow> 'f AgentState list \<Rightarrow> 'f AgentState list"

definition recruit_by_quality :: "'f Float \<Rightarrow> ('f, 'g) Random \<Rightarrow> 'f agent_sort \<Rightarrow> 'f AgentState list \<Rightarrow> 32 word \<Rightarrow> ('a, 'f, 'g) roster \<Rightarrow>
    (ActorRef list \<times> ('a, 'f, 'g) roster) option" where
  "recruit_by_quality F R sorter agents count r =
     recruit F R (sorter (\<lambda>a b. fl_less F (ag_quality b) (ag_quality a)) agents) count r"

definition dismiss_one :: "('a, 'f, 'g) roster \<Rightarrow> ActorRef \<Rightarrow> ('a, 'f, 'g) roster" where
  "dismiss_one r ref = (case r of (sys, f, cluster) \<Rightarrow>
     (channel_drain ref (set_cluster ref invalid_ref (set_lifecycle ref Dormant sys)),
      if unat ref < field_population f then place_agent (unat ref) Dormant invalid_ref f else f,
      cluster\<lparr>cl_members := filter (\<lambda>m. m \<noteq> ref) (cl_members cluster)\<rparr>))"

definition dismiss :: "ActorRef list \<Rightarrow> ('a, 'f, 'g) roster \<Rightarrow> ('a, 'f, 'g) roster" where
  "dismiss refs r = foldl dismiss_one r refs"

definition dismiss_all :: "('a, 'f, 'g) roster \<Rightarrow> ('a, 'f, 'g) roster" where
  "dismiss_all r = dismiss (cl_members (snd (snd r))) r"

definition dissolve :: "('a, 'f, 'g) roster \<Rightarrow> ('a, 'f, 'g) roster" where
  "dissolve r = (case dismiss_all r of (sys, f, cluster) \<Rightarrow> (sys, f, cluster\<lparr>cl_active := False\<rparr>))"

text \<open>The field's note of an agent's cluster, when there is such an agent.\<close>

definition note_cluster :: "ActorRef \<Rightarrow> ClusterId \<Rightarrow> ('f, 'g) SwarmField \<Rightarrow> ('f, 'g) SwarmField" where
  "note_cluster ref cid f = (if unat ref < field_population f then set_agent (unat ref) ((agent_at f (unat ref))\<lparr>ag_cluster := cid\<rparr>) f else f)"

definition merge_one :: "ClusterId \<Rightarrow> 'a ActorSystem \<times> ('f, 'g) SwarmField \<times> ActorRef list \<Rightarrow> ActorRef \<Rightarrow>
    'a ActorSystem \<times> ('f, 'g) SwarmField \<times> ActorRef list" where
  "merge_one cid r ref = (case r of (sys, f, members) \<Rightarrow> (set_cluster ref cid sys, note_cluster ref cid f, members @ [ref]))"

definition merge :: "'a ActorSystem \<Rightarrow> ('f, 'g) SwarmField \<Rightarrow> 'f ClusterState \<Rightarrow> 'f ClusterState \<Rightarrow>
    'a ActorSystem \<times> ('f, 'g) SwarmField \<times> 'f ClusterState \<times> 'f ClusterState" where
  "merge sys f source target =
     (case foldl (merge_one (cl_id target)) (sys, f, cl_members target) (cl_members source) of (sys', f', members) \<Rightarrow>
        (sys', f', source\<lparr>cl_members := [], cl_active := False\<rparr>, target\<lparr>cl_members := members\<rparr>))"

definition transfer_one :: "'a ActorSystem \<times> ('f, 'g) SwarmField \<times> 'f ClusterState \<times> 'f ClusterState \<Rightarrow> ActorRef \<Rightarrow>
    'a ActorSystem \<times> ('f, 'g) SwarmField \<times> 'f ClusterState \<times> 'f ClusterState" where
  "transfer_one r ref = (case r of (sys, f, source, target) \<Rightarrow>
     (channel_drain ref (set_cluster ref (cl_id target) sys), note_cluster ref (cl_id target) f,
      source\<lparr>cl_members := filter (\<lambda>m. m \<noteq> ref) (cl_members source)\<rparr>, target\<lparr>cl_members := cl_members target @ [ref]\<rparr>))"

definition transfer :: "ActorRef list \<Rightarrow> 'a ActorSystem \<Rightarrow> ('f, 'g) SwarmField \<Rightarrow> 'f ClusterState \<Rightarrow> 'f ClusterState \<Rightarrow>
    'a ActorSystem \<times> ('f, 'g) SwarmField \<times> 'f ClusterState \<times> 'f ClusterState" where
  "transfer refs sys f source target = foldl transfer_one (sys, f, source, target) refs"

subsection \<open>Queries\<close>

definition dormant_count :: "'f AgentState list \<Rightarrow> nat" where
  "dormant_count agents = length (filter (\<lambda>a. ag_lifecycle a = Dormant) agents)"

text \<open>A pointer to a cluster is its index.\<close>

definition active_clusters :: "('f, 'g) ClusterService \<Rightarrow> nat list" where
  "active_clusters s = filter (\<lambda>i. cl_active (cs_clusters s ! i)) [0..<length (cs_clusters s)]"

definition resolve_cluster :: "(string \<Rightarrow> 64 word) \<Rightarrow> string \<Rightarrow> ('f, 'g) ClusterService \<Rightarrow> nat option \<times> ('f, 'g) ClusterService" where
  "resolve_cluster hash nm s = (let s' = rebuild_cluster_names hash s in
     case table_find hash (cs_names s') nm of
       None \<Rightarrow> (None, s')
     | Some idx \<Rightarrow> (if idx \<ge> length (cs_clusters s') then None else Some idx, s'))"

definition graph_for :: "'f ClusterState \<Rightarrow> ('f, 'g) ClusterService \<Rightarrow> nat option" where
  "graph_for cluster s = (let idx = unat (cl_id cluster) in if idx \<ge> length (cs_graphs s) then None else Some idx)"

definition cluster_count :: "('f, 'g) ClusterService \<Rightarrow> nat" where
  "cluster_count s = length (cs_clusters s)"

end
