(* ===== verification/Swarm.thy ===== *)
theory Swarm
  imports Morph_Scheduler Cluster_Service
begin

text \<open>
  The swarm (\<open>include/celer/necto/swarm/swarm.hpp\<close>). The swarm owns the field, the morphs, the clusters with their graphs; the actor
  system is used through a pointer that may be null. A cluster passed by reference is taken and returned by value; \<open>tick_all_clusters\<close>
  writes it back to its place in the service. Reactions of actors reach the actor system only.
\<close>

record ('a, 'f, 'g) Swarm =
  sw_cfg :: "'f SwarmConfig"
  sw_field :: "('f, 'g) SwarmField"
  sw_scheduler :: "'f MorphScheduler"
  sw_clusters :: "('f, 'g) ClusterService"
  sw_system :: "'a ActorSystem option"
  sw_tick_count :: "32 word"
  sw_phase_transitions :: "32 word"

definition default_seed :: "64 word" where "default_seed = 42"

definition new_swarm :: "'f Float \<Rightarrow> ('f, 'g) Random \<Rightarrow> 'f SwarmConfig \<Rightarrow> 'a ActorSystem \<Rightarrow> ('a, 'f, 'g) Swarm" where
  "new_swarm F R cfg system =
     \<lparr>sw_cfg = cfg, sw_field = new_field F R (cf_population cfg) (cf_strategy_dim cfg) (cf_alignment_radius cfg) (cf_noise_eta cfg) default_seed,
      sw_scheduler = new_morph_scheduler F (cf_population cfg) (cf_morphs cfg) (fl_lit F 2), sw_clusters = new_service,
      sw_system = Some system, sw_tick_count = 0, sw_phase_transitions = 0\<rparr>"

type_synonym ('a, 'f, 'g) swarm_cluster = "'f ClusterState \<times> ('a, 'f, 'g) Swarm"

subsection \<open>One cluster\<close>

definition set_graph :: "nat \<Rightarrow> ('f, 'g) PheromoneGraph \<Rightarrow> ('f, 'g) ClusterService \<Rightarrow> ('f, 'g) ClusterService" where
  "set_graph i g s = s\<lparr>cs_graphs := (cs_graphs s)[i := g]\<rparr>"

definition tick_members :: "('f, 'g) SwarmField \<Rightarrow> ActorRef list \<Rightarrow> 'a ActorSystem \<Rightarrow> 'a ActorSystem" where
  "tick_members f members sys = foldl (\<lambda>s ref. if skipped f ref then s else snd (tick ref s)) sys members"

definition tick_cluster :: "'f Float \<Rightarrow> ('f, 'g) Random \<Rightarrow> ('a, 'f, 'g) swarm_cluster \<Rightarrow> ('a, 'f, 'g) swarm_cluster" where
  "tick_cluster F R cs = (case cs of (cluster, sw) \<Rightarrow>
     if \<not> cl_active cluster then cs
     else case sw_system sw of
       None \<Rightarrow> cs
     | Some system \<Rightarrow> (case graph_for cluster (sw_clusters sw) of
         None \<Rightarrow> cs
       | Some gi \<Rightarrow> (let f = sw_field sw; graph = cs_graphs (sw_clusters sw) ! gi;
             scheduler = evaluate_cluster F f graph cluster (sw_scheduler sw);
             system' = tick_members f (cl_members cluster) system;
             f' = align_cluster F R cluster f in
           (cluster\<lparr>cl_phi := order_parameter_cluster F f' cluster\<rparr>,
            sw\<lparr>sw_scheduler := scheduler, sw_system := Some system', sw_clusters := set_graph gi (evaporate F graph) (sw_clusters sw),
               sw_field := f'\<rparr>))))"

definition cluster_qualities :: "('f, 'g) SwarmField \<Rightarrow> 'f ClusterState \<Rightarrow> 'f list" where
  "cluster_qualities f cluster = map (\<lambda>ref. ag_quality (agent_at f (unat ref))) (filter (\<lambda>ref. unat ref < field_population f) (cl_members cluster))"

definition mean_quality_cluster :: "'f Float \<Rightarrow> ('f, 'g) SwarmField \<Rightarrow> 'f ClusterState \<Rightarrow> 'f" where
  "mean_quality_cluster F f cluster = (if cl_members cluster = [] then fl_zero F
     else fl_div F (foldl (fl_add F) (fl_zero F) (cluster_qualities f cluster)) (fl_of_nat F (length (cl_members cluster))))"

definition best_quality_cluster :: "'f Float \<Rightarrow> ('f, 'g) SwarmField \<Rightarrow> 'f ClusterState \<Rightarrow> 'f" where
  "best_quality_cluster F f cluster = foldl (fl_max F) (fl_zero F) (cluster_qualities f cluster)"

text \<open>Whether the cluster is aligned, and whether its mean quality is more than premature.\<close>

definition aligned :: "'f Float \<Rightarrow> ('a, 'f, 'g) swarm_cluster \<Rightarrow> bool" where
  "aligned F cs = (case cs of (cluster, sw) \<Rightarrow> fl_less F (cf_convergence_phi (sw_cfg sw)) (cl_phi cluster))"

definition mature :: "'f Float \<Rightarrow> ('a, 'f, 'g) swarm_cluster \<Rightarrow> bool" where
  "mature F cs = (case cs of (cluster, sw) \<Rightarrow> fl_less F (cf_premature_quality (sw_cfg sw)) (mean_quality_cluster F (sw_field sw) cluster))"

definition premature :: "'f Float \<Rightarrow> ('a, 'f, 'g) swarm_cluster \<Rightarrow> bool" where
  "premature F cs = (case cs of (cluster, sw) \<Rightarrow> fl_le F (mean_quality_cluster F (sw_field sw) cluster) (cf_premature_quality (sw_cfg sw)))"

definition noise_burst :: "'f Float \<Rightarrow> ('f, 'g) Random \<Rightarrow> ('a, 'f, 'g) swarm_cluster \<Rightarrow> ('a, 'f, 'g) swarm_cluster" where
  "noise_burst F R cs = (case cs of (cluster, sw) \<Rightarrow>
     (cluster\<lparr>cl_sustain_count := 0\<rparr>, sw\<lparr>sw_field := inject_noise_cluster F R cluster (cf_noise_burst (sw_cfg sw)) (sw_field sw)\<rparr>))"

definition set_sustain :: "32 word \<Rightarrow> ('a, 'f, 'g) swarm_cluster \<Rightarrow> ('a, 'f, 'g) swarm_cluster" where
  "set_sustain n cs = (case cs of (cluster, sw) \<Rightarrow> (cluster\<lparr>cl_sustain_count := n\<rparr>, sw))"

definition check_convergence :: "'f Float \<Rightarrow> ('f, 'g) Random \<Rightarrow> ('a, 'f, 'g) swarm_cluster \<Rightarrow> ('a, 'f, 'g) swarm_cluster" where
  "check_convergence F R cs =
     (if aligned F cs \<and> premature F cs then noise_burst F R cs
      else if aligned F cs \<and> mature F cs then set_sustain (cl_sustain_count (fst cs) + 1) cs
      else set_sustain 0 cs)"

subsection \<open>All clusters\<close>

definition cluster_tick :: "'f Float \<Rightarrow> ('f, 'g) Random \<Rightarrow> nat \<Rightarrow> ('a, 'f, 'g) Swarm \<Rightarrow> ('a, 'f, 'g) Swarm" where
  "cluster_tick F R i sw = (case check_convergence F R (tick_cluster F R (cs_clusters (sw_clusters sw) ! i, sw)) of (cluster, sw') \<Rightarrow>
     sw'\<lparr>sw_clusters := (sw_clusters sw')\<lparr>cs_clusters := (cs_clusters (sw_clusters sw'))[i := cluster]\<rparr>\<rparr>)"

definition tick_all_clusters :: "'f Float \<Rightarrow> ('f, 'g) Random \<Rightarrow> ('a, 'f, 'g) Swarm \<Rightarrow> ('a, 'f, 'g) Swarm" where
  "tick_all_clusters F R sw = (let sw' = fold (cluster_tick F R) (active_clusters (sw_clusters sw)) sw in
     sw'\<lparr>sw_tick_count := sw_tick_count sw' + 1\<rparr>)"

subsection \<open>To convergence\<close>

definition build_result :: "'f Float \<Rightarrow> ('a, 'f, 'g) swarm_cluster \<Rightarrow> 32 word \<Rightarrow> 32 word \<Rightarrow> 'f SwarmResult" where
  "build_result F cs rounds transitions = (case cs of (cluster, sw) \<Rightarrow>
     \<lparr>sr_solution = (case graph_for cluster (sw_clusters sw) of
         Some gi \<Rightarrow> task_tree (cs_graphs (sw_clusters sw) ! gi)
       | None \<Rightarrow> \<lparr>tt_root = default_task, tt_nodes = [], tt_edges = []\<rparr>),
      sr_ranked_trails = [], sr_rounds = rounds, sr_phase_transitions = transitions,
      sr_final_morph_dist = distribution_cluster (sw_scheduler sw) cluster, sr_final_phi = cl_phi cluster,
      sr_best_quality = best_quality_cluster F (sw_field sw) cluster, sr_cluster_id = cl_id cluster\<rparr>)"

text \<open>The rounds that are left, the number of this round.\<close>

fun run_rounds :: "'f Float \<Rightarrow> ('f, 'g) Random \<Rightarrow> nat \<Rightarrow> 32 word \<Rightarrow> bool \<Rightarrow> 32 word \<Rightarrow> ('a, 'f, 'g) swarm_cluster \<Rightarrow>
    'f SwarmResult \<times> ('a, 'f, 'g) swarm_cluster" where
  "run_rounds F R 0 k prev_above transitions cs = (build_result F cs (cf_max_rounds (sw_cfg (snd cs))) transitions, cs)"
| "run_rounds F R (Suc n) k prev_above transitions cs =
     (let cs1 = tick_cluster F R cs; above = aligned F cs1 in
      if above \<and> mature F cs1 then
        let cs2 = set_sustain (cl_sustain_count (fst cs1) + 1) cs1 in
        if cl_sustain_count (fst cs2) \<ge> cf_sustain_window (sw_cfg (snd cs2)) then (build_result F cs2 k transitions, cs2)
        else run_rounds F R n (k + 1) above transitions cs2
      else if above \<and> premature F cs1 then run_rounds F R n (k + 1) above transitions (noise_burst F R cs1)
      else run_rounds F R n (k + 1) above (if prev_above then transitions + 1 else transitions) (set_sustain 0 cs1))"

definition run_cluster_to_convergence :: "'f Float \<Rightarrow> ('f, 'g) Random \<Rightarrow> ('a, 'f, 'g) swarm_cluster \<Rightarrow> 'f SwarmResult \<times> ('a, 'f, 'g) swarm_cluster" where
  "run_cluster_to_convergence F R cs = run_rounds F R (unat (cf_max_rounds (sw_cfg (snd cs)))) 0 False 0 cs"

subsection \<open>Snapshots\<close>

definition cluster_snapshot :: "'f Float \<Rightarrow> ('a, 'f, 'g) Swarm \<Rightarrow> 'f ClusterState \<Rightarrow> 'f ClusterSnapshot" where
  "cluster_snapshot F sw c =
     \<lparr>cp_cluster_id = cl_id c, cp_name = cl_name c, cp_member_count = length (cl_members c), cp_phi = cl_phi c,
      cp_sustain_count = cl_sustain_count c, cp_morph_distribution = distribution_cluster (sw_scheduler sw) c,
      cp_active_edges = (case graph_for c (sw_clusters sw) of Some gi \<Rightarrow> edge_count (cs_graphs (sw_clusters sw) ! gi) | None \<Rightarrow> 0),
      cp_best_quality = best_quality_cluster F (sw_field sw) c\<rparr>"

definition snapshot :: "'f Float \<Rightarrow> ('a, 'f, 'g) Swarm \<Rightarrow> 'f SwarmSnapshot" where
  "snapshot F sw = (let active = active_clusters (sw_clusters sw);
       clusters = map (\<lambda>i. cluster_snapshot F sw (cs_clusters (sw_clusters sw) ! i)) active in
     \<lparr>ss_tick = sw_tick_count sw, ss_phi = order_parameter_global F (sw_field sw),
      ss_morph_distribution = distribution (sw_scheduler sw), ss_active_edges = sum_list (map cp_active_edges clusters),
      ss_best_quality = foldl (fl_max F) (fl_zero F) (map cp_best_quality clusters),
      ss_agent_states = sf_agents (sw_field sw), ss_cluster_count = length active,
      ss_dormant_count = dormant_count (sf_agents (sw_field sw)), ss_cluster_snapshots = clusters\<rparr>)"

end
