(* ===== verification/Swarm_Laws.thy ===== *)
theory Swarm_Laws
  imports Swarm
begin

text \<open>
  Laws of the swarm: which cluster an agent belongs to, by the field and by the member lists; the rounds of a run to convergence; what a
  deposit adds to the edges.
\<close>

subsection \<open>Where an agent belongs\<close>

text \<open>The cluster that the field notes for an active agent.\<close>

definition tags :: "('f, 'g) SwarmField \<Rightarrow> ActorRef \<Rightarrow> ClusterId option" where
  "tags f r = (if unat r < field_population f \<and> ag_lifecycle (agent_at f (unat r)) = Active then Some (ag_cluster (agent_at f (unat r))) else None)"

definition holds_members :: "ClusterId \<Rightarrow> (ActorRef \<Rightarrow> ClusterId option) \<Rightarrow> ActorRef list \<Rightarrow> bool" where
  "holds_members c t ms \<longleftrightarrow> distinct ms \<and> set ms = {r. t r = Some c}"

lemma set_agent_fields [simp]:
  "field_population (set_agent i a f) = field_population f" "sf_dim (set_agent i a f) = sf_dim f"
  "j < field_population f \<Longrightarrow> agent_at (set_agent i a f) j = (if i = j then a else agent_at f j)"
  by (simp_all add: set_agent_def field_population_def agent_at_def nth_list_update)

lemma unat_same [simp]: "unat (r :: 'l::len word) = unat x \<longleftrightarrow> r = x"
  by (simp add: word_unat_eq_iff)

lemma tags_set_agent:
  "unat r < field_population f \<Longrightarrow> tags (set_agent (unat r) a f) = (tags f)(r := if ag_lifecycle a = Active then Some (ag_cluster a) else None)"
  by (auto simp: tags_def fun_eq_iff split: if_splits)

lemma tags_rng [simp]: "tags (f\<lparr>sf_rng := g\<rparr>) = tags f"
  by (simp add: tags_def fun_eq_iff field_population_def agent_at_def)

lemma tags_set_heading [simp]: "unat r < field_population f \<Longrightarrow> tags (set_heading (unat r) v f) = tags f"
  by (auto simp: set_heading_def tags_set_agent fun_eq_iff tags_def)

lemma population_rng [simp]: "field_population (f\<lparr>sf_rng := g\<rparr>) = field_population f"
  by (simp add: field_population_def)

lemma population_heading [simp]: "field_population (set_heading i v f) = field_population f"
  by (simp add: set_heading_def)

lemma sample_keeps:
  assumes "sample_gaussian_vector R s f = (v, f')" shows "tags f' = tags f \<and> field_population f' = field_population f"
  using assms by (auto simp: sample_gaussian_vector_def split: prod.splits)

lemma random_unit_keeps:
  assumes "random_unit_vector F R f = (v, f')" shows "tags f' = tags f \<and> field_population f' = field_population f"
  using assms sample_keeps by (fastforce simp: random_unit_vector_def split: prod.splits)

lemma heading_changes_keep:
  "tags (randomize_heading F R f r) = tags f \<and> field_population (randomize_heading F R f r) = field_population f"
  "tags (align_agent F R ms f r) = tags f \<and> field_population (align_agent F R ms f r) = field_population f"
  "tags (disturb_agent F R b f r) = tags f \<and> field_population (disturb_agent F R b f r) = field_population f"
  using random_unit_keeps sample_keeps
  by (fastforce simp: randomize_heading_def align_agent_def disturb_agent_def skipped_def split: prod.splits)+

lemma align_keeps_tags: "tags (align_cluster F R c f) = tags f"
proof -
  have "tags (foldl (align_agent F R ms) f rs) = tags f" for ms rs
    by (induction rs arbitrary: f) (simp_all add: heading_changes_keep)
  then show ?thesis by (simp add: align_cluster_def)
qed

lemma noise_keeps_tags: "tags (inject_noise_cluster F R c b f) = tags f"
proof -
  have "tags (foldl (disturb_agent F R b) f rs) = tags f" for rs
    by (induction rs arbitrary: f) (simp_all add: heading_changes_keep)
  then show ?thesis by (simp add: inject_noise_cluster_def)
qed

subsection \<open>Recruiting, dismissing, moving\<close>

lemma place_agent_keeps:
  "unat r < field_population f \<Longrightarrow> tags (place_agent (unat r) lc c f) = (tags f)(r := if lc = Active then Some c else None)"
  "field_population (place_agent i lc c f) = field_population f"
  by (simp_all add: place_agent_def tags_set_agent)

lemma recruit_one_keeps:
  assumes "unat r < field_population f" "recruit_one F R r (sys, f, c) = (sys', f', c')"
  shows "tags f' = (tags f)(r := Some (cl_id c)) \<and> field_population f' = field_population f \<and> c' = c\<lparr>cl_members := cl_members c @ [r]\<rparr>"
  using assms by (auto simp: recruit_one_def randomize_headings_def heading_changes_keep place_agent_keeps)

text \<open>What the caller promises: the agents it offers are listed once, as the field has them.\<close>

definition offered :: "('f, 'g) SwarmField \<Rightarrow> 'f AgentState list \<Rightarrow> bool" where
  "offered f as \<longleftrightarrow> distinct (map ag_agent_id as) \<and> (\<forall>a \<in> set as. ag_lifecycle a = Dormant \<longrightarrow> tags f (ag_agent_id a) = None)"

lemma recruit_loop_law:
  assumes "recruit_loop F R n as rs (sys, f, c) = Some (rs', sys', f', c')" "offered f as" "holds_members (cl_id c) (tags f) (cl_members c)"
  shows "holds_members (cl_id c) (tags f') (cl_members c') \<and> cl_id c' = cl_id c \<and>
    (\<forall>r. tags f' r \<noteq> tags f r \<longrightarrow> tags f r = None \<and> tags f' r = Some (cl_id c))"
  using assms
proof (induction as arbitrary: rs sys f c)
  case (Cons a as)
  let ?r = "ag_agent_id a"
  show ?case
  proof (cases "length rs \<ge> n \<or> ag_lifecycle a \<noteq> Dormant")
    case True
    then show ?thesis using Cons by (auto simp: offered_def split: if_splits)
  next
    case False
    obtain sys1 f1 c1 where one: "recruit_one F R ?r (sys, f, c) = (sys1, f1, c1)" by (cases "recruit_one F R ?r (sys, f, c)")
    have r: "unat ?r < field_population f" using Cons.prems(1) False by (auto simp: Let_def split: if_splits)
    note k = recruit_one_keeps [OF r one]
    have free: "tags f ?r = None" using Cons.prems(2) False by (simp add: offered_def)
    have "?r \<notin> ag_agent_id ` set as" using Cons.prems(2) by (simp add: offered_def)
    then have "ag_agent_id b \<noteq> ?r" if "b \<in> set as" for b using that by (metis imageI)
    then have "offered f1 as" using Cons.prems(2) k by (simp add: offered_def)
    moreover have "holds_members (cl_id c1) (tags f1) (cl_members c1)"
      using Cons.prems(3) k free by (auto simp: holds_members_def)
    moreover have "recruit_loop F R n as (rs @ [?r]) (sys1, f1, c1) = Some (rs', sys', f', c')"
      using Cons.prems(1) False r one by (simp add: Let_def)
    ultimately have ih: "holds_members (cl_id c1) (tags f') (cl_members c') \<and> cl_id c' = cl_id c1 \<and>
      (\<forall>r. tags f' r \<noteq> tags f1 r \<longrightarrow> tags f1 r = None \<and> tags f' r = Some (cl_id c1))" using Cons.IH by blast
    have c1: "cl_id c1 = cl_id c" using k by simp
    have "tags f' r = tags f r \<or> tags f r = None \<and> tags f' r = Some (cl_id c)" for r
      using ih k free c1 by (cases "r = ?r") (auto split: if_splits)
    then show ?thesis using ih c1 by metis
  qed
qed (simp add: offered_def)

lemma dismiss_law:
  assumes "dismiss rs (sys, f, c) = (sys', f', c')" "holds_members (cl_id c) (tags f) (cl_members c)"
    "\<forall>r \<in> set rs. tags f r = Some (cl_id c) \<or> tags f r = None"
  shows "holds_members (cl_id c) (tags f') (cl_members c') \<and> cl_id c' = cl_id c \<and>
    (\<forall>r. tags f' r = (if r \<in> set rs then None else tags f r))"
  using assms
proof (induction rs arbitrary: sys f c)
  case (Cons x rs)
  obtain sys1 f1 c1 where one: "dismiss_one (sys, f, c) x = (sys1, f1, c1)" by (cases "dismiss_one (sys, f, c) x")
  have t1: "tags f1 = (tags f)(x := None)"
  proof (cases "unat x < field_population f")
    case True
    then show ?thesis using one by (auto simp: dismiss_one_def place_agent_keeps)
  next
    case False
    then show ?thesis using one by (auto simp: dismiss_one_def tags_def fun_eq_iff)
  qed
  have c1: "c1 = c\<lparr>cl_members := filter (\<lambda>m. m \<noteq> x) (cl_members c)\<rparr>" using one by (auto simp: dismiss_one_def)
  have "holds_members (cl_id c1) (tags f1) (cl_members c1)" using Cons.prems(2) by (auto simp: holds_members_def t1 c1)
  moreover have "dismiss rs (sys1, f1, c1) = (sys', f', c')" using Cons.prems(1) one by (simp add: dismiss_def)
  moreover have "\<forall>r \<in> set rs. tags f1 r = Some (cl_id c1) \<or> tags f1 r = None" using Cons.prems(3) by (simp add: t1 c1)
  ultimately have "holds_members (cl_id c1) (tags f') (cl_members c') \<and> cl_id c' = cl_id c1 \<and>
    (\<forall>r. tags f' r = (if r \<in> set rs then None else tags f1 r))" using Cons.IH by blast
  moreover have "cl_id c1 = cl_id c" by (simp add: c1)
  ultimately have h: "holds_members (cl_id c) (tags f') (cl_members c')" "cl_id c' = cl_id c" and
    r: "tags f' r = (if r \<in> set rs then None else tags f1 r)" for r
    by metis+
  have "tags f' r = (if r \<in> set (x # rs) then None else tags f r)" for r unfolding r t1 by simp
  then show ?case using h by blast
qed (auto simp: dismiss_def)

lemma note_cluster_tags: "tags f r = Some c0 \<Longrightarrow> tags (note_cluster r c f) = (tags f)(r := Some c)"
  by (auto simp: note_cluster_def tags_def fun_eq_iff split: if_splits)

lemma merge_fold:
  assumes "foldl (merge_one c) (sys, f, ms) rs = (sys', f', ms')" "\<forall>r \<in> set rs. \<exists>c0. tags f r = Some c0"
  shows "ms' = ms @ rs \<and> (\<forall>r. tags f' r = (if r \<in> set rs then Some c else tags f r))"
  using assms
proof (induction rs arbitrary: sys f ms)
  case (Cons x rs)
  have t: "tags (note_cluster x c f) = (tags f)(x := Some c)" using Cons.prems(2) note_cluster_tags by fastforce
  have "foldl (merge_one c) (set_cluster x c sys, note_cluster x c f, ms @ [x]) rs = (sys', f', ms')"
    using Cons.prems(1) by (simp add: merge_one_def [of c "(sys, f, ms)"])
  then have "ms' = (ms @ [x]) @ rs \<and> (\<forall>r. tags f' r = (if r \<in> set rs then Some c else tags (note_cluster x c f) r))"
    by (rule Cons.IH) (use Cons.prems(2) t in auto)
  then show ?case by (auto simp: t)
qed simp

lemma merge_law:
  assumes "merge sys f src tgt = (sys', f', src', tgt')" "cl_id src \<noteq> cl_id tgt"
    "holds_members (cl_id src) (tags f) (cl_members src)" "holds_members (cl_id tgt) (tags f) (cl_members tgt)"
  shows "holds_members (cl_id src) (tags f') (cl_members src') \<and> holds_members (cl_id tgt) (tags f') (cl_members tgt') \<and>
    cl_id src' = cl_id src \<and> cl_id tgt' = cl_id tgt \<and>
    (\<forall>r. tags f' r \<noteq> tags f r \<longrightarrow> tags f r = Some (cl_id src) \<and> tags f' r = Some (cl_id tgt))"
proof -
  obtain s1 f1 ms where fold: "foldl (merge_one (cl_id tgt)) (sys, f, cl_members tgt) (cl_members src) = (s1, f1, ms)"
    by (cases "foldl (merge_one (cl_id tgt)) (sys, f, cl_members tgt) (cl_members src)")
  have "ms = cl_members tgt @ cl_members src \<and> (\<forall>r. tags f1 r = (if r \<in> set (cl_members src) then Some (cl_id tgt) else tags f r))"
    by (rule merge_fold [OF fold]) (use assms(3) in \<open>auto simp: holds_members_def\<close>)
  moreover have "f' = f1" "src' = src\<lparr>cl_members := [], cl_active := False\<rparr>" "tgt' = tgt\<lparr>cl_members := ms\<rparr>"
    using assms(1) fold by (auto simp: merge_def)
  ultimately show ?thesis using assms(2-4) by (auto simp: holds_members_def split: if_splits)
qed

lemma transfer_law:
  assumes "transfer rs sys f src tgt = (sys', f', src', tgt')" "cl_id src \<noteq> cl_id tgt"
    "holds_members (cl_id src) (tags f) (cl_members src)" "holds_members (cl_id tgt) (tags f) (cl_members tgt)"
    "distinct rs" "set rs \<subseteq> set (cl_members src)"
  shows "holds_members (cl_id src) (tags f') (cl_members src') \<and> holds_members (cl_id tgt) (tags f') (cl_members tgt') \<and>
    cl_id src' = cl_id src \<and> cl_id tgt' = cl_id tgt \<and>
    (\<forall>r. tags f' r \<noteq> tags f r \<longrightarrow> tags f r = Some (cl_id src) \<and> tags f' r = Some (cl_id tgt))"
  using assms
proof (induction rs arbitrary: sys f src tgt)
  case (Cons x rs)
  let ?f = "note_cluster x (cl_id tgt) f" and ?src = "src\<lparr>cl_members := filter (\<lambda>m. m \<noteq> x) (cl_members src)\<rparr>"
    and ?tgt = "tgt\<lparr>cl_members := cl_members tgt @ [x]\<rparr>"
  have x: "tags f x = Some (cl_id src)" using Cons.prems(3,6) by (auto simp: holds_members_def)
  have t: "tags ?f = (tags f)(x := Some (cl_id tgt))" by (rule note_cluster_tags [OF x])
  have "transfer rs (channel_drain x (set_cluster x (cl_id tgt) sys)) ?f ?src ?tgt = (sys', f', src', tgt')"
    using Cons.prems(1) by (simp add: transfer_def transfer_one_def)
  then have "holds_members (cl_id ?src) (tags f') (cl_members src') \<and> holds_members (cl_id ?tgt) (tags f') (cl_members tgt') \<and>
    cl_id src' = cl_id ?src \<and> cl_id tgt' = cl_id ?tgt \<and>
    (\<forall>r. tags f' r \<noteq> tags ?f r \<longrightarrow> tags ?f r = Some (cl_id ?src) \<and> tags f' r = Some (cl_id ?tgt))"
    by (rule Cons.IH) (use Cons.prems(2-6) x t in \<open>auto simp: holds_members_def\<close>)
  then show ?case using x t Cons.prems(2) by (auto split: if_splits)
qed (simp add: transfer_def)

subsection \<open>All clusters of a service\<close>

type_synonym ('a, 'f, 'g) colony = "'a ActorSystem \<times> ('f, 'g) SwarmField \<times> ('f, 'g) ClusterService"

definition put_cluster :: "nat \<Rightarrow> 'f ClusterState \<Rightarrow> ('f, 'g) ClusterService \<Rightarrow> ('f, 'g) ClusterService" where
  "put_cluster i c s = s\<lparr>cs_clusters := (cs_clusters s)[i := c]\<rparr>"

abbreviation cluster_at :: "('f, 'g) ClusterService \<Rightarrow> nat \<Rightarrow> 'f ClusterState" where
  "cluster_at s i \<equiv> cs_clusters s ! i"

text \<open>
  What callers do with clusters: they create them, recruit offered agents, dismiss and transfer members, merge different clusters,
  dissolve them, align them and disturb them.
\<close>

inductive colony_step :: "'f Float \<Rightarrow> ('f, 'g) Random \<Rightarrow> ('a, 'f, 'g) colony \<Rightarrow> ('a, 'f, 'g) colony \<Rightarrow> bool" for F R where
  col_create: "cluster_count s < 2 ^ 32 - 1 \<Longrightarrow> colony_step F R (sys, f, s) (sys, f, create_cluster F R nm rt rho q alpha beta seed s)"
| col_recruit: "\<lbrakk>i < cluster_count s; offered f agents; recruit F R agents n (sys, f, cluster_at s i) = Some (rs, sys', f', c)\<rbrakk>
    \<Longrightarrow> colony_step F R (sys, f, s) (sys', f', put_cluster i c s)"
| col_dismiss: "\<lbrakk>i < cluster_count s; set rs \<subseteq> set (cl_members (cluster_at s i)); dismiss rs (sys, f, cluster_at s i) = (sys', f', c)\<rbrakk>
    \<Longrightarrow> colony_step F R (sys, f, s) (sys', f', put_cluster i c s)"
| col_dissolve: "\<lbrakk>i < cluster_count s; dissolve (sys, f, cluster_at s i) = (sys', f', c)\<rbrakk> \<Longrightarrow> colony_step F R (sys, f, s) (sys', f', put_cluster i c s)"
| col_merge: "\<lbrakk>i < cluster_count s; j < cluster_count s; i \<noteq> j; merge sys f (cluster_at s i) (cluster_at s j) = (sys', f', c, d)\<rbrakk>
    \<Longrightarrow> colony_step F R (sys, f, s) (sys', f', put_cluster j d (put_cluster i c s))"
| col_transfer: "\<lbrakk>i < cluster_count s; j < cluster_count s; i \<noteq> j; distinct rs; set rs \<subseteq> set (cl_members (cluster_at s i));
     transfer rs sys f (cluster_at s i) (cluster_at s j) = (sys', f', c, d)\<rbrakk>
    \<Longrightarrow> colony_step F R (sys, f, s) (sys', f', put_cluster j d (put_cluster i c s))"
| col_align: "colony_step F R (sys, f, s) (sys, align_cluster F R c f, s)"
| col_disturb: "colony_step F R (sys, f, s) (sys, inject_noise_cluster F R c b f, s)"

inductive colony_reach :: "'f Float \<Rightarrow> ('f, 'g) Random \<Rightarrow> ('a, 'f, 'g) colony \<Rightarrow> bool" for F R where
  col_start: "colony_reach F R (sys, new_field F R pop d radius eta seed, new_service)"
| col_next: "\<lbrakk>colony_reach F R x; colony_step F R x y\<rbrakk> \<Longrightarrow> colony_reach F R y"

text \<open>Every cluster has the agents that the field notes for it, each once, and the field notes no other cluster.\<close>

definition colony_ok :: "('f, 'g) SwarmField \<Rightarrow> ('f, 'g) ClusterService \<Rightarrow> bool" where
  "colony_ok f s \<longleftrightarrow> cluster_count s < 2 ^ 32 \<and> length (cs_graphs s) = cluster_count s \<and> cs_next_id s = word_of_nat (cluster_count s) \<and>
     (\<forall>i < cluster_count s. cl_id (cluster_at s i) = word_of_nat i \<and>
        holds_members (word_of_nat i) (tags f) (cl_members (cluster_at s i))) \<and>
     (\<forall>r c. tags f r = Some c \<longrightarrow> (\<exists>i < cluster_count s. c = word_of_nat i))"

lemma put_cluster_fields [simp]:
  "cluster_count (put_cluster i c s) = cluster_count s" "cs_graphs (put_cluster i c s) = cs_graphs s"
  "cs_next_id (put_cluster i c s) = cs_next_id s"
  "j < cluster_count s \<Longrightarrow> cluster_at (put_cluster i c s) j = (if i = j then c else cluster_at s j)"
  by (simp_all add: put_cluster_def cluster_count_def nth_list_update)

lemma small_word_inj:
  assumes "i < n" "j < n" "n < 2 ^ 32" shows "(word_of_nat i :: 32 word) = word_of_nat j \<longleftrightarrow> i = j"
proof
  assume "(word_of_nat i :: 32 word) = word_of_nat j"
  then have "unat (word_of_nat i :: 32 word) = unat (word_of_nat j :: 32 word)" by simp
  then show "i = j" using assms by (simp add: unat_of_nat take_bit_nat_eq_self)
qed simp

text \<open>A step that moves agents between the clusters in \<open>I\<close> and the pool.\<close>

lemma colony_change:
  assumes ok: "colony_ok f s" and s': "cluster_count s' = cluster_count s" "cs_graphs s' = cs_graphs s" "cs_next_id s' = cs_next_id s"
    and others: "\<And>j. \<lbrakk>j < cluster_count s; j \<notin> I\<rbrakk> \<Longrightarrow> cluster_at s' j = cluster_at s j"
    and changed: "\<And>j. \<lbrakk>j < cluster_count s; j \<in> I\<rbrakk> \<Longrightarrow> cl_id (cluster_at s' j) = word_of_nat j \<and>
                    holds_members (word_of_nat j) (tags f') (cl_members (cluster_at s' j))"
    and moves: "\<And>r. tags f' r \<noteq> tags f r \<Longrightarrow> (tags f r = None \<or> (\<exists>j \<in> I. tags f r = Some (word_of_nat j))) \<and>
                    (tags f' r = None \<or> (\<exists>j \<in> I. tags f' r = Some (word_of_nat j)))"
    and I: "\<And>j. j \<in> I \<Longrightarrow> j < cluster_count s"
  shows "colony_ok f' s'"
proof -
  have n: "cluster_count s < 2 ^ 32" using ok by (simp add: colony_ok_def)
  have "holds_members (word_of_nat j) (tags f') (cl_members (cluster_at s' j)) \<and> cl_id (cluster_at s' j) = word_of_nat j"
    if j: "j < cluster_count s" for j
  proof (cases "j \<in> I")
    case True
    then show ?thesis using changed j by blast
  next
    case False
    have ne: "(word_of_nat k :: 32 word) \<noteq> word_of_nat j" if "k \<in> I" for k
      using small_word_inj [OF I [OF that] j n] that False by blast
    have "tags f' r = Some (word_of_nat j) \<longleftrightarrow> tags f r = Some (word_of_nat j)" for r
    proof (cases "tags f' r = tags f r")
      case False
      then show ?thesis using moves [OF False] ne by (metis option.distinct(1) option.inject)
    qed simp
    then show ?thesis using ok j others [OF j False] by (simp add: colony_ok_def holds_members_def)
  qed
  moreover have "\<exists>i < cluster_count s. c = word_of_nat i" if c: "tags f' r = Some c" for r c
  proof (cases "tags f' r = tags f r")
    case True
    then show ?thesis using ok c by (simp add: colony_ok_def)
  next
    case False
    then show ?thesis using moves [OF False] I c by force
  qed
  ultimately show ?thesis using ok s' by (simp add: colony_ok_def)
qed

lemma colony_one:
  assumes ok: "colony_ok f s" and i: "i < cluster_count s"
    and c: "holds_members (cl_id (cluster_at s i)) (tags f') (cl_members c)" "cl_id c = cl_id (cluster_at s i)"
    and moves: "\<And>r. tags f' r \<noteq> tags f r \<Longrightarrow> (tags f r = None \<or> tags f r = Some (cl_id (cluster_at s i))) \<and>
                    (tags f' r = None \<or> tags f' r = Some (cl_id (cluster_at s i)))"
  shows "colony_ok f' (put_cluster i c s)"
  by (rule colony_change [OF ok, where I = "{i}"]) (use ok i c moves in \<open>auto simp: colony_ok_def\<close>)

lemma colony_two:
  assumes ok: "colony_ok f s" and ij: "i < cluster_count s" "j < cluster_count s" "i \<noteq> j"
    and c: "holds_members (cl_id (cluster_at s i)) (tags f') (cl_members c)" "cl_id c = cl_id (cluster_at s i)"
    and d: "holds_members (cl_id (cluster_at s j)) (tags f') (cl_members d)" "cl_id d = cl_id (cluster_at s j)"
    and moves: "\<And>r. tags f' r \<noteq> tags f r \<Longrightarrow> tags f r = Some (cl_id (cluster_at s i)) \<and> tags f' r = Some (cl_id (cluster_at s j))"
  shows "colony_ok f' (put_cluster j d (put_cluster i c s))"
  by (rule colony_change [OF ok, where I = "{i, j}"]) (use ok ij c d moves in \<open>auto simp: colony_ok_def\<close>)

lemma init_agents_tags: "(\<forall>r. tags f r \<noteq> None \<longrightarrow> unat r \<in> set is) \<Longrightarrow> tags (init_agents F R is f) = (\<lambda>r. None)"
proof (induction "is" arbitrary: f)
  case Nil
  then show ?case by auto
next
  case (Cons i "is")
  obtain v f1 where v: "random_unit_vector F R f = (v, f1)" by (cases "random_unit_vector F R f")
  note k = random_unit_keeps [OF v]
  let ?a = "(agent_at f1 i)\<lparr>ag_heading := v, ag_agent_id := word_of_nat i, ag_lifecycle := Dormant\<rparr>"
  have "unat r \<in> set is" if "tags (set_agent i ?a f1) r \<noteq> None" for r
  proof -
    have "unat r \<noteq> i" "tags f1 r \<noteq> None"
      using that by (auto simp: tags_def split: if_splits)
    then show ?thesis using Cons.prems k by force
  qed
  then show ?case using Cons.IH [of "set_agent i ?a f1"] by (simp add: v)
qed

lemma new_field_tags: "tags (new_field F R pop d radius eta seed) = (\<lambda>r. None)"
  unfolding new_field_def by (rule init_agents_tags) (auto simp: tags_def field_population_def split: if_splits)

lemma create_ok:
  assumes ok: "colony_ok f s" and n: "cluster_count s < 2 ^ 32 - 1"
  shows "colony_ok f (create_cluster F R nm rt rho q alpha beta seed s)"
proof -
  let ?s = "create_cluster F R nm rt rho q alpha beta seed s" and ?n = "cluster_count s"
  have cnt: "cluster_count ?s = Suc ?n" by (simp add: create_cluster_def Let_def cluster_count_def)
  have none: "tags f r \<noteq> Some (word_of_nat ?n)" for r
    using ok small_word_inj [of _ "Suc ?n" ?n] n unfolding colony_ok_def by (metis less_SucI less_irrefl lessI less_diff_conv add.commute plus_1_eq_Suc)
  have old: "cluster_at ?s i = cluster_at s i" if "i < ?n" for i
    using that by (simp add: create_cluster_def Let_def cluster_count_def nth_append)
  have new: "cl_id (cluster_at ?s ?n) = word_of_nat ?n" "cl_members (cluster_at ?s ?n) = []"
    using ok by (simp_all add: create_cluster_def Let_def cluster_count_def colony_ok_def)
  have "cl_id (cluster_at ?s i) = word_of_nat i \<and> holds_members (word_of_nat i) (tags f) (cl_members (cluster_at ?s i))"
    if "i < Suc ?n" for i
    using that ok old new none by (cases "i = ?n") (auto simp: colony_ok_def holds_members_def)
  moreover have "\<exists>i < Suc ?n. c = word_of_nat i" if "tags f r = Some c" for r c
    using ok that less_SucI unfolding colony_ok_def by blast
  moreover have "cs_next_id ?s = word_of_nat (Suc ?n)" "length (cs_graphs ?s) = Suc ?n"
    using ok by (simp_all add: create_cluster_def Let_def colony_ok_def)
  ultimately show ?thesis using n by (simp add: colony_ok_def cnt)
qed

lemma colony_step_ok:
  assumes "colony_step F R (sys, f, s) (sys', f', s')" "colony_ok f s"
  shows "colony_ok f' s'"
proof -
  have held: "holds_members (cl_id (cluster_at s i)) (tags f) (cl_members (cluster_at s i))" "cl_id (cluster_at s i) = word_of_nat i"
    if "i < cluster_count s" for i using assms(2) that by (simp_all add: colony_ok_def)
  have apart: "cl_id (cluster_at s i) \<noteq> cl_id (cluster_at s j)" if "i < cluster_count s" "j < cluster_count s" "i \<noteq> j" for i j
    using small_word_inj [OF that(1,2)] assms(2) that held(2) by (simp add: colony_ok_def)
  show ?thesis
    using assms(1)
  proof (cases rule: colony_step.cases)
    case (col_create nm rt rho q alpha beta seed)
    then show ?thesis using create_ok [OF assms(2)] by simp
  next
    case (col_recruit i agents n rs c)
    note r = recruit_loop_law [OF col_recruit(4) [unfolded recruit_def] col_recruit(3) held(1) [OF col_recruit(2)]]
    show ?thesis unfolding col_recruit(1) by (rule colony_one [OF assms(2) col_recruit(2)]) (use r in auto)
  next
    case (col_dismiss i rs c)
    have "\<forall>r \<in> set rs. tags f r = Some (cl_id (cluster_at s i)) \<or> tags f r = None"
      using held(1) [OF col_dismiss(2)] col_dismiss(3) by (auto simp: holds_members_def)
    note d = dismiss_law [OF col_dismiss(4) held(1) [OF col_dismiss(2)] this]
    show ?thesis unfolding col_dismiss(1)
      by (rule colony_one [OF assms(2) col_dismiss(2)])
        (use d held(1) [OF col_dismiss(2)] col_dismiss(3) in \<open>auto simp: holds_members_def split: if_splits\<close>)
  next
    case (col_dissolve i c)
    let ?c = "cluster_at s i"
    obtain c0 where all: "dismiss (cl_members ?c) (sys, f, ?c) = (sys', f', c0)" and c: "c = c0\<lparr>cl_active := False\<rparr>"
      using col_dissolve(3) by (auto simp: dissolve_def dismiss_all_def split: prod.splits)
    have "\<forall>r \<in> set (cl_members ?c). tags f r = Some (cl_id ?c) \<or> tags f r = None"
      using held(1) [OF col_dissolve(2)] by (auto simp: holds_members_def)
    note d = dismiss_law [OF all held(1) [OF col_dissolve(2)] this]
    show ?thesis unfolding col_dissolve(1) c
      by (rule colony_one [OF assms(2) col_dissolve(2)])
        (use d held(1) [OF col_dissolve(2)] in \<open>auto simp: holds_members_def split: if_splits\<close>)
  next
    case (col_merge i j c d)
    note m = merge_law [OF col_merge(5) apart [OF col_merge(2-4)] held(1) [OF col_merge(2)] held(1) [OF col_merge(3)]]
    show ?thesis unfolding col_merge(1) by (rule colony_two [OF assms(2) col_merge(2-4)]) (use m in auto)
  next
    case (col_transfer i j rs c d)
    note m = transfer_law [OF col_transfer(7) apart [OF col_transfer(2-4)] held(1) [OF col_transfer(2)] held(1) [OF col_transfer(3)]
      col_transfer(5,6)]
    show ?thesis unfolding col_transfer(1) by (rule colony_two [OF assms(2) col_transfer(2-4)]) (use m in auto)
  next
    case (col_align c)
    then show ?thesis using assms(2) by (simp add: colony_ok_def align_keeps_tags)
  next
    case (col_disturb c b)
    then show ?thesis using assms(2) by (simp add: colony_ok_def noise_keeps_tags)
  qed
qed

lemma colony_reach_ok:
  assumes "colony_reach F R x" shows "colony_ok (fst (snd x)) (snd (snd x))"
  using assms
proof (induction rule: colony_reach.induct)
  case (col_start sys pop d radius eta seed)
  show ?case by (simp add: colony_ok_def new_field_tags new_service_def cluster_count_def)
next
  case (col_next x y)
  then show ?case using colony_step_ok by (cases x; cases y) auto
qed

text \<open>
  A run to convergence as the sequence of its rounds, with the streak of good rounds that the counter of the cluster stands for; and
  what a deposit does to the edges of a pheromone graph.
\<close>

subsection \<open>Rounds\<close>

definition good_round :: "'f Float \<Rightarrow> ('f, 'g) Random \<Rightarrow> ('a, 'f, 'g) swarm_cluster \<Rightarrow> bool" where
  "good_round F R cs = (let cs1 = tick_cluster F R cs in aligned F cs1 \<and> mature F cs1)"

text \<open>A round as \<open>run_cluster_to_convergence\<close> plays it.\<close>

definition play_round :: "'f Float \<Rightarrow> ('f, 'g) Random \<Rightarrow> ('a, 'f, 'g) swarm_cluster \<Rightarrow> ('a, 'f, 'g) swarm_cluster" where
  "play_round F R cs = (let cs1 = tick_cluster F R cs in
     if aligned F cs1 \<and> mature F cs1 then set_sustain (cl_sustain_count (fst cs1) + 1) cs1
     else if aligned F cs1 \<and> premature F cs1 then noise_burst F R cs1
     else set_sustain 0 cs1)"

lemma tick_cluster_keeps:
  "cl_sustain_count (fst (tick_cluster F R cs)) = cl_sustain_count (fst cs)" "sw_cfg (snd (tick_cluster F R cs)) = sw_cfg (snd cs)"
  by (cases cs; simp add: tick_cluster_def Let_def split: option.splits)+

lemma step_fields [simp]:
  "cl_sustain_count (fst (set_sustain n cs)) = n" "sw_cfg (snd (set_sustain n cs)) = sw_cfg (snd cs)"
  "cl_sustain_count (fst (noise_burst F R cs)) = 0" "sw_cfg (snd (noise_burst F R cs)) = sw_cfg (snd cs)"
  by (cases cs; simp add: set_sustain_def noise_burst_def)+

lemma play_round_cfg [simp]: "sw_cfg (snd (play_round F R cs)) = sw_cfg (snd cs)"
  by (simp add: play_round_def Let_def tick_cluster_keeps)

lemma play_round_sustain:
  "cl_sustain_count (fst (play_round F R cs)) = (if good_round F R cs then cl_sustain_count (fst cs) + 1 else 0)"
  by (simp add: play_round_def good_round_def Let_def tick_cluster_keeps)

lemma run_rounds_Suc:
  "\<exists>t' a'. run_rounds F R (Suc n) k pa t cs =
     (if good_round F R cs \<and> cf_sustain_window (sw_cfg (snd cs)) \<le> cl_sustain_count (fst (play_round F R cs))
      then (build_result F (play_round F R cs) k t, play_round F R cs)
      else run_rounds F R n (k + 1) a' t' (play_round F R cs))"
proof -
  let ?c = "tick_cluster F R cs"
  have w: "cf_sustain_window (sw_cfg (snd (set_sustain n ?c))) = cf_sustain_window (sw_cfg (snd cs))" for n
    by (simp add: tick_cluster_keeps)
  consider "aligned F ?c" "mature F ?c" | "aligned F ?c" "\<not> mature F ?c" "premature F ?c"
    | "\<not> aligned F ?c \<or> \<not> mature F ?c \<and> \<not> premature F ?c" by blast
  then show ?thesis
  proof cases
    case 1
    then show ?thesis
      by (intro exI [of _ t] exI [of _ True])
        (simp only: run_rounds.simps play_round_def good_round_def Let_def w if_True simp_thms)
  next
    case 2
    then show ?thesis
      by (intro exI [of _ t] exI [of _ True])
        (simp only: run_rounds.simps play_round_def good_round_def Let_def if_True if_False simp_thms)
  next
    case 3
    then show ?thesis
      by (intro exI [of _ "if pa then t + 1 else t"] exI [of _ "aligned F ?c"]) (auto simp: play_round_def good_round_def Let_def)
  qed
qed

lemma build_result_rounds [simp]: "sr_rounds (build_result F cs k t) = k"
  by (cases cs) (simp add: build_result_def)

lemma run_rounds_result:
  assumes "run_rounds F R n (word_of_nat k) pa t ((play_round F R ^^ k) cs) = (r, cs')"
  shows "(\<exists>m. k \<le> m \<and> m < k + n \<and> sr_rounds r = word_of_nat m \<and> cs' = (play_round F R ^^ Suc m) cs \<and>
      good_round F R ((play_round F R ^^ m) cs) \<and> cf_sustain_window (sw_cfg (snd cs)) \<le> cl_sustain_count (fst cs')) \<or>
    sr_rounds r = cf_max_rounds (sw_cfg (snd cs)) \<and> cs' = (play_round F R ^^ (k + n)) cs"
  using assms
proof (induction n arbitrary: k pa t)
  case 0
  have "sw_cfg (snd ((play_round F R ^^ j) cs)) = sw_cfg (snd cs)" for j by (induction j) simp_all
  then show ?case using 0 by auto
next
  case (Suc n)
  let ?cs = "(play_round F R ^^ k) cs"
  have cfg: "sw_cfg (snd ((play_round F R ^^ j) cs)) = sw_cfg (snd cs)" for j by (induction j) simp_all
  obtain t' a' where st: "run_rounds F R (Suc n) (word_of_nat k) pa t ?cs =
     (if good_round F R ?cs \<and> cf_sustain_window (sw_cfg (snd ?cs)) \<le> cl_sustain_count (fst (play_round F R ?cs))
      then (build_result F (play_round F R ?cs) (word_of_nat k) t, play_round F R ?cs)
      else run_rounds F R n (word_of_nat k + 1) a' t' (play_round F R ?cs))" using run_rounds_Suc by blast
  show ?case
  proof (cases "good_round F R ?cs \<and> cf_sustain_window (sw_cfg (snd ?cs)) \<le> cl_sustain_count (fst (play_round F R ?cs))")
    case True
    then have "sr_rounds r = word_of_nat k \<and> cs' = (play_round F R ^^ Suc k) cs" using Suc.prems st by auto
    then show ?thesis using True cfg [of k] by (intro disjI1 exI [of _ k]) simp
  next
    case False
    have w: "word_of_nat k + 1 = (word_of_nat (Suc k) :: 32 word)" by simp
    have "run_rounds F R n (word_of_nat (Suc k)) a' t' ((play_round F R ^^ Suc k) cs) = (r, cs')"
      using Suc.prems unfolding st if_not_P [OF False] w by simp
    from Suc.IH [OF this] show ?thesis by (auto dest: Suc_leD)
  qed
qed

lemma streak:
  assumes "cl_sustain_count (fst cs) = 0" "j < unat (cl_sustain_count (fst ((play_round F R ^^ k) cs)))"
  shows "j < k \<and> good_round F R ((play_round F R ^^ (k - Suc j)) cs)"
  using assms(2)
proof (induction k arbitrary: j)
  case 0
  then show ?case using assms(1) by simp
next
  case (Suc k)
  let ?cs = "(play_round F R ^^ k) cs"
  have good: "good_round F R ?cs" using Suc.prems by (auto simp: play_round_sustain split: if_splits)
  have "unat (cl_sustain_count (fst ?cs) + 1) \<le> unat (cl_sustain_count (fst ?cs)) + 1"
    by (simp add: unat_word_ariths(1))
  then have j: "j < unat (cl_sustain_count (fst ?cs)) + 1" using Suc.prems good by (simp add: play_round_sustain)
  show ?case
  proof (cases j)
    case 0
    then show ?thesis using good by simp
  next
    case (Suc i)
    then have "i < unat (cl_sustain_count (fst ?cs))" using j by simp
    then show ?thesis using Suc.IH [of i] Suc by simp
  qed
qed

subsection \<open>Deposits\<close>

text \<open>The pheromone of an edge, which is 1 before the edge exists.\<close>

definition tau_of :: "'f Float \<Rightarrow> ('f, 'g) PheromoneGraph \<Rightarrow> TaskNodeId \<Rightarrow> TaskNodeId \<Rightarrow> 'f" where
  "tau_of F g a b = (case find_edge a b g of Some e \<Rightarrow> pe_tau e | None \<Rightarrow> fl_one F)"

lemma find_append: "List.find p (xs @ ys) = (case List.find p xs of Some x \<Rightarrow> Some x | None \<Rightarrow> List.find p ys)"
  by (induction xs) simp_all

lemma find_update_same:
  assumes "\<And>x. p (f x) = p x" shows "List.find p (update_first p f xs) = map_option f (List.find p xs)"
  using assms by (induction xs) auto

lemma find_update_other:
  assumes "\<And>x. q (f x) = q x" "\<And>x. p x \<Longrightarrow> \<not> q x" shows "List.find q (update_first p f xs) = List.find q xs"
  using assms by (induction xs) auto

lemma ensure_edge_tau: "tau_of F (ensure_edge F a b g) c d = tau_of F g c d" "find_edge a b (ensure_edge F a b g) \<noteq> None"
  by (auto simp: tau_of_def ensure_edge_def find_edge_def find_append split: option.splits)

definition reinforce :: "'f Float \<Rightarrow> 'f \<Rightarrow> TaskNodeId \<Rightarrow> TaskNodeId \<Rightarrow> ('f, 'g) PheromoneGraph \<Rightarrow> ('f, 'g) PheromoneGraph" where
  "reinforce F delta a b g = (let g1 = ensure_edge F a b g in
     g1\<lparr>pg_edges := update_first (edge_is a b) (\<lambda>e. e\<lparr>pe_tau := fl_add F (pe_tau e) delta, pe_age := 0\<rparr>) (pg_edges g1)\<rparr>)"

lemma reinforce_tau:
  "tau_of F (reinforce F delta a b g) c d = (if (c, d) = (a, b) then fl_add F (tau_of F g c d) delta else tau_of F g c d)"
proof (cases "(c, d) = (a, b)")
  case True
  have "find_edge a b (reinforce F delta a b g)
      = map_option (\<lambda>e. e\<lparr>pe_tau := fl_add F (pe_tau e) delta, pe_age := 0\<rparr>) (find_edge a b (ensure_edge F a b g))"
    unfolding reinforce_def Let_def find_edge_def by (simp add: find_update_same)
  then show ?thesis using ensure_edge_tau(2) [of a b F g] ensure_edge_tau(1) [of F a b g a b] True by (auto simp: tau_of_def)
next
  case False
  have "find_edge c d (reinforce F delta a b g) = find_edge c d (ensure_edge F a b g)"
    unfolding reinforce_def Let_def find_edge_def using False by (auto intro!: find_update_other)
  then have "tau_of F (reinforce F delta a b g) c d = tau_of F (ensure_edge F a b g) c d" by (simp add: tau_of_def)
  then show ?thesis using False ensure_edge_tau(1) [of F a b g c d] by auto
qed

lemma deposit_loop_reinforce: "deposit_loop F delta (a # b # path) g = deposit_loop F delta (b # path) (reinforce F delta a b g)"
  by (simp add: reinforce_def Let_def)

lemma iterate_add: "((\<lambda>t. fl_add F t delta) ^^ n) (fl_add F x delta) = ((\<lambda>t. fl_add F t delta) ^^ Suc n) x"
  using funpow_swap1 [of "\<lambda>t. fl_add F t delta" n x] by simp

lemma deposit_loop_tau:
  "tau_of F (deposit_loop F delta path g) c d =
     ((\<lambda>t. fl_add F t delta) ^^ count_list (zip path (tl path)) (c, d)) (tau_of F g c d)"
proof (induction F delta path g rule: deposit_loop.induct)
  case (1 F delta a b path g)
  have "tau_of F (deposit_loop F delta (b # path) (reinforce F delta a b g)) c d =
     ((\<lambda>t. fl_add F t delta) ^^ count_list (zip (b # path) path) (c, d)) (tau_of F (reinforce F delta a b g) c d)"
    using 1 by (simp add: reinforce_def Let_def)
  then show ?case
    unfolding deposit_loop_reinforce by (simp add: reinforce_tau iterate_add del: deposit_loop.simps)
qed (simp_all)

end
