(* ===== verification/Swarm_Properties.thy ===== *)
theory Swarm_Properties
  imports Swarm_Laws
begin

text \<open>
  The properties of the swarm, for every arithmetic of floats and every random generator. The witnesses use rational numbers and a
  generator that repeats its argument.
\<close>

definition rationals :: "rat Float" where
  "rationals = \<lparr>fl_lit = \<lambda>x. x, fl_of_nat = of_nat, fl_add = (+), fl_sub = (-), fl_mul = (*), fl_div = (/), fl_less = (<), fl_le = (\<le>),
                fl_sqrt = \<lambda>x. x, fl_pow = \<lambda>x y. x\<rparr>"

definition repeater :: "(rat, nat) Random" where
  "repeater = \<lparr>rg_seed = unat, rg_normal = \<lambda>s n g. (replicate n s, g), rg_uniform = \<lambda>b g. (b / 2, g)\<rparr>"

subsection \<open>Clusters\<close>

text \<open>
  C29: as long as the callers keep to their part, an active agent is a member of exactly one cluster, the one that the field notes
  for it, and is listed there once: clusters are created, recruit from a list of agents that is up to date and names none twice,
  dismiss and transfer agents that are members of them, merge with or transfer to a cluster other than themselves, are dissolved,
  aligned and disturbed, in any order. Nothing in the service checks that part of the callers.
\<close>

theorem clusters_partition_agents:
  assumes "colony_reach F R (sys, f, s)"
  shows "(\<forall>i < cluster_count s. distinct (cl_members (cluster_at s i)) \<and>
            set (cl_members (cluster_at s i)) = {r. tags f r = Some (cl_id (cluster_at s i))}) \<and>
    (\<forall>i < cluster_count s. \<forall>j < cluster_count s. i \<noteq> j \<longrightarrow> set (cl_members (cluster_at s i)) \<inter> set (cl_members (cluster_at s j)) = {}) \<and>
    (\<forall>r. tags f r \<noteq> None \<longrightarrow> (\<exists>i < cluster_count s. r \<in> set (cl_members (cluster_at s i))))"
proof (intro conjI allI impI)
  have ok: "colony_ok f s" using colony_reach_ok [OF assms] by simp
  have held: "cl_id (cluster_at s i) = word_of_nat i" "distinct (cl_members (cluster_at s i))"
    "set (cl_members (cluster_at s i)) = {r. tags f r = Some (word_of_nat i)}" if "i < cluster_count s" for i
    using that ok by (simp_all add: colony_ok_def holds_members_def)
  fix i assume i: "i < cluster_count s"
  show "distinct (cl_members (cluster_at s i))" by (rule held(2) [OF i])
  show "set (cl_members (cluster_at s i)) = {r. tags f r = Some (cl_id (cluster_at s i))}" using held(1,3) [OF i] by simp
  fix j assume j: "j < cluster_count s" "i \<noteq> j"
  then have "(word_of_nat i :: 32 word) \<noteq> word_of_nat j" using small_word_inj [OF i j(1)] ok by (simp add: colony_ok_def)
  then show "set (cl_members (cluster_at s i)) \<inter> set (cl_members (cluster_at s j)) = {}"
    unfolding held(3) [OF i] held(3) [OF j(1)] by auto
next
  have ok: "colony_ok f s" using colony_reach_ok [OF assms] by simp
  fix r assume "tags f r \<noteq> None"
  then obtain c where c: "tags f r = Some c" by blast
  then obtain i where "i < cluster_count s" "c = word_of_nat i" using ok unfolding colony_ok_def by blast
  then show "\<exists>i < cluster_count s. r \<in> set (cl_members (cluster_at s i))"
    using ok c unfolding colony_ok_def holds_members_def by blast
qed

definition two_agents :: "(rat, nat) SwarmField" where
  "two_agents = new_field rationals repeater 2 1 1 0 42"

definition one_cluster :: "(rat, nat) ClusterService" where
  "one_cluster = create_cluster rationals repeater ''c'' default_task 0 1 1 1 42 new_service"

lemma two_agents_offered: "offered two_agents (sf_agents two_agents)"
proof -
  have "map ag_agent_id (sf_agents two_agents) = [0, 1]" by code_simp
  then show ?thesis by (simp add: offered_def) (simp add: two_agents_def new_field_tags)
qed

theorem clusters_partition_agents_witness:
  "\<exists>(f :: (rat, nat) SwarmField) (s :: (rat, nat) ClusterService). cl_members (cluster_at s 0) = [0] \<and> set (cl_members (cluster_at s 0)) = {r. tags f r = Some (cl_id (cluster_at s 0))}"
proof -
  let ?sys = "actor_system 4 :: nat ActorSystem"
  let ?rec = "recruit rationals repeater (sf_agents two_agents) 1 (?sys, two_agents, cluster_at one_cluster 0)"
  have n: "cluster_count one_cluster = 1" by code_simp
  have c: "case ?rec of None \<Rightarrow> False | Some (rs, sys', f', c) \<Rightarrow> cl_members c = [0]" by code_simp
  then obtain rs sys' f' c where r: "?rec = Some (rs, sys', f', c)" by (cases ?rec) auto
  have "colony_reach rationals repeater (?sys, two_agents, new_service)" unfolding two_agents_def by (rule col_start)
  moreover have "colony_step rationals repeater (?sys, two_agents, new_service) (?sys, two_agents, one_cluster)"
    unfolding one_cluster_def by (rule col_create) (simp add: new_service_def cluster_count_def)
  ultimately have "colony_reach rationals repeater (?sys, two_agents, one_cluster)" by (rule col_next)
  moreover have "colony_step rationals repeater (?sys, two_agents, one_cluster) (sys', f', put_cluster 0 c one_cluster)"
    by (rule col_recruit [OF _ two_agents_offered r]) (simp add: n)
  ultimately have "colony_reach rationals repeater (sys', f', put_cluster 0 c one_cluster)" by (rule col_next)
  from clusters_partition_agents [OF this]
  have "set (cl_members (cluster_at (put_cluster 0 c one_cluster) 0)) = {r. tags f' r = Some (cl_id (cluster_at (put_cluster 0 c one_cluster) 0))}"
    by (simp add: n)
  moreover have "cl_members (cluster_at (put_cluster 0 c one_cluster) 0) = [0]" using c r n by simp
  ultimately show ?thesis by blast
qed

subsection \<open>Convergence\<close>

text \<open>
  C30: a run to convergence plays at most \<open>max_rounds\<close> rounds; if it stops earlier, and the cluster's count of good rounds in a row was
  zero when it began (the run does not reset it), then the last \<open>sustain_window\<close> rounds were all aligned and of more than premature
  quality.
\<close>

theorem convergence_was_sustained:
  assumes "run_cluster_to_convergence F R cs = (r, cs')" "cl_sustain_count (fst cs) = 0"
  shows "sr_rounds r \<le> cf_max_rounds (sw_cfg (snd cs)) \<and>
    (sr_rounds r < cf_max_rounds (sw_cfg (snd cs)) \<longrightarrow>
      (\<forall>j < unat (cf_sustain_window (sw_cfg (snd cs))). j \<le> unat (sr_rounds r) \<and>
         good_round F R ((play_round F R ^^ (unat (sr_rounds r) - j)) cs)))"
proof -
  let ?max = "cf_max_rounds (sw_cfg (snd cs))"
  have run: "run_rounds F R (unat ?max) (word_of_nat 0) False 0 ((play_round F R ^^ 0) cs) = (r, cs')"
    using assms(1) by (simp add: run_cluster_to_convergence_def)
  from run_rounds_result [OF run] show ?thesis
  proof (elim disjE exE conjE)
    fix m assume m: "m < 0 + unat ?max" "sr_rounds r = word_of_nat m" "cs' = (play_round F R ^^ Suc m) cs"
      and w: "cf_sustain_window (sw_cfg (snd cs)) \<le> cl_sustain_count (fst cs')"
    have u: "unat (sr_rounds r) = m"
      using m(1,2) unsigned_less [of ?max, where 'a = nat] by (simp add: unat_of_nat take_bit_nat_eq_self)
    have "j \<le> m \<and> good_round F R ((play_round F R ^^ (m - j)) cs)" if "j < unat (cf_sustain_window (sw_cfg (snd cs)))" for j
    proof -
      have "j < unat (cl_sustain_count (fst ((play_round F R ^^ Suc m) cs)))"
        using that w unfolding m(3) word_le_nat_alt by simp
      from streak [OF assms(2) this] show ?thesis by simp
    qed
    then show ?thesis using u m(1) by (simp add: word_le_nat_alt)
  qed simp
qed

definition small_config :: "rat SwarmConfig" where
  "small_config = (default_swarm_config rationals)\<lparr>cf_population := 2, cf_strategy_dim := 1, cf_max_rounds := 5, cf_sustain_window := 2,
     cf_convergence_phi := 1 / 4, cf_premature_quality := - 1, cf_noise_eta := 0, cf_alignment_radius := 1\<rparr>"

definition small_swarm :: "(nat, rat, nat) swarm_cluster" where
  "small_swarm = (let sw = (new_swarm rationals repeater small_config (actor_system 4))\<lparr>sw_clusters := one_cluster\<rparr>;
       f = place_agent 0 Active 0 (sw_field sw) in
     ((cluster_at one_cluster 0)\<lparr>cl_members := [0]\<rparr>, sw\<lparr>sw_field := f\<rparr>))"

theorem convergence_was_sustained_witness:
  "good_round rationals repeater small_swarm \<and> sr_rounds (fst (run_cluster_to_convergence rationals repeater small_swarm)) = 1"
proof -
  let ?run = "run_cluster_to_convergence rationals repeater small_swarm"
  have c: "sr_rounds (fst ?run) = 1" "cl_sustain_count (fst small_swarm) = 0" "cf_max_rounds (sw_cfg (snd small_swarm)) = 5"
    "cf_sustain_window (sw_cfg (snd small_swarm)) = 2" by code_simp+
  have "?run = (fst ?run, snd ?run)" by simp
  from convergence_was_sustained [OF this c(2)] have "good_round rationals repeater ((play_round rationals repeater ^^ (1 - 1)) small_swarm)"
    unfolding c by (auto dest!: spec [of _ 1])
  then show ?thesis using c(1) by simp
qed

subsection \<open>Pheromone\<close>

text \<open>
  a deposit of positive quality adds its amount to each edge of the path as often as the path runs along it, counting an edge that
  did not exist as 1, and leaves every other edge as it was.
\<close>

theorem deposit_reinforces_path:
  assumes "\<not> fl_le F quality (fl_zero F)"
  shows "tau_of F (deposit F path quality g) a b =
    ((\<lambda>t. fl_add F t (fl_div F (pg_Q g) (fl_div F (fl_one F) quality))) ^^ count_list (zip path (tl path)) (a, b)) (tau_of F g a b)"
proof (cases "length path < 2")
  case True
  then have none: "zip path (tl path) = []" by (cases path) auto
  show ?thesis unfolding deposit_def none using True by simp
next
  case False
  then show ?thesis using assms by (simp add: deposit_def deposit_loop_tau)
qed

theorem deposit_reinforces_path_witness:
  "tau_of rationals (deposit rationals [1, 2, 1, 2] (1 / 2) (new_graph repeater 0 4 1 1 42)) 1 2 = 5"
  by (subst deposit_reinforces_path; code_simp)

end
