(* ===== verification/Std_Text.thy ===== *)
theory Std_Text
  imports Core_Types
begin

text \<open>
  What the demonstration programs use of the standard library's text functions: \<open>std::string::find\<close>, \<open>std::to_string\<close>,
  \<open>std::stoi\<close> and the padded decimal of \<open>snprintf\<close>. A C++ \<open>int\<close> is an HOL integer within 32 bits; \<open>None\<close> where the function
  throws. The lemmas read a printed number back and find a needle in a text. The second part holds the JSON helpers of the agent example.
\<close>

definition in_int :: "int \<Rightarrow> bool" where
  "in_int i \<longleftrightarrow> - (2 ^ 31) \<le> i \<and> i < 2 ^ 31"

subsection \<open>Searching\<close>

fun find_sub :: "string \<Rightarrow> string \<Rightarrow> nat option" where
  "find_sub needle [] = (if needle = [] then Some 0 else None)"
| "find_sub needle (c # cs) =
     (if starts_with (c # cs) needle then Some 0 else map_option Suc (find_sub needle cs))"

text \<open>\<open>text.find(needle, pos)\<close>; \<open>None\<close> is \<open>npos\<close>.\<close>

definition find_at :: "string \<Rightarrow> string \<Rightarrow> nat \<Rightarrow> nat option" where
  "find_at txt needle pos =
     (if pos \<le> length txt then map_option ((+) pos) (find_sub needle (drop pos txt)) else None)"

lemma find_sub_prefix: "starts_with s needle \<Longrightarrow> find_sub needle s = Some 0"
  by (cases s) (simp_all add: starts_with_def)

lemma find_sub_char: "c \<notin> set pre \<Longrightarrow> find_sub [c] (pre @ c # post) = Some (length pre)"
  by (induction pre) (auto simp: starts_with_def)

lemma find_sub_absent_char: "c \<notin> set s \<Longrightarrow> find_sub (c # cs) s = None"
  by (induction s) (auto simp: starts_with_def)

lemma find_sub_skip:
  "\<not> starts_with (c # cs) needle \<Longrightarrow> find_sub needle (c # cs) = map_option Suc (find_sub needle cs)"
  by simp

lemma find_sub_sound: "find_sub needle s = Some i \<Longrightarrow> i \<le> length s \<and> starts_with (drop i s) needle"
proof (induction s arbitrary: i)
  case (Cons c cs)
  then show ?case by (cases "starts_with (c # cs) needle") auto
qed (auto split: if_splits)

subsection \<open>Printing\<close>

definition to_string_int :: "int \<Rightarrow> string" where
  "to_string_int i = (if i < 0 then CHR ''-'' # decimal (nat (- i)) else decimal (nat i))"

text \<open>\<open>%04d\<close>: at least four characters, the sign counted, padded with zeros after the sign.\<close>

definition pad4 :: "int \<Rightarrow> string" where
  "pad4 i = (if i < 0 then CHR ''-'' # replicate (3 - length (decimal (nat (- i)))) CHR ''0'' @ decimal (nat (- i))
     else replicate (4 - length (decimal (nat i))) CHR ''0'' @ decimal (nat i))"

subsection \<open>Reading\<close>

definition is_digit :: "char \<Rightarrow> bool" where
  "is_digit c \<longleftrightarrow> 48 \<le> (of_char c :: nat) \<and> (of_char c :: nat) \<le> 57"

definition digits_value :: "string \<Rightarrow> nat" where
  "digits_value s = foldl (\<lambda>n c. 10 * n + (of_char c - 48)) 0 s"

definition is_space :: "char \<Rightarrow> bool" where
  "is_space c \<longleftrightarrow> c = CHR '' '' \<or> (9 \<le> (of_char c :: nat) \<and> (of_char c :: nat) \<le> 13)"

text \<open>Leading white space, a sign, as many digits as there are; no digit or a value outside \<open>int\<close> is an exception.\<close>

definition stoi :: "string \<Rightarrow> int option" where
  "stoi s = (let t = dropWhile is_space s;
       neg = (t \<noteq> [] \<and> hd t = CHR ''-'');
       u = (if t \<noteq> [] \<and> (hd t = CHR ''-'' \<or> hd t = CHR ''+'') then tl t else t);
       ds = takeWhile is_digit u;
       v = (if neg then - int (digits_value ds) else int (digits_value ds))
     in if ds = [] \<or> \<not> in_int v then None else Some v)"

subsection \<open>Printed numbers are read back\<close>

lemma of_char_digit: "d < 10 \<Longrightarrow> (of_char (char_of (48 + d) :: char) :: nat) = 48 + d"
  by simp

lemma is_digit_of_char: "d < 10 \<Longrightarrow> is_digit (char_of (48 + d :: nat))"
  by (simp add: is_digit_def)

lemma decimal_digits: "list_all is_digit (decimal n)"
proof (induction n rule: decimal.induct)
  case (1 n)
  show ?case
  proof (cases "n < 10")
    case True
    then show ?thesis by (subst decimal.simps) (simp add: is_digit_of_char del: of_char_of)
  next
    case False
    with 1 have "list_all is_digit (decimal (n div 10))" .
    then show ?thesis using False is_digit_of_char [of "n mod 10"] by (subst decimal.simps) simp
  qed
qed

lemma digits_value_snoc: "digits_value (s @ [c]) = 10 * digits_value s + (of_char c - 48)"
  by (simp add: digits_value_def)

lemma digits_value_decimal [simp]: "digits_value (decimal n) = n"
proof (induction n rule: decimal.induct)
  case (1 n)
  show ?case
  proof (cases "n < 10")
    case True
    then show ?thesis by (subst decimal.simps) (simp add: digits_value_def)
  next
    case False
    with 1 show ?thesis by (subst decimal.simps) (simp add: digits_value_snoc)
  qed
qed

lemma digits_value_zeros: "digits_value (replicate k CHR ''0'' @ s) = digits_value s"
  by (induction k) (simp_all add: digits_value_def)

lemma digits_value_bound: "list_all is_digit ds \<Longrightarrow> digits_value ds < 10 ^ length ds"
proof (induction ds rule: rev_induct)
  case (snoc c ds)
  then have "digits_value ds < 10 ^ length ds" "(of_char c :: nat) \<le> 57" by (simp_all add: is_digit_def)
  then show ?case by (simp add: digits_value_snoc)
qed (simp add: digits_value_def)

lemma decimal_neq_Nil [simp]: "decimal n \<noteq> []"
  by (subst decimal.simps) simp

lemma decimal_length: "n < 10 ^ Suc k \<Longrightarrow> length (decimal n) \<le> Suc k"
proof (induction k arbitrary: n)
  case 0
  then show ?case by (subst decimal.simps) simp
next
  case (Suc k)
  from Suc.prems have "n div 10 < 10 ^ Suc k" by (simp add: less_mult_imp_div_less)
  with Suc.IH have "length (decimal (n div 10)) \<le> Suc k" .
  then show ?case by (subst decimal.simps) simp
qed

lemma digit_not_space: "is_digit c \<Longrightarrow> \<not> is_space c \<and> c \<noteq> CHR ''-'' \<and> c \<noteq> CHR ''+'' \<and> c \<noteq> CHR '':''"
  by (auto simp: is_digit_def is_space_def)

lemma stoi_digits:
  assumes "list_all is_digit ds" "ds \<noteq> []" "int (digits_value ds) < 2 ^ 31"
    and "post = [] \<or> \<not> is_digit (hd post)"
  shows "stoi (ds @ post) = Some (int (digits_value ds))"
proof -
  obtain d ds' where ds: "ds = d # ds'" using assms(2) by (cases ds) auto
  with assms(1) have d: "is_digit d" by simp
  have "takeWhile is_digit (ds @ post) = ds"
    using assms(1,4) by (induction ds) (auto simp: takeWhile_eq_Nil_iff)
  moreover have "dropWhile is_space (ds @ post) = ds @ post" "hd (ds @ post) = d" "ds @ post \<noteq> []"
    using digit_not_space [OF d] by (simp_all add: ds)
  moreover have "in_int (int (digits_value ds))" using assms(3) by (simp add: in_int_def)
  ultimately show ?thesis
    using digit_not_space [OF d] assms(2) unfolding stoi_def Let_def by simp
qed

lemma stoi_to_string: "0 \<le> i \<Longrightarrow> i < 2 ^ 31 \<Longrightarrow> stoi (to_string_int i) = Some i"
  using stoi_digits [of "decimal (nat i)" "[]"] decimal_digits [of "nat i"] by (simp add: to_string_int_def)

lemma to_string_int_zero: "to_string_int 0 = ''0''"
  by code_simp

lemma pad4_inject: "0 \<le> i \<Longrightarrow> 0 \<le> j \<Longrightarrow> pad4 i = pad4 j \<Longrightarrow> i = j"
  by (metis digits_value_zeros digits_value_decimal pad4_def nat_eq_iff2 not_less)

lemma pad4_digits: "0 \<le> i \<Longrightarrow> list_all is_digit (pad4 i)"
  using decimal_digits [of "nat i"] by (auto simp: pad4_def is_digit_def list_all_iff)

lemma pad4_length: "0 \<le> i \<Longrightarrow> i < 2 ^ 31 \<Longrightarrow> length (pad4 i) \<le> 10"
proof -
  assume i: "0 \<le> i" "i < 2 ^ 31"
  then have "nat i < 10 ^ Suc 9" by simp
  from decimal_length [OF this] have "length (decimal (nat i)) \<le> 10" by simp
  with i show ?thesis by (simp add: pad4_def)
qed

section \<open>JSON\<close>

text \<open>
  The JSON helpers of \<open>examples/05_agent_memory.cpp\<close>: escaping a string for embedding, and reading the string value of a
  key from a document.
\<close>

abbreviation json_quote :: char where "json_quote \<equiv> CHR 0x22"
abbreviation backslash :: char where "backslash \<equiv> CHR 0x5C"
abbreviation line_feed :: char where "line_feed \<equiv> CHR 0x0A"
abbreviation carriage_return :: char where "carriage_return \<equiv> CHR 0x0D"
abbreviation tab_char :: char where "tab_char \<equiv> CHR 0x09"

fun extract_loop :: "string \<Rightarrow> string \<Rightarrow> string" where
  "extract_loop res [] = res"
| "extract_loop res (c # cs) =
     (if c = backslash \<and> cs \<noteq> [] then
        (let esc = hd cs in
         if esc = json_quote then extract_loop (res @ [json_quote]) (tl cs)
         else if esc = CHR ''n'' then extract_loop (res @ [line_feed]) (tl cs)
         else if esc = backslash then extract_loop (res @ [backslash]) (tl cs)
         else if esc = CHR ''t'' then extract_loop (res @ [tab_char]) (tl cs)
         else extract_loop (res @ [c]) cs)
      else if c = json_quote then res
      else extract_loop (res @ [c]) cs)"

definition extract_string :: "string \<Rightarrow> string \<Rightarrow> string" where
  "extract_string blob key =
     (let needle = json_quote # key @ [json_quote] in
      case find_at blob needle 0 of
        None \<Rightarrow> []
      | Some pos \<Rightarrow> (case find_at blob '':'' (pos + length needle) of
          None \<Rightarrow> []
        | Some pos1 \<Rightarrow> (case find_at blob [json_quote] (pos1 + 1) of
            None \<Rightarrow> []
          | Some pos2 \<Rightarrow> extract_loop [] (drop (pos2 + 1) blob))))"

definition escape_char :: "char \<Rightarrow> string" where
  "escape_char c =
     (if c = json_quote then [backslash, json_quote]
      else if c = backslash then [backslash, backslash]
      else if c = line_feed then [backslash, CHR ''n'']
      else if c = carriage_return then [backslash, CHR ''r'']
      else if c = tab_char then [backslash, CHR ''t'']
      else [c])"

fun escape_loop :: "string \<Rightarrow> string \<Rightarrow> string" where
  "escape_loop out [] = out"
| "escape_loop out (c # cs) = escape_loop (out @ escape_char c) cs"

definition escape :: "string \<Rightarrow> string" where
  "escape s = escape_loop [] s"

subsection \<open>What is read back\<close>

text \<open>A carriage return is the one character that is escaped and not recognised when read.\<close>

definition read_back :: "string \<Rightarrow> string" where
  "read_back s = concat (map (\<lambda>c. if c = carriage_return then [backslash, CHR ''r''] else [c]) s)"

lemma read_back_id: "carriage_return \<notin> set s \<Longrightarrow> read_back s = s"
  by (induction s) (auto simp: read_back_def)

lemma escape_concat: "escape s = concat (map escape_char s)"
proof -
  have "escape_loop out s = out @ concat (map escape_char s)" for out
    by (induction s arbitrary: out) simp_all
  then show ?thesis by (simp add: escape_def)
qed

lemma extract_step:
  "c \<noteq> backslash \<Longrightarrow> c \<noteq> json_quote \<Longrightarrow> extract_loop res (c # cs) = extract_loop (res @ [c]) cs"
  "extract_loop res (json_quote # cs) = res"
  "extract_loop res (backslash # json_quote # cs) = extract_loop (res @ [json_quote]) cs"
  "extract_loop res (backslash # CHR ''n'' # cs) = extract_loop (res @ [line_feed]) cs"
  "extract_loop res (backslash # backslash # cs) = extract_loop (res @ [backslash]) cs"
  "extract_loop res (backslash # CHR ''t'' # cs) = extract_loop (res @ [tab_char]) cs"
  "extract_loop res (backslash # CHR ''r'' # cs) = extract_loop (res @ [backslash]) (CHR ''r'' # cs)"
  by (simp_all add: Let_def)

lemma extract_escaped_char:
  "extract_loop res (escape_char c @ x # xs) = extract_loop (res @ read_back [c]) (x # xs)"
  by (simp add: escape_char_def read_back_def extract_step del: extract_loop.simps)

lemma extract_escaped:
  "extract_loop res (escape s @ json_quote # post) = res @ read_back s"
proof (induction s arbitrary: res)
  case Nil
  show ?case by (simp add: read_back_def escape_concat)
next
  case (Cons c cs)
  obtain x xs where x: "escape cs @ json_quote # post = x # xs" by (cases "escape cs") auto
  have "extract_loop res (escape (c # cs) @ json_quote # post) = extract_loop res (escape_char c @ x # xs)"
    by (simp flip: x) (simp add: escape_concat)
  also have "\<dots> = res @ read_back [c] @ read_back cs"
    using Cons.IH [of "res @ read_back [c]"] by (simp add: extract_escaped_char x)
  finally show ?case by (simp add: read_back_def)
qed

text \<open>The key is found where it first stands in quotes; after it come a colon and the value in quotes.\<close>

lemma extract_after:
  assumes "find_sub (json_quote # key @ [json_quote]) blob = Some (length pre)"
    and "blob = pre @ json_quote # key @ json_quote # mid @ CHR '':'' # ws @ json_quote # post"
    and "CHR '':'' \<notin> set mid" "json_quote \<notin> set ws"
  shows "extract_string blob key = extract_loop [] post"
proof -
  let ?needle = "json_quote # key @ [json_quote]"
  have p0: "find_at blob ?needle 0 = Some (length pre)"
    using assms(1) by (simp add: find_at_def)
  have b1: "blob = (pre @ ?needle) @ mid @ CHR '':'' # ws @ json_quote # post" using assms(2) by simp
  have p1: "find_at blob '':'' (length pre + length ?needle) = Some (length pre + length ?needle + length mid)"
  proof -
    have "drop (length pre + length ?needle) blob = mid @ CHR '':'' # ws @ json_quote # post"
      by (subst b1) simp
    then show ?thesis
      using find_sub_char [OF assms(3), of "ws @ json_quote # post"] by (simp add: find_at_def assms(2))
  qed
  have b2: "blob = ((pre @ ?needle) @ mid @ '':'') @ ws @ json_quote # post" using assms(2) by simp
  have p2: "find_at blob [json_quote] (length pre + length ?needle + length mid + 1) =
      Some (length pre + length ?needle + length mid + 1 + length ws)"
  proof -
    have "drop (length ((pre @ ?needle) @ mid @ '':'')) blob = ws @ json_quote # post"
      unfolding b2 by (rule append_eq_conv_conj [THEN iffD1, THEN conjunct2, symmetric]) (rule refl)
    then have "drop (length pre + length ?needle + length mid + 1) blob = ws @ json_quote # post"
      by (simp only: length_append list.size) (simp add: add.assoc)
    then show ?thesis
      using find_sub_char [OF assms(4), of post] by (simp add: find_at_def assms(2))
  qed
  have b3: "blob = (((pre @ ?needle) @ mid @ '':'') @ ws @ [json_quote]) @ post" using assms(2) by simp
  have "drop (length (((pre @ ?needle) @ mid @ '':'') @ ws @ [json_quote])) blob = post"
    unfolding b3 by (rule append_eq_conv_conj [THEN iffD1, THEN conjunct2, symmetric]) (rule refl)
  then have "drop (length pre + length ?needle + length mid + 1 + length ws + 1) blob = post"
    by (simp only: length_append list.size) (simp add: add.assoc)
  with p0 p1 p2 show ?thesis by (simp add: extract_string_def Let_def)
qed

lemma extract_first_field:
  "extract_string (CHR 0x7B # json_quote # key @ json_quote # CHR '':'' # json_quote # escape s @ json_quote # rest) key =
     read_back s"
proof -
  let ?needle = "json_quote # key @ [json_quote]"
  let ?tail = "CHR '':'' # json_quote # escape s @ json_quote # rest"
  have "find_sub ?needle (CHR 0x7B # json_quote # key @ json_quote # ?tail) = Some (length [CHR 0x7B])"
    by (subst find_sub_skip, simp add: starts_with_def)
      (simp add: find_sub_prefix starts_with_def)
  from extract_after [OF this, of "[]" "[]" "escape s @ json_quote # rest"] show ?thesis
    by (simp add: extract_escaped)
qed

end
