(* ===== verification/Http_Client.thy ===== *)
theory Http_Client
  imports Std_Text
begin

text \<open>
  The HTTP client of \<open>examples/05_agent_memory.cpp\<close> (\<open>http::post\<close>). The socket calls are the operating system's: a record of
  functions on the network. The loop that receives is a partial function, for a peer that never stops sending. A reply whose status is
  no number makes \<open>std::stoi\<close> throw, which is \<open>None\<close>.
\<close>

subsection \<open>The calls of the operating system\<close>

record 'n sockets =
  sk_getaddrinfo :: "string \<Rightarrow> string \<Rightarrow> 'n \<Rightarrow> nat option \<times> 'n"
  sk_freeaddrinfo :: "nat \<Rightarrow> 'n \<Rightarrow> 'n"
  sk_socket :: "nat \<Rightarrow> 'n \<Rightarrow> int \<times> 'n"
  sk_connect :: "int \<Rightarrow> nat \<Rightarrow> 'n \<Rightarrow> int \<times> 'n"
  sk_send :: "int \<Rightarrow> string \<Rightarrow> 'n \<Rightarrow> int \<times> 'n"
  sk_recv :: "int \<Rightarrow> nat \<Rightarrow> 'n \<Rightarrow> (int \<times> string) \<times> 'n"
  sk_close :: "int \<Rightarrow> 'n \<Rightarrow> 'n"

subsection \<open>The client\<close>

record Response =
  re_status :: int
  re_body :: string

abbreviation crlf :: string where "crlf \<equiv> [carriage_return, line_feed]"

definition http_request :: "string \<Rightarrow> int \<Rightarrow> string \<Rightarrow> string \<Rightarrow> string" where
  "http_request host port path json_body =
     ''POST '' @ path @ '' HTTP/1.1'' @ crlf @
     ''Host: '' @ host @ '':'' @ to_string_int port @ crlf @
     ''Content-Type: application/json'' @ crlf @
     ''Content-Length: '' @ decimal (length json_body) @ crlf @
     ''Connection: close'' @ crlf @
     crlf @
     json_body"

partial_function (option) recv_loop :: "'n sockets \<Rightarrow> int \<Rightarrow> string \<Rightarrow> 'n \<Rightarrow> (string \<times> 'n) option" where
  "recv_loop sk fd raw n = (case sk_recv sk fd 4096 n of ((got, buf), n') \<Rightarrow>
     if got > 0 then recv_loop sk fd (raw @ take (nat got) buf) n' else Some (raw, n'))"

definition parse_response :: "string \<Rightarrow> Response option" where
  "parse_response raw = (case (case find_at raw '' '' 0 of
       None \<Rightarrow> Some 0
     | Some pos \<Rightarrow> stoi (take 3 (drop (pos + 1) raw))) of
       None \<Rightarrow> None
     | Some status \<Rightarrow> Some \<lparr>re_status = status, re_body = (case find_at raw (crlf @ crlf) 0 of
           None \<Rightarrow> []
         | Some pos \<Rightarrow> drop (pos + 4) raw)\<rparr>)"

definition http_post :: "'n sockets \<Rightarrow> string \<Rightarrow> int \<Rightarrow> string \<Rightarrow> string \<Rightarrow> ('n, Response) io" where
  "http_post sk host port path json_body n = (let port_str = to_string_int port in
     case sk_getaddrinfo sk host port_str n of
       (None, n1) \<Rightarrow> Some (Err ''HttpResolve'' (''cannot resolve '' @ host), n1)
     | (Some res, n1) \<Rightarrow> (case sk_socket sk res n1 of (fd, n2) \<Rightarrow>
         if fd < 0 then Some (Err ''HttpSocket'' ''socket() failed'', sk_freeaddrinfo sk res n2)
         else case sk_connect sk fd res n2 of (rc, n3) \<Rightarrow>
           if rc < 0 then Some (Err ''HttpConnect'' (''connect to '' @ host @ '':'' @ port_str @ '' failed''),
               sk_close sk fd (sk_freeaddrinfo sk res n3))
           else let n4 = sk_freeaddrinfo sk res n3; payload = http_request host port path json_body in
             case sk_send sk fd payload n4 of (sent, n5) \<Rightarrow>
               if sent < 0 then Some (Err ''HttpSend'' ''send() failed'', sk_close sk fd n5)
               else (case recv_loop sk fd [] n5 of
                   None \<Rightarrow> None
                 | Some (raw, n6) \<Rightarrow> let n7 = sk_close sk fd n6 in
                     (case parse_response raw of None \<Rightarrow> None | Some resp \<Rightarrow> Some (Inr resp, n7)))))"

subsection \<open>Receiving\<close>

text \<open>What the peer sends from now on until it stops, whatever the pieces.\<close>

inductive delivers :: "'n sockets \<Rightarrow> int \<Rightarrow> 'n \<Rightarrow> string \<Rightarrow> 'n \<Rightarrow> bool" for sk fd where
  delivers_end: "sk_recv sk fd 4096 n = ((got, buf), n') \<Longrightarrow> got \<le> 0 \<Longrightarrow> delivers sk fd n [] n'"
| delivers_more: "sk_recv sk fd 4096 n = ((got, buf), n1) \<Longrightarrow> got > 0 \<Longrightarrow> delivers sk fd n1 rest n' \<Longrightarrow>
    delivers sk fd n (take (nat got) buf @ rest) n'"

lemma recv_loop_delivers: "delivers sk fd n raw n' \<Longrightarrow> recv_loop sk fd acc n = Some (acc @ raw, n')"
proof (induction arbitrary: acc rule: delivers.induct)
  case (delivers_end n got buf n')
  then show ?case by (simp add: recv_loop.simps)
next
  case (delivers_more n got buf n1 rest n')
  then show ?case by (subst recv_loop.simps) simp
qed

lemma recv_loop_returns:
  assumes "recv_loop sk fd acc n = Some (res, n')"
  shows "\<exists>raw. delivers sk fd n raw n' \<and> res = acc @ raw"
proof -
  have "\<exists>raw. delivers sk fd n raw (snd y) \<and> fst y = acc @ raw" if "recv_loop sk fd acc n = Some y" for y
  proof (rule recv_loop.raw_induct [OF _ that])
    fix rec :: "'a sockets \<Rightarrow> int \<Rightarrow> string \<Rightarrow> 'a \<Rightarrow> (string \<times> 'a) option" and sk fd acc n y
    assume IH: "\<And>sk fd acc n y. rec sk fd acc n = Some y \<Longrightarrow> \<exists>raw. delivers sk fd n raw (snd y) \<and> fst y = acc @ raw"
      and step: "(case sk_recv sk fd 4096 n of ((got, buf), n') \<Rightarrow>
        if got > 0 then rec sk fd (acc @ take (nat got) buf) n' else Some (acc, n')) = Some y"
    obtain got buf n1 where r: "sk_recv sk fd 4096 n = ((got, buf), n1)" by (metis prod.collapse)
    show "\<exists>raw. delivers sk fd n raw (snd y) \<and> fst y = acc @ raw"
    proof (cases "got > 0")
      case True
      with step r have "rec sk fd (acc @ take (nat got) buf) n1 = Some y" by simp
      from IH [OF this] delivers_more [OF r True] show ?thesis by fastforce
    next
      case False
      with step r delivers_end [OF r] show ?thesis by auto
    qed
  qed
  from this [OF assms] show ?thesis by simp
qed

text \<open>One exchange in which no call fails.\<close>

definition exchange :: "'n sockets \<Rightarrow> string \<Rightarrow> int \<Rightarrow> string \<Rightarrow> 'n \<Rightarrow> string \<Rightarrow> 'n \<Rightarrow> bool" where
  "exchange sk host port payload n raw n' \<longleftrightarrow> (\<exists>res n1 fd n2 rc n3 sent n5 n6.
     sk_getaddrinfo sk host (to_string_int port) n = (Some res, n1) \<and> sk_socket sk res n1 = (fd, n2) \<and> 0 \<le> fd \<and>
     sk_connect sk fd res n2 = (rc, n3) \<and> 0 \<le> rc \<and>
     sk_send sk fd payload (sk_freeaddrinfo sk res n3) = (sent, n5) \<and> 0 \<le> sent \<and>
     delivers sk fd n5 raw n6 \<and> n' = sk_close sk fd n6)"

lemma post_exchange:
  assumes "exchange sk host port (http_request host port path body) n raw n'" "parse_response raw = Some resp"
  shows "http_post sk host port path body n = Some (Inr resp, n')"
  using assms by (auto simp: exchange_def http_post_def Let_def recv_loop_delivers)

text \<open>A status line, a header and a body.\<close>

lemma parse_reply:
  assumes "raw = ver @ CHR '' '' # code @ rest" "CHR '' '' \<notin> set ver" "length code = 3" "list_all is_digit code"
    and "find_sub (crlf @ crlf) raw = Some (length head)" "raw = head @ crlf @ crlf @ body"
  shows "parse_response raw = Some \<lparr>re_status = int (digits_value code), re_body = body\<rparr>"
proof -
  have "find_at raw '' '' 0 = Some (length ver)"
    using find_sub_char [OF assms(2), of "code @ rest"] by (simp add: find_at_def assms(1))
  moreover have "take 3 (drop (length ver + 1) raw) = code" using assms(1,3) by simp
  moreover have "stoi code = Some (int (digits_value code))"
    using stoi_digits [of code "[]"] digits_value_bound [OF assms(4)] assms(3,4) by fastforce
  moreover have "find_at raw (crlf @ crlf) 0 = Some (length head)" using assms(5) by (simp add: find_at_def)
  moreover have "drop (length head + 4) raw = body" by (subst assms(6)) simp
  ultimately show ?thesis by (simp only: parse_response_def option.case)
qed
subsection \<open>Descriptors and address lists\<close>

text \<open>What the calls do to the descriptors that are open and the address lists that are allocated.\<close>

locale tracked_sockets =
  fixes sk :: "'n sockets" and fds :: "'n \<Rightarrow> int set" and addrs :: "'n \<Rightarrow> nat set"
  assumes resolve: "sk_getaddrinfo sk host port n = (r, n') \<Longrightarrow> fds n' = fds n \<and>
      (case r of None \<Rightarrow> addrs n' = addrs n | Some a \<Rightarrow> a \<notin> addrs n \<and> addrs n' = insert a (addrs n))"
    and free: "fds (sk_freeaddrinfo sk a n) = fds n" "addrs (sk_freeaddrinfo sk a n) = addrs n - {a}"
    and create: "sk_socket sk a n = (fd, n') \<Longrightarrow> addrs n' = addrs n \<and>
      (if fd < 0 then fds n' = fds n else fd \<notin> fds n \<and> fds n' = insert fd (fds n))"
    and connecting: "sk_connect sk fd a n = (rc, n') \<Longrightarrow> fds n' = fds n \<and> addrs n' = addrs n"
    and sending: "sk_send sk fd msg n = (rc, n') \<Longrightarrow> fds n' = fds n \<and> addrs n' = addrs n"
    and receiving: "sk_recv sk fd len n = (got, n') \<Longrightarrow> fds n' = fds n \<and> addrs n' = addrs n"
    and closing: "fds (sk_close sk fd n) = fds n - {fd}" "addrs (sk_close sk fd n) = addrs n"
begin

lemma delivers_tracked: "delivers sk fd n raw n' \<Longrightarrow> fds n' = fds n \<and> addrs n' = addrs n"
  by (induction rule: delivers.induct) (auto dest: receiving)

lemma recv_loop_tracked:
  "recv_loop sk fd raw n = Some (res, n') \<Longrightarrow> fds n' = fds n \<and> addrs n' = addrs n"
  by (auto dest: recv_loop_returns delivers_tracked)

text \<open>Whatever fails, a call that returns has closed its descriptor and freed its address list.\<close>

lemma post_releases:
  assumes "http_post sk host port path body n = Some (r, n')"
  shows "fds n' = fds n \<and> addrs n' = addrs n"
proof -
  obtain ra n1 where g: "sk_getaddrinfo sk host (to_string_int port) n = (ra, n1)" by (metis prod.collapse)
  show ?thesis
  proof (cases ra)
    case None
    with g assms resolve [OF g] show ?thesis by (simp add: http_post_def Let_def)
  next
    case (Some a)
    with resolve [OF g] have a: "fds n1 = fds n" "a \<notin> addrs n" "addrs n1 = insert a (addrs n)" by simp_all
    obtain fd n2 where s: "sk_socket sk a n1 = (fd, n2)" by (metis prod.collapse)
    show ?thesis
    proof (cases "fd < 0")
      case True
      with g s Some assms create [OF s] a free [of a n2] show ?thesis
        by (auto simp: http_post_def Let_def)
    next
      case False
      obtain rc n3 where c: "sk_connect sk fd a n2 = (rc, n3)" by (metis prod.collapse)
      let ?n4 = "sk_freeaddrinfo sk a n3"
      from create [OF s] False connecting [OF c] a free [of a n3]
      have n4: "fd \<notin> fds n" "fds ?n4 = insert fd (fds n)" "addrs ?n4 = addrs n" by auto
      obtain rs n5 where m: "sk_send sk fd (http_request host port path body) ?n4 = (rs, n5)" by (metis prod.collapse)
      from n4 sending [OF m] have n5: "fds n5 = insert fd (fds n)" "addrs n5 = addrs n" by simp_all
      consider (refused) "rc < 0" "n' = sk_close sk fd ?n4" | (unsent) "rc \<ge> 0" "n' = sk_close sk fd n5"
        | (received) raw n6 where "recv_loop sk fd [] n5 = Some (raw, n6)" "n' = sk_close sk fd n6"
        using assms g Some s False c m
        by (auto simp: http_post_def Let_def split: if_splits option.splits prod.splits)
      then show ?thesis
      proof cases
        case refused
        with n4 closing [of fd ?n4] show ?thesis by auto
      next
        case unsent
        with n4(1) n5 closing [of fd n5] show ?thesis by auto
      next
        case received
        with recv_loop_tracked [OF received(1)] n4(1) n5 closing [of fd n6] show ?thesis by auto
      qed
    qed
  qed
qed

end

subsection \<open>A scripted network\<close>

text \<open>
  Descriptors and address lists are numbered as they are made; the peer answers every connection with the pieces of a script and stops,
  and what it was sent is recorded. Names that are in no list of hosts do not resolve.
\<close>

record script_net =
  sn_hosts :: "string list"
  sn_open :: "int list"
  sn_addrs :: "nat list"
  sn_next :: nat
  sn_script :: "string list"
  sn_sent :: string

definition scripted :: "script_net sockets" where
  "scripted =
    \<lparr>sk_getaddrinfo = (\<lambda>host port n. if host \<in> set (sn_hosts n)
        then (Some (Suc (foldr max (sn_addrs n) 0)), n\<lparr>sn_addrs := Suc (foldr max (sn_addrs n) 0) # sn_addrs n\<rparr>) else (None, n)),
     sk_freeaddrinfo = (\<lambda>a n. n\<lparr>sn_addrs := filter (\<lambda>b. b \<noteq> a) (sn_addrs n)\<rparr>),
     sk_socket = (\<lambda>a n. (1 + foldr max (sn_open n) 2, n\<lparr>sn_open := (1 + foldr max (sn_open n) 2) # sn_open n\<rparr>)),
     sk_connect = (\<lambda>fd a n. (if sn_script n = [] then - 1 else 0, n)),
     sk_send = (\<lambda>fd msg n. (int (length msg), n\<lparr>sn_sent := sn_sent n @ msg\<rparr>)),
     sk_recv = (\<lambda>fd len n. case sn_script n of [] \<Rightarrow> ((0, []), n)
        | c # cs \<Rightarrow> ((int (length (take len c)), take len c), n\<lparr>sn_script := (if drop len c = [] then cs else drop len c # cs)\<rparr>)),
     sk_close = (\<lambda>fd n. n\<lparr>sn_open := filter (\<lambda>g. g \<noteq> fd) (sn_open n)\<rparr>)\<rparr>"

lemma foldr_max_bound: "x \<in> set xs \<Longrightarrow> (x :: 'a :: linorder) \<le> foldr max xs b" "b \<le> foldr max xs b"
  by (induction xs) (auto simp: le_max_iff_disj)

interpretation scripted: tracked_sockets scripted "\<lambda>n. set (sn_open n)" "\<lambda>n. set (sn_addrs n)"
proof
  fix n n' :: script_net and r host port a fd rc msg got len
  show "set (sn_open n') = set (sn_open n) \<and> (case r of None \<Rightarrow> set (sn_addrs n') = set (sn_addrs n)
      | Some a \<Rightarrow> a \<notin> set (sn_addrs n) \<and> set (sn_addrs n') = insert a (set (sn_addrs n)))"
    if "sk_getaddrinfo scripted host port n = (r, n')"
    using that foldr_max_bound(1) [of "Suc (foldr max (sn_addrs n) 0)" "sn_addrs n" 0]
    by (auto simp: scripted_def split: if_splits)
  show "set (sn_addrs n') = set (sn_addrs n) \<and> (if fd < 0 then set (sn_open n') = set (sn_open n)
      else fd \<notin> set (sn_open n) \<and> set (sn_open n') = insert fd (set (sn_open n)))"
    if "sk_socket scripted a n = (fd, n')"
    using that foldr_max_bound(1) [of "1 + foldr max (sn_open n) 2" "sn_open n" 2] foldr_max_bound(2) [of 2 "sn_open n"]
    by (auto simp: scripted_def)
qed (auto simp: scripted_def split: list.splits)
text \<open>The peer of the scripted network delivers its script.\<close>

lemma scripted_delivers:
  assumes "\<forall>c\<in>set (sn_script n). c \<noteq> [] \<and> length c \<le> 4096"
  shows "delivers scripted fd n (concat (sn_script n)) (n\<lparr>sn_script := []\<rparr>)"
proof -
  have "delivers scripted fd (n\<lparr>sn_script := cs\<rparr>) (concat cs) (n\<lparr>sn_script := []\<rparr>)"
    if "\<forall>c\<in>set cs. c \<noteq> [] \<and> length c \<le> 4096" for cs
    using that
  proof (induction cs)
    case Nil
    show ?case by (auto intro!: delivers_end simp: scripted_def)
  next
    case (Cons c cs)
    have "sk_recv scripted fd 4096 (n\<lparr>sn_script := c # cs\<rparr>) = ((int (length c), c), n\<lparr>sn_script := cs\<rparr>)"
      using Cons.prems by (simp add: scripted_def)
    from delivers_more [OF this _ Cons.IH] Cons.prems show ?case by auto
  qed
  from this [OF assms] show ?thesis by simp
qed

lemma scripted_exchange:
  assumes "host \<in> set (sn_hosts n)" "sn_script n \<noteq> []" "\<forall>c\<in>set (sn_script n). c \<noteq> [] \<and> length c \<le> 4096"
  obtains n' where "exchange scripted host port payload n (concat (sn_script n)) n'"
proof -
  obtain res n1 where g: "sk_getaddrinfo scripted host (to_string_int port) n = (Some res, n1)" "sn_script n1 = sn_script n"
    using assms(1) by (simp add: scripted_def)
  obtain fd n2 where s: "sk_socket scripted res n1 = (fd, n2)" "0 \<le> fd" "sn_script n2 = sn_script n"
    using g(2) foldr_max_bound(2) [of 2 "sn_open n1"] by (simp add: scripted_def)
  have c: "sk_connect scripted fd res n2 = (0, n2)" using s(3) assms(2) by (simp add: scripted_def)
  obtain sent n5 where m: "sk_send scripted fd payload (sk_freeaddrinfo scripted res n2) = (sent, n5)" "0 \<le> sent"
      "sn_script n5 = sn_script n"
    using s(3) by (simp add: scripted_def)
  have "delivers scripted fd n5 (concat (sn_script n)) (n5\<lparr>sn_script := []\<rparr>)"
    using scripted_delivers [of n5 fd] assms(3) m(3) by simp
  with g(1) s(1,2) c m(1,2) that show thesis unfolding exchange_def by blast
qed

end
