(* ===== verification/Agent_Memory.thy ===== *)
theory Agent_Memory
  imports Http_Client Api
begin

text \<open>
  The conversation memory of \<open>examples/05_agent_memory.cpp\<close>: an agent that keeps the turns of a conversation in the tables
  \<open>turns\<close> and \<open>meta\<close> of the scope \<open>agent\<close>, gives the last of them to a language model, and replaces them by a summary when
  there are many. The agent's state has the store and its world, the network, and what was written to the two consoles. The HTTP
  call is a parameter, \<open>http_post\<close> of the client when the program is put together. Errors of the tables are ignored where
  the code ignores them; dereferencing the error of a lookup and an overflow of the counter are \<open>None\<close>. The end of the theory holds \<open>main\<close>.
\<close>

subsection \<open>State and effects\<close>

record AgentConfig =
  ac_llm_host :: string
  ac_llm_port :: int
  ac_model :: string
  ac_max_ctx_turns :: int
  ac_summary_threshold :: int

definition default_agent_config :: AgentConfig where
  "default_agent_config = \<lparr>ac_llm_host = ''127.0.0.1'', ac_llm_port = 8080, ac_model = ''default'',
     ac_max_ctx_turns = 20, ac_summary_threshold = 30\<rparr>"

record ('w, 'n) Agent =
  ag_store :: "'w Store"
  ag_cfg :: AgentConfig
  ag_turn_counter :: int
  ag_world :: 'w
  ag_net :: 'n
  ag_out :: string
  ag_err :: string

type_synonym 'n poster = "string \<Rightarrow> int \<Rightarrow> string \<Rightarrow> string \<Rightarrow> ('n, Response) io"

definition io_try :: "('w, 'a) io \<Rightarrow> ('w, 'a result) io" where
  "io_try m w = (case m w of None \<Rightarrow> None | Some (r, w') \<Rightarrow> Some (Inr r, w'))"

definition on_world :: "('w, 'a) io \<Rightarrow> (('w, 'n) Agent, 'a) io" where
  "on_world m a = (case m (ag_world a) of None \<Rightarrow> None | Some (r, w) \<Rightarrow> Some (r, a\<lparr>ag_world := w\<rparr>))"

definition on_net :: "('n, 'a) io \<Rightarrow> (('w, 'n) Agent, 'a) io" where
  "on_net m a = (case m (ag_net a) of None \<Rightarrow> None | Some (r, n) \<Rightarrow> Some (r, a\<lparr>ag_net := n\<rparr>))"

definition say :: "string \<Rightarrow> (('w, 'n) Agent, unit) io" where
  "say s a = Some (Inr (), a\<lparr>ag_out := ag_out a @ s\<rparr>)"

definition complain :: "string \<Rightarrow> (('w, 'n) Agent, unit) io" where
  "complain s a = Some (Inr (), a\<lparr>ag_err := ag_err a @ s\<rparr>)"

subsection \<open>Tables and keys\<close>

definition agent_table :: "(string \<Rightarrow> 64 word) \<Rightarrow> string \<Rightarrow> (('w, 'n) Agent, 'w TableRef) io" where
  "agent_table hash nm a = (case store_db hash (ag_store a) ''agent'' of
      Some (Inr d) \<Rightarrow> (case db_table hash d nm of Some (Inr t) \<Rightarrow> Some (Inr t, a) | _ \<Rightarrow> None)
    | _ \<Rightarrow> None)"

definition turns_tbl :: "(string \<Rightarrow> 64 word) \<Rightarrow> (('w, 'n) Agent, 'w TableRef) io" where
  "turns_tbl hash = agent_table hash ''turns''"

definition meta_tbl :: "(string \<Rightarrow> 64 word) \<Rightarrow> (('w, 'n) Agent, 'w TableRef) io" where
  "meta_tbl hash = agent_table hash ''meta''"

text \<open>The buffer has room for 31 characters.\<close>

definition turn_key :: "int \<Rightarrow> string \<Rightarrow> string" where
  "turn_key n field = take 31 (''turn:'' @ pad4 n @ '':'' @ field)"

definition turns_get :: "(string \<Rightarrow> 64 word) \<Rightarrow> string \<Rightarrow> (('w, 'n) Agent, string option result) io" where
  "turns_get hash key = io_bind (turns_tbl hash) (\<lambda>t. io_try (on_world (table_get_raw t key)))"

definition meta_get :: "(string \<Rightarrow> 64 word) \<Rightarrow> string \<Rightarrow> (('w, 'n) Agent, string option result) io" where
  "meta_get hash key = io_bind (meta_tbl hash) (\<lambda>t. io_try (on_world (table_get_raw t key)))"

definition meta_put :: "(string \<Rightarrow> 64 word) \<Rightarrow> string \<Rightarrow> string \<Rightarrow> (('w, 'n) Agent, unit) io" where
  "meta_put hash key val = io_bind (meta_tbl hash) (\<lambda>t.
     io_bind (io_try (on_world (table_put_raw t key val))) (\<lambda>_. io_return ()))"

definition set_counter :: "int \<Rightarrow> (('w, 'n) Agent, unit) io" where
  "set_counter n a = (if in_int n then Some (Inr (), a\<lparr>ag_turn_counter := n\<rparr>) else None)"

subsection \<open>Turns\<close>

definition restore_turn_counter :: "(string \<Rightarrow> 64 word) \<Rightarrow> (('w, 'n) Agent, unit) io" where
  "restore_turn_counter hash = io_bind (meta_get hash ''turn_counter'') (\<lambda>got. case got of
      Inr (Some v) \<Rightarrow> (case stoi v of
          None \<Rightarrow> (\<lambda>a. None)
        | Some n \<Rightarrow> io_bind (set_counter n) (\<lambda>_.
            say (''  [restored '' @ to_string_int n @ '' turns from previous session]'' @ [line_feed])))
    | _ \<Rightarrow> io_return ())"

definition store_turn :: "(string \<Rightarrow> 64 word) \<Rightarrow> string \<Rightarrow> string \<Rightarrow> (('w, 'n) Agent, unit) io" where
  "store_turn hash role content a = (let n = ag_turn_counter a in
     io_bind (turns_tbl hash) (\<lambda>t.
     io_bind (io_try (on_world (table_put_raw t (turn_key n ''role'') role))) (\<lambda>_.
     io_bind (io_try (on_world (table_put_raw t (turn_key n ''content'') content))) (\<lambda>_.
     io_bind (set_counter (n + 1)) (\<lambda>_.
     meta_put hash ''turn_counter'' (to_string_int (n + 1)))))) a)"

text \<open>Both fields of a turn, if both can be read.\<close>

definition read_turn :: "(string \<Rightarrow> 64 word) \<Rightarrow> int \<Rightarrow> (('w, 'n) Agent, (string \<times> string) option) io" where
  "read_turn hash i = io_bind (turns_get hash (turn_key i ''role'')) (\<lambda>role.
     io_bind (turns_get hash (turn_key i ''content'')) (\<lambda>content.
       io_return (case (role, content) of (Inr (Some r), Inr (Some c)) \<Rightarrow> Some (r, c) | _ \<Rightarrow> None)))"

fun each_turn :: "(string \<Rightarrow> 64 word) \<Rightarrow> ('a \<Rightarrow> string \<times> string \<Rightarrow> 'a) \<Rightarrow> 'a \<Rightarrow> int list \<Rightarrow> (('w, 'n) Agent, 'a) io" where
  "each_turn hash f acc [] = io_return acc"
| "each_turn hash f acc (i # is) = io_bind (read_turn hash i) (\<lambda>r.
     each_turn hash f (case r of Some m \<Rightarrow> f acc m | None \<Rightarrow> acc) is)"

definition count_up :: "int \<Rightarrow> int \<Rightarrow> int list" where
  "count_up start stop = map int [nat start..<nat stop]"

subsection \<open>The context of a call\<close>

definition system_prompt :: string where
  "system_prompt = ''You are a helpful chat assistant. Be brief and direct. '' @
     ''Answer questions using the conversation history provided.''"

definition summary_header :: string where
  "summary_header = ''[Memory summary of earlier conversation]: ''"

definition build_context :: "(string \<Rightarrow> 64 word) \<Rightarrow> (('w, 'n) Agent, (string \<times> string) list) io" where
  "build_context hash a = (let n = ag_turn_counter a; mx = ac_max_ctx_turns (ag_cfg a) in
     if \<not> in_int (n - mx) then None
     else io_bind (meta_get hash ''summary'') (\<lambda>sm.
       each_turn hash (\<lambda>ms m. ms @ [m])
         ((''system'', system_prompt) #
          (case sm of Inr (Some v) \<Rightarrow> if v = [] then [] else [(''system'', summary_header @ v)] | _ \<Rightarrow> []))
         (count_up (max 0 (n - mx)) n)) a)"

subsection \<open>Calling the model\<close>

definition chat_prompt :: "(string \<times> string) list \<Rightarrow> string" where
  "chat_prompt messages =
     concat (map (\<lambda>(role, content). ''<|'' @ role @ ''|>'' @ [line_feed] @ content @ ''</s>'' @ [line_feed]) messages) @
     ''<|assistant|>'' @ [line_feed]"

definition llm_body :: "string \<Rightarrow> string" where
  \<open>llm_body prompt = ''{"prompt":"'' @ escape prompt @ ''"'' @
     '',"temperature":0.4,"n_predict":150'' @
     '',"top_p":0.85,"top_k":30'' @
     '',"repeat_penalty":1.3,"frequency_penalty":0.3,"presence_penalty":0.3'' @
     '',"stop":["</s>","<|user|>","<|system|>","'' @ [backslash] @ ''nuser>","'' @ [backslash] @ ''nyou>"]'' @
     ''}''\<close>

definition call_llm :: "'n poster \<Rightarrow> AgentConfig \<Rightarrow> (string \<times> string) list \<Rightarrow> ('n, string) io" where
  "call_llm post cfg messages =
     io_bind (post (ac_llm_host cfg) (ac_llm_port cfg) ''/completion'' (llm_body (chat_prompt messages))) (\<lambda>resp.
       if re_status resp \<noteq> 200 then
         io_throw (Error ''LLM'' (''HTTP '' @ to_string_int (re_status resp) @ '': '' @ take 200 (re_body resp)))
       else let content = extract_string (re_body resp) ''content'' in
         if content = [] then io_throw (Error ''LLM'' ''no content in response'')
         else io_return content)"

definition ask :: "'n poster \<Rightarrow> (string \<times> string) list \<Rightarrow> (('w, 'n) Agent, string result) io" where
  "ask post messages a = io_try (on_net (call_llm post (ag_cfg a) messages)) a"

subsection \<open>Compaction\<close>

definition summarize_prompt :: string where
  "summarize_prompt = ''Summarize the conversation below into one short paragraph (3-5 sentences). '' @
     ''Keep only key facts, names, decisions, and action items. No filler.''"

definition turn_line :: "string \<times> string \<Rightarrow> string" where
  "turn_line m = fst m @ '': '' @ snd m @ [line_feed]"

definition compact_messages :: "string \<Rightarrow> string \<Rightarrow> (string \<times> string) list" where
  "compact_messages existing whole =
     (''system'', summarize_prompt) #
     (if existing \<noteq> [] then [(''user'', ''Previous summary:'' @ [line_feed] @ existing)] else []) @
     [(''user'', ''New conversation:'' @ [line_feed] @ whole)]"

fun delete_turns :: "(string \<Rightarrow> 64 word) \<Rightarrow> int list \<Rightarrow> (('w, 'n) Agent, unit) io" where
  "delete_turns hash [] = io_return ()"
| "delete_turns hash (i # is) =
     io_bind (turns_tbl hash) (\<lambda>t. io_bind (io_try (on_world (table_del t (turn_key i ''role'')))) (\<lambda>_.
     io_bind (turns_tbl hash) (\<lambda>t. io_bind (io_try (on_world (table_del t (turn_key i ''content'')))) (\<lambda>_.
       delete_turns hash is))))"

definition compact_history :: "(string \<Rightarrow> 64 word) \<Rightarrow> 'n poster \<Rightarrow> (('w, 'n) Agent, unit) io" where
  "compact_history hash post a = (let n = ag_turn_counter a in
     if n = 0 then say (''  [nothing to compact]'' @ [line_feed]) a
     else io_bind (each_turn hash (\<lambda>s m. s @ turn_line m) [] (count_up 0 n)) (\<lambda>whole.
       io_bind (meta_get hash ''summary'') (\<lambda>old_sum.
       io_bind (ask post (compact_messages (case old_sum of Inr (Some v) \<Rightarrow> v | _ \<Rightarrow> []) whole)) (\<lambda>summary. case summary of
           Inl e \<Rightarrow> complain (''  [compact failed: '' @ err_message e @ '']'' @ [line_feed])
         | Inr txt \<Rightarrow>
             io_bind (delete_turns hash (count_up 0 n)) (\<lambda>_.
             io_bind (meta_put hash ''summary'' txt) (\<lambda>_.
             io_bind (set_counter 0) (\<lambda>_.
             io_bind (meta_put hash ''turn_counter'' ''0'') (\<lambda>_.
               say (''  [compacted to summary: '' @ decimal (length txt) @ '' chars]'' @ [line_feed])))))))) a)"

subsection \<open>The loop\<close>

fun dump_loop :: "(string \<Rightarrow> 64 word) \<Rightarrow> int list \<Rightarrow> (('w, 'n) Agent, unit) io" where
  "dump_loop hash [] = io_return ()"
| "dump_loop hash (i # is) = io_bind (read_turn hash i) (\<lambda>r. io_bind (case r of
      Some (role, content) \<Rightarrow> say (''  ['' @ role @ '']: '' @ content @ [line_feed])
    | None \<Rightarrow> io_return ()) (\<lambda>_. dump_loop hash is))"

definition dump_history :: "(string \<Rightarrow> 64 word) \<Rightarrow> (('w, 'n) Agent, unit) io" where
  "dump_history hash a = (let n = ag_turn_counter a in
     io_bind (meta_get hash ''summary'') (\<lambda>sm.
     io_bind (case sm of
         Inr (Some v) \<Rightarrow> if v = [] then io_return () else say (''  [summary]: '' @ v @ [line_feed])
       | _ \<Rightarrow> io_return ()) (\<lambda>_.
     io_bind (dump_loop hash (count_up 0 n)) (\<lambda>_.
       if n = 0 then say (''  (no turns stored)'' @ [line_feed]) else io_return ()))) a)"

text \<open>One line that is not a command: store it, ask the model with the context, store the reply, compact a long history.\<close>

definition auto_compact :: "(string \<Rightarrow> 64 word) \<Rightarrow> 'n poster \<Rightarrow> (('w, 'n) Agent, unit) io" where
  "auto_compact hash post a =
     (if ag_turn_counter a > ac_summary_threshold (ag_cfg a)
      then io_bind (say (''  [auto-compacting '' @ to_string_int (ag_turn_counter a) @ '' turns...]'' @ [line_feed]))
        (\<lambda>_. compact_history hash post) a
      else Some (Inr (), a))"

definition converse :: "(string \<Rightarrow> 64 word) \<Rightarrow> 'n poster \<Rightarrow> string \<Rightarrow> (('w, 'n) Agent, unit) io" where
  "converse hash post line =
     io_bind (store_turn hash ''user'' line) (\<lambda>_.
     io_bind (build_context hash) (\<lambda>messages.
     io_bind (ask post messages) (\<lambda>reply. case reply of
         Inl e \<Rightarrow> complain (''  [llm error: '' @ err_message e @ '']'' @ [line_feed])
       | Inr txt \<Rightarrow>
           io_bind (store_turn hash ''assistant'' txt) (\<lambda>_.
           io_bind (say (''agent> '' @ txt @ [line_feed, line_feed])) (\<lambda>_.
             auto_compact hash post)))))"

fun chat_loop :: "(string \<Rightarrow> 64 word) \<Rightarrow> 'n poster \<Rightarrow> string list \<Rightarrow> (('w, 'n) Agent, unit) io" where
  "chat_loop hash post [] = say ''you> ''"
| "chat_loop hash post (line # lines) = io_bind (say ''you> '') (\<lambda>_.
     if line = ''/quit'' then io_return ()
     else if line = [] then chat_loop hash post lines
     else if line = ''/history'' then io_bind (dump_history hash) (\<lambda>_. chat_loop hash post lines)
     else if line = ''/summary'' then io_bind (compact_history hash post) (\<lambda>_. chat_loop hash post lines)
     else io_bind (converse hash post line) (\<lambda>_. chat_loop hash post lines))"

definition greeting :: string where
  "greeting = [line_feed, CHR 0xF0, CHR 0x9F, CHR 0xA6, CHR 0x8E] @
     '' Agent ready. Type /quit to exit, /history to dump, /summary to compact.'' @ [line_feed, line_feed]"

definition agent_run :: "(string \<Rightarrow> 64 word) \<Rightarrow> 'n poster \<Rightarrow> string list \<Rightarrow> (('w, 'n) Agent, unit) io" where
  "agent_run hash post lines = io_bind (say greeting) (\<lambda>_.
     io_bind (restore_turn_counter hash) (\<lambda>_.
     io_bind (chat_loop hash post lines) (\<lambda>_.
       say (''Goodbye.'' @ [line_feed]))))"

definition new_agent :: "'w Store \<Rightarrow> AgentConfig \<Rightarrow> 'w \<Rightarrow> 'n \<Rightarrow> ('w, 'n) Agent" where
  "new_agent st cfg w n = \<lparr>ag_store = st, ag_cfg = cfg, ag_turn_counter = 0, ag_world = w, ag_net = n,
     ag_out = [], ag_err = []\<rparr>"

text \<open>
  The program of \<open>examples/05_agent_memory.cpp\<close>: its arguments, the download of the model, the choice of the backend, and the
  run of the agent. The file system and \<open>std::system\<close> are a record of functions. The result is the exit code, what was written to
  the consoles, and the worlds; \<open>None\<close> is an exception that nobody catches.
\<close>

subsection \<open>The model file\<close>

definition default_model_dir :: string where "default_model_dir = ''models''"
definition default_model_file :: string where "default_model_file = ''tinyllama-1.1b-chat-v1.0.Q4_K_M.gguf''"

definition model_url :: string where
  "model_url = ''https://huggingface.co/TheBloke/TinyLlama-1.1B-Chat-v1.0-GGUF/resolve/main/'' @
     ''tinyllama-1.1b-chat-v1.0.Q4_K_M.gguf''"

record 'h host =
  ho_exists :: "string \<Rightarrow> 'h \<Rightarrow> bool"
  ho_create_directories :: "string \<Rightarrow> 'h \<Rightarrow> 'h option"
  ho_system :: "string \<Rightarrow> 'h \<Rightarrow> int \<times> 'h"

text \<open>\<open>parent_path()\<close>, and a path on a stream, which is quoted.\<close>

definition parent_path :: "string \<Rightarrow> string" where
  "parent_path p = (let upto = rev (dropWhile (\<lambda>c. c \<noteq> CHR ''/'') (rev p));
       trimmed = rev (dropWhile (\<lambda>c. c = CHR ''/'') (rev upto))
     in if trimmed = [] \<and> upto \<noteq> [] then ''/'' else trimmed)"

definition shown_path :: "string \<Rightarrow> string" where
  "shown_path p = json_quote #
     concat (map (\<lambda>c. if c = json_quote \<or> c = backslash then [backslash, c] else [c]) p) @ [json_quote]"

definition curl_command :: "string \<Rightarrow> string" where
  "curl_command p = ''curl -L --progress-bar -o '' @ [json_quote] @ p @ [json_quote] @ '' '' @ [json_quote] @ model_url @ [json_quote]"

definition ensure_model :: "'h host \<Rightarrow> string \<Rightarrow> 'h \<Rightarrow> (bool \<times> string \<times> string \<times> 'h) option" where
  "ensure_model ho p h =
     (if ho_exists ho p h then Some (True, ''Model found: '' @ shown_path p @ [line_feed], [], h)
      else let out = ''Model not found at '' @ shown_path p @ [line_feed] @
             ''Downloading TinyLlama 1.1B (Q4_K_M, ~670 MB)...'' @ [line_feed] @ ''  (this only happens once)'' @ [line_feed] in
        case ho_create_directories ho (parent_path p) h of
          None \<Rightarrow> None
        | Some h1 \<Rightarrow> (case ho_system ho (curl_command p) h1 of (rc, h2) \<Rightarrow>
            if rc \<noteq> 0 then Some (False, out, ''Download failed (exit '' @ to_string_int rc @
                ''). Install curl or download manually:'' @ [line_feed] @
                ''  curl -L -o '' @ shown_path p @ '' '' @ model_url @ [line_feed], h2)
            else Some (True, out @ ''Download complete: '' @ shown_path p @ [line_feed], [], h2)))"

subsection \<open>Arguments\<close>

record MainOptions =
  mo_mode :: string
  mo_db_path :: string
  mo_host :: string
  mo_port :: int
  mo_model_path :: string
  mo_skip_download :: bool

definition default_options :: MainOptions where
  "default_options = \<lparr>mo_mode = ''--memory'', mo_db_path = ''/tmp/celer_agent'', mo_host = ''127.0.0.1'', mo_port = 8080,
     mo_model_path = default_model_dir @ ''/'' @ default_model_file, mo_skip_download = False\<rparr>"

datatype parsed_args = Run MainOptions | Help

fun parse_args :: "MainOptions \<Rightarrow> string list \<Rightarrow> parsed_args option" where
  "parse_args mo [] = Some (Run mo)"
| "parse_args mo (arg # rest) =
     (if arg = ''--rocksdb'' then parse_args (mo\<lparr>mo_mode := ''--rocksdb''\<rparr>) rest
      else if arg = ''--memory'' then parse_args (mo\<lparr>mo_mode := ''--memory''\<rparr>) rest
      else if arg = ''--path'' \<and> rest \<noteq> [] then parse_args (mo\<lparr>mo_db_path := hd rest\<rparr>) (tl rest)
      else if arg = ''--host'' \<and> rest \<noteq> [] then parse_args (mo\<lparr>mo_host := hd rest\<rparr>) (tl rest)
      else if arg = ''--port'' \<and> rest \<noteq> [] then
        (case stoi (hd rest) of None \<Rightarrow> None | Some p \<Rightarrow> parse_args (mo\<lparr>mo_port := p\<rparr>) (tl rest))
      else if arg = ''--model'' \<and> rest \<noteq> [] then parse_args (mo\<lparr>mo_model_path := hd rest\<rparr>) (tl rest)
      else if arg = ''--no-download'' then parse_args (mo\<lparr>mo_skip_download := True\<rparr>) rest
      else if arg = ''--help'' then Some Help
      else parse_args mo rest)"

definition usage :: "string \<Rightarrow> string" where
  "usage prog = ''Usage: '' @ prog @ '' [--rocksdb|--memory] [--path DIR] [--host H] [--port P] [--model FILE]'' @ [line_feed] @
     ''  --rocksdb     Persist memory to disk (survives restarts)'' @ [line_feed] @
     ''  --memory      Ephemeral in-memory (default, zero deps)'' @ [line_feed] @
     ''  --path DIR    RocksDB storage path (default: /tmp/celer_agent)'' @ [line_feed] @
     ''  --host H      llama-server host (default: 127.0.0.1)'' @ [line_feed] @
     ''  --port P      llama-server port (default: 8080)'' @ [line_feed] @
     ''  --model FILE  Path to GGUF model (default: models/tinyllama-...gguf)'' @ [line_feed] @
     ''  --no-download Skip automatic model download'' @ [line_feed]"

subsection \<open>The program\<close>

definition agent_schema :: "TableDescriptor list" where
  "agent_schema = [\<lparr>td_scope = ''agent'', td_table = ''turns''\<rparr>, \<lparr>td_scope = ''agent'', td_table = ''meta''\<rparr>]"

text \<open>\<open>rocks\<close> is absent when the program is compiled without RocksDB.\<close>

definition choose_factory :: "'w BackendFactory \<Rightarrow> (string \<Rightarrow> 'w BackendFactory) option \<Rightarrow> MainOptions \<Rightarrow>
    'w BackendFactory option \<times> string \<times> string" where
  "choose_factory mem rocks mo = (if mo_mode mo = ''--rocksdb'' then (case rocks of
       Some f \<Rightarrow> (Some (f (mo_db_path mo)), ''Backend: RocksDB at '' @ mo_db_path mo @ [line_feed], [])
     | None \<Rightarrow> (None, [], ''Error: compiled without RocksDB. Use --memory or install librocksdb-dev.'' @ [line_feed]))
   else (Some mem, ''Backend: in-memory (ephemeral)'' @ [line_feed], []))"

definition open_and_run :: "(string \<Rightarrow> 64 word) \<Rightarrow> (string list \<Rightarrow> string list) \<Rightarrow> 'n poster \<Rightarrow> 'w BackendFactory \<Rightarrow>
    AgentConfig \<Rightarrow> string list \<Rightarrow> 'w \<Rightarrow> 'n \<Rightarrow> (int \<times> string \<times> string \<times> 'w \<times> 'n) option" where
  "open_and_run hash ord post factory cfg lines w n = (case build_tree hash ord factory agent_schema w of
      None \<Rightarrow> None
    | Some (Inl e, w1) \<Rightarrow> Some (1, [], ''Failed to open store: '' @ err_message e @ [line_feed], w1, n)
    | Some (Inr root, w1) \<Rightarrow>
        (case agent_run hash post lines (new_agent \<lparr>sr_root = root, sr_resources = []\<rparr> cfg w1 n) of
           None \<Rightarrow> None
         | Some (r, a) \<Rightarrow> Some (0, ag_out a, ag_err a, store_destructor (ag_store a) (ag_world a), ag_net a)))"

definition agent_main :: "(string \<Rightarrow> 64 word) \<Rightarrow> (string list \<Rightarrow> string list) \<Rightarrow> 'n poster \<Rightarrow> 'w BackendFactory \<Rightarrow>
    (string \<Rightarrow> 'w BackendFactory) option \<Rightarrow> 'h host \<Rightarrow> string \<Rightarrow> string list \<Rightarrow> string list \<Rightarrow> 'w \<Rightarrow> 'n \<Rightarrow> 'h \<Rightarrow>
    ((int \<times> string \<times> string \<times> 'w \<times> 'n) \<times> 'h) option" where
  "agent_main hash ord post mem rocks ho prog args lines w n h = (case parse_args default_options args of
      None \<Rightarrow> None
    | Some Help \<Rightarrow> Some ((0, usage prog, [], w, n), h)
    | Some (Run mo) \<Rightarrow>
        (case (if mo_skip_download mo then Some (True, [], [], h) else ensure_model ho (mo_model_path mo) h) of
          None \<Rightarrow> None
        | Some (ready, out, er, h1) \<Rightarrow>
            if \<not> ready then Some ((1, out, er, w, n), h1)
            else case choose_factory mem rocks mo of
              (None, out1, er1) \<Rightarrow> Some ((1, out @ out1, er @ er1, w, n), h1)
            | (Some factory, out1, er1) \<Rightarrow>
                (case open_and_run hash ord post factory
                    (default_agent_config\<lparr>ac_llm_host := mo_host mo, ac_llm_port := mo_port mo\<rparr>) lines w n of
                  None \<Rightarrow> None
                | Some (rc, out2, er2, w1, n1) \<Rightarrow> Some ((rc, out @ out1 @ out2, er @ er1 @ er2, w1, n1), h1))))"

text \<open>The program without arguments, its model in place: a session of the agent on the in-memory backend.\<close>

lemma main_runs_agent:
  assumes "ho_exists ho (default_model_dir @ ''/'' @ default_model_file) h"
  shows "map_option (\<lambda>((rc, _, _, w', n'), h'). (rc, w', n', h')) (agent_main hash ord post mem rocks ho prog [] lines w n h) =
    map_option (\<lambda>(rc, _, _, w', n'). (rc, w', n', h)) (open_and_run hash ord post mem default_agent_config lines w n)"
proof -
  have opts: "parse_args default_options [] = Some (Run default_options)" by simp
  have plain: "mo_model_path default_options = default_model_dir @ ''/'' @ default_model_file" "\<not> mo_skip_download default_options"
    "choose_factory mem rocks default_options = (Some mem, ''Backend: in-memory (ephemeral)'' @ [line_feed], [])"
    "default_agent_config\<lparr>ac_llm_host := mo_host default_options, ac_llm_port := mo_port default_options\<rparr> = default_agent_config"
    by (simp_all add: default_options_def choose_factory_def default_agent_config_def)
  have ready: "\<exists>out. ensure_model ho (mo_model_path default_options) h = Some (True, out, [], h)"
    using assms by (simp add: ensure_model_def plain(1))
  then obtain out where "ensure_model ho (mo_model_path default_options) h = Some (True, out, [], h)" ..
  then show ?thesis
    by (cases "open_and_run hash ord post mem default_agent_config lines w n")
      (simp_all add: agent_main_def opts plain(2-4) split: prod.splits)
qed

end
