(* ===== verification/Agent_Memory_Laws.thy ===== *)
theory Agent_Memory_Laws
  imports Agent_Memory Api_Laws
begin

text \<open>
  What the agent remembers. A memory is the list of turns and the summary; \<open>persisted\<close> says how the two tables hold one. The
  specification of a conversation works on memories and the network alone. The locale \<open>agent_turns\<close> is what the agent needs
  of its tables; in it, what is read is the memory, and a summary that is refused loses it.
\<close>

subsection \<open>Keys\<close>

lemma turn_key_untruncated:
  "0 \<le> i \<Longrightarrow> i < 2 ^ 31 \<Longrightarrow> length f \<le> 15 \<Longrightarrow> turn_key i f = ''turn:'' @ pad4 i @ '':'' @ f"
  using pad4_length [of i] by (simp add: turn_key_def)

lemma turn_key_inject:
  assumes "0 \<le> i" "i < 2 ^ 31" "0 \<le> j" "j < 2 ^ 31" "length f \<le> 15" "length g \<le> 15"
    and "turn_key i f = turn_key j g"
  shows "i = j \<and> f = g"
proof -
  have eq: "pad4 i @ CHR '':'' # f = pad4 j @ CHR '':'' # g"
    using assms by (simp add: turn_key_untruncated)
  have cut: "takeWhile is_digit (pad4 k @ CHR '':'' # h) = pad4 k" if "0 \<le> k" for k h
    using pad4_digits [OF that] by (simp add: list_all_iff is_digit_def)
  have "pad4 i = pad4 j" using arg_cong [OF eq, of "takeWhile is_digit"] assms(1,3) by (simp add: cut)
  with eq pad4_inject [OF assms(1,3)] show ?thesis by simp
qed

subsection \<open>Memories\<close>

type_synonym memory = "(string \<times> string) list \<times> string option"

definition turn_fields :: "string list" where
  "turn_fields = [''role'', ''content'']"

definition holds_turns :: "contents \<Rightarrow> (string \<times> string) list \<Rightarrow> bool" where
  "holds_turns c ts \<longleftrightarrow>
     (\<forall>i < length ts. c (turn_key (int i) ''role'') = Some (fst (ts ! i)) \<and>
        c (turn_key (int i) ''content'') = Some (snd (ts ! i))) \<and>
     (\<forall>k. c k \<noteq> None \<longrightarrow> (\<exists>i < length ts. \<exists>f\<in>set turn_fields. k = turn_key (int i) f))"

definition holds_counter :: "contents \<Rightarrow> nat \<Rightarrow> bool" where
  "holds_counter c n \<longleftrightarrow> c ''turn_counter'' = Some (to_string_int (int n)) \<or> (c ''turn_counter'' = None \<and> n = 0)"

definition persisted :: "contents \<Rightarrow> contents \<Rightarrow> memory \<Rightarrow> bool" where
  "persisted turns meta m \<longleftrightarrow> length (fst m) < 2 ^ 31 \<and> holds_turns turns (fst m) \<and>
     holds_counter meta (length (fst m)) \<and> meta ''summary'' = snd m"

lemma holds_turns_Nil: "holds_turns c [] \<longleftrightarrow> c = Map.empty"
  by (auto simp: holds_turns_def)

lemma holds_turns_snoc:
  assumes "holds_turns c ts" "length ts < 2 ^ 31 - 1"
  shows "holds_turns (c(turn_key (int (length ts)) ''role'' \<mapsto> r, turn_key (int (length ts)) ''content'' \<mapsto> t)) (ts @ [(r, t)])"
proof -
  have old: "turn_key (int i) f = turn_key (int (length ts)) g \<longleftrightarrow> i = length ts \<and> f = g"
    if "i \<le> length ts" "f \<in> set turn_fields" "g \<in> set turn_fields" for i f g
    using turn_key_inject [of "int i" "int (length ts)" f g] assms(2) that by (auto simp: turn_fields_def)
  have "''role'' \<in> set turn_fields" "''content'' \<in> set turn_fields" by (simp_all add: turn_fields_def)
  note key = old [OF _ this(1) this(1)] old [OF _ this(1) this(2)] old [OF _ this(2) this(1)] old [OF _ this(2) this(2)]
  show ?thesis
    unfolding holds_turns_def
  proof (intro conjI allI impI)
    fix i assume "i < length (ts @ [(r, t)])"
    then have i: "i \<le> length ts" by simp
    show "(c(turn_key (int (length ts)) ''role'' \<mapsto> r, turn_key (int (length ts)) ''content'' \<mapsto> t)) (turn_key (int i) ''role'') =
        Some (fst ((ts @ [(r, t)]) ! i))"
      using assms(1) i key [OF i] key [of "length ts"] by (auto simp: holds_turns_def nth_append)
    show "(c(turn_key (int (length ts)) ''role'' \<mapsto> r, turn_key (int (length ts)) ''content'' \<mapsto> t)) (turn_key (int i) ''content'') =
        Some (snd ((ts @ [(r, t)]) ! i))"
      using assms(1) i key [OF i] key [of "length ts"] by (auto simp: holds_turns_def nth_append)
  next
    fix k
    assume k: "(c(turn_key (int (length ts)) ''role'' \<mapsto> r, turn_key (int (length ts)) ''content'' \<mapsto> t)) k \<noteq> None"
    show "\<exists>i<length (ts @ [(r, t)]). \<exists>f\<in>set turn_fields. k = turn_key (int i) f"
    proof (cases "c k = None")
      case True
      with k show ?thesis by (auto simp: turn_fields_def split: if_splits)
    next
      case False
      with assms(1) obtain i f where "i < length ts" "f \<in> set turn_fields" "k = turn_key (int i) f"
        unfolding holds_turns_def by blast
      then show ?thesis by (intro exI [of _ i]) auto
    qed
  qed
qed

subsection \<open>The specification\<close>

definition summary_text :: "string option \<Rightarrow> string" where
  "summary_text sm = (case sm of None \<Rightarrow> [] | Some v \<Rightarrow> v)"

definition spec_context :: "nat \<Rightarrow> memory \<Rightarrow> (string \<times> string) list" where
  "spec_context mx m = (''system'', system_prompt) #
     (if summary_text (snd m) = [] then [] else [(''system'', summary_header @ summary_text (snd m))]) @
     drop (length (fst m) - mx) (fst m)"

type_synonym 'n llm = "(string \<times> string) list \<Rightarrow> ('n, string) io"
type_synonym 'n talk = "memory \<times> 'n"

definition spec_store :: "string \<times> string \<Rightarrow> 'n talk \<Rightarrow> 'n talk option" where
  "spec_store turn s = (case s of ((ts, sm), n) \<Rightarrow>
     if length ts + 1 < 2 ^ 31 then Some ((ts @ [turn], sm), n) else None)"

definition spec_compact :: "'n llm \<Rightarrow> 'n talk \<Rightarrow> 'n talk option" where
  "spec_compact llm s = (case s of ((ts, sm), n) \<Rightarrow>
     if ts = [] then Some s
     else case llm (compact_messages (summary_text sm) (concat (map turn_line ts))) n of
       None \<Rightarrow> None
     | Some (Inl e, n') \<Rightarrow> Some ((ts, sm), n')
     | Some (Inr rep, n') \<Rightarrow> Some (([], Some rep), n'))"

definition spec_converse :: "'n llm \<Rightarrow> AgentConfig \<Rightarrow> string \<Rightarrow> 'n talk \<Rightarrow> 'n talk option" where
  "spec_converse llm cfg line s = Option.bind (spec_store (''user'', line) s) (\<lambda>(m, n).
     case llm (spec_context (nat (ac_max_ctx_turns cfg)) m) n of
       None \<Rightarrow> None
     | Some (Inl e, n') \<Rightarrow> Some (m, n')
     | Some (Inr rep, n') \<Rightarrow> Option.bind (spec_store (''assistant'', rep) (m, n')) (\<lambda>s'.
         if int (length (fst (fst s'))) > ac_summary_threshold cfg then spec_compact llm s' else Some s'))"

fun spec_chat :: "'n llm \<Rightarrow> AgentConfig \<Rightarrow> string list \<Rightarrow> 'n talk \<Rightarrow> 'n talk option" where
  "spec_chat llm cfg [] s = Some s"
| "spec_chat llm cfg (line # lines) s =
     (if line = ''/quit'' then Some s
      else if line = [] \<or> line = ''/history'' then spec_chat llm cfg lines s
      else Option.bind (if line = ''/summary'' then spec_compact llm s else spec_converse llm cfg line s)
        (spec_chat llm cfg lines))"

subsection \<open>What the agent needs of its tables\<close>

text \<open>
  The tables are found in the store; \<open>turns\<close> works, \<open>meta\<close> may refuse a write, and what is written to one is not seen in the other.
\<close>

locale agent_turns =
  fixes hash :: "string \<Rightarrow> 64 word" and st :: "'w Store" and d :: "'w DbRef" and tt mt :: "'w TableRef"
    and turns meta :: "'w \<Rightarrow> contents" and inv :: "'w \<Rightarrow> bool"
  assumes tables: "store_db hash st ''agent'' = Some (Inr d)" "db_table hash d ''turns'' = Some (Inr tt)"
      "db_table hash d ''meta'' = Some (Inr mt)"
    and turns_get: "inv w \<Longrightarrow> table_get_raw tt k w = Some (Inr (turns w k), w)"
    and turns_put: "inv w \<Longrightarrow> \<exists>w'. table_put_raw tt k v w = Some (Inr (), w') \<and> inv w' \<and>
      turns w' = (turns w)(k \<mapsto> v) \<and> meta w' = meta w"
    and turns_del: "inv w \<Longrightarrow> \<exists>w'. table_del tt k w = Some (Inr (), w') \<and> inv w' \<and>
      turns w' = (turns w)(k := None) \<and> meta w' = meta w"
    and meta_get: "inv w \<Longrightarrow> table_get_raw mt k w = Some (Inr (meta w k), w)"
    and meta_put: "inv w \<Longrightarrow> \<exists>r w'. table_put_raw mt k v w = Some (r, w') \<and> inv w' \<and> turns w' = turns w \<and>
      meta w' = (if is_ok r then (meta w)(k \<mapsto> v) else meta w)"
begin

definition sound :: "AgentConfig \<Rightarrow> ('w, 'n) Agent \<Rightarrow> bool" where
  "sound cfg a \<longleftrightarrow> ag_store a = st \<and> ag_cfg a = cfg \<and> inv (ag_world a)"

definition talks :: "AgentConfig \<Rightarrow> ('w, 'n) Agent \<Rightarrow> 'n talk \<Rightarrow> bool" where
  "talks cfg a s \<longleftrightarrow> sound cfg a \<and> ag_net a = snd s \<and> ag_turn_counter a = int (length (fst (fst s))) \<and>
     persisted (turns (ag_world a)) (meta (ag_world a)) (fst s)"

lemma find_tables: "ag_store a = st \<Longrightarrow> turns_tbl hash a = Some (Inr tt, a)" "ag_store a = st \<Longrightarrow> meta_tbl hash a = Some (Inr mt, a)"
  by (simp_all add: turns_tbl_def meta_tbl_def agent_table_def tables)

lemma read_tables:
  assumes "sound cfg a"
  shows "Agent_Memory.turns_get hash k a = Some (Inr (Inr (turns (ag_world a) k)), a)"
    "Agent_Memory.meta_get hash k a = Some (Inr (Inr (meta (ag_world a) k)), a)"
  using assms turns_get [of "ag_world a" k] meta_get [of "ag_world a" k]
  by (simp_all add: sound_def Agent_Memory.turns_get_def Agent_Memory.meta_get_def io_bind_def find_tables io_try_def on_world_def)

lemma read_turn_reads:
  "sound cfg a \<Longrightarrow> read_turn hash i a = Some (Inr (case (turns (ag_world a) (turn_key i ''role''), turns (ag_world a) (turn_key i ''content'')) of
     (Some r, Some c) \<Rightarrow> Some (r, c) | _ \<Rightarrow> None), a)"
  by (simp add: read_turn_def io_bind_def read_tables io_return_def split: option.splits)

text \<open>Reading the turns from one on, in their order.\<close>

lemma each_turn_reads:
  assumes "sound cfg a" "holds_turns (turns (ag_world a)) ts" "i + k = length ts"
  shows "each_turn hash f acc (map int [i..<length ts]) a = Some (Inr (foldl f acc (drop i ts)), a)"
  using assms(3)
proof (induction k arbitrary: i acc)
  case 0
  then show ?case by (simp add: io_return_def)
next
  case (Suc k)
  then have i: "i < length ts" by simp
  with assms(2) have "read_turn hash (int i) a = Some (Inr (Some (ts ! i)), a)"
    by (simp add: read_turn_reads [OF assms(1)] holds_turns_def)
  moreover have "drop i ts = ts ! i # drop (Suc i) ts" using i by (simp add: Cons_nth_drop_Suc)
  ultimately show ?case
    using Suc.IH [of "Suc i" "f acc (ts ! i)"] Suc.prems i by (simp add: upt_conv_Cons io_bind_def)
qed

lemma each_turn_counted:
  assumes "talks cfg a ((ts, sm), n)" "i \<le> length ts"
  shows "each_turn hash f acc (count_up (int i) (ag_turn_counter a)) a = Some (Inr (foldl f acc (drop i ts)), a)"
  using assms each_turn_reads [of cfg a ts i "length ts - i" f acc]
  by (simp add: talks_def persisted_def count_up_def)

lemma foldl_snoc: "foldl (\<lambda>ms m. ms @ [m]) acc ms = acc @ ms"
  by (induction ms arbitrary: acc) simp_all

lemma foldl_lines: "foldl (\<lambda>s m. s @ turn_line m) acc ms = acc @ concat (map turn_line ms)"
  by (induction ms arbitrary: acc) simp_all

lemma build_context_is_spec:
  assumes "talks cfg a (m, n)" "0 \<le> ac_max_ctx_turns cfg" "in_int (ac_max_ctx_turns cfg)"
  shows "build_context hash a = Some (Inr (spec_context (nat (ac_max_ctx_turns cfg)) m), a)"
proof -
  obtain ts sm where m: "m = (ts, sm)" by fastforce
  let ?n = "int (length ts)" and ?mx = "ac_max_ctx_turns cfg"
  from assms(1) m have a: "sound cfg a" "ag_cfg a = cfg" "ag_turn_counter a = ?n" "meta (ag_world a) ''summary'' = sm" "?n < 2 ^ 31"
    by (auto simp: talks_def sound_def persisted_def)
  have start: "max 0 (?n - ?mx) = int (length ts - nat ?mx)" using assms(2) by simp
  have rng: "in_int (?n - ?mx)" using a(5) assms(2,3) by (auto simp: in_int_def)
  from each_turn_counted [OF assms(1) [unfolded m], of "length ts - nat ?mx"]
  have "each_turn hash f acc (count_up (max 0 (?n - ?mx)) ?n) a = Some (Inr (foldl f acc (drop (length ts - nat ?mx) ts)), a)" for f and acc :: "(string \<times> string) list"
    using a(3) start by simp
  then show ?thesis
    using rng by (simp add: build_context_def a m Let_def io_bind_def read_tables [OF a(1)] foldl_snoc spec_context_def summary_text_def
        split: option.splits)
qed
subsection \<open>Changes of the tables\<close>

lemma turns_write:
  assumes "sound cfg a"
  shows "\<exists>w'. io_try (on_world (table_put_raw tt k v)) a = Some (Inr (Inr ()), a\<lparr>ag_world := w'\<rparr>) \<and> inv w' \<and>
      turns w' = (turns (ag_world a))(k \<mapsto> v) \<and> meta w' = meta (ag_world a)"
    "\<exists>w'. io_try (on_world (table_del tt k)) a = Some (Inr (Inr ()), a\<lparr>ag_world := w'\<rparr>) \<and> inv w' \<and>
      turns w' = (turns (ag_world a))(k := None) \<and> meta w' = meta (ag_world a)"
  using assms turns_put [of "ag_world a" k v] turns_del [of "ag_world a" k]
  by (auto simp: sound_def io_try_def on_world_def)

lemma meta_write:
  assumes "sound cfg a"
  shows "\<exists>r w'. table_put_raw mt k v (ag_world a) = Some (r, w') \<and>
    Agent_Memory.meta_put hash k v a = Some (Inr (), a\<lparr>ag_world := w'\<rparr>) \<and> inv w' \<and> turns w' = turns (ag_world a) \<and>
    meta w' = (if is_ok r then (meta (ag_world a))(k \<mapsto> v) else meta (ag_world a))"
  using assms meta_put [of "ag_world a" k v]
  by (auto simp: sound_def Agent_Memory.meta_put_def io_bind_def find_tables io_try_def on_world_def io_return_def)

definition turn_keys :: "int list \<Rightarrow> string set" where
  "turn_keys is = {turn_key i f | i f. i \<in> set is \<and> f \<in> set turn_fields}"

lemma delete_turns_deletes:
  "sound cfg a \<Longrightarrow> \<exists>w'. delete_turns hash is a = Some (Inr (), a\<lparr>ag_world := w'\<rparr>) \<and> inv w' \<and>
    meta w' = meta (ag_world a) \<and> turns w' = (\<lambda>k. if k \<in> turn_keys is then None else turns (ag_world a) k)"
proof (induction "is" arbitrary: a)
  case Nil
  then show ?case
    by (intro exI [of _ "ag_world a"]) (simp add: io_return_def sound_def turn_keys_def)
next
  case (Cons i "is")
  from turns_write(2) [OF Cons.prems, of "turn_key i ''role''"] obtain w1 where
    w1: "io_try (on_world (table_del tt (turn_key i ''role''))) a = Some (Inr (Inr ()), a\<lparr>ag_world := w1\<rparr>)" "inv w1"
      "turns w1 = (turns (ag_world a))(turn_key i ''role'' := None)" "meta w1 = meta (ag_world a)" by blast
  let ?a1 = "a\<lparr>ag_world := w1\<rparr>"
  have s1: "sound cfg ?a1" using Cons.prems w1(2) by (simp add: sound_def)
  from turns_write(2) [OF s1, of "turn_key i ''content''"] obtain w2 where
    w2: "io_try (on_world (table_del tt (turn_key i ''content''))) ?a1 = Some (Inr (Inr ()), a\<lparr>ag_world := w2\<rparr>)" "inv w2"
      "turns w2 = (turns w1)(turn_key i ''content'' := None)" "meta w2 = meta w1" by auto
  let ?a2 = "a\<lparr>ag_world := w2\<rparr>"
  have s2: "sound cfg ?a2" using Cons.prems w2(2) by (simp add: sound_def)
  have "\<exists>w3. delete_turns hash is ?a2 = Some (Inr (), a\<lparr>ag_world := w3\<rparr>) \<and> inv w3 \<and> meta w3 = meta w2 \<and>
      turns w3 = (\<lambda>k. if k \<in> turn_keys is then None else turns w2 k)" using Cons.IH [OF s2] by (simp cong: if_cong)
  then obtain w3 where
    w3: "delete_turns hash is ?a2 = Some (Inr (), a\<lparr>ag_world := w3\<rparr>)" "inv w3" "meta w3 = meta w2"
      "turns w3 = (\<lambda>k. if k \<in> turn_keys is then None else turns w2 k)" by blast
  have st: "ag_store a = st" "ag_store ?a1 = st" using Cons.prems by (simp_all add: sound_def)
  have "delete_turns hash (i # is) a = Some (Inr (), a\<lparr>ag_world := w3\<rparr>)"
    by (simp add: io_bind_def find_tables(1) [OF st(1)] find_tables(1) [OF st(2)] w1(1) w2(1) w3(1))
  moreover have "turns w3 = (\<lambda>k. if k \<in> turn_keys (i # is) then None else turns (ag_world a) k)"
    unfolding w3(4) w2(3) w1(3) by (auto simp: fun_eq_iff turn_keys_def turn_fields_def)
  ultimately show ?case using w1(4) w2(4) w3(2,3) by auto
qed

lemma delete_all_turns:
  assumes "sound cfg a" "holds_turns (turns (ag_world a)) ts"
  shows "\<exists>w'. delete_turns hash (count_up 0 (int (length ts))) a = Some (Inr (), a\<lparr>ag_world := w'\<rparr>) \<and> inv w' \<and>
    meta w' = meta (ag_world a) \<and> turns w' = Map.empty"
proof -
  have "turns (ag_world a) k = None" if "k \<notin> turn_keys (count_up 0 (int (length ts)))" for k
  proof (rule ccontr)
    assume "turns (ag_world a) k \<noteq> None"
    with assms(2) obtain i f where "i < length ts" "f \<in> set turn_fields" "k = turn_key (int i) f"
      unfolding holds_turns_def by blast
    with that show False by (force simp: turn_keys_def count_up_def)
  qed
  then have "(\<lambda>k. if k \<in> turn_keys (count_up 0 (int (length ts))) then None else turns (ag_world a) k) = Map.empty"
    by (simp add: fun_eq_iff)
  with delete_turns_deletes [OF assms(1), of "count_up 0 (int (length ts))"] show ?thesis by auto
qed

text \<open>Compaction when the model answers: the turns are deleted, and then \<open>meta\<close> is written twice.\<close>

lemma compact_answered:
  assumes "talks cfg a ((ts, sm), n)" "ts \<noteq> []"
    and "call_llm post cfg (compact_messages (summary_text sm) (concat (map turn_line ts))) n = Some (Inr rep, n')"
  shows "\<exists>w1 r1 w2 w3 r3 w4 a'. compact_history hash post a = Some (Inr (), a') \<and>
    inv w1 \<and> table_put_raw mt ''summary'' rep w1 = Some (r1, w2) \<and>
    inv w3 \<and> table_put_raw mt ''turn_counter'' ''0'' w3 = Some (r3, w4) \<and>
    sound cfg a' \<and> ag_turn_counter a' = 0 \<and> ag_net a' = n' \<and> ag_err a' = ag_err a \<and> turns (ag_world a') = Map.empty \<and>
    meta (ag_world a') = (let c = (if is_ok r1 then (meta (ag_world a))(''summary'' \<mapsto> rep) else meta (ag_world a))
      in if is_ok r3 then c(''turn_counter'' \<mapsto> ''0'') else c)"
proof -
  let ?N = "int (length ts)"
  from assms(1) have a: "sound cfg a" "ag_store a = st" "ag_cfg a = cfg" "ag_net a = n" "ag_turn_counter a = ?N"
      "holds_turns (turns (ag_world a)) ts" "meta (ag_world a) ''summary'' = sm"
    by (auto simp: talks_def sound_def persisted_def)
  have whole: "each_turn hash (\<lambda>s m. s @ turn_line m) [] (count_up 0 ?N) a = Some (Inr (concat (map turn_line ts)), a)"
    using each_turn_counted [OF assms(1), of 0 "\<lambda>s m. s @ turn_line m" "[]"] a(5) by (simp add: foldl_lines)
  have sm: "(case sm of None \<Rightarrow> [] | Some v \<Rightarrow> v) = summary_text sm" by (simp add: summary_text_def)
  let ?a1 = "a\<lparr>ag_net := n'\<rparr>"
  have asked: "ask post (compact_messages (summary_text sm) (concat (map turn_line ts))) a = Some (Inr (Inr rep), ?a1)"
    using assms(3) a(3,4) by (simp add: ask_def io_try_def on_net_def)
  have s1: "sound cfg ?a1" using a(1) by (simp add: sound_def)
  from delete_all_turns [OF s1, of ts] a(6) obtain w1 where
    w1: "delete_turns hash (count_up 0 ?N) ?a1 = Some (Inr (), ?a1\<lparr>ag_world := w1\<rparr>)" "inv w1"
      "meta w1 = meta (ag_world a)" "turns w1 = Map.empty" by auto
  let ?a2 = "?a1\<lparr>ag_world := w1\<rparr>"
  have s2: "sound cfg ?a2" using a(1) w1(2) by (simp add: sound_def)
  from meta_write [OF s2, of "''summary''" rep] obtain r1 w2 where
    r1: "table_put_raw mt ''summary'' rep w1 = Some (r1, w2)"
    and w2: "Agent_Memory.meta_put hash ''summary'' rep ?a2 = Some (Inr (), ?a1\<lparr>ag_world := w2\<rparr>)" "inv w2"
      "turns w2 = Map.empty" "meta w2 = (if is_ok r1 then (meta (ag_world a))(''summary'' \<mapsto> rep) else meta (ag_world a))"
    using w1(3,4) by auto
  let ?a3 = "?a1\<lparr>ag_world := w2, ag_turn_counter := 0\<rparr>"
  have s3: "sound cfg ?a3" using a(1) w2(2) by (simp add: sound_def)
  from meta_write [OF s3, of "''turn_counter''" "''0''"] obtain r3 w4 where
    r3: "table_put_raw mt ''turn_counter'' ''0'' w2 = Some (r3, w4)"
    and w4: "Agent_Memory.meta_put hash ''turn_counter'' ''0'' ?a3 = Some (Inr (), ?a3\<lparr>ag_world := w4\<rparr>)" "inv w4"
      "turns w4 = Map.empty" "meta w4 = (if is_ok r3 then (meta w2)(''turn_counter'' \<mapsto> ''0'') else meta w2)"
    using w2(3) by auto
  have c0: "set_counter 0 (?a1\<lparr>ag_world := w2\<rparr>) = Some (Inr (), ?a3)" by (simp add: set_counter_def in_int_def)
  let ?out = "''  [compacted to summary: '' @ decimal (length rep) @ '' chars]'' @ [line_feed]"
  let ?a4 = "?a3\<lparr>ag_world := w4, ag_out := ag_out a @ ?out\<rparr>"
  have "compact_history hash post a = Some (Inr (), ?a4)"
    using w4(1) by (simp add: compact_history_def a(5) assms(2) io_bind_def whole read_tables(2) [OF a(1)] a(7) sm asked w1(1) w2(1)
        c0 say_def Let_def)
  moreover have "sound cfg ?a4" using a(1) w4(2) by (simp add: sound_def)
  ultimately show ?thesis
    using w1(2) r1 w2(2) r3 w4(3,4) w2(4)
    by (intro exI [of _ w1] exI [of _ r1] exI [of _ w2] exI [of _ w2] exI [of _ r3] exI [of _ w4] exI [of _ ?a4]) (simp add: Let_def)
qed

text \<open>
  The turns are deleted before the summary is stored, and the store's answer is ignored: if \<open>meta\<close> refuses the summary,
  compaction ends as if it had succeeded and the conversation is gone.
\<close>

lemma refused_summary_loses_turns:
  assumes "talks cfg a ((ts, sm), n)" "ts \<noteq> []"
    and "call_llm post cfg (compact_messages (summary_text sm) (concat (map turn_line ts))) n = Some (Inr rep, n')"
    and refused: "\<And>w r w'. inv w \<Longrightarrow> table_put_raw mt ''summary'' rep w = Some (r, w') \<Longrightarrow> \<not> is_ok r"
  shows "\<exists>a'. compact_history hash post a = Some (Inr (), a') \<and> ag_turn_counter a' = 0 \<and> ag_net a' = n' \<and>
    ag_err a' = ag_err a \<and> turns (ag_world a') = Map.empty \<and> meta (ag_world a') ''summary'' = sm"
proof -
  obtain w1 r1 w2 a' and r3 :: "unit result" where
    c: "compact_history hash post a = Some (Inr (), a')" "inv w1" "table_put_raw mt ''summary'' rep w1 = Some (r1, w2)"
      "ag_turn_counter a' = 0" "ag_net a' = n'" "ag_err a' = ag_err a" "turns (ag_world a') = Map.empty"
      "meta (ag_world a') = (let c = (if is_ok r1 then (meta (ag_world a))(''summary'' \<mapsto> rep) else meta (ag_world a))
        in if is_ok r3 then c(''turn_counter'' \<mapsto> ''0'') else c)"
    using compact_answered [OF assms(1-3)] by (elim exE conjE) (rule that)
  from refused [OF c(2,3)] c(8) assms(1) have "meta (ag_world a') ''summary'' = sm"
    by (auto simp: Let_def talks_def persisted_def)
  with c show ?thesis by blast
qed

end

end
