(* ===== verification/Agent_Conversation.thy ===== *)
theory Agent_Conversation
  imports Agent_Memory_Laws Agent_Memory
begin

text \<open>
  The agent follows the specification of a conversation: on tables that accept every write (\<open>agent_store\<close>), each operation
  of the agent does to the memory that the tables hold what the specification says, from a counter that is read back from the tables
  on. Both locales hold for the tables of a store that \<open>build_tree\<close> made.
\<close>

subsection \<open>The agent follows the specification\<close>

locale agent_store = agent_turns hash st d tt mt turns meta inv
  for hash :: "string \<Rightarrow> 64 word" and st :: "'w Store" and d tt mt turns meta inv +
  assumes meta_reliable: "inv w \<Longrightarrow> table_put_raw mt k v w = Some (r, w') \<Longrightarrow> is_ok r"
begin

definition follows :: "AgentConfig \<Rightarrow> (('w, 'n) Agent, unit) io \<Rightarrow> ('n talk \<Rightarrow> 'n talk option) \<Rightarrow> bool" where
  "follows cfg code spec \<longleftrightarrow> (\<forall>a s. talks cfg a s \<longrightarrow> (case spec s of
      None \<Rightarrow> code a = None
    | Some s' \<Rightarrow> \<exists>a'. code a = Some (Inr (), a') \<and> talks cfg a' s'))"

lemma followsI:
  "(\<And>a s. talks cfg a s \<Longrightarrow> (case spec s of None \<Rightarrow> code a = None
    | Some s' \<Rightarrow> \<exists>a'. code a = Some (Inr (), a') \<and> talks cfg a' s')) \<Longrightarrow> follows cfg code spec"
  unfolding follows_def by blast

lemma followsD:
  assumes "follows cfg code spec" "talks cfg a s"
  shows "spec s = None \<Longrightarrow> code a = None"
    "spec s = Some s' \<Longrightarrow> \<exists>a'. code a = Some (Inr (), a') \<and> talks cfg a' s'"
proof -
  have "case spec s of None \<Rightarrow> code a = None | Some s' \<Rightarrow> \<exists>a'. code a = Some (Inr (), a') \<and> talks cfg a' s'"
    using assms unfolding follows_def by blast
  then show "spec s = None \<Longrightarrow> code a = None"
    "spec s = Some s' \<Longrightarrow> \<exists>a'. code a = Some (Inr (), a') \<and> talks cfg a' s'" by simp_all
qed

lemma follows_bind:
  fixes m m' :: "(('w, 'n) Agent, unit) io"
  assumes "follows cfg m f" "follows cfg m' g"
  shows "follows cfg (io_bind m (\<lambda>_. m')) (\<lambda>s. Option.bind (f s) g)"
proof (rule followsI)
  fix a :: "('w, 'n) Agent" and s
  assume t: "talks cfg a s"
  show "case Option.bind (f s) g of None \<Rightarrow> io_bind m (\<lambda>_. m') a = None
    | Some s' \<Rightarrow> \<exists>a'. io_bind m (\<lambda>_. m') a = Some (Inr (), a') \<and> talks cfg a' s'"
  proof (cases "f s")
    case None
    with followsD(1) [OF assms(1) t] show ?thesis by (simp add: io_bind_def)
  next
    case (Some s1)
    then obtain a1 where a1: "m a = Some (Inr (), a1)" "talks cfg a1 s1" using followsD(2) [OF assms(1) t] by blast
    with followsD [OF assms(2) a1(2)] Some show ?thesis by (auto simp: io_bind_def split: option.splits)
  qed
qed

lemma follows_silent:
  assumes "\<And>a s. talks cfg a s \<Longrightarrow> \<exists>a'. code a = Some (Inr (), a') \<and> talks cfg a' s"
  shows "follows cfg code Some"
  by (rule followsI) (simp add: assms)

lemma talks_console: "talks cfg (a\<lparr>ag_out := x\<rparr>) s = talks cfg a s" "talks cfg (a\<lparr>ag_err := x\<rparr>) s = talks cfg a s"
  by (simp_all add: talks_def sound_def)

lemma say_silent: "follows cfg (say x) Some" "follows cfg (complain x) Some"
  by (simp_all only: follows_def option.case say_def complain_def) (simp_all add: talks_console)

lemma io_return_silent: "follows cfg (io_return ()) Some"
  by (rule followsI) (simp add: io_return_def)

lemma store_turn_follows:
  "follows cfg (store_turn hash role content :: (('w, 'n) Agent, unit) io) (spec_store (role, content))"
proof (rule followsI)
  fix a :: "('w, 'n) Agent" and s
  assume t: "talks cfg a s"
  obtain ts sm n where s: "s = ((ts, sm), n)" by (metis prod.collapse)
  let ?N = "int (length ts)" and ?kr = "turn_key (int (length ts)) ''role''" and ?kc = "turn_key (int (length ts)) ''content''"
  from t s have a: "sound cfg a" "ag_store a = st" "ag_net a = n" "ag_turn_counter a = ?N" "length ts < 2 ^ 31"
      "holds_turns (turns (ag_world a)) ts" "meta (ag_world a) ''summary'' = sm"
    by (auto simp: talks_def sound_def persisted_def)
  obtain w1 where
    w1: "io_try (on_world (table_put_raw tt ?kr role)) a = Some (Inr (Inr ()), a\<lparr>ag_world := w1\<rparr>)" "inv w1"
      "turns w1 = (turns (ag_world a))(?kr \<mapsto> role)" "meta w1 = meta (ag_world a)"
    using turns_write(1) [OF a(1), of ?kr role] by blast
  have s1: "sound cfg (a\<lparr>ag_world := w1\<rparr>)" using a(1) w1(2) by (simp add: sound_def)
  obtain w2 where
    w2: "io_try (on_world (table_put_raw tt ?kc content)) (a\<lparr>ag_world := w1\<rparr>) = Some (Inr (Inr ()), a\<lparr>ag_world := w2\<rparr>)" "inv w2"
      "turns w2 = (turns w1)(?kc \<mapsto> content)" "meta w2 = meta w1"
    using turns_write(1) [OF s1, of ?kc content] by auto
  show "case spec_store (role, content) s of None \<Rightarrow> store_turn hash role content a = None
    | Some s' \<Rightarrow> \<exists>a'. store_turn hash role content a = Some (Inr (), a') \<and> talks cfg a' s'"
  proof (cases "length ts + 1 < 2 ^ 31")
    case False
    with a(5) show ?thesis
      by (simp add: s spec_store_def store_turn_def a(4) Let_def io_bind_def find_tables(1) [OF a(2)] w1(1) w2(1) set_counter_def in_int_def)
  next
    case True
    let ?a3 = "a\<lparr>ag_world := w2, ag_turn_counter := ?N + 1\<rparr>"
    have c: "set_counter (?N + 1) (a\<lparr>ag_world := w2\<rparr>) = Some (Inr (), ?a3)"
      using True by (simp add: set_counter_def in_int_def)
    have s3: "sound cfg ?a3" using a(1) w2(2) by (simp add: sound_def)
    obtain r w4 where r: "table_put_raw mt ''turn_counter'' (to_string_int (?N + 1)) w2 = Some (r, w4)"
      and w4: "Agent_Memory.meta_put hash ''turn_counter'' (to_string_int (?N + 1)) ?a3 = Some (Inr (), ?a3\<lparr>ag_world := w4\<rparr>)"
        "inv w4" "turns w4 = turns w2" "meta w4 = (if is_ok r then (meta w2)(''turn_counter'' \<mapsto> to_string_int (?N + 1)) else meta w2)"
      using meta_write [OF s3, of "''turn_counter''" "to_string_int (?N + 1)"] by auto
    from meta_reliable [OF w2(2) r] w4(4) have m: "meta w4 = (meta w2)(''turn_counter'' \<mapsto> to_string_int (?N + 1))" by simp
    have "store_turn hash role content a = Some (Inr (), ?a3\<lparr>ag_world := w4\<rparr>)"
      by (simp add: store_turn_def a(4) Let_def io_bind_def find_tables(1) [OF a(2)] w1(1) w2(1) c w4(1))
    moreover have "persisted (turns w4) (meta w4) (ts @ [(role, content)], sm)"
      using True a(7) holds_turns_snoc [OF a(6), of role content]
      by (simp add: persisted_def m w2(3,4) w1(3,4) w4(3) holds_counter_def add.commute)
    ultimately show ?thesis
      using True s3 a(3) w4(2) by (simp add: s spec_store_def talks_def sound_def)
  qed
qed
lemma asked:
  assumes "talks cfg a (m, n)"
  shows "ask post msgs a = (case call_llm post cfg msgs n of None \<Rightarrow> None | Some (r, n') \<Rightarrow> Some (Inr r, a\<lparr>ag_net := n'\<rparr>))"
    "talks cfg (a\<lparr>ag_net := n'\<rparr>) (m, n')"
  using assms by (auto simp: ask_def io_try_def on_net_def talks_def sound_def split: option.splits)

lemma compact_follows:
  "follows cfg (compact_history hash post :: (('w, 'n) Agent, unit) io) (spec_compact (call_llm post cfg))"
proof (rule followsI)
  fix a :: "('w, 'n) Agent" and s
  assume t: "talks cfg a s"
  obtain ts sm n where s: "s = ((ts, sm), n)" by (metis prod.collapse)
  let ?N = "int (length ts)" and ?msgs = "compact_messages (summary_text sm) (concat (map turn_line ts))"
  from t s have a: "sound cfg a" "ag_turn_counter a = ?N" "meta (ag_world a) ''summary'' = sm"
    by (auto simp: talks_def sound_def persisted_def)
  have whole: "each_turn hash (\<lambda>s m. s @ turn_line m) [] (count_up 0 ?N) a = Some (Inr (concat (map turn_line ts)), a)"
    using each_turn_counted [of cfg a ts sm n 0 "\<lambda>s m. s @ turn_line m" "[]"] t s a(2) by (simp add: foldl_lines)
  have sm: "(case sm of None \<Rightarrow> [] | Some v \<Rightarrow> v) = summary_text sm" by (simp add: summary_text_def)
  note q = asked(1) [OF t [unfolded s], of post ?msgs] asked(2) [OF t [unfolded s]]
  note run = compact_history_def a(2) io_bind_def whole read_tables(2) [OF a(1)] a(3) sm q(1) Let_def
  show "case spec_compact (call_llm post cfg) s of None \<Rightarrow> compact_history hash post a = None
    | Some s' \<Rightarrow> \<exists>a'. compact_history hash post a = Some (Inr (), a') \<and> talks cfg a' s'"
  proof (cases "ts = []")
    case True
    with t s show ?thesis by (simp add: spec_compact_def compact_history_def a(2) say_def talks_console)
  next
    case False
    show ?thesis
    proof (cases "call_llm post cfg ?msgs n")
      case None
      with False show ?thesis by (simp add: s spec_compact_def run)
    next
      case (Some y)
      then obtain r n' where y: "call_llm post cfg ?msgs n = Some (r, n')" by (metis prod.collapse)
      show ?thesis
      proof (cases r)
        case (Inl e)
        with y False q(2) [of n'] show ?thesis by (simp add: s spec_compact_def run complain_def talks_console)
      next
        case (Inr rep)
        obtain w1 w2 w3 w4 a' and r1 r3 :: "unit result" where
          c: "compact_history hash post a = Some (Inr (), a')" "inv w1" "table_put_raw mt ''summary'' rep w1 = Some (r1, w2)"
            "inv w3" "table_put_raw mt ''turn_counter'' ''0'' w3 = Some (r3, w4)"
            "sound cfg a'" "ag_turn_counter a' = 0" "ag_net a' = n'" "turns (ag_world a') = Map.empty"
            "meta (ag_world a') = (let c = (if is_ok r1 then (meta (ag_world a))(''summary'' \<mapsto> rep) else meta (ag_world a))
              in if is_ok r3 then c(''turn_counter'' \<mapsto> ''0'') else c)"
          using compact_answered [OF t [unfolded s] False y [unfolded Inr]] by (elim exE conjE) (rule that)
        have "persisted (turns (ag_world a')) (meta (ag_world a')) ([], Some rep)"
          using meta_reliable [OF c(2,3)] meta_reliable [OF c(4,5)] c(10)
          by (simp add: persisted_def c(9) holds_turns_Nil holds_counter_def to_string_int_zero)
        with c y Inr False show ?thesis by (simp add: s spec_compact_def talks_def)
      qed
    qed
  qed
qed

lemma auto_compact_follows:
  "follows cfg (auto_compact hash post :: (('w, 'n) Agent, unit) io)
    (\<lambda>s. if int (length (fst (fst s))) > ac_summary_threshold cfg then spec_compact (call_llm post cfg) s else Some s)"
proof (rule followsI)
  fix a :: "('w, 'n) Agent" and s
  assume t: "talks cfg a s"
  let ?say = "say (''  [auto-compacting '' @ to_string_int (ag_turn_counter a) @ '' turns...]'' @ [line_feed])"
  have f: "follows cfg (io_bind ?say (\<lambda>_. compact_history hash post :: (('w, 'n) Agent, unit) io)) (spec_compact (call_llm post cfg))"
    using follows_bind [OF say_silent(1) compact_follows] by simp
  from t have c: "ag_turn_counter a = int (length (fst (fst s)))" "ag_cfg a = cfg" by (simp_all add: talks_def sound_def)
  show "case (if int (length (fst (fst s))) > ac_summary_threshold cfg then spec_compact (call_llm post cfg) s else Some s) of
      None \<Rightarrow> auto_compact hash post a = None
    | Some s' \<Rightarrow> \<exists>a'. auto_compact hash post a = Some (Inr (), a') \<and> talks cfg a' s'"
    using followsD [OF f t] t
    by (cases "int (length (fst (fst s))) > ac_summary_threshold cfg")
      (auto simp: auto_compact_def c split: option.splits)
qed

lemma converse_follows:
  assumes mx: "0 \<le> ac_max_ctx_turns cfg" "in_int (ac_max_ctx_turns cfg)"
  shows "follows cfg (converse hash post line :: (('w, 'n) Agent, unit) io) (spec_converse (call_llm post cfg) cfg line)"
proof -
  let ?ask = "\<lambda>messages. io_bind (ask post messages) (\<lambda>reply. case reply of
         Inl e \<Rightarrow> complain (''  [llm error: '' @ err_message e @ '']'' @ [line_feed])
       | Inr rep \<Rightarrow>
           io_bind (store_turn hash ''assistant'' rep) (\<lambda>_.
           io_bind (say (''agent> '' @ rep @ [line_feed, line_feed])) (\<lambda>_.
             auto_compact hash post)))"
  let ?rest = "\<lambda>(m, n). case call_llm post cfg (spec_context (nat (ac_max_ctx_turns cfg)) m) n of
       None \<Rightarrow> None
     | Some (Inl e, n') \<Rightarrow> Some (m, n')
     | Some (Inr rep, n') \<Rightarrow> Option.bind (spec_store (''assistant'', rep) (m, n')) (\<lambda>s'.
         if int (length (fst (fst s'))) > ac_summary_threshold cfg then spec_compact (call_llm post cfg) s' else Some s')"
  have "follows cfg (io_bind (build_context hash) ?ask) ?rest"
  proof (rule followsI)
    fix a :: "('w, 'n) Agent" and s
    assume "talks cfg a s"
    then obtain m n where s: "s = (m, n)" and t: "talks cfg a (m, n)" by (metis prod.collapse)
    let ?msgs = "spec_context (nat (ac_max_ctx_turns cfg)) m"
    note ctx = build_context_is_spec [OF t mx] and q = asked(1) [OF t, of post ?msgs] asked(2) [OF t]
    show "case ?rest s of None \<Rightarrow> io_bind (build_context hash) ?ask a = None
      | Some s' \<Rightarrow> \<exists>a'. io_bind (build_context hash) ?ask a = Some (Inr (), a') \<and> talks cfg a' s'"
    proof (cases "call_llm post cfg ?msgs n")
      case None
      then show ?thesis by (simp add: s io_bind_def ctx q(1))
    next
      case (Some y)
      then obtain r n' where y: "call_llm post cfg ?msgs n = Some (r, n')" by (metis prod.collapse)
      show ?thesis
      proof (cases r)
        case (Inl e)
        with y q(2) [of n'] show ?thesis by (simp add: s io_bind_def ctx q(1) complain_def talks_console)
      next
        case (Inr rep)
        have f: "follows cfg (io_bind (store_turn hash ''assistant'' rep) (\<lambda>_.
              io_bind (say (''agent> '' @ rep @ [line_feed, line_feed])) (\<lambda>_. auto_compact hash post :: (('w, 'n) Agent, unit) io)))
            (\<lambda>s. Option.bind (spec_store (''assistant'', rep) s) (\<lambda>s. Option.bind (Some s) (\<lambda>s'.
              if int (length (fst (fst s'))) > ac_summary_threshold cfg then spec_compact (call_llm post cfg) s' else Some s')))"
          by (rule follows_bind [OF store_turn_follows follows_bind [OF say_silent(1) auto_compact_follows]])
        from followsD [OF f q(2) [of n']] y Inr show ?thesis
          by (auto simp: s io_bind_def ctx q(1) split: option.splits)
      qed
    qed
  qed
  from follows_bind [OF store_turn_follows this] show ?thesis
    unfolding converse_def spec_converse_def .
qed
lemma dump_loop_silent:
  "sound cfg a \<Longrightarrow> \<exists>x. dump_loop hash is a = Some (Inr (), a\<lparr>ag_out := x\<rparr>)"
proof (induction "is" arbitrary: a)
  case Nil
  show ?case by (intro exI [of _ "ag_out a"]) (simp add: io_return_def)
next
  case (Cons i "is")
  let ?r = "case (turns (ag_world a) (turn_key i ''role''), turns (ag_world a) (turn_key i ''content'')) of
     (Some r, Some c) \<Rightarrow> Some (r, c) | _ \<Rightarrow> None"
  let ?say = "case ?r of Some (role, content) \<Rightarrow> say (''  ['' @ role @ '']: '' @ content @ [line_feed]) | None \<Rightarrow> io_return ()"
  obtain x where x: "?say a = Some (Inr (), a\<lparr>ag_out := x\<rparr>)"
  proof (cases ?r)
    case None
    with that [of "ag_out a"] show thesis by (simp add: io_return_def)
  next
    case (Some m)
    with that show thesis by (cases m) (simp add: say_def)
  qed
  have "sound cfg (a\<lparr>ag_out := x\<rparr>)" using Cons.prems by (simp add: sound_def)
  from Cons.IH [OF this] obtain y where "dump_loop hash is (a\<lparr>ag_out := x\<rparr>) = Some (Inr (), a\<lparr>ag_out := y\<rparr>)" by auto
  then show ?case
    using x read_turn_reads [OF Cons.prems, of i] by (intro exI [of _ y]) (simp add: io_bind_def)
qed

lemma dump_history_silent: "follows cfg (dump_history hash :: (('w, 'n) Agent, unit) io) Some"
proof (rule followsI, unfold option.case)
  fix a :: "('w, 'n) Agent" and s
  assume t: "talks cfg a s"
  then have a: "sound cfg a" by (simp add: talks_def)
  let ?sm = "meta (ag_world a) ''summary''"
  let ?say = "case ?sm of Some v \<Rightarrow> if v = [] then io_return () else say (''  [summary]: '' @ v @ [line_feed]) | None \<Rightarrow> io_return ()"
  obtain x where x: "?say a = Some (Inr (), a\<lparr>ag_out := x\<rparr>)"
  proof (cases "?sm = None \<or> ?sm = Some []")
    case True
    with that [of "ag_out a"] show thesis by (auto simp: io_return_def)
  next
    case False
    with that show thesis by (auto simp: say_def)
  qed
  have "sound cfg (a\<lparr>ag_out := x\<rparr>)" using a by (simp add: sound_def)
  from dump_loop_silent [OF this] obtain y where
    y: "dump_loop hash (count_up 0 (ag_turn_counter a)) (a\<lparr>ag_out := x\<rparr>) = Some (Inr (), a\<lparr>ag_out := y\<rparr>)" by auto
  let ?z = "if ag_turn_counter a = 0 then y @ ''  (no turns stored)'' @ [line_feed] else y"
  have say: "(case Inr ?sm of Inr (Some v) \<Rightarrow> if v = [] then io_return () else say (''  [summary]: '' @ v @ [line_feed]) | _ \<Rightarrow> io_return ()) = ?say"
    by simp
  have "dump_history hash a = Some (Inr (), a\<lparr>ag_out := ?z\<rparr>)"
    unfolding dump_history_def Let_def
    by (simp add: io_bind_def read_tables(2) [OF a] x y say_def io_return_def)
  with t show "\<exists>a'. dump_history hash a = Some (Inr (), a') \<and> talks cfg a' s"
    by (intro exI [of _ "a\<lparr>ag_out := ?z\<rparr>"]) (simp add: talks_console)
qed

lemma chat_loop_follows:
  assumes "0 \<le> ac_max_ctx_turns cfg" "in_int (ac_max_ctx_turns cfg)"
  shows "follows cfg (chat_loop hash post lines :: (('w, 'n) Agent, unit) io) (spec_chat (call_llm post cfg) cfg lines)"
proof (induction lines)
  case Nil
  from say_silent(1) [of cfg "''you> ''"] show ?case by (simp add: fun_eq_iff follows_def)
next
  case (Cons line lines)
  let ?code = "if line = ''/quit'' then io_return ()
     else if line = [] then chat_loop hash post lines
     else if line = ''/history'' then io_bind (dump_history hash) (\<lambda>_. chat_loop hash post lines)
     else if line = ''/summary'' then io_bind (compact_history hash post) (\<lambda>_. chat_loop hash post lines)
     else io_bind (converse hash post line) (\<lambda>_. chat_loop hash post lines)"
  note dump = follows_bind [OF dump_history_silent Cons]
  note compact = follows_bind [OF compact_follows [where post = post] Cons]
  note talk = follows_bind [OF converse_follows [OF assms, where post = post and line = line] Cons]
  have "follows cfg ?code (spec_chat (call_llm post cfg) cfg (line # lines))"
  proof -
    consider "line = ''/quit''" | "line = []" | "line = ''/history''" | "line = ''/summary''"
      | "line \<noteq> ''/quit''" "line \<noteq> []" "line \<noteq> ''/history''" "line \<noteq> ''/summary''" by blast
    then show ?thesis
    proof cases
      case 1
      have "spec_chat (call_llm post cfg) cfg (line # lines) = Some" by (simp add: 1 fun_eq_iff)
      with 1 io_return_silent show ?thesis by simp
    next
      case 2
      have "spec_chat (call_llm post cfg) cfg (line # lines) = spec_chat (call_llm post cfg) cfg lines" by (simp add: 2 fun_eq_iff)
      with 2 Cons show ?thesis by simp
    next
      case 3
      have "spec_chat (call_llm post cfg) cfg (line # lines) = (\<lambda>s. Option.bind (Some s) (spec_chat (call_llm post cfg) cfg lines))"
        by (simp add: 3 fun_eq_iff)
      with 3 dump show ?thesis by simp
    next
      case 4
      have "spec_chat (call_llm post cfg) cfg (line # lines) =
          (\<lambda>s. Option.bind (spec_compact (call_llm post cfg) s) (spec_chat (call_llm post cfg) cfg lines))"
        by (simp add: 4 fun_eq_iff)
      with 4 compact show ?thesis by simp
    next
      case 5
      have "spec_chat (call_llm post cfg) cfg (line # lines) =
          (\<lambda>s. Option.bind (spec_converse (call_llm post cfg) cfg line s) (spec_chat (call_llm post cfg) cfg lines))"
        using 5 by (simp add: fun_eq_iff)
      with 5 talk show ?thesis by simp
    qed
  qed
  from follows_bind [OF say_silent(1) this, of "''you> ''"] show ?case by (simp del: spec_chat.simps)
qed
text \<open>A new agent finds the memory of an earlier session in the tables.\<close>

lemma restored:
  assumes "talks cfg (a\<lparr>ag_turn_counter := int (length (fst m))\<rparr>) (m, n)" "ag_turn_counter a = 0"
  shows "\<exists>a'. restore_turn_counter hash a = Some (Inr (), a') \<and> talks cfg a' (m, n)"
proof -
  let ?N = "int (length (fst m))"
  from assms(1) have a: "sound cfg a" "holds_counter (meta (ag_world a)) (length (fst m))" "?N < 2 ^ 31"
    by (auto simp: talks_def sound_def persisted_def)
  show ?thesis
  proof (cases "meta (ag_world a) ''turn_counter''")
    case None
    with a(2) have z: "length (fst m) = 0" by (simp add: holds_counter_def)
    have "a\<lparr>ag_turn_counter := ?N\<rparr> = a" using assms(2) z by simp
    with assms(1) have "talks cfg a (m, n)" by simp
    with None show ?thesis
      by (simp add: restore_turn_counter_def io_bind_def read_tables(2) [OF a(1)] io_return_def)
  next
    case (Some v)
    with a(2) have v: "v = to_string_int ?N" by (auto simp: holds_counter_def)
    let ?say = "''  [restored '' @ to_string_int ?N @ '' turns from previous session]'' @ [line_feed]"
    have "restore_turn_counter hash a = Some (Inr (), a\<lparr>ag_turn_counter := ?N, ag_out := ag_out a @ ?say\<rparr>)"
      using a(3) stoi_to_string [of ?N]
      by (simp add: restore_turn_counter_def io_bind_def read_tables(2) [OF a(1)] Some v set_counter_def in_int_def say_def)
    with assms(1) talks_console(1) show ?thesis by metis
  qed
qed

lemma agent_run_follows:
  fixes n :: 'n
  assumes "0 \<le> ac_max_ctx_turns cfg" "in_int (ac_max_ctx_turns cfg)"
    and "inv w" "persisted (turns w) (meta w) m"
  shows "case spec_chat (call_llm post cfg) cfg lines (m, n) of
      None \<Rightarrow> agent_run hash post lines (new_agent st cfg w n) = None
    | Some s' \<Rightarrow> \<exists>a'. agent_run hash post lines (new_agent st cfg w n) = Some (Inr (), a') \<and> talks cfg a' s'"
proof -
  let ?a = "(new_agent st cfg w n)\<lparr>ag_out := greeting\<rparr>"
  have "talks cfg (?a\<lparr>ag_turn_counter := int (length (fst m))\<rparr>) (m, n)"
    using assms(3,4) by (simp add: talks_def sound_def new_agent_def)
  from restored [OF this] obtain a1 where a1: "restore_turn_counter hash ?a = Some (Inr (), a1)" "talks cfg a1 (m, n)"
    by (auto simp: new_agent_def)
  have greet: "say greeting (new_agent st cfg w n) = Some (Inr (), ?a)" by (simp add: say_def new_agent_def)
  have f: "follows cfg (io_bind (chat_loop hash post lines) (\<lambda>_. say (''Goodbye.'' @ [line_feed]) :: (('w, 'n) Agent, unit) io))
      (\<lambda>s. Option.bind (spec_chat (call_llm post cfg) cfg lines s) Some)"
    by (rule follows_bind [OF chat_loop_follows [OF assms(1,2)] say_silent(1)])
  have run: "agent_run hash post lines (new_agent st cfg w n) =
      io_bind (chat_loop hash post lines) (\<lambda>_. say (''Goodbye.'' @ [line_feed])) a1"
    unfolding agent_run_def io_bind_def [of "say greeting"] greet option.case prod.case sum.case
      io_bind_def [of "restore_turn_counter hash"] a1(1) ..
  from followsD [OF f a1(2)] show ?thesis
    unfolding run by (auto split: option.splits)
qed

end

subsection \<open>Opened tables\<close>

definition memory_contents :: "nat \<Rightarrow> mem_world \<Rightarrow> contents" where
  "memory_contents c w = map_of (w c)"

lemma agent_tables_found:
  assumes tree: "build_tree hash ord factory agent_schema w = Some (Inr root, w')" and "permutes ord"
  obtains d ht hm where "made_by factory ''agent'' ''turns'' ht" "made_by factory ''agent'' ''meta'' hm"
    "store_db hash \<lparr>sr_root = root, sr_resources = []\<rparr> ''agent'' = Some (Inr d)"
    "db_table hash d ''turns'' = Some (Inr \<lparr>tr_table_name = ''turns'', tr_handle = ht\<rparr>)"
    "db_table hash d ''meta'' = Some (Inr \<lparr>tr_table_name = ''meta'', tr_handle = hm\<rparr>)"
proof -
  let ?st = "\<lparr>sr_root = root, sr_resources = []\<rparr>"
  have op: "celer_open hash ord factory agent_schema None w = Some (Inr (), Some ?st, w')"
    by (simp add: celer_open_def tree)
  have in_schema: "\<lparr>td_scope = ''agent'', td_table = ''turns''\<rparr> \<in> set agent_schema"
    "\<lparr>td_scope = ''agent'', td_table = ''meta''\<rparr> \<in> set agent_schema" by (simp_all add: agent_schema_def)
  obtain d ht where t: "made_by factory ''agent'' ''turns'' ht" "celer_db hash ''agent'' (Some ?st) = Some (Inr d)"
    "db_table hash d ''turns'' = Some (Inr \<lparr>tr_table_name = ''turns'', tr_handle = ht\<rparr>)"
    by (rule open_reaches [OF op assms(2) in_schema(1) refl refl]) simp
  obtain d' hm where m: "made_by factory ''agent'' ''meta'' hm" "celer_db hash ''agent'' (Some ?st) = Some (Inr d')"
    "db_table hash d' ''meta'' = Some (Inr \<lparr>tr_table_name = ''meta'', tr_handle = hm\<rparr>)"
    by (rule open_reaches [OF op assms(2) in_schema(2) refl refl]) simp
  from t(2) m(2) have "d' = d" by simp
  with that t m show thesis by (simp add: celer_db_def)
qed

definition table_on :: "string \<Rightarrow> 'w StorageBackend \<Rightarrow> nat \<Rightarrow> 'w TableRef" where
  "table_on nm B c = \<lparr>tr_table_name = nm, tr_handle = make_backend_handle B c\<rparr>"

text \<open>The turns in an in-memory backend, the meta data in a backend like it that may refuse to write.\<close>

lemma opened_agent_turns:
  assumes "build_tree hash ord factory agent_schema w = Some (Inr root, w')" and "permutes ord" and "c1 \<noteq> c2"
    and "\<And>h. made_by factory ''agent'' ''turns'' h \<Longrightarrow> h = make_backend_handle in_memory_backend c1"
    and "\<And>h. made_by factory ''agent'' ''meta'' h \<Longrightarrow> h = make_backend_handle B c2"
    and "b_get B = mem_get" "\<And>k v w. b_put B c2 k v w = mem_put c2 k v w \<or> (\<exists>e. b_put B c2 k v w = Some (Inl e, w))"
  obtains d where "agent_turns hash \<lparr>sr_root = root, sr_resources = []\<rparr> d (table_on ''turns'' in_memory_backend c1)
    (table_on ''meta'' B c2) (memory_contents c1) (memory_contents c2) mem_ok"
proof -
  obtain d ht hm where t: "made_by factory ''agent'' ''turns'' ht" "made_by factory ''agent'' ''meta'' hm"
    "store_db hash \<lparr>sr_root = root, sr_resources = []\<rparr> ''agent'' = Some (Inr d)"
    "db_table hash d ''turns'' = Some (Inr \<lparr>tr_table_name = ''turns'', tr_handle = ht\<rparr>)"
    "db_table hash d ''meta'' = Some (Inr \<lparr>tr_table_name = ''meta'', tr_handle = hm\<rparr>)"
    by (rule agent_tables_found [OF assms(1,2)])
  from assms(4) [OF t(1)] have ht: "ht = make_backend_handle in_memory_backend c1" .
  from assms(5) [OF t(2)] have hm: "hm = make_backend_handle B c2" .
  let ?tt = "\<lparr>tr_table_name = ''turns'', tr_handle = ht\<rparr>" and ?mt = "\<lparr>tr_table_name = ''meta'', tr_handle = hm\<rparr>"
  have "agent_turns hash \<lparr>sr_root = root, sr_resources = []\<rparr> d ?tt ?mt (memory_contents c1) (memory_contents c2) mem_ok"
  proof
    fix w :: mem_world and k v
    assume inv: "mem_ok w"
    have put: "mem_ok (w(c := map_assign k v (w c)))" "memory_contents c (w(c := map_assign k v (w c))) = (memory_contents c w)(k \<mapsto> v)" for c
      using inv by (simp_all add: mem_ok_def map_ok_assign map_of_assign memory_contents_def)
    show "table_get_raw ?tt k w = Some (Inr (memory_contents c1 w k), w)"
      by (simp add: ht table_get_raw_def in_memory_backend_def mem_get_def memory_contents_def)
    show "table_get_raw ?mt k w = Some (Inr (memory_contents c2 w k), w)"
      by (simp add: hm table_get_raw_def assms(6) mem_get_def memory_contents_def)
    show "\<exists>w'. table_put_raw ?tt k v w = Some (Inr (), w') \<and> mem_ok w' \<and>
        memory_contents c1 w' = (memory_contents c1 w)(k \<mapsto> v) \<and> memory_contents c2 w' = memory_contents c2 w"
      using put [of c1] assms(3) by (simp add: ht table_put_raw_def in_memory_backend_def mem_put_def memory_contents_def)
    show "\<exists>w'. table_del ?tt k w = Some (Inr (), w') \<and> mem_ok w' \<and>
        memory_contents c1 w' = (memory_contents c1 w)(k := None) \<and> memory_contents c2 w' = memory_contents c2 w"
      using inv assms(3) by (auto simp: ht table_del_def in_memory_backend_def mem_del_def memory_contents_def mem_ok_def
          map_ok_erase map_of_erase fun_upd_idem)
    show "\<exists>r w'. table_put_raw ?mt k v w = Some (r, w') \<and> mem_ok w' \<and> memory_contents c1 w' = memory_contents c1 w \<and>
        memory_contents c2 w' = (if is_ok r then (memory_contents c2 w)(k \<mapsto> v) else memory_contents c2 w)"
      using assms(7) [of k v w]
    proof
      assume "b_put B c2 k v w = mem_put c2 k v w"
      with put [of c2] assms(3) show ?thesis by (simp add: hm table_put_raw_def mem_put_def memory_contents_def)
    next
      assume "\<exists>e. b_put B c2 k v w = Some (Inl e, w)"
      then obtain e where "b_put B c2 k v w = Some (Inl e, w)" ..
      with inv show ?thesis by (intro exI [of _ "Inl e"] exI [of _ w]) (simp add: hm table_put_raw_def)
    qed
  qed (use t(3-5) in simp_all)
  with that ht hm show thesis by (simp add: table_on_def)
qed

lemma opened_agent_store:
  assumes "build_tree hash ord (memory_factory addr) agent_schema w = Some (Inr root, w')" and "permutes ord"
    and ne: "addr ''agent'' ''turns'' \<noteq> addr ''agent'' ''meta''"
  obtains d where "agent_store hash \<lparr>sr_root = root, sr_resources = []\<rparr> d
    (table_on ''turns'' in_memory_backend (addr ''agent'' ''turns'')) (table_on ''meta'' in_memory_backend (addr ''agent'' ''meta''))
    (memory_contents (addr ''agent'' ''turns'')) (memory_contents (addr ''agent'' ''meta'')) mem_ok"
proof -
  let ?mt = "table_on ''meta'' in_memory_backend (addr ''agent'' ''meta'')"
  obtain d where base: "agent_turns hash \<lparr>sr_root = root, sr_resources = []\<rparr> d
      (table_on ''turns'' in_memory_backend (addr ''agent'' ''turns'')) ?mt
      (memory_contents (addr ''agent'' ''turns'')) (memory_contents (addr ''agent'' ''meta'')) mem_ok"
    by (rule opened_agent_turns [OF assms(1,2) ne, where B = in_memory_backend])
      (simp_all add: memory_factory_made in_memory_backend_def)
  have "agent_store_axioms ?mt mem_ok"
    by unfold_locales (auto simp: table_put_raw_def table_on_def in_memory_backend_def mem_put_def)
  with that base show thesis by (simp add: agent_store_def)
qed

text \<open>The store of the program, with its two tables at two addresses.\<close>

definition agent_leaves :: "mem_world StoreNode list" where
  "agent_leaves = [LeafNode \<lparr>leaf_name = ''turns'', leaf_handle = make_backend_handle in_memory_backend 0\<rparr>,
     LeafNode \<lparr>leaf_name = ''meta'', leaf_handle = make_backend_handle in_memory_backend 1\<rparr>]"

definition agent_scope :: "(string \<Rightarrow> 64 word) \<Rightarrow> mem_world StoreNode" where
  "agent_scope hash = CompositeNode ''agent'' agent_leaves (build_indexed hash agent_leaves node_name)"

definition agent_root :: "(string \<Rightarrow> 64 word) \<Rightarrow> mem_world StoreNode" where
  "agent_root hash = CompositeNode ''root'' [agent_scope hash] (build_indexed hash [agent_scope hash] node_name)"

definition agent_addr :: "string \<Rightarrow> string \<Rightarrow> nat" where
  "agent_addr s t = (if t = ''meta'' then 1 else 0)"

lemma agent_root_built:
  "build_tree hash (\<lambda>xs. xs) (memory_factory agent_addr) agent_schema w =
     Some (Inr (agent_root hash), w(0 := [], 1 := []))"
  by (simp add: build_tree_def agent_schema_def group_by_def traverse_def group_values_def Let_def memory_factory_def
      agent_addr_def build_leaf_def io_bind_def io_lift_def agent_root_def agent_scope_def agent_leaves_def)

definition agent_db :: "(string \<Rightarrow> 64 word) \<Rightarrow> mem_world DbRef" where
  "agent_db hash = \<lparr>dr_scope_name = ''agent'', dr_node = Some (agent_scope hash)\<rparr>"

lemma agent_db_found: "store_db hash \<lparr>sr_root = agent_root hash, sr_resources = []\<rparr> ''agent'' = Some (Inr d) \<Longrightarrow> d = agent_db hash"
  by (auto simp: store_db_def agent_root_def agent_db_def split: option.splits if_splits)

interpretation memory_agent: agent_store hash "\<lparr>sr_root = agent_root hash, sr_resources = []\<rparr>" "agent_db hash"
  "table_on ''turns'' in_memory_backend 0" "table_on ''meta'' in_memory_backend 1"
  "memory_contents 0" "memory_contents 1" mem_ok for hash
proof -
  obtain d where s: "agent_store hash \<lparr>sr_root = agent_root hash, sr_resources = []\<rparr> d
      (table_on ''turns'' in_memory_backend (agent_addr ''agent'' ''turns''))
      (table_on ''meta'' in_memory_backend (agent_addr ''agent'' ''meta''))
      (memory_contents (agent_addr ''agent'' ''turns'')) (memory_contents (agent_addr ''agent'' ''meta'')) mem_ok"
    by (rule opened_agent_store [OF agent_root_built permutes_id(1)]) (simp add: agent_addr_def)
  have "d = agent_db hash"
    using agent_turns.tables(1) [OF agent_store.axioms(1) [OF s]] by (rule agent_db_found)
  with s show "agent_store hash \<lparr>sr_root = agent_root hash, sr_resources = []\<rparr> (agent_db hash)
      (table_on ''turns'' in_memory_backend 0) (table_on ''meta'' in_memory_backend 1)
      (memory_contents 0) (memory_contents 1) mem_ok"
    by (simp add: agent_addr_def)
qed

subsection \<open>Sessions on an opened store\<close>

lemma opened_session:
  assumes "build_tree hash ord (memory_factory addr) agent_schema w0 = Some (Inr root, w1)" and "permutes ord"
    and "addr ''agent'' ''turns'' \<noteq> addr ''agent'' ''meta''"
    and "0 \<le> ac_max_ctx_turns cfg" "in_int (ac_max_ctx_turns cfg)" and "mem_ok w"
    and "persisted (memory_contents (addr ''agent'' ''turns'') w) (memory_contents (addr ''agent'' ''meta'') w) m"
  shows "case spec_chat (call_llm post cfg) cfg lines (m, n) of
      None \<Rightarrow> agent_run hash post lines (new_agent \<lparr>sr_root = root, sr_resources = []\<rparr> cfg w n) = None
    | Some (m', n') \<Rightarrow> \<exists>a'. agent_run hash post lines (new_agent \<lparr>sr_root = root, sr_resources = []\<rparr> cfg w n) = Some (Inr (), a') \<and>
        ag_net a' = n' \<and> mem_ok (ag_world a') \<and>
        persisted (memory_contents (addr ''agent'' ''turns'') (ag_world a')) (memory_contents (addr ''agent'' ''meta'') (ag_world a')) m'"
proof -
  let ?st = "\<lparr>sr_root = root, sr_resources = []\<rparr>"
  obtain d where s: "agent_store hash ?st d
      (table_on ''turns'' in_memory_backend (addr ''agent'' ''turns'')) (table_on ''meta'' in_memory_backend (addr ''agent'' ''meta''))
      (memory_contents (addr ''agent'' ''turns'')) (memory_contents (addr ''agent'' ''meta'')) mem_ok"
    by (rule opened_agent_store [OF assms(1-3)])
  note talks = agent_turns.talks_def [OF agent_store.axioms(1) [OF s]] agent_turns.sound_def [OF agent_store.axioms(1) [OF s]]
  note run = agent_store.agent_run_follows [OF s, OF assms(4-7), of post lines n]
  show ?thesis
  proof (cases "spec_chat (call_llm post cfg) cfg lines (m, n)")
    case None
    with run show ?thesis by simp
  next
    case (Some s')
    obtain m' n' where s': "s' = (m', n')" by fastforce
    from run Some obtain a' where "agent_run hash post lines (new_agent ?st cfg w n) = Some (Inr (), a')"
      "agent_turns.talks ?st (memory_contents (addr ''agent'' ''turns'')) (memory_contents (addr ''agent'' ''meta'')) mem_ok cfg a' s'"
      by auto
    with Some show ?thesis unfolding talks s' by auto
  qed
qed

text \<open>While the model answers, a session that starts with a bounded history ends with one.\<close>

lemma spec_chat_bounded:
  fixes llm :: "'n llm"
  assumes "\<And>msgs n. \<exists>rep n'. llm msgs n = Some (Inr rep, n')"
    and "0 \<le> ac_summary_threshold cfg" "ac_summary_threshold cfg < 2 ^ 31 - 2"
    and "int (length (fst (fst s))) \<le> ac_summary_threshold cfg"
  shows "\<exists>s'. spec_chat llm cfg lines s = Some s' \<and> int (length (fst (fst s'))) \<le> ac_summary_threshold cfg"
  using assms(4)
proof (induction lines arbitrary: s)
  case (Cons line lines)
  obtain ts sm n where s: "s = ((ts, sm), n)" by (metis prod.collapse)
  have compact: "\<exists>s'. spec_compact llm t = Some s' \<and> length (fst (fst s')) = 0" for t
  proof -
    obtain ts sm n where t: "t = ((ts, sm), n)" by (metis prod.collapse)
    obtain rep n' where "llm (compact_messages (summary_text sm) (concat (map turn_line ts))) n = Some (Inr rep, n')"
      using assms(1) by blast
    then show ?thesis by (simp add: t spec_compact_def)
  qed
  have converse: "\<exists>s'. spec_converse llm cfg line s = Some s' \<and> int (length (fst (fst s'))) \<le> ac_summary_threshold cfg"
  proof -
    obtain rep n' where r: "llm (spec_context (nat (ac_max_ctx_turns cfg)) (ts @ [(''user'', line)], sm)) n = Some (Inr rep, n')"
      using assms(1) by blast
    let ?s' = "((ts @ [(''user'', line), (''assistant'', rep)], sm), n')"
    have "length ts + 2 < 2 ^ 31" using Cons.prems assms(3) by (simp add: s)
    then have "spec_converse llm cfg line s =
        (if int (length (fst (fst ?s'))) > ac_summary_threshold cfg then spec_compact llm ?s' else Some ?s')"
      by (simp add: s spec_converse_def spec_store_def r)
    with compact [of ?s'] assms(2) show ?thesis by (auto simp del: of_nat_less_iff)
  qed
  show ?case
  proof (cases "line = ''/quit'' \<or> line = [] \<or> line = ''/history''")
    case True
    then have "spec_chat llm cfg (line # lines) s = (if line = ''/quit'' then Some s else spec_chat llm cfg lines s)"
      by (elim disjE) simp_all
    with Cons.IH [OF Cons.prems] Cons.prems show ?thesis
      by (cases "line = ''/quit''") (simp_all del: spec_chat.simps)
  next
    case False
    obtain s1 where "(if line = ''/summary'' then spec_compact llm s else spec_converse llm cfg line s) = Some s1"
      "int (length (fst (fst s1))) \<le> ac_summary_threshold cfg"
      using compact [of s] converse assms(2) by (cases "line = ''/summary''") auto
    with Cons.IH [of s1] False show ?thesis by auto
  qed
qed simp

text \<open>The meta data of a store that refuses to write the summary.\<close>

definition refusing_backend :: "error \<Rightarrow> mem_world StorageBackend" where
  "refusing_backend e = in_memory_backend\<lparr>b_put := (\<lambda>c k v w. if k = ''summary'' then Some (Inl e, w) else mem_put c k v w)\<rparr>"

definition refusing_factory :: "error \<Rightarrow> mem_world BackendFactory" where
  "refusing_factory e s t w = Some (Inr (if t = ''meta'' then make_backend_handle (refusing_backend e) 1
     else make_backend_handle in_memory_backend 0), w)"

lemma refusing_session:
  assumes "build_tree hash ord (refusing_factory e) agent_schema w0 = Some (Inr root, w1)" and "permutes ord"
    and "ag_store a = \<lparr>sr_root = root, sr_resources = []\<rparr>" "mem_ok (ag_world a)"
    and "persisted (memory_contents 0 (ag_world a)) (memory_contents 1 (ag_world a)) (ts, sm)" "ag_turn_counter a = int (length ts)"
    and "ts \<noteq> []" "call_llm post (ag_cfg a) (compact_messages (summary_text sm) (concat (map turn_line ts))) (ag_net a) = Some (Inr rep, n')"
  shows "\<exists>a'. compact_history hash post a = Some (Inr (), a') \<and> ag_turn_counter a' = 0 \<and> ag_net a' = n' \<and> ag_err a' = ag_err a \<and>
    memory_contents 0 (ag_world a') = Map.empty \<and> memory_contents 1 (ag_world a') ''summary'' = sm"
proof -
  have made: "\<And>h. made_by (refusing_factory e) ''agent'' ''turns'' h \<Longrightarrow> h = make_backend_handle in_memory_backend 0"
    "\<And>h. made_by (refusing_factory e) ''agent'' ''meta'' h \<Longrightarrow> h = make_backend_handle (refusing_backend e) 1"
    by (auto simp: made_by_def refusing_factory_def)
  have B: "b_get (refusing_backend e) = mem_get"
    "\<And>k v w. b_put (refusing_backend e) 1 k v w = mem_put 1 k v w \<or> (\<exists>e'. b_put (refusing_backend e) 1 k v w = Some (Inl e', w))"
    by (simp_all add: refusing_backend_def in_memory_backend_def)
  obtain d where s: "agent_turns hash \<lparr>sr_root = root, sr_resources = []\<rparr> d (table_on ''turns'' in_memory_backend 0)
      (table_on ''meta'' (refusing_backend e) 1) (memory_contents 0) (memory_contents 1) mem_ok"
    by (rule opened_agent_turns [OF assms(1,2) _ made B]) simp
  have t: "agent_turns.talks \<lparr>sr_root = root, sr_resources = []\<rparr> (memory_contents 0) (memory_contents 1) mem_ok
      (ag_cfg a) a ((ts, sm), ag_net a)"
    unfolding agent_turns.talks_def [OF s] agent_turns.sound_def [OF s] using assms(3-6) by simp
  show ?thesis
    by (rule agent_turns.refused_summary_loses_turns [OF s t assms(7,8)])
      (auto simp: table_put_raw_def table_on_def refusing_backend_def)
qed

end
