(* ===== verification/Agent_Properties.thy ===== *)
theory Agent_Properties
  imports Agent_Conversation
begin

text \<open>
  The properties of the conversation memory: JSON strings read back, replies received over HTTP, descriptors closed, a session
  follows its specification, the history stays bounded while the model answers, and a refused summary loses the history.
\<close>

subsection \<open>Text and network\<close>

text \<open>
  A string escaped into a document as the value of its first field is what \<open>extract_string\<close> reads for the field's key,
  except for carriage returns: they are escaped, and read back as a backslash and an \<open>r\<close>. Quotes, backslashes, line
  feeds and tabs survive, in any key and with anything after the value.
\<close>

theorem escaped_field_read_back:
  "extract_string (CHR 0x7B # json_quote # key @ json_quote # CHR '':'' # json_quote # escape s @ json_quote # rest) key =
     concat (map (\<lambda>c. if c = carriage_return then [backslash, CHR ''r''] else [c]) s)"
  using extract_first_field [of key s rest] by (simp add: read_back_def)

text \<open>
  C34: \<open>http::post\<close> leaks nothing: whichever of its calls fails, when it returns a result its socket is closed and its address list
  is freed, on every system whose calls open and close what they document.
\<close>

theorem post_leaks_nothing:
  assumes "tracked_sockets sk fds addrs" and "http_post sk host port path body n = Some (r, n')"
  shows "fds n' = fds n \<and> addrs n' = addrs n"
  using assms by (rule tracked_sockets.post_releases)

text \<open>A reply in two pieces, the second in the middle of the blank line.\<close>

definition reply_body :: string where
  "reply_body = [CHR 0x7B, json_quote] @ ''content'' @ [json_quote, CHR '':'', json_quote] @ ''ok'' @ [backslash, json_quote, json_quote] @ [CHR 0x7D]"

definition reply_net :: "string list \<Rightarrow> script_net" where
  "reply_net replies = \<lparr>sn_hosts = [''localhost''], sn_open = [3], sn_addrs = [], sn_next = 0, sn_script = replies, sn_sent = []\<rparr>"

definition two_pieces :: "string list" where
  "two_pieces = [''HTTP/1.1 200 OK'' @ crlf @ [carriage_return], line_feed # reply_body]"

lemma two_pieces_reply:
  "parse_response (concat two_pieces) = Some \<lparr>re_status = 200, re_body = reply_body\<rparr>"
  by code_simp

lemma two_pieces_post:
  obtains n' where "http_post scripted ''localhost'' port path body (reply_net two_pieces) =
    Some (Inr \<lparr>re_status = 200, re_body = reply_body\<rparr>, n')"
proof -
  have "\<forall>c\<in>set two_pieces. c \<noteq> [] \<and> length c \<le> 4096" by (simp add: two_pieces_def reply_body_def)
  then obtain n' where "exchange scripted ''localhost'' port (http_request ''localhost'' port path body) (reply_net two_pieces)
      (concat two_pieces) n'"
    using scripted_exchange [of "''localhost''" "reply_net two_pieces" port "http_request ''localhost'' port path body"]
    by (auto simp: reply_net_def two_pieces_def)
  from post_exchange [OF this two_pieces_reply] that show thesis by blast
qed

lemma post_leaks_nothing_witness:
  "\<exists>r n'. http_post scripted ''localhost'' 8080 ''/completion'' ''{}'' (reply_net two_pieces) = Some (r, n') \<and>
    set (sn_open n') = {3}"
proof -
  obtain n' where p: "http_post scripted ''localhost'' 8080 ''/completion'' ''{}'' (reply_net two_pieces) =
      Some (Inr \<lparr>re_status = 200, re_body = reply_body\<rparr>, n')" by (rule two_pieces_post)
  from post_leaks_nothing [OF scripted.tracked_sockets_axioms p] p show ?thesis by (auto simp: reply_net_def)
qed

text \<open>
  What a JSON document may hold between the quotes for a text: characters that are neither a quote nor a backslash stand for
  themselves, and quotes, backslashes, line feeds and tabs are escaped by a backslash. The other escapes of JSON are left out.
\<close>

inductive json_text :: "string \<Rightarrow> string \<Rightarrow> bool" where
  json_end: "json_text [] []"
| json_plain: "\<lbrakk>c \<noteq> json_quote; c \<noteq> backslash; json_text enc s\<rbrakk> \<Longrightarrow> json_text (c # enc) (c # s)"
| json_escaped: "\<lbrakk>(c, v) \<in> {(json_quote, json_quote), (backslash, backslash), (CHR ''n'', line_feed), (CHR ''t'', tab_char)};
    json_text enc s\<rbrakk> \<Longrightarrow> json_text (backslash # c # enc) (v # s)"

lemma extract_json: "json_text enc s \<Longrightarrow> extract_loop res (enc @ json_quote # post) = res @ s"
proof (induction arbitrary: res rule: json_text.induct)
  case json_end
  then show ?case by (simp add: extract_step del: extract_loop.simps)
next
  case (json_plain c enc s)
  then show ?case by (simp add: extract_step(1) del: extract_loop.simps)
next
  case (json_escaped c v enc s)
  have "extract_loop res (backslash # c # enc @ json_quote # post) = extract_loop (res @ [v]) (enc @ json_quote # post)"
    using json_escaped.hyps(1) by (auto simp only: insert_iff empty_iff prod.inject extract_step)
  then show ?case using json_escaped.IH by simp
qed

text \<open>
  C35: A reply of the model reaches the agent. The calls of the exchange succeed and the peer sends, in whatever pieces, a status
  line with a status of three digits, headers, a blank line and a body; where the key \<open>content\<close> first stands in quotes in the body a
  colon follows and a text that is not empty, encoded with no other escapes than those of quotes, backslashes, line feeds and tabs.
  Then \<open>call_llm\<close> returns exactly that text if the status is 200, and otherwise an error with the status and the first 200 bytes of
  the body.
\<close>

theorem reply_received:
  assumes "exchange sk (ac_llm_host cfg) (ac_llm_port cfg)
      (http_request (ac_llm_host cfg) (ac_llm_port cfg) ''/completion'' (llm_body (chat_prompt messages))) n raw n'"
    and "raw = ver @ CHR '' '' # code @ rest" "CHR '' '' \<notin> set ver" "length code = 3" "list_all is_digit code"
    and "raw = header @ crlf @ crlf @ content" "find_sub (crlf @ crlf) raw = Some (length header)"
    and "content = pre @ json_quote # ''content'' @ json_quote # mid @ CHR '':'' # ws @ json_quote # enc @ json_quote # post"
    and "find_sub (json_quote # ''content'' @ [json_quote]) content = Some (length pre)"
    and "CHR '':'' \<notin> set mid" "json_quote \<notin> set ws" "json_text enc s" "s \<noteq> []"
  shows "call_llm (http_post sk) cfg messages n =
    Some (if digits_value code = 200 then Inr s
      else Err ''LLM'' (''HTTP '' @ to_string_int (int (digits_value code)) @ '': '' @ take 200 content), n')"
proof -
  have "parse_response raw = Some \<lparr>re_status = int (digits_value code), re_body = content\<rparr>"
    by (rule parse_reply [OF assms(2-5,7,6)])
  from post_exchange [OF assms(1) this]
  have post: "http_post sk (ac_llm_host cfg) (ac_llm_port cfg) ''/completion'' (llm_body (chat_prompt messages)) n =
      Some (Inr \<lparr>re_status = int (digits_value code), re_body = content\<rparr>, n')" .
  have "extract_string content ''content'' = s"
    using extract_after [OF assms(9,8,10,11)] extract_json [OF assms(12), of "[]" post] by simp
  then show ?thesis
    using post assms(13) by (simp add: call_llm_def io_bind_def io_return_def io_throw_def Let_def)
qed

definition local_config :: AgentConfig where
  "local_config = default_agent_config\<lparr>ac_llm_host := ''localhost''\<rparr>"

lemma reply_received_witness:
  "\<exists>n'. call_llm (http_post scripted) local_config [(''user'', ''hi'')] (reply_net two_pieces) = Some (Inr (''ok'' @ [json_quote]), n')"
proof -
  let ?req = "http_request ''localhost'' 8080 ''/completion'' (llm_body (chat_prompt [(''user'', ''hi'')]))"
  have "\<forall>c\<in>set two_pieces. c \<noteq> [] \<and> length c \<le> 4096" by (simp add: two_pieces_def reply_body_def)
  then obtain n' where e: "exchange scripted ''localhost'' 8080 ?req (reply_net two_pieces) (concat two_pieces) n'"
    using scripted_exchange [of "''localhost''" "reply_net two_pieces" 8080 ?req]
    by (auto simp: reply_net_def two_pieces_def)
  have cfg: "ac_llm_host local_config = ''localhost''" "ac_llm_port local_config = 8080"
    by (simp_all add: local_config_def default_agent_config_def)
  have "call_llm (http_post scripted) local_config [(''user'', ''hi'')] (reply_net two_pieces) =
      Some (if digits_value ''200'' = 200 then Inr (''ok'' @ [json_quote])
        else Err ''LLM'' (''HTTP '' @ to_string_int (int (digits_value ''200'')) @ '': '' @ take 200 reply_body), n')"
  proof (rule reply_received)
    show "exchange scripted (ac_llm_host local_config) (ac_llm_port local_config)
        (http_request (ac_llm_host local_config) (ac_llm_port local_config) ''/completion''
          (llm_body (chat_prompt [(''user'', ''hi'')]))) (reply_net two_pieces) (concat two_pieces) n'"
      unfolding cfg by (rule e)
    show "concat two_pieces = ''HTTP/1.1'' @ CHR '' '' # ''200'' @ '' OK'' @ crlf @ crlf @ reply_body"
      by (simp add: two_pieces_def)
    show "CHR '' '' \<notin> set ''HTTP/1.1''" "length ''200'' = 3" "list_all is_digit ''200''" by (simp_all add: is_digit_def)
    show "concat two_pieces = ''HTTP/1.1 200 OK'' @ crlf @ crlf @ reply_body" by (simp add: two_pieces_def)
    show "find_sub (crlf @ crlf) (concat two_pieces) = Some (length ''HTTP/1.1 200 OK'')" by code_simp
    show "reply_body = [CHR 0x7B] @ json_quote # ''content'' @ json_quote # [] @ CHR '':'' # [] @ json_quote #
        (''ok'' @ [backslash, json_quote]) @ json_quote # [CHR 0x7D]" by (simp add: reply_body_def)
    show "find_sub (json_quote # ''content'' @ [json_quote]) reply_body = Some (length [CHR 0x7B])" by code_simp
    show "json_text (''ok'' @ [backslash, json_quote]) (''ok'' @ [json_quote])" by (auto intro!: json_text.intros)
  qed simp_all
  moreover have "digits_value ''200'' = 200" by code_simp
  ultimately show ?thesis by simp
qed

subsection \<open>The conversation\<close>

text \<open>
  C31: A session of the agent follows the specification of a conversation. On the store that \<open>build_tree\<close> made with the
  in-memory backend, with tables that hold a memory (the turns and the summary of an earlier session, or nothing), the run over the
  user's lines ends with the memory that \<open>spec_chat\<close> computes from it: each line appends the user's turn and the model's reply, the
  model is given the system prompt, the summary and the last turns in their order, and a long history is replaced by the model's
  summary. It does not return exactly when a call of the model does not return or the counter would overflow.
\<close>

theorem session_follows_specification:
  assumes "build_tree hash ord (memory_factory addr) agent_schema w0 = Some (Inr root, w1)" and "permutes ord"
    and "addr ''agent'' ''turns'' \<noteq> addr ''agent'' ''meta''"
    and "0 \<le> ac_max_ctx_turns cfg" "in_int (ac_max_ctx_turns cfg)" and "mem_ok w"
    and "persisted (memory_contents (addr ''agent'' ''turns'') w) (memory_contents (addr ''agent'' ''meta'') w) m"
  shows "case spec_chat (call_llm post cfg) cfg lines (m, n) of
      None \<Rightarrow> agent_run hash post lines (new_agent \<lparr>sr_root = root, sr_resources = []\<rparr> cfg w n) = None
    | Some (m', n') \<Rightarrow> \<exists>a'. agent_run hash post lines (new_agent \<lparr>sr_root = root, sr_resources = []\<rparr> cfg w n) = Some (Inr (), a') \<and>
        ag_net a' = n' \<and> mem_ok (ag_world a') \<and>
        persisted (memory_contents (addr ''agent'' ''turns'') (ag_world a')) (memory_contents (addr ''agent'' ''meta'') (ag_world a')) m'"
  by (rule opened_session [OF assms])

text \<open>A model that answers \<open>ok\<close>, after a session that left one turn.\<close>

definition ok_model :: "nat poster" where
  "ok_model host port path body n = Some (Inr \<lparr>re_status = 200, re_body = reply_body\<rparr>, n + 1)"

definition left_over :: mem_world where
  "left_over = (\<lambda>c. if c = 0 then [(''turn:0000:content'', ''hello''), (''turn:0000:role'', ''user'')]
     else if c = 1 then [(''turn_counter'', ''1'')] else [])"

lemma ok_model_answers: "call_llm ok_model cfg messages n = Some (Inr (''ok'' @ [json_quote]), n + 1)"
proof -
  have "extract_string reply_body ''content'' = ''ok'' @ [json_quote]" by code_simp
  then show ?thesis by (simp add: call_llm_def ok_model_def io_bind_def io_return_def Let_def)
qed

lemma left_over_persisted:
  "persisted (memory_contents 0 left_over) (memory_contents 1 left_over) ([(''user'', ''hello'')], None)"
proof -
  have "turn_key 0 ''role'' = ''turn:0000:role''" "turn_key 0 ''content'' = ''turn:0000:content''" by code_simp+
  moreover have "to_string_int 1 = ''1''" by code_simp
  ultimately show ?thesis
    by (auto simp: persisted_def holds_turns_def holds_counter_def turn_fields_def memory_contents_def left_over_def split: if_splits)
qed

lemma left_over_ok: "mem_ok left_over"
  by (auto simp: mem_ok_def left_over_def map_ok_def)

lemma session_follows_specification_witness:
  "\<exists>a'. agent_run (\<lambda>_. 0) ok_model [''hi'', ''/quit''] (new_agent \<lparr>sr_root = agent_root (\<lambda>_. 0), sr_resources = []\<rparr>
      default_agent_config left_over 5) = Some (Inr (), a') \<and>
    persisted (memory_contents 0 (ag_world a')) (memory_contents 1 (ag_world a'))
      ([(''user'', ''hello''), (''user'', ''hi''), (''assistant'', ''ok'' @ [json_quote])], None) \<and> ag_net a' = 6"
proof -
  have cfg: "0 \<le> ac_max_ctx_turns default_agent_config" "in_int (ac_max_ctx_turns default_agent_config)"
    by (simp_all add: default_agent_config_def in_int_def)
  have addr: "agent_addr ''agent'' ''turns'' = 0" "agent_addr ''agent'' ''meta'' = 1" by (simp_all add: agent_addr_def)
  then have ne: "agent_addr ''agent'' ''turns'' \<noteq> agent_addr ''agent'' ''meta''" by simp
  have held: "persisted (memory_contents (agent_addr ''agent'' ''turns'') left_over)
      (memory_contents (agent_addr ''agent'' ''meta'') left_over) ([(''user'', ''hello'')], None)"
    unfolding addr by (rule left_over_persisted)
  have spec: "spec_chat (call_llm ok_model default_agent_config) default_agent_config [''hi'', ''/quit''] (([(''user'', ''hello'')], None), 5) =
      Some (([(''user'', ''hello''), (''user'', ''hi''), (''assistant'', ''ok'' @ [json_quote])], None), 6)"
    by (simp add: spec_converse_def spec_store_def ok_model_answers default_agent_config_def)
  from session_follows_specification [OF agent_root_built permutes_id(1) ne cfg left_over_ok held,
      where post = ok_model and lines = "[''hi'', ''/quit'']" and n = 5, unfolded spec addr]
  show ?thesis by auto
qed

text \<open>
  C32: The history stays bounded in a session that starts with no more than \<open>summary_threshold\<close> turns and whose model answers every
  call: the session returns, and ends with no more turns than that, however many lines the user enters. (A session that starts with
  more, left by calls that failed, keeps them until the model answers again.)
\<close>

theorem history_stays_bounded:
  assumes "build_tree hash ord (memory_factory addr) agent_schema w0 = Some (Inr root, w1)" and "permutes ord"
    and "addr ''agent'' ''turns'' \<noteq> addr ''agent'' ''meta''"
    and "0 \<le> ac_max_ctx_turns cfg" "in_int (ac_max_ctx_turns cfg)" and "mem_ok w"
    and "persisted (memory_contents (addr ''agent'' ''turns'') w) (memory_contents (addr ''agent'' ''meta'') w) m"
    and "\<forall>msgs n. \<exists>rep n'. call_llm post cfg msgs n = Some (Inr rep, n')"
    and "0 \<le> ac_summary_threshold cfg" "ac_summary_threshold cfg < 2 ^ 31 - 2"
    and "int (length (fst m)) \<le> ac_summary_threshold cfg"
  shows "\<exists>a' m'. agent_run hash post lines (new_agent \<lparr>sr_root = root, sr_resources = []\<rparr> cfg w n) = Some (Inr (), a') \<and>
    persisted (memory_contents (addr ''agent'' ''turns'') (ag_world a')) (memory_contents (addr ''agent'' ''meta'') (ag_world a')) m' \<and>
    int (length (fst m')) \<le> ac_summary_threshold cfg"
proof -
  obtain m' n' where spec: "spec_chat (call_llm post cfg) cfg lines (m, n) = Some (m', n')"
    "int (length (fst m')) \<le> ac_summary_threshold cfg"
    using spec_chat_bounded [of "call_llm post cfg" cfg "(m, n)" lines] assms(8-11) by auto
  from opened_session [OF assms(1-3), OF assms(4-7), of post lines n, unfolded spec(1) option.case prod.case] spec(2)
  show ?thesis by blast
qed

lemma history_stays_bounded_witness:
  "\<exists>a' m'. agent_run (\<lambda>_. 0) ok_model (replicate 100 ''hi'') (new_agent \<lparr>sr_root = agent_root (\<lambda>_. 0), sr_resources = []\<rparr>
      default_agent_config left_over 5) = Some (Inr (), a') \<and>
    persisted (memory_contents 0 (ag_world a')) (memory_contents 1 (ag_world a')) m' \<and> length (fst m') \<le> 30"
proof -
  have cfg: "0 \<le> ac_max_ctx_turns default_agent_config" "in_int (ac_max_ctx_turns default_agent_config)"
      "ac_summary_threshold default_agent_config = 30"
    by (simp_all add: default_agent_config_def in_int_def)
  have addr: "agent_addr ''agent'' ''turns'' = 0" "agent_addr ''agent'' ''meta'' = 1" by (simp_all add: agent_addr_def)
  then have ne: "agent_addr ''agent'' ''turns'' \<noteq> agent_addr ''agent'' ''meta''" by simp
  have held: "persisted (memory_contents (agent_addr ''agent'' ''turns'') left_over)
      (memory_contents (agent_addr ''agent'' ''meta'') left_over) ([(''user'', ''hello'')], None)"
    unfolding addr by (rule left_over_persisted)
  have answers: "\<forall>msgs n. \<exists>rep n'. call_llm ok_model default_agent_config msgs n = Some (Inr rep, n')"
    by (simp add: ok_model_answers)
  from history_stays_bounded [OF agent_root_built permutes_id(1) ne cfg(1,2) left_over_ok held answers,
      where lines = "replicate 100 ''hi''" and n = 5, unfolded addr cfg(3)]
  show ?thesis by fastforce
qed

text \<open>
  C33: Compaction deletes the turns before it stores the summary, and ignores whether the summary is stored. On a store whose \<open>meta\<close>
  table refuses the summary, compaction reports success, the turns are gone, and the summary is the one from before: the
  conversation is lost.
\<close>

theorem refused_summary_loses_history:
  assumes "build_tree hash ord (refusing_factory e) agent_schema w0 = Some (Inr root, w1)" and "permutes ord"
    and "ag_store a = \<lparr>sr_root = root, sr_resources = []\<rparr>" "mem_ok (ag_world a)"
    and "persisted (memory_contents 0 (ag_world a)) (memory_contents 1 (ag_world a)) (ts, sm)" "ag_turn_counter a = int (length ts)"
    and "ts \<noteq> []" "call_llm post (ag_cfg a) (compact_messages (summary_text sm) (concat (map turn_line ts))) (ag_net a) = Some (Inr rep, n')"
  shows "\<exists>a'. compact_history hash post a = Some (Inr (), a') \<and> ag_turn_counter a' = 0 \<and> ag_net a' = n' \<and> ag_err a' = ag_err a \<and>
    memory_contents 0 (ag_world a') = Map.empty \<and> memory_contents 1 (ag_world a') ''summary'' = sm"
  using assms by (rule refusing_session)

definition refusing_root :: "mem_world StoreNode" where
  "refusing_root = (case build_tree (\<lambda>_. 0) (\<lambda>xs. xs) (refusing_factory (Error ''Full'' ''disk full'')) agent_schema (\<lambda>_. []) of
     Some (Inr r, w) \<Rightarrow> r | _ \<Rightarrow> agent_root (\<lambda>_. 0))"

lemma refused_summary_loses_history_witness:
  "\<exists>a'. compact_history (\<lambda>_. 0) ok_model ((new_agent \<lparr>sr_root = refusing_root, sr_resources = []\<rparr> default_agent_config left_over 5)
      \<lparr>ag_turn_counter := 1\<rparr>) = Some (Inr (), a') \<and>
    memory_contents 0 (ag_world a') = Map.empty \<and> memory_contents 1 (ag_world a') ''summary'' = None"
proof -
  let ?e = "Error ''Full'' ''disk full''"
  obtain r w1 where built: "build_tree (\<lambda>_. 0) (\<lambda>xs. xs) (refusing_factory ?e) agent_schema (\<lambda>_. []) = Some (Inr r, w1)"
    by (simp add: build_tree_def agent_schema_def group_by_def traverse_def group_values_def Let_def refusing_factory_def
        build_leaf_def io_bind_def io_lift_def)
  then have "build_tree (\<lambda>_. 0) (\<lambda>xs. xs) (refusing_factory ?e) agent_schema (\<lambda>_. []) = Some (Inr refusing_root, w1)"
    by (simp add: refusing_root_def)
  from refused_summary_loses_history [OF this permutes_id(1), where post = ok_model and ts = "[(''user'', ''hello'')]" and sm = None
      and a = "(new_agent \<lparr>sr_root = refusing_root, sr_resources = []\<rparr> default_agent_config left_over 5)\<lparr>ag_turn_counter := 1\<rparr>"]
    left_over_persisted left_over_ok
  show ?thesis by (auto simp: new_agent_def ok_model_answers)
qed

end
