(* ===== verification/Tour.thy ===== *)
theory Tour
  imports Swarm_Types "HOL-Library.Multiset"
begin

text \<open>
  Tours of the route solver (\<open>examples/10_route_solver.cpp\<close>): distances, the length of a closed tour, the 2-opt pass, the construction
  of a tour from pheromone, the nearest-neighbour tour, and the heading of a tour. Cities are numbered by their place in
  a vector; the functions are called with numbers inside it, and tours that are not empty.
\<close>

record 'f City =
  ct_x :: 'f
  ct_y :: 'f
  ct_label :: char

definition city_dist :: "'f Float \<Rightarrow> 'f City \<Rightarrow> 'f City \<Rightarrow> 'f" where
  "city_dist F a b = (let dx = fl_sub F (ct_x a) (ct_x b); dy = fl_sub F (ct_y a) (ct_y b) in
     fl_sqrt F (fl_add F (fl_mul F dx dx) (fl_mul F dy dy)))"

abbreviation leg :: "'f Float \<Rightarrow> 'f City list \<Rightarrow> nat \<Rightarrow> nat \<Rightarrow> 'f" where
  "leg F cities a b \<equiv> city_dist F (cities ! a) (cities ! b)"

definition tour_length :: "'f Float \<Rightarrow> nat list \<Rightarrow> 'f City list \<Rightarrow> 'f" where
  "tour_length F tour cities = foldl (\<lambda>len i. let j = (i + 1) mod length tour in
     fl_add F len (leg F cities (tour ! i) (tour ! j))) (fl_zero F) [0..<length tour]"

subsection \<open>2-opt\<close>

text \<open>\<open>std::reverse\<close> of the places from \<open>i + 1\<close> to \<open>j\<close>.\<close>

definition reverse_between :: "nat \<Rightarrow> nat \<Rightarrow> 'a list \<Rightarrow> 'a list" where
  "reverse_between i j xs = take (i + 1) xs @ rev (drop (i + 1) (take (j + 1) xs)) @ drop (j + 1) xs"

definition two_opt_better :: "'f Float \<Rightarrow> 'f City list \<Rightarrow> nat list \<Rightarrow> nat \<Rightarrow> nat \<Rightarrow> bool" where
  "two_opt_better F cities tour i j = (let n = length tour;
       d_old = fl_add F (leg F cities (tour ! i) (tour ! (i + 1))) (leg F cities (tour ! j) (tour ! ((j + 1) mod n)));
       d_new = fl_add F (leg F cities (tour ! i) (tour ! j)) (leg F cities (tour ! (i + 1)) (tour ! ((j + 1) mod n)))
     in fl_less F d_new (fl_sub F d_old (fl_lit F (1 / 10 ^ 6))))"

fun two_opt_inner :: "'f Float \<Rightarrow> 'f City list \<Rightarrow> nat \<Rightarrow> nat list \<Rightarrow> nat list \<times> bool \<Rightarrow> nat list \<times> bool" where
  "two_opt_inner F cities i [] s = s"
| "two_opt_inner F cities i (j # js) (tour, improved) =
     (if j = length tour - 1 \<and> i = 0 then two_opt_inner F cities i js (tour, improved)
      else if two_opt_better F cities tour i j then two_opt_inner F cities i js (reverse_between i j tour, True)
      else two_opt_inner F cities i js (tour, improved))"

fun two_opt_outer :: "'f Float \<Rightarrow> 'f City list \<Rightarrow> nat list \<Rightarrow> nat list \<times> bool \<Rightarrow> nat list \<times> bool" where
  "two_opt_outer F cities [] s = s"
| "two_opt_outer F cities (i # is) s =
     two_opt_outer F cities is (two_opt_inner F cities i [i + 2..<length (fst s)] s)"

definition two_opt_pass :: "'f Float \<Rightarrow> nat list \<Rightarrow> 'f City list \<Rightarrow> nat list \<times> bool" where
  "two_opt_pass F tour cities = two_opt_outer F cities [0..<length tour - 1] (tour, False)"

text \<open>So many passes, and so many passes until one does not improve.\<close>

fun two_opt_times :: "'f Float \<Rightarrow> nat \<Rightarrow> nat list \<Rightarrow> 'f City list \<Rightarrow> nat list" where
  "two_opt_times F 0 tour cities = tour"
| "two_opt_times F (Suc k) tour cities = two_opt_times F k (fst (two_opt_pass F tour cities)) cities"

fun two_opt_until :: "'f Float \<Rightarrow> nat \<Rightarrow> nat list \<Rightarrow> 'f City list \<Rightarrow> nat list" where
  "two_opt_until F 0 tour cities = tour"
| "two_opt_until F (Suc k) tour cities = (case two_opt_pass F tour cities of (tour', improved) \<Rightarrow>
     if improved then two_opt_until F k tour' cities else tour')"

subsection \<open>Construction\<close>

text \<open>The attraction of each city from \<open>cur\<close>, 0 for the cities visited, and their sum in the order of the loop.\<close>

definition attraction :: "'f Float \<Rightarrow> 'f City list \<Rightarrow> 'f list list \<Rightarrow> 'f \<Rightarrow> 'f \<Rightarrow> nat \<Rightarrow> nat \<Rightarrow> 'f" where
  "attraction F cities tau alpha beta cur j = (let d = leg F cities cur j;
       vis = (if fl_less F (fl_lit F (1 / 10 ^ 6)) d then fl_div F (fl_one F) d else fl_lit F (10 ^ 6))
     in fl_mul F (fl_pow F (tau ! cur ! j) alpha) (fl_pow F vis beta))"

fun weigh_loop :: "(nat \<Rightarrow> 'f) \<Rightarrow> ('f \<Rightarrow> 'f \<Rightarrow> 'f) \<Rightarrow> bool list \<Rightarrow> nat list \<Rightarrow> 'f list \<times> 'f \<Rightarrow> 'f list \<times> 'f" where
  "weigh_loop p add visited [] s = s"
| "weigh_loop p add visited (j # js) (probs, tot) =
     (if visited ! j then weigh_loop p add visited js (probs, tot)
      else weigh_loop p add visited js (probs[j := p j], add tot (p j)))"

fun spin_loop :: "'f Float \<Rightarrow> 'f list \<Rightarrow> bool list \<Rightarrow> 'f \<Rightarrow> 'f \<Rightarrow> nat list \<Rightarrow> nat option" where
  "spin_loop F probs visited r cumul [] = None"
| "spin_loop F probs visited r cumul (j # js) =
     (if visited ! j then spin_loop F probs visited r cumul js
      else let cumul' = fl_add F cumul (probs ! j) in
        if fl_le F r cumul' then Some j else spin_loop F probs visited r cumul' js)"

definition first_unvisited :: "bool list \<Rightarrow> nat \<Rightarrow> nat option" where
  "first_unvisited visited n = List.find (\<lambda>j. \<not> visited ! j) [0..<n]"

text \<open>A city is appended and marked; nothing happens when there is none.\<close>

definition visit :: "nat option \<Rightarrow> nat list \<times> bool list \<Rightarrow> nat list \<times> bool list" where
  "visit c s = (case c of None \<Rightarrow> s | Some j \<Rightarrow> (fst s @ [j], (snd s)[j := True]))"

definition construct_step :: "'f Float \<Rightarrow> ('f, 'g) Random \<Rightarrow> nat \<Rightarrow> 'f City list \<Rightarrow> 'f list list \<Rightarrow> 'f \<Rightarrow> 'f \<Rightarrow>
    (nat list \<times> bool list) \<times> 'g \<Rightarrow> (nat list \<times> bool list) \<times> 'g" where
  "construct_step F R n cities tau alpha beta s = (case s of ((tour, visited), rng) \<Rightarrow>
     let cur = last tour;
         (probs, tot) = weigh_loop (attraction F cities tau alpha beta cur) (fl_add F) visited [0..<n] (replicate n (fl_zero F), fl_zero F)
     in if fl_less F tot (fl_lit F (1 / 10 ^ 12)) then (visit (first_unvisited visited n) (tour, visited), rng)
        else case rg_uniform R tot rng of (r, rng') \<Rightarrow>
          (case spin_loop F probs visited r (fl_zero F) [0..<n] of
             Some j \<Rightarrow> visit (Some j) (tour, visited)
           | None \<Rightarrow> visit (first_unvisited visited n) (tour, visited), rng'))"

definition construct_tour :: "'f Float \<Rightarrow> ('f, 'g) Random \<Rightarrow> nat \<Rightarrow> 'f City list \<Rightarrow> 'f list list \<Rightarrow> 'f \<Rightarrow> 'f \<Rightarrow> nat \<Rightarrow> 'g \<Rightarrow> nat list \<times> 'g" where
  "construct_tour F R n cities tau alpha beta start rng =
     (case (construct_step F R n cities tau alpha beta ^^ (n - 1)) (visit (Some start) ([], replicate n False), rng) of
        ((tour, visited), rng') \<Rightarrow> (tour, rng'))"

subsection \<open>Nearest neighbours\<close>

fun nearest_loop :: "'f Float \<Rightarrow> 'f list list \<Rightarrow> bool list \<Rightarrow> nat \<Rightarrow> nat list \<Rightarrow> 'f \<times> nat \<Rightarrow> nat" where
  "nearest_loop F dm vis cur [] (best_d, best_j) = best_j"
| "nearest_loop F dm vis cur (j # js) (best_d, best_j) =
     (if vis ! j then nearest_loop F dm vis cur js (best_d, best_j)
      else if fl_less F (dm ! cur ! j) best_d then nearest_loop F dm vis cur js (dm ! cur ! j, j)
      else nearest_loop F dm vis cur js (best_d, best_j))"

definition far_away :: "'f Float \<Rightarrow> 'f" where "far_away F = fl_lit F (10 ^ 18)"

definition nn_step :: "'f Float \<Rightarrow> nat \<Rightarrow> 'f list list \<Rightarrow> nat list \<times> bool list \<Rightarrow> nat list \<times> bool list" where
  "nn_step F n dm s = visit (Some (nearest_loop F dm (snd s) (last (fst s)) [0..<n] (far_away F, 0))) s"

definition nn_tour :: "'f Float \<Rightarrow> nat \<Rightarrow> 'f list list \<Rightarrow> nat list" where
  "nn_tour F n dm = fst ((nn_step F n dm ^^ (n - 1)) (visit (Some 0) ([], replicate n False)))"

definition distance_matrix :: "'f Float \<Rightarrow> 'f City list \<Rightarrow> 'f list list" where
  "distance_matrix F cities = map (\<lambda>i. map (\<lambda>j. leg F cities i j) [0..<length cities]) [0..<length cities]"

subsection \<open>The heading of a tour\<close>

definition tour_to_heading :: "'f Float \<Rightarrow> nat list \<Rightarrow> nat \<Rightarrow> 'f list" where
  "tour_to_heading F tour n =
     (let h = foldl (\<lambda>h i. h[tour ! i := fl_div F (fl_of_nat F i) (fl_of_nat F n)]) (replicate n (fl_zero F)) [0..<length tour];
          nm = fl_sqrt F (foldl (\<lambda>nm x. fl_add F nm (fl_mul F x x)) (fl_zero F) h)
      in if fl_less F (fl_lit F (1 / 10 ^ 6)) nm then map (\<lambda>x. fl_div F x nm) h else h)"

section \<open>Tours visit every city once\<close>

definition is_tour :: "nat \<Rightarrow> nat list \<Rightarrow> bool" where
  "is_tour n tour \<longleftrightarrow> mset tour = mset [0..<n]"

lemma is_tour_perm: "is_tour n tour \<longleftrightarrow> distinct tour \<and> set tour = {0..<n}"
proof -
  have "mset tour = mset [0..<n] \<longleftrightarrow> distinct tour \<and> set tour = set [0..<n]"
    using mset_eq_imp_distinct_iff [of tour "[0..<n]"] mset_eq_setD [of tour "[0..<n]"]
      set_eq_iff_mset_eq_distinct [of tour "[0..<n]"] distinct_upt [of 0 n] by blast
  then show ?thesis unfolding is_tour_def by simp
qed

lemma mset_reverse_between: "mset (reverse_between i j xs) = mset xs" if "i \<le> j"
proof -
  have "take (i + 1) xs @ drop (i + 1) (take (j + 1) xs) @ drop (j + 1) xs = xs"
    using that by (metis (no_types, lifting) append_assoc append_take_drop_id min.absorb1 add_le_mono1 take_take)
  then have "mset (take (i + 1) xs) + mset (drop (i + 1) (take (j + 1) xs)) + mset (drop (j + 1) xs) = mset xs"
    by (metis mset_append add.assoc)
  then show ?thesis by (simp add: reverse_between_def add.assoc)
qed

lemma two_opt_inner_mset:
  "\<forall>j\<in>set js. i \<le> j \<Longrightarrow> mset (fst (two_opt_inner F cities i js s)) = mset (fst s)"
  by (induction F cities i js s rule: two_opt_inner.induct) (auto simp: mset_reverse_between)

lemma two_opt_outer_mset: "mset (fst (two_opt_outer F cities is s)) = mset (fst s)"
  by (induction F cities "is" s rule: two_opt_outer.induct) (simp_all add: two_opt_inner_mset)

lemma two_opt_pass_tour: "is_tour n tour \<Longrightarrow> is_tour n (fst (two_opt_pass F tour cities))"
  by (simp add: is_tour_def two_opt_pass_def two_opt_outer_mset)

lemma two_opt_times_tour: "is_tour n tour \<Longrightarrow> is_tour n (two_opt_times F k tour cities)"
  by (induction k arbitrary: tour) (simp_all add: two_opt_pass_tour)

lemma two_opt_until_tour: "is_tour n tour \<Longrightarrow> is_tour n (two_opt_until F k tour cities)"
proof (induction k arbitrary: tour)
  case (Suc k)
  obtain t b where "two_opt_pass F tour cities = (t, b)" by fastforce
  moreover from this two_opt_pass_tour [OF Suc.prems, of F cities] have "is_tour n t" by simp
  ultimately show ?case using Suc.IH by simp
qed simp

subsection \<open>Constructed tours\<close>

text \<open>A partial tour with its marks.\<close>

definition marked :: "nat \<Rightarrow> nat list \<times> bool list \<Rightarrow> bool" where
  "marked n s \<longleftrightarrow> distinct (fst s) \<and> length (snd s) = n \<and> set (fst s) = {j. j < n \<and> snd s ! j}"

lemma marked_visit: "marked n s \<Longrightarrow> j < n \<Longrightarrow> \<not> snd s ! j \<Longrightarrow> marked n (visit (Some j) s)"
  by (auto simp: marked_def visit_def nth_list_update)

lemma marked_start: "start < n \<Longrightarrow> marked n (visit (Some start) ([], replicate n False))"
  by (rule marked_visit) (auto simp: marked_def)

lemma first_unvisited_Some: "first_unvisited visited n = Some j \<Longrightarrow> j < n \<and> \<not> visited ! j"
  by (auto simp: first_unvisited_def find_Some_iff)

lemma marked_unfinished:
  assumes "marked n s" "length (fst s) < n"
  shows "\<exists>j < n. \<not> snd s ! j"
proof (rule ccontr)
  assume "\<not> (\<exists>j < n. \<not> snd s ! j)"
  with assms(1) have "set (fst s) = {0..<n}" by (auto simp: marked_def)
  with distinct_card [of "fst s"] assms show False by (simp add: marked_def)
qed

lemma first_unvisited_exists:
  "marked n s \<Longrightarrow> length (fst s) < n \<Longrightarrow> \<exists>j. first_unvisited (snd s) n = Some j"
  using marked_unfinished [of n s] by (cases "first_unvisited (snd s) n") (auto simp: first_unvisited_def find_None_iff)

lemma marked_full:
  assumes "marked n s" "length (fst s) = n"
  shows "is_tour n (fst s)"
proof -
  have d: "distinct (fst s)" using assms(1) by (simp add: marked_def)
  have marks: "set (fst s) = {j. j < n \<and> snd s ! j}" using assms(1) by (simp add: marked_def)
  have sub: "set (fst s) \<subseteq> {0..<n}" unfolding marks by auto
  have "card (set (fst s)) = card {0..<n}" using distinct_card [OF d] assms(2) by simp
  then have "set (fst s) = {0..<n}" by (rule card_subset_eq [OF finite_atLeastLessThan sub])
  with d show ?thesis by (simp add: is_tour_perm)
qed

lemma spin_loop_Some:
  "spin_loop F probs visited r cumul js = Some j \<Longrightarrow> j \<in> set js \<and> \<not> visited ! j"
proof (induction js arbitrary: cumul)
  case (Cons i js)
  then show ?case
    by (cases "visited ! i"; cases "fl_le F r (fl_add F cumul (probs ! i))") (auto simp: Let_def)
qed simp

text \<open>One step visits exactly one new city.\<close>

lemma construct_step_marked:
  assumes "marked n s" "length (fst s) < n"
  shows "marked n (fst (construct_step F R n cities tau alpha beta (s, rng))) \<and>
    length (fst (fst (construct_step F R n cities tau alpha beta (s, rng)))) = Suc (length (fst s))"
proof -
  obtain tour visited where s: "s = (tour, visited)" by fastforce
  obtain f where f: "first_unvisited visited n = Some f" "f < n" "\<not> visited ! f"
    using first_unvisited_exists [OF assms] first_unvisited_Some by (fastforce simp: s)
  have grow: "marked n (visit (Some j) (tour, visited)) \<and> length (fst (visit (Some j) (tour, visited))) = Suc (length tour)"
    if "j < n" "\<not> visited ! j" for j
    using marked_visit [of n s j] assms(1) that by (simp add: s visit_def)
  have spun: "j < n \<and> \<not> visited ! j" if "spin_loop F probs visited r c [0..<n] = Some j" for probs r c j
    using spin_loop_Some [OF that] by simp
  show ?thesis
    using grow [OF f(2,3)] grow spun by (auto simp: s construct_step_def Let_def f(1) split: prod.splits option.splits)
qed

lemma construct_steps_marked:
  "marked n (fst s) \<Longrightarrow> length (fst (fst s)) + k \<le> n \<Longrightarrow>
    marked n (fst ((construct_step F R n cities tau alpha beta ^^ k) s)) \<and>
    length (fst (fst ((construct_step F R n cities tau alpha beta ^^ k) s))) = length (fst (fst s)) + k"
proof (induction k)
  case (Suc k)
  let ?s = "(construct_step F R n cities tau alpha beta ^^ k) s"
  from Suc have IH: "marked n (fst ?s)" "length (fst (fst ?s)) = length (fst (fst s)) + k" by auto
  with Suc.prems(2) construct_step_marked [of n "fst ?s" F R cities tau alpha beta "snd ?s"] show ?case by simp
qed simp

lemma construct_tour_is_tour:
  assumes "start < n"
  shows "is_tour n (fst (construct_tour F R n cities tau alpha beta start rng))"
proof -
  let ?first = "visit (Some start) ([], replicate n False)"
  let ?s = "(construct_step F R n cities tau alpha beta ^^ (n - 1)) (?first, rng)"
  have "length (fst ?first) = 1" by (simp add: visit_def)
  then have "marked n (fst ?s) \<and> length (fst (fst ?s)) = n"
    using construct_steps_marked [of n "(?first, rng)" "n - 1" F R cities tau alpha beta] marked_start [OF assms] assms by simp
  then have "is_tour n (fst (fst ?s))" using marked_full by blast
  then show ?thesis by (simp add: construct_tour_def case_prod_unfold)
qed

end
