(* ===== verification/Swarm_Demo.thy ===== *)
theory Swarm_Demo
  imports Swarm_Laws
begin

text \<open>
  What the demonstrations of the swarm (\<open>examples/08_collatz_swarm.cpp\<close>, \<open>09_fluid_ripple.cpp\<close> and \<open>10_route_solver.cpp\<close>) share: random numbers
  of their own, actors that do nothing, and a swarm of a single cluster that has recruited every agent and whose graph is made by
  the demonstration. Setting up such a swarm always succeeds. The clock is a parameter.
\<close>

text \<open>Numbers of a \<open>uniform_real_distribution(lo, hi)\<close> and of a \<open>uniform_int_distribution(0, k)\<close>.\<close>

record ('f, 'g) Draws =
  dr_position :: "'f \<Rightarrow> 'f \<Rightarrow> 'g \<Rightarrow> 'f \<times> 'g"
  dr_index :: "nat \<Rightarrow> 'g \<Rightarrow> nat \<times> 'g"

text \<open>The actors of the demonstrations do nothing with a message.\<close>

definition idle_vt :: "32 word ActorVTable" where
  "idle_vt = \<lparr>av_on_receive = (\<lambda>a env. Return a), av_clone = (\<lambda>a. a)\<rparr>"

text \<open>The thresholds of the agents are spread by one normal distribution, agent by agent and morph by morph.\<close>

definition spread_thresholds :: "'f Float \<Rightarrow> nat \<Rightarrow> 'f list \<Rightarrow> 'f AgentThresholds list \<Rightarrow> 'f AgentThresholds list" where
  "spread_thresholds F pop noise th = map (\<lambda>(i, t). if i < pop
     then map (\<lambda>c. fl_max F (fl_lit F (5 / 100)) (fl_add F (t ! c) (noise ! (i * morph_count + c)))) [0..<morph_count] else t)
     (zip [0..<length th] th)"

text \<open>\<open>None\<close> when the first recruiting would leave the field, or the cluster has no graph.\<close>

definition idle_swarm :: "'f Float \<Rightarrow> ('f, 'g) Random \<Rightarrow> 'f SwarmConfig \<Rightarrow> nat \<Rightarrow> string \<Rightarrow> string \<Rightarrow> TaskNode \<Rightarrow> 64 word \<Rightarrow> 'f \<Rightarrow>
    (('f, 'g) PheromoneGraph \<Rightarrow> ('f, 'g) PheromoneGraph) \<Rightarrow> ((32 word, 'f, 'g) swarm_cluster \<times> nat) option" where
  "idle_swarm F R cfg slots agent_name cluster_name task ts spread make_graph = (let
       pop = cf_population cfg;
       sw0 = new_swarm F R cfg (actor_system slots);
       f0 = new_field F R pop (cf_strategy_dim cfg) (cf_alignment_radius cfg) (cf_noise_eta cfg) ts;
       (proto, sys1) = spawn idle_vt ''proto'' 0 (actor_system slots);
       (refs, sys2) = spawn_n proto pop agent_name sys1;
       svc = create_cluster F R cluster_name task (cf_evaporation_rate cfg) (fl_lit F 1) (fl_lit F 1) (fl_lit F 2) (ts + 1) (sw_clusters sw0);
       cl = last (cs_clusters svc)
     in case graph_for cl svc of
       None \<Rightarrow> None
     | Some gi \<Rightarrow> (case recruit F R (sf_agents f0) pop (sys2, f0, cl) of
           None \<Rightarrow> None
         | Some (recruited, sys3, f1, cl1) \<Rightarrow>
             let noise = fst (rg_normal R spread (unat pop * morph_count) (rg_seed R (ucast (ucast (ts + 2) :: 32 word))));
                 sched = sw_scheduler sw0
             in Some ((cl1, sw0\<lparr>sw_system := Some sys3, sw_field := f1,
                   sw_clusters := set_graph gi (make_graph (cs_graphs svc ! gi)) svc,
                   sw_scheduler := sched\<lparr>ms_thresholds := spread_thresholds F (unat pop) noise (ms_thresholds sched)\<rparr>\<rparr>), gi)))"

text \<open>After a tick the agents of the field get the morphs that the scheduler gave them.\<close>

definition copy_morphs :: "nat \<Rightarrow> ('a, 'f, 'g) Swarm \<Rightarrow> ('a, 'f, 'g) Swarm" where
  "copy_morphs pop sw = sw\<lparr>sw_field := foldl (\<lambda>f a. set_agent a ((agent_at f a)\<lparr>ag_morph := morph_of (sw_scheduler sw) (word_of_nat a)\<rparr>) f)
     (sw_field sw) [0..<pop]\<rparr>"

subsection \<open>Setting up succeeds\<close>

definition ids_inside :: "('f, 'g) SwarmField \<Rightarrow> bool" where
  "ids_inside f \<longleftrightarrow> (\<forall>a \<in> set (sf_agents f). unat (ag_agent_id a) < field_population f)"

lemma unit_vector_agents:
  assumes "random_unit_vector F R f = (v, f')" shows "sf_agents f' = sf_agents f"
  using assms by (auto simp: random_unit_vector_def sample_gaussian_vector_def split: prod.splits)

lemma init_agents_inside:
  "ids_inside f \<Longrightarrow> \<forall>i\<in>set is. i < field_population f \<Longrightarrow>
    ids_inside (init_agents F R is f) \<and> field_population (init_agents F R is f) = field_population f"
proof (induction "is" arbitrary: f)
  case (Cons i "is")
  obtain v f1 where v: "random_unit_vector F R f = (v, f1)" by (cases "random_unit_vector F R f")
  let ?f = "set_agent i ((agent_at f1 i)\<lparr>ag_heading := v, ag_agent_id := word_of_nat i, ag_lifecycle := Dormant\<rparr>) f1"
  have pop: "field_population ?f = field_population f"
    using unit_vector_agents [OF v] by (simp add: field_population_def set_agent_def)
  have "unat (word_of_nat i :: 32 word) \<le> i" by (simp add: unat_of_nat)
  with Cons.prems(2) have "unat (word_of_nat i :: 32 word) < field_population f" by auto
  then have "ids_inside ?f"
    using Cons.prems(1) unit_vector_agents [OF v] pop
    unfolding ids_inside_def pop by (auto simp: set_agent_def dest!: set_update_subset_insert [THEN subsetD])
  from Cons.IH [OF this] Cons.prems(2) pop show ?case by (simp add: v)
qed simp

lemma new_field_inside:
  "0 < pop \<Longrightarrow> ids_inside (new_field F R pop d radius eta seed) \<and> field_population (new_field F R pop d radius eta seed) = unat pop"
proof -
  let ?f = "\<lparr>sf_agents = replicate (unat pop) (default_agent F), sf_dim = d, sf_radius = radius, sf_eta = eta, sf_rng = rg_seed R seed\<rparr>"
  assume "0 < pop"
  then have "0 < unat pop" by (simp add: word_less_nat_alt)
  then have "ids_inside ?f" by (simp add: ids_inside_def field_population_def default_agent_def)
  from init_agents_inside [OF this, of "[0..<unat pop]" F R] show ?thesis by (simp add: new_field_def field_population_def)
qed

lemma recruit_loop_succeeds:
  "\<forall>a\<in>set as. unat (ag_agent_id a) < field_population f \<Longrightarrow> \<exists>x. recruit_loop F R n as rs (sys, f, c) = Some x"
proof (induction as arbitrary: rs sys f c)
  case (Cons a as)
  obtain sys1 f1 c1 where one: "recruit_one F R (ag_agent_id a) (sys, f, c) = (sys1, f1, c1)"
    by (cases "recruit_one F R (ag_agent_id a) (sys, f, c)")
  have r: "unat (ag_agent_id a) < field_population f" using Cons.prems by simp
  have "field_population f1 = field_population f" using recruit_one_keeps [OF r one] by simp
  with Cons.prems Cons.IH [of f1 "rs @ [ag_agent_id a]" sys1 c1] Cons.IH [of f rs sys c] r one show ?case by (simp add: Let_def)
qed simp

lemma idle_swarm_succeeds:
  assumes "0 < cf_population cfg"
  shows "\<exists>x. idle_swarm F R cfg slots agent_name cluster_name task ts spread make_graph = Some x"
proof -
  let ?pop = "cf_population cfg"
  have never: "recruit_loop F R k (sf_agents (new_field F R ?pop d radius eta ts)) [] (sys, new_field F R ?pop d radius eta ts, c) \<noteq> None"
    for k d radius eta c and sys :: "32 word ActorSystem"
    using new_field_inside [OF assms, of F R d radius eta ts] recruit_loop_succeeds unfolding ids_inside_def by fastforce
  show ?thesis
    by (simp add: never idle_swarm_def Let_def graph_for_def create_cluster_def new_swarm_def new_service_def recruit_def split: prod.splits option.splits)
qed

end
