(* ===== verification/Route_Solver.thy ===== *)
theory Route_Solver
  imports Tour Swarm_Demo
begin

text \<open>
  The route solver (\<open>examples/10_route_solver.cpp\<close>, \<open>main\<close> without its output): an ant colony on the swarm. Each round every agent
  makes a tour according to its morph, the best tour is kept and improved, pheromone is evaporated and deposited on a matrix, the
  headings of the field are set from the tours, and the cluster of the swarm is ticked. The clock is a parameter.
\<close>

subsection \<open>Tunables\<close>

definition POP :: nat where "POP = 64"
definition ACO_ALPHA :: "'f Float \<Rightarrow> 'f" where "ACO_ALPHA F = fl_lit F (3 / 2)"
definition ACO_BETA :: "'f Float \<Rightarrow> 'f" where "ACO_BETA F = fl_lit F 3"
definition EVAP_RATE :: "'f Float \<Rightarrow> 'f" where "EVAP_RATE F = fl_lit F (12 / 100)"
definition Q_DEPOSIT :: "'f Float \<Rightarrow> 'f" where "Q_DEPOSIT F = fl_lit F 100"
definition TAU_INIT :: "'f Float \<Rightarrow> 'f" where "TAU_INIT F = fl_lit F (1 / 10)"
definition TAU_MIN :: "'f Float \<Rightarrow> 'f" where "TAU_MIN F = fl_lit F (1 / 100)"
definition TAU_MAX :: "'f Float \<Rightarrow> 'f" where "TAU_MAX F = fl_lit F 10"
definition MAX_ROUNDS :: nat where "MAX_ROUNDS = 200"
definition ETA_HI :: "'f Float \<Rightarrow> 'f" where "ETA_HI F = fl_lit F 2"
definition ETA_LO :: "'f Float \<Rightarrow> 'f" where "ETA_LO F = fl_lit F (5 / 100)"

subsection \<open>The solver's state\<close>

record ('a, 'f, 'g) Solver =
  so_cities :: "'f City list"
  so_tau :: "'f list list"
  so_tours :: "nat list list"
  so_lengths :: "'f list"
  so_best_tour :: "nat list"
  so_best_length :: 'f
  so_stagnation :: "32 word"
  so_rng :: 'g
  so_swarm :: "('a, 'f, 'g) swarm_cluster"
  so_graph :: nat
  so_best_hist :: "'f list"
  so_avg_hist :: "'f list"
  so_phi_hist :: "'f list"
  so_div_hist :: "'f list"

abbreviation city_count :: "('a, 'f, 'g) Solver \<Rightarrow> nat" where
  "city_count s \<equiv> length (so_cities s)"

subsection \<open>Tours of a round\<close>

text \<open>The coordinator keeps its tour, or takes the best one when its own is long, and swaps two cities.\<close>

definition swap_places :: "nat \<Rightarrow> nat \<Rightarrow> 'x list \<Rightarrow> 'x list" where
  "swap_places p q xs = xs[p := xs ! q, q := xs ! p]"

definition keep_elite :: "'f Float \<Rightarrow> ('f, 'g) Draws \<Rightarrow> nat \<Rightarrow> ('a, 'f, 'g) Solver \<Rightarrow> nat list \<times> 'g" where
  "keep_elite F Q a s = (let
       tour = (if so_tours s ! a = [] \<or> fl_less F (fl_mul F (so_best_length s) (fl_lit F (11 / 10))) (so_lengths s ! a)
               then so_best_tour s else so_tours s ! a)
     in if length tour \<ge> 2 then
          (case dr_index Q (city_count s - 1) (so_rng s) of (p, g1) \<Rightarrow>
           case dr_index Q (city_count s - 1) g1 of (q, g2) \<Rightarrow> (swap_places p q tour, g2))
        else (tour, so_rng s))"

definition agent_tour :: "'f Float \<Rightarrow> ('f, 'g) Random \<Rightarrow> ('f, 'g) Draws \<Rightarrow> 'f \<Rightarrow> 'f \<Rightarrow> nat \<Rightarrow> ('a, 'f, 'g) Solver \<Rightarrow> nat list \<times> 'g" where
  "agent_tour F R Q alpha_t beta_t a s = (let morph = morph_of (sw_scheduler (snd (so_swarm s))) (word_of_nat a);
       build = (\<lambda>al be. construct_tour F R (city_count s) (so_cities s) (so_tau s) al be 0 (so_rng s));
       (tour, rng) = (if morph = SwarmCoordinator then keep_elite F Q a s
          else if morph = Explorer then build (fl_mul F alpha_t (fl_lit F (3 / 10))) (fl_mul F beta_t (fl_lit F (1 / 2)))
          else build alpha_t beta_t)
     in (if morph = Evaluator then two_opt_until F 3 tour (so_cities s) else tour, rng))"

text \<open>The sum of the lengths, the shortest and its agent, from \<open>1e18\<close> and agent 0.\<close>

type_synonym 'f round_totals = "'f \<times> 'f \<times> nat"

definition agent_turn :: "'f Float \<Rightarrow> ('f, 'g) Random \<Rightarrow> ('f, 'g) Draws \<Rightarrow> 'f \<Rightarrow> 'f \<Rightarrow>
    ('a, 'f, 'g) Solver \<times> 'f round_totals \<Rightarrow> nat \<Rightarrow> ('a, 'f, 'g) Solver \<times> 'f round_totals" where
  "agent_turn F R Q alpha_t beta_t st a = (case st of (s, sum_length, best_len, best_idx) \<Rightarrow>
     case agent_tour F R Q alpha_t beta_t a s of (tour, rng) \<Rightarrow>
       let len = tour_length F tour (so_cities s);
           s' = s\<lparr>so_tours := (so_tours s)[a := tour], so_lengths := (so_lengths s)[a := len], so_rng := rng\<rparr>
       in (s', fl_add F sum_length len, if fl_less F len best_len then (len, a) else (best_len, best_idx)))"

definition all_turns :: "'f Float \<Rightarrow> ('f, 'g) Random \<Rightarrow> ('f, 'g) Draws \<Rightarrow> 'f \<Rightarrow> 'f \<Rightarrow> ('a, 'f, 'g) Solver \<Rightarrow>
    ('a, 'f, 'g) Solver \<times> 'f round_totals" where
  "all_turns F R Q alpha_t beta_t s = foldl (agent_turn F R Q alpha_t beta_t) (s, fl_zero F, far_away F, 0) [0..<POP]"

definition update_best :: "'f Float \<Rightarrow> 'f round_totals \<Rightarrow> ('a, 'f, 'g) Solver \<Rightarrow> ('a, 'f, 'g) Solver" where
  "update_best F totals s = (case totals of (_, best_len, best_idx) \<Rightarrow>
     if fl_less F best_len (so_best_length s) then
       (let tour = two_opt_until F 10 (so_tours s ! best_idx) (so_cities s) in
        s\<lparr>so_best_tour := tour, so_best_length := tour_length F tour (so_cities s), so_stagnation := 0\<rparr>)
     else s\<lparr>so_stagnation := so_stagnation s + 1\<rparr>)"

subsection \<open>Pheromone\<close>

definition evaporate_tau :: "'f Float \<Rightarrow> 'f list list \<Rightarrow> 'f list list" where
  "evaporate_tau F tau = map (map (\<lambda>t. fl_max F (TAU_MIN F) (fl_mul F t (fl_sub F (fl_one F) (EVAP_RATE F))))) tau"

definition set_at :: "nat \<Rightarrow> nat \<Rightarrow> 'x \<Rightarrow> 'x list list \<Rightarrow> 'x list list" where
  "set_at i j x m = m[i := (m ! i)[j := x]]"

definition deposit_leg :: "'f Float \<Rightarrow> 'f \<Rightarrow> 'f list list \<Rightarrow> nat \<times> nat \<Rightarrow> 'f list list" where
  "deposit_leg F dep tau l = (case l of (ci, cj) \<Rightarrow>
     let tau1 = set_at ci cj (fl_min F (TAU_MAX F) (fl_add F (tau ! ci ! cj) dep)) tau in
     set_at cj ci (tau1 ! ci ! cj) tau1)"

definition legs :: "nat \<Rightarrow> nat list \<Rightarrow> (nat \<times> nat) list" where
  "legs n tour = map (\<lambda>s. (tour ! s, tour ! ((s + 1) mod n))) [0..<n]"

definition deposit_tour :: "'f Float \<Rightarrow> nat \<Rightarrow> 'f \<Rightarrow> nat list \<Rightarrow> 'f list list \<Rightarrow> 'f list list" where
  "deposit_tour F n dep tour tau = foldl (deposit_leg F dep) tau (legs n tour)"

definition deposit_agents :: "'f Float \<Rightarrow> ('a, 'f, 'g) Solver \<Rightarrow> 'f list list \<Rightarrow> 'f list list" where
  "deposit_agents F s tau = foldl (\<lambda>t a. deposit_tour F (city_count s) (fl_div F (Q_DEPOSIT F) (so_lengths s ! a)) (so_tours s ! a) t) tau [0..<POP]"

definition update_tau :: "'f Float \<Rightarrow> ('a, 'f, 'g) Solver \<Rightarrow> ('a, 'f, 'g) Solver" where
  "update_tau F s = (let
       elite = fl_div F (fl_mul F (Q_DEPOSIT F) (fl_lit F 2)) (so_best_length s);
       tau = deposit_tour F (city_count s) elite (so_best_tour s) (deposit_agents F s (evaporate_tau F (so_tau s)))
     in if so_stagnation s > 25
        then s\<lparr>so_tau := map (map (\<lambda>_. TAU_INIT F)) tau, so_stagnation := 0\<rparr>
        else s\<lparr>so_tau := tau\<rparr>)"

subsection \<open>The swarm\<close>

definition min_length :: "'f Float \<Rightarrow> 'f list \<Rightarrow> 'f" where
  "min_length F ls = foldl (\<lambda>m x. if fl_less F x m then x else m) (hd ls) (tl ls)"

definition max_length :: "'f Float \<Rightarrow> 'f list \<Rightarrow> 'f" where
  "max_length F ls = foldl (\<lambda>m x. if fl_less F m x then x else m) (hd ls) (tl ls)"

definition tour_quality :: "'f Float \<Rightarrow> 'f \<Rightarrow> 'f \<Rightarrow> 'f \<Rightarrow> 'f" where
  "tour_quality F min_len max_len len = (if fl_less F min_len max_len
     then fl_sub F (fl_one F) (fl_div F (fl_sub F len min_len) (fl_sub F max_len min_len)) else fl_lit F (1 / 2))"

definition show_tour :: "'f Float \<Rightarrow> ('a, 'f, 'g) Solver \<Rightarrow> 'f \<Rightarrow> 'f \<Rightarrow> ('f, 'g) SwarmField \<Rightarrow> nat \<Rightarrow> ('f, 'g) SwarmField" where
  "show_tour F s min_len max_len f a = set_agent a
     ((agent_at f a)\<lparr>ag_heading := tour_to_heading F (so_tours s ! a) (city_count s),
        ag_quality := tour_quality F min_len max_len (so_lengths s ! a)\<rparr>) f"

definition show_tours :: "'f Float \<Rightarrow> ('a, 'f, 'g) Solver \<Rightarrow> ('f, 'g) SwarmField \<Rightarrow> ('f, 'g) SwarmField" where
  "show_tours F s f = foldl (show_tour F s (min_length F (so_lengths s)) (max_length F (so_lengths s))) f [0..<POP]"

text \<open>The deposits on the swarm's own graph, whose nodes are the cities' numbers from 1 on.\<close>

definition engine_deposit :: "'f Float \<Rightarrow> nat \<Rightarrow> nat list \<Rightarrow> ('f, 'g) PheromoneGraph \<Rightarrow> ('f, 'g) PheromoneGraph" where
  "engine_deposit F n tour g =
     foldl (\<lambda>g (ci, cj). deposit F [word_of_nat ci + 1, word_of_nat cj + 1] (fl_lit F (1 / 10)) g) g (legs n tour)"

definition update_swarm :: "'f Float \<Rightarrow> ('f, 'g) Random \<Rightarrow> ('a, 'f, 'g) Solver \<Rightarrow> ('a, 'f, 'g) Solver" where
  "update_swarm F R s = (case so_swarm s of (cl, sw) \<Rightarrow>
     case tick_cluster F R (cl, sw\<lparr>sw_field := show_tours F s (sw_field sw)\<rparr>) of (cl', sw1) \<Rightarrow>
       let sw2 = copy_morphs POP sw1;
           graph = engine_deposit F (city_count s) (so_best_tour s) (cs_graphs (sw_clusters sw2) ! so_graph s)
       in s\<lparr>so_swarm := (cl', sw2\<lparr>sw_clusters := set_graph (so_graph s) graph (sw_clusters sw2)\<rparr>)\<rparr>)"

text \<open>How many edges the agents' tours use, of all that there are, in percent.\<close>

definition edge_key :: "nat \<times> nat \<Rightarrow> 64 word" where
  "edge_key l = (case l of (ci, cj) \<Rightarrow> or (push_bit 32 (word_of_nat (min ci cj))) (word_of_nat (max ci cj)))"

definition diversity :: "'f Float \<Rightarrow> ('a, 'f, 'g) Solver \<Rightarrow> 'f" where
  "diversity F s = (let n = city_count s;
       keys = concat (map (\<lambda>a. map edge_key (legs n (so_tours s ! a))) [0..<POP])
     in fl_mul F (fl_div F (fl_of_nat F (length (remdups keys))) (fl_of_nat F (n * (n - 1) div 2))) (fl_lit F 100))"

subsection \<open>Rounds\<close>

definition anneal :: "'f Float \<Rightarrow> 'f \<Rightarrow> ('a, 'f, 'g) Solver \<Rightarrow> ('a, 'f, 'g) Solver" where
  "anneal F prog s = (let eta = fl_mul F (ETA_HI F) (fl_pow F (fl_div F (ETA_LO F) (ETA_HI F)) prog) in
     case so_swarm s of (cl, sw) \<Rightarrow> s\<lparr>so_swarm := (cl, sw\<lparr>sw_field := set_eta eta (sw_field sw)\<rparr>)\<rparr>)"

definition record_round :: "'f Float \<Rightarrow> 'f \<Rightarrow> ('a, 'f, 'g) Solver \<Rightarrow> ('a, 'f, 'g) Solver" where
  "record_round F sum_length s = s\<lparr>so_best_hist := so_best_hist s @ [so_best_length s],
     so_avg_hist := so_avg_hist s @ [fl_div F sum_length (fl_of_nat F POP)],
     so_phi_hist := so_phi_hist s @ [cl_phi (fst (so_swarm s))], so_div_hist := so_div_hist s @ [diversity F s]\<rparr>"

definition solve_round :: "'f Float \<Rightarrow> ('f, 'g) Random \<Rightarrow> ('f, 'g) Draws \<Rightarrow> nat \<Rightarrow> ('a, 'f, 'g) Solver \<Rightarrow> ('a, 'f, 'g) Solver" where
  "solve_round F R Q k s = (let prog = fl_div F (fl_of_nat F k) (fl_of_nat F MAX_ROUNDS);
       half = fl_mul F prog (fl_lit F (1 / 2));
       (s1, totals) = all_turns F R Q (fl_add F (ACO_ALPHA F) half) (fl_sub F (ACO_BETA F) half) (anneal F prog s)
     in record_round F (fst totals) (update_swarm F R (update_tau F (update_best F totals s1))))"

text \<open>The loop ends early when the swarm is aligned and nothing has improved for a while.\<close>

definition settled :: "'f Float \<Rightarrow> nat \<Rightarrow> ('a, 'f, 'g) Solver \<Rightarrow> bool" where
  "settled F k s \<longleftrightarrow> fl_less F (fl_lit F (98 / 100)) (cl_phi (fst (so_swarm s))) \<and> so_stagnation s > 15 \<and> k > 50"

fun solve_rounds :: "'f Float \<Rightarrow> ('f, 'g) Random \<Rightarrow> ('f, 'g) Draws \<Rightarrow> nat list \<Rightarrow> ('a, 'f, 'g) Solver \<Rightarrow> ('a, 'f, 'g) Solver" where
  "solve_rounds F R Q [] s = s"
| "solve_rounds F R Q (k # ks) s = (let s' = solve_round F R Q k s in
     if settled F k s' then s' else solve_rounds F R Q ks s')"

subsection \<open>Setting up\<close>

fun place_cities :: "'f Float \<Rightarrow> ('f, 'g) Draws \<Rightarrow> nat list \<Rightarrow> 'f City list \<Rightarrow> 'g \<Rightarrow> 'f City list \<times> 'g" where
  "place_cities F Q [] cities g = (cities, g)"
| "place_cities F Q (i # is) cities g =
     (case dr_position Q (fl_lit F 5) (fl_lit F 95) g of (x, g1) \<Rightarrow>
      case dr_position Q (fl_lit F 5) (fl_lit F 95) g1 of (y, g2) \<Rightarrow>
        place_cities F Q is (cities @ [\<lparr>ct_x = x, ct_y = y,
          ct_label = (if i < 26 then char_of (65 + i) else char_of (97 + i - 26))\<rparr>]) g2)"

definition solver_config :: "'f Float \<Rightarrow> nat \<Rightarrow> 'f SwarmConfig" where
  "solver_config F n = (default_swarm_config F)\<lparr>cf_population := word_of_nat POP, cf_strategy_dim := word_of_nat n, cf_alignment_radius := fl_lit F 1,
     cf_noise_eta := ETA_HI F, cf_evaporation_rate := EVAP_RATE F, cf_convergence_phi := fl_lit F (95 / 100), cf_sustain_window := 10,
     cf_max_rounds := word_of_nat MAX_ROUNDS, cf_premature_quality := fl_lit F (3 / 10), cf_noise_burst := fl_lit F (3 / 10),
     cf_morphs := [\<lparr>mo_name = ''Explorer'', mo_base_threshold = fl_lit F (8 / 10), mo_stimulus_decay = fl_lit F (15 / 100)\<rparr>,
       \<lparr>mo_name = ''Worker'', mo_base_threshold = fl_lit F (3 / 10), mo_stimulus_decay = fl_lit F (10 / 100)\<rparr>,
       \<lparr>mo_name = ''Evaluator'', mo_base_threshold = fl_lit F (4 / 10), mo_stimulus_decay = fl_lit F (10 / 100)\<rparr>,
       \<lparr>mo_name = ''Coordinator'', mo_base_threshold = fl_lit F (7 / 10), mo_stimulus_decay = fl_lit F (12 / 100)\<rparr>],
     cf_channel_capacity := 256\<rparr>"

definition city_graph :: "'f Float \<Rightarrow> 'f City list \<Rightarrow> ('f, 'g) PheromoneGraph \<Rightarrow> ('f, 'g) PheromoneGraph" where
  "city_graph F cities g = (let n = length cities;
       g1 = foldl (\<lambda>g i. ensure_edge F 0 (word_of_nat (i + 1)) (add_node
         \<lparr>tn_id = word_of_nat (i + 1), tn_description = ''city-'' @ [ct_label (cities ! i)], tn_parent = 0, tn_children = [],
          tn_depth = 1, tn_status = Unexplored\<rparr> g)) g [0..<n]
     in foldl (\<lambda>g (i, j). ensure_edge F (word_of_nat (i + 1)) (word_of_nat (j + 1)) g) g1
          (concat (map (\<lambda>i. map (\<lambda>j. (i, j)) [i + 1..<n]) [0..<n])))"

definition route_task :: TaskNode where
  "route_task = default_task\<lparr>tn_id := 0, tn_description := ''route-optimize'', tn_status := Unexplored\<rparr>"

definition solver_swarm :: "'f Float \<Rightarrow> ('f, 'g) Random \<Rightarrow> 64 word \<Rightarrow> 'f City list \<Rightarrow> ((32 word, 'f, 'g) swarm_cluster \<times> nat) option" where
  "solver_swarm F R ts cities = idle_swarm F R (solver_config F (length cities)) 256 ''truck'' ''TSP-solver'' route_task ts (fl_lit F (10 / 100))
     (city_graph F cities)"

definition clamp_cities :: "32 word \<Rightarrow> nat" where
  "clamp_cities n = max 6 (min 52 (unat n))"

definition new_solver :: "'f Float \<Rightarrow> ('f, 'g) Random \<Rightarrow> ('f, 'g) Draws \<Rightarrow> 32 word \<Rightarrow> 32 word \<Rightarrow> 64 word \<Rightarrow> (32 word, 'f, 'g) Solver option" where
  "new_solver F R Q n_arg seed_arg ts = (let n = clamp_cities n_arg;
       seed = (if seed_arg = 0 then ucast ts else seed_arg);
       (cities, rng) = place_cities F Q [0..<n] [] (rg_seed R (ucast (seed :: 32 word)));
       tour = two_opt_times F 5 (nn_tour F n (distance_matrix F cities)) cities
     in case solver_swarm F R ts cities of
       None \<Rightarrow> None
     | Some (swarm, gi) \<Rightarrow> Some
         \<lparr>so_cities = cities, so_tau = replicate n (replicate n (TAU_INIT F)), so_tours = replicate POP [],
          so_lengths = replicate POP (far_away F), so_best_tour = tour, so_best_length = tour_length F tour cities, so_stagnation = 0,
          so_rng = rng, so_swarm = swarm, so_graph = gi, so_best_hist = [], so_avg_hist = [], so_phi_hist = [], so_div_hist = []\<rparr>)"

definition route_main :: "'f Float \<Rightarrow> ('f, 'g) Random \<Rightarrow> ('f, 'g) Draws \<Rightarrow> 32 word \<Rightarrow> 32 word \<Rightarrow> 64 word \<Rightarrow> (32 word, 'f, 'g) Solver option" where
  "route_main F R Q n_arg seed_arg ts = map_option (solve_rounds F R Q [0..<MAX_ROUNDS]) (new_solver F R Q n_arg seed_arg ts)"

end
