(* ===== verification/Tour_Laws.thy ===== *)
theory Tour_Laws
  imports Tour
begin

text \<open>
  The nearest-neighbour tour is a tour when every distance is below the bound the search starts with. In exact arithmetic, which the
  locale \<open>exact_float\<close> describes and the real numbers have, a 2-opt pass never makes a tour longer.
\<close>

subsection \<open>Nearest neighbours\<close>

lemma nearest_loop_source:
  "nearest_loop F dm vis cur js (bd, bj) = bj \<or>
    (nearest_loop F dm vis cur js (bd, bj) \<in> set js \<and> \<not> vis ! nearest_loop F dm vis cur js (bd, bj))"
proof (induction js arbitrary: bd bj)
  case (Cons j js)
  from Cons.IH [of bd bj] Cons.IH [of "dm ! cur ! j" j] show ?case
    by (cases "vis ! j"; cases "fl_less F (dm ! cur ! j) bd") auto
qed simp

lemma nearest_loop_found:
  "\<exists>j\<in>set js. \<not> vis ! j \<and> fl_less F (dm ! cur ! j) bd \<Longrightarrow>
    nearest_loop F dm vis cur js (bd, bj) \<in> set js \<and> \<not> vis ! nearest_loop F dm vis cur js (bd, bj)"
proof (induction js arbitrary: bd bj)
  case (Cons j js)
  show ?case
  proof (cases "\<not> vis ! j \<and> fl_less F (dm ! cur ! j) bd")
    case True
    then have step: "nearest_loop F dm vis cur (j # js) (bd, bj) = nearest_loop F dm vis cur js (dm ! cur ! j, j)" by simp
    show ?thesis
      unfolding step using nearest_loop_source [of F dm vis cur js "dm ! cur ! j" j] True by auto
  next
    case False
    then have step: "nearest_loop F dm vis cur (j # js) (bd, bj) = nearest_loop F dm vis cur js (bd, bj)" by auto
    from False Cons.prems have "\<exists>j\<in>set js. \<not> vis ! j \<and> fl_less F (dm ! cur ! j) bd" by auto
    from Cons.IH [OF this] show ?thesis unfolding step by simp
  qed
qed simp

definition near_enough :: "'f Float \<Rightarrow> nat \<Rightarrow> 'f list list \<Rightarrow> bool" where
  "near_enough F n dm \<longleftrightarrow> (\<forall>i < n. \<forall>j < n. fl_less F (dm ! i ! j) (far_away F))"

lemma nn_step_marked:
  assumes "marked n s" "length (fst s) < n" "fst s \<noteq> []" "near_enough F n dm"
  shows "marked n (nn_step F n dm s)" "length (fst (nn_step F n dm s)) = Suc (length (fst s))" "fst (nn_step F n dm s) \<noteq> []"
proof -
  let ?j = "nearest_loop F dm (snd s) (last (fst s)) [0..<n] (far_away F, 0)"
  have "set (fst s) = {j. j < n \<and> snd s ! j}" using assms(1) by (simp add: marked_def)
  with last_in_set [OF assms(3)] have "last (fst s) < n" by blast
  with marked_unfinished [OF assms(1,2)] assms(4)
  have "\<exists>j\<in>set [0..<n]. \<not> snd s ! j \<and> fl_less F (dm ! last (fst s) ! j) (far_away F)"
    unfolding near_enough_def by auto
  from nearest_loop_found [OF this, of 0] have j: "?j < n" "\<not> snd s ! ?j" by simp_all
  from marked_visit [OF assms(1) j] show "marked n (nn_step F n dm s)" by (simp add: nn_step_def)
  show "length (fst (nn_step F n dm s)) = Suc (length (fst s))" "fst (nn_step F n dm s) \<noteq> []"
    by (simp_all add: nn_step_def visit_def)
qed

lemma nn_tour_is_tour:
  assumes "0 < n" "near_enough F n dm"
  shows "is_tour n (nn_tour F n dm)"
proof -
  let ?first = "visit (Some 0) ([], replicate n False)"
  have "marked n ((nn_step F n dm ^^ k) ?first) \<and> length (fst ((nn_step F n dm ^^ k) ?first)) = Suc k \<and>
      fst ((nn_step F n dm ^^ k) ?first) \<noteq> []" if "Suc k \<le> n" for k
    using that
  proof (induction k)
    case 0
    then show ?case using marked_start [of 0 n] assms(1) by (simp add: visit_def)
  next
    case (Suc k)
    let ?s = "(nn_step F n dm ^^ k) ?first"
    from Suc have "marked n ?s" "length (fst ?s) < n" "fst ?s \<noteq> []" "length (fst ?s) = Suc k" by simp_all
    with nn_step_marked [OF this(1-3) assms(2)] show ?case by simp
  qed
  from this [of "n - 1"] assms(1) marked_full show ?thesis by (simp add: nn_tour_def)
qed

section \<open>Lengths in exact arithmetic\<close>

subsection \<open>Open and closed paths\<close>

fun path_len :: "('a \<Rightarrow> 'a \<Rightarrow> real) \<Rightarrow> 'a list \<Rightarrow> real" where
  "path_len D (x # y # xs) = D x y + path_len D (y # xs)"
| "path_len D xs = 0"

lemma path_len_append:
  "xs \<noteq> [] \<Longrightarrow> ys \<noteq> [] \<Longrightarrow> path_len D (xs @ ys) = path_len D xs + D (last xs) (hd ys) + path_len D ys"
proof (induction xs)
  case (Cons x xs)
  then show ?case
  proof (cases xs)
    case Nil
    with Cons.prems(2) show ?thesis by (cases ys) simp_all
  next
    case (Cons y zs)
    with Cons.IH Cons.prems(2) show ?thesis by simp
  qed
qed simp

lemma path_len_rev:
  assumes "\<And>a b. D a b = D b a"
  shows "path_len D (rev xs) = path_len D xs"
proof (induction xs)
  case (Cons x xs)
  show ?case
  proof (cases xs)
    case (Cons y zs)
    then have "path_len D (rev (x # xs)) = path_len D (rev xs) + D (last (rev xs)) x"
      using path_len_append [of "rev xs" "[x]" D] by simp
    with Cons.IH Cons show ?thesis using assms [of x y] by simp
  qed simp
qed simp

definition closed_len :: "('a \<Rightarrow> 'a \<Rightarrow> real) \<Rightarrow> 'a list \<Rightarrow> real" where
  "closed_len D t = path_len D (t @ [hd t])"

lemma closed_len_cut:
  assumes "pre \<noteq> []" "seg \<noteq> []"
  shows "closed_len D (pre @ seg @ post) = path_len D pre + D (last pre) (hd seg) + path_len D seg +
    D (last seg) (hd (post @ [hd pre])) + path_len D (post @ [hd pre])"
proof -
  have "closed_len D (pre @ seg @ post) = path_len D (pre @ (seg @ (post @ [hd pre])))"
    using assms(1) by (simp add: closed_len_def)
  also have "\<dots> = path_len D pre + D (last pre) (hd seg) + path_len D (seg @ (post @ [hd pre]))"
    using path_len_append [OF assms(1), of "seg @ (post @ [hd pre])" D] assms(2) by simp
  also have "path_len D (seg @ (post @ [hd pre])) = path_len D seg + D (last seg) (hd (post @ [hd pre])) + path_len D (post @ [hd pre])"
    using path_len_append [OF assms(2), of "post @ [hd pre]" D] by simp
  finally show ?thesis by simp
qed

lemma closed_len_reverse:
  assumes "\<And>a b. D a b = D b a" "pre \<noteq> []" "seg \<noteq> []"
  shows "closed_len D (pre @ rev seg @ post) - closed_len D (pre @ seg @ post) =
    (D (last pre) (last seg) + D (hd seg) (hd (post @ [hd pre]))) - (D (last pre) (hd seg) + D (last seg) (hd (post @ [hd pre])))"
  using closed_len_cut [OF assms(2), of "rev seg" D post] closed_len_cut [OF assms(2,3), of D post] assms(3)
    path_len_rev [of D seg, OF assms(1)] by (simp add: hd_rev last_rev)

lemma closed_len_reverse_between:
  assumes "\<And>a b. D a b = D b a" "i + 2 \<le> j" "j < length t"
  shows "closed_len D (reverse_between i j t) - closed_len D t =
    (D (t ! i) (t ! j) + D (t ! (i + 1)) (t ! ((j + 1) mod length t))) - (D (t ! i) (t ! (i + 1)) + D (t ! j) (t ! ((j + 1) mod length t)))"
proof -
  let ?pre = "take (i + 1) t" and ?seg = "drop (i + 1) (take (j + 1) t)" and ?post = "drop (j + 1) t"
  have ne: "?pre \<noteq> []" "?seg \<noteq> []" using assms(2,3) by auto
  have "take (i + 1) (take (j + 1) t) = ?pre" using assms(2) by (simp add: min_def)
  then have t: "?pre @ ?seg @ ?post = t"
    by (metis append.assoc append_take_drop_id)
  have "last ?pre = t ! i" using ne(1) assms(2,3) last_conv_nth [OF ne(1)] by simp
  moreover have "hd ?seg = t ! (i + 1)" using assms(2,3) by (simp add: hd_conv_nth)
  moreover have "last ?seg = t ! j"
  proof -
    have "last ?seg = last (take (j + 1) t)" using assms(2,3) by (intro last_drop) simp
    also have "\<dots> = t ! j" using assms(3) last_conv_nth [of "take (j + 1) t"] by (cases "t = []") simp_all
    finally show ?thesis .
  qed
  moreover have "hd (?post @ [hd ?pre]) = t ! ((j + 1) mod length t)"
  proof (cases "j + 1 = length t")
    case True
    then have "?post = []" by simp
    moreover have "hd ?pre = t ! 0" using ne(1) by (simp add: hd_conv_nth)
    ultimately show ?thesis using True by simp
  next
    case False
    with assms(3) show ?thesis by (simp add: hd_append hd_drop_conv_nth)
  qed
  ultimately show ?thesis
    using closed_len_reverse [of D ?pre ?seg ?post, OF assms(1) ne] unfolding t reverse_between_def by simp
qed

text \<open>The loop over the places of a tour adds up the closed path.\<close>

lemma path_len_sum: "path_len D xs = (\<Sum>i<length xs - 1. D (xs ! i) (xs ! (i + 1)))"
proof (induction D xs rule: path_len.induct)
  case (1 D x y xs)
  have "(\<Sum>i<length (x # y # xs) - 1. D ((x # y # xs) ! i) ((x # y # xs) ! (i + 1))) =
      D x y + (\<Sum>i<length (y # xs) - 1. D ((y # xs) ! i) ((y # xs) ! (i + 1)))"
    by (simp add: sum.lessThan_Suc_shift del: sum.lessThan_Suc)
  with 1 show ?case by simp
qed simp_all

lemma closed_len_sum:
  assumes "t \<noteq> []"
  shows "closed_len D t = (\<Sum>i<length t. D (t ! i) (t ! ((i + 1) mod length t)))"
proof -
  have "D ((t @ [hd t]) ! i) ((t @ [hd t]) ! (i + 1)) = D (t ! i) (t ! ((i + 1) mod length t))" if "i < length t" for i
    using that hd_conv_nth [OF assms] by (cases "i + 1 = length t") (simp_all add: nth_append)
  then show ?thesis by (simp add: closed_len_def path_len_sum)
qed

subsection \<open>2-opt\<close>

locale exact_float =
  fixes F :: "'f Float" and val :: "'f \<Rightarrow> real"
  assumes val_lit: "val (fl_lit F q) = of_rat q"
    and val_add: "val (fl_add F a b) = val a + val b"
    and val_sub: "val (fl_sub F a b) = val a - val b"
    and val_mul: "val (fl_mul F a b) = val a * val b"
    and val_sqrt: "val (fl_sqrt F a) = sqrt (val a)"
    and val_less: "fl_less F a b \<longleftrightarrow> val a < val b"
begin

definition D :: "'f City list \<Rightarrow> nat \<Rightarrow> nat \<Rightarrow> real" where
  "D cities a b = val (leg F cities a b)"

lemma D_sym: "D cities a b = D cities b a"
  by (simp add: D_def city_dist_def Let_def val_sqrt val_add val_mul val_sub) (simp add: algebra_simps)

lemma val_sum: "val (foldl (\<lambda>s i. fl_add F s (f i)) a is) = val a + sum_list (map (\<lambda>i. val (f i)) is)"
  by (induction "is" arbitrary: a) (simp_all add: val_add)

lemma val_tour_length:
  assumes "tour \<noteq> []"
  shows "val (tour_length F tour cities) = closed_len (D cities) tour"
proof -
  have "val (tour_length F tour cities) = sum_list (map (\<lambda>i. D cities (tour ! i) (tour ! ((i + 1) mod length tour))) [0..<length tour])"
    by (simp add: tour_length_def Let_def val_sum val_lit D_def)
  then show ?thesis
    using closed_len_sum [OF assms, of "D cities"] by (simp add: interv_sum_list_conv_sum_set_nat atLeast0LessThan)
qed

lemma better_is_shorter:
  assumes "two_opt_better F cities tour i j" "i + 2 \<le> j" "j < length tour"
  shows "closed_len (D cities) (reverse_between i j tour) < closed_len (D cities) tour"
proof -
  from assms(1) have "D cities (tour ! i) (tour ! j) + D cities (tour ! (i + 1)) (tour ! ((j + 1) mod length tour)) <
      D cities (tour ! i) (tour ! (i + 1)) + D cities (tour ! j) (tour ! ((j + 1) mod length tour)) - of_rat (1 / 10 ^ 6)"
    by (simp add: two_opt_better_def Let_def val_less val_add val_sub val_lit D_def)
  moreover have "(0 :: real) < of_rat (1 / 10 ^ 6)" by simp
  ultimately show ?thesis
    using closed_len_reverse_between [of "D cities", OF D_sym assms(2,3)] by linarith
qed

lemma length_reverse_between: "length (reverse_between i j xs) = length xs" if "i \<le> j" for i j and xs :: "'b list"
  using mset_reverse_between [OF that, of xs] by (metis size_mset)

lemma inner_shortens:
  "\<forall>j\<in>set js. i + 2 \<le> j \<and> j < length (fst s) \<Longrightarrow>
    closed_len (D cities) (fst (two_opt_inner F cities i js s)) \<le> closed_len (D cities) (fst s) \<and>
    length (fst (two_opt_inner F cities i js s)) = length (fst s)"
proof (induction js arbitrary: s)
  case (Cons j js)
  obtain tour improved where s: "s = (tour, improved)" by fastforce
  from Cons.prems have j: "i + 2 \<le> j" "j < length tour" by (simp_all add: s)
  have len: "length (reverse_between i j tour) = length tour" by (rule length_reverse_between) (use j in simp)
  show ?case
  proof (cases "\<not> (j = length tour - 1 \<and> i = 0) \<and> two_opt_better F cities tour i j")
    case True
    then have step: "two_opt_inner F cities i (j # js) s = two_opt_inner F cities i js (reverse_between i j tour, True)"
      by (auto simp: s)
    have "\<forall>j'\<in>set js. i + 2 \<le> j' \<and> j' < length (fst (reverse_between i j tour, True))"
      using Cons.prems unfolding s fst_conv len by simp
    from Cons.IH [OF this] better_is_shorter [OF _ j, of cities] True len show ?thesis unfolding step by (auto simp: s)
  next
    case False
    then have step: "two_opt_inner F cities i (j # js) s = two_opt_inner F cities i js s" by (auto simp: s)
    from Cons.IH [of s] Cons.prems show ?thesis unfolding step by simp
  qed
qed simp

lemma outer_shortens:
  "closed_len (D cities) (fst (two_opt_outer F cities is s)) \<le> closed_len (D cities) (fst s) \<and>
    length (fst (two_opt_outer F cities is s)) = length (fst s)"
proof (induction "is" arbitrary: s)
  case (Cons i "is")
  let ?s = "two_opt_inner F cities i [i + 2..<length (fst s)] s"
  have "closed_len (D cities) (fst ?s) \<le> closed_len (D cities) (fst s) \<and> length (fst ?s) = length (fst s)"
    by (rule inner_shortens) simp
  with Cons [of ?s] show ?case by auto
qed simp

lemma pass_shortens:
  "tour \<noteq> [] \<Longrightarrow> val (tour_length F (fst (two_opt_pass F tour cities)) cities) \<le> val (tour_length F tour cities) \<and>
    fst (two_opt_pass F tour cities) \<noteq> []"
proof -
  assume t: "tour \<noteq> []"
  from outer_shortens [of cities "[0..<length tour - 1]" "(tour, False)"]
  have s: "closed_len (D cities) (fst (two_opt_pass F tour cities)) \<le> closed_len (D cities) tour"
    "length (fst (two_opt_pass F tour cities)) = length tour" by (simp_all add: two_opt_pass_def)
  from s(2) t have "fst (two_opt_pass F tour cities) \<noteq> []" by auto
  with s(1) t show ?thesis by (simp add: val_tour_length)
qed

lemma until_shortens:
  "tour \<noteq> [] \<Longrightarrow> val (tour_length F (two_opt_until F k tour cities) cities) \<le> val (tour_length F tour cities)"
proof (induction k arbitrary: tour)
  case (Suc k)
  obtain t b where p: "two_opt_pass F tour cities = (t, b)" by fastforce
  from pass_shortens [OF Suc.prems, of cities] p have "val (tour_length F t cities) \<le> val (tour_length F tour cities)" "t \<noteq> []" by simp_all
  with Suc.IH [of t] p show ?case by auto
qed simp

end

definition reals :: "real Float" where
  "reals = \<lparr>fl_lit = of_rat, fl_of_nat = of_nat, fl_add = (+), fl_sub = (-), fl_mul = (*), fl_div = (/), fl_less = (<), fl_le = (\<le>),
            fl_sqrt = sqrt, fl_pow = (powr)\<rparr>"

interpretation reals: exact_float reals "\<lambda>x. x"
  by unfold_locales (simp_all add: reals_def)

end
