(* ===== verification/Route_Laws.thy ===== *)
theory Route_Laws
  imports Route_Solver Tour_Laws
begin

text \<open>
  Laws of the route solver: setting it up always succeeds, every tour it holds visits every city once, its pheromone matrix is square and
  symmetric; in exact arithmetic the best tour never gets longer and the pheromone keeps within its bounds.
\<close>

subsection \<open>Setting up\<close>

lemma solver_swarm_succeeds: "\<exists>x. solver_swarm F R ts cities = Some x"
  by (simp only: solver_swarm_def) (rule idle_swarm_succeeds, simp add: solver_config_def POP_def)

subsection \<open>The invariant of the solver\<close>

text \<open>What the standard library promises of \<open>uniform_int_distribution(0, k)\<close>.\<close>

definition draws_inside :: "('f, 'g) Draws \<Rightarrow> bool" where
  "draws_inside Q \<longleftrightarrow> (\<forall>k g. fst (dr_index Q k g) \<le> k)"

definition square :: "nat \<Rightarrow> 'x list list \<Rightarrow> bool" where
  "square n m \<longleftrightarrow> length m = n \<and> (\<forall>i < n. length (m ! i) = n) \<and> (\<forall>i < n. \<forall>j < n. m ! i ! j = m ! j ! i)"

text \<open>Before its first turn an agent has no tour.\<close>

definition solver_ok :: "'f Float \<Rightarrow> ('a, 'f, 'g) Solver \<Rightarrow> bool" where
  "solver_ok F s \<longleftrightarrow> 0 < city_count s \<and> square (city_count s) (so_tau s) \<and>
     length (so_tours s) = POP \<and> length (so_lengths s) = POP \<and>
     (\<forall>a < POP. so_tours s ! a = [] \<or> is_tour (city_count s) (so_tours s ! a)) \<and>
     is_tour (city_count s) (so_best_tour s) \<and> so_best_length s = tour_length F (so_best_tour s) (so_cities s)"

definition had_turn :: "'f Float \<Rightarrow> ('a, 'f, 'g) Solver \<Rightarrow> nat \<Rightarrow> bool" where
  "had_turn F s a \<longleftrightarrow> is_tour (city_count s) (so_tours s ! a) \<and> so_lengths s ! a = tour_length F (so_tours s ! a) (so_cities s)"

definition all_played :: "'f Float \<Rightarrow> ('a, 'f, 'g) Solver \<Rightarrow> bool" where
  "all_played F s \<longleftrightarrow> (\<forall>a < POP. had_turn F s a)"

lemma is_tour_facts:
  assumes "is_tour n t"
  shows "length t = n" "p < n \<Longrightarrow> t ! p < n" "0 < n \<Longrightarrow> t \<noteq> []"
proof -
  from assms have d: "distinct t" "set t = {0..<n}" by (simp_all add: is_tour_perm)
  then show l: "length t = n" using distinct_card [OF d(1)] by simp
  show "t ! p < n" if "p < n" using nth_mem [of p t] that l d(2) by simp
  show "t \<noteq> []" if "0 < n" using that l by auto
qed

lemma swap_places_tour: "is_tour n t \<Longrightarrow> p < n \<Longrightarrow> q < n \<Longrightarrow> is_tour n (swap_places p q t)"
  using is_tour_facts(1) [of n t] mset_swap [of q t p] by (simp add: is_tour_def swap_places_def)

subsection \<open>Turns\<close>

lemma keep_elite_tour:
  assumes "solver_ok F s" "draws_inside Q" "a < POP"
  shows "is_tour (city_count s) (fst (keep_elite F Q a s))"
proof -
  let ?n = "city_count s"
  have n: "0 < ?n" using assms(1) by (simp add: solver_ok_def)
  have drawn: "p < ?n" if "dr_index Q (?n - 1) g = (p, g')" for p g g'
  proof -
    have "p \<le> ?n - 1" using assms(2) that unfolding draws_inside_def by (metis fst_conv)
    with n show ?thesis by linarith
  qed
  have kept: "is_tour ?n (so_best_tour s)" "so_tours s ! a \<noteq> [] \<Longrightarrow> is_tour ?n (so_tours s ! a)"
    using assms by (auto simp: solver_ok_def)
  show ?thesis
    using kept drawn by (auto simp: keep_elite_def Let_def split: prod.splits intro!: swap_places_tour)
qed

lemma agent_tour_is_tour:
  assumes "solver_ok F s" "draws_inside Q" "a < POP"
  shows "is_tour (city_count s) (fst (agent_tour F R Q al be a s))"
proof -
  have n: "0 < city_count s" using assms(1) by (simp add: solver_ok_def)
  show ?thesis
    by (simp add: agent_tour_def Let_def case_prod_unfold two_opt_until_tour keep_elite_tour [OF assms] construct_tour_is_tour n del: length_greater_0_conv)
qed

text \<open>The state after some turns, and the totals: the shortest length is that of an agent that had its turn, or still \<open>1e18\<close>.\<close>

definition same_map :: "('a, 'f, 'g) Solver \<Rightarrow> ('a, 'f, 'g) Solver \<Rightarrow> bool" where
  "same_map s s' \<longleftrightarrow> so_cities s' = so_cities s \<and> so_tau s' = so_tau s \<and> so_best_tour s' = so_best_tour s \<and>
     so_best_length s' = so_best_length s \<and> so_best_hist s' = so_best_hist s"

definition turns_ok :: "'f Float \<Rightarrow> nat \<Rightarrow> ('a, 'f, 'g) Solver \<times> 'f round_totals \<Rightarrow> bool" where
  "turns_ok F k st \<longleftrightarrow> (case st of (s, _, best_len, best_idx) \<Rightarrow>
     solver_ok F s \<and> (\<forall>a < k. had_turn F s a) \<and> best_idx < POP \<and>
     (best_len = far_away F \<or> best_idx < k \<and> best_len = so_lengths s ! best_idx))"

lemma agent_turn_ok:
  assumes "turns_ok F k st" "draws_inside Q" "k < POP"
  shows "turns_ok F (Suc k) (agent_turn F R Q al be st k) \<and> same_map (fst st) (fst (agent_turn F R Q al be st k))"
proof -
  obtain s tot bl bi where st: "st = (s, tot, bl, bi)" by (cases st)
  from assms(1) have ok: "solver_ok F s" "\<forall>a < k. had_turn F s a" "bi < POP"
    and best: "bl = far_away F \<or> bi < k \<and> bl = so_lengths s ! bi" by (simp_all add: turns_ok_def st)
  obtain t g where t: "agent_tour F R Q al be k s = (t, g)" by fastforce
  from agent_tour_is_tour [OF ok(1) assms(2,3), of R al be] have tour: "is_tour (city_count s) t" by (simp add: t)
  let ?len = "tour_length F t (so_cities s)"
  let ?s = "s\<lparr>so_tours := (so_tours s)[k := t], so_lengths := (so_lengths s)[k := ?len], so_rng := g\<rparr>"
  have l: "length (so_tours s) = POP" "length (so_lengths s) = POP" using ok(1) by (simp_all add: solver_ok_def)
  have now: "had_turn F ?s k" using tour assms(3) l by (simp add: had_turn_def)
  have before: "had_turn F ?s a" if "a < k" for a using ok(2) that by (simp add: had_turn_def)
  have "so_tours ?s ! a = [] \<or> is_tour (city_count ?s) (so_tours ?s ! a)" if "a < POP" for a
    using ok(1) tour l that by (cases "a = k") (simp_all add: solver_ok_def)
  then have "solver_ok F ?s" using ok(1) by (simp add: solver_ok_def)
  moreover have "\<forall>a < Suc k. had_turn F ?s a" using now before less_Suc_eq by blast
  moreover have "so_lengths ?s ! bi = so_lengths s ! bi" if "bi < k" using that by simp
  moreover have "so_lengths ?s ! k = ?len" using l assms(3) by simp
  ultimately have "turns_ok F (Suc k) (agent_turn F R Q al be st k)"
    using best ok(3) assms(3) by (auto simp: turns_ok_def agent_turn_def st t Let_def simp del: nth_list_update_eq)
  then show ?thesis by (simp add: same_map_def agent_turn_def st t Let_def)
qed

lemma all_turns_ok:
  assumes "solver_ok F s" "draws_inside Q"
  shows "turns_ok F POP (all_turns F R Q al be s) \<and> same_map s (fst (all_turns F R Q al be s))"
proof -
  let ?st = "(s, fl_zero F, far_away F, 0)"
  have "turns_ok F k (foldl (agent_turn F R Q al be) ?st [0..<k]) \<and> same_map s (fst (foldl (agent_turn F R Q al be) ?st [0..<k]))"
    if "k \<le> POP" for k
    using that
  proof (induction k)
    case 0
    then show ?case using assms(1) by (simp add: turns_ok_def POP_def same_map_def)
  next
    case (Suc k)
    let ?st' = "foldl (agent_turn F R Q al be) ?st [0..<k]"
    from Suc have "turns_ok F k ?st'" "same_map s (fst ?st')" by simp_all
    with agent_turn_ok [OF this(1) assms(2), of R al be] Suc.prems show ?case by (simp add: same_map_def)
  qed
  then show ?thesis by (simp add: all_turns_def)
qed

subsection \<open>Rounds\<close>

lemma update_best_ok:
  assumes "turns_ok F POP (s, totals)"
  shows "solver_ok F (update_best F totals s) \<and> all_played F (update_best F totals s)"
proof -
  obtain tot bl bi where t: "totals = (tot, bl, bi)" by (cases totals)
  from assms have ok: "solver_ok F s" "\<forall>a < POP. had_turn F s a" "bi < POP" by (simp_all add: turns_ok_def t)
  then have "is_tour (city_count s) (two_opt_until F 10 (so_tours s ! bi) (so_cities s))"
    by (simp add: had_turn_def two_opt_until_tour)
  with ok show ?thesis by (simp add: update_best_def t Let_def solver_ok_def all_played_def had_turn_def)
qed

lemma square_map: "square n m \<Longrightarrow> square n (map (map f) m)"
  by (simp add: square_def)

lemma set_both:
  fixes x :: 'x
  assumes "square n m" "i < n" "j < n"
  defines "m' \<equiv> set_at j i ((set_at i j x m) ! i ! j) (set_at i j x m)"
  shows "length m' = n" "\<forall>p < n. length (m' ! p) = n"
    "p < n \<Longrightarrow> q < n \<Longrightarrow> m' ! p ! q = (if {p, q} = {i, j} then x else m ! p ! q)"
  using assms by (auto simp: square_def set_at_def nth_list_update doubleton_eq_iff)

lemma square_set_at:
  assumes "square n m" "i < n" "j < n"
  shows "square n (set_at j i ((set_at i j x m) ! i ! j) (set_at i j x m))"
proof -
  have "m ! p ! q = m ! q ! p" if "p < n" "q < n" for p q using assms(1) that by (simp add: square_def)
  then show ?thesis using set_both [OF assms, where x = x] by (simp add: square_def insert_commute)
qed

lemma deposit_leg_square: "square n m \<Longrightarrow> fst l < n \<Longrightarrow> snd l < n \<Longrightarrow> square n (deposit_leg F dep m l)"
  by (simp add: deposit_leg_def Let_def case_prod_unfold square_set_at)

lemma legs_inside:
  assumes "is_tour n t" "l \<in> set (legs n t)"
  shows "fst l < n \<and> snd l < n"
  using assms is_tour_facts(2) [OF assms(1)] by (auto simp: legs_def)

lemma deposit_tour_square:
  assumes "is_tour n t" "square n m"
  shows "square n (deposit_tour F n dep t m)"
proof -
  have "square n (foldl (deposit_leg F dep) m ls)" if "set ls \<subseteq> set (legs n t)" for ls
    using that assms(2) by (induction ls arbitrary: m) (simp_all add: deposit_leg_square legs_inside [OF assms(1)])
  then show ?thesis by (simp add: deposit_tour_def)
qed

lemma deposit_agents_square:
  assumes "all_played F s" "square (city_count s) m"
  shows "square (city_count s) (deposit_agents F s m)"
proof -
  have "square (city_count s) (foldl (\<lambda>t a. deposit_tour F (city_count s) (fl_div F (Q_DEPOSIT F) (so_lengths s ! a)) (so_tours s ! a) t) m as)"
    if "set as \<subseteq> {0..<POP}" for as
    using that assms(2)
  proof (induction as arbitrary: m)
    case (Cons a as)
    then have "is_tour (city_count s) (so_tours s ! a)" using assms(1) by (simp add: all_played_def had_turn_def)
    with Cons show ?case by (simp add: deposit_tour_square)
  qed simp
  then show ?thesis by (simp add: deposit_agents_def)
qed

lemma update_tau_ok:
  assumes "solver_ok F s" "all_played F s"
  shows "solver_ok F (update_tau F s) \<and> all_played F (update_tau F s)"
proof -
  have "square (city_count s) (evaporate_tau F (so_tau s))" using assms(1) by (simp add: solver_ok_def evaporate_tau_def square_map)
  then have "square (city_count s) (deposit_tour F (city_count s) dep (so_best_tour s) (deposit_agents F s (evaporate_tau F (so_tau s))))" for dep
    using assms by (simp add: deposit_tour_square deposit_agents_square solver_ok_def)
  with assms show ?thesis
    by (simp add: update_tau_def Let_def solver_ok_def all_played_def had_turn_def square_map)
qed

text \<open>What only the swarm, the counters and the history hold does not matter to the tours.\<close>

definition same_tours :: "('a, 'f, 'g) Solver \<Rightarrow> ('a, 'f, 'g) Solver \<Rightarrow> bool" where
  "same_tours s s' \<longleftrightarrow> same_map s (s'\<lparr>so_best_hist := so_best_hist s\<rparr>) \<and> so_tours s' = so_tours s \<and> so_lengths s' = so_lengths s"

lemma same_tours_ok:
  assumes "same_tours s s'"
  shows "solver_ok F s' \<longleftrightarrow> solver_ok F s" "all_played F s' \<longleftrightarrow> all_played F s"
  using assms by (simp_all add: same_tours_def same_map_def solver_ok_def all_played_def had_turn_def)

lemma swarm_steps_same:
  "same_tours s (anneal F prog s)" "same_tours s (update_swarm F R s)" "same_tours s (record_round F tot s)"
  by (simp_all add: same_tours_def same_map_def anneal_def update_swarm_def record_round_def Let_def split: prod.splits)

lemma swarm_steps_cities [simp]:
  "so_cities (anneal F prog s) = so_cities s" "so_cities (update_swarm F R s) = so_cities s" "so_cities (record_round F tot s) = so_cities s"
  using swarm_steps_same [of s] by (simp_all add: same_tours_def same_map_def)

lemma solve_round_steps:
  "\<exists>prog al be s1 totals. all_turns F R Q al be (anneal F prog s) = (s1, totals) \<and>
     solve_round F R Q k s = record_round F (fst totals) (update_swarm F R (update_tau F (update_best F totals s1)))"
proof -
  let ?prog = "fl_div F (fl_of_nat F k) (fl_of_nat F MAX_ROUNDS)"
  let ?half = "fl_mul F ?prog (fl_lit F (1 / 2))"
  let ?al = "fl_add F (ACO_ALPHA F) ?half" and ?be = "fl_sub F (ACO_BETA F) ?half"
  obtain s1 totals where t: "all_turns F R Q ?al ?be (anneal F ?prog s) = (s1, totals)"
    by (cases "all_turns F R Q ?al ?be (anneal F ?prog s)")
  then have "solve_round F R Q k s = record_round F (fst totals) (update_swarm F R (update_tau F (update_best F totals s1)))"
    by (simp add: solve_round_def Let_def)
  with t show ?thesis by blast
qed

lemma solve_round_ok:
  assumes "solver_ok F s" "draws_inside Q"
  shows "solver_ok F (solve_round F R Q k s) \<and> all_played F (solve_round F R Q k s) \<and> so_cities (solve_round F R Q k s) = so_cities s"
proof -
  obtain prog al be s1 totals where t: "all_turns F R Q al be (anneal F prog s) = (s1, totals)"
    "solve_round F R Q k s = record_round F (fst totals) (update_swarm F R (update_tau F (update_best F totals s1)))"
    using solve_round_steps [of F R Q s k] by blast
  note steps = same_tours_ok [OF swarm_steps_same(1)] same_tours_ok [OF swarm_steps_same(2)] same_tours_ok [OF swarm_steps_same(3)]
  have c: "solver_ok F (anneal F prog s)" using assms(1) by (simp add: steps)
  from all_turns_ok [OF c assms(2), of R al be]
  have s1: "turns_ok F POP (s1, totals)" "so_cities s1 = so_cities s" by (simp_all add: t(1) same_map_def)
  have "so_cities (update_tau F (update_best F totals s1)) = so_cities s1"
    by (simp add: update_tau_def update_best_def Let_def split: prod.splits)
  moreover note best = update_best_ok [OF s1(1)]
  ultimately show ?thesis
    using update_tau_ok [OF conjunct1 [OF best] conjunct2 [OF best]]
    by (simp add: t(2) steps s1(2))
qed

lemma solve_rounds_ok:
  assumes "solver_ok F s" "draws_inside Q"
  shows "solver_ok F (solve_rounds F R Q ks s) \<and> (ks \<noteq> [] \<longrightarrow> all_played F (solve_rounds F R Q ks s)) \<and>
    so_cities (solve_rounds F R Q ks s) = so_cities s"
  using assms(1)
proof (induction ks arbitrary: s)
  case (Cons k ks)
  from solve_round_ok [OF Cons.prems assms(2), of R k] Cons.IH [of "solve_round F R Q k s"]
  show ?case by (cases "ks = []") (auto simp: Let_def)
qed simp

subsection \<open>The first state\<close>

lemma place_cities_length: "length (fst (place_cities F Q is cities g)) = length cities + length is"
  by (induction "is" arbitrary: cities g) (simp_all split: prod.splits)

lemma clamp_cities_bounds: "6 \<le> clamp_cities n" "clamp_cities n \<le> 52"
  by (simp_all add: clamp_cities_def)

lemma square_replicate: "square n (replicate n (replicate n x))"
  by (simp add: square_def)

lemma new_solver_succeeds:
  "\<exists>s. new_solver F R Q n seed ts = Some s \<and> city_count s = clamp_cities n \<and> so_best_hist s = [] \<and>
     so_tau s = replicate (city_count s) (replicate (city_count s) (TAU_INIT F)) \<and>
     (\<exists>g. so_cities s = fst (place_cities F Q [0..<clamp_cities n] [] g)) \<and>
     (near_enough F (city_count s) (distance_matrix F (so_cities s)) \<longrightarrow> solver_ok F s)"
proof -
  let ?n = "clamp_cities n" and ?seed = "if seed = 0 then ucast ts else seed :: 32 word"
  obtain cities rng where c: "place_cities F Q [0..<?n] [] (rg_seed R (ucast ?seed)) = (cities, rng)" by fastforce
  obtain sw gi where sw: "solver_swarm F R ts cities = Some (sw, gi)" using solver_swarm_succeeds by fastforce
  let ?tour = "two_opt_times F 5 (nn_tour F ?n (distance_matrix F cities)) cities"
  let ?s = "\<lparr>so_cities = cities, so_tau = replicate ?n (replicate ?n (TAU_INIT F)), so_tours = replicate POP [],
    so_lengths = replicate POP (far_away F), so_best_tour = ?tour, so_best_length = tour_length F ?tour cities, so_stagnation = 0,
    so_rng = rng, so_swarm = sw, so_graph = gi, so_best_hist = [], so_avg_hist = [], so_phi_hist = [], so_div_hist = []\<rparr>"
  have len: "length cities = ?n" using place_cities_length [of F Q "[0..<?n]" "[]" "rg_seed R (ucast ?seed)"] by (simp add: c)
  have s: "new_solver F R Q n seed ts = Some ?s" unfolding new_solver_def Let_def c by (simp add: sw)
  have n: "0 < ?n" using clamp_cities_bounds(1) [of n] by simp
  have "solver_ok F ?s" if "near_enough F ?n (distance_matrix F cities)"
    using two_opt_times_tour [OF nn_tour_is_tour [OF n that]] n by (simp add: solver_ok_def len square_replicate)
  moreover have "\<exists>g. cities = fst (place_cities F Q [0..<?n] [] g)"
    by (rule exI [of _ "rg_seed R (ucast ?seed)"]) (simp add: c del: upt_Suc)
  ultimately show ?thesis unfolding s option.inject by (intro exI [of _ ?s]) (simp add: len)
qed

section \<open>Exact arithmetic\<close>

text \<open>
  The route solver in exact arithmetic: distances inside the map, so that the nearest-neighbour search always finds a city; the best tour,
  which never gets longer; the pheromone, which keeps within its bounds.
\<close>

text \<open>What the standard library promises of \<open>uniform_real_distribution(lo, hi)\<close>, read as real numbers.\<close>

definition positions_inside :: "'f Float \<Rightarrow> ('f \<Rightarrow> real) \<Rightarrow> ('f, 'g) Draws \<Rightarrow> bool" where
  "positions_inside F val Q \<longleftrightarrow> (\<forall>lo hi g. val lo \<le> val hi \<longrightarrow>
     val lo \<le> val (fst (dr_position Q lo hi g)) \<and> val (fst (dr_position Q lo hi g)) \<le> val hi)"

locale exact_division = exact_float F val for F :: "'f Float" and val :: "'f \<Rightarrow> real" +
  assumes val_div: "val (fl_div F a b) = val a / val b"

interpretation reals: exact_division reals "\<lambda>x. x"
  by unfold_locales (simp add: reals_def)

context exact_float
begin

subsection \<open>Distances\<close>

definition on_map :: "'f City \<Rightarrow> bool" where
  "on_map c \<longleftrightarrow> 5 \<le> val (ct_x c) \<and> val (ct_x c) \<le> 95 \<and> 5 \<le> val (ct_y c) \<and> val (ct_y c) \<le> 95"

lemma placed_on_map:
  assumes "positions_inside F val Q"
  shows "\<forall>c\<in>set cities. on_map c \<Longrightarrow> \<forall>c\<in>set (fst (place_cities F Q is cities g)). on_map c"
proof (induction "is" arbitrary: cities g)
  case (Cons i "is")
  obtain x g1 where x: "dr_position Q (fl_lit F 5) (fl_lit F 95) g = (x, g1)" by fastforce
  obtain y g2 where y: "dr_position Q (fl_lit F 5) (fl_lit F 95) g1 = (y, g2)" by fastforce
  have le: "val (fl_lit F 5) \<le> val (fl_lit F 95)" by (simp add: val_lit)
  have inside: "5 \<le> val (fst (dr_position Q (fl_lit F 5) (fl_lit F 95) h)) \<and> val (fst (dr_position Q (fl_lit F 5) (fl_lit F 95) h)) \<le> 95" for h
    using assms [unfolded positions_inside_def, rule_format, OF le, of h] by (simp add: val_lit)
  from inside [of g] inside [of g1] have "on_map \<lparr>ct_x = x, ct_y = y, ct_label = l\<rparr>" for l by (simp add: x y on_map_def)
  with Cons.prems have "\<forall>c\<in>set (cities @ [\<lparr>ct_x = x, ct_y = y, ct_label = l\<rparr>]). on_map c" for l by auto
  from Cons.IH [OF this] show ?case by (simp add: x y)
qed simp

lemma D_nonneg: "0 \<le> D cities a b"
  by (simp add: D_def city_dist_def Let_def val_sqrt val_add val_mul val_sub)

lemma D_on_map:
  assumes "on_map (cities ! a)" "on_map (cities ! b)"
  shows "D cities a b \<le> 130"
proof -
  let ?dx = "val (ct_x (cities ! a)) - val (ct_x (cities ! b))" and ?dy = "val (ct_y (cities ! a)) - val (ct_y (cities ! b))"
  have d: "\<bar>?dx\<bar> \<le> 90" "\<bar>?dy\<bar> \<le> 90" using assms by (auto simp: on_map_def)
  have sq: "x * x \<le> 90 * 90" if "\<bar>x\<bar> \<le> 90" for x :: real
    using abs_le_square_iff [of x 90] that by (simp add: power2_eq_square)
  from sq [OF d(1)] sq [OF d(2)] have "?dx * ?dx + ?dy * ?dy \<le> 130 * 130" by linarith
  then have "sqrt (?dx * ?dx + ?dy * ?dy) \<le> sqrt (130 * 130)" by (rule real_sqrt_le_mono)
  then show ?thesis by (simp add: D_def city_dist_def Let_def val_sqrt val_add val_mul val_sub)
qed

lemma on_map_near:
  assumes "\<forall>c\<in>set cities. on_map c"
  shows "near_enough F (length cities) (distance_matrix F cities)"
proof -
  have "D cities i j < 10 ^ 18" if "i < length cities" "j < length cities" for i j
  proof -
    have "D cities i j \<le> 130" by (rule D_on_map) (use assms that in simp_all)
    then show ?thesis by (rule le_less_trans) simp
  qed
  then show ?thesis
    by (simp add: near_enough_def distance_matrix_def val_less far_away_def val_lit D_def)
qed

lemma tour_length_bounds:
  assumes "is_tour (length cities) t" "t \<noteq> []"
  shows "0 \<le> val (tour_length F t cities)"
    "\<forall>c\<in>set cities. on_map c \<Longrightarrow> val (tour_length F t cities) \<le> length cities * 130"
proof -
  have l: "val (tour_length F t cities) = (\<Sum>i<length t. D cities (t ! i) (t ! ((i + 1) mod length t)))"
    using val_tour_length [OF assms(2)] closed_len_sum [OF assms(2)] by simp
  show "0 \<le> val (tour_length F t cities)" unfolding l by (intro sum_nonneg) (simp add: D_nonneg)
  note n = is_tour_facts [OF assms(1)]
  show "val (tour_length F t cities) \<le> length cities * 130" if m: "\<forall>c\<in>set cities. on_map c"
  proof -
    have "D cities (t ! i) (t ! ((i + 1) mod length t)) \<le> 130" if "i < length t" for i
    proof -
      have "(i + 1) mod length t < length t" using assms(2) by simp
      with n that m show ?thesis by (intro D_on_map) simp_all
    qed
    then have "(\<Sum>i<length t. D cities (t ! i) (t ! ((i + 1) mod length t))) \<le> of_nat (card {..<length t}) * 130"
      by (intro sum_bounded_above) simp
    then show ?thesis unfolding l by (simp add: n(1))
  qed
qed

subsection \<open>The best tour\<close>

lemma update_best_shortens:
  assumes "turns_ok F POP (s, totals)" "val (so_best_length s) \<le> 10 ^ 18"
  shows "val (so_best_length (update_best F totals s)) \<le> val (so_best_length s)"
proof -
  obtain tot bl bi where t: "totals = (tot, bl, bi)" by (cases totals)
  show ?thesis
  proof (cases "fl_less F bl (so_best_length s)")
    case True
    then have less: "val bl < val (so_best_length s)" by (simp add: val_less)
    with assms(2) have "bl \<noteq> far_away F" by (auto simp: far_away_def val_lit)
    with assms(1) have ok: "solver_ok F s" "had_turn F s bi" "bl = so_lengths s ! bi" by (auto simp: turns_ok_def t)
    then have "so_tours s ! bi \<noteq> []" using is_tour_facts(3) by (auto simp: had_turn_def solver_ok_def)
    from until_shortens [OF this, of 10 "so_cities s"] ok less True show ?thesis
      by (simp add: update_best_def t Let_def had_turn_def)
  next
    case False
    then show ?thesis by (simp add: update_best_def t)
  qed
qed

text \<open>The history notes the best length of each round; it only goes down, from the length of the first tour.\<close>

definition descends :: "real \<Rightarrow> 'f list \<Rightarrow> 'f \<Rightarrow> bool" where
  "descends from hist now \<longleftrightarrow> sorted_wrt (\<lambda>x y. val y \<le> val x) hist \<and> val now \<le> from \<and>
     (\<forall>x \<in> set hist. val now \<le> val x \<and> val x \<le> from)"

lemma descends_step: "descends from hist now \<Longrightarrow> val now' \<le> val now \<Longrightarrow> descends from (hist @ [now']) now'"
  by (force simp: descends_def sorted_wrt_append)

lemma solve_round_descends:
  assumes "solver_ok F s" "draws_inside Q" "descends len (so_best_hist s) (so_best_length s)" "len \<le> 10 ^ 18"
  shows "descends len (so_best_hist (solve_round F R Q k s)) (so_best_length (solve_round F R Q k s))"
proof -
  obtain prog al be s1 totals where t: "all_turns F R Q al be (anneal F prog s) = (s1, totals)"
    "solve_round F R Q k s = record_round F (fst totals) (update_swarm F R (update_tau F (update_best F totals s1)))"
    using solve_round_steps [of F R Q s k] by blast
  let ?s = "anneal F prog s" and ?s2 = "update_best F totals s1"
  have a: "solver_ok F ?s" "so_best_length ?s = so_best_length s" "so_best_hist ?s = so_best_hist s"
    using assms(1) by (simp_all add: same_tours_ok [OF swarm_steps_same(1)]) (simp_all add: anneal_def Let_def split: prod.splits)
  from all_turns_ok [OF a(1) assms(2), of R al be]
  have s1: "turns_ok F POP (s1, totals)" "so_best_length s1 = so_best_length s" "so_best_hist s1 = so_best_hist s"
    by (simp_all add: t(1) same_map_def a)
  have "val (so_best_length s1) \<le> 10 ^ 18" using assms(3,4) s1(2) by (simp add: descends_def)
  from update_best_shortens [OF s1(1) this] have less: "val (so_best_length ?s2) \<le> val (so_best_length s)" by (simp add: s1(2))
  have "so_best_hist ?s2 = so_best_hist s" using s1(3) by (simp add: update_best_def Let_def split: prod.splits)
  then have "so_best_length (solve_round F R Q k s) = so_best_length ?s2 \<and>
      so_best_hist (solve_round F R Q k s) = so_best_hist s @ [so_best_length ?s2]"
    by (simp add: t(2) record_round_def update_swarm_def update_tau_def Let_def split: prod.splits)
  with descends_step [OF assms(3) less] show ?thesis by simp
qed

lemma solve_rounds_descends:
  assumes "solver_ok F s" "draws_inside Q" "descends len (so_best_hist s) (so_best_length s)" "len \<le> 10 ^ 18"
  shows "descends len (so_best_hist (solve_rounds F R Q ks s)) (so_best_length (solve_rounds F R Q ks s))"
  using assms(1,3)
proof (induction ks arbitrary: s)
  case (Cons k ks)
  note r = solve_round_ok [OF Cons.prems(1) assms(2), of R k] solve_round_descends [OF Cons.prems(1) assms(2) Cons.prems(2) assms(4), of R k]
  from Cons.IH [of "solve_round F R Q k s"] r show ?case by (simp add: Let_def)
qed simp

text \<open>The whole run: it starts with a state that is as it should be, and ends no worse.\<close>

lemma new_solver_exact:
  assumes "positions_inside F val Q"
  shows "\<exists>s. new_solver F R Q n seed ts = Some s \<and> solver_ok F s \<and> so_best_hist s = [] \<and> val (so_best_length s) \<le> 10 ^ 18 \<and>
    so_tau s = replicate (city_count s) (replicate (city_count s) (TAU_INIT F))"
proof -
  obtain s g where s: "new_solver F R Q n seed ts = Some s" "city_count s = clamp_cities n" "so_best_hist s = []"
      "so_tau s = replicate (city_count s) (replicate (city_count s) (TAU_INIT F))"
      "so_cities s = fst (place_cities F Q [0..<clamp_cities n] [] g)"
      "near_enough F (city_count s) (distance_matrix F (so_cities s)) \<longrightarrow> solver_ok F s"
    using new_solver_succeeds [of F R Q n seed ts] by blast
  have m: "\<forall>c\<in>set (so_cities s). on_map c" unfolding s(5) by (rule placed_on_map [OF assms]) simp
  from s(6) on_map_near [OF m] have ok: "solver_ok F s" by blast
  then have tour: "is_tour (city_count s) (so_best_tour s)" "so_best_tour s \<noteq> []"
    using is_tour_facts(3) by (auto simp: solver_ok_def)
  have "val (so_best_length s) \<le> city_count s * 130"
    using tour_length_bounds(2) [OF tour m] ok by (simp add: solver_ok_def)
  also have "\<dots> \<le> 10 ^ 18" using clamp_cities_bounds(2) [of n] s(2) by simp
  finally show ?thesis using s(1,3,4) ok by blast
qed

end

section \<open>Pheromone keeps within its bounds\<close>

definition entries :: "nat \<Rightarrow> ('x \<Rightarrow> bool) \<Rightarrow> 'x list list \<Rightarrow> bool" where
  "entries n P m \<longleftrightarrow> (\<forall>i < n. \<forall>j < n. P (m ! i ! j))"

lemma entries_map: "square n m \<Longrightarrow> (\<And>x. P x \<Longrightarrow> P' (f x)) \<Longrightarrow> entries n P m \<Longrightarrow> entries n P' (map (map f) m)"
  by (simp add: entries_def square_def)

lemma entries_set_both:
  assumes "square n m" "i < n" "j < n" "entries n P m" "P x"
  shows "entries n P (set_at j i ((set_at i j x m) ! i ! j) (set_at i j x m))"
  using set_both(3) [OF assms(1-3)] assms(4,5) by (simp add: entries_def)

context exact_division
begin

definition in_bounds :: "'f \<Rightarrow> bool" where
  "in_bounds t \<longleftrightarrow> 1 / 100 \<le> val t \<and> val t \<le> 10"

lemma within_facts:
  "in_bounds (TAU_INIT F)" "in_bounds t \<Longrightarrow> in_bounds (fl_max F (TAU_MIN F) (fl_mul F t (fl_sub F (fl_one F) (EVAP_RATE F))))"
  "in_bounds t \<Longrightarrow> 0 \<le> val dep \<Longrightarrow> in_bounds (fl_min F (TAU_MAX F) (fl_add F t dep))"
  by (auto simp: in_bounds_def TAU_INIT_def TAU_MIN_def TAU_MAX_def EVAP_RATE_def fl_max_def fl_min_def val_less val_lit val_add val_sub val_mul
      of_rat_divide)

lemma deposit_tour_within:
  assumes "is_tour n t" "0 \<le> val dep"
  shows "square n m \<Longrightarrow> entries n in_bounds m \<Longrightarrow> entries n in_bounds (deposit_tour F n dep t m)"
proof -
  have "entries n in_bounds (foldl (deposit_leg F dep) m ls)" if "set ls \<subseteq> set (legs n t)" "square n m" "entries n in_bounds m" for ls
    using that
  proof (induction ls arbitrary: m)
    case (Cons l ls)
    from Cons.prems(1) have l: "fst l < n" "snd l < n" using legs_inside [OF assms(1)] by simp_all
    with Cons.prems(3) have "in_bounds (fl_min F (TAU_MAX F) (fl_add F (m ! fst l ! snd l) dep))"
      using within_facts(3) assms(2) by (simp add: entries_def)
    from entries_set_both [OF Cons.prems(2) l Cons.prems(3) this] have "entries n in_bounds (deposit_leg F dep m l)"
      by (simp add: deposit_leg_def Let_def case_prod_unfold)
    with Cons deposit_leg_square [OF Cons.prems(2) l] show ?case by simp
  qed simp
  then show "square n m \<Longrightarrow> entries n in_bounds m \<Longrightarrow> entries n in_bounds (deposit_tour F n dep t m)" by (simp add: deposit_tour_def)
qed

lemma deposit_nonneg: "0 \<le> val len \<Longrightarrow> 0 \<le> val (fl_div F (Q_DEPOSIT F) len)"
  "0 \<le> val len \<Longrightarrow> 0 \<le> val (fl_div F (fl_mul F (Q_DEPOSIT F) (fl_lit F 2)) len)"
  by (simp_all add: val_div val_mul val_lit Q_DEPOSIT_def)

lemma deposit_agents_within:
  assumes "all_played F s" "0 < city_count s" "square (city_count s) m" "entries (city_count s) in_bounds m"
  shows "entries (city_count s) in_bounds (deposit_agents F s m)"
proof -
  let ?n = "city_count s"
  let ?step = "\<lambda>t a. deposit_tour F ?n (fl_div F (Q_DEPOSIT F) (so_lengths s ! a)) (so_tours s ! a) t"
  have "entries ?n in_bounds (foldl ?step m as)" if "set as \<subseteq> {0..<POP}" "square ?n m" "entries ?n in_bounds m" for as
    using that
  proof (induction as arbitrary: m)
    case (Cons a as)
    then have a: "is_tour ?n (so_tours s ! a)" "so_lengths s ! a = tour_length F (so_tours s ! a) (so_cities s)"
      using assms(1) by (simp_all add: all_played_def had_turn_def)
    then have "0 \<le> val (so_lengths s ! a)" using tour_length_bounds(1) is_tour_facts(3) assms(2) by simp
    with Cons deposit_tour_within [OF a(1) deposit_nonneg(1)] deposit_tour_square [OF a(1) Cons.prems(2)] show ?case by simp
  qed simp
  with assms(3,4) show ?thesis by (simp add: deposit_agents_def)
qed

lemma update_tau_within:
  assumes "solver_ok F s" "all_played F s" "entries (city_count s) in_bounds (so_tau s)"
  shows "entries (city_count s) in_bounds (so_tau (update_tau F s))"
proof -
  let ?n = "city_count s" and ?m = "evaporate_tau F (so_tau s)"
  from assms(1) have ok: "0 < ?n" "square ?n (so_tau s)" "is_tour ?n (so_best_tour s)"
    "so_best_length s = tour_length F (so_best_tour s) (so_cities s)" by (simp_all add: solver_ok_def)
  have m: "square ?n ?m" using ok(2) by (simp add: evaporate_tau_def square_map)
  have "entries ?n in_bounds ?m" unfolding evaporate_tau_def
    using within_facts(2) by (intro entries_map [OF ok(2) _ assms(3)])
  note agents = deposit_agents_within [OF assms(2) ok(1) m this] deposit_agents_square [OF assms(2) m]
  have "0 \<le> val (so_best_length s)" using tour_length_bounds(1) [OF ok(3)] is_tour_facts(3) [OF ok(3,1)] ok(4) by simp
  note best = deposit_tour_within [OF ok(3) deposit_nonneg(2) [OF this] agents(2,1)]
  have reset: "entries ?n in_bounds (map (map (\<lambda>_. TAU_INIT F)) x)" if "square ?n x" for x :: "'f list list"
    using that within_facts(1) by (simp add: entries_def square_def)
  from best reset [OF deposit_tour_square [OF ok(3) agents(2)]] show ?thesis by (simp add: update_tau_def Let_def)
qed

lemma solve_round_within:
  assumes "solver_ok F s" "draws_inside Q" "entries (city_count s) in_bounds (so_tau s)"
  shows "entries (city_count s) in_bounds (so_tau (solve_round F R Q k s))"
proof -
  obtain prog al be s1 totals where t: "all_turns F R Q al be (anneal F prog s) = (s1, totals)"
    "solve_round F R Q k s = record_round F (fst totals) (update_swarm F R (update_tau F (update_best F totals s1)))"
    using solve_round_steps [of F R Q s k] by blast
  have a: "solver_ok F (anneal F prog s)" "so_tau (anneal F prog s) = so_tau s"
    using assms(1) by (simp_all add: same_tours_ok [OF swarm_steps_same(1)]) (simp add: anneal_def Let_def split: prod.splits)
  from all_turns_ok [OF a(1) assms(2), of R al be]
  have s1: "turns_ok F POP (s1, totals)" "so_tau s1 = so_tau s" "so_cities s1 = so_cities s"
    by (simp_all add: t(1) same_map_def a)
  note best = update_best_ok [OF s1(1)]
  have "so_tau (update_best F totals s1) = so_tau s" "so_cities (update_best F totals s1) = so_cities s"
    using s1 by (simp_all add: update_best_def Let_def split: prod.splits)
  with update_tau_within [OF conjunct1 [OF best] conjunct2 [OF best]] assms(3)
  have "entries (city_count s) in_bounds (so_tau (update_tau F (update_best F totals s1)))" by simp
  then show ?thesis by (simp add: t(2) record_round_def update_swarm_def Let_def split: prod.splits)
qed

lemma solve_rounds_within:
  assumes "solver_ok F s" "draws_inside Q" "entries (city_count s) in_bounds (so_tau s)"
  shows "entries (city_count s) in_bounds (so_tau (solve_rounds F R Q ks s))"
  using assms(1,3)
proof (induction ks arbitrary: s)
  case (Cons k ks)
  from Cons.IH [of "solve_round F R Q k s"] solve_round_ok [OF Cons.prems(1) assms(2), of R k]
    solve_round_within [OF Cons.prems(1) assms(2) Cons.prems(2), of R k] show ?case by (simp add: Let_def)
qed simp

end

end
