(* ===== verification/Fluid.thy ===== *)
theory Fluid
  imports Swarm_Demo
begin

text \<open>
  The fluid of \<open>examples/09_fluid_ripple.cpp\<close>: velocities, density and pressure on a square grid with walls, a basin and a nozzle. A field is a
  list of \<open>N * N\<close> numbers, row by row; the loops change one cell after the other. The program makes grids of 18 to 52 rows, so
  nothing wraps around. What is used of \<open><cmath>\<close> beyond the arithmetic is a record of functions; \<open>fm_floor\<close> includes the conversion to \<open>int\<close>.
\<close>

record 'f Flow_Math =
  fm_sin :: "'f \<Rightarrow> 'f"
  fm_abs :: "'f \<Rightarrow> 'f"
  fm_floor :: "'f \<Rightarrow> int"
  fm_of_int :: "int \<Rightarrow> 'f"

definition fl_clamp :: "'f Float \<Rightarrow> 'f \<Rightarrow> 'f \<Rightarrow> 'f \<Rightarrow> 'f" where
  "fl_clamp F x lo hi = (if fl_less F x lo then lo else if fl_less F hi x then hi else x)"

definition clamp01 :: "'f Float \<Rightarrow> 'f \<Rightarrow> 'f" where
  "clamp01 F x = fl_clamp F x (fl_zero F) (fl_one F)"

record 'f SimParams =
  si_dt :: 'f
  si_viscosity :: 'f
  si_diffusion :: 'f
  si_gravity :: 'f
  si_inlet_density :: 'f
  si_inlet_u :: 'f
  si_inlet_v :: 'f
  si_density_decay :: 'f
  si_pressure_iters :: nat
  si_inflow_steps :: nat

definition default_params :: "'f Float \<Rightarrow> 'f SimParams" where
  "default_params F = \<lparr>si_dt = fl_lit F (12 / 100), si_viscosity = fl_lit F (7 / 10000), si_diffusion = fl_lit F (4 / 100000),
     si_gravity = fl_lit F (85 / 100), si_inlet_density = fl_lit F (58 / 100), si_inlet_u = fl_lit F (72 / 100), si_inlet_v = fl_lit F (185 / 100),
     si_density_decay = fl_lit F (99985 / 100000), si_pressure_iters = 24, si_inflow_steps = 260\<rparr>"

record 'f FlowStats =
  st_kinetic :: 'f
  st_divergence_l1 :: 'f
  st_fill_ratio :: 'f
  st_mass_in_basin :: 'f
  st_max_speed :: 'f
  st_mean_curl :: 'f

record 'f FlowGrid =
  fg_N :: nat
  fg_basin_left :: nat
  fg_basin_right :: nat
  fg_basin_top :: nat
  fg_basin_floor :: nat
  fg_nozzle_row :: nat
  fg_nozzle_col :: nat
  fg_u :: "'f list"
  fg_v :: "'f list"
  fg_u_prev :: "'f list"
  fg_v_prev :: "'f list"
  fg_density :: "'f list"
  fg_density_prev :: "'f list"
  fg_pressure :: "'f list"
  fg_divergence :: "'f list"
  fg_residence :: "'f list"
  fg_solid :: "bool list"
  fg_basin :: "bool list"
  fg_nozzle :: "bool list"
  fg_kinetic_history :: "'f list"
  fg_fill_history :: "'f list"
  fg_divergence_history :: "'f list"
  fg_circulation_history :: "'f list"

subsection \<open>Cells\<close>

definition idx :: "nat \<Rightarrow> nat \<Rightarrow> nat \<Rightarrow> nat" where
  "idx n r c = r * n + c"

abbreviation cell :: "'f FlowGrid \<Rightarrow> nat \<Rightarrow> nat \<Rightarrow> nat" where
  "cell g r c \<equiv> idx (fg_N g) r c"

definition is_solid_cell :: "'f FlowGrid \<Rightarrow> int \<Rightarrow> int \<Rightarrow> bool" where
  "is_solid_cell g r c \<longleftrightarrow> r < 0 \<or> c < 0 \<or> r \<ge> int (fg_N g) \<or> c \<ge> int (fg_N g) \<or> fg_solid g ! cell g (nat r) (nat c)"

text \<open>The cells of a rectangle, and those inside the border, in the order of the loops.\<close>

definition rect :: "nat list \<Rightarrow> nat list \<Rightarrow> (nat \<times> nat) list" where
  "rect rs cs = List.product rs cs"

definition inner_cells :: "nat \<Rightarrow> (nat \<times> nat) list" where
  "inner_cells n = rect [1..<n - 1] [1..<n - 1]"

subsection \<open>Geometry\<close>

definition mark :: "nat \<Rightarrow> bool \<Rightarrow> (nat \<times> nat) list \<Rightarrow> bool list \<Rightarrow> bool list" where
  "mark n b cells xs = foldl (\<lambda>xs (r, c). xs[idx n r c := b]) xs cells"

definition blank_grid :: "'f Float \<Rightarrow> nat \<Rightarrow> 'f FlowGrid" where
  "blank_grid F n = (let z = replicate (n * n) (fl_zero F); b = replicate (n * n) False in
     \<lparr>fg_N = n, fg_basin_left = 0, fg_basin_right = 0, fg_basin_top = 0, fg_basin_floor = 0, fg_nozzle_row = 0, fg_nozzle_col = 0,
      fg_u = z, fg_v = z, fg_u_prev = z, fg_v_prev = z, fg_density = z, fg_density_prev = z, fg_pressure = z, fg_divergence = z, fg_residence = z,
      fg_solid = b, fg_basin = b, fg_nozzle = b, fg_kinetic_history = [], fg_fill_history = [], fg_divergence_history = [],
      fg_circulation_history = []\<rparr>)"

definition place_basin :: "'f FlowGrid \<Rightarrow> 'f FlowGrid" where
  "place_basin g = (let n = fg_N g; left = max 3 (n div 3); right0 = min (n - 4) (n - max 4 (n div 5));
       right = (if right0 \<le> left + 6 then min (n - 3) (left + 6) else right0); upper = max 4 (n div 3 + 2)
     in g\<lparr>fg_basin_left := left, fg_basin_right := right, fg_basin_top := upper, fg_basin_floor := n - 3,
          fg_nozzle_row := (if upper > 6 then upper - 6 else 2), fg_nozzle_col := (if left > 3 then left - 2 else 2)\<rparr>)"

definition nozzle_cells :: "'f FlowGrid \<Rightarrow> (nat \<times> nat) list" where
  "nozzle_cells g = rect [fg_nozzle_row g..<min (fg_N g - 1) (fg_nozzle_row g + 2)] [fg_nozzle_col g..<min (fg_N g - 1) (fg_nozzle_col g + 3)]"

definition border_cells :: "nat \<Rightarrow> (nat \<times> nat) list" where
  "border_cells n = filter (\<lambda>(r, c). r = 0 \<or> c = 0 \<or> r = n - 1 \<or> c = n - 1) (rect [0..<n] [0..<n])"

definition basin_walls :: "'f FlowGrid \<Rightarrow> (nat \<times> nat) list" where
  "basin_walls g = (let left = fg_basin_left g; right = fg_basin_right g; upper = fg_basin_top g; bottom = fg_basin_floor g in
     rect [upper..<bottom + 1] [left, right] @ rect [bottom] [left..<right + 1] @
     (if left > 1 then [(upper, left - 1)] else []) @ (if right + 1 < fg_N g then [(upper, right + 1)] else []))"

definition nozzle_walls :: "'f FlowGrid \<Rightarrow> (nat \<times> nat) list" where
  "nozzle_walls g = (let r = fg_nozzle_row g; c = fg_nozzle_col g in
     (if c > 1 then [(r, c - 1)] else []) @
     (if r + 2 < fg_N g then [(r + 2, c), (r + 2, c + 1)] @ (if c + 2 < fg_N g then [(r + 2, c + 2)] else []) else []))"

definition build_geometry :: "'f FlowGrid \<Rightarrow> 'f FlowGrid" where
  "build_geometry g0 = (let g = place_basin g0; n = fg_N g;
       walls = mark n True (basin_walls g) (mark n True (border_cells n) (fg_solid g));
       inside = rect [fg_basin_top g + 1..<fg_basin_floor g] [fg_basin_left g + 1..<fg_basin_right g]
     in g\<lparr>fg_basin := mark n True inside (fg_basin g), fg_nozzle := mark n True (nozzle_cells g) (fg_nozzle g),
          fg_solid := mark n True (nozzle_walls g) (mark n False (nozzle_cells g) walls)\<rparr>)"

definition new_grid :: "'f Float \<Rightarrow> nat \<Rightarrow> 'f FlowGrid" where
  "new_grid F n = build_geometry (blank_grid F n)"

subsection \<open>Fields and walls\<close>

definition neighbor_value :: "'f Float \<Rightarrow> 'f FlowGrid \<Rightarrow> 'f list \<Rightarrow> nat \<Rightarrow> nat \<Rightarrow> int \<Rightarrow> int \<Rightarrow> bool \<Rightarrow> 'f" where
  "neighbor_value F g field r c nr nc zero_on_solid =
     (if is_solid_cell g nr nc then (if zero_on_solid then fl_zero F else field ! cell g r c) else field ! cell g (nat nr) (nat nc))"

definition apply_solid_boundaries :: "'f Float \<Rightarrow> 'f FlowGrid \<Rightarrow> 'f list \<Rightarrow> 'f list" where
  "apply_solid_boundaries F g field = map (\<lambda>i. if fg_solid g ! i then fl_zero F else field ! i) [0..<length field]"

definition clamp_density :: "'f Float \<Rightarrow> 'f FlowGrid \<Rightarrow> 'f FlowGrid" where
  "clamp_density F g = g\<lparr>
     fg_density := map (\<lambda>i. if fg_solid g ! i then fl_zero F else fl_clamp F (fg_density g ! i) (fl_zero F) (fl_lit F (14 / 10))) [0..<length (fg_density g)],
     fg_residence := map (\<lambda>i. if fg_solid g ! i then fl_zero F else clamp01 F (fg_residence g ! i)) [0..<length (fg_density g)]\<rparr>"

definition inlet_cell :: "'f Float \<Rightarrow> 'f SimParams \<Rightarrow> 'f \<Rightarrow> 'f \<Rightarrow> 'f FlowGrid \<Rightarrow> nat \<times> nat \<Rightarrow> 'f FlowGrid" where
  "inlet_cell F P pulse sweep g rc = (let i = cell g (fst rc) (snd rc) in
     g\<lparr>fg_density := (fg_density g)[i := fl_min F (fl_lit F (135 / 100)) (fl_add F (fg_density g ! i) (fl_mul F (si_inlet_density P) pulse))],
       fg_u := (fg_u g)[i := fl_mul F (si_inlet_u P) pulse], fg_v := (fg_v g)[i := fl_mul F (si_inlet_v P) sweep],
       fg_residence := (fg_residence g)[i := fl_one F]\<rparr>)"

definition add_inlet :: "'f Float \<Rightarrow> 'f Flow_Math \<Rightarrow> 'f SimParams \<Rightarrow> nat \<Rightarrow> 'f FlowGrid \<Rightarrow> 'f FlowGrid" where
  "add_inlet F M P step g = (if step \<ge> si_inflow_steps P then g else let
       pulse = fl_add F (fl_lit F (88 / 100)) (fl_mul F (fl_lit F (16 / 100)) (fm_sin M (fl_mul F (fl_of_nat F step) (fl_lit F (12 / 100)))));
       sweep = fl_add F (fl_lit F 1) (fl_mul F (fl_lit F (8 / 100)) (fm_sin M (fl_mul F (fl_of_nat F step) (fl_lit F (7 / 100)))))
     in foldl (inlet_cell F P pulse sweep) g (nozzle_cells g))"

definition force_cell :: "'f Float \<Rightarrow> 'f SimParams \<Rightarrow> 'f FlowGrid \<Rightarrow> nat \<times> nat \<Rightarrow> 'f FlowGrid" where
  "force_cell F P g rc = (let i = cell g (fst rc) (snd rc); slow = fl_lit F (9985 / 10000) in
     if fg_solid g ! i then g
     else let v = fl_add F (fg_v g ! i) (fl_mul F (fl_mul F (si_gravity P) (si_dt P))
            (fl_add F (fl_lit F (15 / 100)) (fl_mul F (fl_lit F (85 / 100)) (fg_density g ! i))))
       in g\<lparr>fg_u := (fg_u g)[i := fl_mul F (fg_u g ! i) slow], fg_v := (fg_v g)[i := fl_mul F v slow]\<rparr>)"

definition apply_forces :: "'f Float \<Rightarrow> 'f SimParams \<Rightarrow> 'f FlowGrid \<Rightarrow> 'f FlowGrid" where
  "apply_forces F P g = foldl (force_cell F P) g (inner_cells (fg_N g))"

subsection \<open>Diffusion and advection\<close>

definition diffuse_cell :: "'f Float \<Rightarrow> 'f FlowGrid \<Rightarrow> 'f list \<Rightarrow> 'f \<Rightarrow> bool \<Rightarrow> 'f list \<Rightarrow> nat \<times> nat \<Rightarrow> 'f list" where
  "diffuse_cell F g source a zero_on_solid field rc = (let r = fst rc; c = snd rc; i = cell g r c in
     if fg_solid g ! i then field
     else let total = foldl (\<lambda>s (nr, nc). fl_add F s (neighbor_value F g field r c nr nc zero_on_solid)) (fl_zero F)
            [(int r - 1, int c), (int r + 1, int c), (int r, int c - 1), (int r, int c + 1)]
       in field[i := fl_div F (fl_add F (source ! i) (fl_mul F a total)) (fl_add F (fl_lit F 1) (fl_mul F (fl_lit F 4) a))])"

definition diffuse :: "'f Float \<Rightarrow> 'f FlowGrid \<Rightarrow> 'f list \<Rightarrow> 'f \<Rightarrow> 'f \<Rightarrow> nat \<Rightarrow> bool \<Rightarrow> 'f list" where
  "diffuse F g source diff dt iters zero_on_solid = (let n = fg_N g; a = fl_mul F (fl_mul F dt diff) (fl_of_nat F ((n - 2) * (n - 2))) in
     if fl_less F a (fl_lit F (1 / 10 ^ 9)) then apply_solid_boundaries F g source
     else ((\<lambda>field. apply_solid_boundaries F g (foldl (diffuse_cell F g source a zero_on_solid) field (inner_cells n))) ^^ iters) source)"

definition sample_cell :: "'f Float \<Rightarrow> 'f FlowGrid \<Rightarrow> 'f list \<Rightarrow> int \<Rightarrow> int \<Rightarrow> 'f" where
  "sample_cell F g field r c = (if is_solid_cell g r c then fl_zero F else field ! cell g (nat r) (nat c))"

definition bilinear_sample :: "'f Float \<Rightarrow> 'f Flow_Math \<Rightarrow> 'f FlowGrid \<Rightarrow> 'f list \<Rightarrow> 'f \<Rightarrow> 'f \<Rightarrow> 'f" where
  "bilinear_sample F M g field y x = (let x0 = fm_floor M x; y0 = fm_floor M y; x1 = x0 + 1; y1 = y0 + 1;
       sx = fl_sub F x (fm_of_int M x0); sy = fl_sub F y (fm_of_int M y0); one = fl_lit F 1;
       upper = fl_add F (fl_mul F (sample_cell F g field y0 x0) (fl_sub F one sx)) (fl_mul F (sample_cell F g field y0 x1) sx);
       lower = fl_add F (fl_mul F (sample_cell F g field y1 x0) (fl_sub F one sx)) (fl_mul F (sample_cell F g field y1 x1) sx)
     in fl_add F (fl_mul F upper (fl_sub F one sy)) (fl_mul F lower sy))"

text \<open>Where the fluid in a cell came from, kept inside the grid, and what it carries.\<close>

definition advect_cell :: "'f Float \<Rightarrow> 'f Flow_Math \<Rightarrow> 'f FlowGrid \<Rightarrow> 'f list \<Rightarrow> 'f list \<Rightarrow> 'f list \<Rightarrow> 'f \<Rightarrow> 'f list \<Rightarrow> nat \<times> nat \<Rightarrow> 'f list" where
  "advect_cell F M g source vel_u vel_v scale out rc = (let r = fst rc; c = snd rc; i = cell g r c in
     if fg_solid g ! i then out
     else let lo = fl_lit F (1 / 2); hi = fl_sub F (fl_of_nat F (fg_N g)) (fl_lit F (3 / 2));
            x = fl_clamp F (fl_sub F (fl_of_nat F c) (fl_mul F scale (vel_u ! i))) lo hi;
            y = fl_clamp F (fl_sub F (fl_of_nat F r) (fl_mul F scale (vel_v ! i))) lo hi
       in out[i := bilinear_sample F M g source y x])"

definition advect :: "'f Float \<Rightarrow> 'f Flow_Math \<Rightarrow> 'f FlowGrid \<Rightarrow> 'f list \<Rightarrow> 'f list \<Rightarrow> 'f list \<Rightarrow> 'f \<Rightarrow> 'f list" where
  "advect F M g source vel_u vel_v dt = (let scale = fl_mul F dt (fl_of_nat F (fg_N g - 2)) in
     apply_solid_boundaries F g (foldl (advect_cell F M g source vel_u vel_v scale) (replicate (length source) (fl_zero F)) (inner_cells (fg_N g))))"

subsection \<open>Projection\<close>

text \<open>Velocities at the neighbours of a cell, 0 in a wall.\<close>

definition u_l :: "'f Float \<Rightarrow> 'f FlowGrid \<Rightarrow> nat \<Rightarrow> nat \<Rightarrow> 'f" where
  "u_l F g c r = (if is_solid_cell g (int r) (int c - 1) then fl_zero F else fg_u g ! cell g r (c - 1))"

definition u_r :: "'f Float \<Rightarrow> 'f FlowGrid \<Rightarrow> nat \<Rightarrow> nat \<Rightarrow> 'f" where
  "u_r F g c r = (if is_solid_cell g (int r) (int c + 1) then fl_zero F else fg_u g ! cell g r (c + 1))"

definition u_u :: "'f Float \<Rightarrow> 'f FlowGrid \<Rightarrow> nat \<Rightarrow> nat \<Rightarrow> 'f" where
  "u_u F g c r = (if is_solid_cell g (int r - 1) (int c) then fl_zero F else fg_u g ! cell g (r - 1) c)"

definition u_d :: "'f Float \<Rightarrow> 'f FlowGrid \<Rightarrow> nat \<Rightarrow> nat \<Rightarrow> 'f" where
  "u_d F g c r = (if is_solid_cell g (int r + 1) (int c) then fl_zero F else fg_u g ! cell g (r + 1) c)"

definition v_l :: "'f Float \<Rightarrow> 'f FlowGrid \<Rightarrow> nat \<Rightarrow> nat \<Rightarrow> 'f" where
  "v_l F g c r = (if is_solid_cell g (int r) (int c - 1) then fl_zero F else fg_v g ! cell g r (c - 1))"

definition v_r :: "'f Float \<Rightarrow> 'f FlowGrid \<Rightarrow> nat \<Rightarrow> nat \<Rightarrow> 'f" where
  "v_r F g c r = (if is_solid_cell g (int r) (int c + 1) then fl_zero F else fg_v g ! cell g r (c + 1))"

definition v_u :: "'f Float \<Rightarrow> 'f FlowGrid \<Rightarrow> nat \<Rightarrow> nat \<Rightarrow> 'f" where
  "v_u F g c r = (if is_solid_cell g (int r - 1) (int c) then fl_zero F else fg_v g ! cell g (r - 1) c)"

definition v_d :: "'f Float \<Rightarrow> 'f FlowGrid \<Rightarrow> nat \<Rightarrow> nat \<Rightarrow> 'f" where
  "v_d F g c r = (if is_solid_cell g (int r + 1) (int c) then fl_zero F else fg_v g ! cell g (r + 1) c)"

definition net_flow :: "'f Float \<Rightarrow> 'f FlowGrid \<Rightarrow> nat \<Rightarrow> nat \<Rightarrow> 'f" where
  "net_flow F g c r = fl_add F (fl_sub F (u_r F g c r) (u_l F g c r)) (fl_sub F (v_d F g c r) (v_u F g c r))"

definition divergence_cell :: "'f Float \<Rightarrow> 'f FlowGrid \<Rightarrow> 'f list \<Rightarrow> nat \<times> nat \<Rightarrow> 'f list" where
  "divergence_cell F g field rc = (let r = fst rc; c = snd rc; i = cell g r c in
     if fg_solid g ! i then field
     else field[i := fl_div F (fl_mul F (fl_lit F (- 1 / 2)) (net_flow F g c r)) (fl_of_nat F (fg_N g))])"

definition open_neighbors :: "'f FlowGrid \<Rightarrow> nat \<Rightarrow> nat \<Rightarrow> (int \<times> int) list" where
  "open_neighbors g r c = filter (\<lambda>(nr, nc). \<not> is_solid_cell g nr nc)
     [(int r - 1, int c), (int r + 1, int c), (int r, int c - 1), (int r, int c + 1)]"

definition pressure_cell :: "'f Float \<Rightarrow> 'f FlowGrid \<Rightarrow> 'f list \<Rightarrow> 'f list \<Rightarrow> nat \<times> nat \<Rightarrow> 'f list" where
  "pressure_cell F g dv pressure rc = (let r = fst rc; c = snd rc; i = cell g r c in
     if fg_solid g ! i then pressure
     else case foldl (\<lambda>(s, k) (nr, nc). (fl_add F s (pressure ! cell g (nat nr) (nat nc)), fl_add F k (fl_one F))) (fl_zero F, fl_zero F)
            (open_neighbors g r c) of (s, k) \<Rightarrow>
          if fl_less F (fl_zero F) k then pressure[i := fl_div F (fl_add F (dv ! i) s) k] else pressure)"

definition gradient_cell :: "'f Float \<Rightarrow> 'f FlowGrid \<Rightarrow> nat \<times> nat \<Rightarrow> 'f FlowGrid" where
  "gradient_cell F g rc = (let r = fst rc; c = snd rc; i = cell g r c;
       p = (\<lambda>nr nc. neighbor_value F g (fg_pressure g) r c nr nc False);
       half = fl_mul F (fl_lit F (1 / 2)) (fl_of_nat F (fg_N g))
     in if fg_solid g ! i then g
        else g\<lparr>fg_u := (fg_u g)[i := fl_sub F (fg_u g ! i) (fl_mul F half (fl_sub F (p (int r) (int c + 1)) (p (int r) (int c - 1))))],
               fg_v := (fg_v g)[i := fl_sub F (fg_v g ! i) (fl_mul F half (fl_sub F (p (int r + 1) (int c)) (p (int r - 1) (int c))))]\<rparr>)"

definition stop_cell :: "'f Float \<Rightarrow> 'f FlowGrid \<Rightarrow> nat \<times> nat \<Rightarrow> 'f FlowGrid" where
  "stop_cell F g rc = (let r = fst rc; c = snd rc; i = cell g r c; z = fl_zero F in
     if fg_solid g ! i then g
     else let
       u1 = (if is_solid_cell g (int r) (int c + 1) \<and> fl_less F z (fg_u g ! i) then (fg_u g)[i := z] else fg_u g);
       u2 = (if is_solid_cell g (int r) (int c - 1) \<and> fl_less F (u1 ! i) z then u1[i := z] else u1);
       v1 = (if is_solid_cell g (int r + 1) (int c) \<and> fl_less F z (fg_v g ! i) then (fg_v g)[i := z] else fg_v g);
       v2 = (if is_solid_cell g (int r - 1) (int c) \<and> fl_less F (v1 ! i) z then v1[i := z] else v1)
     in g\<lparr>fg_u := u2, fg_v := v2\<rparr>)"

definition enforce_no_penetration :: "'f Float \<Rightarrow> 'f FlowGrid \<Rightarrow> 'f FlowGrid" where
  "enforce_no_penetration F g = foldl (stop_cell F) g (inner_cells (fg_N g))"

definition solve_pressure :: "'f Float \<Rightarrow> nat \<Rightarrow> 'f FlowGrid \<Rightarrow> 'f FlowGrid" where
  "solve_pressure F iters g = (let cells = inner_cells (fg_N g);
       dv = foldl (divergence_cell F g) (replicate (length (fg_divergence g)) (fl_zero F)) cells;
       p = ((\<lambda>p. foldl (pressure_cell F g dv) p cells) ^^ iters) (replicate (length (fg_pressure g)) (fl_zero F))
     in g\<lparr>fg_divergence := dv, fg_pressure := p\<rparr>)"

definition subtract_gradient :: "'f Float \<Rightarrow> 'f FlowGrid \<Rightarrow> 'f FlowGrid" where
  "subtract_gradient F g = foldl (gradient_cell F) g (inner_cells (fg_N g))"

definition still_solids :: "'f Float \<Rightarrow> 'f FlowGrid \<Rightarrow> 'f FlowGrid" where
  "still_solids F g = g\<lparr>fg_u := apply_solid_boundaries F g (fg_u g), fg_v := apply_solid_boundaries F g (fg_v g)\<rparr>"

definition project :: "'f Float \<Rightarrow> nat \<Rightarrow> 'f FlowGrid \<Rightarrow> 'f FlowGrid" where
  "project F iters g = enforce_no_penetration F (still_solids F (subtract_gradient F (solve_pressure F iters g)))"

subsection \<open>Settling\<close>

definition try_move :: "'f Float \<Rightarrow> 'f FlowGrid \<Rightarrow> nat \<Rightarrow> int \<Rightarrow> int \<Rightarrow> 'f \<Rightarrow> 'f list \<Rightarrow> 'f list" where
  "try_move F g i nr nc fraction field = (if is_solid_cell g nr nc then field
     else let j = cell g (nat nr) (nat nc); capacity = fl_max F (fl_zero F) (fl_sub F (fl_lit F (115 / 100)) (field ! j)) in
       if fl_le F capacity (fl_zero F) then field
       else let amount = fl_min F (fl_mul F (field ! i) fraction) capacity;
              field1 = field[i := fl_sub F (field ! i) amount]
         in field1[j := fl_add F (field1 ! j) amount])"

definition settle_cell :: "'f Float \<Rightarrow> 'f FlowGrid \<Rightarrow> 'f list \<Rightarrow> nat \<times> nat \<Rightarrow> 'f list" where
  "settle_cell F g field rc = (let r = int (fst rc); c = int (snd rc); i = cell g (fst rc) (snd rc) in
     if fg_solid g ! i \<or> fl_less F (fg_density g ! i) (fl_lit F (1 / 100)) then field
     else let field1 = try_move F g i (r + 1) c (fl_lit F (42 / 100)) field in
       if \<not> fl_less F (fl_lit F (2 / 100)) (field1 ! i) then field1
       else if fl_le F (fl_zero F) (fg_u g ! i)
         then try_move F g i r (c + 1) (fl_lit F (7 / 100)) (try_move F g i (r + 1) (c + 1) (fl_lit F (18 / 100)) field1)
         else try_move F g i r (c - 1) (fl_lit F (7 / 100)) (try_move F g i (r + 1) (c - 1) (fl_lit F (18 / 100)) field1))"

definition settle_density :: "'f Float \<Rightarrow> 'f FlowGrid \<Rightarrow> 'f FlowGrid" where
  "settle_density F g = g\<lparr>fg_density := foldl (settle_cell F g) (fg_density g) (rect (rev [1..<fg_N g - 1]) [1..<fg_N g - 1])\<rparr>"

subsection \<open>Statistics\<close>

text \<open>The numbers of cells in the basin, of those filled, and of fluid cells, beside the sums.\<close>

record 'f Tally =
  ty_stats :: "'f FlowStats"
  ty_basin :: nat
  ty_filled :: nat
  ty_fluid :: nat

definition speed_at :: "'f Float \<Rightarrow> 'f FlowGrid \<Rightarrow> nat \<Rightarrow> 'f" where
  "speed_at F g i = fl_sqrt F (fl_add F (fl_mul F (fg_u g ! i) (fg_u g ! i)) (fl_mul F (fg_v g ! i) (fg_v g ! i)))"

definition stats_cell :: "'f Float \<Rightarrow> 'f Flow_Math \<Rightarrow> 'f FlowGrid \<Rightarrow> 'f Tally \<Rightarrow> nat \<times> nat \<Rightarrow> 'f Tally" where
  "stats_cell F M g t rc = (let r = fst rc; c = snd rc; i = cell g r c; half = fl_lit F (1 / 2) in
     if fg_solid g ! i then t
     else let st = ty_stats t; speed = speed_at F g i; d = fg_density g ! i;
            local_div = fl_div F (fl_mul F half (net_flow F g c r)) (fl_of_nat F (fg_N g));
            dv_dx = fl_mul F half (fl_sub F (v_r F g c r) (v_l F g c r));
            du_dy = fl_mul F half (fl_sub F (u_d F g c r) (u_u F g c r));
            st1 = st\<lparr>st_max_speed := fl_max F (st_max_speed st) speed,
              st_kinetic := fl_add F (st_kinetic st) (fl_mul F (fl_mul F (fl_mul F half d) speed) speed),
              st_divergence_l1 := fl_add F (st_divergence_l1 st) (fm_abs M local_div),
              st_mean_curl := fl_add F (st_mean_curl st) (fm_abs M (fl_sub F dv_dx du_dy))\<rparr>;
            t1 = t\<lparr>ty_stats := st1, ty_fluid := ty_fluid t + 1\<rparr>
       in if fg_basin g ! i
          then t1\<lparr>ty_stats := st1\<lparr>st_mass_in_basin := fl_add F (st_mass_in_basin st1) d\<rparr>, ty_basin := ty_basin t + 1,
                 ty_filled := (if fl_less F (fl_lit F (6 / 100)) d then ty_filled t + 1 else ty_filled t)\<rparr>
          else t1)"

definition no_stats :: "'f Float \<Rightarrow> 'f FlowStats" where
  "no_stats F = \<lparr>st_kinetic = fl_zero F, st_divergence_l1 = fl_zero F, st_fill_ratio = fl_zero F, st_mass_in_basin = fl_zero F,
     st_max_speed = fl_zero F, st_mean_curl = fl_zero F\<rparr>"

definition tally_cells :: "'f Float \<Rightarrow> 'f Flow_Math \<Rightarrow> 'f FlowGrid \<Rightarrow> 'f Tally" where
  "tally_cells F M g = foldl (stats_cell F M g) \<lparr>ty_stats = no_stats F, ty_basin = 0, ty_filled = 0, ty_fluid = 0\<rparr> (inner_cells (fg_N g))"

definition compute_stats :: "'f Float \<Rightarrow> 'f Flow_Math \<Rightarrow> 'f FlowGrid \<Rightarrow> 'f FlowStats" where
  "compute_stats F M g = (let t = tally_cells F M g; st = ty_stats t; k = fl_of_nat F (ty_fluid t); b = fl_of_nat F (ty_basin t);
       st1 = (if ty_fluid t > 0 then st\<lparr>st_kinetic := fl_div F (st_kinetic st) k, st_divergence_l1 := fl_div F (st_divergence_l1 st) k,
                st_mean_curl := fl_div F (st_mean_curl st) k\<rparr> else st)
     in if ty_basin t > 0
        then st1\<lparr>st_fill_ratio := fl_div F (fl_of_nat F (ty_filled t)) b, st_mass_in_basin := fl_div F (st_mass_in_basin st1) b\<rparr> else st1)"

subsection \<open>One step\<close>

definition diffuse_velocity :: "'f Float \<Rightarrow> 'f SimParams \<Rightarrow> 'f FlowGrid \<Rightarrow> 'f FlowGrid" where
  "diffuse_velocity F P g = (let iters = si_pressure_iters P; dt = si_dt P;
       g1 = g\<lparr>fg_u_prev := fg_u g, fg_v_prev := fg_v g\<rparr>;
       g2 = g1\<lparr>fg_u := diffuse F g1 (fg_u_prev g1) (si_viscosity P) dt iters True\<rparr>
     in g2\<lparr>fg_v := diffuse F g2 (fg_v_prev g2) (si_viscosity P) dt iters True\<rparr>)"

definition advect_velocity :: "'f Float \<Rightarrow> 'f Flow_Math \<Rightarrow> 'f SimParams \<Rightarrow> 'f FlowGrid \<Rightarrow> 'f FlowGrid" where
  "advect_velocity F M P g = (let dt = si_dt P;
       g1 = g\<lparr>fg_u_prev := fg_u g, fg_v_prev := fg_v g\<rparr>;
       g2 = g1\<lparr>fg_u := advect F M g1 (fg_u_prev g1) (fg_u_prev g1) (fg_v_prev g1) dt\<rparr>
     in g2\<lparr>fg_v := advect F M g2 (fg_v_prev g2) (fg_u_prev g2) (fg_v_prev g2) dt\<rparr>)"

definition move_fluid :: "'f Float \<Rightarrow> 'f Flow_Math \<Rightarrow> 'f SimParams \<Rightarrow> 'f FlowGrid \<Rightarrow> 'f FlowGrid" where
  "move_fluid F M P g = project F (si_pressure_iters P) (advect_velocity F M P
     (project F (si_pressure_iters P) (diffuse_velocity F P g)))"

definition move_density :: "'f Float \<Rightarrow> 'f Flow_Math \<Rightarrow> 'f SimParams \<Rightarrow> 'f FlowGrid \<Rightarrow> 'f FlowGrid" where
  "move_density F M P g = (let dt = si_dt P;
       g1 = g\<lparr>fg_density_prev := fg_density g\<rparr>;
       g2 = g1\<lparr>fg_density := diffuse F g1 (fg_density_prev g1) (si_diffusion P) dt 8 False\<rparr>;
       g3 = g2\<lparr>fg_density_prev := fg_density g2\<rparr>;
       g4 = g3\<lparr>fg_density := advect F M g3 (fg_density_prev g3) (fg_u g3) (fg_v g3) dt\<rparr>
     in settle_density F g4)"

definition fade_cell :: "'f Float \<Rightarrow> 'f SimParams \<Rightarrow> 'f FlowGrid \<Rightarrow> nat \<Rightarrow> 'f FlowGrid" where
  "fade_cell F P g i = (if fg_solid g ! i then g
     else let d = fl_mul F (fg_density g ! i) (if fg_basin g ! i then fl_lit F (99998 / 100000) else si_density_decay P) in
       g\<lparr>fg_density := (fg_density g)[i := d],
         fg_residence := (fg_residence g)[i := fl_max F (fl_mul F (fg_residence g ! i) (fl_lit F (985 / 1000)))
           (clamp01 F (fl_add F (fl_mul F (fl_lit F (75 / 100)) d) (fl_mul F (fl_lit F (22 / 100)) (speed_at F g i))))]\<rparr>)"

definition note_stats :: "'f FlowStats \<Rightarrow> 'f FlowGrid \<Rightarrow> 'f FlowGrid" where
  "note_stats st g = g\<lparr>fg_kinetic_history := fg_kinetic_history g @ [st_kinetic st], fg_fill_history := fg_fill_history g @ [st_fill_ratio st],
     fg_divergence_history := fg_divergence_history g @ [st_divergence_l1 st], fg_circulation_history := fg_circulation_history g @ [st_mean_curl st]\<rparr>"

definition flow_step :: "'f Float \<Rightarrow> 'f Flow_Math \<Rightarrow> 'f SimParams \<Rightarrow> nat \<Rightarrow> 'f FlowGrid \<Rightarrow> 'f FlowGrid" where
  "flow_step F M P step g0 = (let
       g1 = move_density F M P (move_fluid F M P (apply_forces F P (add_inlet F M P step g0)));
       g2 = clamp_density F (foldl (fade_cell F P) g1 [0..<length (fg_density g1)])
     in note_stats (compute_stats F M g2) g2)"

definition max_density :: "'f Float \<Rightarrow> 'f FlowGrid \<Rightarrow> 'f" where
  "max_density F g = foldl (\<lambda>peak i. if fg_solid g ! i then peak else fl_max F peak (fg_density g ! i)) (fl_zero F) [0..<length (fg_density g)]"

section \<open>The demonstration\<close>

text \<open>The swarm has one agent for each cell. The deposits and marks on the graph of its tasks follow the statistics of a step.\<close>

definition mark_when :: "bool \<Rightarrow> TaskNodeId \<Rightarrow> TaskStatus \<Rightarrow> ('f, 'g) PheromoneGraph \<Rightarrow> ('f, 'g) PheromoneGraph" where
  "mark_when b i st g = (if b then mark_status i st g else g)"

definition deposit_when :: "'f Float \<Rightarrow> bool \<Rightarrow> TaskNodeId \<Rightarrow> TaskNodeId \<Rightarrow> 'f \<Rightarrow> ('f, 'g) PheromoneGraph \<Rightarrow> ('f, 'g) PheromoneGraph" where
  "deposit_when F b i j quality g = (if b then deposit F [i, j] quality g else g)"

definition update_task_graph :: "'f Float \<Rightarrow> 'f FlowStats \<Rightarrow> nat \<Rightarrow> nat \<Rightarrow> ('f, 'g) PheromoneGraph \<Rightarrow> ('f, 'g) PheromoneGraph" where
  "update_task_graph F st step inflow g0 = (let fill = st_fill_ratio st; divergence = st_divergence_l1 st; speed = st_max_speed st;
       above = (\<lambda>x q. fl_less F (fl_lit F q) x); below = (\<lambda>x q. fl_less F x (fl_lit F q));
       g1 = mark_status 1 (if step < inflow then InProgress else Completed) g0;
       g2 = mark_when (above fill (3 / 100)) 2 InProgress g1;
       g3 = mark_when (above fill (28 / 100)) 2 Completed g2;
       g4 = mark_when (step > 8) 3 InProgress g3;
       g5 = mark_when (below divergence (12 / 1000) \<and> step > 30) 3 Completed g4;
       g6 = mark_when (above fill (52 / 100)) 4 InProgress g5;
       g7 = mark_when (above fill (80 / 100) \<and> below speed (20 / 100)) 4 Completed g6;
       g8 = deposit_when F (step < inflow) 0 1 (fl_add F (fl_lit F (40 / 100)) (fl_mul F (fl_lit F (60 / 100)) speed)) g7;
       g9 = deposit_when F (above fill (2 / 100)) 1 2 (fl_add F (fl_lit F (20 / 100)) fill) g8;
       g10 = deposit_when F (below divergence (10 / 100)) 2 3
         (fl_sub F (fl_lit F 1) (fl_min F (fl_lit F (95 / 100)) (fl_mul F divergence (fl_lit F 8)))) g9
     in deposit_when F (above fill (35 / 100)) 3 4 (fl_add F (fl_lit F (25 / 100)) (st_mass_in_basin st)) g10)"

definition flow_heading :: "'f Float \<Rightarrow> 'f FlowGrid \<Rightarrow> 'f \<Rightarrow> 'f \<Rightarrow> ('f, 'g) SwarmField \<Rightarrow> nat \<Rightarrow> ('f, 'g) SwarmField" where
  "flow_heading F g speed_scale density_scale f i = (let
       nx = fl_div F (fg_u g ! i) speed_scale; ny = fl_div F (fg_v g ! i) speed_scale; nz = fl_div F (fg_density g ! i) density_scale;
       plane = fl_add F (fl_mul F nx nx) (fl_mul F ny ny);
       nm = fl_sqrt F (fl_add F plane (fl_mul F nz nz));
       heading = (if fl_less F (fl_lit F (1 / 10 ^ 6)) nm then [fl_div F nx nm, fl_div F ny nm, fl_div F nz nm] else [fl_zero F, fl_zero F, fl_one F]);
       quality = fl_clamp F (fl_add F (fl_mul F (fl_lit F (55 / 100)) nz) (fl_mul F (fl_lit F (45 / 100)) (fl_sqrt F plane))) (fl_zero F) (fl_one F)
     in set_agent i ((agent_at f i)\<lparr>ag_heading := heading, ag_quality := quality\<rparr>) f)"

definition show_flow :: "'f Float \<Rightarrow> 'f FlowGrid \<Rightarrow> 'f FlowStats \<Rightarrow> ('f, 'g) SwarmField \<Rightarrow> ('f, 'g) SwarmField" where
  "show_flow F g st f = (let eta = fl_clamp F (fl_add F (fl_add F (fl_lit F (5 / 100)) (fl_mul F (fl_lit F (35 / 100)) (st_max_speed st)))
           (fl_mul F (fl_lit F 3) (st_divergence_l1 st))) (fl_lit F (5 / 100)) (fl_lit F (92 / 100))
     in set_eta eta (foldl (flow_heading F g (fl_max F (fl_lit F (1 / 100)) (st_max_speed st)) (fl_max F (fl_lit F (1 / 100)) (max_density F g)))
          f [0..<fg_N g * fg_N g]))"

record ('f, 'g) Fluid_Run =
  fr_grid :: "'f FlowGrid"
  fr_swarm :: "(32 word, 'f, 'g) swarm_cluster"
  fr_graph :: nat
  fr_peak_kinetic :: 'f
  fr_peak_fill :: 'f
  fr_worst_divergence :: 'f
  fr_last_step :: nat

definition fluid_round :: "'f Float \<Rightarrow> 'f Flow_Math \<Rightarrow> ('f, 'g) Random \<Rightarrow> 'f SimParams \<Rightarrow> nat \<Rightarrow> ('f, 'g) Fluid_Run \<Rightarrow> ('f, 'g) Fluid_Run" where
  "fluid_round F M R P step s = (let g = flow_step F M P step (fr_grid s); st = compute_stats F M g; pop = fg_N g * fg_N g in
     case fr_swarm s of (cl, sw) \<Rightarrow>
       let graph = update_task_graph F st step (si_inflow_steps P) (cs_graphs (sw_clusters sw) ! fr_graph s);
           sw1 = sw\<lparr>sw_clusters := set_graph (fr_graph s) graph (sw_clusters sw), sw_field := show_flow F g st (sw_field sw)\<rparr>
       in case tick_cluster F R (cl, sw1) of (cl', sw2) \<Rightarrow>
         s\<lparr>fr_grid := g, fr_swarm := (cl', copy_morphs pop sw2), fr_peak_kinetic := fl_max F (fr_peak_kinetic s) (st_kinetic st),
           fr_peak_fill := fl_max F (fr_peak_fill s) (st_fill_ratio st),
           fr_worst_divergence := fl_max F (fr_worst_divergence s) (st_divergence_l1 st), fr_last_step := step\<rparr>)"

text \<open>The loop ends early when the basin drains after the inflow, or is full and quiet.\<close>

definition drained :: "'f Float \<Rightarrow> 'f SimParams \<Rightarrow> nat \<Rightarrow> 'f \<Rightarrow> 'f FlowStats \<Rightarrow> bool" where
  "drained F P step peak st \<longleftrightarrow> step > si_inflow_steps P + 12 \<and> fl_less F (fl_lit F (15 / 100)) peak \<and>
     fl_less F (st_fill_ratio st) (fl_mul F peak (fl_lit F (58 / 100))) \<and> fl_less F (st_max_speed st) (fl_lit F (24 / 100))"

definition at_rest :: "'f Float \<Rightarrow> 'f SimParams \<Rightarrow> nat \<Rightarrow> 'f FlowStats \<Rightarrow> bool" where
  "at_rest F P step st \<longleftrightarrow> step > si_inflow_steps P + 50 \<and> fl_less F (fl_lit F (82 / 100)) (st_fill_ratio st) \<and>
     fl_less F (st_max_speed st) (fl_lit F (12 / 100))"

fun fluid_rounds :: "'f Float \<Rightarrow> 'f Flow_Math \<Rightarrow> ('f, 'g) Random \<Rightarrow> 'f SimParams \<Rightarrow> nat list \<Rightarrow> ('f, 'g) Fluid_Run \<Rightarrow> ('f, 'g) Fluid_Run" where
  "fluid_rounds F M R P [] s = s"
| "fluid_rounds F M R P (k # ks) s = (let s' = fluid_round F M R P k s; st = compute_stats F M (fr_grid s') in
     if drained F P k (fr_peak_fill s') st \<or> at_rest F P k st then s' else fluid_rounds F M R P ks s')"

definition total_steps :: nat where "total_steps = 360"

definition fluid_config :: "'f Float \<Rightarrow> nat \<Rightarrow> 'f SwarmConfig" where
  "fluid_config F n = (default_swarm_config F)\<lparr>cf_population := word_of_nat (n * n), cf_strategy_dim := 3, cf_alignment_radius := fl_lit F (3 / 2),
     cf_noise_eta := fl_lit F (12 / 100), cf_evaporation_rate := fl_lit F (15 / 1000), cf_convergence_phi := fl_lit F (985 / 1000),
     cf_sustain_window := 14, cf_max_rounds := word_of_nat total_steps, cf_premature_quality := fl_lit F (12 / 100), cf_noise_burst := fl_lit F (18 / 100),
     cf_morphs := [\<lparr>mo_name = ''Explorer'', mo_base_threshold = fl_lit F (58 / 100), mo_stimulus_decay = fl_lit F (14 / 100)\<rparr>,
       \<lparr>mo_name = ''Worker'', mo_base_threshold = fl_lit F (42 / 100), mo_stimulus_decay = fl_lit F (10 / 100)\<rparr>,
       \<lparr>mo_name = ''Evaluator'', mo_base_threshold = fl_lit F (28 / 100), mo_stimulus_decay = fl_lit F (9 / 100)\<rparr>,
       \<lparr>mo_name = ''Coordinator'', mo_base_threshold = fl_lit F (48 / 100), mo_stimulus_decay = fl_lit F (11 / 100)\<rparr>],
     cf_channel_capacity := 256\<rparr>"

definition fluid_task :: TaskNode where
  "fluid_task = default_task\<lparr>tn_id := 0, tn_description := ''navier-stokes-container'', tn_status := InProgress\<rparr>"

definition stage_graph :: "'f Float \<Rightarrow> ('f, 'g) PheromoneGraph \<Rightarrow> ('f, 'g) PheromoneGraph" where
  "stage_graph F g = foldl (\<lambda>g i. ensure_edge F i (i + 1) g)
     (foldl (\<lambda>g (i, d). add_node (default_task\<lparr>tn_id := i, tn_description := d, tn_parent := 0, tn_depth := 1\<rparr>) g) g
       [(1, ''inlet forcing''), (2, ''advection + diffusion''), (3, ''pressure projection''), (4, ''basin settling'')])
     [0, 1, 2, 3]"

definition clamp_grid :: "32 word \<Rightarrow> nat" where
  "clamp_grid n = max 18 (min 52 (unat n))"

definition jet_params :: "'f Float \<Rightarrow> 'f \<Rightarrow> 'f SimParams" where
  "jet_params F jet0 = (let P = default_params F; jet = fl_clamp F jet0 (fl_lit F (60 / 100)) (fl_lit F (160 / 100)) in
     P\<lparr>si_inlet_u := fl_mul F (si_inlet_u P) jet, si_inlet_v := fl_mul F (si_inlet_v P) jet,
       si_inlet_density := fl_min F (fl_lit F (80 / 100))
         (fl_mul F (si_inlet_density P) (fl_add F (fl_lit F (92 / 100)) (fl_mul F (fl_lit F (20 / 100)) jet)))\<rparr>)"

definition new_fluid :: "'f Float \<Rightarrow> ('f, 'g) Random \<Rightarrow> nat \<Rightarrow> 64 word \<Rightarrow> ('f, 'g) Fluid_Run option" where
  "new_fluid F R n ts = map_option (\<lambda>(swarm, gi). \<lparr>fr_grid = new_grid F n, fr_swarm = swarm, fr_graph = gi, fr_peak_kinetic = fl_zero F,
       fr_peak_fill = fl_zero F, fr_worst_divergence = fl_zero F, fr_last_step = 0\<rparr>)
     (idle_swarm F R (fluid_config F n) 1024 ''fluid'' ''container_flow'' fluid_task ts (fl_lit F (10 / 100)) (stage_graph F))"

definition fluid_main :: "'f Float \<Rightarrow> 'f Flow_Math \<Rightarrow> ('f, 'g) Random \<Rightarrow> 32 word \<Rightarrow> 'f \<Rightarrow> 64 word \<Rightarrow> ('f, 'g) Fluid_Run option" where
  "fluid_main F M R n_arg jet ts = map_option (fluid_rounds F M R (jet_params F jet) [0..<total_steps]) (new_fluid F R (clamp_grid n_arg) ts)"

end
