(* ===== verification/Fluid_Laws.thy ===== *)
theory Fluid_Laws
  imports Fluid Tour_Laws
begin

text \<open>
  Laws of the fluid: the geometry (a closed border, an open nozzle), which no operation changes; the walls, which hold no fluid and
  let none in; the bounds of density and residence; settling, which moves fluid and neither makes nor loses any in exact arithmetic.
\<close>

lemma foldl_inv: "I s \<Longrightarrow> (\<And>s x. x \<in> set xs \<Longrightarrow> I s \<Longrightarrow> I (f s x)) \<Longrightarrow> I (foldl f s xs)"
  by (induction xs arbitrary: s) simp_all

lemma funpow_inv: "I s \<Longrightarrow> (\<And>s. I s \<Longrightarrow> I (f s)) \<Longrightarrow> I ((f ^^ k) s)"
  by (induction k) simp_all

subsection \<open>Cells\<close>

lemma idx_inside:
  assumes "r < n" "c < n" shows "idx n r c < n * n"
proof -
  have "r * n + c < Suc r * n" using assms(2) by simp
  also have "\<dots> \<le> n * n" using assms(1) by (intro mult_le_mono1) simp
  finally show ?thesis by (simp add: idx_def)
qed

lemma idx_inj: "c < n \<Longrightarrow> c' < n \<Longrightarrow> idx n r c = idx n r' c' \<longleftrightarrow> r = r' \<and> c = c'"
proof
  assume "c < n" "c' < n" "idx n r c = idx n r' c'"
  then have "(r * n + c) div n = (r' * n + c') div n" "(r * n + c) mod n = (r' * n + c') mod n" by (simp_all add: idx_def)
  with \<open>c < n\<close> \<open>c' < n\<close> show "r = r' \<and> c = c'" by simp
qed simp

lemma idx_split:
  assumes "i < n * n"
  shows "\<exists>r < n. \<exists>c < n. i = idx n r c"
proof -
  have n: "0 < n" using assms by (cases n) simp_all
  have "i div n < n" using assms by (simp add: less_mult_imp_div_less)
  moreover have "i mod n < n" using n by simp
  moreover have "i = idx n (i div n) (i mod n)" by (simp add: idx_def)
  ultimately show ?thesis by blast
qed

lemma inner_cells_iff [simp]: "(r, c) \<in> set (inner_cells n) \<longleftrightarrow> 1 \<le> r \<and> r < n - 1 \<and> 1 \<le> c \<and> c < n - 1"
  by (auto simp: inner_cells_def rect_def)

subsection \<open>Geometry\<close>

lemma mark_length [simp]: "length (mark n b cells xs) = length xs"
  unfolding mark_def by (rule foldl_inv [where I = "\<lambda>ys. length ys = length xs"]) auto

lemma mark_nth:
  assumes "\<forall>x\<in>set cells. fst x < n \<and> snd x < n" "length xs = n * n" "r < n" "c < n"
  shows "mark n b cells xs ! idx n r c = (if (r, c) \<in> set cells then b else xs ! idx n r c)"
  using assms(1,2)
proof (induction cells arbitrary: xs)
  case (Cons x cells)
  obtain r' c' where x: "x = (r', c')" by fastforce
  have "mark n b (x # cells) xs = mark n b cells (xs[idx n r' c' := b])" by (simp add: mark_def x)
  moreover have "xs[idx n r' c' := b] ! idx n r c = (if (r, c) = x then b else xs ! idx n r c)"
    using Cons.prems assms(3,4) idx_inside [of r' n c'] idx_inj [of c n c' r r'] idx_inj [of c' n c r' r] by (auto simp: nth_list_update x)
  ultimately show ?case using Cons by auto
qed (simp add: mark_def)

definition geometry :: "'f FlowGrid \<Rightarrow> nat \<times> (nat \<times> nat) list \<times> bool list \<times> bool list \<times> bool list" where
  "geometry g = (fg_N g, nozzle_cells g, fg_solid g, fg_basin g, fg_nozzle g)"

text \<open>The numbers of rows and columns at which the basin and the nozzle are put.\<close>

lemma placed:
  assumes "18 \<le> n" "fg_N g = n"
  defines "p \<equiv> place_basin g"
  shows "fg_N p = n" "fg_basin_left p = n div 3" "fg_basin_top p = n div 3 + 2" "fg_basin_floor p = n - 3"
    "fg_nozzle_row p = n div 3 - 4" "fg_nozzle_col p = n div 3 - 2" "fg_basin_left p < fg_basin_right p" "fg_basin_right p < n - 2"
proof -
  have "6 \<le> n div 3" using assms(1) by simp
  then show "fg_N p = n" "fg_basin_left p = n div 3" "fg_basin_top p = n div 3 + 2" "fg_basin_floor p = n - 3"
    "fg_nozzle_row p = n div 3 - 4" "fg_nozzle_col p = n div 3 - 2"
    using assms(2) by (simp_all add: p_def place_basin_def Let_def max_def)
  define d m where "d = n div 3" and "m = max 4 (n div 5)"
  define e where "e = n div 5"
  have "3 * d \<le> n" "5 * e \<le> n" by (simp_all add: d_def e_def)
  then have "d + 10 < n" "d + e + 6 < n" using assms(1) by linarith+
  moreover have "m = 4 \<or> m = e" by (simp add: m_def e_def max_def)
  ultimately have "d + m + 6 < n" by linarith
  moreover have "4 \<le> m" "6 \<le> d" using \<open>6 \<le> n div 3\<close> by (simp_all add: m_def d_def)
  ultimately have dm: "4 \<le> m" "d + m + 6 < n" "6 \<le> d" by simp_all
  then have "max 3 d = d" "min (n - 4) (n - m) = n - m" "\<not> n - m \<le> d + 6" by simp_all
  then have "fg_basin_right p = n - m" "fg_basin_left p = d"
    by (simp_all add: p_def place_basin_def Let_def assms(2) m_def [symmetric] d_def [symmetric])
  then show "fg_basin_left p < fg_basin_right p" "fg_basin_right p < n - 2" using dm by linarith+
qed

lemma rect_iff [simp]: "(r, c) \<in> set (rect rs cs) \<longleftrightarrow> r \<in> set rs \<and> c \<in> set cs"
  by (simp add: rect_def)

lemma nozzle_cells_place: "nozzle_cells (g\<lparr>fg_basin := b, fg_nozzle := m, fg_solid := s\<rparr>) = nozzle_cells g"
  by (simp add: nozzle_cells_def)

text \<open>The grid is closed, and its nozzle is inside and open.\<close>

definition closed_grid :: "'f FlowGrid \<Rightarrow> bool" where
  "closed_grid g \<longleftrightarrow> 18 \<le> fg_N g \<and> length (fg_solid g) = fg_N g * fg_N g \<and>
     (\<forall>r < fg_N g. \<forall>c < fg_N g. \<not> fg_solid g ! cell g r c \<longrightarrow> (r, c) \<in> set (inner_cells (fg_N g))) \<and>
     (\<forall>(r, c) \<in> set (nozzle_cells g). (r, c) \<in> set (inner_cells (fg_N g)) \<and> \<not> fg_solid g ! cell g r c)"

lemma new_grid_closed:
  assumes "18 \<le> n"
  shows "closed_grid (new_grid F n) \<and> fg_N (new_grid F n) = n \<and> nozzle_cells (new_grid F n) \<noteq> []"
proof -
  let ?p = "place_basin (blank_grid F n)"
  have N: "fg_N (blank_grid F n) = n" by (simp add: blank_grid_def Let_def)
  define k where "k = n div 3"
  note p = placed [OF assms N, folded k_def]
  have "3 * k \<le> n" "6 \<le> k" using assms by (simp_all add: k_def)
  then have k: "6 \<le> k" "k + 10 < n" using assms by linarith+
  have solid: "length (fg_solid ?p) = n * n" by (simp add: place_basin_def blank_grid_def Let_def)
  let ?walls = "mark n True (basin_walls ?p) (mark n True (border_cells n) (fg_solid ?p))"
  let ?solid = "mark n True (nozzle_walls ?p) (mark n False (nozzle_cells ?p) ?walls)"
  have g: "fg_N (new_grid F n) = n" "fg_solid (new_grid F n) = ?solid" "nozzle_cells (new_grid F n) = nozzle_cells ?p"
    by (simp_all add: new_grid_def build_geometry_def Let_def p(1) nozzle_cells_def)
  have nozzle: "(r, c) \<in> set (nozzle_cells ?p) \<longleftrightarrow> k - 4 \<le> r \<and> r < k - 2 \<and> k - 2 \<le> c \<and> c < k + 1" for r c
    using k by (auto simp: nozzle_cells_def p)
  have inside: "\<forall>x\<in>set (nozzle_walls ?p). fst x < n \<and> snd x < n" "\<forall>x\<in>set (nozzle_cells ?p). fst x < n \<and> snd x < n"
    "\<forall>x\<in>set (basin_walls ?p). fst x < n \<and> snd x < n" "\<forall>x\<in>set (border_cells n). fst x < n \<and> snd x < n"
  proof -
    show "\<forall>x\<in>set (nozzle_walls ?p). fst x < n \<and> snd x < n" using k by (auto simp: nozzle_walls_def Let_def p)
    show "\<forall>x\<in>set (nozzle_cells ?p). fst x < n \<and> snd x < n" using k nozzle by fastforce
    show "\<forall>x\<in>set (basin_walls ?p). fst x < n \<and> snd x < n"
      using k p(7,8) by (auto simp: basin_walls_def Let_def p(1-4) rect_def)
    show "\<forall>x\<in>set (border_cells n). fst x < n \<and> snd x < n" by (auto simp: border_cells_def rect_def)
  qed
  have at: "?solid ! idx n r c \<longleftrightarrow> (r, c) \<in> set (nozzle_walls ?p) \<or>
      (r, c) \<notin> set (nozzle_cells ?p) \<and> ((r, c) \<in> set (basin_walls ?p) \<or> (r, c) \<in> set (border_cells n) \<or> fg_solid ?p ! idx n r c)"
    if "r < n" "c < n" for r c
    using that by (simp add: mark_nth inside solid)
  have border: "(r, c) \<in> set (inner_cells n)" if "r < n" "c < n" "\<not> ?solid ! idx n r c" for r c
  proof (rule ccontr)
    assume "(r, c) \<notin> set (inner_cells n)"
    with that(1,2) have b: "(r, c) \<in> set (border_cells n)" by (auto simp: border_cells_def)
    then have "(r, c) \<notin> set (nozzle_cells ?p)" using k by (auto simp: nozzle border_cells_def)
    with b at [OF that(1,2)] that(3) show False by simp
  qed
  have "(r, c) \<in> set (inner_cells n) \<and> \<not> ?solid ! idx n r c" if "(r, c) \<in> set (nozzle_cells ?p)" for r c
  proof -
    from that have b: "k - 4 \<le> r" "r < k - 2" "k - 2 \<le> c" "c < k + 1" by (simp_all add: nozzle)
    then have "(r, c) \<notin> set (nozzle_walls ?p)" using k by (auto simp: nozzle_walls_def Let_def p)
    moreover have "1 \<le> r" "r < n - 1" "1 \<le> c" "c < n - 1" "r < n" "c < n" using b k by linarith+
    ultimately show ?thesis using at [of r c] that by simp
  qed
  moreover have "(k - 4, k - 2) \<in> set (nozzle_cells ?p)" unfolding nozzle using k by (intro conjI) linarith+
  ultimately show ?thesis
    using assms border solid by (auto simp: closed_grid_def g)
qed

subsection \<open>What the operations keep\<close>

definition sized :: "'f FlowGrid \<Rightarrow> bool" where
  "sized g \<longleftrightarrow> (\<forall>f \<in> {fg_u g, fg_v g, fg_density g, fg_residence g, fg_pressure g, fg_divergence g}. length f = fg_N g * fg_N g)"

definition keeps :: "'f FlowGrid \<Rightarrow> 'f FlowGrid \<Rightarrow> bool" where
  "keeps g g' \<longleftrightarrow> geometry g' = geometry g \<and> (sized g \<longrightarrow> sized g')"

named_theorems keeps_intro \<open>operations that keep the geometry and the sizes\<close>

lemma keeps_refl [keeps_intro]: "keeps g g"
  by (simp add: keeps_def)

lemma keeps_chain: "keeps g g' \<Longrightarrow> keeps g' g'' \<Longrightarrow> keeps g g''"
  by (simp add: keeps_def)

lemma keeps_foldl:
  assumes "\<And>s x. keeps s (f s x)" shows "keeps g (foldl f g xs)"
  by (rule foldl_inv [where I = "keeps g"]) (use assms keeps_chain keeps_refl in blast)+

lemma geometry_facts:
  assumes "geometry g' = geometry g"
  shows "fg_N g' = fg_N g" "fg_solid g' = fg_solid g" "fg_basin g' = fg_basin g" "nozzle_cells g' = nozzle_cells g"
    "is_solid_cell g' r c = is_solid_cell g r c" "closed_grid g' = closed_grid g"
  using assms by (simp_all add: geometry_def is_solid_cell_def closed_grid_def)

lemma geometry_updates [simp]:
  "geometry (g\<lparr>fg_u := x\<rparr>) = geometry g" "geometry (g\<lparr>fg_v := x\<rparr>) = geometry g"
  "geometry (g\<lparr>fg_u_prev := x\<rparr>) = geometry g" "geometry (g\<lparr>fg_v_prev := x\<rparr>) = geometry g"
  "geometry (g\<lparr>fg_density := x\<rparr>) = geometry g" "geometry (g\<lparr>fg_density_prev := x\<rparr>) = geometry g"
  "geometry (g\<lparr>fg_pressure := x\<rparr>) = geometry g" "geometry (g\<lparr>fg_divergence := x\<rparr>) = geometry g"
  "geometry (g\<lparr>fg_residence := x\<rparr>) = geometry g" "geometry (g\<lparr>fg_kinetic_history := x\<rparr>) = geometry g"
  "geometry (g\<lparr>fg_fill_history := x\<rparr>) = geometry g" "geometry (g\<lparr>fg_divergence_history := x\<rparr>) = geometry g"
  "geometry (g\<lparr>fg_circulation_history := x\<rparr>) = geometry g"
  by (simp_all add: geometry_def nozzle_cells_def)

lemma boundaries_length [simp]: "length (apply_solid_boundaries F g f) = length f"
  by (simp add: apply_solid_boundaries_def)

lemma diffuse_length [simp]: "length (diffuse F g source diff dt iters z) = length source"
proof -
  have "length (foldl (diffuse_cell F g source a z) f cells) = length f" for a f cells
    by (rule foldl_inv [where I = "\<lambda>s. length s = length f"]) (simp_all add: diffuse_cell_def Let_def)
  then have "length (((\<lambda>field. apply_solid_boundaries F g (foldl (diffuse_cell F g source a z) field cells)) ^^ iters) source) = length source"
    for a cells by (intro funpow_inv [where I = "\<lambda>s. length s = length source"]) simp_all
  then show ?thesis by (simp add: diffuse_def Let_def)
qed

lemma advect_length [simp]: "length (advect F M g source vu vv dt) = length source"
proof -
  have "length (foldl (advect_cell F M g source vu vv scale) f cells) = length f" for scale f cells
    by (rule foldl_inv [where I = "\<lambda>s. length s = length f"]) (simp_all add: advect_cell_def Let_def)
  then show ?thesis by (simp add: advect_def Let_def)
qed

lemma settle_length [simp]: "length (foldl (settle_cell F g) f cells) = length f"
proof -
  have "length (try_move F g i r c q xs) = length xs" for i r c q xs by (simp add: try_move_def Let_def)
  then show ?thesis by (intro foldl_inv [where I = "\<lambda>s. length s = length f"]) (simp_all add: settle_cell_def Let_def)
qed

lemma inlet_keeps [keeps_intro]: "keeps g (add_inlet F M P step g)"
  by (simp add: add_inlet_def Let_def keeps_refl) (intro impI keeps_foldl, simp add: inlet_cell_def keeps_def Let_def sized_def)

lemma forces_keep [keeps_intro]: "keeps g (apply_forces F P g)"
  unfolding apply_forces_def by (rule keeps_foldl) (simp add: force_cell_def keeps_def Let_def sized_def)

lemma stop_keeps [keeps_intro]: "keeps g (enforce_no_penetration F g)"
  unfolding enforce_no_penetration_def by (rule keeps_foldl) (simp add: stop_cell_def keeps_def Let_def sized_def)

lemma solve_pressure_keeps [keeps_intro]: "keeps g (solve_pressure F iters g)"
proof -
  let ?cells = "inner_cells (fg_N g)"
  have dv: "length (foldl (divergence_cell F g) xs ?cells) = length xs" for xs
    by (rule foldl_inv [where I = "\<lambda>s. length s = length xs"]) (simp_all add: divergence_cell_def Let_def)
  have p1: "length (foldl (pressure_cell F g d) xs ?cells) = length xs" for d xs
    by (rule foldl_inv [where I = "\<lambda>s. length s = length xs"]) (simp_all add: pressure_cell_def Let_def split: prod.splits)
  have "length (((\<lambda>p. foldl (pressure_cell F g d) p ?cells) ^^ iters) xs) = length xs" for d xs
    by (rule funpow_inv [where I = "\<lambda>s. length s = length xs"]) (simp_all add: p1)
  with dv show ?thesis by (simp add: solve_pressure_def Let_def keeps_def sized_def)
qed

lemma gradient_keeps [keeps_intro]: "keeps g (subtract_gradient F g)"
  unfolding subtract_gradient_def by (rule keeps_foldl) (simp add: gradient_cell_def keeps_def Let_def sized_def)

lemma still_keeps [keeps_intro]: "keeps g (still_solids F g)"
  by (simp add: still_solids_def keeps_def sized_def)

lemma project_keeps [keeps_intro]: "keeps g (project F iters g)"
  unfolding project_def by (rule keeps_chain [OF keeps_chain [OF keeps_chain [OF solve_pressure_keeps gradient_keeps] still_keeps] stop_keeps])

lemma velocity_keeps [keeps_intro]: "keeps g (diffuse_velocity F P g)" "keeps g (advect_velocity F M P g)"
  by (simp_all add: diffuse_velocity_def advect_velocity_def Let_def keeps_def sized_def)

lemma move_fluid_keeps [keeps_intro]: "keeps g (move_fluid F M P g)"
  unfolding move_fluid_def
  by (rule keeps_chain [OF keeps_chain [OF keeps_chain [OF velocity_keeps(1) project_keeps] velocity_keeps(2)] project_keeps])

lemma move_density_keeps [keeps_intro]: "keeps g (move_density F M P g)"
  by (simp add: move_density_def settle_density_def Let_def keeps_def sized_def)

lemma fade_keeps [keeps_intro]: "keeps g (foldl (fade_cell F P) g is)"
  by (rule keeps_foldl) (simp add: fade_cell_def keeps_def Let_def sized_def)

lemma clamp_keeps [keeps_intro]: "keeps g (clamp_density F g)"
  by (simp add: clamp_density_def keeps_def sized_def)

lemma note_keeps [keeps_intro]: "keeps g (note_stats st g)"
  by (simp add: note_stats_def keeps_def sized_def)

lemma flow_step_keeps: "keeps g (flow_step F M P step g)"
  unfolding flow_step_def Let_def
  by (rule keeps_chain [OF keeps_chain [OF keeps_chain [OF keeps_chain [OF keeps_chain [OF keeps_chain [OF
    inlet_keeps forces_keep] move_fluid_keeps] move_density_keeps] fade_keeps] clamp_keeps] note_keeps])

subsection \<open>Walls\<close>

text \<open>Literals keep their order; so do the IEEE numbers nearest to them.\<close>

definition lits_ordered :: "'f Float \<Rightarrow> bool" where
  "lits_ordered F \<longleftrightarrow> (\<forall>p q. p \<le> q \<longrightarrow> \<not> fl_less F (fl_lit F q) (fl_lit F p))"

definition still_walls :: "'f Float \<Rightarrow> 'f FlowGrid \<Rightarrow> bool" where
  "still_walls F g \<longleftrightarrow> (\<forall>i < fg_N g * fg_N g. fg_solid g ! i \<longrightarrow> fg_u g ! i = fl_zero F \<and> fg_v g ! i = fl_zero F)"

text \<open>The fluid of a cell does not flow into a wall next to it.\<close>

definition stopped :: "'f Float \<Rightarrow> 'f FlowGrid \<Rightarrow> nat \<times> nat \<Rightarrow> bool" where
  "stopped F g rc \<longleftrightarrow> (case rc of (r, c) \<Rightarrow> let i = cell g r c; z = fl_zero F in
     (is_solid_cell g (int r) (int c + 1) \<longrightarrow> \<not> fl_less F z (fg_u g ! i)) \<and>
     (is_solid_cell g (int r) (int c - 1) \<longrightarrow> \<not> fl_less F (fg_u g ! i) z) \<and>
     (is_solid_cell g (int r + 1) (int c) \<longrightarrow> \<not> fl_less F z (fg_v g ! i)) \<and>
     (is_solid_cell g (int r - 1) (int c) \<longrightarrow> \<not> fl_less F (fg_v g ! i) z))"

definition no_penetration :: "'f Float \<Rightarrow> 'f FlowGrid \<Rightarrow> bool" where
  "no_penetration F g \<longleftrightarrow> (\<forall>(r, c) \<in> set (inner_cells (fg_N g)). \<not> fg_solid g ! cell g r c \<longrightarrow> stopped F g (r, c))"

lemma update_or: "xs[k := z] ! i = xs ! i \<or> xs[k := z] ! i = z"
  by (cases "k < length xs"; cases "k = i") (simp_all add: list_update_beyond)

lemma stop_cell_entries:
  "fg_u (stop_cell F g rc) ! i = fg_u g ! i \<or> fg_u (stop_cell F g rc) ! i = fl_zero F"
  "fg_v (stop_cell F g rc) ! i = fg_v g ! i \<or> fg_v (stop_cell F g rc) ! i = fl_zero F"
  by (simp_all add: stop_cell_def Let_def) (metis update_or)+

lemma stop_cell_geometry [simp]: "geometry (stop_cell F g rc) = geometry g"
  by (simp add: stop_cell_def Let_def)

lemma stop_cell_keeps_stopped:
  assumes "lits_ordered F" "stopped F g rc"
  shows "stopped F (stop_cell F g rc') rc"
proof -
  have z: "\<not> fl_less F (fl_zero F) (fl_zero F)" using assms(1) by (simp add: lits_ordered_def)
  note s = geometry_facts [OF stop_cell_geometry [of F g rc']]
  obtain r c where rc: "rc = (r, c)" by fastforce
  from assms(2) z stop_cell_entries [of F g rc' "cell g r c"] show ?thesis by (auto simp: stopped_def rc Let_def s)
qed

lemma stop_cell_stops:
  assumes "lits_ordered F" "\<not> fg_solid g ! cell g r c" "cell g r c < length (fg_u g)" "cell g r c < length (fg_v g)"
  shows "stopped F (stop_cell F g (r, c)) (r, c)"
proof -
  have z: "\<not> fl_less F (fl_zero F) (fl_zero F)" using assms(1) by (simp add: lits_ordered_def)
  note s = geometry_facts [OF stop_cell_geometry [of F g "(r, c)"]]
  show ?thesis using assms(2-4) z by (simp add: stopped_def Let_def s) (simp add: stop_cell_def Let_def)
qed

lemma enforce_stops:
  assumes "lits_ordered F" "sized g"
  shows "no_penetration F (enforce_no_penetration F g)"
proof -
  have "geometry (foldl (stop_cell F) g cells) = geometry g \<and> sized (foldl (stop_cell F) g cells) \<and>
      (\<forall>(r, c) \<in> set cells. \<not> fg_solid g ! cell g r c \<longrightarrow> stopped F (foldl (stop_cell F) g cells) (r, c))"
    if "set cells \<subseteq> set (inner_cells (fg_N g))" for cells
    using that
  proof (induction cells rule: rev_induct)
    case Nil
    then show ?case using assms(2) by simp
  next
    case (snoc x cells)
    let ?g = "foldl (stop_cell F) g cells"
    obtain r c where x: "x = (r, c)" by fastforce
    from snoc have IH: "geometry ?g = geometry g" "sized ?g"
      "\<And>r c. (r, c) \<in> set cells \<Longrightarrow> \<not> fg_solid g ! cell g r c \<Longrightarrow> stopped F ?g (r, c)" by auto
    note s = geometry_facts [OF IH(1)]
    from snoc.prems x have "r < fg_N g" "c < fg_N g" by auto
    then have i: "cell ?g r c < length (fg_u ?g)" "cell ?g r c < length (fg_v ?g)" using IH(2) idx_inside by (simp_all add: sized_def s)
    have size: "sized (stop_cell F ?g x)" using IH(2) by (simp add: sized_def stop_cell_def Let_def)
    have now: "stopped F (stop_cell F ?g x) (r, c)" if "\<not> fg_solid g ! cell g r c"
      using stop_cell_stops [OF assms(1) _ i] that unfolding x s by blast
    have all: "stopped F (stop_cell F ?g x) (r', c')" if "(r', c') \<in> set (cells @ [x])" "\<not> fg_solid g ! cell g r' c'" for r' c'
    proof (cases "(r', c') \<in> set cells")
      case True
      from stop_cell_keeps_stopped [OF assms(1) IH(3) [OF True that(2)]] show ?thesis .
    next
      case False
      with that(1) x have "r' = r" "c' = c" by simp_all
      with now that(2) show ?thesis by simp
    qed
    have step: "foldl (stop_cell F) g (cells @ [x]) = stop_cell F ?g x" by simp
    show ?case unfolding step
    proof (intro conjI ballI)
      show "geometry (stop_cell F ?g x) = geometry g" by (simp add: IH(1))
      show "sized (stop_cell F ?g x)" by (rule size)
      fix y assume y: "y \<in> set (cells @ [x])"
      obtain r' c' where "y = (r', c')" by fastforce
      with y all [of r' c'] show "case y of (r, c) \<Rightarrow> \<not> fg_solid g ! cell g r c \<longrightarrow> stopped F (stop_cell F ?g x) (r, c)" by simp
    qed
  qed
  note all = this [of "inner_cells (fg_N g)", OF order_refl]
  note s = geometry_facts [OF conjunct1 [OF all]]
  show ?thesis unfolding no_penetration_def enforce_no_penetration_def s by (rule conjunct2 [OF conjunct2 [OF all]])
qed

lemma boundaries_nth: "i < length f \<Longrightarrow> apply_solid_boundaries F g f ! i = (if fg_solid g ! i then fl_zero F else f ! i)"
  by (simp add: apply_solid_boundaries_def)

lemma enforce_still: "still_walls F g \<Longrightarrow> still_walls F (enforce_no_penetration F g)"
proof -
  assume g: "still_walls F g"
  have "geometry (enforce_no_penetration F g) = geometry g \<and> still_walls F (enforce_no_penetration F g)"
    unfolding enforce_no_penetration_def
  proof (rule foldl_inv [where I = "\<lambda>s. geometry s = geometry g \<and> still_walls F s"])
    fix s x assume s: "geometry s = geometry g \<and> still_walls F s"
    have "still_walls F (stop_cell F s x)"
      using s stop_cell_entries [of F s x] unfolding still_walls_def geometry_facts(1,2) [OF stop_cell_geometry] by metis
    with s show "geometry (stop_cell F s x) = geometry g \<and> still_walls F (stop_cell F s x)" by simp
  qed (use g in simp)
  then show ?thesis ..
qed

lemma project_walls:
  assumes "lits_ordered F" "sized g"
  shows "no_penetration F (project F iters g) \<and> still_walls F (project F iters g)"
proof -
  let ?g1 = "subtract_gradient F (solve_pressure F iters g)"
  have "keeps g ?g1" by (rule keeps_chain [OF solve_pressure_keeps gradient_keeps])
  with assms(2) have g1: "sized ?g1" by (simp add: keeps_def)
  with still_keeps [of ?g1 F] have "sized (still_solids F ?g1)" by (simp add: keeps_def)
  moreover have "still_walls F (still_solids F ?g1)"
    using g1 by (simp add: still_walls_def still_solids_def sized_def boundaries_nth)
  ultimately show ?thesis
    using enforce_stops [OF assms(1)] enforce_still unfolding project_def by blast
qed

subsection \<open>One step\<close>

definition same_flow :: "'f FlowGrid \<Rightarrow> 'f FlowGrid \<Rightarrow> bool" where
  "same_flow g g' \<longleftrightarrow> geometry g' = geometry g \<and> fg_u g' = fg_u g \<and> fg_v g' = fg_v g"

lemma same_flow_walls:
  assumes "same_flow g g'"
  shows "still_walls F g' = still_walls F g" "no_penetration F g' = no_penetration F g"
proof -
  from assms have e: "fg_u g' = fg_u g" "fg_v g' = fg_v g" "geometry g' = geometry g" by (simp_all add: same_flow_def)
  note s = geometry_facts [OF e(3)]
  show "still_walls F g' = still_walls F g" by (simp only: still_walls_def s e(1,2))
  show "no_penetration F g' = no_penetration F g" by (simp only: no_penetration_def stopped_def s e(1,2))
qed

lemma density_steps_same_flow:
  "same_flow g (move_density F M P g)" "same_flow g (clamp_density F g)" "same_flow g (note_stats st g)"
  by (simp_all add: same_flow_def move_density_def settle_density_def clamp_density_def note_stats_def Let_def)

lemma fade_same_flow: "same_flow g (foldl (fade_cell F P) g is)"
  by (rule foldl_inv [where I = "same_flow g"]) (simp_all add: same_flow_def fade_cell_def Let_def)

definition in_range :: "'f Float \<Rightarrow> rat \<Rightarrow> rat \<Rightarrow> 'f \<Rightarrow> bool" where
  "in_range F p q x \<longleftrightarrow> \<not> fl_less F x (fl_lit F p) \<and> \<not> fl_less F (fl_lit F q) x"

lemma clamp_in_range: "lits_ordered F \<Longrightarrow> p \<le> q \<Longrightarrow> in_range F p q (fl_clamp F x (fl_lit F p) (fl_lit F q))"
  by (simp add: in_range_def fl_clamp_def lits_ordered_def)

definition bounded_fluid :: "'f Float \<Rightarrow> 'f FlowGrid \<Rightarrow> bool" where
  "bounded_fluid F g \<longleftrightarrow> (\<forall>i < fg_N g * fg_N g. if fg_solid g ! i then fg_density g ! i = fl_zero F \<and> fg_residence g ! i = fl_zero F
     else in_range F 0 (14 / 10) (fg_density g ! i) \<and> in_range F 0 1 (fg_residence g ! i))"

lemma clamp_bounded:
  assumes "lits_ordered F" "sized g"
  shows "bounded_fluid F (clamp_density F g)"
  using assms(2) clamp_in_range [OF assms(1), of 0 "14 / 10"] clamp_in_range [OF assms(1), of 0 1]
  by (simp add: bounded_fluid_def clamp_density_def clamp01_def sized_def)

definition flow_ok :: "'f Float \<Rightarrow> 'f FlowGrid \<Rightarrow> bool" where
  "flow_ok F g \<longleftrightarrow> still_walls F g \<and> no_penetration F g \<and> bounded_fluid F g"

lemma note_bounded: "bounded_fluid F (note_stats st g) = bounded_fluid F g"
  by (simp add: bounded_fluid_def note_stats_def)

lemma flow_step_ok:
  assumes "lits_ordered F" "sized g"
  shows "flow_ok F (flow_step F M P step g)"
proof -
  let ?g0 = "advect_velocity F M P (project F (si_pressure_iters P) (diffuse_velocity F P (apply_forces F P (add_inlet F M P step g))))"
  let ?g1 = "project F (si_pressure_iters P) ?g0" and ?g2 = "move_density F M P (project F (si_pressure_iters P) ?g0)"
  let ?g3 = "foldl (fade_cell F P) ?g2 [0..<length (fg_density ?g2)]"
  have step: "flow_step F M P step g = note_stats (compute_stats F M (clamp_density F ?g3)) (clamp_density F ?g3)"
    by (simp add: flow_step_def move_fluid_def Let_def)
  have "keeps g ?g0"
    by (rule keeps_chain [OF keeps_chain [OF keeps_chain [OF keeps_chain [OF inlet_keeps forces_keep] velocity_keeps(1)] project_keeps] velocity_keeps(2)])
  with assms(2) have s0: "sized ?g0" by (simp add: keeps_def)
  have "keeps ?g0 ?g3" by (rule keeps_chain [OF keeps_chain [OF project_keeps move_density_keeps] fade_keeps])
  with s0 have s3: "sized ?g3" by (simp add: keeps_def)
  have "still_walls F ?g1" "no_penetration F ?g1" using project_walls [OF assms(1) s0] by simp_all
  then have "still_walls F (flow_step F M P step g)" "no_penetration F (flow_step F M P step g)"
    unfolding step same_flow_walls [OF density_steps_same_flow(3)] same_flow_walls [OF density_steps_same_flow(2)]
      same_flow_walls [OF fade_same_flow] same_flow_walls [OF density_steps_same_flow(1)] by simp_all
  moreover have "bounded_fluid F (flow_step F M P step g)"
    unfolding step note_bounded by (rule clamp_bounded [OF assms(1) s3])
  ultimately show ?thesis by (simp add: flow_ok_def)
qed

section \<open>Settling keeps the mass\<close>

lemma sum_list_update_real: "k < length xs \<Longrightarrow> sum_list (xs[k := x]) = sum_list xs + x - (xs ! k :: real)"
proof (induction xs arbitrary: k)
  case (Cons a xs)
  then show ?case by (cases k) simp_all
qed simp

lemma open_cell_inside: "\<not> is_solid_cell g r c \<Longrightarrow> 0 \<le> r \<and> 0 \<le> c \<and> nat r < fg_N g \<and> nat c < fg_N g"
  by (auto simp: is_solid_cell_def)

context exact_float
begin

definition mass :: "'f list \<Rightarrow> real" where
  "mass f = sum_list (map val f)"

lemma mass_update: "k < length f \<Longrightarrow> mass (f[k := x]) = mass f + val x - val (f ! k)"
  by (simp add: mass_def map_update sum_list_update_real)

text \<open>A move between two cells: the mass stays, nothing becomes negative, and no cell gets more than 1.15.\<close>

definition filled_to :: "real \<Rightarrow> 'f list \<Rightarrow> bool" where
  "filled_to top_level f \<longleftrightarrow> (\<forall>k < length f. 0 \<le> val (f ! k) \<and> val (f ! k) \<le> top_level)"

lemma try_move_law:
  assumes "length f = fg_N g * fg_N g" "r < fg_N g" "c < fg_N g" "(nr, nc) \<noteq> (int r, int c)" "0 \<le> val q" "val q \<le> 1"
  shows "length (try_move F g (cell g r c) nr nc q f) = length f" "mass (try_move F g (cell g r c) nr nc q f) = mass f"
    "115 / 100 \<le> t \<Longrightarrow> filled_to t f \<Longrightarrow> filled_to t (try_move F g (cell g r c) nr nc q f)"
proof -
  let ?i = "cell g r c" and ?j = "cell g (nat nr) (nat nc)"
  let ?cap = "fl_max F (fl_zero F) (fl_sub F (fl_lit F (115 / 100)) (f ! ?j))"
  let ?m = "fl_min F (fl_mul F (f ! ?i) q) ?cap"
  show "length (try_move F g ?i nr nc q f) = length f" by (simp add: try_move_def Let_def)
  show "mass (try_move F g ?i nr nc q f) = mass f"
    "115 / 100 \<le> t \<Longrightarrow> filled_to t f \<Longrightarrow> filled_to t (try_move F g ?i nr nc q f)"
  proof (atomize (full), cases "is_solid_cell g nr nc \<or> fl_le F ?cap (fl_zero F)")
    case True
    then have "try_move F g ?i nr nc q f = f" by (auto simp: try_move_def Let_def)
    then show "mass (try_move F g ?i nr nc q f) = mass f \<and> (115 / 100 \<le> t \<longrightarrow> filled_to t f \<longrightarrow> filled_to t (try_move F g ?i nr nc q f))" by simp
  next
    case False
    then have moved: "try_move F g ?i nr nc q f = f[?i := fl_sub F (f ! ?i) ?m, ?j := fl_add F (f[?i := fl_sub F (f ! ?i) ?m] ! ?j) ?m]"
      by (simp add: try_move_def Let_def)
    from False open_cell_inside [of g nr nc] have n: "0 \<le> nr" "0 \<le> nc" "nat nr < fg_N g" "nat nc < fg_N g" by auto
    have i: "?i < length f" and j: "?j < length f" using idx_inside assms(1-3) n by simp_all
    have ij: "?i \<noteq> ?j" using idx_inj [of c "fg_N g" "nat nc" r "nat nr"] assms(3,4) n by auto
    have new: "try_move F g ?i nr nc q f = f[?i := fl_sub F (f ! ?i) ?m, ?j := fl_add F (f ! ?j) ?m]" unfolding moved using ij by simp
    have "mass (try_move F g ?i nr nc q f) = mass f"
      unfolding new using i j ij by (simp add: mass_update val_add val_sub)
    moreover have "filled_to t (try_move F g ?i nr nc q f)" if t: "115 / 100 \<le> t" "filled_to t f"
    proof -
      have fi: "0 \<le> val (f ! ?i)" "val (f ! ?i) \<le> t" and fj: "0 \<le> val (f ! ?j)" "val (f ! ?j) \<le> t" using t(2) i j by (simp_all add: filled_to_def)
      have cap: "val ?cap = max 0 (115 / 100 - val (f ! ?j))"
        by (simp add: fl_max_def val_less val_lit val_sub of_rat_divide max_def)
      have m: "val ?m = min (val (f ! ?i) * val q) (val ?cap)" by (simp add: fl_min_def val_less val_mul)
      have "val (f ! ?i) * val q \<le> val (f ! ?i)" "0 \<le> val (f ! ?i) * val q" using fi assms(5,6) by (simp_all add: mult_left_le)
      with m cap have b: "0 \<le> val ?m" "val ?m \<le> val (f ! ?i)" "val ?m \<le> max 0 (115 / 100 - val (f ! ?j))" by linarith+
      have "0 \<le> val (f ! ?i) - val ?m" "val (f ! ?i) - val ?m \<le> t" "0 \<le> val (f ! ?j) + val ?m" "val (f ! ?j) + val ?m \<le> t"
        using b fi fj t(1) by linarith+
      then show ?thesis
        unfolding new filled_to_def using t(2) i j by (auto simp: nth_list_update val_add val_sub filled_to_def)
    qed
    ultimately show "mass (try_move F g ?i nr nc q f) = mass f \<and> (115 / 100 \<le> t \<longrightarrow> filled_to t f \<longrightarrow> filled_to t (try_move F g ?i nr nc q f))" by simp
  qed
qed

lemma settle_cell_law:
  assumes "length f = fg_N g * fg_N g" "rc \<in> set (rect (rev [1..<fg_N g - 1]) [1..<fg_N g - 1])"
  shows "length (settle_cell F g f rc) = length f \<and> mass (settle_cell F g f rc) = mass f \<and>
    (115 / 100 \<le> t \<longrightarrow> filled_to t f \<longrightarrow> filled_to t (settle_cell F g f rc))"
proof -
  obtain r c where rc: "rc = (r, c)" by fastforce
  from assms(2) have b: "r < fg_N g" "c < fg_N g" by (auto simp: rc)
  define S where "S f' \<longleftrightarrow> length f' = fg_N g * fg_N g \<and> mass f' = mass f \<and> (115 / 100 \<le> t \<longrightarrow> filled_to t f \<longrightarrow> filled_to t f')" for f'
  have move: "S (try_move F g (cell g r c) nr nc w f')"
    if "S f'" "(nr, nc) \<noteq> (int r, int c)" "0 \<le> val w" "val w \<le> 1" for nr nc w f'
    using try_move_law [OF _ b that(2-4), of f'] that(1) unfolding S_def by simp
  have start: "S f" using assms(1) by (simp add: S_def)
  have "S (settle_cell F g f rc)"
    unfolding settle_cell_def Let_def rc fst_conv snd_conv
    by (simp only: split: if_split) (intro conjI impI start move; simp add: val_lit of_rat_divide)
  then show ?thesis using assms(1) by (simp add: S_def)
qed

lemma settle_density_law:
  assumes "sized g"
  shows "mass (fg_density (settle_density F g)) = mass (fg_density g)"
    "115 / 100 \<le> t \<Longrightarrow> filled_to t (fg_density g) \<Longrightarrow> filled_to t (fg_density (settle_density F g))"
proof -
  let ?cells = "rect (rev [1..<fg_N g - 1]) [1..<fg_N g - 1]"
  let ?I = "\<lambda>f. length f = fg_N g * fg_N g \<and> mass f = mass (fg_density g) \<and>
    (115 / 100 \<le> t \<longrightarrow> filled_to t (fg_density g) \<longrightarrow> filled_to t f)"
  have "?I (foldl (settle_cell F g) (fg_density g) ?cells)"
  proof (rule foldl_inv [where I = ?I])
    show "?I (fg_density g)" using assms by (simp add: sized_def)
    show "?I (settle_cell F g f rc)" if "rc \<in> set ?cells" "?I f" for f rc
      using settle_cell_law [OF conjunct1 [OF that(2)] that(1), of t] that(2) by simp
  qed
  then show "mass (fg_density (settle_density F g)) = mass (fg_density g)"
    "115 / 100 \<le> t \<Longrightarrow> filled_to t (fg_density g) \<Longrightarrow> filled_to t (fg_density (settle_density F g))"
    by (simp_all add: settle_density_def)
qed

end

section \<open>The demonstration\<close>

lemma new_grid_sized: "sized (new_grid F n)"
  by (simp add: sized_def new_grid_def build_geometry_def place_basin_def blank_grid_def Let_def)

lemma fluid_round_grid: "fr_grid (fluid_round F M R P k s) = flow_step F M P k (fr_grid s)" "fr_last_step (fluid_round F M R P k s) = k"
  by (simp_all add: fluid_round_def Let_def split: prod.splits)

lemma fluid_rounds_ok:
  assumes "lits_ordered F"
  shows "sized (fr_grid s) \<Longrightarrow> keeps (fr_grid s) (fr_grid (fluid_rounds F M R P ks s)) \<and>
    (ks \<noteq> [] \<longrightarrow> flow_ok F (fr_grid (fluid_rounds F M R P ks s)) \<and> fr_last_step (fluid_rounds F M R P ks s) \<in> set ks)"
proof (induction ks arbitrary: s)
  case (Cons k ks)
  let ?s = "fluid_round F M R P k s"
  note step = flow_step_keeps [of "fr_grid s" F M P k, folded fluid_round_grid(1) [of F M R P k s]]
    flow_step_ok [OF assms Cons.prems, of M P k, folded fluid_round_grid(1) [of F M R P k s]]
  from step(1) Cons.prems have "sized (fr_grid ?s)" by (simp add: keeps_def)
  note IH = Cons.IH [OF this]
  have "keeps (fr_grid s) (fr_grid (fluid_rounds F M R P ks ?s))" using keeps_chain [OF step(1)] IH by blast
  moreover have "flow_ok F (fr_grid (fluid_rounds F M R P ks ?s)) \<and> fr_last_step (fluid_rounds F M R P ks ?s) \<in> set (k # ks)"
    using IH step(2) by (cases ks) (auto simp: fluid_round_grid(2))
  ultimately show ?case using step by (simp add: Let_def fluid_round_grid(2))
qed (simp add: keeps_refl)

lemma new_fluid_succeeds: "n \<le> 52 \<Longrightarrow> 0 < n \<Longrightarrow> \<exists>s. new_fluid F R n ts = Some s \<and> fr_grid s = new_grid F n"
proof -
  assume n: "n \<le> 52" "0 < n"
  have "n * n \<le> 52 * 52" using n(1) by (intro mult_le_mono)
  with n(2) have "(0 :: 32 word) < word_of_nat (n * n)" by (simp add: word_less_nat_alt unat_of_nat del: of_nat_mult)
  then have "0 < cf_population (fluid_config F n)" by (simp add: fluid_config_def)
  from idle_swarm_succeeds [OF this] show ?thesis by (fastforce simp: new_fluid_def)
qed

end
