(* ===== verification/Demo_Properties.thy ===== *)
theory Demo_Properties
  imports Route_Laws Fluid_Laws
begin

text \<open>
  Properties of the demonstrations of the swarm: whole runs of the route solver, from the clamped number of cities to the state after the
  last round, and of the fluid. For the witnesses,
  numbers come from a tape: positions walk over the map, places over the tour.
\<close>

definition tape_random :: "(real, nat) Random" where
  "tape_random = \<lparr>rg_seed = unat, rg_normal = \<lambda>s n g. (replicate n s, g), rg_uniform = \<lambda>b g. (b / 2, g + 1)\<rparr>"

definition tape_draws :: "(real, nat) Draws" where
  "tape_draws = \<lparr>dr_position = \<lambda>lo hi g. (lo + (hi - lo) * (real (g mod 10) / 10), g + 1), dr_index = \<lambda>k g. (g mod (k + 1), g + 1)\<rparr>"

lemma tape_inside: "draws_inside tape_draws" "positions_inside reals (\<lambda>x. x) tape_draws"
proof -
  show "draws_inside tape_draws" by (simp add: draws_inside_def tape_draws_def less_Suc_eq_le [symmetric])
  have "0 \<le> (hi - lo) * (real (g mod 10) / 10) \<and> (hi - lo) * (real (g mod 10) / 10) \<le> hi - lo" if "lo \<le> hi" for lo hi :: real and g :: nat
  proof -
    have "real (g mod 10) / 10 \<le> 1" "0 \<le> real (g mod 10) / 10" by simp_all
    with that show ?thesis by (simp only: mult_left_le mult_nonneg_nonneg diff_ge_0_iff_ge)
  qed
  then show "positions_inside reals (\<lambda>x. x) tape_draws" by (simp add: positions_inside_def tape_draws_def algebra_simps)
qed

subsection \<open>Tours\<close>

text \<open>
  C36: whatever the random numbers are, after a run the best tour and the tour of each of the 64 agents visit each of the 6 to 52 cities
  exactly once, the lengths noted are the lengths of these tours, and the pheromone matrix has a row and a column for each city and is
  symmetric. It needs an integer distribution that keeps to its range, and distances below the \<open>1e18\<close> with which the search for the
  nearest neighbour begins (else that search takes city 0 again).
\<close>

theorem tours_stay_permutations:
  assumes "draws_inside Q" "new_solver F R Q n seed ts = Some s0" "near_enough F (city_count s0) (distance_matrix F (so_cities s0))"
  shows "\<exists>s. route_main F R Q n seed ts = Some s \<and> so_cities s = so_cities s0 \<and> 6 \<le> city_count s \<and> city_count s \<le> 52 \<and>
    mset (so_best_tour s) = mset [0..<city_count s] \<and> so_best_length s = tour_length F (so_best_tour s) (so_cities s) \<and>
    (\<forall>a < POP. mset (so_tours s ! a) = mset [0..<city_count s] \<and> so_lengths s ! a = tour_length F (so_tours s ! a) (so_cities s)) \<and>
    length (so_tau s) = city_count s \<and> (\<forall>i < city_count s. length (so_tau s ! i) = city_count s) \<and>
    (\<forall>i < city_count s. \<forall>j < city_count s. so_tau s ! i ! j = so_tau s ! j ! i)"
proof -
  from assms(2,3) new_solver_succeeds [of F R Q n seed ts] have s0: "solver_ok F s0" "city_count s0 = clamp_cities n" by auto
  let ?s = "solve_rounds F R Q [0..<MAX_ROUNDS] s0"
  have "[0..<MAX_ROUNDS] \<noteq> []" by (simp add: MAX_ROUNDS_def)
  with solve_rounds_ok [OF s0(1) assms(1), of R "[0..<MAX_ROUNDS]"]
  have s: "solver_ok F ?s" "all_played F ?s" "so_cities ?s = so_cities s0" by blast+
  have n: "6 \<le> city_count ?s" "city_count ?s \<le> 52" using clamp_cities_bounds s0(2) s(3) by simp_all
  have "route_main F R Q n seed ts = Some ?s" by (simp add: route_main_def assms(2))
  moreover have "is_tour (city_count ?s) (so_best_tour ?s)" "so_best_length ?s = tour_length F (so_best_tour ?s) (so_cities ?s)"
    "square (city_count ?s) (so_tau ?s)" using s(1) by (simp_all only: solver_ok_def)
  moreover have "\<forall>a < POP. is_tour (city_count ?s) (so_tours ?s ! a) \<and> so_lengths ?s ! a = tour_length F (so_tours ?s ! a) (so_cities ?s)"
    using s(2) by (simp only: all_played_def had_turn_def)
  ultimately show ?thesis using s(3) n unfolding is_tour_def square_def by blast
qed

theorem tours_stay_permutations_witness:
  "\<exists>s. route_main reals tape_random tape_draws 8 1 42 = Some s \<and> mset (so_best_tour s) = mset [0..<8] \<and> mset (so_tours s ! 63) = mset [0..<8]"
proof -
  obtain s0 where s0: "new_solver reals tape_random tape_draws 8 1 42 = Some s0" "solver_ok reals s0"
    using reals.new_solver_exact [OF tape_inside(2)] by blast
  obtain g where c: "so_cities s0 = fst (place_cities reals tape_draws [0..<clamp_cities 8] [] g)"
    using new_solver_succeeds [of reals tape_random tape_draws 8 1 42] s0(1) by auto
  have n: "clamp_cities 8 = 8" "63 < POP" by (simp_all add: clamp_cities_def POP_def)
  have len: "city_count s0 = 8" by (simp add: c n place_cities_length del: upt_Suc upt_rec_numeral)
  have "\<forall>c\<in>set (so_cities s0). reals.on_map c" unfolding c by (rule reals.placed_on_map [OF tape_inside(2)]) simp
  from tours_stay_permutations [OF tape_inside(1) s0(1) reals.on_map_near [OF this]] obtain s where
    "route_main reals tape_random tape_draws 8 1 42 = Some s" "so_cities s = so_cities s0" "mset (so_best_tour s) = mset [0..<city_count s]"
    "\<forall>a < POP. mset (so_tours s ! a) = mset [0..<city_count s]" by blast
  then show ?thesis using len n(2) by auto
qed

subsection \<open>The best tour\<close>

text \<open>
  C37: in exact arithmetic, a run always ends, the best lengths noted round by round never grow, the final one is at most each of them and at most the length of
  the nearest-neighbour tour after five 2-opt passes, and it is the length of the tour that is kept.
\<close>

theorem best_tour_never_worsens:
  assumes "draws_inside Q" "positions_inside reals (\<lambda>x. x) Q"
  shows "\<exists>s0 s. new_solver reals R Q n seed ts = Some s0 \<and> route_main reals R Q n seed ts = Some s \<and>
    sorted_wrt (\<ge>) (so_best_hist s) \<and> (\<forall>x \<in> set (so_best_hist s). so_best_length s \<le> x \<and> x \<le> so_best_length s0) \<and>
    so_best_length s \<le> so_best_length s0 \<and> so_best_length s = tour_length reals (so_best_tour s) (so_cities s)"
proof -
  obtain s0 where s0: "new_solver reals R Q n seed ts = Some s0" "solver_ok reals s0" "so_best_hist s0 = []" "so_best_length s0 \<le> 10 ^ 18"
    using reals.new_solver_exact [OF assms(2)] by blast
  let ?s = "solve_rounds reals R Q [0..<MAX_ROUNDS] s0"
  have "reals.descends (so_best_length s0) (so_best_hist s0) (so_best_length s0)" by (simp add: reals.descends_def s0(3))
  from reals.solve_rounds_descends [OF s0(2) assms(1) this s0(4), of R "[0..<MAX_ROUNDS]"]
  have d: "reals.descends (so_best_length s0) (so_best_hist ?s) (so_best_length ?s)" .
  have "so_best_length ?s = tour_length reals (so_best_tour ?s) (so_cities ?s)"
    using solve_rounds_ok [OF s0(2) assms(1), of R "[0..<MAX_ROUNDS]"] by (simp add: solver_ok_def)
  moreover have "route_main reals R Q n seed ts = Some ?s" by (simp add: route_main_def s0(1))
  ultimately show ?thesis using d s0(1) unfolding reals.descends_def by blast
qed

theorem best_tour_never_worsens_witness:
  "\<exists>s0 s. new_solver reals tape_random tape_draws 8 1 42 = Some s0 \<and> route_main reals tape_random tape_draws 8 1 42 = Some s \<and>
    so_best_length s \<le> so_best_length s0"
  using best_tour_never_worsens [OF tape_inside, of tape_random 8 1 42] by blast

subsection \<open>Pheromone\<close>

text \<open>
  C38: in exact arithmetic, after a run every entry of the pheromone matrix is between the bounds 0.01 and 10 that the solver prints,
  whatever was evaporated, deposited by the agents and for the best tour, or reset.
\<close>

theorem pheromone_stays_bounded:
  assumes "draws_inside Q" "positions_inside reals (\<lambda>x. x) Q"
  shows "\<exists>s. route_main reals R Q n seed ts = Some s \<and>
    (\<forall>i < city_count s. \<forall>j < city_count s. TAU_MIN reals \<le> so_tau s ! i ! j \<and> so_tau s ! i ! j \<le> TAU_MAX reals)"
proof -
  obtain s0 where s0: "new_solver reals R Q n seed ts = Some s0" "solver_ok reals s0"
    "so_tau s0 = replicate (city_count s0) (replicate (city_count s0) (TAU_INIT reals))"
    using reals.new_solver_exact [OF assms(2)] by blast
  let ?s = "solve_rounds reals R Q [0..<MAX_ROUNDS] s0"
  have "entries (city_count s0) reals.in_bounds (so_tau s0)" using reals.within_facts(1) by (simp add: s0(3) entries_def)
  from reals.solve_rounds_within [OF s0(2) assms(1) this, of R "[0..<MAX_ROUNDS]"]
  have "entries (city_count ?s) reals.in_bounds (so_tau ?s)"
    using solve_rounds_ok [OF s0(2) assms(1), of R "[0..<MAX_ROUNDS]"] by simp
  moreover have "route_main reals R Q n seed ts = Some ?s" by (simp add: route_main_def s0(1))
  moreover have bounds: "TAU_MIN reals = 1 / 100" "TAU_MAX reals = 10" by (simp_all add: TAU_MIN_def TAU_MAX_def reals_def of_rat_divide)
  ultimately show ?thesis unfolding entries_def reals.in_bounds_def bounds by blast
qed

theorem pheromone_stays_bounded_witness:
  "\<exists>s. route_main reals tape_random tape_draws 60 1 42 = Some s \<and> (\<forall>i < city_count s. so_tau s ! i ! i \<le> TAU_MAX reals)"
  using pheromone_stays_bounded [OF tape_inside, of tape_random 60 1 42] by blast

subsection \<open>The fluid\<close>

text \<open>
  C39: whatever the arithmetic is, as long as literals keep their order, a run of the fluid on a grid of 18 to 52 rows ends within its 360 steps with
  a grid whose border is closed and whose nozzle is open and inside; walls hold no velocity, density or residence, no velocity points
  from a cell into a wall next to it, and every density is between 0 and 1.4, every residence between 0 and 1.
\<close>

theorem fluid_respects_walls:
  assumes "lits_ordered F"
  shows "\<exists>s. fluid_main F M R n jet ts = Some s \<and> fr_last_step s < 360 \<and> fg_N (fr_grid s) = clamp_grid n \<and> closed_grid (fr_grid s) \<and>
    nozzle_cells (fr_grid s) \<noteq> [] \<and> sized (fr_grid s) \<and> still_walls F (fr_grid s) \<and> no_penetration F (fr_grid s) \<and> bounded_fluid F (fr_grid s)"
proof -
  let ?n = "clamp_grid n"
  have n: "18 \<le> ?n" "?n \<le> 52" "0 < ?n" by (simp_all add: clamp_grid_def)
  from new_fluid_succeeds [OF n(2,3)] obtain s0 where s0: "new_fluid F R ?n ts = Some s0" "fr_grid s0 = new_grid F ?n" by blast
  let ?s = "fluid_rounds F M R (jet_params F jet) [0..<total_steps] s0"
  have "[0..<total_steps] \<noteq> []" by (simp add: total_steps_def)
  with fluid_rounds_ok [OF assms, of s0 M R "jet_params F jet" "[0..<total_steps]"] new_grid_sized [of F ?n]
  have run: "keeps (fr_grid s0) (fr_grid ?s)" "flow_ok F (fr_grid ?s)" "fr_last_step ?s \<in> set [0..<total_steps]" by (simp_all add: s0(2))
  from run(1) have e: "geometry (fr_grid ?s) = geometry (new_grid F ?n)" "sized (fr_grid ?s)"
    using new_grid_sized [of F ?n] by (simp_all add: keeps_def s0(2))
  have "closed_grid (fr_grid ?s) \<and> fg_N (fr_grid ?s) = ?n \<and> nozzle_cells (fr_grid ?s) \<noteq> []"
    using new_grid_closed [OF n(1), of F] unfolding geometry_facts(1,4,6) [OF e(1)] .
  moreover have "fr_last_step ?s < 360" using run(3) by (simp add: total_steps_def)
  moreover have "fluid_main F M R n jet ts = Some ?s" by (simp add: fluid_main_def s0(1))
  ultimately show ?thesis using e(2) run(2) unfolding flow_ok_def by blast
qed

definition real_math :: "real Flow_Math" where
  "real_math = \<lparr>fm_sin = sin, fm_abs = abs, fm_floor = floor, fm_of_int = of_int\<rparr>"

lemma reals_lits_ordered: "lits_ordered reals"
  by (simp add: lits_ordered_def reals_def of_rat_less not_less)

theorem fluid_respects_walls_witness:
  "\<exists>s. fluid_main reals real_math tape_random 34 1 42 = Some s \<and> fg_N (fr_grid s) = 34 \<and> no_penetration reals (fr_grid s)"
proof -
  have "clamp_grid 34 = 34" by (simp add: clamp_grid_def)
  with fluid_respects_walls [OF reals_lits_ordered, of real_math tape_random 34 1 42] show ?thesis by auto
qed

text \<open>
  C40: in exact arithmetic, settling moves density from cell to cell and neither makes nor loses any; if no density is negative or above
  some level of at least 1.15, none is afterwards.
\<close>

theorem settling_keeps_mass:
  assumes "sized g"
  shows "sum_list (fg_density (settle_density reals g)) = sum_list (fg_density g) \<and>
    (\<forall>t \<ge> 115 / 100. (\<forall>d \<in> set (fg_density g). 0 \<le> d \<and> d \<le> t) \<longrightarrow> (\<forall>d \<in> set (fg_density (settle_density reals g)). 0 \<le> d \<and> d \<le> t))"
  using reals.settle_density_law [OF assms] by (simp add: reals.mass_def reals.filled_to_def all_set_conv_all_nth)

theorem settling_keeps_mass_witness:
  "sum_list (fg_density (settle_density reals ((new_grid reals 20)\<lparr>fg_density := replicate 400 (1 / 2)\<rparr>))) = 200"
proof -
  have "fg_N (new_grid reals 20) = 20" using new_grid_closed [of 20 reals] by simp
  with new_grid_sized [of reals 20] have "sized ((new_grid reals 20)\<lparr>fg_density := replicate 400 (1 / 2)\<rparr>)" by (simp add: sized_def)
  from settling_keeps_mass [OF this] show ?thesis by (simp add: sum_list_replicate)
qed

end
