(* ===== verification/Spec2Isabelle.thy ===== *)
theory Spec2Isabelle
  imports Store_Properties Backend_Properties Stream_Properties Materialization_Properties
    Actor_Properties Remote_Properties Pdf_Properties Async_Properties
    Concurrency_Properties Swarm_Properties Agent_Properties Demo_Properties
begin

text \<open>
  A verification development for celer-mem, a C++23 key/value layer over embedded and remote stores.

  \<^bold>\<open>The program.\<close> A store is a tree: the root routes a key \<open>scope:table:rest\<close> to a scope, the scope to a table, and the
  table's leaf holds a type-erased handle of a backend (in memory, RocksDB, SQLite, S3, QPDF). \<open>celer::open\<close> builds the tree from
  table descriptors with a factory per backend; \<open>db(scope).table(name)\<close> reaches a leaf directly. Scans come back as lists or as pull
  streams of chunks over reference-counted buffers; above them sit typed record streams, joins planned by capabilities, and
  materializations that write a stream into a table, in whole or from a stored watermark on.

  \<^bold>\<open>Conventions.\<close> \<open>Result<T>\<close> is the sum \<open>'a result\<close> of an \<open>error\<close> and a value. An operation on the outside world is an \<open>io\<close>: it takes
  the world and returns \<open>None\<close> if it does not return or is undefined behaviour, and otherwise a result and the new world.
  A stream is a function \<open>pull\<close> on its own state and the world. Loops that the code does not bound are \<open>partial_function (option)\<close>; each
  theorem about them states that a value is returned. Sizes are \<open>nat\<close>; where the code narrows to 32 or 64 bits or wraps
  around (chunk sizes, frame headers, hashes, watermarks), it is written out with words. \<open>std::hash\<close> and the iteration order of
  \<open>std::unordered_map\<close> are parameters, and every theorem holds for each. RocksDB, SQLite, the AWS SDK, libqpdf, Snappy and LZ4 are records of functions;
  what is used of their documentation is the assumptions of a locale, which is interpreted on a concrete library.

  \<^bold>\<open>Theories.\<close>
  \<^item> Prelude, Core_Types: errors, results, the \<open>io\<close> and \<open>pull\<close> combinators (\<open>core/result.hpp\<close>, \<open>core/types.hpp\<close>).
  \<^item> Symbol_Table: the open-addressing table of child names (\<open>core/symbol_table.hpp\<close>), refined to a map. The capacity is
    the least power of two that is at least twice the number of names; insertion probes the whole table, lookup a bounded part of it.
  \<^item> Pull_Stream, Stream_Laws, Stream_Contract: streams (\<open>core/stream.hpp\<close>), what a stream yields (\<open>yields\<close>), and the interface of a
    stream that stays finished. Arc_Chunk: chunks on an explicit heap of buffers with 32-bit counts (\<open>core/arc_buf.hpp\<close>),
    which are exact as long as fewer than \<open>2 ^ 32\<close> chunks exist at a time.
    Compression: framing and the two streams (\<open>core/compression.hpp\<close>).
  \<^item> Backend_Handle, Kv_Contract: the erased backend (\<open>backend/concept.hpp\<close>) and the contracts \<open>kv_store\<close> and \<open>kv_backend\<close>, kept by
    Memory_Backend (\<open>examples/04_custom_backend.cpp\<close>), Rocksdb_Backend and Rocksdb_Laws (\<open>src/backend/rocksdb.cpp\<close>). Sqlite_Backend
    and Sqlite_Laws treat \<open>src/backend/sqlite.cpp\<close> with its savepoints, statements and lookups of 256 keys at a time; insertions, deletions
    and the opening and release of a savepoint may fail there.
  \<^item> Composite_Tree, Tree_Builder, Dispatch_Laws: nodes, routing and construction (\<open>core/composite.hpp\<close>, \<open>core/dispatch.hpp\<close>,
    \<open>src/core\<close>). Resource_Stack: \<open>core/resource_stack.hpp\<close>. Api, Api_Laws: store, scopes, tables and result sets (\<open>api/\<close>,
    \<open>src/api/global.cpp\<close>); a store opened in memory is one map from scope, table and key to the value. Tree_Lifecycle: handles opened and closed with a store.
  \<^item> Mat_Codec, Store_Ref, Record_Stream, Planner, Join, Materialize (\<open>materialization/\<close>), with Join_Laws, Join_Batch_Laws
    (every strategy delivers \<open>join_spec\<close>, which is written without the code's rule of emission) and Materialize_Laws (what each mode leaves in the target).
  \<^item> Aws_Credentials, S3_Backend, S3_Laws (\<open>core/aws_credentials.hpp\<close>, \<open>src/backend/s3.cpp\<close>): objects of a bucket, listings by page, uploads
    in numbered parts, of which a later one replaces an earlier one of the same number. Qpdf_Backend, Qpdf_Laws (\<open>src/backend/qpdf.cpp\<close>): dictionaries of a PDF document, and its file.
  \<^item> Async_Stream, Async_Laws (\<open>core/poll_result.hpp\<close>, \<open>core/async_stream.hpp\<close>): pollable streams, what polling one to its end delivers.
  \<^item> Deque, Deque_Laws, Scheduler, Scheduler_Laws (\<open>core/scheduler.hpp\<close>): the work-stealing deque, cut at every access to its shared
    variables and interleaved in every way with thieves, refines a queue open at both ends until its owner loses a race; the scheduler on
    top of it, with calls on a deque as single steps, conserves leases in runs where no two calls on a deque overlap. Task_Pool, Task_Pool_Laws (\<open>core/task_pool.hpp\<close>): the thread pool.
    Bags: what the members of a list hold.
  \<^item> Channel, Actor_System, Actor_Laws (\<open>necto/channel.hpp\<close>, \<open>necto/actor.hpp\<close>): bounded inboxes and actors; a run of the system is
    an inductive relation (every operation but \<open>channel_push\<close> and \<open>channel_drain\<close>, which bypass and clear the deduplication), and the
    invariants hold in every reachable state.
  \<^item> Swarm_Types, Pheromone, Swarm_Field, Morph_Scheduler, Cluster_Service, Swarm (\<open>necto/swarm/\<close>): agents with headings, pheromone graphs,
    morphs and clusters over the actor system; floats and random numbers are parameters. Swarm_Laws: membership of clusters as an
    invariant of every sequence of operations; the rounds of a run to convergence, deposits.
  \<^item> Std_Text, Http_Client, Agent_Memory (\<open>examples/05_agent_memory.cpp\<close>): a client of the store that keeps a
    conversation in two tables and replaces long histories by a summary. Agent_Memory_Laws: how the tables hold a conversation.
    Agent_Conversation: every operation of the agent follows a specification on conversations alone, on tables that keep the contract of
    \<open>agent_store\<close>; sockets and the file system are parameters, and the loop that receives returns when the peer stops sending.
  \<^item> Swarm_Demo: the swarm of a demonstration, and that setting it up succeeds.
  \<^item> Tour, Route_Solver (\<open>examples/10_route_solver.cpp\<close>): an ant colony on the swarm: tours, 2-opt, the pheromone matrix, the rounds.
    Tour_Laws, Route_Laws: tours stay permutations, whatever the numbers are; setting up always succeeds; lengths and pheromone in
    exact arithmetic (the locales \<open>exact_float\<close> and \<open>exact_division\<close>, interpreted on the real numbers). The 200 rounds are the bound of the code.
  \<^item> Fluid (\<open>examples/09_fluid_ripple.cpp\<close>): a fluid on a grid with walls, and its swarm with one agent for each cell. Fluid_Laws: the
    closed geometry, which every operation keeps; walls; bounds; settling. A run has at most the 360 steps of the code.
  \<^item> Store_Properties, Backend_Properties, Stream_Properties, Materialization_Properties, Actor_Properties, Remote_Properties,
    Pdf_Properties, Async_Properties, Concurrency_Properties, Swarm_Properties, Agent_Properties, Demo_Properties: the
    properties of the program.

  \<^bold>\<open>Not modelled.\<close> Threads: reference counting, channels and the asynchronous streams are sequences of atomic steps. The scheduler, its deque and the
  task pool are interleavings of the threads' steps under sequential consistency; the reorderings that weaker memory orders allow and
  the data race on a slot that a thief reads and then discards are not covered. Compile-time machinery (concepts, reflection of schemas) has no run-time behaviour to state.
  Of the programs under \<open>examples/\<close>, the backend of \<open>04_custom_backend.cpp\<close> and the whole of \<open>05_agent_memory.cpp\<close> are modelled,
  and \<open>09_fluid_ripple.cpp\<close> and \<open>10_route_solver.cpp\<close> but for what they print; rounding of floats is not, so lengths and sums are compared in exact arithmetic only. The others
  set up the components above, time them and print.
\<close>

end
